(* ===== verification/Repath_Prelude.thy ===== *)
theory Repath_Prelude
  imports Main "HOL-Library.Word"
begin

text \<open>
  What every component of the development shares: the widths of the C integer types, the
  ways a C function can fail to return (as values), big-endian storage, the memory layout
  of a C struct, arrays with their bounds, and the part of IEEE double arithmetic that the
  control plane uses.  The collections \<open>fault_simps\<close> and \<open>layout_simps\<close> and the rules
  declared \<open>[simp]\<close> here carry the proofs of the component theories.
\<close>

unbundle bit_operations_syntax

named_theorems fault_simps \<comment> \<open>how faults propagate through a sequence of C statements\<close>
named_theorems layout_simps \<comment> \<open>how sizes of C structs are computed\<close>

section \<open>Integers of fixed width\<close>

type_synonym u8 = "8 word"
type_synonym u16 = "16 word"
type_synonym u32 = "32 word"
type_synonym u64 = "64 word"

lemma uint_word_of_int_range:
  "0 \<le> x \<Longrightarrow> x < 2 ^ LENGTH('a) \<Longrightarrow> uint (word_of_int x :: 'a::len word) = x"
  by (simp add: uint_word_of_int take_bit_int_eq_self)

lemma unat_ucast_u32_u64 [simp]: "unat (ucast (x :: u32) :: u64) = unat x"
proof -
  have "unat x < 2 ^ 32" using unsigned_less [of x] by simp
  then have "unat x < 2 ^ 64" by simp
  then show ?thesis by (simp add: unsigned_ucast_eq take_bit_nat_eq_self)
qed

section \<open>Faults\<close>

text \<open>
  A C function that reads or writes outside an array, uses a null pointer, divides by zero
  or leaves the process does not return.  A model returns \<open>Inl\<close> of the fault there, and
  \<open>Inr\<close> of the value where the code returns one.
\<close>

datatype c_fault =
    Null_Deref
  | Out_Of_Bounds
  | Div_By_Zero
  | Exit_Process int
  | Assert_Failed
  | Bad_Conversion
  | Bad_Shift

type_synonym 'a c_result = "c_fault + 'a"

definition bindr :: "'a c_result \<Rightarrow> ('a \<Rightarrow> 'b c_result) \<Rightarrow> 'b c_result" where
  "bindr m f = (case m of Inl e \<Rightarrow> Inl e | Inr x \<Rightarrow> f x)"

lemma bindr_Inl [simp]: "bindr (Inl e) f = Inl e"
  and bindr_Inr [simp]: "bindr (Inr x) f = f x"
  by (simp_all add: bindr_def)

lemma bindr_eq_Inr_iff [fault_simps]:
  "bindr m f = Inr y \<longleftrightarrow> (\<exists>x. m = Inr x \<and> f x = Inr y)"
  by (cases m) auto

lemma bindr_eq_Inl_iff [fault_simps]:
  "bindr m f = Inl e \<longleftrightarrow> m = Inl e \<or> (\<exists>x. m = Inr x \<and> f x = Inl e)"
  by (cases m) auto

lemma bindr_assoc: "bindr (bindr m f) g = bindr m (\<lambda>x. bindr (f x) g)"
  by (cases m) auto

section \<open>Arrays\<close>

text \<open>Reads and writes of a C array: outside the bounds the behaviour is undefined.\<close>

definition arr_get :: "'a list \<Rightarrow> nat \<Rightarrow> 'a c_result" where
  "arr_get xs i = (if i < length xs then Inr (xs ! i) else Inl Out_Of_Bounds)"

definition arr_set :: "'a list \<Rightarrow> nat \<Rightarrow> 'a \<Rightarrow> 'a list c_result" where
  "arr_set xs i x = (if i < length xs then Inr (xs[i := x]) else Inl Out_Of_Bounds)"

lemma arr_get_in [simp]: "i < length xs \<Longrightarrow> arr_get xs i = Inr (xs ! i)"
  and arr_get_out [simp]: "length xs \<le> i \<Longrightarrow> arr_get xs i = Inl Out_Of_Bounds"
  by (simp_all add: arr_get_def)

lemma arr_set_in [simp]: "i < length xs \<Longrightarrow> arr_set xs i x = Inr (xs[i := x])"
  and arr_set_out [simp]: "length xs \<le> i \<Longrightarrow> arr_set xs i x = Inl Out_Of_Bounds"
  by (simp_all add: arr_set_def)

lemma arr_set_eq_Inr_iff [fault_simps]:
  "arr_set xs i x = Inr ys \<longleftrightarrow> i < length xs \<and> ys = xs[i := x]"
  by (auto simp: arr_set_def)

lemma arr_get_eq_Inr_iff [fault_simps]:
  "arr_get xs i = Inr y \<longleftrightarrow> i < length xs \<and> y = xs ! i"
  by (auto simp: arr_get_def)

section \<open>Association lists by position\<close>

text \<open>Changing or removing the entry at a position changes the map at its key.\<close>

lemma map_of_list_update:
  "i < length xs \<Longrightarrow> distinct (map fst xs) \<Longrightarrow>
     map_of (xs[i := (fst (xs ! i), v)]) = (map_of xs)(fst (xs ! i) \<mapsto> v)"
proof (induction xs arbitrary: i)
  case (Cons x xs)
  show ?case
  proof (cases i)
    case 0
    then show ?thesis by (cases x) (auto simp: fun_eq_iff)
  next
    case (Suc j)
    then have "fst x \<noteq> fst (xs ! j)" "j < length xs" using Cons.prems by auto
    then show ?thesis using Cons.IH [of j] Cons.prems Suc
      by (cases x) (auto simp: fun_upd_twist)
  qed
qed simp

lemma map_fst_list_update:
  "map fst (xs[i := (fst (xs ! i), v)]) = map fst xs"
  by (cases "i < length xs") (simp_all add: map_update list_update_same_conv list_update_beyond)

lemma map_of_list_remove:
  "i < length xs \<Longrightarrow> distinct (map fst xs) \<Longrightarrow>
     map_of (take i xs @ drop (Suc i) xs) = (map_of xs)(fst (xs ! i) := None)"
proof (induction xs arbitrary: i)
  case (Cons x xs)
  have none: "map_of xs (fst x) = None" using Cons.prems(2) by (simp add: map_of_eq_None_iff)
  show ?case
  proof (cases i)
    case 0
    then show ?thesis using none by (cases x) (auto simp: fun_eq_iff)
  next
    case (Suc j)
    then have "fst x \<noteq> fst (xs ! j)" "j < length xs" using Cons.prems by auto
    then show ?thesis using Cons.IH [of j] Cons.prems Suc
      by (cases x) (auto simp: fun_upd_twist)
  qed
qed simp

lemma distinct_remove_nth [intro]:
  "distinct xs \<Longrightarrow> distinct (take i xs @ drop (Suc i) xs)"
  by (simp add: set_take_disj_set_drop_if_distinct)

lemma update_split: "i < length xs \<Longrightarrow> xs[i := x] = take i xs @ x # drop (Suc i) xs"
  by (simp add: upd_conv_take_nth_drop)

lemma length_filter_update:
  assumes "j < length xs"
  shows "length (filter P (xs[j := x])) + (if P (xs ! j) then 1 else 0) =
           length (filter P xs) + (if P x then 1 else 0)"
proof -
  have "filter P xs = filter P (take j xs) @ filter P (xs ! j # drop (Suc j) xs)"
    by (subst id_take_nth_drop [OF assms]) (simp only: filter_append)
  then show ?thesis using assms by (simp add: update_split)
qed

lemma map_list_update_same:
  "f y = f (xs ! i) \<Longrightarrow> map f (xs[i := y]) = map f xs"
  by (cases "i < length xs") (simp_all add: map_update list_update_same_conv list_update_beyond)

text \<open>The first position at which a predicate holds, counted from \<open>i\<close>.\<close>

fun find_index_from :: "nat \<Rightarrow> ('a \<Rightarrow> bool) \<Rightarrow> 'a list \<Rightarrow> nat option" where
  "find_index_from i P [] = None"
| "find_index_from i P (x # xs) = (if P x then Some i else find_index_from (Suc i) P xs)"

lemma find_index_from_None_iff [simp]:
  "find_index_from i P xs = None \<longleftrightarrow> (\<forall>x\<in>set xs. \<not> P x)"
  by (induction xs arbitrary: i) auto

lemma find_index_from_SomeD:
  "find_index_from k P xs = Some i \<Longrightarrow>
     k \<le> i \<and> i - k < length xs \<and> P (xs ! (i - k)) \<and> (\<forall>j<i - k. \<not> P (xs ! j))"
proof (induction xs arbitrary: k)
  case (Cons x xs)
  show ?case
  proof (cases "P x")
    case True
    then show ?thesis using Cons.prems by simp
  next
    case False
    then have rest: "Suc k \<le> i" "i - Suc k < length xs" "P (xs ! (i - Suc k))"
        "\<forall>j<i - Suc k. \<not> P (xs ! j)"
      using Cons by simp_all
    then have "i - k = Suc (i - Suc k)" by simp
    then show ?thesis using rest False by (auto simp: less_Suc_eq_0_disj)
  qed
qed simp

section \<open>Bounds of words\<close>

lemma unat_u32_less: "unat (w :: u32) < 4294967296"
  using unsigned_less [of w, where ?'a = nat] by simp

lemma uint_u32_less: "uint (w :: u32) < 4294967296"
  using unsigned_less [of w, where ?'a = int] by simp

lemma unat_u64_less: "unat (w :: u64) < 18446744073709551616"
  using unsigned_less [of w, where ?'a = nat] by simp

section \<open>Unsigned division\<close>

definition u64_div :: "u64 \<Rightarrow> u64 \<Rightarrow> u64 c_result" where
  "u64_div a b = (if b = 0 then Inl Div_By_Zero else Inr (a div b))"

lemma u64_div_simps [simp]:
  "u64_div a 0 = Inl Div_By_Zero"
  "b \<noteq> 0 \<Longrightarrow> u64_div a b = Inr (a div b)"
  by (simp_all add: u64_div_def)

section \<open>Big-endian storage\<close>

text \<open>
  \<open>be_bytes n w\<close> are the \<open>n\<close> low bytes of \<open>w\<close>, most significant first: what
  \<open>rte_cpu_to_be_16/32/64\<close> store in memory.  \<open>be_join\<close> reads them back.
\<close>

primrec be_bytes :: "nat \<Rightarrow> 'a::len word \<Rightarrow> u8 list" where
  "be_bytes 0 w = []"
| "be_bytes (Suc n) w = ucast (drop_bit (8 * n) w) # be_bytes n w"

definition be_join :: "u8 list \<Rightarrow> 'a::len word" where
  "be_join bs = foldl (\<lambda>acc b. push_bit 8 acc OR ucast b) 0 bs"

lemma length_be_bytes [simp]: "length (be_bytes n w) = n"
  by (induction n) auto

lemma be_step:
  fixes w acc :: "'a::len word"
  shows "push_bit (8 * n) (push_bit 8 acc OR ucast (ucast (drop_bit (8 * n) w) :: u8)) OR
         take_bit (8 * n) w
       = push_bit (8 * Suc n) acc OR take_bit (8 * Suc n) w" (is "?l = ?r")
proof (rule bit_word_eqI)
  fix k assume k: "k < LENGTH('a)"
  show "bit ?l k = bit ?r k"
    using k
    by (cases "k < 8 * n"; cases "k < 8 * Suc n")
       (auto simp: bit_simps not_less add.commute [of "8 * n" 8])
qed

lemma foldl_be_bytes:
  fixes w acc :: "'a::len word"
  shows "foldl (\<lambda>acc b. push_bit 8 acc OR ucast b) acc (be_bytes n w)
       = push_bit (8 * n) acc OR take_bit (8 * n) w"
proof (induction n arbitrary: acc)
  case 0
  show ?case by simp
next
  case (Suc n)
  show ?case by (simp only: be_bytes.simps foldl_Cons Suc.IH be_step)
qed

lemma be_join_be_bytes:
  fixes w :: "'a::len word"
  assumes "LENGTH('a) \<le> 8 * n"
  shows "be_join (be_bytes n w) = w"
  using assms by (simp add: be_join_def foldl_be_bytes take_bit_word_eq_self)

definition cpu_to_be_16 :: "u16 \<Rightarrow> u8 list" where
  "cpu_to_be_16 w = be_bytes 2 w"

definition be_to_cpu_16 :: "u8 list \<Rightarrow> u16" where
  "be_to_cpu_16 bs = be_join bs"

definition cpu_to_be_32 :: "u32 \<Rightarrow> u8 list" where
  "cpu_to_be_32 w = be_bytes 4 w"

definition be_to_cpu_32 :: "u8 list \<Rightarrow> u32" where
  "be_to_cpu_32 bs = be_join bs"

definition cpu_to_be_64 :: "u64 \<Rightarrow> u8 list" where
  "cpu_to_be_64 w = be_bytes 8 w"

definition be_to_cpu_64 :: "u8 list \<Rightarrow> u64" where
  "be_to_cpu_64 bs = be_join bs"

lemma be_16_roundtrip [simp]: "be_to_cpu_16 (cpu_to_be_16 w) = w"
  and be_32_roundtrip [simp]: "be_to_cpu_32 (cpu_to_be_32 v) = v"
  and be_64_roundtrip [simp]: "be_to_cpu_64 (cpu_to_be_64 x) = x"
  by (simp_all add: be_to_cpu_16_def cpu_to_be_16_def be_to_cpu_32_def cpu_to_be_32_def
      be_to_cpu_64_def cpu_to_be_64_def be_join_be_bytes)

lemma cpu_to_be_16_inj [simp]: "cpu_to_be_16 a = cpu_to_be_16 b \<longleftrightarrow> a = b"
  by (metis be_16_roundtrip)

section \<open>Struct layout\<close>

text \<open>
  The members of an unpacked C struct of scalar members: each is aligned to its own size,
  and the size of the struct is a multiple of the largest alignment (System V ABI).
\<close>

definition align_up :: "nat \<Rightarrow> nat \<Rightarrow> nat" where
  "align_up a n = (n + a - 1) div a * a"

fun struct_end :: "nat \<Rightarrow> nat list \<Rightarrow> nat" where
  "struct_end off [] = off"
| "struct_end off (s # ss) = struct_end (align_up s off + s) ss"

definition struct_sizeof :: "nat list \<Rightarrow> nat" where
  "struct_sizeof ss = align_up (foldr max ss 1) (struct_end 0 ss)"

lemmas struct_layout [layout_simps] = struct_sizeof_def align_up_def

end
