(* ===== verification/Net_Headers.thy ===== *)
theory Net_Headers
  imports Repath_Prelude
begin

text \<open>
  The packet headers both control planes fill in (\<open>src/repath_cp/src/hopa_cp.c\<close> and the
  HOPA part of \<open>ovs-vswitchd.c\<close>), field by field as the code names them, with every
  big-endian field as the bytes that are in memory, and the HOPA enumerations.  The two
  checksum routines are DPDK's and stay parameters: a checksum is an arbitrary function of
  the memory it is computed over.  The clock is the value \<open>clock_gettime\<close> returned.
\<close>

section \<open>Enumerations\<close>

datatype hopa_module = HOPA_CP | HOPA_DP

primrec hopa_module_code :: "hopa_module \<Rightarrow> u8" where
  "hopa_module_code HOPA_CP = 0"
| "hopa_module_code HOPA_DP = 1"

datatype hopa_cp_flag = PROBE | REPATH | REPATH_ACK

primrec hopa_cp_flag_code :: "hopa_cp_flag \<Rightarrow> u8" where
  "hopa_cp_flag_code PROBE = 0"
| "hopa_cp_flag_code REPATH = 1"
| "hopa_cp_flag_code REPATH_ACK = 2"

lemma hopa_module_code_eq_iff [simp]:
  "hopa_module_code a = hopa_module_code b \<longleftrightarrow> a = b"
  by (cases a; cases b) auto

lemma hopa_cp_flag_code_eq_iff [simp]:
  "hopa_cp_flag_code a = hopa_cp_flag_code b \<longleftrightarrow> a = b"
  by (cases a; cases b) auto

section \<open>Ethernet, IPv4 and UDP headers\<close>

record eth_hdr =
  s_addr :: "u8 list"
  d_addr :: "u8 list"
  ether_type :: "u8 list"

record ipv4_hdr =
  version_ihl :: u8
  type_of_service :: u8
  total_length :: "u8 list"
  packet_id :: "u8 list"
  fragment_offset :: "u8 list"
  time_to_live :: u8
  next_proto_id :: u8
  hdr_checksum :: "u8 list"
  src_addr :: "u8 list"
  dst_addr :: "u8 list"

record udp_hdr =
  src_port :: "u8 list"
  dst_port :: "u8 list"
  dgram_len :: "u8 list"
  dgram_cksum :: "u8 list"

text \<open>Sizes of the three headers on the wire (they are packed).\<close>

definition sizeof_ether_hdr :: nat where "sizeof_ether_hdr = 14"
definition sizeof_ipv4_hdr :: nat where "sizeof_ipv4_hdr = 20"
definition sizeof_udp_hdr :: nat where "sizeof_udp_hdr = 8"

lemmas header_sizes [layout_simps] =
  sizeof_ether_hdr_def sizeof_ipv4_hdr_def sizeof_udp_hdr_def

definition ETHER_TYPE_IPV4 :: u16 where "ETHER_TYPE_IPV4 = 0x0800"
definition IPPROTO_UDP :: u8 where "IPPROTO_UDP = 17"

text \<open>\<open>IPV4_ADDR\<close>: the macro of \<open>hopa_cp.h\<close> and of \<open>ovs-vswitchd.c\<close>.\<close>

definition IPV4_ADDR :: "u32 \<Rightarrow> u32 \<Rightarrow> u32 \<Rightarrow> u32 \<Rightarrow> u32" where
  "IPV4_ADDR a b c d =
     ((push_bit 24 (a AND 0xff) OR push_bit 16 (b AND 0xff)) OR push_bit 8 (c AND 0xff))
     OR (d AND 0xff)"

text \<open>
  \<open>PRINT_IP_ADDR\<close> prints the four bytes of an address; \<open>ip_octets\<close> are the numbers it
  prints.
\<close>

definition ip_octets :: "u32 \<Rightarrow> u32 list" where
  "ip_octets ip = [drop_bit 24 ip AND 0xFF, drop_bit 16 ip AND 0xFF,
                   drop_bit 8 ip AND 0xFF, ip AND 0xFF]"

section \<open>The clock\<close>

record timespec =
  tv_sec :: u64
  tv_nsec :: u64

text \<open>\<open>(uint64_t)ts.tv_sec * 1000000000 + ts.tv_nsec\<close>, in 64-bit arithmetic.\<close>

definition timespec_ns :: "timespec \<Rightarrow> u64" where
  "timespec_ns ts = tv_sec ts * 1000000000 + tv_nsec ts"

lemma unat_timespec_ns:
  assumes "unat (tv_sec ts) * 1000000000 + unat (tv_nsec ts) < 2 ^ 64"
  shows "unat (timespec_ns ts) = unat (tv_sec ts) * 1000000000 + unat (tv_nsec ts)"
proof -
  have "unat (tv_sec ts * (1000000000 :: u64)) = unat (tv_sec ts) * 1000000000"
    using assms by (subst unat_mult_lem [THEN iffD1]) simp_all
  then show ?thesis
    using assms unfolding timespec_ns_def
    by (subst unat_add_lem [THEN iffD1]) simp_all
qed

end
