(* ===== verification/Hopa_Packet.thy ===== *)
theory Hopa_Packet
  imports Net_Headers
begin

text \<open>
  Packets of the stand-alone control plane: the headers of \<open>src/repath_cp/include/hopa_cp.h\<close>
  and the encoders of \<open>src/repath_cp/src/hopa_cp.c\<close>.  An \<open>mbuf\<close> is the memory of the four
  header areas that the successive calls of \<open>rte_pktmbuf_append\<close> return; a buffer fresh
  from the pool holds arbitrary bytes there, so an encoder is a function from the old
  contents to the new ones, and a field it does not assign keeps its old value.
\<close>

section \<open>Headers\<close>

record hopa_cp_hdr =
  hc_flag :: u8
  hc_cp_flag :: u8
  hc_ts :: "u8 list"
  hc_repath_id :: u8
  hc_seq :: "u8 list"
  hc_ack :: "u8 list"
  hc_rsvd :: u8

record hopa_dp_hdr =
  hd_flag :: u8
  hd_ts :: "u8 list"
  hd_rsvd :: u8
  hd_seq_nb :: "u8 list"
  hd_seg_end :: u8

text \<open>\<open>sizeof(struct hopa_cp_hdr)\<close>: three bytes and three 64-bit members, interleaved.\<close>

definition sizeof_hopa_cp_hdr :: nat where
  "sizeof_hopa_cp_hdr = struct_sizeof [1, 1, 8, 1, 8, 8, 1]"

definition sizeof_hopa_dp_hdr :: nat where
  "sizeof_hopa_dp_hdr = struct_sizeof [1, 8, 1, 4, 1]"

lemma sizeof_hopa_cp_hdr_48 [simp]: "sizeof_hopa_cp_hdr = 48"
  and sizeof_hopa_dp_hdr_32 [simp]: "sizeof_hopa_dp_hdr = 32"
  by (simp_all add: sizeof_hopa_cp_hdr_def sizeof_hopa_dp_hdr_def layout_simps)

record mbuf =
  m_eth :: eth_hdr
  m_ip :: ipv4_hdr
  m_udp :: udp_hdr
  m_cp :: hopa_cp_hdr

text \<open>
  DPDK's checksum routines: of an IPv4 header, and of a UDP datagram, which is the UDP
  header and the payload in memory behind it, with the pseudo header taken from IPv4.
\<close>

record cksum_env =
  rte_ipv4_cksum :: "ipv4_hdr \<Rightarrow> u8 list"
  rte_ipv4_udptcp_cksum :: "ipv4_hdr \<Rightarrow> udp_hdr \<Rightarrow> hopa_cp_hdr \<Rightarrow> u8 list"

section \<open>Constants of hopa_cp.h\<close>

definition SRC_MAC :: "u8 list" where "SRC_MAC = [0x08, 0xc0, 0xeb, 0xbf, 0xef, 0x9a]"
definition DST_MAC :: "u8 list" where "DST_MAC = [0x08, 0xc0, 0xeb, 0xbf, 0xef, 0x82]"
definition SRC_IP :: u32 where "SRC_IP = IPV4_ADDR 192 168 200 2"
definition DST_IP :: u32 where "DST_IP = IPV4_ADDR 192 168 200 1"
definition PATH_NB :: nat where "PATH_NB = 4"
definition SRC_PORT :: u16 where "SRC_PORT = 1234"
definition DST_PORT_PATH_1 :: u16 where "DST_PORT_PATH_1 = 5678"
definition BURST_SIZE :: nat where "BURST_SIZE = 32"

lemmas hopa_consts =
  SRC_MAC_def DST_MAC_def SRC_IP_def DST_IP_def SRC_PORT_def DST_PORT_PATH_1_def

section \<open>Encoders\<close>

definition fill_eth_header :: "eth_hdr \<Rightarrow> eth_hdr" where
  "fill_eth_header eth =
     eth\<lparr>s_addr := SRC_MAC, d_addr := DST_MAC, ether_type := cpu_to_be_16 ETHER_TYPE_IPV4\<rparr>"

text \<open>
  The checksum is computed last, over the header as it then is: \<open>hdr_checksum\<close> itself
  still holds what was in the buffer.
\<close>

definition fill_ipv4_header :: "cksum_env \<Rightarrow> ipv4_hdr \<Rightarrow> ipv4_hdr" where
  "fill_ipv4_header env ip =
     (let ip' = ip\<lparr>version_ihl := push_bit 4 4 + 5,
                   type_of_service := 0,
                   total_length := cpu_to_be_16
                     (of_nat (sizeof_ipv4_hdr + sizeof_udp_hdr + sizeof_hopa_cp_hdr)),
                   packet_id := cpu_to_be_16 5462,
                   fragment_offset := cpu_to_be_16 0,
                   time_to_live := 64,
                   next_proto_id := IPPROTO_UDP,
                   src_addr := cpu_to_be_32 SRC_IP,
                   dst_addr := cpu_to_be_32 DST_IP\<rparr>
      in ip'\<lparr>hdr_checksum := rte_ipv4_cksum env ip'\<rparr>)"

text \<open>
  \<open>payload\<close> is the memory behind the UDP header at the time of the call: the HOPA header
  is written after \<open>fill_udp_header\<close> has returned.
\<close>

definition fill_udp_header ::
  "cksum_env \<Rightarrow> ipv4_hdr \<Rightarrow> udp_hdr \<Rightarrow> hopa_cp_hdr \<Rightarrow> u16 \<Rightarrow> udp_hdr" where
  "fill_udp_header env ip udp payload port =
     (let udp' = udp\<lparr>src_port := cpu_to_be_16 SRC_PORT,
                     dst_port := cpu_to_be_16 port,
                     dgram_len := cpu_to_be_16
                       (of_nat (sizeof_udp_hdr + sizeof_hopa_cp_hdr))\<rparr>
      in udp'\<lparr>dgram_cksum := rte_ipv4_udptcp_cksum env ip udp' payload\<rparr>)"

text \<open>
  \<open>encode_udp_pkt\<close>: \<open>pool\<close> says whether the global \<open>mbuf_pool\<close> is set, \<open>alloc\<close> is what
  \<open>rte_pktmbuf_alloc\<close> returns.  The result \<open>None\<close> is the null pointer.
\<close>

definition encode_udp_pkt ::
  "cksum_env \<Rightarrow> bool \<Rightarrow> mbuf option \<Rightarrow> u16 \<Rightarrow> mbuf option c_result" where
  "encode_udp_pkt env pool alloc port =
     (if \<not> pool then Inr None
      else case alloc of
        None \<Rightarrow> Inl (Exit_Process 1)
      | Some m \<Rightarrow>
          let eth = fill_eth_header (m_eth m);
              ip = fill_ipv4_header env (m_ip m);
              udp = fill_udp_header env ip (m_udp m) (m_cp m) port
          in Inr (Some (m\<lparr>m_eth := eth, m_ip := ip, m_udp := udp\<rparr>)))"

text \<open>\<open>rte_pktmbuf_append\<close> on the null pointer faults.\<close>

definition the_mbuf :: "mbuf option \<Rightarrow> mbuf c_result" where
  "the_mbuf m = (case m of None \<Rightarrow> Inl Null_Deref | Some x \<Rightarrow> Inr x)"

lemma the_mbuf_simps [simp]:
  "the_mbuf None = Inl Null_Deref" "the_mbuf (Some m) = Inr m"
  by (simp_all add: the_mbuf_def)

text \<open>
  \<open>encode_probe_pkt\<close>: the header fields first, then the clock (\<open>None\<close>: \<open>clock_gettime\<close>
  failed), then the time stamp.
\<close>

definition encode_probe_pkt ::
  "cksum_env \<Rightarrow> bool \<Rightarrow> mbuf option \<Rightarrow> timespec option \<Rightarrow> u8 \<Rightarrow> mbuf c_result" where
  "encode_probe_pkt env pool alloc clock path_id =
     bindr (encode_udp_pkt env pool alloc (DST_PORT_PATH_1 - 1 + ucast path_id)) (\<lambda>p.
     bindr (the_mbuf p) (\<lambda>m.
       let h = (m_cp m)\<lparr>hc_flag := hopa_module_code HOPA_CP,
                        hc_cp_flag := hopa_cp_flag_code PROBE,
                        hc_rsvd := 0, hc_repath_id := 0,
                        hc_seq := cpu_to_be_64 0, hc_ack := cpu_to_be_64 0\<rparr>
       in case clock of
            None \<Rightarrow> Inl (Exit_Process 1)
          | Some ts \<Rightarrow> Inr (m\<lparr>m_cp := h\<lparr>hc_ts := cpu_to_be_64 (timespec_ns ts)\<rparr>\<rparr>)))"

text \<open>\<open>encode_repath_pkt\<close> sends over the port computed from the global \<open>opt_path_id\<close>.\<close>

definition encode_repath_pkt ::
  "cksum_env \<Rightarrow> bool \<Rightarrow> mbuf option \<Rightarrow> u8 \<Rightarrow> u8 \<Rightarrow> mbuf c_result" where
  "encode_repath_pkt env pool alloc opt_path_id repath_id =
     bindr (encode_udp_pkt env pool alloc (DST_PORT_PATH_1 - 1 + ucast opt_path_id)) (\<lambda>p.
     bindr (the_mbuf p) (\<lambda>m.
       Inr (m\<lparr>m_cp := (m_cp m)\<lparr>hc_flag := hopa_module_code HOPA_CP,
                                hc_cp_flag := hopa_cp_flag_code REPATH,
                                hc_rsvd := 0, hc_repath_id := repath_id,
                                hc_seq := cpu_to_be_64 0, hc_ack := cpu_to_be_64 0\<rparr>\<rparr>)))"

definition encode_repath_ack_pkt ::
  "cksum_env \<Rightarrow> bool \<Rightarrow> mbuf option \<Rightarrow> u8 \<Rightarrow> mbuf c_result" where
  "encode_repath_ack_pkt env pool alloc opt_path_id =
     bindr (encode_udp_pkt env pool alloc (DST_PORT_PATH_1 - 1 + ucast opt_path_id)) (\<lambda>p.
     bindr (the_mbuf p) (\<lambda>m.
       Inr (m\<lparr>m_cp := (m_cp m)\<lparr>hc_flag := hopa_module_code HOPA_CP,
                                hc_cp_flag := hopa_cp_flag_code REPATH_ACK,
                                hc_rsvd := 0, hc_repath_id := 0,
                                hc_seq := cpu_to_be_64 0, hc_ack := cpu_to_be_64 0\<rparr>\<rparr>)))"

text \<open>
  The dispatch of \<open>lcore_stats\<close> reads four fields of a received buffer; \<open>packet_path_id\<close>
  is the path a probe belongs to, an 8-bit value.
\<close>

definition packet_path_id :: "mbuf \<Rightarrow> u8" where
  "packet_path_id m = ucast (be_to_cpu_16 (dst_port (m_udp m)) - DST_PORT_PATH_1)"

definition is_hopa_packet :: "mbuf \<Rightarrow> bool" where
  "is_hopa_packet m \<longleftrightarrow> next_proto_id (m_ip m) = IPPROTO_UDP \<and>
                        be_to_cpu_16 (src_port (m_udp m)) = SRC_PORT"

section \<open>Facts about the encoders\<close>

lemmas encode_defs =
  encode_probe_pkt_def encode_repath_pkt_def encode_repath_ack_pkt_def

lemma fill_ipv4_header_fields [simp]:
  "next_proto_id (fill_ipv4_header env ip) = IPPROTO_UDP"
  "version_ihl (fill_ipv4_header env ip) = 0x45"
  "total_length (fill_ipv4_header env ip) = cpu_to_be_16 76"
  "src_addr (fill_ipv4_header env ip) = cpu_to_be_32 SRC_IP"
  "dst_addr (fill_ipv4_header env ip) = cpu_to_be_32 DST_IP"
  by (simp_all add: fill_ipv4_header_def Let_def layout_simps)

lemma fill_udp_header_fields [simp]:
  "src_port (fill_udp_header env ip udp pl port) = cpu_to_be_16 SRC_PORT"
  "dst_port (fill_udp_header env ip udp pl port) = cpu_to_be_16 port"
  "dgram_len (fill_udp_header env ip udp pl port) = cpu_to_be_16 56"
  by (simp_all add: fill_udp_header_def Let_def layout_simps)

text \<open>The buffer \<open>encode_udp_pkt\<close> returns when there is one, and the two other outcomes.\<close>

definition udp_frame :: "cksum_env \<Rightarrow> mbuf \<Rightarrow> u16 \<Rightarrow> mbuf" where
  "udp_frame env m port =
     m\<lparr>m_eth := fill_eth_header (m_eth m), m_ip := fill_ipv4_header env (m_ip m),
       m_udp := fill_udp_header env (fill_ipv4_header env (m_ip m)) (m_udp m) (m_cp m) port\<rparr>"

lemma encode_udp_pkt_cases [simp]:
  "encode_udp_pkt env False alloc port = Inr None"
  "encode_udp_pkt env True None port = Inl (Exit_Process 1)"
  "encode_udp_pkt env True (Some m) port = Inr (Some (udp_frame env m port))"
  by (simp_all add: encode_udp_pkt_def udp_frame_def Let_def)

lemma udp_frame_fields [simp]:
  "m_cp (udp_frame env m port) = m_cp m"
  "m_ip (udp_frame env m port) = fill_ipv4_header env (m_ip m)"
  "src_port (m_udp (udp_frame env m port)) = cpu_to_be_16 SRC_PORT"
  "dst_port (m_udp (udp_frame env m port)) = cpu_to_be_16 port"
  by (simp_all add: udp_frame_def)

lemma ucast_u16_pred [simp]: "(ucast (ucast (p :: u8) - 1 :: u16) :: u8) = p - 1"
  by transfer (simp add: take_bit_eq_mod mod_simps mod_mod_cancel)

lemma path_of_port:
  "(ucast (DST_PORT_PATH_1 - 1 + ucast (p :: u8) - DST_PORT_PATH_1 :: u16) :: u8) = p - 1"
  using ucast_u16_pred [of p] by (simp add: DST_PORT_PATH_1_def algebra_simps)

text \<open>The receiver's view of the three kinds of packets.\<close>

lemma encode_probe_pkt_Some [simp]:
  "encode_probe_pkt env True (Some m) (Some ts) p =
     Inr ((udp_frame env m (DST_PORT_PATH_1 - 1 + ucast p))\<lparr>m_cp := (m_cp m)
       \<lparr>hc_flag := 0, hc_cp_flag := 0, hc_rsvd := 0, hc_repath_id := 0,
        hc_seq := cpu_to_be_64 0, hc_ack := cpu_to_be_64 0,
        hc_ts := cpu_to_be_64 (timespec_ns ts)\<rparr>\<rparr>)"
  by (simp add: encode_defs Let_def)

lemma encode_repath_pkt_Some [simp]:
  "encode_repath_pkt env True (Some m) opt r =
     Inr ((udp_frame env m (DST_PORT_PATH_1 - 1 + ucast opt))\<lparr>m_cp := (m_cp m)
       \<lparr>hc_flag := 0, hc_cp_flag := 1, hc_rsvd := 0, hc_repath_id := r,
        hc_seq := cpu_to_be_64 0, hc_ack := cpu_to_be_64 0\<rparr>\<rparr>)"
  by (simp add: encode_defs)

lemma encode_repath_ack_pkt_Some [simp]:
  "encode_repath_ack_pkt env True (Some m) opt =
     Inr ((udp_frame env m (DST_PORT_PATH_1 - 1 + ucast opt))\<lparr>m_cp := (m_cp m)
       \<lparr>hc_flag := 0, hc_cp_flag := 2, hc_rsvd := 0, hc_repath_id := 0,
        hc_seq := cpu_to_be_64 0, hc_ack := cpu_to_be_64 0\<rparr>\<rparr>)"
  by (simp add: encode_defs)

text \<open>With no pool, or with an exhausted one, no packet is encoded: the process ends.\<close>

lemma encode_probe_pkt_faults [simp]:
  "encode_probe_pkt env False alloc clock p = Inl Null_Deref"
  "encode_probe_pkt env True None clock p = Inl (Exit_Process 1)"
  "encode_probe_pkt env True (Some m) None p = Inl (Exit_Process 1)"
  by (simp_all add: encode_defs Let_def)

lemma encode_repath_pkt_faults [simp]:
  "encode_repath_pkt env False alloc opt r = Inl Null_Deref"
  "encode_repath_pkt env True None opt r = Inl (Exit_Process 1)"
  by (simp_all add: encode_defs)

lemma encode_repath_ack_pkt_faults [simp]:
  "encode_repath_ack_pkt env False alloc opt = Inl Null_Deref"
  "encode_repath_ack_pkt env True None opt = Inl (Exit_Process 1)"
  by (simp_all add: encode_defs)

end
