(* ===== verification/C_Double.thy ===== *)
theory C_Double
  imports Repath_Prelude
begin

text \<open>
  IEEE 754 double arithmetic as far as the control plane needs it: non-negative numbers,
  integer operands, one constant factor.  The double \<open>(m, e)\<close> is \<open>m / 2 ^ e\<close>; every
  operation computes the exact result and rounds its numerator to 53 significant bits,
  ties to even.  Neither overflow nor denormals can occur for the operands used: all
  values are below \<open>2 ^ 65\<close> and multiples of \<open>2 ^ -60\<close>.
\<close>

section \<open>Rounding to 53 bits\<close>

fun nbits :: "nat \<Rightarrow> nat" where
  "nbits n = (if n = 0 then 0 else Suc (nbits (n div 2)))"

declare nbits.simps [simp del]

text \<open>\<open>round_half_even m k\<close> is \<open>m / 2 ^ k\<close>, rounded to an integer.\<close>

definition round_half_even :: "nat \<Rightarrow> nat \<Rightarrow> nat" where
  "round_half_even m k =
     (let q = m div 2 ^ k; r = m mod 2 ^ k
      in if 2 ^ k < 2 * r \<or> (2 ^ k = 2 * r \<and> odd q) then Suc q else q)"

definition round53 :: "nat \<Rightarrow> nat" where
  "round53 m = (let k = nbits m - 53 in round_half_even m k * 2 ^ k)"

type_synonym double = "nat \<times> nat"

definition double_of_u64 :: "u64 \<Rightarrow> double" where
  "double_of_u64 w = (round53 (unat w), 0)"

fun double_mult :: "double \<Rightarrow> double \<Rightarrow> double" where
  "double_mult (m, e) (m', e') = (round53 (m * m'), e + e')"

fun double_add :: "double \<Rightarrow> double \<Rightarrow> double" where
  "double_add (m, e) (m', e') =
     (round53 (m * 2 ^ (max e e' - e) + m' * 2 ^ (max e e' - e')), max e e')"

text \<open>Conversion to \<open>uint64_t\<close> truncates; a value that does not fit is undefined.\<close>

fun double_to_u64 :: "double \<Rightarrow> u64 c_result" where
  "double_to_u64 (m, e) =
     (if m div 2 ^ e < 2 ^ 64 then Inr (of_nat (m div 2 ^ e)) else Inl Bad_Conversion)"

section \<open>Facts\<close>

lemma nbits_le_iff: "nbits n \<le> k \<longleftrightarrow> n < 2 ^ k"
proof (induction n arbitrary: k rule: nbits.induct)
  case (1 n)
  show ?case
  proof (cases "n = 0")
    case True
    then show ?thesis by (simp add: nbits.simps)
  next
    case False
    then have "nbits n \<le> k \<longleftrightarrow> (\<exists>j. k = Suc j \<and> n div 2 < 2 ^ j)"
      using "1.IH" by (cases k) (auto simp: nbits.simps [of n])
    also have "\<dots> \<longleftrightarrow> n < 2 ^ k"
      using False by (cases k) auto
    finally show ?thesis .
  qed
qed

lemma round_half_even_0 [simp]: "round_half_even m 0 = m"
  by (simp add: round_half_even_def)

lemma round_half_even_le:
  assumes "m \<le> N * 2 ^ k"
  shows "round_half_even m k \<le> N"
proof (cases "m mod 2 ^ k = 0")
  case True
  then show ?thesis
    using div_le_mono [OF assms, of "2 ^ k"] by (simp add: round_half_even_def Let_def)
next
  case False
  have "m div 2 ^ k * 2 ^ k + m mod 2 ^ k \<le> N * 2 ^ k"
    using assms by (simp only: div_mult_mod_eq)
  with False have "m div 2 ^ k * 2 ^ k < N * 2 ^ k" by linarith
  then show ?thesis by (simp add: round_half_even_def Let_def)
qed

lemma round_half_even_ge:
  assumes "N * 2 ^ k \<le> m"
  shows "N \<le> round_half_even m k"
proof -
  have "N \<le> m div 2 ^ k"
    using div_le_mono [OF assms, of "2 ^ k"] by simp
  then show ?thesis by (simp add: round_half_even_def Let_def)
qed

lemma round53_exact:
  assumes "m < 2 ^ 53"
  shows "round53 m = m"
proof -
  have "nbits m - 53 = 0" using assms nbits_le_iff [of m 53] by simp
  then show ?thesis by (simp add: round53_def)
qed

text \<open>
  Rounding does not cross a multiple of \<open>2 ^ j\<close>, where \<open>j\<close> is large enough for the number
  of bits that are rounded away.
\<close>

lemma round53_le:
  assumes "m \<le> N * 2 ^ j" and "m < 2 ^ (53 + j)"
  shows "round53 m \<le> N * 2 ^ j"
proof -
  define k where "k = nbits m - 53"
  have kj: "k \<le> j" using assms(2) nbits_le_iff [of m "53 + j"] by (simp add: k_def)
  have split: "N * 2 ^ j = N * 2 ^ (j - k) * 2 ^ k"
    using kj by (simp add: mult.assoc flip: power_add)
  have "round_half_even m k \<le> N * 2 ^ (j - k)"
    using assms(1) split by (intro round_half_even_le) simp
  then show ?thesis by (simp add: round53_def Let_def split flip: k_def)
qed

lemma round53_ge:
  assumes "N * 2 ^ j \<le> m" and "m < 2 ^ (53 + j)"
  shows "N * 2 ^ j \<le> round53 m"
proof -
  define k where "k = nbits m - 53"
  have kj: "k \<le> j" using assms(2) nbits_le_iff [of m "53 + j"] by (simp add: k_def)
  have split: "N * 2 ^ j = N * 2 ^ (j - k) * 2 ^ k"
    using kj by (simp add: mult.assoc flip: power_add)
  have "N * 2 ^ (j - k) \<le> round_half_even m k"
    using assms(1) split by (intro round_half_even_ge) simp
  then show ?thesis by (simp add: round53_def Let_def split flip: k_def)
qed

end
