(* ===== verification/Hopa_Monitor.thy ===== *)
theory Hopa_Monitor
  imports Hopa_Packet C_Double
begin

text \<open>
  Path monitoring of \<open>src/repath_cp/src/hopa_cp.c\<close>: the delay table filled from probe
  packets and the choice of the best path (\<open>hopa_cp_probe_pkt_progress\<close>,
  \<open>get_min_delay_path_id\<close>), and the check of the path in use (\<open>one_path_check\<close>), with its
  64-bit wrap-around and its double arithmetic.
\<close>

section \<open>State\<close>

record cur_path_info =
  ci_path_id :: u8
  max_dt :: u64
  min_dt :: u64
  last_3_dt_grad :: u64
  last_2_dt_grad :: u64
  last_1_dt_grad :: u64
  cur_dt_grad :: u64
  last_3_dt :: u64
  last_2_dt :: u64
  last_1_dt :: u64
  cur_dt :: u64
  cur_ts :: u64
  last_ts :: u64
  thres_dt :: u64
  delta_t :: u64

text \<open>
  The globals of \<open>hopa_cp.c\<close>: whether the buffer pool exists, the pair of rings once it is
  allocated (each ring created or null), the delay table, the best path and the path in use.
\<close>

record hopa_in_out_ring =
  hopa_in_ring :: bool
  hopa_out_ring :: bool

record hopa_cp_state =
  mbuf_pool :: bool
  hopa_in_out_ring_ins :: "hopa_in_out_ring option"
  all_paths_delay_list :: "u64 list"
  opt_path_id :: u8
  cur_path :: "cur_path_info option"

section \<open>The best path\<close>

text \<open>The loop of \<open>get_min_delay_path_id\<close> with \<open>n\<close> iterations left, at index \<open>i\<close>.\<close>

primrec min_delay_loop :: "u64 list \<Rightarrow> nat \<Rightarrow> nat \<Rightarrow> u8 \<Rightarrow> u8 c_result" where
  "min_delay_loop xs 0 i path_id = Inr path_id"
| "min_delay_loop xs (Suc n) i path_id =
     bindr (arr_get xs i) (\<lambda>a.
     bindr (arr_get xs (unat path_id)) (\<lambda>b.
       min_delay_loop xs n (Suc i) (if a < b then of_nat i else path_id)))"

definition get_min_delay_path_id :: "u64 list \<Rightarrow> nat \<Rightarrow> u8 c_result" where
  "get_min_delay_path_id xs len = min_delay_loop xs (len - 1) 1 0"

text \<open>\<open>first_min xs n p\<close>: \<open>p\<close> is the first index of a least element of the first \<open>n\<close>.\<close>

definition first_min :: "u64 list \<Rightarrow> nat \<Rightarrow> nat \<Rightarrow> bool" where
  "first_min xs n p \<longleftrightarrow>
     p < n \<and> (\<forall>j<n. xs ! p \<le> xs ! j) \<and> (\<forall>j<p. xs ! p < xs ! j)"

lemma first_min_step:
  assumes "first_min xs i p"
  shows "first_min xs (Suc i) (if xs ! i < xs ! p then i else p)"
  using assms unfolding first_min_def
  by (auto simp: less_Suc_eq not_less dest: order.strict_trans2)

lemma first_min_unique: "first_min xs n p \<Longrightarrow> first_min xs n q \<Longrightarrow> p = q"
  unfolding first_min_def by (metis linorder_neqE_nat linorder_not_le)

lemma min_delay_loop_first_min:
  assumes "first_min xs i (unat p)" and "i + n \<le> length xs" and "i + n \<le> 256"
  shows "\<exists>r. min_delay_loop xs n i p = Inr r \<and> first_min xs (i + n) (unat r)"
  using assms
proof (induction n arbitrary: i p)
  case 0
  then show ?case by simp
next
  case (Suc n)
  have p: "unat p < i" using Suc.prems(1) by (simp add: first_min_def)
  define p' :: u8 where "p' = (if xs ! i < xs ! unat p then of_nat i else p)"
  have "unat p' = (if xs ! i < xs ! unat p then i else unat p)"
    using Suc.prems(3) by (simp add: p'_def unat_of_nat)
  then have "first_min xs (Suc i) (unat p')"
    using first_min_step [OF Suc.prems(1)] by simp
  then have "\<exists>r. min_delay_loop xs n (Suc i) p' = Inr r \<and> first_min xs (Suc i + n) (unat r)"
    using Suc.prems by (intro Suc.IH) simp_all
  then show ?case using p Suc.prems by (simp add: p'_def)
qed

lemma get_min_delay_path_id_first_min:
  assumes "0 < len" and "len \<le> length xs" and "len \<le> 256"
  shows "\<exists>r. get_min_delay_path_id xs len = Inr r \<and> first_min xs len (unat r)"
proof -
  have "first_min xs 1 (unat (0 :: u8))" by (simp add: first_min_def)
  then have "\<exists>r. min_delay_loop xs (len - 1) 1 0 = Inr r \<and> first_min xs (1 + (len - 1)) (unat r)"
    using assms by (intro min_delay_loop_first_min) simp_all
  then show ?thesis using assms by (simp add: get_min_delay_path_id_def)
qed

section \<open>Probe packets\<close>

definition probe_delay :: "u64 \<Rightarrow> u64 \<Rightarrow> u64" where
  "probe_delay receiver_ts sender_ts = receiver_ts - sender_ts + 1000000000"

lemma uint_probe_delay:
  assumes "uint received = uint sent + d + skew"
    and "0 \<le> d + skew + 1000000000" and "d + skew + 1000000000 < 2 ^ 64"
  shows "uint (probe_delay received sent) = d + skew + 1000000000"
proof -
  have "uint (probe_delay received sent) = (uint received - uint sent + 1000000000) mod 2 ^ 64"
    by (simp add: probe_delay_def uint_word_ariths mod_simps)
  also have "\<dots> = d + skew + 1000000000"
    using assms by (simp add: mod_pos_pos_trivial)
  finally show ?thesis .
qed

section \<open>Properties\<close>

definition hopa_cp_probe_pkt_progress ::
  "hopa_cp_state \<Rightarrow> mbuf \<Rightarrow> timespec option \<Rightarrow> hopa_cp_state c_result" where
  "hopa_cp_probe_pkt_progress st m clock =
     (let path_id = packet_path_id m;
          sender_ts = be_to_cpu_64 (hc_ts (m_cp m))
      in case clock of
           None \<Rightarrow> Inl (Exit_Process 1)
         | Some ts \<Rightarrow>
             let receiver_ts = timespec_ns ts
             in bindr (arr_set (all_paths_delay_list st) (unat path_id)
                         (probe_delay receiver_ts sender_ts)) (\<lambda>ds.
                bindr (get_min_delay_path_id ds PATH_NB) (\<lambda>best.
                  Inr (st\<lparr>all_paths_delay_list := ds, opt_path_id := best\<rparr>))))"

text \<open>
  The table has one entry per path.  A probe whose port is not that of a path writes
  outside it; every other probe updates its path and leaves the best path consistent.
\<close>

definition delay_table :: "hopa_cp_state \<Rightarrow> bool" where
  "delay_table st \<longleftrightarrow> length (all_paths_delay_list st) = PATH_NB"

definition best_path_current :: "hopa_cp_state \<Rightarrow> bool" where
  "best_path_current st \<longleftrightarrow>
     delay_table st \<and> first_min (all_paths_delay_list st) PATH_NB (unat (opt_path_id st))"

lemma probe_progress_out_of_bounds:
  assumes "delay_table st" and "PATH_NB \<le> unat (packet_path_id m)"
  shows "hopa_cp_probe_pkt_progress st m (Some ts) = Inl Out_Of_Bounds"
  using assms by (simp add: hopa_cp_probe_pkt_progress_def delay_table_def)

lemma probe_progress_ok:
  assumes "delay_table st" and "unat (packet_path_id m) < PATH_NB"
  obtains st' where "hopa_cp_probe_pkt_progress st m (Some ts) = Inr st'"
    and "best_path_current st'"
    and "all_paths_delay_list st' = (all_paths_delay_list st)
           [unat (packet_path_id m) :=
              probe_delay (timespec_ns ts) (be_to_cpu_64 (hc_ts (m_cp m)))]"
    and "cur_path st' = cur_path st" and "mbuf_pool st' = mbuf_pool st"
    and "hopa_in_out_ring_ins st' = hopa_in_out_ring_ins st"
proof -
  let ?ds = "(all_paths_delay_list st)
     [unat (packet_path_id m) := probe_delay (timespec_ns ts) (be_to_cpu_64 (hc_ts (m_cp m)))]"
  obtain r where "get_min_delay_path_id ?ds PATH_NB = Inr r" "first_min ?ds PATH_NB (unat r)"
    using get_min_delay_path_id_first_min [of PATH_NB ?ds] assms
    by (auto simp: delay_table_def PATH_NB_def)
  with assms show ?thesis
    by (intro that [of "st\<lparr>all_paths_delay_list := ?ds, opt_path_id := r\<rparr>"])
       (simp_all add: hopa_cp_probe_pkt_progress_def delay_table_def best_path_current_def)
qed

section \<open>The path in use\<close>

text \<open>The macro \<open>R\<close>: the double nearest to 0.7.\<close>

definition R_RATIO :: double where "R_RATIO = (3152519739159347, 52)"

definition path_threshold :: "u64 \<Rightarrow> u64 \<Rightarrow> u64 c_result" where
  "path_threshold mn mx =
     double_to_u64 (double_add (double_of_u64 mn)
       (double_mult R_RATIO (double_of_u64 (mx - mn))))"

definition one_path_check :: "cur_path_info \<Rightarrow> (bool \<times> cur_path_info) c_result" where
  "one_path_check c0 =
     (let c1 = c0\<lparr>delta_t := cur_ts c0 - last_ts c0\<rparr>;
          c2 = (if max_dt c1 < cur_dt c1 then c1\<lparr>max_dt := cur_dt c1\<rparr> else c1);
          c3 = (if cur_dt c2 < min_dt c2 then c2\<lparr>min_dt := cur_dt c2\<rparr> else c2)
      in bindr (path_threshold (min_dt c3) (max_dt c3)) (\<lambda>thres.
         let c4 = c3\<lparr>thres_dt := thres\<rparr>
         in bindr (u64_div (cur_dt c4 - last_1_dt c4) (delta_t c4)) (\<lambda>grad.
            let c5 = c4\<lparr>cur_dt_grad := grad\<rparr>;
                b2 = (thres_dt c5 - min_dt c5 \<le> 2 * last_3_dt c5);
                b3 = (0 < last_1_dt_grad c5 \<and> 0 < last_2_dt_grad c5 \<and> 0 < last_3_dt_grad c5)
            in bindr (u64_div (thres_dt c5 - min_dt c5) (2 * delta_t c5)) (\<lambda>quot.
               let b4 = (quot \<le> cur_dt_grad c5);
                   is_try_repath = (b2 \<and> b3) \<or> b4;
                   is_force_repath = (thres_dt c5 \<le> cur_dt c5)
               in Inr (is_try_repath \<or> is_force_repath, c5)))))"

text \<open>The threshold lies between the least and the greatest delay.\<close>

lemma path_threshold_between:
  assumes le: "mn \<le> mx" and small: "unat mx < 2 ^ 53"
  obtains t where "path_threshold mn mx = Inr t" and "mn \<le> t" and "t \<le> mx"
proof -
  let ?d = "unat mx - unat mn" and ?c = "3152519739159347 :: nat"
  let ?p = "round53 (?c * ?d)"
  let ?s = "round53 (unat mn * 2 ^ 52 + ?p)"
  have le': "unat mn \<le> unat mx" using le by (simp add: word_le_nat_alt)
  have d: "unat (mx - mn) = ?d" using le by (simp add: unat_sub)
  have cd: "?c * ?d \<le> ?d * 2 ^ 52" by simp
  have "?d * 2 ^ 52 < 2 ^ 53 * 2 ^ 52" using small by (intro mult_strict_right_mono) simp_all
  then have cd': "?c * ?d < 2 ^ (53 + 52)" using cd by simp
  have p: "?p \<le> ?d * 2 ^ 52" using cd cd' by (rule round53_le)
  have sum: "unat mn * 2 ^ 52 + ?p \<le> unat mx * 2 ^ 52"
    using p le' by (simp add: diff_mult_distrib)
  have "unat mx * 2 ^ 52 < 2 ^ 53 * 2 ^ 52" using small by (intro mult_strict_right_mono) simp_all
  then have sum': "unat mn * 2 ^ 52 + ?p < 2 ^ (53 + 52)" using sum by simp
  have hi: "?s \<le> unat mx * 2 ^ 52" using sum sum' by (rule round53_le)
  have lo: "unat mn * 2 ^ 52 \<le> ?s" using sum' by (intro round53_ge) simp_all
  have q: "unat mn \<le> ?s div 2 ^ 52" "?s div 2 ^ 52 \<le> unat mx"
    using div_le_mono [OF hi, of "2 ^ 52"] div_le_mono [OF lo, of "2 ^ 52"] by simp_all
  have exact: "round53 (unat mn) = unat mn" "round53 ?d = ?d"
    using le' small by (simp_all add: round53_exact)
  have fits: "?s div 2 ^ 52 < 2 ^ 64" using q(2) small by simp
  have "path_threshold mn mx = Inr (of_nat (?s div 2 ^ 52))"
    using fits by (simp add: path_threshold_def R_RATIO_def double_of_u64_def d exact)
  moreover have "unat (of_nat (?s div 2 ^ 52) :: u64) = ?s div 2 ^ 52"
    using fits by (simp add: unat_of_nat)
  ultimately show ?thesis
    using q by (intro that [of "of_nat (?s div 2 ^ 52)"]) (simp_all add: word_le_nat_alt)
qed

text \<open>
  The check returns for every state whose time stamps differ (by less than \<open>2 ^ 63\<close>) and
  whose delays fit in 53 bits.  The result is the disjunction of the three conditions.
\<close>

definition check_defined :: "cur_path_info \<Rightarrow> bool" where
  "check_defined c \<longleftrightarrow>
     cur_ts c \<noteq> last_ts c \<and> unat (cur_ts c - last_ts c) < 2 ^ 63 \<and>
     unat (max_dt c) < 2 ^ 53 \<and> unat (cur_dt c) < 2 ^ 53"

lemma double_delta_nonzero:
  fixes d :: u64
  assumes "d \<noteq> 0" and "unat d < 2 ^ 63"
  shows "2 * d \<noteq> 0" and "unat (2 * d) = 2 * unat d"
proof -
  show u: "unat (2 * d) = 2 * unat d"
    using assms(2) by (subst unat_mult_lem [THEN iffD1]) simp_all
  then show "2 * d \<noteq> 0" using assms(1) by (metis mult_is_0 unat_eq_zero zero_neq_numeral)
qed

text \<open>The two updates of the extrema are a maximum and a minimum.\<close>

definition checked_info :: "cur_path_info \<Rightarrow> u64 \<Rightarrow> u64 \<Rightarrow> cur_path_info" where
  "checked_info c t g =
     c\<lparr>delta_t := cur_ts c - last_ts c, max_dt := max (max_dt c) (cur_dt c),
       min_dt := min (min_dt c) (cur_dt c), thres_dt := t, cur_dt_grad := g\<rparr>"

lemma max_of_not_less: "\<not> a < b \<Longrightarrow> max a b = (a :: u64)"
  and min_of_not_less: "\<not> b < a \<Longrightarrow> min a b = (a :: u64)"
  by (simp_all add: max.absorb1 min.absorb1)

lemma one_path_check_unfold:
  "one_path_check c =
     bindr (path_threshold (min (min_dt c) (cur_dt c)) (max (max_dt c) (cur_dt c))) (\<lambda>t.
     bindr (u64_div (cur_dt c - last_1_dt c) (cur_ts c - last_ts c)) (\<lambda>g.
     bindr (u64_div (t - min (min_dt c) (cur_dt c)) (2 * (cur_ts c - last_ts c))) (\<lambda>q.
       Inr ((t - min (min_dt c) (cur_dt c) \<le> 2 * last_3_dt c \<and>
               0 < last_1_dt_grad c \<and> 0 < last_2_dt_grad c \<and> 0 < last_3_dt_grad c) \<or>
             q \<le> g \<or> t \<le> cur_dt c, checked_info c t g))))"
  by (cases "max_dt c < cur_dt c"; cases "cur_dt c < min_dt c")
     (simp_all add: one_path_check_def checked_info_def Let_def disj_assoc max_of_not_less
        max.absorb4 min.absorb4 min_of_not_less del: right_diff_distrib_numeral)

lemma one_path_check_returns:
  assumes "check_defined c"
  obtains t b c' where "one_path_check c = Inr (b, c')"
    and "c' = checked_info c t ((cur_dt c - last_1_dt c) div (cur_ts c - last_ts c))"
    and "min (min_dt c) (cur_dt c) \<le> t" and "t \<le> max (max_dt c) (cur_dt c)"
    and "b \<longleftrightarrow>
      (t - min (min_dt c) (cur_dt c) \<le> 2 * last_3_dt c \<and>
         0 < last_1_dt_grad c \<and> 0 < last_2_dt_grad c \<and> 0 < last_3_dt_grad c) \<or>
      (t - min (min_dt c) (cur_dt c)) div (2 * (cur_ts c - last_ts c))
         \<le> (cur_dt c - last_1_dt c) div (cur_ts c - last_ts c) \<or>
      t \<le> cur_dt c"
proof -
  let ?mx = "max (max_dt c) (cur_dt c)" and ?mn = "min (min_dt c) (cur_dt c)"
  let ?d = "cur_ts c - last_ts c"
  have d: "?d \<noteq> 0" "2 * ?d \<noteq> 0"
    using assms double_delta_nonzero [of ?d] by (auto simp: check_defined_def)
  have div: "u64_div x ?d = Inr (x div ?d)" "u64_div x (2 * ?d) = Inr (x div (2 * ?d))" for x
    using d by (simp_all del: right_diff_distrib_numeral)
  have "?mn \<le> ?mx" by (meson max.cobounded2 min.cobounded2 order.trans)
  moreover have "unat ?mx < 2 ^ 53" using assms by (simp add: check_defined_def max_def)
  ultimately obtain t where t: "path_threshold ?mn ?mx = Inr t" "?mn \<le> t" "t \<le> ?mx"
    by (rule path_threshold_between)
  show ?thesis
    by (rule that [OF _ refl t(2,3) refl]) (simp only: one_path_check_unfold t(1) div bindr_Inr)
qed

text \<open>A delay that is at least the greatest one seen always asks for a new path.\<close>

lemma one_path_check_new_maximum:
  assumes "check_defined c" and "max_dt c \<le> cur_dt c"
  shows "\<exists>c'. one_path_check c = Inr (True, c')"
proof -
  obtain t b c' where "one_path_check c = Inr (b, c')" and "t \<le> max (max_dt c) (cur_dt c)"
    and "t \<le> cur_dt c \<longrightarrow> b"
    using one_path_check_returns [OF assms(1)] by metis
  then show ?thesis using assms(2) by (simp add: max_absorb2)
qed

text \<open>
  The gradient is computed without sign: when the delay has fallen since the previous
  packet, the difference wraps and exceeds every bound.
\<close>

lemma falling_difference:
  fixes a b :: u64
  assumes "a < b" and "unat b < 2 ^ 53"
  shows "2 ^ 63 \<le> unat (a - b)"
proof -
  have "unat a < unat b" using assms(1) by (simp add: word_less_nat_alt)
  then have "unat (a - b) = 2 ^ 64 + unat a - unat b"
    by (subst unat_sub_if_size) (simp add: word_size)
  then show ?thesis using assms(2) by simp
qed

lemma one_path_check_falling:
  assumes "check_defined c" and "cur_dt c < last_1_dt c" and "unat (last_1_dt c) < 2 ^ 53"
  shows "\<exists>c'. one_path_check c = Inr (True, c')"
proof -
  let ?mn = "min (min_dt c) (cur_dt c)" and ?d = "cur_ts c - last_ts c"
  obtain t b c' where r: "one_path_check c = Inr (b, c')"
    and t: "?mn \<le> t" "t \<le> max (max_dt c) (cur_dt c)"
    and b: "(t - ?mn) div (2 * ?d) \<le> (cur_dt c - last_1_dt c) div ?d \<longrightarrow> b"
    using one_path_check_returns [OF assms(1)] by metis
  have d: "unat (2 * ?d) = 2 * unat ?d" "?d \<noteq> 0"
    using assms(1) double_delta_nonzero [of ?d] by (auto simp: check_defined_def)
  have "unat (t - ?mn) \<le> unat t" using t(1) by (simp add: unat_sub)
  also have "\<dots> < 2 ^ 53"
    using t(2) assms(1) by (auto simp: check_defined_def max_def word_le_nat_alt split: if_splits)
  also have "\<dots> \<le> unat (cur_dt c - last_1_dt c)"
    using falling_difference [OF assms(2,3)] by simp
  finally have le: "unat (t - ?mn) \<le> unat (cur_dt c - last_1_dt c)" by simp
  have "unat (t - ?mn) div (2 * unat ?d) \<le> unat (t - ?mn) div unat ?d"
    using d(2) by (intro div_le_mono2) (simp_all add: unat_gt_0)
  also have "\<dots> \<le> unat (cur_dt c - last_1_dt c) div unat ?d"
    using le by (rule div_le_mono)
  finally have "(t - ?mn) div (2 * ?d) \<le> (cur_dt c - last_1_dt c) div ?d"
    by (simp add: word_le_nat_alt unat_div d(1) del: right_diff_distrib_numeral)
  with b r show ?thesis by simp
qed

text \<open>Equal time stamps divide by zero.\<close>

lemma one_path_check_same_timestamp:
  assumes "cur_ts c = last_ts c" and "unat (max_dt c) < 2 ^ 53" and "unat (cur_dt c) < 2 ^ 53"
  shows "one_path_check c = Inl Div_By_Zero"
proof -
  have "min (min_dt c) (cur_dt c) \<le> max (max_dt c) (cur_dt c)"
    by (meson max.cobounded2 min.cobounded2 order.trans)
  moreover have "unat (max (max_dt c) (cur_dt c)) < 2 ^ 53" using assms by (simp add: max_def)
  ultimately obtain t where
    "path_threshold (min (min_dt c) (cur_dt c)) (max (max_dt c) (cur_dt c)) = Inr t"
    by (rule path_threshold_between)
  then show ?thesis using assms(1) by (simp add: one_path_check_unfold)
qed

end
