(* ===== verification/C_Strings.thy ===== *)
theory C_Strings
  imports Repath_Prelude
begin

text \<open>
  The part of the C library's number conversion that the code uses: reading an unsigned
  decimal (\<open>strtoull\<close>) and printing a 64-bit number (\<open>PRIu64\<close>), with the round trip.
\<close>

text \<open>The C library's \<open>strtoull(s, NULL, 10)\<close>.\<close>

definition is_c_space :: "char \<Rightarrow> bool" where
  "is_c_space c \<longleftrightarrow> (let k = of_char c :: nat in k = 32 \<or> (9 \<le> k \<and> k \<le> 13))"

definition is_c_digit :: "char \<Rightarrow> bool" where
  "is_c_digit c \<longleftrightarrow> (let k = of_char c :: nat in 48 \<le> k \<and> k \<le> 57)"

definition digits_value :: "string \<Rightarrow> nat" where
  "digits_value ds = foldl (\<lambda>n c. 10 * n + (of_char c - 48)) 0 (takeWhile is_c_digit ds)"

definition clamp_u64 :: "bool \<Rightarrow> nat \<Rightarrow> u64" where
  "clamp_u64 neg n =
     (if 2 ^ 64 \<le> n then - 1 else if neg then - of_nat n else of_nat n)"

definition strtoull10 :: "string \<Rightarrow> u64" where
  "strtoull10 s =
     (case dropWhile is_c_space s of
        [] \<Rightarrow> 0
      | c # cs \<Rightarrow>
          if c = CHR ''-'' then clamp_u64 True (digits_value cs)
          else if c = CHR ''+'' then clamp_u64 False (digits_value cs)
          else clamp_u64 False (digits_value (c # cs)))"

text \<open>\<open>"%"PRIu64\<close>.\<close>

fun dec_digits :: "nat \<Rightarrow> string" where
  "dec_digits n = (if n < 10 then [char_of (48 + n)]
                   else dec_digits (n div 10) @ [char_of (48 + n mod 10)])"

declare dec_digits.simps [simp del]

definition PRIu64 :: "u64 \<Rightarrow> string" where
  "PRIu64 w = dec_digits (unat w)"

lemma digit_char [simp]:
  "n < 10 \<Longrightarrow> is_c_digit (char_of (48 + n))"
  "n < 10 \<Longrightarrow> (of_char (char_of (48 + n) :: char) :: nat) = 48 + n"
  by (simp_all add: is_c_digit_def)

lemma dec_digits_all: "\<forall>c\<in>set (dec_digits n). is_c_digit c"
proof (induction n rule: dec_digits.induct)
  case (1 n)
  then show ?case by (subst dec_digits.simps) auto
qed

lemma dec_digits_nonempty [simp]: "dec_digits n \<noteq> []"
  by (subst dec_digits.simps) simp

lemma digits_value_dec: "digits_value (dec_digits n) = n"
proof -
  have "foldl (\<lambda>n c. 10 * n + (of_char c - 48)) 0 (dec_digits n) = n"
  proof (induction n rule: dec_digits.induct)
    case (1 n)
    then show ?case by (subst dec_digits.simps) auto
  qed
  moreover have "takeWhile is_c_digit (dec_digits n) = dec_digits n"
    using dec_digits_all by (simp add: takeWhile_eq_all_conv)
  ultimately show ?thesis by (simp only: digits_value_def)
qed

text \<open>A number that was printed is read back.\<close>

lemma strtoull10_PRIu64 [simp]: "strtoull10 (PRIu64 w) = w"
proof -
  obtain c cs where d: "dec_digits (unat w) = c # cs" by (cases "dec_digits (unat w)") auto
  then have c: "is_c_digit c" using dec_digits_all [of "unat w"] by simp
  then have "\<not> is_c_space c" "c \<noteq> CHR ''-''" "c \<noteq> CHR ''+''"
    by (auto simp: is_c_digit_def is_c_space_def Let_def)
  moreover have "digits_value (c # cs) = unat w" using digits_value_dec [of "unat w"] d by simp
  moreover have "unat w < 2 ^ 64" using unsigned_less [of w] by simp
  then have "\<not> 18446744073709551616 \<le> unat w" by simp
  ultimately show ?thesis by (simp add: strtoull10_def PRIu64_def d clamp_u64_def)
qed

end
