(* ===== verification/Hopa_Control.thy ===== *)
theory Hopa_Control
  imports Hopa_Monitor C_Strings
begin

text \<open>
  The process of \<open>src/repath_cp/src/hopa_cp.c\<close>: start-up (\<open>parse_args\<close>, \<open>port_init\<close>,
  \<open>get_ring_instance\<close>, \<open>main\<close>), the sender's probe round (\<open>lcore_probe\<close>), the dispatch of
  received packets (\<open>lcore_stats\<close> and the four handlers) and the forwarding loop of \<open>main\<close>.
  Results of DPDK calls are arguments; the calls whose effect stays outside the program are
  the \<open>effect\<close>s a function returns, in the order they are made.
\<close>

section \<open>Command line\<close>

text \<open>\<open>hopa_param\<close> has one member, the \<open>int\<close> \<open>is_sender\<close>: the low 32 bits are kept.\<close>

record hopa_param =
  is_sender :: u32

fun parse_args_loop :: "hopa_param \<Rightarrow> string list \<Rightarrow> hopa_param c_result" where
  "parse_args_loop p [] = Inr p"
| "parse_args_loop p (a # rest) =
     (if a = ''-s'' then
        (case rest of
           [] \<Rightarrow> Inl (Exit_Process 1)
         | v # rest' \<Rightarrow> parse_args_loop (p\<lparr>is_sender := ucast (strtoull10 v)\<rparr>) rest')
      else if a = ''-h'' then Inl (Exit_Process 0)
      else Inl (Exit_Process 1))"

text \<open>The loop starts at index 1.\<close>

definition parse_args :: "hopa_param \<Rightarrow> string list \<Rightarrow> hopa_param c_result" where
  "parse_args p argv = parse_args_loop p (drop 1 argv)"

lemma parse_args_loop_senders:
  "parse_args_loop p (concat (map (\<lambda>v. [''-s'', v]) vs) @ rest) =
     parse_args_loop (if vs = [] then p else p\<lparr>is_sender := ucast (strtoull10 (last vs))\<rparr>) rest"
  by (induction vs arbitrary: p) auto

lemma parse_args_loop_ok:
  assumes "parse_args_loop p args = Inr q"
  shows "\<exists>vs. args = concat (map (\<lambda>v. [''-s'', v]) vs) \<and>
              q = (if vs = [] then p else p\<lparr>is_sender := ucast (strtoull10 (last vs))\<rparr>)"
  using assms
proof (induction p args rule: parse_args_loop.induct)
  case (1 p)
  then show ?case by simp
next
  case (2 p a rest)
  from "2.prems" have a: "a = ''-s''" by (auto split: if_splits)
  with "2.prems" obtain v rest' where r: "rest = v # rest'"
    by (auto split: list.splits)
  with a "2.prems" have "parse_args_loop (p\<lparr>is_sender := ucast (strtoull10 v)\<rparr>) rest' = Inr q"
    by simp
  then obtain vs where "rest' = concat (map (\<lambda>v. [''-s'', v]) vs)"
    and "q = (if vs = [] then p\<lparr>is_sender := ucast (strtoull10 v)\<rparr>
              else p\<lparr>is_sender := ucast (strtoull10 (last vs))\<rparr>)"
    using "2.IH" [OF a r] by auto
  then show ?case by (intro exI [of _ "v # vs"]) (simp add: a r)
qed

section \<open>Port set-up\<close>

text \<open>
  What the Ethernet device calls of \<open>port_init\<close> return, and the calls that change the
  device, with the arguments that the code chooses.
\<close>

record eth_dev =
  dev_is_valid_port :: bool
  dev_info_get :: int
  dev_fast_free :: bool
  dev_configure :: int
  dev_adjust_desc :: "int \<times> u16 \<times> u16"
  dev_rx_queue_setup :: "nat \<Rightarrow> int"
  dev_tx_queue_setup :: "nat \<Rightarrow> int"
  dev_start :: int
  dev_macaddr_get :: int
  dev_promiscuous :: int

datatype port_call =
    Configure (rx_rings: nat) (tx_rings: nat) (fast_free: bool)
  | Adjust_Desc u16 u16
  | Rx_Queue_Setup nat u16
  | Tx_Queue_Setup nat u16 bool
  | Start_Port
  | Promiscuous_Enable

text \<open>
  \<open>attempt c r bad k\<close>: make the call \<open>c\<close>, which returns \<open>r\<close>; return \<open>r\<close> when it is bad,
  go on with \<open>k\<close> otherwise.
\<close>

definition attempt ::
  "port_call \<Rightarrow> int \<Rightarrow> bool \<Rightarrow> int \<times> port_call list \<Rightarrow> int \<times> port_call list" where
  "attempt c r bad k = (if bad then (r, [c]) else (fst k, c # snd k))"

primrec setup_queues ::
  "(nat \<Rightarrow> port_call) \<Rightarrow> (nat \<Rightarrow> int) \<Rightarrow> nat \<Rightarrow> nat \<Rightarrow> int \<times> port_call list \<Rightarrow> int \<times> port_call list"
where
  "setup_queues mk res q 0 k = k"
| "setup_queues mk res q (Suc n) k =
     attempt (mk q) (res q) (res q < 0) (setup_queues mk res (Suc q) n k)"

definition RX_RING_SIZE :: u16 where "RX_RING_SIZE = 1024"
definition TX_RING_SIZE :: u16 where "TX_RING_SIZE = 1024"

definition port_init :: "eth_dev \<Rightarrow> int \<times> port_call list" where
  "port_init dev =
     (if \<not> dev_is_valid_port dev then (- 1, [])
      else if dev_info_get dev \<noteq> 0 then (dev_info_get dev, [])
      else
        let ff = dev_fast_free dev;
            (adj, nb_rxd, nb_txd) = dev_adjust_desc dev
        in attempt (Configure 1 2 ff) (dev_configure dev) (dev_configure dev \<noteq> 0)
          (attempt (Adjust_Desc RX_RING_SIZE TX_RING_SIZE) adj (adj \<noteq> 0)
            (setup_queues (\<lambda>q. Rx_Queue_Setup q nb_rxd) (dev_rx_queue_setup dev) 0 1
              (setup_queues (\<lambda>q. Tx_Queue_Setup q nb_txd ff) (dev_tx_queue_setup dev) 0 2
                (attempt Start_Port (dev_start dev) (dev_start dev < 0)
                  (if dev_macaddr_get dev \<noteq> 0 then (dev_macaddr_get dev, [])
                   else attempt Promiscuous_Enable (dev_promiscuous dev)
                          (dev_promiscuous dev \<noteq> 0) (0, [])))))))"


text \<open>The calls of a port that initialises, in order: the queues precede the start.\<close>

definition full_setup :: "bool \<Rightarrow> u16 \<Rightarrow> u16 \<Rightarrow> port_call list" where
  "full_setup ff nb_rxd nb_txd =
     [Configure 1 2 ff, Adjust_Desc RX_RING_SIZE TX_RING_SIZE, Rx_Queue_Setup 0 nb_rxd,
      Tx_Queue_Setup 0 nb_txd ff, Tx_Queue_Setup 1 nb_txd ff, Start_Port,
      Promiscuous_Enable]"

lemma setup_queues_2 [simp]:
  "setup_queues mk res q 1 k = attempt (mk q) (res q) (res q < 0) k"
  "setup_queues mk res q 2 k =
     attempt (mk q) (res q) (res q < 0)
       (attempt (mk (Suc q)) (res (Suc q)) (res (Suc q) < 0) k)"
  by (simp_all add: numeral_2_eq_2)

section \<open>Effects\<close>

datatype effect =
    Enqueue_Out "mbuf list"
  | Timer_Reset u64
  | Timer_Stop
  | Timer_Manage
  | Free_Mbuf mbuf

text \<open>
  \<open>rte_ring_mp_enqueue_burst\<close> on \<open>hopa_in_out_ring_ins->hopa_out_ring\<close>: both pointers are
  used unchecked; the count it returns is not looked at.
\<close>

definition enqueue_out :: "hopa_cp_state \<Rightarrow> mbuf list \<Rightarrow> effect c_result" where
  "enqueue_out st ms =
     (case hopa_in_out_ring_ins st of
        None \<Rightarrow> Inl Null_Deref
      | Some r \<Rightarrow> if hopa_out_ring r then Inr (Enqueue_Out ms) else Inl Null_Deref)"

section \<open>Handlers\<close>

text \<open>
  The retransmission timer: \<open>timer_cb\<close> rearms it after a tenth of a second, computed in
  double arithmetic from the frequency \<open>hz\<close> (\<open>rte_get_timer_hz\<close>).
\<close>

definition TENTH :: double where "TENTH = (3602879701896397, 55)"

definition timer_cb :: "u64 \<Rightarrow> effect list c_result" where
  "timer_cb hz =
     bindr (double_to_u64 (double_mult (double_of_u64 hz) TENTH)) (\<lambda>t. Inr [Timer_Reset t])"

definition hopa_cp_repath_pkt_progress ::
  "cksum_env \<Rightarrow> u64 \<Rightarrow> hopa_cp_state \<Rightarrow> mbuf option \<Rightarrow> effect list c_result" where
  "hopa_cp_repath_pkt_progress env hz st alloc =
     bindr (encode_repath_ack_pkt env (mbuf_pool st) alloc (opt_path_id st)) (\<lambda>ack.
     bindr (enqueue_out st [ack]) (\<lambda>e.
       Inr [e, Timer_Reset (hz * 2)]))"

definition hopa_cp_repath_ack_pkt_progress :: "effect list" where
  "hopa_cp_repath_ack_pkt_progress = [Timer_Stop]"

definition hopa_dp_ts_pkt_progress ::
  "cksum_env \<Rightarrow> hopa_cp_state \<Rightarrow> mbuf option \<Rightarrow> (hopa_cp_state \<times> effect list) c_result" where
  "hopa_dp_ts_pkt_progress env st alloc =
     (case cur_path st of
        None \<Rightarrow> Inl Null_Deref
      | Some c \<Rightarrow>
          bindr (one_path_check c) (\<lambda>(is_repath, c').
            let st' = st\<lparr>cur_path := Some c'\<rparr>
            in if is_repath then
                 bindr (encode_repath_pkt env (mbuf_pool st') alloc
                          (opt_path_id st') (opt_path_id st')) (\<lambda>m.
                 bindr (enqueue_out st' [m]) (\<lambda>e. Inr (st', [e])))
               else Inr (st', [])))"

section \<open>Dispatch\<close>

text \<open>
  One received buffer, with what the clock and the pool would answer if its handler asks.
\<close>

record rx_event =
  ev_mbuf :: mbuf
  ev_clock :: "timespec option"
  ev_alloc :: "mbuf option"

definition dispatch ::
  "cksum_env \<Rightarrow> u64 \<Rightarrow> hopa_cp_state \<Rightarrow> rx_event \<Rightarrow> (hopa_cp_state \<times> effect list) c_result"
where
  "dispatch env hz st ev =
     (let m = ev_mbuf ev
      in if \<not> is_hopa_packet m then Inr (st, [])
         else if hc_flag (m_cp m) = hopa_module_code HOPA_CP then
           (if hc_cp_flag (m_cp m) = hopa_cp_flag_code PROBE then
              bindr (hopa_cp_probe_pkt_progress st m (ev_clock ev)) (\<lambda>st'. Inr (st', []))
            else if hc_cp_flag (m_cp m) = hopa_cp_flag_code REPATH then
              bindr (hopa_cp_repath_pkt_progress env hz st (ev_alloc ev)) (\<lambda>es. Inr (st, es))
            else if hc_cp_flag (m_cp m) = hopa_cp_flag_code REPATH_ACK then
              Inr (st, hopa_cp_repath_ack_pkt_progress)
            else Inr (st, []))
         else if hc_flag (m_cp m) = hopa_module_code HOPA_DP then
           hopa_dp_ts_pkt_progress env st (ev_alloc ev)
         else Inr (st, []))"

fun dispatch_burst ::
  "cksum_env \<Rightarrow> u64 \<Rightarrow> hopa_cp_state \<Rightarrow> rx_event list \<Rightarrow> (hopa_cp_state \<times> effect list) c_result"
where
  "dispatch_burst env hz st [] = Inr (st, [])"
| "dispatch_burst env hz st (ev # evs) =
     bindr (dispatch env hz st ev) (\<lambda>(st', es).
     bindr (dispatch_burst env hz st' evs) (\<lambda>(st'', es'). Inr (st'', es @ es')))"

text \<open>
  One turn of the endless loop of \<open>lcore_stats\<close>: timers are run when enough cycles have
  passed since \<open>prev_tsc\<close>, then a burst from the in ring is dispatched and freed.
\<close>

definition lcore_stats_turn ::
  "cksum_env \<Rightarrow> u64 \<Rightarrow> u64 \<Rightarrow> u64 \<Rightarrow> hopa_cp_state \<Rightarrow> rx_event list
   \<Rightarrow> (u64 \<times> hopa_cp_state \<times> effect list) c_result" where
  "lcore_stats_turn env hz prev_tsc cur_tsc st burst =
     (let resolution = hz * 10 div 1000;
          due = (resolution < cur_tsc - prev_tsc);
          prev_tsc' = (if due then cur_tsc else prev_tsc);
          manage = (if due then [Timer_Manage] else [])
      in case hopa_in_out_ring_ins st of
           None \<Rightarrow> Inl Null_Deref
         | Some r \<Rightarrow>
             if \<not> hopa_in_ring r then Inl Null_Deref
             else bindr (dispatch_burst env hz st burst) (\<lambda>(st', es).
               Inr (prev_tsc', st', manage @ es @ map (\<lambda>ev. Free_Mbuf (ev_mbuf ev)) burst)))"

text \<open>
  One turn of \<open>lcore_probe\<close>: a probe for every path \<open>1 .. PATH_NB\<close>, then one burst.
\<close>

fun encode_probes ::
  "cksum_env \<Rightarrow> bool \<Rightarrow> (mbuf option \<times> timespec option) list \<Rightarrow> nat \<Rightarrow> mbuf list c_result" where
  "encode_probes env pool [] i = Inr []"
| "encode_probes env pool ((alloc, clock) # rest) i =
     bindr (encode_probe_pkt env pool alloc clock (of_nat (i + 1))) (\<lambda>m.
     bindr (encode_probes env pool rest (Suc i)) (\<lambda>ms. Inr (m # ms)))"

definition lcore_probe_turn ::
  "cksum_env \<Rightarrow> hopa_cp_state \<Rightarrow> (mbuf option \<times> timespec option) list \<Rightarrow> effect c_result" where
  "lcore_probe_turn env st inputs =
     bindr (encode_probes env (mbuf_pool st) (take PATH_NB inputs) 0) (\<lambda>ms. enqueue_out st ms)"

section \<open>Start-up\<close>

text \<open>\<open>get_ring_instance\<close>: \<open>alloc\<close> says whether \<open>rte_malloc\<close> returns memory.\<close>

definition get_ring_instance :: "bool \<Rightarrow> hopa_cp_state \<Rightarrow> hopa_cp_state c_result" where
  "get_ring_instance alloc st =
     (case hopa_in_out_ring_ins st of
        Some r \<Rightarrow> Inr st
      | None \<Rightarrow>
          if alloc
          then Inr (st\<lparr>hopa_in_out_ring_ins :=
                       Some \<lparr>hopa_in_ring = False, hopa_out_ring = False\<rparr>\<rparr>)
          else Inl Null_Deref)"

definition initial_state :: hopa_cp_state where
  "initial_state = \<lparr>mbuf_pool = False, hopa_in_out_ring_ins = None,
     all_paths_delay_list = [0xFFFFFFFF, 0xFFFFFFFF, 0xFFFFFFFF, 0xFFFFFFFF],
     opt_path_id = 0, cur_path = None\<rparr>"

datatype role = Sender | Receiver

record startup =
  su_eal_init :: int
  su_argv :: "string list"
  su_pool :: bool
  su_dev :: eth_dev
  su_ring_alloc :: bool
  su_in_ring :: bool
  su_out_ring :: bool

text \<open>
  \<open>main\<close> up to the forwarding loop.  \<open>rte_eal_init\<close> returns the number of arguments it has
  used; the program goes on with the rest.
\<close>

definition main_startup :: "startup \<Rightarrow> (role \<times> hopa_cp_state) c_result" where
  "main_startup su =
     (if su_eal_init su < 0 then Inl (Exit_Process 1)
      else bindr (parse_args \<lparr>is_sender = 0\<rparr> (drop (nat (su_eal_init su)) (su_argv su))) (\<lambda>p.
        if \<not> su_pool su then Inl (Exit_Process 1)
        else if fst (port_init (su_dev su)) \<noteq> 0 then Inl (Exit_Process 1)
        else bindr (get_ring_instance (su_ring_alloc su) (initial_state\<lparr>mbuf_pool := True\<rparr>)) (\<lambda>st.
          Inr (if is_sender p \<noteq> 0 then Sender else Receiver,
               st\<lparr>hopa_in_out_ring_ins :=
                    Some \<lparr>hopa_in_ring = su_in_ring su, hopa_out_ring = su_out_ring su\<rparr>\<rparr>))))"

section \<open>The forwarding loop\<close>

text \<open>
  The inner loop of \<open>main\<close>: \<open>tx k n\<close> is what the \<open>k\<close>-th call of \<open>rte_eth_tx_burst\<close> returns
  when \<open>n\<close> packets are offered.  The result is the list of bursts accepted by the port; it
  is \<open>None\<close> when the fuel is used up before everything is sent.
\<close>

fun tx_drain :: "nat \<Rightarrow> (nat \<Rightarrow> nat \<Rightarrow> nat) \<Rightarrow> nat \<Rightarrow> 'm list \<Rightarrow> nat \<Rightarrow> 'm list list option" where
  "tx_drain 0 tx k send offset = (if offset < length send then None else Some [])"
| "tx_drain (Suc fuel) tx k send offset =
     (if offset < length send then
        (let n = tx k (length send - offset)
         in map_option (\<lambda>bs. take n (drop offset send) # bs)
              (tx_drain fuel tx (Suc k) send (offset + n)))
      else Some [])"

text \<open>The documented behaviour of \<open>rte_eth_tx_burst\<close>: at most what is offered is sent.\<close>

definition tx_within :: "(nat \<Rightarrow> nat \<Rightarrow> nat) \<Rightarrow> bool" where
  "tx_within tx \<longleftrightarrow> (\<forall>k n. tx k n \<le> n)"

text \<open>\<open>tx_progress w tx\<close>: of \<open>w\<close> consecutive non-empty offers one is not refused.\<close>

definition tx_progress :: "nat \<Rightarrow> (nat \<Rightarrow> nat \<Rightarrow> nat) \<Rightarrow> bool" where
  "tx_progress w tx \<longleftrightarrow> (\<forall>k. \<exists>j<w. \<forall>n>0. 0 < tx (k + j) n)"

lemma tx_drain_concat:
  assumes "tx_within tx" and "tx_drain fuel tx k send offset = Some bs"
  shows "concat bs = drop offset send"
  using assms(2)
proof (induction fuel arbitrary: k offset bs)
  case 0
  then show ?case by (simp split: if_splits)
next
  case (Suc fuel)
  show ?case
  proof (cases "offset < length send")
    case True
    define n where "n = tx k (length send - offset)"
    from True Suc.prems obtain bs' where
      "tx_drain fuel tx (Suc k) send (offset + n) = Some bs'"
      and bs: "bs = take n (drop offset send) # bs'"
      by (auto simp: n_def Let_def)
    then have "concat bs' = drop (offset + n) send" by (intro Suc.IH)
    then show ?thesis
      by (simp add: bs append_take_drop_id flip: drop_drop add.commute [of n])
  next
    case False
    with Suc.prems show ?thesis by simp
  qed
qed

text \<open>
  With \<open>j\<close> calls to go before the port accepts something, the bound is one window for every
  packet but the first, and these calls.
\<close>

lemma tx_drain_returns_within:
  assumes prog: "tx_progress w tx"
    and "\<forall>n>0. 0 < tx (k + j) n" and "(length send - offset - 1) * w + j < fuel"
  shows "\<exists>bs. tx_drain fuel tx k send offset = Some bs"
  using assms(2,3)
proof (induction fuel arbitrary: k j offset)
  case 0
  then show ?case by simp
next
  case (Suc fuel)
  let ?n = "tx k (length send - offset)"
  show ?case
  proof (cases "offset + ?n < length send")
    case more: True
    have "\<exists>bs. tx_drain fuel tx (Suc k) send (offset + ?n) = Some bs"
    proof (cases j)
      case 0
      obtain j' where j': "j' < w" "\<forall>n>0. 0 < tx (Suc k + j') n"
        using prog unfolding tx_progress_def by blast
      have n: "0 < ?n" using Suc.prems(1) 0 more by simp
      have "Suc (length send - (offset + ?n) - 1) \<le> length send - offset - 1"
        using n more by linarith
      then have "Suc (length send - (offset + ?n) - 1) * w \<le> (length send - offset - 1) * w"
        by (rule mult_le_mono1)
      then have "(length send - (offset + ?n) - 1) * w + j' < fuel"
        using Suc.prems(2) 0 j'(1) by simp
      with j'(2) show ?thesis by (rule Suc.IH)
    next
      case (Suc i)
      have "(length send - (offset + ?n) - 1) * w \<le> (length send - offset - 1) * w"
        by (intro mult_le_mono1) simp
      then have "(length send - (offset + ?n) - 1) * w + i < fuel"
        using Suc.prems(2) Suc by linarith
      with Suc.prems(1) Suc show ?thesis by (intro Suc.IH [of "Suc k" i]) simp_all
    qed
    then show ?thesis by (auto simp: Let_def)
  next
    case False
    then show ?thesis by (cases fuel) (auto simp: Let_def)
  qed
qed

lemma tx_drain_returns:
  assumes "tx_progress w tx" and "length send * w \<le> fuel"
  shows "\<exists>bs. tx_drain fuel tx 0 send 0 = Some bs"
proof (cases send)
  case Nil
  then show ?thesis by (cases fuel) auto
next
  case (Cons m ms)
  obtain j where j: "j < w" "\<forall>n>0. 0 < tx (0 + j) n"
    using assms(1) unfolding tx_progress_def by (metis add_0)
  show ?thesis
    using assms j Cons by (intro tx_drain_returns_within [of w tx 0 j]) simp_all
qed

section \<open>Probe rounds\<close>

text \<open>An event that carries a probe of path \<open>i\<close>, sent and received at the given times.\<close>

definition probe_event :: "rx_event \<Rightarrow> nat \<Rightarrow> u64 \<Rightarrow> u64 \<Rightarrow> bool" where
  "probe_event ev i sent received \<longleftrightarrow>
     is_hopa_packet (ev_mbuf ev) \<and> hc_flag (m_cp (ev_mbuf ev)) = 0 \<and>
     hc_cp_flag (m_cp (ev_mbuf ev)) = 0 \<and> unat (packet_path_id (ev_mbuf ev)) = i \<and>
     be_to_cpu_64 (hc_ts (m_cp (ev_mbuf ev))) = sent \<and>
     map_option timespec_ns (ev_clock ev) = Some received"

lemma dispatch_probe_event:
  assumes "probe_event ev i sent received" and "delay_table st" and "i < PATH_NB"
  shows "\<exists>st'. dispatch env hz st ev = Inr (st', []) \<and> best_path_current st' \<and>
     all_paths_delay_list st' = (all_paths_delay_list st)[i := probe_delay received sent]"
proof -
  obtain ts where ts: "ev_clock ev = Some ts" "timespec_ns ts = received"
    using assms(1) by (auto simp: probe_event_def)
  have "unat (packet_path_id (ev_mbuf ev)) < PATH_NB"
    using assms by (simp add: probe_event_def)
  then obtain st' where
    "hopa_cp_probe_pkt_progress st (ev_mbuf ev) (Some ts) = Inr st'"
    and "best_path_current st'"
    and "all_paths_delay_list st' = (all_paths_delay_list st)
           [unat (packet_path_id (ev_mbuf ev)) :=
              probe_delay (timespec_ns ts) (be_to_cpu_64 (hc_ts (m_cp (ev_mbuf ev))))]"
    using probe_progress_ok [OF assms(2)] by metis
  with assms(1) ts show ?thesis by (auto simp: dispatch_def probe_event_def Let_def)
qed

text \<open>A burst of probes, each of another path, in any order.\<close>

lemma dispatch_burst_probes:
  assumes "\<forall>i\<in>set order. i < PATH_NB \<and> probe_event (E i) i (snt i) (rcv i)"
    and "distinct order" and "delay_table st" and "order \<noteq> [] \<or> best_path_current st"
  shows "\<exists>st'. dispatch_burst env hz st (map E order) = Inr (st', []) \<and> best_path_current st' \<and>
     (\<forall>i<PATH_NB. all_paths_delay_list st' ! i =
        (if i \<in> set order then probe_delay (rcv i) (snt i) else all_paths_delay_list st ! i))"
  using assms
proof (induction order arbitrary: st)
  case Nil
  then show ?case by simp
next
  case (Cons k ks)
  obtain st1 where st1: "dispatch env hz st (E k) = Inr (st1, [])" "best_path_current st1"
    "all_paths_delay_list st1 = (all_paths_delay_list st)[k := probe_delay (rcv k) (snt k)]"
    using dispatch_probe_event [of "E k" k "snt k" "rcv k" st env hz] Cons.prems by auto
  have "delay_table st1" using st1(2) by (simp add: best_path_current_def)
  then obtain st2 where
    "dispatch_burst env hz st1 (map E ks) = Inr (st2, [])" "best_path_current st2"
    "\<forall>i<PATH_NB. all_paths_delay_list st2 ! i =
        (if i \<in> set ks then probe_delay (rcv i) (snt i) else all_paths_delay_list st1 ! i)"
    using Cons.IH [of st1] Cons.prems st1(2) by auto
  with st1 Cons.prems show ?case
    by (auto simp: delay_table_def nth_list_update)
qed

lemma packet_path_id_probe:
  assumes "encode_probe_pkt env True (Some m) (Some ts) p = Inr pkt"
  shows "packet_path_id pkt = p - 1" and "is_hopa_packet pkt"
    and "hc_flag (m_cp pkt) = 0" and "hc_cp_flag (m_cp pkt) = 0"
    and "be_to_cpu_64 (hc_ts (m_cp pkt)) = timespec_ns ts"
proof -
  have pkt: "pkt = (udp_frame env m (DST_PORT_PATH_1 - 1 + ucast p))\<lparr>m_cp := (m_cp m)
       \<lparr>hc_flag := 0, hc_cp_flag := 0, hc_rsvd := 0, hc_repath_id := 0,
        hc_seq := cpu_to_be_64 0, hc_ack := cpu_to_be_64 0,
        hc_ts := cpu_to_be_64 (timespec_ns ts)\<rparr>\<rparr>"
    using assms by simp
  show "packet_path_id pkt = p - 1" "is_hopa_packet pkt" "hc_flag (m_cp pkt) = 0"
    "hc_cp_flag (m_cp pkt) = 0" "be_to_cpu_64 (hc_ts (m_cp pkt)) = timespec_ns ts"
    using path_of_port [of p] by (simp_all add: pkt packet_path_id_def is_hopa_packet_def del: ucast_u16_pred)
qed

lemma probe_event_encoded:
  assumes "encode_probe_pkt env True (Some m) (Some ts) (of_nat (i + 1)) = Inr pkt"
    and "i < PATH_NB"
  shows "probe_event \<lparr>ev_mbuf = pkt, ev_clock = Some rts, ev_alloc = a\<rparr> i
           (timespec_ns ts) (timespec_ns rts)"
proof -
  have "unat (of_nat (i + 1) - 1 :: u8) = i"
    using assms(2) by (simp add: unat_of_nat PATH_NB_def)
  then show ?thesis
    using packet_path_id_probe [OF assms(1)] by (simp add: probe_event_def)
qed


definition blank_mbuf :: mbuf where
  "blank_mbuf = \<lparr>m_eth = \<lparr>s_addr = [], d_addr = [], ether_type = []\<rparr>,
     m_ip = \<lparr>version_ihl = 0, type_of_service = 0, total_length = [], packet_id = [],
       fragment_offset = [], time_to_live = 0, next_proto_id = 0, hdr_checksum = [],
       src_addr = [], dst_addr = []\<rparr>,
     m_udp = \<lparr>src_port = [], dst_port = [], dgram_len = [], dgram_cksum = []\<rparr>,
     m_cp = \<lparr>hc_flag = 0, hc_cp_flag = 0, hc_ts = [], hc_repath_id = 0, hc_seq = [],
       hc_ack = [], hc_rsvd = 0\<rparr>\<rparr>"

definition zero_cksum :: cksum_env where
  "zero_cksum = \<lparr>rte_ipv4_cksum = (\<lambda>_. [0, 0]), rte_ipv4_udptcp_cksum = (\<lambda>_ _ _. [0, 0])\<rparr>"


text \<open>The invariant of the receiver: one packet, then a burst.\<close>

lemma dispatch_keeps_best_path:
  assumes "best_path_current st" and "dispatch env hz st ev = Inr (st', es)"
  shows "best_path_current st'"
proof -
  have probe: "best_path_current s'"
    if pr: "hopa_cp_probe_pkt_progress st m clock = Inr s'" for m clock s'
  proof -
    have t: "delay_table st" using assms(1) by (simp add: best_path_current_def)
    obtain ts where ts: "clock = Some ts"
      using pr by (cases clock) (auto simp: hopa_cp_probe_pkt_progress_def)
    then have "unat (packet_path_id m) < PATH_NB"
      using pr probe_progress_out_of_bounds [OF t, of m ts]
      by (cases "unat (packet_path_id m) < PATH_NB") auto
    with probe_progress_ok [OF t] pr ts show ?thesis by (metis sum.inject(2))
  qed
  have frame: "best_path_current (st\<lparr>cur_path := c\<rparr>)" for c
    using assms(1) by (simp add: best_path_current_def delay_table_def)
  have dp: "best_path_current s'"
    if "hopa_dp_ts_pkt_progress env st alloc = Inr (s', es')" for alloc s' es'
    using that frame
    by (auto simp: hopa_dp_ts_pkt_progress_def fault_simps Let_def split: option.splits if_splits)
  show ?thesis
    using assms probe dp by (auto simp: dispatch_def Let_def fault_simps split: if_splits)
qed

lemma dispatch_burst_keeps:
  assumes "best_path_current st" and "dispatch_burst env hz st evs = Inr (st', es)"
  shows "best_path_current st'"
  using assms
proof (induction evs arbitrary: st es)
  case Nil
  then show ?case by simp
next
  case (Cons ev evs)
  from Cons.prems(2) obtain st1 es1 es2 where "dispatch env hz st ev = Inr (st1, es1)"
    and "dispatch_burst env hz st1 evs = Inr (st', es2)"
    by (auto simp: fault_simps)
  with Cons show ?case by (blast intro: dispatch_keeps_best_path)
qed

text \<open>C2: a receiver that starts with a consistent best path has one after every burst that
  it survives: \<open>opt_path_id\<close> is the first index of the least entry of the delay table.\<close>

theorem dispatch_burst_keeps_best_path:
  assumes "best_path_current st"
    and "lcore_stats_turn env hz prev cur st burst = Inr (prev', st', es)"
  shows "best_path_current st'"
  using assms
  by (auto simp: lcore_stats_turn_def Let_def fault_simps split: option.splits if_splits
      intro: dispatch_burst_keeps)

theorem dispatch_burst_keeps_best_path_witness:
  "\<exists>prev st' es. lcore_stats_turn zero_cksum 1000 0 100
     (initial_state\<lparr>hopa_in_out_ring_ins := Some \<lparr>hopa_in_ring = True, hopa_out_ring = True\<rparr>\<rparr>)
     [\<lparr>ev_mbuf = projr (encode_probe_pkt zero_cksum True (Some blank_mbuf)
        (Some \<lparr>tv_sec = 5, tv_nsec = 0\<rparr>) 2),
       ev_clock = Some \<lparr>tv_sec = 6, tv_nsec = 0\<rparr>, ev_alloc = None\<rparr>] = Inr (prev, st', es) \<and>
     best_path_current st'"
proof -
  let ?st = "initial_state\<lparr>hopa_in_out_ring_ins :=
    Some \<lparr>hopa_in_ring = True, hopa_out_ring = True\<rparr>\<rparr>"
  let ?m = "projr (encode_probe_pkt zero_cksum True (Some blank_mbuf)
        (Some \<lparr>tv_sec = 5, tv_nsec = 0\<rparr>) 2)"
  let ?ev = "\<lparr>ev_mbuf = ?m, ev_clock = Some \<lparr>tv_sec = 6, tv_nsec = 0\<rparr>, ev_alloc = None\<rparr>"
  have inv: "best_path_current ?st"
    by (simp add: best_path_current_def delay_table_def initial_state_def first_min_def
        PATH_NB_def less_Suc_eq numeral_eq_Suc)
  have "probe_event ?ev 1 (timespec_ns \<lparr>tv_sec = 5, tv_nsec = 0\<rparr>)
          (timespec_ns \<lparr>tv_sec = 6, tv_nsec = 0\<rparr>)"
    by (rule probe_event_encoded [of zero_cksum blank_mbuf]) (simp_all add: PATH_NB_def)
  then obtain st' where "dispatch zero_cksum 1000 ?st ?ev = Inr (st', [])"
    using dispatch_probe_event [of ?ev 1 _ _ ?st zero_cksum 1000] inv
    by (auto simp: best_path_current_def PATH_NB_def)
  then have "\<exists>prev es. lcore_stats_turn zero_cksum 1000 0 100 ?st [?ev] = Inr (prev, st', es)"
    by (simp add: lcore_stats_turn_def Let_def initial_state_def)
  then show ?thesis using dispatch_burst_keeps_best_path [OF inv] by blast
qed

text \<open>What a turn of the receiver needs in order not to fault.\<close>

definition event_safe :: "hopa_cp_state \<Rightarrow> rx_event \<Rightarrow> bool" where
  "event_safe st ev \<longleftrightarrow>
     ev_clock ev \<noteq> None \<and> ev_alloc ev \<noteq> None \<and>
     unat (packet_path_id (ev_mbuf ev)) < PATH_NB \<and>
     (hc_flag (m_cp (ev_mbuf ev)) = 1 \<longrightarrow> (\<exists>c. cur_path st = Some c \<and> check_defined c))"

definition process_ready :: "hopa_cp_state \<Rightarrow> bool" where
  "process_ready st \<longleftrightarrow> mbuf_pool st \<and> delay_table st \<and>
     hopa_in_out_ring_ins st = Some \<lparr>hopa_in_ring = True, hopa_out_ring = True\<rparr>"

text \<open>With its pool and its rings in place, the receiver handles a packet without fault
  when the clock and the pool answer, the packet's port is that of a path, and, for a packet
  of the data plane, the time stamps of the path in use differ.\<close>

theorem dispatch_total:
  assumes "process_ready st" and "event_safe st ev"
  shows "\<exists>st' es. dispatch env hz st ev = Inr (st', es) \<and> process_ready st'"
proof -
  obtain ts m where ev: "ev_clock ev = Some ts" "ev_alloc ev = Some m"
    using assms(2) by (auto simp: event_safe_def)
  have st: "mbuf_pool st" "delay_table st"
    "hopa_in_out_ring_ins st = Some \<lparr>hopa_in_ring = True, hopa_out_ring = True\<rparr>"
    using assms(1) by (auto simp: process_ready_def)
  have "\<exists>st'. hopa_cp_probe_pkt_progress st (ev_mbuf ev) (ev_clock ev) = Inr st' \<and>
          process_ready st'"
  proof -
    have "unat (packet_path_id (ev_mbuf ev)) < PATH_NB" using assms(2) by (simp add: event_safe_def)
    then show ?thesis
      using st by (auto intro: probe_progress_ok [OF st(2), of "ev_mbuf ev" ts]
          simp: ev process_ready_def best_path_current_def)
  qed
  moreover have "\<exists>es. hopa_cp_repath_pkt_progress env hz st (ev_alloc ev) = Inr es"
    using st by (simp add: ev hopa_cp_repath_pkt_progress_def enqueue_out_def)
  moreover have "\<exists>st' es. hopa_dp_ts_pkt_progress env st (ev_alloc ev) = Inr (st', es) \<and>
      process_ready st'" if flag: "hc_flag (m_cp (ev_mbuf ev)) = 1"
  proof -
    obtain c where c: "cur_path st = Some c" "check_defined c"
      using assms(2) flag by (auto simp: event_safe_def)
    obtain b c' where "one_path_check c = Inr (b, c')" using one_path_check_returns [OF c(2)] .
    then show ?thesis
      using st c(1)
      by (simp add: hopa_dp_ts_pkt_progress_def ev enqueue_out_def Let_def process_ready_def
          delay_table_def)
  qed
  ultimately show ?thesis
    using assms(1) by (auto simp: dispatch_def Let_def)
qed

theorem dispatch_total_witness:
  "\<exists>st' es. dispatch zero_cksum 1000
     (initial_state\<lparr>mbuf_pool := True,
        hopa_in_out_ring_ins := Some \<lparr>hopa_in_ring = True, hopa_out_ring = True\<rparr>\<rparr>)
     \<lparr>ev_mbuf = projr (encode_probe_pkt zero_cksum True (Some blank_mbuf)
        (Some \<lparr>tv_sec = 5, tv_nsec = 0\<rparr>) 2),
      ev_clock = Some \<lparr>tv_sec = 6, tv_nsec = 0\<rparr>, ev_alloc = Some blank_mbuf\<rparr> = Inr (st', es) \<and>
     process_ready st'"
proof (rule dispatch_total)
  show "process_ready (initial_state\<lparr>mbuf_pool := True,
      hopa_in_out_ring_ins := Some \<lparr>hopa_in_ring = True, hopa_out_ring = True\<rparr>\<rparr>)"
    by (simp add: process_ready_def delay_table_def initial_state_def PATH_NB_def)
qed (simp add: event_safe_def packet_path_id_def DST_PORT_PATH_1_def PATH_NB_def)

end
