(* ===== verification/Hopa_Properties.thy ===== *)
theory Hopa_Properties
  imports Hopa_Control
begin

text \<open>
  Further properties of the stand-alone control plane: the round trip from an encoded probe
  to the receiver, the port a repath packet is sent to, the checksum of a packet, the
  conditions that make the monitor ask for a new path, start-up and the transmit loop.
\<close>

section \<open>Packets\<close>

text \<open>A probe encoded for path \<open>p\<close> (counted from 1) is recognised by the receiver as a
  control plane probe of path \<open>p - 1\<close> (counted from 0) that carries the sender's time.\<close>

theorem probe_packet_roundtrip:
  assumes "1 \<le> p" and "p \<le> PATH_NB"
    and "encode_probe_pkt env True (Some m) (Some ts) (of_nat p) = Inr pkt"
  shows "is_hopa_packet pkt \<and> hc_flag (m_cp pkt) = hopa_module_code HOPA_CP \<and>
         hc_cp_flag (m_cp pkt) = hopa_cp_flag_code PROBE \<and>
         unat (packet_path_id pkt) = p - 1 \<and>
         be_to_cpu_64 (hc_ts (m_cp pkt)) = timespec_ns ts"
proof -
  have "unat (of_nat p - 1 :: u8) = p - 1"
    using assms(1,2) by (cases p) (simp_all add: unat_of_nat PATH_NB_def)
  then show ?thesis using packet_path_id_probe [OF assms(3)] by simp
qed

theorem probe_packet_roundtrip_witness:
  "unat (packet_path_id (projr (encode_probe_pkt zero_cksum True (Some blank_mbuf)
      (Some \<lparr>tv_sec = 1, tv_nsec = 2\<rparr>) (of_nat 4)))) = 4 - 1"
  using probe_packet_roundtrip [of 4 zero_cksum blank_mbuf "\<lparr>tv_sec = 1, tv_nsec = 2\<rparr>"]
  by (simp add: PATH_NB_def)

text \<open>The packet that asks for path \<open>best\<close> (counted from 0) carries the number \<open>best\<close>,
  but leaves on the port on which the probes of the path before it are sent; for the first
  path, on a port that no path has.\<close>

theorem repath_leaves_on_previous_path:
  assumes "best < PATH_NB"
    and "encode_repath_pkt env True (Some m) (of_nat best) r = Inr pkt"
  shows "hc_repath_id (m_cp pkt) = r \<and> unat (be_to_cpu_16 (dst_port (m_udp pkt))) = 5677 + best \<and>
         (0 < best \<longrightarrow> unat (packet_path_id pkt) = best - 1) \<and>
         (best = 0 \<longrightarrow> PATH_NB \<le> unat (packet_path_id pkt))"
proof -
  have pkt: "pkt = (udp_frame env m (DST_PORT_PATH_1 - 1 + ucast (of_nat best :: u8)))\<lparr>m_cp := (m_cp m)
       \<lparr>hc_flag := 0, hc_cp_flag := 1, hc_rsvd := 0, hc_repath_id := r,
        hc_seq := cpu_to_be_64 0, hc_ack := cpu_to_be_64 0\<rparr>\<rparr>"
    using assms(2) by simp
  have "best = 0 \<or> best = 1 \<or> best = 2 \<or> best = 3"
    using assms(1) by (auto simp: PATH_NB_def)
  moreover have "(ucast (- 1 :: u16) :: u8) = 255" by code_simp
  ultimately show ?thesis
    by (auto simp: pkt packet_path_id_def DST_PORT_PATH_1_def PATH_NB_def)
qed

theorem repath_leaves_on_previous_path_witness:
  "unat (be_to_cpu_16 (dst_port (m_udp (projr
     (encode_repath_pkt zero_cksum True (Some blank_mbuf) (of_nat 2) 2))))) = 5677 + 2"
  using repath_leaves_on_previous_path [of 2 zero_cksum blank_mbuf 2]
  by (simp add: PATH_NB_def)

text \<open>The UDP checksum of a probe is computed over the payload that was in the buffer
  before the HOPA header is written: it does not depend on the packet's own time stamp, and
  is the checksum of the packet only if the routine ignores the payload.\<close>

theorem probe_checksum_of_stale_payload:
  assumes "encode_probe_pkt env True (Some m) (Some ts) p = Inr pkt"
  shows "dgram_cksum (m_udp pkt) =
           rte_ipv4_udptcp_cksum env (m_ip pkt)
             ((m_udp pkt)\<lparr>dgram_cksum := dgram_cksum (m_udp m)\<rparr>) (m_cp m)"
  using assms by (auto simp: udp_frame_def fill_udp_header_def Let_def)

theorem probe_checksum_of_stale_payload_witness:
  "dgram_cksum (m_udp (projr (encode_probe_pkt
     (zero_cksum\<lparr>rte_ipv4_udptcp_cksum := (\<lambda>ip udp pl. hc_ts pl)\<rparr>) True
     (Some (blank_mbuf\<lparr>m_cp := (m_cp blank_mbuf)\<lparr>hc_ts := [9, 9]\<rparr>\<rparr>))
     (Some \<lparr>tv_sec = 1, tv_nsec = 2\<rparr>) 1))) = [9, 9]"
  using probe_checksum_of_stale_payload
    [of "zero_cksum\<lparr>rte_ipv4_udptcp_cksum := (\<lambda>ip udp pl. hc_ts pl)\<rparr>"
      "blank_mbuf\<lparr>m_cp := (m_cp blank_mbuf)\<lparr>hc_ts := [9, 9]\<rparr>\<rparr>"
      "\<lparr>tv_sec = 1, tv_nsec = 2\<rparr>" 1]
  by simp

lemma and_ff: "a AND 0xff = take_bit 8 (a :: u32)"
  by (simp add: take_bit_eq_mask mask_eq_exp_minus_1)

text \<open>The address \<open>IPV4_ADDR\<close> builds is printed as the four numbers it was built from.\<close>

theorem ipv4_addr_octets:
  "ip_octets (IPV4_ADDR a b c d) = [a AND 0xff, b AND 0xff, c AND 0xff, d AND 0xff]"
  unfolding ip_octets_def IPV4_ADDR_def and_ff
  by (auto simp: bit_simps intro!: bit_word_eqI)

section \<open>The monitor\<close>

text \<open>Whenever the delay reaches the greatest value seen so far, or falls below the
  previous one, the check of the path in use asks for a new path.\<close>

theorem monitor_asks_for_new_path:
  assumes "check_defined c"
    and "max_dt c \<le> cur_dt c \<or> (cur_dt c < last_1_dt c \<and> unat (last_1_dt c) < 2 ^ 53)"
  shows "\<exists>c'. one_path_check c = Inr (True, c')"
  using assms one_path_check_new_maximum one_path_check_falling by blast

definition sample_info :: cur_path_info where
  "sample_info = \<lparr>ci_path_id = 0, max_dt = 900, min_dt = 100, last_3_dt_grad = 0,
     last_2_dt_grad = 0, last_1_dt_grad = 0, cur_dt_grad = 0, last_3_dt = 100, last_2_dt = 110,
     last_1_dt = 120, cur_dt = 119, cur_ts = 30, last_ts = 20, thres_dt = 0, delta_t = 0\<rparr>"

theorem monitor_asks_for_new_path_witness:
  "\<exists>c'. one_path_check sample_info = Inr (True, c')"
  by (rule monitor_asks_for_new_path) (simp_all add: sample_info_def check_defined_def)

text \<open>The check always divides by the time between two packets, so equal time stamps
  are a division by zero; otherwise (within 53 bits) it returns and the threshold it stores
  lies between the least and the greatest delay.\<close>

theorem monitor_result:
  assumes "unat (max_dt c) < 2 ^ 53" and "unat (cur_dt c) < 2 ^ 53"
    and "unat (cur_ts c - last_ts c) < 2 ^ 63"
  shows "if cur_ts c = last_ts c then one_path_check c = Inl Div_By_Zero
         else \<exists>b c'. one_path_check c = Inr (b, c') \<and>
           max_dt c' = max (max_dt c) (cur_dt c) \<and> min_dt c' = min (min_dt c) (cur_dt c) \<and>
           min_dt c' \<le> thres_dt c' \<and> thres_dt c' \<le> max_dt c' \<and>
           (thres_dt c' \<le> cur_dt c \<longrightarrow> b)"
proof (cases "cur_ts c = last_ts c")
  case True
  then show ?thesis using one_path_check_same_timestamp [OF _ assms(1,2)] by simp
next
  case False
  then have "check_defined c" using assms by (simp add: check_defined_def)
  from one_path_check_returns [OF this] show ?thesis
    using False by (fastforce simp: checked_info_def)
qed

theorem monitor_result_witness:
  "if cur_ts sample_info = last_ts sample_info then one_path_check sample_info = Inl Div_By_Zero
   else \<exists>b c'. one_path_check sample_info = Inr (b, c') \<and>
     max_dt c' = max (max_dt sample_info) (cur_dt sample_info) \<and>
     min_dt c' = min (min_dt sample_info) (cur_dt sample_info) \<and>
     min_dt c' \<le> thres_dt c' \<and> thres_dt c' \<le> max_dt c' \<and>
     (thres_dt c' \<le> cur_dt sample_info \<longrightarrow> b)"
  by (rule monitor_result) (simp_all add: sample_info_def)

text \<open>A probe whose destination port is not that of a path makes the receiver write
  outside the delay table.\<close>

theorem stray_probe_out_of_bounds:
  assumes "delay_table st" and "is_hopa_packet (ev_mbuf ev)"
    and "hc_flag (m_cp (ev_mbuf ev)) = hopa_module_code HOPA_CP"
    and "hc_cp_flag (m_cp (ev_mbuf ev)) = hopa_cp_flag_code PROBE"
    and "ev_clock ev = Some ts" and "PATH_NB \<le> unat (packet_path_id (ev_mbuf ev))"
  shows "dispatch env hz st ev = Inl Out_Of_Bounds"
  using assms by (simp add: dispatch_def Let_def probe_progress_out_of_bounds)

theorem stray_probe_out_of_bounds_witness:
  "dispatch zero_cksum 1000 initial_state
     \<lparr>ev_mbuf = projr (encode_probe_pkt zero_cksum True (Some blank_mbuf)
        (Some \<lparr>tv_sec = 5, tv_nsec = 0\<rparr>) 5),
      ev_clock = Some \<lparr>tv_sec = 6, tv_nsec = 0\<rparr>, ev_alloc = None\<rparr> = Inl Out_Of_Bounds"
  by (rule stray_probe_out_of_bounds [where ts = "\<lparr>tv_sec = 6, tv_nsec = 0\<rparr>"])
     (simp_all add: delay_table_def initial_state_def PATH_NB_def packet_path_id_def
        is_hopa_packet_def DST_PORT_PATH_1_def)

section \<open>Start-up and transmission\<close>



text \<open>\<open>port_init\<close> succeeds exactly when every call it makes does, and then the port has
  one receive and two transmit queues, is started after they are set up, and is made
  promiscuous last.  The calls of a run that fails are a prefix of these: no call follows the
  failing one.\<close>

theorem port_init_complete:
  "(fst (port_init dev) = 0 \<longleftrightarrow>
      dev_is_valid_port dev \<and> dev_info_get dev = 0 \<and> dev_configure dev = 0 \<and>
      fst (dev_adjust_desc dev) = 0 \<and> 0 \<le> dev_rx_queue_setup dev 0 \<and>
      0 \<le> dev_tx_queue_setup dev 0 \<and> 0 \<le> dev_tx_queue_setup dev 1 \<and> 0 \<le> dev_start dev \<and>
      dev_macaddr_get dev = 0 \<and> dev_promiscuous dev = 0 \<and>
      snd (port_init dev) = full_setup (dev_fast_free dev) (fst (snd (dev_adjust_desc dev)))
        (snd (snd (dev_adjust_desc dev)))) \<and>
   snd (port_init dev) = take (length (snd (port_init dev)))
     (full_setup (dev_fast_free dev) (fst (snd (dev_adjust_desc dev)))
        (snd (snd (dev_adjust_desc dev))))"
proof (cases "dev_adjust_desc dev")
  case (fields adj nb_rxd nb_txd)
  then show ?thesis
    by (auto simp: port_init_def full_setup_def attempt_def Let_def)
qed

text \<open>\<open>parse_args\<close> accepts exactly the command lines that repeat \<open>-s value\<close>; the last
  value is the one that counts, and with none the process is a receiver.\<close>

theorem parse_args_accepts:
  "parse_args \<lparr>is_sender = 0\<rparr> (prog # args) = Inr q \<longleftrightarrow>
     (\<exists>vs. args = concat (map (\<lambda>v. [''-s'', v]) vs) \<and>
           q = \<lparr>is_sender = (if vs = [] then 0 else ucast (strtoull10 (last vs)))\<rparr>)"
proof
  assume "parse_args \<lparr>is_sender = 0\<rparr> (prog # args) = Inr q"
  then obtain vs where "args = concat (map (\<lambda>v. [''-s'', v]) vs)"
    and "q = (if vs = [] then \<lparr>is_sender = 0\<rparr>
              else \<lparr>is_sender = 0\<rparr>\<lparr>is_sender := ucast (strtoull10 (last vs))\<rparr>)"
    using parse_args_loop_ok [of "\<lparr>is_sender = 0\<rparr>" args q] by (auto simp: parse_args_def)
  then show "\<exists>vs. args = concat (map (\<lambda>v. [''-s'', v]) vs) \<and>
      q = \<lparr>is_sender = (if vs = [] then 0 else ucast (strtoull10 (last vs)))\<rparr>"
    by (intro exI [of _ vs]) simp
next
  assume "\<exists>vs. args = concat (map (\<lambda>v. [''-s'', v]) vs) \<and>
      q = \<lparr>is_sender = (if vs = [] then 0 else ucast (strtoull10 (last vs)))\<rparr>"
  then obtain vs where "args = concat (map (\<lambda>v. [''-s'', v]) vs)"
    and "q = \<lparr>is_sender = (if vs = [] then 0 else ucast (strtoull10 (last vs)))\<rparr>"
    by blast
  then show "parse_args \<lparr>is_sender = 0\<rparr> (prog # args) = Inr q"
    using parse_args_loop_senders [of "\<lparr>is_sender = 0\<rparr>" vs "[]"]
    by (simp add: parse_args_def)
qed

text \<open>A process that starts up is ready to receive (its tables are consistent), and it
  is a sender exactly when the parsed parameter is not zero; but the rings are as
  \<open>rte_ring_create\<close> returned them, so a sender whose out ring was not created faults in its
  first round.\<close>

theorem main_startup_state:
  assumes "main_startup su = Inr (role, st)"
  shows "best_path_current st \<and> mbuf_pool st \<and>
         hopa_in_out_ring_ins st =
           Some \<lparr>hopa_in_ring = su_in_ring su, hopa_out_ring = su_out_ring su\<rparr> \<and>
         (\<not> su_out_ring su \<longrightarrow> (\<forall>e. lcore_probe_turn env st inputs \<noteq> Inr e))"
proof -
  have st: "st = initial_state\<lparr>mbuf_pool := True, hopa_in_out_ring_ins :=
      Some \<lparr>hopa_in_ring = su_in_ring su, hopa_out_ring = su_out_ring su\<rparr>\<rparr>"
    using assms by (auto simp: main_startup_def fault_simps get_ring_instance_def initial_state_def
        split: if_splits)
  have "best_path_current st"
    by (simp add: st best_path_current_def delay_table_def initial_state_def first_min_def
        PATH_NB_def less_Suc_eq numeral_eq_Suc)
  moreover have "lcore_probe_turn env st inputs \<noteq> Inr e" if "\<not> su_out_ring su" for e
    using that by (auto simp: st lcore_probe_turn_def bindr_eq_Inr_iff enqueue_out_def)
  ultimately show ?thesis by (simp add: st)
qed

definition good_startup :: startup where
  "good_startup = \<lparr>su_eal_init = 1, su_argv = [''hopa'', ''x'', ''-s'', ''1''], su_pool = True,
     su_dev = \<lparr>dev_is_valid_port = True, dev_info_get = 0, dev_fast_free = False,
       dev_configure = 0, dev_adjust_desc = (0, 1024, 1024), dev_rx_queue_setup = (\<lambda>_. 0),
       dev_tx_queue_setup = (\<lambda>_. 0), dev_start = 0, dev_macaddr_get = 0, dev_promiscuous = 0\<rparr>,
     su_ring_alloc = True, su_in_ring = True, su_out_ring = False\<rparr>"

theorem main_startup_state_witness:
  "\<exists>role st. main_startup good_startup = Inr (role, st) \<and> best_path_current st"
proof -
  have "port_init (su_dev good_startup) = (0, full_setup False 1024 1024)"
    by (simp add: good_startup_def port_init_def full_setup_def attempt_def)
  then have "\<exists>role st. main_startup good_startup = Inr (role, st)"
    by (simp add: main_startup_def good_startup_def parse_args_def get_ring_instance_def
        initial_state_def)
  then show ?thesis using main_startup_state by blast
qed

end
