(* ===== verification/Vswitchd_Hopa.thy ===== *)
theory Vswitchd_Hopa
  imports Hopa_Monitor
begin

text \<open>
  The control plane that runs inside \<open>ovs-vswitchd\<close>
  (\<open>src/openvswitch-2.17.2-cq-dpu/ovs-vswitchd.c\<close> and its twin in \<open>...-yy-dpu\<close>): the
  one-time initialisation from the main loop, the sender thread of each host, the thread
  that processes received headers, and the encoders.  The two hosts run the same code with
  source and destination exchanged; \<open>host_cfg\<close> holds what differs.
\<close>

section \<open>Headers and hosts\<close>

record vs_cp_hdr =
  vc_flag :: u8
  vc_cp_flag :: u8
  vc_probe_path_id :: u8
  vc_repath_id :: u8
  vc_rsvd :: u8
  vc_seq :: "u8 list"
  vc_ack :: "u8 list"
  vc_ts :: "u8 list"

definition sizeof_vs_cp_hdr :: nat where
  "sizeof_vs_cp_hdr = struct_sizeof [1, 1, 1, 1, 1, 8, 8, 8]"

lemma sizeof_vs_cp_hdr_32 [simp]: "sizeof_vs_cp_hdr = 32"
  by (simp add: sizeof_vs_cp_hdr_def layout_simps)

record vs_mbuf =
  vm_eth :: eth_hdr
  vm_ip :: ipv4_hdr
  vm_udp :: udp_hdr
  vm_cp :: vs_cp_hdr
  vm_pkt_len :: u32

record host_cfg =
  cfg_src_mac :: "u8 list"
  cfg_dst_mac :: "u8 list"
  cfg_src_ip :: u32
  cfg_dst_ip :: u32

definition cq_host :: host_cfg where
  "cq_host = \<lparr>cfg_src_mac = [0x08, 0xc0, 0xeb, 0xbf, 0xef, 0x9b],
              cfg_dst_mac = [0x08, 0xc0, 0xeb, 0xbf, 0xef, 0x83],
              cfg_src_ip = IPV4_ADDR 192 168 201 2, cfg_dst_ip = IPV4_ADDR 192 168 201 1\<rparr>"

definition yy_host :: host_cfg where
  "yy_host = \<lparr>cfg_src_mac = [0x08, 0xc0, 0xeb, 0xbf, 0xef, 0x83],
              cfg_dst_mac = [0x08, 0xc0, 0xeb, 0xbf, 0xef, 0x9b],
              cfg_src_ip = IPV4_ADDR 192 168 201 1, cfg_dst_ip = IPV4_ADDR 192 168 201 2\<rparr>"

definition VS_SRC_PORT :: u16 where "VS_SRC_PORT = 4444"
definition VS_DST_PORT :: u16 where "VS_DST_PORT = 8880"

section \<open>State\<close>

text \<open>
  The globals: the pool \<open>hopa_cp_mp\<close>, the pair of rings (each created or null) once
  \<open>rte_malloc\<close> has returned it, the delay table, \<open>best_path_id\<close>, \<open>hopa_cp_has_init\<close> and
  \<open>start_time\<close>.
\<close>

record cp_rings =
  cp_in_ring :: bool
  cp_out_ring :: bool

record vs_state =
  hopa_cp_mp :: bool
  m_rings :: "cp_rings option"
  vs_delay_list :: "u64 list"
  best_path_id :: u8
  hopa_cp_has_init :: bool
  start_time :: int

section \<open>Encoders\<close>

text \<open>
  The common part of both encoders: Ethernet, IPv4 and UDP.  Each \<open>rte_pktmbuf_append\<close>
  lengthens the packet; the UDP checksum is not assigned.
\<close>

definition vs_frame ::
  "(ipv4_hdr \<Rightarrow> u8 list) \<Rightarrow> host_cfg \<Rightarrow> vs_mbuf \<Rightarrow> u16 \<Rightarrow> vs_mbuf" where
  "vs_frame cksum host m port =
     (let eth = (vm_eth m)\<lparr>s_addr := cfg_src_mac host, d_addr := cfg_dst_mac host,
                           ether_type := cpu_to_be_16 ETHER_TYPE_IPV4\<rparr>;
          ip = (vm_ip m)\<lparr>version_ihl := push_bit 4 4 + 5, type_of_service := 0,
                 total_length := cpu_to_be_16
                   (of_nat (sizeof_ipv4_hdr + sizeof_udp_hdr + sizeof_vs_cp_hdr)),
                 packet_id := cpu_to_be_16 5462, fragment_offset := cpu_to_be_16 0,
                 time_to_live := 64, next_proto_id := IPPROTO_UDP,
                 src_addr := cpu_to_be_32 (cfg_src_ip host),
                 dst_addr := cpu_to_be_32 (cfg_dst_ip host)\<rparr>;
          udp = (vm_udp m)\<lparr>src_port := cpu_to_be_16 VS_SRC_PORT, dst_port := cpu_to_be_16 port,
                  dgram_len := cpu_to_be_16 (of_nat (sizeof_udp_hdr + sizeof_vs_cp_hdr))\<rparr>
      in m\<lparr>vm_eth := eth, vm_ip := ip\<lparr>hdr_checksum := cksum ip\<rparr>, vm_udp := udp,
           vm_pkt_len := vm_pkt_len m +
             of_nat (sizeof_ether_hdr + sizeof_ipv4_hdr + sizeof_udp_hdr + sizeof_vs_cp_hdr)\<rparr>)"

text \<open>
  \<open>ts\<close> is what the local \<open>ts\<close> holds after \<open>clock_gettime\<close>, whose result is not looked at.
\<close>

definition vs_encode_probe_pkt ::
  "(ipv4_hdr \<Rightarrow> u8 list) \<Rightarrow> host_cfg \<Rightarrow> bool \<Rightarrow> vs_mbuf option \<Rightarrow> timespec \<Rightarrow> u8 \<Rightarrow> vs_mbuf option"
where
  "vs_encode_probe_pkt cksum host pool alloc ts path_id =
     (if \<not> pool then None
      else case alloc of
        None \<Rightarrow> None
      | Some m \<Rightarrow> Some ((vs_frame cksum host m (VS_DST_PORT + ucast path_id))\<lparr>vm_cp := (vm_cp m)
          \<lparr>vc_flag := hopa_module_code HOPA_CP, vc_cp_flag := hopa_cp_flag_code PROBE,
           vc_probe_path_id := path_id, vc_repath_id := 0, vc_rsvd := 0,
           vc_seq := cpu_to_be_64 0, vc_ack := cpu_to_be_64 0,
           vc_ts := cpu_to_be_64 (timespec_ns ts)\<rparr>\<rparr>))"

text \<open>\<open>probe_path_id\<close> is an 8-bit member; the constant 65535 is truncated.\<close>

definition vs_encode_repath_pkt ::
  "(ipv4_hdr \<Rightarrow> u8 list) \<Rightarrow> host_cfg \<Rightarrow> bool \<Rightarrow> vs_mbuf option \<Rightarrow> u8 \<Rightarrow> vs_mbuf option" where
  "vs_encode_repath_pkt cksum host pool alloc repath_id =
     (if \<not> pool then None
      else case alloc of
        None \<Rightarrow> None
      | Some m \<Rightarrow> Some ((vs_frame cksum host m (VS_DST_PORT + ucast repath_id))\<lparr>vm_cp := (vm_cp m)
          \<lparr>vc_flag := hopa_module_code HOPA_CP, vc_cp_flag := hopa_cp_flag_code REPATH,
           vc_probe_path_id := of_nat 65535, vc_repath_id := repath_id, vc_rsvd := 0,
           vc_seq := cpu_to_be_64 0, vc_ack := cpu_to_be_64 0,
           vc_ts := cpu_to_be_64 0\<rparr>\<rparr>))"

section \<open>Handlers\<close>

definition vs_get_min_delay_path_id :: "u64 list \<Rightarrow> u8 \<Rightarrow> u8 c_result" where
  "vs_get_min_delay_path_id xs len = min_delay_loop xs (unat len - 1) 1 0"

definition vs_probe_delay :: "u64 \<Rightarrow> u64 \<Rightarrow> u64" where
  "vs_probe_delay receiver_ts sender_ts = 1000000000 + receiver_ts - sender_ts"

definition vs_probe_pkt_progress :: "vs_state \<Rightarrow> vs_cp_hdr \<Rightarrow> timespec \<Rightarrow> vs_state c_result" where
  "vs_probe_pkt_progress st h ts =
     bindr (arr_set (vs_delay_list st) (unat (vc_probe_path_id h))
              (vs_probe_delay (timespec_ns ts) (be_to_cpu_64 (vc_ts h)))) (\<lambda>ds.
     bindr (vs_get_min_delay_path_id ds (of_nat PATH_NB)) (\<lambda>best.
       Inr (st\<lparr>vs_delay_list := ds, best_path_id := best\<rparr>)))"

definition vs_repath_pkt_progress :: "vs_state \<Rightarrow> vs_cp_hdr \<Rightarrow> vs_state" where
  "vs_repath_pkt_progress st h = st\<lparr>best_path_id := vc_repath_id h\<rparr>"

definition vs_repath_ack_pkt_progress :: "vs_state \<Rightarrow> vs_cp_hdr \<Rightarrow> vs_state" where
  "vs_repath_ack_pkt_progress st h = st"

text \<open>The body of the loop of \<open>hopa_cp_progress\<close>, for one header taken from the in ring.\<close>

definition vs_progress_one :: "vs_state \<Rightarrow> vs_cp_hdr \<times> timespec \<Rightarrow> vs_state c_result" where
  "vs_progress_one st e =
     (case e of (h, ts) \<Rightarrow>
        if vc_flag h = hopa_module_code HOPA_CP then
          (if vc_cp_flag h = hopa_cp_flag_code PROBE then vs_probe_pkt_progress st h ts
           else if vc_cp_flag h = hopa_cp_flag_code REPATH then Inr (vs_repath_pkt_progress st h)
           else if vc_cp_flag h = hopa_cp_flag_code REPATH_ACK
           then Inr (vs_repath_ack_pkt_progress st h)
           else Inr st)
        else Inr st)"

text \<open>
  One turn of \<open>hopa_cp_progress\<close>: \<open>burst\<close> is what the in ring returned, at most 32 headers;
  using the rings before they exist is a null pointer.
\<close>

fun vs_progress_loop :: "vs_state \<Rightarrow> (vs_cp_hdr \<times> timespec) list \<Rightarrow> vs_state c_result" where
  "vs_progress_loop st [] = Inr st"
| "vs_progress_loop st (e # es) = bindr (vs_progress_one st e) (\<lambda>st'. vs_progress_loop st' es)"

definition hopa_cp_progress_turn ::
  "vs_state \<Rightarrow> (vs_cp_hdr \<times> timespec) list \<Rightarrow> vs_state c_result" where
  "hopa_cp_progress_turn st burst =
     (case m_rings st of
        None \<Rightarrow> Inl Null_Deref
      | Some r \<Rightarrow> if cp_in_ring r then vs_progress_loop st burst else Inl Null_Deref)"

text \<open>
  What the sender threads put on the out ring in one turn.  A failed allocation is a null
  pointer on the ring: nothing checks it.
\<close>

definition vs_enqueue_out :: "vs_state \<Rightarrow> vs_mbuf option list \<Rightarrow> vs_mbuf option list c_result" where
  "vs_enqueue_out st ms =
     (case m_rings st of
        None \<Rightarrow> Inl Null_Deref
      | Some r \<Rightarrow> if cp_out_ring r then Inr ms else Inl Null_Deref)"

definition cq_send_turn ::
  "(ipv4_hdr \<Rightarrow> u8 list) \<Rightarrow> vs_state \<Rightarrow> (nat \<Rightarrow> vs_mbuf option) \<Rightarrow> (nat \<Rightarrow> timespec)
   \<Rightarrow> vs_mbuf option list c_result" where
  "cq_send_turn cksum st alloc clock =
     vs_enqueue_out st (map (\<lambda>i. vs_encode_probe_pkt cksum cq_host (hopa_cp_mp st) (alloc i)
       (clock i) (of_nat i)) [0..<PATH_NB])"

definition yy_send_turn ::
  "(ipv4_hdr \<Rightarrow> u8 list) \<Rightarrow> vs_state \<Rightarrow> vs_mbuf option \<Rightarrow> vs_mbuf option list c_result" where
  "yy_send_turn cksum st alloc =
     vs_enqueue_out st [vs_encode_repath_pkt cksum yy_host (hopa_cp_mp st) alloc 2]"

definition vs_dp_ts_pkt_progress ::
  "(ipv4_hdr \<Rightarrow> u8 list) \<Rightarrow> host_cfg \<Rightarrow> vs_state \<Rightarrow> vs_mbuf option \<Rightarrow> vs_mbuf option list c_result"
where
  "vs_dp_ts_pkt_progress cksum host st alloc =
     vs_enqueue_out st [vs_encode_repath_pkt cksum host (hopa_cp_mp st) alloc (best_path_id st)]"

section \<open>Initialisation\<close>

record init_results =
  ir_pool :: bool
  ir_malloc :: bool
  ir_in_ring :: bool
  ir_out_ring :: bool

text \<open>
  \<open>hopa_cp_init\<close> is called in every turn of the main loop.  The result says whether the two
  threads were started.  The memory is written before the check for null; a pool or a ring
  that cannot be created is only logged.
\<close>

definition hopa_cp_init :: "vs_state \<Rightarrow> int \<Rightarrow> init_results \<Rightarrow> (vs_state \<times> bool) c_result" where
  "hopa_cp_init st now r =
     (if hopa_cp_has_init st then Inr (st, False)
      else if now - start_time st < 1 then Inr (st, False)
      else
        let st1 = st\<lparr>hopa_cp_mp := ir_pool r\<rparr>
        in if \<not> ir_malloc r then Inl Null_Deref
           else
             let st2 = st1\<lparr>m_rings := Some \<lparr>cp_in_ring = ir_in_ring r, cp_out_ring = ir_out_ring r\<rparr>\<rparr>
             in Inr (st2\<lparr>hopa_cp_has_init := True\<rparr>, True))"

definition vs_initial :: "int \<Rightarrow> vs_state" where
  "vs_initial t0 = \<lparr>hopa_cp_mp = False, m_rings = None,
     vs_delay_list = [0xFFFFFFFF, 0xFFFFFFFF, 0xFFFFFFFF, 0xFFFFFFFF], best_path_id = 0,
     hopa_cp_has_init = False, start_time = t0\<rparr>"

text \<open>The calls made by the main loop, one per turn; the flags of the turns are collected.\<close>

fun init_turns :: "vs_state \<Rightarrow> (int \<times> init_results) list \<Rightarrow> (vs_state \<times> bool list) c_result" where
  "init_turns st [] = Inr (st, [])"
| "init_turns st ((now, r) # ts) =
     bindr (hopa_cp_init st now r) (\<lambda>(st', b).
     bindr (init_turns st' ts) (\<lambda>(st'', bs). Inr (st'', b # bs)))"

section \<open>Facts\<close>

lemma vs_min_first_min:
  assumes "length xs = PATH_NB"
  shows "\<exists>r. vs_get_min_delay_path_id xs (of_nat PATH_NB) = Inr r \<and> first_min xs PATH_NB (unat r)"
  using get_min_delay_path_id_first_min [of PATH_NB xs] assms
  by (simp add: vs_get_min_delay_path_id_def get_min_delay_path_id_def PATH_NB_def)

lemma vs_probe_progress_ok:
  assumes "length (vs_delay_list st) = PATH_NB" and "unat (vc_probe_path_id h) < PATH_NB"
  obtains st' where "vs_probe_pkt_progress st h ts = Inr st'"
    and "vs_delay_list st' = (vs_delay_list st)[unat (vc_probe_path_id h) :=
           vs_probe_delay (timespec_ns ts) (be_to_cpu_64 (vc_ts h))]"
    and "first_min (vs_delay_list st') PATH_NB (unat (best_path_id st'))"
    and "m_rings st' = m_rings st" and "hopa_cp_mp st' = hopa_cp_mp st"
proof -
  let ?ds = "(vs_delay_list st)[unat (vc_probe_path_id h) :=
           vs_probe_delay (timespec_ns ts) (be_to_cpu_64 (vc_ts h))]"
  obtain r where "vs_get_min_delay_path_id ?ds (of_nat PATH_NB) = Inr r"
    and "first_min ?ds PATH_NB (unat r)"
    using vs_min_first_min [of ?ds] assms(1) by auto
  then show ?thesis
    using assms by (intro that [of "st\<lparr>vs_delay_list := ?ds, best_path_id := r\<rparr>"])
      (simp_all add: vs_probe_pkt_progress_def)
qed

lemma hopa_cp_init_initialised [simp]:
  "hopa_cp_has_init st \<Longrightarrow> hopa_cp_init st now r = Inr (st, False)"
  by (simp add: hopa_cp_init_def)

lemma init_turns_initialised:
  "hopa_cp_has_init st \<Longrightarrow> init_turns st ts = Inr (st, replicate (length ts) False)"
  by (induction ts) auto


text \<open>The table always has one entry per path and the best path is a first minimum of it.\<close>

definition vs_best_current :: "vs_state \<Rightarrow> bool" where
  "vs_best_current st \<longleftrightarrow>
     length (vs_delay_list st) = PATH_NB \<and>
     first_min (vs_delay_list st) PATH_NB (unat (best_path_id st))"

definition stray_probe :: "vs_cp_hdr \<Rightarrow> bool" where
  "stray_probe h \<longleftrightarrow>
     vc_flag h = hopa_module_code HOPA_CP \<and> vc_cp_flag h = hopa_cp_flag_code PROBE \<and>
     PATH_NB \<le> unat (vc_probe_path_id h)"

lemma vs_progress_one_stray:
  assumes "length (vs_delay_list st) = PATH_NB" and "stray_probe h"
  shows "vs_progress_one st (h, ts) = Inl Out_Of_Bounds"
  using assms by (simp add: vs_progress_one_def stray_probe_def vs_probe_pkt_progress_def)

lemma vs_progress_one_ok:
  assumes "length (vs_delay_list st) = PATH_NB" and "\<not> stray_probe h"
  shows "\<exists>st'. vs_progress_one st (h, ts) = Inr st' \<and> length (vs_delay_list st') = PATH_NB"
proof (cases "vc_flag h = hopa_module_code HOPA_CP \<and> vc_cp_flag h = hopa_cp_flag_code PROBE")
  case True
  with assms(2) have "unat (vc_probe_path_id h) < PATH_NB" by (simp add: stray_probe_def)
  with assms(1) obtain st' where "vs_probe_pkt_progress st h ts = Inr st'"
    "length (vs_delay_list st') = PATH_NB"
    using vs_probe_progress_ok [of st h ts] by (metis length_list_update)
  then show ?thesis using True by (simp add: vs_progress_one_def)
next
  case False
  then show ?thesis
    using assms(1) by (auto simp: vs_progress_one_def vs_repath_pkt_progress_def
        vs_repath_ack_pkt_progress_def)
qed

lemma vs_progress_loop_faults_iff:
  assumes "length (vs_delay_list st) = PATH_NB"
  shows "if \<exists>e\<in>set es. stray_probe (fst e) then vs_progress_loop st es = Inl Out_Of_Bounds
         else \<exists>st'. vs_progress_loop st es = Inr st' \<and> length (vs_delay_list st') = PATH_NB"
  using assms
proof (induction es arbitrary: st)
  case Nil
  then show ?case by simp
next
  case (Cons e es)
  obtain h ts where e: "e = (h, ts)" by (cases e)
  show ?case
  proof (cases "stray_probe h")
    case True
    then show ?thesis using vs_progress_one_stray [OF Cons.prems True] by (simp add: e)
  next
    case False
    obtain st' where "vs_progress_one st (h, ts) = Inr st'" "length (vs_delay_list st') = PATH_NB"
      using vs_progress_one_ok [OF Cons.prems False] by blast
    then show ?thesis using Cons.IH [of st'] False by (simp add: e)
  qed
qed

lemma vs_probe_hdr [simp]:
  "vs_encode_probe_pkt cksum host True (Some m) ts p = Some pkt \<Longrightarrow>
     vc_flag (vm_cp pkt) = hopa_module_code HOPA_CP \<and>
     vc_cp_flag (vm_cp pkt) = hopa_cp_flag_code PROBE \<and> vc_probe_path_id (vm_cp pkt) = p \<and>
     be_to_cpu_64 (vc_ts (vm_cp pkt)) = timespec_ns ts"
  by (auto simp: vs_encode_probe_pkt_def)

text \<open>Probes of distinct paths fill the table, each its own entry.\<close>

definition vs_probe_of :: "vs_cp_hdr \<Rightarrow> nat \<Rightarrow> u64 \<Rightarrow> bool" where
  "vs_probe_of h i sent \<longleftrightarrow>
     i < PATH_NB \<and> vc_flag h = hopa_module_code HOPA_CP \<and>
     vc_cp_flag h = hopa_cp_flag_code PROBE \<and> unat (vc_probe_path_id h) = i \<and>
     be_to_cpu_64 (vc_ts h) = sent"

lemma vs_progress_loop_probes:
  assumes "length (vs_delay_list st) = PATH_NB" and "distinct order"
    and "\<forall>i\<in>set order. vs_probe_of (hd_of i) i (sent i)"
  shows "\<exists>st'. vs_progress_loop st (map (\<lambda>i. (hd_of i, rts i)) order) = Inr st' \<and>
           length (vs_delay_list st') = PATH_NB \<and> m_rings st' = m_rings st \<and>
           hopa_cp_mp st' = hopa_cp_mp st \<and>
           (\<forall>i<PATH_NB. vs_delay_list st' ! i =
              (if i \<in> set order then vs_probe_delay (timespec_ns (rts i)) (sent i)
               else vs_delay_list st ! i)) \<and>
           (order \<noteq> [] \<longrightarrow> vs_best_current st')"
  using assms
proof (induction order arbitrary: st)
  case Nil
  then show ?case by simp
next
  case (Cons i ps)
  have i: "vs_probe_of (hd_of i) i (sent i)" using Cons.prems(3) by simp
  then have b: "unat (vc_probe_path_id (hd_of i)) < PATH_NB" by (simp add: vs_probe_of_def)
  have sent: "be_to_cpu_64 (vc_ts (hd_of i)) = sent i" "unat (vc_probe_path_id (hd_of i)) = i"
    using i by (simp_all add: vs_probe_of_def)
  obtain st1 where st1: "vs_probe_pkt_progress st (hd_of i) (rts i) = Inr st1"
    "vs_delay_list st1 = (vs_delay_list st)[i := vs_probe_delay (timespec_ns (rts i)) (sent i)]"
    "first_min (vs_delay_list st1) PATH_NB (unat (best_path_id st1))"
    "m_rings st1 = m_rings st" "hopa_cp_mp st1 = hopa_cp_mp st"
  proof (rule vs_probe_progress_ok [OF Cons.prems(1) b, of "rts i"])
    fix s
    assume "vs_probe_pkt_progress st (hd_of i) (rts i) = Inr s"
      and "vs_delay_list s = (vs_delay_list st)[unat (vc_probe_path_id (hd_of i)) :=
             vs_probe_delay (timespec_ns (rts i)) (be_to_cpu_64 (vc_ts (hd_of i)))]"
      and "first_min (vs_delay_list s) PATH_NB (unat (best_path_id s))"
      and "m_rings s = m_rings st" and "hopa_cp_mp s = hopa_cp_mp st"
    then show thesis by (intro that [of s]) (simp_all only: sent)
  qed
  have one: "vs_progress_one st (hd_of i, rts i) = Inr st1"
    using i st1(1) by (simp add: vs_progress_one_def vs_probe_of_def)
  have len: "length (vs_delay_list st1) = PATH_NB" using st1(2) Cons.prems(1) by simp
  have "distinct ps" "\<forall>i\<in>set ps. vs_probe_of (hd_of i) i (sent i)"
    using Cons.prems(2,3) by simp_all
  note IH = Cons.IH [OF len this]
  obtain st' where st': "vs_progress_loop st1 (map (\<lambda>i. (hd_of i, rts i)) ps) = Inr st'"
    "length (vs_delay_list st') = PATH_NB" "m_rings st' = m_rings st1"
    "hopa_cp_mp st' = hopa_cp_mp st1"
    "\<forall>j<PATH_NB. vs_delay_list st' ! j =
              (if j \<in> set ps then vs_probe_delay (timespec_ns (rts j)) (sent j)
               else vs_delay_list st1 ! j)"
    "ps \<noteq> [] \<longrightarrow> vs_best_current st'"
    using IH by blast
  have "vs_best_current st'"
    using st'(1,6) st1(3) len by (cases "ps = []") (auto simp: vs_best_current_def)
  moreover have "\<forall>j<PATH_NB. vs_delay_list st' ! j =
              (if j \<in> set (i # ps) then vs_probe_delay (timespec_ns (rts j)) (sent j)
               else vs_delay_list st ! j)"
    using st'(5) st1(2) Cons.prems(1,2) by (auto simp: nth_list_update)
  ultimately show ?case using one st' st1(4,5) by simp
qed

text \<open>Both control planes compute the same delay.\<close>

lemma vs_probe_delay_eq: "vs_probe_delay r s = probe_delay r s"
  by (simp add: vs_probe_delay_def probe_delay_def)

end
