(* ===== verification/Vswitchd_Properties.thy ===== *)
theory Vswitchd_Properties
  imports Vswitchd_Hopa
begin

text \<open>
  Properties of the control plane inside \<open>ovs-vswitchd\<close>: when it is initialised, what a
  round of probes from one host does to the table of the other, what a repath packet does to
  its receiver, and which received headers write outside the table.
\<close>

section \<open>Initialisation\<close>

lemma init_turns_flags:
  assumes "\<not> hopa_cp_has_init st" and "init_turns st ts = Inr (st', bs)"
  shows "bs = map (\<lambda>i. 1 \<le> fst (ts ! i) - start_time st \<and>
                (\<forall>j<i. fst (ts ! j) - start_time st < 1)) [0..<length ts] \<and>
         (\<forall>k<length ts. bs ! k \<longrightarrow> st' = st\<lparr>hopa_cp_mp := ir_pool (snd (ts ! k)),
            m_rings := Some \<lparr>cp_in_ring = ir_in_ring (snd (ts ! k)),
                             cp_out_ring = ir_out_ring (snd (ts ! k))\<rparr>,
            hopa_cp_has_init := True\<rparr>)"
  using assms
proof (induction ts arbitrary: bs)
  case Nil
  then show ?case by simp
next
  case (Cons t ts)
  obtain now r where t: "t = (now, r)" by (cases t)
  show ?case
  proof (cases "now - start_time st < 1")
    case True
    then have "hopa_cp_init st now r = Inr (st, False)"
      using Cons.prems(1) by (simp add: hopa_cp_init_def)
    then obtain bs' where bs': "init_turns st ts = Inr (st', bs')" "bs = False # bs'"
      using Cons.prems(2) by (auto simp: t fault_simps)
    from Cons.IH [OF Cons.prems(1) bs'(1)] show ?thesis
      using True
      by (auto simp: bs'(2) t upt_conv_Cons nth_Cons' All_less_Suc2 comp_def
          simp del: upt_Suc simp flip: map_Suc_upt)
  next
    case False
    let ?s = "st\<lparr>hopa_cp_mp := ir_pool r, m_rings := Some \<lparr>cp_in_ring = ir_in_ring r,
                 cp_out_ring = ir_out_ring r\<rparr>, hopa_cp_has_init := True\<rparr>"
    have "hopa_cp_init st now r = Inr (?s, True)"
      using Cons.prems False by (auto simp: t hopa_cp_init_def fault_simps split: if_splits)
    then have "st' = ?s" "bs = True # replicate (length ts) False"
      using Cons.prems(2) by (auto simp: t init_turns_initialised)
    then show ?thesis
      using False
      by (auto simp: t upt_conv_Cons nth_Cons' All_less_Suc2 comp_def map_replicate_trivial
          simp del: upt_Suc simp flip: map_Suc_upt intro!: nth_equalityI)
  qed
qed

text \<open>The main loop starts the two threads at most once, in the first turn that is at
  least one second after the start; what the rings and the pool then are is what the calls of
  that turn returned, checked or not.\<close>

theorem threads_start_once:
  assumes "init_turns (vs_initial t0) ts = Inr (st', bs)"
  shows "bs = map (\<lambda>i. 1 \<le> fst (ts ! i) - t0 \<and> (\<forall>j<i. fst (ts ! j) - t0 < 1))
               [0..<length ts] \<and>
         (\<forall>k<length ts. bs ! k \<longrightarrow> st' = (vs_initial t0)\<lparr>hopa_cp_mp := ir_pool (snd (ts ! k)),
            m_rings := Some \<lparr>cp_in_ring = ir_in_ring (snd (ts ! k)),
                             cp_out_ring = ir_out_ring (snd (ts ! k))\<rparr>,
            hopa_cp_has_init := True\<rparr>)"
  using init_turns_flags [OF _ assms] by (simp add: vs_initial_def)

definition init_ok :: init_results where
  "init_ok = \<lparr>ir_pool = False, ir_malloc = True, ir_in_ring = True, ir_out_ring = True\<rparr>"

theorem threads_start_once_witness:
  "\<exists>st'. init_turns (vs_initial 100) [(100, init_ok), (101, init_ok), (102, init_ok)]
     = Inr (st', [False, True, False]) \<and> \<not> hopa_cp_mp st'"
proof -
  obtain st' bs where r: "init_turns (vs_initial 100) [(100, init_ok), (101, init_ok), (102, init_ok)]
      = Inr (st', bs)"
    by (simp add: init_ok_def vs_initial_def hopa_cp_init_def)
  from threads_start_once [OF this] show ?thesis
    using r by (auto simp: init_ok_def vs_initial_def numeral_eq_Suc All_less_Suc2)
qed

section \<open>Probe rounds\<close>

lemma vs_probe_round_result:
  fixes d :: "nat \<Rightarrow> int"
  assumes "hopa_cp_mp snd_st"
    and "cq_send_turn cksum snd_st (\<lambda>i. Some (buf i)) sclk = Inr pkts"
    and "m_rings st = Some \<lparr>cp_in_ring = True, cp_out_ring = b\<rparr>"
    and "length (vs_delay_list st) = PATH_NB"
    and "distinct order" and "set order = {..<PATH_NB}"
    and "\<forall>i<PATH_NB. uint (timespec_ns (rclk i)) = uint (timespec_ns (sclk i)) + d i + skew \<and>
             0 \<le> d i + skew + 1000000000 \<and> d i + skew + 1000000000 < 2 ^ 64"
  shows "\<exists>st'. hopa_cp_progress_turn st
             (map (\<lambda>i. (vm_cp (the (pkts ! i)), rclk i)) order) = Inr st' \<and>
           (\<forall>i<PATH_NB. uint (vs_delay_list st' ! i) = d i + skew + 1000000000) \<and>
           unat (best_path_id st') < PATH_NB \<and>
           (\<forall>j<PATH_NB. d (unat (best_path_id st')) \<le> d j) \<and>
           (\<forall>j<unat (best_path_id st'). d (unat (best_path_id st')) < d j)"
proof -
  have pkts: "pkts = map (\<lambda>i. vs_encode_probe_pkt cksum cq_host True (Some (buf i))
      (sclk i) (of_nat i)) [0..<PATH_NB]"
    using assms(1,2) by (auto simp: cq_send_turn_def vs_enqueue_out_def split: option.splits if_splits)
  have probe: "vs_probe_of (vm_cp (the (pkts ! i))) i (timespec_ns (sclk i))" if "i < PATH_NB" for i
    using that vs_probe_hdr [of cksum cq_host "buf i" "sclk i" "of_nat i" "the (pkts ! i)"]
    by (simp add: pkts vs_probe_of_def vs_encode_probe_pkt_def unat_of_nat PATH_NB_def)
  then have "\<forall>i\<in>set order. vs_probe_of (vm_cp (the (pkts ! i))) i (timespec_ns (sclk i))"
    using assms(6) by simp
  note loop = vs_progress_loop_probes [OF assms(4,5) this, of rclk]
  have "0 \<in> set order" unfolding assms(6) by (simp add: PATH_NB_def)
  then have "order \<noteq> []" by force
  with loop
  obtain st' where st': "vs_progress_loop st (map (\<lambda>i. (vm_cp (the (pkts ! i)), rclk i)) order) = Inr st'"
    "\<forall>i<PATH_NB. vs_delay_list st' ! i = vs_probe_delay (timespec_ns (rclk i)) (timespec_ns (sclk i))"
    "vs_best_current st'"
    unfolding assms(6) lessThan_iff by auto
  have uint_D: "uint (vs_delay_list st' ! i) = d i + skew + 1000000000" if "i < PATH_NB" for i
    unfolding st'(2) [rule_format, OF that] vs_probe_delay_eq
    using assms(7) that by (intro uint_probe_delay) auto
  then have D: "vs_delay_list st' ! i \<le> vs_delay_list st' ! j \<longleftrightarrow> d i \<le> d j"
    "vs_delay_list st' ! i < vs_delay_list st' ! j \<longleftrightarrow> d i < d j"
    if "i < PATH_NB" "j < PATH_NB" for i j
    using that by (simp_all add: word_le_def word_less_def)
  have min: "unat (best_path_id st') < PATH_NB"
    "\<forall>j<PATH_NB. vs_delay_list st' ! unat (best_path_id st') \<le> vs_delay_list st' ! j"
    "\<forall>j<unat (best_path_id st'). vs_delay_list st' ! unat (best_path_id st') < vs_delay_list st' ! j"
    using st'(3) by (auto simp: vs_best_current_def first_min_def)
  show ?thesis
    using st'(1) uint_D min D assms(3)
    by (intro exI [of _ st']) (auto simp: hopa_cp_progress_turn_def)
qed

text \<open>C22: a round of probes sent by one host and received by the other in any order leaves
  the measured delays in its table, each biased by one second plus the offset of the two
  clocks, and the best path is the first of the fastest ones.\<close>

theorem vs_probe_round_measures_paths:
  fixes d :: "nat \<Rightarrow> int"
  assumes "hopa_cp_mp snd_st"
    and "cq_send_turn cksum snd_st (\<lambda>i. Some (buf i)) sclk = Inr pkts"
    and "m_rings st = Some \<lparr>cp_in_ring = True, cp_out_ring = b\<rparr>"
    and "length (vs_delay_list st) = PATH_NB"
    and "distinct order" and "set order = {..<PATH_NB}"
    and "\<forall>i<PATH_NB. uint (timespec_ns (rclk i)) = uint (timespec_ns (sclk i)) + d i + skew \<and>
             0 \<le> d i + skew + 1000000000 \<and> d i + skew + 1000000000 < 2 ^ 64"
  shows "\<exists>st'. hopa_cp_progress_turn st
             (map (\<lambda>i. (vm_cp (the (pkts ! i)), rclk i)) order) = Inr st' \<and>
           (\<forall>i<PATH_NB. uint (vs_delay_list st' ! i) = d i + skew + 1000000000) \<and>
           unat (best_path_id st') < PATH_NB \<and>
           (\<forall>j<PATH_NB. d (unat (best_path_id st')) \<le> d j) \<and>
           (\<forall>j<unat (best_path_id st'). d (unat (best_path_id st')) < d j)"
  using assms by (rule vs_probe_round_result)

definition vs_blank_mbuf :: vs_mbuf where
  "vs_blank_mbuf = \<lparr>vm_eth = \<lparr>s_addr = [], d_addr = [], ether_type = []\<rparr>,
     vm_ip = \<lparr>version_ihl = 0, type_of_service = 0, total_length = [], packet_id = [],
       fragment_offset = [], time_to_live = 0, next_proto_id = 0, hdr_checksum = [],
       src_addr = [], dst_addr = []\<rparr>,
     vm_udp = \<lparr>src_port = [], dst_port = [], dgram_len = [], dgram_cksum = []\<rparr>,
     vm_cp = \<lparr>vc_flag = 0, vc_cp_flag = 0, vc_probe_path_id = 0, vc_repath_id = 0, vc_rsvd = 0,
       vc_seq = [], vc_ack = [], vc_ts = []\<rparr>, vm_pkt_len = 0\<rparr>"

definition vs_ready :: vs_state where
  "vs_ready = (vs_initial 0)\<lparr>hopa_cp_mp := True,
     m_rings := Some \<lparr>cp_in_ring = True, cp_out_ring = True\<rparr>, hopa_cp_has_init := True\<rparr>"

theorem vs_probe_round_measures_paths_witness:
  "\<exists>st'. hopa_cp_progress_turn vs_ready (map (\<lambda>i. (vm_cp (the (projr (cq_send_turn (\<lambda>_. [])
        vs_ready (\<lambda>i. Some vs_blank_mbuf) (\<lambda>i. \<lparr>tv_sec = 7, tv_nsec = of_nat i\<rparr>)) ! i)),
        \<lparr>tv_sec = 8, tv_nsec = 50 - 9 * of_nat i\<rparr>)) [3, 1, 0, 2]) = Inr st' \<and>
     (\<forall>j<PATH_NB. 50 - 10 * int (unat (best_path_id st')) \<le> 50 - 10 * int j)"
proof -
  let ?c = "\<lambda>_. []" and ?s = "\<lambda>i. \<lparr>tv_sec = 7, tv_nsec = of_nat i\<rparr>"
    and ?r = "\<lambda>i. \<lparr>tv_sec = 8, tv_nsec = 50 - 9 * of_nat i\<rparr>"
  have four: "(\<forall>i<PATH_NB. P i) \<longleftrightarrow> P 0 \<and> P 1 \<and> P 2 \<and> P 3" for P
    by (auto simp: PATH_NB_def less_Suc_eq numeral_eq_Suc)
  obtain pkts where p: "cq_send_turn ?c vs_ready (\<lambda>i. Some vs_blank_mbuf) ?s = Inr pkts"
    by (simp add: cq_send_turn_def vs_enqueue_out_def vs_ready_def)
  have "\<forall>i<PATH_NB. uint (timespec_ns (?r i)) = uint (timespec_ns (?s i)) + (50 - 10 * int i)
          + 1000000000 \<and> 0 \<le> 50 - 10 * int i + 1000000000 + 1000000000 \<and>
          50 - 10 * int i + 1000000000 + 1000000000 < 2 ^ 64"
    unfolding four by (simp add: timespec_ns_def)
  note clocks = this
  have "hopa_cp_mp vs_ready" "m_rings vs_ready = Some \<lparr>cp_in_ring = True, cp_out_ring = True\<rparr>"
    "length (vs_delay_list vs_ready) = PATH_NB" "distinct [3, 1, 0, 2 :: nat]"
    "set [3, 1, 0, 2] = {..<PATH_NB}"
    by (auto simp: vs_ready_def vs_initial_def PATH_NB_def)
  from vs_probe_round_measures_paths [OF this(1) p this(2-5) clocks] show ?thesis
    unfolding p sum.sel by blast
qed



text \<open>Processing a burst of received headers faults exactly when one of them is a probe
  whose path number is not that of a path: it is used as an index unchecked.\<close>

theorem vs_stray_probe_faults:
  assumes "length (vs_delay_list st) = PATH_NB"
    and "m_rings st = Some \<lparr>cp_in_ring = True, cp_out_ring = b\<rparr>"
  shows "hopa_cp_progress_turn st es = Inl e \<longleftrightarrow>
           e = Out_Of_Bounds \<and> (\<exists>(h, ts)\<in>set es. stray_probe h)"
  using vs_progress_loop_faults_iff [OF assms(1), of es] assms(2)
  by (auto simp: hopa_cp_progress_turn_def split: if_splits)

theorem vs_stray_probe_faults_witness:
  "hopa_cp_progress_turn vs_ready [((vm_cp vs_blank_mbuf)\<lparr>vc_probe_path_id := 4\<rparr>,
      \<lparr>tv_sec = 0, tv_nsec = 0\<rparr>)] = Inl Out_Of_Bounds"
  using vs_stray_probe_faults [of vs_ready True "[((vm_cp vs_blank_mbuf)\<lparr>vc_probe_path_id := 4\<rparr>,
      \<lparr>tv_sec = 0, tv_nsec = 0\<rparr>)]" Out_Of_Bounds]
  by (simp add: vs_ready_def vs_initial_def PATH_NB_def vs_blank_mbuf_def stray_probe_def)

end
