(* ===== verification/Dpdk_Packet.thy ===== *)
theory Dpdk_Packet
  imports Repath_Prelude "HOL-Library.Multiset" "HOL-Library.Sublist"
begin

text \<open>
  Packet buffers of \<open>netdev-dpdk.c\<close> and the loop that all its filters share: an array of
  packets is compacted in place while the packets that do not pass a check are released.
  The loop is proved equal to a stateful filter on the list of packets; the meters, the size
  filter and the offload preparation are instances of it.
\<close>

section \<open>Packets\<close>

text \<open>
  What the code reads and writes of a packet: the address of its buffer, \<open>source\<close> (whether
  it is \<open>DPBUF_DPDK\<close>), \<open>md.skb_priority\<close>, whether the destination is multicast, the size
  \<open>dp_packet_size\<close> returns, the addresses of its layers (0 is null), and of the mbuf its
  length, offload flags and offload lengths (bit fields of DPDK's \<open>rte_mbuf\<close>).
\<close>

record tx_mbuf =
  mb_pkt_len :: u32
  ol_tcp_seg :: bool
  ol_l4_mask :: bool
  ol_tcp_cksum :: bool
  ol_ipv4 :: bool
  ol_ip_cksum :: bool
  l2_len :: "7 word"
  l3_len :: "9 word"
  l4_len :: u8
  outer_l2_len :: "7 word"
  outer_l3_len :: "9 word"
  tso_segsz :: u16

record dpkt =
  pk_addr :: nat
  pk_dpdk :: bool
  pk_priority :: u32
  pk_multicast :: bool
  pk_size :: u32
  pk_eth :: int
  pk_l3 :: int
  pk_l4 :: int
  pk_tcp_offset :: u8
  pk_mbuf :: tx_mbuf

abbreviation pkt_len :: "dpkt \<Rightarrow> u32" where
  "pkt_len p \<equiv> mb_pkt_len (pk_mbuf p)"

section \<open>Compaction in place\<close>

text \<open>
  \<open>for (i = 0; i < pkt_cnt; i++)\<close> with \<open>n\<close> iterations left: the packet is checked (the
  check may change a state and the packet); a packet that passes is moved to \<open>pkts[cnt]\<close>,
  one that does not is freed if \<open>steal\<close>.  \<open>freed\<close> lists the freed packets in order.
\<close>

type_synonym ('s, 'p) check = "'s \<Rightarrow> 'p \<Rightarrow> 's \<times> bool \<times> 'p"

primrec compact_loop ::
  "('s, 'p) check \<Rightarrow> bool \<Rightarrow> 's \<Rightarrow> 'p list \<Rightarrow> nat \<Rightarrow> nat \<Rightarrow> nat \<Rightarrow> 'p list
   \<Rightarrow> ('s \<times> 'p list \<times> nat \<times> 'p list) c_result" where
  "compact_loop chk steal s pkts 0 i cnt freed = Inr (s, pkts, cnt, freed)"
| "compact_loop chk steal s pkts (Suc n) i cnt freed =
     bindr (arr_get pkts i) (\<lambda>p.
       case chk s p of (s', keep, p') \<Rightarrow>
         let pkts' = pkts[i := p'] in
         if keep
         then compact_loop chk steal s' (if cnt \<noteq> i then pkts'[cnt := p'] else pkts')
                n (Suc i) (Suc cnt) freed
         else compact_loop chk steal s' pkts' n (Suc i) cnt
                (if steal then freed @ [p'] else freed))"

definition compact ::
  "('s, 'p) check \<Rightarrow> bool \<Rightarrow> 's \<Rightarrow> 'p list \<Rightarrow> nat
   \<Rightarrow> ('s \<times> 'p list \<times> nat \<times> 'p list) c_result" where
  "compact chk steal s pkts pkt_cnt = compact_loop chk steal s pkts pkt_cnt 0 0 []"

text \<open>The specification: the packets kept and the packets dropped, in order.\<close>

primrec police :: "('s, 'p) check \<Rightarrow> 's \<Rightarrow> 'p list \<Rightarrow> 's \<times> 'p list \<times> 'p list" where
  "police chk s [] = (s, [], [])"
| "police chk s (p # ps) =
     (case chk s p of (s', keep, p') \<Rightarrow>
        case police chk s' ps of (s'', kept, dropped) \<Rightarrow>
          if keep then (s'', p' # kept, dropped) else (s'', kept, p' # dropped))"

lemma compact_loop_police:
  assumes "cnt \<le> i" and "i + n \<le> length pkts"
    and "police chk s (take n (drop i pkts)) = (s', kept, dropped)"
  shows "\<exists>pkts'. compact_loop chk steal s pkts n i cnt freed
           = Inr (s', pkts', cnt + length kept, freed @ (if steal then dropped else [])) \<and>
         take (cnt + length kept) pkts' = take cnt pkts @ kept \<and>
         length pkts' = length pkts \<and> drop (i + n) pkts' = drop (i + n) pkts"
  using assms
proof (induction n arbitrary: s pkts i cnt freed kept dropped)
  case 0
  then show ?case by simp
next
  case (Suc n)
  have i: "i < length pkts" using Suc.prems(2) by simp
  obtain s1 keep p' where chk: "chk s (pkts ! i) = (s1, keep, p')" by (cases "chk s (pkts ! i)")
  obtain k1 d1 where rest: "police chk s1 (take n (drop (Suc i) pkts)) = (s', k1, d1)"
    and kd: "kept = (if keep then p' # k1 else k1)" "dropped = (if keep then d1 else p' # d1)"
    using Suc.prems(3) i chk
    by (auto simp: Cons_nth_drop_Suc [symmetric] split: prod.splits if_splits)
  let ?a = "pkts[i := p']"
  let ?a' = "if keep \<and> cnt \<noteq> i then ?a[cnt := p'] else ?a"
  have tail: "drop (Suc i) ?a' = drop (Suc i) pkts"
    using Suc.prems(1) by (simp add: drop_update_cancel)
  have pre: "take (cnt + (if keep then 1 else 0)) ?a' = take cnt pkts @ (if keep then [p'] else [])"
    using Suc.prems(1) i by (auto simp: take_Suc_conv_app_nth)
  show ?case
    using Suc.IH [of "if keep then Suc cnt else cnt" "Suc i" ?a' s1 k1 d1
        "if keep \<or> \<not> steal then freed else freed @ [p']"] Suc.prems(1,2) rest chk i pre
    by (cases keep; cases steal; cases "cnt = i")
       (auto simp: tail kd drop_update_cancel split del: if_split split: prod.splits)
qed

text \<open>Compaction is the filter, on any prefix of the array.\<close>

lemma compact_police:
  assumes "n \<le> length pkts" and "police chk s (take n pkts) = (s', kept, dropped)"
  shows "\<exists>pkts'. compact chk steal s pkts n
           = Inr (s', pkts', length kept, if steal then dropped else []) \<and>
         take (length kept) pkts' = kept \<and> length pkts' = length pkts \<and>
         drop n pkts' = drop n pkts"
  using compact_loop_police [of 0 0 n pkts chk s s' kept dropped steal "[]"] assms
  by (auto simp: compact_def)

section \<open>Facts about the filter\<close>

lemma police_append:
  "police chk s (xs @ ys) =
     (case police chk s xs of (s1, k1, d1) \<Rightarrow>
        case police chk s1 ys of (s2, k2, d2) \<Rightarrow> (s2, k1 @ k2, d1 @ d2))"
  by (induction xs arbitrary: s) (auto split: prod.splits)

text \<open>A check that leaves the packets alone loses none and invents none.\<close>

definition pure_check :: "('s, 'p) check \<Rightarrow> bool" where
  "pure_check chk \<longleftrightarrow> (\<forall>s p. snd (snd (chk s p)) = p)"

lemma police_mset:
  assumes "pure_check chk" and "police chk s ps = (s', kept, dropped)"
  shows "mset kept + mset dropped = mset ps"
  using assms(2)
proof (induction ps arbitrary: s kept dropped)
  case Nil
  then show ?case by simp
next
  case (Cons p ps)
  obtain s1 keep p' where chk: "chk s p = (s1, keep, p')" by (cases "chk s p")
  moreover have "p' = p" using assms(1) chk unfolding pure_check_def by (metis snd_conv)
  ultimately show ?case
    using Cons by (auto split: prod.splits if_splits)
qed

lemma police_subseq:
  assumes "pure_check chk" and "police chk s ps = (s', kept, dropped)"
  shows "subseq kept ps"
  using assms(2)
proof (induction ps arbitrary: s kept dropped)
  case Nil
  then show ?case by simp
next
  case (Cons p ps)
  obtain s1 keep p' where chk: "chk s p = (s1, keep, p')" by (cases "chk s p")
  moreover have "p' = p" using assms(1) chk unfolding pure_check_def by (metis snd_conv)
  ultimately show ?case
    using Cons by (auto split: prod.splits if_splits)
qed

lemma police_subseq_lengths:
  "police chk s ps = (s', kept, dropped) \<Longrightarrow> length kept + length dropped = length ps"
  by (induction ps arbitrary: s kept dropped) (fastforce split: prod.splits if_splits)+

text \<open>A check that keeps an invariant of the state keeps it over the whole batch.\<close>

lemma police_invariant:
  assumes "\<And>s p s' keep p'. I s \<Longrightarrow> chk s p = (s', keep, p') \<Longrightarrow> I s'"
    and "police chk s ps = (s', kept, dropped)" and "I s"
  shows "I s'"
  using assms(2,3)
proof (induction ps arbitrary: s kept dropped)
  case (Cons p ps)
  then show ?case using assms(1) by (auto split: prod.splits if_splits)
qed simp

text \<open>Without a state the filter is \<open>filter\<close>.\<close>

lemma police_stateless:
  assumes "\<And>s p. chk s p = (s, ok p, p)"
  shows "police chk s ps = (s, filter ok ps, filter (\<lambda>p. \<not> ok p) ps)"
  by (induction ps) (simp_all add: assms)

text \<open>
  A check may change a packet as long as it keeps a key of it (its address): then the keys
  of the packets kept and freed are those of the batch, and every packet kept passed the check.
\<close>

lemma police_key:
  assumes "\<And>s p. key (snd (snd (chk s p))) = key p" and "police chk s ps = (s', kept, dropped)"
  shows "mset (map key kept) + mset (map key dropped) = mset (map key ps) \<and>
         (\<forall>p\<in>set kept. \<exists>q\<in>set ps. \<exists>s1 s2. chk s1 q = (s2, True, p))"
  using assms(2)
proof (induction ps arbitrary: s kept dropped)
  case Nil
  then show ?case by simp
next
  case (Cons p ps)
  obtain s1 keep p' where chk: "chk s p = (s1, keep, p')" by (cases "chk s p")
  obtain k d where rest: "police chk s1 ps = (s', k, d)"
    "kept = (if keep then p' # k else k)" "dropped = (if keep then d else p' # d)"
    using Cons.prems chk by (auto split: prod.splits if_splits)
  have "key p' = key p" using assms(1) [of s p] chk by simp
  with Cons.IH [OF rest(1)] rest(2,3) chk show ?case by (cases keep) (simp_all, blast+)
qed

lemma compact_key:
  assumes "\<And>s p. key (snd (snd (chk s p))) = key p" and "n \<le> length pkts"
  shows "\<exists>s' pkts' k freed. compact chk True s pkts n = Inr (s', pkts', k, freed) \<and>
           k \<le> n \<and> length pkts' = length pkts \<and>
           mset (map key (take k pkts')) + mset (map key freed) = mset (map key (take n pkts)) \<and>
           (\<forall>p\<in>set (take k pkts'). \<exists>q\<in>set (take n pkts). \<exists>s1 s2. chk s1 q = (s2, True, p))"
proof -
  obtain s' kept dropped where run: "police chk s (take n pkts) = (s', kept, dropped)"
    by (cases "police chk s (take n pkts)")
  have "length kept \<le> n" using police_subseq_lengths [OF run] assms(2) by simp
  then show ?thesis
    using compact_police [OF assms(2) run, of True] police_key [OF assms(1) run] by fastforce
qed

end
