(* ===== verification/Dpdk_Qos.thy ===== *)
theory Dpdk_Qos
  imports Dpdk_Packet C_Strings
begin

text \<open>
  Quality of service of DPDK ports (\<open>netdev-dpdk.c\<close>): the ingress policer, the two
  implementations \<open>egress-policer\<close> and \<open>trtcm-policer\<close> of the interface \<open>dpdk_qos_ops\<close>, and
  the netdev operations built on that interface.  DPDK's meters, the hash function and
  \<open>smap_get_ullong\<close> are fields of \<open>meter_env\<close>.
\<close>

section \<open>Configuration\<close>

text \<open>A \<open>struct smap\<close> is the list of the pairs added to it.\<close>

type_synonym smap = "(string \<times> string) list"

record srtcm_params =
  sp_cir :: u64
  sp_cbs :: u64
  sp_ebs :: u64

record trtcm_params =
  tp_cir :: u64
  tp_eir :: u64
  tp_cbs :: u64
  tp_ebs :: u64

datatype rte_color = COLOR_GREEN | COLOR_YELLOW | COLOR_RED

text \<open>
  A configuration routine returns 0 or a negative errno, with the profile or meter it wrote;
  a check returns the updated meter and the colour of the packet.
\<close>

record ('pr, 'mt) meter_env =
  srtcm_profile_config :: "srtcm_params \<Rightarrow> int \<times> 'pr"
  srtcm_config :: "'pr \<Rightarrow> int \<times> 'mt"
  srtcm_color_blind_check :: "'mt \<Rightarrow> 'pr \<Rightarrow> u64 \<Rightarrow> u32 \<Rightarrow> 'mt \<times> rte_color"
  trtcm_profile_config :: "trtcm_params \<Rightarrow> int \<times> 'pr"
  trtcm_config :: "'pr \<Rightarrow> int \<times> 'mt"
  trtcm_color_blind_check :: "'mt \<Rightarrow> 'pr \<Rightarrow> u64 \<Rightarrow> u32 \<Rightarrow> 'mt \<times> rte_color"
  trtcm_color_aware_check :: "'mt \<Rightarrow> 'pr \<Rightarrow> u64 \<Rightarrow> u32 \<Rightarrow> rte_color \<Rightarrow> 'mt \<times> rte_color"
  hash_2words :: "u32 \<Rightarrow> u32 \<Rightarrow> u32"
  smap_get_ullong :: "smap \<Rightarrow> string \<Rightarrow> u64 \<Rightarrow> u64"

definition EOPNOTSUPP :: int where "EOPNOTSUPP = 95"
definition EINVAL :: int where "EINVAL = 22"
definition EOF :: int where "EOF = -1"

lemmas errno_defs = EOPNOTSUPP_def EINVAL_def EOF_def

section \<open>The ingress policer\<close>

record ('pr, 'mt) ingress_policer =
  in_app_srtcm_params :: srtcm_params
  in_policer :: 'mt
  in_prof :: 'pr

definition sizeof_rte_ether_hdr :: u32 where "sizeof_rte_ether_hdr = 14"

definition netdev_dpdk_srtcm_policer_pkt_handle ::
  "('pr, 'mt) meter_env \<Rightarrow> 'pr \<Rightarrow> u64 \<Rightarrow> ('mt, dpkt) check" where
  "netdev_dpdk_srtcm_policer_pkt_handle E prof time meter pkt =
     (case srtcm_color_blind_check E meter prof time (pkt_len pkt - sizeof_rte_ether_hdr) of
        (meter', color) \<Rightarrow> (meter', color = COLOR_GREEN, pkt))"

definition srtcm_policer_run_single_packet ::
  "('pr, 'mt) meter_env \<Rightarrow> 'mt \<Rightarrow> 'pr \<Rightarrow> u64 \<Rightarrow> dpkt list \<Rightarrow> nat \<Rightarrow> bool
   \<Rightarrow> ('mt \<times> dpkt list \<times> nat \<times> dpkt list) c_result" where
  "srtcm_policer_run_single_packet E meter prof time pkts pkt_cnt should_steal =
     compact (netdev_dpdk_srtcm_policer_pkt_handle E prof time) should_steal meter pkts pkt_cnt"

definition ingress_policer_run ::
  "('pr, 'mt) meter_env \<Rightarrow> ('pr, 'mt) ingress_policer \<Rightarrow> u64 \<Rightarrow> dpkt list \<Rightarrow> nat \<Rightarrow> bool
   \<Rightarrow> (('pr, 'mt) ingress_policer \<times> dpkt list \<times> nat \<times> dpkt list) c_result" where
  "ingress_policer_run E policer time pkts pkt_cnt should_steal =
     bindr (srtcm_policer_run_single_packet E (in_policer policer) (in_prof policer) time
              pkts pkt_cnt should_steal) (\<lambda>(m, pkts', cnt, freed).
       Inr (policer\<lparr>in_policer := m\<rparr>, pkts', cnt, freed))"

section \<open>Implementations of the interface\<close>

record ('pr, 'mt) egress_policer =
  ep_params :: srtcm_params
  egress_meter :: 'mt
  egress_prof :: 'pr

record netdev_queue_stats =
  qs_tx_bytes :: u64
  qs_tx_packets :: u64
  qs_tx_errors :: u64
  qs_created :: u64

record ('pr, 'mt) trtcm_policer_queue =
  tq_queue_id :: u32
  tq_params :: trtcm_params
  tq_profile :: 'pr
  tq_meter :: 'mt
  tq_stats :: netdev_queue_stats

text \<open>
  \<open>queues\<close> is the hash map: its nodes with the hash each was inserted under, in the order in
  which the map is iterated.
\<close>

record ('pr, 'mt) trtcm_policer =
  tr_params :: trtcm_params
  tr_profile :: 'pr
  tr_meter :: 'mt
  tr_stats :: netdev_queue_stats
  tr_queues :: "(u32 \<times> ('pr, 'mt) trtcm_policer_queue) list"

definition zero_stats :: netdev_queue_stats where
  "zero_stats = \<lparr>qs_tx_bytes = 0, qs_tx_packets = 0, qs_tx_errors = 0, qs_created = 0\<rparr>"

datatype qos_ops_id = egress_policer_ops | trtcm_policer_ops

datatype ('pr, 'mt) qos_conf =
    Egress_Conf "('pr, 'mt) egress_policer"
  | Trtcm_Conf "('pr, 'mt) trtcm_policer"

primrec conf_ops :: "('pr, 'mt) qos_conf \<Rightarrow> qos_ops_id" where
  "conf_ops (Egress_Conf _) = egress_policer_ops"
| "conf_ops (Trtcm_Conf _) = trtcm_policer_ops"

subsection \<open>egress-policer\<close>

definition egress_policer_details_to_param ::
  "('pr, 'mt) meter_env \<Rightarrow> smap \<Rightarrow> srtcm_params" where
  "egress_policer_details_to_param E details =
     \<lparr>sp_cir = smap_get_ullong E details ''cir'' 0,
      sp_cbs = smap_get_ullong E details ''cbs'' 0, sp_ebs = 0\<rparr>"

definition egress_policer_qos_construct ::
  "('pr, 'mt) meter_env \<Rightarrow> smap \<Rightarrow> int \<times> ('pr, 'mt) qos_conf option" where
  "egress_policer_qos_construct E details =
     (let params = egress_policer_details_to_param E details;
          (err, prof) = srtcm_profile_config E params
      in if err \<noteq> 0 then (- err, None)
         else let (err, meter) = srtcm_config E prof
              in if err \<noteq> 0 then (- err, None)
                 else (0, Some (Egress_Conf \<lparr>ep_params = params, egress_meter = meter,
                                            egress_prof = prof\<rparr>)))"

definition egress_policer_qos_get :: "('pr, 'mt) egress_policer \<Rightarrow> smap \<Rightarrow> int \<times> smap" where
  "egress_policer_qos_get policer details =
     (0, details @ [(''cir'', PRIu64 (sp_cir (ep_params policer))),
                    (''cbs'', PRIu64 (sp_cbs (ep_params policer)))])"

definition egress_policer_qos_is_equal ::
  "('pr, 'mt) meter_env \<Rightarrow> ('pr, 'mt) egress_policer \<Rightarrow> smap \<Rightarrow> bool" where
  "egress_policer_qos_is_equal E policer details \<longleftrightarrow>
     egress_policer_details_to_param E details = ep_params policer"

definition egress_policer_run ::
  "('pr, 'mt) meter_env \<Rightarrow> ('pr, 'mt) egress_policer \<Rightarrow> u64 \<Rightarrow> dpkt list \<Rightarrow> nat \<Rightarrow> bool
   \<Rightarrow> (('pr, 'mt) egress_policer \<times> dpkt list \<times> nat \<times> dpkt list) c_result" where
  "egress_policer_run E policer time pkts pkt_cnt should_steal =
     bindr (srtcm_policer_run_single_packet E (egress_meter policer) (egress_prof policer) time
              pkts pkt_cnt should_steal) (\<lambda>(m, pkts', cnt, freed).
       Inr (policer\<lparr>egress_meter := m\<rparr>, pkts', cnt, freed))"

subsection \<open>trtcm-policer\<close>

definition trtcm_policer_details_to_param ::
  "('pr, 'mt) meter_env \<Rightarrow> smap \<Rightarrow> trtcm_params" where
  "trtcm_policer_details_to_param E details =
     \<lparr>tp_cir = smap_get_ullong E details ''cir'' 0, tp_eir = smap_get_ullong E details ''eir'' 0,
      tp_cbs = smap_get_ullong E details ''cbs'' 0, tp_ebs = smap_get_ullong E details ''ebs'' 0\<rparr>"

definition trtcm_policer_param_to_detail :: "trtcm_params \<Rightarrow> smap \<Rightarrow> smap" where
  "trtcm_policer_param_to_detail params details =
     details @ [(''cir'', PRIu64 (tp_cir params)), (''eir'', PRIu64 (tp_eir params)),
                (''cbs'', PRIu64 (tp_cbs params)), (''ebs'', PRIu64 (tp_ebs params))]"

definition trtcm_policer_qos_construct ::
  "('pr, 'mt) meter_env \<Rightarrow> smap \<Rightarrow> int \<times> ('pr, 'mt) qos_conf option" where
  "trtcm_policer_qos_construct E details =
     (let params = trtcm_policer_details_to_param E details;
          (err, prof) = trtcm_profile_config E params
      in if err \<noteq> 0 then (- err, None)
         else let (err, meter) = trtcm_config E prof
              in if err \<noteq> 0 then (- err, None)
                 else (0, Some (Trtcm_Conf \<lparr>tr_params = params, tr_profile = prof,
                            tr_meter = meter, tr_stats = zero_stats, tr_queues = []\<rparr>)))"

definition trtcm_policer_qos_get :: "('pr, 'mt) trtcm_policer \<Rightarrow> smap \<Rightarrow> int \<times> smap" where
  "trtcm_policer_qos_get policer details =
     (0, trtcm_policer_param_to_detail (tr_params policer) details)"

definition trtcm_policer_qos_is_equal ::
  "('pr, 'mt) meter_env \<Rightarrow> ('pr, 'mt) trtcm_policer \<Rightarrow> smap \<Rightarrow> bool" where
  "trtcm_policer_qos_is_equal E policer details \<longleftrightarrow>
     trtcm_policer_details_to_param E details = tr_params policer"

text \<open>
  \<open>HMAP_FOR_EACH_WITH_HASH\<close>: the nodes stored under the hash, in order.  The result is the
  position of the node in the map, standing for the pointer to it.
\<close>

definition trtcm_policer_qos_find_queue ::
  "('pr, 'mt) meter_env \<Rightarrow> ('pr, 'mt) trtcm_policer \<Rightarrow> u32 \<Rightarrow> nat option" where
  "trtcm_policer_qos_find_queue E policer queue_id =
     find_index_from 0 (\<lambda>(h, q). h = hash_2words E queue_id 0 \<and> tq_queue_id q = queue_id)
       (tr_queues policer)"

definition queue_at :: "('pr, 'mt) trtcm_policer \<Rightarrow> nat \<Rightarrow> ('pr, 'mt) trtcm_policer_queue" where
  "queue_at policer i = snd (tr_queues policer ! i)"

definition set_queue_at ::
  "('pr, 'mt) trtcm_policer \<Rightarrow> nat \<Rightarrow> ('pr, 'mt) trtcm_policer_queue \<Rightarrow> ('pr, 'mt) trtcm_policer"
where
  "set_queue_at policer i q =
     policer\<lparr>tr_queues := (tr_queues policer)[i := (fst (tr_queues policer ! i), q)]\<rparr>"

definition count_packet :: "bool \<Rightarrow> u32 \<Rightarrow> netdev_queue_stats \<Rightarrow> netdev_queue_stats" where
  "count_packet red len st =
     (if red then st\<lparr>qs_tx_errors := qs_tx_errors st + 1\<rparr>
      else st\<lparr>qs_tx_bytes := qs_tx_bytes st + ucast len, qs_tx_packets := qs_tx_packets st + 1\<rparr>)"

definition trtcm_policer_run_single_packet ::
  "('pr, 'mt) meter_env \<Rightarrow> u64 \<Rightarrow> (('pr, 'mt) trtcm_policer, dpkt) check" where
  "trtcm_policer_run_single_packet E time policer pkt =
     (let len = pkt_len pkt - sizeof_rte_ether_hdr;
          found = (case trtcm_policer_qos_find_queue E policer (pk_priority pkt) of
                     Some i \<Rightarrow> Some i
                   | None \<Rightarrow> trtcm_policer_qos_find_queue E policer 0)
      in case found of
           None \<Rightarrow> (policer, False, pkt)
         | Some i \<Rightarrow>
             let queue = queue_at policer i;
                 (qmeter, color) =
                   trtcm_color_blind_check E (tq_meter queue) (tq_profile queue) time len;
                 queue = queue\<lparr>tq_meter := qmeter,
                   tq_stats := count_packet (color = COLOR_RED) len (tq_stats queue)\<rparr>;
                 policer = set_queue_at policer i queue;
                 (meter, color) =
                   trtcm_color_aware_check E (tr_meter policer) (tr_profile policer) time len color;
                 policer = policer\<lparr>tr_meter := meter,
                   tr_stats := count_packet (color = COLOR_RED) len (tr_stats policer)\<rparr>
             in (policer, color \<noteq> COLOR_RED, pkt))"

definition trtcm_policer_run ::
  "('pr, 'mt) meter_env \<Rightarrow> ('pr, 'mt) trtcm_policer \<Rightarrow> u64 \<Rightarrow> dpkt list \<Rightarrow> nat \<Rightarrow> bool
   \<Rightarrow> (('pr, 'mt) trtcm_policer \<times> dpkt list \<times> nat \<times> dpkt list) c_result" where
  "trtcm_policer_run E policer time pkts pkt_cnt should_steal =
     compact (trtcm_policer_run_single_packet E time) should_steal policer pkts pkt_cnt"

definition hmap_remove_at :: "('pr, 'mt) trtcm_policer \<Rightarrow> nat \<Rightarrow> ('pr, 'mt) trtcm_policer" where
  "hmap_remove_at policer i =
     policer\<lparr>tr_queues := take i (tr_queues policer) @ drop (Suc i) (tr_queues policer)\<rparr>"

text \<open>
  \<open>now\<close> is what \<open>time_msec\<close> returns; \<open>uninit\<close> is the content of the fresh memory \<open>xmalloc\<close>
  returns.  A queue that cannot be configured is removed, whether it is new or not.
\<close>

definition trtcm_policer_qos_queue_construct ::
  "('pr, 'mt) meter_env \<Rightarrow> ('pr, 'mt) trtcm_policer_queue \<Rightarrow> u64 \<Rightarrow> smap \<Rightarrow> u32
   \<Rightarrow> ('pr, 'mt) trtcm_policer \<Rightarrow> int \<times> ('pr, 'mt) trtcm_policer" where
  "trtcm_policer_qos_queue_construct E uninit now details queue_id policer =
     (let (i, policer) = (case trtcm_policer_qos_find_queue E policer queue_id of
            Some i \<Rightarrow> (i, policer)
          | None \<Rightarrow> (0, policer\<lparr>tr_queues := (hash_2words E queue_id 0,
               uninit\<lparr>tq_queue_id := queue_id, tq_stats := zero_stats\<lparr>qs_created := now\<rparr>\<rparr>)
               # tr_queues policer\<rparr>));
          params = (if queue_id = 0 \<and> details = [] then tr_params policer
                    else trtcm_policer_details_to_param E details);
          queue = (queue_at policer i)\<lparr>tq_params := params\<rparr>;
          (err, prof) = trtcm_profile_config E params
      in if err \<noteq> 0 then (- err, hmap_remove_at policer i)
         else let queue = queue\<lparr>tq_profile := prof\<rparr>;
                  (err, meter) = trtcm_config E prof
              in if err \<noteq> 0 then (- err, hmap_remove_at policer i)
                 else (0, set_queue_at policer i (queue\<lparr>tq_meter := meter\<rparr>)))"

definition trtcm_policer_qos_queue_destruct ::
  "('pr, 'mt) meter_env \<Rightarrow> ('pr, 'mt) trtcm_policer \<Rightarrow> u32 \<Rightarrow> ('pr, 'mt) trtcm_policer" where
  "trtcm_policer_qos_queue_destruct E policer queue_id =
     (case trtcm_policer_qos_find_queue E policer queue_id of
        Some i \<Rightarrow> hmap_remove_at policer i
      | None \<Rightarrow> policer)"

definition trtcm_policer_qos_queue_get ::
  "('pr, 'mt) meter_env \<Rightarrow> smap \<Rightarrow> u32 \<Rightarrow> ('pr, 'mt) trtcm_policer \<Rightarrow> int \<times> smap" where
  "trtcm_policer_qos_queue_get E details queue_id policer =
     (case trtcm_policer_qos_find_queue E policer queue_id of
        None \<Rightarrow> (EINVAL, details)
      | Some i \<Rightarrow> (0, trtcm_policer_param_to_detail (tq_params (queue_at policer i)) details))"

definition trtcm_policer_qos_queue_get_stats ::
  "('pr, 'mt) meter_env \<Rightarrow> ('pr, 'mt) trtcm_policer \<Rightarrow> u32 \<Rightarrow> netdev_queue_stats
   \<Rightarrow> int \<times> netdev_queue_stats" where
  "trtcm_policer_qos_queue_get_stats E policer queue_id stats =
     (case trtcm_policer_qos_find_queue E policer queue_id of
        None \<Rightarrow> (EINVAL, stats)
      | Some i \<Rightarrow> (0, tq_stats (queue_at policer i)))"

record netdev_dpdk_queue_state =
  ds_queues :: "u32 list"
  ds_cur_queue :: nat
  ds_n_queues :: nat

definition trtcm_policer_qos_queue_dump_state_init ::
  "('pr, 'mt) trtcm_policer \<Rightarrow> int \<times> netdev_dpdk_queue_state" where
  "trtcm_policer_qos_queue_dump_state_init policer =
     (0, \<lparr>ds_queues = map (\<lambda>(h, q). tq_queue_id q) (tr_queues policer), ds_cur_queue = 0,
          ds_n_queues = length (tr_queues policer)\<rparr>)"

section \<open>The interface\<close>

text \<open>
  \<open>struct dpdk_qos_ops\<close>.  A function takes the configuration it belongs to; applied to the
  other kind it would read memory of the wrong type (\<open>CONTAINER_OF\<close>).  The operations on
  queues are optional.
\<close>

record ('pr, 'mt) dpdk_qos_ops =
  qos_name :: string
  qos_construct :: "smap \<Rightarrow> int \<times> ('pr, 'mt) qos_conf option"
  qos_get :: "('pr, 'mt) qos_conf \<Rightarrow> smap \<Rightarrow> (int \<times> smap) c_result"
  qos_is_equal :: "('pr, 'mt) qos_conf \<Rightarrow> smap \<Rightarrow> bool c_result"
  qos_run :: "('pr, 'mt) qos_conf \<Rightarrow> u64 \<Rightarrow> dpkt list \<Rightarrow> nat \<Rightarrow> bool
     \<Rightarrow> (('pr, 'mt) qos_conf \<times> dpkt list \<times> nat \<times> dpkt list) c_result"
  qos_queue_construct :: "(('pr, 'mt) trtcm_policer_queue \<Rightarrow> u64 \<Rightarrow> smap \<Rightarrow> u32
     \<Rightarrow> ('pr, 'mt) qos_conf \<Rightarrow> (int \<times> ('pr, 'mt) qos_conf) c_result) option"
  qos_queue_destruct :: "(('pr, 'mt) qos_conf \<Rightarrow> u32 \<Rightarrow> ('pr, 'mt) qos_conf c_result) option"
  qos_queue_get :: "(smap \<Rightarrow> u32 \<Rightarrow> ('pr, 'mt) qos_conf \<Rightarrow> (int \<times> smap) c_result) option"
  qos_queue_get_stats :: "(('pr, 'mt) qos_conf \<Rightarrow> u32 \<Rightarrow> netdev_queue_stats
     \<Rightarrow> (int \<times> netdev_queue_stats) c_result) option"
  qos_queue_dump_state_init :: "(('pr, 'mt) qos_conf
     \<Rightarrow> (int \<times> netdev_dpdk_queue_state) c_result) option"

definition as_egress :: "(('pr, 'mt) egress_policer \<Rightarrow> 'a c_result) \<Rightarrow> ('pr, 'mt) qos_conf \<Rightarrow> 'a c_result"
where "as_egress f c = (case c of Egress_Conf p \<Rightarrow> f p | Trtcm_Conf _ \<Rightarrow> Inl Bad_Conversion)"

definition as_trtcm :: "(('pr, 'mt) trtcm_policer \<Rightarrow> 'a c_result) \<Rightarrow> ('pr, 'mt) qos_conf \<Rightarrow> 'a c_result"
where "as_trtcm f c = (case c of Trtcm_Conf p \<Rightarrow> f p | Egress_Conf _ \<Rightarrow> Inl Bad_Conversion)"

lemma as_egress_simps [simp]:
  "as_egress f (Egress_Conf p) = f p" "as_egress f (Trtcm_Conf q) = Inl Bad_Conversion"
  by (simp_all add: as_egress_def)

lemma as_trtcm_simps [simp]:
  "as_trtcm f (Trtcm_Conf q) = f q" "as_trtcm f (Egress_Conf p) = Inl Bad_Conversion"
  by (simp_all add: as_trtcm_def)

definition egress_ops :: "('pr, 'mt) meter_env \<Rightarrow> ('pr, 'mt) dpdk_qos_ops" where
  "egress_ops E = \<lparr>qos_name = ''egress-policer'',
     qos_construct = egress_policer_qos_construct E,
     qos_get = (\<lambda>c d. as_egress (\<lambda>p. Inr (egress_policer_qos_get p d)) c),
     qos_is_equal = (\<lambda>c d. as_egress (\<lambda>p. Inr (egress_policer_qos_is_equal E p d)) c),
     qos_run = (\<lambda>c t pkts n steal. as_egress (\<lambda>p.
        bindr (egress_policer_run E p t pkts n steal) (\<lambda>(p', r). Inr (Egress_Conf p', r))) c),
     qos_queue_construct = None, qos_queue_destruct = None, qos_queue_get = None,
     qos_queue_get_stats = None, qos_queue_dump_state_init = None\<rparr>"

definition trtcm_ops :: "('pr, 'mt) meter_env \<Rightarrow> ('pr, 'mt) dpdk_qos_ops" where
  "trtcm_ops E = \<lparr>qos_name = ''trtcm-policer'',
     qos_construct = trtcm_policer_qos_construct E,
     qos_get = (\<lambda>c d. as_trtcm (\<lambda>p. Inr (trtcm_policer_qos_get p d)) c),
     qos_is_equal = (\<lambda>c d. as_trtcm (\<lambda>p. Inr (trtcm_policer_qos_is_equal E p d)) c),
     qos_run = (\<lambda>c t pkts n steal. as_trtcm (\<lambda>p.
        bindr (trtcm_policer_run E p t pkts n steal) (\<lambda>(p', r). Inr (Trtcm_Conf p', r))) c),
     qos_queue_construct = Some (\<lambda>u t d i. as_trtcm (\<lambda>p.
        case trtcm_policer_qos_queue_construct E u t d i p of (e, p') \<Rightarrow> Inr (e, Trtcm_Conf p'))),
     qos_queue_destruct = Some (\<lambda>c i. as_trtcm (\<lambda>p.
        Inr (Trtcm_Conf (trtcm_policer_qos_queue_destruct E p i))) c),
     qos_queue_get = Some (\<lambda>d i. as_trtcm (\<lambda>p. Inr (trtcm_policer_qos_queue_get E d i p))),
     qos_queue_get_stats = Some (\<lambda>c i s. as_trtcm (\<lambda>p.
        Inr (trtcm_policer_qos_queue_get_stats E p i s)) c),
     qos_queue_dump_state_init = Some (as_trtcm (\<lambda>p.
        Inr (trtcm_policer_qos_queue_dump_state_init p)))\<rparr>"

primrec ops_table :: "('pr, 'mt) meter_env \<Rightarrow> qos_ops_id \<Rightarrow> ('pr, 'mt) dpdk_qos_ops" where
  "ops_table E egress_policer_ops = egress_ops E"
| "ops_table E trtcm_policer_ops = trtcm_ops E"

definition qos_confs :: "qos_ops_id list" where
  "qos_confs = [egress_policer_ops, trtcm_policer_ops]"

section \<open>The netdev operations\<close>

text \<open>
  The port's state is its \<open>qos_conf\<close>; destroyed configurations are the effect of
  \<open>ovsrcu_postpone\<close>.
\<close>

definition qos_lookup_name :: "('pr, 'mt) meter_env \<Rightarrow> string \<Rightarrow> qos_ops_id option" where
  "qos_lookup_name E name = find (\<lambda>o1. name = qos_name (ops_table E o1)) qos_confs"

definition netdev_dpdk_get_qos_types :: "('pr, 'mt) meter_env \<Rightarrow> string set" where
  "netdev_dpdk_get_qos_types E =
     set (filter (\<lambda>nm. nm \<noteq> []) (map (\<lambda>o1. qos_name (ops_table E o1)) qos_confs))"

definition netdev_dpdk_get_qos ::
  "('pr, 'mt) meter_env \<Rightarrow> ('pr, 'mt) qos_conf option \<Rightarrow> smap \<Rightarrow> (int \<times> string \<times> smap) c_result"
where
  "netdev_dpdk_get_qos E conf details =
     (case conf of
        None \<Rightarrow> Inr (0, [], details)
      | Some c \<Rightarrow> bindr (qos_get (ops_table E (conf_ops c)) c details) (\<lambda>(err, d).
          Inr (err, qos_name (ops_table E (conf_ops c)), d)))"

text \<open>The result: the error, the port's new configuration and those that are destroyed.\<close>

definition netdev_dpdk_set_qos ::
  "('pr, 'mt) meter_env \<Rightarrow> ('pr, 'mt) qos_conf option \<Rightarrow> string \<Rightarrow> smap
   \<Rightarrow> (int \<times> ('pr, 'mt) qos_conf option \<times> ('pr, 'mt) qos_conf list) c_result" where
  "netdev_dpdk_set_qos E conf type details =
     (let replace = (\<lambda>err new. Inr (err, new, case conf of None \<Rightarrow> [] | Some c \<Rightarrow> [c])) in
      case qos_lookup_name E type of
        None \<Rightarrow> replace (if type \<noteq> [] then EOPNOTSUPP else 0) None
      | Some new_ops \<Rightarrow>
          (let construct = (case qos_construct (ops_table E new_ops) details of
                              (err, new) \<Rightarrow> replace err new)
           in case conf of
                None \<Rightarrow> construct
              | Some c \<Rightarrow>
                  if conf_ops c = new_ops then
                    bindr (qos_is_equal (ops_table E new_ops) c details) (\<lambda>eq.
                      if eq then Inr (0, conf, []) else construct)
                  else construct))"

definition netdev_dpdk_get_queue ::
  "('pr, 'mt) meter_env \<Rightarrow> ('pr, 'mt) qos_conf option \<Rightarrow> u32 \<Rightarrow> smap \<Rightarrow> (int \<times> smap) c_result"
where
  "netdev_dpdk_get_queue E conf queue_id details =
     (case conf of
        None \<Rightarrow> Inr (EOPNOTSUPP, details)
      | Some c \<Rightarrow> (case qos_queue_get (ops_table E (conf_ops c)) of
            None \<Rightarrow> Inr (EOPNOTSUPP, details)
          | Some get \<Rightarrow> get details queue_id c))"

definition netdev_dpdk_set_queue ::
  "('pr, 'mt) meter_env \<Rightarrow> ('pr, 'mt) trtcm_policer_queue \<Rightarrow> u64 \<Rightarrow> ('pr, 'mt) qos_conf option
   \<Rightarrow> u32 \<Rightarrow> smap \<Rightarrow> (int \<times> ('pr, 'mt) qos_conf option) c_result" where
  "netdev_dpdk_set_queue E uninit now conf queue_id details =
     (case conf of
        None \<Rightarrow> Inr (EOPNOTSUPP, conf)
      | Some c \<Rightarrow> (case qos_queue_construct (ops_table E (conf_ops c)) of
            None \<Rightarrow> Inr (EOPNOTSUPP, conf)
          | Some construct \<Rightarrow> bindr (construct uninit now details queue_id c) (\<lambda>(err, c').
              Inr (err, Some c'))))"

definition netdev_dpdk_delete_queue ::
  "('pr, 'mt) meter_env \<Rightarrow> ('pr, 'mt) qos_conf option \<Rightarrow> u32
   \<Rightarrow> (int \<times> ('pr, 'mt) qos_conf option) c_result" where
  "netdev_dpdk_delete_queue E conf queue_id =
     (case conf of
        None \<Rightarrow> Inr (EOPNOTSUPP, conf)
      | Some c \<Rightarrow> (case qos_queue_destruct (ops_table E (conf_ops c)) of
            None \<Rightarrow> Inr (EOPNOTSUPP, conf)
          | Some destruct \<Rightarrow> bindr (destruct c queue_id) (\<lambda>c'. Inr (0, Some c'))))"

text \<open>The error \<open>qos_queue_get_stats\<close> returns is dropped.\<close>

definition netdev_dpdk_get_queue_stats ::
  "('pr, 'mt) meter_env \<Rightarrow> ('pr, 'mt) qos_conf option \<Rightarrow> u32 \<Rightarrow> netdev_queue_stats
   \<Rightarrow> (int \<times> netdev_queue_stats) c_result" where
  "netdev_dpdk_get_queue_stats E conf queue_id stats =
     (case conf of
        None \<Rightarrow> Inr (EOPNOTSUPP, stats)
      | Some c \<Rightarrow> (case qos_queue_get_stats (ops_table E (conf_ops c)) of
            None \<Rightarrow> Inr (EOPNOTSUPP, stats)
          | Some get_stats \<Rightarrow> bindr (get_stats c queue_id stats) (\<lambda>(err, s). Inr (0, s))))"

definition netdev_dpdk_queue_dump_start ::
  "('pr, 'mt) meter_env \<Rightarrow> ('pr, 'mt) qos_conf option
   \<Rightarrow> (int \<times> netdev_dpdk_queue_state option) c_result" where
  "netdev_dpdk_queue_dump_start E conf =
     (case conf of
        None \<Rightarrow> Inr (EOPNOTSUPP, None)
      | Some c \<Rightarrow> (case qos_queue_dump_state_init (ops_table E (conf_ops c)) of
            None \<Rightarrow> Inr (EOPNOTSUPP, None)
          | Some init \<Rightarrow> bindr (init c) (\<lambda>(err, s). Inr (err, Some s))))"

text \<open>
  One call of \<open>queue_dump_next\<close>: it advances past queues of a port that has no configuration
  with queues any more.  \<open>n\<close> bounds the turns of the loop by the queues that are left.
\<close>

primrec dump_next_loop ::
  "('pr, 'mt) meter_env \<Rightarrow> ('pr, 'mt) qos_conf option \<Rightarrow> nat \<Rightarrow> netdev_dpdk_queue_state
   \<Rightarrow> u32 option \<Rightarrow> smap \<Rightarrow> (int \<times> netdev_dpdk_queue_state \<times> u32 option \<times> smap) c_result" where
  "dump_next_loop E conf 0 state idp details = Inr (EOF, state, idp, details)"
| "dump_next_loop E conf (Suc n) state idp details =
     bindr (arr_get (ds_queues state) (ds_cur_queue state)) (\<lambda>queue_id.
       let state' = state\<lparr>ds_cur_queue := ds_cur_queue state + 1\<rparr> in
       case (case conf of None \<Rightarrow> None | Some c \<Rightarrow>
               (case qos_queue_get (ops_table E (conf_ops c)) of None \<Rightarrow> None
                | Some get \<Rightarrow> Some (get details queue_id c))) of
         None \<Rightarrow> dump_next_loop E conf n state' idp details
       | Some r \<Rightarrow> bindr r (\<lambda>(err, d). Inr (err, state', Some queue_id, d)))"

definition netdev_dpdk_queue_dump_next ::
  "('pr, 'mt) meter_env \<Rightarrow> ('pr, 'mt) qos_conf option \<Rightarrow> netdev_dpdk_queue_state
   \<Rightarrow> u32 option \<Rightarrow> smap \<Rightarrow> (int \<times> netdev_dpdk_queue_state \<times> u32 option \<times> smap) c_result" where
  "netdev_dpdk_queue_dump_next E conf state idp details =
     dump_next_loop E conf (ds_n_queues state - ds_cur_queue state) state idp details"

text \<open>\<open>netdev_dpdk_qos_run\<close>, on the transmit path.\<close>

definition netdev_dpdk_qos_run ::
  "('pr, 'mt) meter_env \<Rightarrow> ('pr, 'mt) qos_conf option \<Rightarrow> u64 \<Rightarrow> dpkt list \<Rightarrow> nat \<Rightarrow> bool
   \<Rightarrow> (('pr, 'mt) qos_conf option \<times> dpkt list \<times> nat \<times> dpkt list) c_result" where
  "netdev_dpdk_qos_run E conf time pkts cnt should_steal =
     (case conf of
        None \<Rightarrow> Inr (None, pkts, cnt, [])
      | Some c \<Rightarrow> bindr (qos_run (ops_table E (conf_ops c)) c time pkts cnt should_steal)
          (\<lambda>(c', r). Inr (Some c', r)))"

end
