(* ===== verification/Dpdk_Qos_Laws.thy ===== *)
theory Dpdk_Qos_Laws
  imports Dpdk_Qos
begin

text \<open>
  The contract of \<open>dpdk_qos_ops\<close> as locales: what its client, the netdev operations, relies
  on.  \<open>qos_implementation\<close> is the contract every implementation must meet,
  \<open>qos_with_queues\<close> extends it by the queue operations.  Both implementations of the code are
  shown to meet it, whatever the meters of DPDK do.
\<close>

section \<open>The queues of trtcm-policer as a map\<close>

definition queue_alist :: "('pr, 'mt) trtcm_policer \<Rightarrow> (u32 \<times> ('pr, 'mt) trtcm_policer_queue) list" where
  "queue_alist p = map (\<lambda>(h, q). (tq_queue_id q, q)) (tr_queues p)"

definition queue_map :: "('pr, 'mt) trtcm_policer \<Rightarrow> u32 \<rightharpoonup> ('pr, 'mt) trtcm_policer_queue" where
  "queue_map p = map_of (queue_alist p)"

text \<open>Every node is stored under the hash of its number, and numbers are not repeated.\<close>

definition trtcm_ok :: "('pr, 'mt) meter_env \<Rightarrow> ('pr, 'mt) trtcm_policer \<Rightarrow> bool" where
  "trtcm_ok E p \<longleftrightarrow>
     distinct (map fst (queue_alist p)) \<and>
     (\<forall>(h, q)\<in>set (tr_queues p). h = hash_2words E (tq_queue_id q) 0)"

lemma queue_alist_nth [simp]:
  "i < length (tr_queues p) \<Longrightarrow> queue_alist p ! i = (tq_queue_id (queue_at p i), queue_at p i)"
  by (simp add: queue_alist_def queue_at_def split: prod.splits)

lemma length_queue_alist [simp]: "length (queue_alist p) = length (tr_queues p)"
  by (simp add: queue_alist_def)

lemma find_queue_None_iff:
  assumes "trtcm_ok E p"
  shows "trtcm_policer_qos_find_queue E p qid = None \<longleftrightarrow> queue_map p qid = None"
proof -
  have "trtcm_policer_qos_find_queue E p qid = None \<longleftrightarrow>
          (\<forall>(h, q)\<in>set (tr_queues p). tq_queue_id q \<noteq> qid)"
    using assms by (auto simp: trtcm_policer_qos_find_queue_def trtcm_ok_def case_prod_beta)
  also have "\<dots> \<longleftrightarrow> queue_map p qid = None"
    by (auto simp: queue_map_def queue_alist_def map_of_eq_None_iff image_iff split: prod.splits)
  finally show ?thesis .
qed

lemma find_queue_SomeD:
  assumes "trtcm_ok E p" and "trtcm_policer_qos_find_queue E p qid = Some i"
  shows "i < length (tr_queues p)" and "tq_queue_id (queue_at p i) = qid"
    and "queue_map p qid = Some (queue_at p i)"
proof -
  show i: "i < length (tr_queues p)" and qid: "tq_queue_id (queue_at p i) = qid"
    using find_index_from_SomeD [of 0] assms(2)
    by (force simp: trtcm_policer_qos_find_queue_def queue_at_def split: prod.splits)+
  then have "(qid, queue_at p i) \<in> set (queue_alist p)"
    by (metis length_queue_alist nth_mem queue_alist_nth)
  then show "queue_map p qid = Some (queue_at p i)"
    using assms(1) by (simp add: queue_map_def trtcm_ok_def)
qed

lemma set_queue_at_map:
  assumes "trtcm_ok E p" and "i < length (tr_queues p)"
    and "tq_queue_id q = tq_queue_id (queue_at p i)"
  shows "trtcm_ok E (set_queue_at p i q)"
    and "queue_map (set_queue_at p i q) = (queue_map p)(tq_queue_id q \<mapsto> q)"
proof -
  have al: "queue_alist (set_queue_at p i q) = (queue_alist p)[i := (fst (queue_alist p ! i), q)]"
    using assms(2,3)
    by (simp add: queue_alist_def set_queue_at_def map_update queue_at_def case_prod_beta)
  then have keys: "map fst (queue_alist (set_queue_at p i q)) = map fst (queue_alist p)"
    by (simp only: map_fst_list_update)
  have "fst (tr_queues p ! i) = hash_2words E (tq_queue_id (queue_at p i)) 0"
    using assms(1,2) nth_mem [OF assms(2)]
    by (auto simp: trtcm_ok_def queue_at_def split: prod.splits dest!: bspec)
  then show "trtcm_ok E (set_queue_at p i q)"
    using assms keys
    by (auto simp: trtcm_ok_def set_queue_at_def dest!: set_update_subset_insert [THEN subsetD])
  show "queue_map (set_queue_at p i q) = (queue_map p)(tq_queue_id q \<mapsto> q)"
    using map_of_list_update [of i "queue_alist p" q] assms
    by (simp add: queue_map_def al trtcm_ok_def)
qed

lemma hmap_remove_at_map:
  assumes "trtcm_ok E p" and "i < length (tr_queues p)"
  shows "trtcm_ok E (hmap_remove_at p i)"
    and "queue_map (hmap_remove_at p i) = (queue_map p)(tq_queue_id (queue_at p i) := None)"
proof -
  have al: "queue_alist (hmap_remove_at p i) = take i (queue_alist p) @ drop (Suc i) (queue_alist p)"
    by (simp add: queue_alist_def hmap_remove_at_def take_map drop_map)
  have "distinct (map fst (take i (queue_alist p) @ drop (Suc i) (queue_alist p)))"
    using distinct_remove_nth [of "map fst (queue_alist p)" i] assms(1)
    by (simp only: trtcm_ok_def map_append take_map drop_map)
  then show "trtcm_ok E (hmap_remove_at p i)"
    using assms(1) unfolding trtcm_ok_def al
    by (auto simp: hmap_remove_at_def dest: in_set_takeD in_set_dropD)
  show "queue_map (hmap_remove_at p i) = (queue_map p)(tq_queue_id (queue_at p i) := None)"
    using map_of_list_remove [of i "queue_alist p"] assms
    by (simp add: queue_map_def al trtcm_ok_def)
qed

lemma insert_queue_map:
  assumes "trtcm_ok E p" and "queue_map p (tq_queue_id q) = None"
    and "p' = p\<lparr>tr_queues := (hash_2words E (tq_queue_id q) 0, q) # tr_queues p\<rparr>"
  shows "trtcm_ok E p'" and "queue_map p' = (queue_map p)(tq_queue_id q \<mapsto> q)"
  using assms by (auto simp: trtcm_ok_def queue_map_def queue_alist_def map_of_eq_None_iff)


section \<open>Both policers are filters\<close>

text \<open>What a run over the first \<open>n\<close> packets of an array leaves behind.\<close>

definition policed ::
  "dpkt list \<Rightarrow> nat \<Rightarrow> bool \<Rightarrow> dpkt list \<times> nat \<times> dpkt list \<Rightarrow> bool" where
  "policed pkts n steal r \<longleftrightarrow>
     (\<exists>kept dropped. case r of (pkts', k, freed) \<Rightarrow>
        k = length kept \<and> take k pkts' = kept \<and> subseq kept (take n pkts) \<and>
        mset kept + mset dropped = mset (take n pkts) \<and>
        freed = (if steal then dropped else []) \<and>
        length pkts' = length pkts \<and> drop n pkts' = drop n pkts)"

lemma compact_policed:
  assumes "pure_check chk" and "n \<le> length pkts"
  shows "\<exists>s' r. compact chk steal s pkts n = Inr (s', r) \<and> policed pkts n steal r \<and>
           s' = fst (police chk s (take n pkts))"
proof -
  obtain s' kept dropped where run: "police chk s (take n pkts) = (s', kept, dropped)"
    by (cases "police chk s (take n pkts)")
  obtain pkts' where "compact chk steal s pkts n
      = Inr (s', pkts', length kept, if steal then dropped else [])"
    "take (length kept) pkts' = kept" "length pkts' = length pkts" "drop n pkts' = drop n pkts"
    using compact_police [OF assms(2) run, of steal] by blast
  then show ?thesis
    using police_mset [OF assms(1) run] police_subseq [OF assms(1) run] run
    unfolding policed_def by fastforce
qed

lemma policed_count_le: "policed pkts n steal (pkts', k, freed) \<Longrightarrow> n \<le> length pkts \<Longrightarrow> k \<le> n"
  unfolding policed_def using list_emb_length by fastforce

lemma pure_srtcm [simp]: "pure_check (netdev_dpdk_srtcm_policer_pkt_handle E prof time)"
  by (simp add: pure_check_def netdev_dpdk_srtcm_policer_pkt_handle_def split: prod.splits)

lemma pure_trtcm [simp]: "pure_check (trtcm_policer_run_single_packet E time)"
  by (simp add: pure_check_def trtcm_policer_run_single_packet_def Let_def
      split: prod.splits option.splits)

text \<open>What one packet does to the policer: parameters stay, and the counters move as one.\<close>

definition trtcm_queue_for :: "('pr, 'mt) trtcm_policer \<Rightarrow> dpkt \<Rightarrow> bool" where
  "trtcm_queue_for p pkt \<longleftrightarrow>
     queue_map p (pk_priority pkt) \<noteq> None \<or> queue_map p 0 \<noteq> None"

definition queue_params :: "('pr, 'mt) trtcm_policer \<Rightarrow> u32 \<rightharpoonup> trtcm_params" where
  "queue_params p = (\<lambda>i. map_option tq_params (queue_map p i))"

lemma queue_params_update:
  assumes "trtcm_ok E p" and "i < length (tr_queues p)"
    and "tq_queue_id q = tq_queue_id (queue_at p i)"
  shows "queue_params (set_queue_at p i q) = (queue_params p)(tq_queue_id q \<mapsto> tq_params q)"
  by (rule ext) (simp add: queue_params_def set_queue_at_map(2) [OF assms])

lemma trtcm_run_single:
  assumes "trtcm_ok E p" and "trtcm_policer_run_single_packet E time p pkt = (p', keep, pkt')"
  shows "trtcm_ok E p'" and "tr_params p' = tr_params p" and "queue_params p' = queue_params p"
    and "if trtcm_queue_for p pkt
         then tr_stats p' = count_packet (\<not> keep) (pkt_len pkt - sizeof_rte_ether_hdr) (tr_stats p)
         else \<not> keep \<and> p' = p"
proof -
  let ?found = "case trtcm_policer_qos_find_queue E p (pk_priority pkt) of
                  Some i \<Rightarrow> Some i | None \<Rightarrow> trtcm_policer_qos_find_queue E p 0"
  have "trtcm_ok E p' \<and> tr_params p' = tr_params p \<and> queue_params p' = queue_params p \<and>
    (if trtcm_queue_for p pkt
     then tr_stats p' = count_packet (\<not> keep) (pkt_len pkt - sizeof_rte_ether_hdr) (tr_stats p)
     else \<not> keep \<and> p' = p)"
  proof (cases ?found)
    case None
    then have "\<not> trtcm_queue_for p pkt"
      using find_queue_None_iff [OF assms(1)]
      by (auto simp: trtcm_queue_for_def split: option.splits)
    then show ?thesis
      using None assms by (simp add: trtcm_policer_run_single_packet_def Let_def)
  next
    case (Some i)
    obtain qid where qid: "trtcm_policer_qos_find_queue E p qid = Some i"
        "qid = pk_priority pkt \<or> qid = 0"
      using Some by (auto split: option.splits)
    note q = find_queue_SomeD [OF assms(1) qid(1)]
    obtain qmeter color where c1: "trtcm_color_blind_check E (tq_meter (queue_at p i))
        (tq_profile (queue_at p i)) time (pkt_len pkt - sizeof_rte_ether_hdr) = (qmeter, color)"
      by fastforce
    let ?q = "(queue_at p i)\<lparr>tq_meter := qmeter, tq_stats := count_packet (color = COLOR_RED)
        (pkt_len pkt - sizeof_rte_ether_hdr) (tq_stats (queue_at p i))\<rparr>"
    define p1 where "p1 = set_queue_at p i ?q"
    have p1: "trtcm_ok E p1" "queue_params p1 = queue_params p" "tr_params p1 = tr_params p"
      "tr_stats p1 = tr_stats p"
      using set_queue_at_map(1) [OF assms(1) q(1), of ?q] q(3)
        queue_params_update [OF assms(1) q(1), of ?q] q(2)
      by (simp_all add: p1_def queue_params_def fun_upd_idem_iff)
        (simp_all add: set_queue_at_def)
    obtain meter color' where c2: "trtcm_color_aware_check E (tr_meter p1) (tr_profile p1) time
        (pkt_len pkt - sizeof_rte_ether_hdr) color = (meter, color')"
      by fastforce
    have p': "p' = p1\<lparr>tr_meter := meter, tr_stats := count_packet (color' = COLOR_RED)
        (pkt_len pkt - sizeof_rte_ether_hdr) (tr_stats p1)\<rparr>" "keep = (color' \<noteq> COLOR_RED)"
      using assms(2) Some c1 c2
      by (auto simp: trtcm_policer_run_single_packet_def p1_def Let_def)
    moreover have "trtcm_queue_for p pkt"
      using q(3) qid(2) by (auto simp: trtcm_queue_for_def)
    ultimately show ?thesis
      using p1 by (simp add: trtcm_ok_def queue_params_def queue_map_def queue_alist_def)
  qed
  then show "trtcm_ok E p'" "tr_params p' = tr_params p" "queue_params p' = queue_params p"
    "if trtcm_queue_for p pkt
     then tr_stats p' = count_packet (\<not> keep) (pkt_len pkt - sizeof_rte_ether_hdr) (tr_stats p)
     else \<not> keep \<and> p' = p"
    by blast+
qed

lemma trtcm_police_keeps:
  assumes "trtcm_ok E p"
    and "police (trtcm_policer_run_single_packet E time) p ps = (p', kept, dropped)"
  shows "trtcm_ok E p' \<and> tr_params p' = tr_params p \<and> queue_params p' = queue_params p"
proof (rule police_invariant [where I = "\<lambda>q. trtcm_ok E q \<and> tr_params q = tr_params p \<and>
        queue_params q = queue_params p", OF _ assms(2)])
  fix q pkt q' keep pkt'
  assume "trtcm_ok E q \<and> tr_params q = tr_params p \<and> queue_params q = queue_params p"
    and "trtcm_policer_run_single_packet E time q pkt = (q', keep, pkt')"
  then show "trtcm_ok E q' \<and> tr_params q' = tr_params p \<and> queue_params q' = queue_params p"
    using trtcm_run_single(1-3) [of E q time pkt q' keep pkt'] by simp
qed (simp add: assms(1))


section \<open>The contract of an implementation\<close>

text \<open>
  \<open>valid\<close> are the configurations that belong to the implementation.  The laws are those the
  comments of \<open>struct dpdk_qos_ops\<close> promise: construction returns 0 exactly when it yields a
  configuration, a configuration equals the details it was built from, and running it over
  an array keeps some packets at the front, in order, and releases the others.
\<close>

locale qos_implementation =
  fixes ops :: "('pr, 'mt) dpdk_qos_ops"
    and me :: qos_ops_id
    and valid :: "('pr, 'mt) qos_conf \<Rightarrow> bool"
  assumes construct_sets: "qos_construct ops d = (e, r) \<Longrightarrow> e = 0 \<longleftrightarrow> r \<noteq> None"
    and construct_valid: "qos_construct ops d = (e, Some c) \<Longrightarrow> valid c"
    and construct_equal: "qos_construct ops d = (e, Some c) \<Longrightarrow> qos_is_equal ops c d = Inr True"
    and valid_ops: "valid c \<Longrightarrow> conf_ops c = me"
    and equal_total: "valid c \<Longrightarrow> \<exists>b. qos_is_equal ops c d = Inr b"
    and run_polices: "valid c \<Longrightarrow> n \<le> length pkts \<Longrightarrow>
          \<exists>c' res. qos_run ops c t pkts n steal = Inr (c', res) \<and> policed pkts n steal res \<and>
            valid c' \<and> (\<forall>d. qos_is_equal ops c' d = qos_is_equal ops c d)"
begin

text \<open>Setting a type: the outcome, whatever configuration the port had.\<close>

lemma set_qos_outcome:
  assumes "ops_table E me = ops" and "qos_lookup_name E ty = Some me"
    and "\<And>c. conf = Some c \<Longrightarrow> conf_ops c = me \<Longrightarrow> valid c"
  shows "\<exists>err new ds. netdev_dpdk_set_qos E conf ty d = Inr (err, new, ds) \<and>
           (err = 0 \<longleftrightarrow> new \<noteq> None) \<and>
           (\<forall>c. new = Some c \<longrightarrow> valid c \<and> qos_is_equal ops c d = Inr True) \<and>
           (if ds = [] then conf = None \<or> new = conf else \<exists>c. conf = Some c \<and> ds = [c])"
proof -
  obtain e c' where c: "qos_construct ops d = (e, c')" by (cases "qos_construct ops d")
  have built: "e = 0 \<longleftrightarrow> c' \<noteq> None"
    "\<forall>k. c' = Some k \<longrightarrow> valid k \<and> qos_is_equal ops k d = Inr True"
    using construct_sets [OF c] construct_valid construct_equal c by auto
  show ?thesis
  proof (cases "\<exists>k. conf = Some k \<and> conf_ops k = me \<and> qos_is_equal ops k d = Inr True")
    case True
    then show ?thesis
      using assms by (auto simp: netdev_dpdk_set_qos_def Let_def)
  next
    case False
    have "netdev_dpdk_set_qos E conf ty d =
            Inr (e, c', case conf of None \<Rightarrow> [] | Some k \<Rightarrow> [k])"
    proof (cases conf)
      case None
      then show ?thesis using assms(1,2) c by (simp add: netdev_dpdk_set_qos_def)
    next
      case (Some k)
      show ?thesis
      proof (cases "conf_ops k = me")
        case True
        then obtain b where "qos_is_equal ops k d = Inr b"
          using assms(3) [OF Some True] equal_total by blast
        moreover have "\<not> b" using False Some True calculation by auto
        ultimately show ?thesis
          using assms(1,2) c Some True by (simp add: netdev_dpdk_set_qos_def)
      next
        case False
        then show ?thesis using assms(1,2) c Some by (simp add: netdev_dpdk_set_qos_def)
      qed
    qed
    then show ?thesis using built by (cases conf) auto
  qed
qed

text \<open>Setting the same details again changes nothing, even after packets have been policed.\<close>

lemma set_qos_again:
  assumes "ops_table E me = ops" and "qos_lookup_name E ty = Some me"
    and "valid c" and "qos_is_equal ops c d = Inr True"
  shows "netdev_dpdk_set_qos E (Some c) ty d = Inr (0, Some c, [])"
  using assms valid_ops [OF assms(3)] by (simp add: netdev_dpdk_set_qos_def)

lemma qos_run_policed:
  assumes "ops_table E me = ops" and "valid c" and "n \<le> length pkts"
  shows "\<exists>c' r. netdev_dpdk_qos_run E (Some c) t pkts n steal = Inr (Some c', r) \<and>
           policed pkts n steal r \<and> valid c' \<and>
           (\<forall>d. qos_is_equal ops c' d = qos_is_equal ops c d)"
  using run_polices [OF assms(2,3), of t steal] assms(1) valid_ops [OF assms(2)]
  by (auto simp: netdev_dpdk_qos_run_def)

end

text \<open>
  The queue operations: \<open>params\<close> is what the implementation promises to its client, a map
  from queue numbers to meter parameters; \<open>wanted\<close> are the parameters a set operation asks
  for.  A queue that cannot be configured is gone.
\<close>

locale qos_with_queues = qos_implementation ops me valid
  for ops :: "('pr, 'mt) dpdk_qos_ops" and me :: qos_ops_id
    and valid :: "('pr, 'mt) qos_conf \<Rightarrow> bool" +
  fixes params :: "('pr, 'mt) qos_conf \<Rightarrow> u32 \<rightharpoonup> trtcm_params"
    and wanted :: "('pr, 'mt) qos_conf \<Rightarrow> u32 \<Rightarrow> smap \<Rightarrow> trtcm_params"
  assumes queue_construct: "valid c \<Longrightarrow> \<exists>f err c'. qos_queue_construct ops = Some f \<and>
        f u t d i c = Inr (err, c') \<and> valid c' \<and>
        params c' = (params c)(i := if err = 0 then Some (wanted c i d) else None)"
    and queue_destruct: "valid c \<Longrightarrow> \<exists>f c'. qos_queue_destruct ops = Some f \<and>
        f c i = Inr c' \<and> valid c' \<and> params c' = (params c)(i := None)"
    and queue_get: "valid c \<Longrightarrow> \<exists>f. qos_queue_get ops = Some f \<and> f d i c =
        Inr (case params c i of None \<Rightarrow> (EINVAL, d)
             | Some p \<Rightarrow> (0, trtcm_policer_param_to_detail p d))"
    and dump_init: "valid c \<Longrightarrow> \<exists>f ids. qos_queue_dump_state_init ops = Some f \<and> f c =
        Inr (0, \<lparr>ds_queues = ids, ds_cur_queue = 0, ds_n_queues = length ids\<rparr>) \<and>
        distinct ids \<and> set ids = dom (params c)"
begin

lemma get_queue_is_lookup:
  assumes "ops_table E me = ops" and "valid c"
  shows "netdev_dpdk_get_queue E (Some c) i d =
           Inr (case params c i of None \<Rightarrow> (EINVAL, d)
                | Some p \<Rightarrow> (0, trtcm_policer_param_to_detail p d))"
  using assms queue_get [OF assms(2), of d i] valid_ops by (auto simp: netdev_dpdk_get_queue_def)

lemma set_queue_is_update:
  assumes "ops_table E me = ops" and "valid c"
  shows "\<exists>err c'. netdev_dpdk_set_queue E u t (Some c) i d = Inr (err, Some c') \<and> valid c' \<and>
           params c' = (params c)(i := if err = 0 then Some (wanted c i d) else None)"
  using assms queue_construct [OF assms(2), of u t d i] valid_ops
  by (auto simp: netdev_dpdk_set_queue_def)

lemma delete_queue_is_delete:
  assumes "ops_table E me = ops" and "valid c"
  shows "\<exists>c'. netdev_dpdk_delete_queue E (Some c) i = Inr (0, Some c') \<and> valid c' \<and>
           params c' = (params c)(i := None)"
  using assms queue_destruct [OF assms(2), of i] valid_ops
  by (auto simp: netdev_dpdk_delete_queue_def)

lemma dump_start_lists_queues:
  assumes "ops_table E me = ops" and "valid c"
  shows "\<exists>ids. netdev_dpdk_queue_dump_start E (Some c) = Inr (0, Some
             \<lparr>ds_queues = ids, ds_cur_queue = 0, ds_n_queues = length ids\<rparr>) \<and>
           distinct ids \<and> set ids = dom (params c)"
  using assms dump_init [OF assms(2)] valid_ops
  by (auto simp: netdev_dpdk_queue_dump_start_def)

lemma dump_next_step:
  assumes "ops_table E me = ops" and "valid c" and "k < length ids"
  shows "netdev_dpdk_queue_dump_next E (Some c)
             \<lparr>ds_queues = ids, ds_cur_queue = k, ds_n_queues = length ids\<rparr> x d =
           (case params c (ids ! k) of
              None \<Rightarrow> Inr (EINVAL, \<lparr>ds_queues = ids, ds_cur_queue = k + 1,
                             ds_n_queues = length ids\<rparr>, Some (ids ! k), d)
            | Some p \<Rightarrow> Inr (0, \<lparr>ds_queues = ids, ds_cur_queue = k + 1,
                             ds_n_queues = length ids\<rparr>, Some (ids ! k),
                             trtcm_policer_param_to_detail p d))"
proof -
  obtain n where n: "length ids - k = Suc n" using assms(3) by (cases "length ids - k") auto
  show ?thesis
    using assms queue_get [OF assms(2), of d "ids ! k"] valid_ops n
    by (auto simp: netdev_dpdk_queue_dump_next_def split: option.splits)
qed

lemma dump_next_end:
  "netdev_dpdk_queue_dump_next E conf
     \<lparr>ds_queues = ids, ds_cur_queue = length ids, ds_n_queues = length ids\<rparr> x d =
   Inr (EOF, \<lparr>ds_queues = ids, ds_cur_queue = length ids, ds_n_queues = length ids\<rparr>, x, d)"
  by (simp add: netdev_dpdk_queue_dump_next_def)

end

section \<open>Both implementations meet the contract\<close>

definition egress_valid :: "('pr, 'mt) qos_conf \<Rightarrow> bool" where
  "egress_valid c \<longleftrightarrow>
     (case c of Egress_Conf p \<Rightarrow> sp_ebs (ep_params p) = 0 | Trtcm_Conf _ \<Rightarrow> False)"

definition trtcm_valid :: "('pr, 'mt) meter_env \<Rightarrow> ('pr, 'mt) qos_conf \<Rightarrow> bool" where
  "trtcm_valid E c \<longleftrightarrow> (case c of Egress_Conf _ \<Rightarrow> False | Trtcm_Conf p \<Rightarrow> trtcm_ok E p)"

definition conf_queue_params :: "('pr, 'mt) qos_conf \<Rightarrow> u32 \<rightharpoonup> trtcm_params" where
  "conf_queue_params c = (case c of Egress_Conf _ \<Rightarrow> Map.empty | Trtcm_Conf p \<Rightarrow> queue_params p)"

text \<open>Queue 0 without details takes the parameters of the port.\<close>

definition queue_params_wanted ::
  "('pr, 'mt) meter_env \<Rightarrow> ('pr, 'mt) qos_conf \<Rightarrow> u32 \<Rightarrow> smap \<Rightarrow> trtcm_params" where
  "queue_params_wanted E c i d =
     (case c of
        Trtcm_Conf p \<Rightarrow> if i = 0 \<and> d = [] then tr_params p else trtcm_policer_details_to_param E d
      | Egress_Conf _ \<Rightarrow> trtcm_policer_details_to_param E d)"

lemma egress_run_policed:
  assumes "n \<le> length pkts"
  shows "\<exists>p' r. egress_policer_run E p t pkts n steal = Inr (p', r) \<and> policed pkts n steal r \<and>
           ep_params p' = ep_params p"
  using compact_policed [OF pure_srtcm assms, of E "egress_prof p" t steal "egress_meter p"]
  by (auto simp: egress_policer_run_def srtcm_policer_run_single_packet_def)

lemma trtcm_run_policed:
  assumes "trtcm_ok E p" and "n \<le> length pkts"
  shows "\<exists>p' r. trtcm_policer_run E p t pkts n steal = Inr (p', r) \<and> policed pkts n steal r \<and>
           trtcm_ok E p' \<and> tr_params p' = tr_params p \<and> queue_params p' = queue_params p"
proof -
  obtain p' r where r: "trtcm_policer_run E p t pkts n steal = Inr (p', r)"
    "policed pkts n steal r" "p' = fst (police (trtcm_policer_run_single_packet E t) p (take n pkts))"
    using compact_policed [OF pure_trtcm assms(2), of E t steal p]
    by (auto simp: trtcm_policer_run_def)
  then show ?thesis
    using trtcm_police_keeps [OF assms(1)] by (metis prod.collapse)
qed

interpretation egress: qos_implementation "egress_ops E" egress_policer_ops egress_valid
  for E :: "('pr, 'mt) meter_env"
proof unfold_locales
  fix c :: "('pr, 'mt) qos_conf" and n pkts t steal
  assume "egress_valid c" and n: "n \<le> length (pkts :: dpkt list)"
  then obtain p where c: "c = Egress_Conf p" "sp_ebs (ep_params p) = 0"
    by (cases c) (auto simp: egress_valid_def)
  obtain p' r where "egress_policer_run E p t pkts n steal = Inr (p', r)"
    "policed pkts n steal r" "ep_params p' = ep_params p"
    using egress_run_policed [OF n] by blast
  then show "\<exists>c' res. qos_run (egress_ops E) c t pkts n steal = Inr (c', res) \<and>
      policed pkts n steal res \<and> egress_valid c' \<and>
      (\<forall>d. qos_is_equal (egress_ops E) c' d = qos_is_equal (egress_ops E) c d)"
    by (intro exI [of _ "Egress_Conf p'"] exI [of _ r])
       (simp add: egress_ops_def c egress_valid_def egress_policer_qos_is_equal_def)
qed (auto simp: egress_ops_def egress_valid_def egress_policer_qos_construct_def
      egress_policer_qos_is_equal_def egress_policer_details_to_param_def as_egress_def Let_def
      split: prod.splits if_splits qos_conf.splits)


lemma trtcm_validE:
  assumes "trtcm_valid E c"
  obtains p where "c = Trtcm_Conf p" and "trtcm_ok E p"
  using assms by (cases c) (auto simp: trtcm_valid_def)

lemma trtcm_set_params [simp]:
  "queue_map (p\<lparr>tr_meter := m, tr_stats := s\<rparr>) = queue_map p"
  by (simp add: queue_map_def queue_alist_def)

text \<open>The queue that \<open>queue_construct\<close> works on: the one found, or a new one in front.\<close>

lemma queue_construct_target:
  assumes "trtcm_ok E p"
    and "(case trtcm_policer_qos_find_queue E p qid of
            Some i \<Rightarrow> (i, p)
          | None \<Rightarrow> (0, p\<lparr>tr_queues := (hash_2words E qid 0, u\<lparr>tq_queue_id := qid,
              tq_stats := st\<rparr>) # tr_queues p\<rparr>)) = (i, p1)"
  shows "trtcm_ok E p1" and "i < length (tr_queues p1)" and "tq_queue_id (queue_at p1 i) = qid"
    and "tr_params p1 = tr_params p" and "\<And>j. j \<noteq> qid \<Longrightarrow> queue_params p1 j = queue_params p j"
proof -
  have "trtcm_ok E p1 \<and> i < length (tr_queues p1) \<and> tq_queue_id (queue_at p1 i) = qid \<and>
      tr_params p1 = tr_params p \<and> (\<forall>j. j \<noteq> qid \<longrightarrow> queue_params p1 j = queue_params p j)"
  proof (cases "trtcm_policer_qos_find_queue E p qid")
    case None
    let ?q = "u\<lparr>tq_queue_id := qid, tq_stats := st\<rparr>"
    have none: "queue_map p (tq_queue_id ?q) = None"
      using find_queue_None_iff [OF assms(1)] None by simp
    have p1: "p1 = p\<lparr>tr_queues := (hash_2words E (tq_queue_id ?q) 0, ?q) # tr_queues p\<rparr>" "i = 0"
      using assms(2) None by auto
    show ?thesis
      using insert_queue_map [OF assms(1) none p1(1)] p1
      by (simp add: queue_at_def queue_params_def)
  next
    case (Some k)
    then show ?thesis using find_queue_SomeD [OF assms(1) Some] assms by auto
  qed
  then show "trtcm_ok E p1" "i < length (tr_queues p1)" "tq_queue_id (queue_at p1 i) = qid"
    "tr_params p1 = tr_params p" "\<And>j. j \<noteq> qid \<Longrightarrow> queue_params p1 j = queue_params p j"
    by blast+
qed

lemma trtcm_queue_construct_law:
  assumes "trtcm_ok E p"
    and "trtcm_policer_qos_queue_construct E u now d qid p = (err, p')"
  shows "trtcm_ok E p'" and "tr_params p' = tr_params p"
    and "queue_params p' = (queue_params p)(qid :=
           if err = 0 then Some (if qid = 0 \<and> d = [] then tr_params p
                                 else trtcm_policer_details_to_param E d) else None)"
proof -
  let ?st = "zero_stats\<lparr>qs_created := now\<rparr>"
  let ?pa = "if qid = 0 \<and> d = [] then tr_params p else trtcm_policer_details_to_param E d"
  obtain i p1 where t: "(case trtcm_policer_qos_find_queue E p qid of
            Some i \<Rightarrow> (i, p)
          | None \<Rightarrow> (0, p\<lparr>tr_queues := (hash_2words E qid 0, u\<lparr>tq_queue_id := qid,
              tq_stats := ?st\<rparr>) # tr_queues p\<rparr>)) = (i, p1)"
    by fastforce
  note q = queue_construct_target [OF assms(1) t]
  obtain e1 prof where e1: "trtcm_profile_config E ?pa = (e1, prof)" by fastforce
  obtain e2 meter where e2: "trtcm_config E prof = (e2, meter)" by fastforce
  let ?q = "(queue_at p1 i)\<lparr>tq_params := ?pa, tq_profile := prof, tq_meter := meter\<rparr>"
  have res: "(err, p') = (if e1 \<noteq> 0 then (- e1, hmap_remove_at p1 i)
      else if e2 \<noteq> 0 then (- e2, hmap_remove_at p1 i) else (0, set_queue_at p1 i ?q))"
    using assms(2) t e1 e2 q(4)
    by (auto simp: trtcm_policer_qos_queue_construct_def Let_def split: if_splits)
  have "trtcm_ok E p' \<and> tr_params p' = tr_params p \<and>
    queue_params p' = (queue_params p)(qid := if err = 0 then Some ?pa else None)"
  proof (cases "err = 0")
    case True
    then have p': "p' = set_queue_at p1 i ?q" using res by (auto split: if_splits)
    have q_id: "tq_queue_id ?q = tq_queue_id (queue_at p1 i)" by simp
    have "queue_params p' = (queue_params p)(qid \<mapsto> ?pa)"
      unfolding p' queue_params_update [OF q(1,2) q_id] using q(3,5) by (auto simp: fun_eq_iff)
    then show ?thesis
      using True set_queue_at_map(1) [OF q(1,2) q_id] q(4) by (simp add: p' set_queue_at_def)
  next
    case False
    then have p': "p' = hmap_remove_at p1 i" using res by (auto split: if_splits)
    note rm = hmap_remove_at_map [OF q(1,2)]
    have "queue_params p' = (queue_params p)(qid := None)"
      unfolding p' queue_params_def rm(2) using q(3) q(5)
      by (auto simp: fun_eq_iff queue_params_def)
    then show ?thesis
      using False rm(1) q(4) by (simp add: p' hmap_remove_at_def)
  qed
  then show "trtcm_ok E p'" "tr_params p' = tr_params p"
    "queue_params p' = (queue_params p)(qid := if err = 0 then Some ?pa else None)"
    by blast+
qed

lemma trtcm_queue_destruct_law:
  assumes "trtcm_ok E p"
  shows "trtcm_ok E (trtcm_policer_qos_queue_destruct E p qid)"
    and "queue_params (trtcm_policer_qos_queue_destruct E p qid) = (queue_params p)(qid := None)"
proof -
  have "trtcm_ok E (trtcm_policer_qos_queue_destruct E p qid) \<and>
    queue_params (trtcm_policer_qos_queue_destruct E p qid) = (queue_params p)(qid := None)"
  proof (cases "trtcm_policer_qos_find_queue E p qid")
    case None
    then have "queue_map p qid = None" using find_queue_None_iff [OF assms] by simp
    then show ?thesis
      using None assms
      by (auto simp: trtcm_policer_qos_queue_destruct_def queue_params_def fun_eq_iff)
  next
    case (Some i)
    note q = find_queue_SomeD [OF assms Some]
    show ?thesis
      using Some hmap_remove_at_map [OF assms q(1)] q(2)
      by (auto simp: trtcm_policer_qos_queue_destruct_def queue_params_def fun_eq_iff)
  qed
  then show "trtcm_ok E (trtcm_policer_qos_queue_destruct E p qid)"
    "queue_params (trtcm_policer_qos_queue_destruct E p qid) = (queue_params p)(qid := None)"
    by blast+
qed

lemma trtcm_queue_get_law:
  assumes "trtcm_ok E p"
  shows "trtcm_policer_qos_queue_get E d qid p =
           (case queue_params p qid of None \<Rightarrow> (EINVAL, d)
            | Some pa \<Rightarrow> (0, trtcm_policer_param_to_detail pa d))"
proof (cases "trtcm_policer_qos_find_queue E p qid")
  case None
  moreover from None have "queue_map p qid = None" using find_queue_None_iff [OF assms] by simp
  ultimately show ?thesis
    by (simp add: trtcm_policer_qos_queue_get_def queue_params_def)
next
  case (Some i)
  then show ?thesis using find_queue_SomeD [OF assms Some]
    by (simp add: trtcm_policer_qos_queue_get_def queue_params_def)
qed

lemma trtcm_dump_law:
  assumes "trtcm_ok E p"
  shows "\<exists>ids. trtcm_policer_qos_queue_dump_state_init p =
           (0, \<lparr>ds_queues = ids, ds_cur_queue = 0, ds_n_queues = length ids\<rparr>) \<and>
         distinct ids \<and> set ids = dom (queue_params p)"
proof (intro exI conjI)
  let ?ids = "map (\<lambda>(h, q). tq_queue_id q) (tr_queues p)"
  have ids: "?ids = map fst (queue_alist p)"
    by (simp add: queue_alist_def case_prod_beta)
  show "trtcm_policer_qos_queue_dump_state_init p =
      (0, \<lparr>ds_queues = ?ids, ds_cur_queue = 0, ds_n_queues = length ?ids\<rparr>)"
    by (simp add: trtcm_policer_qos_queue_dump_state_init_def)
  show "distinct ?ids" using assms by (simp add: ids trtcm_ok_def)
  have "dom (queue_params p) = dom (map_of (queue_alist p))"
    by (auto simp: queue_params_def queue_map_def)
  then show "set ?ids = dom (queue_params p)"
    by (simp only: ids dom_map_of_conv_image_fst set_map)
qed


interpretation trtcm: qos_with_queues "trtcm_ops E" trtcm_policer_ops "trtcm_valid E"
    conf_queue_params "queue_params_wanted E"
  for E :: "('pr, 'mt) meter_env"
proof unfold_locales
  fix c :: "('pr, 'mt) qos_conf" and n pkts t steal
  assume "trtcm_valid E c" and n: "n \<le> length (pkts :: dpkt list)"
  then obtain p where c: "c = Trtcm_Conf p" "trtcm_ok E p" by (elim trtcm_validE)
  obtain p' r where "trtcm_policer_run E p t pkts n steal = Inr (p', r)"
    "policed pkts n steal r" "trtcm_ok E p'" "tr_params p' = tr_params p"
    using trtcm_run_policed [OF c(2) n] by blast
  then show "\<exists>c' res. qos_run (trtcm_ops E) c t pkts n steal = Inr (c', res) \<and>
      policed pkts n steal res \<and> trtcm_valid E c' \<and>
      (\<forall>d. qos_is_equal (trtcm_ops E) c' d = qos_is_equal (trtcm_ops E) c d)"
    by (intro exI [of _ "Trtcm_Conf p'"] exI [of _ r])
       (simp add: trtcm_ops_def c trtcm_valid_def trtcm_policer_qos_is_equal_def)
next
  fix c :: "('pr, 'mt) qos_conf" and u t d i
  assume "trtcm_valid E c"
  then obtain p where c: "c = Trtcm_Conf p" "trtcm_ok E p" by (elim trtcm_validE)
  obtain err p' where r: "trtcm_policer_qos_queue_construct E u t d i p = (err, p')" by fastforce
  show "\<exists>f err c'. qos_queue_construct (trtcm_ops E) = Some f \<and> f u t d i c = Inr (err, c') \<and>
      trtcm_valid E c' \<and> conf_queue_params c' = (conf_queue_params c)(i :=
        if err = 0 then Some (queue_params_wanted E c i d) else None)"
    using trtcm_queue_construct_law [OF c(2) r] r
    by (auto simp: trtcm_ops_def c trtcm_valid_def conf_queue_params_def queue_params_wanted_def)
next
  fix c :: "('pr, 'mt) qos_conf" and d i
  assume "trtcm_valid E c"
  then obtain p where c: "c = Trtcm_Conf p" "trtcm_ok E p" by (elim trtcm_validE)
  show "\<exists>f c'. qos_queue_destruct (trtcm_ops E) = Some f \<and> f c i = Inr c' \<and>
      trtcm_valid E c' \<and> conf_queue_params c' = (conf_queue_params c)(i := None)"
    using trtcm_queue_destruct_law [OF c(2)]
    by (simp add: trtcm_ops_def c trtcm_valid_def conf_queue_params_def)
  show "\<exists>f. qos_queue_get (trtcm_ops E) = Some f \<and> f d i c =
      Inr (case conf_queue_params c i of None \<Rightarrow> (EINVAL, d)
           | Some p \<Rightarrow> (0, trtcm_policer_param_to_detail p d))"
    by (simp add: trtcm_ops_def c conf_queue_params_def trtcm_queue_get_law [OF c(2)])
  show "\<exists>f ids. qos_queue_dump_state_init (trtcm_ops E) = Some f \<and> f c =
      Inr (0, \<lparr>ds_queues = ids, ds_cur_queue = 0, ds_n_queues = length ids\<rparr>) \<and>
      distinct ids \<and> set ids = dom (conf_queue_params c)"
    using trtcm_dump_law [OF c(2)]
    by (auto simp: trtcm_ops_def c conf_queue_params_def)
qed (auto simp: trtcm_ops_def trtcm_valid_def trtcm_policer_qos_construct_def trtcm_ok_def
      trtcm_policer_qos_is_equal_def as_trtcm_def Let_def queue_alist_def
      split: prod.splits if_splits qos_conf.splits)

section \<open>A port with any of the two policies\<close>

definition conf_valid :: "('pr, 'mt) meter_env \<Rightarrow> ('pr, 'mt) qos_conf \<Rightarrow> bool" where
  "conf_valid E c \<longleftrightarrow>
     (case conf_ops c of egress_policer_ops \<Rightarrow> egress_valid c | trtcm_policer_ops \<Rightarrow> trtcm_valid E c)"

lemma conf_valid_of:
  "conf_ops c = egress_policer_ops \<Longrightarrow> conf_valid E c \<longleftrightarrow> egress_valid c"
  "conf_ops c = trtcm_policer_ops \<Longrightarrow> conf_valid E c \<longleftrightarrow> trtcm_valid E c"
  by (simp_all add: conf_valid_def)

lemma qos_run_result:
  assumes "\<And>c. conf = Some c \<Longrightarrow> conf_valid E c" and "n \<le> length pkts"
  shows "\<exists>conf' pkts' k freed. netdev_dpdk_qos_run E conf t pkts n True
             = Inr (conf', pkts', k, freed) \<and>
           k \<le> n \<and> subseq (take k pkts') (take n pkts) \<and>
           mset (take k pkts') + mset freed = mset (take n pkts) \<and>
           length pkts' = length pkts \<and> drop n pkts' = drop n pkts \<and>
           (case conf of
              None \<Rightarrow> conf' = None \<and> k = n
            | Some c \<Rightarrow> \<exists>c'. conf' = Some c' \<and> conf_ops c' = conf_ops c \<and> conf_valid E c' \<and>
                (\<forall>d. qos_is_equal (ops_table E (conf_ops c)) c' d =
                     qos_is_equal (ops_table E (conf_ops c)) c d))"
proof (cases conf)
  case None
  then show ?thesis by (simp add: netdev_dpdk_qos_run_def)
next
  case (Some c)
  obtain c' pkts' k freed where r:
    "netdev_dpdk_qos_run E (Some c) t pkts n True = Inr (Some c', pkts', k, freed)"
    "policed pkts n True (pkts', k, freed)" "conf_ops c' = conf_ops c" "conf_valid E c'"
    "\<forall>d. qos_is_equal (ops_table E (conf_ops c)) c' d = qos_is_equal (ops_table E (conf_ops c)) c d"
  proof (cases "conf_ops c")
    case egress_policer_ops
    then have "egress_valid c" using assms(1) Some conf_valid_of(1) by blast
    from egress.qos_run_policed [OF _ this assms(2), of E E t True] egress_policer_ops
    show thesis using that conf_valid_of(1) egress.valid_ops by fastforce
  next
    case trtcm_policer_ops
    then have "trtcm_valid E c" using assms(1) Some conf_valid_of(2) by blast
    from trtcm.qos_run_policed [OF _ this assms(2), of E t True] trtcm_policer_ops
    show thesis using that conf_valid_of(2) trtcm.valid_ops by fastforce
  qed
  then show ?thesis
    using policed_count_le [OF r(2) assms(2)] Some
    by (auto simp: policed_def)
qed

end
