(* ===== verification/Dpdk_Qos_Properties.thy ===== *)
theory Dpdk_Qos_Properties
  imports Dpdk_Qos_Laws
begin

text \<open>
  Properties of the quality of service of DPDK ports, obtained from the contract of
  \<open>Dpdk_Qos_Laws\<close>: what setting a type does, what a run of a policer does to a batch, the
  queues as a map, and the round trip of a configuration through its printed details.
\<close>

section \<open>A concrete environment\<close>

text \<open>
  Meters for the witnesses: a meter is the number of bytes it has left; a profile without a
  rate is refused.
\<close>

definition byte_check :: "nat \<Rightarrow> nat \<Rightarrow> u64 \<Rightarrow> u32 \<Rightarrow> nat \<times> rte_color" where
  "byte_check m pr t len =
     (if unat len \<le> m then (m - unat len, COLOR_GREEN) else (m, COLOR_RED))"

definition byte_env :: "(nat, nat) meter_env" where
  "byte_env = \<lparr>srtcm_profile_config = (\<lambda>p. if sp_cir p = 0 then (-22, 0) else (0, unat (sp_cbs p))),
     srtcm_config = (\<lambda>pr. (0, pr)), srtcm_color_blind_check = byte_check,
     trtcm_profile_config = (\<lambda>p. if tp_cir p = 0 then (-22, 0) else (0, unat (tp_cbs p))),
     trtcm_config = (\<lambda>pr. (0, pr)), trtcm_color_blind_check = byte_check,
     trtcm_color_aware_check = (\<lambda>m pr t len c. if c = COLOR_RED then (m, COLOR_RED)
                                 else byte_check m pr t len),
     hash_2words = (\<lambda>a b. a * 3),
     smap_get_ullong = (\<lambda>m k d. case map_of m k of None \<Rightarrow> d | Some s \<Rightarrow> strtoull10 s)\<rparr>"

definition sample_mbuf :: tx_mbuf where
  "sample_mbuf = \<lparr>mb_pkt_len = 0, ol_tcp_seg = False, ol_l4_mask = False, ol_tcp_cksum = False,
     ol_ipv4 = False, ol_ip_cksum = False, l2_len = 0, l3_len = 0, l4_len = 0, outer_l2_len = 0,
     outer_l3_len = 0, tso_segsz = 0\<rparr>"

definition sample_pkt :: "nat \<Rightarrow> u32 \<Rightarrow> dpkt" where
  "sample_pkt a len = \<lparr>pk_addr = a, pk_dpdk = True, pk_priority = 7, pk_multicast = False,
     pk_size = len, pk_eth = 100, pk_l3 = 114, pk_l4 = 134, pk_tcp_offset = 5,
     pk_mbuf = sample_mbuf\<lparr>mb_pkt_len := len\<rparr>\<rparr>"

definition sample_params :: trtcm_params where
  "sample_params = \<lparr>tp_cir = 10, tp_eir = 0, tp_cbs = 100, tp_ebs = 0\<rparr>"

definition sample_queue :: "u32 \<Rightarrow> (nat, nat) trtcm_policer_queue" where
  "sample_queue i = \<lparr>tq_queue_id = i, tq_params = sample_params, tq_profile = 0, tq_meter = 100,
     tq_stats = zero_stats\<rparr>"

definition sample_trtcm :: "(nat, nat) trtcm_policer" where
  "sample_trtcm = \<lparr>tr_params = sample_params, tr_profile = 0, tr_meter = 150,
     tr_stats = zero_stats, tr_queues = [(0, sample_queue 0)]\<rparr>"

lemma sample_trtcm_ok: "trtcm_ok byte_env sample_trtcm"
  by (simp add: trtcm_ok_def sample_trtcm_def queue_alist_def sample_queue_def byte_env_def)

section \<open>Setting a type\<close>

lemma set_qos_of_impl:
  assumes impl: "qos_implementation (ops_table E me) me valid"
    and name: "qos_lookup_name E ty = Some me"
    and old: "\<And>c. conf = Some c \<Longrightarrow> conf_ops c = me \<Longrightarrow> valid c"
  shows "\<exists>err new ds. netdev_dpdk_set_qos E conf ty d = Inr (err, new, ds) \<and>
           (err = 0 \<longleftrightarrow> new \<noteq> None) \<and>
           (\<forall>c. new = Some c \<longrightarrow> conf_ops c = me \<and> valid c \<and>
              netdev_dpdk_set_qos E (Some c) ty d = Inr (0, Some c, [])) \<and>
           (if ds = [] then conf = None \<or> new = conf else \<exists>c. conf = Some c \<and> ds = [c])"
proof -
  have "\<exists>err new ds. netdev_dpdk_set_qos E conf ty d = Inr (err, new, ds) \<and>
      (err = 0 \<longleftrightarrow> new \<noteq> None) \<and>
      (\<forall>c. new = Some c \<longrightarrow> valid c \<and> qos_is_equal (ops_table E me) c d = Inr True) \<and>
      (if ds = [] then conf = None \<or> new = conf else \<exists>c. conf = Some c \<and> ds = [c])"
    by (rule qos_implementation.set_qos_outcome [OF impl refl name]) (rule old)
  then obtain err new ds where r: "netdev_dpdk_set_qos E conf ty d = Inr (err, new, ds)"
    "err = 0 \<longleftrightarrow> new \<noteq> None"
    "\<forall>c. new = Some c \<longrightarrow> valid c \<and> qos_is_equal (ops_table E me) c d = Inr True"
    "if ds = [] then conf = None \<or> new = conf else \<exists>c. conf = Some c \<and> ds = [c]"
    by (elim exE conjE) (rule that)
  moreover have "conf_ops c = me \<and> netdev_dpdk_set_qos E (Some c) ty d = Inr (0, Some c, [])"
    if new: "new = Some c" for c
  proof
    have c: "valid c" "qos_is_equal (ops_table E me) c d = Inr True" using r(3) new by blast+
    show "conf_ops c = me" by (rule qos_implementation.valid_ops [OF impl c(1)])
    show "netdev_dpdk_set_qos E (Some c) ty d = Inr (0, Some c, [])"
      by (rule qos_implementation.set_qos_again [OF impl refl name c])
  qed
  ultimately show ?thesis by (intro exI conjI) blast+
qed

text \<open>Setting a quality of service type.  A known type gets a configuration exactly when
  the result is 0, and setting the same type and details again then changes nothing; an
  unknown type is \<open>EOPNOTSUPP\<close> (the empty one 0) and leaves the port with none.  In every
  case in which the configuration is not kept, the old one is destroyed, so a failing request
  removes the policy that was in force.\<close>

theorem set_qos_contract:
  assumes "\<forall>c. conf = Some c \<longrightarrow> conf_valid E c"
  shows "\<exists>err new ds. netdev_dpdk_set_qos E conf ty d = Inr (err, new, ds) \<and>
           (case qos_lookup_name E ty of
              None \<Rightarrow> new = None \<and> err = (if ty = [] then 0 else EOPNOTSUPP)
            | Some me \<Rightarrow> (err = 0 \<longleftrightarrow> new \<noteq> None) \<and>
                (\<forall>c. new = Some c \<longrightarrow> conf_ops c = me \<and> conf_valid E c \<and>
                   netdev_dpdk_set_qos E (Some c) ty d = Inr (0, Some c, []))) \<and>
           (if ds = [] then conf = None \<or> new = conf else \<exists>c. conf = Some c \<and> ds = [c])"
proof (cases "qos_lookup_name E ty")
  case None
  then show ?thesis by (cases conf) (auto simp: netdev_dpdk_set_qos_def)
next
  case (Some me)
  have "\<exists>valid. qos_implementation (ops_table E me) me valid \<and>
          (\<forall>c. conf_ops c = me \<longrightarrow> conf_valid E c = valid c)"
  proof (cases me)
    case egress_policer_ops
    then show ?thesis using egress.qos_implementation_axioms conf_valid_of(1)
      by (intro exI [of _ egress_valid]) auto
  next
    case trtcm_policer_ops
    then show ?thesis using trtcm.qos_implementation_axioms conf_valid_of(2)
      by (intro exI [of _ "trtcm_valid E"]) auto
  qed
  then obtain valid where impl: "qos_implementation (ops_table E me) me valid"
    and v: "\<And>c. conf_ops c = me \<Longrightarrow> conf_valid E c = valid c"
    by blast
  have "\<And>c. conf = Some c \<Longrightarrow> conf_ops c = me \<Longrightarrow> valid c" using assms v by blast
  from set_qos_of_impl [OF impl Some this, where d = d] show ?thesis
    unfolding Some option.simps using v by fast
qed

theorem set_qos_contract_witness:
  "\<exists>new ds. netdev_dpdk_set_qos byte_env (Some (Trtcm_Conf sample_trtcm)) ''egress-policer''
     [(''cbs'', ''9'')] = Inr (22, new, ds) \<and> new = None \<and> ds = [Trtcm_Conf sample_trtcm]"
proof -
  have "\<forall>c. Some (Trtcm_Conf sample_trtcm) = Some c \<longrightarrow> conf_valid byte_env c"
    using sample_trtcm_ok by (simp add: conf_valid_def trtcm_valid_def)
  from set_qos_contract [OF this, of "''egress-policer''" "[(''cbs'', ''9'')]"]
  show ?thesis
    by (auto simp: netdev_dpdk_set_qos_def qos_lookup_name_def qos_confs_def egress_ops_def
        egress_policer_qos_construct_def egress_policer_details_to_param_def byte_env_def)
qed

section \<open>Policing\<close>

text \<open>C38: on the transmit path, a policer leaves at the front of the array, in their order,
  the packets it lets through, reports how many, and releases every other packet exactly
  once; the rest of the array and the configured parameters are not touched.\<close>

theorem qos_run_conserves_packets:
  assumes "\<forall>c. conf = Some c \<longrightarrow> conf_valid E c" and "n \<le> length pkts"
  shows "\<exists>conf' pkts' k freed. netdev_dpdk_qos_run E conf t pkts n True
             = Inr (conf', pkts', k, freed) \<and>
           k \<le> n \<and> subseq (take k pkts') (take n pkts) \<and>
           mset (take k pkts') + mset freed = mset (take n pkts) \<and>
           length pkts' = length pkts \<and> drop n pkts' = drop n pkts \<and>
           (case conf of
              None \<Rightarrow> conf' = None \<and> k = n
            | Some c \<Rightarrow> \<exists>c'. conf' = Some c' \<and> conf_ops c' = conf_ops c \<and> conf_valid E c' \<and>
                (\<forall>d. qos_is_equal (ops_table E (conf_ops c)) c' d =
                     qos_is_equal (ops_table E (conf_ops c)) c d))"
  by (rule qos_run_result [OF _ assms(2)]) (use assms(1) in blast)

theorem qos_run_conserves_packets_witness:
  "\<exists>conf' pkts' k freed. netdev_dpdk_qos_run byte_env (Some (Trtcm_Conf sample_trtcm)) 5
       [sample_pkt 1 74, sample_pkt 2 94, sample_pkt 3 34] 3 True = Inr (conf', pkts', k, freed) \<and>
     mset (take k pkts') + mset freed =
       mset (take 3 [sample_pkt 1 74, sample_pkt 2 94, sample_pkt 3 34])"
proof -
  have "\<forall>c. Some (Trtcm_Conf sample_trtcm) = Some c \<longrightarrow> conf_valid byte_env c"
    using sample_trtcm_ok by (simp add: conf_valid_def trtcm_valid_def)
  from qos_run_conserves_packets [OF this, of 3 "[sample_pkt 1 74, sample_pkt 2 94, sample_pkt 3 34]" 5]
  show ?thesis by auto
qed


section \<open>Counters of trtcm-policer\<close>

lemma trtcm_queue_for_params:
  "trtcm_queue_for p x \<longleftrightarrow> queue_params p (pk_priority x) \<noteq> None \<or> queue_params p 0 \<noteq> None"
  by (auto simp: trtcm_queue_for_def queue_params_def)

lemma trtcm_police_counts:
  assumes "trtcm_ok E p"
    and "police (trtcm_policer_run_single_packet E t) p ps = (p', kept, dropped)"
  shows "qs_tx_packets (tr_stats p') = qs_tx_packets (tr_stats p) + of_nat (length kept) \<and>
    qs_tx_bytes (tr_stats p') = qs_tx_bytes (tr_stats p) +
      (\<Sum>x\<leftarrow>kept. ucast (pkt_len x - sizeof_rte_ether_hdr)) \<and>
    qs_tx_errors (tr_stats p') = qs_tx_errors (tr_stats p) +
      of_nat (length (filter (trtcm_queue_for p) dropped)) \<and>
    (\<forall>x\<in>set kept. trtcm_queue_for p x)"
  using assms
proof (induction ps arbitrary: p kept dropped)
  case Nil
  then show ?case by simp
next
  case (Cons x ps)
  obtain p1 keep x' where single: "trtcm_policer_run_single_packet E t p x = (p1, keep, x')"
    by (cases "trtcm_policer_run_single_packet E t p x")
  have x': "x' = x" using single pure_trtcm unfolding pure_check_def by (metis snd_conv)
  obtain k d where rest: "police (trtcm_policer_run_single_packet E t) p1 ps = (p', k, d)"
    and kd: "kept = (if keep then x # k else k)" "dropped = (if keep then d else x # d)"
    using Cons.prems(2) single x' by (auto split: prod.splits if_splits)
  note one = trtcm_run_single [OF Cons.prems(1) single]
  have same: "trtcm_queue_for p1 = trtcm_queue_for p"
    by (rule ext) (simp add: trtcm_queue_for_params one(3))
  show ?case
    using Cons.IH [OF one(1) rest] one(4) unfolding kd same
    by (cases keep; cases "trtcm_queue_for p x") (auto simp: count_packet_def algebra_simps)
qed

text \<open>The port's counters after a run: every packet let through is counted as sent, with
  its length less the Ethernet header; of the packets dropped only those for which a queue
  (their own or queue 0) exists are counted as errors.\<close>

theorem trtcm_counters:
  assumes "trtcm_ok E p" and "n \<le> length pkts"
    and "trtcm_policer_run E p t pkts n True = Inr (p', pkts', k, freed)"
  shows "qs_tx_packets (tr_stats p') = qs_tx_packets (tr_stats p) + of_nat k \<and>
    qs_tx_bytes (tr_stats p') = qs_tx_bytes (tr_stats p) +
      (\<Sum>x\<leftarrow>take k pkts'. ucast (pkt_len x - sizeof_rte_ether_hdr)) \<and>
    qs_tx_errors (tr_stats p') = qs_tx_errors (tr_stats p) +
      of_nat (length (filter (trtcm_queue_for p) freed)) \<and>
    (\<forall>x\<in>set (take k pkts'). trtcm_queue_for p x)"
proof -
  obtain q kept dropped where run:
    "police (trtcm_policer_run_single_packet E t) p (take n pkts) = (q, kept, dropped)"
    by (cases "police (trtcm_policer_run_single_packet E t) p (take n pkts)")
  from compact_police [OF assms(2) run, of True] assms(3)
  have "p' = q" "take k pkts' = kept" "k = length kept" "freed = dropped"
    by (auto simp: trtcm_policer_run_def)
  then show ?thesis using trtcm_police_counts [OF assms(1) run] by simp
qed

theorem trtcm_counters_witness:
  "qs_tx_errors (tr_stats (fst (projr (trtcm_policer_run byte_env sample_trtcm 5
       [sample_pkt 1 74, sample_pkt 2 94, sample_pkt 3 34] 3 True)))) = 1"
proof -
  have "case trtcm_policer_run byte_env sample_trtcm 5 [sample_pkt 1 74, sample_pkt 2 94,
      sample_pkt 3 34] 3 True of Inr (p', pkts', k, freed) \<Rightarrow> freed = [sample_pkt 2 94]
      | Inl _ \<Rightarrow> False"
    by code_simp
  then obtain p' pkts' k freed where r: "trtcm_policer_run byte_env sample_trtcm 5
      [sample_pkt 1 74, sample_pkt 2 94, sample_pkt 3 34] 3 True = Inr (p', pkts', k, freed)"
    and f: "freed = [sample_pkt 2 94]"
    by (auto split: sum.splits)
  have "trtcm_queue_for sample_trtcm x" for x
    by (simp add: trtcm_queue_for_def queue_map_def queue_alist_def sample_trtcm_def sample_queue_def)
  then show ?thesis
    using trtcm_counters [OF sample_trtcm_ok _ r] r f
    by (simp add: sample_trtcm_def zero_stats_def)
qed

section \<open>Queues\<close>

text \<open>The queues of a trtcm port are a map from queue numbers to meter parameters, and the
  netdev operations are the operations of a map: setting a queue binds its number to the
  parameters given (those of the port for queue 0 without details), deleting it removes the
  binding and reading it is a lookup that returns \<open>EINVAL\<close> for an unbound number.  When the
  meter cannot be configured the queue is unbound, even if it was configured before.\<close>

theorem queue_operations_are_a_map:
  assumes "trtcm_valid E c"
  shows "(\<exists>err c'. netdev_dpdk_set_queue E u t (Some c) i d = Inr (err, Some c') \<and>
             trtcm_valid E c' \<and> conf_queue_params c' = (conf_queue_params c)
               (i := if err = 0 then Some (queue_params_wanted E c i d) else None)) \<and>
         (\<exists>c'. netdev_dpdk_delete_queue E (Some c) i = Inr (0, Some c') \<and> trtcm_valid E c' \<and>
             conf_queue_params c' = (conf_queue_params c)(i := None)) \<and>
         netdev_dpdk_get_queue E (Some c) i d =
           Inr (case conf_queue_params c i of
                  None \<Rightarrow> (EINVAL, d) | Some pa \<Rightarrow> (0, trtcm_policer_param_to_detail pa d))"
  by (intro conjI trtcm.set_queue_is_update [OF ops_table.simps(2) assms]
      trtcm.delete_queue_is_delete [OF ops_table.simps(2) assms]
      trtcm.get_queue_is_lookup [OF ops_table.simps(2) assms])

theorem queue_operations_are_a_map_witness:
  "\<exists>err c'. netdev_dpdk_set_queue byte_env (sample_queue 9) 50 (Some (Trtcm_Conf sample_trtcm)) 0
       [(''cbs'', ''5'')] = Inr (err, Some c') \<and> err = 22 \<and> conf_queue_params c' 0 = None"
proof -
  have v: "trtcm_valid byte_env (Trtcm_Conf sample_trtcm)"
    using sample_trtcm_ok by (simp add: trtcm_valid_def)
  obtain err c' where r: "netdev_dpdk_set_queue byte_env (sample_queue 9) 50
      (Some (Trtcm_Conf sample_trtcm)) 0 [(''cbs'', ''5'')] = Inr (err, Some c')"
    "conf_queue_params c' = (conf_queue_params (Trtcm_Conf sample_trtcm))
        (0 := if err = 0 then Some (queue_params_wanted byte_env (Trtcm_Conf sample_trtcm) 0
                [(''cbs'', ''5'')]) else None)"
    using queue_operations_are_a_map [OF v, of "sample_queue 9" 50 0 "[(''cbs'', ''5'')]"] by blast
  then have "err = 22"
    by (simp add: netdev_dpdk_set_queue_def trtcm_ops_def trtcm_policer_qos_queue_construct_def
        trtcm_policer_details_to_param_def byte_env_def split: option.splits prod.splits)
  then show ?thesis using r by simp
qed

text \<open>The calls of a client that dumps the queues.\<close>

primrec dump_calls ::
  "('pr, 'mt) meter_env \<Rightarrow> ('pr, 'mt) qos_conf option \<Rightarrow> nat \<Rightarrow> netdev_dpdk_queue_state
   \<Rightarrow> (int \<times> u32 option \<times> smap) list c_result" where
  "dump_calls E conf 0 s = Inr []"
| "dump_calls E conf (Suc n) s =
     bindr (netdev_dpdk_queue_dump_next E conf s None []) (\<lambda>(err, s', idp, d).
     bindr (dump_calls E conf n s') (\<lambda>rs. Inr ((err, idp, d) # rs)))"

lemma dump_calls_from:
  assumes "trtcm_valid E c" and "set ids = dom (conf_queue_params c)" and "k + n = length ids"
  shows "dump_calls E (Some c) (Suc n)
             \<lparr>ds_queues = ids, ds_cur_queue = k, ds_n_queues = length ids\<rparr> =
           Inr (map (\<lambda>q. (0, Some q, trtcm_policer_param_to_detail
                   (the (conf_queue_params c q)) [])) (drop k ids) @ [(EOF, None, [])])"
  using assms(3)
proof (induction n arbitrary: k)
  case 0
  then show ?case using trtcm.dump_next_end [of E "Some c" ids None "[]"] by simp
next
  case (Suc n)
  then have k: "k < length ids" by simp
  then have "ids ! k \<in> dom (conf_queue_params c)" using assms(2) nth_mem by blast
  then obtain pa where pa: "conf_queue_params c (ids ! k) = Some pa" by blast
  have "Suc k + n = length ids" using Suc.prems by simp
  note rest = Suc.IH [OF this]
  show ?case
    unfolding dump_calls.simps(2) [of _ _ "Suc n"]
    using trtcm.dump_next_step [OF _ assms(1) k, of E None "[]"] rest
    by (simp add: pa Cons_nth_drop_Suc [OF k, symmetric] del: dump_calls.simps)
qed

text \<open>A dump of the queues that nothing disturbs returns every queue of the port exactly
  once, with its parameters, and then \<open>EOF\<close>.\<close>

theorem queue_dump_complete:
  assumes "trtcm_valid E c"
  shows "\<exists>ids s. netdev_dpdk_queue_dump_start E (Some c) = Inr (0, Some s) \<and>
           distinct ids \<and> set ids = dom (conf_queue_params c) \<and>
           dump_calls E (Some c) (length ids + 1) s =
             Inr (map (\<lambda>q. (0, Some q, trtcm_policer_param_to_detail
                   (the (conf_queue_params c q)) [])) ids @ [(EOF, None, [])])"
proof -
  obtain ids where ids: "netdev_dpdk_queue_dump_start E (Some c) = Inr (0, Some
      \<lparr>ds_queues = ids, ds_cur_queue = 0, ds_n_queues = length ids\<rparr>)"
    "distinct ids" "set ids = dom (conf_queue_params c)"
    using trtcm.dump_start_lists_queues [OF _ assms, of E] by auto
  with dump_calls_from [OF assms ids(3), of 0 "length ids"] show ?thesis by auto
qed

theorem queue_dump_complete_witness:
  "\<exists>ids s. netdev_dpdk_queue_dump_start byte_env (Some (Trtcm_Conf sample_trtcm)) = Inr (0, Some s) \<and>
     set ids = {0} \<and> dump_calls byte_env (Some (Trtcm_Conf sample_trtcm)) (length ids + 1) s =
       Inr (map (\<lambda>q. (0, Some q, trtcm_policer_param_to_detail
         (the (conf_queue_params (Trtcm_Conf sample_trtcm) q)) [])) ids @ [(EOF, None, [])])"
proof -
  have v: "trtcm_valid byte_env (Trtcm_Conf sample_trtcm)"
    using sample_trtcm_ok by (simp add: trtcm_valid_def)
  have "dom (conf_queue_params (Trtcm_Conf sample_trtcm)) = {0}"
    by (auto simp: conf_queue_params_def queue_params_def queue_map_def queue_alist_def
        sample_trtcm_def sample_queue_def split: if_splits)
  then show ?thesis using queue_dump_complete [OF v] by auto
qed

text \<open>Reading the statistics of a queue that does not exist reports success and leaves the
  caller's statistics as they were: the \<open>EINVAL\<close> of the implementation is dropped.\<close>

theorem missing_queue_stats_reported_as_success:
  assumes "trtcm_ok E p" and "queue_params p i = None"
  shows "trtcm_policer_qos_queue_get_stats E p i s = (EINVAL, s) \<and>
         netdev_dpdk_get_queue_stats E (Some (Trtcm_Conf p)) i s = Inr (0, s)"
proof -
  have "trtcm_policer_qos_find_queue E p i = None"
    using find_queue_None_iff [OF assms(1)] assms(2) by (simp add: queue_params_def)
  then show ?thesis
    by (simp add: trtcm_policer_qos_queue_get_stats_def netdev_dpdk_get_queue_stats_def trtcm_ops_def)
qed

theorem missing_queue_stats_reported_as_success_witness:
  "netdev_dpdk_get_queue_stats byte_env (Some (Trtcm_Conf sample_trtcm)) 3
     (zero_stats\<lparr>qs_tx_bytes := 77\<rparr>) = Inr (0, zero_stats\<lparr>qs_tx_bytes := 77\<rparr>)"
  using missing_queue_stats_reported_as_success [OF sample_trtcm_ok, of 3]
  by (simp add: queue_params_def queue_map_def queue_alist_def sample_trtcm_def sample_queue_def)

section \<open>Details\<close>

text \<open>Writing back the type and the details that were read from a port keeps its
  configuration, if \<open>smap_get_ullong\<close> reads the numbers that are printed.\<close>

theorem qos_details_roundtrip:
  assumes smap: "\<And>m k w d. map_of m k = Some (PRIu64 w) \<Longrightarrow> smap_get_ullong E m k d = w"
    and "conf_valid E c"
  shows "\<exists>ty details. netdev_dpdk_get_qos E (Some c) [] = Inr (0, ty, details) \<and>
           netdev_dpdk_set_qos E (Some c) ty details = Inr (0, Some c, [])"
proof (cases c)
  case (Egress_Conf p)
  then have "sp_ebs (ep_params p) = 0"
    using assms(2) by (simp add: conf_valid_def egress_valid_def)
  then show ?thesis
    by (simp add: Egress_Conf netdev_dpdk_get_qos_def egress_ops_def egress_policer_qos_get_def
        netdev_dpdk_set_qos_def qos_lookup_name_def qos_confs_def egress_policer_qos_is_equal_def
        egress_policer_details_to_param_def smap)
next
  case (Trtcm_Conf p)
  then show ?thesis
    by (simp add: netdev_dpdk_get_qos_def egress_ops_def trtcm_ops_def trtcm_policer_qos_get_def
        netdev_dpdk_set_qos_def qos_lookup_name_def qos_confs_def trtcm_policer_qos_is_equal_def
        trtcm_policer_details_to_param_def trtcm_policer_param_to_detail_def smap)
qed

theorem qos_details_roundtrip_witness:
  "\<exists>ty details. netdev_dpdk_get_qos byte_env (Some (Trtcm_Conf sample_trtcm)) [] = Inr (0, ty, details) \<and>
     netdev_dpdk_set_qos byte_env (Some (Trtcm_Conf sample_trtcm)) ty details
       = Inr (0, Some (Trtcm_Conf sample_trtcm), [])"
  by (rule qos_details_roundtrip)
     (use sample_trtcm_ok in \<open>auto simp: byte_env_def conf_valid_def trtcm_valid_def\<close>)

end
