(* ===== verification/Dpdk_Tx.thy ===== *)
theory Dpdk_Tx
  imports Dpdk_Qos_Laws
begin

text \<open>
  The transmit path of DPDK ports (\<open>netdev-dpdk.c\<close>): size filter, preparation for hardware
  offload, quality of service, the burst to an Ethernet port and the retries to a vhost
  port, with the counters.  A send returns the new state of the port, the packets the device
  accepted and the packets whose buffers were released, in order.
\<close>

section \<open>State\<close>

record netdev_stats =
  st_rx_packets :: u64
  st_tx_packets :: u64
  st_rx_bytes :: u64
  st_tx_bytes :: u64
  st_rx_errors :: u64
  st_rx_length_errors :: u64
  st_rx_dropped :: u64
  st_tx_dropped :: u64
  st_multicast :: u64
  st_rx_1_to_64 :: u64
  st_rx_65_to_127 :: u64
  st_rx_128_to_255 :: u64
  st_rx_256_to_511 :: u64
  st_rx_512_to_1023 :: u64
  st_rx_1024_to_1522 :: u64
  st_rx_1523_to_max :: u64

record netdev_dpdk_sw_stats =
  tx_retries :: u64
  tx_failure_drops :: u64
  tx_mtu_exceeded_drops :: u64
  tx_qos_drops :: u64
  rx_qos_drops :: u64
  tx_invalid_hwol_drops :: u64

definition zero_sw_stats :: netdev_dpdk_sw_stats where
  "zero_sw_stats = \<lparr>tx_retries = 0, tx_failure_drops = 0, tx_mtu_exceeded_drops = 0,
     tx_qos_drops = 0, rx_qos_drops = 0, tx_invalid_hwol_drops = 0\<rparr>"

record ('pr, 'mt) netdev_dpdk =
  dev_up :: bool
  dev_mtu :: int
  max_packet_len :: int
  dev_stats :: netdev_stats
  dev_sw_stats :: netdev_dpdk_sw_stats
  dev_qos_conf :: "('pr, 'mt) qos_conf option"
  dev_policer :: "('pr, 'mt) ingress_policer option"
  dev_vid :: int
  vhost_reconfigured :: bool
  tx_q_map :: "int list"
  vhost_tx_retries_max :: int

section \<open>Filters of the batch\<close>

definition netdev_dpdk_prep_hwol_packet :: "int \<Rightarrow> dpkt \<Rightarrow> bool \<times> dpkt" where
  "netdev_dpdk_prep_hwol_packet mtu pkt =
     (let m = pk_mbuf pkt;
          m = (if ol_l4_mask m
               then m\<lparr>l2_len := word_of_int (pk_l3 pkt - pk_eth pkt),
                      l3_len := word_of_int (pk_l4 pkt - pk_l3 pkt),
                      outer_l2_len := 0, outer_l3_len := 0\<rparr>
               else m)
      in if ol_tcp_seg m then
           (if pk_l4 pkt = 0 then (False, pkt\<lparr>pk_mbuf := m\<rparr>)
            else
              let m = m\<lparr>l4_len := pk_tcp_offset pkt * 4, ol_tcp_cksum := True,
                        ol_l4_mask := True\<rparr>;
                  m = m\<lparr>tso_segsz := word_of_int (mtu - uint (l3_len m) - uint (l4_len m))\<rparr>;
                  m = (if ol_ipv4 m then m\<lparr>ol_ip_cksum := True\<rparr> else m)
              in (True, pkt\<lparr>pk_mbuf := m\<rparr>))
         else (True, pkt\<lparr>pk_mbuf := m\<rparr>))"

definition netdev_dpdk_prep_hwol_batch ::
  "int \<Rightarrow> dpkt list \<Rightarrow> nat \<Rightarrow> (unit \<times> dpkt list \<times> nat \<times> dpkt list) c_result" where
  "netdev_dpdk_prep_hwol_batch mtu pkts pkt_cnt =
     compact (\<lambda>s p. (s, netdev_dpdk_prep_hwol_packet mtu p)) True () pkts pkt_cnt"

text \<open>\<open>pkt_len\<close> is unsigned, so \<open>max_packet_len\<close> is converted for the comparison.\<close>

definition oversized :: "int \<Rightarrow> dpkt \<Rightarrow> bool" where
  "oversized max_len p \<longleftrightarrow> word_of_int max_len < pkt_len p \<and> \<not> ol_tcp_seg (pk_mbuf p)"

definition netdev_dpdk_filter_packet_len ::
  "int \<Rightarrow> dpkt list \<Rightarrow> nat \<Rightarrow> (unit \<times> dpkt list \<times> nat \<times> dpkt list) c_result" where
  "netdev_dpdk_filter_packet_len max_len pkts pkt_cnt =
     compact (\<lambda>s p. (s, \<not> oversized max_len p, p)) True () pkts pkt_cnt"

section \<open>Sending\<close>

text \<open>
  What the send path takes from outside: whether TSO is enabled, the batch after
  \<open>dpdk_copy_batch_to_mbuf\<close> (only the packets that could be copied), the meters and the time,
  the number of packets \<open>rte_eth_tx_prepare\<close> accepts, and the number the device takes in the
  \<open>k\<close>-th call when it is offered \<open>n\<close>.
\<close>

record ('pr, 'mt) tx_env =
  tso_enabled :: bool
  copy_batch :: "dpkt list \<Rightarrow> dpkt list"
  tx_meters :: "('pr, 'mt) meter_env"
  tx_time :: u64
  tx_prepare :: "nat \<Rightarrow> nat"
  tx_burst :: "nat \<Rightarrow> nat \<Rightarrow> nat"

definition netdev_dpdk_common_send ::
  "('pr, 'mt) tx_env \<Rightarrow> ('pr, 'mt) netdev_dpdk \<Rightarrow> dpkt list
   \<Rightarrow> (('pr, 'mt) netdev_dpdk \<times> netdev_dpdk_sw_stats \<times> dpkt list \<times> nat \<times> dpkt list) c_result"
where
  "netdev_dpdk_common_send T dev batch =
     bindr (arr_get batch 0) (\<lambda>p0.
     let stats = zero_sw_stats;
         pkts = (if pk_dpdk p0 then batch else copy_batch T batch);
         stats = (if pk_dpdk p0 then stats
                  else stats\<lparr>tx_failure_drops := of_nat (length batch) - of_nat (length pkts)\<rparr>)
     in
     bindr (netdev_dpdk_filter_packet_len (max_packet_len dev) pkts (length pkts))
       (\<lambda>(_, pkts1, cnt1, freed1).
     let stats = stats\<lparr>tx_mtu_exceeded_drops := of_nat (length pkts) - of_nat cnt1\<rparr> in
     bindr (if tso_enabled T then netdev_dpdk_prep_hwol_batch (dev_mtu dev) pkts1 cnt1
            else Inr ((), pkts1, cnt1, [])) (\<lambda>(_, pkts2, cnt2, freed2).
     let stats = (if tso_enabled T
                  then stats\<lparr>tx_invalid_hwol_drops := of_nat cnt1 - of_nat cnt2\<rparr> else stats) in
     bindr (netdev_dpdk_qos_run (tx_meters T) (dev_qos_conf dev) (tx_time T) pkts2 cnt2 True)
       (\<lambda>(conf', pkts3, cnt3, freed3).
     let stats = stats\<lparr>tx_qos_drops := of_nat cnt2 - of_nat cnt3\<rparr> in
     Inr (dev\<lparr>dev_qos_conf := conf'\<rparr>, stats, pkts3, cnt3, freed1 @ freed2 @ freed3)))))"

text \<open>The loop of \<open>netdev_dpdk_eth_tx_burst\<close>; \<open>None\<close> is a loop that does not end.\<close>

partial_function (option) tx_loop :: "(nat \<Rightarrow> nat \<Rightarrow> nat) \<Rightarrow> nat \<Rightarrow> nat \<Rightarrow> nat \<Rightarrow> nat option" where
  "tx_loop burst k nb_tx nb_prep =
     (if nb_tx = nb_prep then Some nb_tx
      else if burst k (nb_prep - nb_tx) = 0 then Some nb_tx
      else tx_loop burst (Suc k) (nb_tx + burst k (nb_prep - nb_tx)) nb_prep)"

text \<open>The result: the packets sent, the packets freed and the number not transmitted.\<close>

definition netdev_dpdk_eth_tx_burst ::
  "('pr, 'mt) tx_env \<Rightarrow> dpkt list \<Rightarrow> nat \<Rightarrow> (dpkt list \<times> dpkt list \<times> nat) option" where
  "netdev_dpdk_eth_tx_burst T pkts cnt =
     (let nb_tx_prep = (if tso_enabled T then tx_prepare T cnt else cnt mod 2 ^ 16)
      in case tx_loop (tx_burst T) 0 0 nb_tx_prep of
           None \<Rightarrow> None
         | Some nb_tx \<Rightarrow> Some (take nb_tx pkts, drop nb_tx (take cnt pkts), cnt - nb_tx))"

definition netdev_dpdk_eth_send ::
  "('pr, 'mt) tx_env \<Rightarrow> ('pr, 'mt) netdev_dpdk \<Rightarrow> dpkt list
   \<Rightarrow> (('pr, 'mt) netdev_dpdk \<times> dpkt list \<times> dpkt list) c_result option" where
  "netdev_dpdk_eth_send T dev batch =
     (if \<not> dev_up dev then
        Some (Inr (dev\<lparr>dev_stats := (dev_stats dev)\<lparr>st_tx_dropped :=
                     st_tx_dropped (dev_stats dev) + of_nat (length batch)\<rparr>\<rparr>, [], batch))
      else case netdev_dpdk_common_send T dev batch of
        Inl e \<Rightarrow> Some (Inl e)
      | Inr (dev, add, pkts, cnt, freed) \<Rightarrow>
          (case netdev_dpdk_eth_tx_burst T pkts cnt of
             None \<Rightarrow> None
           | Some (sent, freed', drops) \<Rightarrow>
               let dropped = (length batch - cnt) + drops;
                   sw = dev_sw_stats dev;
                   dev = (if dropped \<noteq> 0 then
                     dev\<lparr>dev_stats := (dev_stats dev)\<lparr>st_tx_dropped :=
                           st_tx_dropped (dev_stats dev) + of_nat dropped\<rparr>,
                         dev_sw_stats := sw
                           \<lparr>tx_failure_drops := tx_failure_drops sw + tx_failure_drops add,
                            tx_mtu_exceeded_drops :=
                              tx_mtu_exceeded_drops sw + tx_mtu_exceeded_drops add,
                            tx_qos_drops := tx_qos_drops sw + tx_qos_drops add,
                            tx_invalid_hwol_drops :=
                              tx_invalid_hwol_drops sw + tx_invalid_hwol_drops add\<rparr>\<rparr>
                     else dev)
               in Some (Inr (dev, sent, freed @ freed'))))"

section \<open>vhost\<close>

text \<open>
  The do-while loop of \<open>netdev_dpdk_vhost_send\<close>: \<open>cnt\<close> packets are left, the \<open>k\<close>-th call of
  \<open>rte_vhost_enqueue_burst\<close> takes some; the limit on retries is read when the first call
  leaves packets.  The result: packets left, \<open>retries\<close>, \<open>max_retries\<close>.
\<close>

partial_function (option) vhost_loop ::
  "(nat \<Rightarrow> nat \<Rightarrow> nat) \<Rightarrow> int \<Rightarrow> nat \<Rightarrow> nat \<Rightarrow> int \<Rightarrow> int \<Rightarrow> (nat \<times> int \<times> int) option" where
  "vhost_loop enq limit k cnt retries max_retries =
     (if enq k cnt = 0 then Some (cnt, retries, max_retries)
      else
        let cnt' = cnt - enq k cnt;
            max_retries' = (if cnt' \<noteq> 0 \<and> retries = 0 then limit else max_retries)
        in if cnt' = 0 then Some (cnt', retries, max_retries')
           else if retries < max_retries'
           then vhost_loop enq limit (Suc k) cnt' (retries + 1) max_retries'
           else Some (cnt', retries + 1, max_retries'))"

definition netdev_dpdk_vhost_update_tx_counters ::
  "('pr, 'mt) netdev_dpdk \<Rightarrow> dpkt list \<Rightarrow> nat \<Rightarrow> netdev_dpdk_sw_stats \<Rightarrow> ('pr, 'mt) netdev_dpdk"
where
  "netdev_dpdk_vhost_update_tx_counters dev packets attempted add =
     (let dropped = tx_mtu_exceeded_drops add + tx_qos_drops add + tx_failure_drops add +
                    tx_invalid_hwol_drops add;
          sent = of_nat attempted - dropped;
          stats = dev_stats dev;
          stats = stats\<lparr>st_tx_packets := st_tx_packets stats + sent,
                        st_tx_dropped := st_tx_dropped stats + dropped,
                        st_tx_bytes := st_tx_bytes stats +
                          (\<Sum>p\<leftarrow>take (unat sent) packets. ucast (pk_size p))\<rparr>;
          sw = dev_sw_stats dev;
          sw = (if dropped \<noteq> 0 \<or> tx_retries add \<noteq> 0 then
                  sw\<lparr>tx_retries := tx_retries sw + tx_retries add,
                     tx_failure_drops := tx_failure_drops sw + tx_failure_drops add,
                     tx_mtu_exceeded_drops := tx_mtu_exceeded_drops sw + tx_mtu_exceeded_drops add,
                     tx_qos_drops := tx_qos_drops sw + tx_qos_drops add,
                     tx_invalid_hwol_drops := tx_invalid_hwol_drops sw + tx_invalid_hwol_drops add\<rparr>
                else sw)
      in dev\<lparr>dev_stats := stats, dev_sw_stats := sw\<rparr>)"

definition VHOST_ENQ_RETRY_MIN :: int where "VHOST_ENQ_RETRY_MIN = 0"

text \<open>The packets handed to the guest are copied, so every buffer is released afterwards.\<close>

definition netdev_dpdk_vhost_send ::
  "('pr, 'mt) tx_env \<Rightarrow> ('pr, 'mt) netdev_dpdk \<Rightarrow> nat \<Rightarrow> dpkt list
   \<Rightarrow> (('pr, 'mt) netdev_dpdk \<times> dpkt list \<times> dpkt list) c_result option" where
  "netdev_dpdk_vhost_send T dev qid batch =
     (if tx_q_map dev = [] then Some (Inl Div_By_Zero)
      else if dev_vid dev < 0 \<or> \<not> vhost_reconfigured dev \<or>
              tx_q_map dev ! (qid mod length (tx_q_map dev)) < 0 \<or> \<not> dev_up dev then
        Some (Inr (dev\<lparr>dev_stats := (dev_stats dev)\<lparr>st_tx_dropped :=
                     st_tx_dropped (dev_stats dev) + of_nat (length batch)\<rparr>\<rparr>, [], batch))
      else case netdev_dpdk_common_send T dev batch of
        Inl e \<Rightarrow> Some (Inl e)
      | Inr (dev, add, pkts, cnt, freed) \<Rightarrow>
          (case vhost_loop (tx_burst T) (vhost_tx_retries_max dev) 0 cnt 0 VHOST_ENQ_RETRY_MIN of
             None \<Rightarrow> None
           | Some (left, retries, max_retries) \<Rightarrow>
               let add = add\<lparr>tx_failure_drops := tx_failure_drops add + of_nat left,
                             tx_retries := word_of_int (min retries max_retries)\<rparr>;
                   dev = netdev_dpdk_vhost_update_tx_counters dev pkts (length batch) add
               in Some (Inr (dev, take (cnt - left) pkts, freed @ take cnt pkts))))"


section \<open>The loops end\<close>

text \<open>The device never takes more than it is offered.\<close>

definition burst_within :: "(nat \<Rightarrow> nat \<Rightarrow> nat) \<Rightarrow> bool" where
  "burst_within burst \<longleftrightarrow> (\<forall>k n. burst k n \<le> n)"

lemma tx_loop_ends:
  assumes "burst_within burst" and "nb_tx \<le> prep"
  shows "\<exists>n. tx_loop burst k nb_tx prep = Some n \<and> nb_tx \<le> n \<and> n \<le> prep"
  using assms(2)
proof (induction "prep - nb_tx" arbitrary: nb_tx k rule: less_induct)
  case less
  let ?r = "burst k (prep - nb_tx)"
  have r: "?r \<le> prep - nb_tx" using assms(1) by (simp add: burst_within_def)
  show ?case
  proof (cases "nb_tx = prep \<or> ?r = 0")
    case True
    then show ?thesis using less.prems by (subst tx_loop.simps) auto
  next
    case False
    then obtain n where "tx_loop burst (Suc k) (nb_tx + ?r) prep = Some n"
      "nb_tx + ?r \<le> n" "n \<le> prep"
      using less.hyps [of "nb_tx + ?r" "Suc k"] less.prems r by fastforce
    then show ?thesis using False by (subst tx_loop.simps) auto
  qed
qed

lemma vhost_loop_ends:
  assumes "burst_within enq"
  shows "\<exists>l r m. vhost_loop enq limit k cnt retries max_retries = Some (l, r, m) \<and> l \<le> cnt"
proof (induction cnt arbitrary: k retries max_retries rule: less_induct)
  case (less cnt)
  have le: "enq k cnt \<le> cnt" using assms by (simp add: burst_within_def)
  show ?case
  proof (cases "enq k cnt = 0")
    case True
    then show ?thesis by (subst vhost_loop.simps) simp
  next
    case False
    let ?m = "if cnt - enq k cnt \<noteq> 0 \<and> retries = 0 then limit else max_retries"
    have lt: "cnt - enq k cnt < cnt" using False le by simp
    obtain l r m where rec: "vhost_loop enq limit (Suc k) (cnt - enq k cnt) (retries + 1) ?m
        = Some (l, r, m)" "l \<le> cnt - enq k cnt"
      using less.IH [OF lt, of "Suc k" "retries + 1" ?m] by blast
    have "vhost_loop enq limit k cnt retries max_retries =
        (if cnt - enq k cnt = 0 then Some (cnt - enq k cnt, retries, ?m)
         else if retries < ?m then Some (l, r, m) else Some (cnt - enq k cnt, retries + 1, ?m))"
      using False rec(1) by (subst vhost_loop.simps) (simp only: Let_def if_False)
    then show ?thesis using rec(2) lt by (auto split: if_splits)
  qed
qed

section \<open>The common part of a send\<close>

lemma filter_check:
  assumes "n \<le> length pkts"
  shows "\<exists>pkts' k freed. netdev_dpdk_filter_packet_len max_len pkts n = Inr ((), pkts', k, freed) \<and>
           k \<le> n \<and> length pkts' = length pkts \<and>
           mset (map pk_addr (take k pkts')) + mset (map pk_addr freed) =
             mset (map pk_addr (take n pkts)) \<and>
           (\<forall>p\<in>set (take k pkts'). p \<in> set (take n pkts) \<and> \<not> oversized max_len p)"
  using compact_key [OF _ assms, of pk_addr "\<lambda>s p. (s, \<not> oversized max_len p, p)" "()"]
  by (fastforce simp: netdev_dpdk_filter_packet_len_def)

lemma hwol_key: "pk_addr (snd (netdev_dpdk_prep_hwol_packet mtu p)) = pk_addr p"
  by (simp add: netdev_dpdk_prep_hwol_packet_def Let_def)

lemma hwol_len:
  assumes "netdev_dpdk_prep_hwol_packet mtu p = (ok, p')"
  shows "oversized max_len p' = oversized max_len p"
  using assms by (auto simp: netdev_dpdk_prep_hwol_packet_def oversized_def Let_def split: if_splits)

lemma hwol_check:
  assumes "n \<le> length pkts"
  shows "\<exists>pkts' k freed. netdev_dpdk_prep_hwol_batch mtu pkts n = Inr ((), pkts', k, freed) \<and>
           k \<le> n \<and> length pkts' = length pkts \<and>
           mset (map pk_addr (take k pkts')) + mset (map pk_addr freed) =
             mset (map pk_addr (take n pkts)) \<and>
           (\<forall>p\<in>set (take k pkts'). \<exists>q\<in>set (take n pkts).
              netdev_dpdk_prep_hwol_packet mtu q = (True, p))"
proof -
  have "pk_addr (snd (snd (s :: unit, netdev_dpdk_prep_hwol_packet mtu p))) = pk_addr p" for s p
    by (simp add: hwol_key)
  from compact_key [of pk_addr "\<lambda>s p. (s, netdev_dpdk_prep_hwol_packet mtu p)", OF this assms]
  show ?thesis by (fastforce simp: netdev_dpdk_prep_hwol_batch_def)
qed

text \<open>
  What \<open>common_send\<close> leaves behind: the packets at the front of the array and those freed are
  those of the batch, none that is left is too long, and the counters it sets add up.
\<close>

definition send_accounts :: "int \<Rightarrow> dpkt list \<Rightarrow> netdev_dpdk_sw_stats \<Rightarrow> dpkt list \<Rightarrow> nat \<Rightarrow> dpkt list \<Rightarrow> bool"
where
  "send_accounts max_len batch add pkts cnt freed \<longleftrightarrow>
     cnt \<le> length batch \<and> length pkts = length batch \<and>
     mset (map pk_addr (take cnt pkts)) + mset (map pk_addr freed) = mset (map pk_addr batch) \<and>
     (\<forall>p\<in>set (take cnt pkts). \<not> oversized max_len p) \<and>
     tx_failure_drops add = 0 \<and> tx_retries add = 0 \<and> rx_qos_drops add = 0 \<and>
     tx_mtu_exceeded_drops add + tx_invalid_hwol_drops add + tx_qos_drops add =
       of_nat (length batch - cnt)"

lemma common_send_result:
  assumes "batch \<noteq> []" and "pk_dpdk (hd batch)"
    and "\<And>c. dev_qos_conf dev = Some c \<Longrightarrow> conf_valid (tx_meters T) c"
  shows "\<exists>conf' add pkts cnt freed. netdev_dpdk_common_send T dev batch =
             Inr (dev\<lparr>dev_qos_conf := conf'\<rparr>, add, pkts, cnt, freed) \<and>
           send_accounts (max_packet_len dev) batch add pkts cnt freed"
proof -
  obtain pkts1 c1 f1 where s1: "netdev_dpdk_filter_packet_len (max_packet_len dev) batch (length batch)
      = Inr ((), pkts1, c1, f1)" "c1 \<le> length batch" "length pkts1 = length batch"
    "mset (map pk_addr (take c1 pkts1)) + mset (map pk_addr f1) = mset (map pk_addr batch)"
    "\<forall>p\<in>set (take c1 pkts1). \<not> oversized (max_packet_len dev) p"
    using filter_check [of "length batch" batch "max_packet_len dev"] by auto
  obtain pkts2 c2 f2 where s2: "(if tso_enabled T then netdev_dpdk_prep_hwol_batch (dev_mtu dev) pkts1 c1
        else Inr ((), pkts1, c1, [])) = Inr ((), pkts2, c2, f2)"
    "c2 \<le> c1" "\<not> tso_enabled T \<longrightarrow> c2 = c1" "length pkts2 = length batch"
    "mset (map pk_addr (take c2 pkts2)) + mset (map pk_addr f2) = mset (map pk_addr (take c1 pkts1))"
    "\<forall>p\<in>set (take c2 pkts2). \<not> oversized (max_packet_len dev) p"
  proof (cases "tso_enabled T")
    case True
    have "c1 \<le> length pkts1" using s1(2,3) by simp
    from hwol_check [OF this, of "dev_mtu dev"] obtain pkts' k freed where
      h: "netdev_dpdk_prep_hwol_batch (dev_mtu dev) pkts1 c1 = Inr ((), pkts', k, freed)"
      "k \<le> c1" "length pkts' = length pkts1"
      "mset (map pk_addr (take k pkts')) + mset (map pk_addr freed) = mset (map pk_addr (take c1 pkts1))"
      "\<forall>p\<in>set (take k pkts'). \<exists>q\<in>set (take c1 pkts1).
         netdev_dpdk_prep_hwol_packet (dev_mtu dev) q = (True, p)"
      by blast
    have "\<forall>p\<in>set (take k pkts'). \<not> oversized (max_packet_len dev) p"
      using h(5) s1(5) hwol_len by blast
    then show ?thesis using that [of pkts' k freed] h True s1(3) by simp
  next
    case False
    then show ?thesis using that [of pkts1 c1 "[]"] s1 by simp
  qed
  have "c2 \<le> length pkts2" using s1(2) s2(2,4) by simp
  from qos_run_result [OF assms(3) this, where t = "tx_time T"] obtain conf' pkts3 c3 f3 where
    s3: "netdev_dpdk_qos_run (tx_meters T) (dev_qos_conf dev) (tx_time T) pkts2 c2 True =
        Inr (conf', pkts3, c3, f3)"
    "c3 \<le> c2" "subseq (take c3 pkts3) (take c2 pkts2)"
    "mset (take c3 pkts3) + mset f3 = mset (take c2 pkts2)" "length pkts3 = length pkts2"
    by blast
  have "\<forall>p\<in>set (take c3 pkts3). \<not> oversized (max_packet_len dev) p"
    using s3(3) s2(6) by (auto dest: list_emb_set)
  moreover have "mset (map pk_addr (take c3 pkts3)) + mset (map pk_addr f3) =
      mset (map pk_addr (take c2 pkts2))"
    using s3(4) by (metis image_mset_union mset_map)
  then have "mset (map pk_addr (take c3 pkts3)) + mset (map pk_addr (f1 @ f2 @ f3)) =
      mset (map pk_addr batch)"
    unfolding s1(4) [symmetric] s2(5) [symmetric] by (simp add: ac_simps)
  moreover define add where "add = zero_sw_stats\<lparr>tx_mtu_exceeded_drops := of_nat (length batch) - of_nat c1,
      tx_invalid_hwol_drops := of_nat c1 - of_nat c2, tx_qos_drops := of_nat c2 - of_nat c3\<rparr>"
  moreover have "netdev_dpdk_common_send T dev batch =
      Inr (dev\<lparr>dev_qos_conf := conf'\<rparr>, add, pkts3, c3, f1 @ f2 @ f3)"
  proof -
    obtain p0 where p0: "arr_get batch 0 = Inr p0" "pk_dpdk p0"
      using assms(1,2) by (cases batch) auto
    show ?thesis
      using s1(1) s2(1,3) s3(1) p0
      by (cases "tso_enabled T")
         (simp_all add: netdev_dpdk_common_send_def add_def zero_sw_stats_def)
  qed
  moreover have "c3 \<le> length batch" "length pkts3 = length batch"
    using s1(2) s2(2,4) s3(2,5) by simp_all
  moreover have "tx_mtu_exceeded_drops add + tx_invalid_hwol_drops add + tx_qos_drops add =
      of_nat (length batch - c3)"
    using \<open>c3 \<le> length batch\<close> by (simp add: add_def of_nat_diff)
  ultimately show ?thesis
    by (auto simp: send_accounts_def add_def zero_sw_stats_def)
qed

end
