(* ===== verification/Dpdk_Tx_Properties.thy ===== *)
theory Dpdk_Tx_Properties
  imports Dpdk_Tx Dpdk_Qos_Properties
begin

text \<open>
  Properties of the transmit path: every buffer of a batch is handed to the device or
  released exactly once and the counters say which, on both kinds of port, and what the
  preparation for segmentation offload computes.
\<close>

section \<open>Sample port\<close>

definition sample_stats :: netdev_stats where
  "sample_stats = \<lparr>st_rx_packets = 0, st_tx_packets = 0, st_rx_bytes = 0, st_tx_bytes = 0,
     st_rx_errors = 0, st_rx_length_errors = 0, st_rx_dropped = 0, st_tx_dropped = 7,
     st_multicast = 0, st_rx_1_to_64 = 0, st_rx_65_to_127 = 0, st_rx_128_to_255 = 0,
     st_rx_256_to_511 = 0, st_rx_512_to_1023 = 0, st_rx_1024_to_1522 = 0, st_rx_1523_to_max = 0\<rparr>"

definition sample_dev :: "(nat, nat) netdev_dpdk" where
  "sample_dev = \<lparr>dev_up = True, dev_mtu = 1500, max_packet_len = 1518, dev_stats = sample_stats,
     dev_sw_stats = zero_sw_stats, dev_qos_conf = Some (Trtcm_Conf sample_trtcm),
     dev_policer = None, dev_vid = 0, vhost_reconfigured = True, tx_q_map = [0],
     vhost_tx_retries_max = 8\<rparr>"

definition sample_tx :: "(nat, nat) tx_env" where
  "sample_tx = \<lparr>tso_enabled = True, copy_batch = (\<lambda>b. b), tx_meters = byte_env, tx_time = 5,
     tx_prepare = (\<lambda>n. n), tx_burst = (\<lambda>k n. if k = 0 then min 1 n else 0)\<rparr>"

lemma sample_dev_valid: "dev_qos_conf sample_dev = Some c \<Longrightarrow> conf_valid (tx_meters sample_tx) c"
  using sample_trtcm_ok by (auto simp: sample_dev_def sample_tx_def conf_valid_def trtcm_valid_def)

section \<open>Ethernet ports\<close>

lemma eth_tx_burst_result:
  assumes "burst_within (tx_burst T)" and "\<forall>n. tx_prepare T n \<le> n" and "cnt \<le> length pkts"
  shows "\<exists>n\<le>cnt. netdev_dpdk_eth_tx_burst T pkts cnt =
           Some (take n pkts, drop n (take cnt pkts), cnt - n)"
proof -
  let ?prep = "if tso_enabled T then tx_prepare T cnt else cnt mod 2 ^ 16"
  have "?prep \<le> cnt" using assms(2) by simp
  moreover obtain n where "tx_loop (tx_burst T) 0 0 ?prep = Some n" "n \<le> ?prep"
    using tx_loop_ends [OF assms(1), of 0 ?prep 0] by blast
  ultimately show ?thesis
    by (intro exI [of _ n]) (simp add: netdev_dpdk_eth_tx_burst_def)
qed



section \<open>vhost ports\<close>

definition vhost_ready :: "('pr, 'mt) netdev_dpdk \<Rightarrow> nat \<Rightarrow> bool" where
  "vhost_ready dev qid \<longleftrightarrow> dev_up dev \<and> 0 \<le> dev_vid dev \<and> vhost_reconfigured dev \<and>
     tx_q_map dev \<noteq> [] \<and> 0 \<le> tx_q_map dev ! (qid mod length (tx_q_map dev))"

lemma vhost_counts:
  assumes "cnt \<le> n" and "left \<le> cnt" and "n < 2 ^ 64"
    and "tx_mtu_exceeded_drops add + tx_invalid_hwol_drops add + tx_qos_drops add = of_nat (n - cnt)"
    and "tx_failure_drops add = of_nat left"
  shows "of_nat n - (tx_mtu_exceeded_drops add + tx_qos_drops add + tx_failure_drops add +
           tx_invalid_hwol_drops add) = of_nat (cnt - left)"
    and "tx_mtu_exceeded_drops add + tx_qos_drops add + tx_failure_drops add +
           tx_invalid_hwol_drops add = of_nat (n - (cnt - left))"
    and "unat (of_nat (cnt - left) :: u64) = cnt - left"
proof -
  have "tx_mtu_exceeded_drops add + tx_qos_drops add + tx_failure_drops add +
      tx_invalid_hwol_drops add = (tx_mtu_exceeded_drops add + tx_invalid_hwol_drops add +
      tx_qos_drops add) + tx_failure_drops add"
    by (simp add: ac_simps)
  also have "\<dots> = of_nat ((n - cnt) + left)" unfolding assms(4,5) by simp
  also have "(n - cnt) + left = n - (cnt - left)" using assms(1,2) by simp
  finally show d: "tx_mtu_exceeded_drops add + tx_qos_drops add + tx_failure_drops add +
      tx_invalid_hwol_drops add = of_nat (n - (cnt - left))" .
  show "of_nat n - (tx_mtu_exceeded_drops add + tx_qos_drops add + tx_failure_drops add +
      tx_invalid_hwol_drops add) = of_nat (cnt - left)"
    unfolding d using assms(1) by (simp add: of_nat_diff)
  show "unat (of_nat (cnt - left) :: u64) = cnt - left"
    using assms(1,3) by (simp add: unat_of_nat)
qed

text \<open>Sending a batch to a guest always ends, after at most as many calls as packets.  Every
  buffer of the batch is released exactly once (what the guest gets is a copy), and the
  counters of sent packets, sent bytes and dropped packets are those of the packets the guest
  took and of the others.\<close>

theorem vhost_send_accounts:
  assumes "batch \<noteq> []" and "pk_dpdk (hd batch)" and "length batch < 2 ^ 64"
    and "\<forall>c. dev_qos_conf dev = Some c \<longrightarrow> conf_valid (tx_meters T) c"
    and "burst_within (tx_burst T)" and "vhost_ready dev qid"
  shows "\<exists>dev' sent freed. netdev_dpdk_vhost_send T dev qid batch = Some (Inr (dev', sent, freed)) \<and>
           mset (map pk_addr freed) = mset (map pk_addr batch) \<and> length sent \<le> length batch \<and>
           (\<forall>p\<in>set sent. \<not> oversized (max_packet_len dev) p) \<and>
           st_tx_packets (dev_stats dev') = st_tx_packets (dev_stats dev) + of_nat (length sent) \<and>
           st_tx_bytes (dev_stats dev') =
             st_tx_bytes (dev_stats dev) + (\<Sum>p\<leftarrow>sent. ucast (pk_size p)) \<and>
           st_tx_dropped (dev_stats dev') =
             st_tx_dropped (dev_stats dev) + of_nat (length batch - length sent)"
proof -
  have valid: "\<And>c. dev_qos_conf dev = Some c \<Longrightarrow> conf_valid (tx_meters T) c"
    using assms(4) by blast
  obtain conf' add pkts cnt freed where
    cs: "netdev_dpdk_common_send T dev batch = Inr (dev\<lparr>dev_qos_conf := conf'\<rparr>, add, pkts, cnt, freed)"
    and acc: "send_accounts (max_packet_len dev) batch add pkts cnt freed"
    using common_send_result [OF assms(1,2) valid] by blast
  then have cnt: "cnt \<le> length batch" "cnt \<le> length pkts" by (simp_all add: send_accounts_def)
  obtain left r m where loop:
    "vhost_loop (tx_burst T) (vhost_tx_retries_max dev) 0 cnt 0 VHOST_ENQ_RETRY_MIN = Some (left, r, m)"
    "left \<le> cnt"
    using vhost_loop_ends [OF assms(5)] by blast
  define add' where "add' = add\<lparr>tx_failure_drops := tx_failure_drops add + of_nat left,
      tx_retries := word_of_int (min r m)\<rparr>"
  have add': "tx_mtu_exceeded_drops add' + tx_invalid_hwol_drops add' + tx_qos_drops add' =
      of_nat (length batch - cnt)" "tx_failure_drops add' = of_nat left"
    using acc by (simp_all add: add'_def send_accounts_def)
  note counts = vhost_counts [OF cnt(1) loop(2) assms(3) add']
  have sent: "length (take (cnt - left) pkts) = cnt - left" using cnt(2) by simp
  have "set (take (cnt - left) pkts) \<subseteq> set (take cnt pkts)"
    by (simp add: set_take_subset_set_take)
  then have "\<forall>p\<in>set (take (cnt - left) pkts). \<not> oversized (max_packet_len dev) p"
    using acc by (auto simp: send_accounts_def)
  moreover have "mset (map pk_addr (freed @ take cnt pkts)) = mset (map pk_addr batch)"
    using acc by (simp add: send_accounts_def add.commute)
  moreover have "netdev_dpdk_vhost_send T dev qid batch = Some (Inr
      (netdev_dpdk_vhost_update_tx_counters (dev\<lparr>dev_qos_conf := conf'\<rparr>) pkts (length batch) add',
       take (cnt - left) pkts, freed @ take cnt pkts))"
    using assms(6) cs loop(1)
    by (simp add: netdev_dpdk_vhost_send_def vhost_ready_def add'_def Let_def)
  ultimately show ?thesis
    using sent cnt(1)
    by (simp add: netdev_dpdk_vhost_update_tx_counters_def Let_def counts)
qed

theorem vhost_send_accounts_witness:
  "\<exists>dev' sent freed. netdev_dpdk_vhost_send sample_tx sample_dev 5
       [sample_pkt 1 74, sample_pkt 2 2000, sample_pkt 3 34] = Some (Inr (dev', sent, freed)) \<and>
     mset (map pk_addr freed) = {#1, 2, 3#}"
proof -
  let ?b = "[sample_pkt 1 74, sample_pkt 2 2000, sample_pkt 3 34]"
  have "?b \<noteq> []" "pk_dpdk (hd ?b)" "length ?b < 2 ^ 64" by (simp_all add: sample_pkt_def)
  moreover have "\<forall>c. dev_qos_conf sample_dev = Some c \<longrightarrow> conf_valid (tx_meters sample_tx) c"
    using sample_dev_valid by blast
  moreover have "burst_within (tx_burst sample_tx)" "vhost_ready sample_dev 5"
    by (simp_all add: burst_within_def sample_tx_def vhost_ready_def sample_dev_def)
  moreover have "mset (map pk_addr ?b) = {#1, 2, 3#}" by (simp add: sample_pkt_def)
  ultimately show ?thesis using vhost_send_accounts [of ?b sample_dev sample_tx 5] by metis
qed

section \<open>Segmentation offload\<close>

text \<open>For a packet to be segmented, the headers and the segment size prepared for the
  hardware add up to the MTU, so that no segment is longer than the port allows; a packet
  without a transport header is refused.\<close>

theorem tso_segments_fit_mtu:
  assumes "ol_tcp_seg (pk_mbuf pkt)" and "ol_l4_mask (pk_mbuf pkt)"
    and "netdev_dpdk_prep_hwol_packet mtu pkt = (ok, pkt')"
    and "0 \<le> pk_l4 pkt - pk_l3 pkt" and "pk_l4 pkt - pk_l3 pkt < 512" and "pk_tcp_offset pkt < 16"
    and "pk_l4 pkt - pk_l3 pkt + 60 \<le> mtu" and "mtu < 65536"
  shows "(ok \<longleftrightarrow> pk_l4 pkt \<noteq> 0) \<and>
         (ok \<longrightarrow> uint (l3_len (pk_mbuf pkt')) = pk_l4 pkt - pk_l3 pkt \<and>
                uint (l4_len (pk_mbuf pkt')) = 4 * uint (pk_tcp_offset pkt) \<and>
                uint (l3_len (pk_mbuf pkt')) + uint (l4_len (pk_mbuf pkt')) +
                  uint (tso_segsz (pk_mbuf pkt')) = mtu)"
proof -
  have off: "uint (pk_tcp_offset pkt) < 16" using assms(6) by (simp add: word_less_def)
  have "uint (pk_tcp_offset pkt * 4) = 4 * uint (pk_tcp_offset pkt)"
    using off by (simp add: uint_word_ariths)
  moreover have "uint (word_of_int (pk_l4 pkt - pk_l3 pkt) :: 9 word) = pk_l4 pkt - pk_l3 pkt"
    using assms(4,5) by (intro uint_word_of_int_range) simp_all
  moreover have "uint (word_of_int (mtu - (pk_l4 pkt - pk_l3 pkt) - 4 * uint (pk_tcp_offset pkt)) :: u16)
      = mtu - (pk_l4 pkt - pk_l3 pkt) - 4 * uint (pk_tcp_offset pkt)"
    using assms(4,7,8) off
    by (intro uint_word_of_int_range) (simp_all, use uint_ge_0 [of "pk_tcp_offset pkt"] in linarith)
  ultimately show ?thesis
    using assms(1-3) by (auto simp: netdev_dpdk_prep_hwol_packet_def Let_def simp del: of_int_diff of_int_mult
        split: if_splits)
qed

theorem tso_segments_fit_mtu_witness:
  "fst (netdev_dpdk_prep_hwol_packet 1500 ((sample_pkt 1 4000)\<lparr>pk_mbuf :=
      sample_mbuf\<lparr>ol_tcp_seg := True, ol_l4_mask := True\<rparr>\<rparr>))"
  using tso_segments_fit_mtu [of "(sample_pkt 1 4000)\<lparr>pk_mbuf :=
      sample_mbuf\<lparr>ol_tcp_seg := True, ol_l4_mask := True\<rparr>\<rparr>" 1500]
  by (cases "netdev_dpdk_prep_hwol_packet 1500 ((sample_pkt 1 4000)\<lparr>pk_mbuf :=
      sample_mbuf\<lparr>ol_tcp_seg := True, ol_l4_mask := True\<rparr>\<rparr>)") (simp add: sample_pkt_def sample_mbuf_def)

end
