(* ===== verification/Dpdk_Rx.thy ===== *)
theory Dpdk_Rx
  imports Dpdk_Tx
begin

text \<open>
  The receive path of DPDK ports (\<open>netdev-dpdk.c\<close>): the counters of a vhost port, its
  receive function, and \<open>netdev_dpdk_rxq_recv\<close>, where the packets of the HOPA control plane
  are injected into what port \<open>pf1hpf\<close> receives.
\<close>

definition EAGAIN :: int where "EAGAIN = 11"
definition NETDEV_MAX_BURST :: nat where "NETDEV_MAX_BURST = 32"
definition ETH_HEADER_LEN :: u32 where "ETH_HEADER_LEN = 14"

lemmas rx_consts = EAGAIN_def NETDEV_MAX_BURST_def ETH_HEADER_LEN_def

section \<open>Counters\<close>

definition netdev_dpdk_vhost_update_rx_size_counters ::
  "netdev_stats \<Rightarrow> u32 \<Rightarrow> netdev_stats" where
  "netdev_dpdk_vhost_update_rx_size_counters stats packet_size =
     (if packet_size < 256 then
        (if 128 \<le> packet_size then stats\<lparr>st_rx_128_to_255 := st_rx_128_to_255 stats + 1\<rparr>
         else if packet_size \<le> 64 then stats\<lparr>st_rx_1_to_64 := st_rx_1_to_64 stats + 1\<rparr>
         else stats\<lparr>st_rx_65_to_127 := st_rx_65_to_127 stats + 1\<rparr>)
      else
        (if 1523 \<le> packet_size then stats\<lparr>st_rx_1523_to_max := st_rx_1523_to_max stats + 1\<rparr>
         else if 1024 \<le> packet_size then stats\<lparr>st_rx_1024_to_1522 := st_rx_1024_to_1522 stats + 1\<rparr>
         else if packet_size < 512 then stats\<lparr>st_rx_256_to_511 := st_rx_256_to_511 stats + 1\<rparr>
         else stats\<lparr>st_rx_512_to_1023 := st_rx_512_to_1023 stats + 1\<rparr>))"

text \<open>The body of the loop over the packets.\<close>

definition rx_count_packet :: "netdev_stats \<Rightarrow> dpkt \<Rightarrow> netdev_stats" where
  "rx_count_packet stats packet =
     (if pk_size packet < ETH_HEADER_LEN
      then stats\<lparr>st_rx_errors := st_rx_errors stats + 1,
                 st_rx_length_errors := st_rx_length_errors stats + 1\<rparr>
      else
        let stats = netdev_dpdk_vhost_update_rx_size_counters stats (pk_size packet);
            stats = (if pk_multicast packet
                     then stats\<lparr>st_multicast := st_multicast stats + 1\<rparr> else stats)
        in stats\<lparr>st_rx_bytes := st_rx_bytes stats + ucast (pk_size packet)\<rparr>)"

definition netdev_dpdk_vhost_update_rx_counters ::
  "('pr, 'mt) netdev_dpdk \<Rightarrow> dpkt list \<Rightarrow> nat \<Rightarrow> nat \<Rightarrow> ('pr, 'mt) netdev_dpdk" where
  "netdev_dpdk_vhost_update_rx_counters dev packets n_pkts qos_drops =
     (let stats = dev_stats dev;
          stats = stats\<lparr>st_rx_packets := st_rx_packets stats + of_nat n_pkts,
                        st_rx_dropped := st_rx_dropped stats + of_nat qos_drops\<rparr>;
          stats = foldl rx_count_packet stats (take n_pkts packets);
          sw = dev_sw_stats dev
      in dev\<lparr>dev_stats := stats,
             dev_sw_stats := (if qos_drops \<noteq> 0
                then sw\<lparr>rx_qos_drops := rx_qos_drops sw + of_nat qos_drops\<rparr> else sw)\<rparr>)"

section \<open>Receiving from a guest\<close>

text \<open>
  The result of a receive function: the error, the port, the packets of the batch, the
  packets freed, and \<open>*qfill\<close> if it was written.  \<open>policed_rx\<close> is the part both functions
  share: the ingress policer, if there is one, run over the packets received.
\<close>

type_synonym ('pr, 'mt) recv =
  "int \<times> ('pr, 'mt) netdev_dpdk \<times> dpkt list \<times> dpkt list \<times> int option"

definition policed_rx ::
  "('pr, 'mt) meter_env \<Rightarrow> u64 \<Rightarrow> ('pr, 'mt) netdev_dpdk \<Rightarrow> dpkt list
   \<Rightarrow> (('pr, 'mt) netdev_dpdk \<times> dpkt list \<times> dpkt list) c_result" where
  "policed_rx E time dev pkts =
     (case dev_policer dev of
        None \<Rightarrow> Inr (dev, pkts, [])
      | Some policer \<Rightarrow>
          bindr (ingress_policer_run E policer time pkts (length pkts) True)
            (\<lambda>(policer', pkts', nb_rx, freed).
              Inr (dev\<lparr>dev_policer := Some policer'\<rparr>, take nb_rx pkts', freed)))"

text \<open>\<open>dequeue\<close> is what \<open>rte_vhost_dequeue_burst\<close> returns, \<open>fill\<close> the queue's fill level.\<close>

definition netdev_dpdk_vhost_rxq_recv ::
  "('pr, 'mt) meter_env \<Rightarrow> u64 \<Rightarrow> ('pr, 'mt) netdev_dpdk \<Rightarrow> dpkt list \<Rightarrow> u32
   \<Rightarrow> ('pr, 'mt) recv c_result" where
  "netdev_dpdk_vhost_rxq_recv E time dev dequeue fill =
     (if dev_vid dev < 0 \<or> \<not> vhost_reconfigured dev \<or> \<not> dev_up dev
      then Inr (EAGAIN, dev, [], [], None)
      else if dequeue = [] then Inr (EAGAIN, dev, [], [], None)
      else
        let qfill = (if length dequeue = NETDEV_MAX_BURST
                     then int (unat (fill AND 0xFFFF)) else 0)
        in bindr (policed_rx E time dev dequeue) (\<lambda>(dev, pkts, freed).
           Inr (0, netdev_dpdk_vhost_update_rx_counters dev pkts (length pkts)
                     (length dequeue - length pkts), pkts, freed, Some qfill)))"

section \<open>Receiving from a device, with the control plane's packets\<close>

text \<open>
  \<open>slots\<close> are the 32 pointers of \<open>batch->packets\<close> as the caller left them (\<open>None\<close> is a
  pointer to no packet); \<open>send_mbuf\<close> is the global array \<open>hopa_cp_send_mbuf\<close>; \<open>out_ring\<close> the
  control plane's ring once it exists, of pointers that may be null.
\<close>

record ('pr, 'mt) rx_env =
  rx_name :: string
  rx_meters :: "('pr, 'mt) meter_env"
  rx_time :: u64
  eth_rx_burst :: "u16 \<Rightarrow> dpkt list"
  ring_dequeued :: nat
  rx_queue_count :: int

definition write_slots :: "'p list \<Rightarrow> 'p option list \<Rightarrow> 'p option list c_result" where
  "write_slots ps slots =
     (if length ps \<le> length slots then Inr (map Some ps @ drop (length ps) slots)
      else Inl Out_Of_Bounds)"

text \<open>
  \<open>batch->packets[i + nb_rx]->mbuf = *hopa_cp_send_mbuf[i]\<close>: the packet in the slot keeps its
  address and its metadata, and from then on describes the data of the control packet.
\<close>

definition copy_mbuf :: "dpkt \<Rightarrow> dpkt \<Rightarrow> dpkt" where
  "copy_mbuf slot cp = slot\<lparr>pk_mbuf := pk_mbuf cp, pk_size := pk_size cp,
                             pk_multicast := pk_multicast cp, pk_eth := pk_eth cp\<rparr>"

definition deref :: "'p option \<Rightarrow> 'p c_result" where
  "deref p = (case p of None \<Rightarrow> Inl Null_Deref | Some x \<Rightarrow> Inr x)"

primrec inject :: "dpkt option list \<Rightarrow> nat \<Rightarrow> dpkt option list \<Rightarrow> nat \<Rightarrow> nat \<Rightarrow> dpkt option list c_result"
where
  "inject slots nb_rx send_mbuf i 0 = Inr slots"
| "inject slots nb_rx send_mbuf i (Suc n) =
     bindr (bindr (arr_get slots (i + nb_rx)) deref) (\<lambda>p.
     bindr (bindr (arr_get send_mbuf i) deref) (\<lambda>cp.
     inject (slots[i + nb_rx := Some (copy_mbuf p cp)]) nb_rx send_mbuf (Suc i) n))"

text \<open>
  What is received: the slots, the number of packets, the ring and the send array.  The count
  of the ring is an \<open>int\<close> and is subtracted without a check; the result of the dequeue is not
  looked at.
\<close>

definition hopa_rx_burst ::
  "('pr, 'mt) rx_env \<Rightarrow> dpkt option list \<Rightarrow> dpkt option list option \<Rightarrow> dpkt option list
   \<Rightarrow> (dpkt option list \<times> nat \<times> dpkt option list option \<times> dpkt option list) c_result" where
  "hopa_rx_burst R slots out_ring send_mbuf =
     (let nb_cp = (if rx_name R \<noteq> ''pf1hpf'' then 0
                   else case out_ring of None \<Rightarrow> 0 | Some ring \<Rightarrow> length ring)
      in if nb_cp = 0 then
           (let rx = eth_rx_burst R (of_nat NETDEV_MAX_BURST)
            in bindr (write_slots rx slots) (\<lambda>slots.
               Inr (slots, length rx, out_ring, send_mbuf)))
         else
           (let rx = eth_rx_burst R (of_nat NETDEV_MAX_BURST - of_nat nb_cp);
                ring = the out_ring;
                items = take (ring_dequeued R) ring
            in bindr (write_slots rx slots) (\<lambda>slots.
               if length send_mbuf < length items then Inl Out_Of_Bounds
               else
                 let send_mbuf = items @ drop (length items) send_mbuf
                 in bindr (inject slots (length rx) send_mbuf 0 nb_cp) (\<lambda>slots.
                    Inr (slots, length rx + nb_cp, Some (drop (length items) ring), send_mbuf)))))"

text \<open>All the packets of the batch are used through their pointers from here on.\<close>

definition the_packets :: "dpkt option list \<Rightarrow> nat \<Rightarrow> dpkt list c_result" where
  "the_packets slots n =
     (if None \<in> set (take n slots) then Inl Null_Deref else Inr (map the (take n slots)))"

definition netdev_dpdk_rxq_recv ::
  "('pr, 'mt) rx_env \<Rightarrow> ('pr, 'mt) netdev_dpdk \<Rightarrow> dpkt option list \<Rightarrow> dpkt option list option
   \<Rightarrow> dpkt option list \<Rightarrow> (('pr, 'mt) recv \<times> dpkt option list option \<times> dpkt option list) c_result"
where
  "netdev_dpdk_rxq_recv R dev slots out_ring send_mbuf =
     (if \<not> dev_up dev then Inr ((EAGAIN, dev, [], [], None), out_ring, send_mbuf)
      else bindr (hopa_rx_burst R slots out_ring send_mbuf) (\<lambda>(slots, nb_rx, out_ring, send_mbuf).
        if nb_rx = 0 then Inr ((EAGAIN, dev, [], [], None), out_ring, send_mbuf)
        else
          bindr (the_packets slots nb_rx) (\<lambda>received.
          bindr (policed_rx (rx_meters R) (rx_time R) dev received) (\<lambda>(dev, pkts, freed).
            let dropped = length received - length pkts;
                dev = (if dropped \<noteq> 0
                  then dev\<lparr>dev_stats := (dev_stats dev)
                             \<lparr>st_rx_dropped := st_rx_dropped (dev_stats dev) + of_nat dropped\<rparr>,
                           dev_sw_stats := (dev_sw_stats dev)
                             \<lparr>rx_qos_drops := rx_qos_drops (dev_sw_stats dev) + of_nat dropped\<rparr>\<rparr>
                  else dev);
                qfill = (if length pkts = NETDEV_MAX_BURST then rx_queue_count R else 0)
            in Inr ((0, dev, pkts, freed, Some qfill), out_ring, send_mbuf)))))"

section \<open>Facts\<close>

lemma policed_rx_result:
  "\<exists>dev' pkts' freed. policed_rx E t dev pkts = Inr (dev', pkts', freed) \<and>
     subseq pkts' pkts \<and> mset pkts' + mset freed = mset pkts \<and>
     dev_stats dev' = dev_stats dev \<and> dev_sw_stats dev' = dev_sw_stats dev"
proof (cases "dev_policer dev")
  case None
  then show ?thesis by (simp add: policed_rx_def)
next
  case (Some po)
  obtain s' r where c: "compact (netdev_dpdk_srtcm_policer_pkt_handle E (in_prof po) t) True
      (in_policer po) pkts (length pkts) = Inr (s', r)" "policed pkts (length pkts) True r"
    using compact_policed [of "netdev_dpdk_srtcm_policer_pkt_handle E (in_prof po) t"
        "length pkts" pkts True "in_policer po"] by auto
  obtain pkts' k freed where "r = (pkts', k, freed)" by (cases r)
  then show ?thesis
    using c Some by (simp add: policed_rx_def ingress_policer_run_def
        srtcm_policer_run_single_packet_def policed_def)
qed

text \<open>Injection, when every pointer it uses is good.\<close>

lemma inject_ok:
  assumes "i + nb_rx + n \<le> length slots" and "i + n \<le> length send_mbuf"
    and "\<forall>j<n. slots ! (i + nb_rx + j) \<noteq> None" and "\<forall>j<n. send_mbuf ! (i + j) \<noteq> None"
  shows "inject slots nb_rx send_mbuf i n = Inr (take (i + nb_rx) slots @
           map (\<lambda>j. Some (copy_mbuf (the (slots ! (i + nb_rx + j))) (the (send_mbuf ! (i + j))))) [0..<n]
           @ drop (i + nb_rx + n) slots)"
  using assms
proof (induction n arbitrary: i slots)
  case 0
  then show ?case by simp
next
  case (Suc n)
  obtain p where p: "slots ! (i + nb_rx) = Some p" using Suc.prems(3) by force
  obtain cp where cp: "send_mbuf ! i = Some cp" using Suc.prems(4) by force
  let ?s = "slots[i + nb_rx := Some (copy_mbuf p cp)]"
  have rest: "\<forall>j<n. ?s ! (Suc i + nb_rx + j) \<noteq> None" "\<forall>j<n. send_mbuf ! (Suc i + j) \<noteq> None"
    using Suc.prems(3,4) by force+
  have "inject slots nb_rx send_mbuf i (Suc n) = inject ?s nb_rx send_mbuf (Suc i) n"
    using Suc.prems(1,2) p cp by (simp add: deref_def)
  also have "\<dots> = Inr (take (Suc i + nb_rx) ?s @
      map (\<lambda>j. Some (copy_mbuf (the (?s ! (Suc i + nb_rx + j))) (the (send_mbuf ! (Suc i + j))))) [0..<n]
      @ drop (Suc i + nb_rx + n) ?s)"
    using Suc.prems(1,2) rest by (intro Suc.IH) auto
  also have "take (Suc i + nb_rx) ?s = take (i + nb_rx) slots @ [Some (copy_mbuf p cp)]"
    using Suc.prems(1) by (simp add: take_Suc_conv_app_nth)
  also have "map (\<lambda>j. Some (copy_mbuf (the (?s ! (Suc i + nb_rx + j))) (the (send_mbuf ! (Suc i + j))))) [0..<n]
      = map (\<lambda>j. Some (copy_mbuf (the (slots ! (i + nb_rx + Suc j))) (the (send_mbuf ! (i + Suc j))))) [0..<n]"
    by simp
  finally show ?case
    using p cp by (simp add: upt_conv_Cons map_Suc_upt [symmetric] comp_def del: upt_Suc)
qed

lemma inject_bad:
  assumes "\<exists>j<n. length slots \<le> i + nb_rx + j \<or> length send_mbuf \<le> i + j \<or>
             slots ! (i + nb_rx + j) = None \<or> send_mbuf ! (i + j) = None"
  shows "\<exists>e. inject slots nb_rx send_mbuf i n = Inl e"
  using assms
proof (induction n arbitrary: i slots)
  case 0
  then show ?case by simp
next
  case (Suc n)
  show ?case
  proof (cases "length slots \<le> i + nb_rx \<or> length send_mbuf \<le> i \<or>
      slots ! (i + nb_rx) = None \<or> send_mbuf ! i = None")
    case True
    then show ?thesis
      by (auto simp: deref_def bindr_def arr_get_def split: option.splits sum.splits)
  next
    case False
    then obtain p cp where p: "slots ! (i + nb_rx) = Some p" "send_mbuf ! i = Some cp" by auto
    obtain j where j: "j < Suc n" "length slots \<le> i + nb_rx + j \<or> length send_mbuf \<le> i + j \<or>
        slots ! (i + nb_rx + j) = None \<or> send_mbuf ! (i + j) = None"
      using Suc.prems by blast
    with False obtain j' where j': "j = Suc j'" by (cases j) auto
    let ?s = "slots[i + nb_rx := Some (copy_mbuf p cp)]"
    have "\<exists>j<n. length ?s \<le> Suc i + nb_rx + j \<or> length send_mbuf \<le> Suc i + j \<or>
        ?s ! (Suc i + nb_rx + j) = None \<or> send_mbuf ! (Suc i + j) = None"
      using j by (intro exI [of _ j']) (auto simp: j')
    from Suc.IH [OF this] show ?thesis using False p by (simp add: deref_def)
  qed
qed

end
