(* ===== verification/Dpdk_Rx_Properties.thy ===== *)
theory Dpdk_Rx_Properties
  imports Dpdk_Rx Dpdk_Tx_Properties
begin

text \<open>
  Properties of the receive path: what the counters of a vhost port say about a batch, and
  what the injection of control packets into the batch of port \<open>pf1hpf\<close> does, when it works
  and when it does not.
\<close>

section \<open>vhost\<close>

definition bucket_sum :: "netdev_stats \<Rightarrow> u64" where
  "bucket_sum st = st_rx_1_to_64 st + st_rx_65_to_127 st + st_rx_128_to_255 st +
     st_rx_256_to_511 st + st_rx_512_to_1023 st + st_rx_1024_to_1522 st + st_rx_1523_to_max st +
     st_rx_errors st"

lemma rx_count_packet_sum:
  "bucket_sum (rx_count_packet st p) = bucket_sum st + 1"
  by (simp add: bucket_sum_def rx_count_packet_def netdev_dpdk_vhost_update_rx_size_counters_def Let_def)

lemma rx_count_packet_other [simp]:
  "st_rx_packets (rx_count_packet st p) = st_rx_packets st"
  "st_rx_dropped (rx_count_packet st p) = st_rx_dropped st"
  "st_rx_bytes (rx_count_packet st p) =
     st_rx_bytes st + (if pk_size p < ETH_HEADER_LEN then 0 else ucast (pk_size p))"
  by (simp_all add: rx_count_packet_def netdev_dpdk_vhost_update_rx_size_counters_def Let_def)

lemma rx_count_packets:
  "bucket_sum (foldl rx_count_packet st ps) = bucket_sum st + of_nat (length ps) \<and>
   st_rx_packets (foldl rx_count_packet st ps) = st_rx_packets st \<and>
   st_rx_dropped (foldl rx_count_packet st ps) = st_rx_dropped st \<and>
   st_rx_bytes (foldl rx_count_packet st ps) = st_rx_bytes st +
     (\<Sum>p\<leftarrow>filter (\<lambda>p. ETH_HEADER_LEN \<le> pk_size p) ps. ucast (pk_size p))"
proof (induction ps arbitrary: st)
  case Nil
  then show ?case by simp
next
  case (Cons p ps)
  show ?case using Cons.IH [of "rx_count_packet st p"]
    by (auto simp: rx_count_packet_sum not_le add.assoc)
qed

text \<open>Receiving from a guest: the packets returned are a subsequence of those dequeued,
  the others are freed by the policer and counted as dropped, every packet returned falls
  into exactly one size bucket or is counted as an error, and \<open>rx_bytes\<close> grows by the sizes of
  those with a whole Ethernet header.\<close>

theorem vhost_receive_accounts:
  assumes "netdev_dpdk_vhost_rxq_recv E t dev dequeue fill = Inr (0, dev', pkts, freed, qfill)"
  shows "subseq pkts dequeue \<and> mset pkts + mset freed = mset dequeue \<and>
    st_rx_packets (dev_stats dev') = st_rx_packets (dev_stats dev) + of_nat (length pkts) \<and>
    st_rx_dropped (dev_stats dev') = st_rx_dropped (dev_stats dev) + of_nat (length freed) \<and>
    rx_qos_drops (dev_sw_stats dev') = rx_qos_drops (dev_sw_stats dev) + of_nat (length freed) \<and>
    bucket_sum (dev_stats dev') = bucket_sum (dev_stats dev) + of_nat (length pkts) \<and>
    st_rx_bytes (dev_stats dev') = st_rx_bytes (dev_stats dev) +
      (\<Sum>p\<leftarrow>filter (\<lambda>p. ETH_HEADER_LEN \<le> pk_size p) pkts. ucast (pk_size p))"
proof -
  obtain d1 pkts1 freed1 where r: "policed_rx E t dev dequeue = Inr (d1, pkts1, freed1)"
    "subseq pkts1 dequeue" "mset pkts1 + mset freed1 = mset dequeue"
    "dev_stats d1 = dev_stats dev" "dev_sw_stats d1 = dev_sw_stats dev"
    using policed_rx_result by blast
  have len: "length dequeue - length pkts1 = length freed1"
    using arg_cong [OF r(3), of size] by simp
  have res: "pkts = pkts1" "freed = freed1"
    "dev' = netdev_dpdk_vhost_update_rx_counters d1 pkts1 (length pkts1) (length freed1)"
    using assms r(1) len
    by (auto simp: netdev_dpdk_vhost_rxq_recv_def Let_def EAGAIN_def split: if_splits)
  show ?thesis
    using r rx_count_packets [of "(dev_stats dev)\<lparr>st_rx_packets := st_rx_packets (dev_stats dev) +
        of_nat (length pkts1), st_rx_dropped := st_rx_dropped (dev_stats dev) +
        of_nat (length freed1)\<rparr>" pkts1]
    by (simp add: res netdev_dpdk_vhost_update_rx_counters_def Let_def bucket_sum_def)
qed

theorem vhost_receive_accounts_witness:
  "\<exists>dev' pkts freed qfill. netdev_dpdk_vhost_rxq_recv byte_env 5 sample_dev
       [sample_pkt 1 74, sample_pkt 2 9] 0 = Inr (0, dev', pkts, freed, qfill) \<and>
     st_rx_packets (dev_stats dev') = 2 \<and> bucket_sum (dev_stats dev') = 2"
proof -
  obtain dev' where r: "netdev_dpdk_vhost_rxq_recv byte_env 5 sample_dev
      [sample_pkt 1 74, sample_pkt 2 9] 0 = Inr (0, dev', [sample_pkt 1 74, sample_pkt 2 9], [], Some 0)"
    by (simp add: netdev_dpdk_vhost_rxq_recv_def sample_dev_def policed_rx_def NETDEV_MAX_BURST_def)
  from vhost_receive_accounts [OF this] r show ?thesis
    by (simp add: sample_dev_def sample_stats_def bucket_sum_def)
qed

section \<open>Injection of control packets\<close>

text \<open>The ring is used: the port is \<open>pf1hpf\<close>, and \<open>n\<close> pointers are on the ring and taken off.\<close>

definition injecting :: "('pr, 'mt) rx_env \<Rightarrow> dpkt option list \<Rightarrow> bool" where
  "injecting R ring \<longleftrightarrow> rx_name R = ''pf1hpf'' \<and> ring \<noteq> [] \<and> ring_dequeued R = length ring"


definition sample_rx :: "nat \<Rightarrow> (nat, nat) rx_env" where
  "sample_rx n = \<lparr>rx_name = ''pf1hpf'', rx_meters = byte_env, rx_time = 5,
     eth_rx_burst = (\<lambda>k. [sample_pkt 1 74]), ring_dequeued = n, rx_queue_count = 0\<rparr>"


text \<open>The burst, once what was received is in the slots: too much of either faults, else the copies are made.\<close>

lemma injecting_burst:
  assumes "injecting R ring" and "length slots = 32" and "length send_mbuf = 32" and "rx = eth_rx_burst R (32 - of_nat (length ring))"
  shows "hopa_rx_burst R slots (Some ring) send_mbuf =
      (if 32 < length rx \<or> 32 < length ring then Inl Out_Of_Bounds
       else bindr (inject (map Some rx @ drop (length rx) slots) (length rx) (ring @ drop (length ring) send_mbuf) 0 (length ring))
              (\<lambda>s. Inr (s, length rx + length ring, Some [], ring @ drop (length ring) send_mbuf)))"
proof -
  have n: "0 < length ring" "ring_dequeued R = length ring" using assms(1) by (simp_all add: injecting_def)
  show ?thesis using assms n
    by (simp add: hopa_rx_burst_def injecting_def write_slots_def NETDEV_MAX_BURST_def Let_def)
qed

definition injection_bad :: "dpkt list \<Rightarrow> dpkt option list \<Rightarrow> dpkt option list \<Rightarrow> bool" where
  "injection_bad rx ring slots \<longleftrightarrow> 32 < length rx + length ring \<or> None \<in> set ring \<or>
     None \<in> set (take (length ring) (drop (length rx) slots))"

lemma inject_of_bad:
  assumes "injection_bad rx ring slots" and "length slots = 32" and "0 < length ring"
    and ok: "length rx \<le> 32" "length ring \<le> 32"
  shows "\<exists>e. inject (map Some rx @ drop (length rx) slots) (length rx) (ring @ drop (length ring) send_mbuf) 0 (length ring) = Inl e"
proof (rule inject_bad)
  let ?n = "length ring" and ?slots = "map Some rx @ drop (length rx) slots" and ?send = "ring @ drop (length ring) send_mbuf"
  have "\<exists>j<?n. length ?slots \<le> length rx + j \<or> ?slots ! (length rx + j) = None \<or> ring ! j = None"
  proof (cases "32 < length rx + ?n")
    case True
    then show ?thesis using ok assms(2,3) by (intro exI [of _ "?n - 1"]) auto
  next
    case False
    with assms(1) have "None \<in> set ring \<or> None \<in> set (take ?n (drop (length rx) slots))" by (simp add: injection_bad_def)
    then show ?thesis using False assms(2) by (fastforce simp: in_set_conv_nth nth_append)
  qed
  then obtain j where "j < ?n" "length ?slots \<le> length rx + j \<or> ?slots ! (length rx + j) = None \<or> ring ! j = None"
    by blast
  then show "\<exists>j<?n. length ?slots \<le> 0 + length rx + j \<or> length ?send \<le> 0 + j \<or>
      ?slots ! (0 + length rx + j) = None \<or> ?send ! (0 + j) = None"
    by (intro exI [of _ j]) (simp add: nth_append)
qed

lemma inject_of_good:
  assumes "\<not> injection_bad rx ring slots" and "length slots = 32" and "length send_mbuf = 32"
  shows "\<exists>xs. length xs = length ring \<and>
    inject (map Some rx @ drop (length rx) slots) (length rx) (ring @ drop (length ring) send_mbuf) 0 (length ring) =
      Inr (map Some rx @ map Some xs @ drop (length rx + length ring) slots)"
proof -
  let ?n = "length ring" and ?slots = "map Some rx @ drop (length rx) slots" and ?send = "ring @ drop (length ring) send_mbuf"
  have good: "\<forall>j<?n. ?slots ! (0 + length rx + j) \<noteq> None" "\<forall>j<?n. ?send ! (0 + j) \<noteq> None"
    using assms(1,2) unfolding injection_bad_def by (force simp: in_set_conv_nth nth_append)+
  have fit: "0 + length rx + ?n \<le> length ?slots" "0 + ?n \<le> length ?send"
    using assms by (simp_all add: injection_bad_def)
  let ?xs = "map (\<lambda>j. copy_mbuf (the (?slots ! (0 + length rx + j))) (the (?send ! (0 + j)))) [0..<?n]"
  have "inject ?slots (length rx) ?send 0 ?n = Inr (map Some rx @ map Some ?xs @ drop (length rx + ?n) slots)"
    unfolding inject_ok [OF fit good] by (simp add: comp_def add.commute)
  then show ?thesis by (intro exI [of _ ?xs]) simp
qed

text \<open>C37: with control packets waiting, receiving on port \<open>pf1hpf\<close> faults exactly when more than
  32 are waiting, or one of the pointers on the ring is null (an allocation of the control
  plane failed), or the batch slot that is written through does not point to a packet, or the
  device delivered more than the slots hold.\<close>

theorem injection_faults_iff:
  assumes "dev_up dev" and "injecting R ring" and "length slots = 32" and "length send_mbuf = 32"
    and "rx = eth_rx_burst R (32 - of_nat (length ring))"
  shows "(\<exists>e. netdev_dpdk_rxq_recv R dev slots (Some ring) send_mbuf = Inl e) \<longleftrightarrow>
           32 < length rx + length ring \<or> None \<in> set ring \<or>
           None \<in> set (take (length ring) (drop (length rx) slots))"
proof -
  let ?n = "length ring"
  have n: "0 < ?n" using assms(2) by (simp add: injecting_def)
  note burst = injecting_burst [OF assms(2-5)]
  have "(\<exists>e. netdev_dpdk_rxq_recv R dev slots (Some ring) send_mbuf = Inl e) \<longleftrightarrow> injection_bad rx ring slots"
  proof (cases "injection_bad rx ring slots")
    case True
    then have "\<exists>e. hopa_rx_burst R slots (Some ring) send_mbuf = Inl e"
      unfolding burst using inject_of_bad [OF True assms(3) n, of send_mbuf] by (auto simp: not_less)
    then show ?thesis using True assms(1) by (auto simp: netdev_dpdk_rxq_recv_def)
  next
    case False
    then have "length rx + ?n \<le> 32" by (simp add: injection_bad_def)
    then obtain xs where xs: "length xs = ?n" "hopa_rx_burst R slots (Some ring) send_mbuf =
        Inr (map Some rx @ map Some xs @ drop (length rx + ?n) slots, length rx + ?n, Some [], ring @ drop ?n send_mbuf)"
      unfolding burst using inject_of_good [OF False assms(3,4)] by auto
    have "the_packets (map Some rx @ map Some xs @ drop (length rx + ?n) slots) (length rx + ?n) = Inr (rx @ xs)"
      using xs(1) by (auto simp: the_packets_def comp_def)
    moreover obtain d ps fr where "policed_rx (rx_meters R) (rx_time R) dev (rx @ xs) = Inr (d, ps, fr)"
      using policed_rx_result by blast
    ultimately have "\<exists>r. netdev_dpdk_rxq_recv R dev slots (Some ring) send_mbuf = Inr r"
      using assms(1) xs(2) n by (simp add: netdev_dpdk_rxq_recv_def Let_def)
    then show ?thesis using False by auto
  qed
  then show ?thesis by (simp only: injection_bad_def)
qed

theorem injection_faults_iff_witness:
  "\<exists>e. netdev_dpdk_rxq_recv (sample_rx 1) sample_dev
       (map (\<lambda>i. Some (sample_pkt (100 + i) 60)) [0..<32]) (Some [None]) (replicate 32 None) = Inl e"
proof -
  let ?slots = "map (\<lambda>i. Some (sample_pkt (100 + i) 60)) [0..<32]"
  have "dev_up sample_dev" "injecting (sample_rx 1) [None]" "length ?slots = 32"
    "length (replicate 32 None) = (32 :: nat)"
    by (simp_all add: sample_dev_def injecting_def sample_rx_def)
  from injection_faults_iff [OF this refl] show ?thesis by simp
qed

end
