(* ===== verification/Dpif_Meter.thy ===== *)
theory Dpif_Meter
  imports Dpdk_Packet "HOL-Library.Signed_Division"
begin

text \<open>
  Meters of the userspace datapath (\<open>dpif-netdev.c\<close>): token buckets that are refilled when a
  batch of packets meets the meter, the choice of the band that fires for each packet, and
  the operations that set, read and delete meters.  All quantities have the width they have in
  the code.
\<close>

section \<open>State\<close>

record dp_meter_band =
  bd_rate :: u32
  bd_burst_size :: u32
  bd_bucket :: u64
  bd_packet_count :: u64
  bd_byte_count :: u64

record dp_meter =
  mt_id :: u32
  mt_flags :: u16
  mt_max_delta_t :: u32
  mt_used :: u64
  mt_packet_count :: u64
  mt_byte_count :: u64
  mt_bands :: "dp_meter_band list"

definition MAX_METERS :: u32 where "MAX_METERS = push_bit 18 1"
definition MAX_BANDS :: nat where "MAX_BANDS = 8"

text \<open>The OpenFlow meter flags and the drop band.\<close>

definition OFPMF13_KBPS :: u16 where "OFPMF13_KBPS = 1"
definition OFPMF13_PKTPS :: u16 where "OFPMF13_PKTPS = 2"
definition OFPMF13_BURST :: u16 where "OFPMF13_BURST = 4"
definition OFPMF13_STATS :: u16 where "OFPMF13_STATS = 8"
definition OFPMBT13_DROP :: u16 where "OFPMBT13_DROP = 1"

definition DP_SUPPORTED_METER_FLAGS_MASK :: u16 where
  "DP_SUPPORTED_METER_FLAGS_MASK =
     OFPMF13_STATS OR OFPMF13_PKTPS OR OFPMF13_KBPS OR OFPMF13_BURST"

definition EFBIG :: int where "EFBIG = 27"
definition EBADF :: int where "EBADF = 9"
definition E_INVAL :: int where "E_INVAL = 22"
definition ENODEV :: int where "ENODEV = 19"
definition ENOENT :: int where "ENOENT = 2"

lemmas meter_consts = MAX_METERS_def MAX_BANDS_def OFPMF13_KBPS_def OFPMF13_PKTPS_def
  OFPMF13_BURST_def OFPMF13_STATS_def OFPMBT13_DROP_def DP_SUPPORTED_METER_FLAGS_MASK_def EFBIG_def EBADF_def
  E_INVAL_def ENODEV_def ENOENT_def

section \<open>The meters of a datapath\<close>

text \<open>
  \<open>dp->meters\<close> is a concurrent hash map whose hash is the meter's number: the list of its
  nodes.  A pointer to a node is its position.
\<close>

definition dp_meter_hash :: "u32 \<Rightarrow> u32" where
  "dp_meter_hash meter_id = meter_id"

definition dp_meter_lookup :: "dp_meter list \<Rightarrow> u32 \<Rightarrow> nat option" where
  "dp_meter_lookup meters meter_id =
     find_index_from 0 (\<lambda>m. dp_meter_hash (mt_id m) = dp_meter_hash meter_id \<and> mt_id m = meter_id)
       meters"

definition dp_meter_detach_free :: "dp_meter list \<Rightarrow> u32 \<Rightarrow> dp_meter list" where
  "dp_meter_detach_free meters meter_id =
     (case dp_meter_lookup meters meter_id of
        None \<Rightarrow> meters
      | Some i \<Rightarrow> take i meters @ drop (Suc i) meters)"

definition dp_meter_attach :: "dp_meter list \<Rightarrow> dp_meter \<Rightarrow> dp_meter list" where
  "dp_meter_attach meters meter = meter # meters"

section \<open>Running a meter\<close>

text \<open>
  Milliseconds since the meter was used: \<open>now\<close> is signed, \<open>used\<close> is not, so the difference is
  computed without sign and then stored in a signed variable.
\<close>

definition long_delta_t :: "int \<Rightarrow> u64 \<Rightarrow> int" where
  "long_delta_t now used = sint (word_of_int (now sdiv 1000) - used div 1000 :: u64)"

definition meter_delta_t :: "int \<Rightarrow> dp_meter \<Rightarrow> u32" where
  "meter_delta_t now meter =
     (let d = max 0 (long_delta_t now (mt_used meter))
      in if int (unat (mt_max_delta_t meter)) < d then mt_max_delta_t meter else word_of_int d)"

definition max_bucket_size :: "dp_meter_band \<Rightarrow> u64" where
  "max_bucket_size band = ucast (bd_burst_size band) * 1000"

definition refill_bucket :: "u32 \<Rightarrow> dp_meter_band \<Rightarrow> u64" where
  "refill_bucket delta_t band =
     (let bucket = bd_bucket band + ucast delta_t * ucast (bd_rate band)
      in if max_bucket_size band < bucket then max_bucket_size band else bucket)"

text \<open>
  For each packet the rate and the number of the band that fires: \<open>exceeded_rate[i]\<close> (0 at
  first) and \<open>exceeded_band[i]\<close> (negative at first).  A band replaces another only if its rate
  is higher.
\<close>

type_synonym exceeded = "(u32 \<times> int) list"

definition bump :: "int \<Rightarrow> u32 \<Rightarrow> u32 \<times> int \<Rightarrow> u32 \<times> int" where
  "bump m rate e = (if fst e < rate then (rate, m) else e)"

text \<open>\<open>for (int i = band_exceeded_pkt; i < cnt; i++)\<close>.\<close>

fun mark_from :: "nat \<Rightarrow> int \<Rightarrow> u32 \<Rightarrow> exceeded \<Rightarrow> exceeded" where
  "mark_from k m rate [] = []"
| "mark_from 0 m rate (e # es) = bump m rate e # mark_from 0 m rate es"
| "mark_from (Suc k) m rate (e # es) = e # mark_from k m rate es"

text \<open>The loop over the packets when their sizes count.\<close>

fun drain_packets :: "u64 \<Rightarrow> int \<Rightarrow> u32 \<Rightarrow> u32 list \<Rightarrow> exceeded \<Rightarrow> u64 \<times> exceeded" where
  "drain_packets bucket m rate (sz # sizes) (e # es) =
     (let bits = ucast (sz * 8 :: u32)
      in if bits \<le> bucket then
           (case drain_packets (bucket - bits) m rate sizes es of (b, es') \<Rightarrow> (b, e # es'))
         else
           (case drain_packets bucket m rate sizes es of (b, es') \<Rightarrow> (b, bump m rate e # es')))"
| "drain_packets bucket m rate _ es = (bucket, es)"

text \<open>The body of the loop over the bands, for band \<open>m\<close>.\<close>

definition run_band ::
  "bool \<Rightarrow> u32 list \<Rightarrow> u32 \<Rightarrow> u32 \<Rightarrow> int \<Rightarrow> dp_meter_band \<Rightarrow> exceeded \<Rightarrow> dp_meter_band \<times> exceeded"
where
  "run_band pktps sizes delta_t volume m band exc =
     (let bucket = refill_bucket delta_t band
      in if ucast volume \<le> bucket then (band\<lparr>bd_bucket := bucket - ucast volume\<rparr>, exc)
         else if pktps then
           (band\<lparr>bd_bucket := bucket mod 1000\<rparr>,
            mark_from (unat (bucket div 1000)) m (bd_rate band) exc)
         else
           (case drain_packets bucket m (bd_rate band) sizes exc of
              (b, exc') \<Rightarrow> (band\<lparr>bd_bucket := b\<rparr>, exc')))"

fun run_bands ::
  "bool \<Rightarrow> u32 list \<Rightarrow> u32 \<Rightarrow> u32 \<Rightarrow> int \<Rightarrow> dp_meter_band list \<Rightarrow> exceeded
   \<Rightarrow> dp_meter_band list \<times> exceeded" where
  "run_bands pktps sizes delta_t volume m [] exc = ([], exc)"
| "run_bands pktps sizes delta_t volume m (b # bs) exc =
     (case run_band pktps sizes delta_t volume m b exc of (b', exc') \<Rightarrow>
        case run_bands pktps sizes delta_t volume (m + 1) bs exc' of (bs', exc'') \<Rightarrow>
          (b' # bs', exc''))"

text \<open>Fire the bands: a packet with a band is counted there and deleted, the others are kept.\<close>

fun fire_bands ::
  "dp_meter_band list \<Rightarrow> dpkt list \<Rightarrow> exceeded \<Rightarrow> (dp_meter_band list \<times> dpkt list \<times> dpkt list) c_result"
where
  "fire_bands bands (p # ps) (e # es) =
     (if 0 \<le> snd e then
        bindr (arr_get bands (nat (snd e))) (\<lambda>b.
        bindr (fire_bands (bands[nat (snd e) := b\<lparr>bd_packet_count := bd_packet_count b + 1,
                 bd_byte_count := bd_byte_count b + ucast (pk_size p)\<rparr>]) ps es)
          (\<lambda>(bands', kept, dropped). Inr (bands', kept, p # dropped)))
      else
        bindr (fire_bands bands ps es) (\<lambda>(bands', kept, dropped). Inr (bands', p # kept, dropped)))"
| "fire_bands bands _ _ = Inr (bands, [], [])"

definition meter_pktps :: "dp_meter \<Rightarrow> bool" where
  "meter_pktps meter \<longleftrightarrow> mt_flags meter AND OFPMF13_PKTPS \<noteq> 0"

definition run_one_meter ::
  "dp_meter \<Rightarrow> dpkt list \<Rightarrow> int \<Rightarrow> (dp_meter \<times> dpkt list \<times> dpkt list) c_result" where
  "run_one_meter meter packets now =
     (let delta_t = meter_delta_t now meter;
          sizes = map pk_size packets;
          bytes = sum_list sizes;
          cnt = of_nat (length packets);
          volume = (if meter_pktps meter then cnt * 1000 else bytes * 8);
          exc = replicate (length packets) (0, - 1);
          (bands, exc) = run_bands (meter_pktps meter) sizes delta_t volume 0 (mt_bands meter) exc;
          meter = meter\<lparr>mt_used := word_of_int now,
                        mt_packet_count := mt_packet_count meter + of_nat (length packets),
                        mt_byte_count := mt_byte_count meter + ucast bytes\<rparr>
      in bindr (fire_bands bands packets exc) (\<lambda>(bands', kept, dropped).
         Inr (meter\<lparr>mt_bands := bands'\<rparr>, kept, dropped)))"

text \<open>The packets kept in the batch and those deleted.  A meter that does not exist keeps all.\<close>

definition dp_netdev_run_meter ::
  "dp_meter list \<Rightarrow> dpkt list \<Rightarrow> u32 \<Rightarrow> int \<Rightarrow> (dp_meter list \<times> dpkt list \<times> dpkt list) c_result" where
  "dp_netdev_run_meter meters packets meter_id now =
     (if MAX_METERS \<le> meter_id then Inr (meters, packets, [])
      else case dp_meter_lookup meters meter_id of
        None \<Rightarrow> Inr (meters, packets, [])
      | Some i \<Rightarrow> bindr (run_one_meter (meters ! i) packets now) (\<lambda>(m', kept, dropped).
          Inr (meters[i := m'], kept, dropped)))"

section \<open>Setting, reading and deleting\<close>

record band_config =
  bc_type :: u16
  bc_rate :: u32
  bc_burst_size :: u32

record meter_config =
  mc_flags :: u16
  mc_bands :: "band_config list"

text \<open>
  The band and its \<open>band_max_delta_t\<close>: the quotient is computed in 64 bits and stored in 32.
  The configuration's burst size is written when it is zero.
\<close>

definition setup_band :: "band_config \<Rightarrow> (band_config \<times> dp_meter_band \<times> u32) c_result" where
  "setup_band c =
     (let c = (if bc_burst_size c = 0 then c\<lparr>bc_burst_size := bc_rate c\<rparr> else c);
          bucket = ucast (bc_burst_size c) * 1000
      in bindr (u64_div bucket (ucast (bc_rate c))) (\<lambda>q.
         Inr (c, \<lparr>bd_rate = bc_rate c, bd_burst_size = bc_burst_size c, bd_bucket = bucket,
                  bd_packet_count = 0, bd_byte_count = 0\<rparr>, ucast q)))"

fun setup_bands ::
  "band_config list \<Rightarrow> u32 \<Rightarrow> (band_config list \<times> dp_meter_band list \<times> u32) c_result" where
  "setup_bands [] max_delta = Inr ([], [], max_delta)"
| "setup_bands (c # cs) max_delta =
     bindr (setup_band c) (\<lambda>(c', b, d).
     bindr (setup_bands cs (if max_delta < d then d else max_delta)) (\<lambda>(cs', bs, m).
       Inr (c' # cs', b # bs, m)))"

definition dpif_netdev_meter_set ::
  "dp_meter list \<Rightarrow> u32 \<Rightarrow> meter_config \<Rightarrow> u64 \<Rightarrow> (int \<times> dp_meter list \<times> meter_config) c_result" where
  "dpif_netdev_meter_set meters mid config now =
     (if MAX_METERS \<le> mid then Inr (EFBIG, meters, config)
      else if mc_flags config AND NOT DP_SUPPORTED_METER_FLAGS_MASK \<noteq> 0
      then Inr (EBADF, meters, config)
      else if MAX_BANDS < length (mc_bands config) then Inr (E_INVAL, meters, config)
      else if \<exists>b\<in>set (mc_bands config). bc_type b \<noteq> OFPMBT13_DROP then Inr (ENODEV, meters, config)
      else
        bindr (setup_bands (mc_bands config) 0) (\<lambda>(cs, bands, max_delta).
          let meter = \<lparr>mt_id = mid, mt_flags = mc_flags config, mt_max_delta_t = max_delta,
                       mt_used = now, mt_packet_count = 0, mt_byte_count = 0, mt_bands = bands\<rparr>
          in Inr (0, dp_meter_attach (dp_meter_detach_free meters mid) meter,
                  config\<lparr>mc_bands := cs\<rparr>)))"

record meter_stats =
  ms_packet_in_count :: u64
  ms_byte_in_count :: u64
  ms_bands :: "(u64 \<times> u64) list"

text \<open>
  The statistics written, if the caller asks for them: at most \<open>n_bands\<close> bands (\<open>ms_bands\<close> has
  as many entries as \<open>stats->n_bands\<close> says).
\<close>

definition dpif_netdev_meter_get ::
  "dp_meter list \<Rightarrow> u32 \<Rightarrow> bool \<Rightarrow> nat \<Rightarrow> int \<times> meter_stats option" where
  "dpif_netdev_meter_get meters meter_id want n_bands =
     (if MAX_METERS \<le> meter_id then (EFBIG, None)
      else case dp_meter_lookup meters meter_id of
        None \<Rightarrow> (ENOENT, None)
      | Some i \<Rightarrow>
          (0, if want then Some \<lparr>ms_packet_in_count = mt_packet_count (meters ! i),
                 ms_byte_in_count = mt_byte_count (meters ! i),
                 ms_bands = map (\<lambda>b. (bd_packet_count b, bd_byte_count b))
                   (take n_bands (mt_bands (meters ! i)))\<rparr>
              else None))"

definition dpif_netdev_meter_del ::
  "dp_meter list \<Rightarrow> u32 \<Rightarrow> bool \<Rightarrow> nat \<Rightarrow> int \<times> meter_stats option \<times> dp_meter list" where
  "dpif_netdev_meter_del meters meter_id want n_bands =
     (case dpif_netdev_meter_get meters meter_id want n_bands of
        (err, stats) \<Rightarrow>
          (err, stats, if err = 0 then dp_meter_detach_free meters meter_id else meters))"

end
