(* ===== verification/Dpif_Meter_Laws.thy ===== *)
theory Dpif_Meter_Laws
  imports Dpif_Meter
begin

text \<open>
  What a meter promises, stated without its loops: which packets exceed a band
  (\<open>band_flags\<close>), which band fires for a packet (\<open>fires\<close>), and how many tokens a band has
  afterwards.  The loops of \<open>dp_netdev_run_meter\<close> are shown to compute exactly that.
\<close>

section \<open>One band\<close>

text \<open>The flags of the packets: whether each exceeds the band, given its refilled bucket.\<close>

fun drain_flags :: "u64 \<Rightarrow> u32 list \<Rightarrow> bool list" where
  "drain_flags bucket [] = []"
| "drain_flags bucket (sz # szs) =
     (if ucast (sz * 8 :: u32) \<le> bucket
      then False # drain_flags (bucket - ucast (sz * 8 :: u32)) szs
      else True # drain_flags bucket szs)"

fun drain_rest :: "u64 \<Rightarrow> u32 list \<Rightarrow> u64" where
  "drain_rest bucket [] = bucket"
| "drain_rest bucket (sz # szs) =
     (if ucast (sz * 8 :: u32) \<le> bucket
      then drain_rest (bucket - ucast (sz * 8 :: u32)) szs else drain_rest bucket szs)"

definition band_flags :: "bool \<Rightarrow> u32 list \<Rightarrow> u32 \<Rightarrow> u32 \<Rightarrow> dp_meter_band \<Rightarrow> bool list" where
  "band_flags pktps sizes delta_t volume band =
     (let bucket = refill_bucket delta_t band in
      if ucast volume \<le> bucket then replicate (length sizes) False
      else if pktps then map (\<lambda>i. unat (bucket div 1000) \<le> i) [0..<length sizes]
      else drain_flags bucket sizes)"

definition band_after :: "bool \<Rightarrow> u32 list \<Rightarrow> u32 \<Rightarrow> u32 \<Rightarrow> dp_meter_band \<Rightarrow> dp_meter_band" where
  "band_after pktps sizes delta_t volume band =
     (let bucket = refill_bucket delta_t band in
      band\<lparr>bd_bucket := if ucast volume \<le> bucket then bucket - ucast volume
             else if pktps then bucket mod 1000 else drain_rest bucket sizes\<rparr>)"

definition mark :: "int \<Rightarrow> u32 \<Rightarrow> bool list \<Rightarrow> exceeded \<Rightarrow> exceeded" where
  "mark m rate flags exc = map2 (\<lambda>x e. if x then bump m rate e else e) flags exc"

lemma length_drain_flags [simp]: "length (drain_flags b szs) = length szs"
  by (induction b szs rule: drain_flags.induct) auto

lemma length_band_flags [simp]:
  "length (band_flags pktps sizes delta_t volume band) = length sizes"
  by (simp add: band_flags_def Let_def)

lemma length_mark [simp]: "length (mark m rate flags exc) = min (length flags) (length exc)"
  by (simp add: mark_def)

lemma mark_none: "length exc = n \<Longrightarrow> mark m rate (replicate n False) exc = exc"
  by (induction n arbitrary: exc) (auto simp: mark_def length_Suc_conv)

lemma mark_from_eq:
  "mark_from k m rate exc = mark m rate (map (\<lambda>i. k \<le> i) [0..<length exc]) exc"
proof (induction k m rate exc rule: mark_from.induct)
  case (3 k m rate e es)
  have "map (\<lambda>i. Suc k \<le> i) [0..<length (e # es)] =
      False # map (\<lambda>i. k \<le> i) [0..<length es]"
    by (simp add: upt_conv_Cons map_Suc_upt [symmetric] comp_def del: upt_Suc)
  with 3 show ?case by (simp add: mark_def)
next
  case (2 m rate e es)
  have "map (\<lambda>i. 0 \<le> i) [0..<length (e # es)] = True # map (\<lambda>i. (0::nat) \<le> i) [0..<length es]"
    by (simp add: upt_conv_Cons map_Suc_upt [symmetric] comp_def del: upt_Suc)
  with 2 show ?case by (simp add: mark_def)
qed (simp add: mark_def)

lemma drain_packets_eq:
  "length szs = length exc \<Longrightarrow>
     drain_packets b m rate szs exc = (drain_rest b szs, mark m rate (drain_flags b szs) exc)"
  by (induction b m rate szs exc rule: drain_packets.induct)
     (auto simp: mark_def Let_def split: prod.splits)

lemma run_band_eq:
  assumes "length exc = length sizes"
  shows "run_band pktps sizes delta_t volume m band exc =
           (band_after pktps sizes delta_t volume band,
            mark m (bd_rate band) (band_flags pktps sizes delta_t volume band) exc)"
  using assms
  by (simp add: run_band_def band_after_def band_flags_def Let_def mark_none mark_from_eq
      drain_packets_eq)

section \<open>All bands\<close>

text \<open>The bands a packet exceeds, in order, reduced to the one that fires.\<close>

fun bump_all :: "int \<Rightarrow> (bool \<times> u32) list \<Rightarrow> u32 \<times> int \<Rightarrow> u32 \<times> int" where
  "bump_all m [] e = e"
| "bump_all m ((x, rate) # bs) e = bump_all (m + 1) bs (if x then bump m rate e else e)"

definition packet_bands ::
  "bool \<Rightarrow> u32 list \<Rightarrow> u32 \<Rightarrow> u32 \<Rightarrow> dp_meter_band list \<Rightarrow> nat \<Rightarrow> (bool \<times> u32) list" where
  "packet_bands pktps sizes delta_t volume bands i =
     map (\<lambda>b. (band_flags pktps sizes delta_t volume b ! i, bd_rate b)) bands"

lemma run_bands_eq:
  assumes "length exc = length sizes"
  shows "run_bands pktps sizes delta_t volume m bands exc =
           (map (band_after pktps sizes delta_t volume) bands,
            map (\<lambda>i. bump_all m (packet_bands pktps sizes delta_t volume bands i) (exc ! i))
              [0..<length exc])"
  using assms
proof (induction bands arbitrary: m exc)
  case Nil
  then show ?case using map_nth [of exc] by (simp add: packet_bands_def)
next
  case (Cons b bands)
  let ?exc = "mark m (bd_rate b) (band_flags pktps sizes delta_t volume b) exc"
  have len: "length ?exc = length sizes" using Cons.prems by simp
  have nth: "?exc ! i = (if band_flags pktps sizes delta_t volume b ! i
      then bump m (bd_rate b) (exc ! i) else exc ! i)" if "i < length sizes" for i
    using that Cons.prems by (simp add: mark_def)
  show ?case
    using Cons.prems
    by (simp add: run_band_eq [OF Cons.prems] Cons.IH [OF len] packet_bands_def nth)
qed

text \<open>
  The band that fires: none if the packet exceeds no band with a rate; otherwise the first
  one of the highest rate among those it exceeds.
\<close>

definition fires :: "(bool \<times> u32) list \<Rightarrow> u32 \<times> int \<Rightarrow> bool" where
  "fires bs e \<longleftrightarrow>
     (if \<forall>k<length bs. \<not> (fst (bs ! k) \<and> 0 < snd (bs ! k)) then e = (0, - 1)
      else \<exists>k<length bs. e = (snd (bs ! k), int k) \<and> fst (bs ! k) \<and> 0 < snd (bs ! k) \<and>
             (\<forall>j<length bs. fst (bs ! j) \<longrightarrow> snd (bs ! j) \<le> snd (bs ! k)) \<and>
             (\<forall>j<k. fst (bs ! j) \<longrightarrow> snd (bs ! j) < snd (bs ! k)))"

lemma bump_all_append:
  "bump_all m (bs @ [(x, rate)]) e =
     (if x then bump (m + int (length bs)) rate (bump_all m bs e) else bump_all m bs e)"
  by (induction m bs e rule: bump_all.induct) (simp_all add: ac_simps)

lemma firesI:
  assumes "k < length bs" and "fst (bs ! k)" and "0 < snd (bs ! k)"
    and "\<And>j. j < length bs \<Longrightarrow> fst (bs ! j) \<Longrightarrow> snd (bs ! j) \<le> snd (bs ! k)"
    and "\<And>j. j < k \<Longrightarrow> fst (bs ! j) \<Longrightarrow> snd (bs ! j) < snd (bs ! k)"
  shows "fires bs (snd (bs ! k), int k)"
proof -
  have "\<not> (\<forall>k<length bs. \<not> (fst (bs ! k) \<and> 0 < snd (bs ! k)))" using assms(1-3) by blast
  then show ?thesis unfolding fires_def using assms by auto
qed

lemma fires_cases:
  assumes "fires bs e"
  obtains (none) "e = (0, - 1)" and "\<And>k. k < length bs \<Longrightarrow> fst (bs ! k) \<Longrightarrow> snd (bs ! k) = 0"
  | (some) k where "k < length bs" and "e = (snd (bs ! k), int k)" and "fst (bs ! k)"
      and "0 < snd (bs ! k)" and "\<And>j. j < length bs \<Longrightarrow> fst (bs ! j) \<Longrightarrow> snd (bs ! j) \<le> snd (bs ! k)"
      and "\<And>j. j < k \<Longrightarrow> fst (bs ! j) \<Longrightarrow> snd (bs ! j) < snd (bs ! k)"
proof (cases "\<forall>k<length bs. \<not> (fst (bs ! k) \<and> 0 < snd (bs ! k))")
  case True
  then show thesis using none assms by (simp add: fires_def word_neq_0_conv [symmetric])
next
  case False
  with assms have "\<exists>k<length bs. e = (snd (bs ! k), int k) \<and> fst (bs ! k) \<and> 0 < snd (bs ! k) \<and>
      (\<forall>j<length bs. fst (bs ! j) \<longrightarrow> snd (bs ! j) \<le> snd (bs ! k)) \<and>
      (\<forall>j<k. fst (bs ! j) \<longrightarrow> snd (bs ! j) < snd (bs ! k))"
    unfolding fires_def by argo
  then show thesis using some by blast
qed

lemma fires_none: "(\<And>k. k < length bs \<Longrightarrow> fst (bs ! k) \<Longrightarrow> snd (bs ! k) = 0) \<Longrightarrow> fires bs (0, - 1)"
  by (simp add: fires_def word_neq_0_conv [symmetric])

lemma fires_step:
  assumes "fires bs e"
  shows "fires (bs @ [(x, rate)]) (if x then bump (int (length bs)) rate e else e)"
  using assms
proof (cases rule: fires_cases)
  case none
  show ?thesis
  proof (cases "x \<and> rate \<noteq> 0")
    case True
    then have "bump (int (length bs)) rate e = (rate, int (length bs))"
      by (simp add: none(1) bump_def word_neq_0_conv [symmetric])
    then show ?thesis
      using firesI [of "length bs" "bs @ [(x, rate)]"] True none(2)
      by (force simp: nth_append less_Suc_eq word_neq_0_conv)
  next
    case False
    then have "(if x then bump (int (length bs)) rate e else e) = (0, - 1)"
      by (auto simp: none(1) bump_def)
    moreover have "fires (bs @ [(x, rate)]) (0, - 1)"
      by (rule fires_none) (use none(2) False in \<open>auto simp: nth_append less_Suc_eq\<close>)
    ultimately show ?thesis by simp
  qed
next
  case (some k)
  show ?thesis
  proof (cases "x \<and> snd (bs ! k) < rate")
    case True
    then have r: "bump (int (length bs)) rate e = (rate, int (length bs))" "0 < rate"
      using some(4) by (auto simp: some(2) bump_def)
    have lt: "snd (bs ! j) < rate" if "j < length bs" "fst (bs ! j)" for j
      using some(5) [OF that] True by (meson le_less_trans)
    have "fires (bs @ [(x, rate)]) (snd ((bs @ [(x, rate)]) ! length bs), int (length bs))"
      by (rule firesI) (use True r(2) lt in \<open>auto simp: nth_append less_Suc_eq order.strict_implies_order\<close>)
    then show ?thesis using True r(1) by simp
  next
    case False
    then have e: "(if x then bump (int (length bs)) rate e else e) = e"
      by (auto simp: some(2) bump_def)
    have "fires (bs @ [(x, rate)]) (snd ((bs @ [(x, rate)]) ! k), int k)"
      by (rule firesI) (use some False in \<open>auto simp: nth_append less_Suc_eq not_less\<close>)
    then show ?thesis unfolding e using some(1,2) by (simp add: nth_append)
  qed
qed

lemma bump_all_fires: "fires bs (bump_all 0 bs (0, - 1))"
proof (induction bs rule: rev_induct)
  case Nil
  then show ?case by (simp add: fires_def)
next
  case (snoc b bs)
  obtain x rate where "b = (x, rate)" by (cases b)
  then show ?case
    using fires_step [OF snoc, of x rate] by (cases x) (simp_all add: bump_all_append)
qed

lemma fires_none_iff:
  assumes "fires bs e"
  shows "snd e < 0 \<longleftrightarrow> (\<forall>k<length bs. fst (bs ! k) \<longrightarrow> snd (bs ! k) = 0)"
  using assms
proof (cases rule: fires_cases)
  case none
  then show ?thesis by simp
next
  case (some k)
  then have "snd (bs ! k) \<noteq> 0" by auto
  then show ?thesis using some(1-3) by auto
qed

lemma fires_in_range: "fires bs e \<Longrightarrow> 0 \<le> snd e \<Longrightarrow> nat (snd e) < length bs"
  by (erule fires_cases) auto


section \<open>Firing\<close>

text \<open>What the last loop counts for the band at position \<open>k\<close>.\<close>

definition fired_at :: "exceeded \<Rightarrow> dpkt list \<Rightarrow> nat \<Rightarrow> dpkt list" where
  "fired_at exc ps k = map fst (filter (\<lambda>(p, e). snd e = int k) (zip ps exc))"

definition count_band :: "dp_meter_band \<Rightarrow> dpkt list \<Rightarrow> dp_meter_band" where
  "count_band b ps = b\<lparr>bd_packet_count := bd_packet_count b + of_nat (length ps),
     bd_byte_count := bd_byte_count b + (\<Sum>p\<leftarrow>ps. ucast (pk_size p))\<rparr>"

lemma count_band_Nil [simp]: "count_band b [] = b"
  by (simp add: count_band_def)

lemma count_band_Cons:
  "count_band (b\<lparr>bd_packet_count := bd_packet_count b + 1,
                 bd_byte_count := bd_byte_count b + ucast (pk_size p)\<rparr>) ps = count_band b (p # ps)"
  by (simp add: count_band_def ac_simps)

lemma fire_bands_result:
  assumes "length exc = length ps" and "\<forall>e\<in>set exc. 0 \<le> snd e \<longrightarrow> nat (snd e) < length bands"
  shows "fire_bands bands ps exc = Inr (map (\<lambda>k. count_band (bands ! k) (fired_at exc ps k)) [0..<length bands],
             map fst (filter (\<lambda>(p, e). snd e < 0) (zip ps exc)),
             map fst (filter (\<lambda>(p, e). 0 \<le> snd e) (zip ps exc)))"
  using assms
proof (induction exc arbitrary: ps bands)
  case Nil
  then show ?case by (simp add: fired_at_def map_nth)
next
  case (Cons e exc)
  obtain p qs where ps: "ps = p # qs" "length exc = length qs"
    using Cons.prems(1) by (cases ps) auto
  show ?case
  proof (cases "0 \<le> snd e")
    case False
    then have "fired_at (e # exc) ps k = fired_at exc qs k" for k
      by (auto simp: fired_at_def ps)
    then show ?thesis
      using Cons.IH [OF ps(2), of bands] Cons.prems(2) False by (simp add: ps not_le)
  next
    case True
    define k0 where "k0 = nat (snd e)"
    have k0: "k0 < length bands" "snd e = int k0" using Cons.prems(2) True by (auto simp: k0_def)
    let ?b = "(bands ! k0)\<lparr>bd_packet_count := bd_packet_count (bands ! k0) + 1,
        bd_byte_count := bd_byte_count (bands ! k0) + ucast (pk_size p)\<rparr>"
    have fired: "fired_at (e # exc) ps k = (if k = k0 then p # fired_at exc qs k else fired_at exc qs k)"
      for k by (auto simp: fired_at_def ps k0(2))
    have "map (\<lambda>k. count_band (bands[k0 := ?b] ! k) (fired_at exc qs k)) [0..<length bands] =
        map (\<lambda>k. count_band (bands ! k) (fired_at (e # exc) ps k)) [0..<length bands]"
      by (rule map_cong [OF refl]) (simp add: fired count_band_Cons)
    moreover have "\<forall>e\<in>set exc. 0 \<le> snd e \<longrightarrow> nat (snd e) < length (bands[k0 := ?b])"
      using Cons.prems(2) by simp
    note Cons.IH [OF ps(2) this]
    ultimately show ?thesis using k0 by (simp add: ps)
  qed
qed


lemma fires_unique: "fires bs e \<Longrightarrow> fires bs e' \<Longrightarrow> e = e'"
proof (erule fires_cases)
  assume none: "e = (0, - 1)" "\<And>k. k < length bs \<Longrightarrow> fst (bs ! k) \<Longrightarrow> snd (bs ! k) = 0"
    and "fires bs e'"
  from this(3) show "e = e'" by (cases rule: fires_cases) (use none in auto)
next
  fix k
  assume k: "k < length bs" "e = (snd (bs ! k), int k)" "fst (bs ! k)" "0 < snd (bs ! k)"
    "\<And>j. j < length bs \<Longrightarrow> fst (bs ! j) \<Longrightarrow> snd (bs ! j) \<le> snd (bs ! k)"
    "\<And>j. j < k \<Longrightarrow> fst (bs ! j) \<Longrightarrow> snd (bs ! j) < snd (bs ! k)" and "fires bs e'"
  from this(7) show "e = e'"
  proof (cases rule: fires_cases)
    case none
    then show ?thesis using k by force
  next
    case (some k')
    have "k = k'"
    proof (rule linorder_cases [of k k'])
      assume "k < k'"
      then show ?thesis using some(6) [of k] k(3) k(5) [of k'] some(1,3) by fastforce
    next
      assume "k' < k"
      then show ?thesis using k(6) [of k'] some(3) some(5) [of k] k(1,3) by fastforce
    qed
    then show ?thesis using k(2) some(2) by simp
  qed
qed

text \<open>The run of a meter, without its loops.\<close>

definition meter_volume :: "dp_meter \<Rightarrow> dpkt list \<Rightarrow> u32" where
  "meter_volume meter packets =
     (if meter_pktps meter then of_nat (length packets) * 1000
      else sum_list (map pk_size packets) * 8)"

abbreviation meter_flags :: "dp_meter \<Rightarrow> dpkt list \<Rightarrow> int \<Rightarrow> dp_meter_band \<Rightarrow> bool list" where
  "meter_flags meter packets now \<equiv> band_flags (meter_pktps meter) (map pk_size packets)
     (meter_delta_t now meter) (meter_volume meter packets)"

abbreviation meter_packet_bands :: "dp_meter \<Rightarrow> dpkt list \<Rightarrow> int \<Rightarrow> nat \<Rightarrow> (bool \<times> u32) list" where
  "meter_packet_bands meter packets now \<equiv> packet_bands (meter_pktps meter) (map pk_size packets)
     (meter_delta_t now meter) (meter_volume meter packets) (mt_bands meter)"

lemma filter_zip_nths:
  "map fst (filter (\<lambda>(p, e). Q e) (zip ps (map f [0..<length ps]))) = nths ps {i. Q (f i)}"
  by (simp add: nths_def zip_map2 filter_map comp_def case_prod_beta)

lemma run_one_meter_result:
  "run_one_meter meter packets now = Inr
     (meter\<lparr>mt_used := word_of_int now,
        mt_packet_count := mt_packet_count meter + of_nat (length packets),
        mt_byte_count := mt_byte_count meter + ucast (sum_list (map pk_size packets)),
        mt_bands := map (\<lambda>k. count_band (band_after (meter_pktps meter) (map pk_size packets)
            (meter_delta_t now meter) (meter_volume meter packets) (mt_bands meter ! k))
          (nths packets {i. \<exists>r. fires (meter_packet_bands meter packets now i) (r, int k)}))
          [0..<length (mt_bands meter)]\<rparr>,
      nths packets {i. \<forall>b\<in>set (mt_bands meter). meter_flags meter packets now b ! i \<longrightarrow> bd_rate b = 0},
      nths packets {i. \<not> (\<forall>b\<in>set (mt_bands meter). meter_flags meter packets now b ! i \<longrightarrow> bd_rate b = 0)})"
proof -
  let ?pb = "meter_packet_bands meter packets now"
  let ?f = "\<lambda>i. bump_all 0 (?pb i) (0, - 1)"
  let ?exc = "map ?f [0..<length packets]"
  let ?bands = "map (band_after (meter_pktps meter) (map pk_size packets)
      (meter_delta_t now meter) (meter_volume meter packets)) (mt_bands meter)"
  have runs: "run_bands (meter_pktps meter) (map pk_size packets) (meter_delta_t now meter)
      (meter_volume meter packets) 0 (mt_bands meter) (replicate (length packets) (0, - 1)) = (?bands, ?exc)"
    by (simp add: run_bands_eq)
  have len: "length (?pb i) = length ?bands" for i by (simp add: packet_bands_def)
  have "nat (snd (?f i)) < length ?bands" if "0 \<le> snd (?f i)" for i
    using fires_in_range [OF bump_all_fires that] len [of i] by simp
  then have "\<forall>e\<in>set ?exc. 0 \<le> snd e \<longrightarrow> nat (snd e) < length ?bands" by auto
  from fire_bands_result [OF _ this, of packets] have fire: "fire_bands ?bands packets ?exc = Inr
      (map (\<lambda>k. count_band (?bands ! k) (fired_at ?exc packets k)) [0..<length ?bands],
       map fst (filter (\<lambda>(p, e). snd e < 0) (zip packets ?exc)),
       map fst (filter (\<lambda>(p, e). 0 \<le> snd e) (zip packets ?exc)))"
    by simp
  have fired: "fired_at ?exc packets k = nths packets {i. \<exists>r. fires (?pb i) (r, int k)}" for k
  proof -
    have "snd (?f i) = int k \<longleftrightarrow> (\<exists>r. fires (?pb i) (r, int k))" for i
      using bump_all_fires [of "?pb i"] fires_unique by (metis prod.collapse snd_conv)
    then show ?thesis unfolding fired_at_def filter_zip_nths [of "\<lambda>e. snd e = int k"] by simp
  qed
  have neg: "snd (?f i) < 0 \<longleftrightarrow>
      (\<forall>b\<in>set (mt_bands meter). meter_flags meter packets now b ! i \<longrightarrow> bd_rate b = 0)" for i
    using fires_none_iff [OF bump_all_fires [of "?pb i"]]
    by (auto simp: packet_bands_def all_set_conv_all_nth)
  have kept: "map fst (filter (\<lambda>(p, e). snd e < 0) (zip packets ?exc)) = nths packets
      {i. \<forall>b\<in>set (mt_bands meter). meter_flags meter packets now b ! i \<longrightarrow> bd_rate b = 0}"
    unfolding filter_zip_nths [of "\<lambda>e. snd e < 0"] neg ..
  have dropped: "map fst (filter (\<lambda>(p, e). 0 \<le> snd e) (zip packets ?exc)) = nths packets
      {i. \<not> (\<forall>b\<in>set (mt_bands meter). meter_flags meter packets now b ! i \<longrightarrow> bd_rate b = 0)}"
    unfolding filter_zip_nths [of "\<lambda>e. 0 \<le> snd e"] neg [symmetric] not_less ..
  show ?thesis
    using runs fire unfolding kept dropped fired
    by (simp add: run_one_meter_def meter_volume_def Let_def cong: map_cong)
qed


section \<open>Tokens\<close>

text \<open>
  What a packet costs: 1000 thousandths of a packet, or its bits.  A run spends the tokens of
  every band exactly on the packets that do not exceed it.
\<close>

definition packet_cost :: "bool \<Rightarrow> u32 \<Rightarrow> nat" where
  "packet_cost pktps sz = (if pktps then 1000 else 8 * unat sz)"

text \<open>The sizes of a batch are small enough not to wrap around in 32 bits.\<close>

definition batch_fits :: "u32 list \<Rightarrow> bool" where
  "batch_fits sizes \<longleftrightarrow> length sizes * 1000 < 2 ^ 32 \<and> 8 * sum_list (map unat sizes) < 2 ^ 32"

lemma unat_sum_list:
  "sum_list (map unat xs) < 2 ^ 32 \<Longrightarrow> unat (sum_list xs :: u32) = sum_list (map unat xs)"
proof (induction xs)
  case (Cons x xs)
  then have IH: "unat (sum_list xs) = sum_list (map unat xs)" by simp
  have "unat (x + sum_list xs) = unat x + unat (sum_list xs)"
    using Cons.prems IH by (subst unat_add_lem [THEN iffD1]) simp_all
  then show ?case using IH by simp
qed simp

lemma unat_times_8: "8 * unat sz < 2 ^ 32 \<Longrightarrow> unat (sz * 8 :: u32) = 8 * unat sz"
  by (subst unat_mult_lem [THEN iffD1]) (simp_all add: mult.commute)

lemma meter_volume_cost:
  assumes "batch_fits (map pk_size packets)"
  shows "unat (meter_volume meter packets) =
           (\<Sum>i<length packets. packet_cost (meter_pktps meter) (pk_size (packets ! i)))"
proof (cases "meter_pktps meter")
  case True
  have "unat (of_nat (length packets) * (1000 :: u32)) = length packets * 1000"
    using assms by (subst unat_mult_lem [THEN iffD1]) (simp_all add: batch_fits_def unat_of_nat)
  then show ?thesis using True by (simp add: meter_volume_def packet_cost_def)
next
  case False
  have "unat (sum_list (map pk_size packets)) = sum_list (map unat (map pk_size packets))"
    using assms by (intro unat_sum_list) (simp add: batch_fits_def)
  moreover have "sum_list (map unat (map pk_size packets)) = (\<Sum>i<length packets. unat (pk_size (packets ! i)))"
    by (simp add: sum_list_sum_nth atLeast0LessThan)
  moreover have "unat (sum_list (map pk_size packets) * 8) = 8 * unat (sum_list (map pk_size packets))"
    using assms calculation(1) by (intro unat_times_8) (simp add: batch_fits_def)
  ultimately show ?thesis using False by (simp add: meter_volume_def packet_cost_def sum_distrib_left)
qed

lemma drain_spends:
  assumes "8 * sum_list (map unat szs) < 2 ^ 32"
  shows "(\<Sum>i<length szs. if drain_flags b szs ! i then 0 else 8 * unat (szs ! i)) +
           unat (drain_rest b szs) = unat b"
  using assms
proof (induction b szs rule: drain_flags.induct)
  case (2 b sz szs)
  have bits: "unat (ucast (sz * 8 :: u32) :: u64) = 8 * unat sz"
    using 2 (3) by (simp add: unat_times_8)
  show ?case
  proof (cases "ucast (sz * 8 :: u32) \<le> b")
    case True
    then have "unat (b - ucast (sz * 8 :: u32)) = unat b - 8 * unat sz" "8 * unat sz \<le> unat b"
      using bits unat_sub [OF True] by (simp_all add: word_le_nat_alt)
    then show ?thesis
      using 2(1) [OF True] 2(3) True by (simp add: sum.lessThan_Suc_shift del: sum.lessThan_Suc cong: if_cong)
  next
    case False
    then show ?thesis
      using 2(2) [OF False] 2(3) by (simp add: sum.lessThan_Suc_shift del: sum.lessThan_Suc cong: if_cong)
  qed
qed simp

lemma band_spends:
  assumes "batch_fits (map pk_size packets)"
  shows "(\<Sum>i<length packets. if meter_flags meter packets now b ! i then 0
             else packet_cost (meter_pktps meter) (pk_size (packets ! i))) +
         unat (bd_bucket (band_after (meter_pktps meter) (map pk_size packets)
           (meter_delta_t now meter) (meter_volume meter packets) b)) =
         unat (refill_bucket (meter_delta_t now meter) b)"
proof -
  let ?B = "refill_bucket (meter_delta_t now meter) b"
  let ?V = "ucast (meter_volume meter packets) :: u64"
  have V: "unat ?V = (\<Sum>i<length packets. packet_cost (meter_pktps meter) (pk_size (packets ! i)))"
    using meter_volume_cost [OF assms, of meter] by simp
  consider "?V \<le> ?B" | "\<not> ?V \<le> ?B" "meter_pktps meter" | "\<not> ?V \<le> ?B" "\<not> meter_pktps meter"
    by blast
  then show ?thesis
  proof cases
    case 1
    then have "unat (?B - ?V) = unat ?B - unat ?V" "unat ?V \<le> unat ?B"
      using unat_sub [OF 1] by (simp_all add: word_le_nat_alt)
    then show ?thesis using 1 V by (simp add: band_flags_def band_after_def Let_def)
  next
    case 2
    let ?k = "unat (?B div 1000)"
    have k: "?k \<le> length packets"
      using 2 V by (simp add: word_le_nat_alt unat_div packet_cost_def)
    have "(\<Sum>i<length packets. if ?k \<le> i then 0 else (1000::nat)) = 1000 * ?k"
    proof -
      have "(\<Sum>i<length packets. if ?k \<le> i then 0 else (1000::nat)) =
          (\<Sum>i\<in>{..<length packets} \<inter> {i. i < ?k}. 1000)"
        by (subst sum.inter_restrict) (auto intro!: sum.cong)
      also have "{..<length packets} \<inter> {i. i < ?k} = {..<?k}" using k by auto
      finally show ?thesis by simp
    qed
    moreover have "1000 * ?k + unat (?B mod 1000) = unat ?B"
      by (simp add: unat_div unat_mod)
    ultimately show ?thesis
      using 2 by (simp add: band_flags_def band_after_def Let_def packet_cost_def cong: if_cong)
  next
    case 3
    have fits: "8 * sum_list (map unat (map pk_size packets)) < 2 ^ 32"
      using assms by (simp add: batch_fits_def)
    show ?thesis
      using 3 drain_spends [OF fits, of ?B]
      by (simp add: band_flags_def band_after_def Let_def packet_cost_def cong: if_cong)
  qed
qed

lemma refill_le:
  "unat (refill_bucket delta b) \<le> unat (bd_bucket b) + unat delta * unat (bd_rate b)"
  "unat (refill_bucket delta b) \<le> unat (bd_burst_size b) * 1000"
proof -
  let ?s = "bd_bucket b + ucast delta * ucast (bd_rate b) :: u64"
  have m: "unat (max_bucket_size b) = unat (bd_burst_size b) * 1000"
  proof -
    have "unat (bd_burst_size b) < 2 ^ 32" using unsigned_less [of "bd_burst_size b"] by simp
    then show ?thesis
      unfolding max_bucket_size_def
      by (subst unat_mult_lem [THEN iffD1]) simp_all
  qed
  have p: "unat (ucast delta * ucast (bd_rate b) :: u64) \<le> unat delta * unat (bd_rate b)"
    by (simp add: unat_word_ariths)
  have "unat ?s \<le> unat (bd_bucket b) + unat (ucast delta * ucast (bd_rate b) :: u64)"
    by (simp add: unat_word_ariths)
  with p have s: "unat ?s \<le> unat (bd_bucket b) + unat delta * unat (bd_rate b)" by linarith
  show "unat (refill_bucket delta b) \<le> unat (bd_bucket b) + unat delta * unat (bd_rate b)"
    using s by (auto simp: refill_bucket_def Let_def word_less_nat_alt)
  show "unat (refill_bucket delta b) \<le> unat (bd_burst_size b) * 1000"
    using m by (auto simp: refill_bucket_def Let_def word_less_nat_alt)
qed

end
