(* ===== verification/Ovs_Tables.thy ===== *)
theory Ovs_Tables
  imports Repath_Prelude
begin

text \<open>
  The tables of the datapath that hold one node per key (meters, ports, bonds): what their
  users rely on, as an interface, and the lists that implement them.
\<close>

section \<open>The interface\<close>

text \<open>
  \<open>find\<close> is the node of a key, \<open>add\<close> links a node whose key is not in the table, \<open>del\<close> unlinks
  the node of a key, if there is one.
\<close>

locale node_table =
  fixes key :: "'v \<Rightarrow> 'k" and inv :: "'t \<Rightarrow> bool" and find :: "'t \<Rightarrow> 'k \<Rightarrow> 'v option"
    and add :: "'t \<Rightarrow> 'v \<Rightarrow> 't" and del :: "'t \<Rightarrow> 'k \<Rightarrow> 't"
  assumes find_key: "inv t \<Longrightarrow> find t k = Some v \<Longrightarrow> key v = k"
    and find_add: "inv t \<Longrightarrow> find t (key v) = None \<Longrightarrow> find (add t v) = (find t)(key v \<mapsto> v)"
    and inv_add: "inv t \<Longrightarrow> find t (key v) = None \<Longrightarrow> inv (add t v)"
    and find_del: "inv t \<Longrightarrow> find (del t k) = (find t)(k := None)"
    and inv_del: "inv t \<Longrightarrow> inv (del t k)"
begin

definition replace :: "'t \<Rightarrow> 'v \<Rightarrow> 't" where
  "replace t v = add (del t (key v)) v"

lemma find_replace: "inv t \<Longrightarrow> find (replace t v) = (find t)(key v \<mapsto> v)"
  by (simp add: replace_def find_add find_del inv_del)

lemma inv_replace: "inv t \<Longrightarrow> inv (replace t v)"
  by (simp add: replace_def inv_add inv_del find_del)

lemma replace_other: "inv t \<Longrightarrow> k \<noteq> key v \<Longrightarrow> find (replace t v) k = find t k"
  by (simp add: find_replace)

lemma del_absent: "inv t \<Longrightarrow> find t k = None \<Longrightarrow> find (del t k) = find t"
  by (simp add: find_del fun_upd_idem)

lemma del_twice: "inv t \<Longrightarrow> find (del (del t k) k) = find (del t k)"
  by (simp add: find_del inv_del)

lemma add_del: "inv t \<Longrightarrow> find t (key v) = None \<Longrightarrow> find (del (add t v) (key v)) = find t"
  by (simp add: find_add find_del inv_add fun_upd_idem)

end

section \<open>Lists of nodes\<close>

text \<open>The first node of a key, and the list without it.\<close>

definition node_find :: "('v \<Rightarrow> 'k) \<Rightarrow> 'v list \<Rightarrow> 'k \<Rightarrow> 'v option" where
  "node_find key xs k = map_option (\<lambda>i. xs ! i) (find_index_from 0 (\<lambda>x. key x = k) xs)"

definition node_del :: "('v \<Rightarrow> 'k) \<Rightarrow> 'v list \<Rightarrow> 'k \<Rightarrow> 'v list" where
  "node_del key xs k = (case find_index_from 0 (\<lambda>x. key x = k) xs of
     None \<Rightarrow> xs | Some i \<Rightarrow> take i xs @ drop (Suc i) xs)"

lemma find_index_from_Suc:
  "find_index_from (Suc i) P xs = map_option Suc (find_index_from i P xs)"
  by (induction xs arbitrary: i) auto

lemma node_find_simps [simp]:
  "node_find key [] k = None"
  "node_find key (x # xs) k = (if key x = k then Some x else node_find key xs k)"
  by (simp_all add: node_find_def find_index_from_Suc option.map_comp comp_def)

lemma node_del_simps [simp]:
  "node_del key [] k = []"
  "node_del key (x # xs) k = (if key x = k then xs else x # node_del key xs k)"
  by (cases "find_index_from 0 (\<lambda>x. key x = k) xs";
      simp add: node_del_def find_index_from_Suc del: find_index_from_None_iff)+

lemma node_find_None [simp]: "node_find key xs k = None \<longleftrightarrow> k \<notin> key ` set xs"
  by (induction xs) auto

lemma node_find_Some: "node_find key xs k = Some v \<Longrightarrow> v \<in> set xs \<and> key v = k"
  by (induction xs) (auto split: if_splits)

lemma node_find_in: "distinct (map key xs) \<Longrightarrow> v \<in> set xs \<Longrightarrow> node_find key xs (key v) = Some v"
  by (induction xs) (auto simp: image_iff)

lemma set_node_del: "distinct (map key xs) \<Longrightarrow> set (node_del key xs k) = {x \<in> set xs. key x \<noteq> k}"
  by (induction xs) (auto simp: image_iff)

lemma distinct_node_del: "distinct (map key xs) \<Longrightarrow> distinct (map key (node_del key xs k))"
  by (induction xs) (auto simp: set_node_del)

lemma node_find_del:
  "distinct (map key xs) \<Longrightarrow> node_find key (node_del key xs k) = (node_find key xs)(k := None)"
  by (induction xs) (auto simp: fun_eq_iff)

interpretation nodes: node_table key "\<lambda>xs. distinct (map key xs)" "node_find key" "\<lambda>xs x. x # xs"
  "node_del key"
  for key :: "'v \<Rightarrow> 'k"
  by unfold_locales (auto simp: fun_eq_iff node_find_del distinct_node_del dest: node_find_Some)

end
