(* ===== verification/Dpif_Meter_Properties.thy ===== *)
theory Dpif_Meter_Properties
  imports Dpif_Meter_Laws Ovs_Tables
begin

text \<open>
  Properties of the meters: the rate limit they enforce over any sequence of batches, the
  packets they drop and the bands that count them, the bounds of the buckets, and the
  operations that set, read and delete meters.
\<close>

section \<open>Kept packets pay\<close>

lemma sum_list_nths:
  "(\<Sum>p\<leftarrow>nths xs K. f p) = (\<Sum>i<length xs. if i \<in> K then f (xs ! i) else (0 :: nat))"
proof (induction xs rule: rev_induct)
  case (snoc x xs)
  have "nths (xs @ [x]) K = nths xs K @ (if length xs \<in> K then [x] else [])"
    by (simp add: nths_append nths_singleton)
  then show ?case using snoc by (simp add: nth_append cong: if_cong)
qed simp

lemma run_one_meter_pays:
  assumes "batch_fits (map pk_size packets)" and "k < length (mt_bands meter)"
    and "bd_rate (mt_bands meter ! k) \<noteq> 0"
    and "run_one_meter meter packets now = Inr (meter', kept, dropped)"
  shows "(\<Sum>p\<leftarrow>kept. packet_cost (meter_pktps meter) (pk_size p)) + unat (bd_bucket (mt_bands meter' ! k))
           \<le> unat (bd_bucket (mt_bands meter ! k)) +
             unat (meter_delta_t now meter) * unat (bd_rate (mt_bands meter ! k))"
    and "length (mt_bands meter') = length (mt_bands meter)"
    and "bd_rate (mt_bands meter' ! k) = bd_rate (mt_bands meter ! k)"
    and "mt_id meter' = mt_id meter" and "mt_flags meter' = mt_flags meter"
    and "mt_used meter' = word_of_int now"
proof -
  let ?b = "mt_bands meter ! k" and ?cost = "\<lambda>p. packet_cost (meter_pktps meter) (pk_size p)"
  let ?after = "band_after (meter_pktps meter) (map pk_size packets) (meter_delta_t now meter)
      (meter_volume meter packets)"
  let ?K = "{i. \<forall>b\<in>set (mt_bands meter). meter_flags meter packets now b ! i \<longrightarrow> bd_rate b = 0}"
  have kept: "kept = nths packets ?K"
    and m': "meter' = meter\<lparr>mt_used := word_of_int now,
        mt_packet_count := mt_packet_count meter + of_nat (length packets),
        mt_byte_count := mt_byte_count meter + ucast (sum_list (map pk_size packets)),
        mt_bands := map (\<lambda>k. count_band (?after (mt_bands meter ! k))
          (nths packets {i. \<exists>r. fires (meter_packet_bands meter packets now i) (r, int k)}))
          [0..<length (mt_bands meter)]\<rparr>"
    using assms(4) unfolding run_one_meter_result by blast+
  have "?b \<in> set (mt_bands meter)" using assms(2) by simp
  then have "(if i \<in> ?K then ?cost (packets ! i) else 0) \<le>
      (if meter_flags meter packets now ?b ! i then 0 else ?cost (packets ! i))" for i
    using assms(3) by auto
  then have "(\<Sum>i<length packets. if i \<in> ?K then ?cost (packets ! i) else 0) \<le>
      (\<Sum>i<length packets. if meter_flags meter packets now ?b ! i then 0 else ?cost (packets ! i))"
    by (intro sum_mono)
  then have "(\<Sum>p\<leftarrow>kept. ?cost p) + unat (bd_bucket (?after ?b)) \<le>
      unat (refill_bucket (meter_delta_t now meter) ?b)"
    using band_spends [OF assms(1), of meter now ?b] unfolding kept sum_list_nths by linarith
  moreover have band: "mt_bands meter' ! k = count_band (?after ?b)
      (nths packets {i. \<exists>r. fires (meter_packet_bands meter packets now i) (r, int k)})"
    using assms(2) by (simp add: m')
  ultimately show "(\<Sum>p\<leftarrow>kept. ?cost p) + unat (bd_bucket (mt_bands meter' ! k))
      \<le> unat (bd_bucket ?b) + unat (meter_delta_t now meter) * unat (bd_rate ?b)"
    using refill_le(1) [of "meter_delta_t now meter" ?b] by (simp add: count_band_def)
  show "bd_rate (mt_bands meter' ! k) = bd_rate ?b"
    unfolding band by (simp add: count_band_def band_after_def Let_def)
  show "length (mt_bands meter') = length (mt_bands meter)" "mt_id meter' = mt_id meter"
    "mt_flags meter' = mt_flags meter" "mt_used meter' = word_of_int now"
    by (simp_all add: m')
qed

lemma div_1000_bounds:
  assumes "0 \<le> u" and "u \<le> n" and "n < 2 ^ 63"
  shows "0 \<le> n div 1000 - u div 1000" and "n div 1000 - u div 1000 < (2 ^ 63 :: int)"
proof -
  have "n div 1000 \<le> n" using zdiv_mono2 [of n 1 1000] assms by simp
  moreover have "0 \<le> u div 1000" using assms(1) by simp
  ultimately show "n div 1000 - u div 1000 < 2 ^ 63" using assms(3) by linarith
  show "0 \<le> n div 1000 - u div 1000" using assms(2) by (simp add: zdiv_mono1)
qed

lemma meter_delta_eq:
  assumes "uint (mt_used meter) \<le> now" and "now < 2 ^ 63"
  shows "int (unat (meter_delta_t now meter)) =
           min (int (unat (mt_max_delta_t meter))) (now div 1000 - uint (mt_used meter) div 1000)"
proof -
  define d where "d = now div 1000 - uint (mt_used meter) div 1000"
  have now: "0 \<le> now" using assms(1) uint_ge_0 [of "mt_used meter"] by linarith
  have d: "0 \<le> d" "d < 2 ^ 63"
    using div_1000_bounds [OF uint_ge_0 assms] by (simp_all add: d_def)
  have "now sdiv 1000 = now div 1000"
  proof (cases "now = 0")
    case False
    then show ?thesis using now by (simp only: signed_divide_int_def) (simp add: sgn_if)
  qed simp
  moreover have "mt_used meter div 1000 = (word_of_int (uint (mt_used meter) div 1000) :: u64)"
  proof -
    have "mt_used meter div 1000 = (word_of_int (uint (mt_used meter)) :: u64) div 1000"
      by (simp only: word_of_int_uint)
    also have "\<dots> = word_of_int (uint (mt_used meter) div 1000)"
      by (simp only: word_div_def word_of_int_uint) simp
    finally show ?thesis .
  qed
  ultimately have "word_of_int (now sdiv 1000) - mt_used meter div 1000 = (word_of_int d :: u64)"
    by (simp only: d_def of_int_diff)
  moreover have "sint (word_of_int d :: u64) = d"
    using d by (simp add: sint_sbintrunc' signed_take_bit_int_eq_self)
  ultimately have "long_delta_t now (mt_used meter) = d" by (simp only: long_delta_t_def)
  moreover have "int (unat (word_of_int d :: u32)) = d" if "d \<le> int (unat (mt_max_delta_t meter))"
  proof -
    have "d < 2 ^ 32" using that uint_u32_less [of "mt_max_delta_t meter"] by simp
    then show ?thesis using d(1) by (simp add: uint_word_of_int)
  qed
  ultimately show ?thesis
    using d(1) unfolding d_def [symmetric] by (simp add: meter_delta_t_def Let_def)
qed

lemma meter_delta_max: "meter_delta_t now meter \<le> mt_max_delta_t meter"
proof -
  have "word_of_int d \<le> mt_max_delta_t meter" if "0 \<le> d" "d \<le> int (unat (mt_max_delta_t meter))" for d
  proof -
    have "d < 2 ^ 32" using that(2) uint_u32_less [of "mt_max_delta_t meter"] by simp
    then have "int (unat (word_of_int d :: u32)) = d" using that(1) by (simp add: uint_word_of_int)
    then show ?thesis using that(2) by (simp add: word_le_def)
  qed
  then show ?thesis by (simp add: meter_delta_t_def Let_def)
qed

lemma meter_delta_le:
  assumes "uint (mt_used meter) \<le> now" and "now < 2 ^ 63"
  shows "int (unat (meter_delta_t now meter)) \<le> now div 1000 - uint (mt_used meter) div 1000"
  unfolding meter_delta_eq [OF assms] by simp


section \<open>The rate limit\<close>

text \<open>A sequence of batches that meet the meter: the datapath afterwards and the packets kept.\<close>

fun run_meter_seq ::
  "dp_meter list \<Rightarrow> u32 \<Rightarrow> (dpkt list \<times> int) list \<Rightarrow> (dp_meter list \<times> dpkt list) c_result" where
  "run_meter_seq meters mid [] = Inr (meters, [])"
| "run_meter_seq meters mid ((packets, now) # bs) =
     bindr (dp_netdev_run_meter meters packets mid now) (\<lambda>(meters', kept, dropped).
     bindr (run_meter_seq meters' mid bs) (\<lambda>(meters'', ks). Inr (meters'', kept @ ks)))"

text \<open>Times do not go back, and batches are not absurdly large.\<close>

fun timed :: "int \<Rightarrow> (dpkt list \<times> int) list \<Rightarrow> bool" where
  "timed t [] = True"
| "timed t ((packets, now) # bs) \<longleftrightarrow>
     t \<le> now \<and> now < 2 ^ 63 \<and> batch_fits (map pk_size packets) \<and> timed now bs"

definition last_time :: "int \<Rightarrow> (dpkt list \<times> int) list \<Rightarrow> int" where
  "last_time t bs = (if bs = [] then t else snd (last bs))"

lemma lookup_update:
  assumes "dp_meter_lookup meters mid = Some i" and "mt_id m' = mt_id (meters ! i)"
  shows "dp_meter_lookup (meters[i := m']) mid = Some i" and "i < length meters"
proof -
  have i: "i < length meters" "mt_id (meters ! i) = mid" "\<forall>j<i. mt_id (meters ! j) \<noteq> mid"
    using find_index_from_SomeD [of 0 _ meters i] assms(1)
    by (auto simp: dp_meter_lookup_def dp_meter_hash_def)
  then show "i < length meters" by simp
  have "find_index_from n P xs = Some (n + i)" if "i < length xs" "P (xs ! i)" "\<forall>j<i. \<not> P (xs ! j)"
    for n and P :: "dp_meter \<Rightarrow> bool" and xs i
    using that
  proof (induction n P xs arbitrary: i rule: find_index_from.induct)
    case (2 n P x xs)
    then show ?case by (cases i) force+
  qed simp
  from this [of i "meters[i := m']" "\<lambda>m. mt_id m = mid" 0] i assms(2)
  show "dp_meter_lookup (meters[i := m']) mid = Some i"
    by (simp add: dp_meter_lookup_def dp_meter_hash_def)
qed

lemma meter_seq_pays:
  assumes "dp_meter_lookup meters mid = Some i" and "mid < MAX_METERS"
    and "k < length (mt_bands (meters ! i))" and "bd_rate (mt_bands (meters ! i) ! k) \<noteq> 0"
    and "timed (uint (mt_used (meters ! i))) bs"
  shows "\<exists>meters' kept. run_meter_seq meters mid bs = Inr (meters', kept) \<and>
           (\<Sum>p\<leftarrow>kept. packet_cost (meter_pktps (meters ! i)) (pk_size p)) \<le>
             unat (bd_bucket (mt_bands (meters ! i) ! k)) +
             nat (last_time (uint (mt_used (meters ! i))) bs div 1000 -
                  uint (mt_used (meters ! i)) div 1000) * unat (bd_rate (mt_bands (meters ! i) ! k))"
  using assms
proof (induction bs arbitrary: meters)
  case Nil
  then show ?case by simp
next
  case (Cons b bs)
  obtain packets now where b: "b = (packets, now)" by (cases b)
  let ?m = "meters ! i" and ?u = "uint (mt_used (meters ! i))"
  have time: "?u \<le> now" "now < 2 ^ 63" "batch_fits (map pk_size packets)" "timed now bs"
    using Cons.prems(5) by (simp_all add: b)
  obtain m' kept dropped where run: "run_one_meter ?m packets now = Inr (m', kept, dropped)"
    unfolding run_one_meter_result by blast
  note pays = run_one_meter_pays [OF time(3) Cons.prems(3,4) run]
  note look = lookup_update [OF Cons.prems(1) pays(4)]
  have m'_i: "meters[i := m'] ! i = m'" using look(2) by simp
  have used: "uint (mt_used m') = now"
    unfolding pays(6)
    using order.trans [OF uint_ge_0 time(1)] time(2) by (intro uint_word_of_int_range) simp_all
  have "k < length (mt_bands m')" "bd_rate (mt_bands m' ! k) \<noteq> 0" "timed (uint (mt_used m')) bs"
    using pays(2,3) Cons.prems(3,4) used time(4) by simp_all
  from Cons.IH [of "meters[i := m']"] look(1) Cons.prems(2) this
  obtain meters' ks where rest: "run_meter_seq (meters[i := m']) mid bs = Inr (meters', ks)"
    "(\<Sum>p\<leftarrow>ks. packet_cost (meter_pktps m') (pk_size p)) \<le> unat (bd_bucket (mt_bands m' ! k)) +
       nat (last_time now bs div 1000 - now div 1000) * unat (bd_rate (mt_bands m' ! k))"
    unfolding m'_i used by blast
  have same: "meter_pktps m' = meter_pktps ?m" using pays(5) by (simp add: meter_pktps_def)
  let ?R = "unat (bd_rate (mt_bands ?m ! k))"
  let ?D = "nat (now div 1000 - ?u div 1000)" and ?L = "nat (last_time now bs div 1000 - now div 1000)"
  have "unat (meter_delta_t now ?m) * ?R \<le> ?D * ?R"
    using meter_delta_le [OF time(1,2)] by (intro mult_le_mono1) linarith
  then have "(\<Sum>p\<leftarrow>kept @ ks. packet_cost (meter_pktps ?m) (pk_size p)) \<le>
      unat (bd_bucket (mt_bands ?m ! k)) + ?D * ?R + ?L * ?R"
    using pays(1) rest(2) unfolding same pays(3) map_append sum_list.append by linarith
  then have "(\<Sum>p\<leftarrow>kept @ ks. packet_cost (meter_pktps ?m) (pk_size p)) \<le>
      unat (bd_bucket (mt_bands ?m ! k)) + (?D + ?L) * ?R"
    unfolding distrib_right [of ?D ?L ?R] by linarith
  moreover have "now \<le> last_time now bs"
    using time(4)
  proof (induction bs arbitrary: now)
    case Nil
    then show ?case by (simp add: last_time_def)
  next
    case (Cons b bs)
    obtain ps n where "b = (ps, n)" by (cases b)
    then show ?case using Cons.prems Cons.IH [of n] by (auto simp: last_time_def split: if_splits)
  qed
  then have "now div 1000 \<le> last_time now bs div 1000" "?u div 1000 \<le> now div 1000"
    using time(1) by (simp_all add: zdiv_mono1)
  then have "?D + ?L = nat (last_time now bs div 1000 - ?u div 1000)" by linarith
  moreover have "last_time ?u (b # bs) = last_time now bs" by (simp add: last_time_def b)
  moreover have "run_meter_seq meters mid (b # bs) = Inr (meters', kept @ ks)"
    using Cons.prems(1,2) run rest(1)
    by (simp add: b dp_netdev_run_meter_def not_le [THEN iffD2])
  ultimately show ?case by simp
qed


definition sample_meter :: dp_meter where
  "sample_meter = \<lparr>mt_id = 3, mt_flags = OFPMF13_PKTPS, mt_max_delta_t = 2000, mt_used = 5000,
     mt_packet_count = 0, mt_byte_count = 0, mt_bands = [\<lparr>bd_rate = 1, bd_burst_size = 2,
       bd_bucket = 2000, bd_packet_count = 0, bd_byte_count = 0\<rparr>]\<rparr>"

definition sized_pkt :: "nat \<Rightarrow> u32 \<Rightarrow> dpkt" where
  "sized_pkt a sz = \<lparr>pk_addr = a, pk_dpdk = True, pk_priority = 0, pk_multicast = False,
     pk_size = sz, pk_eth = 0, pk_l3 = 0, pk_l4 = 0, pk_tcp_offset = 0,
     pk_mbuf = \<lparr>mb_pkt_len = sz, ol_tcp_seg = False, ol_l4_mask = False, ol_tcp_cksum = False,
       ol_ipv4 = False, ol_ip_cksum = False, l2_len = 0, l3_len = 0, l4_len = 0,
       outer_l2_len = 0, outer_l3_len = 0, tso_segsz = 0\<rparr>\<rparr>"


lemma run_one_meter_fields:
  assumes "run_one_meter m packets now = Inr (m', kept, dropped)"
  shows "mt_packet_count m' = mt_packet_count m + of_nat (length packets)"
    and "length (mt_bands m') = length (mt_bands m)"
    and "k < length (mt_bands m) \<Longrightarrow> mt_bands m' ! k =
           count_band (band_after (meter_pktps m) (map pk_size packets) (meter_delta_t now m)
             (meter_volume m packets) (mt_bands m ! k))
             (nths packets {j. \<exists>r. fires (meter_packet_bands m packets now j) (r, int k)})"
    and "kept = nths packets {j. \<forall>b\<in>set (mt_bands m). meter_flags m packets now b ! j \<longrightarrow> bd_rate b = 0}"
    and "dropped = nths packets
           {j. \<not> (\<forall>b\<in>set (mt_bands m). meter_flags m packets now b ! j \<longrightarrow> bd_rate b = 0)}"
  using assms unfolding run_one_meter_result by (auto simp del: not_all)

section \<open>Verdicts and counters\<close>

text \<open>A run of a meter never fails.  It deletes the packets that exceed some band with a
  rate and keeps the others, in order; each deleted packet is counted in exactly the band
  that fires for it (the first one of the highest rate among those it exceeds), and all
  packets are counted in the meter.\<close>

theorem meter_verdicts:
  assumes "dp_meter_lookup meters mid = Some i" and "mid < MAX_METERS"
  shows "\<exists>m' kept dropped.
           dp_netdev_run_meter meters packets mid now = Inr (meters[i := m'], kept, dropped) \<and>
           kept = nths packets {j. \<forall>b\<in>set (mt_bands (meters ! i)).
             meter_flags (meters ! i) packets now b ! j \<longrightarrow> bd_rate b = 0} \<and>
           dropped = nths packets {j. \<not> (\<forall>b\<in>set (mt_bands (meters ! i)).
             meter_flags (meters ! i) packets now b ! j \<longrightarrow> bd_rate b = 0)} \<and>
           mt_packet_count m' = mt_packet_count (meters ! i) + of_nat (length packets) \<and>
           (\<forall>k<length (mt_bands (meters ! i)). bd_packet_count (mt_bands m' ! k) =
              bd_packet_count (mt_bands (meters ! i) ! k) + of_nat (length (nths packets
                {j. \<exists>r. fires (meter_packet_bands (meters ! i) packets now j) (r, int k)})))"
proof -
  let ?m = "meters ! i"
  obtain m' kept dropped where run: "run_one_meter ?m packets now = Inr (m', kept, dropped)"
    unfolding run_one_meter_result by blast
  note f = run_one_meter_fields [OF run]
  have "dp_netdev_run_meter meters packets mid now = Inr (meters[i := m'], kept, dropped)"
    using assms run by (simp add: dp_netdev_run_meter_def not_le [THEN iffD2])
  moreover have "bd_packet_count (mt_bands m' ! k) = bd_packet_count (mt_bands ?m ! k) +
      of_nat (length (nths packets {j. \<exists>r. fires (meter_packet_bands ?m packets now j) (r, int k)}))"
    if "k < length (mt_bands ?m)" for k
    by (simp add: f(3) [OF that] count_band_def band_after_def Let_def)
  ultimately show ?thesis using f(1,4,5) by blast
qed

text \<open>The first of three packets of 60 bytes fits the bucket of one packet.\<close>

definition tight_meter :: dp_meter where
  "tight_meter = \<lparr>mt_id = 3, mt_flags = OFPMF13_PKTPS, mt_max_delta_t = 2000, mt_used = 5000,
     mt_packet_count = 0, mt_byte_count = 0, mt_bands = [\<lparr>bd_rate = 1, bd_burst_size = 2,
       bd_bucket = 1000, bd_packet_count = 0, bd_byte_count = 0\<rparr>]\<rparr>"

lemma tight_meter_run:
  "dp_netdev_run_meter [tight_meter] [sized_pkt 1 60, sized_pkt 2 60, sized_pkt 3 60] 3 5000 =
     Inr ([tight_meter\<lparr>mt_packet_count := 3, mt_byte_count := 180, mt_bands := [\<lparr>bd_rate = 1,
       bd_burst_size = 2, bd_bucket = 0, bd_packet_count = 2, bd_byte_count = 120\<rparr>]\<rparr>],
       [sized_pkt 1 60], [sized_pkt 2 60, sized_pkt 3 60])"
  by code_simp

theorem meter_verdicts_witness:
  "\<exists>m' kept dropped. dp_netdev_run_meter [tight_meter] [sized_pkt 1 60, sized_pkt 2 60,
       sized_pkt 3 60] 3 5000 = Inr ([m'], kept, dropped) \<and> mt_packet_count m' = 3 \<and>
     kept = [sized_pkt 1 60] \<and> bd_packet_count (mt_bands m' ! 0) = 2"
proof -
  have "dp_meter_lookup [tight_meter] 3 = Some 0"
    by (simp add: dp_meter_lookup_def dp_meter_hash_def tight_meter_def)
  moreover have "(3 :: u32) < MAX_METERS" by (simp add: MAX_METERS_def)
  ultimately obtain m' kept dropped where
    "dp_netdev_run_meter [tight_meter] [sized_pkt 1 60, sized_pkt 2 60, sized_pkt 3 60] 3 5000 =
       Inr ([tight_meter][0 := m'], kept, dropped)"
    "mt_packet_count m' = mt_packet_count ([tight_meter] ! 0) +
       of_nat (length [sized_pkt 1 60, sized_pkt 2 60, sized_pkt 3 60])"
    using meter_verdicts [of "[tight_meter]" 3 0 "[sized_pkt 1 60, sized_pkt 2 60, sized_pkt 3 60]" 5000]
    by blast
  then show ?thesis unfolding tight_meter_run by (auto simp: tight_meter_def)
qed

section \<open>Buckets\<close>

text \<open>The bounds of a meter: no bucket is above its burst.\<close>

definition meter_ok :: "dp_meter \<Rightarrow> bool" where
  "meter_ok m \<longleftrightarrow> (\<forall>b\<in>set (mt_bands m). unat (bd_bucket b) \<le> 1000 * unat (bd_burst_size b))"

lemma drain_rest_le: "drain_rest b szs \<le> b"
proof (induction b szs rule: drain_rest.induct)
  case (2 b sz szs)
  show ?case
  proof (cases "ucast (sz * 8 :: u32) \<le> b")
    case True
    then have "b - ucast (sz * 8 :: u32) \<le> b" by (rule word_sub_le)
    then show ?thesis using 2(1) [OF True] True by simp
  next
    case False
    then show ?thesis using 2(2) by simp
  qed
qed simp

lemma band_after_le: "bd_bucket (band_after pktps szs d v b) \<le> refill_bucket d b"
  using drain_rest_le [of "refill_bucket d b" szs]
    word_sub_le [of "ucast v" "refill_bucket d b"]
  by (auto simp: band_after_def Let_def word_le_nat_alt unat_mod)

lemma run_one_meter_ok:
  assumes "run_one_meter m packets now = Inr (m', kept, dropped)"
  shows "meter_ok m'"
proof -
  have "unat (bd_bucket (band_after pktps szs d v b)) \<le>
      1000 * unat (bd_burst_size (band_after pktps szs d v b))" for pktps szs d v b
    using band_after_le [of pktps szs d v b] refill_le(2) [of d b]
    by (simp add: word_le_nat_alt) (simp add: band_after_def Let_def)
  then show ?thesis
    using run_one_meter_fields(2,3) [OF assms]
    by (auto simp: meter_ok_def all_set_conv_all_nth count_band_def)
qed

section \<open>The table of meters\<close>

text \<open>The meter of a number.\<close>

definition meter_of :: "dp_meter list \<Rightarrow> u32 \<Rightarrow> dp_meter option" where
  "meter_of = node_find mt_id"

lemma meter_key:
  "(\<lambda>m. dp_meter_hash (mt_id m) = dp_meter_hash mid \<and> mt_id m = mid) = (\<lambda>m. mt_id m = mid)"
  by (auto simp: dp_meter_hash_def)

lemma lookup_node: "meter_of meters mid = map_option (\<lambda>i. meters ! i) (dp_meter_lookup meters mid)"
  unfolding meter_of_def node_find_def dp_meter_lookup_def meter_key ..

lemma detach_node: "dp_meter_detach_free meters mid = node_del mt_id meters mid"
  unfolding node_del_def dp_meter_detach_free_def dp_meter_lookup_def meter_key ..

interpretation meter_table: node_table mt_id "\<lambda>ms. distinct (map mt_id ms)" meter_of dp_meter_attach
  dp_meter_detach_free
  unfolding meter_of_def detach_node [abs_def] dp_meter_attach_def [abs_def]
  by (rule nodes.node_table_axioms)

text \<open>The outcome of setting up the bands, without the loop.\<close>

definition workable :: "band_config \<Rightarrow> band_config" where
  "workable c = (if bc_burst_size c = 0 then c\<lparr>bc_burst_size := bc_rate c\<rparr> else c)"

definition full_band :: "band_config \<Rightarrow> dp_meter_band" where
  "full_band c = \<lparr>bd_rate = bc_rate c, bd_burst_size = bc_burst_size (workable c),
     bd_bucket = ucast (bc_burst_size (workable c)) * 1000, bd_packet_count = 0, bd_byte_count = 0\<rparr>"

definition fill_time :: "band_config \<Rightarrow> u32" where
  "fill_time c = ucast (ucast (bc_burst_size (workable c)) * 1000 div ucast (bc_rate c) :: u64)"

lemma setup_band_result:
  "setup_band c = (if bc_rate c = 0 then Inl Div_By_Zero
     else Inr (workable c, full_band c, fill_time c))"
proof -
  have "(ucast (bc_rate c) :: u64) = 0 \<longleftrightarrow> bc_rate c = 0"
    unfolding unat_0_iff [symmetric] by simp
  then show ?thesis
    by (simp add: setup_band_def workable_def full_band_def fill_time_def Let_def u64_div_def)
qed

lemma setup_bands_result:
  "setup_bands cs d = (if \<exists>c\<in>set cs. bc_rate c = 0 then Inl Div_By_Zero
     else Inr (map workable cs, map full_band cs, fold max (map fill_time cs) d))"
proof (induction cs arbitrary: d)
  case (Cons c cs)
  have "(if d < fill_time c then fill_time c else d) = max (fill_time c) d"
    by (simp add: max_def not_le [symmetric])
  then show ?case by (simp add: setup_band_result Cons)
qed simp

definition meter_acceptable :: "u32 \<Rightarrow> meter_config \<Rightarrow> bool" where
  "meter_acceptable mid config \<longleftrightarrow> mid < MAX_METERS \<and>
     mc_flags config AND NOT DP_SUPPORTED_METER_FLAGS_MASK = 0 \<and>
     length (mc_bands config) \<le> MAX_BANDS \<and> (\<forall>b\<in>set (mc_bands config). bc_type b = OFPMBT13_DROP)"

definition new_meter :: "u32 \<Rightarrow> meter_config \<Rightarrow> u64 \<Rightarrow> dp_meter" where
  "new_meter mid config now = \<lparr>mt_id = mid, mt_flags = mc_flags config,
     mt_max_delta_t = fold max (map fill_time (mc_bands config)) 0, mt_used = now,
     mt_packet_count = 0, mt_byte_count = 0, mt_bands = map full_band (mc_bands config)\<rparr>"

lemma meter_set_cases:
  "dpif_netdev_meter_set meters mid config now =
     (if \<not> meter_acceptable mid config then
        Inr (if MAX_METERS \<le> mid then EFBIG
             else if mc_flags config AND NOT DP_SUPPORTED_METER_FLAGS_MASK \<noteq> 0 then EBADF
             else if MAX_BANDS < length (mc_bands config) then E_INVAL else ENODEV, meters, config)
      else if \<exists>c\<in>set (mc_bands config). bc_rate c = 0 then Inl Div_By_Zero
      else Inr (0, dp_meter_attach (dp_meter_detach_free meters mid) (new_meter mid config now),
                config\<lparr>mc_bands := map workable (mc_bands config)\<rparr>))"
  by (auto simp: dpif_netdev_meter_set_def meter_acceptable_def setup_bands_result new_meter_def
      Let_def not_le not_less)

text \<open>Setting a meter.  A configuration that is not acceptable (number, flags, number or
  type of bands) is refused with its error and changes nothing; an acceptable one divides by
  zero exactly when a band has rate 0, and otherwise replaces the meter of that number (and no
  other) by one that has the configured bands, with full buckets and zero counters.\<close>

theorem meter_set_contract:
  assumes "distinct (map mt_id meters)"
  shows "case dpif_netdev_meter_set meters mid config now of
           Inl e \<Rightarrow> e = Div_By_Zero \<and> meter_acceptable mid config \<and>
                    (\<exists>c\<in>set (mc_bands config). bc_rate c = 0)
         | Inr (err, meters', config') \<Rightarrow>
             distinct (map mt_id meters') \<and>
             (if meter_acceptable mid config
              then err = 0 \<and> meter_of meters' = (meter_of meters)(mid \<mapsto> new_meter mid config now) \<and>
                   snd (dpif_netdev_meter_get meters' mid True MAX_BANDS) = Some \<lparr>ms_packet_in_count = 0,
                     ms_byte_in_count = 0, ms_bands = replicate (length (mc_bands config)) (0, 0)\<rparr>
              else err \<noteq> 0 \<and> meters' = meters \<and> config' = config)"
proof -
  let ?ms = "dp_meter_attach (dp_meter_detach_free meters mid) (new_meter mid config now)"
  have id: "mt_id (new_meter mid config now) = mid" by (simp add: new_meter_def)
  have ms: "distinct (map mt_id ?ms)" "meter_of ?ms = (meter_of meters)(mid \<mapsto> new_meter mid config now)"
    using meter_table.inv_replace [OF assms] meter_table.find_replace [OF assms]
    unfolding meter_table.replace_def by (metis id)+
  have "snd (dpif_netdev_meter_get ?ms mid True MAX_BANDS) = Some \<lparr>ms_packet_in_count = 0,
      ms_byte_in_count = 0, ms_bands = replicate (length (mc_bands config)) (0, 0)\<rparr>"
    if "meter_acceptable mid config"
  proof -
    have "dp_meter_lookup ?ms mid = Some 0"
      by (simp add: dp_meter_lookup_def dp_meter_attach_def dp_meter_hash_def id)
    then show ?thesis
      using that
      by (simp add: dpif_netdev_meter_get_def meter_acceptable_def not_le [THEN iffD2]
          dp_meter_attach_def new_meter_def full_band_def comp_def map_replicate_const)
  qed
  then show ?thesis
    using ms assms by (simp add: meter_set_cases meter_consts)
qed

definition sample_config :: meter_config where
  "sample_config = \<lparr>mc_flags = OFPMF13_PKTPS,
     mc_bands = [\<lparr>bc_type = OFPMBT13_DROP, bc_rate = 10, bc_burst_size = 0\<rparr>]\<rparr>"

theorem meter_set_contract_witness:
  "\<exists>meters' config'. dpif_netdev_meter_set [sample_meter] 4 sample_config 7000 = Inr (0, meters', config') \<and>
     meter_of meters' = (meter_of [sample_meter])(4 \<mapsto> new_meter 4 sample_config 7000)"
proof -
  have "distinct (map mt_id [sample_meter])" by simp
  note this [THEN meter_set_contract, of 4 sample_config 7000]
  moreover have "meter_acceptable 4 sample_config"
    by (simp add: meter_acceptable_def sample_config_def meter_consts)
  moreover have "\<forall>c\<in>set (mc_bands sample_config). bc_rate c \<noteq> 0"
    by (simp add: sample_config_def)
  ultimately show ?thesis
    by (cases "dpif_netdev_meter_set [sample_meter] 4 sample_config 7000") auto
qed

text \<open>Reading and deleting a meter.  Reading succeeds exactly when there is a meter of that
  number and tells its counters; deleting tells the same and afterwards there is no such
  meter, and all others are as before.\<close>

theorem meter_get_del_contract:
  assumes "distinct (map mt_id meters)"
  shows "dpif_netdev_meter_get meters mid want n =
           (if MAX_METERS \<le> mid then (EFBIG, None)
            else case meter_of meters mid of None \<Rightarrow> (ENOENT, None)
              | Some m \<Rightarrow> (0, if want then Some \<lparr>ms_packet_in_count = mt_packet_count m,
                  ms_byte_in_count = mt_byte_count m,
                  ms_bands = map (\<lambda>b. (bd_packet_count b, bd_byte_count b)) (take n (mt_bands m))\<rparr>
                  else None)) \<and>
         (case dpif_netdev_meter_del meters mid want n of (err, stats, meters') \<Rightarrow>
            (err, stats) = dpif_netdev_meter_get meters mid want n \<and>
            distinct (map mt_id meters') \<and>
            meter_of meters' = (if err = 0 then (meter_of meters)(mid := None) else meter_of meters) \<and>
            (err = 0 \<longrightarrow> dpif_netdev_meter_get meters' mid want n = (ENOENT, None)))"
proof -
  let ?ms = "dp_meter_detach_free meters mid"
  have ms: "distinct (map mt_id ?ms)" "meter_of ?ms = (meter_of meters)(mid := None)"
    using meter_table.inv_del [OF assms] meter_table.find_del [OF assms] by simp_all
  have get: "dpif_netdev_meter_get ms mid want n = (if MAX_METERS \<le> mid then (EFBIG, None)
      else case meter_of ms mid of None \<Rightarrow> (ENOENT, None)
        | Some m \<Rightarrow> (0, if want then Some \<lparr>ms_packet_in_count = mt_packet_count m,
            ms_byte_in_count = mt_byte_count m,
            ms_bands = map (\<lambda>b. (bd_packet_count b, bd_byte_count b)) (take n (mt_bands m))\<rparr>
            else None))" for ms
    by (simp add: dpif_netdev_meter_get_def lookup_node split: option.split)
  show ?thesis
    using ms assms
    by (simp add: dpif_netdev_meter_del_def get meter_consts split: option.split)
qed

theorem meter_get_del_contract_witness:
  "dpif_netdev_meter_get [sample_meter] 3 False 1 = (0, None) \<and>
   meter_of (snd (snd (dpif_netdev_meter_del [sample_meter] 3 False 1))) 3 = None"
proof -
  have "distinct (map mt_id [sample_meter])" by simp
  note this [THEN meter_get_del_contract, of 3 False 1]
  moreover have "meter_of [sample_meter] 3 = Some sample_meter"
    by (simp add: meter_of_def sample_meter_def)
  ultimately show ?thesis
    by (cases "dpif_netdev_meter_del [sample_meter] 3 False 1") (auto simp: MAX_METERS_def)
qed

end
