(* ===== verification/Dpif_Meter_Reach.thy ===== *)
theory Dpif_Meter_Reach
  imports Dpif_Meter_Properties
begin

text \<open>
  The meters a datapath can have: those reached from none by setting, deleting and running
  meters, what holds of all of them, and how an idle meter refills.
\<close>

section \<open>Steps\<close>

inductive meter_step :: "dp_meter list \<Rightarrow> dp_meter list \<Rightarrow> bool" where
  step_set: "dpif_netdev_meter_set ms mid config now = Inr (err, ms', config') \<Longrightarrow> meter_step ms ms'"
| step_del: "dpif_netdev_meter_del ms mid want n = (err, stats, ms') \<Longrightarrow> meter_step ms ms'"
| step_run: "dp_netdev_run_meter ms packets mid time = Inr (ms', kept, dropped) \<Longrightarrow> meter_step ms ms'"

inductive meters_reachable :: "dp_meter list \<Rightarrow> bool" where
  reach_init: "meters_reachable []"
| reach_step: "meters_reachable ms \<Longrightarrow> meter_step ms ms' \<Longrightarrow> meters_reachable ms'"

text \<open>
  Numbers are distinct and in range; a meter has at most eight bands; a band has a rate, at most
  a full bucket, and a time to fill that the meter's largest interval covers.
\<close>

definition band_ok :: "dp_meter \<Rightarrow> dp_meter_band \<Rightarrow> bool" where
  "band_ok m b \<longleftrightarrow> bd_rate b \<noteq> 0 \<and> unat (bd_bucket b) \<le> 1000 * unat (bd_burst_size b) \<and>
     (ucast (ucast (bd_burst_size b) * 1000 div ucast (bd_rate b) :: u64) :: u32) \<le> mt_max_delta_t m"

definition meter_inv :: "dp_meter \<Rightarrow> bool" where
  "meter_inv m \<longleftrightarrow> mt_id m < MAX_METERS \<and> length (mt_bands m) \<le> MAX_BANDS \<and>
     (\<forall>b\<in>set (mt_bands m). band_ok m b)"

definition meters_inv :: "dp_meter list \<Rightarrow> bool" where
  "meters_inv ms \<longleftrightarrow> distinct (map mt_id ms) \<and> (\<forall>m\<in>set ms. meter_inv m)"

lemma full_band_bucket: "unat (bd_bucket (full_band c)) = 1000 * unat (bd_burst_size (full_band c))"
proof -
  have "unat (bc_burst_size (workable c)) < 2 ^ 32"
    using unsigned_less [of "bc_burst_size (workable c)"] by simp
  then have "unat (ucast (bc_burst_size (workable c)) * 1000 :: u64) =
      unat (bc_burst_size (workable c)) * 1000"
    by (subst unat_mult_lem [THEN iffD1]) simp_all
  then show ?thesis by (simp add: full_band_def)
qed

lemma fold_max_ge: "(d :: u32) \<le> fold max xs d" "x \<in> set xs \<Longrightarrow> x \<le> fold max xs d"
proof (induction xs arbitrary: d)
  case (Cons y ys)
  case 1
  show ?case using Cons(1) [of "max y d"] by simp
  case 2
  have "y \<le> fold max ys (max y d)" using Cons(1) [of "max y d"] by simp
  then show ?case using 2 Cons(2) by auto
qed simp_all

lemma new_meter_inv:
  assumes "meter_acceptable mid config" and "\<forall>c\<in>set (mc_bands config). bc_rate c \<noteq> 0"
  shows "meter_inv (new_meter mid config now)"
proof -
  have "band_ok (new_meter mid config now) (full_band c)" if c: "c \<in> set (mc_bands config)" for c
  proof -
    have "fill_time c \<le> fold max (map fill_time (mc_bands config)) 0"
      using c by (intro fold_max_ge(2)) simp
    then show ?thesis
      using assms(2) c full_band_bucket [of c]
      by (simp add: band_ok_def new_meter_def full_band_def fill_time_def)
  qed
  then show ?thesis
    using assms(1) by (auto simp: meter_inv_def meter_acceptable_def new_meter_def)
qed

lemma run_one_meter_inv:
  assumes "run_one_meter m packets now = Inr (m', kept, dropped)" and "meter_inv m"
  shows "meter_inv m'" and "mt_id m' = mt_id m"
proof -
  note f = run_one_meter_fields [OF assms(1)]
  have same: "mt_id m' = mt_id m" "mt_max_delta_t m' = mt_max_delta_t m"
    using assms(1) unfolding run_one_meter_result by auto
  then show "mt_id m' = mt_id m" by simp
  have "band_ok m' (mt_bands m' ! k)" if k: "k < length (mt_bands m)" for k
  proof -
    have "mt_bands m' ! k \<in> set (mt_bands m')" using k f(2) by simp
    then have "unat (bd_bucket (mt_bands m' ! k)) \<le> 1000 * unat (bd_burst_size (mt_bands m' ! k))"
      using run_one_meter_ok [OF assms(1)] by (simp add: meter_ok_def)
    moreover have "bd_rate (mt_bands m' ! k) = bd_rate (mt_bands m ! k)"
      "bd_burst_size (mt_bands m' ! k) = bd_burst_size (mt_bands m ! k)"
      by (simp_all add: f(3) [OF k] count_band_def band_after_def Let_def)
    moreover have "band_ok m (mt_bands m ! k)" using assms(2) k by (simp add: meter_inv_def)
    ultimately show ?thesis by (simp add: band_ok_def same)
  qed
  then show "meter_inv m'"
    using assms(2) f(2) by (auto simp: meter_inv_def same all_set_conv_all_nth)
qed

lemma meter_step_inv:
  assumes "meter_step ms ms'" and "meters_inv ms"
  shows "meters_inv ms'"
  using assms(1)
proof cases
  case (step_set mid config now err config')
  have d: "distinct (map mt_id ms)" using assms(2) by (simp add: meters_inv_def)
  show ?thesis
  proof (cases "meter_acceptable mid config \<and> (\<forall>c\<in>set (mc_bands config). bc_rate c \<noteq> 0)")
    case True
    then have "ms' = dp_meter_attach (dp_meter_detach_free ms mid) (new_meter mid config now)"
      using step_set by (auto simp: meter_set_cases split: if_splits)
    moreover have "distinct (map mt_id \<dots>)"
      using meter_table.inv_replace [OF d, of "new_meter mid config now"]
      by (simp add: meter_table.replace_def new_meter_def)
    ultimately show ?thesis
      using assms(2) new_meter_inv [of mid config now] True
      by (auto simp: meters_inv_def dp_meter_attach_def detach_node set_node_del)
  next
    case False
    then have "ms' = ms" using step_set by (auto simp: meter_set_cases split: if_splits)
    then show ?thesis using assms(2) by simp
  qed
next
  case (step_del mid want n err stats)
  from step_del have "ms' = ms \<or> ms' = dp_meter_detach_free ms mid"
    by (auto simp: dpif_netdev_meter_del_def split: prod.splits if_splits)
  then show ?thesis
    using assms(2) by (auto simp: meters_inv_def detach_node set_node_del distinct_node_del)
next
  case (step_run packets mid time kept dropped)
  show ?thesis
  proof (cases "ms' = ms")
    case False
    then obtain i m' where i: "dp_meter_lookup ms mid = Some i" "ms' = ms[i := m']"
      "run_one_meter (ms ! i) packets time = Inr (m', kept, dropped)"
      using step_run by (auto simp: dp_netdev_run_meter_def bindr_eq_Inr_iff split: if_splits option.splits)
    have "i < length ms"
      using find_index_from_SomeD [of 0 _ ms i] i(1) by (auto simp: dp_meter_lookup_def)
    then have "meter_inv (ms ! i)" using assms(2) by (simp add: meters_inv_def)
    note run_one_meter_inv [OF i(3) this]
    moreover have "map mt_id ms' = map mt_id ms"
      using calculation(2) \<open>i < length ms\<close> by (simp add: i(2) map_update list_update_same_conv)
    moreover have "set ms' \<subseteq> insert m' (set ms)" unfolding i(2) by (rule set_update_subset_insert)
    ultimately show ?thesis using assms(2) by (auto simp: meters_inv_def)
  qed (use assms(2) in simp)
qed

lemma reachable_meters_inv: "meters_reachable ms \<Longrightarrow> meters_inv ms"
proof (induction rule: meters_reachable.induct)
  case reach_init
  show ?case by (simp add: meters_inv_def)
next
  case (reach_step ms ms')
  then show ?case by (blast intro: meter_step_inv)
qed

text \<open>Every datapath that can be reached by setting, deleting and running meters has
  distinct meter numbers in range, at most eight bands in a meter, no band with rate 0 and no
  bucket above its burst.\<close>

theorem reachable_meters_ok:
  assumes "meters_reachable ms"
  shows "meters_inv ms"
  using assms by (rule reachable_meters_inv)

lemma sample_reachable:
  "meters_reachable [new_meter 4 sample_config 7000]"
proof -
  have "dpif_netdev_meter_set [] 4 sample_config 7000 = Inr (0, [new_meter 4 sample_config 7000],
      sample_config\<lparr>mc_bands := map workable (mc_bands sample_config)\<rparr>)"
    by (simp add: meter_set_cases meter_acceptable_def sample_config_def meter_consts
        dp_meter_attach_def detach_node)
  then show ?thesis by (intro reach_step [OF reach_init] step_set)
qed

theorem reachable_meters_ok_witness: "meters_inv [new_meter 4 sample_config 7000]"
  by (rule reachable_meters_ok [OF sample_reachable])

section \<open>Refilling\<close>

lemma refill_exact:
  assumes "unat (bd_bucket b) \<le> 1000 * unat (bd_burst_size b)" and "unat (bd_rate b) + 1000 < 2 ^ 32"
  shows "unat (refill_bucket d b) =
           min (1000 * unat (bd_burst_size b)) (unat (bd_bucket b) + unat d * unat (bd_rate b))"
proof -
  let ?r = "unat (bd_rate b)"
  have B: "unat (bd_burst_size b) < 2 ^ 32" and D: "unat d < 2 ^ 32"
    using unsigned_less [of "bd_burst_size b"] unsigned_less [of d] by simp_all
  have "unat d * ?r \<le> (2 ^ 32 - 1) * (2 ^ 32 - 1001)"
    using D assms(2) by (intro mult_le_mono) simp_all
  then have fits: "unat (bd_bucket b) + unat d * ?r < 2 ^ 64" using assms(1) B by simp
  then have "unat (ucast d * ucast (bd_rate b) :: u64) = unat d * ?r"
    by (subst unat_mult_lem [THEN iffD1]) simp_all
  then have s: "unat (bd_bucket b + ucast d * ucast (bd_rate b)) = unat (bd_bucket b) + unat d * ?r"
    using fits by (subst unat_add_lem [THEN iffD1]) simp_all
  have m: "unat (max_bucket_size b) = 1000 * unat (bd_burst_size b)"
    unfolding max_bucket_size_def using B by (subst unat_mult_lem [THEN iffD1]) simp_all
  show ?thesis
    using s m by (auto simp: refill_bucket_def Let_def word_less_nat_alt min_def)
qed

lemma div_mult_gt:
  assumes "0 < (r :: nat)" and "n div r \<le> d"
  shows "n < d * r + r"
proof -
  have "n mod r < r" using assms(1) by simp
  moreover have "n div r * r \<le> d * r" using assms(2) by (rule mult_le_mono1)
  ultimately show ?thesis using div_mult_mod_eq [of n r] by linarith
qed

text \<open>An idle meter refills.  In any reachable datapath, when a meter has not been used for the
  time in which a band's burst fills at its rate, the next run starts with the bucket full up to
  less than one millisecond's worth, provided this time fits in 32 bits.\<close>

theorem idle_meter_refills:
  assumes "meters_reachable ms" and "m \<in> set ms" and "b \<in> set (mt_bands m)"
    and "uint (mt_used m) \<le> now" and "now < 2 ^ 63"
    and "1000 * unat (bd_burst_size b) div unat (bd_rate b) < 2 ^ 32"
    and "int (1000 * unat (bd_burst_size b) div unat (bd_rate b)) \<le> now div 1000 - uint (mt_used m) div 1000"
    and "unat (bd_rate b) + 1000 < 2 ^ 32"
  shows "1000 * unat (bd_burst_size b) < unat (refill_bucket (meter_delta_t now m) b) + unat (bd_rate b)"
proof -
  let ?F = "1000 * unat (bd_burst_size b) div unat (bd_rate b)"
  have ok: "band_ok m b"
    using reachable_meters_inv [OF assms(1)] assms(2,3) by (simp add: meters_inv_def meter_inv_def)
  have r: "0 < unat (bd_rate b)" using ok by (simp add: band_ok_def unat_gt_0)
  have B: "unat (bd_burst_size b) < 2 ^ 32" using unsigned_less [of "bd_burst_size b"] by simp
  then have "unat (ucast (bd_burst_size b) * 1000 :: u64) = 1000 * unat (bd_burst_size b)"
    by (subst unat_mult_lem [THEN iffD1]) simp_all
  then have "unat (ucast (ucast (bd_burst_size b) * 1000 div ucast (bd_rate b) :: u64) :: u32) = ?F"
    using assms(6) by (simp add: unat_div unsigned_ucast_eq take_bit_nat_eq_self)
  then have "?F \<le> unat (mt_max_delta_t m)" using ok by (simp add: band_ok_def word_le_nat_alt)
  then have "?F \<le> unat (meter_delta_t now m)"
    using assms(7) meter_delta_eq [OF assms(4,5)] by linarith
  from div_mult_gt [OF r this] show ?thesis
    using refill_exact [of b "meter_delta_t now m"] ok assms(8) r by (auto simp: band_ok_def)
qed

theorem idle_meter_refills_witness:
  "10000 < unat (refill_bucket (meter_delta_t 2000000 (new_meter 4 sample_config 7000))
       (mt_bands (new_meter 4 sample_config 7000) ! 0)) + 10"
proof -
  let ?m = "new_meter 4 sample_config 7000"
  have b: "mt_bands ?m = [full_band \<lparr>bc_type = OFPMBT13_DROP, bc_rate = 10, bc_burst_size = 0\<rparr>]"
    by (simp add: new_meter_def sample_config_def)
  have "bd_rate (mt_bands ?m ! 0) = 10" "bd_burst_size (mt_bands ?m ! 0) = 10" "mt_used ?m = 7000"
    by (simp_all only: b) (simp_all add: full_band_def workable_def new_meter_def)
  then show ?thesis
    using idle_meter_refills [OF sample_reachable, of ?m "mt_bands ?m ! 0" 2000000] by (simp add: b)
qed

definition slow_config :: meter_config where
  "slow_config = \<lparr>mc_flags = OFPMF13_PKTPS,
     mc_bands = [\<lparr>bc_type = OFPMBT13_DROP, bc_rate = 1, bc_burst_size = 4294968\<rparr>]\<rparr>"

text \<open>The interval that refills a bucket is computed in 64 bits and kept in 32.  For a band
  of rate 1 and burst 4294968 it becomes 704 milliseconds, so an empty bucket of this band gets
  at most 704 of its 4294968000 tokens back, however long the meter is idle.\<close>

theorem slow_band_never_refills:
  "\<exists>m b. dpif_netdev_meter_set [] 1 slow_config 0 = Inr (0, [m], slow_config) \<and> mt_bands m = [b] \<and>
     unat (max_bucket_size b) = 4294968000 \<and>
     (\<forall>now. unat (refill_bucket (meter_delta_t now m) (b\<lparr>bd_bucket := 0\<rparr>)) \<le> 704)"
proof -
  let ?m = "new_meter 1 slow_config 0"
  let ?b = "full_band \<lparr>bc_type = OFPMBT13_DROP, bc_rate = 1, bc_burst_size = 4294968\<rparr>"
  have "meter_acceptable 1 slow_config" by (simp add: meter_acceptable_def slow_config_def meter_consts)
  then have "dpif_netdev_meter_set [] 1 slow_config 0 = Inr (0, [?m], slow_config)"
    by (simp add: meter_set_cases dp_meter_attach_def detach_node) (simp add: slow_config_def workable_def)
  moreover have bands: "mt_bands ?m = [?b]" by (simp add: new_meter_def slow_config_def)
  moreover have "unat (max_bucket_size ?b) = 4294968000"
    by (simp add: max_bucket_size_def full_band_def workable_def)
  moreover have "unat (refill_bucket (meter_delta_t now ?m) (?b\<lparr>bd_bucket := 0\<rparr>)) \<le> 704" for now
  proof -
    have "mt_max_delta_t ?m = 704"
      by (simp add: new_meter_def slow_config_def fill_time_def workable_def max_def)
    then have "unat (meter_delta_t now ?m) \<le> 704"
      using meter_delta_max [of now ?m] unfolding word_le_nat_alt by simp
    moreover have "unat (bd_rate ?b) = 1" by (simp add: full_band_def)
    ultimately show ?thesis
      using refill_le(1) [of "meter_delta_t now ?m" "?b\<lparr>bd_bucket := 0\<rparr>"] by simp
  qed
  ultimately show ?thesis by (intro exI conjI allI)
qed

end
