(* ===== verification/Dpif_Hopa.thy ===== *)
theory Dpif_Hopa
  imports Vswitchd_Hopa
begin

text \<open>
  The receive side of the control plane in the datapath: \<open>dp_netdev_recirculate\<close>
  (\<open>dpif-netdev.c\<close>) looks for control packets in every recirculated batch, copies their headers
  and puts them on the in ring, from where \<open>hopa_cp_progress\<close> takes them.  Packets are bytes
  here; the bytes of the encoders' headers are given by their layout in memory.
\<close>

section \<open>Packets as bytes\<close>

text \<open>
  The bytes from the data pointer of an mbuf to the end of its buffer, and \<open>pkt_len\<close>.  A read
  past the buffer is a fault; a read past the packet inside the buffer is not.
\<close>

record raw_pkt =
  rp_data :: "u8 list"
  rp_pkt_len :: u32

definition rd_bytes :: "u8 list \<Rightarrow> nat \<Rightarrow> nat \<Rightarrow> u8 list c_result" where
  "rd_bytes bs off n = (if off + n \<le> length bs then Inr (take n (drop off bs)) else Inl Out_Of_Bounds)"

text \<open>\<open>struct hopa_cp_hdr\<close> in memory: three bytes of padding follow \<open>rsvd\<close>.\<close>

definition vs_cp_hdr_of :: "u8 list \<Rightarrow> vs_cp_hdr" where
  "vs_cp_hdr_of bs = \<lparr>vc_flag = bs ! 0, vc_cp_flag = bs ! 1, vc_probe_path_id = bs ! 2,
     vc_repath_id = bs ! 3, vc_rsvd = bs ! 4, vc_seq = take 8 (drop 8 bs),
     vc_ack = take 8 (drop 16 bs), vc_ts = take 8 (drop 24 bs)\<rparr>"

definition cp_hdr_bytes :: "u8 list \<Rightarrow> vs_cp_hdr \<Rightarrow> u8 list" where
  "cp_hdr_bytes pad h = [vc_flag h, vc_cp_flag h, vc_probe_path_id h, vc_repath_id h, vc_rsvd h] @
     pad @ vc_seq h @ vc_ack h @ vc_ts h"

definition eth_bytes :: "eth_hdr \<Rightarrow> u8 list" where
  "eth_bytes e = d_addr e @ s_addr e @ ether_type e"

definition ipv4_bytes :: "ipv4_hdr \<Rightarrow> u8 list" where
  "ipv4_bytes h = [version_ihl h, type_of_service h] @ total_length h @ packet_id h @
     fragment_offset h @ [time_to_live h, next_proto_id h] @ hdr_checksum h @ src_addr h @ dst_addr h"

definition udp_bytes :: "udp_hdr \<Rightarrow> u8 list" where
  "udp_bytes u = src_port u @ dst_port u @ dgram_len u @ dgram_cksum u"

definition raw_of :: "u8 list \<Rightarrow> vs_mbuf \<Rightarrow> raw_pkt" where
  "raw_of pad m = \<lparr>rp_data = eth_bytes (vm_eth m) @ ipv4_bytes (vm_ip m) @ udp_bytes (vm_udp m) @
     cp_hdr_bytes pad (vm_cp m), rp_pkt_len = vm_pkt_len m\<rparr>"

section \<open>Looking for control packets\<close>

text \<open>
  The test of the loop and the copy it makes: \<open>None\<close> if the packet is not a control packet.  The
  three conditions on the UDP header are joined by \<open>&\<close>: all are evaluated.
\<close>

definition hopa_cp_receive :: "raw_pkt \<Rightarrow> u8 list option c_result" where
  "hopa_cp_receive p =
     bindr (rd_bytes (rp_data p) 12 2) (\<lambda>ety.
       if ety \<noteq> cpu_to_be_16 ETHER_TYPE_IPV4 then Inr None
       else bindr (rd_bytes (rp_data p) (sizeof_ether_hdr + 9) 1) (\<lambda>proto.
         if proto \<noteq> [IPPROTO_UDP] then Inr None
         else
           bindr (rd_bytes (rp_data p) (sizeof_ether_hdr + sizeof_ipv4_hdr + 4) 2) (\<lambda>dlen.
           bindr (rd_bytes (rp_data p) (sizeof_ether_hdr + sizeof_ipv4_hdr) 2) (\<lambda>sport.
             if be_to_cpu_16 dlen = of_nat (sizeof_udp_hdr + sizeof_vs_cp_hdr) \<and>
                be_to_cpu_16 sport = 4444 \<and>
                rp_pkt_len p = of_nat (sizeof_ether_hdr + sizeof_ipv4_hdr + sizeof_udp_hdr +
                  sizeof_vs_cp_hdr)
             then bindr (rd_bytes (rp_data p)
                    (sizeof_ether_hdr + sizeof_ipv4_hdr + sizeof_udp_hdr) sizeof_vs_cp_hdr)
                    (\<lambda>h. Inr (Some h))
             else Inr None))))"

text \<open>
  The loop over the batch.  \<open>alloc j\<close> says whether the \<open>j\<close>-th \<open>rte_malloc\<close> returned memory: the
  result is not looked at before the copy.  \<open>hopa_cp_recv_cp_hdr\<close> has 32 slots.
\<close>

fun recirc_loop :: "(nat \<Rightarrow> bool) \<Rightarrow> nat \<Rightarrow> raw_pkt list \<Rightarrow> u8 list list c_result" where
  "recirc_loop alloc cp_nb [] = Inr []"
| "recirc_loop alloc cp_nb (p # ps) =
     bindr (hopa_cp_receive p) (\<lambda>r. case r of
         None \<Rightarrow> recirc_loop alloc cp_nb ps
       | Some h \<Rightarrow>
           if 32 \<le> cp_nb then Inl Out_Of_Bounds
           else if \<not> alloc cp_nb then Inl Null_Deref
           else bindr (recirc_loop alloc (Suc cp_nb) ps) (\<lambda>hs. Inr (h # hs)))"

text \<open>
  \<open>dp_netdev_recirculate\<close> up to \<open>dp_netdev_input__\<close>, which gets the same batch.  \<open>room\<close> is how many
  pointers \<open>rte_ring_sp_enqueue_burst\<close> can take: the others are neither on the ring nor freed.
  The result: the headers put on the in ring and those lost.
\<close>

definition dp_netdev_recirculate ::
  "cp_rings option \<Rightarrow> (nat \<Rightarrow> bool) \<Rightarrow> nat \<Rightarrow> raw_pkt list \<Rightarrow> (vs_cp_hdr list \<times> vs_cp_hdr list) c_result"
where
  "dp_netdev_recirculate rings alloc room packets =
     (case rings of
        None \<Rightarrow> Inr ([], [])
      | Some r \<Rightarrow>
          if cp_in_ring r then
            bindr (recirc_loop alloc 0 packets) (\<lambda>hs.
              Inr (map vs_cp_hdr_of (take room hs), map vs_cp_hdr_of (drop room hs)))
          else Inr ([], []))"

section \<open>Facts\<close>

text \<open>A control packet, said of its bytes.\<close>

definition is_control :: "raw_pkt \<Rightarrow> bool" where
  "is_control p \<longleftrightarrow>
     take 2 (drop 12 (rp_data p)) = [0x08, 0x00] \<and> rp_data p ! 23 = 17 \<and>
     take 2 (drop 34 (rp_data p)) = [0x11, 0x5c] \<and> take 2 (drop 38 (rp_data p)) = [0, 40] \<and>
     rp_pkt_len p = 74"

definition control_hdr :: "raw_pkt \<Rightarrow> vs_cp_hdr" where
  "control_hdr p = vs_cp_hdr_of (take 32 (drop 42 (rp_data p)))"

lemma be_16_pair: "be_to_cpu_16 [a, b] = w \<longleftrightarrow> [a, b] = cpu_to_be_16 w"
proof
  assume "be_to_cpu_16 [a, b] = w"
  moreover have "cpu_to_be_16 (be_to_cpu_16 [a, b]) = [a, b]"
    by (auto simp: be_to_cpu_16_def cpu_to_be_16_def be_join_def numeral_2_eq_2 intro!: bit_word_eqI)
      (auto simp: bit_simps dest: bit_imp_le_length)
  ultimately show "[a, b] = cpu_to_be_16 w" by simp
qed simp

lemma take_2_drop: "i + 2 \<le> length xs \<Longrightarrow> take 2 (drop i xs) = [xs ! i, xs ! Suc i]"
  by (simp add: numeral_2_eq_2 take_Suc_conv_app_nth)

lemma take_1_drop: "i < length xs \<Longrightarrow> take (Suc 0) (drop i xs) = [xs ! i]"
  by (simp add: take_Suc_conv_app_nth)

lemma cpu_to_be_16_consts:
  "cpu_to_be_16 ETHER_TYPE_IPV4 = [0x08, 0x00]" "cpu_to_be_16 4444 = [0x11, 0x5c]"
  "cpu_to_be_16 40 = [0, 40]"
  by code_simp+

lemma hopa_cp_receive_eq:
  assumes "74 \<le> length (rp_data p)"
  shows "hopa_cp_receive p =
           Inr (if is_control p then Some (take 32 (drop 42 (rp_data p))) else None)"
  using assms
  by (simp add: hopa_cp_receive_def rd_bytes_def layout_simps take_2_drop take_1_drop
      be_16_pair cpu_to_be_16_consts is_control_def IPPROTO_UDP_def)

lemma recirc_loop_result:
  assumes "\<forall>p\<in>set ps. 74 \<le> length (rp_data p)"
    and "n + length (filter is_control ps) \<le> 32"
    and "\<forall>j\<in>{n..<n + length (filter is_control ps)}. alloc j"
  shows "recirc_loop alloc n ps = Inr (map (\<lambda>p. take 32 (drop 42 (rp_data p))) (filter is_control ps))"
  using assms
proof (induction ps arbitrary: n)
  case (Cons p ps)
  have p: "hopa_cp_receive p =
      Inr (if is_control p then Some (take 32 (drop 42 (rp_data p))) else None)"
    using Cons.prems(1) by (intro hopa_cp_receive_eq) simp
  show ?case
  proof (cases "is_control p")
    case True
    then have "recirc_loop alloc (Suc n) ps =
        Inr (map (\<lambda>p. take 32 (drop 42 (rp_data p))) (filter is_control ps))"
      using Cons.prems by (intro Cons.IH) auto
    then show ?thesis using True Cons.prems(2,3) by (simp add: p)
  next
    case False
    then show ?thesis using Cons.IH [of n] Cons.prems by (simp add: p)
  qed
qed simp

text \<open>The bytes of an encoded packet.\<close>

definition mac_sized :: "host_cfg \<Rightarrow> bool" where
  "mac_sized host \<longleftrightarrow> length (cfg_src_mac host) = 6 \<and> length (cfg_dst_mac host) = 6"

lemma length_cpu_to_be [simp]:
  "length (cpu_to_be_16 a) = 2" "length (cpu_to_be_32 b) = 4" "length (cpu_to_be_64 c) = 8"
  by (simp_all add: cpu_to_be_16_def cpu_to_be_32_def cpu_to_be_64_def)

lemma list_of_length_2: "length xs = 2 \<Longrightarrow> xs = [xs ! 0, xs ! 1]"
  by (cases xs; cases "tl xs") auto

lemma raw_of_frame:
  assumes "length (d_addr (vm_eth m)) = 6" and "length (s_addr (vm_eth m)) = 6"
    and "ether_type (vm_eth m) = [0x08, 0x00]" and "next_proto_id (vm_ip m) = 17"
    and "length (total_length (vm_ip m)) = 2" and "length (packet_id (vm_ip m)) = 2"
    and "length (fragment_offset (vm_ip m)) = 2" and "length (hdr_checksum (vm_ip m)) = 2"
    and "length (src_addr (vm_ip m)) = 4" and "length (dst_addr (vm_ip m)) = 4"
    and "src_port (vm_udp m) = [0x11, 0x5c]" and "length (dst_port (vm_udp m)) = 2"
    and "dgram_len (vm_udp m) = [0, 40]" and "length (dgram_cksum (vm_udp m)) = 2"
    and "vm_pkt_len m = 74" and "length pad = 3" and "length (vc_seq (vm_cp m)) = 8"
    and "length (vc_ack (vm_cp m)) = 8" and "length (vc_ts (vm_cp m)) = 8"
  shows "is_control (raw_of pad m)" and "control_hdr (raw_of pad m) = vm_cp m"
    and "length (rp_data (raw_of pad m)) = 74"
  using assms
  by (simp_all add: is_control_def control_hdr_def raw_of_def eth_bytes_def ipv4_bytes_def
      udp_bytes_def cp_hdr_bytes_def vs_cp_hdr_of_def nth_append)

end
