(* ===== verification/Dpif_Hopa_Properties.thy ===== *)
theory Dpif_Hopa_Properties
  imports Dpif_Hopa Vswitchd_Properties
begin

text \<open>
  What the receive side of the control plane takes from a batch, and the whole way of a round
  of probes: from the encoders of one host, as bytes, through the datapath of the other to its
  delay table.
\<close>

lemma recirc_takes:
  assumes "\<forall>p\<in>set packets. 74 \<le> length (rp_data p)" and "length packets \<le> 32"
    and "\<forall>j<32. alloc j"
  shows "dp_netdev_recirculate rings alloc room packets =
           (if \<exists>r. rings = Some r \<and> cp_in_ring r
            then Inr (map control_hdr (take room (filter is_control packets)),
                      map control_hdr (drop room (filter is_control packets)))
            else Inr ([], []))"
proof -
  have "length (filter is_control packets) \<le> 32" using assms(2) length_filter_le order.trans by blast
  then have "recirc_loop alloc 0 packets =
      Inr (map (\<lambda>p. take 32 (drop 42 (rp_data p))) (filter is_control packets))"
    using assms(1,3) by (intro recirc_loop_result) auto
  then show ?thesis
    by (auto simp: dp_netdev_recirculate_def take_map drop_map control_hdr_def comp_def
        split: option.split)
qed

text \<open>C35: receiving control packets.  From a batch of at most 32 packets (each in a buffer of at
  least 74 bytes), when memory can be had, the datapath takes exactly the control packets, in
  order, and puts their headers on the in ring as far as there is room; without rings it takes
  none.\<close>

theorem recirculate_takes_control_packets:
  assumes "\<forall>p\<in>set packets. 74 \<le> length (rp_data p)" and "length packets \<le> 32"
    and "\<forall>j<32. alloc j"
  shows "dp_netdev_recirculate rings alloc room packets =
           (if \<exists>r. rings = Some r \<and> cp_in_ring r
            then Inr (map control_hdr (take room (filter is_control packets)),
                      map control_hdr (drop room (filter is_control packets)))
            else Inr ([], []))"
  using assms by (rule recirc_takes)

definition odd_raw :: raw_pkt where
  "odd_raw = \<lparr>rp_data = replicate 80 7, rp_pkt_len = 80\<rparr>"

definition probe_raw :: raw_pkt where
  "probe_raw = \<lparr>rp_data = replicate 12 1 @ [0x08, 0x00] @ replicate 9 0 @ [17] @ replicate 10 0 @
     [0x11, 0x5c, 0x22, 0xb0, 0, 40, 0, 0] @ [0, 0, 2] @ replicate 29 0, rp_pkt_len = 74\<rparr>"

theorem recirculate_takes_control_packets_witness:
  "\<exists>h. dp_netdev_recirculate (Some \<lparr>cp_in_ring = True, cp_out_ring = True\<rparr>) (\<lambda>_. True) 8
     [odd_raw, probe_raw, odd_raw] = Inr ([h], []) \<and> vc_probe_path_id h = 2"
proof -
  have f: "filter is_control [odd_raw, probe_raw, odd_raw] = [probe_raw]" by code_simp
  have "\<forall>p\<in>set [odd_raw, probe_raw, odd_raw]. 74 \<le> length (rp_data p)"
    by (simp add: odd_raw_def probe_raw_def)
  moreover have "length [odd_raw, probe_raw, odd_raw] \<le> 32" "\<forall>j<32::nat. (\<lambda>_. True) j" by simp_all
  ultimately have "dp_netdev_recirculate (Some \<lparr>cp_in_ring = True, cp_out_ring = True\<rparr>) (\<lambda>_. True) 8
      [odd_raw, probe_raw, odd_raw] = Inr ([control_hdr probe_raw], [])"
    using recirculate_takes_control_packets [of "[odd_raw, probe_raw, odd_raw]" "\<lambda>_. True"
        "Some \<lparr>cp_in_ring = True, cp_out_ring = True\<rparr>" 8]
    unfolding f by simp
  moreover have "vc_probe_path_id (control_hdr probe_raw) = 2" by code_simp
  ultimately show ?thesis by blast
qed

section \<open>From encoder to table\<close>

text \<open>Memory as the encoders get it: an empty packet, whatever its old bytes are.\<close>

definition fresh_mbuf :: "vs_mbuf \<Rightarrow> bool" where
  "fresh_mbuf m \<longleftrightarrow> vm_pkt_len m = 0 \<and> length (dgram_cksum (vm_udp m)) = 2"

lemma encoded_probe_is_control:
  assumes "vs_encode_probe_pkt cksum cq_host True (Some m) ts path = Some q" and "fresh_mbuf m"
    and "\<And>h. length (cksum h) = 2" and "length pad = 3"
  shows "is_control (raw_of pad q)" and "control_hdr (raw_of pad q) = vm_cp q"
    and "length (rp_data (raw_of pad q)) = 74"
proof -
  have q: "q = (vs_frame cksum cq_host m (VS_DST_PORT + ucast path))\<lparr>vm_cp := (vm_cp m)
      \<lparr>vc_flag := hopa_module_code HOPA_CP, vc_cp_flag := hopa_cp_flag_code PROBE,
       vc_probe_path_id := path, vc_repath_id := 0, vc_rsvd := 0, vc_seq := cpu_to_be_64 0,
       vc_ack := cpu_to_be_64 0, vc_ts := cpu_to_be_64 (timespec_ns ts)\<rparr>\<rparr>"
    using assms(1) by (simp add: vs_encode_probe_pkt_def)
  note [simp] = vs_frame_def Let_def cq_host_def layout_simps fresh_mbuf_def IPPROTO_UDP_def
    VS_SRC_PORT_def cpu_to_be_16_consts
  show "is_control (raw_of pad q)" by (rule raw_of_frame) (use assms(2-4) in \<open>simp_all add: q\<close>)
  show "control_hdr (raw_of pad q) = vm_cp q"
    by (rule raw_of_frame) (use assms(2-4) in \<open>simp_all add: q\<close>)
  show "length (rp_data (raw_of pad q)) = 74"
    by (rule raw_of_frame) (use assms(2-4) in \<open>simp_all add: q\<close>)
qed

text \<open>C3: the control path from end to end.  One host encodes a probe for each path; the other
  finds them in a recirculated batch, in any order and among any other packets, and after the
  progress thread has taken their headers from the ring its best path is a fastest one, whatever
  the difference of the two clocks.\<close>

theorem control_path_selects_fastest:
  fixes d :: "nat \<Rightarrow> int"
  assumes "hopa_cp_mp snd_st"
    and "cq_send_turn cksum snd_st (\<lambda>i. Some (buf i)) sclk = Inr pkts"
    and "\<forall>i<PATH_NB. fresh_mbuf (buf i)" and "\<forall>h. length (cksum h) = 2" and "length pad = 3"
    and "m_rings st = Some \<lparr>cp_in_ring = True, cp_out_ring = b\<rparr>"
    and "length (vs_delay_list st) = PATH_NB"
    and "distinct order" and "set order = {..<PATH_NB}"
    and "filter is_control batch = map (\<lambda>i. raw_of pad (the (pkts ! i))) order"
    and "\<forall>p\<in>set batch. 74 \<le> length (rp_data p)" and "length batch \<le> 32"
    and "\<forall>j<32. alloc j" and "PATH_NB \<le> room"
    and "\<forall>i<PATH_NB. uint (timespec_ns (rclk i)) = uint (timespec_ns (sclk i)) + d i + skew \<and>
             0 \<le> d i + skew + 1000000000 \<and> d i + skew + 1000000000 < 2 ^ 64"
  shows "\<exists>hs st'. dp_netdev_recirculate (m_rings st) alloc room batch = Inr (hs, []) \<and>
           hopa_cp_progress_turn st (zip hs (map rclk order)) = Inr st' \<and>
           unat (best_path_id st') < PATH_NB \<and> (\<forall>j<PATH_NB. d (unat (best_path_id st')) \<le> d j)"
proof -
  have pkts: "pkts = map (\<lambda>i. vs_encode_probe_pkt cksum cq_host True (Some (buf i))
      (sclk i) (of_nat i)) [0..<PATH_NB]"
    using assms(1,2) by (auto simp: cq_send_turn_def vs_enqueue_out_def split: option.splits if_splits)
  have hdr: "control_hdr (raw_of pad (the (pkts ! i))) = vm_cp (the (pkts ! i))"
    if "i \<in> set order" for i
  proof -
    have i: "i < PATH_NB" using that assms(9) by simp
    then have "vs_encode_probe_pkt cksum cq_host True (Some (buf i)) (sclk i) (of_nat i) =
        Some (the (pkts ! i))"
      by (simp add: pkts vs_encode_probe_pkt_def)
    from encoded_probe_is_control(2) [OF this] show ?thesis using assms(3-5) i by simp
  qed
  have "length order = PATH_NB" using distinct_card [OF assms(8)] assms(9) by simp
  then have "length (filter is_control batch) \<le> room" using assms(10,14) by simp
  moreover have "dp_netdev_recirculate (m_rings st) alloc room batch =
      Inr (map control_hdr (take room (filter is_control batch)),
           map control_hdr (drop room (filter is_control batch)))"
    using recirc_takes [OF assms(11-13), of "m_rings st" room] assms(6) by simp
  ultimately have recv: "dp_netdev_recirculate (m_rings st) alloc room batch =
      Inr (map (\<lambda>i. vm_cp (the (pkts ! i))) order, [])"
    using hdr by (simp add: assms(10) comp_def cong: map_cong)
  have zip: "zip (map (\<lambda>i. vm_cp (the (pkts ! i))) order) (map rclk order) =
      map (\<lambda>i. (vm_cp (the (pkts ! i)), rclk i)) order"
    by (simp add: zip_map_map zip_same_conv_map comp_def)
  from vs_probe_round_result [OF assms(1,2,6-9,15)] recv show ?thesis
    unfolding zip [symmetric] by blast
qed

definition fresh_blank :: vs_mbuf where
  "fresh_blank = vs_blank_mbuf\<lparr>vm_udp := (vm_udp vs_blank_mbuf)\<lparr>dgram_cksum := [0, 0]\<rparr>\<rparr>"

definition sent_probe :: "nat \<Rightarrow> vs_mbuf" where
  "sent_probe i = the (vs_encode_probe_pkt (\<lambda>_. [1, 2]) cq_host True (Some fresh_blank)
     \<lparr>tv_sec = 7, tv_nsec = of_nat i\<rparr> (of_nat i))"

theorem control_path_selects_fastest_witness:
  "\<exists>hs st'. dp_netdev_recirculate (m_rings vs_ready) (\<lambda>_. True) 8
       (odd_raw # map (\<lambda>i. raw_of [9, 9, 9] (sent_probe i)) [3, 1, 0, 2]) = Inr (hs, []) \<and>
     hopa_cp_progress_turn vs_ready (zip hs (map (\<lambda>i. \<lparr>tv_sec = 8, tv_nsec = 50 - 9 * of_nat i\<rparr>)
       [3, 1, 0, 2])) = Inr st' \<and>
     (\<forall>j<PATH_NB. 50 - 10 * int (unat (best_path_id st')) \<le> 50 - 10 * int j)"
proof -
  let ?s = "\<lambda>i. \<lparr>tv_sec = 7, tv_nsec = of_nat i\<rparr>" and ?r = "\<lambda>i. \<lparr>tv_sec = 8, tv_nsec = 50 - 9 * of_nat i\<rparr>"
  let ?pkts = "map (\<lambda>i. vs_encode_probe_pkt (\<lambda>_. [1, 2]) cq_host True (Some fresh_blank) (?s i)
      (of_nat i)) [0..<PATH_NB]"
  let ?batch = "odd_raw # map (\<lambda>i. raw_of [9, 9, 9] (sent_probe i)) [3, 1, 0, 2]"
  have four: "(\<forall>i<PATH_NB. P i) \<longleftrightarrow> P 0 \<and> P 1 \<and> P 2 \<and> P 3" for P
    by (auto simp: PATH_NB_def less_Suc_eq numeral_eq_Suc)
  have fresh: "fresh_mbuf fresh_blank" by (simp add: fresh_mbuf_def fresh_blank_def vs_blank_mbuf_def)
  have enc: "vs_encode_probe_pkt (\<lambda>_. [1, 2]) cq_host True (Some fresh_blank) (?s i) (of_nat i) =
      Some (sent_probe i)" for i
    by (simp add: sent_probe_def vs_encode_probe_pkt_def)
  from encoded_probe_is_control [OF enc fresh] have ctl:
    "is_control (raw_of [9, 9, 9] (sent_probe i))" "length (rp_data (raw_of [9, 9, 9] (sent_probe i))) = 74"
    for i by simp_all
  have odd: "\<not> is_control odd_raw" "length (rp_data odd_raw) = 80"
    by (simp_all add: is_control_def odd_raw_def)
  have "hopa_cp_mp vs_ready" by (simp add: vs_ready_def)
  moreover have "cq_send_turn (\<lambda>_. [1, 2]) vs_ready (\<lambda>i. Some fresh_blank) ?s = Inr ?pkts"
    by (simp add: cq_send_turn_def vs_enqueue_out_def vs_ready_def)
  moreover have "\<forall>i<PATH_NB. fresh_mbuf fresh_blank" using fresh by simp
  moreover have "m_rings vs_ready = Some \<lparr>cp_in_ring = True, cp_out_ring = True\<rparr>"
    "length (vs_delay_list vs_ready) = PATH_NB" "distinct [3, 1, 0, 2 :: nat]"
    "set [3, 1, 0, 2] = {..<PATH_NB}"
    by (auto simp: vs_ready_def vs_initial_def PATH_NB_def)
  moreover have "filter is_control ?batch = map (\<lambda>i. raw_of [9, 9, 9] (the (?pkts ! i))) [3, 1, 0, 2]"
  proof -
    have pk: "the (?pkts ! i) = sent_probe i" if "i \<in> set [3, 1, 0, 2]" for i
    proof -
      have "i < PATH_NB" using that by (auto simp: PATH_NB_def)
      then show ?thesis using enc [of i] by simp
    qed
    have "map (\<lambda>i. raw_of [9, 9, 9] (the (?pkts ! i))) [3, 1, 0, 2] =
        map (\<lambda>i. raw_of [9, 9, 9] (sent_probe i)) [3, 1, 0, 2]"
      by (rule map_cong [OF refl], subst pk) (rule refl | assumption)+
    then show ?thesis using ctl(1) odd(1) by (simp del: list.map)
  qed
  moreover have "\<forall>p\<in>set ?batch. 74 \<le> length (rp_data p)" "length ?batch \<le> 32"
    using ctl(2) odd(2) by simp_all
  moreover have "\<forall>i<PATH_NB. uint (timespec_ns (?r i)) = uint (timespec_ns (?s i)) + (50 - 10 * int i)
          + 1000000000 \<and> 0 \<le> 50 - 10 * int i + 1000000000 + 1000000000 \<and>
          50 - 10 * int i + 1000000000 + 1000000000 < 2 ^ 64"
    unfolding four by (simp add: timespec_ns_def)
  ultimately show ?thesis
    using control_path_selects_fastest [of vs_ready "\<lambda>_. [1, 2]" "\<lambda>_. fresh_blank" ?s ?pkts
        "[9, 9, 9]" vs_ready True "[3, 1, 0, 2]" ?batch "\<lambda>_. True" 8 ?r "\<lambda>i. 50 - 10 * int i" 1000000000]
    by (auto simp: PATH_NB_def)
qed

end
