(* ===== verification/Dpif_Sched.thy ===== *)
theory Dpif_Sched
  imports Repath_Prelude "HOL-Library.Multiset"
begin

text \<open>
  The assignment of receive queues to polling threads (\<open>dpif-netdev.c\<close>): the lists of NUMA
  nodes and of their threads, the three algorithms (round robin, cycles, group), pinning and
  isolation, the measure of imbalance, and the decision to rebalance.
\<close>

section \<open>State\<close>

definition PMD_INTERVAL_MAX :: nat where "PMD_INTERVAL_MAX = 6"

datatype sched_assignment_type = SCHED_ROUNDROBIN | SCHED_CYCLES | SCHED_GROUP

text \<open>
  A queue.  A pointer to a queue is its position in \<open>dp_rxqs\<close>, one to a port its position in
  \<open>dp_ports\<close>, one to a thread its position in \<open>poll_threads\<close>.  \<open>rq_core_id\<close> is \<open>None\<close> for
  \<open>OVS_CORE_UNSPEC\<close>, \<open>pmd_core_id\<close> is \<open>None\<close> for \<open>NON_PMD_CORE_ID\<close>; the counters
  \<open>RXQ_CYCLES_PROC_HIST\<close> and \<open>cycles_intrvl\<close> are \<open>rq_hist\<close> and \<open>rq_intrvl\<close>.
\<close>

record dp_netdev_rxq =
  rq_port :: nat
  rq_queue_id :: int
  rq_core_id :: "nat option"
  rq_pmd :: "nat option"
  rq_hist :: u64
  rq_intrvl :: "u64 list"
  rq_intrvl_idx :: u32

record dp_netdev_port =
  port_no :: u32
  port_is_pmd :: bool
  port_numa :: int
  port_rxqs :: "nat list"

record dp_netdev_pmd_thread =
  pmd_core_id :: "nat option"
  pmd_numa_id :: int
  pmd_isolated :: bool
  pmd_intrvl_cycles :: u64
  pmd_poll_count :: nat

record pmd_auto_lb =
  do_dry_run :: bool
  recheck_config :: bool
  rebalance_improve_thresh :: u8

text \<open>The maps of a datapath, as lists in the order in which they are traversed.\<close>

record dp_netdev =
  dp_ports :: "dp_netdev_port list"
  dp_rxqs :: "dp_netdev_rxq list"
  poll_threads :: "dp_netdev_pmd_thread list"
  pmd_iso :: bool
  pmd_rxq_assign_type :: sched_assignment_type
  pmd_alb :: pmd_auto_lb

record sched_pmd =
  sp_pmd :: nat
  pmd_proc_cycles :: u64
  sp_rxqs :: "nat list"
  sp_isolated :: bool

record sched_numa =
  numa_id :: int
  nm_pmds :: "sched_pmd list"
  n_isolated :: nat
  rr_cur_index :: nat
  rr_idx_inc :: bool

section \<open>Counters of a queue\<close>

definition dp_netdev_rxq_set_intrvl_cycles :: "dp_netdev_rxq \<Rightarrow> u64 \<Rightarrow> dp_netdev_rxq" where
  "dp_netdev_rxq_set_intrvl_cycles rx cycles =
     rx\<lparr>rq_intrvl := (rq_intrvl rx)[unat (rq_intrvl_idx rx) mod PMD_INTERVAL_MAX := cycles],
        rq_intrvl_idx := rq_intrvl_idx rx + 1\<rparr>"

definition dp_netdev_rxq_get_intrvl_cycles :: "dp_netdev_rxq \<Rightarrow> nat \<Rightarrow> u64" where
  "dp_netdev_rxq_get_intrvl_cycles rx idx = rq_intrvl rx ! idx"

text \<open>The sum over the intervals, as all users compute it.\<close>

definition rxq_cycle_hist :: "dp_netdev_rxq \<Rightarrow> u64" where
  "rxq_cycle_hist rx = (\<Sum>i\<leftarrow>[0..<PMD_INTERVAL_MAX]. dp_netdev_rxq_get_intrvl_cycles rx i)"

section \<open>Sorting\<close>

text \<open>
  \<open>qsort\<close>, for a comparison function that only says 0 of equal elements: then any sorting
  algorithm gives the same list (lemma \<open>qsort_unique\<close>).
\<close>

fun insert_cmp :: "('a \<Rightarrow> 'a \<Rightarrow> int) \<Rightarrow> 'a \<Rightarrow> 'a list \<Rightarrow> 'a list" where
  "insert_cmp cmp x [] = [x]"
| "insert_cmp cmp x (y # ys) = (if cmp x y \<le> 0 then x # y # ys else y # insert_cmp cmp x ys)"

definition qsort :: "('a \<Rightarrow> 'a \<Rightarrow> int) \<Rightarrow> 'a list \<Rightarrow> 'a list" where
  "qsort cmp xs = foldr (insert_cmp cmp) xs []"

text \<open>Threads in lists have a core: \<open>compare_poll_thread_list\<close> compares the numbers.\<close>

definition core_of :: "dp_netdev_pmd_thread list \<Rightarrow> nat \<Rightarrow> nat" where
  "core_of threads p = (case pmd_core_id (threads ! p) of Some c \<Rightarrow> c | None \<Rightarrow> 0)"

definition compare_poll_thread_list :: "dp_netdev_pmd_thread list \<Rightarrow> nat \<Rightarrow> nat \<Rightarrow> int" where
  "compare_poll_thread_list threads a b =
     (if core_of threads a < core_of threads b then - 1
      else if core_of threads a > core_of threads b then 1 else 0)"

definition compare_sched_pmd_list :: "dp_netdev_pmd_thread list \<Rightarrow> sched_pmd \<Rightarrow> sched_pmd \<Rightarrow> int" where
  "compare_sched_pmd_list threads a b = compare_poll_thread_list threads (sp_pmd a) (sp_pmd b)"

text \<open>Queues by falling cycles, then by port and queue number.\<close>

definition compare_rxq_cycles :: "dp_netdev_port list \<Rightarrow> dp_netdev_rxq list \<Rightarrow> nat \<Rightarrow> nat \<Rightarrow> int" where
  "compare_rxq_cycles ports rxqs a b =
     (let qa = rxqs ! a; qb = rxqs ! b in
      if rq_hist qa \<noteq> rq_hist qb then (if rq_hist qa < rq_hist qb then 1 else - 1)
      else
        let port_qa = port_no (ports ! rq_port qa); port_qb = port_no (ports ! rq_port qb) in
        if port_qa \<noteq> port_qb then (if port_qa > port_qb then 1 else - 1)
        else rq_queue_id qa - rq_queue_id qb)"

section \<open>The list of NUMA nodes\<close>

text \<open>
  A hash map traversed in the order of the list; where a new node comes in this order depends on
  the hash function, which is \<open>pos\<close>: the place of a number among those that are there.
\<close>

definition sched_numa_list_lookup :: "sched_numa list \<Rightarrow> int \<Rightarrow> nat option" where
  "sched_numa_list_lookup numas nid = find_index_from 0 (\<lambda>n. numa_id n = nid) numas"

definition sched_numa_list_next :: "sched_numa list \<Rightarrow> nat option \<Rightarrow> nat option" where
  "sched_numa_list_next numas numa =
     (let node = (case numa of Some i \<Rightarrow> if Suc i < length numas then Some (Suc i) else None | None \<Rightarrow> None)
      in case node of Some i \<Rightarrow> Some i | None \<Rightarrow> if numas = [] then None else Some 0)"

definition numa_insert :: "(int \<Rightarrow> int list \<Rightarrow> nat) \<Rightarrow> sched_numa \<Rightarrow> sched_numa list \<Rightarrow> sched_numa list" where
  "numa_insert pos n numas =
     (let k = pos (numa_id n) (map numa_id numas) in take k numas @ n # drop k numas)"

definition new_sched_pmd :: "nat \<Rightarrow> sched_pmd" where
  "new_sched_pmd p = \<lparr>sp_pmd = p, pmd_proc_cycles = 0, sp_rxqs = [], sp_isolated = False\<rparr>"

definition populate_pmd ::
  "(int \<Rightarrow> int list \<Rightarrow> nat) \<Rightarrow> dp_netdev_pmd_thread list \<Rightarrow> nat \<Rightarrow> sched_numa list \<Rightarrow> sched_numa list" where
  "populate_pmd pos threads p numas =
     (if pmd_core_id (threads ! p) = None then numas
      else
        let nid = pmd_numa_id (threads ! p);
            numas = (case sched_numa_list_lookup numas nid of
                 Some i \<Rightarrow> numas
               | None \<Rightarrow> numa_insert pos \<lparr>numa_id = nid, nm_pmds = [], n_isolated = 0,
                           rr_cur_index = 0, rr_idx_inc = False\<rparr> numas)
        in case sched_numa_list_lookup numas nid of
             None \<Rightarrow> numas
           | Some i \<Rightarrow> numas[i := (numas ! i)\<lparr>nm_pmds := nm_pmds (numas ! i) @ [new_sched_pmd p],
                                rr_cur_index := 0, rr_idx_inc := True\<rparr>])"

definition sort_numa_list_pmds ::
  "dp_netdev_pmd_thread list \<Rightarrow> sched_numa list \<Rightarrow> sched_numa list" where
  "sort_numa_list_pmds threads numas =
     map (\<lambda>n. if 1 < length (nm_pmds n)
              then n\<lparr>nm_pmds := qsort (compare_sched_pmd_list threads) (nm_pmds n)\<rparr> else n) numas"

definition sched_numa_list_populate ::
  "(int \<Rightarrow> int list \<Rightarrow> nat) \<Rightarrow> dp_netdev_pmd_thread list \<Rightarrow> sched_numa list" where
  "sched_numa_list_populate pos threads =
     sort_numa_list_pmds threads
       (fold (populate_pmd pos threads) [0..<length threads] [])"

text \<open>The position (node, thread in the node) of a thread; a null pointer has none.\<close>

fun find_pmd_from :: "nat \<Rightarrow> sched_numa list \<Rightarrow> nat \<Rightarrow> (nat \<times> nat) option" where
  "find_pmd_from i [] p = None"
| "find_pmd_from i (n # ns) p =
     (case find_index_from 0 (\<lambda>s. sp_pmd s = p) (nm_pmds n) of
        Some j \<Rightarrow> Some (i, j)
      | None \<Rightarrow> find_pmd_from (Suc i) ns p)"

definition sched_pmd_find_by_pmd :: "sched_numa list \<Rightarrow> nat option \<Rightarrow> (nat \<times> nat) option" where
  "sched_pmd_find_by_pmd numas pmd =
     (case pmd of None \<Rightarrow> None | Some p \<Rightarrow> find_pmd_from 0 numas p)"

definition sched_pmd_add_rxq :: "nat \<Rightarrow> u64 \<Rightarrow> sched_pmd \<Rightarrow> sched_pmd" where
  "sched_pmd_add_rxq rxq cycles s =
     s\<lparr>sp_rxqs := sp_rxqs s @ [rxq], pmd_proc_cycles := pmd_proc_cycles s + cycles\<rparr>"

text \<open>Changing a thread of a node in place.\<close>

definition upd_pmd :: "sched_numa list \<Rightarrow> nat \<times> nat \<Rightarrow> (sched_pmd \<Rightarrow> sched_pmd) \<Rightarrow> sched_numa list" where
  "upd_pmd numas pos f =
     (case pos of (i, j) \<Rightarrow>
        numas[i := (numas ! i)\<lparr>nm_pmds := (nm_pmds (numas ! i))[j := f (nm_pmds (numas ! i) ! j)]\<rparr>])"

definition pmd_at :: "sched_numa list \<Rightarrow> nat \<times> nat \<Rightarrow> sched_pmd" where
  "pmd_at numas pos = nm_pmds (numas ! fst pos) ! snd pos"

text \<open>\<open>dp_netdev_get_pmd\<close>: threads of the datapath hold a reference, so that one that is found is returned.\<close>

definition dp_netdev_get_pmd :: "dp_netdev_pmd_thread list \<Rightarrow> nat \<Rightarrow> nat option" where
  "dp_netdev_get_pmd threads core = find_index_from 0 (\<lambda>t. pmd_core_id t = Some core) threads"

definition sched_numa_noniso_pmd_count :: "sched_numa \<Rightarrow> nat" where
  "sched_numa_noniso_pmd_count numa =
     (if length (nm_pmds numa) > n_isolated numa then length (nm_pmds numa) - n_isolated numa else 0)"

section \<open>Selecting a thread\<close>

fun lowest_loop :: "bool \<Rightarrow> nat \<Rightarrow> sched_pmd list \<Rightarrow> u64 \<Rightarrow> nat option \<Rightarrow> nat option" where
  "lowest_loop has_cyc i [] lowest_num lowest = lowest"
| "lowest_loop has_cyc i (s # ss) lowest_num lowest =
     (if sp_isolated s then lowest_loop has_cyc (Suc i) ss lowest_num lowest
      else
        let pmd_num = (if has_cyc then pmd_proc_cycles s else of_nat (length (sp_rxqs s)))
        in if pmd_num < lowest_num then lowest_loop has_cyc (Suc i) ss pmd_num (Some i)
           else lowest_loop has_cyc (Suc i) ss lowest_num lowest)"

definition sched_pmd_get_lowest :: "sched_numa \<Rightarrow> bool \<Rightarrow> nat option" where
  "sched_pmd_get_lowest numa has_cyc = lowest_loop has_cyc 0 (nm_pmds numa) (- 1) None"

definition sched_pmd_next_rr :: "sched_numa \<Rightarrow> bool \<Rightarrow> nat \<times> sched_numa" where
  "sched_pmd_next_rr numa updown =
     (rr_cur_index numa,
      if rr_idx_inc numa then
        (if rr_cur_index numa = length (nm_pmds numa) - 1 then
           (if updown then numa\<lparr>rr_idx_inc := False\<rparr> else numa\<lparr>rr_cur_index := 0\<rparr>)
         else numa\<lparr>rr_cur_index := rr_cur_index numa + 1\<rparr>)
      else
        (if rr_cur_index numa = 0 then numa\<lparr>rr_idx_inc := True\<rparr>
         else numa\<lparr>rr_cur_index := rr_cur_index numa - 1\<rparr>))"

fun noniso_loop :: "nat \<Rightarrow> sched_numa \<Rightarrow> bool \<Rightarrow> nat option \<times> sched_numa" where
  "noniso_loop 0 numa updown = (None, numa)"
| "noniso_loop (Suc n) numa updown =
     (case sched_pmd_next_rr numa updown of (k, numa') \<Rightarrow>
        if \<not> sp_isolated (nm_pmds numa ! k) then (Some k, numa') else noniso_loop n numa' updown)"

definition sched_pmd_next_noniso_rr :: "sched_numa \<Rightarrow> bool \<Rightarrow> nat option \<times> sched_numa" where
  "sched_pmd_next_noniso_rr numa updown = noniso_loop (length (nm_pmds numa) * 2) numa updown"

definition sched_pmd_next ::
  "sched_numa \<Rightarrow> sched_assignment_type \<Rightarrow> bool \<Rightarrow> nat option \<times> sched_numa" where
  "sched_pmd_next numa algo has_proc =
     (if algo = SCHED_GROUP then (sched_pmd_get_lowest numa has_proc, numa)
      else sched_pmd_next_noniso_rr numa (algo = SCHED_CYCLES))"

section \<open>Scheduling\<close>

text \<open>
  The first loop, for the queue \<open>r\<close>: store the cycle history, pin a pinned queue, and remember
  the others and those whose core has no thread.
\<close>

definition pin_rxq ::
  "dp_netdev_pmd_thread list \<Rightarrow> bool \<Rightarrow> sched_assignment_type \<Rightarrow> nat
   \<Rightarrow> dp_netdev_rxq list \<times> sched_numa list \<times> nat list \<Rightarrow> dp_netdev_rxq list \<times> sched_numa list \<times> nat list"
where
  "pin_rxq threads isolate algo r st =
     (case st of (rxqs, numas, pending) \<Rightarrow>
        let rxqs = (if algo \<noteq> SCHED_ROUNDROBIN
                    then rxqs[r := (rxqs ! r)\<lparr>rq_hist := rxq_cycle_hist (rxqs ! r)\<rparr>] else rxqs)
        in case rq_core_id (rxqs ! r) of
             None \<Rightarrow> (rxqs, numas, pending @ [r])
           | Some core \<Rightarrow>
               (case sched_pmd_find_by_pmd numas (dp_netdev_get_pmd threads core) of
                  None \<Rightarrow> (rxqs, numas, pending @ [r])
                | Some pos \<Rightarrow>
                    let numas = (if isolate \<and> \<not> sp_isolated (pmd_at numas pos) then
                          (let ns = upd_pmd numas pos (\<lambda>s. s\<lparr>sp_isolated := True\<rparr>) in
                           ns[fst pos := (ns ! fst pos)\<lparr>n_isolated := n_isolated (ns ! fst pos) + 1\<rparr>])
                        else numas)
                    in (rxqs, upd_pmd numas pos (sched_pmd_add_rxq r (rq_hist (rxqs ! r))), pending)))"

text \<open>The queues of the ports that are polled, in the order of the loops.\<close>

definition polled_rxqs :: "dp_netdev_port list \<Rightarrow> nat list" where
  "polled_rxqs ports = concat (map port_rxqs (filter port_is_pmd ports))"

text \<open>The search of any node with an available thread, after the node used last.\<close>

fun cross_loop :: "sched_numa list \<Rightarrow> nat \<Rightarrow> nat option \<Rightarrow> nat option \<times> nat option" where
  "cross_loop numas 0 lst = (None, lst)"
| "cross_loop numas (Suc n) lst =
     (case sched_numa_list_next numas lst of
        None \<Rightarrow> (None, None)
      | Some k \<Rightarrow> if sched_numa_noniso_pmd_count (numas ! k) \<noteq> 0 then (Some k, Some k)
                 else cross_loop numas n (Some k))"

definition select_numa :: "sched_numa list \<Rightarrow> int \<Rightarrow> nat option \<Rightarrow> nat option \<times> nat option" where
  "select_numa numas nid lst =
     (case sched_numa_list_lookup numas nid of
        Some i \<Rightarrow> if sched_numa_noniso_pmd_count (numas ! i) \<noteq> 0 then (Some i, lst)
                  else cross_loop numas (length numas) lst
      | None \<Rightarrow> cross_loop numas (length numas) lst)"

text \<open>The third loop, for the queue \<open>r\<close>.\<close>

definition assign_rxq ::
  "dp_netdev_port list \<Rightarrow> dp_netdev_rxq list \<Rightarrow> sched_assignment_type \<Rightarrow> nat
   \<Rightarrow> sched_numa list \<times> nat option \<Rightarrow> sched_numa list \<times> nat option" where
  "assign_rxq ports rxqs algo r st =
     (case st of (numas, lst) \<Rightarrow>
        let proc_cycles = rq_hist (rxqs ! r) in
        case select_numa numas (port_numa (ports ! rq_port (rxqs ! r))) lst of
          (None, lst') \<Rightarrow> (numas, lst')
        | (Some i, lst') \<Rightarrow>
            (case sched_pmd_next (numas ! i) algo (proc_cycles \<noteq> 0) of
               (None, numa') \<Rightarrow> (numas[i := numa'], lst')
             | (Some j, numa') \<Rightarrow>
                 (upd_pmd (numas[i := numa']) (i, j) (sched_pmd_add_rxq r proc_cycles), lst')))"

definition sched_numa_list_schedule ::
  "sched_numa list \<Rightarrow> dp_netdev \<Rightarrow> sched_assignment_type \<Rightarrow> dp_netdev_rxq list \<times> sched_numa list" where
  "sched_numa_list_schedule numas dp algo =
     (let (rxqs, numas, pending) =
            fold (pin_rxq (poll_threads dp) (pmd_iso dp) algo) (polled_rxqs (dp_ports dp))
              (dp_rxqs dp, numas, []);
          pending = (if 1 < length pending \<and> algo \<noteq> SCHED_ROUNDROBIN
                     then qsort (compare_rxq_cycles (dp_ports dp) rxqs) pending else pending)
      in (rxqs, fst (fold (assign_rxq (dp_ports dp) rxqs algo) pending (numas, None))))"

section \<open>Taking the assignment over\<close>

definition all_pmds :: "sched_numa list \<Rightarrow> sched_pmd list" where
  "all_pmds numas = concat (map nm_pmds numas)"

definition put_pmd :: "sched_pmd \<Rightarrow> dp_netdev \<Rightarrow> dp_netdev" where
  "put_pmd s dp = dp\<lparr>poll_threads := (poll_threads dp)[sp_pmd s :=
       (poll_threads dp ! sp_pmd s)\<lparr>pmd_isolated := sp_isolated s\<rparr>],
     dp_rxqs := fold (\<lambda>r rxqs. rxqs[r := (rxqs ! r)\<lparr>rq_pmd := Some (sp_pmd s)\<rparr>]) (sp_rxqs s) (dp_rxqs dp)\<rparr>"

definition sched_numa_list_put_in_place :: "sched_numa list \<Rightarrow> dp_netdev \<Rightarrow> dp_netdev" where
  "sched_numa_list_put_in_place numas dp = fold put_pmd (all_pmds numas) dp"

definition rxq_scheduling :: "(int \<Rightarrow> int list \<Rightarrow> nat) \<Rightarrow> dp_netdev \<Rightarrow> dp_netdev" where
  "rxq_scheduling pos dp =
     (let numas = sched_numa_list_populate pos (poll_threads dp);
          (rxqs, numas) = sched_numa_list_schedule numas dp (pmd_rxq_assign_type dp)
      in sched_numa_list_put_in_place numas (dp\<lparr>dp_rxqs := rxqs\<rparr>))"

text \<open>Step 4 of \<open>reconfigure_datapath\<close>: no thread is isolated, no queue assigned; then the scheduling.\<close>

definition reset_assignment :: "dp_netdev \<Rightarrow> dp_netdev" where
  "reset_assignment dp = dp\<lparr>
     poll_threads := map (\<lambda>t. t\<lparr>pmd_isolated := False\<rparr>) (poll_threads dp),
     dp_rxqs := fold (\<lambda>r rxqs. rxqs[r := (rxqs ! r)\<lparr>rq_pmd := None\<rparr>])
       (concat (map port_rxqs (dp_ports dp))) (dp_rxqs dp)\<rparr>"

definition reconfigure_scheduling :: "(int \<Rightarrow> int list \<Rightarrow> nat) \<Rightarrow> dp_netdev \<Rightarrow> dp_netdev" where
  "reconfigure_scheduling pos dp = rxq_scheduling pos (reset_assignment dp)"

section \<open>The current assignment\<close>

definition assign_current ::
  "dp_netdev \<Rightarrow> nat \<Rightarrow> sched_numa list \<Rightarrow> sched_numa list" where
  "assign_current dp r numas =
     (case sched_pmd_find_by_pmd numas (rq_pmd (dp_rxqs dp ! r)) of
        None \<Rightarrow> numas
      | Some pos \<Rightarrow>
          upd_pmd (if rq_core_id (dp_rxqs dp ! r) \<noteq> None \<and> pmd_iso dp
                   then upd_pmd numas pos (\<lambda>s. s\<lparr>sp_isolated := True\<rparr>) else numas)
            pos (sched_pmd_add_rxq r (rxq_cycle_hist (dp_rxqs dp ! r))))"

definition sched_numa_list_assignments :: "sched_numa list \<Rightarrow> dp_netdev \<Rightarrow> sched_numa list" where
  "sched_numa_list_assignments numas dp = fold (assign_current dp) (polled_rxqs (dp_ports dp)) numas"

text \<open>
  Whether a queue that is not pinned is polled from another node: by the thread the queue has in
  \<open>dp_rxqs\<close>, which the lists do not change.
\<close>

fun cross_rxqs :: "dp_netdev \<Rightarrow> nat list \<Rightarrow> bool c_result" where
  "cross_rxqs dp [] = Inr False"
| "cross_rxqs dp (r # rs) =
     (if rq_core_id (dp_rxqs dp ! r) \<noteq> None then cross_rxqs dp rs
      else case rq_pmd (dp_rxqs dp ! r) of
        None \<Rightarrow> Inl Null_Deref
      | Some p \<Rightarrow> if pmd_numa_id (poll_threads dp ! p) \<noteq> port_numa (dp_ports dp ! rq_port (dp_rxqs dp ! r))
                 then Inr True else cross_rxqs dp rs)"

fun cross_pmds :: "dp_netdev \<Rightarrow> sched_pmd list \<Rightarrow> bool c_result" where
  "cross_pmds dp [] = Inr False"
| "cross_pmds dp (s # ss) =
     (if sp_isolated s then cross_pmds dp ss
      else bindr (cross_rxqs dp (sp_rxqs s)) (\<lambda>b. if b then Inr True else cross_pmds dp ss))"

definition sched_numa_list_cross_numa_polling :: "sched_numa list \<Rightarrow> dp_netdev \<Rightarrow> bool c_result" where
  "sched_numa_list_cross_numa_polling numas dp = cross_pmds dp (all_pmds numas)"

section \<open>Imbalance\<close>

definition variance :: "u64 list \<Rightarrow> u64" where
  "variance a =
     (if a = [] then 0
      else
        let n = of_nat (length a);
            sum = sum_list a;
            sqDiff = (if sum \<noteq> 0 then (let mean = sum div n in (\<Sum>x\<leftarrow>a. (x - mean) * (x - mean))) else 0)
        in if sqDiff \<noteq> 0 then sqDiff div n else 0)"

definition percent_busy :: "dp_netdev_pmd_thread list \<Rightarrow> sched_pmd \<Rightarrow> u64 c_result" where
  "percent_busy threads s =
     (let total_cycles = pmd_intrvl_cycles (threads ! sp_pmd s) in
      if total_cycles \<noteq> 0 then u64_div (pmd_proc_cycles s * 100) (total_cycles * of_nat PMD_INTERVAL_MAX)
      else Inr 0)"

fun percents :: "dp_netdev_pmd_thread list \<Rightarrow> sched_pmd list \<Rightarrow> u64 list c_result" where
  "percents threads [] = Inr []"
| "percents threads (s # ss) =
     (if sp_isolated s then percents threads ss
      else bindr (percent_busy threads s) (\<lambda>p. bindr (percents threads ss) (\<lambda>ps. Inr (p # ps))))"

definition sched_numa_list_variance ::
  "sched_numa list \<Rightarrow> dp_netdev_pmd_thread list \<Rightarrow> u64 c_result" where
  "sched_numa_list_variance numas threads =
     bindr (percents threads (all_pmds numas)) (\<lambda>ps. Inr (variance ps))"

section \<open>Rebalancing\<close>

text \<open>The loop of \<open>pmd_rebalance_dry_run_needed\<close> over the threads.\<close>

fun needed_loop :: "dp_netdev_pmd_thread list \<Rightarrow> nat \<Rightarrow> bool \<Rightarrow> bool" where
  "needed_loop [] cnt multi_rxq = False"
| "needed_loop (t # ts) cnt multi_rxq =
     (if pmd_core_id t = None \<or> pmd_isolated t then needed_loop ts cnt multi_rxq
      else
        let multi_rxq = (if 1 < pmd_poll_count t then True else multi_rxq)
        in if cnt \<noteq> 0 \<and> multi_rxq then True else needed_loop ts (Suc cnt) multi_rxq)"

definition pmd_rebalance_dry_run_needed :: "dp_netdev \<Rightarrow> bool \<times> dp_netdev" where
  "pmd_rebalance_dry_run_needed dp =
     (if \<not> recheck_config (pmd_alb dp) then (do_dry_run (pmd_alb dp), dp)
      else
        let dry = pmd_rxq_assign_type dp \<noteq> SCHED_ROUNDROBIN \<and> needed_loop (poll_threads dp) 0 False
        in (dry, dp\<lparr>pmd_alb := (pmd_alb dp)\<lparr>recheck_config := False, do_dry_run := dry\<rparr>\<rparr>))"

text \<open>
  The dry run: whether the threshold is met, and the datapath (whose queues have got their cycle
  history).
\<close>

definition improvement :: "u64 \<Rightarrow> u64 \<Rightarrow> u64 c_result" where
  "improvement current_var estimate_var =
     (if estimate_var < current_var then u64_div ((current_var - estimate_var) * 100) current_var else Inr 0)"

definition pmd_rebalance_dry_run ::
  "(int \<Rightarrow> int list \<Rightarrow> nat) \<Rightarrow> dp_netdev \<Rightarrow> (bool \<times> dp_netdev) c_result" where
  "pmd_rebalance_dry_run pos dp =
     (let cur = sched_numa_list_assignments (sched_numa_list_populate pos (poll_threads dp)) dp;
          (rxqs, est) = sched_numa_list_schedule (sched_numa_list_populate pos (poll_threads dp)) dp
                          (pmd_rxq_assign_type dp);
          dp = dp\<lparr>dp_rxqs := rxqs\<rparr>
      in bindr (sched_numa_list_cross_numa_polling est dp) (\<lambda>cross.
           if \<not> cross \<or> length est = 1 then
             bindr (sched_numa_list_variance cur (poll_threads dp)) (\<lambda>current_var.
             bindr (sched_numa_list_variance est (poll_threads dp)) (\<lambda>estimate_var.
             bindr (improvement current_var estimate_var) (\<lambda>imp.
               Inr (ucast (rebalance_improve_thresh (pmd_alb dp)) \<le> imp, dp))))
           else Inr (False, dp)))"

end
