(* ===== verification/Dpif_Sched_Laws.thy ===== *)
theory Dpif_Sched_Laws
  imports Dpif_Sched
begin

text \<open>
  The laws behind the scheduling: sorting, the list of nodes after it has been populated, the
  search of a node, and what any way of selecting a thread has to promise (the interface
  \<open>pmd_selection\<close>, with the three algorithms as its implementations).
\<close>

section \<open>Sorting\<close>

definition sorted_cmp :: "('a \<Rightarrow> 'a \<Rightarrow> int) \<Rightarrow> 'a list \<Rightarrow> bool" where
  "sorted_cmp cmp = sorted_wrt (\<lambda>x y. cmp x y \<le> 0)"

text \<open>A comparison function that orders the elements of a set.\<close>

definition orders :: "('a \<Rightarrow> 'a \<Rightarrow> int) \<Rightarrow> 'a set \<Rightarrow> bool" where
  "orders cmp A \<longleftrightarrow> (\<forall>x\<in>A. \<forall>y\<in>A. cmp x y \<le> 0 \<or> cmp y x \<le> 0) \<and>
     (\<forall>x\<in>A. \<forall>y\<in>A. cmp x y \<le> 0 \<longrightarrow> cmp y x \<le> 0 \<longrightarrow> x = y) \<and>
     (\<forall>x\<in>A. \<forall>y\<in>A. \<forall>z\<in>A. cmp x y \<le> 0 \<longrightarrow> cmp y z \<le> 0 \<longrightarrow> cmp x z \<le> 0)"

lemma ordersD:
  assumes "orders cmp A"
  shows "x \<in> A \<Longrightarrow> y \<in> A \<Longrightarrow> cmp x y \<le> 0 \<or> cmp y x \<le> 0"
    and "x \<in> A \<Longrightarrow> y \<in> A \<Longrightarrow> cmp x y \<le> 0 \<Longrightarrow> cmp y x \<le> 0 \<Longrightarrow> x = y"
    and "x \<in> A \<Longrightarrow> y \<in> A \<Longrightarrow> z \<in> A \<Longrightarrow> cmp x y \<le> 0 \<Longrightarrow> cmp y z \<le> 0 \<Longrightarrow> cmp x z \<le> 0"
  using assms unfolding orders_def by blast+

lemma mset_insert_cmp [simp]: "mset (insert_cmp cmp x ys) = add_mset x (mset ys)"
  by (induction ys) auto

lemma mset_qsort [simp]: "mset (qsort cmp xs) = mset xs"
  by (induction xs) (simp_all add: qsort_def)

lemma set_qsort [simp]: "set (qsort cmp xs) = set xs"
  by (metis mset_eq_setD mset_qsort)

lemma length_qsort [simp]: "length (qsort cmp xs) = length xs"
  by (metis mset_qsort size_mset)

lemma distinct_qsort [simp]: "distinct (qsort cmp xs) = distinct xs"
  by (metis mset_qsort mset_eq_imp_distinct_iff)

lemma set_insert_cmp [simp]: "set (insert_cmp cmp x ys) = insert x (set ys)"
  by (metis mset_insert_cmp set_mset_add_mset_insert set_mset_mset)

lemma sorted_insert_cmp:
  assumes "orders cmp A" and "x \<in> A" and "set ys \<subseteq> A" and "sorted_cmp cmp ys"
  shows "sorted_cmp cmp (insert_cmp cmp x ys)"
  using assms(3,4)
proof (induction ys)
  case (Cons y ys)
  note o = ordersD [OF assms(1)]
  show ?case
  proof (cases "cmp x y \<le> 0")
    case True
    then show ?thesis using Cons.prems o(3) [OF assms(2)] by (auto simp: sorted_cmp_def)
  next
    case False
    then have "cmp y x \<le> 0" using o(1) [OF assms(2), of y] Cons.prems by auto
    then show ?thesis using Cons False by (auto simp: sorted_cmp_def)
  qed
qed (simp add: sorted_cmp_def)

lemma sorted_qsort:
  assumes "orders cmp A" and "set xs \<subseteq> A"
  shows "sorted_cmp cmp (qsort cmp xs)"
  using assms(2)
proof (induction xs)
  case (Cons x xs)
  then have "set (foldr (insert_cmp cmp) xs []) \<subseteq> A" using set_qsort [of cmp xs] by (simp add: qsort_def)
  then show ?case using Cons sorted_insert_cmp [OF assms(1), of x] by (simp add: qsort_def)
qed (simp add: qsort_def sorted_cmp_def)

lemma qsort_unique:
  assumes "orders cmp (set xs)" and "mset ys = mset xs" and "sorted_cmp cmp ys"
  shows "ys = qsort cmp xs"
proof -
  have "ys = zs" if "mset ys = mset zs" "sorted_cmp cmp ys" "sorted_cmp cmp zs" "set ys \<subseteq> set xs" for ys zs
    using that
  proof (induction ys arbitrary: zs)
    case (Cons y ys)
    then obtain z zs' where zs: "zs = z # zs'" by (cases zs) auto
    have sets: "set (y # ys) = set (z # zs')" using Cons.prems(1) zs mset_eq_setD by blast
    have "y = z"
    proof (rule ccontr)
      assume "y \<noteq> z"
      then have "z \<in> set ys" "y \<in> set zs'" using sets by auto
      then have "cmp y z \<le> 0" "cmp z y \<le> 0" using Cons.prems(2,3) zs by (auto simp: sorted_cmp_def)
      moreover have "y \<in> set xs" "z \<in> set xs" using Cons.prems(4) \<open>z \<in> set ys\<close> by auto
      ultimately show False using ordersD(2) [OF assms(1)] \<open>y \<noteq> z\<close> by blast
    qed
    then show ?case using Cons zs by (auto simp: sorted_cmp_def)
  qed simp
  moreover have "set ys = set xs" using assms(2) mset_eq_setD by blast
  ultimately show ?thesis using assms sorted_qsort [OF assms(1)] by simp
qed

section \<open>Populating\<close>

definition has_core :: "dp_netdev_pmd_thread list \<Rightarrow> nat \<Rightarrow> bool" where
  "has_core threads p \<longleftrightarrow> pmd_core_id (threads ! p) \<noteq> None"

definition fresh_numa :: "dp_netdev_pmd_thread list \<Rightarrow> sched_numa \<Rightarrow> bool" where
  "fresh_numa threads n \<longleftrightarrow> nm_pmds n \<noteq> [] \<and> rr_cur_index n = 0 \<and> rr_idx_inc n \<and> n_isolated n = 0 \<and>
     (\<forall>s\<in>set (nm_pmds n). s = new_sched_pmd (sp_pmd s) \<and> pmd_numa_id (threads ! sp_pmd s) = numa_id n)"

definition populated :: "dp_netdev_pmd_thread list \<Rightarrow> nat list \<Rightarrow> sched_numa list \<Rightarrow> bool" where
  "populated threads ps numas \<longleftrightarrow> distinct (map numa_id numas) \<and>
     mset (map sp_pmd (all_pmds numas)) = mset (filter (has_core threads) ps) \<and>
     (\<forall>n\<in>set numas. fresh_numa threads n)"

lemma mset_numa_insert: "mset (numa_insert pos n numas) = add_mset n (mset numas)"
proof -
  have "mset (take k numas) + mset (drop k numas) = mset numas" for k
    by (metis append_take_drop_id mset_append)
  then show ?thesis by (simp add: numa_insert_def Let_def)
qed

lemma mset_all_pmds: "mset (all_pmds numas) = (\<Sum>n\<in>#mset numas. mset (nm_pmds n))"
  by (induction numas) (simp_all add: all_pmds_def)

lemma lookup_numa_Some:
  "sched_numa_list_lookup numas nid = Some i \<Longrightarrow> i < length numas \<and> numa_id (numas ! i) = nid"
  using find_index_from_SomeD [of 0 _ numas i] by (auto simp: sched_numa_list_lookup_def)

lemma lookup_numa_None:
  "sched_numa_list_lookup numas nid = None \<longleftrightarrow> nid \<notin> numa_id ` set numas"
  by (auto simp: sched_numa_list_lookup_def)

lemma mset_update_sum:
  assumes "i < length xs" and "f x = f (xs ! i) + d"
  shows "(\<Sum>y\<in>#mset (xs[i := x]). f y) = (\<Sum>y\<in>#mset xs. f y) + (d :: 'a multiset)"
proof -
  have "mset xs = add_mset (xs ! i) (mset (take i xs @ drop (Suc i) xs))"
    by (subst id_take_nth_drop [OF assms(1)]) simp
  then show ?thesis using assms by (simp add: update_split)
qed

lemma populated_update:
  assumes "distinct (map numa_id numas)" and "i < length numas" and "numa_id (numas ! i) = pmd_numa_id (threads ! p)"
    and "\<forall>j<length numas. j \<noteq> i \<longrightarrow> fresh_numa threads (numas ! j)"
    and "n_isolated (numas ! i) = 0"
    and "\<forall>s\<in>set (nm_pmds (numas ! i)). s = new_sched_pmd (sp_pmd s) \<and>
           pmd_numa_id (threads ! sp_pmd s) = numa_id (numas ! i)"
    and "mset (map sp_pmd (all_pmds numas)) = mset (filter (has_core threads) ps)" and "has_core threads p"
  shows "populated threads (ps @ [p]) (numas[i := (numas ! i)\<lparr>nm_pmds := nm_pmds (numas ! i) @
           [new_sched_pmd p], rr_cur_index := 0, rr_idx_inc := True\<rparr>])"
    (is "populated _ _ (numas[i := ?n])")
proof -
  have "map numa_id (numas[i := ?n]) = map numa_id numas"
    using assms(2) by (simp add: map_update list_update_same_conv)
  moreover have "mset (all_pmds (numas[i := ?n])) = mset (all_pmds numas) + {#new_sched_pmd p#}"
    unfolding mset_all_pmds by (rule mset_update_sum [OF assms(2)]) simp
  moreover have "fresh_numa threads ?n"
    using assms(3,5,6) by (auto simp: fresh_numa_def new_sched_pmd_def)
  ultimately show ?thesis
    using assms(1,2,4,7,8) unfolding populated_def
    by (auto simp: in_set_conv_nth nth_list_update new_sched_pmd_def)
qed

lemma populated_step:
  assumes "populated threads ps numas"
  shows "populated threads (ps @ [p]) (populate_pmd pos threads p numas)"
proof (cases "has_core threads p")
  case False
  then show ?thesis using assms by (simp add: populate_pmd_def has_core_def populated_def)
next
  case True
  let ?nid = "pmd_numa_id (threads ! p)"
  have d: "distinct (map numa_id numas)" and fresh: "\<forall>n\<in>set numas. fresh_numa threads n"
    and m: "mset (map sp_pmd (all_pmds numas)) = mset (filter (has_core threads) ps)"
    using assms by (simp_all add: populated_def)
  show ?thesis
  proof (cases "sched_numa_list_lookup numas ?nid")
    case (Some i)
    note i = lookup_numa_Some [OF Some]
    then have "fresh_numa threads (numas ! i)" using fresh by simp
    then have "populated threads (ps @ [p]) (numas[i := (numas ! i)\<lparr>nm_pmds := nm_pmds (numas ! i) @
        [new_sched_pmd p], rr_cur_index := 0, rr_idx_inc := True\<rparr>])"
      using d i fresh m True by (intro populated_update) (auto simp: fresh_numa_def)
    then show ?thesis using True Some by (auto simp: populate_pmd_def has_core_def Let_def)
  next
    case None
    define n where "n = \<lparr>numa_id = ?nid, nm_pmds = [], n_isolated = 0, rr_cur_index = 0, rr_idx_inc = False\<rparr>"
    define ns where "ns = numa_insert pos n numas"
    have ms: "mset ns = add_mset n (mset numas)" by (simp add: ns_def mset_numa_insert)
    then have sets: "set ns = insert n (set numas)"
      by (metis set_mset_add_mset_insert set_mset_mset)
    have "mset (map numa_id ns) = mset (map numa_id (n # numas))" using ms by simp
    then have dns: "distinct (map numa_id ns)"
      using d None unfolding lookup_numa_None
      by (subst mset_eq_imp_distinct_iff [of _ "map numa_id (n # numas)"]) (auto simp: n_def)
    obtain i where i: "sched_numa_list_lookup ns ?nid = Some i"
      using lookup_numa_None [of ns ?nid] sets by (auto simp: n_def)
    note i2 = lookup_numa_Some [OF i]
    have ni: "ns ! i = n"
      using i2 sets dns by (auto simp: distinct_map inj_on_def n_def)
    have "fresh_numa threads (ns ! j)" if "j < length ns" "j \<noteq> i" for j
    proof -
      have "ns ! j \<noteq> n" using that i2 ni dns by (auto simp: distinct_map nth_eq_iff_index_eq)
      then show ?thesis using that(1) sets fresh nth_mem by fastforce
    qed
    moreover have "mset (map sp_pmd (all_pmds ns)) = mset (filter (has_core threads) ps)"
      using m by (simp add: mset_all_pmds ms n_def)
    ultimately have "populated threads (ps @ [p]) (ns[i := (ns ! i)\<lparr>nm_pmds := nm_pmds (ns ! i) @
        [new_sched_pmd p], rr_cur_index := 0, rr_idx_inc := True\<rparr>])"
      using dns i2 True by (intro populated_update) (auto simp: ni n_def)
    then show ?thesis
      using True None i unfolding populate_pmd_def has_core_def ns_def n_def by (auto simp: Let_def)
  qed
qed

lemma populated_fold:
  "populated threads qs numas \<Longrightarrow> populated threads (qs @ ps) (fold (populate_pmd pos threads) ps numas)"
proof (induction ps arbitrary: qs numas)
  case (Cons p ps)
  from Cons.IH [OF populated_step [OF Cons.prems, of p pos]] show ?case by simp
qed simp

text \<open>What the lists of nodes are after they have been populated.\<close>

lemma populate_result:
  "populated threads [0..<length threads] (sched_numa_list_populate pos threads)"
proof -
  define ns where "ns = fold (populate_pmd pos threads) [0..<length threads] []"
  define srt where "srt (n :: sched_numa) = (if 1 < length (nm_pmds n)
      then n\<lparr>nm_pmds := qsort (compare_sched_pmd_list threads) (nm_pmds n)\<rparr> else n)" for n
  have srt: "mset (nm_pmds (srt n)) = mset (nm_pmds n)" "numa_id (srt n) = numa_id n"
    "fresh_numa threads n \<Longrightarrow> fresh_numa threads (srt n)" for n
    by (auto simp: srt_def fresh_numa_def simp flip: length_greater_0_conv)
  have "populated threads [] []" by (simp add: populated_def all_pmds_def)
  from populated_fold [OF this] have p: "populated threads [0..<length threads] ns"
    by (simp add: ns_def)
  have "sched_numa_list_populate pos threads = map srt ns"
    by (simp add: ns_def srt_def [abs_def] sched_numa_list_populate_def sort_numa_list_pmds_def)
  moreover have "distinct (map numa_id (map srt ns))" using p by (simp add: populated_def comp_def srt(2))
  moreover have "mset (all_pmds (map srt ns)) = mset (all_pmds ns)"
    by (simp add: mset_all_pmds image_mset.compositionality comp_def srt(1))
  ultimately show ?thesis using p srt(3) unfolding populated_def by auto
qed

section \<open>Selecting a node\<close>

definition noniso :: "sched_numa \<Rightarrow> bool" where
  "noniso n \<longleftrightarrow> (\<exists>s\<in>set (nm_pmds n). \<not> sp_isolated s)"

definition numa_wf :: "sched_numa \<Rightarrow> bool" where
  "numa_wf n \<longleftrightarrow> rr_cur_index n < length (nm_pmds n) \<and> n_isolated n = length (filter sp_isolated (nm_pmds n))"

definition numas_wf :: "sched_numa list \<Rightarrow> bool" where
  "numas_wf numas \<longleftrightarrow> distinct (map numa_id numas) \<and> (\<forall>n\<in>set numas. numa_wf n)"

lemma noniso_count: "numa_wf n \<Longrightarrow> sched_numa_noniso_pmd_count n \<noteq> 0 \<longleftrightarrow> noniso n"
proof -
  assume "numa_wf n"
  then have "n_isolated n = length (filter sp_isolated (nm_pmds n))" by (simp add: numa_wf_def)
  moreover have "length (filter sp_isolated xs) < length xs \<longleftrightarrow> (\<exists>s\<in>set xs. \<not> sp_isolated s)" for xs
    by (metis filter_True length_filter_less less_irrefl)
  note this [of "nm_pmds n"]
  ultimately show ?thesis by (auto simp: sched_numa_noniso_pmd_count_def noniso_def)
qed

definition lst_ok :: "sched_numa list \<Rightarrow> nat option \<Rightarrow> bool" where
  "lst_ok numas lst \<longleftrightarrow> (\<forall>i. lst = Some i \<longrightarrow> i < length numas)"

definition next_index :: "nat \<Rightarrow> nat option \<Rightarrow> nat" where
  "next_index n lst = (case lst of None \<Rightarrow> 0 | Some i \<Rightarrow> Suc i mod n)"

lemma sched_numa_list_next_eq:
  assumes "numas \<noteq> []" and "lst_ok numas lst"
  shows "sched_numa_list_next numas lst = Some (next_index (length numas) lst)"
proof (cases lst)
  case (Some i)
  then have "i < length numas" using assms(2) by (simp add: lst_ok_def)
  then show ?thesis using Some assms(1)
    by (cases "Suc i = length numas") (simp_all add: sched_numa_list_next_def next_index_def)
qed (use assms in \<open>simp add: sched_numa_list_next_def next_index_def\<close>)

lemma cross_loop_result:
  assumes "numas \<noteq> []" and "lst_ok numas lst"
  shows "lst_ok numas (snd (cross_loop numas k lst))"
    and "fst (cross_loop numas k lst) = Some i \<Longrightarrow>
           i < length numas \<and> sched_numa_noniso_pmd_count (numas ! i) \<noteq> 0"
    and "fst (cross_loop numas k lst) = None \<Longrightarrow> t < k \<Longrightarrow>
           sched_numa_noniso_pmd_count (numas ! ((next_index (length numas) lst + t) mod length numas)) = 0"
proof (atomize (full), use assms(2) in \<open>induction k arbitrary: lst t\<close>)
  case (Suc k)
  let ?n = "length numas"
  define m where "m = next_index ?n lst"
  have n0: "0 < ?n" using assms(1) by simp
  have m: "m < ?n" using n0 by (auto simp: m_def next_index_def split: option.split)
  have nxt: "sched_numa_list_next numas lst = Some m"
    unfolding m_def by (rule sched_numa_list_next_eq [OF assms(1) Suc.prems])
  have ok: "lst_ok numas (Some m)" using m by (simp add: lst_ok_def)
  show ?case
  proof (cases "sched_numa_noniso_pmd_count (numas ! m) = 0")
    case False
    then show ?thesis using m by (auto simp: nxt lst_ok_def)
  next
    case True
    have "(next_index ?n (Some m) + u) mod ?n = (m + Suc u) mod ?n" for u
      by (simp add: next_index_def mod_simps)
    then have "sched_numa_noniso_pmd_count (numas ! ((m + t) mod ?n)) = 0"
      if "fst (cross_loop numas k (Some m)) = None" "t < Suc k"
      using that Suc.IH [OF ok, of "t - 1"] True m by (cases t) simp_all
    then show ?thesis using Suc.IH [OF ok] True by (simp add: nxt m_def [symmetric])
  qed
qed simp

lemma select_numa_result:
  assumes "numas_wf numas" and "lst_ok numas lst"
  shows "lst_ok numas (snd (select_numa numas nid lst))"
    and "fst (select_numa numas nid lst) = Some i \<Longrightarrow> i < length numas \<and> noniso (numas ! i) \<and>
           ((\<exists>n\<in>set numas. numa_id n = nid \<and> noniso n) \<longrightarrow> numa_id (numas ! i) = nid)"
    and "fst (select_numa numas nid lst) = None \<Longrightarrow> n \<in> set numas \<Longrightarrow> \<not> noniso n"
proof -
  have cnt: "sched_numa_noniso_pmd_count (numas ! i) \<noteq> 0 \<longleftrightarrow> noniso (numas ! i)" if "i < length numas" for i
    using assms(1) that noniso_count by (simp add: numas_wf_def)
  have "distinct (map numa_id numas)" using assms(1) by (simp add: numas_wf_def)
  then have uniq: "n = numas ! i" if "n \<in> set numas" "i < length numas" "numa_id (numas ! i) = numa_id n" for n i
    using that by (auto simp: distinct_map inj_on_def)
  note look = lookup_numa_Some [of numas nid] lookup_numa_None [of numas nid]
  have cr: "lst_ok numas (snd (cross_loop numas (length numas) lst)) \<and>
      (fst (cross_loop numas (length numas) lst) = Some i \<longrightarrow> i < length numas \<and> noniso (numas ! i)) \<and>
      (fst (cross_loop numas (length numas) lst) = None \<longrightarrow> (\<forall>n\<in>set numas. \<not> noniso n))" for i
  proof (cases "numas = []")
    case True
    then show ?thesis using assms(2) by simp
  next
    case False
    note c = cross_loop_result [OF False assms(2), of "length numas"]
    have "\<not> noniso n" if none: "fst (cross_loop numas (length numas) lst) = None" and n: "n \<in> set numas" for n
    proof -
      obtain j where j: "j < length numas" "n = numas ! j" using n by (auto simp: in_set_conv_nth)
      define m where "m = next_index (length numas) lst"
      have m: "m < length numas"
        using False by (auto simp: m_def next_index_def split: option.split)
      have "(m + (j + length numas - m) mod length numas) mod length numas = j"
        using j(1) m by (simp add: mod_simps)
      then show ?thesis
        using c(3) [OF none, of "(j + length numas - m) mod length numas"] False cnt [OF j(1)] j(2)
        by (simp add: m_def)
    qed
    then show ?thesis using c(1,2) cnt by blast
  qed
  show "lst_ok numas (snd (select_numa numas nid lst))"
    using cr assms(2) by (simp add: select_numa_def split: option.split)
  show "i < length numas \<and> noniso (numas ! i) \<and>
      ((\<exists>n\<in>set numas. numa_id n = nid \<and> noniso n) \<longrightarrow> numa_id (numas ! i) = nid)"
    if "fst (select_numa numas nid lst) = Some i"
    using that cr look cnt uniq by (fastforce simp: select_numa_def split: option.splits if_splits)
  show "\<not> noniso n" if "fst (select_numa numas nid lst) = None" "n \<in> set numas"
    using that cr by (auto simp: select_numa_def split: option.splits if_splits)
qed

section \<open>Selecting a thread\<close>

text \<open>
  What the third loop needs of an algorithm: it leaves the threads of the node alone, keeps the
  index in range, and if it selects a thread, this is one that is not isolated; it does select
  one when there is one and the node is \<open>usable\<close> for it.
\<close>

locale pmd_selection =
  fixes pick :: "sched_numa \<Rightarrow> bool \<Rightarrow> nat option \<times> sched_numa" and usable :: "sched_numa \<Rightarrow> bool \<Rightarrow> bool"
  assumes pick_frame: "pick n b = (k, n') \<Longrightarrow>
            nm_pmds n' = nm_pmds n \<and> numa_id n' = numa_id n \<and> n_isolated n' = n_isolated n"
    and pick_range: "numa_wf n \<Longrightarrow> pick n b = (k, n') \<Longrightarrow> rr_cur_index n' < length (nm_pmds n)"
    and pick_ok: "numa_wf n \<Longrightarrow> pick n b = (Some j, n') \<Longrightarrow>
            j < length (nm_pmds n) \<and> \<not> sp_isolated (nm_pmds n ! j)"
    and pick_some: "numa_wf n \<Longrightarrow> usable n b \<Longrightarrow> noniso n \<Longrightarrow> fst (pick n b) \<noteq> None"
begin

lemma pick_wf: "numa_wf n \<Longrightarrow> pick n b = (k, n') \<Longrightarrow> numa_wf n'"
  using pick_frame [of n b k n'] pick_range [of n b k n'] by (simp add: numa_wf_def)

lemma pick_noniso: "pick n b = (k, n') \<Longrightarrow> noniso n' = noniso n"
  using pick_frame [of n b k n'] by (simp add: noniso_def)

end

subsection \<open>The lowest load\<close>

definition sched_load :: "bool \<Rightarrow> sched_pmd \<Rightarrow> u64" where
  "sched_load has_cyc s = (if has_cyc then pmd_proc_cycles s else of_nat (length (sp_rxqs s)))"

lemma lowest_loop_Cons:
  "lowest_loop b i (s # ss) num lowest =
     (if \<not> sp_isolated s \<and> sched_load b s < num then lowest_loop b (Suc i) ss (sched_load b s) (Some i)
      else lowest_loop b (Suc i) ss num lowest)"
  by (simp add: sched_load_def Let_def)

declare lowest_loop.simps(2) [simp del]

lemma lowest_loop_none:
  "\<forall>s\<in>set ss. \<not> sp_isolated s \<longrightarrow> num \<le> sched_load b s \<Longrightarrow> lowest_loop b i ss num lowest = lowest"
  by (induction ss arbitrary: i) (auto simp: lowest_loop_Cons)

lemma lowest_loop_some:
  assumes "\<exists>s\<in>set ss. \<not> sp_isolated s \<and> sched_load b s < num"
  shows "\<exists>j<length ss. lowest_loop b i ss num lowest = Some (i + j) \<and> \<not> sp_isolated (ss ! j) \<and>
           sched_load b (ss ! j) < num \<and>
           (\<forall>s\<in>set ss. \<not> sp_isolated s \<longrightarrow> sched_load b (ss ! j) \<le> sched_load b s)"
  using assms
proof (induction ss arbitrary: i num lowest)
  case (Cons s ss)
  have lift: "\<exists>j<length (s # ss). r = Some (i + j) \<and> \<not> sp_isolated ((s # ss) ! j) \<and>
      sched_load b ((s # ss) ! j) < num \<and>
      (\<forall>x\<in>set (s # ss). \<not> sp_isolated x \<longrightarrow> sched_load b ((s # ss) ! j) \<le> sched_load b x)"
    if "j < length ss" "r = Some (Suc i + j)" "\<not> sp_isolated (ss ! j)" "sched_load b (ss ! j) < num"
      "\<forall>x\<in>set ss. \<not> sp_isolated x \<longrightarrow> sched_load b (ss ! j) \<le> sched_load b x"
      "\<not> sp_isolated s \<longrightarrow> sched_load b (ss ! j) \<le> sched_load b s" for j r
    by (rule exI [of _ "Suc j"]) (use that in auto)
  show ?case
  proof (cases "\<not> sp_isolated s \<and> sched_load b s < num")
    case True
    show ?thesis
    proof (cases "\<exists>x\<in>set ss. \<not> sp_isolated x \<and> sched_load b x < sched_load b s")
      case better: True
      from Cons.IH [OF this, of "Suc i" "Some i"] obtain j where j: "j < length ss"
        "lowest_loop b (Suc i) ss (sched_load b s) (Some i) = Some (Suc i + j)" "\<not> sp_isolated (ss ! j)"
        "sched_load b (ss ! j) < sched_load b s"
        "\<forall>x\<in>set ss. \<not> sp_isolated x \<longrightarrow> sched_load b (ss ! j) \<le> sched_load b x"
        by blast
      then have "sched_load b (ss ! j) < num" using True by (meson order.strict_trans)
      with j show ?thesis using True by (intro lift) (auto simp: lowest_loop_Cons)
    next
      case False
      then have "\<forall>x\<in>set ss. \<not> sp_isolated x \<longrightarrow> sched_load b s \<le> sched_load b x" by (auto simp: not_less)
      then show ?thesis
        using True by (intro exI [of _ 0]) (simp add: lowest_loop_Cons lowest_loop_none)
    qed
  next
    case False
    then have "\<exists>x\<in>set ss. \<not> sp_isolated x \<and> sched_load b x < num" using Cons.prems by auto
    from Cons.IH [OF this, of "Suc i" lowest] obtain j where j: "j < length ss"
      "lowest_loop b (Suc i) ss num lowest = Some (Suc i + j)" "\<not> sp_isolated (ss ! j)"
      "sched_load b (ss ! j) < num"
      "\<forall>x\<in>set ss. \<not> sp_isolated x \<longrightarrow> sched_load b (ss ! j) \<le> sched_load b x"
      by blast
    then have "\<not> sp_isolated s \<longrightarrow> sched_load b (ss ! j) \<le> sched_load b s" using False by auto
    with j show ?thesis using False by (intro lift) (auto simp: lowest_loop_Cons)
  qed
qed simp

text \<open>A node has a thread with less than the largest load a counter can have.\<close>

definition lowest_usable :: "sched_numa \<Rightarrow> bool \<Rightarrow> bool" where
  "lowest_usable n b \<longleftrightarrow> (\<exists>s\<in>set (nm_pmds n). \<not> sp_isolated s \<and> sched_load b s < - 1)"

lemma get_lowest_some:
  assumes "sched_pmd_get_lowest n b = Some j"
  shows "j < length (nm_pmds n) \<and> \<not> sp_isolated (nm_pmds n ! j) \<and>
           (\<forall>s\<in>set (nm_pmds n). \<not> sp_isolated s \<longrightarrow> sched_load b (nm_pmds n ! j) \<le> sched_load b s)"
proof (cases "lowest_usable n b")
  case True
  then show ?thesis
    using lowest_loop_some [of "nm_pmds n" b "- 1" 0 None] assms
    by (auto simp: sched_pmd_get_lowest_def lowest_usable_def)
next
  case False
  then have "\<forall>s\<in>set (nm_pmds n). \<not> sp_isolated s \<longrightarrow> - 1 \<le> sched_load b s"
    by (auto simp: lowest_usable_def not_less)
  then show ?thesis using assms by (simp add: sched_pmd_get_lowest_def lowest_loop_none)
qed

lemma get_lowest_usable: "lowest_usable n b \<Longrightarrow> sched_pmd_get_lowest n b \<noteq> None"
  using lowest_loop_some [of "nm_pmds n" b "- 1" 0 None]
  by (auto simp: sched_pmd_get_lowest_def lowest_usable_def)

interpretation group: pmd_selection "\<lambda>n. sched_pmd_next n SCHED_GROUP" lowest_usable
  by unfold_locales (auto simp: sched_pmd_next_def numa_wf_def get_lowest_usable dest: get_lowest_some)

subsection \<open>Round robin\<close>

lemma next_rr_frame:
  "sched_pmd_next_rr n updown = (k, n') \<Longrightarrow> k = rr_cur_index n \<and>
     nm_pmds n' = nm_pmds n \<and> numa_id n' = numa_id n \<and> n_isolated n' = n_isolated n"
  by (auto simp: sched_pmd_next_rr_def)

lemma next_rr_wf: "numa_wf n \<Longrightarrow> sched_pmd_next_rr n updown = (k, n') \<Longrightarrow> numa_wf n'"
  by (auto simp: sched_pmd_next_rr_def numa_wf_def split: if_splits)

lemma noniso_loop_result:
  assumes "noniso_loop f n updown = (k, n')" and "numa_wf n"
  shows "nm_pmds n' = nm_pmds n \<and> numa_id n' = numa_id n \<and> n_isolated n' = n_isolated n \<and> numa_wf n' \<and>
           (\<forall>j. k = Some j \<longrightarrow> j < length (nm_pmds n) \<and> \<not> sp_isolated (nm_pmds n ! j))"
  using assms
proof (induction f n updown rule: noniso_loop.induct)
  case (2 f n updown)
  obtain i m where m: "sched_pmd_next_rr n updown = (i, m)" by (cases "sched_pmd_next_rr n updown")
  note fr = next_rr_frame [OF m] next_rr_wf [OF 2(3) m]
  show ?case
  proof (cases "sp_isolated (nm_pmds n ! i)")
    case True
    then show ?thesis using 2(1) [OF m [symmetric]] 2(2,3) fr by (simp add: m)
  next
    case False
    then show ?thesis using 2(2,3) fr by (auto simp: m numa_wf_def)
  qed
qed auto

text \<open>
  The number of calls until the walk is at thread \<open>j\<close>: at most \<open>2 * n_pmds\<close>, from any state.
\<close>

definition walk_dist :: "sched_numa \<Rightarrow> bool \<Rightarrow> nat \<Rightarrow> nat" where
  "walk_dist n updown j =
     (let c = rr_cur_index n; len = length (nm_pmds n) in
      if rr_idx_inc n then
        (if c \<le> j then j - c + 1 else if updown then (len - c) + (len - j) else (len - c) + (j + 1))
      else (if j \<le> c then c - j + 1 else (c + 1) + (j + 1)))"

lemma walk_dist_step:
  assumes "numa_wf n" and "j < length (nm_pmds n)" and "rr_cur_index n \<noteq> j"
    and "sched_pmd_next_rr n updown = (i, m)"
  shows "walk_dist n updown j = Suc (walk_dist m updown j)"
  using assms by (auto simp: walk_dist_def Let_def sched_pmd_next_rr_def numa_wf_def split: if_splits)

lemma noniso_loop_finds:
  assumes "numa_wf n" and "j < length (nm_pmds n)" and "\<not> sp_isolated (nm_pmds n ! j)"
    and "walk_dist n updown j \<le> f"
  shows "fst (noniso_loop f n updown) \<noteq> None"
  using assms
proof (induction f arbitrary: n)
  case 0
  then show ?case by (auto simp: walk_dist_def Let_def numa_wf_def split: if_splits)
next
  case (Suc f)
  obtain i m where m: "sched_pmd_next_rr n updown = (i, m)" by (cases "sched_pmd_next_rr n updown")
  note fr = next_rr_frame [OF m]
  show ?case
  proof (cases "sp_isolated (nm_pmds n ! i)")
    case True
    then have "rr_cur_index n \<noteq> j" using Suc.prems(3) fr by auto
    then have "walk_dist m updown j \<le> f"
      using walk_dist_step [OF Suc.prems(1,2) _ m] Suc.prems(4) by simp
    then have "fst (noniso_loop f m updown) \<noteq> None"
      using next_rr_wf [OF Suc.prems(1) m] Suc.prems(2,3) fr by (intro Suc.IH) simp_all
    then show ?thesis using True by (simp add: m)
  qed (simp add: m)
qed

lemma walk_dist_le: "numa_wf n \<Longrightarrow> j < length (nm_pmds n) \<Longrightarrow> walk_dist n updown j \<le> length (nm_pmds n) * 2"
  by (auto simp: walk_dist_def Let_def numa_wf_def)

lemma next_noniso_finds:
  assumes "numa_wf n" and "noniso n"
  shows "fst (sched_pmd_next_noniso_rr n updown) \<noteq> None"
proof -
  obtain j where "j < length (nm_pmds n)" "\<not> sp_isolated (nm_pmds n ! j)"
    using assms(2) by (auto simp: noniso_def in_set_conv_nth)
  then show ?thesis
    unfolding sched_pmd_next_noniso_rr_def
    by (intro noniso_loop_finds walk_dist_le) (use assms(1) in simp_all)
qed

lemma next_rr_any_frame:
  "sched_pmd_next_noniso_rr n updown = (k, n') \<Longrightarrow>
     nm_pmds n' = nm_pmds n \<and> numa_id n' = numa_id n \<and> n_isolated n' = n_isolated n"
proof -
  have "noniso_loop f n updown = (k, n') \<Longrightarrow>
     nm_pmds n' = nm_pmds n \<and> numa_id n' = numa_id n \<and> n_isolated n' = n_isolated n" for f
  proof (induction f n updown rule: noniso_loop.induct)
    case (2 f n updown)
    obtain i m where m: "sched_pmd_next_rr n updown = (i, m)" by (cases "sched_pmd_next_rr n updown")
    then show ?case
      using 2(1) [OF m [symmetric]] 2(2) next_rr_frame [OF m] by (cases "sp_isolated (nm_pmds n ! i)") auto
  qed auto
  then show "sched_pmd_next_noniso_rr n updown = (k, n') \<Longrightarrow>
     nm_pmds n' = nm_pmds n \<and> numa_id n' = numa_id n \<and> n_isolated n' = n_isolated n"
    by (simp add: sched_pmd_next_noniso_rr_def)
qed

lemma rr_selection:
  assumes "algo \<noteq> SCHED_GROUP"
  shows "pmd_selection (\<lambda>n. sched_pmd_next n algo) (\<lambda>_ _. True)"
proof
  fix n :: sched_numa and b k n' j
  note d = sched_pmd_next_def sched_pmd_next_noniso_rr_def
  show "nm_pmds n' = nm_pmds n \<and> numa_id n' = numa_id n \<and> n_isolated n' = n_isolated n"
    if "sched_pmd_next n algo b = (k, n')"
    using that assms by (auto simp: sched_pmd_next_def dest: next_rr_any_frame)
  show "rr_cur_index n' < length (nm_pmds n)" if "numa_wf n" "sched_pmd_next n algo b = (k, n')"
    using noniso_loop_result [of "length (nm_pmds n) * 2" n "algo = SCHED_CYCLES" k n'] that assms
    by (auto simp: d numa_wf_def)
  show "j < length (nm_pmds n) \<and> \<not> sp_isolated (nm_pmds n ! j)"
    if "numa_wf n" "sched_pmd_next n algo b = (Some j, n')"
    using noniso_loop_result [of "length (nm_pmds n) * 2" n "algo = SCHED_CYCLES" "Some j" n'] that assms
    by (auto simp: d)
  show "fst (sched_pmd_next n algo b) \<noteq> None" if "numa_wf n" "noniso n"
    using next_noniso_finds [OF that] assms by (simp add: sched_pmd_next_def)
qed

interpretation roundrobin: pmd_selection "\<lambda>n. sched_pmd_next n SCHED_ROUNDROBIN" "\<lambda>_ _. True"
  by (rule rr_selection) simp

interpretation cycles: pmd_selection "\<lambda>n. sched_pmd_next n SCHED_CYCLES" "\<lambda>_ _. True"
  by (rule rr_selection) simp

text \<open>Any of the three.\<close>

definition sched_usable :: "sched_assignment_type \<Rightarrow> sched_numa \<Rightarrow> bool \<Rightarrow> bool" where
  "sched_usable algo n b \<longleftrightarrow> (algo = SCHED_GROUP \<longrightarrow> lowest_usable n b)"

interpretation any: pmd_selection "\<lambda>n. sched_pmd_next n algo" "sched_usable algo"
  for algo
proof (cases "algo = SCHED_GROUP")
  case True
  then show "pmd_selection (\<lambda>n. sched_pmd_next n algo) (sched_usable algo)"
    using group.pmd_selection_axioms by (simp add: sched_usable_def [abs_def])
next
  case False
  then show "pmd_selection (\<lambda>n. sched_pmd_next n algo) (sched_usable algo)"
    using rr_selection [OF False] by (simp add: sched_usable_def [abs_def])
qed

end
