(* ===== verification/Dpif_Sched_Assign.thy ===== *)
theory Dpif_Sched_Assign
  imports Dpif_Sched_Laws
begin

text \<open>
  The loops of \<open>sched_numa_list_schedule\<close>: what pinning and assigning do to the lists of nodes,
  for any way of selecting a thread, and what holds of the lists at the end.
\<close>

section \<open>Placing a queue\<close>

text \<open>What no loop but the first changes: the nodes, their threads and which are isolated.\<close>

definition skel :: "sched_numa list \<Rightarrow> (int \<times> nat \<times> (nat \<times> bool) list) list" where
  "skel numas = map (\<lambda>n. (numa_id n, n_isolated n, map (\<lambda>s. (sp_pmd s, sp_isolated s)) (nm_pmds n))) numas"

definition at_place :: "sched_numa list \<Rightarrow> nat \<times> nat \<Rightarrow> bool" where
  "at_place numas pos \<longleftrightarrow> fst pos < length numas \<and> snd pos < length (nm_pmds (numas ! fst pos))"

text \<open>A place that the third loop may choose for a queue of a port on node \<open>nid\<close>.\<close>

definition good_place :: "sched_numa list \<Rightarrow> int \<Rightarrow> nat \<times> nat \<Rightarrow> bool" where
  "good_place numas nid pos \<longleftrightarrow> at_place numas pos \<and> \<not> sp_isolated (pmd_at numas pos) \<and>
     ((\<exists>n\<in>set numas. numa_id n = nid \<and> noniso n) \<longrightarrow> numa_id (numas ! fst pos) = nid)"

lemma skel_nth:
  assumes "skel numas' = skel numas"
  shows "length numas' = length numas"
    and "i < length numas \<Longrightarrow> numa_id (numas' ! i) = numa_id (numas ! i)"
    and "i < length numas \<Longrightarrow> map (\<lambda>s. (sp_pmd s, sp_isolated s)) (nm_pmds (numas' ! i)) =
           map (\<lambda>s. (sp_pmd s, sp_isolated s)) (nm_pmds (numas ! i))"
proof -
  show len: "length numas' = length numas" using arg_cong [OF assms, of length] by (simp add: skel_def)
  have nth: "skel numas' ! i = skel numas ! i" using assms by simp
  show "i < length numas \<Longrightarrow> numa_id (numas' ! i) = numa_id (numas ! i)"
    and "i < length numas \<Longrightarrow> map (\<lambda>s. (sp_pmd s, sp_isolated s)) (nm_pmds (numas' ! i)) =
           map (\<lambda>s. (sp_pmd s, sp_isolated s)) (nm_pmds (numas ! i))"
    using nth len by (simp_all add: skel_def)
qed

lemma skel_places:
  assumes "skel numas' = skel numas"
  shows "at_place numas' pos = at_place numas pos"
    and "at_place numas pos \<Longrightarrow> sp_pmd (pmd_at numas' pos) = sp_pmd (pmd_at numas pos)"
    and "at_place numas pos \<Longrightarrow> sp_isolated (pmd_at numas' pos) = sp_isolated (pmd_at numas pos)"
    and "good_place numas' nid pos = good_place numas nid pos"
proof -
  note sk = skel_nth [OF assms]
  have len: "length (nm_pmds (numas' ! i)) = length (nm_pmds (numas ! i))" if "i < length numas" for i
    using arg_cong [OF sk(3) [OF that], of length] by simp
  show at: "at_place numas' pos = at_place numas pos" for pos
    using sk(1) len by (auto simp: at_place_def)
  have nth: "map (\<lambda>s. (sp_pmd s, sp_isolated s)) (nm_pmds (numas' ! fst pos)) ! snd pos =
      map (\<lambda>s. (sp_pmd s, sp_isolated s)) (nm_pmds (numas ! fst pos)) ! snd pos"
    if "at_place numas pos" for pos
    using that sk(3) by (simp add: at_place_def)
  show "sp_pmd (pmd_at numas' pos) = sp_pmd (pmd_at numas pos)" if "at_place numas pos" for pos
    using nth [OF that] that len by (simp add: at_place_def pmd_at_def)
  show iso_eq: "sp_isolated (pmd_at numas' pos) = sp_isolated (pmd_at numas pos)" if "at_place numas pos" for pos
    using nth [OF that] that len by (simp add: at_place_def pmd_at_def)
  have idq: "numa_id (numas' ! fst pos) = numa_id (numas ! fst pos)" if "at_place numas pos" for pos
    using that sk(2) by (simp add: at_place_def)
  have ex: "(\<exists>n\<in>set ns. numa_id n = nid \<and> noniso n) \<longleftrightarrow>
      (\<exists>pos. at_place ns pos \<and> numa_id (ns ! fst pos) = nid \<and> \<not> sp_isolated (pmd_at ns pos))" for ns
    by (fastforce simp: noniso_def at_place_def pmd_at_def in_set_conv_nth)
  show "good_place numas' nid pos = good_place numas nid pos"
    unfolding good_place_def ex using at iso_eq idq by metis
qed

lemma replace_numa:
  assumes "numas_wf numas" and "i < length numas" and "numa_id x = numa_id (numas ! i)"
    and "n_isolated x = n_isolated (numas ! i)" and "rr_cur_index x < length (nm_pmds (numas ! i))"
    and "map (\<lambda>s. (sp_pmd s, sp_isolated s)) (nm_pmds x) =
           map (\<lambda>s. (sp_pmd s, sp_isolated s)) (nm_pmds (numas ! i))"
  shows "numas_wf (numas[i := x])" and "skel (numas[i := x]) = skel numas"
proof -
  show "skel (numas[i := x]) = skel numas"
    using assms(2-4,6) by (simp add: skel_def map_update list_update_same_conv)
  have "map numa_id (numas[i := x]) = map numa_id numas"
    using assms(2,3) by (simp add: map_update list_update_same_conv)
  moreover have "numa_wf (numas ! i)" using assms(1,2) by (simp add: numas_wf_def)
  moreover have "map sp_isolated (nm_pmds x) = map sp_isolated (nm_pmds (numas ! i))"
    using arg_cong [OF assms(6), of "map snd"] by (simp add: comp_def)
  then have "length (filter sp_isolated (nm_pmds x)) = length (filter sp_isolated (nm_pmds (numas ! i)))"
    "length (nm_pmds x) = length (nm_pmds (numas ! i))"
    by (metis (no_types) filter_map length_map comp_id id_comp, metis length_map)
  ultimately show "numas_wf (numas[i := x])"
    using assms(1,4,5) set_update_subset_insert [of numas i x]
    unfolding numas_wf_def by (auto simp: numa_wf_def)
qed

section \<open>The third loop\<close>

text \<open>The loop body for any selection.\<close>

definition assign_with ::
  "(sched_numa \<Rightarrow> bool \<Rightarrow> nat option \<times> sched_numa) \<Rightarrow> dp_netdev_port list \<Rightarrow> dp_netdev_rxq list \<Rightarrow> nat
   \<Rightarrow> sched_numa list \<times> nat option \<Rightarrow> sched_numa list \<times> nat option" where
  "assign_with pick ports rxqs r st =
     (case st of (numas, lst) \<Rightarrow>
        case select_numa numas (port_numa (ports ! rq_port (rxqs ! r))) lst of
          (None, lst') \<Rightarrow> (numas, lst')
        | (Some i, lst') \<Rightarrow>
            (case pick (numas ! i) (rq_hist (rxqs ! r) \<noteq> 0) of
               (None, numa') \<Rightarrow> (numas[i := numa'], lst')
             | (Some j, numa') \<Rightarrow>
                 (upd_pmd (numas[i := numa']) (i, j) (sched_pmd_add_rxq r (rq_hist (rxqs ! r))), lst')))"

lemma assign_rxq_with:
  "assign_rxq ports rxqs algo = assign_with (\<lambda>n. sched_pmd_next n algo) ports rxqs"
  by (intro ext) (simp add: assign_rxq_def assign_with_def Let_def)

text \<open>The threads of all nodes after the queue \<open>r\<close> has been put at a place.\<close>

definition placed :: "sched_numa list \<Rightarrow> nat \<Rightarrow> u64 \<Rightarrow> nat \<times> nat \<Rightarrow> sched_pmd list list" where
  "placed numas r c pos = (map nm_pmds numas)[fst pos :=
     (nm_pmds (numas ! fst pos))[snd pos := sched_pmd_add_rxq r c (pmd_at numas pos)]]"

lemma map_pmds_update:
  "j < length ss \<Longrightarrow> map (\<lambda>s. (sp_pmd s, sp_isolated s)) (ss[j := sched_pmd_add_rxq r c (ss ! j)]) =
     map (\<lambda>s. (sp_pmd s, sp_isolated s)) ss"
  by (simp add: map_update list_update_same_conv sched_pmd_add_rxq_def)

context pmd_selection
begin

text \<open>One turn: the queue is put at a good place, or it is not put anywhere.\<close>

lemma assign_step:
  assumes "numas_wf numas" and "lst_ok numas lst" and "assign_with pick ports rxqs r (numas, lst) = (numas', lst')"
  defines "nid \<equiv> port_numa (ports ! rq_port (rxqs ! r))" and "c \<equiv> rq_hist (rxqs ! r)"
  shows "numas_wf numas' \<and> lst_ok numas' lst' \<and> skel numas' = skel numas \<and>
     ((map nm_pmds numas' = map nm_pmds numas \<and>
         ((\<forall>n\<in>set numas. \<not> noniso n) \<or> (\<exists>n\<in>set numas. noniso n \<and> \<not> usable n (c \<noteq> 0)))) \<or>
      (\<exists>pos. good_place numas nid pos \<and> map nm_pmds numas' = placed numas r c pos \<and>
         fst (pick (numas ! fst pos) (c \<noteq> 0)) = Some (snd pos) \<and>
         (\<exists>m. snd (pick (numas ! fst pos) (c \<noteq> 0)) = m \<and>
              numas' = numas[fst pos := m\<lparr>nm_pmds := (nm_pmds m)[snd pos :=
                sched_pmd_add_rxq r c (pmd_at numas pos)]\<rparr>])))"
proof -
  obtain k lst1 where sel: "select_numa numas nid lst = (k, lst1)" by (cases "select_numa numas nid lst")
  note sr = select_numa_result [OF assms(1,2), of nid, unfolded sel fst_conv snd_conv]
  show ?thesis
  proof (cases k)
    case None
    then have "numas' = numas" "lst' = lst1" using assms(3) sel by (simp_all add: assign_with_def nid_def)
    then show ?thesis using assms(1) sr None by auto
  next
    case (Some i)
    then have i: "i < length numas" "noniso (numas ! i)"
      "(\<exists>n\<in>set numas. numa_id n = nid \<and> noniso n) \<longrightarrow> numa_id (numas ! i) = nid"
      using sr(2) by auto
    have wf: "numa_wf (numas ! i)" using assms(1) i(1) by (simp add: numas_wf_def)
    obtain kj m where pk: "pick (numas ! i) (c \<noteq> 0) = (kj, m)" by (cases "pick (numas ! i) (c \<noteq> 0)")
    note fr = pick_frame [OF pk] and range = pick_range [OF wf pk]
    show ?thesis
    proof (cases kj)
      case None
      then have eq: "numas' = numas[i := m]" "lst' = lst1"
        using assms(3) sel Some pk by (simp_all add: assign_with_def nid_def c_def)
      have "numas_wf numas' \<and> skel numas' = skel numas"
        unfolding eq using replace_numa [OF assms(1) i(1), of m] fr range by simp
      moreover have "map nm_pmds numas' = map nm_pmds numas"
        using fr i(1) by (simp add: eq map_update list_update_same_conv)
      moreover have "\<not> usable (numas ! i) (c \<noteq> 0)" using pick_some [OF wf _ i(2), of "c \<noteq> 0"] pk None by auto
      moreover have "lst_ok numas' lst'" using sr(1) by (simp add: eq lst_ok_def)
      ultimately show ?thesis using i(1,2) nth_mem by blast
    next
      case kj: (Some j)
      have j: "j < length (nm_pmds (numas ! i))" "\<not> sp_isolated (nm_pmds (numas ! i) ! j)"
        using pick_ok [OF wf, of "c \<noteq> 0" j m] pk kj by simp_all
      let ?x = "m\<lparr>nm_pmds := (nm_pmds m)[j := sched_pmd_add_rxq r c (pmd_at numas (i, j))]\<rparr>"
      have eq: "numas' = numas[i := ?x]" "lst' = lst1"
        using assms(3) sel Some pk kj i(1) fr
        by (simp_all add: assign_with_def nid_def c_def upd_pmd_def pmd_at_def)
      have "numas_wf numas' \<and> skel numas' = skel numas"
        unfolding eq using replace_numa [OF assms(1) i(1), of ?x] fr range j(1)
        by (simp add: map_pmds_update pmd_at_def)
      moreover have "map nm_pmds numas' = placed numas r c (i, j)"
        using fr i(1) by (simp add: eq placed_def map_update)
      moreover have "good_place numas nid (i, j)"
        using i j by (simp add: good_place_def at_place_def pmd_at_def)
      moreover have "lst_ok numas' lst'" using sr(1) by (simp add: eq lst_ok_def)
      ultimately show ?thesis using pk kj eq(1) by (intro conjI disjI2 exI [of _ "(i, j)"]) auto
    qed
  qed
qed

end

section \<open>Queues of the lists\<close>

definition all_rxqs :: "sched_numa list \<Rightarrow> nat list" where
  "all_rxqs numas = concat (map sp_rxqs (all_pmds numas))"

lemma mset_concat_update:
  assumes "i < length xss" and "mset (f xs) = mset (f (xss ! i)) + d"
  shows "mset (concat (map f (xss[i := xs]))) = mset (concat (map f xss)) + d"
proof -
  have "map f xss = map f (take i xss) @ f (xss ! i) # map f (drop (Suc i) xss)"
    by (subst id_take_nth_drop [OF assms(1)]) simp
  then show ?thesis using assms by (simp add: update_split map_update)
qed

lemma placed_pmd_at:
  assumes "map nm_pmds numas' = placed numas r c pos" and "at_place numas pos" and "at_place numas q"
  shows "pmd_at numas' q = (if q = pos then sched_pmd_add_rxq r c (pmd_at numas pos) else pmd_at numas q)"
proof -
  have len: "length numas' = length numas" using arg_cong [OF assms(1), of length] by (simp add: placed_def)
  have "nm_pmds (numas' ! fst q) = placed numas r c pos ! fst q"
    using assms(1,3) len by (metis at_place_def length_map nth_map)
  then show ?thesis
    using assms(2,3) by (auto simp: pmd_at_def at_place_def placed_def nth_list_update prod_eq_iff)
qed

lemma placed_all_rxqs:
  assumes "map nm_pmds numas' = placed numas r c pos" and "at_place numas pos"
  shows "mset (all_rxqs numas') = add_mset r (mset (all_rxqs numas))"
proof -
  let ?f = "\<lambda>ss. concat (map sp_rxqs ss)" and ?ss = "nm_pmds (numas ! fst pos)"
  have rx: "all_rxqs ns = concat (map ?f (map nm_pmds ns))" for ns
    unfolding all_rxqs_def all_pmds_def by (induction ns) simp_all
  have "mset (?f (?ss[snd pos := sched_pmd_add_rxq r c (pmd_at numas pos)])) = mset (?f ?ss) + {#r#}"
    using assms(2) by (intro mset_concat_update) (simp_all add: at_place_def pmd_at_def sched_pmd_add_rxq_def)
  then have "mset (concat (map ?f (placed numas r c pos))) = mset (concat (map ?f (map nm_pmds numas))) + {#r#}"
    unfolding placed_def using assms(2) by (intro mset_concat_update) (simp_all add: at_place_def)
  then show ?thesis unfolding rx assms(1) by simp
qed

lemma all_rxqs_pmds: "map nm_pmds numas' = map nm_pmds numas \<Longrightarrow> all_rxqs numas' = all_rxqs numas"
  by (simp add: all_rxqs_def all_pmds_def)

lemma pmd_at_pmds: "map nm_pmds numas' = map nm_pmds numas \<Longrightarrow> at_place numas pos \<Longrightarrow> pmd_at numas' pos = pmd_at numas pos"
  by (metis at_place_def length_map nth_map pmd_at_def)

text \<open>
  The counters are exact: the cycles of a thread are the sum over its queues, which stays below
  the largest load; \<open>budget\<close> bounds it, together with the number of queues.
\<close>

lemma sum_list_same_mset: "mset xs = mset ys \<Longrightarrow> (\<Sum>x\<leftarrow>xs. f x) = (\<Sum>y\<leftarrow>ys. f y :: nat)"
  by (metis mset_map sum_mset_sum_list)

definition exact :: "dp_netdev_rxq list \<Rightarrow> sched_numa list \<Rightarrow> bool" where
  "exact rxqs numas \<longleftrightarrow> (\<forall>pos. at_place numas pos \<longrightarrow>
     unat (pmd_proc_cycles (pmd_at numas pos)) = (\<Sum>r\<leftarrow>sp_rxqs (pmd_at numas pos). unat (rq_hist (rxqs ! r))))"

definition rxq_cost :: "dp_netdev_rxq list \<Rightarrow> nat \<Rightarrow> nat" where
  "rxq_cost rxqs r = unat (rq_hist (rxqs ! r)) + 1"

definition budget :: "dp_netdev_rxq list \<Rightarrow> nat list \<Rightarrow> bool" where
  "budget rxqs rs \<longleftrightarrow> (\<Sum>r\<leftarrow>rs. rxq_cost rxqs r) < 2 ^ 64 - 1"

lemma cost_split: "(\<Sum>r\<leftarrow>rs. rxq_cost rxqs r) = (\<Sum>r\<leftarrow>rs. unat (rq_hist (rxqs ! r))) + length rs"
  by (induction rs) (simp_all add: rxq_cost_def)

lemma sum_list_mset_mono:
  assumes "mset xs \<subseteq># mset ys"
  shows "(\<Sum>x\<leftarrow>xs. f x) \<le> (\<Sum>y\<leftarrow>ys. f y :: nat)"
proof -
  obtain d where "mset ys = mset xs + d" using assms by (metis subset_mset.le_iff_add)
  then have "(\<Sum>y\<in>#mset ys. f y) = (\<Sum>x\<in>#mset xs. f x) + (\<Sum>x\<in>#d. f x)" by simp
  then show ?thesis by (simp add: sum_mset_sum_list flip: mset_map)
qed

lemma pmd_at_subset: "at_place numas pos \<Longrightarrow> mset (sp_rxqs (pmd_at numas pos)) \<subseteq># mset (all_rxqs numas)"
proof -
  assume "at_place numas pos"
  then have "pmd_at numas pos \<in> set (all_pmds numas)"
    unfolding at_place_def pmd_at_def all_pmds_def by (auto intro!: bexI [OF _ nth_mem])
  then show ?thesis
    by (auto simp: all_rxqs_def dest!: split_list)
qed

lemma exact_placed:
  assumes "exact rxqs numas" and "map nm_pmds numas' = placed numas r (rq_hist (rxqs ! r)) pos"
    and "at_place numas pos" and "skel numas' = skel numas" and "budget rxqs (all_rxqs numas @ r # rs)"
  shows "exact rxqs numas'"
proof -
  let ?h = "\<lambda>r. unat (rq_hist (rxqs ! r))"
  have "unat (pmd_proc_cycles (pmd_at numas' q)) = (\<Sum>r\<leftarrow>sp_rxqs (pmd_at numas' q). ?h r)"
    if "at_place numas' q" for q
  proof -
    have q: "at_place numas q" using that skel_places(1) [OF assms(4)] by simp
    have old: "unat (pmd_proc_cycles (pmd_at numas p)) = (\<Sum>r\<leftarrow>sp_rxqs (pmd_at numas p). ?h r)"
      if "at_place numas p" for p using assms(1) that unfolding exact_def by blast
    show ?thesis
    proof (cases "q = pos")
      case True
      have "(\<Sum>r\<leftarrow>sp_rxqs (pmd_at numas pos). ?h r) \<le> (\<Sum>r\<leftarrow>all_rxqs numas. ?h r)"
        by (rule sum_list_mset_mono [OF pmd_at_subset [OF assms(3)]])
      then have "(\<Sum>r\<leftarrow>sp_rxqs (pmd_at numas pos). ?h r) + ?h r < 2 ^ 64"
        using assms(5) unfolding budget_def cost_split by simp
      then have "unat (pmd_proc_cycles (pmd_at numas pos) + rq_hist (rxqs ! r)) =
          (\<Sum>r\<leftarrow>sp_rxqs (pmd_at numas pos). ?h r) + ?h r"
        using old [OF assms(3)] by (subst unat_add_lem [THEN iffD1]) simp_all
      then show ?thesis
        using True placed_pmd_at [OF assms(2,3,3)] by (simp add: sched_pmd_add_rxq_def)
    next
      case False
      then show ?thesis using placed_pmd_at [OF assms(2,3) q] old [OF q] by simp
    qed
  qed
  then show ?thesis by (simp add: exact_def)
qed

lemma exact_usable:
  assumes "exact rxqs numas" and "budget rxqs (all_rxqs numas @ rs)" and "n \<in> set numas" and "noniso n"
  shows "sched_usable algo n b"
proof -
  obtain i where i: "i < length numas" "n = numas ! i" using assms(3) by (auto simp: in_set_conv_nth)
  obtain j where j: "j < length (nm_pmds n)" "\<not> sp_isolated (nm_pmds n ! j)"
    using assms(4) by (auto simp: noniso_def in_set_conv_nth)
  have pos: "at_place numas (i, j)" "pmd_at numas (i, j) = nm_pmds n ! j"
    using i j by (simp_all add: at_place_def pmd_at_def)
  let ?s = "nm_pmds n ! j"
  have sub: "mset (sp_rxqs ?s) \<subseteq># mset (all_rxqs numas)" using pmd_at_subset [OF pos(1)] pos(2) by simp
  have "unat (pmd_proc_cycles ?s) < 2 ^ 64 - 1"
    using assms(1,2) pos sum_list_mset_mono [OF sub, of "\<lambda>r. unat (rq_hist (rxqs ! r))"]
    unfolding exact_def budget_def cost_split by fastforce
  moreover have "unat (of_nat (length (sp_rxqs ?s)) :: u64) < 2 ^ 64 - 1"
  proof -
    have "length (sp_rxqs ?s) \<le> length (all_rxqs numas)" using size_mset_mono [OF sub] by simp
    then have "length (sp_rxqs ?s) < 2 ^ 64 - 1"
      using assms(2) unfolding budget_def cost_split by simp
    then show ?thesis by (simp add: unat_of_nat)
  qed
  moreover have "unat (- 1 :: u64) = 2 ^ 64 - 1"
    by (simp add: unsigned_minus_1_eq_mask mask_eq_exp_minus_1)
  ultimately have "sched_load b ?s < - 1" by (simp add: sched_load_def word_less_nat_alt)
  then show ?thesis using j by (auto simp: sched_usable_def lowest_usable_def)
qed

section \<open>The whole loop\<close>

definition rxq_numa :: "dp_netdev_port list \<Rightarrow> dp_netdev_rxq list \<Rightarrow> nat \<Rightarrow> int" where
  "rxq_numa ports rxqs r = port_numa (ports ! rq_port (rxqs ! r))"

text \<open>What the loop over the queues \<open>rs\<close> has done: each place has got some of them, and it was a good one.\<close>

definition extended ::
  "dp_netdev_port list \<Rightarrow> dp_netdev_rxq list \<Rightarrow> nat list \<Rightarrow> sched_numa list \<Rightarrow> sched_numa list \<Rightarrow> bool" where
  "extended ports rxqs rs numas numas' \<longleftrightarrow> skel numas' = skel numas \<and>
     (\<forall>pos. at_place numas pos \<longrightarrow> (\<exists>xs. sp_rxqs (pmd_at numas' pos) = sp_rxqs (pmd_at numas pos) @ xs \<and>
        (\<forall>r\<in>set xs. r \<in> set rs \<and> good_place numas (rxq_numa ports rxqs r) pos)))"

lemma extended_refl: "extended ports rxqs rs numas numas"
  by (simp add: extended_def)

lemma extended_pmds:
  assumes "map nm_pmds ns = map nm_pmds numas" and "skel ns = skel numas" and "extended ports rxqs rs ns numas'"
  shows "extended ports rxqs (r # rs) numas numas'"
  using assms(3) skel_places [OF assms(2)] pmd_at_pmds [OF assms(1)]
  unfolding extended_def assms(2) by fastforce

lemma extended_placed:
  assumes "map nm_pmds ns = placed numas r c pos" and "skel ns = skel numas"
    and "good_place numas (rxq_numa ports rxqs r) pos" and "extended ports rxqs rs ns numas'"
  shows "extended ports rxqs (r # rs) numas numas'"
proof -
  have pos: "at_place numas pos" using assms(3) by (simp add: good_place_def)
  have "\<exists>xs. sp_rxqs (pmd_at numas' q) = sp_rxqs (pmd_at numas q) @ xs \<and>
      (\<forall>x\<in>set xs. x \<in> set (r # rs) \<and> good_place numas (rxq_numa ports rxqs x) q)"
    if q: "at_place numas q" for q
  proof -
    obtain xs where xs: "sp_rxqs (pmd_at numas' q) = sp_rxqs (pmd_at ns q) @ xs"
      "\<forall>x\<in>set xs. x \<in> set rs \<and> good_place numas (rxq_numa ports rxqs x) q"
      using assms(4) q skel_places(1,4) [OF assms(2)] unfolding extended_def by blast
    show ?thesis
    proof (cases "q = pos")
      case True
      then have "sp_rxqs (pmd_at numas' q) = sp_rxqs (pmd_at numas q) @ r # xs"
        using xs(1) placed_pmd_at [OF assms(1) pos q] by (simp add: sched_pmd_add_rxq_def)
      then show ?thesis using xs(2) assms(3) True by (intro exI [of _ "r # xs"]) auto
    next
      case False
      then show ?thesis using xs placed_pmd_at [OF assms(1) pos q] by (intro exI [of _ xs]) auto
    qed
  qed
  then show ?thesis using assms(2,4) by (simp add: extended_def)
qed

context pmd_selection
begin

lemma assign_loop:
  assumes "fold (assign_with pick ports rxqs) rs (numas, lst) = (numas', lst')"
    and "numas_wf numas" and "lst_ok numas lst"
  shows "numas_wf numas' \<and> extended ports rxqs rs numas numas' \<and>
           mset (all_rxqs numas') \<subseteq># mset (all_rxqs numas) + mset rs"
  using assms
proof (induction rs arbitrary: numas lst)
  case Nil
  then show ?case by (simp add: extended_refl)
next
  case (Cons r rs)
  obtain ns l where st: "assign_with pick ports rxqs r (numas, lst) = (ns, l)"
    by (cases "assign_with pick ports rxqs r (numas, lst)")
  note step = assign_step [OF Cons.prems(2,3) st]
  then have wf: "numas_wf ns" "lst_ok ns l" and sk: "skel ns = skel numas" by blast+
  have "fold (assign_with pick ports rxqs) rs (ns, l) = (numas', lst')" using Cons.prems(1) st by simp
  note IH = Cons.IH [OF this wf]
  from step consider "map nm_pmds ns = map nm_pmds numas"
    | pos where "good_place numas (rxq_numa ports rxqs r) pos"
        "map nm_pmds ns = placed numas r (rq_hist (rxqs ! r)) pos"
    unfolding rxq_numa_def by blast
  then show ?case
  proof cases
    case 1
    then show ?thesis
      using IH extended_pmds [OF 1 sk] all_rxqs_pmds [OF 1]
      by (auto intro: subset_mset.order_trans [of _ "mset (all_rxqs numas) + mset rs"])
  next
    case (2 pos)
    then have "at_place numas pos" by (simp add: good_place_def)
    from placed_all_rxqs [OF 2(2) this] show ?thesis
      using IH extended_placed [OF 2(2) sk 2(1)] by simp
  qed
qed

text \<open>If a thread is available and the counters are exact, every queue is assigned.\<close>

lemma assign_loop_all:
  assumes "fold (assign_with pick ports rxqs) rs (numas, lst) = (numas', lst')"
    and "numas_wf numas" and "lst_ok numas lst" and "\<exists>n\<in>set numas. noniso n"
    and "exact rxqs numas" and "budget rxqs (all_rxqs numas @ rs)"
    and "\<And>ns rs n b. exact rxqs ns \<Longrightarrow> budget rxqs (all_rxqs ns @ rs) \<Longrightarrow> n \<in> set ns \<Longrightarrow> noniso n \<Longrightarrow> usable n b"
  shows "mset (all_rxqs numas') = mset (all_rxqs numas) + mset rs \<and> exact rxqs numas'"
  using assms(1-6)
proof (induction rs arbitrary: numas lst)
  case Nil
  then show ?case by simp
next
  case (Cons r rs)
  obtain ns l where st: "assign_with pick ports rxqs r (numas, lst) = (ns, l)"
    by (cases "assign_with pick ports rxqs r (numas, lst)")
  note step = assign_step [OF Cons.prems(2,3) st]
  then have wf: "numas_wf ns" "lst_ok ns l" and sk: "skel ns = skel numas" by blast+
  have rest: "fold (assign_with pick ports rxqs) rs (ns, l) = (numas', lst')" using Cons.prems(1) st by simp
  have "noniso n \<Longrightarrow> n \<in> set numas \<Longrightarrow> usable n b" for n b
    using assms(7) [OF Cons.prems(5,6)] by blast
  with step Cons.prems(4) obtain pos where pos: "good_place numas (rxq_numa ports rxqs r) pos"
    "map nm_pmds ns = placed numas r (rq_hist (rxqs ! r)) pos"
    unfolding rxq_numa_def by blast
  then have at: "at_place numas pos" by (simp add: good_place_def)
  have "at_place ns pos" "\<not> sp_isolated (pmd_at ns pos)"
    using pos(1) skel_places [OF sk] by (simp_all add: good_place_def)
  then have "\<exists>n\<in>set ns. noniso n"
    by (intro bexI [of _ "ns ! fst pos"]) (auto simp: noniso_def at_place_def pmd_at_def)
  moreover have "exact rxqs ns" by (rule exact_placed [OF Cons.prems(5) pos(2) at sk Cons.prems(6)])
  moreover have "budget rxqs (all_rxqs ns @ rs)"
    using Cons.prems(6) placed_all_rxqs [OF pos(2) at]
      sum_list_same_mset [of "all_rxqs ns @ rs" "all_rxqs numas @ r # rs" "rxq_cost rxqs"]
    by (simp add: budget_def)
  ultimately show ?case using Cons.IH [OF rest wf] placed_all_rxqs [OF pos(2) at] by simp
qed

end

end
