(* ===== verification/Dpif_Sched_Pin.thy ===== *)
theory Dpif_Sched_Pin
  imports Dpif_Sched_Assign
begin

text \<open>
  The first loop of \<open>sched_numa_list_schedule\<close>: the cycle history of each queue, the pinned
  queues on the threads of their cores, isolation, and the queues left for the third loop.
\<close>

section \<open>Places of threads\<close>

lemma distinct_concat_pos:
  assumes "distinct (concat xss)" and "i < length xss" and "j < length (xss ! i)"
    and "i' < length xss" and "j' < length (xss ! i')" and "xss ! i ! j = xss ! i' ! j'"
  shows "i = i' \<and> j = j'"
  using assms
proof (induction xss arbitrary: i i')
  case (Cons xs xss)
  have in_rest: "xss ! k ! l \<in> set (concat xss)" if "k < length xss" "l < length (xss ! k)" for k l
    using that by (auto intro!: bexI [OF _ nth_mem])
  have disj: "set xs \<inter> set (concat xss) = {}" using Cons.prems(1) by simp
  show ?case
  proof (cases i)
    case 0
    then have "xs ! j \<in> set xs" using Cons.prems(3) by simp
    show ?thesis
    proof (cases i')
      case (Suc k)
      then have "xs ! j \<in> set (concat xss)" using Cons.prems 0 in_rest [of k j'] by auto
      then show ?thesis using disj \<open>xs ! j \<in> set xs\<close> by blast
    qed (use Cons.prems 0 in \<open>auto simp: nth_eq_iff_index_eq\<close>)
  next
    case (Suc k)
    show ?thesis
    proof (cases i')
      case 0
      then have "xs ! j' \<in> set (concat xss)" "xs ! j' \<in> set xs"
        using Cons.prems Suc in_rest [of k j] by auto
      then show ?thesis using disj by blast
    next
      case (Suc k')
      then show ?thesis using Cons.IH [of k k'] Cons.prems \<open>i = Suc k\<close> by auto
    qed
  qed
qed simp

definition pmd_ptrs :: "sched_numa list \<Rightarrow> nat list" where
  "pmd_ptrs numas = map sp_pmd (all_pmds numas)"

lemma pmd_ptrs_concat: "pmd_ptrs numas = concat (map (\<lambda>n. map sp_pmd (nm_pmds n)) numas)"
  unfolding pmd_ptrs_def all_pmds_def by (induction numas) simp_all

lemma place_unique:
  assumes "distinct (pmd_ptrs numas)" and "at_place numas pos" and "at_place numas q"
    and "sp_pmd (pmd_at numas pos) = sp_pmd (pmd_at numas q)"
  shows "pos = q"
  using distinct_concat_pos [of "map (\<lambda>n. map sp_pmd (nm_pmds n)) numas" "fst pos" "snd pos" "fst q" "snd q"]
    assms by (auto simp: pmd_ptrs_concat at_place_def pmd_at_def prod_eq_iff)

lemma ptr_place: "p \<in> set (pmd_ptrs numas) \<longleftrightarrow> (\<exists>pos. at_place numas pos \<and> sp_pmd (pmd_at numas pos) = p)"
  by (fastforce simp: pmd_ptrs_concat at_place_def pmd_at_def in_set_conv_nth)

lemma find_pmd_from_result:
  "case find_pmd_from k ns p of
     None \<Rightarrow> p \<notin> set (pmd_ptrs ns)
   | Some pos \<Rightarrow> k \<le> fst pos \<and> at_place ns (fst pos - k, snd pos) \<and> sp_pmd (pmd_at ns (fst pos - k, snd pos)) = p"
proof (induction ns arbitrary: k)
  case (Cons n ns)
  show ?case
  proof (cases "find_index_from 0 (\<lambda>s. sp_pmd s = p) (nm_pmds n)")
    case None
    then have no: "p \<notin> sp_pmd ` set (nm_pmds n)" by auto
    show ?thesis
    proof (cases "find_pmd_from (Suc k) ns p")
      case None2: None
      then show ?thesis using Cons.IH [of "Suc k"] None no
        by (simp add: pmd_ptrs_concat del: find_index_from_None_iff)
    next
      case (Some pos)
      then have "Suc k \<le> fst pos" "at_place ns (fst pos - Suc k, snd pos)"
        "sp_pmd (pmd_at ns (fst pos - Suc k, snd pos)) = p" using Cons.IH [of "Suc k"] by simp_all
      moreover have "fst pos - k = Suc (fst pos - Suc k)" using calculation(1) by simp
      ultimately show ?thesis using None Some
        by (simp add: at_place_def pmd_at_def del: find_index_from_None_iff)
    qed
  next
    case (Some j)
    then show ?thesis
      using find_index_from_SomeD [OF Some] by (simp add: at_place_def pmd_at_def)
  qed
qed (simp add: pmd_ptrs_def all_pmds_def)

lemma find_by_pmd_result:
  "case sched_pmd_find_by_pmd numas pmd of
     None \<Rightarrow> (\<forall>p. pmd = Some p \<longrightarrow> p \<notin> set (pmd_ptrs numas))
   | Some pos \<Rightarrow> at_place numas pos \<and> pmd = Some (sp_pmd (pmd_at numas pos))"
proof (cases pmd)
  case (Some p)
  then show ?thesis
    using find_pmd_from_result [where k = 0 and ns = numas and p = p]
    by (auto simp: sched_pmd_find_by_pmd_def split: option.splits)
qed (simp add: sched_pmd_find_by_pmd_def)

section \<open>Pinning one queue\<close>

definition pin_at :: "bool \<Rightarrow> nat \<Rightarrow> u64 \<Rightarrow> nat \<times> nat \<Rightarrow> sched_numa list \<Rightarrow> sched_numa list" where
  "pin_at isolate r c pos numas =
     upd_pmd (if isolate \<and> \<not> sp_isolated (pmd_at numas pos) then
                (let ns = upd_pmd numas pos (\<lambda>s. s\<lparr>sp_isolated := True\<rparr>) in
                 ns[fst pos := (ns ! fst pos)\<lparr>n_isolated := n_isolated (ns ! fst pos) + 1\<rparr>])
              else numas) pos (sched_pmd_add_rxq r c)"

lemma isolated_again: "sp_isolated s \<Longrightarrow> s\<lparr>sp_isolated := True\<rparr> = (s :: sched_pmd)"
  by (cases s) simp

lemma isolated_same: "s\<lparr>sp_isolated := sp_isolated s\<rparr> = (s :: sched_pmd)"
  by (cases s) simp

lemma numa_upd_swap: "n\<lparr>n_isolated := a, nm_pmds := b\<rparr> = n\<lparr>nm_pmds := b, n_isolated := a\<rparr>"
  by (cases n) simp

lemma numa_upd_same: "n\<lparr>nm_pmds := b, n_isolated := n_isolated n\<rparr> = n\<lparr>nm_pmds := b\<rparr>"
  by (cases n) simp

lemma pin_at_eq:
  assumes "at_place numas pos"
  shows "pin_at isolate r c pos numas = numas[fst pos := (numas ! fst pos)
     \<lparr>nm_pmds := (nm_pmds (numas ! fst pos))[snd pos := sched_pmd_add_rxq r c ((pmd_at numas pos)
        \<lparr>sp_isolated := sp_isolated (pmd_at numas pos) \<or> isolate\<rparr>)],
      n_isolated := n_isolated (numas ! fst pos) +
        (if isolate \<and> \<not> sp_isolated (pmd_at numas pos) then 1 else 0)\<rparr>]"
  using assms
  by (cases pos)
    (auto simp: pin_at_def upd_pmd_def Let_def at_place_def pmd_at_def isolated_again isolated_same
      numa_upd_swap numa_upd_same)

lemma map_update_same: "j < length xs \<Longrightarrow> f y = f (xs ! j) \<Longrightarrow> map f (xs[j := y]) = map f xs"
  by (simp add: map_update list_update_same_conv)

lemma pin_at_facts:
  fixes isolate :: bool and r :: nat and c :: u64
  assumes "at_place numas pos" and "numas_wf numas"
  defines "ns \<equiv> pin_at isolate r c pos numas"
  shows "numas_wf ns" and "at_place ns q = at_place numas q" and "pmd_ptrs ns = pmd_ptrs numas"
    and "map numa_id ns = map numa_id numas"
    and "at_place numas q \<Longrightarrow> pmd_at ns q = (if q = pos then sched_pmd_add_rxq r c
           ((pmd_at numas pos)\<lparr>sp_isolated := sp_isolated (pmd_at numas pos) \<or> isolate\<rparr>) else pmd_at numas q)"
    and "mset (all_rxqs ns) = add_mset r (mset (all_rxqs numas))"
proof -
  let ?i = "fst pos" and ?j = "snd pos"
  let ?n = "numas ! ?i"
  let ?s = "sched_pmd_add_rxq r c ((pmd_at numas pos)\<lparr>sp_isolated := sp_isolated (pmd_at numas pos) \<or> isolate\<rparr>)"
  let ?x = "?n\<lparr>nm_pmds := (nm_pmds ?n)[?j := ?s], n_isolated := n_isolated ?n +
      (if isolate \<and> \<not> sp_isolated (pmd_at numas pos) then 1 else 0)\<rparr>"
  have ns: "ns = numas[?i := ?x]" unfolding ns_def by (rule pin_at_eq [OF assms(1)])
  have ij: "?i < length numas" "?j < length (nm_pmds ?n)" using assms(1) by (simp_all add: at_place_def)
  have wf: "numa_wf ?n" using assms(2) ij by (simp add: numas_wf_def)
  have "length (filter sp_isolated ((nm_pmds ?n)[?j := ?s])) =
      length (filter sp_isolated (nm_pmds ?n)) + (if isolate \<and> \<not> sp_isolated (pmd_at numas pos) then 1 else 0)"
    using length_filter_update [OF ij(2), of sp_isolated ?s]
    by (auto simp: pmd_at_def sched_pmd_add_rxq_def split: if_splits)
  then have wfx: "numa_wf ?x" using wf by (auto simp: numa_wf_def)
  show ids: "map numa_id ns = map numa_id numas"
    using ij by (simp add: ns map_update list_update_same_conv)
  have "numa_wf m" if "m \<in> set ns" for m
    using that wfx assms(2) set_update_subset_insert [of numas ?i ?x] by (auto simp: ns numas_wf_def)
  then show "numas_wf ns" using assms(2) by (simp add: numas_wf_def ids)
  show "at_place ns q = at_place numas q" for q
    using ij by (auto simp: ns at_place_def nth_list_update)
  show "pmd_ptrs ns = pmd_ptrs numas"
  proof -
    have "map sp_pmd (nm_pmds ?x) = map sp_pmd (nm_pmds ?n)"
      using ij by (simp add: map_update_same sched_pmd_add_rxq_def pmd_at_def)
    then have "map (\<lambda>n. map sp_pmd (nm_pmds n)) ns = map (\<lambda>n. map sp_pmd (nm_pmds n)) numas"
      unfolding ns by (intro map_update_same ij(1))
    then show ?thesis by (simp add: pmd_ptrs_concat)
  qed
  show "at_place numas q \<Longrightarrow> pmd_at ns q = (if q = pos then ?s else pmd_at numas q)" for q
    using ij by (auto simp: ns pmd_at_def at_place_def nth_list_update prod_eq_iff)
  let ?f = "\<lambda>ss. concat (map sp_rxqs ss)"
  have rx: "all_rxqs ns = concat (map ?f (map nm_pmds ns))" for ns
    unfolding all_rxqs_def all_pmds_def by (induction ns) simp_all
  have "mset (?f ((nm_pmds ?n)[?j := ?s])) = mset (?f (nm_pmds ?n)) + {#r#}"
    using ij by (intro mset_concat_update) (simp_all add: pmd_at_def sched_pmd_add_rxq_def)
  then have "mset (concat (map ?f ((map nm_pmds numas)[?i := (nm_pmds ?n)[?j := ?s]]))) =
      mset (concat (map ?f (map nm_pmds numas))) + {#r#}"
    using ij by (intro mset_concat_update) simp_all
  then show "mset (all_rxqs ns) = add_mset r (mset (all_rxqs numas))"
    unfolding rx by (simp add: ns map_update)
qed

section \<open>The loop\<close>

text \<open>The thread of the core a queue is pinned to, and the queues with their cycle history stored.\<close>

definition pin_target :: "dp_netdev_pmd_thread list \<Rightarrow> dp_netdev_rxq list \<Rightarrow> nat \<Rightarrow> nat option" where
  "pin_target threads rxqs r =
     (case rq_core_id (rxqs ! r) of None \<Rightarrow> None | Some core \<Rightarrow> dp_netdev_get_pmd threads core)"

definition store_hist :: "sched_assignment_type \<Rightarrow> nat list \<Rightarrow> dp_netdev_rxq list \<Rightarrow> dp_netdev_rxq list" where
  "store_hist algo rs rxqs = map (\<lambda>r. if algo \<noteq> SCHED_ROUNDROBIN \<and> r \<in> set rs
     then (rxqs ! r)\<lparr>rq_hist := rxq_cycle_hist (rxqs ! r)\<rparr> else rxqs ! r) [0..<length rxqs]"

lemma length_store_hist [simp]: "length (store_hist algo rs rxqs) = length rxqs"
  by (simp add: store_hist_def)

lemma store_hist_nth:
  "r < length rxqs \<Longrightarrow> store_hist algo rs rxqs ! r = (if algo \<noteq> SCHED_ROUNDROBIN \<and> r \<in> set rs
     then (rxqs ! r)\<lparr>rq_hist := rxq_cycle_hist (rxqs ! r)\<rparr> else rxqs ! r)"
  by (simp add: store_hist_def)

lemma store_hist_fields:
  assumes "r < length rxqs"
  shows "rq_core_id (store_hist algo rs rxqs ! r) = rq_core_id (rxqs ! r)"
    and "rq_port (store_hist algo rs rxqs ! r) = rq_port (rxqs ! r)"
    and "rq_pmd (store_hist algo rs rxqs ! r) = rq_pmd (rxqs ! r)"
  using assms by (simp_all add: store_hist_nth)

lemma store_hist_step:
  assumes "r < length rxqs" and "r \<notin> set rs"
  shows "(if algo \<noteq> SCHED_ROUNDROBIN then (store_hist algo rs rxqs)[r := (store_hist algo rs rxqs ! r)
           \<lparr>rq_hist := rxq_cycle_hist (store_hist algo rs rxqs ! r)\<rparr>] else store_hist algo rs rxqs) =
         store_hist algo (rs @ [r]) rxqs"
  using assms by (intro nth_equalityI) (auto simp: store_hist_nth nth_list_update)

lemma get_pmd_result:
  "dp_netdev_get_pmd threads core = Some p \<Longrightarrow> p < length threads \<and> pmd_core_id (threads ! p) = Some core"
  "dp_netdev_get_pmd threads core = None \<Longrightarrow> t \<in> set threads \<Longrightarrow> pmd_core_id t \<noteq> Some core"
  using find_index_from_SomeD [of 0 _ threads p] by (auto simp: dp_netdev_get_pmd_def)

text \<open>The state of the loop when the queues \<open>rs\<close> are done.\<close>

definition pin_inv ::
  "dp_netdev_pmd_thread list \<Rightarrow> bool \<Rightarrow> sched_assignment_type \<Rightarrow> dp_netdev_rxq list \<Rightarrow> sched_numa list \<Rightarrow> nat list
   \<Rightarrow> dp_netdev_rxq list \<times> sched_numa list \<times> nat list \<Rightarrow> bool" where
  "pin_inv threads isolate algo rxqs0 numas0 rs st \<longleftrightarrow> (case st of (rxqs, numas, pending) \<Rightarrow>
     rxqs = store_hist algo rs rxqs0 \<and> numas_wf numas \<and> pmd_ptrs numas = pmd_ptrs numas0 \<and>
     map numa_id numas = map numa_id numas0 \<and> (\<forall>pos. at_place numas pos = at_place numas0 pos) \<and>
     (\<forall>pos. at_place numas0 pos \<longrightarrow>
        sp_pmd (pmd_at numas pos) = sp_pmd (pmd_at numas0 pos) \<and>
        sp_rxqs (pmd_at numas pos) = filter (\<lambda>r. pin_target threads rxqs0 r = Some (sp_pmd (pmd_at numas0 pos))) rs \<and>
        (sp_isolated (pmd_at numas pos) \<longleftrightarrow> isolate \<and> sp_rxqs (pmd_at numas pos) \<noteq> []) \<and>
        pmd_proc_cycles (pmd_at numas pos) = (\<Sum>r\<leftarrow>sp_rxqs (pmd_at numas pos). rq_hist (rxqs ! r))) \<and>
     mset (all_rxqs numas) = mset (filter (\<lambda>r. pin_target threads rxqs0 r \<noteq> None) rs) \<and>
     pending = filter (\<lambda>r. pin_target threads rxqs0 r = None) rs)"

lemma pin_rxq_pin_at:
  "pin_rxq threads isolate algo r (rxqs, numas, pending) =
     (let rxqs = (if algo \<noteq> SCHED_ROUNDROBIN
                  then rxqs[r := (rxqs ! r)\<lparr>rq_hist := rxq_cycle_hist (rxqs ! r)\<rparr>] else rxqs)
      in case sched_pmd_find_by_pmd numas (pin_target threads rxqs r) of
           None \<Rightarrow> (rxqs, numas, pending @ [r])
         | Some pos \<Rightarrow> (rxqs, pin_at isolate r (rq_hist (rxqs ! r)) pos numas, pending))"
  by (auto simp: pin_rxq_def pin_target_def pin_at_def Let_def sched_pmd_find_by_pmd_def split: option.split)

lemma pin_step:
  assumes "pin_inv threads isolate algo rxqs0 numas0 rs (rxqs, numas, pending)"
    and "distinct (pmd_ptrs numas0)" and "\<forall>p<length threads. has_core threads p \<longrightarrow> p \<in> set (pmd_ptrs numas0)"
    and "r < length rxqs0" and "r \<notin> set rs" and "set rs \<subseteq> {..<length rxqs0}"
  shows "pin_inv threads isolate algo rxqs0 numas0 (rs @ [r]) (pin_rxq threads isolate algo r (rxqs, numas, pending))"
proof -
  note inv = assms(1) [unfolded pin_inv_def prod.case]
  let ?rx = "store_hist algo (rs @ [r]) rxqs0" and ?t = "pin_target threads rxqs0 r"
  have rx: "(if algo \<noteq> SCHED_ROUNDROBIN then rxqs[r := (rxqs ! r)\<lparr>rq_hist := rxq_cycle_hist (rxqs ! r)\<rparr>] else rxqs) = ?rx"
  proof -
    have r: "rxqs = store_hist algo rs rxqs0" using inv by blast
    show ?thesis unfolding r by (rule store_hist_step [OF assms(4,5)])
  qed
  have t: "pin_target threads ?rx r = ?t" using assms(4) by (simp add: pin_target_def store_hist_fields)
  have hist: "rq_hist (?rx ! x) = rq_hist (rxqs ! x)" if "x \<in> set rs" for x
    using that assms(5,6) inv by (auto simp: store_hist_nth)
  have sums: "(\<Sum>x\<leftarrow>filter P rs. rq_hist (?rx ! x)) = (\<Sum>x\<leftarrow>filter P rs. rq_hist (rxqs ! x))" for P
    using hist by (intro arg_cong [of _ _ sum_list] map_cong) auto
  have step: "pin_rxq threads isolate algo r (rxqs, numas, pending) =
      (case sched_pmd_find_by_pmd numas ?t of None \<Rightarrow> (?rx, numas, pending @ [r])
       | Some pos \<Rightarrow> (?rx, pin_at isolate r (rq_hist (?rx ! r)) pos numas, pending))"
    unfolding pin_rxq_pin_at Let_def rx t ..
  note found = find_by_pmd_result [where numas = numas and pmd = "?t"]
  show ?thesis
  proof (cases "sched_pmd_find_by_pmd numas ?t")
    case None
    have "?t = None"
    proof (rule ccontr)
      assume "?t \<noteq> None"
      then obtain p core where p: "?t = Some p" "dp_netdev_get_pmd threads core = Some p"
        by (auto simp: pin_target_def split: option.splits)
      then have "p \<in> set (pmd_ptrs numas0)" using get_pmd_result(1) [OF p(2)] assms(3) by (simp add: has_core_def)
      then show False using found None p(1) inv by simp
    qed
    then show ?thesis using inv sums unfolding step None pin_inv_def by simp
  next
    case (Some pos)
    have pos: "at_place numas pos" "?t = Some (sp_pmd (pmd_at numas pos))" using found Some by simp_all
    let ?ns = "pin_at isolate r (rq_hist (?rx ! r)) pos numas"
    have wf: "numas_wf numas" using inv by simp
    note f = pin_at_facts [OF pos(1) wf, where isolate = isolate and r = r and c = "rq_hist (?rx ! r)"]
    have at0: "at_place numas0 q = at_place numas q"
      and sp0: "at_place numas q \<Longrightarrow> sp_pmd (pmd_at numas q) = sp_pmd (pmd_at numas0 q)"
      and rx0: "at_place numas q \<Longrightarrow> sp_rxqs (pmd_at numas q) =
        filter (\<lambda>r. pin_target threads rxqs0 r = Some (sp_pmd (pmd_at numas0 q))) rs"
      and iso0: "at_place numas q \<Longrightarrow> sp_isolated (pmd_at numas q) \<longleftrightarrow> isolate \<and> sp_rxqs (pmd_at numas q) \<noteq> []"
      and cyc0: "at_place numas q \<Longrightarrow>
        pmd_proc_cycles (pmd_at numas q) = (\<Sum>r\<leftarrow>sp_rxqs (pmd_at numas q). rq_hist (rxqs ! r))" for q
      using inv by metis+
    have dist: "distinct (pmd_ptrs numas)" using inv assms(2) by simp
    have uniq: "q = pos \<longleftrightarrow> ?t = Some (sp_pmd (pmd_at numas0 q))" if q: "at_place numas q" for q
      using place_unique [OF dist q pos(1)] sp0 [OF q] pos(2) by auto
    have "sp_pmd (pmd_at ?ns q) = sp_pmd (pmd_at numas0 q) \<and>
        sp_rxqs (pmd_at ?ns q) = filter (\<lambda>r. pin_target threads rxqs0 r = Some (sp_pmd (pmd_at numas0 q))) (rs @ [r]) \<and>
        (sp_isolated (pmd_at ?ns q) \<longleftrightarrow> isolate \<and> sp_rxqs (pmd_at ?ns q) \<noteq> []) \<and>
        pmd_proc_cycles (pmd_at ?ns q) = (\<Sum>r\<leftarrow>sp_rxqs (pmd_at ?ns q). rq_hist (?rx ! r))"
      if "at_place numas0 q" for q
    proof -
      have q: "at_place numas q" using that at0 by simp
      note u = uniq [OF q] and fq = f(5) [OF q] and old = sp0 [OF q] rx0 [OF q] iso0 [OF q] cyc0 [OF q]
      show ?thesis
      proof (cases "q = pos")
        case True
        then have t: "?t = Some (sp_pmd (pmd_at numas0 q))" using u by simp
        have s: "pmd_at ?ns q = sched_pmd_add_rxq r (rq_hist (?rx ! r))
            ((pmd_at numas q)\<lparr>sp_isolated := sp_isolated (pmd_at numas q) \<or> isolate\<rparr>)"
          using fq True by simp
        show ?thesis unfolding s using old t sums by (auto simp: sched_pmd_add_rxq_def)
      next
        case False
        then have t: "?t \<noteq> Some (sp_pmd (pmd_at numas0 q))" using u by simp
        have s: "pmd_at ?ns q = pmd_at numas q" using fq False by simp
        show ?thesis unfolding s using old t sums by simp
      qed
    qed
    moreover have "mset (all_rxqs ?ns) = mset (filter (\<lambda>r. pin_target threads rxqs0 r \<noteq> None) (rs @ [r]))"
      using f(6) inv pos(2) by simp
    ultimately show ?thesis
      using inv f(1-4) pos(2) unfolding step Some pin_inv_def by simp
  qed
qed

lemma pin_loop:
  assumes "pin_inv threads isolate algo rxqs0 numas0 rs st"
    and "distinct (pmd_ptrs numas0)" and "\<forall>p<length threads. has_core threads p \<longrightarrow> p \<in> set (pmd_ptrs numas0)"
    and "distinct (rs @ qs)" and "set (rs @ qs) \<subseteq> {..<length rxqs0}"
  shows "pin_inv threads isolate algo rxqs0 numas0 (rs @ qs) (fold (pin_rxq threads isolate algo) qs st)"
  using assms(1,4,5)
proof (induction qs arbitrary: rs st)
  case (Cons q qs)
  obtain rxqs numas pending where st: "st = (rxqs, numas, pending)" by (cases st)
  have "pin_inv threads isolate algo rxqs0 numas0 (rs @ [q]) (pin_rxq threads isolate algo q st)"
    unfolding st by (rule pin_step [OF _ assms(2,3)]) (use Cons.prems st in auto)
  from Cons.IH [OF this] show ?case using Cons.prems by simp
qed simp

text \<open>The loop starts from lists that have just been populated.\<close>

lemma populated_numas:
  assumes "populated threads [0..<length threads] numas"
  shows "numas_wf numas" and "distinct (pmd_ptrs numas)"
    and "p \<in> set (pmd_ptrs numas) \<longleftrightarrow> p < length threads \<and> has_core threads p"
    and "at_place numas pos \<Longrightarrow> pmd_at numas pos = new_sched_pmd (sp_pmd (pmd_at numas pos))"
    and "at_place numas pos \<Longrightarrow> numa_id (numas ! fst pos) = pmd_numa_id (threads ! sp_pmd (pmd_at numas pos))"
    and "all_rxqs numas = []"
proof -
  have fresh: "\<forall>n\<in>set numas. fresh_numa threads n" and d: "distinct (map numa_id numas)"
    and m: "mset (pmd_ptrs numas) = mset (filter (has_core threads) [0..<length threads])"
    using assms by (simp_all add: populated_def pmd_ptrs_def del: mset_filter)
  have "numa_wf n" if "n \<in> set numas" for n
  proof -
    have f: "fresh_numa threads n" using fresh that by simp
    then have "\<forall>s\<in>set (nm_pmds n). \<not> sp_isolated s"
      unfolding fresh_numa_def new_sched_pmd_def by (metis sched_pmd.select_convs(4))
    then show ?thesis using f by (auto simp: fresh_numa_def numa_wf_def filter_empty_conv)
  qed
  then show "numas_wf numas" using d by (simp add: numas_wf_def)
  show "distinct (pmd_ptrs numas)" using mset_eq_imp_distinct_iff [OF m] by simp
  show "p \<in> set (pmd_ptrs numas) \<longleftrightarrow> p < length threads \<and> has_core threads p"
    using mset_eq_setD [OF m] by auto
  have at: "fresh_numa threads (numas ! fst pos) \<and> pmd_at numas pos \<in> set (nm_pmds (numas ! fst pos))"
    if "at_place numas pos" for pos
    using that fresh by (simp add: at_place_def pmd_at_def)
  show "at_place numas pos \<Longrightarrow> pmd_at numas pos = new_sched_pmd (sp_pmd (pmd_at numas pos))"
    "at_place numas pos \<Longrightarrow> numa_id (numas ! fst pos) = pmd_numa_id (threads ! sp_pmd (pmd_at numas pos))"
    using at [of pos] by (auto simp: fresh_numa_def)
  have "sp_rxqs s = []" if "s \<in> set (all_pmds numas)" for s
  proof -
    have "s = new_sched_pmd (sp_pmd s)" using that fresh by (auto simp: all_pmds_def fresh_numa_def)
    then show ?thesis by (metis new_sched_pmd_def sched_pmd.select_convs(3))
  qed
  then show "all_rxqs numas = []" by (simp add: all_rxqs_def)
qed

lemma pin_inv_start:
  assumes "populated threads [0..<length threads] numas"
  shows "pin_inv threads isolate algo rxqs numas [] (rxqs, numas, [])"
proof -
  have "store_hist algo [] rxqs = rxqs" by (simp add: store_hist_def map_nth)
  moreover have "sp_rxqs (pmd_at numas pos) = [] \<and> \<not> sp_isolated (pmd_at numas pos) \<and>
      pmd_proc_cycles (pmd_at numas pos) = 0" if "at_place numas pos" for pos
    using populated_numas(4) [OF assms that] by (metis new_sched_pmd_def sched_pmd.select_convs(2-4))
  ultimately show ?thesis
    using populated_numas(1,6) [OF assms] by (simp add: pin_inv_def)
qed

end
