(* ===== verification/Dpif_Sched_Result.thy ===== *)
theory Dpif_Sched_Result
  imports Dpif_Sched_Pin
begin

text \<open>
  What \<open>sched_numa_list_schedule\<close> and \<open>rxq_scheduling\<close> do as a whole, said of pointers: which
  thread each queue gets.
\<close>

section \<open>The schedule\<close>

text \<open>Every polled queue is a queue of the datapath and belongs to one port only.\<close>

definition sched_ok :: "dp_netdev \<Rightarrow> bool" where
  "sched_ok dp \<longleftrightarrow> distinct (polled_rxqs (dp_ports dp)) \<and> set (polled_rxqs (dp_ports dp)) \<subseteq> {..<length (dp_rxqs dp)}"

text \<open>The thread that a queue is pinned to, if its core has one.\<close>

definition pinned_to :: "dp_netdev \<Rightarrow> nat \<Rightarrow> nat option" where
  "pinned_to dp r = pin_target (poll_threads dp) (dp_rxqs dp) r"

text \<open>A thread that may get queues that are not pinned.\<close>

definition free_thread :: "dp_netdev \<Rightarrow> nat \<Rightarrow> bool" where
  "free_thread dp p \<longleftrightarrow> p < length (poll_threads dp) \<and> has_core (poll_threads dp) p \<and>
     \<not> (pmd_iso dp \<and> (\<exists>r\<in>set (polled_rxqs (dp_ports dp)). pinned_to dp r = Some p))"

abbreviation thread_numa :: "dp_netdev \<Rightarrow> nat \<Rightarrow> int" where
  "thread_numa dp p \<equiv> pmd_numa_id (poll_threads dp ! p)"

definition port_numa_of :: "dp_netdev \<Rightarrow> nat \<Rightarrow> int" where
  "port_numa_of dp r = rxq_numa (dp_ports dp) (dp_rxqs dp) r"

text \<open>A thread that is right for a queue: that of its core, or a free one, on the node of the port if there is one there.\<close>

definition right_thread :: "dp_netdev \<Rightarrow> nat \<Rightarrow> nat \<Rightarrow> bool" where
  "right_thread dp r p \<longleftrightarrow>
     (case pinned_to dp r of
        Some q \<Rightarrow> p = q
      | None \<Rightarrow> free_thread dp p \<and>
          ((\<exists>q. free_thread dp q \<and> thread_numa dp q = port_numa_of dp r) \<longrightarrow> thread_numa dp p = port_numa_of dp r))"

definition assigned :: "sched_numa list \<Rightarrow> nat \<Rightarrow> nat \<Rightarrow> bool" where
  "assigned numas p r \<longleftrightarrow> (\<exists>pos. at_place numas pos \<and> sp_pmd (pmd_at numas pos) = p \<and> r \<in> set (sp_rxqs (pmd_at numas pos)))"

lemma assigned_all: "r \<in> set (all_rxqs numas) \<longleftrightarrow> (\<exists>p. assigned numas p r)"
proof -
  have "(\<exists>s\<in>set (all_pmds numas). P s) \<longleftrightarrow> (\<exists>pos. at_place numas pos \<and> P (pmd_at numas pos))" for P
    by (fastforce simp: all_pmds_def at_place_def pmd_at_def in_set_conv_nth)
  then show ?thesis by (simp add: all_rxqs_def assigned_def)
qed

lemma unat_sum_list_u64:
  "(\<Sum>x\<leftarrow>xs. unat (f x)) < 2 ^ 64 \<Longrightarrow> unat (\<Sum>x\<leftarrow>xs. f x :: u64) = (\<Sum>x\<leftarrow>xs. unat (f x))"
proof (induction xs)
  case (Cons x xs)
  then have IH: "unat (\<Sum>x\<leftarrow>xs. f x) = (\<Sum>x\<leftarrow>xs. unat (f x))" by simp
  have "unat (f x + (\<Sum>x\<leftarrow>xs. f x)) = unat (f x) + unat (\<Sum>x\<leftarrow>xs. f x)"
    using Cons.prems IH by (subst unat_add_lem [THEN iffD1]) simp_all
  then show ?case using IH by simp
qed simp

text \<open>The first loop leaves the round robin state of the nodes alone.\<close>

lemma pin_loop_rr:
  "map (\<lambda>n. (rr_cur_index n, rr_idx_inc n)) (fst (snd (fold (pin_rxq threads isolate algo) rs st))) =
     map (\<lambda>n. (rr_cur_index n, rr_idx_inc n)) (fst (snd st))"
proof (induction rs arbitrary: st)
  case (Cons r rs)
  have upd: "map (\<lambda>n. (rr_cur_index n, rr_idx_inc n)) (upd_pmd ns pos f) = map (\<lambda>n. (rr_cur_index n, rr_idx_inc n)) ns"
    for ns pos f
    by (cases pos; cases "fst pos < length ns") (simp_all add: upd_pmd_def map_update_same list_update_beyond)
  have cnt: "map (\<lambda>n. (rr_cur_index n, rr_idx_inc n)) (ns[i := (ns ! i)\<lparr>n_isolated := c\<rparr>]) =
      map (\<lambda>n. (rr_cur_index n, rr_idx_inc n)) ns" for ns :: "sched_numa list" and i c
    by (cases "i < length ns") (simp_all add: map_update_same list_update_beyond)
  show ?case
    unfolding fold_simps Cons.IH
    by (cases st) (simp add: pin_rxq_def Let_def upd cnt split: option.split)
qed simp

text \<open>After the first loop: the queues left and the lists, with all that the third loop needs.\<close>

lemma schedule_phases:
  assumes "sched_ok dp"
    and "sched_numa_list_schedule (sched_numa_list_populate pos (poll_threads dp)) dp algo = (rxqs, numas)"
  obtains numas1 left lst where
    "rxqs = store_hist algo (polled_rxqs (dp_ports dp)) (dp_rxqs dp)"
    "numas_wf numas1" "distinct (pmd_ptrs numas1)"
    "\<And>n. n \<in> set numas1 \<Longrightarrow> rr_cur_index n = 0 \<and> rr_idx_inc n"
    "\<And>p. p \<in> set (pmd_ptrs numas1) \<longleftrightarrow> p < length (poll_threads dp) \<and> has_core (poll_threads dp) p"
    "\<And>q. at_place numas1 q \<Longrightarrow> numa_id (numas1 ! fst q) = thread_numa dp (sp_pmd (pmd_at numas1 q))"
    "\<And>q. at_place numas1 q \<Longrightarrow> sp_rxqs (pmd_at numas1 q) =
       filter (\<lambda>r. pinned_to dp r = Some (sp_pmd (pmd_at numas1 q))) (polled_rxqs (dp_ports dp))"
    "\<And>q. at_place numas1 q \<Longrightarrow> sp_isolated (pmd_at numas1 q) \<longleftrightarrow> \<not> free_thread dp (sp_pmd (pmd_at numas1 q))"
    "\<And>q. at_place numas1 q \<Longrightarrow>
       pmd_proc_cycles (pmd_at numas1 q) = (\<Sum>r\<leftarrow>sp_rxqs (pmd_at numas1 q). rq_hist (rxqs ! r))"
    "mset (all_rxqs numas1) = mset (filter (\<lambda>r. pinned_to dp r \<noteq> None) (polled_rxqs (dp_ports dp)))"
    "mset left = mset (filter (\<lambda>r. pinned_to dp r = None) (polled_rxqs (dp_ports dp)))"
    "fold (assign_with (\<lambda>n. sched_pmd_next n algo) (dp_ports dp) rxqs) left (numas1, None) = (numas, lst)"
proof -
  let ?qs = "polled_rxqs (dp_ports dp)"
  define numas0 where "numas0 = sched_numa_list_populate pos (poll_threads dp)"
  have p0: "populated (poll_threads dp) [0..<length (poll_threads dp)] numas0"
    unfolding numas0_def by (rule populate_result)
  note f0 = populated_numas [OF p0]
  obtain rx1 numas1 pending where st: "fold (pin_rxq (poll_threads dp) (pmd_iso dp) algo) ?qs
      (dp_rxqs dp, numas0, []) = (rx1, numas1, pending)"
    by (cases "fold (pin_rxq (poll_threads dp) (pmd_iso dp) algo) ?qs (dp_rxqs dp, numas0, [])")
  have "pin_inv (poll_threads dp) (pmd_iso dp) algo (dp_rxqs dp) numas0 ([] @ ?qs)
      (fold (pin_rxq (poll_threads dp) (pmd_iso dp) algo) ?qs (dp_rxqs dp, numas0, []))"
    using assms(1) f0(2,3) by (intro pin_loop pin_inv_start p0) (auto simp: sched_ok_def)
  then have inv: "pin_inv (poll_threads dp) (pmd_iso dp) algo (dp_rxqs dp) numas0 ?qs (rx1, numas1, pending)"
    by (simp add: st)
  note i = inv [unfolded pin_inv_def prod.case, folded pinned_to_def]
  define left where "left = (if 1 < length pending \<and> algo \<noteq> SCHED_ROUNDROBIN
      then qsort (compare_rxq_cycles (dp_ports dp) rx1) pending else pending)"
  obtain lst where run: "rxqs = rx1"
    "fold (assign_with (\<lambda>n. sched_pmd_next n algo) (dp_ports dp) rx1) left (numas1, None) = (numas, lst)"
    using assms(2) st
    by (cases "fold (assign_with (\<lambda>n. sched_pmd_next n algo) (dp_ports dp) rx1) left (numas1, None)")
      (simp add: sched_numa_list_schedule_def numas0_def assign_rxq_with left_def Let_def)
  have at0: "at_place numas0 q" if "at_place numas1 q" for q using that i by metis
  have sp: "sp_pmd (pmd_at numas1 q) = sp_pmd (pmd_at numas0 q)" if "at_place numas1 q" for q
    using i at0 [OF that] by metis
  show thesis
  proof (rule that)
    show "rxqs = store_hist algo ?qs (dp_rxqs dp)" using i run(1) by simp
    show "numas_wf numas1" using i by simp
    show "distinct (pmd_ptrs numas1)" using i f0(2) by simp
    show "rr_cur_index n = 0 \<and> rr_idx_inc n" if "n \<in> set numas1" for n
    proof -
      have "(rr_cur_index n, rr_idx_inc n) \<in> set (map (\<lambda>n. (rr_cur_index n, rr_idx_inc n)) numas1)"
        using that by auto
      also have "map (\<lambda>n. (rr_cur_index n, rr_idx_inc n)) numas1 = map (\<lambda>n. (rr_cur_index n, rr_idx_inc n)) numas0"
        using pin_loop_rr [of "poll_threads dp" "pmd_iso dp" algo ?qs "(dp_rxqs dp, numas0, [])"] st by simp
      finally show ?thesis using p0 by (auto simp: populated_def fresh_numa_def)
    qed
    show "p \<in> set (pmd_ptrs numas1) \<longleftrightarrow> p < length (poll_threads dp) \<and> has_core (poll_threads dp) p" for p
      using i f0(3) by simp
    show "numa_id (numas1 ! fst q) = thread_numa dp (sp_pmd (pmd_at numas1 q))" if q: "at_place numas1 q" for q
    proof -
      have "fst q < length numas1" "fst q < length numas0" using q at0 [OF q] by (simp_all add: at_place_def)
      moreover have "map numa_id numas1 = map numa_id numas0" using i by simp
      ultimately have "numa_id (numas1 ! fst q) = numa_id (numas0 ! fst q)" by (metis nth_map)
      then show ?thesis using f0(5) [OF at0 [OF q]] sp [OF q] by simp
    qed
    show rx: "sp_rxqs (pmd_at numas1 q) = filter (\<lambda>r. pinned_to dp r = Some (sp_pmd (pmd_at numas1 q))) ?qs"
      if q: "at_place numas1 q" for q unfolding sp [OF q] using i at0 [OF q] by blast
    show "sp_isolated (pmd_at numas1 q) \<longleftrightarrow> \<not> free_thread dp (sp_pmd (pmd_at numas1 q))"
      if q: "at_place numas1 q" for q
    proof -
      let ?p = "sp_pmd (pmd_at numas1 q)"
      have "?p \<in> set (pmd_ptrs numas1)" using q ptr_place by blast
      then have "?p < length (poll_threads dp) \<and> has_core (poll_threads dp) ?p" using i f0(3) by simp
      moreover have "sp_isolated (pmd_at numas1 q) \<longleftrightarrow> pmd_iso dp \<and> sp_rxqs (pmd_at numas1 q) \<noteq> []"
        using i at0 [OF q] by metis
      ultimately show ?thesis unfolding rx [OF q] by (auto simp: free_thread_def filter_empty_conv)
    qed
    show "pmd_proc_cycles (pmd_at numas1 q) = (\<Sum>r\<leftarrow>sp_rxqs (pmd_at numas1 q). rq_hist (rxqs ! r))"
      if q: "at_place numas1 q" for q using i at0 [OF q] run(1) by metis
    show "mset (all_rxqs numas1) = mset (filter (\<lambda>r. pinned_to dp r \<noteq> None) ?qs)" using i by blast
    show "mset left = mset (filter (\<lambda>r. pinned_to dp r = None) ?qs)" using i by (simp add: left_def)
    show "fold (assign_with (\<lambda>n. sched_pmd_next n algo) (dp_ports dp) rxqs) left (numas1, None) = (numas, lst)"
      using run by simp
  qed
qed

text \<open>If the load fits, the counters after the first loop are exact.\<close>

lemma budget_phases:
  assumes "mset pinned = mset (filter (\<lambda>r. P r \<noteq> None) qs)" and "mset rest = mset (filter (\<lambda>r. P r = None) qs)"
    and "budget rxqs qs"
  shows "budget rxqs (pinned @ rest)"
proof -
  have "mset (pinned @ rest) = mset qs"
    unfolding mset_append assms(1,2)
    by (simp add: multiset_partition [of "mset qs" "\<lambda>r. P r \<noteq> None", symmetric])
  then show ?thesis
    using assms(3) sum_list_same_mset [of "pinned @ rest" qs "rxq_cost rxqs"] by (simp add: budget_def)
qed

lemma exact_phases:
  assumes "\<And>q. at_place numas q \<Longrightarrow> pmd_proc_cycles (pmd_at numas q) = (\<Sum>r\<leftarrow>sp_rxqs (pmd_at numas q). rq_hist (rxqs ! r))"
    and "budget rxqs (all_rxqs numas @ rest)"
  shows "exact rxqs numas"
  unfolding exact_def
proof (intro allI impI)
  fix q assume q: "at_place numas q"
  have "(\<Sum>r\<leftarrow>sp_rxqs (pmd_at numas q). unat (rq_hist (rxqs ! r))) \<le> (\<Sum>r\<leftarrow>all_rxqs numas. unat (rq_hist (rxqs ! r)))"
    by (rule sum_list_mset_mono [OF pmd_at_subset [OF q]])
  also have "\<dots> < 2 ^ 64" using assms(2) unfolding budget_def cost_split by simp
  finally show "unat (pmd_proc_cycles (pmd_at numas q)) = (\<Sum>r\<leftarrow>sp_rxqs (pmd_at numas q). unat (rq_hist (rxqs ! r)))"
    unfolding assms(1) [OF q] by (rule unat_sum_list_u64)
qed

lemma available_free:
  assumes "distinct (pmd_ptrs numas)"
    and "\<And>p. p \<in> set (pmd_ptrs numas) \<longleftrightarrow> p < length (poll_threads dp) \<and> has_core (poll_threads dp) p"
    and "\<And>q. at_place numas q \<Longrightarrow> numa_id (numas ! fst q) = thread_numa dp (sp_pmd (pmd_at numas q))"
    and "\<And>q. at_place numas q \<Longrightarrow> sp_isolated (pmd_at numas q) \<longleftrightarrow> \<not> free_thread dp (sp_pmd (pmd_at numas q))"
  shows "(\<exists>n\<in>set numas. numa_id n = nid \<and> noniso n) \<longleftrightarrow> (\<exists>p. free_thread dp p \<and> thread_numa dp p = nid)"
    and "(\<exists>n\<in>set numas. noniso n) \<longleftrightarrow> (\<exists>p. free_thread dp p)"
proof -
  have ex: "(\<exists>n\<in>set numas. P (numa_id n) \<and> noniso n) \<longleftrightarrow>
      (\<exists>q. at_place numas q \<and> P (numa_id (numas ! fst q)) \<and> \<not> sp_isolated (pmd_at numas q))" for P
    by (fastforce simp: noniso_def at_place_def pmd_at_def in_set_conv_nth)
  have "(\<exists>q. at_place numas q \<and> P (numa_id (numas ! fst q)) \<and> \<not> sp_isolated (pmd_at numas q)) \<longleftrightarrow>
      (\<exists>p. free_thread dp p \<and> P (thread_numa dp p))" for P
  proof
    assume "\<exists>q. at_place numas q \<and> P (numa_id (numas ! fst q)) \<and> \<not> sp_isolated (pmd_at numas q)"
    then obtain q where q: "at_place numas q" "P (numa_id (numas ! fst q))" "\<not> sp_isolated (pmd_at numas q)"
      by blast
    then have "free_thread dp (sp_pmd (pmd_at numas q))" "P (thread_numa dp (sp_pmd (pmd_at numas q)))"
      using assms(3) [OF q(1)] assms(4) [OF q(1)] by simp_all
    then show "\<exists>p. free_thread dp p \<and> P (thread_numa dp p)" by blast
  next
    assume "\<exists>p. free_thread dp p \<and> P (thread_numa dp p)"
    then obtain p where p: "free_thread dp p" "P (thread_numa dp p)" by blast
    then have "p \<in> set (pmd_ptrs numas)" using assms(2) by (simp add: free_thread_def)
    then obtain q where q: "at_place numas q" "sp_pmd (pmd_at numas q) = p" using ptr_place by blast
    then have "P (numa_id (numas ! fst q))" "\<not> sp_isolated (pmd_at numas q)"
      using assms(3) [OF q(1)] assms(4) [OF q(1)] p by simp_all
    with q(1) show "\<exists>q. at_place numas q \<and> P (numa_id (numas ! fst q)) \<and> \<not> sp_isolated (pmd_at numas q)"
      by blast
  qed
  note fr = this
  show "(\<exists>n\<in>set numas. numa_id n = nid \<and> noniso n) \<longleftrightarrow> (\<exists>p. free_thread dp p \<and> thread_numa dp p = nid)"
    using ex [of "\<lambda>x. x = nid"] fr [of "\<lambda>x. x = nid"] by simp
  show "(\<exists>n\<in>set numas. noniso n) \<longleftrightarrow> (\<exists>p. free_thread dp p)"
    using ex [of "\<lambda>_. True"] fr [of "\<lambda>_. True"] by simp
qed

lemma good_place_right:
  assumes "good_place numas (port_numa_of dp r) q" and "pinned_to dp r = None"
    and "numa_id (numas ! fst q) = thread_numa dp (sp_pmd (pmd_at numas q))"
    and "sp_isolated (pmd_at numas q) \<longleftrightarrow> \<not> free_thread dp (sp_pmd (pmd_at numas q))"
    and "(\<exists>n\<in>set numas. numa_id n = port_numa_of dp r \<and> noniso n) \<longleftrightarrow>
           (\<exists>p. free_thread dp p \<and> thread_numa dp p = port_numa_of dp r)"
  shows "right_thread dp r (sp_pmd (pmd_at numas q))"
  using assms by (auto simp: good_place_def right_thread_def)

text \<open>The lists at the end.\<close>

lemma schedule_result:
  assumes "sched_ok dp"
    and "sched_numa_list_schedule (sched_numa_list_populate pos (poll_threads dp)) dp algo = (rxqs, numas)"
  shows "rxqs = store_hist algo (polled_rxqs (dp_ports dp)) (dp_rxqs dp)"
    and "distinct (pmd_ptrs numas)"
    and "p \<in> set (pmd_ptrs numas) \<longleftrightarrow> p < length (poll_threads dp) \<and> has_core (poll_threads dp) p"
    and "at_place numas q \<Longrightarrow> sp_isolated (pmd_at numas q) \<longleftrightarrow> \<not> free_thread dp (sp_pmd (pmd_at numas q))"
    and "mset (all_rxqs numas) \<subseteq># mset (polled_rxqs (dp_ports dp))"
    and "assigned numas p r \<Longrightarrow> right_thread dp r p"
    and "r \<in> set (polled_rxqs (dp_ports dp)) \<Longrightarrow> pinned_to dp r = Some p \<Longrightarrow> assigned numas p r"
    and "\<exists>p. free_thread dp p \<Longrightarrow> budget rxqs (polled_rxqs (dp_ports dp)) \<Longrightarrow>
           mset (all_rxqs numas) = mset (polled_rxqs (dp_ports dp)) \<and> exact rxqs numas"
    and "numas_wf numas"
    and "at_place numas q \<Longrightarrow> numa_id (numas ! fst q) = thread_numa dp (sp_pmd (pmd_at numas q))"
proof -
  let ?qs = "polled_rxqs (dp_ports dp)"
  obtain numas1 left lst where
    rx: "rxqs = store_hist algo ?qs (dp_rxqs dp)" and wf: "numas_wf numas1" and d: "distinct (pmd_ptrs numas1)"
    and ptr: "\<And>p. p \<in> set (pmd_ptrs numas1) \<longleftrightarrow> p < length (poll_threads dp) \<and> has_core (poll_threads dp) p"
    and nid: "\<And>q. at_place numas1 q \<Longrightarrow> numa_id (numas1 ! fst q) = thread_numa dp (sp_pmd (pmd_at numas1 q))"
    and pins: "\<And>q. at_place numas1 q \<Longrightarrow> sp_rxqs (pmd_at numas1 q) =
       filter (\<lambda>r. pinned_to dp r = Some (sp_pmd (pmd_at numas1 q))) ?qs"
    and isol: "\<And>q. at_place numas1 q \<Longrightarrow> sp_isolated (pmd_at numas1 q) \<longleftrightarrow> \<not> free_thread dp (sp_pmd (pmd_at numas1 q))"
    and cyc: "\<And>q. at_place numas1 q \<Longrightarrow>
       pmd_proc_cycles (pmd_at numas1 q) = (\<Sum>r\<leftarrow>sp_rxqs (pmd_at numas1 q). rq_hist (rxqs ! r))"
    and m1: "mset (all_rxqs numas1) = mset (filter (\<lambda>r. pinned_to dp r \<noteq> None) ?qs)"
    and m2: "mset left = mset (filter (\<lambda>r. pinned_to dp r = None) ?qs)"
    and loop: "fold (assign_with (\<lambda>n. sched_pmd_next n algo) (dp_ports dp) rxqs) left (numas1, None) = (numas, lst)"
    by (rule schedule_phases [OF assms]) blast
  have lok: "lst_ok numas1 None" by (simp add: lst_ok_def)
  have all: "mset (all_rxqs numas1) + mset left = mset ?qs"
    unfolding m1 m2 by (simp add: multiset_partition [of "mset ?qs" "\<lambda>r. pinned_to dp r \<noteq> None", symmetric])
  have ext: "extended (dp_ports dp) rxqs left numas1 numas" and wf': "numas_wf numas"
    and sub: "mset (all_rxqs numas) \<subseteq># mset ?qs"
    using any.assign_loop [OF loop wf lok] all by simp_all
  have sk: "skel numas = skel numas1" using ext by (simp add: extended_def)
  note skp = skel_places [OF sk]
  have ptrs: "pmd_ptrs numas = pmd_ptrs numas1"
  proof -
    have "map (\<lambda>n. map sp_pmd (nm_pmds n)) ns = map (\<lambda>(_, _, ss). map fst ss) (skel ns)" for ns
      by (simp add: skel_def comp_def)
    then show ?thesis unfolding pmd_ptrs_concat by (metis sk)
  qed
  show "rxqs = store_hist algo ?qs (dp_rxqs dp)" by (rule rx)
  show "distinct (pmd_ptrs numas)" using d ptrs by simp
  show "p \<in> set (pmd_ptrs numas) \<longleftrightarrow> p < length (poll_threads dp) \<and> has_core (poll_threads dp) p"
    using ptr ptrs by simp
  show "sp_isolated (pmd_at numas q) \<longleftrightarrow> \<not> free_thread dp (sp_pmd (pmd_at numas q))" if "at_place numas q"
    using isol [of q] skp(1-3) [of q] that by simp
  show "mset (all_rxqs numas) \<subseteq># mset ?qs" by (rule sub)
  show "numas_wf numas" by (rule wf')
  show "numa_id (numas ! fst q) = thread_numa dp (sp_pmd (pmd_at numas q))" if "at_place numas q"
    using nid [of q] skp(1,2) [of q] skel_nth(2) [OF sk, of "fst q"] that by (simp add: at_place_def)
  show "right_thread dp r p" if assd: "assigned numas p r"
  proof -
    obtain q where q: "at_place numas1 q" "sp_pmd (pmd_at numas1 q) = p" "r \<in> set (sp_rxqs (pmd_at numas q))"
    proof -
      obtain q where q: "at_place numas q" "sp_pmd (pmd_at numas q) = p" "r \<in> set (sp_rxqs (pmd_at numas q))"
        using assd unfolding assigned_def by blast
      have "at_place numas1 q" using q(1) skp(1) [of q] by simp
      then show thesis using q(2,3) skp(2) [of q] by (intro that) simp_all
    qed
    obtain xs where xs: "sp_rxqs (pmd_at numas q) = sp_rxqs (pmd_at numas1 q) @ xs"
      "\<forall>r\<in>set xs. r \<in> set left \<and> good_place numas1 (rxq_numa (dp_ports dp) rxqs r) q"
      using ext q(1) unfolding extended_def by blast
    show ?thesis
    proof (cases "r \<in> set (sp_rxqs (pmd_at numas1 q))")
      case True
      then show ?thesis using pins [OF q(1)] q(2) by (simp add: right_thread_def)
    next
      case False
      then have r: "r \<in> set left" "good_place numas1 (rxq_numa (dp_ports dp) rxqs r) q"
        using q(3) xs by auto
      have un: "pinned_to dp r = None" "r \<in> set ?qs"
        using r(1) mset_eq_setD [OF m2] by auto
      have "r < length (dp_rxqs dp)" using un(2) assms(1) by (auto simp: sched_ok_def)
      then have "rxq_numa (dp_ports dp) rxqs r = port_numa_of dp r"
        by (simp add: rx rxq_numa_def port_numa_of_def store_hist_fields)
      with r(2) have "good_place numas1 (port_numa_of dp r) q" by simp
      from good_place_right [OF this un(1) nid [OF q(1)] isol [OF q(1)] available_free(1) [OF d ptr nid isol]]
      show ?thesis using q(2) by simp
    qed
  qed
  show "assigned numas p r" if "r \<in> set ?qs" "pinned_to dp r = Some p"
  proof -
    have "p < length (poll_threads dp) \<and> has_core (poll_threads dp) p"
      using that(2) get_pmd_result(1) [of "poll_threads dp" _ p]
      by (auto simp: pinned_to_def pin_target_def has_core_def split: option.splits)
    then obtain q where q: "at_place numas1 q" "sp_pmd (pmd_at numas1 q) = p"
      using ptr [of p] ptr_place by blast
    then have "r \<in> set (sp_rxqs (pmd_at numas1 q))" using pins [OF q(1)] that by simp
    moreover obtain xs where "sp_rxqs (pmd_at numas q) = sp_rxqs (pmd_at numas1 q) @ xs"
      using ext q(1) unfolding extended_def by blast
    ultimately have "at_place numas q \<and> sp_pmd (pmd_at numas q) = p \<and> r \<in> set (sp_rxqs (pmd_at numas q))"
      using q skp(1,2) [of q] by simp
    then show ?thesis unfolding assigned_def by blast
  qed
  show "mset (all_rxqs numas) = mset ?qs \<and> exact rxqs numas"
    if free: "\<exists>p. free_thread dp p" and bud: "budget rxqs ?qs"
  proof -
    have budget: "budget rxqs (all_rxqs numas1 @ left)" by (rule budget_phases [OF m1 m2 bud])
    have ex1: "exact rxqs numas1" by (rule exact_phases [OF cyc budget])
    have av: "\<exists>n\<in>set numas1. noniso n" using available_free(2) [OF d ptr nid isol] free by simp
    have "mset (all_rxqs numas) = mset (all_rxqs numas1) + mset left \<and> exact rxqs numas"
      by (rule any.assign_loop_all [OF loop wf lok av ex1 budget]) (rule exact_usable)
    then show ?thesis using all by simp
  qed
qed

end
