(* ===== verification/Dpif_Sched_Place.thy ===== *)
theory Dpif_Sched_Place
  imports Dpif_Sched_Result
begin

text \<open>
  Taking a schedule over into the datapath (\<open>sched_numa_list_put_in_place\<close>), and the scheduling
  step of \<open>reconfigure_datapath\<close> as a whole.
\<close>

section \<open>Putting lists in place\<close>

lemma put_rxqs_nth:
  "fold (\<lambda>r rxqs. rxqs[r := (rxqs ! r)\<lparr>rq_pmd := x\<rparr>]) rs rxqs ! i =
     (if i \<in> set rs \<and> i < length rxqs then (rxqs ! i)\<lparr>rq_pmd := x\<rparr> else rxqs ! i)"
proof (induction rs arbitrary: rxqs)
  case (Cons r rs)
  have twice: "q\<lparr>rq_pmd := x\<rparr>\<lparr>rq_pmd := x\<rparr> = (q\<lparr>rq_pmd := x\<rparr> :: dp_netdev_rxq)" for q by (cases q) simp
  show ?case
    by (cases "r = i"; cases "i < length rxqs") (simp_all add: Cons.IH twice list_update_beyond)
qed simp

lemma put_rxqs_length [simp]:
  "length (fold (\<lambda>r rxqs. rxqs[r := (rxqs ! r)\<lparr>rq_pmd := x\<rparr>]) rs rxqs) = length rxqs"
  by (induction rs arbitrary: rxqs) simp_all

lemma put_pmds_length [simp]:
  "length (dp_rxqs (fold put_pmd ss dp)) = length (dp_rxqs dp)"
  "length (poll_threads (fold put_pmd ss dp)) = length (poll_threads dp)"
  by (induction ss arbitrary: dp) (simp_all add: put_pmd_def)

lemma put_pmds_rest [simp]:
  "dp_ports (fold put_pmd ss dp) = dp_ports dp"
  "pmd_iso (fold put_pmd ss dp) = pmd_iso dp"
  "pmd_rxq_assign_type (fold put_pmd ss dp) = pmd_rxq_assign_type dp"
  "pmd_alb (fold put_pmd ss dp) = pmd_alb dp"
  by (induction ss arbitrary: dp) (simp_all add: put_pmd_def)

lemma put_pmd_rxq:
  "dp_rxqs (put_pmd t dp) ! i =
     (if i \<in> set (sp_rxqs t) \<and> i < length (dp_rxqs dp) then (dp_rxqs dp ! i)\<lparr>rq_pmd := Some (sp_pmd t)\<rparr>
      else dp_rxqs dp ! i)"
  "length (dp_rxqs (put_pmd t dp)) = length (dp_rxqs dp)"
  by (simp_all add: put_pmd_def put_rxqs_nth)

lemma put_pmd_thread:
  "p < length (poll_threads dp) \<Longrightarrow> poll_threads (put_pmd t dp) ! p =
     (if p = sp_pmd t then (poll_threads dp ! p)\<lparr>pmd_isolated := sp_isolated t\<rparr> else poll_threads dp ! p)"
  "length (poll_threads (put_pmd t dp)) = length (poll_threads dp)"
  by (simp_all add: put_pmd_def nth_list_update)

text \<open>What no list names stays; what one names is set from it.\<close>

lemma put_pmds_frame:
  "r \<notin> set (concat (map sp_rxqs ss)) \<Longrightarrow> dp_rxqs (fold put_pmd ss dp) ! r = dp_rxqs dp ! r"
  "p \<notin> sp_pmd ` set ss \<Longrightarrow> poll_threads (fold put_pmd ss dp) ! p = poll_threads dp ! p"
  by (induction ss arbitrary: dp) (auto simp: put_pmd_def put_rxqs_nth)

lemma put_pmds_rxq:
  assumes "s \<in> set ss" and "r \<in> set (sp_rxqs s)" and "distinct (concat (map sp_rxqs ss))"
    and "r < length (dp_rxqs dp)"
  shows "dp_rxqs (fold put_pmd ss dp) ! r = (dp_rxqs dp ! r)\<lparr>rq_pmd := Some (sp_pmd s)\<rparr>"
  using assms
proof (induction ss arbitrary: dp)
  case (Cons t ss)
  show ?case
  proof (cases "s = t")
    case True
    then have "r \<notin> set (concat (map sp_rxqs ss))" using Cons.prems(2,3) by auto
    then show ?thesis
      using put_pmds_frame(1) [of r ss "put_pmd t dp"] True Cons.prems(2,4) by (simp add: put_pmd_rxq)
  next
    case False
    then have "s \<in> set ss" "r \<notin> set (sp_rxqs t)" using Cons.prems(1-3) by auto
    then show ?thesis
      using Cons.IH [of "put_pmd t dp"] Cons.prems(2-4) by (simp add: put_pmd_rxq)
  qed
qed simp

lemma put_pmds_thread:
  assumes "s \<in> set ss" and "distinct (map sp_pmd ss)" and "sp_pmd s < length (poll_threads dp)"
  shows "poll_threads (fold put_pmd ss dp) ! sp_pmd s =
           (poll_threads dp ! sp_pmd s)\<lparr>pmd_isolated := sp_isolated s\<rparr>"
  using assms
proof (induction ss arbitrary: dp)
  case (Cons t ss)
  show ?case
  proof (cases "s = t")
    case True
    then show ?thesis
      using put_pmds_frame(2) [of "sp_pmd s" ss "put_pmd t dp"] Cons.prems(2,3) by (simp add: put_pmd_thread)
  next
    case False
    then have s: "s \<in> set ss" using Cons.prems(1) by simp
    then have "sp_pmd s \<in> sp_pmd ` set ss" by (rule imageI)
    then have "sp_pmd s \<noteq> sp_pmd t" using Cons.prems(2) by auto
    then show ?thesis
      using Cons.IH [of "put_pmd t dp"] s Cons.prems(2,3) by (simp add: put_pmd_thread)
  qed
qed simp

lemma all_pmds_place: "s \<in> set (all_pmds numas) \<longleftrightarrow> (\<exists>pos. at_place numas pos \<and> pmd_at numas pos = s)"
  by (fastforce simp: all_pmds_def at_place_def pmd_at_def in_set_conv_nth)

lemma assigned_pmds: "assigned numas p r \<longleftrightarrow> (\<exists>s\<in>set (all_pmds numas). sp_pmd s = p \<and> r \<in> set (sp_rxqs s))"
proof
  assume "assigned numas p r"
  then obtain q where q: "at_place numas q" "sp_pmd (pmd_at numas q) = p" "r \<in> set (sp_rxqs (pmd_at numas q))"
    unfolding assigned_def by blast
  then have "pmd_at numas q \<in> set (all_pmds numas)" using all_pmds_place [of "pmd_at numas q" numas] by blast
  then show "\<exists>s\<in>set (all_pmds numas). sp_pmd s = p \<and> r \<in> set (sp_rxqs s)" using q(2,3) by blast
next
  assume "\<exists>s\<in>set (all_pmds numas). sp_pmd s = p \<and> r \<in> set (sp_rxqs s)"
  then obtain s where s: "s \<in> set (all_pmds numas)" "sp_pmd s = p" "r \<in> set (sp_rxqs s)" by blast
  then obtain q where "at_place numas q" "pmd_at numas q = s" using all_pmds_place [of s numas] by blast
  then show "assigned numas p r" using s(2,3) unfolding assigned_def by blast
qed

lemma distinct_submset:
  assumes "mset xs \<subseteq># mset ys" and "distinct ys"
  shows "distinct xs"
proof -
  obtain d where d: "mset ys = mset xs + d" using assms(1) by (metis subset_mset.le_iff_add)
  obtain zs where "mset zs = d" using ex_mset by blast
  then have "mset ys = mset (xs @ zs)" using d by simp
  then have "distinct (xs @ zs)" using assms(2) mset_eq_imp_distinct_iff by blast
  then show ?thesis by simp
qed

section \<open>The scheduling step of a reconfiguration\<close>

lemma reset_facts [simp]:
  "dp_ports (reset_assignment dp) = dp_ports dp" "pmd_iso (reset_assignment dp) = pmd_iso dp"
  "pmd_rxq_assign_type (reset_assignment dp) = pmd_rxq_assign_type dp"
  "length (dp_rxqs (reset_assignment dp)) = length (dp_rxqs dp)"
  "length (poll_threads (reset_assignment dp)) = length (poll_threads dp)"
  by (simp_all add: reset_assignment_def)

lemma reset_rxq:
  assumes "r < length (dp_rxqs dp)"
  shows "dp_rxqs (reset_assignment dp) ! r =
    (if r \<in> set (concat (map port_rxqs (dp_ports dp))) then (dp_rxqs dp ! r)\<lparr>rq_pmd := None\<rparr> else dp_rxqs dp ! r)"
  using assms by (simp add: reset_assignment_def put_rxqs_nth)

lemma reset_thread:
  "p < length (poll_threads dp) \<Longrightarrow> poll_threads (reset_assignment dp) ! p = (poll_threads dp ! p)\<lparr>pmd_isolated := False\<rparr>"
  by (simp add: reset_assignment_def)

lemma polled_subset: "set (polled_rxqs ports) \<subseteq> set (concat (map port_rxqs ports))"
  by (auto simp: polled_rxqs_def)

lemma get_pmd_reset: "dp_netdev_get_pmd (poll_threads (reset_assignment dp)) core = dp_netdev_get_pmd (poll_threads dp) core"
proof -
  have "find_index_from k (\<lambda>t. pmd_core_id t = Some core) (map (pmd_isolated_update f) ts) =
      find_index_from k (\<lambda>t. pmd_core_id t = Some core) ts" for k f and ts :: "dp_netdev_pmd_thread list"
    by (induction ts arbitrary: k) simp_all
  then show ?thesis by (simp add: dp_netdev_get_pmd_def reset_assignment_def)
qed

lemma pinned_reset: "r < length (dp_rxqs dp) \<Longrightarrow> pinned_to (reset_assignment dp) r = pinned_to dp r"
  by (simp add: pinned_to_def pin_target_def reset_rxq get_pmd_reset split: option.splits)

lemma has_core_reset: "p < length (poll_threads dp) \<Longrightarrow> has_core (poll_threads (reset_assignment dp)) p = has_core (poll_threads dp) p"
  by (simp add: has_core_def reset_thread)

lemma free_reset: "sched_ok dp \<Longrightarrow> free_thread (reset_assignment dp) p = free_thread dp p"
proof -
  assume ok: "sched_ok dp"
  have "r \<in> set (polled_rxqs (dp_ports dp)) \<Longrightarrow> pinned_to (reset_assignment dp) r = pinned_to dp r" for r
    using ok pinned_reset [of r dp] by (auto simp: sched_ok_def)
  then show ?thesis by (auto simp: free_thread_def has_core_reset)
qed

lemma right_reset:
  assumes "sched_ok dp" and "r \<in> set (polled_rxqs (dp_ports dp))"
  shows "right_thread (reset_assignment dp) r p = right_thread dp r p"
proof -
  have r: "r < length (dp_rxqs dp)" using assms by (auto simp: sched_ok_def)
  have "thread_numa (reset_assignment dp) q = thread_numa dp q" if "free_thread dp q" for q
    using that by (simp add: free_thread_def reset_thread)
  moreover have "port_numa_of (reset_assignment dp) r = port_numa_of dp r"
    using r by (simp add: port_numa_of_def rxq_numa_def reset_rxq)
  ultimately show ?thesis
    by (auto simp: right_thread_def pinned_reset [OF r] free_reset [OF assms(1)] split: option.splits)
qed

text \<open>The budget of a datapath: the load of the queues that are polled fits a counter.\<close>

definition load_fits :: "dp_netdev \<Rightarrow> bool" where
  "load_fits dp \<longleftrightarrow> budget (dp_rxqs dp) (polled_rxqs (dp_ports dp))"

text \<open>The lists that a reconfiguration puts in place, and what of the datapath it changes.\<close>

lemma reconfigure_lists:
  assumes "sched_ok dp" and "dp' = reconfigure_scheduling pos dp"
  obtains rxqs numas where
    "sched_numa_list_schedule (sched_numa_list_populate pos (poll_threads (reset_assignment dp)))
       (reset_assignment dp) (pmd_rxq_assign_type dp) = (rxqs, numas)"
    "length (dp_rxqs dp') = length (dp_rxqs dp)" "dp_ports dp' = dp_ports dp"
    "distinct (all_rxqs numas)"
    "\<And>r. r < length (dp_rxqs dp) \<Longrightarrow> \<exists>x. dp_rxqs dp' ! r = (rxqs ! r)\<lparr>rq_pmd := x\<rparr>"
    "\<And>r p. r \<in> set (polled_rxqs (dp_ports dp)) \<Longrightarrow> rq_pmd (dp_rxqs dp' ! r) = Some p \<longleftrightarrow> assigned numas p r"
    "\<And>q. at_place numas q \<Longrightarrow> sp_pmd (pmd_at numas q) < length (poll_threads dp) \<Longrightarrow>
       pmd_isolated (poll_threads dp' ! sp_pmd (pmd_at numas q)) = sp_isolated (pmd_at numas q)"
proof -
  let ?qs = "polled_rxqs (dp_ports dp)" and ?algo = "pmd_rxq_assign_type dp"
  define dp0 where "dp0 = reset_assignment dp"
  have ok0: "sched_ok dp0" using assms(1) by (simp add: dp0_def sched_ok_def)
  obtain rxqs numas where st:
    "sched_numa_list_schedule (sched_numa_list_populate pos (poll_threads dp0)) dp0 ?algo = (rxqs, numas)"
    by (cases "sched_numa_list_schedule (sched_numa_list_populate pos (poll_threads dp0)) dp0 ?algo")
  note res = schedule_result [OF ok0 st]
  have dp'_eq: "dp' = fold put_pmd (all_pmds numas) (dp0\<lparr>dp_rxqs := rxqs\<rparr>)"
    using st assms(2)
    by (simp add: reconfigure_scheduling_def rxq_scheduling_def sched_numa_list_put_in_place_def dp0_def)
  have rx: "rxqs = store_hist ?algo ?qs (dp_rxqs dp0)" using res(1) by (simp add: dp0_def)
  have len: "length rxqs = length (dp_rxqs dp)" by (simp add: rx dp0_def)
  have range: "r < length (dp_rxqs dp)" if "r \<in> set ?qs" for r using that assms(1) by (auto simp: sched_ok_def)
  have sub: "mset (all_rxqs numas) \<subseteq># mset ?qs" using res(5) by (simp add: dp0_def)
  then have set_sub: "set (all_rxqs numas) \<subseteq> set ?qs" by (metis set_mset_mono set_mset_mset)
  have dist: "distinct (all_rxqs numas)"
    using sub assms(1) by (auto simp: sched_ok_def intro: distinct_submset)
  then have dist': "distinct (concat (map sp_rxqs (all_pmds numas)))" by (simp add: all_rxqs_def)
  have yes: "dp_rxqs dp' ! r = (rxqs ! r)\<lparr>rq_pmd := Some p\<rparr>" if asg: "assigned numas p r" for p r
  proof -
    obtain s where s: "s \<in> set (all_pmds numas)" "sp_pmd s = p" "r \<in> set (sp_rxqs s)"
      using asg unfolding assigned_pmds by blast
    have "r \<in> set ?qs" using asg set_sub assigned_all [of r numas] by blast
    then show ?thesis
      using put_pmds_rxq [OF s(1,3) dist', of "dp0\<lparr>dp_rxqs := rxqs\<rparr>"] s(2) range len by (simp add: dp'_eq)
  qed
  have no: "dp_rxqs dp' ! r = rxqs ! r" if "\<not> (\<exists>p. assigned numas p r)" for r
    using put_pmds_frame(1) [of r "all_pmds numas" "dp0\<lparr>dp_rxqs := rxqs\<rparr>"] that assigned_all [of r numas]
    by (simp add: dp'_eq all_rxqs_def)
  have none: "rq_pmd (rxqs ! r) = None" if "r \<in> set ?qs" for r
    using that range [OF that] polled_subset [of "dp_ports dp"] by (auto simp: rx store_hist_fields dp0_def reset_rxq)
  show thesis
  proof (rule that [OF st [unfolded dp0_def]])
    show "length (dp_rxqs dp') = length (dp_rxqs dp)" by (simp add: dp'_eq len)
    show "dp_ports dp' = dp_ports dp" by (simp add: dp'_eq dp0_def)
    show "distinct (all_rxqs numas)" by (rule dist)
    show "\<exists>x. dp_rxqs dp' ! r = (rxqs ! r)\<lparr>rq_pmd := x\<rparr>" if "r < length (dp_rxqs dp)" for r
    proof (cases "\<exists>q. assigned numas q r")
      case False
      then have "dp_rxqs dp' ! r = (rxqs ! r)\<lparr>rq_pmd := rq_pmd (rxqs ! r)\<rparr>" using no [OF False] by simp
      then show ?thesis by blast
    qed (use yes in blast)
    show "rq_pmd (dp_rxqs dp' ! r) = Some p \<longleftrightarrow> assigned numas p r" if "r \<in> set ?qs" for r p
    proof (cases "\<exists>q. assigned numas q r")
      case True
      then obtain q where q: "assigned numas q r" by blast
      show ?thesis
      proof
        assume "rq_pmd (dp_rxqs dp' ! r) = Some p"
        then show "assigned numas p r" using yes [OF q] q by simp
      next
        assume "assigned numas p r"
        then show "rq_pmd (dp_rxqs dp' ! r) = Some p" using yes by simp
      qed
    next
      case False
      then show ?thesis using no [OF False] none [OF that] by auto
    qed
    show "pmd_isolated (poll_threads dp' ! sp_pmd (pmd_at numas q)) = sp_isolated (pmd_at numas q)"
      if q: "at_place numas q" "sp_pmd (pmd_at numas q) < length (poll_threads dp)" for q
    proof -
      have "pmd_at numas q \<in> set (all_pmds numas)" using all_pmds_place [of "pmd_at numas q" numas] q by blast
      from put_pmds_thread [OF this, of "dp0\<lparr>dp_rxqs := rxqs\<rparr>"] show ?thesis
        using q(2) res(2) by (simp add: dp'_eq dp0_def pmd_ptrs_def)
    qed
  qed
qed

lemma reconfigure_result:
  assumes "sched_ok dp" and "dp' = reconfigure_scheduling pos dp"
  shows "r \<in> set (polled_rxqs (dp_ports dp)) \<Longrightarrow> rq_pmd (dp_rxqs dp' ! r) = Some p \<Longrightarrow> right_thread dp r p"
    and "r \<in> set (polled_rxqs (dp_ports dp)) \<Longrightarrow> pinned_to dp r = Some p \<Longrightarrow> rq_pmd (dp_rxqs dp' ! r) = Some p"
    and "r \<in> set (polled_rxqs (dp_ports dp)) \<Longrightarrow> \<exists>p. free_thread dp p \<Longrightarrow> load_fits dp' \<Longrightarrow>
           rq_pmd (dp_rxqs dp' ! r) \<noteq> None"
    and "p < length (poll_threads dp) \<Longrightarrow> has_core (poll_threads dp) p \<Longrightarrow>
           pmd_isolated (poll_threads dp' ! p) \<longleftrightarrow> \<not> free_thread dp p"
proof -
  let ?qs = "polled_rxqs (dp_ports dp)" and ?dp0 = "reset_assignment dp"
  obtain rxqs numas where
    st: "sched_numa_list_schedule (sched_numa_list_populate pos (poll_threads ?dp0)) ?dp0
           (pmd_rxq_assign_type dp) = (rxqs, numas)"
    and ports: "dp_ports dp' = dp_ports dp"
    and upd: "\<And>r. r < length (dp_rxqs dp) \<Longrightarrow> \<exists>x. dp_rxqs dp' ! r = (rxqs ! r)\<lparr>rq_pmd := x\<rparr>"
    and pmd: "\<And>r p. r \<in> set ?qs \<Longrightarrow> rq_pmd (dp_rxqs dp' ! r) = Some p \<longleftrightarrow> assigned numas p r"
    and iso_eq: "\<And>q. at_place numas q \<Longrightarrow> sp_pmd (pmd_at numas q) < length (poll_threads dp) \<Longrightarrow>
       pmd_isolated (poll_threads dp' ! sp_pmd (pmd_at numas q)) = sp_isolated (pmd_at numas q)"
    by (rule reconfigure_lists [OF assms]) blast
  have ok0: "sched_ok ?dp0" using assms(1) by (simp add: sched_ok_def)
  note res = schedule_result [OF ok0 st, unfolded reset_facts]
  have range: "r < length (dp_rxqs dp)" if "r \<in> set ?qs" for r using that assms(1) by (auto simp: sched_ok_def)
  show "right_thread dp r p" if "r \<in> set ?qs" "rq_pmd (dp_rxqs dp' ! r) = Some p"
    using res(6) [of p r] pmd that right_reset [OF assms(1) that(1)] by simp
  show "rq_pmd (dp_rxqs dp' ! r) = Some p" if "r \<in> set ?qs" "pinned_to dp r = Some p"
    using res(7) [of r p] that pmd pinned_reset [OF range [OF that(1)]] by simp
  show "rq_pmd (dp_rxqs dp' ! r) \<noteq> None" if "r \<in> set ?qs" "\<exists>p. free_thread dp p" "load_fits dp'"
  proof -
    have hist: "rq_hist (dp_rxqs dp' ! x) = rq_hist (rxqs ! x)" if "x \<in> set ?qs" for x
      using upd [OF range [OF that]] by auto
    have "map (rxq_cost rxqs) ?qs = map (rxq_cost (dp_rxqs dp')) ?qs"
      by (intro map_cong) (simp_all add: rxq_cost_def hist)
    then have "budget rxqs ?qs = budget (dp_rxqs dp') ?qs" unfolding budget_def by (rule arg_cong)
    then have "mset (all_rxqs numas) = mset ?qs"
      using res(8) that(2,3) free_reset [OF assms(1)] ports by (simp add: load_fits_def)
    then have "r \<in> set (all_rxqs numas)" using that(1) by (metis set_mset_mset)
    then obtain p where "assigned numas p r" using assigned_all by blast
    then have "rq_pmd (dp_rxqs dp' ! r) = Some p" using pmd [OF that(1)] by simp
    then show ?thesis by simp
  qed
  show "pmd_isolated (poll_threads dp' ! p) \<longleftrightarrow> \<not> free_thread dp p"
    if "p < length (poll_threads dp)" "has_core (poll_threads dp) p"
  proof -
    have "p \<in> set (pmd_ptrs numas)" using res(3) that by (simp add: has_core_reset)
    then obtain q where q: "at_place numas q" "sp_pmd (pmd_at numas q) = p"
      using ptr_place [of p numas] by blast
    then show ?thesis using iso_eq [OF q(1)] res(4) [OF q(1)] that(1) free_reset [OF assms(1)] by simp
  qed
qed

end
