(* ===== verification/Dpif_Sched_Balance.thy ===== *)
theory Dpif_Sched_Balance
  imports Dpif_Sched_Place
begin

text \<open>
  How evenly the algorithms spread the queues over the threads of a node: an interface for
  selections that keep a measure of balance, and the measures of the round robin algorithms
  (numbers of queues) and of the group algorithm (cycles).
\<close>

section \<open>Selections that keep a balance\<close>

definition place_in :: "sched_numa \<Rightarrow> nat \<Rightarrow> nat \<Rightarrow> u64 \<Rightarrow> sched_numa \<Rightarrow> sched_numa" where
  "place_in n j r c m = m\<lparr>nm_pmds := (nm_pmds m)[j := sched_pmd_add_rxq r c (nm_pmds n ! j)]\<rparr>"

locale balanced_selection = pmd_selection +
  fixes balanced :: "sched_numa \<Rightarrow> bool" and fits :: "sched_pmd \<Rightarrow> nat \<Rightarrow> u64 \<Rightarrow> bool"
  assumes balanced_step: "numa_wf n \<Longrightarrow> balanced n \<Longrightarrow> pick n (c \<noteq> 0) = (Some j, m) \<Longrightarrow>
            fits (nm_pmds n ! j) r c \<Longrightarrow> balanced (place_in n j r c m)"
    and balanced_idle: "\<not> noniso n \<Longrightarrow> balanced n"
begin

text \<open>\<open>J\<close> says what the lists and the queues that are left have to satisfy for \<open>fits\<close> and \<open>usable\<close>.\<close>

lemma balanced_loop:
  assumes "fold (assign_with pick ports rxqs) rs (numas, lst) = (numas', lst')"
    and "numas_wf numas" and "lst_ok numas lst" and "\<forall>n\<in>set numas. balanced n" and "J numas rs"
    and keep: "\<And>ns r rs pos ns'. J ns (r # rs) \<Longrightarrow> at_place ns pos \<Longrightarrow> skel ns' = skel ns \<Longrightarrow>
          map nm_pmds ns' = placed ns r (rq_hist (rxqs ! r)) pos \<Longrightarrow> J ns' rs"
    and fit: "\<And>ns r rs pos. J ns (r # rs) \<Longrightarrow> at_place ns pos \<Longrightarrow> fits (pmd_at ns pos) r (rq_hist (rxqs ! r))"
    and use: "\<And>ns r rs n b. J ns (r # rs) \<Longrightarrow> n \<in> set ns \<Longrightarrow> noniso n \<Longrightarrow> usable n b"
  shows "\<forall>n\<in>set numas'. balanced n"
  using assms(1-5)
proof (induction rs arbitrary: numas lst)
  case Nil
  then show ?case by simp
next
  case (Cons r rs)
  obtain ns l where st: "assign_with pick ports rxqs r (numas, lst) = (ns, l)"
    by (cases "assign_with pick ports rxqs r (numas, lst)")
  note step = assign_step [OF Cons.prems(2,3) st]
  then have wf: "numas_wf ns" "lst_ok ns l" and sk: "skel ns = skel numas" by blast+
  have rest: "fold (assign_with pick ports rxqs) rs (ns, l) = (numas', lst')" using Cons.prems(1) st by simp
  have ext: "skel numas' = skel numas"
    using assign_loop [OF Cons.prems(1-3)] by (simp add: extended_def)
  have idle: "\<forall>n\<in>set numas'. balanced n" if "\<forall>n\<in>set numas. \<not> noniso n"
  proof -
    have "noniso (numas' ! i) = noniso (numas ! i)" if "i < length numas" for i
    proof -
      have "noniso x \<longleftrightarrow> False \<in> set (map sp_isolated (nm_pmds x))" for x
        by (force simp: noniso_def)
      moreover have "map sp_isolated (nm_pmds (numas' ! i)) = map sp_isolated (nm_pmds (numas ! i))"
        using arg_cong [OF skel_nth(3) [OF ext that], of "map snd"] by (simp add: comp_def)
      ultimately show ?thesis by presburger
    qed
    then have "\<forall>n\<in>set numas'. \<not> noniso n" using that skel_nth(1) [OF ext] by (metis in_set_conv_nth)
    then show ?thesis using balanced_idle by blast
  qed
  show ?case
  proof (cases "\<forall>n\<in>set numas. \<not> noniso n")
    case True
    then show ?thesis by (rule idle)
  next
    case False
    then have "noniso n \<Longrightarrow> n \<in> set numas \<Longrightarrow> usable n b" for n b
      using use [OF Cons.prems(5)] by blast
    with step False obtain pos m where pos: "good_place numas (rxq_numa ports rxqs r) pos"
      "map nm_pmds ns = placed numas r (rq_hist (rxqs ! r)) pos"
      "pick (numas ! fst pos) (rq_hist (rxqs ! r) \<noteq> 0) = (Some (snd pos), m)"
      "ns = numas[fst pos := m\<lparr>nm_pmds := (nm_pmds m)[snd pos :=
         sched_pmd_add_rxq r (rq_hist (rxqs ! r)) (pmd_at numas pos)]\<rparr>]"
      unfolding rxq_numa_def by (elim conjE disjE exE) (blast, blast, metis prod.collapse)
    have pl: "at_place numas pos" using pos(1) by (simp add: good_place_def)
    then have i: "fst pos < length numas" by (simp add: at_place_def)
    have "balanced (place_in (numas ! fst pos) (snd pos) r (rq_hist (rxqs ! r)) m)"
    proof (rule balanced_step [OF _ _ pos(3)])
      show "numa_wf (numas ! fst pos)" using Cons.prems(2) i by (simp add: numas_wf_def)
      show "balanced (numas ! fst pos)" using Cons.prems(4) i by simp
      show "fits (nm_pmds (numas ! fst pos) ! snd pos) r (rq_hist (rxqs ! r))"
        using fit [OF Cons.prems(5) pl] by (simp add: pmd_at_def)
    qed
    then have "\<forall>n\<in>set ns. balanced n"
      using Cons.prems(4) set_update_subset_insert [of numas "fst pos"]
      unfolding pos(4) place_in_def pmd_at_def by blast
    moreover have "J ns rs" by (rule keep [OF Cons.prems(5) pl sk pos(2)])
    ultimately show ?thesis using Cons.IH [OF rest wf] by blast
  qed
qed

end

section \<open>Round robin: numbers of queues\<close>

text \<open>
  The walk has visited the threads behind it once more than the others; the queues counted are
  those that satisfy \<open>P\<close>, which all that are placed do.
\<close>

definition rr_even :: "(nat \<Rightarrow> nat) \<Rightarrow> sched_numa \<Rightarrow> bool" where
  "rr_even cnt n \<longleftrightarrow> (\<exists>q. \<forall>j<length (nm_pmds n). \<not> sp_isolated (nm_pmds n ! j) \<longrightarrow>
     cnt j = q + (if (if rr_idx_inc n then j < rr_cur_index n else rr_cur_index n < j) then 1 else 0))"

definition queues_of :: "(nat \<Rightarrow> bool) \<Rightarrow> sched_pmd \<Rightarrow> nat" where
  "queues_of P s = length (filter P (sp_rxqs s))"

definition rr_balanced :: "(nat \<Rightarrow> bool) \<Rightarrow> sched_numa \<Rightarrow> bool" where
  "rr_balanced P n \<longleftrightarrow> rr_even (\<lambda>j. queues_of P (nm_pmds n ! j)) n"

lemma next_rr_even:
  assumes "numa_wf n" and "rr_even cnt n" and "sched_pmd_next_rr n updown = (k, m)" and "updown \<or> rr_idx_inc n"
  shows "rr_even (cnt(k := cnt k + 1)) m" and "updown \<or> rr_idx_inc m"
proof -
  show "updown \<or> rr_idx_inc m" using assms(3,4) by (auto simp: sched_pmd_next_rr_def split: if_splits)
  obtain q where q: "\<forall>j<length (nm_pmds n). \<not> sp_isolated (nm_pmds n ! j) \<longrightarrow>
     cnt j = q + (if (if rr_idx_inc n then j < rr_cur_index n else rr_cur_index n < j) then 1 else 0)"
    using assms(2) by (auto simp: rr_even_def)
  have c: "rr_cur_index n < length (nm_pmds n)" using assms(1) by (simp add: numa_wf_def)
  define wrap where "wrap = (if rr_idx_inc n then rr_cur_index n = length (nm_pmds n) - 1 else rr_cur_index n = 0)"
  have k: "k = rr_cur_index n" "nm_pmds m = nm_pmds n" using next_rr_frame [OF assms(3)] by simp_all
  have "(cnt(k := cnt k + 1)) j = (if wrap then q + 1 else q) +
      (if (if rr_idx_inc m then j < rr_cur_index m else rr_cur_index m < j) then 1 else 0)"
    if j: "j < length (nm_pmds n)" "\<not> sp_isolated (nm_pmds n ! j)" for j
  proof -
    have j_q: "cnt j = q + (if (if rr_idx_inc n then j < rr_cur_index n else rr_cur_index n < j) then 1 else 0)"
      using q j by blast
    note nxt = assms(3) [unfolded k(1) sched_pmd_next_rr_def prod.inject, THEN conjunct2]
    show ?thesis
    proof (cases "rr_idx_inc n")
      case True
      then show ?thesis
        using j_q j(1) c nxt unfolding k(1) wrap_def by (cases "j = rr_cur_index n") (auto split: if_splits)
    next
      case False
      then show ?thesis
        using j_q j(1) c nxt unfolding k(1) wrap_def by (cases "j = rr_cur_index n") (auto split: if_splits)
    qed
  qed
  then have "\<forall>j<length (nm_pmds m). \<not> sp_isolated (nm_pmds m ! j) \<longrightarrow> (cnt(k := cnt k + 1)) j =
      (if wrap then q + 1 else q) +
      (if (if rr_idx_inc m then j < rr_cur_index m else rr_cur_index m < j) then 1 else 0)"
    by (simp add: k(2))
  then show "rr_even (cnt(k := cnt k + 1)) m" unfolding rr_even_def by blast
qed

lemma rr_even_cong:
  "(\<And>j. j < length (nm_pmds n) \<Longrightarrow> \<not> sp_isolated (nm_pmds n ! j) \<Longrightarrow> cnt j = cnt' j) \<Longrightarrow>
     rr_even cnt n \<longleftrightarrow> rr_even cnt' n"
  by (auto simp: rr_even_def)

lemma noniso_loop_even:
  assumes "noniso_loop f n updown = (Some j, m)" and "numa_wf n" and "rr_even cnt n" and "updown \<or> rr_idx_inc n"
  shows "rr_even (cnt(j := cnt j + 1)) m \<and> (updown \<or> rr_idx_inc m)"
  using assms
proof (induction f n updown rule: noniso_loop.induct)
  case (2 f n updown)
  obtain i n' where s: "sched_pmd_next_rr n updown = (i, n')" by (cases "sched_pmd_next_rr n updown")
  note fr = next_rr_frame [OF s] and wf = next_rr_wf [OF 2(3) s] and ev = next_rr_even [OF 2(3,4) s 2(5)]
  show ?case
  proof (cases "sp_isolated (nm_pmds n ! i)")
    case True
    then have "rr_even cnt n'" using fr by (intro iffD1 [OF rr_even_cong ev(1)]) auto
    then show ?thesis using 2(1) [OF s [symmetric]] True 2(2) wf ev(2) by (simp add: s)
  next
    case False
    then have "i = j" "n' = m" using 2(2) by (simp_all add: s)
    then show ?thesis using ev by (simp del: fun_upd_apply)
  qed
qed simp

lemma rr_even_nodes:
  assumes "nm_pmds m = nm_pmds n" and "j < length (nm_pmds n)"
  shows "rr_even cnt (place_in n j r c m) = rr_even cnt m"
proof -
  let ?m = "place_in n j r c m"
  have "sp_isolated (nm_pmds ?m ! i) = sp_isolated (nm_pmds m ! i)" for i
    using assms by (cases "i = j") (simp_all add: place_in_def sched_pmd_add_rxq_def)
  moreover have "length (nm_pmds ?m) = length (nm_pmds m)" "rr_idx_inc ?m = rr_idx_inc m"
    "rr_cur_index ?m = rr_cur_index m"
    by (simp_all add: place_in_def)
  ultimately show ?thesis unfolding rr_even_def by simp
qed

definition rr_ready :: "(nat \<Rightarrow> bool) \<Rightarrow> bool \<Rightarrow> sched_numa \<Rightarrow> bool" where
  "rr_ready P updown n \<longleftrightarrow> noniso n \<longrightarrow> rr_balanced P n \<and> (updown \<or> rr_idx_inc n)"

lemma rr_balanced_step:
  assumes "algo \<noteq> SCHED_GROUP" and "numa_wf n" and "rr_ready P (algo = SCHED_CYCLES) n"
    and "sched_pmd_next n algo b = (Some j, m)" and "P r"
  shows "rr_ready P (algo = SCHED_CYCLES) (place_in n j r c m)"
proof -
  have lp: "noniso_loop (length (nm_pmds n) * 2) n (algo = SCHED_CYCLES) = (Some j, m)"
    using assms(1,4) by (simp add: sched_pmd_next_def sched_pmd_next_noniso_rr_def)
  have fr: "nm_pmds m = nm_pmds n" "j < length (nm_pmds n)" "\<not> sp_isolated (nm_pmds n ! j)"
    using noniso_loop_result [OF lp assms(2)] by auto
  then have "noniso n" by (auto simp: noniso_def)
  then have "rr_even (\<lambda>j. queues_of P (nm_pmds n ! j)) n" "algo = SCHED_CYCLES \<or> rr_idx_inc n"
    using assms(3) by (simp_all add: rr_ready_def rr_balanced_def)
  note ev = noniso_loop_even [OF lp assms(2) this]
  have "(\<lambda>i. queues_of P (nm_pmds (place_in n j r c m) ! i)) =
      (\<lambda>i. queues_of P (nm_pmds n ! i))(j := queues_of P (nm_pmds n ! j) + 1)"
    using fr(1,2) assms(5) by (intro ext) (simp add: place_in_def nth_list_update sched_pmd_add_rxq_def queues_of_def)
  then have "rr_balanced P (place_in n j r c m)"
    using ev rr_even_nodes [OF fr(1,2)] by (simp add: rr_balanced_def)
  then show ?thesis using ev by (simp add: rr_ready_def place_in_def)
qed

interpretation rr_fair: balanced_selection "\<lambda>n. sched_pmd_next n SCHED_ROUNDROBIN" "\<lambda>_ _. True"
    "rr_ready P False" "\<lambda>s r c. P r" for P
proof unfold_locales
  show "rr_ready P False (place_in n j r c m)"
    if "numa_wf n" "rr_ready P False n" "sched_pmd_next n SCHED_ROUNDROBIN (c \<noteq> 0) = (Some j, m)" "P r" for n c j m r
    using rr_balanced_step [of SCHED_ROUNDROBIN n P] that by simp
qed (simp add: rr_ready_def)

interpretation cycles_fair: balanced_selection "\<lambda>n. sched_pmd_next n SCHED_CYCLES" "\<lambda>_ _. True"
    "rr_ready P True" "\<lambda>s r c. P r" for P
proof unfold_locales
  show "rr_ready P True (place_in n j r c m)"
    if "numa_wf n" "rr_ready P True n" "sched_pmd_next n SCHED_CYCLES (c \<noteq> 0) = (Some j, m)" "P r" for n c j m r
    using rr_balanced_step [of SCHED_CYCLES n P] that by simp
qed (simp add: rr_ready_def)

section \<open>Group: cycles\<close>

text \<open>
  A thread that has got a busy queue of those that satisfy \<open>P\<close> is at most \<open>h\<close> above any other
  thread of its node.
\<close>

definition load_balanced :: "(nat \<Rightarrow> bool) \<Rightarrow> nat \<Rightarrow> sched_numa \<Rightarrow> bool" where
  "load_balanced P h n \<longleftrightarrow> (\<forall>s\<in>set (nm_pmds n). \<forall>t\<in>set (nm_pmds n).
     \<not> sp_isolated s \<longrightarrow> \<not> sp_isolated t \<longrightarrow> (\<exists>r\<in>set (sp_rxqs s). P r) \<longrightarrow>
     unat (pmd_proc_cycles s) \<le> unat (pmd_proc_cycles t) + h)"

definition load_fits_in :: "(nat \<Rightarrow> bool) \<Rightarrow> nat \<Rightarrow> sched_pmd \<Rightarrow> nat \<Rightarrow> u64 \<Rightarrow> bool" where
  "load_fits_in P h s r c \<longleftrightarrow>
     unat (pmd_proc_cycles s) + unat c < 2 ^ 64 \<and> unat c \<le> h \<and> (c = 0 \<longrightarrow> \<not> P r)"

lemma group_balanced_step:
  assumes "load_balanced P h n" and "sched_pmd_next n SCHED_GROUP (c \<noteq> 0) = (Some j, m)"
    and "load_fits_in P h (nm_pmds n ! j) r c"
  shows "load_balanced P h (place_in n j r c m)"
proof -
  have sel: "sched_pmd_get_lowest n (c \<noteq> 0) = Some j" "m = n"
    using assms(2) by (auto simp: sched_pmd_next_def)
  note low = get_lowest_some [OF sel(1)]
  let ?s = "sched_pmd_add_rxq r c (nm_pmds n ! j)"
  have load: "unat (pmd_proc_cycles ?s) = unat (pmd_proc_cycles (nm_pmds n ! j)) + unat c"
    using assms(3) by (simp add: load_fits_in_def sched_pmd_add_rxq_def unat_add_lem [THEN iffD1])
  have set: "set (nm_pmds (place_in n j r c m)) \<subseteq> insert ?s (set (nm_pmds n))"
    unfolding place_in_def sel(2) using set_update_subset_insert [of "nm_pmds n" j ?s] by simp
  have old: "unat (pmd_proc_cycles s) \<le> unat (pmd_proc_cycles t) + h"
    if "s \<in> set (nm_pmds n)" "t \<in> set (nm_pmds n)" "\<not> sp_isolated s" "\<not> sp_isolated t" "\<exists>r\<in>set (sp_rxqs s). P r"
    for s t using assms(1) that unfolding load_balanced_def by blast
  have in_j: "nm_pmds n ! j \<in> set (nm_pmds n)" "\<not> sp_isolated (nm_pmds n ! j)" using low by simp_all
  have new: "unat (pmd_proc_cycles ?s) \<le> unat (pmd_proc_cycles t) + h"
    if t: "t \<in> set (nm_pmds n)" "\<not> sp_isolated t" and ex: "\<exists>r\<in>set (sp_rxqs ?s). P r" for t
  proof (cases "c = 0")
    case True
    then have "\<exists>r\<in>set (sp_rxqs (nm_pmds n ! j)). P r"
      using ex assms(3) by (auto simp: load_fits_in_def sched_pmd_add_rxq_def)
    then show ?thesis using old [OF in_j(1) t(1) in_j(2) t(2)] load True by simp
  next
    case False
    then have "pmd_proc_cycles (nm_pmds n ! j) \<le> pmd_proc_cycles t"
      using low t by (simp add: sched_load_def)
    then show ?thesis using load assms(3) by (simp add: load_fits_in_def word_le_nat_alt)
  qed
  show ?thesis
    unfolding load_balanced_def
  proof (intro ballI impI)
    fix s t
    assume st: "s \<in> set (nm_pmds (place_in n j r c m))" "t \<in> set (nm_pmds (place_in n j r c m))"
      "\<not> sp_isolated s" "\<not> sp_isolated t" "\<exists>r\<in>set (sp_rxqs s). P r"
    consider "s = ?s" "t = ?s" | "s = ?s" "t \<in> set (nm_pmds n)" | "s \<in> set (nm_pmds n)" "t = ?s"
      | "s \<in> set (nm_pmds n)" "t \<in> set (nm_pmds n)" using st(1,2) set by blast
    then show "unat (pmd_proc_cycles s) \<le> unat (pmd_proc_cycles t) + h"
    proof cases
      case 1
      then show ?thesis by simp
    next
      case 2
      then show ?thesis using new st by blast
    next
      case 3
      then show ?thesis using old [OF 3(1) in_j(1) st(3) in_j(2) st(5)] load by simp
    next
      case 4
      then show ?thesis using old st by blast
    qed
  qed
qed

interpretation group_fair: balanced_selection "\<lambda>n. sched_pmd_next n SCHED_GROUP" lowest_usable
    "load_balanced P h" "load_fits_in P h" for P h
  using group_balanced_step by unfold_locales (auto simp: load_balanced_def noniso_def)

section \<open>The whole schedule\<close>

definition unpinned :: "dp_netdev \<Rightarrow> nat \<Rightarrow> bool" where
  "unpinned dp r \<longleftrightarrow> pinned_to dp r = None"

lemma schedule_rr_ready:
  assumes "sched_ok dp" and "algo \<noteq> SCHED_GROUP"
    and "sched_numa_list_schedule (sched_numa_list_populate pos (poll_threads dp)) dp algo = (rxqs, numas)"
  shows "\<forall>n\<in>set numas. rr_ready (unpinned dp) (algo = SCHED_CYCLES) n"
proof -
  let ?qs = "polled_rxqs (dp_ports dp)"
  obtain numas1 left lst where wf: "numas_wf numas1"
    and rr: "\<And>n. n \<in> set numas1 \<Longrightarrow> rr_cur_index n = 0 \<and> rr_idx_inc n"
    and pins: "\<And>q. at_place numas1 q \<Longrightarrow> sp_rxqs (pmd_at numas1 q) =
       filter (\<lambda>r. pinned_to dp r = Some (sp_pmd (pmd_at numas1 q))) ?qs"
    and m: "mset left = mset (filter (\<lambda>r. pinned_to dp r = None) ?qs)"
    and loop: "fold (assign_with (\<lambda>n. sched_pmd_next n algo) (dp_ports dp) rxqs) left (numas1, None) = (numas, lst)"
    by (rule schedule_phases [OF assms(1,3)]) blast
  have lok: "lst_ok numas1 None" by (simp add: lst_ok_def)
  have left: "\<forall>r\<in>set left. unpinned dp r" using mset_eq_setD [OF m] by (auto simp: unpinned_def)
  have start: "\<forall>n\<in>set numas1. rr_ready (unpinned dp) u n" for u
  proof
    fix n assume n: "n \<in> set numas1"
    then obtain i where i: "i < length numas1" "n = numas1 ! i" by (auto simp: in_set_conv_nth)
    have "queues_of (unpinned dp) (nm_pmds n ! j) = 0" if "j < length (nm_pmds n)" for j
      using pins [of "(i, j)"] that i by (auto simp: at_place_def pmd_at_def queues_of_def unpinned_def filter_empty_conv)
    then show "rr_ready (unpinned dp) u n" using rr [OF n] by (auto simp: rr_ready_def rr_balanced_def rr_even_def intro: exI [of _ 0])
  qed
  have "algo = SCHED_ROUNDROBIN \<or> algo = SCHED_CYCLES" using assms(2) by (cases algo) simp_all
  then show ?thesis
  proof
    assume a: "algo = SCHED_ROUNDROBIN"
    have "\<forall>n\<in>set numas. rr_ready (unpinned dp) False n"
      by (rule rr_fair.balanced_loop [OF loop [unfolded a] wf lok start,
            where J = "\<lambda>_ rs. \<forall>r\<in>set rs. unpinned dp r"]) (use left in simp_all)
    then show ?thesis by (simp add: a)
  next
    assume a: "algo = SCHED_CYCLES"
    have "\<forall>n\<in>set numas. rr_ready (unpinned dp) True n"
      by (rule cycles_fair.balanced_loop [OF loop [unfolded a] wf lok start,
            where J = "\<lambda>_ rs. \<forall>r\<in>set rs. unpinned dp r"]) (use left in simp_all)
    then show ?thesis by (simp add: a)
  qed
qed

definition busy_unpinned :: "dp_netdev \<Rightarrow> dp_netdev_rxq list \<Rightarrow> nat \<Rightarrow> bool" where
  "busy_unpinned dp rxqs r \<longleftrightarrow> unpinned dp r \<and> rq_hist (rxqs ! r) \<noteq> 0"

lemma exact_fits:
  assumes "exact rxqs ns" and "budget rxqs (all_rxqs ns @ r # rs)" and "at_place ns pos"
  shows "unat (pmd_proc_cycles (pmd_at ns pos)) + unat (rq_hist (rxqs ! r)) < 2 ^ 64"
proof -
  have "(\<Sum>r\<leftarrow>sp_rxqs (pmd_at ns pos). unat (rq_hist (rxqs ! r))) \<le> (\<Sum>r\<leftarrow>all_rxqs ns. unat (rq_hist (rxqs ! r)))"
    by (rule sum_list_mset_mono [OF pmd_at_subset [OF assms(3)]])
  moreover have "unat (pmd_proc_cycles (pmd_at ns pos)) = (\<Sum>r\<leftarrow>sp_rxqs (pmd_at ns pos). unat (rq_hist (rxqs ! r)))"
    using assms(1,3) unfolding exact_def by blast
  ultimately show ?thesis using assms(2) unfolding budget_def cost_split by simp
qed

lemma budget_placed:
  assumes "map nm_pmds ns' = placed ns r c pos" and "at_place ns pos" and "budget rxqs (all_rxqs ns @ r # rs)"
  shows "budget rxqs (all_rxqs ns' @ rs)"
  using assms(3) placed_all_rxqs [OF assms(1,2)]
    sum_list_same_mset [of "all_rxqs ns' @ rs" "all_rxqs ns @ r # rs" "rxq_cost rxqs"]
  by (simp add: budget_def)

lemma schedule_load_balanced:
  assumes "sched_ok dp"
    and "sched_numa_list_schedule (sched_numa_list_populate pos (poll_threads dp)) dp SCHED_GROUP = (rxqs, numas)"
    and "budget rxqs (polled_rxqs (dp_ports dp))"
    and "\<forall>r\<in>set (polled_rxqs (dp_ports dp)). unpinned dp r \<longrightarrow> unat (rq_hist (rxqs ! r)) \<le> h"
  shows "\<forall>n\<in>set numas. load_balanced (busy_unpinned dp rxqs) h n"
proof -
  let ?qs = "polled_rxqs (dp_ports dp)"
  obtain numas1 left lst where wf: "numas_wf numas1"
    and pins: "\<And>q. at_place numas1 q \<Longrightarrow> sp_rxqs (pmd_at numas1 q) =
       filter (\<lambda>r. pinned_to dp r = Some (sp_pmd (pmd_at numas1 q))) ?qs"
    and cyc: "\<And>q. at_place numas1 q \<Longrightarrow>
       pmd_proc_cycles (pmd_at numas1 q) = (\<Sum>r\<leftarrow>sp_rxqs (pmd_at numas1 q). rq_hist (rxqs ! r))"
    and m1: "mset (all_rxqs numas1) = mset (filter (\<lambda>r. pinned_to dp r \<noteq> None) ?qs)"
    and m: "mset left = mset (filter (\<lambda>r. pinned_to dp r = None) ?qs)"
    and loop: "fold (assign_with (\<lambda>n. sched_pmd_next n SCHED_GROUP) (dp_ports dp) rxqs) left (numas1, None) = (numas, lst)"
    by (rule schedule_phases [OF assms(1,2)]) blast
  have lok: "lst_ok numas1 None" by (simp add: lst_ok_def)
  define J where "J ns rs \<longleftrightarrow> exact rxqs ns \<and> budget rxqs (all_rxqs ns @ rs) \<and>
     (\<forall>r\<in>set rs. unat (rq_hist (rxqs ! r)) \<le> h)" for ns rs
  have bud: "budget rxqs (all_rxqs numas1 @ left)" by (rule budget_phases [OF m1 m assms(3)])
  have "exact rxqs numas1" by (rule exact_phases [OF cyc bud])
  moreover have "\<forall>r\<in>set left. unat (rq_hist (rxqs ! r)) \<le> h"
    using mset_eq_setD [OF m] assms(4) by (auto simp: unpinned_def)
  ultimately have start: "J numas1 left" using bud by (simp add: J_def)
  have "load_balanced (busy_unpinned dp rxqs) h n" if n: "n \<in> set numas1" for n
  proof -
    obtain i where i: "i < length numas1" "n = numas1 ! i" using n by (auto simp: in_set_conv_nth)
    have "\<not> busy_unpinned dp rxqs r" if s: "s \<in> set (nm_pmds n)" "r \<in> set (sp_rxqs s)" for s r
    proof -
      obtain j where j: "j < length (nm_pmds n)" "s = nm_pmds n ! j" using s(1) by (auto simp: in_set_conv_nth)
      then show ?thesis
        using pins [of "(i, j)"] i s(2) by (auto simp: at_place_def pmd_at_def busy_unpinned_def unpinned_def)
    qed
    then show ?thesis unfolding load_balanced_def by blast
  qed
  then have bal: "\<forall>n\<in>set numas1. load_balanced (busy_unpinned dp rxqs) h n" by blast
  show ?thesis
  proof (rule group_fair.balanced_loop [OF loop wf lok bal, where J = J])
    show "J numas1 left" by (rule start)
    show "J ns' rs" if "J ns (r # rs)" "at_place ns pos" "skel ns' = skel ns"
      "map nm_pmds ns' = placed ns r (rq_hist (rxqs ! r)) pos" for ns r rs pos ns'
      using that exact_placed [OF _ that(4,2,3)] budget_placed [OF that(4,2)] by (auto simp: J_def)
    show "load_fits_in (busy_unpinned dp rxqs) h (pmd_at ns pos) r (rq_hist (rxqs ! r))"
      if "J ns (r # rs)" "at_place ns pos" for ns r rs pos
      using that exact_fits [of rxqs ns r rs pos] by (auto simp: J_def load_fits_in_def busy_unpinned_def)
    show "lowest_usable n b" if "J ns (r # rs)" "n \<in> set ns" "noniso n" for ns r rs n b
      using that exact_usable [of rxqs ns "r # rs" n SCHED_GROUP b] by (simp add: J_def sched_usable_def)
  qed
qed

section \<open>The datapath\<close>

definition queues_on :: "dp_netdev \<Rightarrow> nat \<Rightarrow> nat list" where
  "queues_on dp p = filter (\<lambda>r. rq_pmd (dp_rxqs dp ! r) = Some p) (polled_rxqs (dp_ports dp))"

definition cycles_on :: "dp_netdev \<Rightarrow> nat \<Rightarrow> nat" where
  "cycles_on dp p = (\<Sum>r\<leftarrow>queues_on dp p. unat (rq_hist (dp_rxqs dp ! r)))"

lemma place_queues:
  assumes "distinct (pmd_ptrs numas)" and "distinct (all_rxqs numas)" and "set (all_rxqs numas) \<subseteq> set qs"
    and "distinct qs" and "at_place numas q"
    and "\<And>r p. r \<in> set qs \<Longrightarrow> rq_pmd (rxqs ! r) = Some p \<longleftrightarrow> assigned numas p r"
  shows "mset (sp_rxqs (pmd_at numas q)) = mset (filter (\<lambda>r. rq_pmd (rxqs ! r) = Some (sp_pmd (pmd_at numas q))) qs)"
proof -
  have sub: "mset (sp_rxqs (pmd_at numas q)) \<subseteq># mset (all_rxqs numas)" by (rule pmd_at_subset [OF assms(5)])
  then have d: "distinct (sp_rxqs (pmd_at numas q))" using assms(2) distinct_submset by blast
  have in_qs: "r \<in> set qs" if "r \<in> set (sp_rxqs (pmd_at numas q))" for r
    using that set_mset_mono [OF sub] assms(3) by auto
  have in_set: "r \<in> set (sp_rxqs (pmd_at numas q)) \<longleftrightarrow> assigned numas (sp_pmd (pmd_at numas q)) r" for r
  proof
    assume "assigned numas (sp_pmd (pmd_at numas q)) r"
    then obtain q' where q': "at_place numas q'" "sp_pmd (pmd_at numas q') = sp_pmd (pmd_at numas q)"
      "r \<in> set (sp_rxqs (pmd_at numas q'))"
      unfolding assigned_def by blast
    then have "q' = q" using place_unique [OF assms(1) q'(1) assms(5)] by simp
    then show "r \<in> set (sp_rxqs (pmd_at numas q))" using q'(3) by simp
  qed (use assms(5) in \<open>unfold assigned_def, blast\<close>)
  have "r \<in> set (sp_rxqs (pmd_at numas q)) \<longleftrightarrow>
      r \<in> set (filter (\<lambda>r. rq_pmd (rxqs ! r) = Some (sp_pmd (pmd_at numas q))) qs)" for r
    using in_qs [of r] in_set [of r] assms(6) [of r] by auto
  then have "set (sp_rxqs (pmd_at numas q)) = set (filter (\<lambda>r. rq_pmd (rxqs ! r) = Some (sp_pmd (pmd_at numas q))) qs)"
    by blast
  then show ?thesis
    by (rule iffD1 [OF set_eq_iff_mset_eq_distinct [OF d distinct_filter [OF assms(4)]]])
qed

text \<open>Two free threads of a node: they are in the same node of the lists, with the queues they have got.\<close>

lemma reconfigure_places:
  assumes "sched_ok dp" and "dp' = reconfigure_scheduling pos dp"
    and "free_thread dp p" and "free_thread dp p'" and "thread_numa dp p = thread_numa dp p'"
  obtains rxqs numas i j j' where
    "sched_numa_list_schedule (sched_numa_list_populate pos (poll_threads (reset_assignment dp)))
       (reset_assignment dp) (pmd_rxq_assign_type dp) = (rxqs, numas)"
    "dp_ports dp' = dp_ports dp"
    "\<And>r. r \<in> set (polled_rxqs (dp_ports dp)) \<Longrightarrow> rq_hist (dp_rxqs dp' ! r) = rq_hist (rxqs ! r)"
    "i < length numas" "j < length (nm_pmds (numas ! i))" "j' < length (nm_pmds (numas ! i))"
    "\<not> sp_isolated (nm_pmds (numas ! i) ! j)" "\<not> sp_isolated (nm_pmds (numas ! i) ! j')"
    "mset (sp_rxqs (nm_pmds (numas ! i) ! j)) = mset (queues_on dp' p)"
    "mset (sp_rxqs (nm_pmds (numas ! i) ! j')) = mset (queues_on dp' p')"
proof -
  let ?qs = "polled_rxqs (dp_ports dp)" and ?dp0 = "reset_assignment dp"
  obtain rxqs numas where
    st: "sched_numa_list_schedule (sched_numa_list_populate pos (poll_threads ?dp0)) ?dp0
           (pmd_rxq_assign_type dp) = (rxqs, numas)"
    and ports: "dp_ports dp' = dp_ports dp" and dist: "distinct (all_rxqs numas)"
    and upd: "\<And>r. r < length (dp_rxqs dp) \<Longrightarrow> \<exists>x. dp_rxqs dp' ! r = (rxqs ! r)\<lparr>rq_pmd := x\<rparr>"
    and pmd: "\<And>r p. r \<in> set ?qs \<Longrightarrow> rq_pmd (dp_rxqs dp' ! r) = Some p \<longleftrightarrow> assigned numas p r"
    by (rule reconfigure_lists [OF assms(1,2)]) blast
  have ok0: "sched_ok ?dp0" using assms(1) by (simp add: sched_ok_def)
  note res = schedule_result [OF ok0 st, unfolded reset_facts]
  have sub: "set (all_rxqs numas) \<subseteq> set ?qs" using res(5) by (metis set_mset_mono set_mset_mset)
  have dq: "distinct ?qs" using assms(1) by (simp add: sched_ok_def)
  have hist: "rq_hist (dp_rxqs dp' ! r) = rq_hist (rxqs ! r)" if "r \<in> set ?qs" for r
  proof -
    have "r < length (dp_rxqs dp)" using that assms(1) by (auto simp: sched_ok_def)
    from upd [OF this] show ?thesis by auto
  qed
  have place: "\<exists>q. at_place numas q \<and> sp_pmd (pmd_at numas q) = x \<and> \<not> sp_isolated (pmd_at numas q) \<and>
      numa_id (numas ! fst q) = thread_numa dp x \<and> mset (sp_rxqs (pmd_at numas q)) = mset (queues_on dp' x)"
    if "free_thread dp x" for x
  proof -
    have "x \<in> set (pmd_ptrs numas)" using res(3) that by (simp add: free_thread_def has_core_reset)
    then obtain q where q: "at_place numas q" "sp_pmd (pmd_at numas q) = x" using ptr_place [of x numas] by blast
    have "mset (sp_rxqs (pmd_at numas q)) = mset (queues_on dp' x)"
      unfolding queues_on_def ports
      using place_queues [OF res(2) dist sub dq q(1), of "dp_rxqs dp'"] pmd q(2) by simp
    moreover have "numa_id (numas ! fst q) = thread_numa dp x"
      using res(10) [OF q(1)] q(2) that by (simp add: free_thread_def reset_thread)
    ultimately show ?thesis using res(4) [OF q(1)] q that free_reset [OF assms(1)] by blast
  qed
  obtain q where q: "at_place numas q" "\<not> sp_isolated (pmd_at numas q)" "numa_id (numas ! fst q) = thread_numa dp p"
    "mset (sp_rxqs (pmd_at numas q)) = mset (queues_on dp' p)" using place [OF assms(3)] by blast
  obtain q' where q': "at_place numas q'" "\<not> sp_isolated (pmd_at numas q')"
    "numa_id (numas ! fst q') = thread_numa dp p'"
    "mset (sp_rxqs (pmd_at numas q')) = mset (queues_on dp' p')" using place [OF assms(4)] by blast
  have "distinct (map numa_id numas)" using res(9) by (simp add: numas_wf_def)
  moreover have "map numa_id numas ! fst q = map numa_id numas ! fst q'"
    using q(1,3) q'(1,3) assms(5) by (simp add: at_place_def)
  ultimately have same: "fst q' = fst q"
    using q(1) q'(1) by (metis at_place_def length_map nth_eq_iff_index_eq)
  show thesis
    by (rule that [OF st ports hist, of "fst q" "snd q" "snd q'"])
      (use q q' same in \<open>simp_all add: at_place_def pmd_at_def\<close>)
qed

lemma rr_even_close:
  assumes "rr_even cnt n" and "j < length (nm_pmds n)" and "j' < length (nm_pmds n)"
    and "\<not> sp_isolated (nm_pmds n ! j)" and "\<not> sp_isolated (nm_pmds n ! j')"
  shows "cnt j \<le> cnt j' + 1"
proof -
  obtain q where "\<forall>j<length (nm_pmds n). \<not> sp_isolated (nm_pmds n ! j) \<longrightarrow>
     cnt j = q + (if (if rr_idx_inc n then j < rr_cur_index n else rr_cur_index n < j) then 1 else 0)"
    using assms(1) by (auto simp: rr_even_def)
  then have "cnt j \<le> q + 1" "q \<le> cnt j'" using assms(2-5) by auto
  then show ?thesis by simp
qed

lemma length_filter_mset: "mset xs = mset ys \<Longrightarrow> length (filter P xs) = length (filter P ys)"
  by (metis mset_filter size_mset)

text \<open>With the group algorithm and a load that fits: the cycles of the threads in the lists.\<close>

lemma budget_hist:
  assumes "\<And>r. r \<in> set qs \<Longrightarrow> rq_hist (rxqs' ! r) = rq_hist (rxqs ! r)"
  shows "budget rxqs' qs = budget rxqs qs"
proof -
  have "map (rxq_cost rxqs') qs = map (rxq_cost rxqs) qs"
    by (intro map_cong) (simp_all add: rxq_cost_def assms)
  then show ?thesis unfolding budget_def by (rule arg_cong)
qed

lemma group_places:
  assumes "sched_ok dp"
    and "sched_numa_list_schedule (sched_numa_list_populate pos (poll_threads (reset_assignment dp)))
       (reset_assignment dp) SCHED_GROUP = (rxqs, numas)"
    and hist: "\<And>r. r \<in> set (polled_rxqs (dp_ports dp)) \<Longrightarrow> rq_hist (dp_rxqs dp' ! r) = rq_hist (rxqs ! r)"
    and ports: "dp_ports dp' = dp_ports dp" and "load_fits dp'"
    and place: "i < length numas" "j < length (nm_pmds (numas ! i))"
  shows "\<exists>p. free_thread dp p \<Longrightarrow> mset (sp_rxqs (nm_pmds (numas ! i) ! j)) = mset (queues_on dp' x) \<Longrightarrow>
           unat (pmd_proc_cycles (nm_pmds (numas ! i) ! j)) = cycles_on dp' x"
    and "\<forall>r\<in>set (polled_rxqs (dp_ports dp)). unpinned dp r \<longrightarrow> unat (rq_hist (dp_rxqs dp' ! r)) \<le> h \<Longrightarrow>
         j' < length (nm_pmds (numas ! i)) \<Longrightarrow> \<not> sp_isolated (nm_pmds (numas ! i) ! j) \<Longrightarrow>
         \<not> sp_isolated (nm_pmds (numas ! i) ! j') \<Longrightarrow> r \<in> set (sp_rxqs (nm_pmds (numas ! i) ! j)) \<Longrightarrow>
         r \<in> set (polled_rxqs (dp_ports dp)) \<Longrightarrow> unpinned dp r \<Longrightarrow> rq_hist (dp_rxqs dp' ! r) \<noteq> 0 \<Longrightarrow>
         unat (pmd_proc_cycles (nm_pmds (numas ! i) ! j)) \<le> unat (pmd_proc_cycles (nm_pmds (numas ! i) ! j')) + h"
proof -
  let ?dp0 = "reset_assignment dp" and ?qs = "polled_rxqs (dp_ports dp)"
  have ok0: "sched_ok ?dp0" using assms(1) by (simp add: sched_ok_def)
  have un: "unpinned ?dp0 r = unpinned dp r" if "r \<in> set ?qs" for r
    using that assms(1) by (auto simp: unpinned_def sched_ok_def pinned_reset)
  have bud: "budget rxqs ?qs" using assms(5) budget_hist [OF hist] by (simp add: load_fits_def ports)
  show "unat (pmd_proc_cycles (nm_pmds (numas ! i) ! j)) = cycles_on dp' x"
    if free: "\<exists>p. free_thread dp p" and q: "mset (sp_rxqs (nm_pmds (numas ! i) ! j)) = mset (queues_on dp' x)"
  proof -
    have "exact rxqs numas"
      using schedule_result(8) [OF ok0 assms(2)] bud free free_reset [OF assms(1)] by simp
    then have "unat (pmd_proc_cycles (nm_pmds (numas ! i) ! j)) =
        (\<Sum>r\<leftarrow>sp_rxqs (nm_pmds (numas ! i) ! j). unat (rq_hist (rxqs ! r)))"
      using place unfolding exact_def by (auto simp: at_place_def pmd_at_def)
    also have "\<dots> = (\<Sum>r\<leftarrow>queues_on dp' x. unat (rq_hist (rxqs ! r)))" by (rule sum_list_same_mset [OF q])
    also have "\<dots> = cycles_on dp' x"
      unfolding cycles_on_def by (intro arg_cong [of _ _ sum_list] map_cong) (auto simp: queues_on_def ports hist)
    finally show ?thesis .
  qed
  show "unat (pmd_proc_cycles (nm_pmds (numas ! i) ! j)) \<le> unat (pmd_proc_cycles (nm_pmds (numas ! i) ! j')) + h"
    if bound: "\<forall>r\<in>set ?qs. unpinned dp r \<longrightarrow> unat (rq_hist (dp_rxqs dp' ! r)) \<le> h"
      and j': "j' < length (nm_pmds (numas ! i))" and free: "\<not> sp_isolated (nm_pmds (numas ! i) ! j)"
        "\<not> sp_isolated (nm_pmds (numas ! i) ! j')"
      and r: "r \<in> set (sp_rxqs (nm_pmds (numas ! i) ! j))" "r \<in> set ?qs" "unpinned dp r" "rq_hist (dp_rxqs dp' ! r) \<noteq> 0"
  proof -
    have "\<forall>r\<in>set (polled_rxqs (dp_ports ?dp0)). unpinned ?dp0 r \<longrightarrow> unat (rq_hist (rxqs ! r)) \<le> h"
      using bound un hist by simp
    then have "load_balanced (busy_unpinned ?dp0 rxqs) h (numas ! i)"
      using schedule_load_balanced [OF ok0 assms(2)] bud place(1) nth_mem by simp
    moreover have "busy_unpinned ?dp0 rxqs r" using r un hist by (simp add: busy_unpinned_def)
    ultimately show ?thesis
      using free r(1) nth_mem [OF place(2)] nth_mem [OF j'] unfolding load_balanced_def by blast
  qed
qed

end
