(* ===== verification/Dpif_Sched_Properties.thy ===== *)
theory Dpif_Sched_Properties
  imports Dpif_Sched_Balance
begin

text \<open>
  What the scheduling of receive queues promises: every queue gets the right thread, the
  algorithms spread the queues evenly, sorting does not depend on the algorithm behind \<open>qsort\<close>,
  and a dry run changes no assignment.
\<close>

section \<open>A datapath for the examples\<close>

text \<open>
  Two ports on nodes 0 and 1, two threads on node 0 and one on node 1, and five queues; the last
  queue is pinned to the core of the thread on node 1.
\<close>

definition demo_rxq :: "nat \<Rightarrow> int \<Rightarrow> nat option \<Rightarrow> u64 \<Rightarrow> dp_netdev_rxq" where
  "demo_rxq p q core c = \<lparr>rq_port = p, rq_queue_id = q, rq_core_id = core, rq_pmd = None, rq_hist = 0,
     rq_intrvl = replicate 6 c, rq_intrvl_idx = 0\<rparr>"

definition demo_thread :: "nat \<Rightarrow> int \<Rightarrow> dp_netdev_pmd_thread" where
  "demo_thread core nid = \<lparr>pmd_core_id = Some core, pmd_numa_id = nid, pmd_isolated = False,
     pmd_intrvl_cycles = 1000, pmd_poll_count = 2\<rparr>"

definition demo_dp :: "sched_assignment_type \<Rightarrow> dp_netdev" where
  "demo_dp algo = \<lparr>
     dp_ports = [\<lparr>port_no = 1, port_is_pmd = True, port_numa = 0, port_rxqs = [0, 1, 2]\<rparr>,
                 \<lparr>port_no = 2, port_is_pmd = True, port_numa = 1, port_rxqs = [3, 4]\<rparr>],
     dp_rxqs = [demo_rxq 0 0 None 10, demo_rxq 0 1 None 30, demo_rxq 0 2 None 20,
                demo_rxq 1 0 None 5, demo_rxq 1 1 (Some 3) 7],
     poll_threads = [demo_thread 4 0, demo_thread 2 0, demo_thread 3 1],
     pmd_iso = True, pmd_rxq_assign_type = algo,
     pmd_alb = \<lparr>do_dry_run = False, recheck_config = True, rebalance_improve_thresh = 25\<rparr>\<rparr>"

abbreviation demo_pos :: "int \<Rightarrow> int list \<Rightarrow> nat" where
  "demo_pos \<equiv> \<lambda>_ ids. length ids"

lemma demo_ok: "sched_ok (demo_dp algo)"
  by (simp add: sched_ok_def demo_dp_def polled_rxqs_def)

lemma demo_free: "free_thread (demo_dp algo) p \<longleftrightarrow> p = 0 \<or> p = 1"
proof -
  have "p < 3 \<longleftrightarrow> p = 0 \<or> p = 1 \<or> p = 2" by auto
  then show ?thesis
    by (auto simp: free_thread_def demo_dp_def demo_thread_def demo_rxq_def has_core_def polled_rxqs_def
        pinned_to_def pin_target_def dp_netdev_get_pmd_def)
qed

lemma demo_polled: "polled_rxqs (dp_ports (demo_dp algo)) = [0, 1, 2, 3, 4]"
  by (simp add: demo_dp_def polled_rxqs_def)

lemma demo_ports: "dp_ports (reconfigure_scheduling pos (demo_dp algo)) = dp_ports (demo_dp algo)"
  by (rule reconfigure_lists [OF demo_ok refl])

lemma demo_hist:
  assumes "algo = SCHED_CYCLES \<or> algo = SCHED_GROUP"
  defines "rxqs \<equiv> dp_rxqs (reconfigure_scheduling demo_pos (demo_dp algo))"
  shows "rq_hist (rxqs ! 0) = 60" "rq_hist (rxqs ! 1) = 180" "rq_hist (rxqs ! 2) = 120"
    "rq_hist (rxqs ! 3) = 30" "rq_hist (rxqs ! 4) = 42"
proof -
  have "map rq_hist rxqs = [60, 180, 120, 30, 42]"
    using assms(1) unfolding rxqs_def by (elim disjE) (simp only:, code_simp)+
  then obtain a b c d e where "rxqs = [a, b, c, d, e]" "map rq_hist [a, b, c, d, e] = [60, 180, 120, 30, 42]"
    by (auto simp: map_eq_Cons_conv)
  then show "rq_hist (rxqs ! 0) = 60" "rq_hist (rxqs ! 1) = 180" "rq_hist (rxqs ! 2) = 120"
    "rq_hist (rxqs ! 3) = 30" "rq_hist (rxqs ! 4) = 42"
    by simp_all
qed

lemma demo_load_fits:
  "algo = SCHED_CYCLES \<or> algo = SCHED_GROUP \<Longrightarrow> load_fits (reconfigure_scheduling demo_pos (demo_dp algo))"
  by (simp add: load_fits_def budget_def rxq_cost_def demo_ports demo_polled demo_hist demo_hist(2) [unfolded One_nat_def])

section \<open>The threads of the queues\<close>



text \<open>No queue is left behind.  If there is a thread that is not isolated and the load of
  the queues fits the counters, every queue that is polled has a thread after the
  reconfiguration, also when its own node has no free thread.\<close>

theorem every_queue_is_polled:
  assumes "sched_ok dp" and "dp' = reconfigure_scheduling pos dp" and "free_thread dp p" and "load_fits dp'"
    and "r \<in> set (polled_rxqs (dp_ports dp))"
  shows "\<exists>q. rq_pmd (dp_rxqs dp' ! r) = Some q \<and> right_thread dp r q"
  using reconfigure_result(1,3) [OF assms(1,2,5)] assms(3,4) by blast

theorem every_queue_is_polled_witness:
  "\<exists>q. rq_pmd (dp_rxqs (reconfigure_scheduling demo_pos (demo_dp SCHED_CYCLES)) ! 3) = Some q \<and>
       right_thread (demo_dp SCHED_CYCLES) 3 q"
proof (rule every_queue_is_polled [OF demo_ok refl])
  show "free_thread (demo_dp SCHED_CYCLES) 0" by (simp add: demo_free)
  show "load_fits (reconfigure_scheduling demo_pos (demo_dp SCHED_CYCLES))" by (simp add: demo_load_fits)
  show "3 \<in> set (polled_rxqs (dp_ports (demo_dp SCHED_CYCLES)))" by (simp add: demo_dp_def polled_rxqs_def)
qed

section \<open>Balance\<close>

text \<open>Round robin is fair.  With the algorithms \<open>roundrobin\<close> and \<open>cycles\<close>, which walk over
  the threads of a node in a circle and up and down, two free threads of a node differ by at
  most one in the number of queues that are not pinned, whatever queues come from other nodes.\<close>

theorem round_robin_is_even:
  assumes "sched_ok dp" and "dp' = reconfigure_scheduling pos dp" and "pmd_rxq_assign_type dp \<noteq> SCHED_GROUP"
    and "free_thread dp p" and "free_thread dp p'" and "thread_numa dp p = thread_numa dp p'"
  shows "length (filter (unpinned dp) (queues_on dp' p)) \<le> length (filter (unpinned dp) (queues_on dp' p')) + 1"
proof -
  obtain rxqs numas i j j' where
    st: "sched_numa_list_schedule (sched_numa_list_populate pos (poll_threads (reset_assignment dp)))
       (reset_assignment dp) (pmd_rxq_assign_type dp) = (rxqs, numas)"
    and i: "i < length numas" and j: "j < length (nm_pmds (numas ! i))" "j' < length (nm_pmds (numas ! i))"
    and free: "\<not> sp_isolated (nm_pmds (numas ! i) ! j)" "\<not> sp_isolated (nm_pmds (numas ! i) ! j')"
    and q: "mset (sp_rxqs (nm_pmds (numas ! i) ! j)) = mset (queues_on dp' p)"
      "mset (sp_rxqs (nm_pmds (numas ! i) ! j')) = mset (queues_on dp' p')"
    and ports: "dp_ports dp' = dp_ports dp"
    by (rule reconfigure_places [OF assms(1,2,4-6)]) blast
  have ok: "sched_ok (reset_assignment dp)" using assms(1) by (simp add: sched_ok_def)
  let ?P = "unpinned (reset_assignment dp)"
  have "rr_balanced ?P (numas ! i)"
  proof -
    have "noniso (numas ! i)" using free(1) nth_mem [OF j(1)] unfolding noniso_def by blast
    moreover have "rr_ready ?P (pmd_rxq_assign_type dp = SCHED_CYCLES) (numas ! i)"
      by (rule bspec [OF schedule_rr_ready [OF ok assms(3) st] nth_mem [OF i]])
    ultimately show ?thesis by (simp add: rr_ready_def)
  qed
  then have "queues_of ?P (nm_pmds (numas ! i) ! j) \<le> queues_of ?P (nm_pmds (numas ! i) ! j') + 1"
    unfolding rr_balanced_def by (rule rr_even_close [OF _ j free])
  then have "length (filter ?P (queues_on dp' p)) \<le> length (filter ?P (queues_on dp' p')) + 1"
    using length_filter_mset [OF q(1), of ?P] length_filter_mset [OF q(2), of ?P] by (simp add: queues_of_def)
  moreover have "filter ?P (queues_on dp' x) = filter (unpinned dp) (queues_on dp' x)" for x
    using assms(1) by (intro filter_cong) (auto simp: unpinned_def queues_on_def ports sched_ok_def pinned_reset)
  ultimately show ?thesis by simp
qed

theorem round_robin_is_even_witness:
  "length (filter (unpinned (demo_dp SCHED_CYCLES)) (queues_on (reconfigure_scheduling demo_pos (demo_dp SCHED_CYCLES)) 0)) \<le>
   length (filter (unpinned (demo_dp SCHED_CYCLES)) (queues_on (reconfigure_scheduling demo_pos (demo_dp SCHED_CYCLES)) 1)) + 1"
  by (rule round_robin_is_even [OF demo_ok refl]) (simp_all add: demo_free, simp_all add: demo_dp_def demo_thread_def)

text \<open>C34: the group algorithm is greedy.  A free thread that has been given a busy queue that
  is not pinned is loaded by at most the busiest such queue more than any other free thread of
  its node.\<close>

theorem group_is_balanced:
  assumes "sched_ok dp" and "dp' = reconfigure_scheduling pos dp" and "pmd_rxq_assign_type dp = SCHED_GROUP"
    and "free_thread dp p" and "free_thread dp p'" and "thread_numa dp p = thread_numa dp p'"
    and "load_fits dp'"
    and "\<forall>r\<in>set (polled_rxqs (dp_ports dp)). unpinned dp r \<longrightarrow> unat (rq_hist (dp_rxqs dp' ! r)) \<le> h"
    and "r \<in> set (queues_on dp' p)" and "unpinned dp r" and "rq_hist (dp_rxqs dp' ! r) \<noteq> 0"
  shows "cycles_on dp' p \<le> cycles_on dp' p' + h"
proof -
  let ?qs = "polled_rxqs (dp_ports dp)"
  obtain rxqs numas i j j' where
    st: "sched_numa_list_schedule (sched_numa_list_populate pos (poll_threads (reset_assignment dp)))
       (reset_assignment dp) (pmd_rxq_assign_type dp) = (rxqs, numas)"
    and i: "i < length numas" and j: "j < length (nm_pmds (numas ! i))" "j' < length (nm_pmds (numas ! i))"
    and free: "\<not> sp_isolated (nm_pmds (numas ! i) ! j)" "\<not> sp_isolated (nm_pmds (numas ! i) ! j')"
    and q: "mset (sp_rxqs (nm_pmds (numas ! i) ! j)) = mset (queues_on dp' p)"
      "mset (sp_rxqs (nm_pmds (numas ! i) ! j')) = mset (queues_on dp' p')"
    and ports: "dp_ports dp' = dp_ports dp"
    and hist: "\<And>r. r \<in> set ?qs \<Longrightarrow> rq_hist (dp_rxqs dp' ! r) = rq_hist (rxqs ! r)"
    by (rule reconfigure_places [OF assms(1,2,4-6)]) blast
  note st' = st [unfolded assms(3)]
  have ex: "\<exists>p. free_thread dp p" using assms(4) by blast
  have r: "r \<in> set ?qs" "r \<in> set (sp_rxqs (nm_pmds (numas ! i) ! j))"
    using assms(9) mset_eq_setD [OF q(1)] ports by (simp_all add: queues_on_def)
  have "unat (pmd_proc_cycles (nm_pmds (numas ! i) ! j)) \<le> unat (pmd_proc_cycles (nm_pmds (numas ! i) ! j')) + h"
    by (rule group_places(2) [OF assms(1) st' hist ports assms(7) i j(1) assms(8) j(2) free r(2,1) assms(10,11)])
  then show ?thesis
    using group_places(1) [OF assms(1) st' hist ports assms(7) i j(1) ex q(1)]
      group_places(1) [OF assms(1) st' hist ports assms(7) i j(2) ex q(2)] by simp
qed

theorem group_is_balanced_witness:
  "cycles_on (reconfigure_scheduling demo_pos (demo_dp SCHED_GROUP)) 0 \<le>
   cycles_on (reconfigure_scheduling demo_pos (demo_dp SCHED_GROUP)) 1 + 180"
proof (rule group_is_balanced [OF demo_ok refl])
  let ?dp' = "reconfigure_scheduling demo_pos (demo_dp SCHED_GROUP)"
  show "pmd_rxq_assign_type (demo_dp SCHED_GROUP) = SCHED_GROUP"
    "thread_numa (demo_dp SCHED_GROUP) 0 = thread_numa (demo_dp SCHED_GROUP) 1"
    by (simp_all add: demo_dp_def demo_thread_def)
  show "free_thread (demo_dp SCHED_GROUP) 0" "free_thread (demo_dp SCHED_GROUP) 1" by (simp_all add: demo_free)
  show "load_fits ?dp'"
    "\<forall>r\<in>set (polled_rxqs (dp_ports (demo_dp SCHED_GROUP))). unpinned (demo_dp SCHED_GROUP) r \<longrightarrow>
       unat (rq_hist (dp_rxqs ?dp' ! r)) \<le> 180"
    by (simp_all add: demo_load_fits demo_polled demo_hist demo_hist(2) [unfolded One_nat_def])
  show "2 \<in> set (queues_on ?dp' 0)" "unpinned (demo_dp SCHED_GROUP) 2" "rq_hist (dp_rxqs ?dp' ! 2) \<noteq> 0"
    by code_simp+
qed

section \<open>Sorting and the lists of nodes\<close>

lemma compare_rxq_orders:
  assumes "inj_on (\<lambda>r. (port_no (ports ! rq_port (rxqs ! r)), rq_queue_id (rxqs ! r))) A"
  shows "orders (compare_rxq_cycles ports rxqs) A"
proof -
  have "compare_rxq_cycles ports rxqs x y \<le> 0 \<longleftrightarrow>
      rq_hist (rxqs ! y) < rq_hist (rxqs ! x) \<or>
      (rq_hist (rxqs ! x) = rq_hist (rxqs ! y) \<and>
       (port_no (ports ! rq_port (rxqs ! x)) < port_no (ports ! rq_port (rxqs ! y)) \<or>
        (port_no (ports ! rq_port (rxqs ! x)) = port_no (ports ! rq_port (rxqs ! y)) \<and>
         rq_queue_id (rxqs ! x) \<le> rq_queue_id (rxqs ! y))))" for x y
    by (auto simp: compare_rxq_cycles_def Let_def not_less)
  then show ?thesis
    using assms unfolding orders_def inj_on_def by (auto intro: order.strict_trans order.trans)
qed

text \<open>The order of the queues.  When no two queues have the same port and queue number, the
  order in which the \<open>cycles\<close> and \<open>group\<close> algorithms take the queues does not depend on how
  \<open>qsort\<close> works: the sorted list is the only permutation that the comparison function accepts.\<close>

theorem queue_order_is_unique:
  assumes "inj_on (\<lambda>r. (port_no (ports ! rq_port (rxqs ! r)), rq_queue_id (rxqs ! r))) (set rs)"
  shows "(mset ys = mset rs \<and> sorted_cmp (compare_rxq_cycles ports rxqs) ys) \<longleftrightarrow>
           ys = qsort (compare_rxq_cycles ports rxqs) rs"
  using qsort_unique [OF compare_rxq_orders [OF assms]] sorted_qsort [OF compare_rxq_orders [OF assms]] by auto

theorem queue_order_is_unique_witness:
  "qsort (compare_rxq_cycles (dp_ports (demo_dp SCHED_GROUP)) (dp_rxqs (demo_dp SCHED_GROUP))) [3, 2, 0] = [0, 2, 3]"
proof -
  let ?ports = "dp_ports (demo_dp SCHED_GROUP)" and ?rxqs = "dp_rxqs (demo_dp SCHED_GROUP)"
  have "inj_on (\<lambda>r. (port_no (?ports ! rq_port (?rxqs ! r)), rq_queue_id (?rxqs ! r))) (set [3, 2, 0])"
    by (simp add: demo_dp_def demo_rxq_def)
  from queue_order_is_unique [OF this, of "[0, 2, 3]"] show ?thesis
    by (simp add: sorted_cmp_def compare_rxq_cycles_def demo_dp_def demo_rxq_def add_mset_commute)
qed

lemma compare_pmd_orders:
  assumes "inj_on (\<lambda>s. core_of threads (sp_pmd s)) A"
  shows "orders (compare_sched_pmd_list threads) A"
  using assms unfolding orders_def inj_on_def
  by (auto simp: compare_sched_pmd_list_def compare_poll_thread_list_def split: if_splits)

text \<open>The lists of nodes.  \<open>sched_numa_list_populate\<close> makes lists that are well formed,
  wherever a new node goes among the others: every node occurs once and has threads, every
  thread with a core is once in the list of its own node, nothing is assigned or isolated yet,
  and when no two threads share a core each list is in the order of the cores.\<close>

theorem numa_lists_are_well_formed:
  assumes "numas = sched_numa_list_populate pos threads"
    and "inj_on (core_of threads) {p. p < length threads \<and> has_core threads p}"
  shows "numas_wf numas \<and> distinct (pmd_ptrs numas) \<and>
         set (pmd_ptrs numas) = {p. p < length threads \<and> has_core threads p} \<and>
         (\<forall>n\<in>set numas. fresh_numa threads n \<and> sorted_cmp (compare_sched_pmd_list threads) (nm_pmds n))"
proof -
  have p: "populated threads [0..<length threads] numas" unfolding assms(1) by (rule populate_result)
  note f = populated_numas [OF p]
  have ptrs: "set (pmd_ptrs numas) = {p. p < length threads \<and> has_core threads p}" using f(3) by blast
  have "sorted_cmp (compare_sched_pmd_list threads) (nm_pmds n)" if n: "n \<in> set numas" for n
  proof -
    obtain xs where xs: "nm_pmds n = (if 1 < length xs then qsort (compare_sched_pmd_list threads) xs else xs)"
      using n unfolding assms(1) sched_numa_list_populate_def sort_numa_list_pmds_def by force
    show ?thesis
    proof (cases "1 < length xs")
      case False
      then show ?thesis using xs by (cases xs) (auto simp: sorted_cmp_def)
    next
      case True
      then have eq: "nm_pmds n = qsort (compare_sched_pmd_list threads) xs" using xs by simp
      have dis: "distinct (map sp_pmd (nm_pmds n))" "sp_pmd ` set (nm_pmds n) \<subseteq> set (pmd_ptrs numas)"
        using f(2) n by (auto simp: pmd_ptrs_concat distinct_concat_iff image_iff)
      then have "inj_on (\<lambda>s. core_of threads (sp_pmd s)) (set (nm_pmds n))"
        using assms(2) ptrs by (auto simp: inj_on_def distinct_map image_subset_iff)
      then have "inj_on (\<lambda>s. core_of threads (sp_pmd s)) (set xs)" by (simp add: eq)
      from sorted_qsort [OF compare_pmd_orders [OF this]] show ?thesis by (simp add: eq)
    qed
  qed
  then show ?thesis using f(1,2) ptrs p by (simp add: populated_def)
qed

theorem numa_lists_are_well_formed_witness:
  "set (pmd_ptrs (sched_numa_list_populate demo_pos (poll_threads (demo_dp SCHED_GROUP)))) = {0, 1, 2}"
proof -
  let ?threads = "poll_threads (demo_dp SCHED_GROUP)"
  have three: "{p. p < length ?threads \<and> has_core ?threads p} = {0, 1, 2}"
    by (auto simp: demo_dp_def has_core_def demo_thread_def less_Suc_eq numeral_3_eq_3)
  have "inj_on (core_of ?threads) {0, 1, 2}" by (simp add: core_of_def demo_dp_def demo_thread_def)
  then show ?thesis using numa_lists_are_well_formed [OF refl, of ?threads demo_pos] unfolding three by blast
qed

end
