(* ===== verification/Dpif_Sched_Rebalance.thy ===== *)
theory Dpif_Sched_Rebalance
  imports Dpif_Sched_Properties
begin

text \<open>
  Rebalancing: the cycle history of a queue, the variance of the load, and the dry run with the
  check whether one is worth it.
\<close>

section \<open>The cycle history\<close>

lemma set_intrvl_length [simp]:
  "length (rq_intrvl (dp_netdev_rxq_set_intrvl_cycles rx c)) = length (rq_intrvl rx)"
  by (simp add: dp_netdev_rxq_set_intrvl_cycles_def)

lemma set_intrvls_state:
  "length (rq_intrvl (fold (\<lambda>c rx. dp_netdev_rxq_set_intrvl_cycles rx c) cs rx)) = length (rq_intrvl rx) \<and>
   rq_intrvl_idx (fold (\<lambda>c rx. dp_netdev_rxq_set_intrvl_cycles rx c) cs rx) = rq_intrvl_idx rx + of_nat (length cs)"
  by (induction cs arbitrary: rx) (simp_all add: dp_netdev_rxq_set_intrvl_cycles_def algebra_simps)

lemma ring_inj: "i < n \<Longrightarrow> j < n \<Longrightarrow> (u + i) mod n = (u + j) mod n \<Longrightarrow> i = (j :: nat)"
proof -
  assume ij: "i < n" "j < n" "(u + i) mod n = (u + j) mod n"
  then have "int n dvd int i - int j" by (simp add: mod_eq_iff_dvd_symdiff_nat)
  then have "int i - int j = 0" using ij(1,2) dvd_imp_le_int [of "int i - int j" "int n"] by linarith
  then show "i = j" by simp
qed

text \<open>The values written last are at the places behind the write index.\<close>

lemma ring_writes:
  assumes "length cs \<le> 6" and "length (rq_intrvl rx) = 6" and "unat (rq_intrvl_idx rx) + length cs \<le> 2 ^ 32"
    and "k < length cs"
  shows "rq_intrvl (fold (\<lambda>c rx. dp_netdev_rxq_set_intrvl_cycles rx c) cs rx) !
           ((unat (rq_intrvl_idx rx) + k) mod 6) = cs ! k"
  using assms
proof (induction cs arbitrary: k rule: rev_induct)
  case (snoc c cs)
  let ?u = "unat (rq_intrvl_idx rx)" and ?rx = "fold (\<lambda>c rx. dp_netdev_rxq_set_intrvl_cycles rx c) cs rx"
  have "unat (rq_intrvl_idx ?rx) = ?u + length cs"
    using snoc.prems(3) set_intrvls_state [of cs rx]
    by (simp add: unat_add_lem [THEN iffD1] unat_of_nat)
  then have "rq_intrvl (dp_netdev_rxq_set_intrvl_cycles ?rx c) = (rq_intrvl ?rx)[(?u + length cs) mod 6 := c]"
    by (simp add: dp_netdev_rxq_set_intrvl_cycles_def PMD_INTERVAL_MAX_def)
  moreover have "length (rq_intrvl ?rx) = 6" using snoc.prems(2) set_intrvls_state [of cs rx] by simp
  moreover have "rq_intrvl ?rx ! ((?u + k) mod 6) = cs ! k" if "k < length cs"
    using snoc.IH [OF _ _ _ that] snoc.prems by simp
  moreover have "(?u + length cs) mod 6 \<noteq> (?u + k) mod 6" if "k < length cs"
    using ring_inj [of "length cs" 6 k ?u] snoc.prems(1) that by auto
  ultimately show ?case
    using snoc.prems(4) by (cases "k < length cs") (auto simp: nth_append less_Suc_eq)
qed simp

lemma set_six_intrvls:
  assumes "length (rq_intrvl rx) = 6" and "length cs = 6" and "unat (rq_intrvl_idx rx) + 6 \<le> 2 ^ 32"
  shows "rxq_cycle_hist (fold (\<lambda>c rx. dp_netdev_rxq_set_intrvl_cycles rx c) cs rx) = sum_list cs"
proof -
  let ?u = "unat (rq_intrvl_idx rx)" and ?rx = "fold (\<lambda>c rx. dp_netdev_rxq_set_intrvl_cycles rx c) cs rx"
  have inj: "inj_on (\<lambda>k. (?u + k) mod 6) {..<6}" 
  proof (rule inj_onI)
    fix i j assume "i \<in> {..<6::nat}" "j \<in> {..<6}" "(?u + i) mod 6 = (?u + j) mod 6"
    then show "i = j" using ring_inj [of i 6 j ?u] by simp
  qed
  moreover have "(\<lambda>k. (?u + k) mod 6) ` {..<6} \<subseteq> {..<6}" by auto
  ultimately have "bij_betw (\<lambda>k. (?u + k) mod 6) {..<6} {..<6}"
    by (simp add: bij_betw_def endo_inj_surj)
  from sum.reindex_bij_betw [OF this, of "\<lambda>i. rq_intrvl ?rx ! i"]
  have "(\<Sum>i<6. rq_intrvl ?rx ! i) = (\<Sum>k<6. rq_intrvl ?rx ! ((?u + k) mod 6))" by simp
  also have "\<dots> = (\<Sum>k<6. cs ! k)" using ring_writes [of cs rx] assms by (intro sum.cong) auto
  also have "\<dots> = sum_list cs" using assms(2) by (simp add: sum_list_sum_nth lessThan_atLeast0)
  finally show ?thesis
    by (simp add: rxq_cycle_hist_def dp_netdev_rxq_get_intrvl_cycles_def PMD_INTERVAL_MAX_def
        interv_sum_list_conv_sum_set_nat lessThan_atLeast0)
qed

text \<open>The cycle history.  As long as the write index does not wrap around, the cycles the
  algorithms and the dry run use for a queue are the sum over its last six intervals, in
  whatever state the ring was before them.\<close>

theorem history_is_the_last_six_intervals:
  assumes "length (rq_intrvl rx) = 6" and "length cs = 6"
    and "unat (rq_intrvl_idx rx) + length old + 6 \<le> 2 ^ 32"
  shows "rxq_cycle_hist (fold (\<lambda>c rx. dp_netdev_rxq_set_intrvl_cycles rx c) (old @ cs) rx) = sum_list cs"
proof -
  have "unat (rq_intrvl_idx rx + of_nat (length old)) = unat (rq_intrvl_idx rx) + length old"
    using assms(3) by (subst unat_add_lem [THEN iffD1]) (simp_all add: unat_of_nat)
  then show ?thesis
    using set_six_intrvls [of "fold (\<lambda>c rx. dp_netdev_rxq_set_intrvl_cycles rx c) old rx" cs]
      set_intrvls_state [of old rx] assms by simp
qed

theorem history_is_the_last_six_intervals_witness:
  "rxq_cycle_hist (fold (\<lambda>c rx. dp_netdev_rxq_set_intrvl_cycles rx c) ([9, 9] @ [1, 2, 3, 4, 5, 6])
     (demo_rxq 0 0 None 10)) = 21"
  using history_is_the_last_six_intervals [of "demo_rxq 0 0 None 10" "[1, 2, 3, 4, 5, 6]" "[9, 9]"]
  by (simp add: demo_rxq_def)

section \<open>Variance\<close>

lemma uint_sum_list_u64:
  "(\<Sum>x\<leftarrow>xs. f x) < 2 ^ 64 \<Longrightarrow> \<forall>x\<in>set xs. 0 \<le> f x \<Longrightarrow> uint (\<Sum>x\<leftarrow>xs. word_of_int (f x) :: u64) = (\<Sum>x\<leftarrow>xs. f x)"
proof -
  assume a: "(\<Sum>x\<leftarrow>xs. f x) < 2 ^ 64" "\<forall>x\<in>set xs. 0 \<le> f x"
  have "(\<Sum>x\<leftarrow>xs. word_of_int (f x) :: u64) = word_of_int (\<Sum>x\<leftarrow>xs. f x)" by (induction xs) simp_all
  moreover have "0 \<le> (\<Sum>x\<leftarrow>xs. f x)" using a(2) by (intro sum_list_nonneg) auto
  ultimately show ?thesis using a(1) by (simp add: unsigned_of_int take_bit_int_eq_self)
qed

text \<open>The variance as the comment means it, over the integers.\<close>

definition int_variance :: "int list \<Rightarrow> int" where
  "int_variance xs = (let mean = sum_list xs div int (length xs) in
     (\<Sum>x\<leftarrow>xs. (x - mean) * (x - mean)) div int (length xs))"

text \<open>Variance.  The unsigned computation, in which the difference to the mean wraps around
  for the values below it, gives the variance over the integers whenever the sums fit 64 bits,
  and 0 for no values.\<close>

theorem variance_is_exact:
  assumes "a = map word_of_int xs" and "\<forall>x\<in>set xs. 0 \<le> x" and "sum_list xs < 2 ^ 64" and "int (length xs) < 2 ^ 64"
    and "(\<Sum>x\<leftarrow>xs. (x - sum_list xs div int (length xs)) * (x - sum_list xs div int (length xs))) < 2 ^ 64"
  shows "uint (variance a) = int_variance xs"
proof (cases "xs = []")
  case True
  then show ?thesis using assms(1) by (simp add: variance_def int_variance_def)
next
  case False
  let ?n = "int (length xs)" and ?m = "sum_list xs div int (length xs)"
  let ?sq = "\<Sum>x\<leftarrow>xs. (x - ?m) * (x - ?m)"
  have n: "uint (of_nat (length xs) :: u64) = ?n" using assms(4) by (simp add: uint_nat unat_of_nat nat_less_iff)
  have s: "uint (sum_list a) = sum_list xs"
    using uint_sum_list_u64 [of "\<lambda>x. x" xs] assms(1-3) by simp
  have m: "sum_list a div of_nat (length xs) = word_of_int ?m"
    by (simp add: word_div_def s n)
  have sq_eq: "(\<Sum>x\<leftarrow>a. (x - word_of_int ?m) * (x - word_of_int ?m)) =
      (\<Sum>x\<leftarrow>xs. word_of_int ((x - ?m) * (x - ?m)) :: u64)"
    by (simp add: assms(1) comp_def)
  have sq: "uint (\<Sum>x\<leftarrow>a. (x - word_of_int ?m) * (x - word_of_int ?m)) = ?sq"
    unfolding sq_eq by (rule uint_sum_list_u64) (use assms(5) in simp_all)
  show ?thesis
  proof (cases "sum_list a = 0")
    case True
    then have "sum_list xs = 0" using s by simp
    then have "\<forall>x\<in>set xs. x = 0" using assms(2) by (simp add: sum_list_nonneg_eq_0_iff)
    then have "map (\<lambda>x. (x - ?m) * (x - ?m)) xs = map (\<lambda>_. 0) xs"
      using \<open>sum_list xs = 0\<close> by (intro map_cong) simp_all
    then have "?sq = (\<Sum>_\<leftarrow>xs. 0)" by (rule arg_cong)
    then have "?sq = 0" by (simp only: sum_list_0)
    then show ?thesis using True False assms(1) by (simp add: variance_def int_variance_def Let_def)
  next
    case nz: False
    have "uint ((\<Sum>x\<leftarrow>a. (x - word_of_int ?m) * (x - word_of_int ?m)) div of_nat (length xs)) = ?sq div ?n"
      by (simp add: uint_div_distrib sq n)
    moreover have "variance a = (\<Sum>x\<leftarrow>a. (x - word_of_int ?m) * (x - word_of_int ?m)) div of_nat (length xs)"
      using nz False assms(1) m by (auto simp: variance_def Let_def)
    ultimately show ?thesis by (simp add: int_variance_def Let_def)
  qed
qed

theorem variance_is_exact_witness: "uint (variance [10, 90, 50]) = 1066"
  using variance_is_exact [of "[10, 90, 50]" "[10, 90, 50]"] by (simp add: int_variance_def)

section \<open>The dry run\<close>

lemma cross_rxqs_total:
  "\<forall>r\<in>set rs. rq_pmd (dp_rxqs dp ! r) \<noteq> None \<Longrightarrow> \<exists>b. cross_rxqs dp rs = Inr b"
  by (induction rs) auto

lemma cross_pmds_total:
  "\<forall>s\<in>set ss. \<forall>r\<in>set (sp_rxqs s). rq_pmd (dp_rxqs dp ! r) \<noteq> None \<Longrightarrow> \<exists>b. cross_pmds dp ss = Inr b"
proof (induction ss)
  case (Cons s ss)
  then obtain b where "cross_pmds dp ss = Inr b" by auto
  moreover obtain c where "cross_rxqs dp (sp_rxqs s) = Inr c" using cross_rxqs_total Cons.prems by force
  ultimately show ?case by (cases c; cases "sp_isolated s") auto
qed (auto simp: exI [of _ False])

text \<open>
  The check for queues on another node looks at the threads that the queues have now, not at
  those of the estimate: only the queues of the lists that are not isolated matter.
\<close>

lemma cross_rxqs_append:
  "cross_rxqs dp (xs @ ys) = bindr (cross_rxqs dp xs) (\<lambda>b. if b then Inr True else cross_rxqs dp ys)"
  by (induction xs) (auto split: option.split)

lemma cross_check_queues:
  "sched_numa_list_cross_numa_polling numas dp =
     cross_rxqs dp (concat (map sp_rxqs (filter (\<lambda>s. \<not> sp_isolated s) (all_pmds numas))))"
proof -
  have "cross_pmds dp ss = cross_rxqs dp (concat (map sp_rxqs (filter (\<lambda>s. \<not> sp_isolated s) ss)))" for ss
    by (induction ss) (simp_all add: cross_rxqs_append cong: if_cong)
  then show ?thesis by (simp add: sched_numa_list_cross_numa_polling_def)
qed

lemma six_times_zero:
  fixes t :: u64
  assumes "t * 6 = 0" and "t \<noteq> 0"
  shows "t = 2 ^ 63"
proof -
  have "2 ^ 64 dvd uint t * 6"
  proof -
    have "uint (t * 6) = uint t * 6 mod 2 ^ 64" by (simp add: uint_word_ariths)
    then show ?thesis using assms(1) by (simp add: mod_eq_0_iff_dvd)
  qed
  then have "(2::int) * 2 ^ 63 dvd 2 * (3 * uint t)" by (simp add: mult.commute)
  then have "(2::int) ^ 63 dvd 3 * uint t" unfolding dvd_mult_cancel_left by simp
  moreover have "coprime ((2::int) ^ 63) 3" unfolding coprime_power_left_iff by simp
  ultimately have "2 ^ 63 dvd uint t" by (simp only: coprime_dvd_mult_right_iff)
  then obtain k where k: "uint t = 2 ^ 63 * k" by blast
  have "uint t \<noteq> 0" using assms(2) by (simp add: word_uint_eq_iff)
  then have "0 < uint t" using uint_ge_0 [of t] by linarith
  moreover have "uint t < 2 ^ 64" using uint_lt2p [of t] by simp
  ultimately have "k = 1" using k by simp
  then have "uint t = uint (2 ^ 63 :: u64)" using k by simp
  then show ?thesis by (simp only: word_uint_eq_iff)
qed

lemma percents_total:
  "\<forall>s\<in>set ss. pmd_intrvl_cycles (threads ! sp_pmd s) \<noteq> 2 ^ 63 \<Longrightarrow> \<exists>ps. percents threads ss = Inr ps"
proof (induction ss)
  case (Cons s ss)
  then obtain ps where ps: "percents threads ss = Inr ps" by auto
  have "\<exists>p. percent_busy threads s = Inr p"
  proof (cases "pmd_intrvl_cycles (threads ! sp_pmd s) = 0")
    case False
    then have "pmd_intrvl_cycles (threads ! sp_pmd s) * 6 \<noteq> 0" using six_times_zero Cons.prems by auto
    then show ?thesis using False by (simp add: percent_busy_def PMD_INTERVAL_MAX_def)
  qed (simp add: percent_busy_def)
  then show ?case using ps by auto
qed simp

lemma improvement_total: "\<exists>i. improvement c e = Inr i"
proof -
  have "c \<noteq> 0" if "e < c" using that by auto
  then show ?thesis by (cases "e < c") (simp_all add: improvement_def)
qed

lemma assignments_ptrs: "pmd_ptrs (sched_numa_list_assignments numas dp) = pmd_ptrs numas"
proof -
  have upd: "pmd_ptrs (upd_pmd ns pos f) = pmd_ptrs ns" if "at_place ns pos" "\<And>s. sp_pmd (f s) = sp_pmd s" for ns pos f
  proof -
    have "map sp_pmd ((nm_pmds (ns ! fst pos))[snd pos := f (nm_pmds (ns ! fst pos) ! snd pos)]) =
        map sp_pmd (nm_pmds (ns ! fst pos))"
      using that by (intro map_update_same) (simp_all add: at_place_def)
    then show ?thesis
      using that(1) by (cases pos) (simp add: pmd_ptrs_concat upd_pmd_def map_update_same at_place_def)
  qed
  have at: "at_place (upd_pmd ns pos f) pos = at_place ns pos" for ns pos f
    by (cases pos; cases "fst pos < length ns") (simp_all add: at_place_def upd_pmd_def)
  have step: "pmd_ptrs (assign_current dp r ns) = pmd_ptrs ns" for r ns
  proof (cases "sched_pmd_find_by_pmd ns (rq_pmd (dp_rxqs dp ! r))")
    case (Some pos)
    then have "at_place ns pos" using find_by_pmd_result [where numas = ns and pmd = "rq_pmd (dp_rxqs dp ! r)"] by simp
    then show ?thesis using Some by (simp add: assign_current_def upd at sched_pmd_add_rxq_def)
  qed (simp add: assign_current_def)
  have "pmd_ptrs (fold (assign_current dp) rs numas) = pmd_ptrs numas" for rs
    by (induction rs arbitrary: numas) (simp_all add: step)
  then show ?thesis by (simp add: sched_numa_list_assignments_def)
qed

text \<open>A dry run is safe.  When every queue that is polled has a thread, a dry run returns:
  it dereferences no null pointer and divides by no zero (unless a thread counts exactly
  \<open>2\<^sup>63\<close> cycles, whose product with the number of intervals wraps around to 0), and it changes
  nothing but the stored cycle history of the queues, in particular no assignment.\<close>

theorem dry_run_is_safe:
  assumes "sched_ok dp" and "\<forall>r\<in>set (polled_rxqs (dp_ports dp)). rq_pmd (dp_rxqs dp ! r) \<noteq> None"
    and "\<forall>t\<in>set (poll_threads dp). pmd_intrvl_cycles t \<noteq> 2 ^ 63"
  shows "\<exists>b. pmd_rebalance_dry_run pos dp = Inr (b, dp\<lparr>dp_rxqs :=
           store_hist (pmd_rxq_assign_type dp) (polled_rxqs (dp_ports dp)) (dp_rxqs dp)\<rparr>)"
proof -
  let ?qs = "polled_rxqs (dp_ports dp)" and ?threads = "poll_threads dp"
  let ?numas = "sched_numa_list_populate pos ?threads"
  obtain rxqs est where st: "sched_numa_list_schedule ?numas dp (pmd_rxq_assign_type dp) = (rxqs, est)"
    by (cases "sched_numa_list_schedule ?numas dp (pmd_rxq_assign_type dp)")
  note res = schedule_result [OF assms(1) st]
  let ?cur = "sched_numa_list_assignments ?numas dp" and ?dp' = "dp\<lparr>dp_rxqs := rxqs\<rparr>"
  have "set (all_rxqs est) \<subseteq> set ?qs" using res(5) by (metis set_mset_mono set_mset_mset)
  moreover have "rq_pmd (rxqs ! r) \<noteq> None" if "r \<in> set ?qs" for r
    using that assms(1,2) by (auto simp: res(1) store_hist_fields sched_ok_def)
  ultimately have "\<forall>s\<in>set (all_pmds est). \<forall>r\<in>set (sp_rxqs s). rq_pmd (dp_rxqs ?dp' ! r) \<noteq> None"
    by (auto simp: all_rxqs_def)
  then obtain cross where cross: "sched_numa_list_cross_numa_polling est ?dp' = Inr cross"
    unfolding sched_numa_list_cross_numa_polling_def using cross_pmds_total by blast
  have var: "\<exists>v. sched_numa_list_variance ns ?threads = Inr v" if "set (pmd_ptrs ns) \<subseteq> {..<length ?threads}" for ns
  proof -
    have "pmd_intrvl_cycles (?threads ! sp_pmd s) \<noteq> 2 ^ 63" if s: "s \<in> set (all_pmds ns)" for s
    proof -
      have "sp_pmd s < length ?threads" using s that \<open>set (pmd_ptrs ns) \<subseteq> _\<close> by (auto simp: pmd_ptrs_def)
      then show ?thesis using assms(3) by simp
    qed
    then obtain ps where "percents ?threads (all_pmds ns) = Inr ps" using percents_total by blast
    then show ?thesis by (simp add: sched_numa_list_variance_def)
  qed
  have "set (pmd_ptrs est) \<subseteq> {..<length ?threads}" using res(3) by blast
  then obtain ev where ev: "sched_numa_list_variance est ?threads = Inr ev" using var by blast
  have "set (pmd_ptrs ?cur) \<subseteq> {..<length ?threads}"
    unfolding assignments_ptrs using populated_numas(3) [OF populate_result] by blast
  then obtain cv where cv: "sched_numa_list_variance ?cur ?threads = Inr cv" using var by blast
  obtain i where i: "improvement cv ev = Inr i" using improvement_total by blast
  show ?thesis
    using st cross ev cv i by (auto simp: pmd_rebalance_dry_run_def Let_def res(1) intro: exI [of _ False])
qed

theorem dry_run_is_safe_witness:
  "\<exists>b dp'. pmd_rebalance_dry_run demo_pos (reconfigure_scheduling demo_pos (demo_dp SCHED_GROUP)) = Inr (b, dp')"
proof -
  let ?dp = "reconfigure_scheduling demo_pos (demo_dp SCHED_GROUP)"
  have len: "length (dp_rxqs ?dp) = 5" by code_simp
  have "sched_ok ?dp" unfolding sched_ok_def demo_ports demo_polled len by auto
  moreover have "\<forall>r\<in>set (polled_rxqs (dp_ports ?dp)). rq_pmd (dp_rxqs ?dp ! r) \<noteq> None" by code_simp
  moreover have "map pmd_intrvl_cycles (poll_threads ?dp) = [1000, 1000, 1000]" by code_simp
  then have "\<forall>t\<in>set (poll_threads ?dp). pmd_intrvl_cycles t \<noteq> 2 ^ 63" by (auto simp: map_eq_Cons_conv)
  ultimately show ?thesis using dry_run_is_safe [of ?dp demo_pos] by blast
qed

section \<open>Whether a dry run is worth it\<close>

text \<open>The threads that count, and those of them with more than one queue.\<close>

definition counted :: "dp_netdev_pmd_thread \<Rightarrow> bool" where
  "counted t \<longleftrightarrow> pmd_core_id t \<noteq> None \<and> \<not> pmd_isolated t"

lemma needed_loop_result:
  "needed_loop ts cnt multi \<longleftrightarrow>
     (\<exists>t\<in>set ts. counted t) \<and> (multi \<or> (\<exists>t\<in>set ts. counted t \<and> 1 < pmd_poll_count t)) \<and>
     1 < cnt + length (filter counted ts)"
proof (induction ts arbitrary: cnt multi)
  case (Cons t ts)
  have none: "length (filter counted ts) = 0 \<longleftrightarrow> \<not> (\<exists>t\<in>set ts. counted t)" by (auto simp: filter_empty_conv)
  show ?case
  proof (cases "counted t")
    case True
    then show ?thesis using none by (auto simp: Cons.IH counted_def Let_def)
  next
    case False
    then show ?thesis by (auto simp: Cons.IH counted_def)
  qed
qed simp

text \<open>When a dry run is done.  After a change of the configuration a dry run is done exactly
  when the algorithm is not round robin, at least two threads are not isolated and one of them
  polls more than one queue; the answer is kept, so that without another change the next call
  gives the same one and changes nothing.\<close>

theorem dry_run_needed_is_cached:
  assumes "pmd_rebalance_dry_run_needed dp = (b, dp')"
  shows "(recheck_config (pmd_alb dp) \<longrightarrow>
            b = (pmd_rxq_assign_type dp \<noteq> SCHED_ROUNDROBIN \<and> 2 \<le> length (filter counted (poll_threads dp)) \<and>
                 (\<exists>t\<in>set (poll_threads dp). counted t \<and> 1 < pmd_poll_count t))) \<and>
         pmd_rebalance_dry_run_needed dp' = (b, dp') \<and>
         dp'\<lparr>pmd_alb := pmd_alb dp\<rparr> = dp"
proof (cases "recheck_config (pmd_alb dp)")
  case False
  then show ?thesis using assms by (auto simp: pmd_rebalance_dry_run_needed_def)
next
  case True
  have "(\<exists>t\<in>set ts. counted t) \<and> 1 < length (filter counted ts) \<longleftrightarrow> 2 \<le> length (filter counted ts)" for ts
    by (cases "filter counted ts") (auto simp: filter_empty_conv Suc_le_eq dest: filter_eq_ConsD)
  then show ?thesis
    using True assms needed_loop_result [of "poll_threads dp" 0 False]
    by (auto simp: pmd_rebalance_dry_run_needed_def Let_def)
qed

theorem dry_run_needed_is_cached_witness:
  "fst (pmd_rebalance_dry_run_needed (demo_dp SCHED_GROUP)) \<and> \<not> fst (pmd_rebalance_dry_run_needed (demo_dp SCHED_ROUNDROBIN))"
proof -
  have "recheck_config (pmd_alb (demo_dp algo))" "length (filter counted (poll_threads (demo_dp algo))) = 3"
    "\<exists>t\<in>set (poll_threads (demo_dp algo)). counted t \<and> 1 < pmd_poll_count t"
    "pmd_rxq_assign_type (demo_dp algo) = algo" for algo
    by (simp_all add: demo_dp_def demo_thread_def counted_def)
  then show ?thesis
    using dry_run_needed_is_cached [OF prod.collapse [symmetric], of "demo_dp SCHED_GROUP"]
      dry_run_needed_is_cached [OF prod.collapse [symmetric], of "demo_dp SCHED_ROUNDROBIN"] by simp
qed

end
