(* ===== verification/Dpif_Key.thy ===== *)
theory Dpif_Key
  imports Repath_Prelude
begin

text \<open>
  Flow keys of the datapath (\<open>dpif-netdev.c\<close>): a sparse flow as a map of the words that are
  present and their values, masks and masked keys, the masks of the classifier's lookup
  functions, and the test whether a rule matches a key.
\<close>

section \<open>Keys\<close>

type_synonym flowmap = "u64 \<times> u64"

record netdev_flow_key =
  nk_hash :: u32
  nk_len :: u32
  nk_map :: flowmap
  nk_buf :: "u64 list"

record 'flow match =
  match_flow :: 'flow
  match_masks :: 'flow

text \<open>
  What \<open>flow.h\<close> and \<open>hash.h\<close> of the library provide: the indexes in a map in their order
  (\<open>FLOWMAP_FOR_EACH_INDEX\<close>), setting an index (\<open>flowmap_set\<close>), a word of a flow
  (\<open>flow_u64_value\<close>), the words that make sense for a flow (\<open>flow_wc_map\<close>), the values of a key
  at the indexes of a map (\<open>NETDEV_FLOW_KEY_FOR_EACH_IN_FLOWMAP\<close>), the number of bits
  (\<open>count_1bits\<close>) and hashing.
\<close>

record 'flow flow_env =
  fe_indices :: "flowmap \<Rightarrow> nat list"
  fe_set :: "flowmap \<Rightarrow> nat \<Rightarrow> flowmap"
  fe_value :: "'flow \<Rightarrow> nat \<Rightarrow> u64"
  fe_wc_map :: "'flow \<Rightarrow> flowmap"
  fe_key_values :: "netdev_flow_key \<Rightarrow> flowmap \<Rightarrow> u64 list"
  fe_key_size :: "nat \<Rightarrow> u32"
  fe_count_1bits :: "u64 \<Rightarrow> u32"
  fe_hash_add64 :: "u32 \<Rightarrow> u64 \<Rightarrow> u32"
  fe_hash_finish :: "u32 \<Rightarrow> u64 \<Rightarrow> u32"

text \<open>The value of a key at an index: 0 where the key has none.\<close>

definition key_flow :: "'flow flow_env \<Rightarrow> netdev_flow_key \<Rightarrow> nat \<Rightarrow> u64" where
  "key_flow E k i = (case map_of (zip (fe_indices E (nk_map k)) (nk_buf k)) i of Some v \<Rightarrow> v | None \<Rightarrow> 0)"

definition bits_of :: "u64 \<Rightarrow> nat list" where
  "bits_of w = filter (bit w) [0..<64]"

text \<open>The documented behaviour of these functions.\<close>

definition flow_env_ok :: "'flow flow_env \<Rightarrow> bool" where
  "flow_env_ok E \<longleftrightarrow>
     (\<forall>m. sorted (fe_indices E m) \<and> distinct (fe_indices E m) \<and> (\<forall>i\<in>set (fe_indices E m). i < 128)) \<and>
     fe_indices E (0, 0) = [] \<and>
     (\<forall>m i. i < 128 \<longrightarrow> set (fe_indices E (fe_set E m i)) = insert i (set (fe_indices E m))) \<and>
     (\<forall>k m. fe_key_values E k m = map (key_flow E k) (fe_indices E m)) \<and>
     (\<forall>n\<le>128. fe_key_size E n = of_nat (16 + 8 * n)) \<and>
     (\<forall>w. fe_count_1bits E w = of_nat (length (bits_of w)))"

section \<open>Comparing and copying\<close>

text \<open>The number of values in the first \<open>len\<close> bytes of a miniflow, whose map takes 16 bytes.\<close>

definition key_words :: "u32 \<Rightarrow> nat" where
  "key_words len = (unat len - 16) div 8"

definition netdev_flow_key_equal :: "netdev_flow_key \<Rightarrow> netdev_flow_key \<Rightarrow> bool" where
  "netdev_flow_key_equal a b \<longleftrightarrow> nk_hash a = nk_hash b \<and> nk_map a = nk_map b \<and>
     take (key_words (nk_len a)) (nk_buf a) = take (key_words (nk_len a)) (nk_buf b)"

definition netdev_flow_key_clone :: "netdev_flow_key \<Rightarrow> netdev_flow_key \<Rightarrow> netdev_flow_key" where
  "netdev_flow_key_clone dst src =
     (let n = key_words (nk_len src) in
      dst\<lparr>nk_hash := nk_hash src, nk_len := nk_len src, nk_map := nk_map src,
          nk_buf := take n (nk_buf src) @ drop n (nk_buf dst)\<rparr>)"

section \<open>Masks and masked keys\<close>

text \<open>The values are written to the memory of \<open>mask\<close>, whose old contents stay behind them.\<close>

definition mask_step ::
  "'flow flow_env \<Rightarrow> 'flow match \<Rightarrow> nat \<Rightarrow> flowmap \<times> u64 list \<times> u32 \<Rightarrow> flowmap \<times> u64 list \<times> u32" where
  "mask_step E mt idx st =
     (case st of (fmap, dst, hash) \<Rightarrow>
        let mask_u64 = fe_value E (match_masks mt) idx in
        if mask_u64 \<noteq> 0 then (fe_set E fmap idx, dst @ [mask_u64], fe_hash_add64 E hash mask_u64)
        else (fmap, dst, hash))"

definition netdev_flow_mask_init :: "'flow flow_env \<Rightarrow> netdev_flow_key \<Rightarrow> 'flow match \<Rightarrow> netdev_flow_key" where
  "netdev_flow_mask_init E msk mt =
     (let (fmap, dst, hash) = fold (mask_step E mt) (fe_indices E (fe_wc_map E (match_flow mt))) ((0, 0), [], 0);
          hash = fe_hash_add64 E (fe_hash_add64 E hash (fst fmap)) (snd fmap);
          n = length dst
      in msk\<lparr>nk_map := fmap, nk_buf := dst @ drop n (nk_buf msk),
             nk_hash := fe_hash_finish E hash (of_nat (n * 8)), nk_len := fe_key_size E n\<rparr>)"

fun masked_loop ::
  "'flow flow_env \<Rightarrow> u64 list \<Rightarrow> u64 list \<Rightarrow> u32 \<Rightarrow> (u64 list \<times> u32) c_result" where
  "masked_loop E [] ms hash = Inr ([], hash)"
| "masked_loop E (v # vs) [] hash = Inl Out_Of_Bounds"
| "masked_loop E (v # vs) (m # ms) hash =
     bindr (masked_loop E vs ms (fe_hash_add64 E hash (v AND m))) (\<lambda>(ds, h). Inr ((v AND m) # ds, h))"

definition netdev_flow_key_init_masked ::
  "'flow flow_env \<Rightarrow> netdev_flow_key \<Rightarrow> 'flow \<Rightarrow> netdev_flow_key \<Rightarrow> netdev_flow_key c_result" where
  "netdev_flow_key_init_masked E dst flow msk =
     bindr (masked_loop E (map (fe_value E flow) (fe_indices E (nk_map msk))) (nk_buf msk) 0) (\<lambda>(ds, hash).
       Inr (dst\<lparr>nk_len := nk_len msk, nk_map := nk_map msk, nk_buf := ds @ drop (length ds) (nk_buf dst),
               nk_hash := fe_hash_finish E hash (of_nat (length ds * 8))\<rparr>))"

section \<open>The masks of the lookup functions\<close>

fun gen_mask_loop :: "u64 \<Rightarrow> nat \<Rightarrow> u64 list \<Rightarrow> u64 list c_result" where
  "gen_mask_loop iter 0 ms = (if iter = 0 then Inr ms else Inl Assert_Failed)"
| "gen_mask_loop iter (Suc n) ms =
     (let lowest_bit = iter AND - iter
      in gen_mask_loop (iter AND NOT lowest_bit) n (ms @ [lowest_bit - 1]))"

definition dpcls_flow_key_gen_mask_unit :: "u64 \<Rightarrow> u32 \<Rightarrow> u64 list c_result" where
  "dpcls_flow_key_gen_mask_unit iter count = gen_mask_loop iter (unat count) []"

definition dpcls_flow_key_gen_masks :: "netdev_flow_key \<Rightarrow> u32 \<Rightarrow> u32 \<Rightarrow> u64 list c_result" where
  "dpcls_flow_key_gen_masks tbl bits_u0 bits_u1 =
     bindr (dpcls_flow_key_gen_mask_unit (fst (nk_map tbl)) bits_u0) (\<lambda>m0.
     bindr (dpcls_flow_key_gen_mask_unit (snd (nk_map tbl)) bits_u1) (\<lambda>m1. Inr (m0 @ m1)))"

section \<open>Matching\<close>

fun match_loop :: "u64 list \<Rightarrow> u64 list \<Rightarrow> u64 list \<Rightarrow> bool c_result" where
  "match_loop [] ms ks = Inr True"
| "match_loop (v # vs) (m # ms) (k # ks) = (if v AND m \<noteq> k then Inr False else match_loop vs ms ks)"
| "match_loop (v # vs) _ _ = Inl Out_Of_Bounds"

text \<open>The rule is its flow key and the mask it refers to.\<close>

definition dpcls_rule_matches_key ::
  "'flow flow_env \<Rightarrow> netdev_flow_key \<Rightarrow> netdev_flow_key \<Rightarrow> netdev_flow_key \<Rightarrow> bool c_result" where
  "dpcls_rule_matches_key E msk flow target =
     match_loop (fe_key_values E target (nk_map flow)) (nk_buf msk) (nk_buf flow)"

section \<open>Laws\<close>

lemma flow_env_okD:
  assumes "flow_env_ok E"
  shows "sorted (fe_indices E m)" and "distinct (fe_indices E m)" and "i \<in> set (fe_indices E m) \<Longrightarrow> i < 128"
    and "fe_indices E (0, 0) = []"
    and "i < 128 \<Longrightarrow> set (fe_indices E (fe_set E m i)) = insert i (set (fe_indices E m))"
    and "fe_key_values E k m = map (key_flow E k) (fe_indices E m)"
    and "n \<le> 128 \<Longrightarrow> fe_key_size E n = of_nat (16 + 8 * n)"
    and "fe_count_1bits E w = of_nat (length (bits_of w))"
  using assms unfolding flow_env_ok_def by blast+

lemma length_indices: "flow_env_ok E \<Longrightarrow> length (fe_indices E m) \<le> 128"
proof -
  assume ok: "flow_env_ok E"
  have "set (fe_indices E m) \<subseteq> {..<128}" using flow_env_okD(3) [OF ok] by blast
  then have "card (set (fe_indices E m)) \<le> 128" by (metis card_lessThan card_mono finite_lessThan)
  then show ?thesis using flow_env_okD(2) [OF ok] by (simp add: distinct_card)
qed

text \<open>A key in which every index of the map has its value.\<close>

definition key_ok :: "'flow flow_env \<Rightarrow> netdev_flow_key \<Rightarrow> bool" where
  "key_ok E k \<longleftrightarrow> nk_len k = fe_key_size E (length (fe_indices E (nk_map k))) \<and>
     length (fe_indices E (nk_map k)) \<le> length (nk_buf k)"

lemma key_words_size:
  assumes "flow_env_ok E" and "n \<le> 128"
  shows "key_words (fe_key_size E n) = n"
proof -
  have "unat (of_nat (16 + 8 * n) :: u32) = 16 + 8 * n"
    using assms(2) by (simp only: unat_of_nat) simp
  then show ?thesis by (simp add: flow_env_okD(7) [OF assms] key_words_def)
qed

lemma key_flow_nth:
  assumes "flow_env_ok E" and "p < length (fe_indices E (nk_map k))" and "p < length (nk_buf k)"
  shows "key_flow E k (fe_indices E (nk_map k) ! p) = nk_buf k ! p"
proof -
  let ?is = "fe_indices E (nk_map k)"
  have "map_of (zip ?is (nk_buf k)) (?is ! p) = Some (nk_buf k ! p)"
  proof (rule map_of_is_SomeI)
    show "distinct (map fst (zip ?is (nk_buf k)))"
      using flow_env_okD(2) [OF assms(1)] by (simp add: map_fst_zip_take)
    show "(?is ! p, nk_buf k ! p) \<in> set (zip ?is (nk_buf k))"
      using assms(2,3) by (auto simp: set_zip)
  qed
  then show ?thesis by (simp add: key_flow_def)
qed

lemma key_flow_outside: "i \<notin> set (fe_indices E (nk_map k)) \<Longrightarrow> key_flow E k i = 0"
  by (auto simp: key_flow_def split: option.split dest!: map_of_SomeD set_zip_leftD)

lemma key_values:
  assumes "flow_env_ok E" and "key_ok E k"
  shows "take (length (fe_indices E (nk_map k))) (nk_buf k) = map (key_flow E k) (fe_indices E (nk_map k))"
  using assms key_flow_nth [OF assms(1)] by (intro nth_equalityI) (simp_all add: key_ok_def)

section \<open>Initialising masks and masked keys\<close>

lemma fold_mask_step:
  assumes "flow_env_ok E" and "\<forall>i\<in>set xs. i < 128"
  shows "\<exists>fmap h. fold (mask_step E mt) xs (m0, d0, h0) =
           (fmap, d0 @ map (fe_value E (match_masks mt)) (filter (\<lambda>i. fe_value E (match_masks mt) i \<noteq> 0) xs), h) \<and>
         set (fe_indices E fmap) = set (fe_indices E m0) \<union> {i \<in> set xs. fe_value E (match_masks mt) i \<noteq> 0}"
  using assms(2)
proof (induction xs arbitrary: m0 d0 h0)
  case (Cons x xs)
  show ?case
  proof (cases "fe_value E (match_masks mt) x = 0")
    case True
    with Cons.IH [of m0 d0 h0] Cons.prems show ?thesis by (auto simp: mask_step_def)
  next
    case False
    have "set (fe_indices E (fe_set E m0 x)) = insert x (set (fe_indices E m0))"
      using flow_env_okD(5) [OF assms(1)] Cons.prems by simp
    with False Cons.IH [of "fe_set E m0 x" "d0 @ [fe_value E (match_masks mt) x]"
        "fe_hash_add64 E h0 (fe_value E (match_masks mt) x)"] Cons.prems
    show ?thesis by (auto simp: mask_step_def Let_def)
  qed
qed simp

definition masked_indices :: "'flow flow_env \<Rightarrow> 'flow match \<Rightarrow> nat list" where
  "masked_indices E mt =
     filter (\<lambda>i. fe_value E (match_masks mt) i \<noteq> 0) (fe_indices E (fe_wc_map E (match_flow mt)))"

lemma mask_init_key:
  assumes ok: "flow_env_ok E" and msk_def: "msk = netdev_flow_mask_init E msk0 mt"
  shows "fe_indices E (nk_map msk) = masked_indices E mt"
    and "take (length (masked_indices E mt)) (nk_buf msk) = map (fe_value E (match_masks mt)) (masked_indices E mt)"
    and "key_ok E msk"
proof -
  let ?xs = "fe_indices E (fe_wc_map E (match_flow mt))"
  let ?v = "fe_value E (match_masks mt)"
  obtain fmap h where fold: "fold (mask_step E mt) ?xs ((0, 0), [], 0) = (fmap, map ?v (masked_indices E mt), h)"
    and set: "set (fe_indices E fmap) = set (masked_indices E mt)"
    using fold_mask_step [OF ok, of ?xs mt "(0, 0)" "[]" 0] flow_env_okD(3,4) [OF ok]
    by (auto simp: masked_indices_def)
  have ix: "fe_indices E fmap = masked_indices E mt"
    using set flow_env_okD(1,2) [OF ok]
    by (intro sorted_distinct_set_unique) (simp_all add: masked_indices_def sorted_filter [where f = id, simplified])
  show "fe_indices E (nk_map msk) = masked_indices E mt"
    by (simp add: msk_def netdev_flow_mask_init_def fold ix Let_def)
  show "take (length (masked_indices E mt)) (nk_buf msk) = map ?v (masked_indices E mt)"
    by (simp add: msk_def netdev_flow_mask_init_def fold Let_def)
  show "key_ok E msk"
    by (simp add: key_ok_def msk_def netdev_flow_mask_init_def fold ix Let_def)
qed

lemma masked_loop_Inr:
  "length vs \<le> length ms \<Longrightarrow> \<exists>h. masked_loop E vs ms h0 = Inr (map2 (AND) vs ms, h)"
proof (induction E vs ms h0 rule: masked_loop.induct)
  case (3 E v vs m ms hash)
  then obtain h where "masked_loop E vs ms (fe_hash_add64 E hash (v AND m)) = Inr (map2 (AND) vs ms, h)"
    by auto
  then show ?case by simp
qed simp_all

lemma init_masked_key:
  assumes ok: "flow_env_ok E" and k: "key_ok E msk"
  shows "\<exists>key. netdev_flow_key_init_masked E dst flow msk = Inr key \<and> nk_map key = nk_map msk \<and> key_ok E key \<and>
           (\<forall>i. key_flow E key i = fe_value E flow i AND key_flow E msk i)"
proof -
  let ?is = "fe_indices E (nk_map msk)"
  let ?ds = "map2 (AND) (map (fe_value E flow) ?is) (nk_buf msk)"
  have len: "length ?is \<le> length (nk_buf msk)" using k by (simp add: key_ok_def)
  obtain h where loop: "masked_loop E (map (fe_value E flow) ?is) (nk_buf msk) 0 = Inr (?ds, h)"
    using masked_loop_Inr [of "map (fe_value E flow) ?is" "nk_buf msk" E 0] len by auto
  define key where "key = dst\<lparr>nk_len := nk_len msk, nk_map := nk_map msk, nk_buf := ?ds @ drop (length ?ds) (nk_buf dst),
               nk_hash := fe_hash_finish E h (of_nat (length ?ds * 8))\<rparr>"
  have key: "netdev_flow_key_init_masked E dst flow msk = Inr key"
    by (simp add: netdev_flow_key_init_masked_def loop key_def)
  have fields: "nk_map key = nk_map msk" "nk_len key = nk_len msk" "length (nk_buf key) \<ge> length ?is"
    using len by (simp_all add: key_def)
  have "key_flow E key i = fe_value E flow i AND key_flow E msk i" for i
  proof (cases "i \<in> set ?is")
    case True
    then obtain p where p: "p < length ?is" "i = ?is ! p" by (auto simp: in_set_conv_nth)
    have "key_flow E key i = nk_buf key ! p"
      using key_flow_nth [OF ok, of p key] p fields by simp
    moreover have "key_flow E msk i = nk_buf msk ! p"
      using key_flow_nth [OF ok, of p msk] p len by simp
    ultimately show ?thesis using p len by (simp add: key_def nth_append)
  next
    case False
    then show ?thesis using fields by (simp add: key_flow_outside)
  qed
  moreover have "key_ok E key" using k fields by (simp add: key_ok_def)
  ultimately show ?thesis using key fields by blast
qed

section \<open>Matching a rule\<close>

lemma match_loop_map:
  "length (xs :: nat list) \<le> length ms \<Longrightarrow> length xs \<le> length ks \<Longrightarrow>
     match_loop (map f xs) ms ks = Inr (\<forall>p<length xs. f (xs ! p) AND ms ! p = ks ! p)"
proof (induction "map f xs" ms ks arbitrary: xs rule: match_loop.induct)
  case (2 v vs m ms k ks)
  then obtain x ys where "xs = x # ys" by (cases xs) auto
  with 2 show ?case by (auto simp: All_less_Suc2)
qed (auto simp: neq_Nil_conv)

lemma rule_matches:
  assumes ok: "flow_env_ok E" and "key_ok E msk" and "key_ok E flow" and "nk_map flow = nk_map msk"
  shows "dpcls_rule_matches_key E msk flow target =
    Inr (\<forall>i\<in>set (fe_indices E (nk_map msk)). key_flow E target i AND key_flow E msk i = key_flow E flow i)"
proof -
  let ?is = "fe_indices E (nk_map msk)"
  have len: "length ?is \<le> length (nk_buf msk)" "length ?is \<le> length (nk_buf flow)"
    using assms by (simp_all add: key_ok_def)
  have "(key_flow E target (?is ! p) AND nk_buf msk ! p = nk_buf flow ! p) =
        (key_flow E target (?is ! p) AND key_flow E msk (?is ! p) = key_flow E flow (?is ! p))"
    if "p < length ?is" for p
    using key_flow_nth [OF ok, of p msk] key_flow_nth [OF ok, of p flow] that assms(4) len by simp
  then have "dpcls_rule_matches_key E msk flow target =
    Inr (\<forall>p<length ?is. key_flow E target (?is ! p) AND key_flow E msk (?is ! p) = key_flow E flow (?is ! p))"
    using len by (simp add: dpcls_rule_matches_key_def flow_env_okD(6) [OF ok] assms(4) match_loop_map)
  then show ?thesis by (simp add: all_set_conv_all_nth)
qed

text \<open>The keys that a match determines, and what it means for a packet to satisfy the match.\<close>

definition packet_matches :: "'flow flow_env \<Rightarrow> 'flow match \<Rightarrow> netdev_flow_key \<Rightarrow> bool" where
  "packet_matches E mt target \<longleftrightarrow> (\<forall>i\<in>set (fe_indices E (fe_wc_map E (match_flow mt))).
     key_flow E target i AND fe_value E (match_masks mt) i = fe_value E (match_flow mt) i AND fe_value E (match_masks mt) i)"

lemma mask_init_flow:
  assumes "flow_env_ok E"
  shows "key_flow E (netdev_flow_mask_init E msk0 mt) i =
    (if i \<in> set (fe_indices E (fe_wc_map E (match_flow mt))) then fe_value E (match_masks mt) i else 0)"
proof (cases "i \<in> set (masked_indices E mt)")
  case True
  then obtain p where p: "p < length (masked_indices E mt)" "i = masked_indices E mt ! p"
    by (auto simp: in_set_conv_nth)
  let ?m = "netdev_flow_mask_init E msk0 mt"
  note m = mask_init_key [OF assms refl, where ?msk0.0 = msk0 and mt = mt]
  have "length (masked_indices E mt) \<le> length (nk_buf ?m)" using m(3) m(1) by (simp add: key_ok_def)
  then have "key_flow E ?m i = nk_buf ?m ! p"
    using key_flow_nth [OF assms, of p ?m] m(1) p by simp
  also have "\<dots> = take (length (masked_indices E mt)) (nk_buf ?m) ! p" using p by simp
  also have "\<dots> = fe_value E (match_masks mt) i" using p m(2) by simp
  finally show ?thesis using True by (simp add: masked_indices_def)
next
  case False
  then show ?thesis
    using mask_init_key(1) [OF assms refl, where ?msk0.0 = msk0 and mt = mt] by (auto simp: key_flow_outside masked_indices_def)
qed

lemma match_of_rule:
  assumes ok: "flow_env_ok E"
  shows "\<exists>key. netdev_flow_key_init_masked E key0 (match_flow mt) (netdev_flow_mask_init E msk0 mt) = Inr key \<and>
    dpcls_rule_matches_key E (netdev_flow_mask_init E msk0 mt) key target = Inr (packet_matches E mt target)"
proof -
  let ?m = "netdev_flow_mask_init E msk0 mt"
  let ?ws = "fe_indices E (fe_wc_map E (match_flow mt))"
  obtain key where key: "netdev_flow_key_init_masked E key0 (match_flow mt) ?m = Inr key"
    "nk_map key = nk_map ?m" "key_ok E key" "\<forall>i. key_flow E key i = fe_value E (match_flow mt) i AND key_flow E ?m i"
    using init_masked_key [OF ok mask_init_key(3) [OF ok refl]] by blast
  have "dpcls_rule_matches_key E ?m key target =
    Inr (\<forall>i\<in>set (masked_indices E mt). key_flow E target i AND key_flow E ?m i = fe_value E (match_flow mt) i AND key_flow E ?m i)"
    using rule_matches [OF ok mask_init_key(3) [OF ok refl] key(3,2)] key(4) mask_init_key(1) [OF ok refl] by simp
  moreover have "(\<forall>i\<in>set (masked_indices E mt). key_flow E target i AND key_flow E ?m i = fe_value E (match_flow mt) i AND key_flow E ?m i)
    = packet_matches E mt target"
    by (auto simp: packet_matches_def mask_init_flow [OF ok] masked_indices_def)
  ultimately show ?thesis using key(1) by simp
qed

section \<open>The masks of a unit\<close>

lemma lowest_bit_int: "bit x i \<Longrightarrow> (\<forall>j<i. \<not> bit x j) \<Longrightarrow> x AND - x = (2 ^ i :: int)"
proof (induction i arbitrary: x)
  case 0
  then have "odd x" by (simp add: bit_0)
  then obtain y where x: "x = 2 * y + 1" by (elim oddE)
  have "- x div 2 = NOT y" using x by (simp add: not_int_def)
  then show ?case using x by (subst and_rec) simp
next
  case (Suc i)
  then have "even x" by (auto simp: bit_0)
  then obtain y where x: "x = 2 * y" by (elim evenE)
  have "y AND - y = 2 ^ i"
    using Suc.prems x by (intro Suc.IH) (auto simp: bit_double_iff dest: spec [of _ "Suc _"])
  moreover have "- x div 2 = - y" using x by simp
  ultimately show ?case using x by (subst and_rec) simp
qed

lemma lowest_bit_word:
  fixes w :: "'a::len word"
  assumes "bit w i" and "\<forall>j<i. \<not> bit w j"
  shows "w AND - w = push_bit i 1"
proof -
  have "i < LENGTH('a)" using bit_imp_le_length [OF assms(1)] by simp
  then have "uint w AND - uint w = 2 ^ i"
    using assms by (intro lowest_bit_int) (simp_all add: bit_uint_iff)
  then have "word_of_int (uint w AND - uint w) = (2 ^ i :: 'a word)" by simp
  then show ?thesis by (simp add: push_bit_eq_mult of_int_and_eq)
qed

lemma clear_lowest_bit:
  fixes w :: "'a::len word"
  assumes "bit w i" and "\<forall>j<i. \<not> bit w j" and "j < LENGTH('a)"
  shows "bit (w AND (w - 1)) j \<longleftrightarrow> bit w j \<and> j \<noteq> i"
proof -
  have "w - 1 = NOT (- w)" by (simp add: not_eq_complement)
  then have "w AND (w - 1) = w AND NOT (w AND - w)" by (simp add: bit.conj_disj_distrib)
  then show ?thesis using assms by (auto simp: lowest_bit_word [OF assms(1,2)] bit_simps)
qed

lemma filter_upt_Cons:
  "filter P [a..<b] = x # xs \<Longrightarrow> a \<le> x \<and> x < b \<and> P x \<and> (\<forall>j. a \<le> j \<and> j < x \<longrightarrow> \<not> P j) \<and> xs = filter P [Suc x..<b]"
proof (induction "b - a" arbitrary: a)
  case (Suc n)
  then have ab: "a < b" by simp
  show ?case
  proof (cases "P a")
    case True
    then show ?thesis using Suc.prems ab by (auto simp: upt_conv_Cons)
  next
    case False
    then have "filter P [Suc a..<b] = x # xs" using Suc.prems ab by (simp add: upt_conv_Cons)
    moreover have "n = b - Suc a" using Suc.hyps(2) by simp
    ultimately have IH: "Suc a \<le> x \<and> x < b \<and> P x \<and> (\<forall>j. Suc a \<le> j \<and> j < x \<longrightarrow> \<not> P j) \<and> xs = filter P [Suc x..<b]"
      using Suc.hyps(1) by blast
    have "\<not> P j" if "a \<le> j" "j < x" for j
      using that False IH by (cases "j = a") simp_all
    then show ?thesis using IH by simp
  qed
qed simp

lemma bits_of_Cons:
  assumes "bits_of w = i # is'"
  shows "w AND - w = push_bit i 1" and "bits_of (w AND NOT (push_bit i 1)) = is'" and "i < 64"
proof -
  have i: "i < 64" "bit w i" "\<forall>j<i. \<not> bit w j" "is' = filter (bit w) [Suc i..<64]"
    using filter_upt_Cons [of "bit w" 0 64 i is'] assms by (simp_all add: bits_of_def)
  show "w AND - w = push_bit i 1" by (rule lowest_bit_word) (use i in simp_all)
  show "i < 64" by (rule i(1))
  have bit: "bit (w AND NOT (push_bit i 1)) j \<longleftrightarrow> bit w j \<and> j \<noteq> i" if "j < 64" for j
    using that i(1) by (auto simp: bit_simps)
  have "[0..<64] = [0..<i] @ i # [Suc i..<64]"
    using i(1) upt_add_eq_append [of 0 i "64 - i"] by (simp add: upt_conv_Cons)
  moreover have "filter (bit (w AND NOT (push_bit i 1))) [0..<i] = []"
    using i bit by (auto simp: filter_empty_conv)
  moreover have "filter (bit (w AND NOT (push_bit i 1))) [Suc i..<64] = filter (bit w) [Suc i..<64]"
    using bit by (intro filter_cong) auto
  ultimately show "bits_of (w AND NOT (push_bit i 1)) = is'"
    using bit [of i] i by (simp add: bits_of_def)
qed

lemma bits_of_Nil: "bits_of w = [] \<Longrightarrow> w = 0"
  by (rule bit_word_eqI) (simp add: bits_of_def filter_empty_conv)

lemma bits_of_0 [simp]: "bits_of 0 = []"
  by (simp add: bits_of_def)

lemma gen_mask_loop_bits:
  "bits_of w = xs \<Longrightarrow> gen_mask_loop w (length xs) ms = Inr (ms @ map (\<lambda>i. push_bit i 1 - 1) xs)"
proof (induction xs arbitrary: w ms)
  case Nil
  then show ?case using bits_of_Nil by simp
next
  case (Cons i xs)
  show ?case using Cons.IH [OF bits_of_Cons(2) [OF Cons.prems]] bits_of_Cons(1) [OF Cons.prems]
    by (simp add: Let_def)
qed

lemma length_bits_of: "length (bits_of w) \<le> 64"
  unfolding bits_of_def by (rule order_trans [OF length_filter_le]) simp

lemma gen_masks_bits:
  assumes "flow_env_ok E"
  shows "dpcls_flow_key_gen_masks k (fe_count_1bits E (fst (nk_map k))) (fe_count_1bits E (snd (nk_map k))) =
    Inr (map (\<lambda>i. push_bit i 1 - 1) (bits_of (fst (nk_map k)) @ bits_of (snd (nk_map k))))"
proof -
  have "unat (fe_count_1bits E w) = length (bits_of w)" for w
    unfolding flow_env_okD(8) [OF assms]
    using length_bits_of [of w] by (simp only: unat_of_nat) simp
  then show ?thesis
    by (simp add: dpcls_flow_key_gen_masks_def dpcls_flow_key_gen_mask_unit_def gen_mask_loop_bits)
qed

end
