(* ===== verification/Dpif_Dpcls.thy ===== *)
theory Dpif_Dpcls
  imports Dpif_Key
begin

text \<open>
  The datapath classifier of \<open>dpif-netdev.c\<close> (\<open>dpcls_*\<close>): rules grouped into subtables by
  their mask, the vector of subtables in the order in which they are searched, insertion and
  removal of rules, the lookup of a batch of keys, and the periodic sorting by hits.
\<close>

section \<open>State\<close>

text \<open>
  A rule is part of a flow (\<open>struct dp_netdev_flow\<close>) and is identified by it; \<open>ru_mask\<close> is its
  pointer to the mask of its subtable, given as the address of the subtable, or null.
\<close>

record dpcls_rule =
  ru_id :: nat
  ru_mask :: "nat option"
  ru_flow :: netdev_flow_key

record dpcls_subtable =
  st_mask :: netdev_flow_key
  st_rules :: "dpcls_rule list"
  st_hit_cnt :: int
  st_bits_u0 :: u32
  st_bits_u1 :: u32
  st_mf_masks :: "u64 list"
  st_lookup_func :: nat

text \<open>
  The classifier of an input port.  \<open>cl_map\<close> is the hash map of its subtables (the hash of the
  mask and the address), \<open>cl_vec\<close> the vector that readers see (address and priority), and
  \<open>cl_tables\<close> what is stored at the addresses.
\<close>

record dpcls =
  cl_in_port :: u32
  cl_map :: "(u32 \<times> nat) list"
  cl_vec :: "(nat \<times> int) list"
  cl_tables :: "nat \<Rightarrow> dpcls_subtable option"

text \<open>
  What the classifier uses of other files: the choice of a lookup function for a subtable
  (\<open>dpcls_subtable_get_best_impl\<close>), the lookup functions themselves, which return the keys
  found, the rules and the subtable's new hit count, the allocator, and the vectors with
  priorities (\<open>pvector_*\<close>).
\<close>

record 'flow cls_env =
  ce_flow :: "'flow flow_env"
  ce_best_impl :: "u32 \<Rightarrow> u32 \<Rightarrow> nat"
  ce_lookup :: "nat \<Rightarrow> dpcls_subtable \<Rightarrow> u32 \<Rightarrow> netdev_flow_key list \<Rightarrow> dpcls_rule option list \<Rightarrow>
                  u32 \<times> dpcls_rule option list \<times> int"
  ce_alloc :: "nat list \<Rightarrow> nat"
  ce_pv_insert :: "(nat \<times> int) list \<Rightarrow> nat \<Rightarrow> int \<Rightarrow> (nat \<times> int) list"
  ce_pv_remove :: "(nat \<times> int) list \<Rightarrow> nat \<Rightarrow> (nat \<times> int) list"
  ce_pv_change_priority :: "(nat \<times> int) list \<Rightarrow> nat \<Rightarrow> int \<Rightarrow> (nat \<times> int) list"
  ce_pv_publish :: "(nat \<times> int) list \<Rightarrow> (nat \<times> int) list"

definition subtable_at :: "(nat \<Rightarrow> dpcls_subtable option) \<Rightarrow> nat \<Rightarrow> dpcls_subtable c_result" where
  "subtable_at tables p = (case tables p of None \<Rightarrow> Inl Null_Deref | Some st \<Rightarrow> Inr st)"

section \<open>Subtables\<close>

definition dpcls_init :: "u32 \<Rightarrow> dpcls" where
  "dpcls_init port = \<lparr>cl_in_port = port, cl_map = [], cl_vec = [], cl_tables = Map.empty\<rparr>"

definition dpcls_destroy_subtable :: "'flow cls_env \<Rightarrow> dpcls \<Rightarrow> nat \<Rightarrow> dpcls" where
  "dpcls_destroy_subtable C cls p =
     cls\<lparr>cl_vec := ce_pv_remove C (cl_vec cls) p,
         cl_map := filter (\<lambda>hp. snd hp \<noteq> p) (cl_map cls),
         cl_tables := (cl_tables cls)(p := None)\<rparr>"

fun destroy_loop :: "'flow cls_env \<Rightarrow> (u32 \<times> nat) list \<Rightarrow> dpcls \<Rightarrow> dpcls c_result" where
  "destroy_loop C [] cls = Inr cls"
| "destroy_loop C ((h, p) # hps) cls =
     bindr (subtable_at (cl_tables cls) p) (\<lambda>st.
       if st_rules st = [] then destroy_loop C hps (dpcls_destroy_subtable C cls p) else Inl Assert_Failed)"

definition dpcls_destroy :: "'flow cls_env \<Rightarrow> dpcls option \<Rightarrow> unit c_result" where
  "dpcls_destroy C ocls = (case ocls of None \<Rightarrow> Inr ()
     | Some cls \<Rightarrow> bindr (destroy_loop C (cl_map cls) cls) (\<lambda>_. Inr ()))"

definition fresh_key :: netdev_flow_key where
  "fresh_key = \<lparr>nk_hash = 0, nk_len = 0, nk_map = (0, 0), nk_buf = []\<rparr>"

definition dpcls_create_subtable :: "'flow cls_env \<Rightarrow> dpcls \<Rightarrow> netdev_flow_key \<Rightarrow> (nat \<times> dpcls) c_result" where
  "dpcls_create_subtable C cls msk =
     (let p = ce_alloc C (map snd (cl_map cls));
          unit0 = fe_count_1bits (ce_flow C) (fst (nk_map msk));
          unit1 = fe_count_1bits (ce_flow C) (snd (nk_map msk))
      in bindr (dpcls_flow_key_gen_masks msk unit0 unit1) (\<lambda>mf_masks.
           Inr (p, cls\<lparr>cl_map := (nk_hash msk, p) # cl_map cls,
                       cl_vec := ce_pv_publish C (ce_pv_insert C (cl_vec cls) p 0),
                       cl_tables := (cl_tables cls)(p \<mapsto>
                         \<lparr>st_mask = netdev_flow_key_clone fresh_key msk, st_rules = [], st_hit_cnt = 0,
                          st_bits_u0 = unit0, st_bits_u1 = unit1, st_mf_masks = mf_masks,
                          st_lookup_func = ce_best_impl C unit0 unit1\<rparr>)\<rparr>)))"

fun find_subtable_loop ::
  "(nat \<Rightarrow> dpcls_subtable option) \<Rightarrow> netdev_flow_key \<Rightarrow> (u32 \<times> nat) list \<Rightarrow> nat option c_result" where
  "find_subtable_loop tables msk [] = Inr None"
| "find_subtable_loop tables msk ((h, p) # hps) =
     (if h = nk_hash msk then
        bindr (subtable_at tables p) (\<lambda>st.
          if netdev_flow_key_equal (st_mask st) msk then Inr (Some p) else find_subtable_loop tables msk hps)
      else find_subtable_loop tables msk hps)"

definition dpcls_find_subtable :: "'flow cls_env \<Rightarrow> dpcls \<Rightarrow> netdev_flow_key \<Rightarrow> (nat \<times> dpcls) c_result" where
  "dpcls_find_subtable C cls msk =
     bindr (find_subtable_loop (cl_tables cls) msk (cl_map cls)) (\<lambda>found.
       case found of Some p \<Rightarrow> Inr (p, cls) | None \<Rightarrow> dpcls_create_subtable C cls msk)"

section \<open>Rules\<close>

definition dpcls_insert ::
  "'flow cls_env \<Rightarrow> dpcls \<Rightarrow> dpcls_rule \<Rightarrow> netdev_flow_key \<Rightarrow> (dpcls_rule \<times> dpcls) c_result" where
  "dpcls_insert C cls rule msk =
     bindr (dpcls_find_subtable C cls msk) (\<lambda>(p, cls).
     bindr (subtable_at (cl_tables cls) p) (\<lambda>st.
       let rule = rule\<lparr>ru_mask := Some p\<rparr>
       in Inr (rule, cls\<lparr>cl_tables := (cl_tables cls)(p \<mapsto> st\<lparr>st_rules := rule # st_rules st\<rparr>)\<rparr>)))"

text \<open>\<open>cmap_remove\<close> aborts on a node that is not in the map.\<close>

definition dpcls_remove :: "'flow cls_env \<Rightarrow> dpcls \<Rightarrow> dpcls_rule \<Rightarrow> dpcls c_result" where
  "dpcls_remove C cls rule =
     (case ru_mask rule of None \<Rightarrow> Inl Assert_Failed
      | Some p \<Rightarrow>
        bindr (subtable_at (cl_tables cls) p) (\<lambda>st.
          if ru_id rule \<notin> set (map ru_id (st_rules st)) then Inl Assert_Failed
          else
            let rules = filter (\<lambda>r. ru_id r \<noteq> ru_id rule) (st_rules st);
                cls = cls\<lparr>cl_tables := (cl_tables cls)(p \<mapsto> st\<lparr>st_rules := rules\<rparr>)\<rparr>
            in if length rules = 0 then
                 let cls = dpcls_destroy_subtable C cls p
                 in Inr (cls\<lparr>cl_vec := ce_pv_publish C (cl_vec cls)\<rparr>)
               else Inr cls))"

section \<open>Lookup\<close>

fun dpcls_lookup_loop ::
  "'flow cls_env \<Rightarrow> netdev_flow_key list \<Rightarrow> (nat \<times> int) list \<Rightarrow> (nat \<Rightarrow> dpcls_subtable option) \<Rightarrow> u32 \<Rightarrow>
     dpcls_rule option list \<Rightarrow> u32 \<Rightarrow> u32 \<Rightarrow>
     (bool \<times> dpcls_rule option list \<times> u32 \<times> (nat \<Rightarrow> dpcls_subtable option)) c_result" where
  "dpcls_lookup_loop C keys [] tables keys_map rules lookups_match pos = Inr (False, rules, lookups_match, tables)"
| "dpcls_lookup_loop C keys ((p, prio) # vec) tables keys_map rules lookups_match pos =
     bindr (subtable_at tables p) (\<lambda>st.
       let (found_map, rules, hits) = ce_lookup C (st_lookup_func st) st keys_map keys rules;
           tables = tables(p \<mapsto> st\<lparr>st_hit_cnt := hits\<rparr>);
           lookups_match = lookups_match + fe_count_1bits (ce_flow C) (ucast found_map) * pos;
           keys_map = keys_map AND NOT found_map
       in if keys_map = 0 then Inr (True, rules, lookups_match, tables)
          else dpcls_lookup_loop C keys vec tables keys_map rules lookups_match (pos + 1))"

definition MAP_BITS :: nat where
  "MAP_BITS = 32"

text \<open>A shift by the width of the type or more is undefined in C.\<close>

definition dpcls_lookup ::
  "'flow cls_env \<Rightarrow> dpcls \<Rightarrow> netdev_flow_key list \<Rightarrow> (bool \<times> dpcls_rule option list \<times> u32 \<times> dpcls) c_result" where
  "dpcls_lookup C cls keys =
     (let cnt = length keys in
      bindr (if cnt \<noteq> MAP_BITS then
               if cnt = 0 \<or> MAP_BITS < cnt then Inl Bad_Shift else Inr (drop_bit (MAP_BITS - cnt) (- 1 :: u32))
             else Inr (- 1)) (\<lambda>keys_map.
      bindr (dpcls_lookup_loop C keys (cl_vec cls) (cl_tables cls) keys_map (replicate cnt None) 0 1)
        (\<lambda>(all_found, rules, num_lookups, tables). Inr (all_found, rules, num_lookups, cls\<lparr>cl_tables := tables\<rparr>))))"

section \<open>Maintenance\<close>

fun reprobe_loop ::
  "'flow cls_env \<Rightarrow> (nat \<times> int) list \<Rightarrow> (nat \<Rightarrow> dpcls_subtable option) \<Rightarrow> u32 \<Rightarrow>
     (u32 \<times> (nat \<Rightarrow> dpcls_subtable option)) c_result" where
  "reprobe_loop C [] tables changed = Inr (changed, tables)"
| "reprobe_loop C ((p, prio) # vec) tables changed =
     bindr (subtable_at tables p) (\<lambda>st.
       let f = ce_best_impl C (st_bits_u0 st) (st_bits_u1 st)
       in reprobe_loop C vec (tables(p \<mapsto> st\<lparr>st_lookup_func := f\<rparr>))
            (changed + (if st_lookup_func st \<noteq> f then 1 else 0)))"

definition dpcls_subtable_lookup_reprobe :: "'flow cls_env \<Rightarrow> dpcls \<Rightarrow> (u32 \<times> dpcls) c_result" where
  "dpcls_subtable_lookup_reprobe C cls =
     bindr (reprobe_loop C (cl_vec cls) (cl_tables cls) 0) (\<lambda>(changed, tables).
       Inr (changed, cls\<lparr>cl_tables := tables\<rparr>))"

fun sort_loop ::
  "'flow cls_env \<Rightarrow> (nat \<times> int) list \<Rightarrow> (nat \<times> int) list \<Rightarrow> (nat \<Rightarrow> dpcls_subtable option) \<Rightarrow>
     ((nat \<times> int) list \<times> (nat \<Rightarrow> dpcls_subtable option)) c_result" where
  "sort_loop C [] pvec tables = Inr (pvec, tables)"
| "sort_loop C ((p, prio) # vec) pvec tables =
     bindr (subtable_at tables p) (\<lambda>st.
       sort_loop C vec (ce_pv_change_priority C pvec p (st_hit_cnt st)) (tables(p \<mapsto> st\<lparr>st_hit_cnt := 0\<rparr>)))"

definition dpcls_sort_subtable_vector :: "'flow cls_env \<Rightarrow> dpcls \<Rightarrow> dpcls c_result" where
  "dpcls_sort_subtable_vector C cls =
     bindr (sort_loop C (cl_vec cls) (cl_vec cls) (cl_tables cls)) (\<lambda>(pvec, tables).
       Inr (cls\<lparr>cl_vec := ce_pv_publish C pvec, cl_tables := tables\<rparr>))"

section \<open>The classifiers of a thread\<close>

text \<open>
  A thread has one classifier for each input port; \<open>hash_port_no\<close> only chooses the bucket of the
  hash map and is left out.
\<close>

fun dp_netdev_pmd_lookup_dpcls :: "dpcls list \<Rightarrow> u32 \<Rightarrow> dpcls option" where
  "dp_netdev_pmd_lookup_dpcls [] in_port = None"
| "dp_netdev_pmd_lookup_dpcls (cls # classifiers) in_port =
     (if cl_in_port cls = in_port then Some cls else dp_netdev_pmd_lookup_dpcls classifiers in_port)"

definition dp_netdev_pmd_find_dpcls :: "dpcls list \<Rightarrow> u32 \<Rightarrow> dpcls \<times> dpcls list" where
  "dp_netdev_pmd_find_dpcls classifiers in_port =
     (case dp_netdev_pmd_lookup_dpcls classifiers in_port of
        Some cls \<Rightarrow> (cls, classifiers)
      | None \<Rightarrow> let cls = dpcls_init in_port in (cls, cls # classifiers))"

text \<open>A change of a classifier is seen in the list of its thread.\<close>

definition store_dpcls :: "dpcls list \<Rightarrow> dpcls \<Rightarrow> dpcls list" where
  "store_dpcls classifiers cls = map (\<lambda>c. if cl_in_port c = cl_in_port cls then cls else c) classifiers"

text \<open>The input port is read from the key by \<open>MINIFLOW_GET_U32\<close>, here \<open>in_port\<close>.\<close>

definition dp_netdev_pmd_lookup_flow ::
  "'flow cls_env \<Rightarrow> dpcls list \<Rightarrow> u32 \<Rightarrow> netdev_flow_key \<Rightarrow> (dpcls_rule option \<times> u32 option \<times> dpcls list) c_result" where
  "dp_netdev_pmd_lookup_flow C classifiers in_port key =
     (case dp_netdev_pmd_lookup_dpcls classifiers in_port of
        None \<Rightarrow> Inr (None, None, classifiers)
      | Some cls \<Rightarrow>
        bindr (dpcls_lookup C cls [key]) (\<lambda>(found, rules, num, cls).
          Inr (rules ! 0, Some num, store_dpcls classifiers cls)))"

text \<open>The optimization of all classifiers of a thread, at the end of \<open>dp_netdev_pmd_try_optimize\<close>.\<close>

definition DPCLS_OPTIMIZATION_INTERVAL :: int where
  "DPCLS_OPTIMIZATION_INTERVAL = 1000000"

fun optimize_loop :: "'flow cls_env \<Rightarrow> dpcls list \<Rightarrow> dpcls list c_result" where
  "optimize_loop C [] = Inr []"
| "optimize_loop C (cls # classifiers) =
     bindr (dpcls_sort_subtable_vector C cls) (\<lambda>cls.
     bindr (optimize_loop C classifiers) (\<lambda>classifiers. Inr (cls # classifiers)))"

definition optimize_classifiers ::
  "'flow cls_env \<Rightarrow> int \<Rightarrow> bool \<Rightarrow> int \<times> dpcls list \<Rightarrow> (int \<times> dpcls list) c_result" where
  "optimize_classifiers C now trylock st =
     (case st of (next_optimization, classifiers) \<Rightarrow>
        if now > next_optimization then
          if \<not> trylock then
            bindr (optimize_loop C classifiers) (\<lambda>classifiers. Inr (now + DPCLS_OPTIMIZATION_INTERVAL, classifiers))
          else Inr st
        else Inr st)"

end
