(* ===== verification/Dpif_Dpcls_Laws.thy ===== *)
theory Dpif_Dpcls_Laws
  imports Dpif_Dpcls
begin

text \<open>
  Laws of the datapath classifier: what the lookup of a batch of keys returns, in terms of the
  rules that match, for any order of the subtables, and how many subtables it searched.
\<close>

section \<open>What the classifier relies on\<close>

definition rule_hit :: "'flow flow_env \<Rightarrow> dpcls_subtable \<Rightarrow> netdev_flow_key \<Rightarrow> dpcls_rule \<Rightarrow> bool" where
  "rule_hit E st k r \<longleftrightarrow> dpcls_rule_matches_key E (st_mask st) (ru_flow r) k = Inr True"

definition subtable_hit :: "'flow flow_env \<Rightarrow> dpcls_subtable \<Rightarrow> netdev_flow_key \<Rightarrow> bool" where
  "subtable_hit E st k \<longleftrightarrow> (\<exists>r\<in>set (st_rules st). rule_hit E st k r)"

text \<open>
  A lookup function reports, of the keys asked for, those for which the subtable has a matching
  rule, and stores such a rule in their slots and nothing in the others.
\<close>

definition lookup_answer ::
  "'flow flow_env \<Rightarrow> dpcls_subtable \<Rightarrow> u32 \<Rightarrow> netdev_flow_key list \<Rightarrow> dpcls_rule option list \<Rightarrow>
     u32 \<times> dpcls_rule option list \<times> int \<Rightarrow> bool" where
  "lookup_answer E st keys_map keys rules res =
     (case res of (found_map, rules', hits) \<Rightarrow>
        length rules' = length keys \<and> (\<forall>i. bit found_map i \<longrightarrow> bit keys_map i) \<and>
        (\<forall>i<length keys. bit keys_map i \<longrightarrow> (bit found_map i \<longleftrightarrow> subtable_hit E st (keys ! i))) \<and>
        (\<forall>i<length keys. bit found_map i \<longrightarrow> (\<exists>r\<in>set (st_rules st). rule_hit E st (keys ! i) r \<and> rules' ! i = Some r)) \<and>
        (\<forall>i<length keys. \<not> bit found_map i \<longrightarrow> rules' ! i = rules ! i))"

definition pvector_ok :: "'flow cls_env \<Rightarrow> bool" where
  "pvector_ok C \<longleftrightarrow>
     (\<forall>v p prio. distinct (map fst v) \<and> p \<notin> set (map fst v) \<longrightarrow>
        distinct (map fst (ce_pv_insert C v p prio)) \<and> map_of (ce_pv_insert C v p prio) = (map_of v)(p \<mapsto> prio)) \<and>
     (\<forall>v p. distinct (map fst v) \<longrightarrow>
        distinct (map fst (ce_pv_remove C v p)) \<and> map_of (ce_pv_remove C v p) = (map_of v)(p := None)) \<and>
     (\<forall>v p prio. distinct (map fst v) \<and> p \<in> set (map fst v) \<longrightarrow>
        distinct (map fst (ce_pv_change_priority C v p prio)) \<and>
        map_of (ce_pv_change_priority C v p prio) = (map_of v)(p \<mapsto> prio)) \<and>
     (\<forall>v. distinct (map fst v) \<longrightarrow>
        distinct (map fst (ce_pv_publish C v)) \<and> map_of (ce_pv_publish C v) = map_of v \<and>
        sorted_wrt (\<ge>) (map snd (ce_pv_publish C v)))"

definition cls_env_ok :: "'flow cls_env \<Rightarrow> bool" where
  "cls_env_ok C \<longleftrightarrow> flow_env_ok (ce_flow C) \<and> pvector_ok C \<and> (\<forall>xs. ce_alloc C xs \<notin> set xs) \<and>
     (\<forall>f st keys_map keys rules. length rules = length keys \<longrightarrow>
        lookup_answer (ce_flow C) st keys_map keys rules (ce_lookup C f st keys_map keys rules))"

lemma cls_env_okD:
  assumes "cls_env_ok C"
  shows "flow_env_ok (ce_flow C)" and "pvector_ok C" and "ce_alloc C xs \<notin> set xs"
    and "length rules = length keys \<Longrightarrow>
      lookup_answer (ce_flow C) st keys_map keys rules (ce_lookup C f st keys_map keys rules)"
  using assms unfolding cls_env_ok_def by blast+

section \<open>Searching the subtables in order\<close>

text \<open>The first subtable that has a match, and the number of subtables searched until then.\<close>

fun first_subtable ::
  "'flow flow_env \<Rightarrow> (nat \<Rightarrow> dpcls_subtable option) \<Rightarrow> nat list \<Rightarrow> netdev_flow_key \<Rightarrow> dpcls_subtable option" where
  "first_subtable E tables [] k = None"
| "first_subtable E tables (p # ps) k =
     (case tables p of None \<Rightarrow> None
      | Some st \<Rightarrow> if subtable_hit E st k then Some st else first_subtable E tables ps k)"

fun search_cost ::
  "'flow flow_env \<Rightarrow> (nat \<Rightarrow> dpcls_subtable option) \<Rightarrow> nat list \<Rightarrow> nat \<Rightarrow> netdev_flow_key \<Rightarrow> nat" where
  "search_cost E tables [] q k = 0"
| "search_cost E tables (p # ps) q k =
     (case tables p of None \<Rightarrow> 0
      | Some st \<Rightarrow> if subtable_hit E st k then q else search_cost E tables ps (Suc q) k)"

text \<open>Only the hit counts of the subtables differ.\<close>

definition same_but_hits ::
  "(nat \<Rightarrow> dpcls_subtable option) \<Rightarrow> (nat \<Rightarrow> dpcls_subtable option) \<Rightarrow> bool" where
  "same_but_hits tables tables' \<longleftrightarrow>
     (\<exists>h. \<forall>p. tables' p = map_option (\<lambda>st. st\<lparr>st_hit_cnt := h p\<rparr>) (tables p))"

lemma same_but_hits_refl [simp]: "same_but_hits tables tables"
proof -
  have "tables p = map_option (\<lambda>st. st\<lparr>st_hit_cnt := (case tables p of None \<Rightarrow> 0 | Some st \<Rightarrow> st_hit_cnt st)\<rparr>) (tables p)" for p
    by (cases "tables p") simp_all
  then show ?thesis unfolding same_but_hits_def
    by (intro exI [where x = "\<lambda>p. case tables p of None \<Rightarrow> 0 | Some st \<Rightarrow> st_hit_cnt st"]) blast
qed

lemma same_but_hits_trans:
  assumes "same_but_hits a b" and "same_but_hits b c"
  shows "same_but_hits a c"
proof -
  obtain h h' where h: "\<forall>p. b p = map_option (\<lambda>st. st\<lparr>st_hit_cnt := h p\<rparr>) (a p)"
      "\<forall>p. c p = map_option (\<lambda>st. st\<lparr>st_hit_cnt := h' p\<rparr>) (b p)"
    using assms unfolding same_but_hits_def by blast
  have "c p = map_option (\<lambda>st. st\<lparr>st_hit_cnt := h' p\<rparr>) (a p)" for p
    using h(1)[rule_format, of p] h(2)[rule_format, of p] by (cases "a p") simp_all
  then show ?thesis unfolding same_but_hits_def by blast
qed

lemma same_but_hits_upd:
  assumes "tables p = Some st"
  shows "same_but_hits tables (tables(p \<mapsto> st\<lparr>st_hit_cnt := n\<rparr>))"
proof -
  have "(tables(p \<mapsto> st\<lparr>st_hit_cnt := n\<rparr>)) q =
      map_option (\<lambda>st. st\<lparr>st_hit_cnt := (if q = p then n else case tables q of None \<Rightarrow> 0 | Some st \<Rightarrow> st_hit_cnt st)\<rparr>) (tables q)" for q
    using assms by (cases "tables q") auto
  then show ?thesis unfolding same_but_hits_def
    by (intro exI [where x = "\<lambda>q. if q = p then n else case tables q of None \<Rightarrow> 0 | Some st \<Rightarrow> st_hit_cnt st"]) blast
qed

lemma same_but_hitsD:
  assumes "same_but_hits tables tables'"
  shows "tables' p = None \<longleftrightarrow> tables p = None"
    and "tables p = Some st \<Longrightarrow> \<exists>n. tables' p = Some (st\<lparr>st_hit_cnt := n\<rparr>)"
    and "tables' p = Some st' \<Longrightarrow> \<exists>st n. tables p = Some st \<and> st' = st\<lparr>st_hit_cnt := n\<rparr>"
proof -
  obtain h where h: "tables' p = map_option (\<lambda>st. st\<lparr>st_hit_cnt := h p\<rparr>) (tables p)"
    using assms unfolding same_but_hits_def by blast
  then show "tables' p = None \<longleftrightarrow> tables p = None" by simp
  show "tables p = Some st \<Longrightarrow> \<exists>n. tables' p = Some (st\<lparr>st_hit_cnt := n\<rparr>)" using h by auto
  show "\<exists>st n. tables p = Some st \<and> st' = st\<lparr>st_hit_cnt := n\<rparr>" if "tables' p = Some st'"
  proof (cases "tables p")
    case (Some st)
    then have "st' = st\<lparr>st_hit_cnt := h p\<rparr>" using h that by simp
    then show ?thesis using Some by blast
  qed (use h that in simp)
qed

lemma hit_cnt_irrelevant [simp]:
  "subtable_hit E (st\<lparr>st_hit_cnt := n\<rparr>) k = subtable_hit E st k"
  "rule_hit E (st\<lparr>st_hit_cnt := n\<rparr>) k r = rule_hit E st k r"
  by (simp_all add: subtable_hit_def rule_hit_def)

lemma search_cost_same:
  assumes "same_but_hits tables tables'"
  shows "search_cost E tables' ps q k = search_cost E tables ps q k"
proof (induction ps arbitrary: q)
  case (Cons p ps)
  then show ?case using same_but_hitsD(1,2) [OF assms, of p] by (cases "tables p") auto
qed simp

lemma first_subtable_same:
  assumes "same_but_hits tables tables'"
  shows "rel_option (\<lambda>a b. \<exists>n. b = a\<lparr>st_hit_cnt := n\<rparr>) (first_subtable E tables ps k) (first_subtable E tables' ps k)"
proof (induction ps)
  case (Cons p ps)
  show ?case
  proof (cases "tables p")
    case None
    then show ?thesis using same_but_hitsD(1) [OF assms, of p] by simp
  next
    case (Some st)
    then obtain n where "tables' p = Some (st\<lparr>st_hit_cnt := n\<rparr>)" using same_but_hitsD(2) [OF assms] by blast
    then show ?thesis using Some Cons.IH by auto
  qed
qed simp

section \<open>The bits of a batch\<close>

lemma card_bits:
  assumes "flow_env_ok E"
  shows "fe_count_1bits E (ucast (F :: u32)) = of_nat (card {i. bit F i})"
proof -
  have "set (bits_of (ucast F)) = {i. bit F i}"
    by (auto simp: bits_of_def bit_simps dest: bit_imp_le_length)
  then have "length (bits_of (ucast F)) = card {i. bit F i}"
    using distinct_card [of "bits_of (ucast F)"] by (simp add: bits_of_def)
  then show ?thesis by (simp add: flow_env_okD(8) [OF assms])
qed

lemma finite_bits [simp]: "finite {i. bit (F :: u32) i}"
  by (rule finite_subset [of _ "{..<32}"]) (auto dest: bit_imp_le_length)

lemma no_bits: "(\<forall>i. \<not> bit K i) \<longleftrightarrow> (K :: u32) = 0"
  by (metis bit_0_eq bot_apply bot_bool_def bit_word_eqI)

definition batch_map :: "nat \<Rightarrow> u32" where
  "batch_map n = (if n \<noteq> MAP_BITS then drop_bit (MAP_BITS - n) (- 1) else - 1)"

lemma bit_batch_map: "0 < n \<Longrightarrow> n \<le> 32 \<Longrightarrow> bit (batch_map n) i \<longleftrightarrow> i < n"
  by (auto simp: batch_map_def MAP_BITS_def bit_simps)

section \<open>What a lookup returns\<close>

text \<open>The slot of a key: a matching rule of the first subtable that has one, or nothing.\<close>

definition slot_ok ::
  "'flow flow_env \<Rightarrow> (nat \<Rightarrow> dpcls_subtable option) \<Rightarrow> nat list \<Rightarrow> netdev_flow_key \<Rightarrow> dpcls_rule option \<Rightarrow> bool" where
  "slot_ok E tables ps k slot =
     (case first_subtable E tables ps k of
        None \<Rightarrow> slot = None
      | Some st \<Rightarrow> \<exists>r\<in>set (st_rules st). rule_hit E st k r \<and> slot = Some r)"

lemma slot_ok_same:
  assumes "same_but_hits tables tables'"
  shows "slot_ok E tables' ps k slot = slot_ok E tables ps k slot"
  using first_subtable_same [OF assms, of E ps k] unfolding slot_ok_def
  by (cases "first_subtable E tables ps k"; cases "first_subtable E tables' ps k") auto

definition batch_ok :: "netdev_flow_key list \<Rightarrow> u32 \<Rightarrow> dpcls_rule option list \<Rightarrow> bool" where
  "batch_ok keys keys_map rules \<longleftrightarrow> length rules = length keys \<and> keys_map \<noteq> 0 \<and>
     (\<forall>i. bit keys_map i \<longleftrightarrow> i < length keys \<and> rules ! i = None)"

text \<open>One subtable: the keys that remain, and what the number of searched subtables grows by.\<close>

lemma lookup_step:
  assumes ok: "cls_env_ok C" and b: "batch_ok keys K rules"
    and res: "ce_lookup C (st_lookup_func st) st K keys rules = (F, rules', hits)"
  shows "length rules' = length keys"
    and "\<And>i. bit (K AND NOT F) i \<longleftrightarrow> i < length keys \<and> rules' ! i = None"
    and "\<And>i. i < length keys \<Longrightarrow> rules ! i \<noteq> None \<Longrightarrow> rules' ! i = rules ! i"
    and "\<And>i. bit K i \<Longrightarrow> bit F i \<longleftrightarrow> subtable_hit (ce_flow C) st (keys ! i)"
    and "\<And>i. bit F i \<Longrightarrow> \<exists>r\<in>set (st_rules st). rule_hit (ce_flow C) st (keys ! i) r \<and> rules' ! i = Some r"
    and "\<And>i. bit F i \<Longrightarrow> bit K i"
proof -
  have len: "length rules = length keys" and K: "\<And>i. bit K i \<longleftrightarrow> i < length keys \<and> rules ! i = None"
    using b by (auto simp: batch_ok_def)
  have ans: "lookup_answer (ce_flow C) st K keys rules (F, rules', hits)"
    using cls_env_okD(4) [OF ok len, of st K "st_lookup_func st"] res by simp
  note a = ans [unfolded lookup_answer_def prod.case]
  show len': "length rules' = length keys" using a by (elim conjE)
  show F_K: "bit F i \<Longrightarrow> bit K i" for i using a by blast
  show F: "\<exists>r\<in>set (st_rules st). rule_hit (ce_flow C) st (keys ! i) r \<and> rules' ! i = Some r" if "bit F i" for i
    using a F_K [OF that] K [of i] that by blast
  have keep: "rules' ! i = rules ! i" if "i < length keys" "\<not> bit F i" for i
    using a that by blast
  show "bit K i \<Longrightarrow> bit F i \<longleftrightarrow> subtable_hit (ce_flow C) st (keys ! i)" for i
    using a K [of i] by blast
  show "i < length keys \<Longrightarrow> rules ! i \<noteq> None \<Longrightarrow> rules' ! i = rules ! i" for i
    using keep [of i] F_K [of i] K [of i] by (cases "bit F i") simp_all
  show "bit (K AND NOT F) i \<longleftrightarrow> i < length keys \<and> rules' ! i = None" for i
  proof (cases "bit F i")
    case True
    then show ?thesis using F [OF True] by (auto simp: bit_simps)
  next
    case False
    have "bit (K AND NOT F) i \<longleftrightarrow> bit K i" using False by (auto simp: bit_simps dest: bit_imp_le_length)
    then show ?thesis using False keep [of i] K [of i] by auto
  qed
qed

text \<open>
  The step on all keys: the cost of the keys found here, and what the slots hold when the slots
  after the step are continued by the subtables that follow.
\<close>

lemma remaining_bits:
  assumes "\<And>i. bit F i \<Longrightarrow> bit (K :: u32) i"
  shows "{i. bit (K AND NOT F) i} = {i. bit K i} - {i. bit F i}"
  by (auto simp: bit_simps dest: bit_imp_le_length)

lemma step_cost:
  assumes sub: "\<And>i. bit F i \<Longrightarrow> bit (K :: u32) i"
    and hit: "\<And>i. bit K i \<Longrightarrow> bit F i \<longleftrightarrow> subtable_hit E st (keys ! i)" and st: "tables p = Some st"
  shows "(\<Sum>i\<in>{i. bit K i}. search_cost E tables (p # ps) q (keys ! i)) =
      card {i. bit F i} * q + (\<Sum>i\<in>{i. bit (K AND NOT F) i}. search_cost E tables ps (Suc q) (keys ! i))"
proof -
  have FK: "{i. bit F i} \<subseteq> {i. bit K i}" using sub by auto
  have "(\<Sum>i\<in>{i. bit K i}. search_cost E tables (p # ps) q (keys ! i)) =
      (\<Sum>i\<in>{i. bit K i} - {i. bit F i}. search_cost E tables (p # ps) q (keys ! i)) +
      (\<Sum>i\<in>{i. bit F i}. search_cost E tables (p # ps) q (keys ! i))"
    by (rule sum.subset_diff [OF FK finite_bits])
  also have "(\<Sum>i\<in>{i. bit K i} - {i. bit F i}. search_cost E tables (p # ps) q (keys ! i)) =
      (\<Sum>i\<in>{i. bit (K AND NOT F) i}. search_cost E tables ps (Suc q) (keys ! i))"
  proof (rule sum.cong [OF remaining_bits [OF sub, symmetric]])
    fix i assume "i \<in> {i. bit (K AND NOT F) i}"
    then have "bit K i" "\<not> bit F i" using remaining_bits [OF sub] by auto
    then show "search_cost E tables (p # ps) q (keys ! i) = search_cost E tables ps (Suc q) (keys ! i)"
      using hit [of i] by (simp add: st)
  qed
  also have "(\<Sum>i\<in>{i. bit F i}. search_cost E tables (p # ps) q (keys ! i)) = (\<Sum>i\<in>{i. bit F i}. q)"
    using hit sub by (intro sum.cong refl) (auto simp: st)
  finally show ?thesis by simp
qed

lemma step_slot:
  assumes "batch_ok keys K rules" and st: "tables p = Some st" and ok: "cls_env_ok C"
    and res: "ce_lookup C (st_lookup_func st) st K keys rules = (F, rules1, hits)"
    and i: "i < length keys"
    and nxt: "if rules1 ! i = None then slot_ok (ce_flow C) tables ps (keys ! i) slot else slot = rules1 ! i"
  shows "if rules ! i = None then slot_ok (ce_flow C) tables (p # ps) (keys ! i) slot else slot = rules ! i"
proof (cases "rules ! i = None")
  case False
  then have "rules1 ! i = rules ! i" by (rule lookup_step(3) [OF ok assms(1) res i])
  with nxt False show ?thesis by (simp only: if_False)
next
  case True
  then have K: "bit K i" using assms(1) i by (simp add: batch_ok_def)
  note hit = lookup_step(4) [OF ok assms(1) res K]
  show ?thesis
  proof (cases "bit F i")
    case found: True
    then obtain r where "r \<in> set (st_rules st)" "rule_hit (ce_flow C) st (keys ! i) r" "rules1 ! i = Some r"
      using lookup_step(5) [OF ok assms(1) res] by blast
    then show ?thesis using True found hit nxt by (auto simp: slot_ok_def st)
  next
    case missed: False
    have "bit (K AND NOT F) i" using K missed by (auto simp: bit_simps dest: bit_imp_le_length)
    then have "rules1 ! i = None" using lookup_step(2) [OF ok assms(1) res] by simp
    then show ?thesis using True missed hit nxt by (auto simp: slot_ok_def st)
  qed
qed

lemma lookup_loop_Cons:
  assumes "flow_env_ok (ce_flow C)" and "tables p = Some st"
    and "ce_lookup C (st_lookup_func st) st K keys rules = (F, rules1, hits)"
  shows "dpcls_lookup_loop C keys ((p, prio) # vec) tables K rules lm (of_nat q) =
     (if K AND NOT F = 0
      then Inr (True, rules1, lm + of_nat (card {i. bit F i} * q), tables(p \<mapsto> st\<lparr>st_hit_cnt := hits\<rparr>))
      else dpcls_lookup_loop C keys vec (tables(p \<mapsto> st\<lparr>st_hit_cnt := hits\<rparr>)) (K AND NOT F) rules1
             (lm + of_nat (card {i. bit F i} * q)) (of_nat (Suc q)))"
  by (simp add: assms subtable_at_def Let_def card_bits [OF assms(1)] add.commute)

lemma lookup_loop:
  assumes ok: "cls_env_ok C" and "batch_ok keys K rules"
    and "\<forall>p\<in>set (map fst vec). tables p \<noteq> None"
  shows "\<exists>rules' tables'. dpcls_lookup_loop C keys vec tables K rules lm (of_nat q) =
      Inr (\<forall>slot\<in>set rules'. slot \<noteq> None, rules',
           lm + of_nat (\<Sum>i\<in>{i. bit K i}. search_cost (ce_flow C) tables (map fst vec) q (keys ! i)), tables') \<and>
    length rules' = length keys \<and> same_but_hits tables tables' \<and>
    (\<forall>i<length keys. if rules ! i = None then slot_ok (ce_flow C) tables (map fst vec) (keys ! i) (rules' ! i)
                     else rules' ! i = rules ! i)"
  using assms(2,3)
proof (induction vec arbitrary: tables K rules lm q)
  case Nil
  then obtain i where "i < length rules" "rules ! i = None"
    using no_bits [of K] by (auto simp: batch_ok_def)
  then have "\<not> (\<forall>slot\<in>set rules. slot \<noteq> None)" by (force simp: in_set_conv_nth)
  then show ?case using Nil by (auto simp: slot_ok_def batch_ok_def)
next
  case (Cons x vec)
  let ?E = "ce_flow C"
  obtain p prio where x: "x = (p, prio)" by (cases x)
  obtain st where st: "tables p = Some st" using Cons.prems(2) x by auto
  obtain F rules1 hits where res: "ce_lookup C (st_lookup_func st) st K keys rules = (F, rules1, hits)"
    by (cases "ce_lookup C (st_lookup_func st) st K keys rules") auto
  note s = lookup_step [OF ok Cons.prems(1) res]
  note loop = lookup_loop_Cons [where tables = tables and p = p, OF cls_env_okD(1) [OF ok] st res, of prio vec lm q, folded x]
  note slot = step_slot [where tables = tables and p = p, OF Cons.prems(1) st ok res, where ps = "map fst vec"]
  define tables1 where "tables1 = tables(p \<mapsto> st\<lparr>st_hit_cnt := hits\<rparr>)"
  have same: "same_but_hits tables tables1" unfolding tables1_def by (rule same_but_hits_upd) (rule st)
  have sum: "(\<Sum>i\<in>{i. bit K i}. search_cost ?E tables (map fst (x # vec)) q (keys ! i)) = card {i. bit F i} * q +
      (\<Sum>i\<in>{i. bit (K AND NOT F) i}. search_cost ?E tables (map fst vec) (Suc q) (keys ! i))"
    using step_cost [of F K ?E st keys tables p "map fst vec" q, OF s(6) s(4) st] by (simp add: x)
  show ?case
  proof (cases "K AND NOT F = 0")
    case True
    then have all: "rules1 ! i \<noteq> None" if "i < length keys" for i using s(2) [of i] that by simp
    then have "\<forall>slot\<in>set rules1. slot \<noteq> None" using s(1) by (auto simp: in_set_conv_nth)
    then have "dpcls_lookup_loop C keys (x # vec) tables K rules lm (of_nat q) =
      Inr (\<forall>slot\<in>set rules1. slot \<noteq> None, rules1,
           lm + of_nat (\<Sum>i\<in>{i. bit K i}. search_cost ?E tables (map fst (x # vec)) q (keys ! i)), tables1)"
      unfolding loop sum using True by (simp add: tables1_def bot_fun_def)
    moreover have "if rules ! i = None then slot_ok ?E tables (map fst (x # vec)) (keys ! i) (rules1 ! i)
        else rules1 ! i = rules ! i" if "i < length keys" for i
      using slot [OF that, of "rules1 ! i"] all [OF that] by (simp add: x)
    ultimately show ?thesis using same s(1) by blast
  next
    case False
    have b1: "batch_ok keys (K AND NOT F) rules1" using False s(1,2) by (simp add: batch_ok_def)
    have "\<forall>p\<in>set (map fst vec). tables1 p \<noteq> None"
      using Cons.prems(2) same_but_hitsD(1) [OF same] by simp
    from Cons.IH [OF b1 this, of "lm + of_nat (card {i. bit F i} * q)" "Suc q"]
    obtain rules' tables' where IH:
      "dpcls_lookup_loop C keys vec tables1 (K AND NOT F) rules1 (lm + of_nat (card {i. bit F i} * q)) (of_nat (Suc q)) =
        Inr (\<forall>slot\<in>set rules'. slot \<noteq> None, rules', lm + of_nat (card {i. bit F i} * q) +
          of_nat (\<Sum>i\<in>{i. bit (K AND NOT F) i}. search_cost ?E tables1 (map fst vec) (Suc q) (keys ! i)), tables')"
      "length rules' = length keys" "same_but_hits tables1 tables'"
      "\<forall>i<length keys. if rules1 ! i = None then slot_ok ?E tables1 (map fst vec) (keys ! i) (rules' ! i)
                     else rules' ! i = rules1 ! i" by blast
    have "if rules ! i = None then slot_ok ?E tables (map fst (x # vec)) (keys ! i) (rules' ! i)
          else rules' ! i = rules ! i" if i: "i < length keys" for i
      unfolding x list.map fst_conv
      by (rule slot [OF i]) (use IH(4) [rule_format, OF i] in \<open>simp only: slot_ok_same [OF same]\<close>)
    moreover have "dpcls_lookup_loop C keys (x # vec) tables K rules lm (of_nat q) =
      Inr (\<forall>slot\<in>set rules'. slot \<noteq> None, rules',
           lm + of_nat (\<Sum>i\<in>{i. bit K i}. search_cost ?E tables (map fst (x # vec)) q (keys ! i)), tables')"
      unfolding loop sum if_not_P [OF False] IH(1) [unfolded tables1_def]
      by (simp only: search_cost_same [OF same, unfolded tables1_def] of_nat_add add.assoc)
    ultimately show ?thesis using IH(2) same_but_hits_trans [OF same IH(3)] by blast
  qed
qed

lemma lookup:
  assumes ok: "cls_env_ok C" and keys: "keys \<noteq> []" "length keys \<le> 32"
    and vec: "\<forall>p\<in>set (map fst (cl_vec cls)). cl_tables cls p \<noteq> None"
  shows "\<exists>rules tables. dpcls_lookup C cls keys =
      Inr (\<forall>slot\<in>set rules. slot \<noteq> None, rules,
           of_nat (\<Sum>k\<leftarrow>keys. search_cost (ce_flow C) (cl_tables cls) (map fst (cl_vec cls)) 1 k),
           cls\<lparr>cl_tables := tables\<rparr>) \<and>
    same_but_hits (cl_tables cls) tables \<and>
    list_all2 (slot_ok (ce_flow C) (cl_tables cls) (map fst (cl_vec cls))) keys rules"
proof -
  let ?n = "length keys"
  have n: "0 < ?n" using keys(1) by simp
  have "bit (batch_map ?n) 0" using bit_batch_map [OF n keys(2)] n by blast
  then have "batch_map ?n \<noteq> 0" by (metis bit_0_eq bot_apply bot_bool_def)
  then have b: "batch_ok keys (batch_map ?n) (replicate ?n None)"
    by (simp add: batch_ok_def bit_batch_map [OF n keys(2)] cong: conj_cong)
  note L = lookup_loop [OF ok b vec, of 0 1]
  obtain rules tables where r: "dpcls_lookup_loop C keys (cl_vec cls) (cl_tables cls) (batch_map ?n) (replicate ?n None) 0 (of_nat 1) =
      Inr (\<forall>slot\<in>set rules. slot \<noteq> None, rules, 0 + of_nat (\<Sum>i\<in>{i. bit (batch_map ?n) i}.
        search_cost (ce_flow C) (cl_tables cls) (map fst (cl_vec cls)) 1 (keys ! i)), tables)"
    "length rules = ?n" "same_but_hits (cl_tables cls) tables"
    "\<forall>i<?n. if replicate ?n None ! i = (None :: dpcls_rule option)
       then slot_ok (ce_flow C) (cl_tables cls) (map fst (cl_vec cls)) (keys ! i) (rules ! i)
       else rules ! i = replicate ?n None ! i"
    using L by (elim exE conjE) (rule that; assumption)
  have "{i. bit (batch_map ?n) i} = {0..<?n}"
    by (simp only: bit_batch_map [OF n keys(2)] atLeast0LessThan lessThan_def)
  then have sum: "(\<Sum>i\<in>{i. bit (batch_map ?n) i}. search_cost (ce_flow C) (cl_tables cls) (map fst (cl_vec cls)) 1 (keys ! i)) =
      (\<Sum>k\<leftarrow>keys. search_cost (ce_flow C) (cl_tables cls) (map fst (cl_vec cls)) 1 k)"
    by (simp add: sum_list_sum_nth)
  have "dpcls_lookup C cls keys = Inr (\<forall>slot\<in>set rules. slot \<noteq> None, rules,
      of_nat (\<Sum>k\<leftarrow>keys. search_cost (ce_flow C) (cl_tables cls) (map fst (cl_vec cls)) 1 k), cls\<lparr>cl_tables := tables\<rparr>)"
    using r(1) keys n unfolding sum by (simp add: dpcls_lookup_def Let_def MAP_BITS_def batch_map_def split: if_splits)
  moreover have "list_all2 (slot_ok (ce_flow C) (cl_tables cls) (map fst (cl_vec cls))) keys rules"
    using r(2,4) by (simp add: list_all2_conv_all_nth)
  ultimately show ?thesis using r(3) by blast
qed

end
