(* ===== verification/Dpif_Dpcls_Inv.thy ===== *)
theory Dpif_Dpcls_Inv
  imports Dpif_Dpcls_Laws
begin

text \<open>
  The invariant of a classifier, the set of its rules as an abstract classifier sees them (an
  identity and the packets it matches), and what each operation does to that set; the interface
  of a classifier as a locale, with the model as its instance.
\<close>

section \<open>Keys up to their unused space\<close>

lemma zip_take_length: "zip xs (take (length xs) ys) = zip xs ys"
  by (induction xs ys rule: list_induct2') simp_all

lemma key_flow_take:
  assumes "nk_map a = nk_map b"
    and "take (length (fe_indices E (nk_map b))) (nk_buf a) = take (length (fe_indices E (nk_map b))) (nk_buf b)"
  shows "key_flow E a = key_flow E b"
  unfolding key_flow_def assms(1) zip_take_length [of "fe_indices E (nk_map b)" "nk_buf a", symmetric] assms(2)
    zip_take_length by (rule refl)

lemma key_words_ok:
  assumes "flow_env_ok E" and "key_ok E k"
  shows "key_words (nk_len k) = length (fe_indices E (nk_map k))"
  using assms key_words_size [OF assms(1) length_indices [OF assms(1)]] by (simp add: key_ok_def)

lemma key_equal_iff:
  assumes "flow_env_ok E" and "key_ok E a" and "key_ok E b"
  shows "netdev_flow_key_equal a b \<longleftrightarrow> nk_hash a = nk_hash b \<and> nk_map a = nk_map b \<and>
    take (length (fe_indices E (nk_map b))) (nk_buf a) = take (length (fe_indices E (nk_map b))) (nk_buf b)"
  using key_words_ok [OF assms(1,2)] by (auto simp: netdev_flow_key_equal_def)

lemma key_equal_flow:
  assumes "flow_env_ok E" and "key_ok E a" and "key_ok E b" and "netdev_flow_key_equal a b"
  shows "key_flow E a = key_flow E b" and "nk_map a = nk_map b"
  using assms(4) key_flow_take [of a b E] unfolding key_equal_iff [OF assms(1-3)] by auto

lemma clone_key:
  assumes "flow_env_ok E" and "key_ok E k"
  shows "key_ok E (netdev_flow_key_clone fresh_key k)" and "key_flow E (netdev_flow_key_clone fresh_key k) = key_flow E k"
    and "nk_map (netdev_flow_key_clone fresh_key k) = nk_map k" and "nk_hash (netdev_flow_key_clone fresh_key k) = nk_hash k"
    and "key_ok E a \<Longrightarrow> netdev_flow_key_equal a (netdev_flow_key_clone fresh_key k) = netdev_flow_key_equal a k"
proof -
  let ?c = "netdev_flow_key_clone fresh_key k"
  have w: "key_words (nk_len k) = length (fe_indices E (nk_map k))" by (rule key_words_ok [OF assms])
  show m: "nk_map ?c = nk_map k" and h: "nk_hash ?c = nk_hash k" by (simp_all add: netdev_flow_key_clone_def Let_def)
  show c: "key_ok E ?c" using assms(2) w by (simp add: netdev_flow_key_clone_def Let_def key_ok_def)
  have t: "take (length (fe_indices E (nk_map k))) (nk_buf ?c) = take (length (fe_indices E (nk_map k))) (nk_buf k)"
    by (simp add: netdev_flow_key_clone_def Let_def fresh_key_def w)
  show "key_flow E ?c = key_flow E k" by (rule key_flow_take [OF m t])
  show "netdev_flow_key_equal a ?c = netdev_flow_key_equal a k" if "key_ok E a"
    unfolding key_equal_iff [OF assms(1) that c] key_equal_iff [OF assms(1) that assms(2)] m h t by (rule refl)
qed

lemma rule_matches_cong:
  assumes "flow_env_ok E" and "key_ok E a" and "key_ok E b" and "key_ok E flow" and "nk_map flow = nk_map b"
    and "nk_map a = nk_map b" and "key_flow E a = key_flow E b"
  shows "dpcls_rule_matches_key E a flow k = dpcls_rule_matches_key E b flow k"
  using rule_matches [OF assms(1,2,4), of k] rule_matches [OF assms(1,3,4,5), of k] assms(5-7) by simp

section \<open>The invariant\<close>

definition subtable_ok :: "'flow cls_env \<Rightarrow> nat \<Rightarrow> dpcls_subtable \<Rightarrow> bool" where
  "subtable_ok C p st \<longleftrightarrow> key_ok (ce_flow C) (st_mask st) \<and> distinct (map ru_id (st_rules st)) \<and>
     (\<forall>r\<in>set (st_rules st). ru_mask r = Some p \<and> key_ok (ce_flow C) (ru_flow r) \<and>
        nk_map (ru_flow r) = nk_map (st_mask st)) \<and>
     st_bits_u0 st = fe_count_1bits (ce_flow C) (fst (nk_map (st_mask st))) \<and>
     st_bits_u1 st = fe_count_1bits (ce_flow C) (snd (nk_map (st_mask st))) \<and>
     st_mf_masks st = map (\<lambda>i. push_bit i 1 - 1) (bits_of (fst (nk_map (st_mask st))) @ bits_of (snd (nk_map (st_mask st))))"

definition parts_ok ::
  "'flow cls_env \<Rightarrow> (u32 \<times> nat) list \<Rightarrow> (nat \<times> int) list \<Rightarrow> (nat \<Rightarrow> dpcls_subtable option) \<Rightarrow> bool" where
  "parts_ok C m v tables \<longleftrightarrow> distinct (map snd m) \<and> distinct (map fst v) \<and>
     set (map fst v) = set (map snd m) \<and> dom tables = set (map snd m) \<and>
     (\<forall>hp\<in>set m. \<forall>st. tables (snd hp) = Some st \<longrightarrow> fst hp = nk_hash (st_mask st)) \<and>
     (\<forall>p st. tables p = Some st \<longrightarrow> subtable_ok C p st \<and> st_rules st \<noteq> []) \<and>
     (\<forall>p q st st'. tables p = Some st \<and> tables q = Some st' \<and>
        netdev_flow_key_equal (st_mask st) (st_mask st') \<longrightarrow> p = q) \<and>
     (\<forall>p q st st' r r'. tables p = Some st \<and> tables q = Some st' \<and> r \<in> set (st_rules st) \<and>
        r' \<in> set (st_rules st') \<and> ru_id r = ru_id r' \<longrightarrow> p = q)"

definition cls_ok :: "'flow cls_env \<Rightarrow> dpcls \<Rightarrow> bool" where
  "cls_ok C cls \<longleftrightarrow> parts_ok C (cl_map cls) (cl_vec cls) (cl_tables cls)"

lemma parts_okI:
  assumes "distinct (map snd m)" and "distinct (map fst v)" and "set (map fst v) = set (map snd m)"
    and "dom tables = set (map snd m)"
    and "\<And>hp st. hp \<in> set m \<Longrightarrow> tables (snd hp) = Some st \<Longrightarrow> fst hp = nk_hash (st_mask st)"
    and "\<And>p st. tables p = Some st \<Longrightarrow> subtable_ok C p st \<and> st_rules st \<noteq> []"
    and "\<And>p q st st'. tables p = Some st \<Longrightarrow> tables q = Some st' \<Longrightarrow>
        netdev_flow_key_equal (st_mask st) (st_mask st') \<Longrightarrow> p = q"
    and "\<And>p q st st' r r'. tables p = Some st \<Longrightarrow> tables q = Some st' \<Longrightarrow> r \<in> set (st_rules st) \<Longrightarrow>
        r' \<in> set (st_rules st') \<Longrightarrow> ru_id r = ru_id r' \<Longrightarrow> p = q"
  shows "parts_ok C m v tables"
  unfolding parts_ok_def using assms by (intro conjI allI ballI impI; (elim conjE)?) blast+

text \<open>A rule as it is seen from outside: its identity and the keys it matches.\<close>

definition cls_rules :: "'flow flow_env \<Rightarrow> (nat \<Rightarrow> dpcls_subtable option) \<Rightarrow> (nat \<times> (netdev_flow_key \<Rightarrow> bool)) set" where
  "cls_rules E tables = {(ru_id r, \<lambda>k. rule_hit E st k r) | p st r. tables p = Some st \<and> r \<in> set (st_rules st)}"

lemma cls_rules_iff:
  "(i, P) \<in> cls_rules E tables \<longleftrightarrow>
     (\<exists>p st r. tables p = Some st \<and> r \<in> set (st_rules st) \<and> i = ru_id r \<and> P = (\<lambda>k. rule_hit E st k r))"
  by (auto simp: cls_rules_def)

lemma cls_okD:
  assumes "cls_ok C cls"
  shows "distinct (map snd (cl_map cls))" and "distinct (map fst (cl_vec cls))"
    and "set (map fst (cl_vec cls)) = set (map snd (cl_map cls))"
    and "dom (cl_tables cls) = set (map snd (cl_map cls))"
    and "hp \<in> set (cl_map cls) \<Longrightarrow> cl_tables cls (snd hp) = Some st \<Longrightarrow> fst hp = nk_hash (st_mask st)"
    and "cl_tables cls p = Some st \<Longrightarrow> subtable_ok C p st"
    and "cl_tables cls p = Some st \<Longrightarrow> st_rules st \<noteq> []"
    and "cl_tables cls p = Some st \<Longrightarrow> cl_tables cls q = Some st' \<Longrightarrow>
        netdev_flow_key_equal (st_mask st) (st_mask st') \<Longrightarrow> p = q"
    and "cl_tables cls p = Some st \<Longrightarrow> cl_tables cls q = Some st' \<Longrightarrow> r \<in> set (st_rules st) \<Longrightarrow>
        r' \<in> set (st_rules st') \<Longrightarrow> ru_id r = ru_id r' \<Longrightarrow> p = q"
  using assms unfolding cls_ok_def parts_ok_def by blast+

lemma cls_ok_tables:
  assumes "cls_ok C cls" and "p \<in> set (map fst (cl_vec cls))"
  shows "\<exists>st. cl_tables cls p = Some st \<and> subtable_ok C p st"
proof -
  have "p \<in> dom (cl_tables cls)" using assms(2) cls_okD(3,4) [OF assms(1)] by simp
  then show ?thesis using cls_okD(6) [OF assms(1)] by auto
qed

lemma cls_ok_init: "cls_ok C (dpcls_init port)"
  by (simp add: cls_ok_def parts_ok_def dpcls_init_def)

lemma cls_rules_init: "cls_rules E (cl_tables (dpcls_init port)) = {}"
  by (simp add: cls_rules_def dpcls_init_def)

section \<open>Operations that keep the rules\<close>

text \<open>The subtables differ in their hit counts and lookup functions only.\<close>

definition table_core :: "dpcls_subtable \<Rightarrow> netdev_flow_key \<times> dpcls_rule list \<times> u32 \<times> u32 \<times> u64 list" where
  "table_core st = (st_mask st, st_rules st, st_bits_u0 st, st_bits_u1 st, st_mf_masks st)"

definition same_rules :: "(nat \<Rightarrow> dpcls_subtable option) \<Rightarrow> (nat \<Rightarrow> dpcls_subtable option) \<Rightarrow> bool" where
  "same_rules tables tables' \<longleftrightarrow> (\<forall>p. map_option table_core (tables' p) = map_option table_core (tables p))"

lemma same_rules_refl [simp]: "same_rules tables tables"
  by (simp add: same_rules_def)

lemma same_rules_sym: "same_rules a b \<Longrightarrow> same_rules b a"
  by (simp add: same_rules_def)

lemma same_rules_trans: "same_rules a b \<Longrightarrow> same_rules b c \<Longrightarrow> same_rules a c"
  by (simp add: same_rules_def)

lemma same_rules_upd: "tables p = Some st \<Longrightarrow> table_core st' = table_core st \<Longrightarrow> same_rules tables (tables(p \<mapsto> st'))"
  by (simp add: same_rules_def)

lemma same_but_hits_rules: "same_but_hits tables tables' \<Longrightarrow> same_rules tables tables'"
proof -
  assume same: "same_but_hits tables tables'"
  have "map_option table_core (tables' p) = map_option table_core (tables p)" for p
    using same by (cases "tables p") (auto simp: same_but_hits_def table_core_def)
  then show ?thesis by (simp add: same_rules_def)
qed

lemma same_rules_dom: "same_rules tables tables' \<Longrightarrow> dom tables' = dom tables"
proof -
  assume "same_rules tables tables'"
  then have "tables' p = None \<longleftrightarrow> tables p = None" for p
    unfolding same_rules_def by (metis option.map_disc_iff)
  then show ?thesis by (auto simp: dom_def)
qed

lemma same_rulesD:
  assumes "same_rules tables tables'" and "tables' p = Some st'"
  shows "\<exists>st. tables p = Some st \<and> st_mask st' = st_mask st \<and> st_rules st' = st_rules st \<and>
    st_bits_u0 st' = st_bits_u0 st \<and> st_bits_u1 st' = st_bits_u1 st \<and> st_mf_masks st' = st_mf_masks st"
proof -
  have "map_option table_core (tables p) = Some (table_core st')"
    using assms unfolding same_rules_def by (metis option.map(2))
  then show ?thesis by (auto simp: table_core_def)
qed

lemma same_rules_cls_rules:
  assumes "same_rules tables tables'"
  shows "cls_rules E tables' = cls_rules E tables"
proof -
  have sub: "cls_rules E b \<subseteq> cls_rules E a" if same: "same_rules a b" for a b
  proof
    fix x assume "x \<in> cls_rules E b"
    then obtain p st' r where b: "b p = Some st'" "r \<in> set (st_rules st')" "x = (ru_id r, \<lambda>k. rule_hit E st' k r)"
      by (auto simp: cls_rules_def)
    obtain st where "a p = Some st" "st_mask st' = st_mask st" "st_rules st' = st_rules st"
      using same_rulesD [OF same b(1)] by blast
    then show "x \<in> cls_rules E a" using b(2,3) by (auto simp: cls_rules_def rule_hit_def)
  qed
  show ?thesis using sub [OF assms] sub [OF same_rules_sym [OF assms]] by blast
qed

lemma same_rules_cls_ok:
  assumes ok: "cls_ok C cls" and t: "same_rules (cl_tables cls) tables'"
    and v: "distinct (map fst vec)" "set (map fst vec) = set (map fst (cl_vec cls))"
  shows "cls_ok C (cls\<lparr>cl_vec := vec, cl_tables := tables'\<rparr>)"
proof -
  note D = same_rulesD [OF t]
  have "parts_ok C (cl_map cls) vec tables'"
  proof (rule parts_okI)
    show "subtable_ok C p st' \<and> st_rules st' \<noteq> []" if "tables' p = Some st'" for p st'
      using D [OF that] cls_okD(6,7) [OF ok, of p] by (auto simp: subtable_ok_def)
    show "fst hp = nk_hash (st_mask st')" if "hp \<in> set (cl_map cls)" "tables' (snd hp) = Some st'" for hp st'
      using D [OF that(2)] cls_okD(5) [OF ok that(1)] by auto
    show "p = q" if "tables' p = Some st" "tables' q = Some st'" "netdev_flow_key_equal (st_mask st) (st_mask st')"
      for p q st st'
      using D [OF that(1)] D [OF that(2)] that(3) cls_okD(8) [OF ok, of p _ q] by auto
    show "p = q" if "tables' p = Some st" "tables' q = Some st'" "r \<in> set (st_rules st)"
      "r' \<in> set (st_rules st')" "ru_id r = ru_id r'" for p q st st' r r'
      using D [OF that(1)] D [OF that(2)] that(3-5) cls_okD(9) [OF ok, of p _ q] by auto
  qed (use cls_okD(1-4) [OF ok] v same_rules_dom [OF t] in simp_all)
  then show ?thesis by (simp add: cls_ok_def)
qed

lemma sort_loop:
  assumes pv: "pvector_ok C" and "\<forall>p\<in>set (map fst vec). tables p \<noteq> None"
    and "distinct (map fst vec)" and "distinct (map fst pvec)" and "set (map fst vec) \<subseteq> set (map fst pvec)"
  shows "\<exists>pvec' tables'. sort_loop C vec pvec tables = Inr (pvec', tables') \<and> distinct (map fst pvec') \<and>
    same_rules tables tables' \<and>
    (\<forall>p. map_of pvec' p = (if p \<in> set (map fst vec) then map_option st_hit_cnt (tables p) else map_of pvec p)) \<and>
    (\<forall>p. if p \<in> set (map fst vec) then map_option st_hit_cnt (tables' p) = Some 0 else tables' p = tables p)"
  using assms(2-)
proof (induction vec arbitrary: tables pvec)
  case (Cons x vec)
  obtain p prio where x: "x = (p, prio)" by (cases x)
  obtain st where st: "tables p = Some st" using Cons.prems(1) x by auto
  define pv' where "pv' = ce_pv_change_priority C pvec p (st_hit_cnt st)"
  define t where "t = tables(p \<mapsto> st\<lparr>st_hit_cnt := 0\<rparr>)"
  have ch: "distinct (map fst pv')" "map_of pv' = (map_of pvec)(p \<mapsto> st_hit_cnt st)"
    using pv Cons.prems(3,4) unfolding pvector_ok_def x pv'_def by simp_all
  have dom: "set (map fst pv') = insert p (set (map fst pvec))"
    using dom_map_of_conv_image_fst [of pv'] dom_map_of_conv_image_fst [of pvec] ch(2) by simp
  have p: "p \<notin> set (map fst vec)" "distinct (map fst vec)" using Cons.prems(2) x by simp_all
  have "\<forall>q\<in>set (map fst vec). t q \<noteq> None" using Cons.prems(1) by (simp add: t_def)
  moreover have "set (map fst vec) \<subseteq> set (map fst pv')" using Cons.prems(4) dom x by auto
  ultimately obtain pvec' tables' where IH: "sort_loop C vec pv' t = Inr (pvec', tables')" "distinct (map fst pvec')"
    "same_rules t tables'"
    "\<forall>q. map_of pvec' q = (if q \<in> set (map fst vec) then map_option st_hit_cnt (t q) else map_of pv' q)"
    "\<forall>q. if q \<in> set (map fst vec) then map_option st_hit_cnt (tables' q) = Some 0 else tables' q = t q"
    using Cons.IH [of t pv'] p(2) ch(1) by blast
  have "same_rules tables t" unfolding t_def by (rule same_rules_upd) (simp_all add: st table_core_def)
  then have "same_rules tables tables'" using IH(3) by (rule same_rules_trans)
  moreover have "sort_loop C (x # vec) pvec tables = Inr (pvec', tables')"
    using IH(1) by (simp add: x st subtable_at_def t_def pv'_def)
  moreover have "map_of pvec' q = (if q \<in> set (map fst (x # vec)) then map_option st_hit_cnt (tables q) else map_of pvec q)" for q
    using IH(4) [rule_format, of q] p(1)
    by (cases "q = p"; cases "q \<in> set (map fst vec)") (simp_all add: x st t_def ch(2))
  moreover have "if q \<in> set (map fst (x # vec)) then map_option st_hit_cnt (tables' q) = Some 0 else tables' q = tables q" for q
    using IH(5) [rule_format, of q] p(1)
    by (cases "q = p"; cases "q \<in> set (map fst vec)") (simp_all add: x st t_def)
  ultimately show ?case using IH(2) by blast
qed simp

lemma map_of_fst: "map_of a = map_of b \<Longrightarrow> set (map fst a) = set (map fst b)"
  using dom_map_of_conv_image_fst [of a] dom_map_of_conv_image_fst [of b] by simp

text \<open>Sorting orders the subtables by their hits and starts to count again.\<close>

lemma sort_subtable_vector:
  assumes "cls_env_ok C" and ok: "cls_ok C cls"
  shows "\<exists>cls'. dpcls_sort_subtable_vector C cls = Inr cls' \<and> cls_ok C cls' \<and>
    cls_rules E (cl_tables cls') = cls_rules E (cl_tables cls) \<and> cl_in_port cls' = cl_in_port cls \<and>
    (\<forall>(p, prio)\<in>set (cl_vec cls'). map_option st_hit_cnt (cl_tables cls p) = Some prio) \<and>
    sorted_wrt (\<ge>) (map snd (cl_vec cls')) \<and>
    (\<forall>p st. cl_tables cls' p = Some st \<longrightarrow> st_hit_cnt st = 0)"
proof -
  note pv = cls_env_okD(2) [OF assms(1)]
  note v = cls_okD(2) [OF ok]
  have tabs: "\<forall>p\<in>set (map fst (cl_vec cls)). cl_tables cls p \<noteq> None" using cls_ok_tables [OF ok] by blast
  obtain pvec t where s: "sort_loop C (cl_vec cls) (cl_vec cls) (cl_tables cls) = Inr (pvec, t)" "distinct (map fst pvec)"
    "same_rules (cl_tables cls) t"
    "\<forall>p. map_of pvec p = (if p \<in> set (map fst (cl_vec cls)) then map_option st_hit_cnt (cl_tables cls p) else map_of (cl_vec cls) p)"
    "\<forall>p. if p \<in> set (map fst (cl_vec cls)) then map_option st_hit_cnt (t p) = Some 0 else t p = cl_tables cls p"
    using sort_loop [OF pv tabs v v order_refl] by blast
  define vec where "vec = ce_pv_publish C pvec"
  have vec: "distinct (map fst vec)" "map_of vec = map_of pvec" "sorted_wrt (\<ge>) (map snd vec)"
    using pv s(2) unfolding pvector_ok_def vec_def by blast+
  have "map_of pvec p = None \<longleftrightarrow> map_of (cl_vec cls) p = None" for p
    using s(4) tabs by (auto simp: map_of_eq_None_iff)
  then have fst: "set (map fst vec) = set (map fst (cl_vec cls))"
    unfolding map_of_fst [OF vec(2)] by (simp add: map_of_eq_None_iff set_eq_iff)
  then have "cls_ok C (cls\<lparr>cl_vec := vec, cl_tables := t\<rparr>)"
    by (rule same_rules_cls_ok [OF ok s(3) vec(1)])
  moreover have "map_option st_hit_cnt (cl_tables cls p) = Some prio" if "(p, prio) \<in> set vec" for p prio
  proof -
    have "map_of pvec p = Some prio" using vec(1,2) that by (metis map_of_is_SomeI)
    moreover have "p \<in> set (map fst (cl_vec cls))" using that fst by force
    ultimately show ?thesis using s(4) by simp
  qed
  moreover have "st_hit_cnt st = 0" if "t p = Some st" for p st
  proof -
    have "p \<in> set (map fst (cl_vec cls))" using same_rules_dom [OF s(3)] that cls_okD(3,4) [OF ok] by blast
    then show ?thesis using s(5) [THEN spec, of p] that by simp
  qed
  ultimately show ?thesis using s(1) vec(3) same_rules_cls_rules [OF s(3), of E]
    by (auto simp: dpcls_sort_subtable_vector_def vec_def)
qed

lemma reprobe_loop:
  assumes "\<forall>p\<in>set (map fst vec). tables p \<noteq> None"
  shows "\<exists>n tables'. reprobe_loop C vec tables c = Inr (n, tables') \<and> same_rules tables tables'"
  using assms
proof (induction vec arbitrary: tables c)
  case (Cons x vec)
  obtain p prio where x: "x = (p, prio)" by (cases x)
  obtain st where st: "tables p = Some st" using Cons.prems x by auto
  let ?f = "ce_best_impl C (st_bits_u0 st) (st_bits_u1 st)"
  define t where "t = tables(p \<mapsto> st\<lparr>st_lookup_func := ?f\<rparr>)"
  have "same_rules tables t" unfolding t_def by (rule same_rules_upd) (simp_all add: st table_core_def)
  moreover have "\<forall>q\<in>set (map fst vec). t q \<noteq> None" using Cons.prems by (simp add: t_def)
  then obtain n tables' where "reprobe_loop C vec t (c + (if st_lookup_func st \<noteq> ?f then 1 else 0)) = Inr (n, tables')"
    "same_rules t tables'"
    using Cons.IH by blast
  moreover have "reprobe_loop C (x # vec) tables c = reprobe_loop C vec t (c + (if st_lookup_func st \<noteq> ?f then 1 else 0))"
    by (simp add: x st subtable_at_def t_def)
  ultimately show ?case using same_rules_trans by metis
qed simp

lemma subtable_lookup_reprobe:
  assumes ok: "cls_ok C cls"
  shows "\<exists>n cls'. dpcls_subtable_lookup_reprobe C cls = Inr (n, cls') \<and> cls_ok C cls' \<and>
    cls_rules E (cl_tables cls') = cls_rules E (cl_tables cls) \<and> cl_in_port cls' = cl_in_port cls"
proof -
  have tabs: "\<forall>p\<in>set (map fst (cl_vec cls)). cl_tables cls p \<noteq> None" using cls_ok_tables [OF ok] by blast
  obtain n t where t: "reprobe_loop C (cl_vec cls) (cl_tables cls) 0 = Inr (n, t)" "same_rules (cl_tables cls) t"
    using reprobe_loop [OF tabs] by blast
  have "cls_ok C (cls\<lparr>cl_vec := cl_vec cls, cl_tables := t\<rparr>)"
    by (rule same_rules_cls_ok [OF ok t(2) cls_okD(2) [OF ok] refl])
  then show ?thesis using t(1) same_rules_cls_rules [OF t(2), of E]
    by (simp add: dpcls_subtable_lookup_reprobe_def)
qed

section \<open>Lookup as the rules answer it\<close>

definition answers :: "(nat \<times> ('k \<Rightarrow> bool)) set \<Rightarrow> 'k \<Rightarrow> nat option \<Rightarrow> bool" where
  "answers R k slot = (case slot of None \<Rightarrow> \<forall>(i, P)\<in>R. \<not> P k | Some i \<Rightarrow> \<exists>P. (i, P) \<in> R \<and> P k)"

lemma first_subtable_None:
  assumes "first_subtable E tables ps k = None" and "\<forall>p\<in>set ps. tables p \<noteq> None" and "p \<in> set ps" and "tables p = Some st"
  shows "\<not> subtable_hit E st k"
  using assms by (induction ps) (auto split: if_splits)

lemma first_subtable_Some:
  "first_subtable E tables ps k = Some st \<Longrightarrow> subtable_hit E st k \<and> (\<exists>p\<in>set ps. tables p = Some st)"
  by (induction ps) (auto split: option.splits if_splits)

lemma slot_answers:
  assumes ok: "cls_ok C cls" and slot: "slot_ok E (cl_tables cls) (map fst (cl_vec cls)) k slot"
  shows "answers (cls_rules E (cl_tables cls)) k (map_option ru_id slot)"
proof (cases "first_subtable E (cl_tables cls) (map fst (cl_vec cls)) k")
  case None
  have tabs: "\<forall>p\<in>set (map fst (cl_vec cls)). cl_tables cls p \<noteq> None" using cls_ok_tables [OF ok] by blast
  have "\<not> rule_hit E st k r" if "cl_tables cls p = Some st" "r \<in> set (st_rules st)" for p st r
  proof -
    have "p \<in> set (map fst (cl_vec cls))" using that(1) cls_okD(3,4) [OF ok] by blast
    from first_subtable_None [OF None tabs this that(1)] that(2) show ?thesis by (auto simp: subtable_hit_def)
  qed
  then show ?thesis using slot None by (auto simp: slot_ok_def answers_def cls_rules_iff)
next
  case (Some st)
  then obtain p where "cl_tables cls p = Some st" using first_subtable_Some by blast
  moreover obtain r where r: "r \<in> set (st_rules st)" "rule_hit E st k r" "slot = Some r"
    using slot Some by (auto simp: slot_ok_def)
  ultimately have "(ru_id r, \<lambda>k. rule_hit E st k r) \<in> cls_rules E (cl_tables cls)"
    unfolding cls_rules_iff by blast
  then show ?thesis using r(2,3) by (auto simp: answers_def)
qed

lemma lookup_answers:
  assumes "cls_env_ok C" and ok: "cls_ok C cls" and "keys \<noteq> []" and "length keys \<le> 32"
  shows "\<exists>all rules n cls'. dpcls_lookup C cls keys = Inr (all, rules, n, cls') \<and> cls_ok C cls' \<and>
    cls_rules E (cl_tables cls') = cls_rules E (cl_tables cls) \<and> cl_in_port cls' = cl_in_port cls \<and>
    list_all2 (answers (cls_rules (ce_flow C) (cl_tables cls))) keys (map (map_option ru_id) rules)"
proof -
  have tabs: "\<forall>p\<in>set (map fst (cl_vec cls)). cl_tables cls p \<noteq> None" using cls_ok_tables [OF ok] by blast
  obtain rules t n where l: "dpcls_lookup C cls keys = Inr (\<forall>slot\<in>set rules. slot \<noteq> None, rules, n, cls\<lparr>cl_tables := t\<rparr>)"
    "same_but_hits (cl_tables cls) t"
    "list_all2 (slot_ok (ce_flow C) (cl_tables cls) (map fst (cl_vec cls))) keys rules"
    using lookup [OF assms(1,3,4) tabs] by blast
  note same = same_but_hits_rules [OF l(2)]
  have "cls_ok C (cls\<lparr>cl_vec := cl_vec cls, cl_tables := t\<rparr>)"
    by (rule same_rules_cls_ok [OF ok same cls_okD(2) [OF ok] refl])
  then have "cls_ok C (cls\<lparr>cl_tables := t\<rparr>)" by simp
  moreover have "list_all2 (answers (cls_rules (ce_flow C) (cl_tables cls))) keys (map (map_option ru_id) rules)"
    unfolding list_all2_map2 by (rule list_all2_mono [OF l(3)]) (rule slot_answers [OF ok])
  ultimately show ?thesis using l(1) same_rules_cls_rules [OF same, of E] by auto
qed

section \<open>Insertion\<close>

lemma find_subtable_loop:
  assumes "\<forall>hp\<in>set hps. tables (snd hp) \<noteq> None"
    and "\<forall>hp\<in>set hps. \<forall>st. tables (snd hp) = Some st \<longrightarrow> fst hp = nk_hash (st_mask st)"
  shows "\<exists>found. find_subtable_loop tables msk hps = Inr found \<and>
    (case found of
       Some p \<Rightarrow> p \<in> snd ` set hps \<and> (\<exists>st. tables p = Some st \<and> netdev_flow_key_equal (st_mask st) msk)
     | None \<Rightarrow> \<forall>p\<in>snd ` set hps. \<forall>st. tables p = Some st \<longrightarrow> \<not> netdev_flow_key_equal (st_mask st) msk)"
  using assms
proof (induction hps)
  case (Cons hp hps)
  obtain h p where hp: "hp = (h, p)" by (cases hp)
  obtain st where st: "tables p = Some st" using Cons.prems(1) hp by auto
  have h: "h = nk_hash (st_mask st)" using Cons.prems(2) hp st by simp
  obtain found where IH: "find_subtable_loop tables msk hps = Inr found"
    "case found of
       Some p \<Rightarrow> p \<in> snd ` set hps \<and> (\<exists>st. tables p = Some st \<and> netdev_flow_key_equal (st_mask st) msk)
     | None \<Rightarrow> \<forall>p\<in>snd ` set hps. \<forall>st. tables p = Some st \<longrightarrow> \<not> netdev_flow_key_equal (st_mask st) msk"
    using Cons.IH Cons.prems by auto
  show ?case
  proof (cases "netdev_flow_key_equal (st_mask st) msk")
    case True
    then have "h = nk_hash msk" using h by (simp add: netdev_flow_key_equal_def)
    then show ?thesis using True st by (simp add: hp subtable_at_def)
  next
    case False
    then have "find_subtable_loop tables msk (hp # hps) = Inr found" using IH(1) by (simp add: hp subtable_at_def st)
    then show ?thesis using IH(2) False st by (cases found) (auto simp: hp)
  qed
qed simp

end
