(* ===== verification/Dpif_Dpcls_Rules.thy ===== *)
theory Dpif_Dpcls_Rules
  imports Dpif_Dpcls_Inv
begin

text \<open>
  Insertion and removal of rules in a classifier, and the interface of a classifier: a set of
  rules that lookups answer from and that upkeep does not change.
\<close>

section \<open>Changing one subtable\<close>

lemma cls_rules_upd:
  "cls_rules E (tables(p \<mapsto> st)) =
     cls_rules E (tables(p := None)) \<union> (\<lambda>r. (ru_id r, \<lambda>k. rule_hit E st k r)) ` set (st_rules st)"
proof -
  have "(i, P) \<in> cls_rules E (tables(p \<mapsto> st)) \<longleftrightarrow>
      (i, P) \<in> cls_rules E (tables(p := None)) \<or> (i, P) \<in> (\<lambda>r. (ru_id r, \<lambda>k. rule_hit E st k r)) ` set (st_rules st)" for i P
    unfolding cls_rules_iff by (auto split: if_splits)
  then show ?thesis by auto
qed

lemma cls_rules_split:
  "tables p = Some st \<Longrightarrow> cls_rules E tables =
     cls_rules E (tables(p := None)) \<union> (\<lambda>r. (ru_id r, \<lambda>k. rule_hit E st k r)) ` set (st_rules st)"
  using cls_rules_upd [of E tables p st] by (simp add: fun_upd_idem)

lemma cls_ok_upd:
  assumes ok: "cls_ok C cls" and st: "subtable_ok C p st" "st_rules st \<noteq> []"
    and masks: "\<And>q st'. q \<noteq> p \<Longrightarrow> cl_tables cls q = Some st' \<Longrightarrow>
        \<not> netdev_flow_key_equal (st_mask st') (st_mask st) \<and> \<not> netdev_flow_key_equal (st_mask st) (st_mask st')"
    and ids: "\<And>q st' r r'. q \<noteq> p \<Longrightarrow> cl_tables cls q = Some st' \<Longrightarrow> r \<in> set (st_rules st) \<Longrightarrow>
        r' \<in> set (st_rules st') \<Longrightarrow> ru_id r \<noteq> ru_id r'"
    and m: "distinct (map snd m)" "set (map snd m) = insert p (set (map snd (cl_map cls)))"
      "\<And>hp. hp \<in> set m \<Longrightarrow> if snd hp = p then fst hp = nk_hash (st_mask st) else hp \<in> set (cl_map cls)"
    and v: "distinct (map fst v)" "set (map fst v) = set (map snd m)"
  shows "cls_ok C (cls\<lparr>cl_map := m, cl_vec := v, cl_tables := (cl_tables cls)(p \<mapsto> st)\<rparr>)"
proof -
  let ?t = "(cl_tables cls)(p \<mapsto> st)"
  have old: "(q = p \<and> st' = st) \<or> (q \<noteq> p \<and> cl_tables cls q = Some st')" if "?t q = Some st'" for q st'
    using that by (simp split: if_splits)
  have "parts_ok C m v ?t"
  proof (rule parts_okI)
    show "subtable_ok C q st' \<and> st_rules st' \<noteq> []" if "?t q = Some st'" for q st'
      using old [OF that] st cls_okD(6,7) [OF ok, of q] by blast
    show "fst hp = nk_hash (st_mask st')" if "hp \<in> set m" "?t (snd hp) = Some st'" for hp st'
      using old [OF that(2)] m(3) [OF that(1)] cls_okD(5) [OF ok, of hp] by auto
    show "q = q'" if "?t q = Some a" "?t q' = Some b" "netdev_flow_key_equal (st_mask a) (st_mask b)" for q q' a b
      using old [OF that(1)] old [OF that(2)] that(3) masks cls_okD(8) [OF ok, of q a q' b] by blast
    show "q = q'" if "?t q = Some a" "?t q' = Some b" "r \<in> set (st_rules a)" "r' \<in> set (st_rules b)"
      "ru_id r = ru_id r'" for q q' a b r r'
      using old [OF that(1)] old [OF that(2)] that(3-5) ids cls_okD(9) [OF ok, of q a q' b r r'] by metis
    show "dom ?t = set (map snd m)" using cls_okD(4) [OF ok] m(2) by simp
  qed (use m(1) v in simp_all)
  then show ?thesis by (simp add: cls_ok_def)
qed

lemma cls_ok_del:
  assumes ok: "cls_ok C cls" and v: "distinct (map fst v)" "set (map fst v) = set (map fst (cl_vec cls)) - {p}"
  shows "cls_ok C (cls\<lparr>cl_map := filter (\<lambda>hp. snd hp \<noteq> p) (cl_map cls), cl_vec := v,
            cl_tables := (cl_tables cls)(p := None)\<rparr>)"
proof -
  let ?m = "filter (\<lambda>hp. snd hp \<noteq> p) (cl_map cls)"
  let ?t = "(cl_tables cls)(p := None)"
  have old: "q \<noteq> p \<and> cl_tables cls q = Some st" if "?t q = Some st" for q st
    using that by (simp split: if_splits)
  have m: "distinct (map snd ?m)" "set (map snd ?m) = set (map snd (cl_map cls)) - {p}"
    using cls_okD(1) [OF ok] by (auto simp: distinct_map_filter)
  have "parts_ok C ?m v ?t"
  proof (rule parts_okI)
    show "subtable_ok C q st \<and> st_rules st \<noteq> []" if "?t q = Some st" for q st
      using old [OF that] cls_okD(6,7) [OF ok, of q] by blast
    show "fst hp = nk_hash (st_mask st)" if "hp \<in> set ?m" "?t (snd hp) = Some st" for hp st
      using old [OF that(2)] that(1) cls_okD(5) [OF ok, of hp] by auto
    show "q = q'" if "?t q = Some a" "?t q' = Some b" "netdev_flow_key_equal (st_mask a) (st_mask b)" for q q' a b
      using old [OF that(1)] old [OF that(2)] that(3) cls_okD(8) [OF ok, of q a q' b] by blast
    show "q = q'" if "?t q = Some a" "?t q' = Some b" "r \<in> set (st_rules a)" "r' \<in> set (st_rules b)"
      "ru_id r = ru_id r'" for q q' a b r r'
      using old [OF that(1)] old [OF that(2)] that(3-5) cls_okD(9) [OF ok, of q a q' b r r'] by blast
    show "dom ?t = set (map snd ?m)" using cls_okD(4) [OF ok] m(2) by simp
  qed (use m v cls_okD(3) [OF ok] in simp_all)
  then show ?thesis by (simp add: cls_ok_def)
qed

section \<open>Insertion\<close>

text \<open>What the flow table passes to \<open>dpcls_insert\<close>: a mask and a key with the same map.\<close>

definition rule_for :: "'flow flow_env \<Rightarrow> netdev_flow_key \<Rightarrow> dpcls_rule \<Rightarrow> bool" where
  "rule_for E msk rule \<longleftrightarrow> key_ok E msk \<and> key_ok E (ru_flow rule) \<and> nk_map (ru_flow rule) = nk_map msk"

definition rule_pred :: "'flow flow_env \<Rightarrow> netdev_flow_key \<Rightarrow> netdev_flow_key \<Rightarrow> netdev_flow_key \<Rightarrow> bool" where
  "rule_pred E msk flow k \<longleftrightarrow> dpcls_rule_matches_key E msk flow k = Inr True"

text \<open>Inserting into a subtable whose mask has the same map and values.\<close>

lemma insert_into:
  fixes rule :: dpcls_rule
  assumes E: "flow_env_ok (ce_flow C)" and ok: "cls_ok C cls" and rule: "rule_for (ce_flow C) msk rule"
    and new: "ru_id rule \<notin> fst ` cls_rules (ce_flow C) (cl_tables cls)"
    and st: "subtable_ok C p st" and old: "cls_rules (ce_flow C) ((cl_tables cls)(p \<mapsto> st)) = cls_rules (ce_flow C) (cl_tables cls)"
    and msk: "nk_map (st_mask st) = nk_map msk" "key_flow (ce_flow C) (st_mask st) = key_flow (ce_flow C) msk"
    and masks: "\<And>q st'. q \<noteq> p \<Longrightarrow> cl_tables cls q = Some st' \<Longrightarrow>
        \<not> netdev_flow_key_equal (st_mask st') (st_mask st) \<and> \<not> netdev_flow_key_equal (st_mask st) (st_mask st')"
    and ids: "\<And>q st' r r'. q \<noteq> p \<Longrightarrow> cl_tables cls q = Some st' \<Longrightarrow> r \<in> set (st_rules st) \<Longrightarrow>
        r' \<in> set (st_rules st') \<Longrightarrow> ru_id r \<noteq> ru_id r'"
    and m: "distinct (map snd m)" "set (map snd m) = insert p (set (map snd (cl_map cls)))"
      "\<And>hp. hp \<in> set m \<Longrightarrow> if snd hp = p then fst hp = nk_hash (st_mask st) else hp \<in> set (cl_map cls)"
    and v: "distinct (map fst v)" "set (map fst v) = set (map snd m)"
  defines "r' \<equiv> rule\<lparr>ru_mask := Some p\<rparr>"
  defines "st' \<equiv> st\<lparr>st_rules := r' # st_rules st\<rparr>"
  shows "cls_ok C (cls\<lparr>cl_map := m, cl_vec := v, cl_tables := (cl_tables cls)(p \<mapsto> st')\<rparr>)"
    and "cls_rules (ce_flow C) ((cl_tables cls)(p \<mapsto> st')) =
      insert (ru_id rule, rule_pred (ce_flow C) msk (ru_flow rule)) (cls_rules (ce_flow C) (cl_tables cls))"
proof -
  let ?E = "ce_flow C"
  have fresh: "ru_id rule \<noteq> ru_id r" if "r \<in> set (st_rules st)" for r
  proof -
    have "(ru_id r, \<lambda>k. rule_hit ?E st k r) \<in> cls_rules ?E (cl_tables cls)"
      using that unfolding old [symmetric] cls_rules_iff by auto
    then show ?thesis using new by force
  qed
  have fresh': "ru_id rule \<noteq> ru_id r" if "cl_tables cls q = Some s" "r \<in> set (st_rules s)" for q s r
  proof -
    have "(ru_id r, \<lambda>k. rule_hit ?E s k r) \<in> cls_rules ?E (cl_tables cls)"
      using that unfolding cls_rules_iff by blast
    then show ?thesis using new by force
  qed
  have ok': "subtable_ok C p st'"
    using st rule msk(1) fresh by (auto simp: subtable_ok_def st'_def r'_def rule_for_def)
  show "cls_ok C (cls\<lparr>cl_map := m, cl_vec := v, cl_tables := (cl_tables cls)(p \<mapsto> st')\<rparr>)"
  proof (rule cls_ok_upd [OF ok ok' _ _ _ m(1,2) _ v])
    show "ru_id r \<noteq> ru_id r'" if "q \<noteq> p" "cl_tables cls q = Some s" "r \<in> set (st_rules st')" "r' \<in> set (st_rules s)" for q s r r'
      using ids [OF that(1,2) _ that(4)] fresh' [OF that(2,4)] that(3) by (auto simp: st'_def r'_def)
    show "if snd hp = p then fst hp = nk_hash (st_mask st') else hp \<in> set (cl_map cls)" if "hp \<in> set m" for hp
      using m(3) [OF that] by (simp add: st'_def)
  qed (use masks in \<open>simp_all add: st'_def\<close>)
  have hit: "rule_hit ?E st' k r = rule_hit ?E st k r" for k r by (simp add: rule_hit_def st'_def)
  have "rule_hit ?E st k r' = rule_pred ?E msk (ru_flow rule) k" for k
    using rule_matches_cong [OF E, of "st_mask st" msk "ru_flow rule" k] st rule msk
    by (simp add: rule_hit_def rule_pred_def r'_def subtable_ok_def rule_for_def)
  then have "(\<lambda>k. rule_hit ?E st k r') = rule_pred ?E msk (ru_flow rule)" by blast
  moreover have "set (st_rules st') = insert r' (set (st_rules st))" "ru_id r' = ru_id rule"
    by (simp_all add: st'_def r'_def)
  ultimately show "cls_rules ?E ((cl_tables cls)(p \<mapsto> st')) =
      insert (ru_id rule, rule_pred ?E msk (ru_flow rule)) (cls_rules ?E (cl_tables cls))"
    unfolding old [symmetric] cls_rules_upd hit by simp
qed

lemma insert_found:
  assumes E: "flow_env_ok (ce_flow C)" and ok: "cls_ok C cls" and rule: "rule_for (ce_flow C) msk rule"
    and new: "ru_id rule \<notin> fst ` cls_rules (ce_flow C) (cl_tables cls)"
    and st: "cl_tables cls p = Some st" and eq: "netdev_flow_key_equal (st_mask st) msk"
  defines "t \<equiv> (cl_tables cls)(p \<mapsto> st\<lparr>st_rules := rule\<lparr>ru_mask := Some p\<rparr> # st_rules st\<rparr>)"
  shows "cls_ok C (cls\<lparr>cl_tables := t\<rparr>)"
    and "cls_rules (ce_flow C) t =
      insert (ru_id rule, rule_pred (ce_flow C) msk (ru_flow rule)) (cls_rules (ce_flow C) (cl_tables cls))"
proof -
  let ?E = "ce_flow C"
  note sub = cls_okD(6) [OF ok st]
  have p: "p \<in> set (map snd (cl_map cls))" using st cls_okD(4) [OF ok] by blast
  have k: "key_ok ?E (st_mask st)" "key_ok ?E msk" using sub rule by (simp_all add: subtable_ok_def rule_for_def)
  have msk: "nk_map (st_mask st) = nk_map msk" "key_flow ?E (st_mask st) = key_flow ?E msk"
    using key_equal_flow [OF E k eq] by simp_all
  have idem: "(cl_tables cls)(p \<mapsto> st) = cl_tables cls" using st by (simp add: fun_upd_idem)
  have masks: "\<not> netdev_flow_key_equal (st_mask s) (st_mask st) \<and> \<not> netdev_flow_key_equal (st_mask st) (st_mask s)"
    if "q \<noteq> p" "cl_tables cls q = Some s" for q s
    using cls_okD(8) [OF ok that(2) st] cls_okD(8) [OF ok st that(2)] that(1) by blast
  have ids: "ru_id r \<noteq> ru_id r'" if "q \<noteq> p" "cl_tables cls q = Some s" "r \<in> set (st_rules st)" "r' \<in> set (st_rules s)" for q s r r'
    using cls_okD(9) [OF ok st that(2,3,4)] that(1) by blast
  have m: "if snd hp = p then fst hp = nk_hash (st_mask st) else hp \<in> set (cl_map cls)" if "hp \<in> set (cl_map cls)" for hp
    using cls_okD(5) [OF ok that] that st by auto
  note I = insert_into [OF E ok rule new sub _ msk masks ids cls_okD(1) [OF ok] _ m cls_okD(2,3) [OF ok]]
  show "cls_ok C (cls\<lparr>cl_tables := t\<rparr>)"
    using I(1) idem p unfolding t_def by (simp add: insert_absorb)
  show "cls_rules ?E t = insert (ru_id rule, rule_pred ?E msk (ru_flow rule)) (cls_rules ?E (cl_tables cls))"
    using I(2) idem p unfolding t_def by (simp add: insert_absorb)
qed

lemma insert_created:
  assumes C: "cls_env_ok C" and ok: "cls_ok C cls" and rule: "rule_for (ce_flow C) msk rule"
    and new: "ru_id rule \<notin> fst ` cls_rules (ce_flow C) (cl_tables cls)"
    and none: "\<forall>p\<in>snd ` set (cl_map cls). \<forall>st. cl_tables cls p = Some st \<longrightarrow> \<not> netdev_flow_key_equal (st_mask st) msk"
  shows "\<exists>p cls1 cls2. dpcls_create_subtable C cls msk = Inr (p, cls1) \<and>
    bindr (subtable_at (cl_tables cls1) p) (\<lambda>st.
       let rule = rule\<lparr>ru_mask := Some p\<rparr>
       in Inr (rule, cls1\<lparr>cl_tables := (cl_tables cls1)(p \<mapsto> st\<lparr>st_rules := rule # st_rules st\<rparr>)\<rparr>)) =
     Inr (rule\<lparr>ru_mask := Some p\<rparr>, cls2) \<and> cls_ok C cls2 \<and> cl_in_port cls2 = cl_in_port cls \<and>
    cls_rules (ce_flow C) (cl_tables cls2) =
      insert (ru_id rule, rule_pred (ce_flow C) msk (ru_flow rule)) (cls_rules (ce_flow C) (cl_tables cls))"
proof -
  let ?E = "ce_flow C"
  note E = cls_env_okD(1) [OF C]
  note pv = cls_env_okD(2) [OF C]
  define p where "p = ce_alloc C (map snd (cl_map cls))"
  have p: "p \<notin> set (map snd (cl_map cls))" unfolding p_def by (rule cls_env_okD(3) [OF C])
  then have pt: "cl_tables cls p = None" using cls_okD(4) [OF ok] by blast
  have k: "key_ok ?E msk" using rule by (simp add: rule_for_def)
  define u0 where "u0 = fe_count_1bits ?E (fst (nk_map msk))"
  define u1 where "u1 = fe_count_1bits ?E (snd (nk_map msk))"
  define st where "st = \<lparr>st_mask = netdev_flow_key_clone fresh_key msk, st_rules = [], st_hit_cnt = 0,
     st_bits_u0 = u0, st_bits_u1 = u1,
     st_mf_masks = map (\<lambda>i. push_bit i 1 - 1) (bits_of (fst (nk_map msk)) @ bits_of (snd (nk_map msk))),
     st_lookup_func = ce_best_impl C u0 u1\<rparr>"
  define m where "m = (nk_hash msk, p) # cl_map cls"
  define v where "v = ce_pv_publish C (ce_pv_insert C (cl_vec cls) p 0)"
  define cls1 where "cls1 = cls\<lparr>cl_map := m, cl_vec := v, cl_tables := (cl_tables cls)(p \<mapsto> st)\<rparr>"
  have create: "dpcls_create_subtable C cls msk = Inr (p, cls1)"
    using gen_masks_bits [OF E, of msk]
    by (simp add: dpcls_create_subtable_def Let_def p_def cls1_def m_def v_def st_def u0_def u1_def)
  have sub: "subtable_ok C p st"
    using clone_key [OF E k] by (simp add: subtable_ok_def st_def u0_def u1_def)
  have msk: "nk_map (st_mask st) = nk_map msk" "key_flow ?E (st_mask st) = key_flow ?E msk"
    using clone_key [OF E k] by (simp_all add: st_def)
  have old: "cls_rules ?E ((cl_tables cls)(p \<mapsto> st)) = cls_rules ?E (cl_tables cls)"
    unfolding cls_rules_upd using pt by (simp add: st_def fun_upd_idem)
  have masks: "\<not> netdev_flow_key_equal (st_mask s) (st_mask st) \<and> \<not> netdev_flow_key_equal (st_mask st) (st_mask s)"
    if "q \<noteq> p" "cl_tables cls q = Some s" for q s
  proof -
    have ks: "key_ok ?E (st_mask s)" using cls_okD(6) [OF ok that(2)] by (simp add: subtable_ok_def)
    have kc: "key_ok ?E (st_mask st)" using sub by (simp add: subtable_ok_def)
    have "q \<in> snd ` set (cl_map cls)" using that(2) cls_okD(4) [OF ok] by auto
    then have "\<not> netdev_flow_key_equal (st_mask s) msk" using none that(2) by blast
    then have "\<not> netdev_flow_key_equal (st_mask s) (st_mask st)" using clone_key(5) [OF E k ks] by (simp add: st_def)
    then show ?thesis
      unfolding key_equal_iff [OF E ks kc] key_equal_iff [OF E kc ks] by metis
  qed
  have mp: "distinct (map snd m)" "set (map snd m) = insert p (set (map snd (cl_map cls)))"
    using cls_okD(1) [OF ok] p by (simp_all add: m_def)
  have mh: "if snd hp = p then fst hp = nk_hash (st_mask st) else hp \<in> set (cl_map cls)" if "hp \<in> set m" for hp
    using that p clone_key(4) [OF E k] by (auto simp: m_def st_def)
  have ins: "distinct (map fst (ce_pv_insert C (cl_vec cls) p 0))"
      "map_of (ce_pv_insert C (cl_vec cls) p 0) = (map_of (cl_vec cls))(p \<mapsto> 0)"
    using pv p cls_okD(2,3) [OF ok] unfolding pvector_ok_def by simp_all
  then have "distinct (map fst v)" "map_of v = (map_of (cl_vec cls))(p \<mapsto> 0)"
    using pv unfolding pvector_ok_def v_def by simp_all
  then have v: "distinct (map fst v)" "set (map fst v) = set (map snd m)"
    using dom_map_of_conv_image_fst [of v] dom_map_of_conv_image_fst [of "cl_vec cls"] cls_okD(3) [OF ok] mp(2)
    by simp_all
  have no_ids: "ru_id r \<noteq> ru_id r'" if "q \<noteq> p" "cl_tables cls q = Some s" "r \<in> set (st_rules st)" "r' \<in> set (st_rules s)"
    for q s r r' using that(3) by (simp add: st_def)
  define st' where "st' = st\<lparr>st_rules := rule\<lparr>ru_mask := Some p\<rparr> # st_rules st\<rparr>"
  define cls2 where "cls2 = cls\<lparr>cl_map := m, cl_vec := v, cl_tables := (cl_tables cls)(p \<mapsto> st')\<rparr>"
  have "cls_ok C cls2" unfolding cls2_def st'_def
    by (rule insert_into(1) [OF E ok rule new sub old msk _ _ mp _ v]; fact masks no_ids mh)
  moreover have "cls_rules ?E ((cl_tables cls)(p \<mapsto> st')) =
      insert (ru_id rule, rule_pred ?E msk (ru_flow rule)) (cls_rules ?E (cl_tables cls))"
    unfolding st'_def
    by (rule insert_into(2) [OF E ok rule new sub old msk _ _ mp _ v]; fact masks no_ids mh)
  then have "cls_rules ?E (cl_tables cls2) =
      insert (ru_id rule, rule_pred ?E msk (ru_flow rule)) (cls_rules ?E (cl_tables cls))"
    by (simp add: cls2_def)
  moreover have "bindr (subtable_at (cl_tables cls1) p) (\<lambda>st.
       let rule = rule\<lparr>ru_mask := Some p\<rparr>
       in Inr (rule, cls1\<lparr>cl_tables := (cl_tables cls1)(p \<mapsto> st\<lparr>st_rules := rule # st_rules st\<rparr>)\<rparr>)) =
     Inr (rule\<lparr>ru_mask := Some p\<rparr>, cls2)"
    by (simp add: subtable_at_def cls1_def cls2_def st'_def Let_def)
  moreover have "cl_in_port cls2 = cl_in_port cls" by (simp add: cls2_def)
  ultimately show ?thesis using create by blast
qed

lemma dpcls_insert:
  assumes C: "cls_env_ok C" and ok: "cls_ok C cls" and rule: "rule_for (ce_flow C) msk rule"
    and new: "ru_id rule \<notin> fst ` cls_rules (ce_flow C) (cl_tables cls)"
  shows "\<exists>p cls'. dpcls_insert C cls rule msk = Inr (rule\<lparr>ru_mask := Some p\<rparr>, cls') \<and> cls_ok C cls' \<and>
    cl_in_port cls' = cl_in_port cls \<and>
    cls_rules (ce_flow C) (cl_tables cls') =
      insert (ru_id rule, rule_pred (ce_flow C) msk (ru_flow rule)) (cls_rules (ce_flow C) (cl_tables cls))"
proof -
  have tabs: "\<forall>hp\<in>set (cl_map cls). cl_tables cls (snd hp) \<noteq> None"
    using cls_okD(4) [OF ok] by (auto simp: dom_def set_eq_iff)
  have hashes: "\<forall>hp\<in>set (cl_map cls). \<forall>st. cl_tables cls (snd hp) = Some st \<longrightarrow> fst hp = nk_hash (st_mask st)"
    using cls_okD(5) [OF ok] by blast
  obtain found where f: "find_subtable_loop (cl_tables cls) msk (cl_map cls) = Inr found"
    "case found of
       Some p \<Rightarrow> p \<in> snd ` set (cl_map cls) \<and> (\<exists>st. cl_tables cls p = Some st \<and> netdev_flow_key_equal (st_mask st) msk)
     | None \<Rightarrow> \<forall>p\<in>snd ` set (cl_map cls). \<forall>st. cl_tables cls p = Some st \<longrightarrow> \<not> netdev_flow_key_equal (st_mask st) msk"
    using find_subtable_loop [OF tabs hashes] by blast
  show ?thesis
  proof (cases found)
    case None
    from insert_created [OF C ok rule new] f(2) None show ?thesis
      by (fastforce simp: dpcls_insert_def dpcls_find_subtable_def f(1))
  next
    case (Some p)
    then obtain st where st: "cl_tables cls p = Some st" "netdev_flow_key_equal (st_mask st) msk" using f(2) by auto
    define cls' where
      "cls' = cls\<lparr>cl_tables := (cl_tables cls)(p \<mapsto> st\<lparr>st_rules := rule\<lparr>ru_mask := Some p\<rparr> # st_rules st\<rparr>)\<rparr>"
    note I = insert_found [OF cls_env_okD(1) [OF C] ok rule new st]
    have "dpcls_insert C cls rule msk = Inr (rule\<lparr>ru_mask := Some p\<rparr>, cls')"
      using Some st(1) by (simp add: dpcls_insert_def dpcls_find_subtable_def f(1) subtable_at_def Let_def cls'_def)
    moreover have "cls_ok C cls'" unfolding cls'_def by (rule I(1))
    moreover have "cl_in_port cls' = cl_in_port cls" by (simp add: cls'_def)
    moreover have "cls_rules (ce_flow C) (cl_tables cls') =
      insert (ru_id rule, rule_pred (ce_flow C) msk (ru_flow rule)) (cls_rules (ce_flow C) (cl_tables cls))"
      using I(2) by (simp add: cls'_def)
    ultimately show ?thesis by blast
  qed
qed

text \<open>From a match to a rule.\<close>

lemma dpcls_insert_match:
  assumes C: "cls_env_ok C" and ok: "cls_ok C cls" and new: "ru_id rule \<notin> fst ` cls_rules (ce_flow C) (cl_tables cls)"
    and msk: "msk = netdev_flow_mask_init (ce_flow C) msk0 mt"
  shows "\<exists>key r cls'. netdev_flow_key_init_masked (ce_flow C) key0 (match_flow mt) msk = Inr key \<and>
    dpcls_insert C cls (rule\<lparr>ru_flow := key\<rparr>) msk = Inr (r, cls') \<and> cls_ok C cls' \<and>
    cls_rules (ce_flow C) (cl_tables cls') =
      insert (ru_id rule, packet_matches (ce_flow C) mt) (cls_rules (ce_flow C) (cl_tables cls)) \<and>
    cl_in_port cls' = cl_in_port cls \<and> ru_id r = ru_id rule"
proof -
  let ?E = "ce_flow C"
  note E = cls_env_okD(1) [OF C]
  note k = mask_init_key(3) [OF E msk]
  obtain key where key: "netdev_flow_key_init_masked ?E key0 (match_flow mt) msk = Inr key" "nk_map key = nk_map msk" "key_ok ?E key"
    using init_masked_key [OF E k] by blast
  have "rule_pred ?E msk key target = packet_matches ?E mt target" for target
    using match_of_rule [OF E, of key0 mt msk0 target] key(1) msk by (simp add: rule_pred_def)
  then have pred: "rule_pred ?E msk key = packet_matches ?E mt" by blast
  have rf: "rule_for ?E msk (rule\<lparr>ru_flow := key\<rparr>)" using k key(2,3) by (simp add: rule_for_def)
  have "ru_id (rule\<lparr>ru_flow := key\<rparr>) \<notin> fst ` cls_rules ?E (cl_tables cls)" using new by simp
  from dpcls_insert [OF C ok rf this] obtain p cls' where
    "dpcls_insert C cls (rule\<lparr>ru_flow := key\<rparr>) msk = Inr (rule\<lparr>ru_flow := key\<rparr>\<lparr>ru_mask := Some p\<rparr>, cls')" "cls_ok C cls'"
    "cl_in_port cls' = cl_in_port cls"
    "cls_rules ?E (cl_tables cls') = insert (ru_id rule, packet_matches ?E mt) (cls_rules ?E (cl_tables cls))"
    by (auto simp: pred)
  moreover have "ru_id (rule\<lparr>ru_flow := key\<rparr>\<lparr>ru_mask := Some p\<rparr>) = ru_id rule" by simp
  ultimately show ?thesis using key(1) by blast
qed

section \<open>Removal\<close>

lemma dpcls_remove:
  assumes C: "cls_env_ok C" and ok: "cls_ok C cls" and st: "cl_tables cls p = Some st" and r: "r \<in> set (st_rules st)"
  shows "\<exists>cls'. dpcls_remove C cls r = Inr cls' \<and> cls_ok C cls' \<and> cl_in_port cls' = cl_in_port cls \<and>
    cls_rules E (cl_tables cls') = {x \<in> cls_rules E (cl_tables cls). fst x \<noteq> ru_id r}"
proof -
  note pv = cls_env_okD(2) [OF C]
  note sub = cls_okD(6) [OF ok st]
  have mask: "ru_mask r = Some p" using sub r by (simp add: subtable_ok_def)
  have p: "p \<in> set (map snd (cl_map cls))" using st cls_okD(4) [OF ok] by blast
  define st' where "st' = st\<lparr>st_rules := filter (\<lambda>q. ru_id q \<noteq> ru_id r) (st_rules st)\<rparr>"
  have others: "fst x \<noteq> ru_id r" if x: "x \<in> cls_rules E ((cl_tables cls)(p := None))" for x
  proof -
    obtain q s r' where "q \<noteq> p" "cl_tables cls q = Some s" "r' \<in> set (st_rules s)" "fst x = ru_id r'"
      using x by (auto simp: cls_rules_def split: if_splits)
    then show ?thesis using cls_okD(9) [OF ok st _ r] by metis
  qed
  have hit: "rule_hit E st' k q = rule_hit E st k q" for k q by (simp add: rule_hit_def st'_def)
  have rules: "cls_rules E ((cl_tables cls)(p := None)) \<union> (\<lambda>r. (ru_id r, \<lambda>k. rule_hit E st' k r)) ` set (st_rules st') =
      {x \<in> cls_rules E (cl_tables cls). fst x \<noteq> ru_id r}"
    unfolding cls_rules_split [where tables = "cl_tables cls" and p = p, OF st] hit using others by (auto simp: st'_def)
  have rid: "ru_id r \<in> ru_id ` set (st_rules st)" using r by blast
  show ?thesis
  proof (cases "st_rules st' = []")
    case False
    have sub': "subtable_ok C p st'" using sub by (auto simp: subtable_ok_def st'_def distinct_map_filter)
    have "cls_ok C (cls\<lparr>cl_map := cl_map cls, cl_vec := cl_vec cls, cl_tables := (cl_tables cls)(p \<mapsto> st')\<rparr>)"
    proof (rule cls_ok_upd [OF ok sub' False _ _ cls_okD(1) [OF ok] _ _ cls_okD(2,3) [OF ok]])
      show "\<not> netdev_flow_key_equal (st_mask s) (st_mask st') \<and> \<not> netdev_flow_key_equal (st_mask st') (st_mask s)"
        if "q \<noteq> p" "cl_tables cls q = Some s" for q s
        using cls_okD(8) [OF ok that(2) st] cls_okD(8) [OF ok st that(2)] that(1) by (auto simp: st'_def)
      show "ru_id a \<noteq> ru_id b" if "q \<noteq> p" "cl_tables cls q = Some s" "a \<in> set (st_rules st')" "b \<in> set (st_rules s)" for q s a b
        using cls_okD(9) [OF ok st that(2) _ that(4)] that(1,3) by (auto simp: st'_def)
      show "if snd hp = p then fst hp = nk_hash (st_mask st') else hp \<in> set (cl_map cls)" if "hp \<in> set (cl_map cls)" for hp
        using cls_okD(5) [OF ok that] that st by (auto simp: st'_def)
    qed (use p in \<open>simp add: insert_absorb\<close>)
    moreover have "dpcls_remove C cls r = Inr (cls\<lparr>cl_tables := (cl_tables cls)(p \<mapsto> st')\<rparr>)"
      using rid False st by (simp add: dpcls_remove_def mask subtable_at_def Let_def st'_def)
    moreover have "cls_rules E ((cl_tables cls)(p \<mapsto> st')) = {x \<in> cls_rules E (cl_tables cls). fst x \<noteq> ru_id r}"
      unfolding cls_rules_upd by (rule rules)
    ultimately show ?thesis by simp
  next
    case True
    define v where "v = ce_pv_publish C (ce_pv_remove C (cl_vec cls) p)"
    have "distinct (map fst (ce_pv_remove C (cl_vec cls) p))"
      "map_of (ce_pv_remove C (cl_vec cls) p) = (map_of (cl_vec cls))(p := None)"
      using pv cls_okD(2) [OF ok] unfolding pvector_ok_def by simp_all
    then have "distinct (map fst v)" "map_of v = (map_of (cl_vec cls))(p := None)"
      using pv unfolding pvector_ok_def v_def by simp_all
    then have v: "distinct (map fst v)" "set (map fst v) = set (map fst (cl_vec cls)) - {p}"
      using dom_map_of_conv_image_fst [of v] dom_map_of_conv_image_fst [of "cl_vec cls"] by simp_all
    note cls_ok_del [OF ok v]
    moreover have "dpcls_remove C cls r = Inr (cls\<lparr>cl_map := filter (\<lambda>hp. snd hp \<noteq> p) (cl_map cls), cl_vec := v,
            cl_tables := (cl_tables cls)(p := None)\<rparr>)"
      using rid True st
      by (simp add: dpcls_remove_def dpcls_destroy_subtable_def mask subtable_at_def Let_def st'_def v_def)
    moreover have "cls_rules E ((cl_tables cls)(p := None)) = {x \<in> cls_rules E (cl_tables cls). fst x \<noteq> ru_id r}"
      using rules True by simp
    ultimately show ?thesis by simp
  qed
qed

section \<open>The interface of a classifier\<close>

text \<open>
  A client sees a set of rules.  A lookup answers each key from the rules; upkeep, which may
  reorder the subtables, keeps the rules.  The comment of \<open>dpcls_lookup\<close> relies on rules that do
  not overlap: then the answer does not depend on the order.
\<close>

definition non_overlapping :: "(nat \<times> ('k \<Rightarrow> bool)) set \<Rightarrow> bool" where
  "non_overlapping R \<longleftrightarrow> (\<forall>(i, P)\<in>R. \<forall>(j, Q)\<in>R. (\<exists>k. P k \<and> Q k) \<longrightarrow> i = j)"

lemma non_overlappingD:
  "non_overlapping R \<Longrightarrow> (i, P) \<in> R \<Longrightarrow> (j, Q) \<in> R \<Longrightarrow> P k \<Longrightarrow> Q k \<Longrightarrow> i = j"
  unfolding non_overlapping_def by fast

lemma answers_unique:
  assumes "non_overlapping R" and "answers R k a" and "answers R k b"
  shows "a = b"
proof (cases a; cases b)
  fix i j assume ij: "a = Some i" "b = Some j"
  then obtain P Q where "(i, P) \<in> R" "P k" "(j, Q) \<in> R" "Q k" using assms(2,3) by (auto simp: answers_def)
  then show ?thesis using non_overlappingD [OF assms(1)] ij by blast
qed (use assms(2,3) in \<open>auto simp: answers_def\<close>)

locale rule_classifier =
  fixes inv :: "'s \<Rightarrow> bool"
    and rules :: "'s \<Rightarrow> (nat \<times> ('k \<Rightarrow> bool)) set"
    and look :: "'s \<Rightarrow> 'k list \<Rightarrow> (nat option list \<times> 's) c_result"
    and upkeep :: "'s \<Rightarrow> 's c_result"
    and max_batch :: nat
  assumes look: "inv s \<Longrightarrow> ks \<noteq> [] \<Longrightarrow> length ks \<le> max_batch \<Longrightarrow>
      \<exists>res s'. look s ks = Inr (res, s') \<and> inv s' \<and> rules s' = rules s \<and> list_all2 (answers (rules s)) ks res"
    and upkeep: "inv s \<Longrightarrow> \<exists>s'. upkeep s = Inr s' \<and> inv s' \<and> rules s' = rules s"
begin

lemma look_answers:
  assumes "inv s" and "ks \<noteq> []" and "length ks \<le> max_batch" and "look s ks = Inr (res, s')"
  shows "list_all2 (answers (rules s)) ks res"
  using look [OF assms(1-3)] assms(4) by auto

lemma same_rules_same_answers:
  assumes "inv s" and "inv t" and "rules t = rules s" and "non_overlapping (rules s)"
    and "ks \<noteq> []" and "length ks \<le> max_batch" and "look s ks = Inr (res, s')"
  shows "\<exists>t'. look t ks = Inr (res, t')"
proof -
  obtain res' t' where t: "look t ks = Inr (res', t')" "list_all2 (answers (rules s)) ks res'"
    using look [OF assms(2,5,6)] assms(3) by auto
  note s = look_answers [OF assms(1,5,6,7)]
  have "res' = res"
  proof (rule nth_equalityI)
    show "length res' = length res" using t(2) s by (simp add: list_all2_conv_all_nth)
    show "res' ! i = res ! i" if "i < length res'" for i
      using that t(2) s answers_unique [OF assms(4)] by (auto simp: list_all2_conv_all_nth)
  qed
  then show ?thesis using t(1) by blast
qed

theorem upkeep_keeps_answers:
  assumes "inv s" and "non_overlapping (rules s)" and "ks \<noteq> []" and "length ks \<le> max_batch"
    and "look s ks = Inr (res, s')" and "upkeep s' = Inr t"
  shows "\<exists>t'. look t ks = Inr (res, t')"
proof -
  have "inv s'" "rules s' = rules s" using look [OF assms(1,3,4)] assms(5) by auto
  moreover from this have "inv t" "rules t = rules s'" using upkeep [of s'] assms(6) by auto
  ultimately show ?thesis using same_rules_same_answers [OF assms(1) _ _ assms(2-5)] by simp
qed

end

locale rule_set = rule_classifier inv rules look upkeep max_batch
  for inv :: "'s \<Rightarrow> bool" and rules :: "'s \<Rightarrow> (nat \<times> ('k \<Rightarrow> bool)) set"
    and look :: "'s \<Rightarrow> 'k list \<Rightarrow> (nat option list \<times> 's) c_result" and upkeep and max_batch +
  fixes ins :: "'s \<Rightarrow> 'r \<Rightarrow> 's c_result"
    and del :: "'s \<Rightarrow> nat \<Rightarrow> 's c_result"
    and rid :: "'r \<Rightarrow> nat" and pred :: "'s \<Rightarrow> 'r \<Rightarrow> 'k \<Rightarrow> bool" and fits :: "'s \<Rightarrow> 'r \<Rightarrow> bool"
  assumes ins: "inv s \<Longrightarrow> fits s r \<Longrightarrow> rid r \<notin> fst ` rules s \<Longrightarrow>
      \<exists>s'. ins s r = Inr s' \<and> inv s' \<and> rules s' = insert (rid r, pred s r) (rules s)"
    and del: "inv s \<Longrightarrow> i \<in> fst ` rules s \<Longrightarrow>
      \<exists>s'. del s i = Inr s' \<and> inv s' \<and> rules s' = {x \<in> rules s. fst x \<noteq> i}"
begin

text \<open>A rule that was inserted, and no other, is found for the keys it matches.\<close>

theorem inserted_is_found:
  assumes "inv s" and "fits s r" and "rid r \<notin> fst ` rules s"
    and "ins s r = Inr s'" and "pred s r k" and "\<forall>(i, P)\<in>rules s. \<not> P k" and "1 \<le> max_batch"
  shows "\<exists>t. look s' [k] = Inr ([Some (rid r)], t)"
proof -
  have s': "inv s'" "rules s' = insert (rid r, pred s r) (rules s)" using ins [OF assms(1-3)] assms(4) by auto
  obtain res t where res: "look s' [k] = Inr (res, t)" "list_all2 (answers (rules s')) [k] res"
    using look [OF s'(1), of "[k]"] assms(7) by auto
  then obtain a where a: "res = [a]" "answers (rules s') k a" by (auto simp: list_all2_Cons1)
  have "a = Some (rid r)" using a(2) assms(5,6) s'(2) by (auto simp: answers_def split: option.splits)
  then show ?thesis using res(1) a(1) by simp
qed

text \<open>A rule that was removed is not found any more.\<close>

theorem removed_is_not_found:
  assumes "inv s" and "i \<in> fst ` rules s" and "del s i = Inr s'"
    and "ks \<noteq> []" and "length ks \<le> max_batch" and "look s' ks = Inr (res, t)"
  shows "Some i \<notin> set res"
proof
  assume "Some i \<in> set res"
  have s': "inv s'" "rules s' = {x \<in> rules s. fst x \<noteq> i}" using del [OF assms(1,2)] assms(3) by auto
  from look_answers [OF s'(1) assms(4-6)] \<open>Some i \<in> set res\<close>
  obtain k where "answers (rules s') k (Some i)" by (auto simp: list_all2_conv_all_nth in_set_conv_nth)
  then show False using s'(2) by (auto simp: answers_def)
qed

end

end
