(* ===== verification/Dpif_Dpcls_Properties.thy ===== *)
theory Dpif_Dpcls_Properties
  imports Dpif_Dpcls_Rules
begin

text \<open>
  The classifier model as an instance of the classifier interface, an environment in which the
  documented behaviour of the library functions holds, and the properties of the classifier.
\<close>

section \<open>The model as a set of rules\<close>

type_synonym 'flow classifier = "'flow cls_env \<times> dpcls"

definition clf_inv :: "'flow classifier \<Rightarrow> bool" where
  "clf_inv s \<longleftrightarrow> cls_env_ok (fst s) \<and> cls_ok (fst s) (snd s)"

definition clf_rules :: "'flow classifier \<Rightarrow> (nat \<times> (netdev_flow_key \<Rightarrow> bool)) set" where
  "clf_rules s = cls_rules (ce_flow (fst s)) (cl_tables (snd s))"

definition clf_look :: "'flow classifier \<Rightarrow> netdev_flow_key list \<Rightarrow> (nat option list \<times> 'flow classifier) c_result" where
  "clf_look s keys = bindr (dpcls_lookup (fst s) (snd s) keys) (\<lambda>(all, rules, num, cls).
     Inr (map (map_option ru_id) rules, (fst s, cls)))"

definition clf_sort :: "'flow classifier \<Rightarrow> 'flow classifier c_result" where
  "clf_sort s = bindr (dpcls_sort_subtable_vector (fst s) (snd s)) (\<lambda>cls. Inr (fst s, cls))"

definition clf_reprobe :: "'flow classifier \<Rightarrow> 'flow classifier c_result" where
  "clf_reprobe s = bindr (dpcls_subtable_lookup_reprobe (fst s) (snd s)) (\<lambda>(n, cls). Inr (fst s, cls))"

definition clf_insert :: "'flow classifier \<Rightarrow> dpcls_rule \<times> netdev_flow_key \<Rightarrow> 'flow classifier c_result" where
  "clf_insert s r = bindr (dpcls_insert (fst s) (snd s) (fst r) (snd r)) (\<lambda>(rule, cls). Inr (fst s, cls))"

text \<open>The flow that owns a rule removes it; here it is looked up by its identity.\<close>

definition stored_rules :: "dpcls \<Rightarrow> dpcls_rule list" where
  "stored_rules cls = concat (map (\<lambda>hp. case cl_tables cls (snd hp) of None \<Rightarrow> [] | Some st \<Rightarrow> st_rules st) (cl_map cls))"

definition clf_remove :: "'flow classifier \<Rightarrow> nat \<Rightarrow> 'flow classifier c_result" where
  "clf_remove s i = (case find (\<lambda>r. ru_id r = i) (stored_rules (snd s)) of
      None \<Rightarrow> Inl Assert_Failed
    | Some r \<Rightarrow> bindr (dpcls_remove (fst s) (snd s) r) (\<lambda>cls. Inr (fst s, cls)))"

lemma set_of_case: "x \<in> set (case a of None \<Rightarrow> [] | Some st \<Rightarrow> f st) \<longleftrightarrow> (\<exists>st. a = Some st \<and> x \<in> set (f st))"
  by (cases a) simp_all

lemma stored_rules_iff:
  assumes "cls_ok C cls"
  shows "r \<in> set (stored_rules cls) \<longleftrightarrow> (\<exists>p st. cl_tables cls p = Some st \<and> r \<in> set (st_rules st))"
proof -
  have "\<exists>hp\<in>set (cl_map cls). snd hp = p" if "cl_tables cls p = Some st" for p st
  proof -
    have "p \<in> set (map snd (cl_map cls))" using that cls_okD(4) [OF assms] by blast
    then show ?thesis by force
  qed
  moreover have "r \<in> set (stored_rules cls) \<longleftrightarrow>
      (\<exists>hp\<in>set (cl_map cls). \<exists>st. cl_tables cls (snd hp) = Some st \<and> r \<in> set (st_rules st))"
    by (simp add: stored_rules_def set_of_case) metis
  ultimately show ?thesis by metis
qed

lemma clf_look_ok:
  assumes "clf_inv s" and "ks \<noteq> []" and "length ks \<le> 32"
  shows "\<exists>res s'. clf_look s ks = Inr (res, s') \<and> clf_inv s' \<and> clf_rules s' = clf_rules s \<and>
    list_all2 (answers (clf_rules s)) ks res"
proof -
  have inv: "cls_env_ok (fst s)" "cls_ok (fst s) (snd s)" using assms(1) by (simp_all add: clf_inv_def)
  obtain all rules n cls' where l: "dpcls_lookup (fst s) (snd s) ks = Inr (all, rules, n, cls')"
    "cls_ok (fst s) cls'" "cls_rules (ce_flow (fst s)) (cl_tables cls') = cls_rules (ce_flow (fst s)) (cl_tables (snd s))"
    "list_all2 (answers (cls_rules (ce_flow (fst s)) (cl_tables (snd s)))) ks (map (map_option ru_id) rules)"
    using lookup_answers [OF inv assms(2,3)] by blast
  then show ?thesis using inv by (simp add: clf_look_def clf_inv_def clf_rules_def)
qed

lemma clf_sort_ok:
  assumes "clf_inv s"
  shows "\<exists>s'. clf_sort s = Inr s' \<and> clf_inv s' \<and> clf_rules s' = clf_rules s"
  using assms sort_subtable_vector [of "fst s" "snd s"] by (fastforce simp: clf_sort_def clf_inv_def clf_rules_def)

lemma clf_reprobe_ok:
  assumes "clf_inv s"
  shows "\<exists>s'. clf_reprobe s = Inr s' \<and> clf_inv s' \<and> clf_rules s' = clf_rules s"
  using assms subtable_lookup_reprobe [of "fst s" "snd s"] by (fastforce simp: clf_reprobe_def clf_inv_def clf_rules_def)

lemma clf_insert_ok:
  assumes "clf_inv s" and "rule_for (ce_flow (fst s)) (snd r) (fst r)" and "ru_id (fst r) \<notin> fst ` clf_rules s"
  shows "\<exists>s'. clf_insert s r = Inr s' \<and> clf_inv s' \<and>
    clf_rules s' = insert (ru_id (fst r), rule_pred (ce_flow (fst s)) (snd r) (ru_flow (fst r))) (clf_rules s)"
proof -
  have inv: "cls_env_ok (fst s)" "cls_ok (fst s) (snd s)" using assms(1) by (simp_all add: clf_inv_def)
  show ?thesis
  proof -
    have "ru_id (fst r) \<notin> fst ` cls_rules (ce_flow (fst s)) (cl_tables (snd s))"
      using assms(3) unfolding clf_rules_def .
    from dpcls_insert [OF inv assms(2) this] obtain p cls' where
      "dpcls_insert (fst s) (snd s) (fst r) (snd r) = Inr (fst r\<lparr>ru_mask := Some p\<rparr>, cls')" "cls_ok (fst s) cls'"
      "cls_rules (ce_flow (fst s)) (cl_tables cls') =
        insert (ru_id (fst r), rule_pred (ce_flow (fst s)) (snd r) (ru_flow (fst r))) (cls_rules (ce_flow (fst s)) (cl_tables (snd s)))"
      by blast
    then show ?thesis using inv(1) by (simp add: clf_insert_def clf_inv_def clf_rules_def)
  qed
qed

lemma clf_remove_ok:
  assumes "clf_inv s" and "i \<in> fst ` clf_rules s"
  shows "\<exists>s'. clf_remove s i = Inr s' \<and> clf_inv s' \<and> clf_rules s' = {x \<in> clf_rules s. fst x \<noteq> i}"
proof -
  have inv: "cls_env_ok (fst s)" "cls_ok (fst s) (snd s)" using assms(1) by (simp_all add: clf_inv_def)
  obtain p st r where "cl_tables (snd s) p = Some st" "r \<in> set (st_rules st)" "ru_id r = i"
    using assms(2) by (auto simp: clf_rules_def cls_rules_iff)
  then have "\<exists>r\<in>set (stored_rules (snd s)). ru_id r = i"
    using stored_rules_iff [OF inv(2)] by blast
  then have "find (\<lambda>r. ru_id r = i) (stored_rules (snd s)) \<noteq> None"
    unfolding find_None_iff by blast
  then obtain r where r: "find (\<lambda>r. ru_id r = i) (stored_rules (snd s)) = Some r" by blast
  then have "r \<in> set (stored_rules (snd s))" "ru_id r = i" by (auto simp: find_Some_iff)
  then obtain p st where "cl_tables (snd s) p = Some st" "r \<in> set (st_rules st)"
    unfolding stored_rules_iff [OF inv(2)] by blast
  from dpcls_remove [OF inv this, of "ce_flow (fst s)"] obtain cls' where
    "dpcls_remove (fst s) (snd s) r = Inr cls'" "cls_ok (fst s) cls'"
    "cls_rules (ce_flow (fst s)) (cl_tables cls') = {x \<in> cls_rules (ce_flow (fst s)) (cl_tables (snd s)). fst x \<noteq> ru_id r}"
    by blast
  then show ?thesis using r inv(1) \<open>ru_id r = i\<close> by (simp add: clf_remove_def clf_inv_def clf_rules_def)
qed

interpretation sorted_cls: rule_set clf_inv clf_rules clf_look clf_sort 32 clf_insert clf_remove
    "\<lambda>r. ru_id (fst r)" "\<lambda>s r. rule_pred (ce_flow (fst s)) (snd r) (ru_flow (fst r))"
    "\<lambda>s r. rule_for (ce_flow (fst s)) (snd r) (fst r)"
  by unfold_locales (rule clf_look_ok clf_sort_ok clf_insert_ok clf_remove_ok; assumption)+

interpretation probed_cls: rule_classifier clf_inv clf_rules clf_look clf_reprobe 32
  by unfold_locales (rule clf_look_ok clf_reprobe_ok; assumption)+

section \<open>An environment\<close>

definition demo_flow_env :: "u64 list flow_env" where
  "demo_flow_env =
     \<lparr>fe_indices = (\<lambda>m. bits_of (fst m) @ map (\<lambda>i. i + 64) (bits_of (snd m))),
      fe_set = (\<lambda>m i. if i < 64 then (set_bit i (fst m), snd m) else (fst m, set_bit (i - 64) (snd m))),
      fe_value = (\<lambda>f i. if i < length f then f ! i else 0),
      fe_wc_map = (\<lambda>f. (7, 1)),
      fe_key_values = (\<lambda>k m. map (\<lambda>i. case map_of (zip (bits_of (fst (nk_map k)) @ map (\<lambda>i. i + 64) (bits_of (snd (nk_map k))))
                                              (nk_buf k)) i of Some v \<Rightarrow> v | None \<Rightarrow> 0)
                        (bits_of (fst m) @ map (\<lambda>i. i + 64) (bits_of (snd m)))),
      fe_key_size = (\<lambda>n. of_nat (16 + 8 * n)),
      fe_count_1bits = (\<lambda>w. of_nat (length (bits_of w))),
      fe_hash_add64 = (\<lambda>h w. 31 * h + ucast w),
      fe_hash_finish = (\<lambda>h n. h XOR ucast n)\<rparr>"

lemma bits_of_sorted: "sorted (bits_of w)" "distinct (bits_of w)" "i \<in> set (bits_of w) \<longleftrightarrow> i < 64 \<and> bit w i"
  by (auto simp: bits_of_def sorted_wrt_filter)

lemma demo_flow_env_ok: "flow_env_ok demo_flow_env"
proof -
  have "insert i (set (bits_of a) \<union> (\<lambda>i. i + 64) ` set (bits_of b)) =
      set (bits_of a) \<union> (\<lambda>i. i + 64) ` set (bits_of (set_bit (i - 64) b))" if "\<not> i < 64" "i < 128" for i and a b :: u64
  proof -
    have "i = (i - 64) + 64" using that(1) by simp
    moreover have "set (bits_of (set_bit (i - 64) b)) = insert (i - 64) (set (bits_of b))"
      using that by (auto simp: bits_of_sorted bit_set_bit_iff)
    ultimately show ?thesis by auto
  qed
  then show ?thesis unfolding flow_env_ok_def
    by (auto simp: demo_flow_env_def key_flow_def bits_of_sorted sorted_append sorted_map distinct_map inj_on_def
      bit_set_bit_iff intro: sorted_wrt_mono_rel [OF _ bits_of_sorted(1)])
qed

definition demo_found :: "dpcls_subtable \<Rightarrow> netdev_flow_key \<Rightarrow> dpcls_rule option" where
  "demo_found st k = find (\<lambda>r. dpcls_rule_matches_key demo_flow_env (st_mask st) (ru_flow r) k = Inr True) (st_rules st)"

definition demo_cls_env :: "u64 list cls_env" where
  "demo_cls_env =
     \<lparr>ce_flow = demo_flow_env, ce_best_impl = (\<lambda>u0 u1. 0),
      ce_lookup = (\<lambda>f st K keys rules.
        let hit = (\<lambda>i. i < length keys \<and> bit K i \<and> demo_found st (keys ! i) \<noteq> None) in
        (foldr (\<lambda>i w. if hit i then set_bit i w else w) [0..<32] 0,
         map (\<lambda>i. if hit i then demo_found st (keys ! i) else rules ! i) [0..<length keys],
         st_hit_cnt st + int (length (filter hit [0..<length keys])))),
      ce_alloc = (\<lambda>xs. Suc (sum_list xs)),
      ce_pv_insert = (\<lambda>v p prio. v @ [(p, prio)]),
      ce_pv_remove = (\<lambda>v p. filter (\<lambda>x. fst x \<noteq> p) v),
      ce_pv_change_priority = (\<lambda>v p prio. map (\<lambda>x. if fst x = p then (p, prio) else x) v),
      ce_pv_publish = (\<lambda>v. rev (foldr (insort_key snd) v []))\<rparr>"

lemma foldr_set_bit:
  "bit (foldr (\<lambda>i w. if P i then set_bit i w else w) xs (0 :: u32)) j \<longleftrightarrow> j < 32 \<and> j \<in> set xs \<and> P j"
  by (induction xs) (auto simp: bit_set_bit_iff dest: bit_imp_le_length)

lemma demo_found_iff:
  "(case demo_found st k of None \<Rightarrow> \<not> subtable_hit demo_flow_env st k
    | Some r \<Rightarrow> r \<in> set (st_rules st) \<and> rule_hit demo_flow_env st k r)"
  using find_None_iff [of "\<lambda>r. dpcls_rule_matches_key demo_flow_env (st_mask st) (ru_flow r) k = Inr True" "st_rules st"]
    find_Some_iff [of "\<lambda>r. dpcls_rule_matches_key demo_flow_env (st_mask st) (ru_flow r) k = Inr True" "st_rules st"]
  by (auto simp: demo_found_def subtable_hit_def rule_hit_def split: option.split)

lemma demo_found_hit: "demo_found st k \<noteq> None \<longleftrightarrow> subtable_hit demo_flow_env st k"
  using demo_found_iff [of st k] by (auto simp: subtable_hit_def split: option.splits)

lemma map_of_same_set:
  "distinct (map fst xs) \<Longrightarrow> distinct (map fst ys) \<Longrightarrow> set xs = set ys \<Longrightarrow> map_of xs = map_of ys"
  by (simp add: map_of_inject_set)

lemma map_of_change:
  "distinct (map fst v) \<Longrightarrow> p \<in> set (map fst v) \<Longrightarrow>
     map_of (map (\<lambda>x. if fst x = p then (p, prio) else x) v) = (map_of v)(p \<mapsto> prio)"
proof (induction v)
  case (Cons x v)
  have skip: "p \<notin> set (map fst v) \<Longrightarrow> map (\<lambda>x. if fst x = p then (p, prio) else x) v = v"
    by (induction v) auto
  show ?case using Cons skip by (cases x; cases "fst x = p") (auto simp: fun_upd_twist)
qed simp

lemma demo_pvector_ok: "pvector_ok demo_cls_env"
proof -
  have "map fst (map (\<lambda>x. if fst x = p then (p, prio) else x) v) = map fst v" for p and prio :: int and v :: "(nat \<times> int) list"
    by (induction v) auto
  then have change: "distinct (map fst (map (\<lambda>x. if fst x = p then (p, prio) else x) v)) = distinct (map fst v)"
    for p and prio :: int and v :: "(nat \<times> int) list" by (simp only:)
  have insert: "[p \<mapsto> prio] ++ map_of v = (map_of v)(p \<mapsto> prio)"
    if "p \<notin> set (map fst v)" for p and prio :: int and v :: "(nat \<times> int) list"
    using that by (induction v) (auto simp: fun_upd_twist)
  have remove: "map_of (filter (\<lambda>x. fst x \<noteq> p) v) = (map_of v)(p := None)" for p and v :: "(nat \<times> int) list"
    by (induction v) auto
  have publish: "distinct (map fst (rev (sort_key snd v)))" "map_of (rev (sort_key snd v)) = map_of v"
    "sorted_wrt (\<ge>) (map snd (rev (sort_key snd v)))" if "distinct (map fst v)" for v :: "(nat \<times> int) list"
  proof -
    show d: "distinct (map fst (rev (sort_key snd v)))"
      using that by (auto simp: distinct_map distinct_rev rev_map)
    show "map_of (rev (sort_key snd v)) = map_of v" by (rule map_of_same_set [OF d that]) simp
    have "sorted (map snd (sort_key snd v))" by simp
    then show "sorted_wrt (\<ge>) (map snd (rev (sort_key snd v)))" unfolding rev_map [symmetric] sorted_wrt_rev by simp
  qed
  show ?thesis unfolding pvector_ok_def demo_cls_env_def cls_env.select_convs sort_key_def [symmetric]
    by (intro conjI allI impI; (elim conjE)?;
        (simp only: change insert remove map_of_change publish distinct_map_filter)?) (simp_all add: insert)
qed

lemma demo_lookup_ok:
  assumes "length rules = length keys"
  shows "lookup_answer demo_flow_env st K keys rules (ce_lookup demo_cls_env f st K keys rules)"
proof -
  define hit where "hit i \<longleftrightarrow> i < length keys \<and> bit K i \<and> demo_found st (keys ! i) \<noteq> None" for i
  define F where "F = foldr (\<lambda>i w. if hit i then set_bit i w else w) [0..<32] (0 :: u32)"
  have F: "bit F i \<longleftrightarrow> hit i" for i
    unfolding F_def foldr_set_bit by (auto simp: hit_def dest: bit_imp_le_length)
  have "ce_lookup demo_cls_env f st K keys rules =
    (F, map (\<lambda>i. if hit i then demo_found st (keys ! i) else rules ! i) [0..<length keys],
     st_hit_cnt st + int (length (filter hit [0..<length keys])))"
    by (simp add: demo_cls_env_def F_def hit_def [abs_def] Let_def)
  moreover have "\<exists>r\<in>set (st_rules st). rule_hit demo_flow_env st (keys ! i) r \<and> demo_found st (keys ! i) = Some r"
    if "hit i" for i
    using that demo_found_iff [of st "keys ! i"] by (auto simp: hit_def split: option.splits)
  moreover have h: "hit i \<longleftrightarrow> i < length keys \<and> bit K i \<and> subtable_hit demo_flow_env st (keys ! i)" for i
    by (simp only: hit_def demo_found_hit)
  ultimately show ?thesis unfolding lookup_answer_def F
    by (auto simp: F simp del: not_None_eq)
qed

lemma demo_cls_env_ok: "cls_env_ok demo_cls_env"
proof -
  have "Suc (sum_list xs) \<notin> set xs" for xs :: "nat list"
    using member_le_sum_list [of _ xs] by fastforce
  then show ?thesis
    using demo_pvector_ok demo_lookup_ok demo_flow_env_ok by (simp add: cls_env_ok_def) (simp add: demo_cls_env_def)
qed

text \<open>Two rules that do not overlap: one on the first word of a packet, one on its first two words.\<close>

definition demo_match1 :: "u64 list match" where
  "demo_match1 = \<lparr>match_flow = [17, 5, 0], match_masks = [0xFF, 0, 0]\<rparr>"

definition demo_match2 :: "u64 list match" where
  "demo_match2 = \<lparr>match_flow = [3, 9, 0], match_masks = [0xFF, 0xFFFF, 0]\<rparr>"

definition demo_packet :: "u64 \<Rightarrow> u64 \<Rightarrow> netdev_flow_key" where
  "demo_packet a b = \<lparr>nk_hash = 0, nk_len = 32, nk_map = (3, 0), nk_buf = [a, b]\<rparr>"

definition demo_mask :: "u64 list match \<Rightarrow> netdev_flow_key" where
  "demo_mask mt = netdev_flow_mask_init demo_flow_env fresh_key mt"

definition demo_rule :: "nat \<Rightarrow> u64 list match \<Rightarrow> dpcls_rule" where
  "demo_rule i mt = \<lparr>ru_id = i, ru_mask = None,
     ru_flow = (case netdev_flow_key_init_masked demo_flow_env fresh_key (match_flow mt) (demo_mask mt) of
                  Inr k \<Rightarrow> k | Inl _ \<Rightarrow> fresh_key)\<rparr>"

definition demo_cls :: dpcls where
  "demo_cls = (case bindr (dpcls_insert demo_cls_env (dpcls_init 1) (demo_rule 1 demo_match1) (demo_mask demo_match1))
       (\<lambda>(r, cls). dpcls_insert demo_cls_env cls (demo_rule 2 demo_match2) (demo_mask demo_match2)) of
     Inr (r, cls) \<Rightarrow> cls | Inl _ \<Rightarrow> dpcls_init 1)"

lemma demo_rule_for: "rule_for demo_flow_env (demo_mask mt) (demo_rule i mt)"
proof -
  have m: "key_ok demo_flow_env (demo_mask mt)" unfolding demo_mask_def
    by (rule mask_init_key(3) [OF demo_flow_env_ok refl])
  obtain key where "netdev_flow_key_init_masked demo_flow_env fresh_key (match_flow mt) (demo_mask mt) = Inr key"
    "nk_map key = nk_map (demo_mask mt)" "key_ok demo_flow_env key"
    using init_masked_key [OF demo_flow_env_ok m] by blast
  then show ?thesis using m by (simp add: rule_for_def demo_rule_def)
qed

lemma demo_env_flow [simp]: "ce_flow demo_cls_env = demo_flow_env"
  by (simp add: demo_cls_env_def)

lemma demo_id [simp]: "ru_id (demo_rule i mt) = i"
  by (simp add: demo_rule_def)

lemma demo_cls_ok: "cls_ok demo_cls_env demo_cls"
  and demo_cls_ids: "fst ` cls_rules demo_flow_env (cl_tables demo_cls) = {1, 2}"
proof -
  let ?E = demo_flow_env
  obtain p c1 where c1: "dpcls_insert demo_cls_env (dpcls_init 1) (demo_rule 1 demo_match1) (demo_mask demo_match1) =
      Inr ((demo_rule 1 demo_match1)\<lparr>ru_mask := Some p\<rparr>, c1)" "cls_ok demo_cls_env c1"
    "cls_rules ?E (cl_tables c1) = {(1, rule_pred ?E (demo_mask demo_match1) (ru_flow (demo_rule 1 demo_match1)))}"
    using dpcls_insert [OF demo_cls_env_ok cls_ok_init, of "demo_mask demo_match1" "demo_rule 1 demo_match1" 1] demo_rule_for
    by (auto simp: cls_rules_init)
  have "ru_id (demo_rule 2 demo_match2) \<notin> fst ` cls_rules (ce_flow demo_cls_env) (cl_tables c1)" using c1(3) by simp
  from dpcls_insert [OF demo_cls_env_ok c1(2) _ this, of "demo_mask demo_match2"]
  obtain p' c2 where c2: "dpcls_insert demo_cls_env c1 (demo_rule 2 demo_match2) (demo_mask demo_match2) =
      Inr ((demo_rule 2 demo_match2)\<lparr>ru_mask := Some p'\<rparr>, c2)" "cls_ok demo_cls_env c2"
    "fst ` cls_rules ?E (cl_tables c2) = insert 2 (fst ` cls_rules ?E (cl_tables c1))"
    using demo_rule_for by auto
  have "demo_cls = c2" using c1(1) c2(1) by (simp add: demo_cls_def)
  then show "cls_ok demo_cls_env demo_cls" "fst ` cls_rules ?E (cl_tables demo_cls) = {1, 2}"
    using c1(3) c2(2,3) by auto
qed

text \<open>What the classifier holds after the two insertions.\<close>

lemma demo_values:
  "demo_mask demo_match1 = \<lparr>nk_hash = 245078, nk_len = 24, nk_map = (1, 0), nk_buf = [255]\<rparr>"
  "demo_mask demo_match2 = \<lparr>nk_hash = 70575917, nk_len = 32, nk_map = (3, 0), nk_buf = [255, 65535]\<rparr>"
  "demo_rule i demo_match1 = \<lparr>ru_id = i, ru_mask = None,
     ru_flow = \<lparr>nk_hash = 25, nk_len = 24, nk_map = (1, 0), nk_buf = [17]\<rparr>\<rparr>"
  "demo_rule i demo_match2 = \<lparr>ru_id = i, ru_mask = None,
     ru_flow = \<lparr>nk_hash = 118, nk_len = 32, nk_map = (3, 0), nk_buf = [3, 9]\<rparr>\<rparr>"
  by code_simp+

lemma demo_bits: "fe_count_1bits demo_flow_env 0 = 0" "fe_count_1bits demo_flow_env 1 = 1" "fe_count_1bits demo_flow_env 3 = 2"
  by code_simp+

lemma demo_masks:
  "dpcls_flow_key_gen_masks (demo_mask demo_match1) 1 0 = Inr [0]"
  "dpcls_flow_key_gen_masks (demo_mask demo_match2) 2 0 = Inr [0, 1]"
  by code_simp+

definition demo_st1 :: dpcls_subtable where
  "demo_st1 = \<lparr>st_mask = \<lparr>nk_hash = 245078, nk_len = 24, nk_map = (1, 0), nk_buf = [255]\<rparr>,
     st_rules = [\<lparr>ru_id = 1, ru_mask = Some 1,
                  ru_flow = \<lparr>nk_hash = 25, nk_len = 24, nk_map = (1, 0), nk_buf = [17]\<rparr>\<rparr>],
     st_hit_cnt = 0, st_bits_u0 = 1, st_bits_u1 = 0, st_mf_masks = [0], st_lookup_func = 0\<rparr>"

definition demo_st2 :: dpcls_subtable where
  "demo_st2 = \<lparr>st_mask = \<lparr>nk_hash = 70575917, nk_len = 32, nk_map = (3, 0), nk_buf = [255, 65535]\<rparr>,
     st_rules = [\<lparr>ru_id = 2, ru_mask = Some 2,
                  ru_flow = \<lparr>nk_hash = 118, nk_len = 32, nk_map = (3, 0), nk_buf = [3, 9]\<rparr>\<rparr>],
     st_hit_cnt = 0, st_bits_u0 = 2, st_bits_u1 = 0, st_mf_masks = [0, 1], st_lookup_func = 0\<rparr>"

lemma demo_cls_parts:
  "cl_map demo_cls = [(70575917, 2), (245078, 1)]" "cl_vec demo_cls = [(2, 0), (1, 0)]"
  "cl_tables demo_cls 1 = Some demo_st1" "cl_tables demo_cls (Suc 0) = Some demo_st1" "cl_tables demo_cls 2 = Some demo_st2"
  by (simp_all add: demo_cls_def dpcls_insert_def dpcls_find_subtable_def dpcls_create_subtable_def Let_def
      demo_values demo_bits demo_masks [unfolded demo_values] dpcls_init_def subtable_at_def netdev_flow_key_clone_def
      key_words_def fresh_key_def, simp_all add: demo_cls_env_def demo_st1_def demo_st2_def)

lemma demo_hits:
  "subtable_hit demo_flow_env demo_st1 (demo_packet 17 1)" "\<not> subtable_hit demo_flow_env demo_st2 (demo_packet 17 1)"
  "subtable_hit demo_flow_env demo_st2 (demo_packet 0x103 9)" "\<not> subtable_hit demo_flow_env demo_st1 (demo_packet 0x103 9)"
  "\<not> subtable_hit demo_flow_env demo_st1 (demo_packet 0 0)" "\<not> subtable_hit demo_flow_env demo_st2 (demo_packet 0 0)"
  by code_simp+

text \<open>The rules agree on which word decides, and ask for different values of its lowest byte.\<close>

lemma demo_rule_hits:
  "rule_hit demo_flow_env demo_st1 k r \<Longrightarrow> r \<in> set (st_rules demo_st1) \<Longrightarrow> key_flow demo_flow_env k 0 AND 255 = 17"
  "rule_hit demo_flow_env demo_st2 k r \<Longrightarrow> r \<in> set (st_rules demo_st2) \<Longrightarrow> key_flow demo_flow_env k 0 AND 255 = 3"
proof -
  have ix: "fe_indices demo_flow_env (1, 0) = [0]" "fe_indices demo_flow_env (3, 0) = [0, 1]" by code_simp+
  show "rule_hit demo_flow_env demo_st1 k r \<Longrightarrow> r \<in> set (st_rules demo_st1) \<Longrightarrow> key_flow demo_flow_env k 0 AND 255 = 17"
    by (auto simp: rule_hit_def demo_st1_def dpcls_rule_matches_key_def flow_env_okD(6) [OF demo_flow_env_ok] ix split: if_splits)
  show "rule_hit demo_flow_env demo_st2 k r \<Longrightarrow> r \<in> set (st_rules demo_st2) \<Longrightarrow> key_flow demo_flow_env k 0 AND 255 = 3"
    by (auto simp: rule_hit_def demo_st2_def dpcls_rule_matches_key_def flow_env_okD(6) [OF demo_flow_env_ok] ix split: if_splits)
qed

lemma demo_tables: "cl_tables demo_cls p = Some st \<Longrightarrow> p = 1 \<and> st = demo_st1 \<or> p = 2 \<and> st = demo_st2"
proof -
  assume p: "cl_tables demo_cls p = Some st"
  then have "p \<in> set (map snd (cl_map demo_cls))" using cls_okD(4) [OF demo_cls_ok] by blast
  then show ?thesis using p by (auto simp: demo_cls_parts)
qed

lemma demo_non_overlapping: "non_overlapping (cls_rules demo_flow_env (cl_tables demo_cls))"
proof -
  have "i = j" if i: "(i, P) \<in> cls_rules demo_flow_env (cl_tables demo_cls)" and j: "(j, Q) \<in> cls_rules demo_flow_env (cl_tables demo_cls)"
    and k: "P k" "Q k" for i j P Q k
  proof -
    obtain p st r where r: "cl_tables demo_cls p = Some st" "r \<in> set (st_rules st)" "i = ru_id r" "rule_hit demo_flow_env st k r"
      using i k(1) by (auto simp: cls_rules_iff)
    obtain p' st' r' where r': "cl_tables demo_cls p' = Some st'" "r' \<in> set (st_rules st')" "j = ru_id r'" "rule_hit demo_flow_env st' k r'"
      using j k(2) by (auto simp: cls_rules_iff)
    have "st = st'"
      using demo_tables [OF r(1)] demo_tables [OF r'(1)] demo_rule_hits [of k r] demo_rule_hits [of k r'] r r' by auto
    then show ?thesis using demo_tables [OF r(1)] r r' by (auto simp: demo_st1_def demo_st2_def)
  qed
  then show ?thesis unfolding non_overlapping_def by blast
qed

section \<open>Properties\<close>

text \<open>C23: A rule made from a match (its mask by \<open>netdev_flow_mask_init\<close>, its key by
  \<open>netdev_flow_key_init_masked\<close>) matches exactly the packets that agree with the flow of the
  match on every bit of its masks, over all words that make sense for the flow: the sparse
  comparison of \<open>dpcls_rule_matches_key\<close> loses and adds nothing, and never reads out of bounds.\<close>

theorem rule_matches_its_packets:
  assumes "flow_env_ok E"
  shows "\<exists>key. netdev_flow_key_init_masked E key0 (match_flow mt) (netdev_flow_mask_init E msk0 mt) = Inr key \<and>
    dpcls_rule_matches_key E (netdev_flow_mask_init E msk0 mt) key target = Inr (packet_matches E mt target)"
  by (rule match_of_rule [OF assms])

theorem rule_matches_its_packets_witness:
  "\<exists>key. netdev_flow_key_init_masked demo_flow_env fresh_key (match_flow demo_match1)
       (netdev_flow_mask_init demo_flow_env fresh_key demo_match1) = Inr key \<and>
    dpcls_rule_matches_key demo_flow_env (netdev_flow_mask_init demo_flow_env fresh_key demo_match1) key (demo_packet 0x111 5) =
      Inr True"
proof -
  have "packet_matches demo_flow_env demo_match1 (demo_packet 0x111 5)" by code_simp
  then show ?thesis
    using rule_matches_its_packets [OF demo_flow_env_ok, of fresh_key demo_match1 fresh_key "demo_packet 0x111 5"] by simp
qed

text \<open>For every key, \<open>dpcls_flow_key_gen_masks\<close> with the bit counts of its two maps passes
  its assertion and yields, for each bit that is set, the mask of the bits below it.\<close>

theorem generated_masks_cover_the_map:
  assumes "flow_env_ok E"
  shows "dpcls_flow_key_gen_masks k (fe_count_1bits E (fst (nk_map k))) (fe_count_1bits E (snd (nk_map k))) =
    Inr (map (\<lambda>i. push_bit i 1 - 1) (bits_of (fst (nk_map k)) @ bits_of (snd (nk_map k))))"
  by (rule gen_masks_bits [OF assms])

theorem generated_masks_cover_the_map_witness:
  "dpcls_flow_key_gen_masks (fresh_key\<lparr>nk_map := (0x8005, 2)\<rparr>) 3 1 = Inr [0, 3, 0x7FFF, 1]"
proof -
  have "fe_count_1bits demo_flow_env 0x8005 = 3 \<and> fe_count_1bits demo_flow_env 2 = 1 \<and>
    map (\<lambda>i. push_bit i (1 :: u64) - 1) (bits_of 0x8005 @ bits_of 2) = [0, 3, 0x7FFF, 1]" by code_simp
  then show ?thesis
    using generated_masks_cover_the_map [OF demo_flow_env_ok, of "fresh_key\<lparr>nk_map := (0x8005, 2)\<rparr>"] by simp
qed

text \<open>C24: A lookup of up to 32 keys returns, and stores in each slot a matching rule of the first
  subtable (in the order of the vector) that has one, or nothing when no subtable has; it reports
  success when every slot is filled, and the number of searched subtables is the sum over the
  found keys of the position of their subtable (modulo the width of an int).  Apart from hit
  counts the classifier is unchanged.\<close>

theorem lookup_takes_the_first_subtable:
  assumes "cls_env_ok C" and "cls_ok C cls" and "keys \<noteq> []" and "length keys \<le> 32"
  shows "\<exists>rules tables. dpcls_lookup C cls keys =
      Inr (\<forall>slot\<in>set rules. slot \<noteq> None, rules,
           of_nat (\<Sum>k\<leftarrow>keys. search_cost (ce_flow C) (cl_tables cls) (map fst (cl_vec cls)) 1 k),
           cls\<lparr>cl_tables := tables\<rparr>) \<and>
    same_but_hits (cl_tables cls) tables \<and>
    list_all2 (slot_ok (ce_flow C) (cl_tables cls) (map fst (cl_vec cls))) keys rules"
  by (rule lookup [OF assms(1,3,4)]) (use cls_ok_tables [OF assms(2)] in blast)

theorem lookup_takes_the_first_subtable_witness:
  "\<exists>rules tables. dpcls_lookup demo_cls_env demo_cls [demo_packet 17 1, demo_packet 0x103 9, demo_packet 0 0] =
      Inr (\<forall>slot\<in>set rules. slot \<noteq> None, rules, 3, demo_cls\<lparr>cl_tables := tables\<rparr>) \<and>
    list_all2 (slot_ok demo_flow_env (cl_tables demo_cls) (map fst (cl_vec demo_cls)))
      [demo_packet 17 1, demo_packet 0x103 9, demo_packet 0 0] rules"
proof -
  have "(\<Sum>k\<leftarrow>[demo_packet 17 1, demo_packet 0x103 9, demo_packet 0 0].
      search_cost demo_flow_env (cl_tables demo_cls) (map fst (cl_vec demo_cls)) 1 k) = 3"
    by (simp add: demo_cls_parts demo_hits)
  then show ?thesis
    using lookup_takes_the_first_subtable [OF demo_cls_env_ok demo_cls_ok, of "[demo_packet 17 1, demo_packet 0x103 9, demo_packet 0 0]"]
    by auto
qed

text \<open>C25: Inserting the rule made from a match adds to the classifier exactly that rule, matching
  exactly the packets of the match, whether the subtable of its mask exists or is created; the
  invariant of the classifier (one subtable for each mask, the hash map and the vector agree, no
  subtable is empty, the masks of the lookup functions fit the mask) is kept.\<close>

theorem insert_adds_the_match:
  assumes "cls_env_ok C" and "cls_ok C cls" and "ru_id rule \<notin> fst ` cls_rules (ce_flow C) (cl_tables cls)"
    and "msk = netdev_flow_mask_init (ce_flow C) msk0 mt"
  shows "\<exists>key r cls'. netdev_flow_key_init_masked (ce_flow C) key0 (match_flow mt) msk = Inr key \<and>
    dpcls_insert C cls (rule\<lparr>ru_flow := key\<rparr>) msk = Inr (r, cls') \<and> cls_ok C cls' \<and>
    cls_rules (ce_flow C) (cl_tables cls') =
      insert (ru_id rule, packet_matches (ce_flow C) mt) (cls_rules (ce_flow C) (cl_tables cls))"
  using dpcls_insert_match [OF assms, of key0] by blast

theorem insert_adds_the_match_witness:
  "\<exists>key r cls'. netdev_flow_key_init_masked demo_flow_env fresh_key [3, 9, 0] (demo_mask demo_match2) = Inr key \<and>
    dpcls_insert demo_cls_env demo_cls ((demo_rule 3 demo_match2)\<lparr>ru_flow := key\<rparr>) (demo_mask demo_match2) = Inr (r, cls') \<and>
    cls_ok demo_cls_env cls' \<and>
    cls_rules demo_flow_env (cl_tables cls') =
      insert (3, packet_matches demo_flow_env demo_match2) (cls_rules demo_flow_env (cl_tables demo_cls))"
proof -
  have "ru_id (demo_rule 3 demo_match2) \<notin> fst ` cls_rules (ce_flow demo_cls_env) (cl_tables demo_cls)"
    using demo_cls_ids by simp
  moreover have "match_flow demo_match2 = [3, 9, 0]" by (simp add: demo_match2_def)
  moreover have "demo_mask demo_match2 = netdev_flow_mask_init (ce_flow demo_cls_env) fresh_key demo_match2"
    by (simp add: demo_mask_def)
  ultimately show ?thesis
    using insert_adds_the_match [OF demo_cls_env_ok demo_cls_ok, of "demo_rule 3 demo_match2" "demo_mask demo_match2" fresh_key demo_match2 fresh_key]
    by simp
qed

text \<open>C26: Removing a rule takes exactly that rule out of the classifier and keeps its invariant, also
  when it was the last rule of its subtable and the subtable is destroyed.\<close>

theorem remove_takes_the_rule_out:
  assumes "cls_env_ok C" and "cls_ok C cls" and "r \<in> set (stored_rules cls)"
  shows "\<exists>cls'. dpcls_remove C cls r = Inr cls' \<and> cls_ok C cls' \<and>
    cls_rules (ce_flow C) (cl_tables cls') = {x \<in> cls_rules (ce_flow C) (cl_tables cls). fst x \<noteq> ru_id r}"
proof -
  obtain p st where "cl_tables cls p = Some st" "r \<in> set (st_rules st)"
    using assms(3) unfolding stored_rules_iff [OF assms(2)] by blast
  from dpcls_remove [OF assms(1,2) this] show ?thesis by blast
qed

theorem remove_takes_the_rule_out_witness:
  "\<exists>cls'. dpcls_remove demo_cls_env demo_cls ((demo_rule 2 demo_match2)\<lparr>ru_mask := Some 2\<rparr>) = Inr cls' \<and>
    cls_ok demo_cls_env cls' \<and>
    cls_rules demo_flow_env (cl_tables cls') = {x \<in> cls_rules demo_flow_env (cl_tables demo_cls). fst x \<noteq> 2}"
proof -
  have "(demo_rule 2 demo_match2)\<lparr>ru_mask := Some 2\<rparr> \<in> set (stored_rules demo_cls)"
    by (simp add: stored_rules_def demo_cls_parts demo_st2_def demo_values)
  then show ?thesis using remove_takes_the_rule_out [OF demo_cls_env_ok demo_cls_ok] by fastforce
qed

text \<open>C27: The periodic sorting of the subtables by their hits changes the answer of no lookup when
  the rules do not overlap, as the comment of \<open>dpcls_lookup\<close> relies on: the same keys get the same
  rules from the classifier after a lookup and a sort.\<close>

theorem sorting_keeps_the_answers:
  assumes "cls_env_ok C" and "cls_ok C cls" and "non_overlapping (cls_rules (ce_flow C) (cl_tables cls))"
    and "keys \<noteq> []" and "length keys \<le> 32"
  shows "\<exists>found rules num cls1 cls2 found' rules' num' cls3.
    dpcls_lookup C cls keys = Inr (found, rules, num, cls1) \<and> dpcls_sort_subtable_vector C cls1 = Inr cls2 \<and>
    dpcls_lookup C cls2 keys = Inr (found', rules', num', cls3) \<and>
    map (map_option ru_id) rules' = map (map_option ru_id) rules"
proof -
  obtain found rules num cls1 where l: "dpcls_lookup C cls keys = Inr (found, rules, num, cls1)" "cls_ok C cls1"
    using lookup_answers [OF assms(1,2,4,5)] by blast
  obtain cls2 where s: "dpcls_sort_subtable_vector C cls1 = Inr cls2" "cls_ok C cls2"
    using sort_subtable_vector [OF assms(1) l(2)] by blast
  obtain found' rules' num' cls3 where l': "dpcls_lookup C cls2 keys = Inr (found', rules', num', cls3)"
    using lookup_answers [OF assms(1) s(2) assms(4,5)] by blast
  have "\<exists>t. clf_look (C, cls2) keys = Inr (map (map_option ru_id) rules, t)"
    by (rule sorted_cls.upkeep_keeps_answers [of "(C, cls)" keys "map (map_option ru_id) rules" "(C, cls1)"])
       (use assms l(1) s(1) in \<open>simp_all add: clf_inv_def clf_rules_def clf_look_def clf_sort_def\<close>)
  then have "map (map_option ru_id) rules' = map (map_option ru_id) rules" using l' by (simp add: clf_look_def)
  then show ?thesis using l(1) s(1) l' by blast
qed

theorem sorting_keeps_the_answers_witness:
  "\<exists>found rules num cls1 cls2 found' rules' num' cls3.
    dpcls_lookup demo_cls_env demo_cls [demo_packet 17 1, demo_packet 0x103 9] = Inr (found, rules, num, cls1) \<and>
    dpcls_sort_subtable_vector demo_cls_env cls1 = Inr cls2 \<and>
    dpcls_lookup demo_cls_env cls2 [demo_packet 17 1, demo_packet 0x103 9] = Inr (found', rules', num', cls3) \<and>
    map (map_option ru_id) rules' = map (map_option ru_id) rules"
  by (rule sorting_keeps_the_answers [OF demo_cls_env_ok demo_cls_ok])
     (simp_all add: demo_non_overlapping)

text \<open>Sorting gives every subtable the priority that is its number of hits, puts the subtables
  in descending order of it, and starts counting again; rules and invariant are kept.\<close>

theorem sorting_orders_by_hits:
  assumes "cls_env_ok C" and "cls_ok C cls"
  shows "\<exists>cls'. dpcls_sort_subtable_vector C cls = Inr cls' \<and> cls_ok C cls' \<and>
    cls_rules E (cl_tables cls') = cls_rules E (cl_tables cls) \<and> cl_in_port cls' = cl_in_port cls \<and>
    (\<forall>(p, prio)\<in>set (cl_vec cls'). map_option st_hit_cnt (cl_tables cls p) = Some prio) \<and>
    sorted_wrt (\<ge>) (map snd (cl_vec cls')) \<and>
    (\<forall>p st. cl_tables cls' p = Some st \<longrightarrow> st_hit_cnt st = 0)"
  by (rule sort_subtable_vector [OF assms])

theorem sorting_orders_by_hits_witness:
  "\<exists>cls'. dpcls_sort_subtable_vector demo_cls_env demo_cls = Inr cls' \<and> cls_ok demo_cls_env cls' \<and>
    (\<forall>p st. cl_tables cls' p = Some st \<longrightarrow> st_hit_cnt st = 0)"
  using sorting_orders_by_hits [OF demo_cls_env_ok demo_cls_ok] by blast

end
