(* ===== verification/Dpif_Cache.thy ===== *)
theory Dpif_Cache
  imports Dpif_Key
begin

text \<open>
  The flow caches of a polling thread (\<open>dpif-netdev.c\<close>): the exact match cache (EMC), which
  keeps references to flows under whole keys, and the signature match cache (SMC), which keeps
  indexes into the flow table under 16-bit signatures.
\<close>

section \<open>State\<close>

text \<open>A flow is identified by its address; what the caches use of it are these fields.\<close>

record dp_netdev_flow =
  fl_mask :: netdev_flow_key
  fl_key :: netdev_flow_key
  fl_in_port :: u32
  fl_hash :: u32

record emc_entry =
  em_flow :: "nat option"
  em_key :: netdev_flow_key

record smc_bucket =
  sm_sig :: "u16 list"
  sm_flow_idx :: "u16 list"

text \<open>
  What the caches use of a thread: its two caches, the reference counts of the flows, the
  settings of its context, the flows, and how many random numbers have been drawn.
\<close>

record dfc_pmd =
  dc_emc :: "emc_entry list"
  dc_smc :: "smc_bucket list"
  dc_refs :: "nat \<Rightarrow> nat"
  dc_flows :: "nat \<Rightarrow> dp_netdev_flow"
  dc_emc_insert_min :: u32
  dc_smc_enable_db :: bool
  dc_random :: nat

text \<open>
  What the code takes from headers and libraries: the positions of a hash in the EMC
  (\<open>EMC_FOR_EACH_POS_WITH_HASH\<close>), whether an entry is alive (\<open>emc_entry_alive\<close>), the sizes of the
  SMC, reference counters (\<open>ovs_refcount_try_ref_rcu\<close> gives the new count, or nothing when the
  count was zero; \<open>ovs_refcount_unref_relaxed\<close>), the index of a hash in the flow table
  (\<open>cmap_find_index\<close>) and the flows at an index (\<open>cmap_find_by_index\<close>, null when there is no
  node), \<open>raw_ctz\<close> and \<open>random_uint32\<close>.
\<close>

record 'flow dfc_env =
  df_flow :: "'flow flow_env"
  df_positions :: "u32 \<Rightarrow> nat list"
  df_alive :: "emc_entry \<Rightarrow> bool"
  df_smc_mask :: u32
  df_per_bucket :: nat
  df_try_ref :: "nat \<Rightarrow> nat option"
  df_unref :: "nat \<Rightarrow> nat"
  df_find_index :: "u32 \<Rightarrow> u32"
  df_by_index :: "u16 \<Rightarrow> nat list option"
  df_ctz :: "u32 \<Rightarrow> u32"
  df_random :: "nat \<Rightarrow> u32"

section \<open>The exact match cache\<close>

definition dp_netdev_flow_ref :: "'flow dfc_env \<Rightarrow> (nat \<Rightarrow> nat) \<Rightarrow> nat \<Rightarrow> bool \<times> (nat \<Rightarrow> nat)" where
  "dp_netdev_flow_ref V refs flow =
     (case df_try_ref V (refs flow) of None \<Rightarrow> (False, refs) | Some n \<Rightarrow> (True, refs(flow := n)))"

definition dp_netdev_flow_unref :: "'flow dfc_env \<Rightarrow> (nat \<Rightarrow> nat) \<Rightarrow> nat \<Rightarrow> (nat \<Rightarrow> nat)" where
  "dp_netdev_flow_unref V refs flow = refs(flow := df_unref V (refs flow))"

definition emc_change_entry ::
  "'flow dfc_env \<Rightarrow> (nat \<Rightarrow> nat) \<Rightarrow> emc_entry \<Rightarrow> nat \<Rightarrow> netdev_flow_key option \<Rightarrow> emc_entry \<times> (nat \<Rightarrow> nat)" where
  "emc_change_entry V refs ce flow okey =
     (let (ce, refs) =
        (if em_flow ce \<noteq> Some flow then
           let refs = (case em_flow ce of None \<Rightarrow> refs | Some old \<Rightarrow> dp_netdev_flow_unref V refs old);
               (ok, refs) = dp_netdev_flow_ref V refs flow
           in (ce\<lparr>em_flow := (if ok then Some flow else None)\<rparr>, refs)
         else (ce, refs))
      in case okey of None \<Rightarrow> (ce, refs)
         | Some key \<Rightarrow> (ce\<lparr>em_key := netdev_flow_key_clone (em_key ce) key\<rparr>, refs))"

text \<open>
  The loop over the positions of a key: it ends at the entry that has the key (\<open>Inl\<close>) or with
  the entry to be replaced (\<open>Inr\<close>).
\<close>

fun emc_loop ::
  "'flow dfc_env \<Rightarrow> emc_entry list \<Rightarrow> netdev_flow_key \<Rightarrow> nat list \<Rightarrow> nat option \<Rightarrow> (nat + nat option) c_result" where
  "emc_loop V cache key [] to_be_replaced = Inr (Inr to_be_replaced)"
| "emc_loop V cache key (p # ps) to_be_replaced =
     bindr (arr_get cache p) (\<lambda>current_entry.
       if netdev_flow_key_equal (em_key current_entry) key then Inr (Inl p)
       else
         (case to_be_replaced of
            None \<Rightarrow> emc_loop V cache key ps (Some p)
          | Some r \<Rightarrow>
            bindr (arr_get cache r) (\<lambda>entry.
              if df_alive V entry \<and> \<not> df_alive V current_entry \<or> nk_hash (em_key current_entry) < nk_hash (em_key entry)
              then emc_loop V cache key ps (Some p)
              else emc_loop V cache key ps (Some r))))"

text \<open>The change of the entry that the loop points to.\<close>

definition emc_change_at ::
  "'flow dfc_env \<Rightarrow> dfc_pmd \<Rightarrow> nat \<Rightarrow> nat \<Rightarrow> netdev_flow_key option \<Rightarrow> dfc_pmd c_result" where
  "emc_change_at V pmd p flow okey =
     bindr (arr_get (dc_emc pmd) p) (\<lambda>ce.
       let (ce, refs) = emc_change_entry V (dc_refs pmd) ce flow okey
       in Inr (pmd\<lparr>dc_emc := (dc_emc pmd)[p := ce], dc_refs := refs\<rparr>))"

definition emc_insert :: "'flow dfc_env \<Rightarrow> dfc_pmd \<Rightarrow> netdev_flow_key \<Rightarrow> nat \<Rightarrow> dfc_pmd c_result" where
  "emc_insert V pmd key flow =
     bindr (emc_loop V (dc_emc pmd) key (df_positions V (nk_hash key)) None) (\<lambda>res.
       case res of
         Inl p \<Rightarrow> emc_change_at V pmd p flow None
       | Inr None \<Rightarrow> Inl Null_Deref
       | Inr (Some p) \<Rightarrow> emc_change_at V pmd p flow (Some key))"

definition next_random :: "'flow dfc_env \<Rightarrow> dfc_pmd \<Rightarrow> u32 \<times> dfc_pmd" where
  "next_random V pmd = (df_random V (dc_random pmd), pmd\<lparr>dc_random := dc_random pmd + 1\<rparr>)"

definition emc_probabilistic_insert :: "'flow dfc_env \<Rightarrow> dfc_pmd \<Rightarrow> netdev_flow_key \<Rightarrow> nat \<Rightarrow> dfc_pmd c_result" where
  "emc_probabilistic_insert V pmd key flow =
     (let mn = dc_emc_insert_min pmd in
      if mn \<noteq> 0 then
        let (r, pmd) = next_random V pmd in if r \<le> mn then emc_insert V pmd key flow else Inr pmd
      else Inr pmd)"

section \<open>The signature match cache\<close>

definition UINT16_MAX :: u16 where
  "UINT16_MAX = 65535"

text \<open>The first entry of a bucket with a signature.\<close>

fun sig_loop :: "u16 \<Rightarrow> smc_bucket \<Rightarrow> nat \<Rightarrow> nat \<Rightarrow> nat option c_result" where
  "sig_loop sig bucket i 0 = Inr None"
| "sig_loop sig bucket i (Suc n) =
     bindr (arr_get (sm_sig bucket) i) (\<lambda>s. if s = sig then Inr (Some i) else sig_loop sig bucket (Suc i) n)"

definition smc_entry_get :: "'flow dfc_env \<Rightarrow> dfc_pmd \<Rightarrow> u32 \<Rightarrow> nat list option c_result" where
  "smc_entry_get V pmd hash =
     bindr (arr_get (dc_smc pmd) (unat (hash AND df_smc_mask V))) (\<lambda>bucket.
     bindr (sig_loop (ucast (drop_bit 16 hash)) bucket 0 (df_per_bucket V)) (\<lambda>found.
     bindr (case found of None \<Rightarrow> Inr UINT16_MAX | Some i \<Rightarrow> arr_get (sm_flow_idx bucket) i) (\<lambda>index.
       if index \<noteq> UINT16_MAX then Inr (df_by_index V index) else Inr None)))"

fun free_loop :: "smc_bucket \<Rightarrow> nat \<Rightarrow> nat \<Rightarrow> nat option c_result" where
  "free_loop bucket i 0 = Inr None"
| "free_loop bucket i (Suc n) =
     bindr (arr_get (sm_flow_idx bucket) i) (\<lambda>f.
       if f = UINT16_MAX then Inr (Some i) else free_loop bucket (Suc i) n)"

definition store_entry :: "smc_bucket \<Rightarrow> nat \<Rightarrow> u16 \<Rightarrow> u16 \<Rightarrow> smc_bucket c_result" where
  "store_entry bucket i sig index =
     bindr (arr_set (sm_sig bucket) i sig) (\<lambda>sigs.
     bindr (arr_set (sm_flow_idx bucket) i index) (\<lambda>idx. Inr (bucket\<lparr>sm_sig := sigs, sm_flow_idx := idx\<rparr>)))"

definition smc_bucket_insert :: "'flow dfc_env \<Rightarrow> dfc_pmd \<Rightarrow> nat \<Rightarrow> u16 \<Rightarrow> u16 \<Rightarrow> dfc_pmd c_result" where
  "smc_bucket_insert V pmd b sig index =
     bindr (arr_get (dc_smc pmd) b) (\<lambda>bucket.
     bindr (sig_loop sig bucket 0 (df_per_bucket V)) (\<lambda>same.
     case same of
       Some i \<Rightarrow> bindr (arr_set (sm_flow_idx bucket) i index) (\<lambda>idx.
         Inr (pmd\<lparr>dc_smc := (dc_smc pmd)[b := bucket\<lparr>sm_flow_idx := idx\<rparr>]\<rparr>))
     | None \<Rightarrow>
       bindr (free_loop bucket 0 (df_per_bucket V)) (\<lambda>empty.
       case empty of
         Some i \<Rightarrow> bindr (store_entry bucket i sig index) (\<lambda>bucket.
           Inr (pmd\<lparr>dc_smc := (dc_smc pmd)[b := bucket]\<rparr>))
       | None \<Rightarrow>
         let (r, pmd) = next_random V pmd; i = unat r mod df_per_bucket V
         in bindr (store_entry bucket i sig index) (\<lambda>bucket.
           Inr (pmd\<lparr>dc_smc := (dc_smc pmd)[b := bucket]\<rparr>)))))"

definition smc_insert :: "'flow dfc_env \<Rightarrow> dfc_pmd \<Rightarrow> netdev_flow_key \<Rightarrow> u32 \<Rightarrow> dfc_pmd c_result" where
  "smc_insert V pmd key hash =
     (if \<not> dc_smc_enable_db pmd then Inr pmd
      else
        let cmap_index = df_find_index V hash;
            index = (if cmap_index \<ge> 65535 then UINT16_MAX else ucast cmap_index)
        in if index = UINT16_MAX then Inr pmd
           else smc_bucket_insert V pmd (unat (nk_hash key AND df_smc_mask V)) (ucast (drop_bit 16 (nk_hash key))) index)"

section \<open>Batches\<close>

text \<open>The loop over the set bits of a mask: the lowest one first, which is then cleared.\<close>

lemma clear_lowest_less: "m \<noteq> (0 :: u32) \<Longrightarrow> unat (m AND (m - 1)) < unat m"
proof -
  assume m: "m \<noteq> 0"
  have "m AND (m - 1) \<le> m - 1" by (rule word_and_le1)
  then have "unat (m AND (m - 1)) \<le> unat m - 1" using unat_minus_one [OF m] by (simp add: word_le_nat_alt)
  moreover have "0 < unat m" using m by (simp add: unat_gt_0)
  ultimately show ?thesis by simp
qed

function for_each_bit :: "(u32 \<Rightarrow> u32) \<Rightarrow> (nat \<Rightarrow> 's \<Rightarrow> 's c_result) \<Rightarrow> u32 \<Rightarrow> 's \<Rightarrow> 's c_result" where
  "for_each_bit ctz f m s =
     (if m = 0 then Inr s
      else bindr (f (unat (ctz m)) s) (\<lambda>s. for_each_bit ctz f (m AND (m - 1)) s))"
  by pat_completeness auto
termination by (relation "measure (\<lambda>(ctz, f, m, s). unat m)") (simp_all add: clear_lowest_less)

declare for_each_bit.simps [simp del]

text \<open>\<open>rules\<close> are the rules of the batch, each given by the flow that contains it.\<close>

definition emc_probabilistic_insert_batch ::
  "'flow dfc_env \<Rightarrow> dfc_pmd \<Rightarrow> netdev_flow_key list \<Rightarrow> nat list \<Rightarrow> u32 \<Rightarrow> dfc_pmd c_result" where
  "emc_probabilistic_insert_batch V pmd keys rules emc_insert_mask =
     for_each_bit (df_ctz V) (\<lambda>i pmd.
       bindr (arr_get rules i) (\<lambda>flow.
       bindr (arr_get keys i) (\<lambda>key. emc_probabilistic_insert V pmd key flow))) emc_insert_mask pmd"

definition smc_insert_batch ::
  "'flow dfc_env \<Rightarrow> dfc_pmd \<Rightarrow> netdev_flow_key list \<Rightarrow> nat list \<Rightarrow> u32 \<Rightarrow> dfc_pmd c_result" where
  "smc_insert_batch V pmd keys rules smc_insert_mask =
     for_each_bit (df_ctz V) (\<lambda>i pmd.
       bindr (arr_get rules i) (\<lambda>flow.
       bindr (arr_get keys i) (\<lambda>key. smc_insert V pmd key (fl_hash (dc_flows pmd flow))))) smc_insert_mask pmd"

section \<open>Lookup in the signature match cache\<close>

text \<open>The flows of a node of the flow table, in the order of \<open>CMAP_NODE_FOR_EACH\<close>.\<close>

fun smc_match :: "'flow dfc_env \<Rightarrow> dfc_pmd \<Rightarrow> u32 \<Rightarrow> netdev_flow_key \<Rightarrow> nat list \<Rightarrow> nat option c_result" where
  "smc_match V pmd in_port key [] = Inr None"
| "smc_match V pmd in_port key (f # fs) =
     bindr (dpcls_rule_matches_key (df_flow V) (fl_mask (dc_flows pmd f)) (fl_key (dc_flows pmd f)) key) (\<lambda>m.
       if m \<and> fl_in_port (dc_flows pmd f) = in_port then Inr (Some f) else smc_match V pmd in_port key fs)"

definition smc_lookup_single :: "'flow dfc_env \<Rightarrow> dfc_pmd \<Rightarrow> u32 \<Rightarrow> netdev_flow_key \<Rightarrow> nat option c_result" where
  "smc_lookup_single V pmd in_port key =
     bindr (smc_entry_get V pmd (nk_hash key)) (\<lambda>flow_node.
       case flow_node of None \<Rightarrow> Inr None | Some fs \<Rightarrow> smc_match V pmd in_port key fs)"

section \<open>Laws of the environment\<close>

definition dfc_env_ok :: "'flow dfc_env \<Rightarrow> bool" where
  "dfc_env_ok V \<longleftrightarrow> flow_env_ok (df_flow V) \<and>
     (\<forall>h. df_positions V h \<noteq> []) \<and> 0 < df_per_bucket V \<and>
     (\<forall>n. df_try_ref V n = (if n = 0 then None else Some (n + 1))) \<and> (\<forall>n. df_unref V n = n - 1) \<and>
     (\<forall>m. m \<noteq> 0 \<longrightarrow> bit m (unat (df_ctz V m)) \<and> (\<forall>j<unat (df_ctz V m). \<not> bit m j))"

lemma dfc_env_okD:
  assumes "dfc_env_ok V"
  shows "flow_env_ok (df_flow V)" and "df_positions V h \<noteq> []" and "0 < df_per_bucket V"
    and "df_try_ref V n = (if n = 0 then None else Some (n + 1))" and "df_unref V n = n - 1"
    and "m \<noteq> 0 \<Longrightarrow> bit m (unat (df_ctz V m))" and "m \<noteq> 0 \<Longrightarrow> j < unat (df_ctz V m) \<Longrightarrow> \<not> bit m j"
  using assms unfolding dfc_env_ok_def by blast+

text \<open>The loop over the bits of a mask is a fold over the set bits in their order.\<close>

fun fold_r :: "('a \<Rightarrow> 's \<Rightarrow> 's c_result) \<Rightarrow> 'a list \<Rightarrow> 's \<Rightarrow> 's c_result" where
  "fold_r f [] s = Inr s"
| "fold_r f (x # xs) s = bindr (f x s) (fold_r f xs)"

lemma fold_r_inv:
  "P s \<Longrightarrow> (\<And>x s. x \<in> set xs \<Longrightarrow> P s \<Longrightarrow> \<exists>s'. f x s = Inr s' \<and> P s') \<Longrightarrow> \<exists>s'. fold_r f xs s = Inr s' \<and> P s'"
proof (induction xs arbitrary: s)
  case (Cons x xs)
  obtain s' where s': "f x s = Inr s'" "P s'" using Cons.prems by (meson list.set_intros(1))
  then have "\<exists>s''. fold_r f xs s' = Inr s'' \<and> P s''" using Cons.IH [of s'] Cons.prems(2) by simp
  then show ?case using s'(1) by simp
qed simp

definition mask_bits :: "u32 \<Rightarrow> nat list" where
  "mask_bits m = filter (bit m) [0..<32]"

lemma set_mask_bits [simp]: "i \<in> set (mask_bits m) \<longleftrightarrow> bit m i"
  using bit_imp_le_length [of m i] by (auto simp: mask_bits_def)

lemma mask_bits_Cons:
  fixes m :: u32
  assumes "bit m i" and "\<forall>j<i. \<not> bit m j"
  shows "mask_bits m = i # mask_bits (m AND (m - 1))"
proof (rule sorted_distinct_set_unique)
  have cl: "bit (m AND (m - 1)) j \<longleftrightarrow> bit m j \<and> j \<noteq> i" for j
    using clear_lowest_bit [OF assms, of j] bit_imp_le_length [of m j] bit_imp_le_length [of "m AND (m - 1)" j] by auto
  have "i \<le> j" if "bit m j" for j using assms(2) that by (meson not_le)
  then show "sorted (i # mask_bits (m AND (m - 1)))" by (simp add: cl) (simp add: mask_bits_def sorted_wrt_filter)
  show "distinct (i # mask_bits (m AND (m - 1)))" by (simp add: cl) (simp add: mask_bits_def)
  show "set (mask_bits m) = set (i # mask_bits (m AND (m - 1)))" using assms(1) by (auto simp: cl)
qed (simp_all add: mask_bits_def sorted_wrt_filter)

lemma for_each_bit_fold:
  assumes "dfc_env_ok V"
  shows "for_each_bit (df_ctz V) f m s = fold_r f (mask_bits m) s"
proof (induction "df_ctz V" f m s rule: for_each_bit.induct)
  case (1 f m s)
  show ?case
  proof (cases "m = 0")
    case True
    then show ?thesis by (simp add: for_each_bit.simps mask_bits_def)
  next
    case False
    then have "mask_bits m = unat (df_ctz V m) # mask_bits (m AND (m - 1))"
      using dfc_env_okD(6,7) [OF assms] by (intro mask_bits_Cons) auto
    moreover have "for_each_bit (df_ctz V) f (m AND (m - 1)) t = fold_r f (mask_bits (m AND (m - 1))) t"
      if "f (unat (df_ctz V m)) s = Inr t" for t
      using 1 [OF False] .
    ultimately show ?thesis using False
      by (cases "f (unat (df_ctz V m)) s") (simp_all add: for_each_bit.simps [of "df_ctz V" f m])
  qed
qed

text \<open>The entries of a cache that refer to a flow.\<close>

definition emc_refs :: "emc_entry list \<Rightarrow> nat \<Rightarrow> nat" where
  "emc_refs cache flow = length (filter (\<lambda>ce. em_flow ce = Some flow) cache)"

lemma emc_refs_update:
  assumes "p < length cache"
  shows "emc_refs (cache[p := ce]) flow + (if em_flow (cache ! p) = Some flow then 1 else 0) =
    emc_refs cache flow + (if em_flow ce = Some flow then 1 else 0)"
  using assms
proof (induction cache arbitrary: p)
  case (Cons x cache)
  show ?case
  proof (cases p)
    case (Suc q)
    then show ?thesis using Cons.IH [of q] Cons.prems by (simp add: emc_refs_def)
  qed (simp add: emc_refs_def)
qed simp

end
