(* ===== verification/Dpif_Cache_Laws.thy ===== *)
theory Dpif_Cache_Laws
  imports Dpif_Cache
begin

text \<open>
  Laws of the flow caches: the references that the exact match cache holds are counted, which
  entry an insertion changes, what a bucket of the signature match cache holds for a signature
  before and after an insertion, and what the loop over the flows of a node finds.
\<close>

section \<open>The exact match cache\<close>

lemma emc_loop_result:
  assumes "\<forall>p\<in>set ps. p < length cache" and "\<forall>r. tbr = Some r \<longrightarrow> r < length cache"
  shows "\<exists>res. emc_loop V cache key ps tbr = Inr res \<and>
    (case res of
       Inl p \<Rightarrow> p \<in> set ps \<and> netdev_flow_key_equal (em_key (cache ! p)) key
     | Inr None \<Rightarrow> ps = [] \<and> tbr = None
     | Inr (Some p) \<Rightarrow> (p \<in> set ps \<or> tbr = Some p) \<and> (\<forall>q\<in>set ps. \<not> netdev_flow_key_equal (em_key (cache ! q)) key))"
  using assms
proof (induction ps arbitrary: tbr)
  case Nil
  then show ?case by (cases tbr) auto
next
  case (Cons p ps)
  show ?case
  proof (cases "netdev_flow_key_equal (em_key (cache ! p)) key")
    case True
    then show ?thesis using Cons.prems by auto
  next
    case False
    have loop: "\<exists>r. emc_loop V cache key (p # ps) tbr = emc_loop V cache key ps (Some r) \<and> (r = p \<or> tbr = Some r)"
    proof (cases tbr)
      case None
      then show ?thesis using False Cons.prems(1) by auto
    next
      case (Some t)
      then show ?thesis using False Cons.prems by auto
    qed
    then obtain r where r: "emc_loop V cache key (p # ps) tbr = emc_loop V cache key ps (Some r)" "r = p \<or> tbr = Some r"
      by blast
    then have "r < length cache" using Cons.prems by auto
    then obtain res where res: "emc_loop V cache key ps (Some r) = Inr res"
      "case res of
       Inl p \<Rightarrow> p \<in> set ps \<and> netdev_flow_key_equal (em_key (cache ! p)) key
     | Inr None \<Rightarrow> ps = [] \<and> Some r = None
     | Inr (Some p) \<Rightarrow> (p \<in> set ps \<or> Some r = Some p) \<and> (\<forall>q\<in>set ps. \<not> netdev_flow_key_equal (em_key (cache ! q)) key)"
      using Cons.IH [of "Some r"] Cons.prems(1) by auto
    then show ?thesis using r False by (auto split: sum.splits option.splits)
  qed
qed

lemma emc_loop_start:
  assumes "\<forall>p\<in>set ps. p < length cache" and "ps \<noteq> []"
  shows "(\<exists>p\<in>set ps. emc_loop V cache key ps None = Inr (Inl p) \<and> netdev_flow_key_equal (em_key (cache ! p)) key) \<or>
    (\<exists>p\<in>set ps. emc_loop V cache key ps None = Inr (Inr (Some p)))"
proof -
  obtain res where "emc_loop V cache key ps None = Inr res" and
    "case res of
       Inl p \<Rightarrow> p \<in> set ps \<and> netdev_flow_key_equal (em_key (cache ! p)) key
     | Inr None \<Rightarrow> ps = [] \<and> (None :: nat option) = None
     | Inr (Some p) \<Rightarrow> (p \<in> set ps \<or> None = Some p) \<and> (\<forall>q\<in>set ps. \<not> netdev_flow_key_equal (em_key (cache ! q)) key)"
    using emc_loop_result [OF assms(1), of None V key] by blast
  then show ?thesis using assms(2) by (cases res) (auto split: option.splits)
qed

lemma change_entry_flow:
  assumes "dfc_env_ok V" and "emc_change_entry V refs ce flow okey = (ce', refs')"
    and refs: "em_flow ce = Some flow \<longrightarrow> 0 < refs flow"
  shows "em_flow ce' = (if 0 < refs flow then Some flow else None)"
    and "em_key ce' = (case okey of None \<Rightarrow> em_key ce | Some key \<Rightarrow> netdev_flow_key_clone (em_key ce) key)"
    and "refs' f = refs f - (if em_flow ce = Some f \<and> f \<noteq> flow then 1 else 0)
                          + (if f = flow \<and> em_flow ce \<noteq> Some flow \<and> 0 < refs flow then 1 else 0)"
proof -
  have "em_flow ce' = (if 0 < refs flow then Some flow else None) \<and>
    em_key ce' = (case okey of None \<Rightarrow> em_key ce | Some key \<Rightarrow> netdev_flow_key_clone (em_key ce) key) \<and>
    refs' f = refs f - (if em_flow ce = Some f \<and> f \<noteq> flow then 1 else 0)
                     + (if f = flow \<and> em_flow ce \<noteq> Some flow \<and> 0 < refs flow then 1 else 0)"
  proof (cases "em_flow ce = Some flow")
    case True
    then show ?thesis using assms(2) refs by (cases okey) (auto simp: emc_change_entry_def)
  next
    case False
    define refs1 where "refs1 = (case em_flow ce of None \<Rightarrow> refs | Some old \<Rightarrow> dp_netdev_flow_unref V refs old)"
    have r1: "refs1 f = refs f - (if em_flow ce = Some f then 1 else 0)" for f
      by (cases "em_flow ce") (auto simp: refs1_def dp_netdev_flow_unref_def dfc_env_okD(5) [OF assms(1)])
    have "refs1 flow = refs flow" using r1 [of flow] False by simp
    then have "dp_netdev_flow_ref V refs1 flow =
        (0 < refs flow, if 0 < refs flow then refs1(flow := refs flow + 1) else refs1)"
      by (simp add: dp_netdev_flow_ref_def dfc_env_okD(4) [OF assms(1)])
    then show ?thesis using assms(2) False r1 [of f]
      by (cases okey) (auto simp: emc_change_entry_def refs1_def [symmetric])
  qed
  then show "em_flow ce' = (if 0 < refs flow then Some flow else None)"
    and "em_key ce' = (case okey of None \<Rightarrow> em_key ce | Some key \<Rightarrow> netdev_flow_key_clone (em_key ce) key)"
    and "refs' f = refs f - (if em_flow ce = Some f \<and> f \<noteq> flow then 1 else 0)
                          + (if f = flow \<and> em_flow ce \<noteq> Some flow \<and> 0 < refs flow then 1 else 0)" by simp_all
qed

definition emc_counted :: "dfc_pmd \<Rightarrow> (nat \<Rightarrow> nat) \<Rightarrow> bool" where
  "emc_counted pmd others \<longleftrightarrow> (\<forall>f. dc_refs pmd f = others f + emc_refs (dc_emc pmd) f)"

lemma emc_refs_pos: "p < length cache \<Longrightarrow> em_flow (cache ! p) = Some f \<Longrightarrow> 0 < emc_refs cache f"
  by (auto simp: emc_refs_def filter_empty_conv)

lemma emc_store:
  assumes "dfc_env_ok V" and c: "emc_counted pmd others" and p: "p < length (dc_emc pmd)"
    and ce: "emc_change_entry V (dc_refs pmd) (dc_emc pmd ! p) flow okey = (ce', refs')"
  shows "emc_counted (pmd\<lparr>dc_emc := (dc_emc pmd)[p := ce'], dc_refs := refs'\<rparr>) others"
    and "em_flow ce' = (if 0 < dc_refs pmd flow then Some flow else None)"
proof -
  let ?old = "em_flow (dc_emc pmd ! p)"
  have pos: "0 < dc_refs pmd f" if "?old = Some f" for f
    using emc_refs_pos [OF p that] c by (simp add: emc_counted_def)
  have old: "?old = Some flow \<longrightarrow> 0 < dc_refs pmd flow" using pos by blast
  note ch = change_entry_flow [OF assms(1) ce old]
  show fl: "em_flow ce' = (if 0 < dc_refs pmd flow then Some flow else None)" by (rule ch(1))
  have "refs' f = others f + emc_refs ((dc_emc pmd)[p := ce']) f" for f
  proof -
    have cnt: "dc_refs pmd f = others f + emc_refs (dc_emc pmd) f" using c by (simp add: emc_counted_def)
    note up = emc_refs_update [OF p, of ce' f] and ch3 = ch(3) [of f]
    show ?thesis
    proof (cases "?old = Some f")
      case True
      have "0 < dc_refs pmd f" by (rule pos [OF True])
      then show ?thesis using up ch3 cnt fl True by (cases "f = flow"; cases "0 < dc_refs pmd flow") simp_all
    next
      case False
      then show ?thesis using up ch3 cnt fl by (cases "f = flow"; cases "0 < dc_refs pmd flow") simp_all
    qed
  qed
  then show "emc_counted (pmd\<lparr>dc_emc := (dc_emc pmd)[p := ce'], dc_refs := refs'\<rparr>) others"
    by (simp add: emc_counted_def)
qed

lemma clone_equal:
  "key_words (nk_len key) \<le> length (nk_buf key) \<Longrightarrow> netdev_flow_key_equal (netdev_flow_key_clone k key) key"
  by (simp add: netdev_flow_key_equal_def netdev_flow_key_clone_def Let_def)

lemma emc_insert_result:
  assumes ok: "dfc_env_ok V" and c: "emc_counted pmd others"
    and key: "key_words (nk_len key) \<le> length (nk_buf key)"
    and pos: "\<forall>p\<in>set (df_positions V (nk_hash key)). p < length (dc_emc pmd)"
  shows "\<exists>p\<in>set (df_positions V (nk_hash key)). \<exists>ce refs.
    emc_insert V pmd key flow = Inr (pmd\<lparr>dc_emc := (dc_emc pmd)[p := ce], dc_refs := refs\<rparr>) \<and>
    netdev_flow_key_equal (em_key ce) key \<and>
    em_flow ce = (if 0 < dc_refs pmd flow then Some flow else None) \<and>
    emc_counted (pmd\<lparr>dc_emc := (dc_emc pmd)[p := ce], dc_refs := refs\<rparr>) others"
proof -
  have "\<exists>p okey. p \<in> set (df_positions V (nk_hash key)) \<and>
      (okey = Some key \<or> okey = None \<and> netdev_flow_key_equal (em_key (dc_emc pmd ! p)) key) \<and>
      emc_insert V pmd key flow = emc_change_at V pmd p flow okey"
    using emc_loop_start [OF pos dfc_env_okD(2) [OF ok], of V key]
  proof (elim disjE bexE conjE)
    fix p assume p: "p \<in> set (df_positions V (nk_hash key))" "netdev_flow_key_equal (em_key (dc_emc pmd ! p)) key"
      "emc_loop V (dc_emc pmd) key (df_positions V (nk_hash key)) None = Inr (Inl p)"
    then have "emc_insert V pmd key flow = emc_change_at V pmd p flow None" by (simp add: emc_insert_def)
    then show ?thesis using p by blast
  next
    fix p assume p: "p \<in> set (df_positions V (nk_hash key))"
      "emc_loop V (dc_emc pmd) key (df_positions V (nk_hash key)) None = Inr (Inr (Some p))"
    then have "emc_insert V pmd key flow = emc_change_at V pmd p flow (Some key)" by (simp add: emc_insert_def)
    then show ?thesis using p by blast
  qed
  then obtain p okey where p: "p \<in> set (df_positions V (nk_hash key))"
    "okey = Some key \<or> okey = None \<and> netdev_flow_key_equal (em_key (dc_emc pmd ! p)) key"
    "emc_insert V pmd key flow = emc_change_at V pmd p flow okey" by blast
  have len: "p < length (dc_emc pmd)" using pos p(1) by blast
  obtain ce refs where ce: "emc_change_entry V (dc_refs pmd) (dc_emc pmd ! p) flow okey = (ce, refs)"
    by (cases "emc_change_entry V (dc_refs pmd) (dc_emc pmd ! p) flow okey")
  note st = emc_store [OF ok c len ce]
  have old: "em_flow (dc_emc pmd ! p) = Some flow \<longrightarrow> 0 < dc_refs pmd flow"
    using emc_refs_pos [OF len] c by (auto simp: emc_counted_def)
  have "netdev_flow_key_equal (em_key ce) key"
    using change_entry_flow(2) [OF ok ce old] p(2) clone_equal [OF key] by auto
  moreover have "emc_insert V pmd key flow = Inr (pmd\<lparr>dc_emc := (dc_emc pmd)[p := ce], dc_refs := refs\<rparr>)"
    using p(3) len ce by (simp add: emc_change_at_def)
  ultimately show ?thesis using p(1) st by blast
qed

text \<open>Insertion keeps the number of entries and gives no reference to a flow that has none.\<close>

lemma emc_change_at_frame:
  assumes "dfc_env_ok V" and "emc_counted pmd others" and p: "p < length (dc_emc pmd)"
    and "emc_change_at V pmd p flow okey = Inr pmd'"
  shows "length (dc_emc pmd') = length (dc_emc pmd)" and "\<forall>q. q \<noteq> p \<longrightarrow> dc_emc pmd' ! q = dc_emc pmd ! q"
    and "dc_refs pmd f = 0 \<Longrightarrow> dc_refs pmd' f = 0"
proof -
  obtain ce refs where ce: "emc_change_entry V (dc_refs pmd) (dc_emc pmd ! p) flow okey = (ce, refs)"
    by (cases "emc_change_entry V (dc_refs pmd) (dc_emc pmd ! p) flow okey")
  then have pmd': "pmd' = pmd\<lparr>dc_emc := (dc_emc pmd)[p := ce], dc_refs := refs\<rparr>"
    using assms(4) p by (simp add: emc_change_at_def)
  then show "length (dc_emc pmd') = length (dc_emc pmd)" "\<forall>q. q \<noteq> p \<longrightarrow> dc_emc pmd' ! q = dc_emc pmd ! q" by simp_all
  have "em_flow (dc_emc pmd ! p) = Some flow \<longrightarrow> 0 < dc_refs pmd flow"
    using emc_refs_pos [OF p] assms(2) by (auto simp: emc_counted_def)
  note ch = change_entry_flow(3) [OF assms(1) ce this, of f]
  show "dc_refs pmd' f = 0" if "dc_refs pmd f = 0"
  proof -
    have "\<not> (f = flow \<and> em_flow (dc_emc pmd ! p) \<noteq> Some flow \<and> 0 < dc_refs pmd flow)" using that by auto
    then have "refs f = 0" using ch that by simp
    then show ?thesis by (simp add: pmd')
  qed
qed

definition emc_kept :: "dfc_pmd \<Rightarrow> (nat \<Rightarrow> nat) \<Rightarrow> dfc_pmd \<Rightarrow> bool" where
  "emc_kept pmd others pmd' \<longleftrightarrow> emc_counted pmd' others \<and> length (dc_emc pmd') = length (dc_emc pmd) \<and>
     (\<forall>f. dc_refs pmd f = 0 \<longrightarrow> dc_refs pmd' f = 0)"

lemma emc_insert_kept:
  assumes ok: "dfc_env_ok V" and kept: "emc_kept pmd0 others pmd"
    and pos: "\<forall>p\<in>set (df_positions V (nk_hash key)). p < length (dc_emc pmd)"
  shows "\<exists>pmd'. emc_insert V pmd key flow = Inr pmd' \<and> emc_kept pmd0 others pmd'"
proof -
  have c: "emc_counted pmd others" using kept by (simp add: emc_kept_def)
  have "\<exists>p okey. p < length (dc_emc pmd) \<and> emc_insert V pmd key flow = emc_change_at V pmd p flow okey"
    using emc_loop_start [OF pos dfc_env_okD(2) [OF ok], of V key]
  proof (elim disjE bexE conjE)
    fix p assume p: "p \<in> set (df_positions V (nk_hash key))"
      "emc_loop V (dc_emc pmd) key (df_positions V (nk_hash key)) None = Inr (Inl p)"
    then have "emc_insert V pmd key flow = emc_change_at V pmd p flow None" by (simp add: emc_insert_def)
    then show ?thesis using p(1) pos by blast
  next
    fix p assume p: "p \<in> set (df_positions V (nk_hash key))"
      "emc_loop V (dc_emc pmd) key (df_positions V (nk_hash key)) None = Inr (Inr (Some p))"
    then have "emc_insert V pmd key flow = emc_change_at V pmd p flow (Some key)" by (simp add: emc_insert_def)
    then show ?thesis using p(1) pos by blast
  qed
  then obtain p okey where p: "p < length (dc_emc pmd)"
    and ins: "emc_insert V pmd key flow = emc_change_at V pmd p flow okey" by blast
  obtain ce refs where ce: "emc_change_entry V (dc_refs pmd) (dc_emc pmd ! p) flow okey = (ce, refs)"
    by (cases "emc_change_entry V (dc_refs pmd) (dc_emc pmd ! p) flow okey")
  define pmd' where "pmd' = pmd\<lparr>dc_emc := (dc_emc pmd)[p := ce], dc_refs := refs\<rparr>"
  have at: "emc_change_at V pmd p flow okey = Inr pmd'" using p ce by (simp add: emc_change_at_def pmd'_def)
  have "emc_counted pmd' others" using emc_store(1) [OF ok c p ce] by (simp add: pmd'_def)
  then have "emc_kept pmd0 others pmd'"
    using kept emc_change_at_frame(1,3) [OF ok c p at] by (simp add: emc_kept_def)
  then show ?thesis using ins at by simp
qed

lemma emc_probabilistic_kept:
  assumes "dfc_env_ok V" and "emc_kept pmd0 others pmd"
    and "\<forall>p\<in>set (df_positions V (nk_hash key)). p < length (dc_emc pmd0)"
  shows "\<exists>pmd'. emc_probabilistic_insert V pmd key flow = Inr pmd' \<and> emc_kept pmd0 others pmd'"
proof -
  let ?drawn = "pmd\<lparr>dc_random := dc_random pmd + 1\<rparr>"
  have "emc_counted ?drawn others = emc_counted pmd others" by (simp add: emc_counted_def)
  then have kept: "emc_kept pmd0 others ?drawn" using assms(2) by (simp add: emc_kept_def)
  have "length (dc_emc pmd) = length (dc_emc pmd0)" using assms(2) by (simp add: emc_kept_def)
  then have "\<forall>p\<in>set (df_positions V (nk_hash key)). p < length (dc_emc ?drawn)" using assms(3) by simp
  note ins = emc_insert_kept [OF assms(1) kept this, of flow]
  show ?thesis
  proof (cases "dc_emc_insert_min pmd \<noteq> 0 \<and> df_random V (dc_random pmd) \<le> dc_emc_insert_min pmd")
    case True
    then show ?thesis using ins by (simp add: emc_probabilistic_insert_def next_random_def)
  next
    case False
    then have "emc_probabilistic_insert V pmd key flow \<in> {Inr pmd, Inr ?drawn}"
      by (auto simp: emc_probabilistic_insert_def next_random_def Let_def)
    then show ?thesis using assms(2) kept by blast
  qed
qed

lemma emc_batch_kept:
  assumes ok: "dfc_env_ok V" and c: "emc_counted pmd others"
    and rng: "\<forall>i. bit emc_mask i \<longrightarrow> i < length keys \<and> i < length rules"
    and pos: "\<forall>h. \<forall>p\<in>set (df_positions V h). p < length (dc_emc pmd)"
  shows "\<exists>pmd'. emc_probabilistic_insert_batch V pmd keys rules emc_mask = Inr pmd' \<and> emc_kept pmd others pmd'"
  unfolding emc_probabilistic_insert_batch_def for_each_bit_fold [OF ok]
proof (rule fold_r_inv)
  show "emc_kept pmd others pmd" using c by (simp add: emc_kept_def)
  fix i s assume "i \<in> set (mask_bits emc_mask)" and s: "emc_kept pmd others s"
  then have "i < length keys" "i < length rules" using rng by auto
  then show "\<exists>s'. bindr (arr_get rules i) (\<lambda>flow. bindr (arr_get keys i) (\<lambda>key. emc_probabilistic_insert V s key flow)) = Inr s' \<and>
      emc_kept pmd others s'"
    using emc_probabilistic_kept [OF ok s, of "keys ! i" "rules ! i"] pos by simp
qed

lemma emc_replaces:
  assumes "dfc_env_ok V" and "df_positions V (nk_hash key) = [a, b]" and "a < length (dc_emc pmd)" and "b < length (dc_emc pmd)"
    and "\<not> netdev_flow_key_equal (em_key (dc_emc pmd ! a)) key" and "\<not> netdev_flow_key_equal (em_key (dc_emc pmd ! b)) key"
  shows "emc_loop V (dc_emc pmd) key (df_positions V (nk_hash key)) None =
    Inr (Inr (Some (if df_alive V (dc_emc pmd ! a) \<and> \<not> df_alive V (dc_emc pmd ! b) \<or>
                      nk_hash (em_key (dc_emc pmd ! b)) < nk_hash (em_key (dc_emc pmd ! a)) then b else a)))"
  using assms by simp

text \<open>The position that an insertion changes.\<close>

lemma emc_insert_at:
  assumes ok: "dfc_env_ok V" and c: "emc_counted pmd others" and key: "key_words (nk_len key) \<le> length (nk_buf key)"
    and ps: "df_positions V (nk_hash key) = [a, b]" and len: "a < length (dc_emc pmd)" "b < length (dc_emc pmd)"
    and p_def: "p = (if netdev_flow_key_equal (em_key (dc_emc pmd ! a)) key then a
              else if netdev_flow_key_equal (em_key (dc_emc pmd ! b)) key then b
              else if df_alive V (dc_emc pmd ! a) \<and> \<not> df_alive V (dc_emc pmd ! b) \<or>
                      nk_hash (em_key (dc_emc pmd ! b)) < nk_hash (em_key (dc_emc pmd ! a)) then b else a)"
  shows "\<exists>pmd'. emc_insert V pmd key flow = Inr pmd' \<and>
    netdev_flow_key_equal (em_key (dc_emc pmd' ! p)) key \<and>
    em_flow (dc_emc pmd' ! p) = (if 0 < dc_refs pmd flow then Some flow else None) \<and>
    (\<forall>q. q \<noteq> p \<longrightarrow> dc_emc pmd' ! q = dc_emc pmd ! q)"
proof -
  have p: "p < length (dc_emc pmd)" using len by (simp add: p_def)
  have "\<exists>okey. (okey = Some key \<or> okey = None \<and> netdev_flow_key_equal (em_key (dc_emc pmd ! p)) key) \<and>
      emc_insert V pmd key flow = emc_change_at V pmd p flow okey"
  proof (cases "netdev_flow_key_equal (em_key (dc_emc pmd ! a)) key \<or> netdev_flow_key_equal (em_key (dc_emc pmd ! b)) key")
    case True
    then have "emc_insert V pmd key flow = emc_change_at V pmd p flow None"
      using ps len by (auto simp: emc_insert_def p_def)
    moreover have "netdev_flow_key_equal (em_key (dc_emc pmd ! p)) key" using True by (auto simp: p_def)
    ultimately show ?thesis by blast
  next
    case False
    then have "emc_loop V (dc_emc pmd) key (df_positions V (nk_hash key)) None = Inr (Inr (Some p))"
      using emc_replaces [OF ok ps len] by (simp add: p_def)
    then have "emc_insert V pmd key flow = emc_change_at V pmd p flow (Some key)" by (simp add: emc_insert_def)
    then show ?thesis by blast
  qed
  then obtain okey where okey: "okey = Some key \<or> okey = None \<and> netdev_flow_key_equal (em_key (dc_emc pmd ! p)) key"
    and ins: "emc_insert V pmd key flow = emc_change_at V pmd p flow okey" by blast
  obtain ce refs where ce: "emc_change_entry V (dc_refs pmd) (dc_emc pmd ! p) flow okey = (ce, refs)"
    by (cases "emc_change_entry V (dc_refs pmd) (dc_emc pmd ! p) flow okey")
  define pmd' where "pmd' = pmd\<lparr>dc_emc := (dc_emc pmd)[p := ce], dc_refs := refs\<rparr>"
  have at: "emc_change_at V pmd p flow okey = Inr pmd'" using p ce by (simp add: emc_change_at_def pmd'_def)
  have new: "dc_emc pmd' ! p = ce" using p by (simp add: pmd'_def)
  have old: "em_flow (dc_emc pmd ! p) = Some flow \<longrightarrow> 0 < dc_refs pmd flow"
    using emc_refs_pos [OF p] c by (auto simp: emc_counted_def)
  have "netdev_flow_key_equal (em_key ce) key"
    using change_entry_flow(2) [OF ok ce old] okey clone_equal [OF key] by auto
  moreover have "em_flow ce = (if 0 < dc_refs pmd flow then Some flow else None)"
    by (rule change_entry_flow(1) [OF ok ce old])
  ultimately show ?thesis using ins at new emc_change_at_frame(2) [OF ok c p at] by simp
qed

section \<open>The signature match cache\<close>

lemma sig_loop_find:
  assumes "i + n \<le> length (sm_sig b)"
  shows "sig_loop sig b i n = Inr (find (\<lambda>j. sm_sig b ! j = sig) [i..<i + n])"
  using assms
proof (induction n arbitrary: i)
  case (Suc n)
  then show ?case using Suc.IH [of "Suc i"] by (simp add: upt_conv_Cons del: upt_Suc)
qed simp

lemma free_loop_find:
  assumes "i + n \<le> length (sm_flow_idx b)"
  shows "free_loop b i n = Inr (find (\<lambda>j. sm_flow_idx b ! j = UINT16_MAX) [i..<i + n])"
  using assms
proof (induction n arbitrary: i)
  case (Suc n)
  then show ?case using Suc.IH [of "Suc i"] by (simp add: upt_conv_Cons del: upt_Suc)
qed simp

lemma find_None_upt: "find P [0..<n] = None \<longleftrightarrow> (\<forall>j<n. \<not> P j)"
  by (auto simp: find_None_iff)

lemma find_Some_upt: "find P [0..<n] = Some i \<Longrightarrow> i < n \<and> P i \<and> (\<forall>j<i. \<not> P j)"
  by (auto simp: find_Some_iff)

text \<open>
  What a bucket holds for a signature, and the condition under which an entry is only found
  under the signature it was inserted with: a used slot is the first one with its signature.
\<close>

definition bucket_get :: "nat \<Rightarrow> u16 list \<Rightarrow> u16 list \<Rightarrow> u16 \<Rightarrow> u16" where
  "bucket_get n sigs idx sig = (case find (\<lambda>j. sigs ! j = sig) [0..<n] of None \<Rightarrow> UINT16_MAX | Some i \<Rightarrow> idx ! i)"

definition bucket_ok :: "nat \<Rightarrow> smc_bucket \<Rightarrow> bool" where
  "bucket_ok n b \<longleftrightarrow> length (sm_sig b) = n \<and> length (sm_flow_idx b) = n \<and>
     (\<forall>j<n. sm_flow_idx b ! j \<noteq> UINT16_MAX \<longrightarrow> (\<forall>i<j. sm_sig b ! i \<noteq> sm_sig b ! j))"

lemma find_first: "i < n \<Longrightarrow> P i \<Longrightarrow> \<forall>j<i. \<not> P j \<Longrightarrow> find P [0..<n] = Some i"
  by (subst find_Some_iff) (auto intro!: exI [of _ i])

lemma bucket_get_first:
  assumes "i < n" and "sigs ! i = sig" and "\<forall>j<i. sigs ! j \<noteq> sig"
  shows "bucket_get n sigs idx sig = idx ! i"
  using find_first [of i n "\<lambda>j. sigs ! j = sig"] assms by (simp add: bucket_get_def)

text \<open>Writing a slot: the signature has the index, any other one has what it had or nothing.\<close>

lemma bucket_write:
  assumes b: "bucket_ok n b" and i: "i < n" and first: "\<forall>j<i. sm_sig b ! j \<noteq> sig"
    and slot: "sm_sig b ! i = sig \<or> (\<forall>j<n. sm_sig b ! j \<noteq> sig)"
    and sigs: "sigs = (sm_sig b)[i := sig]" and idx: "idx = (sm_flow_idx b)[i := x]"
  shows "bucket_ok n \<lparr>sm_sig = sigs, sm_flow_idx = idx\<rparr>"
    and "bucket_get n sigs idx sig = x"
    and "sig' \<noteq> sig \<Longrightarrow> bucket_get n sigs idx sig' \<in> {UINT16_MAX, bucket_get n (sm_sig b) (sm_flow_idx b) sig'}"
proof -
  have len: "length (sm_sig b) = n" "length (sm_flow_idx b) = n" using b by (simp_all add: bucket_ok_def)
  have at: "sigs ! j = (if j = i then sig else sm_sig b ! j)" "idx ! j = (if j = i then x else sm_flow_idx b ! j)"
    if "j < n" for j
    using that i len by (simp_all add: sigs idx nth_list_update)
  have used: "\<forall>k<j. sm_sig b ! k \<noteq> sm_sig b ! j" if "j < n" "sm_flow_idx b ! j \<noteq> UINT16_MAX" for j
    using b that by (simp add: bucket_ok_def)
  have "sigs ! k \<noteq> sigs ! j" if j: "j < n" "idx ! j \<noteq> UINT16_MAX" and k: "k < j" for j k
  proof (cases "j = i")
    case True
    then show ?thesis using first k i at by simp
  next
    case False
    then have "sm_flow_idx b ! j \<noteq> UINT16_MAX" using j at by simp
    then have *: "\<forall>k<j. sm_sig b ! k \<noteq> sm_sig b ! j" using used j(1) by blast
    have "sm_sig b ! j \<noteq> sig" if "k = i" using slot * that k j(1) by metis
    then show ?thesis using False * k j(1) at [of j] at [of k] by auto
  qed
  then show "bucket_ok n \<lparr>sm_sig = sigs, sm_flow_idx = idx\<rparr>" by (simp add: bucket_ok_def sigs idx len)
  show "bucket_get n sigs idx sig = x"
    using bucket_get_first [of i n sigs sig idx] i first at by simp
  show "bucket_get n sigs idx sig' \<in> {UINT16_MAX, bucket_get n (sm_sig b) (sm_flow_idx b) sig'}" if "sig' \<noteq> sig"
  proof (cases "find (\<lambda>j. sigs ! j = sig') [0..<n]")
    case None
    then show ?thesis by (simp add: bucket_get_def)
  next
    case (Some j)
    note j = find_Some_upt [OF Some]
    have get: "bucket_get n sigs idx sig' = sm_flow_idx b ! j"
      using Some j that at [of j] by (auto simp: bucket_get_def)
    have "sm_sig b ! j = sig'" using j that at [of j] by (simp split: if_splits)
    moreover from this have "\<forall>k<j. sm_sig b ! k \<noteq> sig'" if "sm_flow_idx b ! j \<noteq> UINT16_MAX"
      using used [of j] that j by simp
    ultimately have "bucket_get n (sm_sig b) (sm_flow_idx b) sig' = sm_flow_idx b ! j" if "sm_flow_idx b ! j \<noteq> UINT16_MAX"
      using bucket_get_first [of j n "sm_sig b" sig'] that j by simp
    then show ?thesis using get by (cases "sm_flow_idx b ! j = UINT16_MAX") simp_all
  qed
qed

definition smc_ok :: "'flow dfc_env \<Rightarrow> dfc_pmd \<Rightarrow> bool" where
  "smc_ok V pmd \<longleftrightarrow> unat (df_smc_mask V) < length (dc_smc pmd) \<and>
     (\<forall>b\<in>set (dc_smc pmd). bucket_ok (df_per_bucket V) b)"

lemma smc_bucket_in:
  assumes "smc_ok V pmd"
  shows "unat (h AND df_smc_mask V) < length (dc_smc pmd)"
proof -
  have "h AND df_smc_mask V \<le> df_smc_mask V" by (rule word_and_le1)
  then have "unat (h AND df_smc_mask V) \<le> unat (df_smc_mask V)" by (simp add: word_le_nat_alt)
  then show ?thesis using assms by (simp add: smc_ok_def)
qed

text \<open>The insertion writes the index into one slot of the bucket.\<close>

lemma smc_insert_result:
  assumes ok: "smc_ok V pmd" "0 < df_per_bucket V" and on: "dc_smc_enable_db pmd" and ix: "df_find_index V hash < 65535"
    and b_def: "b = unat (nk_hash key AND df_smc_mask V)" and sig_def: "sig = ucast (drop_bit 16 (nk_hash key))"
    and index_def: "index = ucast (df_find_index V hash)"
  shows "\<exists>i r. i < df_per_bucket V \<and>
    smc_insert V pmd key hash = Inr (pmd\<lparr>dc_random := r,
      dc_smc := (dc_smc pmd)[b := \<lparr>sm_sig = (sm_sig (dc_smc pmd ! b))[i := sig],
                                   sm_flow_idx = (sm_flow_idx (dc_smc pmd ! b))[i := index]\<rparr>]\<rparr>) \<and>
    (\<forall>j<i. sm_sig (dc_smc pmd ! b) ! j \<noteq> sig) \<and>
    (sm_sig (dc_smc pmd ! b) ! i = sig \<or> (\<forall>j<df_per_bucket V. sm_sig (dc_smc pmd ! b) ! j \<noteq> sig))"
proof -
  let ?n = "df_per_bucket V"
  define bk where "bk = dc_smc pmd ! b"
  have b: "b < length (dc_smc pmd)" unfolding b_def by (rule smc_bucket_in [OF ok(1)])
  then have len: "length (sm_sig bk) = ?n" "length (sm_flow_idx bk) = ?n"
    using ok(1) by (simp_all add: smc_ok_def bucket_ok_def bk_def)
  have "unat index = unat (df_find_index V hash)"
    using ix by (simp add: index_def unsigned_ucast_eq take_bit_nat_eq_self word_less_nat_alt)
  then have "unat index < 65535" using ix by (simp add: word_less_nat_alt)
  then have index: "index \<noteq> UINT16_MAX" by (auto simp: UINT16_MAX_def)
  have ix': "\<not> 65535 \<le> df_find_index V hash" using ix by (simp add: not_le)
  have ins: "smc_insert V pmd key hash = smc_bucket_insert V pmd b sig index"
    using on index ix' by (simp add: smc_insert_def Let_def b_def sig_def index_def)
  have bkt: "arr_get (dc_smc pmd) b = Inr bk" using b by (simp add: bk_def)
  have sl: "sig_loop sig bk 0 ?n = Inr (find (\<lambda>j. sm_sig bk ! j = sig) [0..<?n])"
    using sig_loop_find [of 0 ?n bk sig] len by simp
  have fl: "free_loop bk 0 ?n = Inr (find (\<lambda>j. sm_flow_idx bk ! j = UINT16_MAX) [0..<?n])"
    using free_loop_find [of 0 ?n bk] len by simp
  have store: "store_entry bk i sig index = Inr \<lparr>sm_sig = (sm_sig bk)[i := sig], sm_flow_idx = (sm_flow_idx bk)[i := index]\<rparr>"
    if "i < ?n" for i
    using that len by (cases bk) (simp add: store_entry_def)
  show ?thesis
  proof (cases "find (\<lambda>j. sm_sig bk ! j = sig) [0..<?n]")
    case (Some i)
    note i = find_Some_upt [OF Some]
    have "(sm_sig bk)[i := sig] = sm_sig bk" using i by (metis list_update_id)
    then have "smc_insert V pmd key hash = Inr (pmd\<lparr>dc_random := dc_random pmd,
        dc_smc := (dc_smc pmd)[b := \<lparr>sm_sig = (sm_sig bk)[i := sig], sm_flow_idx = (sm_flow_idx bk)[i := index]\<rparr>]\<rparr>)"
      using ins sl Some i len by (cases bk) (simp add: smc_bucket_insert_def bkt)
    then show ?thesis using i unfolding bk_def by blast
  next
    case None
    then have free: "\<forall>j<?n. sm_sig bk ! j \<noteq> sig" by (simp add: find_None_upt)
    have "\<exists>i r. i < ?n \<and> smc_insert V pmd key hash = Inr (pmd\<lparr>dc_random := r,
        dc_smc := (dc_smc pmd)[b := \<lparr>sm_sig = (sm_sig bk)[i := sig], sm_flow_idx = (sm_flow_idx bk)[i := index]\<rparr>]\<rparr>)"
    proof (cases "find (\<lambda>j. sm_flow_idx bk ! j = UINT16_MAX) [0..<?n]")
      case (Some i)
      note i = find_Some_upt [OF Some]
      have "smc_insert V pmd key hash = Inr (pmd\<lparr>dc_random := dc_random pmd,
          dc_smc := (dc_smc pmd)[b := \<lparr>sm_sig = (sm_sig bk)[i := sig], sm_flow_idx = (sm_flow_idx bk)[i := index]\<rparr>]\<rparr>)"
        using ins sl fl None Some store [of i] i by (simp add: smc_bucket_insert_def bkt)
      then show ?thesis using i by blast
    next
      case none: None
      let ?i = "unat (df_random V (dc_random pmd)) mod ?n"
      have "?i < ?n" using ok(2) by simp
      moreover have "smc_insert V pmd key hash = Inr (pmd\<lparr>dc_random := dc_random pmd + 1,
          dc_smc := (dc_smc pmd)[b := \<lparr>sm_sig = (sm_sig bk)[?i := sig], sm_flow_idx = (sm_flow_idx bk)[?i := index]\<rparr>]\<rparr>)"
        using ins sl fl None none store [OF \<open>?i < ?n\<close>] by (simp add: smc_bucket_insert_def bkt next_random_def Let_def)
      ultimately show ?thesis by blast
    qed
    then show ?thesis using free unfolding bk_def by (meson order.strict_trans)
  qed
qed

lemma sig_differs:
  fixes a b :: u32
  assumes "drop_bit 16 a \<noteq> drop_bit 16 b"
  shows "(ucast (drop_bit 16 a) :: u16) \<noteq> ucast (drop_bit 16 b)"
proof
  assume eq: "(ucast (drop_bit 16 a) :: u16) = ucast (drop_bit 16 b)"
  have "bit (drop_bit 16 a) n = bit (drop_bit 16 b) n" for n
  proof (cases "n < 16")
    case True
    have "bit (ucast (drop_bit 16 a) :: u16) n = bit (ucast (drop_bit 16 b) :: u16) n" using eq by simp
    then show ?thesis using True by (simp add: bit_simps)
  next
    case False
    then show ?thesis using bit_imp_le_length [of a "16 + n"] bit_imp_le_length [of b "16 + n"]
      by (auto simp: bit_simps)
  qed
  then have "drop_bit 16 a = drop_bit 16 b" by (rule bit_word_eqI)
  then show False using assms by blast
qed

text \<open>What the cache holds for a hash, and what an insertion does to it.\<close>

definition smc_index :: "'flow dfc_env \<Rightarrow> dfc_pmd \<Rightarrow> u32 \<Rightarrow> u16" where
  "smc_index V pmd hash =
     (let b = dc_smc pmd ! unat (hash AND df_smc_mask V) in
      bucket_get (df_per_bucket V) (sm_sig b) (sm_flow_idx b) (ucast (drop_bit 16 hash)))"

lemma smc_entry_get_index:
  assumes "smc_ok V pmd"
  shows "smc_entry_get V pmd hash =
    Inr (if smc_index V pmd hash = UINT16_MAX then None else df_by_index V (smc_index V pmd hash))"
proof -
  let ?bk = "dc_smc pmd ! unat (hash AND df_smc_mask V)"
  note b = smc_bucket_in [OF assms, of hash]
  then have len: "length (sm_sig ?bk) = df_per_bucket V" "length (sm_flow_idx ?bk) = df_per_bucket V"
    using assms by (simp_all add: smc_ok_def bucket_ok_def)
  have sl: "sig_loop sig ?bk 0 (df_per_bucket V) = Inr (find (\<lambda>j. sm_sig ?bk ! j = sig) [0..<df_per_bucket V])" for sig
    using sig_loop_find [of 0 "df_per_bucket V" ?bk sig] len by simp
  show ?thesis
  proof (cases "find (\<lambda>j. sm_sig ?bk ! j = ucast (drop_bit 16 hash)) [0..<df_per_bucket V]")
    case None
    then show ?thesis by (simp add: smc_entry_get_def b sl smc_index_def Let_def bucket_get_def)
  next
    case (Some i)
    then have "i < length (sm_flow_idx ?bk)" using find_Some_upt [OF Some] len by simp
    then show ?thesis using Some by (simp add: smc_entry_get_def b sl smc_index_def Let_def bucket_get_def)
  qed
qed

lemma smc_insert_index:
  assumes ok: "smc_ok V pmd" "0 < df_per_bucket V" and on: "dc_smc_enable_db pmd" and ix: "df_find_index V hash < 65535"
  shows "\<exists>pmd'. smc_insert V pmd key hash = Inr pmd' \<and> smc_ok V pmd' \<and>
    dc_flows pmd' = dc_flows pmd \<and> smc_index V pmd' (nk_hash key) = ucast (df_find_index V hash) \<and>
    (\<forall>h. h AND df_smc_mask V \<noteq> nk_hash key AND df_smc_mask V \<or> drop_bit 16 h \<noteq> drop_bit 16 (nk_hash key) \<longrightarrow>
       smc_index V pmd' h \<in> {UINT16_MAX, smc_index V pmd h})"
proof -
  define b where "b = unat (nk_hash key AND df_smc_mask V)"
  define sig :: u16 where "sig = ucast (drop_bit 16 (nk_hash key))"
  define index :: u16 where "index = ucast (df_find_index V hash)"
  define bk where "bk = dc_smc pmd ! b"
  obtain i r where i: "i < df_per_bucket V" "\<forall>j<i. sm_sig bk ! j \<noteq> sig"
      "sm_sig bk ! i = sig \<or> (\<forall>j<df_per_bucket V. sm_sig bk ! j \<noteq> sig)"
    and ins: "smc_insert V pmd key hash = Inr (pmd\<lparr>dc_random := r,
      dc_smc := (dc_smc pmd)[b := \<lparr>sm_sig = (sm_sig bk)[i := sig], sm_flow_idx = (sm_flow_idx bk)[i := index]\<rparr>]\<rparr>)"
    using smc_insert_result [OF ok on ix b_def sig_def index_def] unfolding bk_def by blast
  have b: "b < length (dc_smc pmd)" unfolding b_def by (rule smc_bucket_in [OF ok(1)])
  then have bk: "bucket_ok (df_per_bucket V) bk" using ok(1) by (simp add: smc_ok_def bk_def)
  define pmd' where "pmd' = pmd\<lparr>dc_random := r,
      dc_smc := (dc_smc pmd)[b := \<lparr>sm_sig = (sm_sig bk)[i := sig], sm_flow_idx = (sm_flow_idx bk)[i := index]\<rparr>]\<rparr>"
  note w = bucket_write [OF bk i refl refl, where x = index]
  have at: "dc_smc pmd' ! c = (if c = b then \<lparr>sm_sig = (sm_sig bk)[i := sig], sm_flow_idx = (sm_flow_idx bk)[i := index]\<rparr>
      else dc_smc pmd ! c)" for c
    using b by (simp add: pmd'_def)
  have "\<forall>bb\<in>set (dc_smc pmd'). bucket_ok (df_per_bucket V) bb"
    using w(1) ok(1) by (auto simp: pmd'_def smc_ok_def dest!: set_update_subset_insert [THEN subsetD])
  then have okp: "smc_ok V pmd'" using ok(1) by (simp add: smc_ok_def pmd'_def)
  have self: "smc_index V pmd' (nk_hash key) = index"
    using w(2) by (simp add: smc_index_def at b_def [symmetric] sig_def [symmetric] Let_def)
  have other: "smc_index V pmd' h \<in> {UINT16_MAX, smc_index V pmd h}"
    if h: "h AND df_smc_mask V \<noteq> nk_hash key AND df_smc_mask V \<or> drop_bit 16 h \<noteq> drop_bit 16 (nk_hash key)" for h
  proof (cases "unat (h AND df_smc_mask V) = b")
    case True
    then have "h AND df_smc_mask V = nk_hash key AND df_smc_mask V" unfolding b_def by (rule word_unat_eq_iff [THEN iffD2])
    then have "drop_bit 16 h \<noteq> drop_bit 16 (nk_hash key)" using h by blast
    then have "(ucast (drop_bit 16 h) :: u16) \<noteq> sig" unfolding sig_def by (rule sig_differs)
    then show ?thesis using w(3) True by (simp add: smc_index_def at bk_def [symmetric] Let_def)
  next
    case False
    then show ?thesis by (simp add: smc_index_def at Let_def)
  qed
  have "dc_flows pmd' = dc_flows pmd" by (simp add: pmd'_def)
  moreover have "smc_insert V pmd key hash = Inr pmd'" using ins by (simp add: pmd'_def)
  ultimately show ?thesis using okp self other unfolding index_def by blast
qed

lemma smc_insert_get:
  assumes ok: "smc_ok V pmd" and rest: "0 < df_per_bucket V" "dc_smc_enable_db pmd" "df_find_index V hash < 65535"
  shows "\<exists>pmd'. smc_insert V pmd key hash = Inr pmd' \<and> smc_ok V pmd' \<and>
    smc_entry_get V pmd' (nk_hash key) = Inr (df_by_index V (ucast (df_find_index V hash))) \<and>
    (\<forall>h. h AND df_smc_mask V \<noteq> nk_hash key AND df_smc_mask V \<or> drop_bit 16 h \<noteq> drop_bit 16 (nk_hash key) \<longrightarrow>
       smc_entry_get V pmd' h \<in> {Inr None, smc_entry_get V pmd h})"
proof -
  obtain pmd' where pmd': "smc_insert V pmd key hash = Inr pmd'" "smc_ok V pmd'"
    "smc_index V pmd' (nk_hash key) = ucast (df_find_index V hash)"
    and other: "\<forall>h. h AND df_smc_mask V \<noteq> nk_hash key AND df_smc_mask V \<or> drop_bit 16 h \<noteq> drop_bit 16 (nk_hash key) \<longrightarrow>
       smc_index V pmd' h \<in> {UINT16_MAX, smc_index V pmd h}"
    using smc_insert_index [OF assms] by blast
  have "unat (ucast (df_find_index V hash) :: u16) = unat (df_find_index V hash)"
    using rest(3) by (simp add: unsigned_ucast_eq take_bit_nat_eq_self word_less_nat_alt)
  then have "unat (ucast (df_find_index V hash) :: u16) < 65535" using rest(3) by (simp add: word_less_nat_alt)
  then have "(ucast (df_find_index V hash) :: u16) \<noteq> UINT16_MAX" by (auto simp: UINT16_MAX_def)
  then have "smc_entry_get V pmd' (nk_hash key) = Inr (df_by_index V (ucast (df_find_index V hash)))"
    by (simp add: smc_entry_get_index [OF pmd'(2)] pmd'(3))
  moreover have "smc_entry_get V pmd' h \<in> {Inr None, smc_entry_get V pmd h}"
    if "smc_index V pmd' h \<in> {UINT16_MAX, smc_index V pmd h}" for h
    using that by (auto simp: smc_entry_get_index [OF pmd'(2)] smc_entry_get_index [OF ok])
  ultimately show ?thesis using pmd'(1,2) other by blast
qed

text \<open>The loop over the flows of a node.\<close>

definition flow_matches :: "'flow dfc_env \<Rightarrow> dp_netdev_flow \<Rightarrow> netdev_flow_key \<Rightarrow> bool" where
  "flow_matches V fl key \<longleftrightarrow> (\<forall>i\<in>set (fe_indices (df_flow V) (nk_map (fl_mask fl))).
     key_flow (df_flow V) key i AND key_flow (df_flow V) (fl_mask fl) i = key_flow (df_flow V) (fl_key fl) i)"

definition flow_ok :: "'flow dfc_env \<Rightarrow> dp_netdev_flow \<Rightarrow> bool" where
  "flow_ok V fl \<longleftrightarrow> key_ok (df_flow V) (fl_mask fl) \<and> key_ok (df_flow V) (fl_key fl) \<and> nk_map (fl_key fl) = nk_map (fl_mask fl)"

lemma smc_match_find:
  assumes "dfc_env_ok V"
  shows "\<forall>f\<in>set fs. flow_ok V (dc_flows pmd f) \<Longrightarrow>
    smc_match V pmd in_port key fs =
    Inr (find (\<lambda>f. flow_matches V (dc_flows pmd f) key \<and> fl_in_port (dc_flows pmd f) = in_port) fs)"
proof (induction fs)
  case (Cons f fs)
  have "dpcls_rule_matches_key (df_flow V) (fl_mask (dc_flows pmd f)) (fl_key (dc_flows pmd f)) key =
      Inr (flow_matches V (dc_flows pmd f) key)"
    unfolding flow_matches_def
    by (rule rule_matches [OF dfc_env_okD(1) [OF assms]]) (use Cons.prems in \<open>simp_all add: flow_ok_def\<close>)
  then show ?case using Cons by simp
qed simp

end
