(* ===== verification/Dpif_Cache_Properties.thy ===== *)
theory Dpif_Cache_Properties
  imports Dpif_Cache_Laws Dpif_Dpcls_Properties
begin

text \<open>
  Properties of the flow caches: a batch of insertions keeps the references to flows counted,
  which entry of the exact match cache is replaced, that the signature match cache finds what was
  inserted and nothing else, and that what a lookup in it returns matches.
\<close>

section \<open>An environment\<close>

definition demo_dfc_env :: "u64 list dfc_env" where
  "demo_dfc_env =
     \<lparr>df_flow = demo_flow_env,
      df_positions = (\<lambda>h. [unat h mod 4, unat (drop_bit 2 h) mod 4]),
      df_alive = (\<lambda>ce. em_flow ce \<noteq> None),
      df_smc_mask = 1, df_per_bucket = 2,
      df_try_ref = (\<lambda>n. if n = 0 then None else Some (n + 1)), df_unref = (\<lambda>n. n - 1),
      df_find_index = (\<lambda>h. h), df_by_index = (\<lambda>i. if i = 0 then None else Some [unat i, 0]),
      df_ctz = (\<lambda>m. of_nat (hd (mask_bits m @ [32]))), df_random = of_nat\<rparr>"

lemma demo_dfc_env_sel [simp]:
  "df_flow demo_dfc_env = demo_flow_env" "df_positions demo_dfc_env h = [unat h mod 4, unat (drop_bit 2 h) mod 4]"
  "df_alive demo_dfc_env ce = (em_flow ce \<noteq> None)" "df_smc_mask demo_dfc_env = 1" "df_per_bucket demo_dfc_env = 2"
  "df_try_ref demo_dfc_env n = (if n = 0 then None else Some (n + 1))" "df_unref demo_dfc_env n = n - 1"
  "df_find_index demo_dfc_env h = h" "df_by_index demo_dfc_env i = (if i = 0 then None else Some [unat i, 0])"
  by (simp_all add: demo_dfc_env_def)

lemma demo_ctz:
  assumes "m \<noteq> 0"
  shows "bit m (unat (df_ctz demo_dfc_env m)) \<and> (\<forall>j<unat (df_ctz demo_dfc_env m). \<not> bit m j)"
proof -
  obtain x xs where x: "mask_bits m = x # xs"
    using assms by (metis bit_word_eqI bit_0_eq bot_apply bot_bool_def list.set_intros(1) neq_Nil_conv set_mask_bits empty_iff list.set(1))
  have f: "x < 32" "bit m x" "\<forall>j<x. \<not> bit m j"
    using filter_upt_Cons [of "bit m" 0 32 x xs] x by (simp_all add: mask_bits_def)
  then have "unat (df_ctz demo_dfc_env m) = x" using x by (simp add: demo_dfc_env_def unat_of_nat)
  then show ?thesis using f by simp
qed

lemma demo_dfc_env_ok: "dfc_env_ok demo_dfc_env"
  unfolding dfc_env_ok_def using demo_flow_env_ok demo_ctz by simp

definition demo_key :: "u32 \<Rightarrow> netdev_flow_key" where
  "demo_key h = \<lparr>nk_hash = h, nk_len = 24, nk_map = (1, 0), nk_buf = [5]\<rparr>"

definition demo_pmd :: dfc_pmd where
  "demo_pmd =
     \<lparr>dc_emc = [\<lparr>em_flow = None, em_key = demo_key 9\<rparr>, \<lparr>em_flow = Some 7, em_key = demo_key 3\<rparr>,
                \<lparr>em_flow = None, em_key = demo_key 0\<rparr>, \<lparr>em_flow = Some 7, em_key = demo_key 1\<rparr>],
      dc_smc = [\<lparr>sm_sig = [0, 0], sm_flow_idx = [65535, 65535]\<rparr>, \<lparr>sm_sig = [1, 2], sm_flow_idx = [3, 4]\<rparr>],
      dc_refs = (\<lambda>f. if f = 7 then 3 else if f = 8 then 1 else 0),
      dc_flows = (\<lambda>f. \<lparr>fl_mask = demo_key 0\<lparr>nk_buf := [1]\<rparr>, fl_key = demo_key 0\<lparr>nk_buf := [1]\<rparr>, fl_in_port = 2, fl_hash = 6\<rparr>),
      dc_emc_insert_min = 5, dc_smc_enable_db = True, dc_random = 0\<rparr>"

lemma demo_counted: "emc_counted demo_pmd (\<lambda>f. if f = 7 \<or> f = 8 then 1 else 0)"
  by (simp add: emc_counted_def demo_pmd_def emc_refs_def)

lemma demo_smc_ok: "smc_ok demo_dfc_env demo_pmd"
  by (auto simp: smc_ok_def bucket_ok_def demo_pmd_def UINT16_MAX_def less_Suc_eq numeral_2_eq_2)

section \<open>Properties\<close>

text \<open>C31: Inserting a batch into the exact match cache neither fails nor loses count of a
  reference: when each flow has one reference for each entry that refers to it beside those held
  elsewhere, this is so after the batch, whichever entries the batch replaces and whichever
  random numbers are drawn, and a flow without references gets none.
\<close>

theorem emc_batch_counts_references:
  assumes "dfc_env_ok V" and "emc_counted pmd others"
    and "\<forall>i. bit emc_mask i \<longrightarrow> i < length keys \<and> i < length rules"
    and "\<forall>h. \<forall>p\<in>set (df_positions V h). p < length (dc_emc pmd)"
  shows "\<exists>pmd'. emc_probabilistic_insert_batch V pmd keys rules emc_mask = Inr pmd' \<and>
    (\<forall>f. dc_refs pmd' f = others f + emc_refs (dc_emc pmd') f) \<and>
    length (dc_emc pmd') = length (dc_emc pmd) \<and> (\<forall>f. dc_refs pmd f = 0 \<longrightarrow> dc_refs pmd' f = 0)"
  using emc_batch_kept [OF assms] by (auto simp: emc_kept_def emc_counted_def)

theorem emc_batch_counts_references_witness:
  "\<exists>pmd'. emc_probabilistic_insert_batch demo_dfc_env demo_pmd [demo_key 1, demo_key 9, demo_key 6] [8, 7, 9] 5 = Inr pmd' \<and>
    (\<forall>f. dc_refs pmd' f = (if f = 7 \<or> f = 8 then 1 else 0) + emc_refs (dc_emc pmd') f) \<and>
    length (dc_emc pmd') = length (dc_emc demo_pmd) \<and> (\<forall>f. dc_refs demo_pmd f = 0 \<longrightarrow> dc_refs pmd' f = 0)"
proof -
  have "mask_bits 5 = [0, 2]" by code_simp
  then have "i = 0 \<or> i = 2" if "bit (5 :: u32) i" for i using set_mask_bits [of i 5] that by auto
  then have rng: "\<forall>i. bit (5 :: u32) i \<longrightarrow> i < length [demo_key 1, demo_key 9, demo_key 6] \<and> i < length [8 :: nat, 7, 9]"
    by fastforce
  have "length (dc_emc demo_pmd) = 4" by (simp add: demo_pmd_def)
  then have pos: "\<forall>h. \<forall>p\<in>set (df_positions demo_dfc_env h). p < length (dc_emc demo_pmd)"
    using mod_less_divisor [of 4] by (metis demo_dfc_env_sel(2) empty_iff list.set(1) set_ConsD zero_less_numeral)
  show ?thesis by (rule emc_batch_counts_references [OF demo_dfc_env_ok demo_counted rng pos])
qed

text \<open>An insertion into the exact match cache stores the key and the flow in one of the two
  entries of the key's hash and changes no other entry: in the one that has the key already, else in the
  second one when it is empty and the first is not or when the hash of its key is smaller, and
  in the first one otherwise. So an alive entry can be replaced although the other one is empty.
  A flow that has lost its last reference is not stored.
\<close>

theorem emc_insert_stores_the_flow:
  assumes "dfc_env_ok V" and "emc_counted pmd others" and "key_words (nk_len key) \<le> length (nk_buf key)"
    and "df_positions V (nk_hash key) = [a, b]" and "a < length (dc_emc pmd)" and "b < length (dc_emc pmd)"
    and "p = (if netdev_flow_key_equal (em_key (dc_emc pmd ! a)) key then a
              else if netdev_flow_key_equal (em_key (dc_emc pmd ! b)) key then b
              else if df_alive V (dc_emc pmd ! a) \<and> \<not> df_alive V (dc_emc pmd ! b) \<or>
                      nk_hash (em_key (dc_emc pmd ! b)) < nk_hash (em_key (dc_emc pmd ! a)) then b else a)"
  shows "\<exists>pmd'. emc_insert V pmd key flow = Inr pmd' \<and>
    netdev_flow_key_equal (em_key (dc_emc pmd' ! p)) key \<and>
    em_flow (dc_emc pmd' ! p) = (if 0 < dc_refs pmd flow then Some flow else None) \<and>
    (\<forall>q. q \<noteq> p \<longrightarrow> dc_emc pmd' ! q = dc_emc pmd ! q)"
  by (rule emc_insert_at [OF assms])

theorem emc_insert_stores_the_flow_witness:
  "\<exists>pmd'. emc_insert demo_dfc_env demo_pmd (demo_key 4) 8 = Inr pmd' \<and>
    netdev_flow_key_equal (em_key (dc_emc pmd' ! 1)) (demo_key 4) \<and> em_flow (dc_emc pmd' ! 1) = Some 8 \<and>
    (\<forall>q. q \<noteq> 1 \<longrightarrow> dc_emc pmd' ! q = dc_emc demo_pmd ! q)"
  using emc_insert_stores_the_flow [OF demo_dfc_env_ok demo_counted, of "demo_key 4" 0 1 1 8]
  by (simp add: demo_pmd_def demo_key_def netdev_flow_key_equal_def key_words_def)

text \<open>After an insertion into the signature match cache the hash of the key is found with the
  index of the flow, and any other hash, in the same bucket or another, is found as before or
  not at all: never with an index that was inserted under another signature.
\<close>

theorem smc_insert_then_get:
  assumes "smc_ok V pmd" and "0 < df_per_bucket V" and "dc_smc_enable_db pmd" and "df_find_index V hash < 65535"
  shows "\<exists>pmd'. smc_insert V pmd key hash = Inr pmd' \<and> smc_ok V pmd' \<and>
    smc_entry_get V pmd' (nk_hash key) = Inr (df_by_index V (ucast (df_find_index V hash))) \<and>
    (\<forall>h. h AND df_smc_mask V \<noteq> nk_hash key AND df_smc_mask V \<or> drop_bit 16 h \<noteq> drop_bit 16 (nk_hash key) \<longrightarrow>
       smc_entry_get V pmd' h \<in> {Inr None, smc_entry_get V pmd h})"
  by (rule smc_insert_get [OF assms])

theorem smc_insert_then_get_witness:
  "\<exists>pmd'. smc_insert demo_dfc_env demo_pmd (demo_key 0x50001) 6 = Inr pmd' \<and> smc_ok demo_dfc_env pmd' \<and>
    smc_entry_get demo_dfc_env pmd' 0x50001 = Inr (Some [6, 0]) \<and>
    smc_entry_get demo_dfc_env pmd' 0x10001 \<in> {Inr None, Inr (Some [3, 0])}"
proof -
  have old: "smc_entry_get demo_dfc_env demo_pmd 0x10001 = Inr (Some [3, 0])"
    by code_simp
  show ?thesis
    using smc_insert_then_get [OF demo_smc_ok, of 6 "demo_key 0x50001"] old
    by (auto simp: demo_key_def demo_pmd_def dest: spec [of _ "0x10001"])
qed

text \<open>A lookup in the signature match cache returns the first flow of the node it finds whose
  rule matches the key and whose port is the port of the packet, and nothing when there is none:
  a collision of signatures never gives a wrong flow.
\<close>

theorem smc_lookup_is_the_first_match:
  assumes "dfc_env_ok V" and "smc_ok V pmd"
    and "\<forall>fs. smc_entry_get V pmd (nk_hash key) = Inr (Some fs) \<longrightarrow> (\<forall>f\<in>set fs. flow_ok V (dc_flows pmd f))"
  shows "\<exists>node. smc_entry_get V pmd (nk_hash key) = Inr node \<and>
    smc_lookup_single V pmd in_port key =
    Inr (case node of None \<Rightarrow> None
         | Some fs \<Rightarrow> find (\<lambda>f. flow_matches V (dc_flows pmd f) key \<and> fl_in_port (dc_flows pmd f) = in_port) fs)"
proof -
  obtain node where node: "smc_entry_get V pmd (nk_hash key) = Inr node" using smc_entry_get_index [OF assms(2)] by simp
  then show ?thesis using smc_match_find [OF assms(1)] assms(3)
    by (cases node) (simp_all add: smc_lookup_single_def)
qed

theorem smc_lookup_is_the_first_match_witness:
  "smc_lookup_single demo_dfc_env demo_pmd 2 (demo_key 0x10001) = Inr (Some 3)"
proof -
  have old: "smc_entry_get demo_dfc_env demo_pmd (nk_hash (demo_key 0x10001)) = Inr (Some [3, 0])"
    by code_simp
  have fl: "flow_ok demo_dfc_env (dc_flows demo_pmd f)" "flow_matches demo_dfc_env (dc_flows demo_pmd f) (demo_key 0x10001)"
    "fl_in_port (dc_flows demo_pmd f) = 2" for f
    by code_simp+
  show ?thesis
    using smc_lookup_is_the_first_match [OF demo_dfc_env_ok demo_smc_ok, of "demo_key 0x10001" 2] old fl by simp
qed

end
