(* ===== verification/Dpif_Flow.thy ===== *)
theory Dpif_Flow
  imports Dpif_Dpcls Dpif_Cache
begin

text \<open>
  The flows of a polling thread (\<open>dpif-netdev.c\<close>): the flow table, the table of simple matches
  that is looked up before the caches, the classifiers and the references that these hold, and
  the operations that add, change, find and remove a flow.
\<close>

section \<open>State\<close>

type_synonym ufid = "u32 \<times> u32 \<times> u32 \<times> u32"

record flow_stats =
  fs_used :: int
  fs_packet_count :: u64
  fs_byte_count :: u64
  fs_tcp_flags :: u16

definition zero_stats :: flow_stats where
  "zero_stats = \<lparr>fs_used = 0, fs_packet_count = 0, fs_byte_count = 0, fs_tcp_flags = 0\<rparr>"

text \<open>What a flow (\<open>struct dp_netdev_flow\<close>) holds beside what the caches read of it.\<close>

record 'flow flow_info =
  fi_flow :: 'flow
  fi_ufid :: ufid
  fi_rule :: dpcls_rule
  fi_actions :: "u8 list"
  fi_orig_in_port :: u32
  fi_dead :: bool
  fi_simple_match_mark :: u64
  fi_stats :: flow_stats

datatype offload_op = Offload_Add | Offload_Mod | Offload_Del

record offload_item =
  of_flow :: nat
  of_op :: offload_op
  of_actions :: "u8 list"
  of_orig_in_port :: u32
  of_timestamp :: int

text \<open>
  A thread: its caches with the reference counts of the flows, its classifiers, the flow table
  and the simple match table as lists of the hash and the flow of their nodes, the numbers of
  flows by port, the flows, the requests it has queued for the offload threads, the time of its
  context and the number of flows it has allocated.
\<close>

record 'flow pmd_thread =
  pm_dfc :: dfc_pmd
  pm_classifiers :: "dpcls list"
  pm_flow_table :: "(u32 \<times> nat) list"
  pm_simple_match_table :: "(u32 \<times> nat) list"
  pm_n_flows :: "u32 \<Rightarrow> nat"
  pm_n_simple_flows :: "u32 \<Rightarrow> nat"
  pm_info :: "nat \<Rightarrow> 'flow flow_info"
  pm_offloads :: "offload_item list"
  pm_now :: int
  pm_allocs :: nat

text \<open>
  What the library provides: the fields of a flow and of its wildcards (\<open>flow.h\<close>), the
  wildcards that match everything (\<open>flow_wildcards_init_catchall\<close>), whether wildcards have a bit
  that others do not (\<open>flow_wildcards_has_extra\<close>), whether a map has words of the metadata or the
  registers (\<open>FLOWMAP_HAS_FIELD\<close>), the port in a key (\<open>MINIFLOW_GET_U32\<close>), \<open>hash_uint64\<close>,
  \<open>odp_flow_key_hash\<close>, \<open>dp_netdev_flow_hash\<close>, the memory allocator, the state of the offload API and the statistics it
  reports for a flow (\<open>dpif_netdev_get_flow_offload_status\<close>).
\<close>

record 'flow flow_sys =
  sy_cls :: "'flow cls_env"
  sy_dfc :: "'flow dfc_env"
  ff_recirc_id :: "'flow \<Rightarrow> u32"
  ff_in_port :: "'flow \<Rightarrow> u32"
  ff_packet_type :: "'flow \<Rightarrow> u32"
  ff_dl_type :: "'flow \<Rightarrow> u16"
  ff_vlan_tci :: "'flow \<Rightarrow> u16"
  ff_nw_frag :: "'flow \<Rightarrow> u8"
  ff_set_recirc_id :: "u32 \<Rightarrow> 'flow \<Rightarrow> 'flow"
  ff_set_in_port :: "u32 \<Rightarrow> 'flow \<Rightarrow> 'flow"
  ff_set_packet_type :: "u32 \<Rightarrow> 'flow \<Rightarrow> 'flow"
  ff_set_dl_type :: "u16 \<Rightarrow> 'flow \<Rightarrow> 'flow"
  ff_set_vlan_tci :: "u16 \<Rightarrow> 'flow \<Rightarrow> 'flow"
  ff_set_nw_frag :: "u8 \<Rightarrow> 'flow \<Rightarrow> 'flow"
  ff_catchall :: 'flow
  ff_has_extra :: "'flow \<Rightarrow> 'flow \<Rightarrow> bool"
  ff_has_metadata :: "flowmap \<Rightarrow> bool"
  ff_key_in_port :: "netdev_flow_key \<Rightarrow> u32"
  ff_hash_uint64 :: "u64 \<Rightarrow> u32"
  ff_key_hash :: "'flow \<Rightarrow> ufid"
  dp_netdev_flow_hash :: "ufid \<Rightarrow> u32"
  sy_alloc :: "nat \<Rightarrow> nat"
  sy_flow_api :: bool
  sy_offload_status :: "nat \<Rightarrow> flow_stats option"

definition flow_port :: "'flow flow_sys \<Rightarrow> 'flow pmd_thread \<Rightarrow> nat \<Rightarrow> u32" where
  "flow_port Y pmd f = ff_in_port Y (fi_flow (pm_info pmd f))"

definition set_refs :: "'flow pmd_thread \<Rightarrow> (nat \<Rightarrow> nat) \<Rightarrow> 'flow pmd_thread" where
  "set_refs pmd refs = pmd\<lparr>pm_dfc := (pm_dfc pmd)\<lparr>dc_refs := refs\<rparr>\<rparr>"

definition set_info :: "'flow pmd_thread \<Rightarrow> nat \<Rightarrow> 'flow flow_info \<Rightarrow> 'flow pmd_thread" where
  "set_info pmd f i = pmd\<lparr>pm_info := (pm_info pmd)(f := i)\<rparr>"

text \<open>\<open>cmap_remove\<close> aborts when the node is not there, \<open>ccmap_dec\<close> when the count is 0.\<close>

definition cmap_remove :: "(u32 \<times> nat) list \<Rightarrow> nat \<Rightarrow> u32 \<Rightarrow> (u32 \<times> nat) list c_result" where
  "cmap_remove table f hash = (if (hash, f) \<in> set table then Inr (remove1 (hash, f) table) else Inl Assert_Failed)"

definition ccmap_inc :: "(u32 \<Rightarrow> nat) \<Rightarrow> u32 \<Rightarrow> (u32 \<Rightarrow> nat)" where
  "ccmap_inc n port = n(port := n port + 1)"

definition ccmap_dec :: "(u32 \<Rightarrow> nat) \<Rightarrow> u32 \<Rightarrow> (u32 \<Rightarrow> nat) c_result" where
  "ccmap_dec n port = (if n port = 0 then Inl Assert_Failed else Inr (n(port := n port - 1)))"

section \<open>Simple matches\<close>

text \<open>Fields in network byte order are kept as they are stored; the host is little-endian.\<close>

definition htons :: "u16 \<Rightarrow> u16" where
  "htons x = push_bit 8 x OR drop_bit 8 x"

definition VLAN_VID_MASK :: u16 where "VLAN_VID_MASK = 0x0fff"
definition VLAN_CFI :: u16 where "VLAN_CFI = 0x1000"
definition VLAN_PCP_SHIFT :: nat where "VLAN_PCP_SHIFT = 13"
definition FLOW_NW_FRAG_MASK :: u8 where "FLOW_NW_FRAG_MASK = 3"
definition ODPP_NONE :: u32 where "ODPP_NONE = 0xffffffff"

definition dp_netdev_simple_match_mark :: "u32 \<Rightarrow> u16 \<Rightarrow> u8 \<Rightarrow> u16 \<Rightarrow> u64" where
  "dp_netdev_simple_match_mark in_port dl_type nw_frag vlan_tci =
     push_bit 32 (ucast in_port) OR ucast (push_bit 16 (ucast dl_type :: u32)) OR
     push_bit (VLAN_PCP_SHIFT - 8) (ucast (nw_frag AND FLOW_NW_FRAG_MASK)) OR
     ucast (vlan_tci AND htons (VLAN_VID_MASK OR VLAN_CFI))"

definition dp_netdev_simple_match_lookup ::
  "'flow flow_sys \<Rightarrow> 'flow pmd_thread \<Rightarrow> u32 \<Rightarrow> u16 \<Rightarrow> u8 \<Rightarrow> u16 \<Rightarrow> nat option" where
  "dp_netdev_simple_match_lookup Y pmd in_port dl_type nw_frag vlan_tci =
     (let mark = dp_netdev_simple_match_mark in_port dl_type nw_frag vlan_tci;
          hash = ff_hash_uint64 Y mark
      in map_option snd (find (\<lambda>(h, f). h = hash \<and> fi_simple_match_mark (pm_info pmd f) = mark)
           (pm_simple_match_table pmd)))"

definition dp_netdev_simple_match_enabled :: "'flow pmd_thread \<Rightarrow> u32 \<Rightarrow> bool" where
  "dp_netdev_simple_match_enabled pmd in_port \<longleftrightarrow> pm_n_flows pmd in_port = pm_n_simple_flows pmd in_port"

definition dp_netdev_simple_match_remove :: "'flow flow_sys \<Rightarrow> 'flow pmd_thread \<Rightarrow> nat \<Rightarrow> 'flow pmd_thread c_result" where
  "dp_netdev_simple_match_remove Y pmd dp_flow =
     (let fl = fi_flow (pm_info pmd dp_flow);
          in_port = ff_in_port Y fl;
          mark = dp_netdev_simple_match_mark in_port (ff_dl_type Y fl) (ff_nw_frag Y fl) (ff_vlan_tci Y fl);
          hash = ff_hash_uint64 Y mark
      in if dp_netdev_simple_match_lookup Y pmd in_port (ff_dl_type Y fl) (ff_nw_frag Y fl) (ff_vlan_tci Y fl) = Some dp_flow then
           bindr (cmap_remove (pm_simple_match_table pmd) dp_flow hash) (\<lambda>table.
           bindr (ccmap_dec (pm_n_simple_flows pmd) in_port) (\<lambda>n.
             Inr (set_refs (pmd\<lparr>pm_simple_match_table := table, pm_n_simple_flows := n\<rparr>)
                    (dp_netdev_flow_unref (sy_dfc Y) (dc_refs (pm_dfc pmd)) dp_flow))))
         else Inr pmd)"

definition dp_netdev_simple_match_insert :: "'flow flow_sys \<Rightarrow> 'flow pmd_thread \<Rightarrow> nat \<Rightarrow> 'flow pmd_thread c_result" where
  "dp_netdev_simple_match_insert Y pmd dp_flow =
     (let fl = fi_flow (pm_info pmd dp_flow);
          in_port = ff_in_port Y fl;
          (ok, refs) = dp_netdev_flow_ref (sy_dfc Y) (dc_refs (pm_dfc pmd)) dp_flow
      in if \<not> ok then Inr pmd
         else
           bindr (dp_netdev_simple_match_remove Y (set_refs pmd refs) dp_flow) (\<lambda>pmd.
             let mark = dp_netdev_simple_match_mark in_port (ff_dl_type Y fl) (ff_nw_frag Y fl) (ff_vlan_tci Y fl);
                 hash = ff_hash_uint64 Y mark;
                 pmd = set_info pmd dp_flow ((pm_info pmd dp_flow)\<lparr>fi_simple_match_mark := mark\<rparr>)
             in Inr (pmd\<lparr>pm_simple_match_table := (hash, dp_flow) # pm_simple_match_table pmd,
                         pm_n_simple_flows := ccmap_inc (pm_n_simple_flows pmd) in_port\<rparr>)))"

text \<open>\<open>PT_ETH\<close> is 0.  \<open>WC_MASK_FIELD\<close> sets all bits of a field.\<close>

definition minimal_wildcards :: "'flow flow_sys \<Rightarrow> u16 \<Rightarrow> 'flow" where
  "minimal_wildcards Y vlan_tci_mask =
     (let w = ff_catchall Y;
          w = ff_set_recirc_id Y (- 1) w;
          w = ff_set_in_port Y (- 1) w;
          w = ff_set_packet_type Y (- 1) w;
          w = ff_set_dl_type Y (- 1) w;
          w = ff_set_vlan_tci Y (ff_vlan_tci Y w OR vlan_tci_mask) w
      in ff_set_nw_frag Y (ff_nw_frag Y w OR FLOW_NW_FRAG_MASK) w)"

definition dp_netdev_flow_is_simple_match :: "'flow flow_sys \<Rightarrow> 'flow match \<Rightarrow> bool" where
  "dp_netdev_flow_is_simple_match Y mt =
     (let flow = match_flow mt; wc = match_masks mt;
          vlan_tci_mask = htons (VLAN_VID_MASK OR VLAN_CFI)
      in if ff_recirc_id Y flow \<noteq> 0 \<or> ff_packet_type Y flow \<noteq> 0 then False
         else if ff_has_extra Y (minimal_wildcards Y vlan_tci_mask) wc \<or> ff_vlan_tci Y wc \<noteq> vlan_tci_mask then False
         else True)"

section \<open>Requests to the offload threads\<close>

definition dp_netdev_alloc_flow_offload ::
  "'flow flow_sys \<Rightarrow> 'flow pmd_thread \<Rightarrow> nat \<Rightarrow> offload_op \<Rightarrow> offload_item \<times> 'flow pmd_thread" where
  "dp_netdev_alloc_flow_offload Y pmd flow opr =
     (let (ok, refs) = dp_netdev_flow_ref (sy_dfc Y) (dc_refs (pm_dfc pmd)) flow
      in (\<lparr>of_flow = flow, of_op = opr, of_actions = [], of_orig_in_port = 0, of_timestamp = 0\<rparr>, set_refs pmd refs))"

definition queue_netdev_flow_del :: "'flow flow_sys \<Rightarrow> 'flow pmd_thread \<Rightarrow> nat \<Rightarrow> 'flow pmd_thread" where
  "queue_netdev_flow_del Y pmd flow =
     (if \<not> sy_flow_api Y then pmd
      else let (item, pmd) = dp_netdev_alloc_flow_offload Y pmd flow Offload_Del
           in pmd\<lparr>pm_offloads := pm_offloads pmd @ [item\<lparr>of_timestamp := pm_now pmd\<rparr>]\<rparr>)"

definition queue_netdev_flow_put :: "'flow flow_sys \<Rightarrow> 'flow pmd_thread \<Rightarrow> nat \<Rightarrow> u8 list \<Rightarrow> offload_op \<Rightarrow> 'flow pmd_thread" where
  "queue_netdev_flow_put Y pmd flow actions opr =
     (if \<not> sy_flow_api Y then pmd
      else let (item, pmd) = dp_netdev_alloc_flow_offload Y pmd flow opr
           in pmd\<lparr>pm_offloads := pm_offloads pmd @
                [item\<lparr>of_actions := actions, of_orig_in_port := fi_orig_in_port (pm_info pmd flow),
                      of_timestamp := pm_now pmd\<rparr>]\<rparr>)"

section \<open>Adding and removing a flow\<close>

text \<open>The first steps of \<open>dp_netdev_flow_add\<close>: the mask without the port, and the key of the rule.\<close>

definition flow_add_mask :: "'flow flow_sys \<Rightarrow> 'flow match \<Rightarrow> netdev_flow_key c_result" where
  "flow_add_mask Y mt =
     (if ff_in_port Y (match_masks mt) \<noteq> ODPP_NONE then Inl Assert_Failed
      else
        let mt = mt\<lparr>match_masks := ff_set_in_port Y 0 (match_masks mt)\<rparr>;
            msk = netdev_flow_mask_init (ce_flow (sy_cls Y)) fresh_key mt
        in if ff_has_metadata Y (nk_map msk) then Inl Assert_Failed else Inr msk)"

text \<open>The new flow is entered into the flow table and counted.\<close>

definition flow_add_enter :: "'flow flow_sys \<Rightarrow> 'flow pmd_thread \<Rightarrow> nat \<Rightarrow> ufid \<Rightarrow> u32 \<Rightarrow> 'flow pmd_thread" where
  "flow_add_enter Y pmd flow ufid in_port =
     pmd\<lparr>pm_flow_table := (dp_netdev_flow_hash Y ufid, flow) # pm_flow_table pmd,
         pm_n_flows := ccmap_inc (pm_n_flows pmd) in_port\<rparr>"

definition dp_netdev_flow_add ::
  "'flow flow_sys \<Rightarrow> 'flow pmd_thread \<Rightarrow> 'flow match \<Rightarrow> ufid \<Rightarrow> u8 list \<Rightarrow> u32 \<Rightarrow> (nat \<times> 'flow pmd_thread) c_result" where
  "dp_netdev_flow_add Y pmd mt ufid actions orig_in_port =
     bindr (flow_add_mask Y mt) (\<lambda>msk.
     let in_port = ff_in_port Y (match_flow mt);
         flow = sy_alloc Y (pm_allocs pmd);
         pmd = pmd\<lparr>pm_allocs := pm_allocs pmd + 1\<rparr>
     in
     bindr (netdev_flow_key_init_masked (ce_flow (sy_cls Y)) fresh_key (match_flow mt) msk) (\<lambda>key.
     let (cls, classifiers) = dp_netdev_pmd_find_dpcls (pm_classifiers pmd) in_port
     in
     bindr (dpcls_insert (sy_cls Y) cls \<lparr>ru_id = flow, ru_mask = None, ru_flow = key\<rparr> msk) (\<lambda>(rule, cls).
     bindr (subtable_at (cl_tables cls) (the (ru_mask rule))) (\<lambda>st.
     let info = \<lparr>fi_flow = match_flow mt, fi_ufid = ufid, fi_rule = rule, fi_actions = actions,
                 fi_orig_in_port = orig_in_port, fi_dead = False, fi_simple_match_mark = 0, fi_stats = zero_stats\<rparr>;
         dfc = pm_dfc pmd;
         pmd = pmd\<lparr>pm_classifiers := store_dpcls classifiers cls,
                   pm_info := (pm_info pmd)(flow := info),
                   pm_dfc := dfc\<lparr>dc_refs := (dc_refs dfc)(flow := 1),
                                 dc_flows := (dc_flows dfc)(flow :=
                                   \<lparr>fl_mask = st_mask st, fl_key = key, fl_in_port = in_port,
                                    fl_hash = dp_netdev_flow_hash Y ufid\<rparr>)\<rparr>\<rparr>;
         pmd = flow_add_enter Y pmd flow ufid in_port
     in
     bindr (if dp_netdev_flow_is_simple_match Y mt then dp_netdev_simple_match_insert Y pmd flow else Inr pmd) (\<lambda>pmd.
       Inr (flow, queue_netdev_flow_put Y pmd flow actions Offload_Add))))))"

definition dp_netdev_pmd_remove_flow :: "'flow flow_sys \<Rightarrow> 'flow pmd_thread \<Rightarrow> nat \<Rightarrow> 'flow pmd_thread c_result" where
  "dp_netdev_pmd_remove_flow Y pmd flow =
     (let in_port = flow_port Y pmd flow in
      case dp_netdev_pmd_lookup_dpcls (pm_classifiers pmd) in_port of
        None \<Rightarrow> Inl Assert_Failed
      | Some cls \<Rightarrow>
        bindr (dpcls_remove (sy_cls Y) cls (fi_rule (pm_info pmd flow))) (\<lambda>cls.
        bindr (dp_netdev_simple_match_remove Y (pmd\<lparr>pm_classifiers := store_dpcls (pm_classifiers pmd) cls\<rparr>) flow) (\<lambda>pmd.
        bindr (cmap_remove (pm_flow_table pmd) flow (dp_netdev_flow_hash Y (fi_ufid (pm_info pmd flow)))) (\<lambda>table.
        bindr (ccmap_dec (pm_n_flows pmd) in_port) (\<lambda>n.
          let pmd = queue_netdev_flow_del Y (pmd\<lparr>pm_flow_table := table, pm_n_flows := n\<rparr>) flow;
              pmd = set_info pmd flow ((pm_info pmd flow)\<lparr>fi_dead := True\<rparr>)
          in Inr (set_refs pmd (dp_netdev_flow_unref (sy_dfc Y) (dc_refs (pm_dfc pmd)) flow)))))))"

section \<open>Requests on a thread\<close>

text \<open>A flow is found by its identifier, which the caller may have derived from the key.\<close>

definition dp_netdev_pmd_find_flow :: "'flow flow_sys \<Rightarrow> 'flow pmd_thread \<Rightarrow> ufid option \<Rightarrow> nat option" where
  "dp_netdev_pmd_find_flow Y pmd ufidp =
     (case ufidp of None \<Rightarrow> None
      | Some ufid \<Rightarrow> map_option snd
          (find (\<lambda>(h, f). h = dp_netdev_flow_hash Y ufid \<and> fi_ufid (pm_info pmd f) = ufid) (pm_flow_table pmd)))"

definition get_dpif_flow_status :: "'flow flow_sys \<Rightarrow> 'flow pmd_thread \<Rightarrow> nat \<Rightarrow> flow_stats" where
  "get_dpif_flow_status Y pmd flow =
     (let stats = fi_stats (pm_info pmd flow) in
      case sy_offload_status Y flow of
        None \<Rightarrow> stats
      | Some o_stats \<Rightarrow>
        \<lparr>fs_used = max (fs_used stats) (fs_used o_stats),
         fs_packet_count = fs_packet_count stats + fs_packet_count o_stats,
         fs_byte_count = fs_byte_count stats + fs_byte_count o_stats,
         fs_tcp_flags = fs_tcp_flags stats OR fs_tcp_flags o_stats\<rparr>)"

record dpif_flow_put =
  put_create :: bool
  put_modify :: bool
  put_zero_stats :: bool
  put_actions :: "u8 list"

definition ENOENT :: int where "ENOENT = 2"
definition EEXIST :: int where "EEXIST = 17"
definition EINVAL :: int where "EINVAL = 22"
definition EOPNOTSUPP :: int where "EOPNOTSUPP = 95"

definition flow_put_on_pmd ::
  "'flow flow_sys \<Rightarrow> 'flow pmd_thread \<Rightarrow> netdev_flow_key \<Rightarrow> 'flow match \<Rightarrow> ufid \<Rightarrow> dpif_flow_put \<Rightarrow>
     (int \<times> flow_stats \<times> 'flow pmd_thread) c_result" where
  "flow_put_on_pmd Y pmd key mt ufid put =
     bindr (dp_netdev_pmd_lookup_flow (sy_cls Y) (pm_classifiers pmd) (ff_key_in_port Y key) key) (\<lambda>(rule, num, classifiers).
       let pmd = pmd\<lparr>pm_classifiers := classifiers\<rparr> in
       case rule of
         None \<Rightarrow>
           if put_create put then
             bindr (dp_netdev_flow_add Y pmd mt ufid (put_actions put) ODPP_NONE) (\<lambda>(flow, pmd). Inr (0, zero_stats, pmd))
           else Inr (ENOENT, zero_stats, pmd)
       | Some r \<Rightarrow>
           if put_modify put then
             let flow = ru_id r;
                 pmd = set_info pmd flow ((pm_info pmd flow)\<lparr>fi_actions := put_actions put\<rparr>);
                 pmd = queue_netdev_flow_put Y pmd flow (put_actions put) Offload_Mod
             in Inr (if put_zero_stats put then EOPNOTSUPP else 0, get_dpif_flow_status Y pmd flow, pmd)
           else if put_create put then Inr (EEXIST, zero_stats, pmd)
           else Inr (EINVAL, zero_stats, pmd))"

definition flow_del_on_pmd ::
  "'flow flow_sys \<Rightarrow> 'flow pmd_thread \<Rightarrow> ufid option \<Rightarrow> (int \<times> flow_stats \<times> 'flow pmd_thread) c_result" where
  "flow_del_on_pmd Y pmd ufid =
     (case dp_netdev_pmd_find_flow Y pmd ufid of
        None \<Rightarrow> Inr (ENOENT, zero_stats, pmd)
      | Some flow \<Rightarrow>
        let stats = get_dpif_flow_status Y pmd flow in
        bindr (dp_netdev_pmd_remove_flow Y pmd flow) (\<lambda>pmd. Inr (0, stats, pmd)))"

end
