(* ===== verification/Dpif_Batch.thy ===== *)
theory Dpif_Batch
  imports Dpif_Flow
begin

text \<open>
  The data of the fast path of the datapath (\<open>dpif-netdev.c\<close>): packets, per-flow batches of
  packets, the flow map that keeps the order of arrival of the packets whose flow is not known
  at once, and the operations on them.
\<close>

section \<open>State\<close>

text \<open>A packet with what the datapath reads and writes of its metadata.\<close>

record dp_packet =
  pk_id :: nat
  pk_size :: u32
  pk_in_port :: u32
  pk_orig_in_port :: u32
  pk_flow_mark :: "u32 option"
  pk_rss_hash :: "u32 option"

record packet_batch_per_flow =
  pb_byte_count :: u32
  pb_tcp_flags :: u16
  pb_flow :: nat
  pb_array :: "dp_packet list"

record dp_packet_flow_map =
  fm_packet :: "dp_packet option"
  fm_flow :: "nat option"
  fm_tcp_flags :: u16

datatype pmd_stat =
    PMD_STAT_PHWOL_HIT | PMD_STAT_MFEX_OPT_HIT | PMD_STAT_SIMPLE_HIT | PMD_STAT_EXACT_HIT | PMD_STAT_SMC_HIT
  | PMD_STAT_MASKED_HIT | PMD_STAT_MISS | PMD_STAT_LOST | PMD_STAT_RECV | PMD_STAT_RECIRC | PMD_STAT_MASKED_LOOKUP

text \<open>
  The state of a thread in the fast path: the thread, for each flow its batch
  (\<open>flow->batch\<close>, given by its index in the array of batches), whether the port of the last queue
  supports the recovery of packets, the counters of the thread and its upcall statistics.
\<close>

record 'flow fast_state =
  fa_pmd :: "'flow pmd_thread"
  fa_batch :: "nat \<Rightarrow> nat option"
  fa_hw_miss_api :: bool
  fa_perf :: "pmd_stat \<Rightarrow> nat"

text \<open>
  What the fast path uses of other files: the flow table's functions, \<open>pkt_metadata_init\<close>,
  \<open>miniflow_extract\<close> (the map and the values of a packet's key), \<open>parse_tcp_flags\<close> (with the
  Ethernet type, the fragment bits and the VLAN), \<open>miniflow_get_tcp_flags\<close>, the hash of a new
  packet and of a key, \<open>hash_finish\<close>, the recirculation depth, \<open>dp_packet_batch_add\<close>,
  \<open>dp_packet_batch_refill\<close> (which keeps the packet of an index), the flow of a mark (\<open>mark_to_flow_find\<close>), the recovery of packets from the hardware and whether it
  is compiled in (\<open>ALLOW_EXPERIMENTAL_API\<close>), the lookup in the exact match cache, the expansion
  of a key to a flow, setting the VLAN of wildcards, the upcall of the control plane (its error,
  wildcards, actions and the actions to be installed), and the execution of actions on a batch.
\<close>

record 'flow fast_env =
  fx_sys :: "'flow flow_sys"
  fx_md_init :: "dp_packet \<Rightarrow> u32 \<Rightarrow> dp_packet"
  fx_extract :: "dp_packet \<Rightarrow> flowmap \<times> u64 list"
  fx_parse_tcp_flags :: "dp_packet \<Rightarrow> u16 \<times> u16 \<times> u8 \<times> u16"
  fx_key_tcp_flags :: "netdev_flow_key \<Rightarrow> u16"
  fx_hash_orig_pkt :: "dp_packet \<Rightarrow> netdev_flow_key \<Rightarrow> u32 \<times> dp_packet"
  fx_hash_5tuple :: "netdev_flow_key \<Rightarrow> u32"
  fx_hash_finish :: "u32 \<Rightarrow> u32 \<Rightarrow> u32"
  fx_recirc_depth :: u32
  fx_batch_add :: "dp_packet list \<Rightarrow> dp_packet \<Rightarrow> dp_packet list"
  fx_batch_refill :: "dp_packet list \<Rightarrow> dp_packet \<Rightarrow> nat \<Rightarrow> dp_packet list"
  fx_mark_to_flow :: "u32 \<Rightarrow> nat option"
  fx_experimental_api :: bool
  fx_miss_recover :: "dp_packet \<Rightarrow> int"
  fx_emc_lookup :: "emc_entry list \<Rightarrow> netdev_flow_key \<Rightarrow> nat option"
  fx_expand :: "netdev_flow_key \<Rightarrow> 'flow"
  fx_upcall_cb :: "('flow fast_state \<Rightarrow> dp_packet \<Rightarrow> 'flow \<Rightarrow> ufid \<Rightarrow> int \<times> 'flow \<times> u8 list \<times> u8 list) option"
  fx_zero_wc :: 'flow
  fx_trylock :: "'flow fast_state \<Rightarrow> bool"
  fx_execute :: "'flow fast_state \<Rightarrow> dp_packet list \<Rightarrow> 'flow \<Rightarrow> u8 list \<Rightarrow> 'flow fast_state"

definition pmd_perf_update_counter :: "pmd_stat \<Rightarrow> nat \<Rightarrow> 'flow fast_state \<Rightarrow> 'flow fast_state" where
  "pmd_perf_update_counter stat n s = s\<lparr>fa_perf := (fa_perf s)(stat := fa_perf s stat + n)\<rparr>"

definition fast_flow_info :: "'flow fast_state \<Rightarrow> nat \<Rightarrow> 'flow flow_info" where
  "fast_flow_info s f = pm_info (fa_pmd s) f"

text \<open>The hash of a packet accounts for the depth of its recirculation.\<close>

definition dpif_netdev_packet_get_rss_hash ::
  "'flow fast_env \<Rightarrow> dp_packet \<Rightarrow> netdev_flow_key \<Rightarrow> u32 \<times> dp_packet" where
  "dpif_netdev_packet_get_rss_hash X packet key =
     (let (hash, packet) =
        (case pk_rss_hash packet of
           Some h \<Rightarrow> (h, packet)
         | None \<Rightarrow> let h = fx_hash_5tuple X key in (h, packet\<lparr>pk_rss_hash := Some h\<rparr>));
        recirc_depth = fx_recirc_depth X
      in (if recirc_depth \<noteq> 0 then fx_hash_finish X hash recirc_depth else hash, packet))"

section \<open>Batches of a flow\<close>

definition packet_batch_per_flow_update ::
  "'flow fast_env \<Rightarrow> packet_batch_per_flow \<Rightarrow> dp_packet \<Rightarrow> u16 \<Rightarrow> packet_batch_per_flow" where
  "packet_batch_per_flow_update X batch packet tcp_flags =
     batch\<lparr>pb_byte_count := pb_byte_count batch + pk_size packet,
           pb_tcp_flags := pb_tcp_flags batch OR tcp_flags,
           pb_array := fx_batch_add X (pb_array batch) packet\<rparr>"

definition packet_batch_per_flow_init :: "nat \<Rightarrow> packet_batch_per_flow" where
  "packet_batch_per_flow_init flow = \<lparr>pb_byte_count = 0, pb_tcp_flags = 0, pb_flow = flow, pb_array = []\<rparr>"

definition dp_netdev_flow_used :: "'flow fast_state \<Rightarrow> nat \<Rightarrow> nat \<Rightarrow> u32 \<Rightarrow> u16 \<Rightarrow> int \<Rightarrow> 'flow fast_state" where
  "dp_netdev_flow_used s flow cnt byte_count tcp_flags now =
     (let info = fast_flow_info s flow; stats = fi_stats info;
          stats = \<lparr>fs_used = now, fs_packet_count = fs_packet_count stats + of_nat cnt,
                   fs_byte_count = fs_byte_count stats + scast byte_count, fs_tcp_flags = fs_tcp_flags stats OR tcp_flags\<rparr>
      in s\<lparr>fa_pmd := set_info (fa_pmd s) flow (info\<lparr>fi_stats := stats\<rparr>)\<rparr>)"

definition packet_batch_per_flow_execute ::
  "'flow fast_env \<Rightarrow> packet_batch_per_flow \<Rightarrow> 'flow fast_state \<Rightarrow> 'flow fast_state" where
  "packet_batch_per_flow_execute X batch s =
     (let flow = pb_flow batch;
          s = dp_netdev_flow_used s flow (length (pb_array batch)) (pb_byte_count batch) (pb_tcp_flags batch)
                (pm_now (fa_pmd s) div 1000)
      in fx_execute X s (pb_array batch) (fi_flow (fast_flow_info s flow)) (fi_actions (fast_flow_info s flow)))"

text \<open>
  The array of batches has \<open>cap\<close> elements, of which those in use are in the list.  A flow whose
  batch is null gets the next one.
\<close>

definition dp_netdev_queue_batches ::
  "'flow fast_env \<Rightarrow> nat \<Rightarrow> dp_packet \<Rightarrow> nat \<Rightarrow> u16 \<Rightarrow> packet_batch_per_flow list \<times> (nat \<Rightarrow> nat option) \<Rightarrow>
     (packet_batch_per_flow list \<times> (nat \<Rightarrow> nat option)) c_result" where
  "dp_netdev_queue_batches X cap pkt flow tcp_flags st =
     (case st of (batches, batch_of) \<Rightarrow>
        (case batch_of flow of
           None \<Rightarrow>
             if length batches < cap then
               Inr (batches @ [packet_batch_per_flow_update X (packet_batch_per_flow_init flow) pkt tcp_flags],
                    batch_of(flow \<mapsto> length batches))
             else Inl Out_Of_Bounds
         | Some b \<Rightarrow>
             bindr (arr_get batches b) (\<lambda>batch.
               Inr (batches[b := packet_batch_per_flow_update X batch pkt tcp_flags], batch_of))))"

text \<open>The flow map has \<open>cap\<close> elements; those that have been written are in the list.\<close>

definition map_put :: "nat \<Rightarrow> dp_packet_flow_map list \<Rightarrow> nat \<Rightarrow> dp_packet_flow_map \<Rightarrow> dp_packet_flow_map list c_result" where
  "map_put cap flow_map i m =
     (if i < length flow_map then Inr (flow_map[i := m])
      else if i = length flow_map \<and> i < cap then Inr (flow_map @ [m]) else Inl Out_Of_Bounds)"

definition packet_enqueue_to_flow_map ::
  "nat \<Rightarrow> dp_packet \<Rightarrow> nat \<Rightarrow> u16 \<Rightarrow> dp_packet_flow_map list \<Rightarrow> nat \<Rightarrow> dp_packet_flow_map list c_result" where
  "packet_enqueue_to_flow_map cap packet flow tcp_flags flow_map index =
     map_put cap flow_map index \<lparr>fm_packet = Some packet, fm_flow = Some flow, fm_tcp_flags = tcp_flags\<rparr>"

text \<open>The loop over the flow map in \<open>dp_netdev_input__\<close>.\<close>

fun queue_flow_map ::
  "'flow fast_env \<Rightarrow> nat \<Rightarrow> dp_packet_flow_map list \<Rightarrow> packet_batch_per_flow list \<times> (nat \<Rightarrow> nat option) \<Rightarrow>
     (packet_batch_per_flow list \<times> (nat \<Rightarrow> nat option)) c_result" where
  "queue_flow_map X cap [] st = Inr st"
| "queue_flow_map X cap (m # ms) st =
     (case fm_flow m of
        None \<Rightarrow> queue_flow_map X cap ms st
      | Some flow \<Rightarrow>
        (case fm_packet m of
           None \<Rightarrow> Inl Null_Deref
         | Some packet \<Rightarrow>
           bindr (dp_netdev_queue_batches X cap packet flow (fm_tcp_flags m) st) (queue_flow_map X cap ms)))"

end
