(* ===== verification/Dpif_Fast.thy ===== *)
theory Dpif_Fast
  imports Dpif_Batch
begin

text \<open>
  The fast path of the datapath (\<open>dpif-netdev.c\<close>): the lookups of a batch of packets in the
  caches (\<open>dfc_processing\<close>, \<open>smc_lookup_batch\<close>) and in the classifier with upcalls for what is
  not found (\<open>fast_path_processing\<close>), and the entry of a batch into the datapath
  (\<open>dp_netdev_input__\<close>).
\<close>

section \<open>Lookups in the caches\<close>

definition ETH_HEADER_LEN :: u32 where
  "ETH_HEADER_LEN = 14"

text \<open>The error, the flow of the packet's mark, and whether the recovery stays supported.\<close>

definition dp_netdev_hw_flow :: "'flow fast_env \<Rightarrow> 'flow fast_state \<Rightarrow> dp_packet \<Rightarrow> int \<times> nat option \<times> 'flow fast_state" where
  "dp_netdev_hw_flow X s packet =
     (let by_mark = (case pk_flow_mark packet of None \<Rightarrow> None | Some mark \<Rightarrow> fx_mark_to_flow X mark) in
      if fx_experimental_api X \<and> fa_hw_miss_api s then
        let err = fx_miss_recover X packet in
        if err \<noteq> 0 then
          if err \<noteq> EOPNOTSUPP then (- 1, None, s) else (0, by_mark, s\<lparr>fa_hw_miss_api := False\<rparr>)
        else (0, by_mark, s)
      else (0, by_mark, s))"

text \<open>
  The variables of \<open>dfc_processing\<close>: the packets that are kept at the front of the batch with
  their keys and their places in the flow map, the batches and the flow map, whether packets are
  still batched at once, and the counters.  \<open>ds_gone\<close> lists the packets that have been freed.
\<close>

record 'flow dfc_state =
  ds_fast :: "'flow fast_state"
  ds_packets :: "dp_packet list"
  ds_keys :: "netdev_flow_key list"
  ds_index_map :: "u8 list"
  ds_batches :: "packet_batch_per_flow list"
  ds_flow_map :: "dp_packet_flow_map list"
  ds_batch_enable :: bool
  ds_n_phwol_hit :: nat
  ds_n_simple_hit :: nat
  ds_n_emc_hit :: nat
  ds_gone :: "dp_packet list"

definition dfc_processing_enqueue_classified_packet ::
  "'flow fast_env \<Rightarrow> nat \<Rightarrow> dp_packet \<Rightarrow> nat \<Rightarrow> u16 \<Rightarrow> 'flow dfc_state \<Rightarrow> 'flow dfc_state c_result" where
  "dfc_processing_enqueue_classified_packet X cap packet flow tcp_flags st =
     (if ds_batch_enable st then
        bindr (dp_netdev_queue_batches X cap packet flow tcp_flags (ds_batches st, fa_batch (ds_fast st))) (\<lambda>(batches, ptrs).
          Inr (st\<lparr>ds_batches := batches, ds_fast := (ds_fast st)\<lparr>fa_batch := ptrs\<rparr>\<rparr>))
      else
        bindr (packet_enqueue_to_flow_map cap packet flow tcp_flags (ds_flow_map st) (length (ds_flow_map st))) (\<lambda>flow_map.
          Inr (st\<lparr>ds_flow_map := flow_map\<rparr>)))"

text \<open>A packet whose flow is not in a cache.\<close>

definition dfc_miss :: "'flow fast_env \<Rightarrow> nat \<Rightarrow> nat \<Rightarrow> dp_packet \<Rightarrow> netdev_flow_key \<Rightarrow> 'flow dfc_state \<Rightarrow> 'flow dfc_state c_result" where
  "dfc_miss X cap i packet key st =
     bindr (map_put cap (ds_flow_map st) (length (ds_flow_map st)) \<lparr>fm_packet = None, fm_flow = None, fm_tcp_flags = 0\<rparr>)
       (\<lambda>flow_map.
        Inr (st\<lparr>ds_packets := fx_batch_refill X (ds_packets st) packet i,
                ds_index_map := ds_index_map st @ [of_nat (length (ds_flow_map st))],
                ds_flow_map := flow_map, ds_keys := ds_keys st @ [key], ds_batch_enable := False\<rparr>))"

text \<open>The lookup in the exact match cache, for a packet without a mark or a simple match.\<close>

definition dfc_emc :: "'flow fast_env \<Rightarrow> bool \<Rightarrow> u32 \<Rightarrow> nat \<Rightarrow> nat \<Rightarrow> dp_packet \<Rightarrow> 'flow dfc_state \<Rightarrow> 'flow dfc_state c_result" where
  "dfc_emc X md_is_valid cur_min cap i packet st =
     (let (fmap, values) = fx_extract X packet;
          key = \<lparr>nk_hash = 0, nk_len = 0, nk_map = fmap, nk_buf = values\<rparr>;
          (hash, packet) = (if \<not> md_is_valid then fx_hash_orig_pkt X packet key else dpif_netdev_packet_get_rss_hash X packet key);
          key = key\<lparr>nk_hash := hash\<rparr>;
          flow = (if cur_min \<noteq> 0 then fx_emc_lookup X (dc_emc (pm_dfc (fa_pmd (ds_fast st)))) key else None)
      in case flow of
           Some flow \<Rightarrow>
             dfc_processing_enqueue_classified_packet X cap packet flow (fx_key_tcp_flags X key)
               (st\<lparr>ds_n_emc_hit := ds_n_emc_hit st + 1\<rparr>)
         | None \<Rightarrow> dfc_miss X cap i packet key st)"

definition dfc_simple ::
  "'flow fast_env \<Rightarrow> bool \<Rightarrow> u32 \<Rightarrow> bool \<Rightarrow> u32 \<Rightarrow> nat \<Rightarrow> nat \<Rightarrow> dp_packet \<Rightarrow> 'flow dfc_state \<Rightarrow> 'flow dfc_state c_result" where
  "dfc_simple X md_is_valid port_no simple_match_enabled cur_min cap i packet st =
     (if simple_match_enabled then
        let (tcp_flags, dl_type, nw_frag, vlan_tci) = fx_parse_tcp_flags X packet in
        case dp_netdev_simple_match_lookup (fx_sys X) (fa_pmd (ds_fast st)) port_no dl_type nw_frag vlan_tci of
          Some flow \<Rightarrow>
            dfc_processing_enqueue_classified_packet X cap packet flow tcp_flags
              (st\<lparr>ds_n_simple_hit := ds_n_simple_hit st + 1\<rparr>)
        | None \<Rightarrow> dfc_emc X md_is_valid cur_min cap i packet st
      else dfc_emc X md_is_valid cur_min cap i packet st)"

text \<open>One turn of the loop over the packets.\<close>

definition dfc_step ::
  "'flow fast_env \<Rightarrow> bool \<Rightarrow> u32 \<Rightarrow> bool \<Rightarrow> u32 \<Rightarrow> nat \<Rightarrow> nat \<Rightarrow> dp_packet \<Rightarrow> 'flow dfc_state \<Rightarrow> 'flow dfc_state c_result" where
  "dfc_step X md_is_valid port_no simple_match_enabled cur_min cap i packet st =
     (if pk_size packet < ETH_HEADER_LEN then Inr (st\<lparr>ds_gone := ds_gone st @ [packet]\<rparr>)
      else
        let packet = (if \<not> md_is_valid then fx_md_init X packet port_no else packet) in
        if sy_flow_api (fx_sys X) \<and> fx_recirc_depth X = 0 then
          let (err, flow, s) = dp_netdev_hw_flow X (ds_fast st) packet; st = st\<lparr>ds_fast := s\<rparr> in
          if err \<noteq> 0 then Inr (st\<lparr>ds_gone := ds_gone st @ [packet]\<rparr>)
          else case flow of
                 Some flow \<Rightarrow>
                   dfc_processing_enqueue_classified_packet X cap packet flow (fst (fx_parse_tcp_flags X packet))
                     (st\<lparr>ds_n_phwol_hit := ds_n_phwol_hit st + 1\<rparr>)
               | None \<Rightarrow> dfc_simple X md_is_valid port_no simple_match_enabled cur_min cap i packet st
        else dfc_simple X md_is_valid port_no simple_match_enabled cur_min cap i packet st)"

fun dfc_loop ::
  "'flow fast_env \<Rightarrow> bool \<Rightarrow> u32 \<Rightarrow> bool \<Rightarrow> u32 \<Rightarrow> nat \<Rightarrow> nat \<Rightarrow> dp_packet list \<Rightarrow> 'flow dfc_state \<Rightarrow> 'flow dfc_state c_result" where
  "dfc_loop X md_is_valid port_no simple_match_enabled cur_min cap i [] st = Inr st"
| "dfc_loop X md_is_valid port_no simple_match_enabled cur_min cap i (p # ps) st =
     bindr (dfc_step X md_is_valid port_no simple_match_enabled cur_min cap i p st)
       (dfc_loop X md_is_valid port_no simple_match_enabled cur_min cap (Suc i) ps)"

text \<open>The length of a key is computed from the number of its values.\<close>

definition set_key_len :: "'flow fast_env \<Rightarrow> netdev_flow_key \<Rightarrow> netdev_flow_key" where
  "set_key_len X key =
     (let E = ce_flow (sy_cls (fx_sys X)) in key\<lparr>nk_len := fe_key_size E (length (fe_indices E (nk_map key)))\<rparr>)"

definition set_dfc :: "'flow fast_state \<Rightarrow> dfc_pmd \<Rightarrow> 'flow fast_state" where
  "set_dfc s dfc = s\<lparr>fa_pmd := (fa_pmd s)\<lparr>pm_dfc := dfc\<rparr>\<rparr>"

text \<open>
  The batch lookup in the signature match cache.  The packets that are not found are kept with
  their keys and places; the others are entered into the flow map at their places.
\<close>

record 'flow smc_state =
  ss_fast :: "'flow fast_state"
  ss_packets :: "dp_packet list"
  ss_keys :: "netdev_flow_key list"
  ss_index_map :: "u8 list"
  ss_flow_map :: "dp_packet_flow_map list"
  ss_n_smc_hit :: nat

definition smc_step ::
  "'flow fast_env \<Rightarrow> nat \<Rightarrow> nat \<Rightarrow> dp_packet \<Rightarrow> netdev_flow_key \<Rightarrow> u8 \<Rightarrow> 'flow smc_state \<Rightarrow> 'flow smc_state c_result" where
  "smc_step X cap i packet key recv_idx st =
     (let V = sy_dfc (fx_sys X); dfc = pm_dfc (fa_pmd (ss_fast st)) in
      bindr (smc_entry_get V dfc (nk_hash key)) (\<lambda>flow_node.
      bindr (case flow_node of None \<Rightarrow> Inr None | Some fs \<Rightarrow> smc_match V dfc (pk_in_port packet) key fs) (\<lambda>hit.
        case hit of
          Some flow \<Rightarrow>
            let tcp_flags = fx_key_tcp_flags X key; key = set_key_len X key in
            bindr (emc_probabilistic_insert V dfc key flow) (\<lambda>dfc.
            bindr (packet_enqueue_to_flow_map cap packet flow tcp_flags (ss_flow_map st) (unat recv_idx)) (\<lambda>flow_map.
              Inr (st\<lparr>ss_fast := set_dfc (ss_fast st) dfc, ss_flow_map := flow_map, ss_n_smc_hit := ss_n_smc_hit st + 1\<rparr>)))
        | None \<Rightarrow>
            Inr (st\<lparr>ss_packets := fx_batch_refill X (ss_packets st) packet i, ss_keys := ss_keys st @ [key],
                    ss_index_map := ss_index_map st @ [recv_idx]\<rparr>))))"

fun smc_loop ::
  "'flow fast_env \<Rightarrow> nat \<Rightarrow> nat \<Rightarrow> (dp_packet \<times> netdev_flow_key \<times> u8) list \<Rightarrow> 'flow smc_state \<Rightarrow> 'flow smc_state c_result" where
  "smc_loop X cap i [] st = Inr st"
| "smc_loop X cap i ((p, k, idx) # xs) st = bindr (smc_step X cap i p k idx st) (smc_loop X cap (Suc i) xs)"

definition smc_lookup_batch :: "'flow fast_env \<Rightarrow> nat \<Rightarrow> 'flow dfc_state \<Rightarrow> 'flow dfc_state c_result" where
  "smc_lookup_batch X cap st =
     bindr (smc_loop X cap 0 (zip (ds_packets st) (zip (ds_keys st) (ds_index_map st)))
       \<lparr>ss_fast = ds_fast st, ss_packets = [], ss_keys = [], ss_index_map = [], ss_flow_map = ds_flow_map st, ss_n_smc_hit = 0\<rparr>)
       (\<lambda>r. Inr (st\<lparr>ds_fast := pmd_perf_update_counter PMD_STAT_SMC_HIT (ss_n_smc_hit r) (ss_fast r),
                    ds_packets := ss_packets r, ds_keys := ss_keys r, ds_index_map := ss_index_map r,
                    ds_flow_map := ss_flow_map r\<rparr>))"

definition dfc_counters :: "'flow dfc_state \<Rightarrow> 'flow dfc_state" where
  "dfc_counters st =
     st\<lparr>ds_fast :=
        pmd_perf_update_counter PMD_STAT_EXACT_HIT (ds_n_emc_hit st)
          (pmd_perf_update_counter PMD_STAT_SIMPLE_HIT (ds_n_simple_hit st)
            (pmd_perf_update_counter PMD_STAT_MFEX_OPT_HIT 0
              (pmd_perf_update_counter PMD_STAT_PHWOL_HIT (ds_n_phwol_hit st) (ds_fast st))))\<rparr>"

definition dfc_processing ::
  "'flow fast_env \<Rightarrow> 'flow fast_state \<Rightarrow> dp_packet list \<Rightarrow> bool \<Rightarrow> u32 \<Rightarrow> 'flow dfc_state c_result" where
  "dfc_processing X s packets md_is_valid port_no =
     (let cnt = length packets;
          simple_match_enabled = (\<not> md_is_valid \<and> dp_netdev_simple_match_enabled (fa_pmd s) port_no);
          dfc = pm_dfc (fa_pmd s);
          smc_enable_db = (\<not> simple_match_enabled \<and> dc_smc_enable_db dfc);
          cur_min = (if simple_match_enabled then 0 else dc_emc_insert_min dfc);
          s = pmd_perf_update_counter (if md_is_valid then PMD_STAT_RECIRC else PMD_STAT_RECV) cnt s
      in bindr (dfc_loop X md_is_valid port_no simple_match_enabled cur_min cnt 0 packets
           \<lparr>ds_fast = s, ds_packets = [], ds_keys = [], ds_index_map = [], ds_batches = [], ds_flow_map = [],
            ds_batch_enable = True, ds_n_phwol_hit = 0, ds_n_simple_hit = 0, ds_n_emc_hit = 0, ds_gone = []\<rparr>) (\<lambda>st.
         let st = dfc_counters st in
         if \<not> smc_enable_db then Inr st else smc_lookup_batch X cnt st))"

section \<open>Upcalls\<close>

definition ENODEV :: int where "ENODEV = 19"
definition ENOSPC :: int where "ENOSPC = 28"

definition dp_netdev_upcall ::
  "'flow fast_env \<Rightarrow> 'flow fast_state \<Rightarrow> dp_packet \<Rightarrow> 'flow \<Rightarrow> ufid \<Rightarrow> int \<times> 'flow \<times> u8 list \<times> u8 list" where
  "dp_netdev_upcall X s packet flow ufid =
     (case fx_upcall_cb X of None \<Rightarrow> (ENODEV, fx_zero_wc X, [], []) | Some cb \<Rightarrow> cb s packet flow ufid)"

text \<open>The installation of the flow of an upcall, and the insertion into the caches.\<close>

definition upcall_install ::
  "'flow fast_env \<Rightarrow> 'flow fast_state \<Rightarrow> netdev_flow_key \<Rightarrow> 'flow match \<Rightarrow> ufid \<Rightarrow> u8 list \<Rightarrow> u32 \<Rightarrow> 'flow fast_state c_result" where
  "upcall_install X s key mt ufid actions orig_in_port =
     (let Y = fx_sys X; pmd = fa_pmd s in
      bindr (dp_netdev_pmd_lookup_flow (sy_cls Y) (pm_classifiers pmd) (ff_key_in_port Y key) key) (\<lambda>(rule, num, classifiers).
      let pmd = pmd\<lparr>pm_classifiers := classifiers\<rparr> in
      bindr (case rule of Some r \<Rightarrow> Inr (ru_id r, pmd) | None \<Rightarrow> dp_netdev_flow_add Y pmd mt ufid actions orig_in_port) (\<lambda>(flow, pmd).
      let hash = dp_netdev_flow_hash (fx_sys X) (fi_ufid (pm_info pmd flow)) in
      bindr (smc_insert (sy_dfc Y) (pm_dfc pmd) key hash) (\<lambda>dfc.
      bindr (emc_probabilistic_insert (sy_dfc Y) dfc key flow) (\<lambda>dfc.
        Inr (s\<lparr>fa_pmd := pmd\<lparr>pm_dfc := dfc\<rparr>\<rparr>))))))"

text \<open>The error and the state; a packet that the control plane refuses is freed.\<close>

definition handle_packet_upcall ::
  "'flow fast_env \<Rightarrow> 'flow fast_state \<Rightarrow> dp_packet \<Rightarrow> netdev_flow_key \<Rightarrow> (int \<times> 'flow fast_state) c_result" where
  "handle_packet_upcall X s packet key =
     (let Y = fx_sys X; flow = fx_expand X key; ufid = ff_key_hash Y flow;
          (error, wc, actions, put_actions) = dp_netdev_upcall X s packet flow ufid
      in if error \<noteq> 0 \<and> error \<noteq> ENOSPC then Inr (error, s)
         else
           let wc = (if ff_vlan_tci Y wc = 0 then ff_set_vlan_tci Y (htons (VLAN_VID_MASK OR VLAN_CFI)) wc else wc);
               s = fx_execute X s [packet] flow actions;
               add_actions = (if put_actions \<noteq> [] then put_actions else actions)
           in if error \<noteq> ENOSPC then
                bindr (upcall_install X s key \<lparr>match_flow = flow, match_masks = wc\<rparr> ufid add_actions (pk_orig_in_port packet)) (\<lambda>s.
                  Inr (error, s))
              else Inr (error, s))"

section \<open>Lookups in the classifier\<close>

record 'flow miss_state =
  ms_fast :: "'flow fast_state"
  ms_rules :: "dpcls_rule option list"
  ms_upcall_ok :: nat
  ms_upcall_fail :: nat
  ms_lookup_cnt :: u32
  ms_gone :: "dp_packet list"

text \<open>One packet that has no rule: a rule may have been installed meanwhile, else an upcall is made.\<close>

definition miss_step ::
  "'flow fast_env \<Rightarrow> nat \<Rightarrow> dp_packet \<Rightarrow> netdev_flow_key \<Rightarrow> 'flow miss_state \<Rightarrow> 'flow miss_state c_result" where
  "miss_step X i packet key st =
     bindr (arr_get (ms_rules st) i) (\<lambda>rule.
     case rule of Some r \<Rightarrow> Inr st
     | None \<Rightarrow>
       let Y = fx_sys X; s = ms_fast st; pmd = fa_pmd s in
       bindr (dp_netdev_pmd_lookup_flow (sy_cls Y) (pm_classifiers pmd) (ff_key_in_port Y key) key) (\<lambda>(rule, num, classifiers).
       let s = s\<lparr>fa_pmd := pmd\<lparr>pm_classifiers := classifiers\<rparr>\<rparr> in
       case rule of
         Some r \<Rightarrow>
           (case num of None \<Rightarrow> Inl Null_Deref
            | Some n \<Rightarrow> Inr (st\<lparr>ms_fast := s, ms_rules := (ms_rules st)[i := Some r], ms_lookup_cnt := ms_lookup_cnt st + n\<rparr>))
       | None \<Rightarrow>
           bindr (handle_packet_upcall X s packet key) (\<lambda>(error, s).
             let st = st\<lparr>ms_fast := s, ms_gone := ms_gone st @ [packet]\<rparr> in
             Inr (if error \<noteq> 0 then st\<lparr>ms_upcall_fail := ms_upcall_fail st + 1\<rparr>
                  else st\<lparr>ms_upcall_ok := ms_upcall_ok st + 1\<rparr>))))"

fun miss_loop ::
  "'flow fast_env \<Rightarrow> nat \<Rightarrow> (dp_packet \<times> netdev_flow_key) list \<Rightarrow> 'flow miss_state \<Rightarrow> 'flow miss_state c_result" where
  "miss_loop X i [] st = Inr st"
| "miss_loop X i ((p, k) # xs) st = bindr (miss_step X i p k st) (miss_loop X (Suc i) xs)"

text \<open>When the lock of the upcalls is taken, the packets without a rule are freed.\<close>

fun drop_loop :: "dpcls_rule option list \<Rightarrow> dp_packet list \<Rightarrow> dp_packet list" where
  "drop_loop (None # rs) (p # ps) = p # drop_loop rs ps"
| "drop_loop (Some r # rs) (p # ps) = drop_loop rs ps"
| "drop_loop rs ps = []"

text \<open>The packets with a rule enter the caches and the flow map.\<close>

fun rules_loop ::
  "'flow fast_env \<Rightarrow> nat \<Rightarrow> (dp_packet \<times> netdev_flow_key \<times> u8) list \<Rightarrow> dpcls_rule option list \<Rightarrow>
     'flow fast_state \<times> dp_packet_flow_map list \<Rightarrow> ('flow fast_state \<times> dp_packet_flow_map list) c_result" where
  "rules_loop X cap ((p, key, recv_idx) # xs) (Some r # rs) (s, flow_map) =
     (let V = sy_dfc (fx_sys X); pmd = fa_pmd s; flow = ru_id r;
          hash = dp_netdev_flow_hash (fx_sys X) (fi_ufid (pm_info pmd flow))
      in bindr (smc_insert V (pm_dfc pmd) key hash) (\<lambda>dfc.
         bindr (emc_probabilistic_insert V dfc key flow) (\<lambda>dfc.
         bindr (packet_enqueue_to_flow_map cap p flow (fx_key_tcp_flags X key) flow_map (unat recv_idx)) (\<lambda>flow_map.
           rules_loop X cap xs rs (set_dfc s dfc, flow_map)))))"
| "rules_loop X cap (x # xs) (None # rs) st = rules_loop X cap xs rs st"
| "rules_loop X cap xs rs st = Inr st"

text \<open>The classifier of the port of the batch: whether all keys were found, the rules and the number of lookups.\<close>

definition classify_batch ::
  "'flow fast_env \<Rightarrow> 'flow fast_state \<Rightarrow> netdev_flow_key list \<Rightarrow> u32 \<Rightarrow>
     (bool \<times> dpcls_rule option list \<times> u32 \<times> 'flow fast_state) c_result" where
  "classify_batch X s keys in_port =
     (let pmd = fa_pmd s in
      case dp_netdev_pmd_lookup_dpcls (pm_classifiers pmd) in_port of
        None \<Rightarrow> Inr (True, replicate (length keys) None, 0, s)
      | Some cls \<Rightarrow>
        bindr (dpcls_lookup (sy_cls (fx_sys X)) cls keys) (\<lambda>(all_found, rules, num, cls).
          Inr (\<not> all_found, rules, num, s\<lparr>fa_pmd := pmd\<lparr>pm_classifiers := store_dpcls (pm_classifiers pmd) cls\<rparr>\<rparr>)))"

text \<open>The second component is what has been freed or handed to the control plane.\<close>

definition fast_path_processing ::
  "'flow fast_env \<Rightarrow> nat \<Rightarrow> 'flow fast_state \<Rightarrow> dp_packet list \<Rightarrow> netdev_flow_key list \<Rightarrow> dp_packet_flow_map list \<Rightarrow>
     u8 list \<Rightarrow> u32 \<Rightarrow> ('flow fast_state \<times> dp_packet list \<times> dp_packet_flow_map list) c_result" where
  "fast_path_processing X cap s packets keys flow_map index_map in_port =
     (let cnt = length packets; keys = map (set_key_len X) keys in
      bindr (classify_batch X s keys in_port) (\<lambda>(any_miss, rules, lookup_cnt, s).
      let st = \<lparr>ms_fast = s, ms_rules = rules, ms_upcall_ok = 0, ms_upcall_fail = 0, ms_lookup_cnt = lookup_cnt, ms_gone = []\<rparr> in
      bindr (if any_miss then
               if \<not> fx_trylock X s then miss_loop X 0 (zip packets keys) st
               else let gone = drop_loop rules packets
                    in Inr (st\<lparr>ms_gone := gone, ms_upcall_fail := length gone\<rparr>)
             else Inr st) (\<lambda>st.
      bindr (rules_loop X cap (zip packets (zip keys index_map)) (ms_rules st) (ms_fast st, flow_map)) (\<lambda>(s, flow_map).
        Inr (pmd_perf_update_counter PMD_STAT_LOST (ms_upcall_fail st)
               (pmd_perf_update_counter PMD_STAT_MISS (ms_upcall_ok st)
                 (pmd_perf_update_counter PMD_STAT_MASKED_LOOKUP (unat (ms_lookup_cnt st))
                   (pmd_perf_update_counter PMD_STAT_MASKED_HIT (cnt - ms_upcall_ok st - ms_upcall_fail st) s))),
             ms_gone st, flow_map)))))"

section \<open>The entry of a batch\<close>

fun reset_batches :: "packet_batch_per_flow list \<Rightarrow> (nat \<Rightarrow> nat option) \<Rightarrow> (nat \<Rightarrow> nat option)" where
  "reset_batches [] ptrs = ptrs"
| "reset_batches (b # bs) ptrs = reset_batches bs (ptrs(pb_flow b := None))"

text \<open>Everything before the batches are executed: the state, the batches and the packets that are gone.\<close>

definition input_batches ::
  "'flow fast_env \<Rightarrow> 'flow fast_state \<Rightarrow> dp_packet list \<Rightarrow> bool \<Rightarrow> u32 \<Rightarrow>
     ('flow fast_state \<times> packet_batch_per_flow list \<times> dp_packet list) c_result" where
  "input_batches X s packets md_is_valid port_no =
     (let cap = length packets in
      bindr (dfc_processing X s packets md_is_valid port_no) (\<lambda>st.
      bindr (case ds_packets st of
               [] \<Rightarrow> Inr (ds_fast st, [], ds_flow_map st)
             | p # ps \<Rightarrow> fast_path_processing X cap (ds_fast st) (ds_packets st) (ds_keys st) (ds_flow_map st)
                          (ds_index_map st) (pk_in_port p)) (\<lambda>(s, gone, flow_map).
      bindr (queue_flow_map X cap flow_map (ds_batches st, fa_batch s)) (\<lambda>(batches, ptrs).
        Inr (s\<lparr>fa_batch := reset_batches batches ptrs\<rparr>, batches, ds_gone st @ gone)))))"

definition dp_netdev_input_packets ::
  "'flow fast_env \<Rightarrow> 'flow fast_state \<Rightarrow> dp_packet list \<Rightarrow> bool \<Rightarrow> u32 \<Rightarrow> 'flow fast_state c_result" where
  "dp_netdev_input_packets X s packets md_is_valid port_no =
     bindr (input_batches X s packets md_is_valid port_no) (\<lambda>(s, batches, gone).
       Inr (fold (packet_batch_per_flow_execute X) batches s))"

definition dp_netdev_input :: "'flow fast_env \<Rightarrow> 'flow fast_state \<Rightarrow> dp_packet list \<Rightarrow> u32 \<Rightarrow> 'flow fast_state c_result" where
  "dp_netdev_input X s packets port_no = dp_netdev_input_packets X s packets False port_no"

end
