(* ===== verification/Dpif_Batch_Laws.thy ===== *)
theory Dpif_Batch_Laws
  imports Dpif_Fast "HOL-Library.Sublist" "HOL-Library.Multiset"
begin

text \<open>
  Laws of the batches of flows: queueing classified packets one after the other groups them by
  flow, the flows in the order of their first packets, and the laws of the flow map, which keeps
  a place for each packet whose flow is not known yet.
\<close>

section \<open>Groups of packets\<close>

text \<open>A classified packet: the packet, its flow and the flags of its key.\<close>

type_synonym classified = "dp_packet \<times> nat \<times> u16"

abbreviation out_flow :: "classified \<Rightarrow> nat" where "out_flow x \<equiv> fst (snd x)"

abbreviation out_ids :: "classified list \<Rightarrow> nat list" where "out_ids outs \<equiv> map (\<lambda>x. pk_id (fst x)) outs"

definition first_flows :: "classified list \<Rightarrow> nat list" where
  "first_flows outs = rev (remdups (rev (map out_flow outs)))"

definition batch_for :: "classified list \<Rightarrow> nat \<Rightarrow> packet_batch_per_flow" where
  "batch_for outs f =
     (let own = filter (\<lambda>x. out_flow x = f) outs in
      \<lparr>pb_byte_count = sum_list (map (\<lambda>x. pk_size (fst x)) own),
       pb_tcp_flags = foldl (OR) 0 (map (\<lambda>x. snd (snd x)) own),
       pb_flow = f, pb_array = map fst own\<rparr>)"

definition flow_groups :: "classified list \<Rightarrow> packet_batch_per_flow list" where
  "flow_groups outs = map (batch_for outs) (first_flows outs)"

text \<open>The batches in use, and the batch of each flow, after the packets have been queued.\<close>

definition batched :: "classified list \<Rightarrow> packet_batch_per_flow list \<times> (nat \<Rightarrow> nat option) \<Rightarrow> bool" where
  "batched outs st \<longleftrightarrow> fst st = flow_groups outs \<and>
     (\<forall>f b. snd st f = Some b \<longleftrightarrow> b < length (first_flows outs) \<and> first_flows outs ! b = f)"

lemma first_flows_Nil [simp]: "first_flows [] = []"
  by (simp add: first_flows_def)

lemma set_first_flows [simp]: "set (first_flows outs) = out_flow ` set outs"
  by (simp add: first_flows_def)

lemma distinct_first_flows [simp]: "distinct (first_flows outs)"
  by (simp add: first_flows_def)

lemma length_first_flows: "length (first_flows outs) \<le> length outs"
  by (simp add: first_flows_def) (metis length_map length_remdups_leq length_rev)

lemma length_flow_groups [simp]: "length (flow_groups outs) = length (first_flows outs)"
  by (simp add: flow_groups_def)

lemma first_flows_snoc:
  "first_flows (outs @ [x]) =
     (if out_flow x \<in> out_flow ` set outs then first_flows outs else first_flows outs @ [out_flow x])"
  by (auto simp: first_flows_def)

lemma pb_flow_batch_for [simp]: "pb_flow (batch_for outs f) = f"
  by (simp add: batch_for_def Let_def)

lemma batch_for_other: "out_flow x \<noteq> f \<Longrightarrow> batch_for (outs @ [x]) f = batch_for outs f"
  by (simp add: batch_for_def)

lemma batch_for_new: "f \<notin> out_flow ` set outs \<Longrightarrow> batch_for outs f = packet_batch_per_flow_init f"
proof -
  assume "f \<notin> out_flow ` set outs"
  then have "filter (\<lambda>x. out_flow x = f) outs = []" by (auto simp: filter_empty_conv)
  then show ?thesis by (simp add: batch_for_def packet_batch_per_flow_init_def)
qed

lemma batched_Nil: "batched [] ([], \<lambda>f. None)"
  by (simp add: batched_def flow_groups_def)

text \<open>What the model relies on of the library: \<open>dp_packet_batch_add\<close> and \<open>_refill\<close> append while there is room.\<close>

definition batch_env_ok :: "'flow fast_env \<Rightarrow> bool" where
  "batch_env_ok X \<longleftrightarrow>
     (\<forall>ps p. length ps < 32 \<longrightarrow> fx_batch_add X ps p = ps @ [p]) \<and>
     (\<forall>ps p i. length ps \<le> i \<and> i < 32 \<longrightarrow> fx_batch_refill X ps p i = ps @ [p])"

lemma batch_env_okD:
  assumes "batch_env_ok X"
  shows "length ps < 32 \<Longrightarrow> fx_batch_add X ps p = ps @ [p]"
    and "length ps \<le> i \<Longrightarrow> i < 32 \<Longrightarrow> fx_batch_refill X ps p i = ps @ [p]"
  using assms by (auto simp: batch_env_ok_def)

lemma update_batch_for:
  assumes "batch_env_ok X" and "length outs < 32"
  shows "packet_batch_per_flow_update X (batch_for outs f) p t = batch_for (outs @ [(p, f, t)]) f"
proof -
  have "length (pb_array (batch_for outs f)) < 32"
    using le_less_trans [OF length_filter_le assms(2)] by (simp add: batch_for_def Let_def)
  then have "fx_batch_add X (pb_array (batch_for outs f)) p = pb_array (batch_for outs f) @ [p]"
    by (rule batch_env_okD(1) [OF assms(1)])
  then show ?thesis by (simp add: packet_batch_per_flow_update_def batch_for_def Let_def)
qed

text \<open>Queueing a packet.\<close>

lemma queue_snoc:
  assumes X: "batch_env_ok X" and st: "batched outs st" and len: "length outs < cap" "cap \<le> 32"
  shows "\<exists>st'. dp_netdev_queue_batches X cap p f t st = Inr st' \<and> batched (outs @ [(p, f, t)]) st'"
proof -
  obtain batches ptrs where st_def: "st = (batches, ptrs)" by (cases st)
  have b: "batches = flow_groups outs" and ptrs: "\<And>f b. ptrs f = Some b \<longleftrightarrow> b < length (first_flows outs) \<and> first_flows outs ! b = f"
    using st by (simp_all add: batched_def st_def)
  let ?outs = "outs @ [(p, f, t)]"
  note upd = update_batch_for [OF X, of outs f p t]
  show ?thesis
  proof (cases "ptrs f")
    case None
    then have f: "f \<notin> out_flow ` set outs"
      unfolding set_first_flows [symmetric] using ptrs by (metis in_set_conv_nth option.distinct(1))
    have len': "length (first_flows outs) < cap" using length_first_flows [of outs] len by simp
    have "flow_groups ?outs = flow_groups outs @ [packet_batch_per_flow_update X (packet_batch_per_flow_init f) p t]"
      using upd len f batch_for_new [OF f] by (force simp: flow_groups_def first_flows_snoc intro!: batch_for_other)
    moreover have "first_flows ?outs = first_flows outs @ [f]" using f by (auto simp: first_flows_snoc)
    moreover have "first_flows outs ! b \<noteq> f" if "b < length (first_flows outs)" for b
      using f nth_mem [OF that] by (metis set_first_flows)
    ultimately have "batched ?outs (flow_groups ?outs, ptrs(f \<mapsto> length (first_flows outs)))"
      using ptrs by (auto simp: batched_def nth_append less_Suc_eq)
    then show ?thesis using None len' \<open>flow_groups ?outs = _\<close> by (simp add: st_def b dp_netdev_queue_batches_def)
  next
    case (Some i)
    then have i: "i < length (first_flows outs)" "first_flows outs ! i = f" using ptrs by blast+
    then have f: "f \<in> out_flow ` set outs" using nth_mem [OF i(1)] by (simp only: set_first_flows)
    then have ff: "first_flows ?outs = first_flows outs" by (simp add: first_flows_snoc)
    have "batch_for ?outs (first_flows outs ! j) = batch_for outs (first_flows outs ! j)"
      if "j < length (first_flows outs)" "j \<noteq> i" for j
      using that i nth_eq_iff_index_eq [OF distinct_first_flows that(1) i(1)] by (intro batch_for_other) simp
    then have "flow_groups ?outs = (flow_groups outs)[i := batch_for ?outs f]"
      using i by (intro nth_equalityI) (auto simp: flow_groups_def ff nth_list_update)
    moreover have "packet_batch_per_flow_update X (flow_groups outs ! i) p t = batch_for ?outs f"
      using upd len i by (simp add: flow_groups_def)
    ultimately have "dp_netdev_queue_batches X cap p f t st = Inr (flow_groups ?outs, ptrs)"
      using Some i by (simp add: st_def b dp_netdev_queue_batches_def)
    moreover have "batched ?outs (flow_groups ?outs, ptrs)" using ptrs by (simp add: batched_def ff)
    ultimately show ?thesis by blast
  qed
qed

text \<open>Resetting the batches of a group clears every pointer.\<close>

lemma reset_batches_fold: "reset_batches bs ptrs f = (if f \<in> pb_flow ` set bs then None else ptrs f)"
  by (induction bs arbitrary: ptrs) auto

lemma reset_batched:
  assumes "batched outs (batches, ptrs)"
  shows "reset_batches batches ptrs = (\<lambda>f. None)"
proof
  fix f
  show "reset_batches batches ptrs f = None"
  proof (cases "ptrs f")
    case (Some b)
    then have "f \<in> set (first_flows outs)" using assms by (metis batched_def nth_mem snd_conv)
    then have "f \<in> pb_flow ` set (flow_groups outs)" by (force simp: flow_groups_def)
    then show ?thesis using assms by (simp add: reset_batches_fold batched_def)
  qed (simp add: reset_batches_fold)
qed

text \<open>The groups are a partition of the packets by flow.\<close>

lemma mset_by_flow:
  assumes "distinct fs" and "out_flow ` set outs \<subseteq> set fs"
  shows "mset (concat (map (\<lambda>f. filter (\<lambda>x. out_flow x = f) outs) fs)) = mset outs"
  using assms
proof (induction fs arbitrary: outs)
  case (Cons f fs)
  let ?rest = "filter (\<lambda>x. out_flow x \<noteq> f) outs"
  have "filter (\<lambda>x. out_flow x = g) outs = filter (\<lambda>x. out_flow x = g) ?rest" if "g \<in> set fs" for g
    using that Cons.prems(1) by (auto intro!: filter_cong)
  then have "concat (map (\<lambda>g. filter (\<lambda>x. out_flow x = g) outs) fs) = concat (map (\<lambda>g. filter (\<lambda>x. out_flow x = g) ?rest) fs)"
    by (metis (no_types, lifting) map_cong)
  moreover have "mset (concat (map (\<lambda>g. filter (\<lambda>x. out_flow x = g) ?rest) fs)) = mset ?rest"
    using Cons.prems by (intro Cons.IH) auto
  ultimately show ?case using multiset_partition [of "mset outs" "\<lambda>x. out_flow x = f", symmetric] by simp
qed simp

lemma flow_groups_partition:
  "distinct (map pb_flow (flow_groups outs))"
  "\<forall>b\<in>set (flow_groups outs). pb_array b \<noteq> [] \<and> subseq (map pk_id (pb_array b)) (out_ids outs) \<and>
     length (pb_array b) \<le> length outs \<and> pb_byte_count b = sum_list (map pk_size (pb_array b))"
  "mset (concat (map (\<lambda>b. map pk_id (pb_array b)) (flow_groups outs))) = mset (out_ids outs)"
proof -
  show "distinct (map pb_flow (flow_groups outs))" by (simp add: flow_groups_def o_def)
  have "pb_array (batch_for outs f) \<noteq> []" if "f \<in> set (first_flows outs)" for f
    using that by (auto simp: batch_for_def Let_def filter_empty_conv)
  moreover have "subseq (map pk_id (pb_array (batch_for outs f))) (out_ids outs)" for f
    using subseq_map [OF subseq_filter_left [of "\<lambda>x. out_flow x = f" outs], of "\<lambda>x. pk_id (fst x)"]
    by (simp add: batch_for_def Let_def o_def)
  ultimately show "\<forall>b\<in>set (flow_groups outs). pb_array b \<noteq> [] \<and> subseq (map pk_id (pb_array b)) (out_ids outs) \<and>
     length (pb_array b) \<le> length outs \<and> pb_byte_count b = sum_list (map pk_size (pb_array b))"
    by (auto simp: flow_groups_def batch_for_def Let_def o_def)
  have "map (\<lambda>b. map pk_id (pb_array b)) (flow_groups outs) =
      map (map (\<lambda>x. pk_id (fst x))) (map (\<lambda>f. filter (\<lambda>x. out_flow x = f) outs) (first_flows outs))"
    by (simp add: flow_groups_def batch_for_def Let_def o_def)
  then have "concat (map (\<lambda>b. map pk_id (pb_array b)) (flow_groups outs)) =
      map (\<lambda>x. pk_id (fst x)) (concat (map (\<lambda>f. filter (\<lambda>x. out_flow x = f) outs) (first_flows outs)))"
    by (simp only: map_concat)
  then show "mset (concat (map (\<lambda>b. map pk_id (pb_array b)) (flow_groups outs))) = mset (out_ids outs)"
    using mset_by_flow [of "first_flows outs" outs] by simp
qed

section \<open>The flow map\<close>

definition holes :: "dp_packet_flow_map list \<Rightarrow> nat list" where
  "holes ms = filter (\<lambda>i. fm_flow (ms ! i) = None) [0..<length ms]"

text \<open>A flow map over the identifiers of the packets that its places are for.\<close>

definition carries :: "nat list \<Rightarrow> dp_packet_flow_map list \<Rightarrow> bool" where
  "carries ids ms \<longleftrightarrow> length ids = length ms \<and>
     (\<forall>i<length ms. fm_flow (ms ! i) \<noteq> None \<longrightarrow> (\<exists>p. fm_packet (ms ! i) = Some p \<and> pk_id p = ids ! i))"

definition map_outs :: "dp_packet_flow_map list \<Rightarrow> classified list" where
  "map_outs ms = map (\<lambda>m. (the (fm_packet m), the (fm_flow m), fm_tcp_flags m)) (filter (\<lambda>m. fm_flow m \<noteq> None) ms)"

lemma holes_Nil [simp]: "holes [] = []"
  by (simp add: holes_def)

lemma holes_snoc: "holes (ms @ [m]) = holes ms @ (if fm_flow m = None then [length ms] else [])"
  by (auto simp: holes_def nth_append intro!: filter_cong)

lemma distinct_holes: "distinct (holes ms)"
  by (simp add: holes_def)

lemma holes_less: "i \<in> set (holes ms) \<Longrightarrow> i < length ms"
  by (simp add: holes_def)

lemma length_holes: "length (holes ms) \<le> length ms"
  unfolding holes_def by (rule order_trans [OF length_filter_le]) simp

lemma holes_fill:
  assumes "holes ms = A @ i # B" and "fm_flow m \<noteq> None"
  shows "holes (ms[i := m]) = A @ B"
proof -
  have i: "i < length ms" using holes_less [of i ms] assms(1) by simp
  have "holes (ms[i := m]) = filter (\<lambda>j. j \<noteq> i) (holes ms)"
    using assms(2) i by (auto simp: holes_def nth_list_update intro!: filter_cong)
  moreover have "i \<notin> set A" "i \<notin> set B" using distinct_holes [of ms] unfolding assms(1) by auto
  then have "filter (\<lambda>j. j \<noteq> i) A = A" "filter (\<lambda>j. j \<noteq> i) B = B" by (auto intro: filter_True)
  ultimately show ?thesis by (simp add: assms(1))
qed

lemma carries_fill:
  assumes "carries ids ms" and "i < length ms" and "pk_id p = ids ! i"
  shows "carries ids (ms[i := \<lparr>fm_packet = Some p, fm_flow = f, fm_tcp_flags = t\<rparr>])"
  using assms by (auto simp: carries_def nth_list_update)

lemma carries_snoc:
  assumes "carries ids ms" and "fm_flow m \<noteq> None \<Longrightarrow> \<exists>p. fm_packet m = Some p \<and> pk_id p = k"
  shows "carries (ids @ [k]) (ms @ [m])"
  using assms by (auto simp: carries_def nth_append less_Suc_eq)

lemma carries_Nil: "carries [] []"
  by (simp add: carries_def)

lemma carries_snocD:
  assumes "carries ids (ms @ [m])"
  obtains ids' k where "ids = ids' @ [k]" and "carries ids' ms" and "fm_flow m \<noteq> None \<Longrightarrow> \<exists>p. fm_packet m = Some p \<and> pk_id p = k"
proof -
  have "length ids = Suc (length ms)" using assms by (simp add: carries_def)
  then obtain ids' k where k: "ids = ids' @ [k]" "length ids' = length ms" by (metis length_Suc_conv_rev)
  have "carries ids' ms" unfolding carries_def
  proof (intro conjI allI impI)
    fix i
    assume "i < length ms" "fm_flow (ms ! i) \<noteq> None"
    then show "\<exists>p. fm_packet (ms ! i) = Some p \<and> pk_id p = ids' ! i"
      using assms k unfolding carries_def by (auto simp: nth_append dest!: spec [of _ i])
  qed (rule k(2))
  moreover have "fm_flow m \<noteq> None \<Longrightarrow> \<exists>p. fm_packet m = Some p \<and> pk_id p = k"
    using assms k unfolding carries_def by (auto simp: nth_append dest!: spec [of _ "length ms"])
  ultimately show ?thesis using k(1) that by blast
qed

text \<open>The packets of the flow map keep their order, and each place has its packet or is a hole.\<close>

lemma carries_outs:
  assumes "carries ids ms"
  shows "subseq (out_ids (map_outs ms)) ids \<and>
    mset ids = mset (out_ids (map_outs ms)) + mset (map (\<lambda>i. ids ! i) (holes ms))"
  using assms
proof (induction ms arbitrary: ids rule: rev_induct)
  case (snoc m ms)
  obtain ids' k where ids: "ids = ids' @ [k]" "carries ids' ms" and k: "fm_flow m \<noteq> None \<Longrightarrow> \<exists>p. fm_packet m = Some p \<and> pk_id p = k"
    using carries_snocD [OF snoc.prems] by blast
  have len: "length ids' = length ms" using ids(2) by (simp add: carries_def)
  have old: "image_mset ((!) (ids' @ [k])) (mset (holes ms)) = image_mset ((!) ids') (mset (holes ms))"
    by (rule image_mset_cong) (use holes_less [of _ ms] len in \<open>auto simp: nth_append\<close>)
  show ?case
  proof (cases "fm_flow m")
    case None
    then have "map_outs (ms @ [m]) = map_outs ms" "holes (ms @ [m]) = holes ms @ [length ms]"
      by (simp_all add: map_outs_def holes_snoc)
    then show ?thesis using snoc.IH [OF ids(2)] old len
      by (simp add: ids(1) subseq_rev_drop_many) (simp add: nth_append)
  next
    case (Some f)
    then obtain p where p: "fm_packet m = Some p" "pk_id p = k" using k by auto
    have "map_outs (ms @ [m]) = map_outs ms @ [(p, f, fm_tcp_flags m)]" "holes (ms @ [m]) = holes ms"
      by (simp_all add: map_outs_def holes_snoc Some p(1))
    then show ?thesis using snoc.IH [OF ids(2)] old p(2) by (simp add: ids(1) list_emb_append_mono)
  qed
qed (simp add: map_outs_def carries_def)

lemma length_map_outs: "length (map_outs ms) \<le> length ms"
  by (simp add: map_outs_def)

lemma carries_Cons:
  "carries ids (m # ms) \<Longrightarrow> \<exists>k ids'. carries ids' ms \<and> (fm_flow m \<noteq> None \<longrightarrow> (\<exists>p. fm_packet m = Some p \<and> pk_id p = k))"
proof -
  assume c: "carries ids (m # ms)"
  obtain k ids' where ids: "ids = k # ids'" using c by (cases ids) (auto simp: carries_def)
  have "carries ids' ms" using c unfolding carries_def ids by (auto dest!: spec [of _ "Suc _"])
  moreover have "fm_flow m \<noteq> None \<longrightarrow> (\<exists>p. fm_packet m = Some p \<and> pk_id p = k)"
    using c unfolding carries_def ids by (auto dest!: spec [of _ 0])
  ultimately show ?thesis by blast
qed

text \<open>Queueing the flow map.\<close>

lemma queue_flow_map_outs:
  assumes X: "batch_env_ok X" and "batched outs st" and "carries ids ms" and "length outs + length ms \<le> cap" and "cap \<le> 32"
  shows "\<exists>st'. queue_flow_map X cap ms st = Inr st' \<and> batched (outs @ map_outs ms) st'"
  using assms(2-4)
proof (induction ms arbitrary: outs st ids)
  case (Cons m ms)
  obtain k ids' where ids': "carries ids' ms" and m: "fm_flow m \<noteq> None \<longrightarrow> (\<exists>p. fm_packet m = Some p \<and> pk_id p = k)"
    using carries_Cons [OF Cons.prems(2)] by blast
  show ?case
  proof (cases "fm_flow m")
    case None
    then show ?thesis using Cons.IH [OF Cons.prems(1) ids'] Cons.prems(3) by (simp add: map_outs_def)
  next
    case (Some f)
    then obtain p where p: "fm_packet m = Some p" using m by auto
    obtain st' where st': "dp_netdev_queue_batches X cap p f (fm_tcp_flags m) st = Inr st'"
      "batched (outs @ [(p, f, fm_tcp_flags m)]) st'"
      using queue_snoc [OF X Cons.prems(1) _ assms(5)] Cons.prems(3) by fastforce
    then show ?thesis using Cons.IH [OF st'(2) ids'] Cons.prems(3) Some p by (simp add: map_outs_def)
  qed
qed (simp add: map_outs_def)

end
