(* ===== verification/Dpif_Fast_Laws.thy ===== *)
theory Dpif_Fast_Laws
  imports Dpif_Batch_Laws
begin

text \<open>
  Laws of the fast path: what the loops over the packets of a batch keep.  A packet is batched,
  has a place in the flow map, or is gone; the packets that are kept for the next lookup are those
  whose places are empty, in their order.
\<close>

section \<open>The lookup in the exact match cache\<close>

text \<open>What the model relies on of the library: initialising metadata and hashing keep the packet.\<close>

definition packet_env_ok :: "'flow fast_env \<Rightarrow> bool" where
  "packet_env_ok X \<longleftrightarrow> batch_env_ok X \<and> (\<forall>p port. pk_id (fx_md_init X p port) = pk_id p) \<and>
     (\<forall>p key. pk_id (snd (fx_hash_orig_pkt X p key)) = pk_id p)"

lemma packet_env_okD:
  assumes "packet_env_ok X"
  shows "batch_env_ok X" and "pk_id (fx_md_init X p port) = pk_id p" and "pk_id (snd (fx_hash_orig_pkt X p key)) = pk_id p"
  using assms by (auto simp: packet_env_ok_def)

lemma rss_hash_id: "pk_id (snd (dpif_netdev_packet_get_rss_hash X p key)) = pk_id p"
  by (auto simp: dpif_netdev_packet_get_rss_hash_def Let_def split: option.splits)

text \<open>\<open>done\<close> lists the packets that have been processed, \<open>mids\<close> those of the places in the flow map.\<close>

definition dfc_rel :: "classified list \<Rightarrow> nat list \<Rightarrow> nat list \<Rightarrow> 'flow dfc_state \<Rightarrow> bool" where
  "dfc_rel outs mids processed st \<longleftrightarrow>
     batched outs (ds_batches st, fa_batch (ds_fast st)) \<and> carries mids (ds_flow_map st) \<and>
     holes (ds_flow_map st) = map unat (ds_index_map st) \<and>
     map pk_id (ds_packets st) = map (\<lambda>i. mids ! unat i) (ds_index_map st) \<and>
     length (ds_keys st) = length (ds_index_map st) \<and>
     (ds_batch_enable st \<longrightarrow> ds_flow_map st = []) \<and>
     mset processed = mset (map pk_id (ds_gone st)) + mset (out_ids outs) + mset mids \<and>
     subseq (out_ids outs @ mids) processed"

definition dfc_ok :: "'flow pmd_thread \<Rightarrow> nat list \<Rightarrow> 'flow dfc_state \<Rightarrow> bool" where
  "dfc_ok pmd processed st \<longleftrightarrow> fa_pmd (ds_fast st) = pmd \<and> (\<exists>outs mids. dfc_rel outs mids processed st)"

lemma dfc_relD:
  assumes "dfc_rel outs mids processed st"
  shows "batched outs (ds_batches st, fa_batch (ds_fast st))" and "carries mids (ds_flow_map st)"
    and "holes (ds_flow_map st) = map unat (ds_index_map st)"
    and "map pk_id (ds_packets st) = map (\<lambda>i. mids ! unat i) (ds_index_map st)"
    and "length (ds_keys st) = length (ds_index_map st)"
    and "ds_batch_enable st \<Longrightarrow> ds_flow_map st = []"
    and "mset processed = mset (map pk_id (ds_gone st)) + mset (out_ids outs) + mset mids"
    and "subseq (out_ids outs @ mids) processed"
    and "length mids = length (ds_flow_map st)" and "length outs + length mids \<le> length processed"
proof -
  show c: "carries mids (ds_flow_map st)" and m: "mset processed = mset (map pk_id (ds_gone st)) + mset (out_ids outs) + mset mids"
    using assms unfolding dfc_rel_def by blast+
  show "length mids = length (ds_flow_map st)" using c by (simp add: carries_def)
  have "length processed = length (ds_gone st) + length outs + length mids"
    using arg_cong [OF m, of size] by simp
  then show "length outs + length mids \<le> length processed" by simp
qed (use assms in \<open>unfold dfc_rel_def, blast+\<close>)

lemma dfc_ok_counters [simp]:
  "dfc_ok pmd processed (st\<lparr>ds_n_phwol_hit := n\<rparr>) = dfc_ok pmd processed st"
  "dfc_ok pmd processed (st\<lparr>ds_n_simple_hit := n\<rparr>) = dfc_ok pmd processed st"
  "dfc_ok pmd processed (st\<lparr>ds_n_emc_hit := n\<rparr>) = dfc_ok pmd processed st"
  by (simp_all add: dfc_ok_def dfc_rel_def)

lemma dfc_ok_fast:
  assumes "dfc_ok pmd processed st" and "fa_pmd s = fa_pmd (ds_fast st)" and "fa_batch s = fa_batch (ds_fast st)"
  shows "dfc_ok pmd processed (st\<lparr>ds_fast := s\<rparr>)"
  using assms by (simp add: dfc_ok_def dfc_rel_def)

lemma subseq_snoc: "subseq xs ys \<Longrightarrow> subseq (xs @ [z]) (ys @ [z])"
  by (rule list_emb_append_mono) simp_all

text \<open>A packet that is freed.\<close>

lemma dfc_drop:
  assumes "dfc_ok pmd processed st"
  shows "dfc_ok pmd (processed @ [pk_id p]) (st\<lparr>ds_gone := ds_gone st @ [p]\<rparr>)"
proof -
  obtain outs mids where r: "dfc_rel outs mids processed st" using assms by (auto simp: dfc_ok_def)
  have "dfc_rel outs mids (processed @ [pk_id p]) (st\<lparr>ds_gone := ds_gone st @ [p]\<rparr>)"
    using dfc_relD [OF r] by (simp add: dfc_rel_def subseq_rev_drop_many)
  then show ?thesis using assms by (auto simp: dfc_ok_def)
qed

text \<open>A packet whose flow is known.\<close>

lemma dfc_enqueue:
  assumes X: "packet_env_ok X" and ok: "dfc_ok pmd processed st" and len: "length processed < cap" "cap \<le> 32"
  shows "\<exists>st'. dfc_processing_enqueue_classified_packet X cap p f t st = Inr st' \<and> dfc_ok pmd (processed @ [pk_id p]) st'"
proof -
  obtain outs mids where r: "dfc_rel outs mids processed st" and pmd: "fa_pmd (ds_fast st) = pmd"
    using ok by (auto simp: dfc_ok_def)
  note D = dfc_relD [OF r]
  show ?thesis
  proof (cases "ds_batch_enable st")
    case True
    then have m: "ds_flow_map st = []" "mids = []" using D(6,9) by simp_all
    have "length outs < cap" using D(10) len(1) by simp
    then obtain batches ptrs where q: "dp_netdev_queue_batches X cap p f t (ds_batches st, fa_batch (ds_fast st)) = Inr (batches, ptrs)"
      "batched (outs @ [(p, f, t)]) (batches, ptrs)"
      using queue_snoc [OF packet_env_okD(1) [OF X] D(1) _ len(2)] by (metis surj_pair)
    define st' where "st' = st\<lparr>ds_batches := batches, ds_fast := (ds_fast st)\<lparr>fa_batch := ptrs\<rparr>\<rparr>"
    have "dfc_rel (outs @ [(p, f, t)]) mids (processed @ [pk_id p]) st'"
      using D(2-5,7,8) q(2) m by (simp add: dfc_rel_def st'_def subseq_snoc)
    then have "dfc_ok pmd (processed @ [pk_id p]) st'" using pmd by (auto simp: dfc_ok_def st'_def)
    then show ?thesis using True q(1) by (simp add: dfc_processing_enqueue_classified_packet_def st'_def)
  next
    case False
    define m where "m = \<lparr>fm_packet = Some p, fm_flow = Some f, fm_tcp_flags = t\<rparr>"
    define st' where "st' = st\<lparr>ds_flow_map := ds_flow_map st @ [m]\<rparr>"
    have "map_put cap (ds_flow_map st) (length (ds_flow_map st)) m = Inr (ds_flow_map st @ [m])"
      using D(9,10) len(1) by (simp add: map_put_def)
    then have e: "dfc_processing_enqueue_classified_packet X cap p f t st = Inr st'"
      using False by (simp add: dfc_processing_enqueue_classified_packet_def packet_enqueue_to_flow_map_def m_def st'_def)
    have "carries (mids @ [pk_id p]) (ds_flow_map st @ [m])" by (rule carries_snoc [OF D(2)]) (simp add: m_def)
    moreover have "map pk_id (ds_packets st) = map (\<lambda>i. (mids @ [pk_id p]) ! unat i) (ds_index_map st)"
    proof -
      have "unat i < length mids" if "i \<in> set (ds_index_map st)" for i
        using that holes_less [of "unat i" "ds_flow_map st"] D(3,9) by simp
      then show ?thesis unfolding D(4) by (auto simp: nth_append)
    qed
    moreover have "subseq (out_ids outs @ mids @ [pk_id p]) (processed @ [pk_id p])" using subseq_snoc [OF D(8)] by simp
    ultimately have "dfc_rel outs (mids @ [pk_id p]) (processed @ [pk_id p]) st'"
      using D(1,3,5,7) False by (simp add: dfc_rel_def st'_def holes_snoc m_def)
    then have "dfc_ok pmd (processed @ [pk_id p]) st'" using pmd by (auto simp: dfc_ok_def st'_def)
    then show ?thesis using e by blast
  qed
qed

text \<open>A packet that is kept for the next lookup.\<close>

lemma dfc_missed:
  assumes X: "packet_env_ok X" and ok: "dfc_ok pmd processed st" and len: "length processed < cap" "cap \<le> 32"
  shows "\<exists>st'. dfc_miss X cap (length processed) p key st = Inr st' \<and> dfc_ok pmd (processed @ [pk_id p]) st'"
proof -
  obtain outs mids where r: "dfc_rel outs mids processed st" and pmd: "fa_pmd (ds_fast st) = pmd"
    using ok by (auto simp: dfc_ok_def)
  note D = dfc_relD [OF r]
  let ?n = "length (ds_flow_map st)"
  define m where "m = \<lparr>fm_packet = None, fm_flow = None, fm_tcp_flags = 0\<rparr>"
  have n: "?n < cap" "?n \<le> length processed" using D(9,10) len(1) by simp_all
  have in_map: "unat i < length mids" if "i \<in> set (ds_index_map st)" for i
    using that holes_less [of "unat i" "ds_flow_map st"] D(3,9) by simp
  have "length (ds_packets st) = length (holes (ds_flow_map st))" using arg_cong [OF D(4), of length] D(3) by simp
  also have "\<dots> \<le> ?n" by (rule length_holes)
  finally have refill: "fx_batch_refill X (ds_packets st) p (length processed) = ds_packets st @ [p]"
    using n len by (intro batch_env_okD(2) [OF packet_env_okD(1) [OF X]]) simp_all
  define st' where "st' = st\<lparr>ds_packets := ds_packets st @ [p], ds_index_map := ds_index_map st @ [of_nat ?n],
    ds_flow_map := ds_flow_map st @ [m], ds_keys := ds_keys st @ [key], ds_batch_enable := False\<rparr>"
  have e: "dfc_miss X cap (length processed) p key st = Inr st'"
    using n refill by (simp add: dfc_miss_def map_put_def m_def st'_def)
  have "carries (mids @ [pk_id p]) (ds_flow_map st @ [m])" by (rule carries_snoc [OF D(2)]) (simp add: m_def)
  moreover have n8: "unat (of_nat ?n :: u8) = ?n" using n len by (simp add: unat_of_nat)
  moreover have "map pk_id (ds_packets st @ [p]) = map (\<lambda>i. (mids @ [pk_id p]) ! unat i) (ds_index_map st @ [of_nat ?n])"
    using D(4) in_map n8 D(9) by (auto simp: nth_append)
  moreover have "subseq (out_ids outs @ mids @ [pk_id p]) (processed @ [pk_id p])" using subseq_snoc [OF D(8)] by simp
  ultimately have "dfc_rel outs (mids @ [pk_id p]) (processed @ [pk_id p]) st'"
    using D(1,3,5,7) by (simp add: dfc_rel_def st'_def holes_snoc m_def)
  then have "dfc_ok pmd (processed @ [pk_id p]) st'" using pmd by (auto simp: dfc_ok_def st'_def)
  then show ?thesis using e by blast
qed

text \<open>One turn and the whole loop.\<close>

lemma dfc_emc_ok:
  assumes X: "packet_env_ok X" and ok: "dfc_ok pmd processed st" and len: "length processed < cap" "cap \<le> 32"
  shows "\<exists>st'. dfc_emc X md cur_min cap (length processed) p st = Inr st' \<and> dfc_ok pmd (processed @ [pk_id p]) st'"
proof -
  obtain fmap vals where ex: "fx_extract X p = (fmap, vals)" by fastforce
  define key where "key = \<lparr>nk_hash = 0, nk_len = 0, nk_map = fmap, nk_buf = vals\<rparr>"
  obtain hash q where hq: "(if \<not> md then fx_hash_orig_pkt X p key else dpif_netdev_packet_get_rss_hash X p key) = (hash, q)"
    by fastforce
  then have q: "pk_id q = pk_id p"
    using packet_env_okD(3) [OF X, of p key] rss_hash_id [of X p key] by (metis snd_conv)
  define key' where "key' = key\<lparr>nk_hash := hash\<rparr>"
  define hit where "hit = (if cur_min \<noteq> 0 then fx_emc_lookup X (dc_emc (pm_dfc (fa_pmd (ds_fast st)))) key' else None)"
  have "dfc_emc X md cur_min cap (length processed) p st =
      (case hit of
         Some flow \<Rightarrow> dfc_processing_enqueue_classified_packet X cap q flow (fx_key_tcp_flags X key')
           (st\<lparr>ds_n_emc_hit := ds_n_emc_hit st + 1\<rparr>)
       | None \<Rightarrow> dfc_miss X cap (length processed) q key' st)"
    unfolding dfc_emc_def ex Let_def prod.case key_def [symmetric] hq key'_def [symmetric] hit_def [symmetric] ..
  then show ?thesis
    using dfc_enqueue [OF X _ len, of pmd "st\<lparr>ds_n_emc_hit := ds_n_emc_hit st + 1\<rparr>" q] dfc_missed [OF X ok len, of q key'] ok q
    by (cases hit) simp_all
qed

lemma dfc_simple_ok:
  assumes X: "packet_env_ok X" and ok: "dfc_ok pmd processed st" and len: "length processed < cap" "cap \<le> 32"
  shows "\<exists>st'. dfc_simple X md port enabled cur_min cap (length processed) p st = Inr st' \<and> dfc_ok pmd (processed @ [pk_id p]) st'"
proof (cases enabled)
  case True
  obtain t d fr v where pt: "fx_parse_tcp_flags X p = (t, d, fr, v)" by (metis surj_pair)
  show ?thesis
    using dfc_enqueue [OF X _ len, of pmd "st\<lparr>ds_n_simple_hit := ds_n_simple_hit st + 1\<rparr>" p] dfc_emc_ok [OF assms, of md cur_min p] ok
    by (cases "dp_netdev_simple_match_lookup (fx_sys X) (fa_pmd (ds_fast st)) port d fr v")
      (simp_all add: dfc_simple_def True pt)
qed (use dfc_emc_ok [OF assms] in \<open>simp add: dfc_simple_def\<close>)

lemma hw_flow_frame:
  assumes "dp_netdev_hw_flow X s p = (err, flow, s')"
  shows "fa_pmd s' = fa_pmd s" and "fa_batch s' = fa_batch s"
  using assms by (auto simp: dp_netdev_hw_flow_def Let_def split: if_splits)

lemma dfc_step_ok:
  assumes X: "packet_env_ok X" and ok: "dfc_ok pmd processed st" and len: "length processed < cap" "cap \<le> 32"
  shows "\<exists>st'. dfc_step X md port enabled cur_min cap (length processed) p st = Inr st' \<and> dfc_ok pmd (processed @ [pk_id p]) st'"
proof (cases "pk_size p < ETH_HEADER_LEN")
  case True
  then show ?thesis using dfc_drop [OF ok] by (simp add: dfc_step_def)
next
  case size: False
  define q where "q = (if \<not> md then fx_md_init X p port else p)"
  have q: "pk_id q = pk_id p" using packet_env_okD(2) [OF X] by (simp add: q_def)
  show ?thesis
  proof (cases "sy_flow_api (fx_sys X) \<and> fx_recirc_depth X = 0")
    case False
    then show ?thesis using size dfc_simple_ok [OF assms, of md port enabled cur_min q] q
      unfolding dfc_step_def Let_def q_def [symmetric] if_not_P [OF False] by simp
  next
    case True
    obtain err flow s where hw: "dp_netdev_hw_flow X (ds_fast st) q = (err, flow, s)" by (metis surj_pair)
    have ok': "dfc_ok pmd processed (st\<lparr>ds_fast := s\<rparr>)" using dfc_ok_fast [OF ok] hw_flow_frame [OF hw] by simp
    have step: "dfc_step X md port enabled cur_min cap (length processed) p st =
        (if err \<noteq> 0 then Inr (st\<lparr>ds_fast := s, ds_gone := ds_gone st @ [q]\<rparr>)
         else case flow of
           Some flow \<Rightarrow> dfc_processing_enqueue_classified_packet X cap q flow (fst (fx_parse_tcp_flags X q))
             (st\<lparr>ds_fast := s, ds_n_phwol_hit := ds_n_phwol_hit st + 1\<rparr>)
         | None \<Rightarrow> dfc_simple X md port enabled cur_min cap (length processed) q (st\<lparr>ds_fast := s\<rparr>))"
      using size True hw unfolding dfc_step_def Let_def q_def [symmetric] by (cases flow) simp_all
    show ?thesis unfolding step
      using dfc_drop [OF ok', of q] dfc_simple_ok [OF X ok' len, of md port enabled cur_min q] q ok'
        dfc_enqueue [OF X _ len, of pmd "st\<lparr>ds_fast := s, ds_n_phwol_hit := ds_n_phwol_hit st + 1\<rparr>" q]
      by (cases flow) simp_all
  qed
qed

lemma dfc_loop_ok:
  assumes X: "packet_env_ok X" and "dfc_ok pmd processed st" and "length processed + length ps \<le> cap" and cap: "cap \<le> 32"
  shows "\<exists>st'. dfc_loop X md port enabled cur_min cap (length processed) ps st = Inr st' \<and> dfc_ok pmd (processed @ map pk_id ps) st'"
  using assms(2,3)
proof (induction ps arbitrary: processed st)
  case (Cons p ps)
  have "length processed < cap" using Cons.prems(2) by simp
  then obtain st1 where st1: "dfc_step X md port enabled cur_min cap (length processed) p st = Inr st1"
    "dfc_ok pmd (processed @ [pk_id p]) st1"
    using dfc_step_ok [OF X Cons.prems(1) _ cap] by blast
  show ?case using Cons.IH [OF st1(2)] Cons.prems(2) st1(1) by simp
qed simp

end
