(* ===== verification/Dpif_Fast_Loops.thy ===== *)
theory Dpif_Fast_Loops
  imports Dpif_Fast_Laws
begin

text \<open>
  The fast path over the interface of what it calls: the caches, the classifier, the flow table
  and the upcall keep an invariant of the thread and return.  Over this interface (locale
  \<open>fast_path\<close>) every batch of at most 32 packets is processed, each packet is executed or gone,
  and the packets of a flow keep their order.
\<close>

section \<open>Lists of rules\<close>

lemma drop_loop_snoc:
  "length rs = length ps \<Longrightarrow> drop_loop (rs @ [r]) (ps @ [p]) = drop_loop rs ps @ (if r = None then [p] else [])"
proof (induction rs ps rule: list_induct2)
  case Nil
  then show ?case by (cases r) simp_all
next
  case (Cons x xs y ys)
  then show ?case by (cases x) simp_all
qed

lemma drop_loop_found: "None \<notin> set rs \<Longrightarrow> drop_loop rs ps = []"
proof (induction rs arbitrary: ps)
  case (Cons r rs)
  then show ?case by (cases r; cases ps) simp_all
qed simp

section \<open>The interface\<close>

locale fast_path =
  fixes env_ok :: "'flow fast_env \<Rightarrow> bool" and thread_ok :: "'flow fast_env \<Rightarrow> 'flow pmd_thread \<Rightarrow> bool"
  assumes packets: "env_ok X \<Longrightarrow> packet_env_ok X"
    and smc_lookup: "env_ok X \<Longrightarrow> thread_ok X pmd \<Longrightarrow>
      \<exists>hit. smc_lookup_single (sy_dfc (fx_sys X)) (pm_dfc pmd) port key = Inr hit"
    and emc_insert: "env_ok X \<Longrightarrow> thread_ok X pmd \<Longrightarrow>
      \<exists>dfc. emc_probabilistic_insert (sy_dfc (fx_sys X)) (pm_dfc pmd) key f = Inr dfc \<and> thread_ok X (pmd\<lparr>pm_dfc := dfc\<rparr>)"
    and smc_insert: "env_ok X \<Longrightarrow> thread_ok X pmd \<Longrightarrow>
      \<exists>dfc. smc_insert (sy_dfc (fx_sys X)) (pm_dfc pmd) key hash = Inr dfc \<and> thread_ok X (pmd\<lparr>pm_dfc := dfc\<rparr>)"
    and lookup_flow: "env_ok X \<Longrightarrow> thread_ok X pmd \<Longrightarrow>
      \<exists>rule num classifiers. dp_netdev_pmd_lookup_flow (sy_cls (fx_sys X)) (pm_classifiers pmd) port key =
        Inr (rule, num, classifiers) \<and> (rule \<noteq> None \<longrightarrow> num \<noteq> None) \<and> thread_ok X (pmd\<lparr>pm_classifiers := classifiers\<rparr>)"
    and classify: "env_ok X \<Longrightarrow> thread_ok X (fa_pmd s) \<Longrightarrow> keys \<noteq> [] \<Longrightarrow> length keys \<le> 32 \<Longrightarrow>
      \<exists>miss rules num s'. classify_batch X s keys port = Inr (miss, rules, num, s') \<and> length rules = length keys \<and>
        (miss \<or> None \<notin> set rules) \<and> thread_ok X (fa_pmd s') \<and> fa_batch s' = fa_batch s"
    and upcall: "env_ok X \<Longrightarrow> thread_ok X (fa_pmd s) \<Longrightarrow>
      \<exists>err s'. handle_packet_upcall X s p key = Inr (err, s') \<and> thread_ok X (fa_pmd s') \<and> fa_batch s' = fa_batch s"
begin

section \<open>The lookup in the signature match cache\<close>

text \<open>\<open>rest\<close> are the places of the packets that are still to be looked up.\<close>

definition smc_rel :: "'flow fast_env \<Rightarrow> (nat \<Rightarrow> nat option) \<Rightarrow> nat list \<Rightarrow> u8 list \<Rightarrow> 'flow smc_state \<Rightarrow> bool" where
  "smc_rel X ptrs mids rest st \<longleftrightarrow>
     holes (ss_flow_map st) = map unat (ss_index_map st) @ map unat rest \<and> carries mids (ss_flow_map st) \<and>
     map pk_id (ss_packets st) = map (\<lambda>i. mids ! unat i) (ss_index_map st) \<and>
     length (ss_keys st) = length (ss_index_map st) \<and> thread_ok X (fa_pmd (ss_fast st)) \<and> fa_batch (ss_fast st) = ptrs"

lemma smc_step_ok:
  assumes X: "env_ok X" and r: "smc_rel X ptrs mids (idx # rest) st" and p: "pk_id p = mids ! unat idx"
    and i: "length (ss_packets st) \<le> i" "i < 32"
  shows "\<exists>st'. smc_step X cap i p key idx st = Inr st' \<and> smc_rel X ptrs mids rest st' \<and> length (ss_packets st') \<le> Suc i"
proof -
  let ?V = "sy_dfc (fx_sys X)" and ?pmd = "fa_pmd (ss_fast st)"
  have H: "holes (ss_flow_map st) = map unat (ss_index_map st) @ unat idx # map unat rest" "thread_ok X ?pmd"
    using r by (simp_all add: smc_rel_def)
  have less: "unat idx < length (ss_flow_map st)" using holes_less [of "unat idx" "ss_flow_map st"] H(1) by simp
  obtain hit where hit: "smc_lookup_single ?V (pm_dfc ?pmd) (pk_in_port p) key = Inr hit" using smc_lookup [OF X H(2)] by blast
  obtain node where node: "smc_entry_get ?V (pm_dfc ?pmd) (nk_hash key) = Inr node"
    "(case node of None \<Rightarrow> Inr None | Some fs \<Rightarrow> smc_match ?V (pm_dfc ?pmd) (pk_in_port p) key fs) = Inr hit"
    using hit unfolding smc_lookup_single_def by (auto simp: fault_simps)
  show ?thesis
  proof (cases hit)
    case None
    define st' where "st' = st\<lparr>ss_packets := ss_packets st @ [p], ss_keys := ss_keys st @ [key], ss_index_map := ss_index_map st @ [idx]\<rparr>"
    have "smc_step X cap i p key idx st = Inr st'"
      using node None batch_env_okD(2) [OF packet_env_okD(1) [OF packets [OF X]] i] by (simp add: smc_step_def st'_def Let_def)
    moreover have "smc_rel X ptrs mids rest st'" using r p by (simp add: smc_rel_def st'_def)
    ultimately show ?thesis using i by (auto simp: st'_def)
  next
    case (Some f)
    obtain dfc where dfc: "emc_probabilistic_insert ?V (pm_dfc ?pmd) (set_key_len X key) f = Inr dfc" "thread_ok X (?pmd\<lparr>pm_dfc := dfc\<rparr>)"
      using emc_insert [OF X H(2)] by blast
    define m where "m = \<lparr>fm_packet = Some p, fm_flow = Some f, fm_tcp_flags = fx_key_tcp_flags X key\<rparr>"
    define st' where "st' = st\<lparr>ss_fast := set_dfc (ss_fast st) dfc, ss_flow_map := (ss_flow_map st)[unat idx := m],
      ss_n_smc_hit := ss_n_smc_hit st + 1\<rparr>"
    have "smc_step X cap i p key idx st = Inr st'"
      using node Some dfc(1) less by (simp add: smc_step_def st'_def Let_def packet_enqueue_to_flow_map_def map_put_def m_def)
    moreover have "holes ((ss_flow_map st)[unat idx := m]) = map unat (ss_index_map st) @ map unat rest"
      by (rule holes_fill [OF H(1)]) (simp add: m_def)
    moreover have "carries mids ((ss_flow_map st)[unat idx := m])"
      unfolding m_def using r less p by (intro carries_fill) (simp_all add: smc_rel_def)
    ultimately have "smc_step X cap i p key idx st = Inr st'" "smc_rel X ptrs mids rest st'"
      using r dfc(2) by (simp_all add: smc_rel_def st'_def set_dfc_def)
    then show ?thesis using i by (auto simp: st'_def)
  qed
qed

lemma smc_loop_ok:
  assumes X: "env_ok X" and "smc_rel X ptrs mids idxs st" and "map pk_id ps = map (\<lambda>i. mids ! unat i) idxs" and "length ks = length idxs"
    and "length (ss_packets st) \<le> i" and "i + length ps \<le> 32"
  shows "\<exists>st'. smc_loop X cap i (zip ps (zip ks idxs)) st = Inr st' \<and> smc_rel X ptrs mids [] st'"
  using assms(2-)
proof (induction ps arbitrary: i ks idxs st)
  case Nil
  then show ?case by (cases idxs) simp_all
next
  case (Cons p ps)
  obtain idx rest k ks' where l: "idxs = idx # rest" "ks = k # ks'"
    using Cons.prems(2,3) by (cases idxs; cases ks) simp_all
  obtain st1 where st1: "smc_step X cap i p k idx st = Inr st1" "smc_rel X ptrs mids rest st1" "length (ss_packets st1) \<le> Suc i"
    using smc_step_ok [OF X, of ptrs mids idx rest st p i cap k] Cons.prems l by auto
  show ?case using Cons.IH [OF st1(2) _ _ st1(3), of ks'] Cons.prems st1(1) by (simp add: l)
qed

text \<open>What the caches have done: the packets that are left, their keys and their places.\<close>

definition cached :: "'flow fast_env \<Rightarrow> classified list \<Rightarrow> nat list \<Rightarrow> dp_packet list \<Rightarrow> 'flow dfc_state \<Rightarrow> bool" where
  "cached X outs mids packets st \<longleftrightarrow> dfc_rel outs mids (map pk_id packets) (st\<lparr>ds_batch_enable := False\<rparr>) \<and> thread_ok X (fa_pmd (ds_fast st))"

lemma dfc_counters_frame:
  "fa_pmd (ds_fast (dfc_counters st)) = fa_pmd (ds_fast st)" "fa_batch (ds_fast (dfc_counters st)) = fa_batch (ds_fast st)"
  "\<exists>s. dfc_counters st = st\<lparr>ds_fast := s\<rparr>"
  by (simp_all add: dfc_counters_def pmd_perf_update_counter_def) blast

lemma smc_lookup_batch_ok:
  assumes X: "env_ok X" and c: "cached X outs mids packets st" and len: "length packets \<le> 32"
  shows "\<exists>st'. smc_lookup_batch X cap st = Inr st' \<and> cached X outs mids packets st' \<and> ds_gone st' = ds_gone st"
proof -
  have r: "dfc_rel outs mids (map pk_id packets) (st\<lparr>ds_batch_enable := False\<rparr>)" and t: "thread_ok X (fa_pmd (ds_fast st))"
    using c by (simp_all add: cached_def)
  note D = dfc_relD [OF r, simplified]
  let ?st = "\<lparr>ss_fast = ds_fast st, ss_packets = [], ss_keys = [], ss_index_map = [], ss_flow_map = ds_flow_map st, ss_n_smc_hit = 0\<rparr>"
  have "smc_rel X (fa_batch (ds_fast st)) mids (ds_index_map st) ?st" using D t by (simp add: smc_rel_def)
  moreover have "length (ds_packets st) \<le> 32"
  proof -
    have "length (ds_packets st) = length (holes (ds_flow_map st))" using arg_cong [OF D(4), of length] D(3) by simp
    also have "\<dots> \<le> length mids" using D(9) length_holes [of "ds_flow_map st"] by simp
    finally show ?thesis using D(10) len by simp
  qed
  ultimately obtain st1 where st1: "smc_loop X cap 0 (zip (ds_packets st) (zip (ds_keys st) (ds_index_map st))) ?st = Inr st1"
    "smc_rel X (fa_batch (ds_fast st)) mids [] st1"
    using smc_loop_ok [OF X _ D(4) D(5), of "fa_batch (ds_fast st)" ?st 0 cap] by auto
  then show ?thesis using D(1,7,8)
    by (simp add: smc_lookup_batch_def cached_def dfc_rel_def smc_rel_def pmd_perf_update_counter_def)
qed

lemma dfc_processing_ok:
  assumes X: "env_ok X" and t: "thread_ok X (fa_pmd s)" and b: "fa_batch s = (\<lambda>f. None)" and len: "length packets \<le> 32"
  shows "\<exists>st outs mids. dfc_processing X s packets md port = Inr st \<and> cached X outs mids packets st"
proof -
  let ?cap = "length packets"
  define en where "en \<longleftrightarrow> \<not> md \<and> dp_netdev_simple_match_enabled (fa_pmd s) port"
  define mn where "mn = (if en then 0 else dc_emc_insert_min (pm_dfc (fa_pmd s)))"
  define s1 where "s1 = pmd_perf_update_counter (if md then PMD_STAT_RECIRC else PMD_STAT_RECV) ?cap s"
  define st0 where "st0 = \<lparr>ds_fast = s1, ds_packets = [], ds_keys = [], ds_index_map = [], ds_batches = [], ds_flow_map = [],
    ds_batch_enable = True, ds_n_phwol_hit = 0, ds_n_simple_hit = 0, ds_n_emc_hit = 0, ds_gone = []\<rparr>"
  have "dfc_rel [] [] [] st0"
    using b batched_Nil carries_Nil by (simp add: dfc_rel_def st0_def s1_def pmd_perf_update_counter_def)
  moreover have "fa_pmd (ds_fast st0) = fa_pmd s" by (simp add: st0_def s1_def pmd_perf_update_counter_def)
  ultimately have ok0: "dfc_ok (fa_pmd s) [] st0" unfolding dfc_ok_def by blast
  obtain st1 where st1: "dfc_loop X md port en mn ?cap 0 packets st0 = Inr st1" "dfc_ok (fa_pmd s) (map pk_id packets) st1"
    using dfc_loop_ok [OF packets [OF X] ok0, of packets ?cap md port en mn] len by auto
  obtain outs mids where r: "dfc_rel outs mids (map pk_id packets) st1" and pmd: "fa_pmd (ds_fast st1) = fa_pmd s"
    using st1(2) by (auto simp: dfc_ok_def)
  have c: "cached X outs mids packets (dfc_counters st1)"
    using r t pmd by (simp add: cached_def dfc_rel_def dfc_counters_def pmd_perf_update_counter_def)
  have p: "dfc_processing X s packets md port =
      (if \<not> (\<not> en \<and> dc_smc_enable_db (pm_dfc (fa_pmd s))) then Inr (dfc_counters st1) else smc_lookup_batch X ?cap (dfc_counters st1))"
    unfolding dfc_processing_def Let_def en_def [symmetric] mn_def [symmetric] s1_def [symmetric] st0_def [symmetric] st1(1)
    by simp
  show ?thesis
  proof (cases "\<not> en \<and> dc_smc_enable_db (pm_dfc (fa_pmd s))")
    case True
    then show ?thesis using smc_lookup_batch_ok [OF X c len, of ?cap] p by auto
  next
    case False
    then show ?thesis using p c by auto
  qed
qed

section \<open>The classifier and upcalls\<close>

lemma miss_step_ok:
  assumes X: "env_ok X" and t: "thread_ok X (fa_pmd (ms_fast st))" and i: "i < length (ms_rules st)"
  shows "\<exists>st'. miss_step X i p key st = Inr st' \<and> thread_ok X (fa_pmd (ms_fast st')) \<and> fa_batch (ms_fast st') = fa_batch (ms_fast st) \<and>
    length (ms_rules st') = length (ms_rules st) \<and> take i (ms_rules st') = take i (ms_rules st) \<and>
    ms_gone st' = ms_gone st @ (if ms_rules st' ! i = None then [p] else [])"
proof (cases "ms_rules st ! i")
  case (Some r)
  then show ?thesis using i t by (simp add: miss_step_def)
next
  case None
  let ?s = "ms_fast st" and ?Y = "fx_sys X"
  obtain rule num cs where lf: "dp_netdev_pmd_lookup_flow (sy_cls ?Y) (pm_classifiers (fa_pmd ?s)) (ff_key_in_port ?Y key) key = Inr (rule, num, cs)"
    "rule \<noteq> None \<longrightarrow> num \<noteq> None" "thread_ok X ((fa_pmd ?s)\<lparr>pm_classifiers := cs\<rparr>)"
    using lookup_flow [OF X t] by blast
  define s1 where "s1 = ?s\<lparr>fa_pmd := (fa_pmd ?s)\<lparr>pm_classifiers := cs\<rparr>\<rparr>"
  have t1: "thread_ok X (fa_pmd s1)" "fa_batch s1 = fa_batch ?s" using lf(3) by (simp_all add: s1_def)
  show ?thesis
  proof (cases rule)
    case (Some r)
    then obtain n where "num = Some n" using lf(2) by auto
    then show ?thesis using i t1 None Some lf(1) by (simp add: miss_step_def s1_def Let_def)
  next
    case none: None
    obtain err s2 where up: "handle_packet_upcall X s1 p key = Inr (err, s2)" "thread_ok X (fa_pmd s2)" "fa_batch s2 = fa_batch s1"
      using upcall [OF X t1(1)] by blast
    have "miss_step X i p key st = Inr
        (let st = st\<lparr>ms_fast := s2, ms_gone := ms_gone st @ [p]\<rparr> in
         if err \<noteq> 0 then st\<lparr>ms_upcall_fail := ms_upcall_fail st + 1\<rparr> else st\<lparr>ms_upcall_ok := ms_upcall_ok st + 1\<rparr>)"
      using i None none lf(1) up(1) by (simp add: miss_step_def s1_def Let_def)
    then show ?thesis using up(2,3) t1(2) None by (simp add: Let_def)
  qed
qed

lemma miss_loop_ok:
  assumes X: "env_ok X" and "thread_ok X (fa_pmd (ms_fast st))" and "length ks = length ps" and "i + length ps = length (ms_rules st)"
    and "length qs = i" and "ms_gone st = drop_loop (take i (ms_rules st)) qs"
  shows "\<exists>st'. miss_loop X i (zip ps ks) st = Inr st' \<and> thread_ok X (fa_pmd (ms_fast st')) \<and>
    fa_batch (ms_fast st') = fa_batch (ms_fast st) \<and> length (ms_rules st') = length (ms_rules st) \<and>
    ms_gone st' = drop_loop (ms_rules st') (qs @ ps)"
  using assms(2-)
proof (induction ps arbitrary: i ks qs st)
  case (Cons p ps)
  obtain k ks' where ks: "ks = k # ks'" using Cons.prems(2) by (cases ks) simp_all
  have i: "i < length (ms_rules st)" using Cons.prems(3) by simp
  obtain st1 where st1: "miss_step X i p k st = Inr st1" "thread_ok X (fa_pmd (ms_fast st1))"
    "fa_batch (ms_fast st1) = fa_batch (ms_fast st)" "length (ms_rules st1) = length (ms_rules st)"
    "take i (ms_rules st1) = take i (ms_rules st)" "ms_gone st1 = ms_gone st @ (if ms_rules st1 ! i = None then [p] else [])"
    using miss_step_ok [OF X Cons.prems(1) i] by blast
  have "take (Suc i) (ms_rules st1) = take i (ms_rules st) @ [ms_rules st1 ! i]"
    using i st1(4,5) by (simp add: take_Suc_conv_app_nth)
  then have "ms_gone st1 = drop_loop (take (Suc i) (ms_rules st1)) (qs @ [p])"
    using st1(6) Cons.prems(4,5) i by (simp add: drop_loop_snoc)
  then show ?case using Cons.IH [OF st1(2), of ks' "Suc i" "qs @ [p]"] Cons.prems st1(1,3,4) by (simp add: ks)
qed simp

lemma rules_loop_ok:
  assumes X: "env_ok X" and "thread_ok X (fa_pmd s)" and "length ks = length ps" and "length rules = length ps"
    and "map pk_id ps = map (\<lambda>i. mids ! unat i) idxs" and "holes ms = A @ map unat idxs" and "carries mids ms"
  shows "\<exists>s' ms' H. rules_loop X cap (zip ps (zip ks idxs)) rules (s, ms) = Inr (s', ms') \<and> thread_ok X (fa_pmd s') \<and>
    fa_batch s' = fa_batch s \<and> carries mids ms' \<and> length ms' = length ms \<and> holes ms' = A @ H \<and>
    map pk_id (drop_loop rules ps) = map (\<lambda>i. mids ! i) H"
  using assms(2-)
proof (induction ps arbitrary: ks rules idxs s ms A)
  case Nil
  then show ?case by (cases idxs) auto
next
  case (Cons p ps)
  obtain k ks' where ks: "ks = k # ks'" using Cons.prems(2) by (cases ks) simp_all
  obtain r rs where rules: "rules = r # rs" using Cons.prems(3) by (cases rules) simp_all
  obtain idx rest where idxs: "idxs = idx # rest" using Cons.prems(4) by (cases idxs) simp_all
  have len: "length ks' = length ps" "length rs = length ps" "map pk_id ps = map (\<lambda>i. mids ! unat i) rest" "pk_id p = mids ! unat idx"
    using Cons.prems(2-4) by (simp_all add: ks rules idxs)
  have h: "holes ms = A @ unat idx # map unat rest" using Cons.prems(5) by (simp add: idxs)
  show ?case
  proof (cases r)
    case None
    have "holes ms = (A @ [unat idx]) @ map unat rest" using h by simp
    from Cons.IH [OF Cons.prems(1) len(1,2,3) this Cons.prems(6)] obtain s' ms' H where
      H: "rules_loop X cap (zip ps (zip ks' rest)) rs (s, ms) = Inr (s', ms')" "thread_ok X (fa_pmd s')" "fa_batch s' = fa_batch s"
        "carries mids ms'" "length ms' = length ms" "holes ms' = (A @ [unat idx]) @ H" "map pk_id (drop_loop rs ps) = map (\<lambda>i. mids ! i) H"
      by blast
    have "rules_loop X cap (zip (p # ps) (zip ks idxs)) rules (s, ms) = Inr (s', ms')" using H(1) by (simp add: ks rules idxs None)
    moreover have "holes ms' = A @ (unat idx # H)" using H(6) by simp
    moreover have "map pk_id (drop_loop rules (p # ps)) = map (\<lambda>i. mids ! i) (unat idx # H)"
      using H(7) len(4) by (simp add: rules None)
    ultimately show ?thesis using H(2-5) by blast
  next
    case (Some ru)
    let ?V = "sy_dfc (fx_sys X)" and ?pmd = "fa_pmd s" and ?f = "ru_id ru"
    have less: "unat idx < length ms" using holes_less [of "unat idx" ms] h by simp
    obtain d1 where d1: "smc_insert ?V (pm_dfc ?pmd) k (dp_netdev_flow_hash (fx_sys X) (fi_ufid (pm_info ?pmd ?f))) = Inr d1"
      "thread_ok X (?pmd\<lparr>pm_dfc := d1\<rparr>)" using smc_insert [OF X Cons.prems(1)] by blast
    obtain d2 where d2: "emc_probabilistic_insert ?V d1 k ?f = Inr d2" "thread_ok X (?pmd\<lparr>pm_dfc := d2\<rparr>)"
      using emc_insert [OF X d1(2), of k ?f] by auto
    define m where "m = \<lparr>fm_packet = Some p, fm_flow = Some ?f, fm_tcp_flags = fx_key_tcp_flags X k\<rparr>"
    have step: "rules_loop X cap (zip (p # ps) (zip ks idxs)) rules (s, ms) =
        rules_loop X cap (zip ps (zip ks' rest)) rs (set_dfc s d2, ms[unat idx := m])"
      using d1(1) d2(1) less by (simp add: ks rules idxs Some Let_def packet_enqueue_to_flow_map_def map_put_def m_def)
    have h': "holes (ms[unat idx := m]) = A @ map unat rest" by (rule holes_fill [OF h]) (simp add: m_def)
    have c': "carries mids (ms[unat idx := m])" unfolding m_def using Cons.prems(6) less len(4) by (rule carries_fill)
    have t': "thread_ok X (fa_pmd (set_dfc s d2))" "fa_batch (set_dfc s d2) = fa_batch s" using d2(2) by (simp_all add: set_dfc_def)
    show ?thesis unfolding step
      using Cons.IH [OF t'(1) len(1,2,3) h' c'] t'(2) by (auto simp: rules Some)
  qed
qed

lemma perf_frame [simp]:
  "fa_pmd (pmd_perf_update_counter c n s) = fa_pmd s" "fa_batch (pmd_perf_update_counter c n s) = fa_batch s"
  by (simp_all add: pmd_perf_update_counter_def)

lemma fast_path_processing_ok:
  assumes X: "env_ok X" and t: "thread_ok X (fa_pmd s)" and ps: "ps \<noteq> []" "length ps \<le> 32" and ks: "length ks = length ps"
    and ids: "map pk_id ps = map (\<lambda>i. mids ! unat i) idxs" and h: "holes ms = map unat idxs" and c: "carries mids ms"
  shows "\<exists>s' gone ms'. fast_path_processing X cap s ps ks ms idxs port = Inr (s', gone, ms') \<and> thread_ok X (fa_pmd s') \<and>
    fa_batch s' = fa_batch s \<and> carries mids ms' \<and> length ms' = length ms \<and> map pk_id gone = map (\<lambda>i. mids ! i) (holes ms')"
proof -
  let ?ks = "map (set_key_len X) ks"
  have nk: "?ks \<noteq> []" "length ?ks \<le> 32" using ps ks by auto
  obtain miss rules num s1 where cl: "classify_batch X s ?ks port = Inr (miss, rules, num, s1)" "length rules = length ?ks"
    "miss \<or> None \<notin> set rules" "thread_ok X (fa_pmd s1)" "fa_batch s1 = fa_batch s"
    using classify [OF X t nk] by blast
  define st0 where "st0 = \<lparr>ms_fast = s1, ms_rules = rules, ms_upcall_ok = 0, ms_upcall_fail = 0, ms_lookup_cnt = num, ms_gone = []\<rparr>"
  have "\<exists>st1. (if miss then
               if \<not> fx_trylock X s1 then miss_loop X 0 (zip ps ?ks) st0
               else let gone = drop_loop rules ps
                    in Inr (st0\<lparr>ms_gone := gone, ms_upcall_fail := length gone\<rparr>)
             else Inr st0) = Inr st1 \<and> thread_ok X (fa_pmd (ms_fast st1)) \<and> fa_batch (ms_fast st1) = fa_batch s \<and>
      length (ms_rules st1) = length ps \<and> ms_gone st1 = drop_loop (ms_rules st1) ps"
  proof (cases "miss \<and> \<not> fx_trylock X s1")
    case True
    then show ?thesis using miss_loop_ok [OF X, of st0 ?ks ps 0 "[]"] cl ks by (simp add: st0_def)
  next
    case False
    then show ?thesis using cl ks drop_loop_found [of rules ps] by (auto simp: st0_def Let_def)
  qed
  then obtain st1 where st1: "(if miss then
               if \<not> fx_trylock X s1 then miss_loop X 0 (zip ps ?ks) st0
               else let gone = drop_loop rules ps
                    in Inr (st0\<lparr>ms_gone := gone, ms_upcall_fail := length gone\<rparr>)
             else Inr st0) = Inr st1" "thread_ok X (fa_pmd (ms_fast st1))" "fa_batch (ms_fast st1) = fa_batch s"
      "length (ms_rules st1) = length ps" "ms_gone st1 = drop_loop (ms_rules st1) ps" by blast
  have h': "holes ms = [] @ map unat idxs" using h by simp
  obtain s2 ms' H where rl: "rules_loop X cap (zip ps (zip ?ks idxs)) (ms_rules st1) (ms_fast st1, ms) = Inr (s2, ms')"
    "thread_ok X (fa_pmd s2)" "fa_batch s2 = fa_batch (ms_fast st1)" "carries mids ms'" "length ms' = length ms" "holes ms' = [] @ H"
    "map pk_id (drop_loop (ms_rules st1) ps) = map (\<lambda>i. mids ! i) H"
    using rules_loop_ok [OF X st1(2) _ st1(4) ids h' c, of ?ks cap] ks by auto
  define s3 where "s3 = pmd_perf_update_counter PMD_STAT_LOST (ms_upcall_fail st1)
    (pmd_perf_update_counter PMD_STAT_MISS (ms_upcall_ok st1)
      (pmd_perf_update_counter PMD_STAT_MASKED_LOOKUP (unat (ms_lookup_cnt st1))
        (pmd_perf_update_counter PMD_STAT_MASKED_HIT (length ps - ms_upcall_ok st1 - ms_upcall_fail st1) s2)))"
  have "fast_path_processing X cap s ps ks ms idxs port = Inr (s3, ms_gone st1, ms')"
    unfolding fast_path_processing_def Let_def cl(1) bindr_Inr prod.case st0_def [symmetric] st1(1) [unfolded Let_def] rl(1) s3_def ..
  then show ?thesis using rl st1 by (simp add: s3_def)
qed

section \<open>A batch of packets\<close>

lemma input_batches_ok:
  assumes X: "env_ok X" and t: "thread_ok X (fa_pmd s)" and b: "fa_batch s = (\<lambda>f. None)" and len: "length packets \<le> 32"
  shows "\<exists>s' outs gone. input_batches X s packets md port = Inr (s', flow_groups outs, gone) \<and>
    thread_ok X (fa_pmd s') \<and> fa_batch s' = (\<lambda>f. None) \<and> subseq (out_ids outs) (map pk_id packets) \<and>
    mset (map pk_id packets) = mset (out_ids outs) + mset (map pk_id gone)"
proof -
  let ?cap = "length packets"
  obtain st outs mids where st: "dfc_processing X s packets md port = Inr st" "cached X outs mids packets st"
    using dfc_processing_ok [OF X t b len] by blast
  have r: "dfc_rel outs mids (map pk_id packets) (st\<lparr>ds_batch_enable := False\<rparr>)" and t1: "thread_ok X (fa_pmd (ds_fast st))"
    using st(2) by (simp_all add: cached_def)
  note D = dfc_relD [OF r, simplified]
  have np: "length (ds_packets st) = length (ds_index_map st)" using arg_cong [OF D(4), of length] by simp
  have "length (ds_index_map st) \<le> length mids"
    using D(9) length_holes [of "ds_flow_map st"] arg_cong [OF D(3), of length] by simp
  then have np32: "length (ds_packets st) \<le> 32" using D(10) len np by simp
  have "\<exists>s1 gone ms. (case ds_packets st of
               [] \<Rightarrow> Inr (ds_fast st, [], ds_flow_map st)
             | p # ps \<Rightarrow> fast_path_processing X ?cap (ds_fast st) (ds_packets st) (ds_keys st) (ds_flow_map st)
                          (ds_index_map st) (pk_in_port p)) = Inr (s1, gone, ms) \<and>
      thread_ok X (fa_pmd s1) \<and> fa_batch s1 = fa_batch (ds_fast st) \<and> carries mids ms \<and> length ms = length (ds_flow_map st) \<and>
      map pk_id gone = map (\<lambda>i. mids ! i) (holes ms)"
  proof (cases "ds_packets st")
    case Nil
    then show ?thesis using t1 D(2,3) np by simp
  next
    case (Cons p ps)
    then have "ds_packets st \<noteq> []" by simp
    from fast_path_processing_ok [OF X t1 this np32 _ D(4) D(3) D(2), of "ds_keys st" ?cap "pk_in_port p"] show ?thesis
      using D(5) np Cons by simp
  qed
  then obtain s1 gone ms where fp: "(case ds_packets st of
               [] \<Rightarrow> Inr (ds_fast st, [], ds_flow_map st)
             | p # ps \<Rightarrow> fast_path_processing X ?cap (ds_fast st) (ds_packets st) (ds_keys st) (ds_flow_map st)
                          (ds_index_map st) (pk_in_port p)) = Inr (s1, gone, ms)"
    "thread_ok X (fa_pmd s1)" "fa_batch s1 = fa_batch (ds_fast st)" "carries mids ms" "length ms = length (ds_flow_map st)"
    "map pk_id gone = map (\<lambda>i. mids ! i) (holes ms)" by blast
  have bt: "batched outs (ds_batches st, fa_batch s1)" using D(1) fp(3) by simp
  have "length outs + length ms \<le> ?cap" using D(9,10) fp(5) by simp
  then obtain batches ptrs where q: "queue_flow_map X ?cap ms (ds_batches st, fa_batch s1) = Inr (batches, ptrs)"
    "batched (outs @ map_outs ms) (batches, ptrs)"
    using queue_flow_map_outs [OF packet_env_okD(1) [OF packets [OF X]] bt fp(4) _ len] by (metis surj_pair)
  define s2 where "s2 = s1\<lparr>fa_batch := reset_batches batches ptrs\<rparr>"
  have "input_batches X s packets md port = Inr (s2, batches, ds_gone st @ gone)"
    unfolding input_batches_def Let_def st(1) bindr_Inr fp(1) prod.case q(1) s2_def ..
  moreover have "batches = flow_groups (outs @ map_outs ms)" using q(2) by (simp add: batched_def)
  moreover have "fa_batch s2 = (\<lambda>f. None)" using reset_batched [OF q(2)] by (simp add: s2_def)
  moreover have "thread_ok X (fa_pmd s2)" using fp(2) by (simp add: s2_def)
  moreover have "subseq (out_ids (outs @ map_outs ms)) (map pk_id packets)"
  proof -
    have "subseq (out_ids (outs @ map_outs ms)) (out_ids outs @ mids)"
      using carries_outs [OF fp(4)] by (simp add: list_emb_append_mono)
    then show ?thesis using D(8) by (rule subseq_order.trans)
  qed
  moreover have "mset (map pk_id packets) = mset (out_ids (outs @ map_outs ms)) + mset (map pk_id (ds_gone st @ gone))"
    using D(7) carries_outs [OF fp(4)] fp(6) by simp
  ultimately show ?thesis by blast
qed

end

end
