(* ===== verification/Dpif_Flow_Laws.thy ===== *)
theory Dpif_Flow_Laws
  imports Dpif_Flow Dpif_Cache_Laws Dpif_Dpcls_Rules
begin

text \<open>
  Laws of the flow table: the marks of simple matches are injective, which rules a classifier
  stores, and the invariant of a thread, which relates the flow table, the simple match table,
  the classifiers and the references to the flows.
\<close>

section \<open>The marks of simple matches\<close>

lemma htons_mask: "htons (VLAN_VID_MASK OR VLAN_CFI) = 0xff1f"
  by code_simp

lemma mask_bits16: "(0xff1f :: u16) = NOT (push_bit 5 (mask 3))"
  by (simp add: mask_eq_exp_minus_1)

lemma frag_bits: "(3 :: u8) = mask 2"
  by (simp add: mask_eq_exp_minus_1)

lemma bit_mark:
  assumes "n < 64"
  shows "bit (dp_netdev_simple_match_mark p d f v) n \<longleftrightarrow>
    (if 32 \<le> n then bit p (n - 32) else if 16 \<le> n then bit d (n - 16)
     else if n = 5 \<or> n = 6 then bit f (n - 5) else n \<noteq> 7 \<and> bit v n)"
proof -
  have "\<not> bit v n" if "16 \<le> n" using that bit_imp_le_length [of v n] by auto
  moreover have "\<not> bit d (n - 16)" if "32 \<le> n" using that bit_imp_le_length [of d "n - 16"] by auto
  ultimately show ?thesis using assms
    unfolding dp_netdev_simple_match_mark_def VLAN_PCP_SHIFT_def FLOW_NW_FRAG_MASK_def htons_mask mask_bits16 frag_bits
    by (auto simp: bit_simps)
qed

text \<open>The mark of a simple match determines the fields it is made of, and conversely.\<close>

lemma mark_eq_iff:
  "dp_netdev_simple_match_mark p d f v = dp_netdev_simple_match_mark p' d' f' v' \<longleftrightarrow>
    p = p' \<and> d = d' \<and> f AND FLOW_NW_FRAG_MASK = f' AND FLOW_NW_FRAG_MASK \<and>
    v AND htons (VLAN_VID_MASK OR VLAN_CFI) = v' AND htons (VLAN_VID_MASK OR VLAN_CFI)"
proof
  assume eq: "dp_netdev_simple_match_mark p d f v = dp_netdev_simple_match_mark p' d' f' v'"
  have b: "bit (dp_netdev_simple_match_mark p d f v) n = bit (dp_netdev_simple_match_mark p' d' f' v') n" for n
    by (simp add: eq)
  have "bit p n = bit p' n" if "n < 32" for n using b [of "n + 32"] that by (simp add: bit_mark)
  then have "p = p'" by (intro bit_word_eqI) simp
  moreover have "bit d n = bit d' n" if "n < 16" for n using b [of "n + 16"] that by (simp add: bit_mark)
  then have "d = d'" by (intro bit_word_eqI) simp
  moreover have "f AND FLOW_NW_FRAG_MASK = f' AND FLOW_NW_FRAG_MASK"
  proof (rule bit_word_eqI)
    fix n
    show "bit (f AND FLOW_NW_FRAG_MASK) n = bit (f' AND FLOW_NW_FRAG_MASK) n"
      using b [of 5] b [of 6]
      by (cases "n = 0"; cases "n = 1") (auto simp: bit_mark FLOW_NW_FRAG_MASK_def frag_bits bit_simps)
  qed
  moreover have "v AND htons (VLAN_VID_MASK OR VLAN_CFI) = v' AND htons (VLAN_VID_MASK OR VLAN_CFI)"
  proof (rule bit_word_eqI)
    fix n
    assume "n < LENGTH(16)"
    then show "bit (v AND htons (VLAN_VID_MASK OR VLAN_CFI)) n = bit (v' AND htons (VLAN_VID_MASK OR VLAN_CFI)) n"
      using b [of n] unfolding htons_mask mask_bits16 by (auto simp: bit_mark bit_simps split: if_splits)
  qed
  ultimately show "p = p' \<and> d = d' \<and> f AND FLOW_NW_FRAG_MASK = f' AND FLOW_NW_FRAG_MASK \<and>
    v AND htons (VLAN_VID_MASK OR VLAN_CFI) = v' AND htons (VLAN_VID_MASK OR VLAN_CFI)" by blast
next
  assume "p = p' \<and> d = d' \<and> f AND FLOW_NW_FRAG_MASK = f' AND FLOW_NW_FRAG_MASK \<and>
    v AND htons (VLAN_VID_MASK OR VLAN_CFI) = v' AND htons (VLAN_VID_MASK OR VLAN_CFI)"
  then show "dp_netdev_simple_match_mark p d f v = dp_netdev_simple_match_mark p' d' f' v'"
    by (simp add: dp_netdev_simple_match_mark_def)
qed

section \<open>Rules stored in a classifier\<close>

definition cls_stored :: "dpcls \<Rightarrow> dpcls_rule set" where
  "cls_stored cls = {r. \<exists>p st. cl_tables cls p = Some st \<and> r \<in> set (st_rules st)}"

lemma fst_cls_rules: "fst ` cls_rules E (cl_tables cls) = ru_id ` cls_stored cls"
  by (force simp: cls_rules_def cls_stored_def)

lemma cls_stored_init: "cls_stored (dpcls_init port) = {}"
  by (simp add: cls_stored_def dpcls_init_def)

lemma stored_tables:
  "cl_tables cls' = tables(p \<mapsto> st) \<Longrightarrow>
     cls_stored cls' = set (st_rules st) \<union> {r. \<exists>q s. q \<noteq> p \<and> tables q = Some s \<and> r \<in> set (st_rules s)}"
  by (auto simp: cls_stored_def split: if_splits)

lemma stored_split:
  "cl_tables cls p = Some st \<Longrightarrow>
     cls_stored cls = set (st_rules st) \<union> {r. \<exists>q s. q \<noteq> p \<and> cl_tables cls q = Some s \<and> r \<in> set (st_rules s)}"
  using stored_tables [of cls "cl_tables cls" p st] by (simp add: fun_upd_idem)

lemma insert_stored:
  assumes C: "cls_env_ok C" and ok: "cls_ok C cls" and ins: "dpcls_insert C cls rule msk = Inr (rule', cls')"
  shows "cls_stored cls' = insert rule' (cls_stored cls) \<and> (\<exists>p st. ru_mask rule' = Some p \<and> cl_tables cls' p = Some st)"
proof -
  obtain p cls1 where f: "dpcls_find_subtable C cls msk = Inr (p, cls1)"
    using ins by (auto simp: dpcls_insert_def fault_simps)
  then obtain st where st: "cl_tables cls1 p = Some st" and r: "rule' = rule\<lparr>ru_mask := Some p\<rparr>"
    and cls': "cl_tables cls' = (cl_tables cls1)(p \<mapsto> st\<lparr>st_rules := rule' # st_rules st\<rparr>)"
    using ins by (auto simp: dpcls_insert_def subtable_at_def Let_def split: option.splits)
  have "cls_stored cls1 = cls_stored cls"
  proof -
    obtain found where found: "find_subtable_loop (cl_tables cls) msk (cl_map cls) = Inr found"
      using f by (auto simp: dpcls_find_subtable_def fault_simps)
    show ?thesis
    proof (cases found)
      case (Some q)
      then show ?thesis using f found by (simp add: dpcls_find_subtable_def)
    next
      case None
      then have c: "dpcls_create_subtable C cls msk = Inr (p, cls1)" using f found by (simp add: dpcls_find_subtable_def)
      then have p: "p = ce_alloc C (map snd (cl_map cls))"
        by (auto simp: dpcls_create_subtable_def Let_def fault_simps)
      have "p \<notin> dom (cl_tables cls)" unfolding cls_okD(4) [OF ok] p by (rule cls_env_okD(3) [OF C])
      moreover obtain s where "cl_tables cls1 = (cl_tables cls)(p \<mapsto> s)" "st_rules s = []"
        using c by (auto simp: dpcls_create_subtable_def Let_def fault_simps)
      ultimately have "cls_stored cls1 = {r. \<exists>q s. q \<noteq> p \<and> cl_tables cls q = Some s \<and> r \<in> set (st_rules s)}"
        and "cl_tables cls p = None" using stored_tables [of cls1 "cl_tables cls" p s] by (simp_all add: dom_def)
      then show ?thesis by (simp add: cls_stored_def) (metis option.distinct(1))
    qed
  qed
  moreover have "cls_stored cls' = insert rule' (cls_stored cls1)"
    using stored_tables [OF cls'] stored_split [OF st] by simp
  moreover have "ru_mask rule' = Some p" by (simp add: r)
  moreover have "cl_tables cls' p \<noteq> None" by (simp add: cls')
  ultimately show ?thesis by auto
qed

lemma remove_stored:
  assumes ok: "cls_ok C cls" and r: "r \<in> cls_stored cls" and rem: "dpcls_remove C cls r = Inr cls'"
  shows "cls_stored cls' = {q \<in> cls_stored cls. ru_id q \<noteq> ru_id r}"
proof -
  obtain p st where st: "cl_tables cls p = Some st" "r \<in> set (st_rules st)" using r by (auto simp: cls_stored_def)
  have mask: "ru_mask r = Some p" using cls_okD(6) [OF ok st(1)] st(2) by (simp add: subtable_ok_def)
  have rid: "ru_id r \<in> ru_id ` set (st_rules st)" using st(2) by blast
  have other: "ru_id q \<noteq> ru_id r" if "p' \<noteq> p" "cl_tables cls p' = Some s" "q \<in> set (st_rules s)" for p' s q
    using cls_okD(9) [OF ok that(2) st(1) that(3) st(2)] that(1) by blast
  let ?rules = "filter (\<lambda>q. ru_id q \<noteq> ru_id r) (st_rules st)"
  have split: "cls_stored cls = set (st_rules st) \<union> {q. \<exists>p' s. p' \<noteq> p \<and> cl_tables cls p' = Some s \<and> q \<in> set (st_rules s)}"
    by (rule stored_split [OF st(1)])
  show ?thesis
  proof (cases "?rules = []")
    case True
    then have "cl_tables cls' = (cl_tables cls)(p := None)"
      using rem rid by (auto simp: dpcls_remove_def mask subtable_at_def st(1) Let_def dpcls_destroy_subtable_def)
    then have "cls_stored cls' = {q. \<exists>p' s. p' \<noteq> p \<and> cl_tables cls p' = Some s \<and> q \<in> set (st_rules s)}"
      by (auto simp: cls_stored_def split: if_splits)
    then show ?thesis using split other True by (auto simp: filter_empty_conv)
  next
    case False
    then have "cl_tables cls' = (cl_tables cls)(p \<mapsto> st\<lparr>st_rules := ?rules\<rparr>)"
      using rem rid by (auto simp: dpcls_remove_def mask subtable_at_def st(1) Let_def)
    then show ?thesis using stored_tables [of cls' "cl_tables cls" p] split other by auto
  qed
qed

section \<open>The invariant of a thread\<close>

definition flow_mark :: "'flow flow_sys \<Rightarrow> 'flow \<Rightarrow> u64" where
  "flow_mark Y fl = dp_netdev_simple_match_mark (ff_in_port Y fl) (ff_dl_type Y fl) (ff_nw_frag Y fl) (ff_vlan_tci Y fl)"

definition table_flows :: "'flow pmd_thread \<Rightarrow> nat set" where
  "table_flows pmd = snd ` set (pm_flow_table pmd)"

definition simple_flows :: "'flow pmd_thread \<Rightarrow> nat set" where
  "simple_flows pmd = snd ` set (pm_simple_match_table pmd)"

definition port_count :: "'flow flow_sys \<Rightarrow> (nat \<Rightarrow> 'flow flow_info) \<Rightarrow> (u32 \<times> nat) list \<Rightarrow> u32 \<Rightarrow> nat" where
  "port_count Y info table port = length (filter (\<lambda>hf. ff_in_port Y (fi_flow (info (snd hf))) = port) table)"

definition sys_ok :: "'flow flow_sys \<Rightarrow> bool" where
  "sys_ok Y \<longleftrightarrow> cls_env_ok (sy_cls Y) \<and> dfc_env_ok (sy_dfc Y) \<and> df_flow (sy_dfc Y) = ce_flow (sy_cls Y)"

text \<open>The flow table and the simple match table with the counts of their flows.\<close>

definition tables_ok ::
  "'flow flow_sys \<Rightarrow> (nat \<Rightarrow> 'flow flow_info) \<Rightarrow> (u32 \<times> nat) list \<Rightarrow> (u32 \<times> nat) list \<Rightarrow> (u32 \<Rightarrow> nat) \<Rightarrow> (u32 \<Rightarrow> nat) \<Rightarrow> bool" where
  "tables_ok Y info ft st nf ns \<longleftrightarrow>
     distinct (map snd ft) \<and> (\<forall>h f. (h, f) \<in> set ft \<longrightarrow> h = dp_netdev_flow_hash Y (fi_ufid (info f)) \<and> \<not> fi_dead (info f)) \<and>
     distinct (map snd st) \<and> snd ` set st \<subseteq> snd ` set ft \<and>
     (\<forall>h f. (h, f) \<in> set st \<longrightarrow> fi_simple_match_mark (info f) = flow_mark Y (fi_flow (info f)) \<and>
        h = ff_hash_uint64 Y (flow_mark Y (fi_flow (info f)))) \<and>
     inj_on (\<lambda>f. flow_mark Y (fi_flow (info f))) (snd ` set st) \<and>
     nf = port_count Y info ft \<and> ns = port_count Y info st"

text \<open>The classifiers hold the rules of the flows of the flow table, each under its port.\<close>

definition classes_ok :: "'flow flow_sys \<Rightarrow> dpcls list \<Rightarrow> (nat \<Rightarrow> 'flow flow_info) \<Rightarrow> nat set \<Rightarrow> bool" where
  "classes_ok Y classifiers info T \<longleftrightarrow>
     distinct (map cl_in_port classifiers) \<and>
     (\<forall>c\<in>set classifiers. cls_ok (sy_cls Y) c \<and>
        cls_stored c = (\<lambda>f. fi_rule (info f)) ` {f \<in> T. ff_in_port Y (fi_flow (info f)) = cl_in_port c}) \<and>
     (\<forall>f\<in>T. ru_id (fi_rule (info f)) = f \<and> ff_in_port Y (fi_flow (info f)) \<in> cl_in_port ` set classifiers)"

text \<open>
  The references: one for each table that has the flow, one for each queued request and each
  entry of the exact match cache, and those that are held elsewhere.
\<close>

definition offload_refs :: "offload_item list \<Rightarrow> nat \<Rightarrow> nat" where
  "offload_refs items f = length (filter (\<lambda>i. of_flow i = f) items)"

definition held :: "nat set \<Rightarrow> nat set \<Rightarrow> offload_item list \<Rightarrow> emc_entry list \<Rightarrow> (nat \<Rightarrow> nat) \<Rightarrow> nat \<Rightarrow> nat" where
  "held T S items cache others f =
     (if f \<in> T then 1 else 0) + (if f \<in> S then 1 else 0) + offload_refs items f + emc_refs cache f + others f"

definition pmd_ok :: "'flow flow_sys \<Rightarrow> (nat \<Rightarrow> nat) \<Rightarrow> 'flow pmd_thread \<Rightarrow> bool" where
  "pmd_ok Y others pmd \<longleftrightarrow>
     tables_ok Y (pm_info pmd) (pm_flow_table pmd) (pm_simple_match_table pmd) (pm_n_flows pmd) (pm_n_simple_flows pmd) \<and>
     classes_ok Y (pm_classifiers pmd) (pm_info pmd) (table_flows pmd) \<and>
     dc_refs (pm_dfc pmd) = held (table_flows pmd) (simple_flows pmd) (pm_offloads pmd) (dc_emc (pm_dfc pmd)) others"

lemma tables_okD:
  assumes "tables_ok Y info ft st nf ns"
  shows "distinct (map snd ft)" and "(h, f) \<in> set ft \<Longrightarrow> h = dp_netdev_flow_hash Y (fi_ufid (info f)) \<and> \<not> fi_dead (info f)"
    and "distinct (map snd st)" and "snd ` set st \<subseteq> snd ` set ft"
    and "(h, f) \<in> set st \<Longrightarrow> fi_simple_match_mark (info f) = flow_mark Y (fi_flow (info f)) \<and>
       h = ff_hash_uint64 Y (flow_mark Y (fi_flow (info f)))"
    and "inj_on (\<lambda>f. flow_mark Y (fi_flow (info f))) (snd ` set st)"
    and "nf = port_count Y info ft" and "ns = port_count Y info st"
  using assms unfolding tables_ok_def by blast+

lemma tables_okI:
  assumes "distinct (map snd ft)" and "\<And>h f. (h, f) \<in> set ft \<Longrightarrow> h = dp_netdev_flow_hash Y (fi_ufid (info f)) \<and> \<not> fi_dead (info f)"
    and "distinct (map snd st)" and "snd ` set st \<subseteq> snd ` set ft"
    and "\<And>h f. (h, f) \<in> set st \<Longrightarrow> fi_simple_match_mark (info f) = flow_mark Y (fi_flow (info f)) \<and>
       h = ff_hash_uint64 Y (flow_mark Y (fi_flow (info f)))"
    and "inj_on (\<lambda>f. flow_mark Y (fi_flow (info f))) (snd ` set st)"
    and "nf = port_count Y info ft" and "ns = port_count Y info st"
  shows "tables_ok Y info ft st nf ns"
  unfolding tables_ok_def using assms by (intro conjI allI impI) blast+

text \<open>A lookup finds the flow with the mark of the given fields.\<close>

lemma find_SomeD: "find P xs = Some x \<Longrightarrow> x \<in> set xs \<and> P x"
  by (auto simp: find_Some_iff)

lemma simple_lookup:
  assumes "tables_ok Y (pm_info pmd) ft (pm_simple_match_table pmd) nf ns"
  shows "dp_netdev_simple_match_lookup Y pmd port d fr v = Some f \<longleftrightarrow>
    f \<in> simple_flows pmd \<and> flow_mark Y (fi_flow (pm_info pmd f)) = dp_netdev_simple_match_mark port d fr v"
proof -
  let ?m = "dp_netdev_simple_match_mark port d fr v"
  let ?P = "\<lambda>(h, f). h = ff_hash_uint64 Y ?m \<and> fi_simple_match_mark (pm_info pmd f) = ?m"
  let ?st = "pm_simple_match_table pmd"
  have P: "?P hf \<longleftrightarrow> flow_mark Y (fi_flow (pm_info pmd (snd hf))) = ?m" if "hf \<in> set ?st" for hf
    using that tables_okD(5) [OF assms, of "fst hf" "snd hf"] by (cases hf) auto
  show ?thesis
  proof (cases "find ?P ?st")
    case None
    then have "\<forall>hf\<in>set ?st. flow_mark Y (fi_flow (pm_info pmd (snd hf))) \<noteq> ?m" using P by (auto simp: find_None_iff)
    then show ?thesis using None by (auto simp: dp_netdev_simple_match_lookup_def Let_def simple_flows_def)
  next
    case (Some hf)
    note hf = find_SomeD [OF Some]
    then have m: "snd hf \<in> simple_flows pmd" "flow_mark Y (fi_flow (pm_info pmd (snd hf))) = ?m"
      using P [of hf] by (simp_all add: simple_flows_def)
    have "f = snd hf" if "f \<in> simple_flows pmd" "flow_mark Y (fi_flow (pm_info pmd f)) = ?m"
      using inj_onD [OF tables_okD(6) [OF assms], of f "snd hf"] m that by (simp add: simple_flows_def)
    then show ?thesis using Some m by (auto simp: dp_netdev_simple_match_lookup_def Let_def)
  qed
qed

lemma port_count_remove:
  assumes "(h, f) \<in> set table"
  shows "port_count Y info table = ccmap_inc (port_count Y info (remove1 (h, f) table)) (ff_in_port Y (fi_flow (info f)))"
proof
  fix p
  show "port_count Y info table p = ccmap_inc (port_count Y info (remove1 (h, f) table)) (ff_in_port Y (fi_flow (info f))) p"
    using assms by (induction table) (auto simp: port_count_def ccmap_inc_def)
qed

lemma dec_inc: "ccmap_dec (ccmap_inc n p) p = Inr n"
  by (simp add: ccmap_dec_def ccmap_inc_def)

lemma port_count_Cons:
  "port_count Y info ((h, f) # table) = ccmap_inc (port_count Y info table) (ff_in_port Y (fi_flow (info f)))"
  by (rule ext) (simp add: port_count_def ccmap_inc_def)

lemma port_count_cong:
  "(\<And>f. f \<in> snd ` set table \<Longrightarrow> fi_flow (info' f) = fi_flow (info f)) \<Longrightarrow> port_count Y info' table = port_count Y info table"
  by (rule ext) (force simp: port_count_def intro!: arg_cong [where f = length] filter_cong)

lemma snd_remove1:
  assumes "distinct (map snd table)" and "(h, f) \<in> set table"
  shows "distinct (map snd (remove1 (h, f) table))" and "snd ` set (remove1 (h, f) table) = snd ` set table - {f}"
proof -
  have d: "distinct table" using assms(1) by (simp add: distinct_map)
  show "distinct (map snd (remove1 (h, f) table))" using assms(1) d by (simp add: distinct_map set_remove1_eq inj_on_diff)
  have "f \<notin> snd ` (set table - {(h, f)})"
  proof
    assume "f \<in> snd ` (set table - {(h, f)})"
    then obtain x where x: "x \<in> set table" "x \<noteq> (h, f)" "snd x = f" by fastforce
    have "inj_on snd (set table)" using assms(1) by (simp add: distinct_map)
    then show False using inj_onD [of snd "set table" x "(h, f)"] assms(2) x by simp
  qed
  then show "snd ` set (remove1 (h, f) table) = snd ` set table - {f}" using d by (auto simp: set_remove1_eq)
qed

end
