(* ===== verification/Dpif_Flow_Ops.thy ===== *)
theory Dpif_Flow_Ops
  imports Dpif_Flow_Laws
begin

text \<open>
  The operations on the flow table keep the invariant of the thread: entering a flow into the
  simple match table and taking it out, adding a flow and removing it.
\<close>

section \<open>The simple match table\<close>

lemma set_refs_refs [simp]: "set_refs pmd (dc_refs (pm_dfc pmd)) = pmd"
  by (simp add: set_refs_def)

lemma set_refs_sel [simp]:
  "pm_info (set_refs pmd refs) = pm_info pmd" "pm_classifiers (set_refs pmd refs) = pm_classifiers pmd"
  "pm_flow_table (set_refs pmd refs) = pm_flow_table pmd" "pm_n_flows (set_refs pmd refs) = pm_n_flows pmd"
  "pm_simple_match_table (set_refs pmd refs) = pm_simple_match_table pmd"
  "pm_n_simple_flows (set_refs pmd refs) = pm_n_simple_flows pmd" "pm_offloads (set_refs pmd refs) = pm_offloads pmd"
  "dc_refs (pm_dfc (set_refs pmd refs)) = refs" "dc_emc (pm_dfc (set_refs pmd refs)) = dc_emc (pm_dfc pmd)"
  by (simp_all add: set_refs_def)

lemma unref_upd: "sys_ok Y \<Longrightarrow> dp_netdev_flow_unref (sy_dfc Y) refs f = refs(f := refs f - 1)"
  using dfc_env_okD(5) [of "sy_dfc Y"] by (simp add: dp_netdev_flow_unref_def sys_ok_def)

lemma ref_upd: "sys_ok Y \<Longrightarrow> 0 < refs f \<Longrightarrow> dp_netdev_flow_ref (sy_dfc Y) refs f = (True, refs(f := refs f + 1))"
  using dfc_env_okD(4) [of "sy_dfc Y"] by (simp add: dp_netdev_flow_ref_def sys_ok_def)

lemma tables_ok_simple_del:
  assumes t: "tables_ok Y info ft st nf ns" and "(h, f) \<in> set st"
  shows "\<exists>n. ccmap_dec ns (ff_in_port Y (fi_flow (info f))) = Inr n \<and> tables_ok Y info ft (remove1 (h, f) st) nf n"
proof -
  note D = tables_okD [OF t]
  have "ns = ccmap_inc (port_count Y info (remove1 (h, f) st)) (ff_in_port Y (fi_flow (info f)))"
    unfolding D(8) by (rule port_count_remove [OF assms(2)])
  then have "ccmap_dec ns (ff_in_port Y (fi_flow (info f))) = Inr (port_count Y info (remove1 (h, f) st))"
    by (simp add: dec_inc)
  moreover have "tables_ok Y info ft (remove1 (h, f) st) nf (port_count Y info (remove1 (h, f) st))"
  proof -
    have "inj_on (\<lambda>f. flow_mark Y (fi_flow (info f))) (snd ` set (remove1 (h, f) st))"
      unfolding snd_remove1(2) [OF D(3) assms(2)] using D(6) by (rule inj_on_diff)
    moreover have "\<forall>hf\<in>set (remove1 (h, f) st). hf \<in> set st" using set_remove1_subset by fastforce
    moreover have "snd ` set (remove1 (h, f) st) \<subseteq> snd ` set ft"
      unfolding snd_remove1(2) [OF D(3) assms(2)] using D(4) by blast
    ultimately show ?thesis using t snd_remove1(1) [OF D(3) assms(2)] unfolding tables_ok_def by blast
  qed
  ultimately show ?thesis by blast
qed

lemma simple_remove:
  assumes Y: "sys_ok Y" and t: "tables_ok Y (pm_info pmd) ft (pm_simple_match_table pmd) nf (pm_n_simple_flows pmd)"
  shows "\<exists>st ns. dp_netdev_simple_match_remove Y pmd f =
      Inr (set_refs (pmd\<lparr>pm_simple_match_table := st, pm_n_simple_flows := ns\<rparr>)
        (if f \<in> simple_flows pmd then (dc_refs (pm_dfc pmd))(f := dc_refs (pm_dfc pmd) f - 1) else dc_refs (pm_dfc pmd))) \<and>
    tables_ok Y (pm_info pmd) ft st nf ns \<and> snd ` set st = simple_flows pmd - {f}"
proof -
  let ?fl = "fi_flow (pm_info pmd f)"
  let ?look = "dp_netdev_simple_match_lookup Y pmd (ff_in_port Y ?fl) (ff_dl_type Y ?fl) (ff_nw_frag Y ?fl) (ff_vlan_tci Y ?fl)"
  have look: "?look = Some f \<longleftrightarrow> f \<in> simple_flows pmd"
    unfolding simple_lookup [OF t] by (simp add: flow_mark_def)
  show ?thesis
  proof (cases "f \<in> simple_flows pmd")
    case False
    then have "dp_netdev_simple_match_remove Y pmd f = Inr pmd"
      using look by (simp add: dp_netdev_simple_match_remove_def Let_def)
    then have "dp_netdev_simple_match_remove Y pmd f =
      Inr (set_refs (pmd\<lparr>pm_simple_match_table := pm_simple_match_table pmd, pm_n_simple_flows := pm_n_simple_flows pmd\<rparr>)
        (if f \<in> simple_flows pmd then (dc_refs (pm_dfc pmd))(f := dc_refs (pm_dfc pmd) f - 1) else dc_refs (pm_dfc pmd)))"
      using False by simp
    moreover have "snd ` set (pm_simple_match_table pmd) = simple_flows pmd - {f}" using False by (simp add: simple_flows_def)
    ultimately show ?thesis using t by blast
  next
    case True
    then obtain h where h: "(h, f) \<in> set (pm_simple_match_table pmd)" by (auto simp: simple_flows_def)
    have hash: "h = ff_hash_uint64 Y (flow_mark Y ?fl)" using tables_okD(5) [OF t h] by blast
    obtain n where n: "ccmap_dec (pm_n_simple_flows pmd) (ff_in_port Y ?fl) = Inr n"
      "tables_ok Y (pm_info pmd) ft (remove1 (h, f) (pm_simple_match_table pmd)) nf n"
      using tables_ok_simple_del [OF t h] by blast
    have "cmap_remove (pm_simple_match_table pmd) f (ff_hash_uint64 Y (flow_mark Y ?fl)) =
        Inr (remove1 (h, f) (pm_simple_match_table pmd))"
      using h by (simp add: cmap_remove_def hash)
    then have "dp_netdev_simple_match_remove Y pmd f =
        Inr (set_refs (pmd\<lparr>pm_simple_match_table := remove1 (h, f) (pm_simple_match_table pmd), pm_n_simple_flows := n\<rparr>)
          (if f \<in> simple_flows pmd then (dc_refs (pm_dfc pmd))(f := dc_refs (pm_dfc pmd) f - 1) else dc_refs (pm_dfc pmd)))"
      using look True n(1) by (simp add: dp_netdev_simple_match_remove_def Let_def flow_mark_def unref_upd [OF Y])
    then show ?thesis
      using n(2) snd_remove1(2) [OF tables_okD(3) [OF t] h] unfolding simple_flows_def by blast
  qed
qed

lemma tables_ok_simple_add:
  assumes t: "tables_ok Y info ft st nf ns" and f: "f \<in> snd ` set ft" "f \<notin> snd ` set st"
    and new: "\<forall>g\<in>snd ` set st. flow_mark Y (fi_flow (info g)) \<noteq> flow_mark Y (fi_flow (info f))"
    and i: "info' = info(f := (info f)\<lparr>fi_simple_match_mark := flow_mark Y (fi_flow (info f))\<rparr>)"
    and h: "h = ff_hash_uint64 Y (flow_mark Y (fi_flow (info f)))"
  shows "tables_ok Y info' ft ((h, f) # st) nf (ccmap_inc ns (ff_in_port Y (fi_flow (info f))))"
proof -
  note D = tables_okD [OF t]
  have same: "fi_flow (info' g) = fi_flow (info g)" "fi_ufid (info' g) = fi_ufid (info g)" "fi_dead (info' g) = fi_dead (info g)" for g
    by (simp_all add: i)
  have "inj_on (\<lambda>g. flow_mark Y (fi_flow (info g))) (insert f (snd ` set st))"
    using D(6) new by (auto simp: inj_on_def)
  moreover have "fi_simple_match_mark (info' g) = flow_mark Y (fi_flow (info g)) \<and> h' = ff_hash_uint64 Y (flow_mark Y (fi_flow (info g)))"
    if "(h', g) \<in> set ((h, f) # st)" for h' g
  proof (cases "g = f")
    case True
    then have "(h', g) \<notin> set st" using f(2) by force
    then show ?thesis using that h i True by simp
  next
    case False
    then show ?thesis using that D(5) [of h' g] by (simp add: i)
  qed
  moreover have "port_count Y info' ft = nf" using D(7) port_count_cong [of ft info' info Y] same by simp
  moreover have "port_count Y info' ((h, f) # st) = ccmap_inc ns (ff_in_port Y (fi_flow (info f)))"
    using D(8) port_count_cong [of st info' info Y] same by (simp add: port_count_Cons)
  ultimately show ?thesis
    using D(1,2,3,4) f by (intro tables_okI) (simp_all only: same set_simps insert_iff image_insert snd_conv list.map distinct.simps
      set_map insert_subset simp_thms not_False_eq_True)
qed

lemma simple_insert:
  assumes Y: "sys_ok Y" and t: "tables_ok Y (pm_info pmd) ft (pm_simple_match_table pmd) nf (pm_n_simple_flows pmd)"
    and f: "f \<in> snd ` set ft" "f \<notin> simple_flows pmd" and refs: "0 < dc_refs (pm_dfc pmd) f"
    and new: "\<forall>g\<in>simple_flows pmd. flow_mark Y (fi_flow (pm_info pmd g)) \<noteq> flow_mark Y (fi_flow (pm_info pmd f))"
  shows "\<exists>info st ns. dp_netdev_simple_match_insert Y pmd f =
      Inr (set_refs (pmd\<lparr>pm_info := info, pm_simple_match_table := st, pm_n_simple_flows := ns\<rparr>)
             ((dc_refs (pm_dfc pmd))(f := dc_refs (pm_dfc pmd) f + 1))) \<and>
    tables_ok Y info ft st nf ns \<and> snd ` set st = insert f (simple_flows pmd) \<and>
    info = (pm_info pmd)(f := (pm_info pmd f)\<lparr>fi_simple_match_mark := flow_mark Y (fi_flow (pm_info pmd f))\<rparr>)"
proof -
  let ?refs = "(dc_refs (pm_dfc pmd))(f := dc_refs (pm_dfc pmd) f + 1)"
  let ?fl = "fi_flow (pm_info pmd f)"
  define info where "info = (pm_info pmd)(f := (pm_info pmd f)\<lparr>fi_simple_match_mark := flow_mark Y ?fl\<rparr>)"
  define h where "h = ff_hash_uint64 Y (flow_mark Y ?fl)"
  define ns where "ns = ccmap_inc (pm_n_simple_flows pmd) (ff_in_port Y ?fl)"
  have "dp_netdev_simple_match_lookup Y (set_refs pmd ?refs) (ff_in_port Y ?fl) (ff_dl_type Y ?fl) (ff_nw_frag Y ?fl) (ff_vlan_tci Y ?fl) \<noteq> Some f"
    using simple_lookup [OF t, of "ff_in_port Y ?fl" "ff_dl_type Y ?fl" "ff_nw_frag Y ?fl" "ff_vlan_tci Y ?fl" f] f(2)
    by (simp add: dp_netdev_simple_match_lookup_def)
  then have "dp_netdev_simple_match_remove Y (set_refs pmd ?refs) f = Inr (set_refs pmd ?refs)"
    by (simp add: dp_netdev_simple_match_remove_def Let_def)
  then have "dp_netdev_simple_match_insert Y pmd f =
      Inr (set_refs (pmd\<lparr>pm_info := info, pm_simple_match_table := (h, f) # pm_simple_match_table pmd, pm_n_simple_flows := ns\<rparr>) ?refs)"
    by (simp add: dp_netdev_simple_match_insert_def ref_upd [where refs = "dc_refs (pm_dfc pmd)" and f = f, OF Y refs] Let_def info_def h_def ns_def flow_mark_def set_info_def
      set_refs_def)
  moreover have "tables_ok Y info ft ((h, f) # pm_simple_match_table pmd) nf ns" unfolding ns_def
    by (rule tables_ok_simple_add [OF t f(1) _ _ info_def h_def]) (use f(2) new in \<open>simp_all add: simple_flows_def\<close>)
  moreover have "snd ` set ((h, f) # pm_simple_match_table pmd) = insert f (simple_flows pmd)" by (simp add: simple_flows_def)
  ultimately show ?thesis using info_def by blast
qed

section \<open>The classifiers of a thread\<close>

lemma lookup_dpcls:
  "distinct (map cl_in_port classifiers) \<Longrightarrow>
     dp_netdev_pmd_lookup_dpcls classifiers port = Some c \<longleftrightarrow> c \<in> set classifiers \<and> cl_in_port c = port"
  by (induction classifiers) auto

lemma lookup_dpcls_None: "dp_netdev_pmd_lookup_dpcls classifiers port = None \<longleftrightarrow> port \<notin> cl_in_port ` set classifiers"
  by (induction classifiers) auto

lemma classes_okD:
  assumes "classes_ok Y classifiers info T"
  shows "distinct (map cl_in_port classifiers)" and "c \<in> set classifiers \<Longrightarrow> cls_ok (sy_cls Y) c"
    and "c \<in> set classifiers \<Longrightarrow>
      cls_stored c = (\<lambda>f. fi_rule (info f)) ` {f \<in> T. ff_in_port Y (fi_flow (info f)) = cl_in_port c}"
    and "f \<in> T \<Longrightarrow> ru_id (fi_rule (info f)) = f"
    and "f \<in> T \<Longrightarrow> ff_in_port Y (fi_flow (info f)) \<in> cl_in_port ` set classifiers"
  using assms unfolding classes_ok_def by blast+

lemma find_dpcls:
  assumes ok: "classes_ok Y classifiers info T" and f: "dp_netdev_pmd_find_dpcls classifiers port = (c, classifiers')"
  shows "classes_ok Y classifiers' info T \<and> c \<in> set classifiers' \<and> cl_in_port c = port"
proof (cases "dp_netdev_pmd_lookup_dpcls classifiers port")
  case (Some d)
  then show ?thesis using f ok lookup_dpcls [OF classes_okD(1) [OF ok], of port d]
    by (simp add: dp_netdev_pmd_find_dpcls_def)
next
  case None
  then have c: "c = dpcls_init port" "classifiers' = c # classifiers"
    using f by (auto simp: dp_netdev_pmd_find_dpcls_def Let_def)
  have port: "port \<notin> cl_in_port ` set classifiers" using None by (simp add: lookup_dpcls_None)
  then have "{f \<in> T. ff_in_port Y (fi_flow (info f)) = port} = {}" using classes_okD(5) [OF ok] by blast
  moreover have "cls_stored c = {}" unfolding c(1) by (rule cls_stored_init)
  ultimately have "cls_stored c = (\<lambda>f. fi_rule (info f)) ` {f \<in> T. ff_in_port Y (fi_flow (info f)) = cl_in_port c}"
    by (simp add: c(1) dpcls_init_def)
  moreover have "cls_ok (sy_cls Y) c" unfolding c(1) by (rule cls_ok_init)
  moreover have "cl_in_port c = port" by (simp add: c dpcls_init_def)
  ultimately show ?thesis using ok port unfolding c(2) classes_ok_def by auto
qed

text \<open>A change of one classifier.\<close>

lemma store_dpcls_ok:
  assumes ok: "classes_ok Y classifiers info T" and c: "c \<in> set classifiers"
    and c': "cls_ok (sy_cls Y) c'" "cl_in_port c' = cl_in_port c"
      "cls_stored c' = (\<lambda>f. fi_rule (info' f)) ` {f \<in> T'. ff_in_port Y (fi_flow (info' f)) = cl_in_port c}"
    and other: "\<And>f. ff_in_port Y (fi_flow (info f)) \<noteq> cl_in_port c \<Longrightarrow> f \<in> T \<Longrightarrow> f \<in> T' \<and> info' f = info f"
      "\<And>f. ff_in_port Y (fi_flow (info' f)) \<noteq> cl_in_port c \<Longrightarrow> f \<in> T' \<Longrightarrow> f \<in> T \<and> info' f = info f"
    and ids: "\<And>f. f \<in> T' \<Longrightarrow> ru_id (fi_rule (info' f)) = f"
  shows "classes_ok Y (store_dpcls classifiers c') info' T'"
proof -
  have ports: "map cl_in_port (store_dpcls classifiers c') = map cl_in_port classifiers"
    using c'(2) by (simp add: store_dpcls_def)
  have mem: "d = c' \<or> d \<in> set classifiers \<and> cl_in_port d \<noteq> cl_in_port c" if "d \<in> set (store_dpcls classifiers c')" for d
    using that c'(2) by (auto simp: store_dpcls_def split: if_splits)
  have "cls_ok (sy_cls Y) d \<and>
      cls_stored d = (\<lambda>f. fi_rule (info' f)) ` {f \<in> T'. ff_in_port Y (fi_flow (info' f)) = cl_in_port d}"
    if d: "d \<in> set (store_dpcls classifiers c')" for d
    using mem [OF d]
  proof (elim disjE conjE)
    assume d: "d \<in> set classifiers" "cl_in_port d \<noteq> cl_in_port c"
    have "(\<lambda>f. fi_rule (info f)) ` {f \<in> T. ff_in_port Y (fi_flow (info f)) = cl_in_port d} =
        (\<lambda>f. fi_rule (info' f)) ` {f \<in> T'. ff_in_port Y (fi_flow (info' f)) = cl_in_port d}"
      (is "?a ` ?A = ?b ` ?B")
    proof (rule image_cong)
      have "f \<in> ?B" if "f \<in> ?A" for f using other(1) [of f] that d(2) by simp
      moreover have "f \<in> ?A" if "f \<in> ?B" for f using other(2) [of f] that d(2) by simp
      ultimately show "?A = ?B" by blast
      show "?a f = ?b f" if "f \<in> ?B" for f using other(2) [of f] that d(2) by simp
    qed
    then show ?thesis using classes_okD(2,3) [OF ok d(1)] by simp
  qed (use c' in simp)
  moreover have "ff_in_port Y (fi_flow (info' f)) \<in> cl_in_port ` set (store_dpcls classifiers c')" if "f \<in> T'" for f
  proof -
    have "ff_in_port Y (fi_flow (info' f)) \<in> cl_in_port ` set classifiers"
    proof (cases "ff_in_port Y (fi_flow (info' f)) = cl_in_port c")
      case False
      then show ?thesis using other(2) [OF False that] classes_okD(5) [OF ok, of f] by simp
    qed (use c in simp)
    then have "ff_in_port Y (fi_flow (info' f)) \<in> set (map cl_in_port (store_dpcls classifiers c'))" unfolding ports by simp
    then show ?thesis by simp
  qed
  ultimately show ?thesis using classes_okD(1) [OF ok] ids ports unfolding classes_ok_def by simp
qed

lemma stored_ids:
  assumes "classes_ok Y classifiers info T" and "c \<in> set classifiers" and "f \<notin> T"
  shows "f \<notin> fst ` cls_rules E (cl_tables c)"
  using classes_okD(3,4) [OF assms(1)] assms(2,3) by (auto simp: fst_cls_rules)

section \<open>Adding a flow\<close>

lemma held_zero:
  assumes "held T S items cache others f = 0"
  shows "f \<notin> T" and "f \<notin> S" and "offload_refs items f = 0" and "emc_refs cache f = 0" and "others f = 0"
  using assms by (simp_all add: held_def split: if_splits)

lemma tables_ok_add:
  assumes t: "tables_ok Y info ft st nf ns" and f: "f \<notin> snd ` set ft"
    and i: "fi_ufid i = ufid" "\<not> fi_dead i"
  shows "tables_ok Y (info(f := i)) ((dp_netdev_flow_hash Y ufid, f) # ft) st (ccmap_inc nf (ff_in_port Y (fi_flow i))) ns"
proof -
  note D = tables_okD [OF t]
  have same: "(info(f := i)) g = info g" if "g \<in> snd ` set ft" for g using that f by auto
  have st: "(info(f := i)) g = info g" if "g \<in> snd ` set st" for g using that same D(4) by blast
  show ?thesis
  proof (rule tables_okI)
    show "h = dp_netdev_flow_hash Y (fi_ufid ((info(f := i)) g)) \<and> \<not> fi_dead ((info(f := i)) g)"
      if "(h, g) \<in> set ((dp_netdev_flow_hash Y ufid, f) # ft)" for h g
    proof (cases "(h, g) \<in> set ft")
      case True
      then have "(info(f := i)) g = info g" by (intro same) force
      then show ?thesis using D(2) [OF True] by simp
    qed (use that i in simp)
    show "fi_simple_match_mark ((info(f := i)) g) = flow_mark Y (fi_flow ((info(f := i)) g)) \<and>
        h = ff_hash_uint64 Y (flow_mark Y (fi_flow ((info(f := i)) g)))" if "(h, g) \<in> set st" for h g
    proof -
      have "(info(f := i)) g = info g" using that by (intro st) force
      then show ?thesis using D(5) [OF that] by simp
    qed
    show "inj_on (\<lambda>g. flow_mark Y (fi_flow ((info(f := i)) g))) (snd ` set st)"
      using D(6) st by (simp add: inj_on_def)
    show "ns = port_count Y (info(f := i)) st"
      unfolding D(8) by (rule port_count_cong [symmetric]) (simp only: st)
    have "port_count Y (info(f := i)) ft = nf"
      unfolding D(7) by (rule port_count_cong) (simp only: same)
    then show "ccmap_inc nf (ff_in_port Y (fi_flow i)) = port_count Y (info(f := i)) ((dp_netdev_flow_hash Y ufid, f) # ft)"
      by (simp add: port_count_Cons)
    show "distinct (map snd ((dp_netdev_flow_hash Y ufid, f) # ft))" using D(1) f by simp
  qed (use D(3,4) in auto)
qed

lemma offload_refs_append:
  "(\<lambda>g. refs g + (offload_refs (items @ [i]) g - offload_refs items g)) = refs(of_flow i := refs (of_flow i) + 1)"
  "offload_refs items g \<le> offload_refs (items @ [i]) g"
  by (auto simp: offload_refs_def)

lemma offload_put:
  assumes Y: "sys_ok Y" and "0 < dc_refs (pm_dfc pmd) f"
    and q: "pmd' = queue_netdev_flow_put Y pmd f actions opr \<or> pmd' = queue_netdev_flow_del Y pmd f"
  shows "\<exists>items. pmd' = set_refs (pmd\<lparr>pm_offloads := items\<rparr>)
        (\<lambda>g. dc_refs (pm_dfc pmd) g + (offload_refs items g - offload_refs (pm_offloads pmd) g)) \<and>
    (\<forall>g. offload_refs (pm_offloads pmd) g \<le> offload_refs items g)"
proof (cases "sy_flow_api Y")
  case False
  then have "pmd' = set_refs (pmd\<lparr>pm_offloads := pm_offloads pmd\<rparr>)
        (\<lambda>g. dc_refs (pm_dfc pmd) g + (offload_refs (pm_offloads pmd) g - offload_refs (pm_offloads pmd) g))"
    using q by (auto simp: queue_netdev_flow_put_def queue_netdev_flow_del_def)
  then show ?thesis by blast
next
  case True
  define item where "item = \<lparr>of_flow = f, of_op = opr, of_actions = actions,
    of_orig_in_port = fi_orig_in_port (pm_info pmd f), of_timestamp = pm_now pmd\<rparr>"
  define del where "del = \<lparr>of_flow = f, of_op = Offload_Del, of_actions = [], of_orig_in_port = 0, of_timestamp = pm_now pmd\<rparr>"
  have "\<exists>i\<in>{item, del}. pmd' = set_refs (pmd\<lparr>pm_offloads := pm_offloads pmd @ [i]\<rparr>)
      ((dc_refs (pm_dfc pmd))(f := dc_refs (pm_dfc pmd) f + 1))"
    using q True
    by (auto simp: queue_netdev_flow_put_def queue_netdev_flow_del_def dp_netdev_alloc_flow_offload_def
      ref_upd [where refs = "dc_refs (pm_dfc pmd)" and f = f, OF Y assms(2)] set_refs_def item_def del_def)
  moreover have "of_flow i = f" if "i \<in> {item, del}" for i using that by (auto simp: item_def del_def)
  ultimately obtain i where "of_flow i = f" "pmd' = set_refs (pmd\<lparr>pm_offloads := pm_offloads pmd @ [i]\<rparr>)
      ((dc_refs (pm_dfc pmd))(f := dc_refs (pm_dfc pmd) f + 1))" by blast
  then have "pmd' = set_refs (pmd\<lparr>pm_offloads := pm_offloads pmd @ [i]\<rparr>)
      (\<lambda>g. dc_refs (pm_dfc pmd) g + (offload_refs (pm_offloads pmd @ [i]) g - offload_refs (pm_offloads pmd) g))"
    by (simp only: offload_refs_append(1))
  then show ?thesis using offload_refs_append(2) by blast
qed

lemma pmd_okD:
  assumes "pmd_ok Y others pmd"
  shows "tables_ok Y (pm_info pmd) (pm_flow_table pmd) (pm_simple_match_table pmd) (pm_n_flows pmd) (pm_n_simple_flows pmd)"
    and "classes_ok Y (pm_classifiers pmd) (pm_info pmd) (table_flows pmd)"
    and "dc_refs (pm_dfc pmd) = held (table_flows pmd) (simple_flows pmd) (pm_offloads pmd) (dc_emc (pm_dfc pmd)) others"
  using assms unfolding pmd_ok_def by blast+

lemma table_flow_refs: "pmd_ok Y others pmd \<Longrightarrow> f \<in> table_flows pmd \<Longrightarrow> 0 < dc_refs (pm_dfc pmd) f"
  using pmd_okD(3) [of Y others pmd] by (simp add: held_def)

lemma classes_ok_cong:
  assumes "classes_ok Y classifiers info T"
    and "\<And>g. fi_flow (info' g) = fi_flow (info g)" and "\<And>g. fi_rule (info' g) = fi_rule (info g)"
  shows "classes_ok Y classifiers info' T"
  using assms unfolding classes_ok_def by simp

lemma simple_insert_ok:
  assumes Y: "sys_ok Y" and ok: "pmd_ok Y others pmd" and f: "f \<in> table_flows pmd" "f \<notin> simple_flows pmd"
    and new: "\<forall>g\<in>simple_flows pmd. flow_mark Y (fi_flow (pm_info pmd g)) \<noteq> flow_mark Y (fi_flow (pm_info pmd f))"
  shows "\<exists>pmd'. dp_netdev_simple_match_insert Y pmd f = Inr pmd' \<and> pmd_ok Y others pmd' \<and>
    table_flows pmd' = table_flows pmd \<and> simple_flows pmd' = insert f (simple_flows pmd) \<and>
    pm_info pmd' = (pm_info pmd)(f := (pm_info pmd f)\<lparr>fi_simple_match_mark := flow_mark Y (fi_flow (pm_info pmd f))\<rparr>) \<and>
    pm_classifiers pmd' = pm_classifiers pmd"
proof -
  have f': "f \<in> snd ` set (pm_flow_table pmd)" using f(1) by (simp add: table_flows_def)
  obtain info st ns where i: "dp_netdev_simple_match_insert Y pmd f =
      Inr (set_refs (pmd\<lparr>pm_info := info, pm_simple_match_table := st, pm_n_simple_flows := ns\<rparr>)
             ((dc_refs (pm_dfc pmd))(f := dc_refs (pm_dfc pmd) f + 1)))"
    and t: "tables_ok Y info (pm_flow_table pmd) st (pm_n_flows pmd) ns" and st: "snd ` set st = insert f (simple_flows pmd)"
    and info: "info = (pm_info pmd)(f := (pm_info pmd f)\<lparr>fi_simple_match_mark := flow_mark Y (fi_flow (pm_info pmd f))\<rparr>)"
    using simple_insert [OF Y pmd_okD(1) [OF ok] f' f(2) table_flow_refs [OF ok f(1)] new] by blast
  define pmd' where "pmd' = set_refs (pmd\<lparr>pm_info := info, pm_simple_match_table := st, pm_n_simple_flows := ns\<rparr>)
             ((dc_refs (pm_dfc pmd))(f := dc_refs (pm_dfc pmd) f + 1))"
  have T: "table_flows pmd' = table_flows pmd" "simple_flows pmd' = insert f (simple_flows pmd)"
    using st by (simp_all add: pmd'_def table_flows_def simple_flows_def)
  have "classes_ok Y (pm_classifiers pmd) info (table_flows pmd)"
    by (rule classes_ok_cong [OF pmd_okD(2) [OF ok]]) (simp_all add: info)
  moreover have "dc_refs (pm_dfc pmd') = held (table_flows pmd') (simple_flows pmd') (pm_offloads pmd') (dc_emc (pm_dfc pmd')) others"
    unfolding T using pmd_okD(3) [OF ok] f(2) by (auto simp: pmd'_def held_def)
  ultimately have "pmd_ok Y others pmd'" using t T by (simp add: pmd_ok_def pmd'_def)
  then show ?thesis using i T info by (simp add: pmd'_def)
qed

lemma offload_put_ok:
  assumes Y: "sys_ok Y" and ok: "pmd_ok Y others pmd" and f: "0 < dc_refs (pm_dfc pmd) f"
    and pmd': "pmd' = queue_netdev_flow_put Y pmd f actions opr"
  shows "pmd_ok Y others pmd'" and "table_flows pmd' = table_flows pmd" and "simple_flows pmd' = simple_flows pmd"
    and "pm_info pmd' = pm_info pmd" and "pm_classifiers pmd' = pm_classifiers pmd"
proof -
  obtain items where q: "pmd' = set_refs (pmd\<lparr>pm_offloads := items\<rparr>)
        (\<lambda>g. dc_refs (pm_dfc pmd) g + (offload_refs items g - offload_refs (pm_offloads pmd) g))"
    and le: "\<forall>g. offload_refs (pm_offloads pmd) g \<le> offload_refs items g"
    using offload_put [OF Y f] pmd' by blast
  show T: "table_flows pmd' = table_flows pmd" "simple_flows pmd' = simple_flows pmd"
    by (simp_all add: q table_flows_def simple_flows_def)
  show "pm_info pmd' = pm_info pmd" "pm_classifiers pmd' = pm_classifiers pmd" by (simp_all add: q)
  have "dc_refs (pm_dfc pmd') = held (table_flows pmd') (simple_flows pmd') (pm_offloads pmd') (dc_emc (pm_dfc pmd')) others"
    unfolding T using pmd_okD(3) [OF ok] le by (auto simp: q held_def)
  then show "pmd_ok Y others pmd'" using pmd_okD(1,2) [OF ok] T by (simp add: pmd_ok_def q)
qed

text \<open>The flow is entered into the classifier and the flow table.\<close>

lemma flow_enter_ok:
  assumes Y: "sys_ok Y" and ok: "pmd_ok Y others pmd" and new: "dc_refs (pm_dfc pmd) f = 0"
    and find: "dp_netdev_pmd_find_dpcls (pm_classifiers pmd) port = (c, classifiers)"
    and c': "cls_ok (sy_cls Y) c'" "cl_in_port c' = cl_in_port c" "cls_stored c' = insert r (cls_stored c)"
    and i: "fi_rule i = r" "ru_id r = f" "ff_in_port Y (fi_flow i) = port" "fi_ufid i = ufid" "\<not> fi_dead i"
    and dfc: "dc_refs dfc = (dc_refs (pm_dfc pmd))(f := 1)" "dc_emc dfc = dc_emc (pm_dfc pmd)"
    and pmd': "pmd' = flow_add_enter Y (pmd\<lparr>pm_allocs := n, pm_classifiers := store_dpcls classifiers c',
       pm_info := (pm_info pmd)(f := i), pm_dfc := dfc\<rparr>) f ufid port"
  shows "pmd_ok Y others pmd'" and "table_flows pmd' = insert f (table_flows pmd)" and "simple_flows pmd' = simple_flows pmd"
    and "pm_info pmd' = (pm_info pmd)(f := i)" and "pm_classifiers pmd' = store_dpcls classifiers c'" and "f \<notin> table_flows pmd"
proof -
  have "held (table_flows pmd) (simple_flows pmd) (pm_offloads pmd) (dc_emc (pm_dfc pmd)) others f = 0"
    using new pmd_okD(3) [OF ok] by simp
  note z = held_zero [OF this]
  show "f \<notin> table_flows pmd" by (rule z(1))
  show T: "table_flows pmd' = insert f (table_flows pmd)" "simple_flows pmd' = simple_flows pmd"
    "pm_info pmd' = (pm_info pmd)(f := i)" "pm_classifiers pmd' = store_dpcls classifiers c'"
    by (simp_all add: pmd' flow_add_enter_def table_flows_def simple_flows_def)
  have fd: "classes_ok Y classifiers (pm_info pmd) (table_flows pmd)" "c \<in> set classifiers" "cl_in_port c = port"
    using find_dpcls [OF pmd_okD(2) [OF ok] find] by blast+
  have "classes_ok Y (store_dpcls classifiers c') ((pm_info pmd)(f := i)) (insert f (table_flows pmd))"
  proof (rule store_dpcls_ok [OF fd(1,2) c'(1,2)])
    have "{g \<in> insert f (table_flows pmd). ff_in_port Y (fi_flow (((pm_info pmd)(f := i)) g)) = cl_in_port c} =
        insert f {g \<in> table_flows pmd. ff_in_port Y (fi_flow (pm_info pmd g)) = cl_in_port c}"
      using fd(3) i(3) z(1) by auto
    then show "cls_stored c' = (\<lambda>g. fi_rule (((pm_info pmd)(f := i)) g)) `
        {g \<in> insert f (table_flows pmd). ff_in_port Y (fi_flow (((pm_info pmd)(f := i)) g)) = cl_in_port c}"
      unfolding c'(3) classes_okD(3) [OF fd(1,2)] using i(1) z(1) by (auto simp: image_iff)
    show "g \<in> insert f (table_flows pmd) \<and> ((pm_info pmd)(f := i)) g = pm_info pmd g"
      if "g \<in> table_flows pmd" for g using that z(1) by auto
    show "g \<in> table_flows pmd \<and> ((pm_info pmd)(f := i)) g = pm_info pmd g"
      if "ff_in_port Y (fi_flow (((pm_info pmd)(f := i)) g)) \<noteq> cl_in_port c" "g \<in> insert f (table_flows pmd)" for g
      using that fd(3) i(3) by (auto split: if_splits)
    show "ru_id (fi_rule (((pm_info pmd)(f := i)) g)) = g" if "g \<in> insert f (table_flows pmd)" for g
      using that i(1,2) classes_okD(4) [OF fd(1), of g] by auto
  qed
  moreover have "tables_ok Y (pm_info pmd') (pm_flow_table pmd') (pm_simple_match_table pmd') (pm_n_flows pmd') (pm_n_simple_flows pmd')"
    using tables_ok_add [OF pmd_okD(1) [OF ok] _ i(4,5), of f] z(1) i(3)
    by (simp add: pmd' flow_add_enter_def table_flows_def)
  moreover have "dc_refs (pm_dfc pmd') = held (table_flows pmd') (simple_flows pmd') (pm_offloads pmd') (dc_emc (pm_dfc pmd')) others"
  proof
    fix g
    have "dc_refs (pm_dfc pmd') g = (if g = f then 1 else held (table_flows pmd) (simple_flows pmd) (pm_offloads pmd) (dc_emc (pm_dfc pmd)) others g)"
      using dfc(1) pmd_okD(3) [OF ok] by (simp add: pmd' flow_add_enter_def)
    moreover have "pm_offloads pmd' = pm_offloads pmd" "dc_emc (pm_dfc pmd') = dc_emc (pm_dfc pmd)"
      using dfc(2) by (simp_all add: pmd' flow_add_enter_def)
    ultimately show "dc_refs (pm_dfc pmd') g = held (table_flows pmd') (simple_flows pmd') (pm_offloads pmd') (dc_emc (pm_dfc pmd')) others g"
      unfolding T using z by (simp add: held_def)
  qed
  ultimately show "pmd_ok Y others pmd'" unfolding pmd_ok_def T by blast
qed

text \<open>The match whose port is left out of the mask, as it is stored.\<close>

definition stored_match :: "'flow flow_sys \<Rightarrow> 'flow match \<Rightarrow> 'flow match" where
  "stored_match Y mt = mt\<lparr>match_masks := ff_set_in_port Y 0 (match_masks mt)\<rparr>"

lemma flow_add_mask:
  assumes "ff_in_port Y (match_masks mt) = ODPP_NONE"
    and "\<not> ff_has_metadata Y (nk_map (netdev_flow_mask_init (ce_flow (sy_cls Y)) fresh_key (stored_match Y mt)))"
  shows "flow_add_mask Y mt = Inr (netdev_flow_mask_init (ce_flow (sy_cls Y)) fresh_key (stored_match Y mt))"
  using assms by (simp add: flow_add_mask_def stored_match_def Let_def)

text \<open>The key and the rule of a new flow, and the classifier that holds it.\<close>

lemma insert_rule: "dpcls_insert C cls rule msk = Inr (r, cls') \<Longrightarrow> \<exists>p. r = rule\<lparr>ru_mask := Some p\<rparr>"
  by (auto simp: dpcls_insert_def fault_simps Let_def split: option.splits prod.splits)

lemma flow_add_class:
  assumes Y: "sys_ok Y" and c: "classes_ok Y classifiers info T" "c \<in> set classifiers" and f: "f \<notin> T"
    and msk: "msk = netdev_flow_mask_init (ce_flow (sy_cls Y)) fresh_key (stored_match Y mt)"
  obtains key r c' p st where "netdev_flow_key_init_masked (ce_flow (sy_cls Y)) fresh_key (match_flow mt) msk = Inr key"
    and "dpcls_insert (sy_cls Y) c \<lparr>ru_id = f, ru_mask = None, ru_flow = key\<rparr> msk = Inr (r, c')"
    and "cls_ok (sy_cls Y) c'" and "cl_in_port c' = cl_in_port c" and "ru_id r = f"
    and "cls_rules (ce_flow (sy_cls Y)) (cl_tables c') =
      insert (f, packet_matches (ce_flow (sy_cls Y)) (stored_match Y mt)) (cls_rules (ce_flow (sy_cls Y)) (cl_tables c))"
    and "ru_mask r = Some p" and "cl_tables c' p = Some st" and "cls_stored c' = insert r (cls_stored c)"
    and "flow_ok (sy_dfc Y) \<lparr>fl_mask = st_mask st, fl_key = key, fl_in_port = port, fl_hash = h\<rparr>"
proof -
  let ?C = "sy_cls Y"
  let ?E = "ce_flow ?C"
  have C: "cls_env_ok ?C" and E: "df_flow (sy_dfc Y) = ?E" using Y by (simp_all add: sys_ok_def)
  have cok: "cls_ok ?C c" by (rule classes_okD(2) [OF c])
  have "f \<notin> fst ` cls_rules ?E (cl_tables c)" by (rule stored_ids [OF c f])
  then have nid: "ru_id \<lparr>ru_id = f, ru_mask = None, ru_flow = fresh_key\<rparr> \<notin> fst ` cls_rules ?E (cl_tables c)" by simp
  have mf: "match_flow (stored_match Y mt) = match_flow mt" by (simp add: stored_match_def)
  obtain key r c' where key: "netdev_flow_key_init_masked ?E fresh_key (match_flow mt) msk = Inr key"
    and ins: "dpcls_insert ?C c \<lparr>ru_id = f, ru_mask = None, ru_flow = key\<rparr> msk = Inr (r, c')"
    and c': "cls_ok ?C c'" "cl_in_port c' = cl_in_port c" "ru_id r = f"
    and rules: "cls_rules ?E (cl_tables c') = insert (f, packet_matches ?E (stored_match Y mt)) (cls_rules ?E (cl_tables c))"
    using dpcls_insert_match [OF C cok nid msk, of fresh_key] by (auto simp: mf)
  obtain p st where st: "ru_mask r = Some p" "cl_tables c' p = Some st" and stored: "cls_stored c' = insert r (cls_stored c)"
    using insert_stored [OF C cok ins] by blast
  have "r \<in> cls_stored c'" by (simp add: stored)
  then obtain q st' where q: "cl_tables c' q = Some st'" "r \<in> set (st_rules st')"
    by (auto simp: cls_stored_def)
  have "subtable_ok ?C q st'" using cls_okD(6) [OF c'(1) q(1)] by simp
  then have "q = p" "key_ok ?E (st_mask st')" "key_ok ?E (ru_flow r)" "nk_map (ru_flow r) = nk_map (st_mask st')"
    using q(2) st(1) by (auto simp: subtable_ok_def)
  moreover have "ru_flow r = key" using insert_rule [OF ins] by auto
  ultimately have "flow_ok (sy_dfc Y) \<lparr>fl_mask = st_mask st, fl_key = key, fl_in_port = port, fl_hash = h\<rparr>"
    using q(1) st(2) by (simp add: flow_ok_def E)
  with key ins c' rules st stored show ?thesis by (rule that)
qed

lemma flow_add:
  assumes Y: "sys_ok Y" and ok: "pmd_ok Y others pmd"
    and msk: "ff_in_port Y (match_masks mt) = ODPP_NONE"
      "\<not> ff_has_metadata Y (nk_map (netdev_flow_mask_init (ce_flow (sy_cls Y)) fresh_key (stored_match Y mt)))"
    and f: "f = sy_alloc Y (pm_allocs pmd)" and new: "dc_refs (pm_dfc pmd) f = 0"
    and marks: "dp_netdev_flow_is_simple_match Y mt \<Longrightarrow>
      \<forall>g\<in>simple_flows pmd. flow_mark Y (fi_flow (pm_info pmd g)) \<noteq> flow_mark Y (match_flow mt)"
  shows "\<exists>pmd' c. dp_netdev_flow_add Y pmd mt ufid actions orig_in_port = Inr (f, pmd') \<and> pmd_ok Y others pmd' \<and>
    f \<notin> table_flows pmd \<and> table_flows pmd' = insert f (table_flows pmd) \<and>
    simple_flows pmd' = (if dp_netdev_flow_is_simple_match Y mt then insert f (simple_flows pmd) else simple_flows pmd) \<and>
    fi_flow (pm_info pmd' f) = match_flow mt \<and> fi_ufid (pm_info pmd' f) = ufid \<and> fi_actions (pm_info pmd' f) = actions \<and>
    dp_netdev_pmd_lookup_dpcls (pm_classifiers pmd') (ff_in_port Y (match_flow mt)) = Some c \<and>
    (f, packet_matches (ce_flow (sy_cls Y)) (stored_match Y mt)) \<in> cls_rules (ce_flow (sy_cls Y)) (cl_tables c)"
proof -
  let ?C = "sy_cls Y"
  let ?E = "ce_flow ?C"
  define port where "port = ff_in_port Y (match_flow mt)"
  define msk where "msk = netdev_flow_mask_init ?E fresh_key (stored_match Y mt)"
  obtain c classifiers where find: "dp_netdev_pmd_find_dpcls (pm_classifiers pmd) port = (c, classifiers)"
    by (cases "dp_netdev_pmd_find_dpcls (pm_classifiers pmd) port")
  have fd: "classes_ok Y classifiers (pm_info pmd) (table_flows pmd)" "c \<in> set classifiers" "cl_in_port c = port"
    using find_dpcls [OF pmd_okD(2) [OF ok] find] by blast+
  have nt: "f \<notin> table_flows pmd"
    using held_zero(1) [of "table_flows pmd" "simple_flows pmd" "pm_offloads pmd" "dc_emc (pm_dfc pmd)" others f]
      new pmd_okD(3) [OF ok] by simp
  obtain key r c' p st where key: "netdev_flow_key_init_masked ?E fresh_key (match_flow mt) msk = Inr key"
    and ins: "dpcls_insert ?C c \<lparr>ru_id = f, ru_mask = None, ru_flow = key\<rparr> msk = Inr (r, c')"
    and c': "cls_ok ?C c'" "cl_in_port c' = cl_in_port c" "ru_id r = f"
    and rules: "cls_rules ?E (cl_tables c') = insert (f, packet_matches ?E (stored_match Y mt)) (cls_rules ?E (cl_tables c))"
    and st: "ru_mask r = Some p" "cl_tables c' p = Some st" and stored: "cls_stored c' = insert r (cls_stored c)"
    and "flow_ok (sy_dfc Y) \<lparr>fl_mask = st_mask st, fl_key = key, fl_in_port = port, fl_hash = 0\<rparr>"
    by (rule flow_add_class [OF Y fd(1,2) nt msk_def])
  define i where "i = \<lparr>fi_flow = match_flow mt, fi_ufid = ufid, fi_rule = r, fi_actions = actions,
                 fi_orig_in_port = orig_in_port, fi_dead = False, fi_simple_match_mark = 0, fi_stats = zero_stats\<rparr>"
  define dfc where "dfc = (pm_dfc pmd)\<lparr>dc_refs := (dc_refs (pm_dfc pmd))(f := 1),
      dc_flows := (dc_flows (pm_dfc pmd))(f := \<lparr>fl_mask = st_mask st, fl_key = key, fl_in_port = port,
        fl_hash = dp_netdev_flow_hash Y ufid\<rparr>)\<rparr>"
  define pmd2 where "pmd2 = flow_add_enter Y (pmd\<lparr>pm_allocs := pm_allocs pmd + 1, pm_classifiers := store_dpcls classifiers c',
       pm_info := (pm_info pmd)(f := i), pm_dfc := dfc\<rparr>) f ufid port"
  have "fi_rule i = r" "ff_in_port Y (fi_flow i) = port" "fi_ufid i = ufid" "\<not> fi_dead i"
    by (simp_all add: i_def port_def)
  moreover have "dc_refs dfc = (dc_refs (pm_dfc pmd))(f := 1)" "dc_emc dfc = dc_emc (pm_dfc pmd)" by (simp_all add: dfc_def)
  ultimately have p2: "pmd_ok Y others pmd2" "table_flows pmd2 = insert f (table_flows pmd)" "simple_flows pmd2 = simple_flows pmd"
    "pm_info pmd2 = (pm_info pmd)(f := i)" "pm_classifiers pmd2 = store_dpcls classifiers c'" "f \<notin> table_flows pmd"
    using flow_enter_ok [OF Y ok new find c'(1,2) stored _ c'(3) _ _ _ _ _ pmd2_def] by blast+
  have nosim: "f \<notin> simple_flows pmd"
    using p2(6) tables_okD(4) [OF pmd_okD(1) [OF ok]] by (auto simp: table_flows_def simple_flows_def)
  obtain pmd3 where p3: "(if dp_netdev_flow_is_simple_match Y mt then dp_netdev_simple_match_insert Y pmd2 f else Inr pmd2) = Inr pmd3"
    "pmd_ok Y others pmd3" "table_flows pmd3 = table_flows pmd2"
    "simple_flows pmd3 = (if dp_netdev_flow_is_simple_match Y mt then insert f (simple_flows pmd) else simple_flows pmd)"
    "fi_flow (pm_info pmd3 f) = match_flow mt" "fi_ufid (pm_info pmd3 f) = ufid" "fi_actions (pm_info pmd3 f) = actions"
    "pm_classifiers pmd3 = pm_classifiers pmd2"
  proof (cases "dp_netdev_flow_is_simple_match Y mt")
    case True
    have nm: "\<forall>g\<in>simple_flows pmd2. flow_mark Y (fi_flow (pm_info pmd2 g)) \<noteq> flow_mark Y (fi_flow (pm_info pmd2 f))"
      using marks [OF True] nosim by (auto simp: p2(3,4) i_def)
    show ?thesis
      using simple_insert_ok [OF Y p2(1) _ _ nm] nosim True by (auto simp: p2(2,3,4) i_def intro!: that)
  next
    case False
    then show ?thesis using p2 that [of pmd2] by (simp add: i_def)
  qed
  define pmd4 where "pmd4 = queue_netdev_flow_put Y pmd3 f actions Offload_Add"
  have "0 < dc_refs (pm_dfc pmd3) f" by (rule table_flow_refs [OF p3(2)]) (simp add: p3(3) p2(2))
  note p4 = offload_put_ok [OF Y p3(2) this pmd4_def]
  have "dp_netdev_flow_add Y pmd mt ufid actions orig_in_port = Inr (f, pmd4)"
  proof -
    have sub: "subtable_at (cl_tables c') (the (ru_mask r)) = Inr st" by (simp add: st subtable_at_def)
    have "dp_netdev_flow_add Y pmd mt ufid actions orig_in_port =
        bindr (if dp_netdev_flow_is_simple_match Y mt then dp_netdev_simple_match_insert Y pmd2 f else Inr pmd2)
          (\<lambda>pmd. Inr (f, queue_netdev_flow_put Y pmd f actions Offload_Add))"
      by (simp add: dp_netdev_flow_add_def flow_add_mask [OF msk] msk_def [symmetric] Let_def f [symmetric] key
        port_def [symmetric] find ins sub pmd2_def dfc_def i_def)
    then show ?thesis unfolding p3(1) by (simp add: pmd4_def)
  qed
  moreover have "c' \<in> set (pm_classifiers pmd4)"
    using fd(2) c'(2) by (auto simp: p4(5) p3(8) p2(5) store_dpcls_def)
  then have "dp_netdev_pmd_lookup_dpcls (pm_classifiers pmd4) port = Some c'"
    using lookup_dpcls [OF classes_okD(1) [OF pmd_okD(2) [OF p4(1)]]] c'(2) fd(3) by simp
  ultimately show ?thesis
    using p4 p3 p2(2,6) rules unfolding port_def by (intro exI [of _ pmd4] exI [of _ c']) simp
qed

section \<open>Removing a flow\<close>

lemma tables_ok_del:
  assumes t: "tables_ok Y info ft st nf ns" and f: "(h, f) \<in> set ft" "f \<notin> snd ` set st"
  shows "\<exists>n. ccmap_dec nf (ff_in_port Y (fi_flow (info f))) = Inr n \<and> tables_ok Y (info(f := i)) (remove1 (h, f) ft) st n ns"
proof -
  note D = tables_okD [OF t]
  note R = snd_remove1 [OF D(1) f(1)]
  have ft: "(info(f := i)) g = info g" if "g \<in> snd ` set (remove1 (h, f) ft)" for g using that unfolding R(2) by auto
  have st: "(info(f := i)) g = info g" if "g \<in> snd ` set st" for g using that f(2) by auto
  have sub: "set (remove1 (h, f) ft) \<subseteq> set ft" by (rule set_remove1_subset)
  have "nf = ccmap_inc (port_count Y info (remove1 (h, f) ft)) (ff_in_port Y (fi_flow (info f)))"
    unfolding D(7) by (rule port_count_remove [OF f(1)])
  then have "ccmap_dec nf (ff_in_port Y (fi_flow (info f))) = Inr (port_count Y info (remove1 (h, f) ft))"
    by (simp add: dec_inc)
  moreover have "tables_ok Y (info(f := i)) (remove1 (h, f) ft) st (port_count Y info (remove1 (h, f) ft)) ns"
  proof (rule tables_okI)
    show "h' = dp_netdev_flow_hash Y (fi_ufid ((info(f := i)) g)) \<and> \<not> fi_dead ((info(f := i)) g)"
      if "(h', g) \<in> set (remove1 (h, f) ft)" for h' g
    proof -
      have "(info(f := i)) g = info g" using that by (intro ft) force
      then show ?thesis using D(2) [of h' g] that sub by auto
    qed
    show "fi_simple_match_mark ((info(f := i)) g) = flow_mark Y (fi_flow ((info(f := i)) g)) \<and>
        h' = ff_hash_uint64 Y (flow_mark Y (fi_flow ((info(f := i)) g)))" if "(h', g) \<in> set st" for h' g
    proof -
      have "(info(f := i)) g = info g" using that by (intro st) force
      then show ?thesis using D(5) [OF that] by simp
    qed
    show "inj_on (\<lambda>g. flow_mark Y (fi_flow ((info(f := i)) g))) (snd ` set st)"
      using D(6) st by (simp add: inj_on_def)
    show "ns = port_count Y (info(f := i)) st"
      unfolding D(8) by (rule port_count_cong [symmetric]) (simp only: st)
    show "port_count Y info (remove1 (h, f) ft) = port_count Y (info(f := i)) (remove1 (h, f) ft)"
      by (rule port_count_cong [symmetric]) (simp only: ft)
    show "distinct (map snd (remove1 (h, f) ft))" by (rule R(1))
    show "snd ` set st \<subseteq> snd ` set (remove1 (h, f) ft)" unfolding R(2) using D(4) f(2) by blast
  qed (rule D(3))
  ultimately show ?thesis by blast
qed

lemma classes_remove:
  assumes Y: "cls_env_ok (sy_cls Y)" and ok: "classes_ok Y classifiers info T" and f: "f \<in> T"
    and i: "fi_rule i = fi_rule (info f)" "fi_flow i = fi_flow (info f)"
  shows "\<exists>c c'. dp_netdev_pmd_lookup_dpcls classifiers (ff_in_port Y (fi_flow (info f))) = Some c \<and>
    dpcls_remove (sy_cls Y) c (fi_rule (info f)) = Inr c' \<and> classes_ok Y (store_dpcls classifiers c') (info(f := i)) (T - {f}) \<and>
    f \<notin> fst ` cls_rules (ce_flow (sy_cls Y)) (cl_tables c') \<and> cl_in_port c' = cl_in_port c"
proof -
  note D = classes_okD [OF ok]
  obtain c where c: "c \<in> set classifiers" "cl_in_port c = ff_in_port Y (fi_flow (info f))"
    using D(5) [OF f] by auto
  have r: "fi_rule (info f) \<in> cls_stored c" "ru_id (fi_rule (info f)) = f"
    using D(3) [OF c(1)] f c(2) D(4) [OF f] by auto
  then obtain p st where "cl_tables c p = Some st" "fi_rule (info f) \<in> set (st_rules st)" by (auto simp: cls_stored_def)
  then obtain c' where c': "dpcls_remove (sy_cls Y) c (fi_rule (info f)) = Inr c'" "cls_ok (sy_cls Y) c'" "cl_in_port c' = cl_in_port c"
    using dpcls_remove [OF Y D(2) [OF c(1)], of p st "fi_rule (info f)"] by blast
  have stored: "cls_stored c' = {q \<in> cls_stored c. ru_id q \<noteq> f}"
    using remove_stored [OF D(2) [OF c(1)] r(1) c'(1)] r(2) by simp
  have "classes_ok Y (store_dpcls classifiers c') (info(f := i)) (T - {f})"
  proof (rule store_dpcls_ok [OF ok c(1) c'(2,3)])
    show "cls_stored c' = (\<lambda>g. fi_rule ((info(f := i)) g)) ` {g \<in> T - {f}. ff_in_port Y (fi_flow ((info(f := i)) g)) = cl_in_port c}"
      (is "_ = ?R")
    proof -
      have "?R = (\<lambda>g. fi_rule (info g)) ` {g \<in> T - {f}. ff_in_port Y (fi_flow (info g)) = cl_in_port c}"
        by (intro image_cong) auto
      moreover have "{q \<in> cls_stored c. ru_id q \<noteq> f} = (\<lambda>g. fi_rule (info g)) ` {g \<in> T - {f}. ff_in_port Y (fi_flow (info g)) = cl_in_port c}"
        unfolding D(3) [OF c(1)] using D(4) by auto
      ultimately show ?thesis using stored by simp
    qed
    show "g \<in> T - {f} \<and> (info(f := i)) g = info g" if "ff_in_port Y (fi_flow (info g)) \<noteq> cl_in_port c" "g \<in> T" for g
      using that c(2) by auto
    show "g \<in> T \<and> (info(f := i)) g = info g" if "g \<in> T - {f}" for g using that by simp
    show "ru_id (fi_rule ((info(f := i)) g)) = g" if "g \<in> T - {f}" for g using that D(4) [of g] by simp
  qed
  moreover have "f \<notin> fst ` cls_rules (ce_flow (sy_cls Y)) (cl_tables c')"
    unfolding fst_cls_rules stored by blast
  moreover have "dp_netdev_pmd_lookup_dpcls classifiers (ff_in_port Y (fi_flow (info f))) = Some c"
    using lookup_dpcls [OF D(1)] c by simp
  ultimately show ?thesis using c'(1,3) by blast
qed

lemma flow_remove:
  assumes Y: "sys_ok Y" and ok: "pmd_ok Y others pmd" and f: "f \<in> table_flows pmd"
  shows "\<exists>pmd'. dp_netdev_pmd_remove_flow Y pmd f = Inr pmd' \<and> pmd_ok Y others pmd' \<and>
    table_flows pmd' = table_flows pmd - {f} \<and> simple_flows pmd' = simple_flows pmd - {f} \<and>
    pm_info pmd' = (pm_info pmd)(f := (pm_info pmd f)\<lparr>fi_dead := True\<rparr>) \<and>
    (\<forall>c. dp_netdev_pmd_lookup_dpcls (pm_classifiers pmd') (flow_port Y pmd f) = Some c \<longrightarrow>
       f \<notin> fst ` cls_rules (ce_flow (sy_cls Y)) (cl_tables c))"
proof -
  have C: "cls_env_ok (sy_cls Y)" using Y by (simp add: sys_ok_def)
  note ok' = pmd_okD [OF ok]
  define i where "i = (pm_info pmd f)\<lparr>fi_dead := True\<rparr>"
  obtain c c' where c: "dp_netdev_pmd_lookup_dpcls (pm_classifiers pmd) (flow_port Y pmd f) = Some c"
    "dpcls_remove (sy_cls Y) c (fi_rule (pm_info pmd f)) = Inr c'"
    "classes_ok Y (store_dpcls (pm_classifiers pmd) c') ((pm_info pmd)(f := i)) (table_flows pmd - {f})"
    "f \<notin> fst ` cls_rules (ce_flow (sy_cls Y)) (cl_tables c')" "cl_in_port c' = cl_in_port c"
    using classes_remove [OF C ok'(2) f, of i] by (auto simp: i_def flow_port_def)
  define pmd1 where "pmd1 = pmd\<lparr>pm_classifiers := store_dpcls (pm_classifiers pmd) c'\<rparr>"
  have t1: "tables_ok Y (pm_info pmd1) (pm_flow_table pmd) (pm_simple_match_table pmd1) (pm_n_flows pmd) (pm_n_simple_flows pmd1)"
    using ok'(1) by (simp add: pmd1_def)
  have d1: "pm_info pmd1 = pm_info pmd" "pm_dfc pmd1 = pm_dfc pmd" by (simp_all add: pmd1_def)
  have S1: "simple_flows pmd1 = simple_flows pmd" by (simp add: pmd1_def simple_flows_def)
  define refs1 where "refs1 = (if f \<in> simple_flows pmd then (dc_refs (pm_dfc pmd))(f := dc_refs (pm_dfc pmd) f - 1) else dc_refs (pm_dfc pmd))"
  obtain st ns where rm: "dp_netdev_simple_match_remove Y pmd1 f =
      Inr (set_refs (pmd1\<lparr>pm_simple_match_table := st, pm_n_simple_flows := ns\<rparr>) refs1)"
    and t2: "tables_ok Y (pm_info pmd) (pm_flow_table pmd) st (pm_n_flows pmd) ns" and st: "snd ` set st = simple_flows pmd - {f}"
    using simple_remove [OF Y t1, of f] unfolding S1 d1 refs1_def [symmetric] by blast
  define pmd2 where "pmd2 = set_refs (pmd1\<lparr>pm_simple_match_table := st, pm_n_simple_flows := ns\<rparr>) refs1"
  obtain h where h: "(h, f) \<in> set (pm_flow_table pmd)" using f by (auto simp: table_flows_def)
  have hash: "h = dp_netdev_flow_hash Y (fi_ufid (pm_info pmd f))" using tables_okD(2) [OF ok'(1) h] by blast
  obtain n where n: "ccmap_dec (pm_n_flows pmd) (flow_port Y pmd f) = Inr n"
    and t3: "tables_ok Y ((pm_info pmd)(f := i)) (remove1 (h, f) (pm_flow_table pmd)) st n ns"
    using tables_ok_del [OF t2 h, of i] st by (auto simp: flow_port_def)
  define pmd3 where "pmd3 = pmd2\<lparr>pm_flow_table := remove1 (h, f) (pm_flow_table pmd), pm_n_flows := n\<rparr>"
  have refs3: "dc_refs (pm_dfc pmd3) = refs1" by (simp add: pmd3_def pmd2_def)
  have refs1: "refs1 g = held (table_flows pmd) (simple_flows pmd - {f}) (pm_offloads pmd) (dc_emc (pm_dfc pmd)) others g" for g
    using ok'(3) by (auto simp: refs1_def held_def)
  then have "0 < dc_refs (pm_dfc pmd3) f" unfolding refs3 using f by (simp add: held_def)
  then obtain items where q: "queue_netdev_flow_del Y pmd3 f = set_refs (pmd3\<lparr>pm_offloads := items\<rparr>)
        (\<lambda>g. dc_refs (pm_dfc pmd3) g + (offload_refs items g - offload_refs (pm_offloads pmd3) g))"
    and le: "\<forall>g. offload_refs (pm_offloads pmd3) g \<le> offload_refs items g"
    using offload_put [OF Y _ disjI2 [OF refl], of pmd3 f] by blast
  define pmd4 where "pmd4 = set_info (queue_netdev_flow_del Y pmd3 f) f i"
  define pmd5 where "pmd5 = set_refs pmd4 (dp_netdev_flow_unref (sy_dfc Y) (dc_refs (pm_dfc pmd4)) f)"
  have sel: "pm_info pmd3 = pm_info pmd" "pm_offloads pmd3 = pm_offloads pmd" "dc_emc (pm_dfc pmd3) = dc_emc (pm_dfc pmd)"
    "pm_flow_table pmd3 = remove1 (h, f) (pm_flow_table pmd)" "pm_simple_match_table pmd3 = st" "pm_n_flows pmd3 = n"
    "pm_n_simple_flows pmd3 = ns" "pm_classifiers pmd3 = store_dpcls (pm_classifiers pmd) c'"
    by (simp_all add: pmd3_def pmd2_def pmd1_def)
  have "dp_netdev_pmd_remove_flow Y pmd f = Inr pmd5"
  proof -
    have cm: "cmap_remove (pm_flow_table pmd) f h = Inr (remove1 (h, f) (pm_flow_table pmd))" using h by (simp add: cmap_remove_def)
    have "pm_flow_table pmd2 = pm_flow_table pmd" "pm_n_flows pmd2 = pm_n_flows pmd" "pm_info pmd2 = pm_info pmd"
      by (simp_all add: pmd2_def pmd1_def)
    moreover have "pm_info (queue_netdev_flow_del Y pmd3 f) f = pm_info pmd f" unfolding q by (simp add: sel)
    ultimately show ?thesis
      unfolding dp_netdev_pmd_remove_flow_def Let_def c(1) option.case c(2) bindr_Inr pmd1_def [symmetric] rm pmd2_def [symmetric]
      by (simp add: hash [symmetric] cm n pmd3_def [symmetric] pmd4_def pmd5_def i_def)
  qed
  moreover have T5: "table_flows pmd5 = table_flows pmd - {f}" "simple_flows pmd5 = simple_flows pmd - {f}"
    "pm_info pmd5 = (pm_info pmd)(f := i)" "pm_classifiers pmd5 = store_dpcls (pm_classifiers pmd) c'"
    using st snd_remove1(2) [OF tables_okD(1) [OF ok'(1)] h]
    by (simp_all add: pmd5_def pmd4_def q set_info_def sel table_flows_def simple_flows_def)
  moreover have "dc_refs (pm_dfc pmd5) = held (table_flows pmd5) (simple_flows pmd5) (pm_offloads pmd5) (dc_emc (pm_dfc pmd5)) others"
  proof
    fix g
    have "dc_refs (pm_dfc pmd5) g = refs1 g + (offload_refs items g - offload_refs (pm_offloads pmd) g) - (if g = f then 1 else 0)"
      by (simp add: pmd5_def unref_upd [OF Y] pmd4_def q set_info_def refs3 sel)
    moreover have "pm_offloads pmd5 = items" "dc_emc (pm_dfc pmd5) = dc_emc (pm_dfc pmd)"
      by (simp_all add: pmd5_def pmd4_def q set_info_def sel)
    moreover have "offload_refs (pm_offloads pmd) g \<le> offload_refs items g" using le sel(2) by simp
    ultimately show "dc_refs (pm_dfc pmd5) g = held (table_flows pmd5) (simple_flows pmd5) (pm_offloads pmd5) (dc_emc (pm_dfc pmd5)) others g"
      unfolding T5 refs1 using f by (auto simp: held_def)
  qed
  moreover have "tables_ok Y (pm_info pmd5) (pm_flow_table pmd5) (pm_simple_match_table pmd5) (pm_n_flows pmd5) (pm_n_simple_flows pmd5)"
    using t3 by (simp add: pmd5_def pmd4_def q set_info_def sel)
  ultimately have "pmd_ok Y others pmd5" using c(3) by (simp add: pmd_ok_def)
  moreover have "d = c'" if "dp_netdev_pmd_lookup_dpcls (pm_classifiers pmd5) (flow_port Y pmd f) = Some d" for d
  proof -
    have port: "c \<in> set (pm_classifiers pmd)" "cl_in_port c = flow_port Y pmd f"
      using lookup_dpcls [OF classes_okD(1) [OF ok'(2)]] c(1) by blast+
    then have "c' \<in> set (pm_classifiers pmd5)" using c(5) by (auto simp: T5(4) store_dpcls_def)
    then have "dp_netdev_pmd_lookup_dpcls (pm_classifiers pmd5) (flow_port Y pmd f) = Some c'"
      using lookup_dpcls [OF classes_okD(1) [OF c(3)]] port(2) c(5) unfolding T5(4) by simp
    then show ?thesis using that by simp
  qed
  ultimately show ?thesis using \<open>dp_netdev_pmd_remove_flow Y pmd f = Inr pmd5\<close> T5 c(4) by (auto simp: i_def)
qed

end
