(* ===== verification/Dpif_Flow_Properties.thy ===== *)
theory Dpif_Flow_Properties
  imports Dpif_Flow_Ops Dpif_Cache_Properties
begin

text \<open>
  Properties of the flow table: what adding and removing a flow do to the tables, the classifier
  and the references, that this and insertions into the exact match cache keep the invariant of
  a thread in every reachable state, and what the simple match table answers.
\<close>

section \<open>Steps of a thread\<close>

text \<open>
  A step adds a flow whose memory is not in use, removes a flow of the flow table or inserts a
  key and a flow into the exact match cache.
\<close>

definition add_allowed :: "'flow flow_sys \<Rightarrow> 'flow pmd_thread \<Rightarrow> 'flow match \<Rightarrow> bool" where
  "add_allowed Y pmd mt \<longleftrightarrow> ff_in_port Y (match_masks mt) = ODPP_NONE \<and>
     \<not> ff_has_metadata Y (nk_map (netdev_flow_mask_init (ce_flow (sy_cls Y)) fresh_key (stored_match Y mt))) \<and>
     dc_refs (pm_dfc pmd) (sy_alloc Y (pm_allocs pmd)) = 0 \<and>
     (dp_netdev_flow_is_simple_match Y mt \<longrightarrow>
        (\<forall>g\<in>simple_flows pmd. flow_mark Y (fi_flow (pm_info pmd g)) \<noteq> flow_mark Y (match_flow mt)))"

inductive flow_step :: "'flow flow_sys \<Rightarrow> 'flow pmd_thread \<Rightarrow> 'flow pmd_thread \<Rightarrow> bool" for Y where
  step_add: "add_allowed Y pmd mt \<Longrightarrow> dp_netdev_flow_add Y pmd mt ufid actions port = Inr (f, pmd') \<Longrightarrow> flow_step Y pmd pmd'"
| step_remove: "f \<in> table_flows pmd \<Longrightarrow> dp_netdev_pmd_remove_flow Y pmd f = Inr pmd' \<Longrightarrow> flow_step Y pmd pmd'"
| step_emc: "\<forall>p\<in>set (df_positions (sy_dfc Y) (nk_hash key)). p < length (dc_emc (pm_dfc pmd)) \<Longrightarrow>
     emc_probabilistic_insert (sy_dfc Y) (pm_dfc pmd) key f = Inr dfc \<Longrightarrow> flow_step Y pmd (pmd\<lparr>pm_dfc := dfc\<rparr>)"

inductive_cases flow_stepE: "flow_step Y pmd pmd'"

lemma emc_step_ok:
  assumes Y: "sys_ok Y" and ok: "pmd_ok Y others pmd"
    and pos: "\<forall>p\<in>set (df_positions (sy_dfc Y) (nk_hash key)). p < length (dc_emc (pm_dfc pmd))"
    and ins: "emc_probabilistic_insert (sy_dfc Y) (pm_dfc pmd) key f = Inr dfc"
  shows "pmd_ok Y others (pmd\<lparr>pm_dfc := dfc\<rparr>)"
proof -
  define rest where "rest g = held (table_flows pmd) (simple_flows pmd) (pm_offloads pmd) [] others g" for g
  have rest: "held (table_flows pmd) (simple_flows pmd) (pm_offloads pmd) cache others g = rest g + emc_refs cache g" for cache g
    by (simp add: rest_def held_def emc_refs_def)
  have "emc_counted (pm_dfc pmd) rest"
    using pmd_okD(3) [OF ok] by (simp add: emc_counted_def rest)
  then have k: "emc_kept (pm_dfc pmd) rest (pm_dfc pmd)" by (simp add: emc_kept_def)
  have V: "dfc_env_ok (sy_dfc Y)" using Y by (simp add: sys_ok_def)
  have "emc_counted dfc rest"
    using emc_probabilistic_kept [OF V k pos, of f] ins by (auto simp: emc_kept_def)
  then have "dc_refs dfc = held (table_flows pmd) (simple_flows pmd) (pm_offloads pmd) (dc_emc dfc) others"
    by (simp add: emc_counted_def fun_eq_iff rest)
  then show ?thesis using pmd_okD(1,2) [OF ok] by (simp add: pmd_ok_def table_flows_def simple_flows_def)
qed

lemma flow_step_ok:
  assumes "sys_ok Y" and "pmd_ok Y others pmd" and "flow_step Y pmd pmd'"
  shows "pmd_ok Y others pmd'"
  using assms(3)
proof (elim flow_stepE)
  fix mt ufid actions port f
  assume "add_allowed Y pmd mt" "dp_netdev_flow_add Y pmd mt ufid actions port = Inr (f, pmd')"
  then show ?thesis
    using flow_add [OF assms(1,2) _ _ refl, of mt ufid actions port] by (auto simp: add_allowed_def)
next
  fix f
  assume "f \<in> table_flows pmd" "dp_netdev_pmd_remove_flow Y pmd f = Inr pmd'"
  then show ?thesis using flow_remove [OF assms(1,2), of f] by auto
next
  fix key f dfc
  assume "pmd' = pmd\<lparr>pm_dfc := dfc\<rparr>" "emc_probabilistic_insert (sy_dfc Y) (pm_dfc pmd) key f = Inr dfc"
    "\<forall>p\<in>set (df_positions (sy_dfc Y) (nk_hash key)). p < length (dc_emc (pm_dfc pmd))"
  then show ?thesis using emc_step_ok [OF assms(1,2)] by simp
qed

lemma flow_steps_ok:
  assumes "sys_ok Y" and "(flow_step Y)\<^sup>*\<^sup>* pmd pmd'" and "pmd_ok Y others pmd"
  shows "pmd_ok Y others pmd'"
  using assms(2,3) by (induction rule: rtranclp_induct) (blast intro: flow_step_ok [OF assms(1)])+

text \<open>A thread without flows.\<close>

definition no_flows :: "'flow pmd_thread \<Rightarrow> bool" where
  "no_flows pmd \<longleftrightarrow> pm_classifiers pmd = [] \<and> pm_flow_table pmd = [] \<and> pm_simple_match_table pmd = [] \<and>
     pm_n_flows pmd = (\<lambda>p. 0) \<and> pm_n_simple_flows pmd = (\<lambda>p. 0) \<and> pm_offloads pmd = [] \<and>
     (\<forall>ce\<in>set (dc_emc (pm_dfc pmd)). em_flow ce = None) \<and> dc_refs (pm_dfc pmd) = (\<lambda>f. 0)"

lemma no_flows_ok:
  assumes "no_flows pmd"
  shows "pmd_ok Y (\<lambda>f. 0) pmd"
proof -
  have "emc_refs (dc_emc (pm_dfc pmd)) f = 0" for f
    using assms by (auto simp: no_flows_def emc_refs_def filter_empty_conv)
  then show ?thesis using assms
    by (auto simp: no_flows_def pmd_ok_def table_flows_def simple_flows_def tables_ok_def classes_ok_def held_def
      offload_refs_def port_count_def fun_eq_iff)
qed

text \<open>The number of flows of a port in a table, and the flows that are missing in the other one.\<close>

lemma port_count_card:
  assumes "distinct (map snd table)"
  shows "port_count Y info table port = card {f \<in> snd ` set table. ff_in_port Y (fi_flow (info f)) = port}"
proof -
  have "port_count Y info table port = length (filter (\<lambda>f. ff_in_port Y (fi_flow (info f)) = port) (map snd table))"
    by (simp add: port_count_def filter_map o_def)
  also have "\<dots> = card (set (filter (\<lambda>f. ff_in_port Y (fi_flow (info f)) = port) (map snd table)))"
    by (rule distinct_card [symmetric]) (use assms in simp)
  finally show ?thesis by simp
qed

lemma simple_enabled:
  assumes "pmd_ok Y others pmd"
  shows "dp_netdev_simple_match_enabled pmd port \<longleftrightarrow> (\<forall>f\<in>table_flows pmd. flow_port Y pmd f = port \<longrightarrow> f \<in> simple_flows pmd)"
proof -
  note t = tables_okD [OF pmd_okD(1) [OF assms]]
  let ?A = "{f \<in> table_flows pmd. flow_port Y pmd f = port}"
  let ?B = "{f \<in> simple_flows pmd. flow_port Y pmd f = port}"
  have "pm_n_flows pmd port = card ?A" "pm_n_simple_flows pmd port = card ?B"
    using port_count_card [OF t(1), of Y "pm_info pmd" port] port_count_card [OF t(3), of Y "pm_info pmd" port] t(7,8)
    by (simp_all add: table_flows_def simple_flows_def flow_port_def)
  moreover have "finite ?A" by (simp add: table_flows_def)
  moreover have "?B \<subseteq> ?A" using t(4) by (auto simp: table_flows_def simple_flows_def)
  ultimately have "dp_netdev_simple_match_enabled pmd port \<longleftrightarrow> ?B = ?A"
    using card_subset_eq [of ?A ?B] by (auto simp: dp_netdev_simple_match_enabled_def)
  then show ?thesis using \<open>?B \<subseteq> ?A\<close> by blast
qed

section \<open>An environment\<close>

text \<open>
  A flow is a list of words: the first one has the Ethernet type, the second the port, the third
  the VLAN.  The library functions are as documented in the parts that the model uses.
\<close>

definition demo_sys :: "u64 list flow_sys" where
  "demo_sys =
     \<lparr>sy_cls = demo_cls_env, sy_dfc = demo_dfc_env,
      ff_recirc_id = (\<lambda>f. 0), ff_in_port = (\<lambda>f. ucast (f ! 1)), ff_packet_type = (\<lambda>f. 0),
      ff_dl_type = (\<lambda>f. ucast (f ! 0)), ff_vlan_tci = (\<lambda>f. ucast (f ! 2)), ff_nw_frag = (\<lambda>f. 0),
      ff_set_recirc_id = (\<lambda>v f. f), ff_set_in_port = (\<lambda>v f. f[1 := ucast v]), ff_set_packet_type = (\<lambda>v f. f),
      ff_set_dl_type = (\<lambda>v f. f[0 := ucast v]), ff_set_vlan_tci = (\<lambda>v f. f[2 := ucast v]), ff_set_nw_frag = (\<lambda>v f. f),
      ff_catchall = [0, 0, 0], ff_has_extra = (\<lambda>a b. list_ex (\<lambda>(x, y). y AND NOT x \<noteq> 0) (zip a b)),
      ff_has_metadata = (\<lambda>m. False), ff_key_in_port = (\<lambda>k. 7),
      ff_hash_uint64 = ucast, ff_key_hash = (\<lambda>f. (ucast (f ! 0), ucast (f ! 1), ucast (f ! 2), 0)),
      dp_netdev_flow_hash = fst,
      sy_alloc = (\<lambda>n. n), sy_flow_api = True, sy_offload_status = (\<lambda>f. None)\<rparr>"

lemma demo_sys_sel [simp]:
  "ff_in_port demo_sys fl = ucast (fl ! 1)" "ff_dl_type demo_sys fl = ucast (fl ! 0)"
  "ff_vlan_tci demo_sys fl = ucast (fl ! 2)" "ff_nw_frag demo_sys fl = 0"
  by (simp_all add: demo_sys_def)

lemma demo_sys_ok: "sys_ok demo_sys"
  using demo_cls_env_ok demo_dfc_env_ok by (simp add: sys_ok_def demo_sys_def)

text \<open>A match on the type and the VLAN of the packets of port 7, which is a simple match.\<close>

definition demo_simple :: "u64 list match" where
  "demo_simple = \<lparr>match_flow = [0x0800, 7, 0x1005], match_masks = [0xffff, 0xffffffff, 0xff1f]\<rparr>"

definition demo_thread :: "u64 list pmd_thread" where
  "demo_thread =
     \<lparr>pm_dfc = demo_pmd\<lparr>dc_emc := replicate 4 \<lparr>em_flow = None, em_key = demo_key 9\<rparr>, dc_refs := \<lambda>f. 0\<rparr>,
      pm_classifiers = [], pm_flow_table = [], pm_simple_match_table = [], pm_n_flows = \<lambda>p. 0, pm_n_simple_flows = \<lambda>p. 0,
      pm_info = \<lambda>f. \<lparr>fi_flow = [], fi_ufid = (0, 0, 0, 0), fi_rule = \<lparr>ru_id = 0, ru_mask = None, ru_flow = fresh_key\<rparr>,
        fi_actions = [], fi_orig_in_port = 0, fi_dead = False, fi_simple_match_mark = 0, fi_stats = zero_stats\<rparr>,
      pm_offloads = [], pm_now = 0, pm_allocs = 5\<rparr>"

lemma demo_no_flows: "no_flows demo_thread"
  by (simp add: no_flows_def demo_thread_def)

lemma demo_thread_ok: "pmd_ok demo_sys (\<lambda>f. 0) demo_thread"
  by (rule no_flows_ok [OF demo_no_flows])

lemma ones: "ucast (- 1 :: u16) = (65535 :: u64)" "ucast (- 1 :: u32) = (4294967295 :: u64)"
  by code_simp+

lemma demo_simple_facts:
  "ff_in_port demo_sys (match_masks demo_simple) = ODPP_NONE" "\<not> ff_has_metadata demo_sys m"
  "dp_netdev_flow_is_simple_match demo_sys demo_simple" "sy_alloc demo_sys (pm_allocs demo_thread) = 5"
  "dc_refs (pm_dfc demo_thread) f = 0" "simple_flows demo_thread = {}" "table_flows demo_thread = {}"
  "ff_in_port demo_sys (match_flow demo_simple) = 7"
  by (simp_all add: demo_sys_def demo_simple_def demo_thread_def simple_flows_def table_flows_def ODPP_NONE_def
    dp_netdev_flow_is_simple_match_def minimal_wildcards_def htons_mask Let_def ones)

lemma demo_add_allowed: "add_allowed demo_sys demo_thread demo_simple"
  using demo_simple_facts by (simp add: add_allowed_def)

lemma demo_added:
  "\<exists>pmd. dp_netdev_flow_add demo_sys demo_thread demo_simple (1, 2, 3, 4) [9] ODPP_NONE = Inr (5, pmd) \<and>
    pmd_ok demo_sys (\<lambda>f. 0) pmd \<and> table_flows pmd = {5} \<and> simple_flows pmd = {5} \<and>
    fi_flow (pm_info pmd 5) = match_flow demo_simple"
  using flow_add [OF demo_sys_ok demo_thread_ok demo_simple_facts(1,2) refl, of "(1, 2, 3, 4)" "[9]" ODPP_NONE] demo_simple_facts
  by auto

definition demo_thread1 :: "u64 list pmd_thread" where
  "demo_thread1 = (case dp_netdev_flow_add demo_sys demo_thread demo_simple (1, 2, 3, 4) [9] ODPP_NONE of
     Inr (f, pmd) \<Rightarrow> pmd | Inl _ \<Rightarrow> demo_thread)"

lemma demo_thread1:
  "pmd_ok demo_sys (\<lambda>f. 0) demo_thread1" "table_flows demo_thread1 = {5}" "simple_flows demo_thread1 = {5}"
  "fi_flow (pm_info demo_thread1 5) = match_flow demo_simple"
  "dp_netdev_flow_add demo_sys demo_thread demo_simple (1, 2, 3, 4) [9] ODPP_NONE = Inr (5, demo_thread1)"
proof -
  obtain pmd where pmd: "dp_netdev_flow_add demo_sys demo_thread demo_simple (1, 2, 3, 4) [9] ODPP_NONE = Inr (5, pmd)"
    "pmd_ok demo_sys (\<lambda>f. 0) pmd" "table_flows pmd = {5}" "simple_flows pmd = {5}"
    "fi_flow (pm_info pmd 5) = match_flow demo_simple"
    using demo_added by blast
  have "demo_thread1 = pmd" by (simp add: demo_thread1_def pmd(1))
  then show "pmd_ok demo_sys (\<lambda>f. 0) demo_thread1" "table_flows demo_thread1 = {5}" "simple_flows demo_thread1 = {5}"
    "fi_flow (pm_info demo_thread1 5) = match_flow demo_simple"
    "dp_netdev_flow_add demo_sys demo_thread demo_simple (1, 2, 3, 4) [9] ODPP_NONE = Inr (5, demo_thread1)"
    using pmd by simp_all
qed

section \<open>Properties\<close>

text \<open>C28: Adding a flow whose match has an exact port, no metadata and no twin among the simple matches passes
  every assertion and keeps the invariant of the thread: the flow is in the flow table, in the
  simple match table exactly when its match is simple, and its classifier has a rule for it that
  matches the packets of the match; the counts of the port and the references follow.
\<close>

theorem flow_add_enters_the_flow:
  assumes "sys_ok Y" and "pmd_ok Y others pmd" and "add_allowed Y pmd mt" and "f = sy_alloc Y (pm_allocs pmd)"
  shows "\<exists>pmd' c. dp_netdev_flow_add Y pmd mt ufid actions orig_in_port = Inr (f, pmd') \<and> pmd_ok Y others pmd' \<and>
    f \<notin> table_flows pmd \<and> table_flows pmd' = insert f (table_flows pmd) \<and>
    simple_flows pmd' = (if dp_netdev_flow_is_simple_match Y mt then insert f (simple_flows pmd) else simple_flows pmd) \<and>
    fi_flow (pm_info pmd' f) = match_flow mt \<and> fi_ufid (pm_info pmd' f) = ufid \<and> fi_actions (pm_info pmd' f) = actions \<and>
    dp_netdev_pmd_lookup_dpcls (pm_classifiers pmd') (ff_in_port Y (match_flow mt)) = Some c \<and>
    (f, packet_matches (ce_flow (sy_cls Y)) (stored_match Y mt)) \<in> cls_rules (ce_flow (sy_cls Y)) (cl_tables c)"
  using assms(3,4) by (intro flow_add [OF assms(1,2)]) (simp_all add: add_allowed_def)

theorem flow_add_enters_the_flow_witness:
  "\<exists>pmd c. dp_netdev_flow_add demo_sys demo_thread demo_simple (1, 2, 3, 4) [9] ODPP_NONE = Inr (5, pmd) \<and>
    table_flows pmd = {5} \<and> simple_flows pmd = {5} \<and> dp_netdev_pmd_lookup_dpcls (pm_classifiers pmd) 7 = Some c"
  using flow_add_enters_the_flow [OF demo_sys_ok demo_thread_ok demo_add_allowed refl, of "(1, 2, 3, 4)" "[9]" ODPP_NONE]
    demo_simple_facts by auto

text \<open>C29: Removing a flow of the flow table passes every assertion and keeps the invariant of the
  thread: the flow is dead and in neither table, its classifier has no rule for it any more, all
  other flows are unchanged, and the references that the tables held are given up.
\<close>

theorem flow_remove_takes_the_flow_out:
  assumes "sys_ok Y" and "pmd_ok Y others pmd" and "f \<in> table_flows pmd"
  shows "\<exists>pmd'. dp_netdev_pmd_remove_flow Y pmd f = Inr pmd' \<and> pmd_ok Y others pmd' \<and>
    table_flows pmd' = table_flows pmd - {f} \<and> simple_flows pmd' = simple_flows pmd - {f} \<and>
    pm_info pmd' = (pm_info pmd)(f := (pm_info pmd f)\<lparr>fi_dead := True\<rparr>) \<and>
    (\<forall>c. dp_netdev_pmd_lookup_dpcls (pm_classifiers pmd') (flow_port Y pmd f) = Some c \<longrightarrow>
       f \<notin> fst ` cls_rules (ce_flow (sy_cls Y)) (cl_tables c))"
  by (rule flow_remove [OF assms])

theorem flow_remove_takes_the_flow_out_witness:
  "\<exists>pmd. dp_netdev_pmd_remove_flow demo_sys demo_thread1 5 = Inr pmd \<and> table_flows pmd = {} \<and> simple_flows pmd = {} \<and>
    fi_dead (pm_info pmd 5)"
  using flow_remove_takes_the_flow_out [OF demo_sys_ok demo_thread1(1), of 5] demo_thread1(2,3) by auto

text \<open>C30: From a thread without flows, over any sequence of additions, removals and insertions into
  the exact match cache, every flow has exactly one reference for each table, request of the
  offload threads and cache entry that refers to it: a flow that one of them still refers to is
  never freed, and a flow that none refers to has been.
\<close>

theorem reachable_threads_count_references:
  assumes "sys_ok Y" and "no_flows pmd" and "(flow_step Y)\<^sup>*\<^sup>* pmd pmd'"
  shows "dc_refs (pm_dfc pmd') f = (if f \<in> table_flows pmd' then 1 else 0) + (if f \<in> simple_flows pmd' then 1 else 0) +
    length (filter (\<lambda>i. of_flow i = f) (pm_offloads pmd')) + emc_refs (dc_emc (pm_dfc pmd')) f"
  using pmd_okD(3) [OF flow_steps_ok [OF assms(1,3) no_flows_ok [OF assms(2)]]] by (simp add: held_def offload_refs_def)

theorem reachable_threads_count_references_witness:
  "dc_refs (pm_dfc demo_thread1) 5 = 2 + length (filter (\<lambda>i. of_flow i = 5) (pm_offloads demo_thread1)) +
    emc_refs (dc_emc (pm_dfc demo_thread1)) 5"
proof -
  have "flow_step demo_sys demo_thread demo_thread1"
    by (rule step_add [OF demo_add_allowed demo_thread1(5)])
  then have "(flow_step demo_sys)\<^sup>*\<^sup>* demo_thread demo_thread1" by blast
  from reachable_threads_count_references [OF demo_sys_ok demo_no_flows this, of 5] show ?thesis
    by (simp add: demo_thread1(2,3))
qed

text \<open>The simple match table may replace the caches and the classifier for the packets of a
  port exactly when every flow of the port is in it, and then a lookup is exact: it finds a flow
  when and only when the port, the Ethernet type, the fragment bits and the VLAN are those of the
  flow.  No two of these keys share a mark.
\<close>

theorem simple_match_lookup_is_exact:
  assumes "pmd_ok Y others pmd"
  shows "(dp_netdev_simple_match_enabled pmd port \<longleftrightarrow> (\<forall>f\<in>table_flows pmd. flow_port Y pmd f = port \<longrightarrow> f \<in> simple_flows pmd)) \<and>
    (dp_netdev_simple_match_lookup Y pmd port dl_type nw_frag vlan_tci = Some f \<longleftrightarrow>
      f \<in> simple_flows pmd \<and> flow_port Y pmd f = port \<and> ff_dl_type Y (fi_flow (pm_info pmd f)) = dl_type \<and>
      ff_nw_frag Y (fi_flow (pm_info pmd f)) AND FLOW_NW_FRAG_MASK = nw_frag AND FLOW_NW_FRAG_MASK \<and>
      ff_vlan_tci Y (fi_flow (pm_info pmd f)) AND htons (VLAN_VID_MASK OR VLAN_CFI) =
        vlan_tci AND htons (VLAN_VID_MASK OR VLAN_CFI))"
  using simple_enabled [OF assms, of port] simple_lookup [OF pmd_okD(1) [OF assms], of port dl_type nw_frag vlan_tci f]
  by (simp add: flow_mark_def mark_eq_iff flow_port_def)

theorem simple_match_lookup_is_exact_witness:
  "dp_netdev_simple_match_enabled demo_thread1 7 \<and>
    dp_netdev_simple_match_lookup demo_sys demo_thread1 7 0x0800 0 0x1025 = Some 5"
  using simple_match_lookup_is_exact [OF demo_thread1(1), of 7 "0x0800" 0 "0x1025" 5]
  by (simp add: demo_thread1(2,3,4) demo_simple_def htons_mask flow_port_def)

end
