(* ===== verification/Dpif_Fast_Env.thy ===== *)
theory Dpif_Fast_Env
  imports Dpif_Fast_Loops Dpif_Flow_Properties
begin

text \<open>
  The interface of the fast path on the model's own operations: the invariant of a thread with
  its caches, what the library and the control plane have to keep, and that the operations on
  the caches, the classifiers and the flow table then return and keep the invariant.
\<close>

section \<open>What the operations of the flow table leave alone\<close>

definition apart_from :: "nat \<Rightarrow> 'flow pmd_thread \<Rightarrow> 'flow pmd_thread \<Rightarrow> bool" where
  "apart_from f pmd pmd' \<longleftrightarrow> pm_allocs pmd' = pm_allocs pmd \<and> dc_emc (pm_dfc pmd') = dc_emc (pm_dfc pmd) \<and>
     dc_smc (pm_dfc pmd') = dc_smc (pm_dfc pmd) \<and> dc_flows (pm_dfc pmd') = dc_flows (pm_dfc pmd) \<and>
     (\<forall>g. g \<noteq> f \<longrightarrow> dc_refs (pm_dfc pmd') g = dc_refs (pm_dfc pmd) g)"

lemma apart_refl [simp]: "apart_from f pmd pmd"
  by (simp add: apart_from_def)

lemma apart_trans: "apart_from f a b \<Longrightarrow> apart_from f b c \<Longrightarrow> apart_from f a c"
  by (simp add: apart_from_def)

lemma ref_other:
  assumes "dp_netdev_flow_ref V refs f = (ok, refs')" and "g \<noteq> f"
  shows "refs' g = refs g"
  using assms by (auto simp: dp_netdev_flow_ref_def split: option.splits)

lemma unref_other: "g \<noteq> f \<Longrightarrow> dp_netdev_flow_unref V refs f g = refs g"
  by (simp add: dp_netdev_flow_unref_def)

lemma apart_set_refs:
  assumes "\<And>g. g \<noteq> f \<Longrightarrow> refs g = dc_refs (pm_dfc pmd) g"
  shows "apart_from f pmd (set_refs pmd refs)"
  using assms by (simp add: apart_from_def set_refs_def)

lemma simple_remove_apart:
  assumes "dp_netdev_simple_match_remove Y pmd f = Inr pmd'"
  shows "apart_from f pmd pmd'"
  using assms unref_other [of _ f "sy_dfc Y" "dc_refs (pm_dfc pmd)"]
  by (auto simp: dp_netdev_simple_match_remove_def Let_def fault_simps apart_from_def set_refs_def split: if_splits)

lemma simple_insert_apart:
  assumes "dp_netdev_simple_match_insert Y pmd f = Inr pmd'"
  shows "apart_from f pmd pmd'"
proof -
  obtain ok refs where r: "dp_netdev_flow_ref (sy_dfc Y) (dc_refs (pm_dfc pmd)) f = (ok, refs)" by fastforce
  show ?thesis
  proof (cases ok)
    case False
    then show ?thesis using assms r by (simp add: dp_netdev_simple_match_insert_def)
  next
    case True
    obtain pmd1 where p1: "dp_netdev_simple_match_remove Y (set_refs pmd refs) f = Inr pmd1"
      using assms r True by (auto simp: dp_netdev_simple_match_insert_def Let_def fault_simps)
    have "apart_from f pmd (set_refs pmd refs)" by (rule apart_set_refs) (rule ref_other [OF r])
    then have "apart_from f pmd pmd1" using simple_remove_apart [OF p1] by (rule apart_trans)
    moreover have "apart_from f pmd1 pmd'"
      using assms r True p1 by (auto simp: dp_netdev_simple_match_insert_def Let_def apart_from_def set_info_def)
    ultimately show ?thesis by (rule apart_trans)
  qed
qed

lemma flow_put_apart: "apart_from f pmd (queue_netdev_flow_put Y pmd f actions opr)"
proof -
  obtain ok refs where r: "dp_netdev_flow_ref (sy_dfc Y) (dc_refs (pm_dfc pmd)) f = (ok, refs)" by fastforce
  show ?thesis using ref_other [OF r]
    by (simp add: queue_netdev_flow_put_def dp_netdev_alloc_flow_offload_def r apart_from_def set_refs_def)
qed

lemma flow_add_apart:
  assumes Y: "sys_ok Y" and ok: "pmd_ok Y others pmd" and allowed: "add_allowed Y pmd mt"
    and add: "dp_netdev_flow_add Y pmd mt ufid actions port = Inr (f, pmd')"
  shows "\<exists>fl. flow_ok (sy_dfc Y) fl \<and> pm_allocs pmd' = pm_allocs pmd + 1 \<and> f = sy_alloc Y (pm_allocs pmd) \<and>
    dc_emc (pm_dfc pmd') = dc_emc (pm_dfc pmd) \<and> dc_smc (pm_dfc pmd') = dc_smc (pm_dfc pmd) \<and>
    dc_flows (pm_dfc pmd') = (dc_flows (pm_dfc pmd))(f := fl) \<and>
    (\<forall>g. g \<noteq> f \<longrightarrow> dc_refs (pm_dfc pmd') g = dc_refs (pm_dfc pmd) g)"
proof -
  let ?E = "ce_flow (sy_cls Y)"
  have msk: "ff_in_port Y (match_masks mt) = ODPP_NONE" "\<not> ff_has_metadata Y (nk_map (netdev_flow_mask_init ?E fresh_key (stored_match Y mt)))"
    and new: "dc_refs (pm_dfc pmd) (sy_alloc Y (pm_allocs pmd)) = 0"
    using allowed by (simp_all add: add_allowed_def)
  define g where "g = sy_alloc Y (pm_allocs pmd)"
  define prt where "prt = ff_in_port Y (match_flow mt)"
  define m where "m = netdev_flow_mask_init ?E fresh_key (stored_match Y mt)"
  obtain c classifiers where find: "dp_netdev_pmd_find_dpcls (pm_classifiers pmd) prt = (c, classifiers)"
    by (cases "dp_netdev_pmd_find_dpcls (pm_classifiers pmd) prt")
  have fd: "classes_ok Y classifiers (pm_info pmd) (table_flows pmd)" "c \<in> set classifiers"
    using find_dpcls [OF pmd_okD(2) [OF ok] find] by blast+
  have nt: "g \<notin> table_flows pmd"
    using held_zero(1) [of "table_flows pmd" "simple_flows pmd" "pm_offloads pmd" "dc_emc (pm_dfc pmd)" others g]
      new pmd_okD(3) [OF ok] by (simp add: g_def)
  obtain key r c' p st where key: "netdev_flow_key_init_masked ?E fresh_key (match_flow mt) m = Inr key"
    and ins: "dpcls_insert (sy_cls Y) c \<lparr>ru_id = g, ru_mask = None, ru_flow = key\<rparr> m = Inr (r, c')"
    and st: "ru_mask r = Some p" "cl_tables c' p = Some st"
    and fl: "flow_ok (sy_dfc Y) \<lparr>fl_mask = st_mask st, fl_key = key, fl_in_port = prt, fl_hash = dp_netdev_flow_hash Y ufid\<rparr>"
    by (rule flow_add_class [OF Y fd nt m_def])
  define fl0 where "fl0 = \<lparr>fl_mask = st_mask st, fl_key = key, fl_in_port = prt, fl_hash = dp_netdev_flow_hash Y ufid\<rparr>"
  define i where "i = \<lparr>fi_flow = match_flow mt, fi_ufid = ufid, fi_rule = r, fi_actions = actions,
                 fi_orig_in_port = port, fi_dead = False, fi_simple_match_mark = 0, fi_stats = zero_stats\<rparr>"
  define pmd2 where "pmd2 = flow_add_enter Y (pmd\<lparr>pm_allocs := pm_allocs pmd + 1, pm_classifiers := store_dpcls classifiers c',
       pm_info := (pm_info pmd)(g := i),
       pm_dfc := (pm_dfc pmd)\<lparr>dc_refs := (dc_refs (pm_dfc pmd))(g := 1), dc_flows := (dc_flows (pm_dfc pmd))(g := fl0)\<rparr>\<rparr>) g ufid prt"
  have sub: "subtable_at (cl_tables c') (the (ru_mask r)) = Inr st" by (simp add: st subtable_at_def)
  have e: "dp_netdev_flow_add Y pmd mt ufid actions port =
      bindr (if dp_netdev_flow_is_simple_match Y mt then dp_netdev_simple_match_insert Y pmd2 g else Inr pmd2)
        (\<lambda>pmd. Inr (g, queue_netdev_flow_put Y pmd g actions Offload_Add))"
    by (simp add: dp_netdev_flow_add_def flow_add_mask [OF msk] m_def [symmetric] Let_def g_def [symmetric] key
      prt_def [symmetric] find ins sub pmd2_def fl0_def i_def)
  obtain pmd3 where p3: "(if dp_netdev_flow_is_simple_match Y mt then dp_netdev_simple_match_insert Y pmd2 g else Inr pmd2) = Inr pmd3"
    "pmd' = queue_netdev_flow_put Y pmd3 g actions Offload_Add" "f = g"
    using add [unfolded e] by (auto simp: bindr_eq_Inr_iff)
  have "apart_from g pmd2 pmd3" using p3(1) simple_insert_apart [of Y pmd2 g pmd3] by (auto split: if_splits)
  then have "apart_from g pmd2 pmd'" unfolding p3(2) using flow_put_apart by (rule apart_trans)
  then show ?thesis using fl unfolding fl0_def [symmetric]
    by (intro exI [of _ fl0]) (auto simp: p3(3) g_def apart_from_def pmd2_def flow_add_enter_def)
qed

section \<open>The invariant of a thread and its caches\<close>

definition thread_ok :: "'flow flow_sys \<Rightarrow> 'flow pmd_thread \<Rightarrow> bool" where
  "thread_ok Y pmd \<longleftrightarrow> (\<exists>others. pmd_ok Y others pmd) \<and> smc_ok (sy_dfc Y) (pm_dfc pmd) \<and>
     (\<forall>f. flow_ok (sy_dfc Y) (dc_flows (pm_dfc pmd) f)) \<and>
     (\<forall>h. \<forall>p\<in>set (df_positions (sy_dfc Y) h). p < length (dc_emc (pm_dfc pmd))) \<and>
     (\<forall>n. pm_allocs pmd \<le> n \<longrightarrow> dc_refs (pm_dfc pmd) (sy_alloc Y n) = 0)"

lemma thread_okD:
  assumes "thread_ok Y pmd"
  shows "\<exists>others. pmd_ok Y others pmd" and "smc_ok (sy_dfc Y) (pm_dfc pmd)" and "flow_ok (sy_dfc Y) (dc_flows (pm_dfc pmd) f)"
    and "p \<in> set (df_positions (sy_dfc Y) h) \<Longrightarrow> p < length (dc_emc (pm_dfc pmd))"
    and "pm_allocs pmd \<le> n \<Longrightarrow> dc_refs (pm_dfc pmd) (sy_alloc Y n) = 0"
  using assms unfolding thread_ok_def by blast+

lemma thread_smc_lookup:
  assumes "sys_ok Y" and "thread_ok Y pmd"
  shows "\<exists>hit. smc_lookup_single (sy_dfc Y) (pm_dfc pmd) port key = Inr hit"
proof -
  have V: "dfc_env_ok (sy_dfc Y)" using assms(1) by (simp add: sys_ok_def)
  obtain node where node: "smc_entry_get (sy_dfc Y) (pm_dfc pmd) (nk_hash key) = Inr node"
    using smc_entry_get_index [OF thread_okD(2) [OF assms(2)]] by blast
  show ?thesis
    using smc_match_find [OF V, of "the node" "pm_dfc pmd" port key] thread_okD(3) [OF assms(2)] node
    by (cases node) (simp_all add: smc_lookup_single_def)
qed

text \<open>Insertions into the caches.\<close>

lemma emc_change_at_same:
  assumes "emc_change_at V dfc p f okey = Inr dfc'"
  shows "dc_smc dfc' = dc_smc dfc \<and> dc_flows dfc' = dc_flows dfc"
  using assms by (auto simp: emc_change_at_def fault_simps Let_def split: prod.splits)

lemma emc_insert_same:
  assumes "emc_insert V dfc key f = Inr dfc'"
  shows "dc_smc dfc' = dc_smc dfc \<and> dc_flows dfc' = dc_flows dfc"
proof -
  obtain res where "(case res of Inl p \<Rightarrow> emc_change_at V dfc p f None | Inr None \<Rightarrow> Inl Null_Deref
      | Inr (Some p) \<Rightarrow> emc_change_at V dfc p f (Some key)) = Inr dfc'"
    using assms by (auto simp: emc_insert_def bindr_eq_Inr_iff)
  then show ?thesis by (auto split: sum.splits option.splits dest: emc_change_at_same)
qed

lemma emc_insert_frame:
  assumes "emc_probabilistic_insert V dfc key f = Inr dfc'"
  shows "dc_smc dfc' = dc_smc dfc" and "dc_flows dfc' = dc_flows dfc"
proof -
  have "dc_smc dfc' = dc_smc dfc \<and> dc_flows dfc' = dc_flows dfc"
    using assms emc_insert_same [of V "dfc\<lparr>dc_random := dc_random dfc + 1\<rparr>" key f dfc']
    by (auto simp: emc_probabilistic_insert_def Let_def next_random_def split: if_splits)
  then show "dc_smc dfc' = dc_smc dfc" "dc_flows dfc' = dc_flows dfc" by blast+
qed

lemma thread_emc_insert:
  assumes Y: "sys_ok Y" and t: "thread_ok Y pmd"
  shows "\<exists>dfc. emc_probabilistic_insert (sy_dfc Y) (pm_dfc pmd) key f = Inr dfc \<and> thread_ok Y (pmd\<lparr>pm_dfc := dfc\<rparr>)"
proof -
  obtain others where ok: "pmd_ok Y others pmd" using thread_okD(1) [OF t] by blast
  define rest where "rest g = held (table_flows pmd) (simple_flows pmd) (pm_offloads pmd) [] others g" for g
  have "emc_counted (pm_dfc pmd) rest"
    using pmd_okD(3) [OF ok] by (simp add: emc_counted_def rest_def held_def emc_refs_def)
  then have k: "emc_kept (pm_dfc pmd) rest (pm_dfc pmd)" by (simp add: emc_kept_def)
  have V: "dfc_env_ok (sy_dfc Y)" using Y by (simp add: sys_ok_def)
  have pos: "\<forall>p\<in>set (df_positions (sy_dfc Y) (nk_hash key)). p < length (dc_emc (pm_dfc pmd))"
    using thread_okD(4) [OF t] by blast
  obtain dfc where dfc: "emc_probabilistic_insert (sy_dfc Y) (pm_dfc pmd) key f = Inr dfc" "emc_kept (pm_dfc pmd) rest dfc"
    using emc_probabilistic_kept [OF V k pos, of f] by blast
  have "pmd_ok Y others (pmd\<lparr>pm_dfc := dfc\<rparr>)" by (rule emc_step_ok [OF Y ok pos dfc(1)])
  moreover have "smc_ok (sy_dfc Y) dfc" using thread_okD(2) [OF t] emc_insert_frame [OF dfc(1)] by (simp add: smc_ok_def)
  ultimately have "thread_ok Y (pmd\<lparr>pm_dfc := dfc\<rparr>)"
    using dfc(2) thread_okD(3,4,5) [OF t] emc_insert_frame [OF dfc(1)] by (auto simp: thread_ok_def emc_kept_def)
  then show ?thesis using dfc(1) by blast
qed

lemma pmd_ok_smc:
  assumes "pmd_ok Y others pmd"
  shows "pmd_ok Y others (pmd\<lparr>pm_dfc := (pm_dfc pmd)\<lparr>dc_random := r, dc_smc := smc\<rparr>\<rparr>)"
  using assms by (simp add: pmd_ok_def table_flows_def simple_flows_def)

lemma thread_smc_insert:
  assumes Y: "sys_ok Y" and t: "thread_ok Y pmd"
  shows "\<exists>dfc. smc_insert (sy_dfc Y) (pm_dfc pmd) key hash = Inr dfc \<and> thread_ok Y (pmd\<lparr>pm_dfc := dfc\<rparr>)"
proof (cases "dc_smc_enable_db (pm_dfc pmd) \<and> df_find_index (sy_dfc Y) hash < 65535")
  case False
  then have "smc_insert (sy_dfc Y) (pm_dfc pmd) key hash = Inr (pm_dfc pmd)"
    by (auto simp: smc_insert_def Let_def not_less)
  then show ?thesis using t by simp
next
  case True
  have V: "0 < df_per_bucket (sy_dfc Y)" using Y dfc_env_okD(3) by (auto simp: sys_ok_def)
  have on: "dc_smc_enable_db (pm_dfc pmd)" "df_find_index (sy_dfc Y) hash < 65535" using True by simp_all
  obtain dfc where ins: "smc_insert (sy_dfc Y) (pm_dfc pmd) key hash = Inr dfc" and ok: "smc_ok (sy_dfc Y) dfc"
    using smc_insert_index [OF thread_okD(2) [OF t] V on] by blast
  obtain r smc where dfc: "dfc = (pm_dfc pmd)\<lparr>dc_random := r, dc_smc := smc\<rparr>"
    using smc_insert_result [OF thread_okD(2) [OF t] V on refl refl refl, of key] ins by auto
  have "\<exists>others. pmd_ok Y others (pmd\<lparr>pm_dfc := dfc\<rparr>)" using thread_okD(1) [OF t] pmd_ok_smc unfolding dfc by blast
  then have "thread_ok Y (pmd\<lparr>pm_dfc := dfc\<rparr>)"
    using ok thread_okD(3,4,5) [OF t] unfolding thread_ok_def by (simp add: dfc)
  then show ?thesis using ins by blast
qed

section \<open>Lookups in the classifiers\<close>

lemma same_core_stored:
  assumes "same_but_hits (cl_tables cls) tables"
  shows "cls_stored (cls\<lparr>cl_tables := tables\<rparr>) = cls_stored cls"
proof -
  obtain h where h: "\<And>p. tables p = map_option (\<lambda>st. st\<lparr>st_hit_cnt := h p\<rparr>) (cl_tables cls p)"
    using assms by (auto simp: same_but_hits_def)
  have "(\<exists>st. tables p = Some st \<and> x \<in> set (st_rules st)) \<longleftrightarrow> (\<exists>st. cl_tables cls p = Some st \<and> x \<in> set (st_rules st))" for p x
    by (cases "cl_tables cls p") (simp_all add: h)
  then show ?thesis by (simp add: cls_stored_def)
qed

text \<open>A lookup in a classifier of the thread: it returns, and only counters of hits change.\<close>

lemma thread_cls_lookup:
  assumes Y: "sys_ok Y" and t: "thread_ok Y pmd" and c: "dp_netdev_pmd_lookup_dpcls (pm_classifiers pmd) port = Some cls"
    and keys: "keys \<noteq> []" "length keys \<le> 32"
  shows "\<exists>rules num cls'. dpcls_lookup (sy_cls Y) cls keys = Inr (\<forall>slot\<in>set rules. slot \<noteq> None, rules, num, cls') \<and>
    length rules = length keys \<and> thread_ok Y (pmd\<lparr>pm_classifiers := store_dpcls (pm_classifiers pmd) cls'\<rparr>)"
proof -
  obtain others where ok: "pmd_ok Y others pmd" using thread_okD(1) [OF t] by blast
  note C = pmd_okD(2) [OF ok]
  have E: "cls_env_ok (sy_cls Y)" using Y by (simp add: sys_ok_def)
  have cls: "cls \<in> set (pm_classifiers pmd)" "cls_ok (sy_cls Y) cls"
    using c lookup_dpcls [OF classes_okD(1) [OF C]] classes_okD(2) [OF C] by blast+
  have vec: "\<forall>p\<in>set (map fst (cl_vec cls)). cl_tables cls p \<noteq> None"
    using cls_okD(3,4) [OF cls(2)] by (auto simp: dom_def)
  obtain rules num tables where l: "dpcls_lookup (sy_cls Y) cls keys = Inr (\<forall>slot\<in>set rules. slot \<noteq> None, rules, num, cls\<lparr>cl_tables := tables\<rparr>)"
    "same_but_hits (cl_tables cls) tables" "length rules = length keys"
    using lookup [OF E keys vec] list_all2_lengthD by fastforce
  let ?cls = "cls\<lparr>cl_tables := tables\<rparr>"
  have "cls_ok (sy_cls Y) ?cls"
    using same_rules_cls_ok [OF cls(2) same_but_hits_rules [OF l(2)] cls_okD(2) [OF cls(2)] refl] by simp
  then have "classes_ok Y (store_dpcls (pm_classifiers pmd) ?cls) (pm_info pmd) (table_flows pmd)"
    using same_core_stored [OF l(2)] classes_okD(3,4) [OF C] cls(1) by (intro store_dpcls_ok [OF C cls(1)]) simp_all
  then have "pmd_ok Y others (pmd\<lparr>pm_classifiers := store_dpcls (pm_classifiers pmd) ?cls\<rparr>)"
    using pmd_okD(1,3) [OF ok] by (simp add: pmd_ok_def table_flows_def simple_flows_def)
  then have "thread_ok Y (pmd\<lparr>pm_classifiers := store_dpcls (pm_classifiers pmd) ?cls\<rparr>)"
    using thread_okD(2-) [OF t] unfolding thread_ok_def by auto
  then show ?thesis using l by blast
qed

lemma thread_lookup_flow:
  assumes Y: "sys_ok Y" and t: "thread_ok Y pmd"
  shows "\<exists>rule num classifiers. dp_netdev_pmd_lookup_flow (sy_cls Y) (pm_classifiers pmd) port key = Inr (rule, num, classifiers) \<and>
    (rule \<noteq> None \<longrightarrow> num \<noteq> None) \<and> thread_ok Y (pmd\<lparr>pm_classifiers := classifiers\<rparr>)"
proof (cases "dp_netdev_pmd_lookup_dpcls (pm_classifiers pmd) port")
  case None
  then show ?thesis using t by (simp add: dp_netdev_pmd_lookup_flow_def)
next
  case (Some cls)
  obtain rules num cls' where "dpcls_lookup (sy_cls Y) cls [key] = Inr (\<forall>slot\<in>set rules. slot \<noteq> None, rules, num, cls')"
    "thread_ok Y (pmd\<lparr>pm_classifiers := store_dpcls (pm_classifiers pmd) cls'\<rparr>)"
    using thread_cls_lookup [OF Y t Some, of "[key]"] by auto
  then show ?thesis using Some by (simp add: dp_netdev_pmd_lookup_flow_def)
qed

lemma thread_classify:
  assumes Y: "sys_ok (fx_sys X)" and t: "thread_ok (fx_sys X) (fa_pmd s)" and keys: "keys \<noteq> []" "length keys \<le> 32"
  shows "\<exists>miss rules num s'. classify_batch X s keys port = Inr (miss, rules, num, s') \<and> length rules = length keys \<and>
    (miss \<or> None \<notin> set rules) \<and> thread_ok (fx_sys X) (fa_pmd s') \<and> fa_batch s' = fa_batch s"
proof (cases "dp_netdev_pmd_lookup_dpcls (pm_classifiers (fa_pmd s)) port")
  case None
  then have "classify_batch X s keys port = Inr (True, replicate (length keys) None, 0, s)"
    by (simp add: classify_batch_def Let_def)
  moreover have "length (replicate (length keys) (None :: dpcls_rule option)) = length keys" by simp
  ultimately show ?thesis using t by blast
next
  case (Some cls)
  obtain rules num cls' where l: "dpcls_lookup (sy_cls (fx_sys X)) cls keys = Inr (\<forall>slot\<in>set rules. slot \<noteq> None, rules, num, cls')"
    "length rules = length keys" "thread_ok (fx_sys X) ((fa_pmd s)\<lparr>pm_classifiers := store_dpcls (pm_classifiers (fa_pmd s)) cls'\<rparr>)"
    using thread_cls_lookup [OF Y t Some keys] by blast
  have "classify_batch X s keys port = Inr (\<not> (\<forall>slot\<in>set rules. slot \<noteq> None), rules, num,
      s\<lparr>fa_pmd := (fa_pmd s)\<lparr>pm_classifiers := store_dpcls (pm_classifiers (fa_pmd s)) cls'\<rparr>\<rparr>)"
    using Some l(1) by (simp add: classify_batch_def Let_def)
  moreover have "\<not> (\<forall>slot\<in>set rules. slot \<noteq> None) \<or> None \<notin> set rules" by auto
  ultimately show ?thesis using l(2,3) by fastforce
qed

section \<open>Upcalls\<close>

lemma thread_flow_add:
  assumes Y: "sys_ok Y" "inj (sy_alloc Y)" and t: "thread_ok Y pmd" and allowed: "add_allowed Y pmd mt"
  shows "\<exists>f pmd'. dp_netdev_flow_add Y pmd mt ufid actions port = Inr (f, pmd') \<and> thread_ok Y pmd'"
proof -
  obtain others where ok: "pmd_ok Y others pmd" using thread_okD(1) [OF t] by blast
  obtain f pmd' where add: "dp_netdev_flow_add Y pmd mt ufid actions port = Inr (f, pmd')" "pmd_ok Y others pmd'"
    using flow_add [OF Y(1) ok _ _ refl, of mt ufid actions port] allowed by (auto simp: add_allowed_def)
  obtain fl where fl: "flow_ok (sy_dfc Y) fl" "pm_allocs pmd' = pm_allocs pmd + 1" "f = sy_alloc Y (pm_allocs pmd)"
    "dc_emc (pm_dfc pmd') = dc_emc (pm_dfc pmd)" "dc_smc (pm_dfc pmd') = dc_smc (pm_dfc pmd)"
    "dc_flows (pm_dfc pmd') = (dc_flows (pm_dfc pmd))(f := fl)"
    and other: "\<forall>g. g \<noteq> f \<longrightarrow> dc_refs (pm_dfc pmd') g = dc_refs (pm_dfc pmd) g"
    using flow_add_apart [OF Y(1) ok allowed add(1)] by blast
  have "dc_refs (pm_dfc pmd') (sy_alloc Y n) = 0" if "pm_allocs pmd' \<le> n" for n
  proof -
    have "sy_alloc Y n \<noteq> f" using injD [OF Y(2), of n "pm_allocs pmd"] that fl(2,3) by auto
    then show ?thesis using other thread_okD(5) [OF t, of n] that fl(2) by simp
  qed
  moreover have "smc_ok (sy_dfc Y) (pm_dfc pmd')" using thread_okD(2) [OF t] fl(5) by (simp add: smc_ok_def)
  ultimately have "thread_ok Y pmd'"
    using add(2) fl(1,4,6) thread_okD(3,4) [OF t] unfolding thread_ok_def by auto
  then show ?thesis using add(1) by blast
qed

text \<open>
  What the library and the control plane keep: executing actions keeps the thread and the
  batches that wait; an upcall answers with a match that the flow table accepts (the port exact,
  no metadata, and not the key of a simple match that the thread has).
\<close>

definition answer_ok :: "'flow flow_sys \<Rightarrow> 'flow pmd_thread \<Rightarrow> 'flow match \<Rightarrow> bool" where
  "answer_ok Y pmd mt \<longleftrightarrow> ff_in_port Y (match_masks mt) = ODPP_NONE \<and>
     \<not> ff_has_metadata Y (nk_map (netdev_flow_mask_init (ce_flow (sy_cls Y)) fresh_key (stored_match Y mt))) \<and>
     (dp_netdev_flow_is_simple_match Y mt \<longrightarrow>
        (\<forall>g\<in>simple_flows pmd. flow_mark Y (fi_flow (pm_info pmd g)) \<noteq> flow_mark Y (match_flow mt)))"

definition upcall_match :: "'flow fast_env \<Rightarrow> netdev_flow_key \<Rightarrow> 'flow \<Rightarrow> 'flow match" where
  "upcall_match X key wc =
     \<lparr>match_flow = fx_expand X key,
      match_masks = (if ff_vlan_tci (fx_sys X) wc = 0
        then ff_set_vlan_tci (fx_sys X) (htons (VLAN_VID_MASK OR VLAN_CFI)) wc else wc)\<rparr>"

definition executes_ok :: "'flow fast_env \<Rightarrow> bool" where
  "executes_ok X \<longleftrightarrow> (\<forall>s ps fl actions. thread_ok (fx_sys X) (fa_pmd s) \<longrightarrow>
     thread_ok (fx_sys X) (fa_pmd (fx_execute X s ps fl actions)) \<and> fa_batch (fx_execute X s ps fl actions) = fa_batch s)"

definition upcalls_ok :: "'flow fast_env \<Rightarrow> bool" where
  "upcalls_ok X \<longleftrightarrow> (\<forall>s p key wc actions puts. thread_ok (fx_sys X) (fa_pmd s) \<longrightarrow>
     dp_netdev_upcall X s p (fx_expand X key) (ff_key_hash (fx_sys X) (fx_expand X key)) = (0, wc, actions, puts) \<longrightarrow>
     answer_ok (fx_sys X) (fa_pmd (fx_execute X s [p] (fx_expand X key) actions)) (upcall_match X key wc))"

definition fast_env_ok :: "'flow fast_env \<Rightarrow> bool" where
  "fast_env_ok X \<longleftrightarrow> packet_env_ok X \<and> sys_ok (fx_sys X) \<and> inj (sy_alloc (fx_sys X)) \<and> executes_ok X \<and> upcalls_ok X"

lemma fast_env_okD:
  assumes "fast_env_ok X"
  shows "packet_env_ok X" and "sys_ok (fx_sys X)" and "inj (sy_alloc (fx_sys X))" and "executes_ok X" and "upcalls_ok X"
  using assms by (simp_all add: fast_env_ok_def)

lemma answer_allowed:
  assumes "answer_ok Y pmd mt" and "thread_ok Y pmd"
  shows "add_allowed Y (pmd\<lparr>pm_classifiers := classifiers\<rparr>) mt"
  using assms(1) thread_okD(5) [OF assms(2), of "pm_allocs pmd"]
  by (simp add: answer_ok_def add_allowed_def simple_flows_def)

lemma upcall_install_ok:
  assumes X: "fast_env_ok X" and t: "thread_ok (fx_sys X) (fa_pmd s)" and mt: "answer_ok (fx_sys X) (fa_pmd s) mt"
  shows "\<exists>pmd. upcall_install X s key mt ufid actions port = Inr (s\<lparr>fa_pmd := pmd\<rparr>) \<and> thread_ok (fx_sys X) pmd"
proof -
  let ?Y = "fx_sys X"
  note Y = fast_env_okD(2,3) [OF X]
  obtain rule num cs where lf: "dp_netdev_pmd_lookup_flow (sy_cls ?Y) (pm_classifiers (fa_pmd s)) (ff_key_in_port ?Y key) key = Inr (rule, num, cs)"
    "thread_ok ?Y ((fa_pmd s)\<lparr>pm_classifiers := cs\<rparr>)"
    using thread_lookup_flow [OF Y(1) t] by blast
  obtain f pmd where add: "(case rule of Some r \<Rightarrow> Inr (ru_id r, (fa_pmd s)\<lparr>pm_classifiers := cs\<rparr>)
      | None \<Rightarrow> dp_netdev_flow_add ?Y ((fa_pmd s)\<lparr>pm_classifiers := cs\<rparr>) mt ufid actions port) = Inr (f, pmd)" "thread_ok ?Y pmd"
  proof (cases rule)
    case None
    then show ?thesis using thread_flow_add [OF Y lf(2) answer_allowed [OF mt t], of ufid actions port] that by auto
  next
    case (Some r)
    then show ?thesis using lf(2) that by simp
  qed
  obtain d1 where d1: "smc_insert (sy_dfc ?Y) (pm_dfc pmd) key (dp_netdev_flow_hash ?Y (fi_ufid (pm_info pmd f))) = Inr d1"
    "thread_ok ?Y (pmd\<lparr>pm_dfc := d1\<rparr>)" using thread_smc_insert [OF Y(1) add(2)] by blast
  obtain d2 where d2: "emc_probabilistic_insert (sy_dfc ?Y) d1 key f = Inr d2" "thread_ok ?Y (pmd\<lparr>pm_dfc := d2\<rparr>)"
    using thread_emc_insert [OF Y(1) d1(2), of key f] by auto
  have "upcall_install X s key mt ufid actions port = Inr (s\<lparr>fa_pmd := pmd\<lparr>pm_dfc := d2\<rparr>\<rparr>)"
    unfolding upcall_install_def Let_def lf(1) bindr_Inr prod.case add(1) d1(1) d2(1) ..
  then show ?thesis using d2(2) by blast
qed

lemma handle_upcall:
  assumes up: "dp_netdev_upcall X s p (fx_expand X key) (ff_key_hash (fx_sys X) (fx_expand X key)) = (err, wc, actions, puts)"
    and s1: "s1 = fx_execute X s [p] (fx_expand X key) actions"
  shows "handle_packet_upcall X s p key =
      (if err \<noteq> 0 \<and> err \<noteq> ENOSPC then Inr (err, s)
       else if err \<noteq> ENOSPC then
         bindr (upcall_install X s1 key (upcall_match X key wc) (ff_key_hash (fx_sys X) (fx_expand X key))
           (if puts \<noteq> [] then puts else actions) (pk_orig_in_port p)) (\<lambda>s. Inr (err, s))
       else Inr (err, s1))"
  unfolding handle_packet_upcall_def Let_def up prod.case s1 [symmetric] upcall_match_def by simp

lemma accepted_upcall:
  assumes X: "fast_env_ok X" and t: "thread_ok (fx_sys X) (fa_pmd s)"
    and up: "dp_netdev_upcall X s p (fx_expand X key) (ff_key_hash (fx_sys X) (fx_expand X key)) = (0, wc, actions, puts)"
  obtains s1 pmd acts port where "handle_packet_upcall X s p key = Inr (0, s1\<lparr>fa_pmd := pmd\<rparr>)"
    and "upcall_install X s1 key (upcall_match X key wc) (ff_key_hash (fx_sys X) (fx_expand X key)) acts port = Inr (s1\<lparr>fa_pmd := pmd\<rparr>)"
    and "thread_ok (fx_sys X) (fa_pmd s1)" and "fa_batch s1 = fa_batch s" and "thread_ok (fx_sys X) pmd"
    and "answer_ok (fx_sys X) (fa_pmd s1) (upcall_match X key wc)"
proof -
  define s1 where "s1 = fx_execute X s [p] (fx_expand X key) actions"
  have t1: "thread_ok (fx_sys X) (fa_pmd s1)" "fa_batch s1 = fa_batch s"
    using fast_env_okD(4) [OF X] t by (simp_all add: executes_ok_def s1_def)
  have a: "answer_ok (fx_sys X) (fa_pmd s1) (upcall_match X key wc)"
    using fast_env_okD(5) [OF X] t up unfolding upcalls_ok_def s1_def by blast
  from upcall_install_ok [OF X t1(1) this] obtain pmd where
    i: "upcall_install X s1 key (upcall_match X key wc) (ff_key_hash (fx_sys X) (fx_expand X key))
      (if puts \<noteq> [] then puts else actions) (pk_orig_in_port p) = Inr (s1\<lparr>fa_pmd := pmd\<rparr>)" "thread_ok (fx_sys X) pmd" by blast
  have "handle_packet_upcall X s p key = Inr (0, s1\<lparr>fa_pmd := pmd\<rparr>)"
    unfolding handle_upcall [OF up s1_def] i(1) by (simp add: ENOSPC_def)
  then show ?thesis using i(1) t1 i(2) a by (rule that)
qed

lemma thread_upcall:
  assumes X: "fast_env_ok X" and t: "thread_ok (fx_sys X) (fa_pmd s)"
  shows "\<exists>err s'. handle_packet_upcall X s p key = Inr (err, s') \<and> thread_ok (fx_sys X) (fa_pmd s') \<and> fa_batch s' = fa_batch s"
proof -
  obtain err wc actions puts where up: "dp_netdev_upcall X s p (fx_expand X key) (ff_key_hash (fx_sys X) (fx_expand X key)) = (err, wc, actions, puts)"
    by (metis surj_pair)
  show ?thesis
  proof (cases "err = 0")
    case True
    note up0 = up [unfolded True]
    show ?thesis by (rule accepted_upcall [OF X t up0]) simp
  next
    case False
    have "thread_ok (fx_sys X) (fa_pmd (fx_execute X s [p] (fx_expand X key) actions)) \<and>
        fa_batch (fx_execute X s [p] (fx_expand X key) actions) = fa_batch s"
      using fast_env_okD(4) [OF X] t by (simp add: executes_ok_def)
    then show ?thesis using handle_upcall [OF up refl] t False by auto
  qed
qed

interpretation fp: fast_path fast_env_ok "\<lambda>X. thread_ok (fx_sys X)"
proof
  fix X :: "'flow fast_env" and pmd :: "'flow pmd_thread" and s :: "'flow fast_state"
    and keys :: "netdev_flow_key list" and port :: u32 and key :: netdev_flow_key and f :: nat and hash :: u32 and p :: dp_packet
  assume X: "fast_env_ok X"
  note Y = fast_env_okD(2) [OF X]
  show "packet_env_ok X" by (rule fast_env_okD(1) [OF X])
  {
    assume t: "thread_ok (fx_sys X) pmd"
    show "\<exists>hit. smc_lookup_single (sy_dfc (fx_sys X)) (pm_dfc pmd) port key = Inr hit" by (rule thread_smc_lookup [OF Y t])
    show "\<exists>dfc. emc_probabilistic_insert (sy_dfc (fx_sys X)) (pm_dfc pmd) key f = Inr dfc \<and> thread_ok (fx_sys X) (pmd\<lparr>pm_dfc := dfc\<rparr>)"
      by (rule thread_emc_insert [OF Y t])
    show "\<exists>dfc. smc_insert (sy_dfc (fx_sys X)) (pm_dfc pmd) key hash = Inr dfc \<and> thread_ok (fx_sys X) (pmd\<lparr>pm_dfc := dfc\<rparr>)"
      by (rule thread_smc_insert [OF Y t])
    show "\<exists>rule num classifiers. dp_netdev_pmd_lookup_flow (sy_cls (fx_sys X)) (pm_classifiers pmd) port key =
        Inr (rule, num, classifiers) \<and> (rule \<noteq> None \<longrightarrow> num \<noteq> None) \<and> thread_ok (fx_sys X) (pmd\<lparr>pm_classifiers := classifiers\<rparr>)"
      by (rule thread_lookup_flow [OF Y t])
  }
  assume t: "thread_ok (fx_sys X) (fa_pmd s)"
  show "\<exists>err s'. handle_packet_upcall X s p key = Inr (err, s') \<and> thread_ok (fx_sys X) (fa_pmd s') \<and> fa_batch s' = fa_batch s"
    by (rule thread_upcall [OF X t])
  assume "keys \<noteq> []" "length keys \<le> 32"
  then show "\<exists>miss rules num s'. classify_batch X s keys port = Inr (miss, rules, num, s') \<and> length rules = length keys \<and>
        (miss \<or> None \<notin> set rules) \<and> thread_ok (fx_sys X) (fa_pmd s') \<and> fa_batch s' = fa_batch s"
    by (rule thread_classify [OF Y t])
qed

end
