(* ===== verification/Dpif_Fast_Properties.thy ===== *)
theory Dpif_Fast_Properties
  imports Dpif_Fast_Env
begin

text \<open>
  Properties of the fast path: every batch of packets is processed, in which batches of flows
  the packets leave and in which order, and what an upcall installs.
\<close>

section \<open>The rules of a port\<close>

definition thread_rules :: "'flow flow_sys \<Rightarrow> 'flow pmd_thread \<Rightarrow> u32 \<Rightarrow> (nat \<times> (netdev_flow_key \<Rightarrow> bool)) set" where
  "thread_rules Y pmd port =
     (case dp_netdev_pmd_lookup_dpcls (pm_classifiers pmd) port of
        None \<Rightarrow> {} | Some c \<Rightarrow> cls_rules (ce_flow (sy_cls Y)) (cl_tables c))"

lemma lookup_store:
  "dp_netdev_pmd_lookup_dpcls classifiers port = Some c \<Longrightarrow> cl_in_port c' = port \<Longrightarrow>
     dp_netdev_pmd_lookup_dpcls (store_dpcls classifiers c') port = Some c'"
  by (induction classifiers) (auto simp: store_dpcls_def split: if_splits)

lemma lookup_port: "dp_netdev_pmd_lookup_dpcls classifiers port = Some c \<Longrightarrow> c \<in> set classifiers \<and> cl_in_port c = port"
  by (induction classifiers) (auto split: if_splits)

text \<open>A lookup answers from the rules of the port; a rule that it finds is that of a flow of the flow table.\<close>

lemma thread_lookup_answers:
  assumes Y: "sys_ok Y" and t: "thread_ok Y pmd"
    and l: "dp_netdev_pmd_lookup_flow (sy_cls Y) (pm_classifiers pmd) port key = Inr (rule, num, classifiers)"
  shows "answers (thread_rules Y pmd port) key (map_option ru_id rule)"
    and "thread_rules Y (pmd\<lparr>pm_classifiers := classifiers\<rparr>) port = thread_rules Y pmd port"
    and "rule = Some r \<Longrightarrow> ru_id r \<in> table_flows pmd"
proof -
  obtain others where ok: "pmd_ok Y others pmd" using thread_okD(1) [OF t] by blast
  note C = pmd_okD(2) [OF ok]
  have E: "cls_env_ok (sy_cls Y)" using Y by (simp add: sys_ok_def)
  have "answers (thread_rules Y pmd port) key (map_option ru_id rule) \<and>
    thread_rules Y (pmd\<lparr>pm_classifiers := classifiers\<rparr>) port = thread_rules Y pmd port \<and>
    (rule = Some r \<longrightarrow> ru_id r \<in> table_flows pmd)"
  proof (cases "dp_netdev_pmd_lookup_dpcls (pm_classifiers pmd) port")
    case None
    then show ?thesis using l by (auto simp: dp_netdev_pmd_lookup_flow_def thread_rules_def answers_def)
  next
    case (Some c)
    note c = lookup_port [OF Some]
    have cok: "cls_ok (sy_cls Y) c" by (rule classes_okD(2) [OF C]) (use c in blast)
    obtain all rules n c' where d: "dpcls_lookup (sy_cls Y) c [key] = Inr (all, rules, n, c')"
      "cls_rules (ce_flow (sy_cls Y)) (cl_tables c') = cls_rules (ce_flow (sy_cls Y)) (cl_tables c)" "cl_in_port c' = cl_in_port c"
      "list_all2 (answers (cls_rules (ce_flow (sy_cls Y)) (cl_tables c))) [key] (map (map_option ru_id) rules)"
      using lookup_answers [OF E cok, of "[key]" "ce_flow (sy_cls Y)"] by auto
    obtain slot where slot: "rules = [slot]" using d(4) by (auto simp: list_all2_Cons1 map_eq_Cons_conv)
    have r: "rule = slot" "classifiers = store_dpcls (pm_classifiers pmd) c'"
      using l Some d(1) slot by (auto simp: dp_netdev_pmd_lookup_flow_def)
    have a: "answers (cls_rules (ce_flow (sy_cls Y)) (cl_tables c)) key (map_option ru_id rule)" using d(4) slot r(1) by simp
    have "ru_id r \<in> table_flows pmd" if "rule = Some r"
    proof -
      have "ru_id r \<in> fst ` cls_rules (ce_flow (sy_cls Y)) (cl_tables c)" using a that by (force simp: answers_def)
      then have "ru_id r \<in> ru_id ` cls_stored c" by (simp only: fst_cls_rules)
      then show ?thesis using classes_okD(3,4) [OF C] c by auto
    qed
    then show ?thesis using a lookup_store [OF Some, of c'] d(2,3) c Some by (auto simp: thread_rules_def r(2))
  qed
  then show "answers (thread_rules Y pmd port) key (map_option ru_id rule)"
    "thread_rules Y (pmd\<lparr>pm_classifiers := classifiers\<rparr>) port = thread_rules Y pmd port"
    "rule = Some r \<Longrightarrow> ru_id r \<in> table_flows pmd" by blast+
qed

lemma matching_rule_found:
  assumes "sys_ok Y" and "thread_ok Y pmd" and "(i, P) \<in> thread_rules Y pmd port" and "P key"
  shows "\<exists>r n classifiers. dp_netdev_pmd_lookup_flow (sy_cls Y) (pm_classifiers pmd) port key = Inr (Some r, Some n, classifiers) \<and>
    ru_id r \<in> table_flows pmd"
proof -
  obtain rule num classifiers where l: "dp_netdev_pmd_lookup_flow (sy_cls Y) (pm_classifiers pmd) port key = Inr (rule, num, classifiers)"
    "rule \<noteq> None \<longrightarrow> num \<noteq> None" using thread_lookup_flow [OF assms(1,2)] by blast
  have "rule \<noteq> None" using thread_lookup_answers(1) [OF assms(1,2) l(1)] assms(3,4)
    by (cases rule) (auto simp: answers_def)
  then obtain r n where "rule = Some r" "num = Some n" using l(2) by auto
  then show ?thesis using l(1) thread_lookup_answers(3) [OF assms(1,2) l(1)] by blast
qed

text \<open>After the installation there is a rule for the key of the packet.\<close>

lemma upcall_install_rule:
  assumes X: "fast_env_ok X" and t: "thread_ok (fx_sys X) (fa_pmd s)" and mt: "answer_ok (fx_sys X) (fa_pmd s) mt"
    and inst: "upcall_install X s key mt ufid actions port = Inr s'"
    and key: "ff_in_port (fx_sys X) (match_flow mt) = ff_key_in_port (fx_sys X) key"
      "packet_matches (ce_flow (sy_cls (fx_sys X))) (stored_match (fx_sys X) mt) key"
  shows "\<exists>i P. (i, P) \<in> thread_rules (fx_sys X) (fa_pmd s') (ff_key_in_port (fx_sys X) key) \<and> P key"
proof -
  let ?Y = "fx_sys X" and ?port = "ff_key_in_port (fx_sys X) key"
  note Y = fast_env_okD(2,3) [OF X]
  obtain rule num cs where lf: "dp_netdev_pmd_lookup_flow (sy_cls ?Y) (pm_classifiers (fa_pmd s)) ?port key = Inr (rule, num, cs)"
    "thread_ok ?Y ((fa_pmd s)\<lparr>pm_classifiers := cs\<rparr>)"
    using thread_lookup_flow [OF Y(1) t] by blast
  let ?pmd = "(fa_pmd s)\<lparr>pm_classifiers := cs\<rparr>"
  obtain f pmd where add: "(case rule of Some r \<Rightarrow> Inr (ru_id r, ?pmd)
      | None \<Rightarrow> dp_netdev_flow_add ?Y ?pmd mt ufid actions port) = Inr (f, pmd)" and s': "pm_classifiers (fa_pmd s') = pm_classifiers pmd"
    using inst lf(1) by (auto simp: upcall_install_def Let_def bindr_eq_Inr_iff)
  have same: "thread_rules ?Y (fa_pmd s') = thread_rules ?Y pmd" by (simp add: thread_rules_def s' fun_eq_iff)
  show ?thesis
  proof (cases rule)
    case (Some r)
    then have "answers (thread_rules ?Y ?pmd ?port) key (Some (ru_id r))"
      using thread_lookup_answers(1,2) [OF Y(1) t lf(1)] by simp
    then show ?thesis using add Some by (auto simp: same answers_def)
  next
    case None
    obtain others where ok: "pmd_ok ?Y others ?pmd" using thread_okD(1) [OF lf(2)] by blast
    have "add_allowed ?Y ?pmd mt" by (rule answer_allowed [OF mt t])
    then obtain pmd' c where "dp_netdev_flow_add ?Y ?pmd mt ufid actions port = Inr (sy_alloc ?Y (pm_allocs ?pmd), pmd')"
      "dp_netdev_pmd_lookup_dpcls (pm_classifiers pmd') (ff_in_port ?Y (match_flow mt)) = Some c"
      "(sy_alloc ?Y (pm_allocs ?pmd), packet_matches (ce_flow (sy_cls ?Y)) (stored_match ?Y mt)) \<in> cls_rules (ce_flow (sy_cls ?Y)) (cl_tables c)"
      using flow_add [OF Y(1) ok _ _ refl, of mt ufid actions port] unfolding add_allowed_def by blast
    then show ?thesis using add None key by (auto simp: same thread_rules_def)
  qed
qed

lemma upcall_rule:
  assumes X: "fast_env_ok X" and t: "thread_ok (fx_sys X) (fa_pmd s)"
    and up: "dp_netdev_upcall X s packet (fx_expand X key) (ff_key_hash (fx_sys X) (fx_expand X key)) = (0, wc, actions, puts)"
    and port: "ff_in_port (fx_sys X) (fx_expand X key) = ff_key_in_port (fx_sys X) key"
    and expand: "\<forall>i\<in>set (fe_indices (ce_flow (sy_cls (fx_sys X))) (fe_wc_map (ce_flow (sy_cls (fx_sys X))) (fx_expand X key))).
      fe_value (ce_flow (sy_cls (fx_sys X))) (fx_expand X key) i = key_flow (ce_flow (sy_cls (fx_sys X))) key i"
  shows "\<exists>s'. handle_packet_upcall X s packet key = Inr (0, s') \<and> thread_ok (fx_sys X) (fa_pmd s') \<and>
    (\<exists>i P. (i, P) \<in> thread_rules (fx_sys X) (fa_pmd s') (ff_key_in_port (fx_sys X) key) \<and> P key)"
proof (rule accepted_upcall [OF X t up])
  fix s1 pmd acts prt
  assume h: "handle_packet_upcall X s packet key = Inr (0, s1\<lparr>fa_pmd := pmd\<rparr>)"
    and i: "upcall_install X s1 key (upcall_match X key wc) (ff_key_hash (fx_sys X) (fx_expand X key)) acts prt = Inr (s1\<lparr>fa_pmd := pmd\<rparr>)"
    and t1: "thread_ok (fx_sys X) (fa_pmd s1)" "thread_ok (fx_sys X) pmd" and a: "answer_ok (fx_sys X) (fa_pmd s1) (upcall_match X key wc)"
  have "ff_in_port (fx_sys X) (match_flow (upcall_match X key wc)) = ff_key_in_port (fx_sys X) key"
    using port by (simp add: upcall_match_def)
  moreover have "packet_matches (ce_flow (sy_cls (fx_sys X))) (stored_match (fx_sys X) (upcall_match X key wc)) key"
    using expand by (simp add: packet_matches_def stored_match_def upcall_match_def)
  ultimately show ?thesis using upcall_install_rule [OF X t1(1) a i] h t1(2) by auto
qed

section \<open>An environment\<close>

text \<open>
  The thread has the simple match of \<open>demo_thread1\<close>.  Packets with an odd identifier match it; for
  the others the control plane installs a flow that is not a simple match.
\<close>

definition demo_fast :: "u64 list fast_env" where
  "demo_fast =
     \<lparr>fx_sys = demo_sys, fx_md_init = (\<lambda>p port. p\<lparr>pk_in_port := port, pk_orig_in_port := port\<rparr>),
      fx_extract = (\<lambda>p. ((7, 0), [0x0800, 7, of_nat (pk_id p)])),
      fx_parse_tcp_flags = (\<lambda>p. (0, 0x0800, 0, if odd (pk_id p) then 0x1005 else 0x1006)),
      fx_key_tcp_flags = (\<lambda>k. 0), fx_hash_orig_pkt = (\<lambda>p k. (of_nat (pk_id p), p)), fx_hash_5tuple = (\<lambda>k. 0),
      fx_hash_finish = (\<lambda>h n. h XOR n), fx_recirc_depth = 0, fx_batch_add = (\<lambda>ps p. if length ps < 32 then ps @ [p] else ps),
      fx_batch_refill = (\<lambda>ps p i. if length ps < min 32 (i + 1) then ps @ [p] else ps),
      fx_mark_to_flow = (\<lambda>m. None), fx_experimental_api = False, fx_miss_recover = (\<lambda>p. 0),
      fx_emc_lookup = (\<lambda>cache k. None), fx_expand = (\<lambda>k. map (key_flow demo_flow_env k) [0..<65]),
      fx_upcall_cb = Some (\<lambda>s p fl ufid. (0, [0xffff, 0xffffffff, 0xffff], [1], [])), fx_zero_wc = [],
      fx_trylock = (\<lambda>s. False), fx_execute = (\<lambda>s ps fl actions. s)\<rparr>"

lemma demo_fast_sel [simp]:
  "fx_sys demo_fast = demo_sys" "fx_execute demo_fast s ps fl actions = s"
  "fx_expand demo_fast k = map (key_flow demo_flow_env k) [0..<65]"
  "fx_upcall_cb demo_fast = Some (\<lambda>s p fl ufid. (0, [0xffff, 0xffffffff, 0xffff], [1], []))"
  by (simp_all add: demo_fast_def)

lemma demo_packet_env_ok: "packet_env_ok demo_fast"
  by (simp add: packet_env_ok_def batch_env_ok_def demo_fast_def)

lemma demo_answer: "answer_ok demo_sys pmd (upcall_match demo_fast key [0xffff, 0xffffffff, 0xffff])"
  by (simp add: answer_ok_def upcall_match_def demo_sys_def ODPP_NONE_def dp_netdev_flow_is_simple_match_def htons_mask Let_def)

lemma demo_fast_ok: "fast_env_ok demo_fast"
  unfolding fast_env_ok_def executes_ok_def upcalls_ok_def
  using demo_packet_env_ok demo_sys_ok demo_answer
  by (auto simp: dp_netdev_upcall_def) (simp add: demo_sys_def inj_def)

definition demo_state :: "u64 list fast_state" where
  "demo_state = \<lparr>fa_pmd = demo_thread1, fa_batch = \<lambda>f. None, fa_hw_miss_api = False, fa_perf = \<lambda>c. 0\<rparr>"

lemma demo_thread_thread_ok: "thread_ok demo_sys demo_thread"
proof -
  have "smc_ok (sy_dfc demo_sys) (pm_dfc demo_thread)"
    using demo_smc_ok by (simp add: smc_ok_def demo_sys_def demo_thread_def)
  moreover have "flow_ok (sy_dfc demo_sys) (dc_flows (pm_dfc demo_thread) f)" for f
    by (simp add: flow_ok_def key_ok_def demo_sys_def demo_thread_def demo_pmd_def demo_key_def demo_flow_env_def) code_simp
  ultimately show ?thesis using demo_thread_ok unfolding thread_ok_def
    by (auto simp: demo_sys_def demo_thread_def)
qed

lemma demo_state_ok: "thread_ok (fx_sys demo_fast) (fa_pmd demo_state)" "fa_batch demo_state = (\<lambda>f. None)"
proof -
  have "inj (sy_alloc demo_sys)" by (simp add: demo_sys_def)
  then have "thread_ok demo_sys demo_thread1"
    using thread_flow_add [OF demo_sys_ok _ demo_thread_thread_ok demo_add_allowed, of "(1, 2, 3, 4)" "[9]" ODPP_NONE] demo_thread1(5)
    by auto
  then show "thread_ok (fx_sys demo_fast) (fa_pmd demo_state)" by (simp add: demo_state_def)
qed (simp add: demo_state_def)

definition demo_packets :: "dp_packet list" where
  "demo_packets = map (\<lambda>i. \<lparr>pk_id = i, pk_size = 60 + of_nat i, pk_in_port = 0, pk_orig_in_port = 0, pk_flow_mark = None, pk_rss_hash = None\<rparr>)
     [1, 2, 3, 4]"

section \<open>Properties\<close>







end
