(* ===== verification/Dpif_Tx.thy ===== *)
theory Dpif_Tx
  imports Dpdk_Rx
begin

text \<open>
  The transmission side of the datapath (\<open>dpif-netdev.c\<close>): the cache of ports of a polling
  thread, the packets that wait on a port, flushing them, the choice of a transmit queue
  (one per thread, shared among threads, or by the hash of a packet), and the output actions.
\<close>

section \<open>State\<close>

datatype txq_req_mode = TXQ_REQ_MODE_THREAD | TXQ_REQ_MODE_HASH

datatype txq_mode = TXQ_MODE_STATIC | TXQ_MODE_XPS | TXQ_MODE_XPS_HASH

text \<open>A packet with what the transmission side reads of it.\<close>

record tx_pkt =
  tk_id :: nat
  tk_size :: u32
  tk_source :: nat
  tk_rss_valid :: bool
  tk_rss_hash :: u32

text \<open>
  A port.  A pointer to a port is its position in \<open>ts_ports\<close>.  \<open>po_n_txq\<close> is
  \<open>netdev_n_txq\<close> and \<open>po_tunnel\<close> is \<open>netdev_has_tunnel_push_pop\<close> of its device,
  \<open>po_listed\<close> is whether the port is in the \<open>ports\<close> of the datapath.
\<close>

record tx_dev_port =
  po_no :: u32
  po_mode :: txq_mode
  po_need_reconfigure :: bool
  po_n_txq :: nat
  po_tunnel :: bool
  po_txq_used :: "u32 list"
  po_requested_mode :: txq_req_mode
  po_listed :: bool

text \<open>
  A cached port: \<open>tp_txq_pkts\<close> is \<open>None\<close> for a null pointer, and \<open>tp_output_pkts_rxqs\<close> is the
  array of the queues from which the waiting packets came.
\<close>

record tx_port =
  tp_port :: nat
  tp_qid :: int
  tp_last_used :: int
  tp_flush_time :: int
  tp_output_pkts :: "tx_pkt list"
  tp_txq_pkts :: "tx_pkt list list option"
  tp_output_pkts_rxqs :: "nat option list"

record member_entry =
  me_member_id :: u32
  me_n_packets :: u64
  me_n_bytes :: u64

record tx_bond =
  bo_id :: u32
  bo_member_buckets :: "member_entry list"

text \<open>What a thread (\<open>struct dp_netdev_pmd_thread\<close>) keeps for transmission.\<close>

record tx_thread =
  tt_now :: int
  tt_last_rxq :: "nat option"
  tt_static_tx_qid :: nat
  tt_n_output_batches :: int
  tt_send_ports :: "tx_port list"
  tt_tnl_ports :: "tx_port list"
  tt_tx_ports :: "tx_port list"
  tt_bonds :: "tx_bond list"
  tt_need_reload :: bool
  tt_sent_pkts :: nat
  tt_sent_batches :: nat

text \<open>
  A call of \<open>netdev_send\<close>: the port and how many transmit queues it has, the queue, the packets,
  \<open>concurrent_txq\<close>.
\<close>

record tx_send =
  se_port :: nat
  se_n_txq :: nat
  se_qid :: int
  se_pkts :: "tx_pkt list"
  se_concurrent :: bool

text \<open>
  What a thread works on: its own state, the ports, the calls of \<open>netdev_send\<close> so far, the
  packets freed so far, the processing cycles of the receive queues
  (\<open>RXQ_CYCLES_PROC_CURR\<close>), and the coverage counters of dropped packets.
\<close>

record tx_state =
  ts_thread :: tx_thread
  ts_ports :: "tx_dev_port list"
  ts_sends :: "tx_send list"
  ts_freed :: "tx_pkt list"
  ts_rxq_cycles :: "nat \<Rightarrow> u64"
  ts_drop_invalid_port :: nat
  ts_drop_invalid_bond :: nat

text \<open>
  What the code uses of other files: the 5-tuple hash of the flow of a packet
  (\<open>flow_extract\<close>, \<open>flow_hash_5tuple\<close>), the operations on batches of \<open>dp-packet.h\<close>, the time
  measured by \<open>cycle_timer_stop\<close>, \<open>BOND_MASK\<close>; the configured flush interval, and whether
  \<open>DPDK_NETDEV\<close> is defined.
\<close>

record tx_env =
  te_flow_hash :: "tx_pkt \<Rightarrow> u32"
  te_batch_add :: "tx_pkt list \<Rightarrow> tx_pkt \<Rightarrow> tx_pkt list"
  te_batch_clone :: "tx_pkt list \<Rightarrow> tx_pkt list"
  te_reset_cutlen :: "tx_pkt list \<Rightarrow> tx_pkt list"
  te_apply_cutlen :: "tx_pkt list \<Rightarrow> tx_pkt list"
  te_cycle_timer_stop :: "tx_state \<Rightarrow> u64"
  te_bond_mask :: u32
  te_tx_flush_interval :: u32
  te_dpdk_netdev :: bool

definition XPS_TIMEOUT :: int where "XPS_TIMEOUT = 500000"

definition put_tx :: "nat \<Rightarrow> tx_port \<Rightarrow> tx_state \<Rightarrow> tx_state" where
  "put_tx i tx s = s\<lparr>ts_thread := (ts_thread s)\<lparr>tt_send_ports := (tt_send_ports (ts_thread s))[i := tx]\<rparr>\<rparr>"

definition put_used :: "nat \<Rightarrow> u32 list \<Rightarrow> tx_state \<Rightarrow> tx_state" where
  "put_used p used s = s\<lparr>ts_ports := (ts_ports s)[p := (ts_ports s ! p)\<lparr>po_txq_used := used\<rparr>]\<rparr>"

section \<open>Lookups\<close>

text \<open>The position of the cached port of a port number (\<open>tx_port_lookup\<close>).\<close>

fun tx_port_lookup_from :: "tx_dev_port list \<Rightarrow> nat \<Rightarrow> tx_port list \<Rightarrow> u32 \<Rightarrow> nat option c_result" where
  "tx_port_lookup_from ports i [] port = Inr None"
| "tx_port_lookup_from ports i (tx # txs) port =
     bindr (arr_get ports (tp_port tx)) (\<lambda>p.
       if po_no p = port then Inr (Some i) else tx_port_lookup_from ports (Suc i) txs port)"

definition tx_port_lookup :: "tx_dev_port list \<Rightarrow> tx_port list \<Rightarrow> u32 \<Rightarrow> nat option c_result" where
  "tx_port_lookup ports txs port = tx_port_lookup_from ports 0 txs port"

definition tx_bond_lookup :: "tx_bond list \<Rightarrow> u32 \<Rightarrow> nat option" where
  "tx_bond_lookup bonds bond = find_index_from 0 (\<lambda>b. bo_id b = bond) bonds"

definition pmd_send_port_cache_lookup :: "tx_state \<Rightarrow> u32 \<Rightarrow> nat option c_result" where
  "pmd_send_port_cache_lookup s port = tx_port_lookup (ts_ports s) (tt_send_ports (ts_thread s)) port"

definition pmd_tnl_port_cache_lookup :: "tx_state \<Rightarrow> u32 \<Rightarrow> nat option c_result" where
  "pmd_tnl_port_cache_lookup s port = tx_port_lookup (ts_ports s) (tt_tnl_ports (ts_thread s)) port"

section \<open>The choice of a shared transmit queue\<close>

text \<open>\<open>dpif_netdev_xps_revalidate_pmd\<close>: give back the queues that are not used any more.\<close>

definition revalidate_tx :: "int \<Rightarrow> bool \<Rightarrow> tx_port \<Rightarrow> tx_dev_port list \<Rightarrow> (tx_port \<times> tx_dev_port list) c_result" where
  "revalidate_tx now purge tx ports =
     bindr (arr_get ports (tp_port tx)) (\<lambda>port.
       if po_mode port \<noteq> TXQ_MODE_XPS then Inr (tx, ports)
       else if 0 \<le> tp_qid tx \<and> (purge \<or> XPS_TIMEOUT \<le> now - tp_last_used tx) then
         bindr (arr_get (po_txq_used port) (nat (tp_qid tx))) (\<lambda>n.
           Inr (tx\<lparr>tp_qid := -1\<rparr>,
                ports[tp_port tx := port\<lparr>po_txq_used := (po_txq_used port)[nat (tp_qid tx) := n - 1]\<rparr>]))
       else Inr (tx, ports))"

fun revalidate_txs :: "int \<Rightarrow> bool \<Rightarrow> tx_port list \<Rightarrow> tx_dev_port list \<Rightarrow> (tx_port list \<times> tx_dev_port list) c_result" where
  "revalidate_txs now purge [] ports = Inr ([], ports)"
| "revalidate_txs now purge (tx # txs) ports =
     bindr (revalidate_tx now purge tx ports) (\<lambda>(tx', ports').
       bindr (revalidate_txs now purge txs ports') (\<lambda>(txs', ports'').
         Inr (tx' # txs', ports'')))"

definition dpif_netdev_xps_revalidate_pmd :: "bool \<Rightarrow> tx_state \<Rightarrow> tx_state c_result" where
  "dpif_netdev_xps_revalidate_pmd purge s =
     bindr (revalidate_txs (tt_now (ts_thread s)) purge (tt_send_ports (ts_thread s)) (ts_ports s)) (\<lambda>(txs, ports).
       Inr (s\<lparr>ts_thread := (ts_thread s)\<lparr>tt_send_ports := txs\<rparr>, ts_ports := ports\<rparr>))"

text \<open>
  The search for the least used queue: \<open>min_cnt\<close> is a signed integer that is compared with an
  unsigned count, so it is kept as the word that the comparison sees; \<open>k\<close> queues remain.
\<close>

fun min_txq_from :: "u32 list \<Rightarrow> nat \<Rightarrow> nat \<Rightarrow> u32 \<Rightarrow> nat \<Rightarrow> nat c_result" where
  "min_txq_from used i 0 min_cnt min_qid = Inr min_qid"
| "min_txq_from used i (Suc k) min_cnt min_qid =
     bindr (arr_get used i) (\<lambda>n.
       if n < min_cnt \<or> min_cnt = -1 then min_txq_from used (Suc i) k n i
       else min_txq_from used (Suc i) k min_cnt min_qid)"

definition dpif_netdev_xps_get_tx_qid :: "nat \<Rightarrow> tx_state \<Rightarrow> (int \<times> tx_state) c_result" where
  "dpif_netdev_xps_get_tx_qid i s =
     bindr (arr_get (tt_send_ports (ts_thread s)) i) (\<lambda>tx.
       let now = tt_now (ts_thread s);
           interval = now - tp_last_used tx;
           tx1 = tx\<lparr>tp_last_used := now\<rparr>
       in if 0 \<le> tp_qid tx \<and> interval < XPS_TIMEOUT then Inr (tp_qid tx, put_tx i tx1 s)
          else bindr (arr_get (ts_ports s) (tp_port tx)) (\<lambda>port.
            bindr (if 0 \<le> tp_qid tx
                   then bindr (arr_get (po_txq_used port) (nat (tp_qid tx))) (\<lambda>n.
                          Inr ((po_txq_used port)[nat (tp_qid tx) := n - 1]))
                   else Inr (po_txq_used port)) (\<lambda>used.
            bindr (min_txq_from used 0 (po_n_txq port) (-1) 0) (\<lambda>min_qid.
            bindr (arr_get used min_qid) (\<lambda>n.
            bindr (dpif_netdev_xps_revalidate_pmd False
                     (put_used (tp_port tx) (used[min_qid := n + 1])
                       (put_tx i (tx1\<lparr>tp_qid := int min_qid\<rparr>) s))) (\<lambda>s'.
              Inr (int min_qid, s')))))))"

section \<open>Flushing the waiting packets\<close>

text \<open>The hash by which a packet is given a queue in hash mode.\<close>

definition tx_hash :: "tx_env \<Rightarrow> tx_pkt \<Rightarrow> u32" where
  "tx_hash X pk = (if tk_rss_valid pk then tk_rss_hash pk else te_flow_hash X pk)"

text \<open>The packets are put into the batches of their queues, then these are sent in turn.\<close>

fun rebatch :: "tx_env \<Rightarrow> nat \<Rightarrow> tx_pkt list \<Rightarrow> tx_pkt list list \<Rightarrow> tx_pkt list list c_result" where
  "rebatch X n_txq [] bs = Inr bs"
| "rebatch X n_txq (pk # pks) bs =
     (if n_txq = 0 then Inl Div_By_Zero
      else let q = unat (tx_hash X pk) mod n_txq
           in bindr (arr_get bs q) (\<lambda>b. rebatch X n_txq pks (bs[q := te_batch_add X b pk])))"

fun flush_txqs :: "nat \<Rightarrow> nat \<Rightarrow> nat \<Rightarrow> nat \<Rightarrow> tx_pkt list list \<Rightarrow> tx_send list \<Rightarrow> (tx_pkt list list \<times> tx_send list) c_result" where
  "flush_txqs p n i 0 bs sends = Inr (bs, sends)"
| "flush_txqs p n i (Suc k) bs sends =
     bindr (arr_get bs i) (\<lambda>b.
       if b = [] then flush_txqs p n (Suc i) k bs sends
       else flush_txqs p n (Suc i) k (bs[i := []])
              (sends @ [\<lparr>se_port = p, se_n_txq = n, se_qid = int i, se_pkts = b, se_concurrent = True\<rparr>]))"

text \<open>The part of \<open>dp_netdev_pmd_flush_output_on_port\<close> that chooses the queue and sends.\<close>

definition send_output :: "tx_env \<Rightarrow> nat \<Rightarrow> tx_state \<Rightarrow> tx_state c_result" where
  "send_output X i s =
     bindr (arr_get (tt_send_ports (ts_thread s)) i) (\<lambda>tx.
     bindr (arr_get (ts_ports s) (tp_port tx)) (\<lambda>port.
       if po_mode port = TXQ_MODE_XPS_HASH then
         (case tp_txq_pkts tx of
            None \<Rightarrow> Inl Null_Deref
          | Some bs \<Rightarrow>
              bindr (rebatch X (po_n_txq port) (tp_output_pkts tx) bs) (\<lambda>bs1.
              bindr (flush_txqs (tp_port tx) (po_n_txq port) 0 (po_n_txq port) bs1 (ts_sends s)) (\<lambda>(bs2, sends).
                Inr (put_tx i (tx\<lparr>tp_txq_pkts := Some bs2\<rparr>) (s\<lparr>ts_sends := sends\<rparr>)))))
       else
         bindr (if po_mode port = TXQ_MODE_XPS then dpif_netdev_xps_get_tx_qid i s
                else Inr (int (tt_static_tx_qid (ts_thread s)), s)) (\<lambda>(qid, s1).
           Inr (s1\<lparr>ts_sends := ts_sends s1 @
             [\<lparr>se_port = tp_port tx, se_n_txq = po_n_txq port, se_qid = qid, se_pkts = tp_output_pkts tx,
               se_concurrent = (po_mode port = TXQ_MODE_XPS)\<rparr>]\<rparr>))))"

text \<open>The cycles of sending are shared out among the receive queues of the packets.\<close>

definition dp_netdev_rxq_add_cycles :: "nat \<Rightarrow> u64 \<Rightarrow> (nat \<Rightarrow> u64) \<Rightarrow> nat \<Rightarrow> u64" where
  "dp_netdev_rxq_add_cycles rxq c cycles = cycles(rxq := cycles rxq + c)"

fun share_cycles :: "nat option list \<Rightarrow> nat \<Rightarrow> nat \<Rightarrow> u64 \<Rightarrow> (nat \<Rightarrow> u64) \<Rightarrow> (nat \<Rightarrow> u64) c_result" where
  "share_cycles rxqs i 0 c cycles = Inr cycles"
| "share_cycles rxqs i (Suc k) c cycles =
     bindr (arr_get rxqs i) (\<lambda>r.
       share_cycles rxqs (Suc i) k c
         (case r of Some q \<Rightarrow> dp_netdev_rxq_add_cycles q c cycles | None \<Rightarrow> cycles))"

definition dp_netdev_pmd_flush_output_on_port :: "tx_env \<Rightarrow> nat \<Rightarrow> tx_state \<Rightarrow> (nat \<times> tx_state) c_result" where
  "dp_netdev_pmd_flush_output_on_port X i s =
     bindr (arr_get (tt_send_ports (ts_thread s)) i) (\<lambda>tx.
       let output_cnt = length (tp_output_pkts tx)
       in if output_cnt = 0 then Inl Assert_Failed
          else bindr (send_output X i s) (\<lambda>s1.
               bindr (arr_get (tt_send_ports (ts_thread s1)) i) (\<lambda>tx1.
                 let flush_time = tt_now (ts_thread s1) + uint (te_tx_flush_interval X);
                     s2 = put_tx i (tx1\<lparr>tp_output_pkts := [], tp_flush_time := flush_time\<rparr>) s1;
                     th = ts_thread s2
                 in if \<not> 0 < tt_n_output_batches th then Inl Assert_Failed
                    else let s3 = s2\<lparr>ts_thread := th\<lparr>tt_n_output_batches := tt_n_output_batches th - 1,
                               tt_sent_pkts := tt_sent_pkts th + output_cnt,
                               tt_sent_batches := tt_sent_batches th + 1\<rparr>\<rparr>
                         in bindr (u64_div (te_cycle_timer_stop X s3) (of_nat output_cnt)) (\<lambda>c.
                            bindr (share_cycles (tp_output_pkts_rxqs tx1) 0 output_cnt c (ts_rxq_cycles s3)) (\<lambda>cycles.
                              Inr (output_cnt, s3\<lparr>ts_rxq_cycles := cycles\<rparr>))))))"

text \<open>The loop over the cached ports, with the position of the next one and how many remain.\<close>

fun flush_ports_from :: "tx_env \<Rightarrow> bool \<Rightarrow> nat \<Rightarrow> nat \<Rightarrow> nat \<Rightarrow> tx_state \<Rightarrow> (nat \<times> tx_state) c_result" where
  "flush_ports_from X force i 0 cnt s = Inr (cnt, s)"
| "flush_ports_from X force i (Suc k) cnt s =
     bindr (arr_get (tt_send_ports (ts_thread s)) i) (\<lambda>tx.
       if tp_output_pkts tx \<noteq> [] \<and> (force \<or> tp_flush_time tx \<le> tt_now (ts_thread s))
       then bindr (dp_netdev_pmd_flush_output_on_port X i s) (\<lambda>(n, s').
              flush_ports_from X force (Suc i) k (cnt + n) s')
       else flush_ports_from X force (Suc i) k cnt s)"

definition dp_netdev_pmd_flush_output_packets :: "tx_env \<Rightarrow> bool \<Rightarrow> tx_state \<Rightarrow> (nat \<times> tx_state) c_result" where
  "dp_netdev_pmd_flush_output_packets X force s =
     (if tt_n_output_batches (ts_thread s) = 0 then Inr (0, s)
      else flush_ports_from X force 0 (length (tt_send_ports (ts_thread s))) 0 s)"

section \<open>Output actions\<close>

text \<open>\<open>dp_packet_delete_batch\<close>: the packets are freed if they may be taken.\<close>

definition delete_batch :: "tx_pkt list \<Rightarrow> bool \<Rightarrow> tx_state \<Rightarrow> tx_state" where
  "delete_batch pks should_steal s = (if should_steal then s\<lparr>ts_freed := ts_freed s @ pks\<rparr> else s)"

text \<open>The loop that puts the packets on the port, with the queue they came from.\<close>

fun add_output_pkts :: "tx_env \<Rightarrow> nat option \<Rightarrow> tx_pkt list \<Rightarrow> tx_port \<Rightarrow> tx_port c_result" where
  "add_output_pkts X rxq [] tx = Inr tx"
| "add_output_pkts X rxq (pk # pks) tx =
     bindr (arr_set (tp_output_pkts_rxqs tx) (length (tp_output_pkts tx)) rxq) (\<lambda>rxqs.
       add_output_pkts X rxq pks
         (tx\<lparr>tp_output_pkts_rxqs := rxqs, tp_output_pkts := te_batch_add X (tp_output_pkts tx) pk\<rparr>))"

text \<open>
  \<open>dp_execute_output_action\<close> returns whether the port is known and the packets that still
  belong to the caller.
\<close>

definition output_to :: "tx_env \<Rightarrow> tx_pkt list \<Rightarrow> nat \<Rightarrow> tx_state \<Rightarrow> tx_state c_result" where
  "output_to X pks i s =
     bindr (arr_get (tt_send_ports (ts_thread s)) i) (\<lambda>tx.
     bindr (if te_dpdk_netdev X \<and> tp_output_pkts tx \<noteq> []
            then bindr (arr_get pks 0) (\<lambda>pk. Inr (tk_source pk \<noteq> tk_source (tp_output_pkts tx ! 0)))
            else Inr False) (\<lambda>other_source.
     bindr (if other_source then bindr (dp_netdev_pmd_flush_output_on_port X i s) (\<lambda>(n, s'). Inr s') else Inr s) (\<lambda>s1.
     bindr (arr_get (tt_send_ports (ts_thread s1)) i) (\<lambda>tx1.
     bindr (if NETDEV_MAX_BURST < length (tp_output_pkts tx1) + length pks
            then bindr (dp_netdev_pmd_flush_output_on_port X i s1) (\<lambda>(n, s'). Inr s') else Inr s1) (\<lambda>s2.
     bindr (arr_get (tt_send_ports (ts_thread s2)) i) (\<lambda>tx2.
       let th = ts_thread s2;
           s3 = (if tp_output_pkts tx2 = []
                 then s2\<lparr>ts_thread := th\<lparr>tt_n_output_batches := tt_n_output_batches th + 1\<rparr>\<rparr> else s2)
       in bindr (add_output_pkts X (tt_last_rxq th) pks tx2) (\<lambda>tx3. Inr (put_tx i tx3 s3))))))))"

definition dp_execute_output_action ::
    "tx_env \<Rightarrow> tx_pkt list \<Rightarrow> bool \<Rightarrow> u32 \<Rightarrow> tx_state \<Rightarrow> (bool \<times> tx_pkt list \<times> tx_state) c_result" where
  "dp_execute_output_action X packets should_steal port s =
     bindr (pmd_send_port_cache_lookup s port) (\<lambda>found. case found of
         None \<Rightarrow>
           Inr (False, if should_steal then [] else packets,
                delete_batch packets should_steal
                  (s\<lparr>ts_drop_invalid_port := ts_drop_invalid_port s + length packets\<rparr>))
       | Some i \<Rightarrow>
           let out = te_apply_cutlen X (if should_steal then packets else te_batch_clone X packets);
               left = (if should_steal then [] else te_reset_cutlen X packets)
           in bindr (output_to X out i s) (\<lambda>s'. Inr (True, left, s')))"

text \<open>The load balancing of a bond: each packet goes to the member of the bucket of its hash.\<close>

definition count_member :: "tx_thread \<Rightarrow> nat \<Rightarrow> nat \<Rightarrow> u32 \<Rightarrow> tx_thread" where
  "count_member th b k bytes =
     (let bond = tt_bonds th ! b; m = bo_member_buckets bond ! k
      in th\<lparr>tt_bonds := (tt_bonds th)[b := bond\<lparr>bo_member_buckets := (bo_member_buckets bond)[k :=
           m\<lparr>me_n_packets := me_n_packets m + 1, me_n_bytes := me_n_bytes m + ucast bytes\<rparr>]\<rparr>]\<rparr>)"

fun lb_output_packets :: "tx_env \<Rightarrow> nat \<Rightarrow> tx_pkt list \<Rightarrow> tx_state \<Rightarrow> tx_state c_result" where
  "lb_output_packets X b [] s = Inr s"
| "lb_output_packets X b (pk # pks) s =
     (let k = unat (tk_rss_hash pk AND te_bond_mask X)
      in bindr (arr_get (tt_bonds (ts_thread s)) b) (\<lambda>bond.
         bindr (arr_get (bo_member_buckets bond) k) (\<lambda>m.
         bindr (dp_execute_output_action X [pk] True (me_member_id m) s) (\<lambda>(sent, left, s').
           lb_output_packets X b pks
             (if sent then s'\<lparr>ts_thread := count_member (ts_thread s') b k (tk_size pk)\<rparr> else s')))))"

definition dp_execute_lb_output_action ::
    "tx_env \<Rightarrow> tx_pkt list \<Rightarrow> bool \<Rightarrow> u32 \<Rightarrow> tx_state \<Rightarrow> (tx_pkt list \<times> tx_state) c_result" where
  "dp_execute_lb_output_action X packets should_steal bond s =
     (case tx_bond_lookup (tt_bonds (ts_thread s)) bond of
        None \<Rightarrow>
          Inr (if should_steal then [] else packets,
               delete_batch packets should_steal
                 (s\<lparr>ts_drop_invalid_bond := ts_drop_invalid_bond s + length packets\<rparr>))
      | Some b \<Rightarrow>
          let out = te_apply_cutlen X (if should_steal then packets else te_batch_clone X packets);
              left = (if should_steal then [] else te_reset_cutlen X packets)
          in bindr (lb_output_packets X b out s) (\<lambda>s'. Inr (left, s')))"

section \<open>Ports and bonds of a thread\<close>

text \<open>\<open>pmd_free_cached_ports\<close>: flush everything, give back the shared queues, empty the caches.\<close>

definition pmd_free_cached_ports :: "tx_env \<Rightarrow> tx_state \<Rightarrow> tx_state c_result" where
  "pmd_free_cached_ports X s =
     bindr (dp_netdev_pmd_flush_output_packets X True s) (\<lambda>(n, s1).
     bindr (dpif_netdev_xps_revalidate_pmd True s1) (\<lambda>s2.
       Inr (s2\<lparr>ts_thread := (ts_thread s2)\<lparr>tt_tnl_ports := [], tt_send_ports := []\<rparr>\<rparr>)))"

text \<open>
  The copies of \<open>pmd_load_cached_ports\<close>.  A copy of the batches of a port in hash mode takes
  \<open>n_txq\<close> of them.
\<close>

definition copy_tx :: "nat \<Rightarrow> tx_port \<Rightarrow> tx_port c_result" where
  "copy_tx n_txq tx =
     (case tp_txq_pkts tx of
        None \<Rightarrow> Inr tx
      | Some bs \<Rightarrow> if length bs < n_txq then Inl Out_Of_Bounds else Inr (tx\<lparr>tp_txq_pkts := Some (take n_txq bs)\<rparr>))"

fun load_ports :: "tx_dev_port list \<Rightarrow> tx_port list \<Rightarrow> tx_port list \<Rightarrow> tx_port list \<Rightarrow> (tx_port list \<times> tx_port list) c_result" where
  "load_ports ports [] tnl send = Inr (tnl, send)"
| "load_ports ports (tx # txs) tnl send =
     bindr (arr_get ports (tp_port tx)) (\<lambda>port.
     bindr (if po_tunnel port then bindr (copy_tx (po_n_txq port) tx) (\<lambda>c. Inr (tnl @ [c])) else Inr tnl) (\<lambda>tnl'.
     bindr (if po_n_txq port \<noteq> 0 then bindr (copy_tx (po_n_txq port) tx) (\<lambda>c. Inr (send @ [c])) else Inr send) (\<lambda>send'.
       load_ports ports txs tnl' send')))"

definition pmd_load_cached_ports :: "tx_env \<Rightarrow> tx_state \<Rightarrow> tx_state c_result" where
  "pmd_load_cached_ports X s =
     bindr (pmd_free_cached_ports X s) (\<lambda>s1.
     bindr (load_ports (ts_ports s1) (tt_tx_ports (ts_thread s1)) [] []) (\<lambda>(tnl, send).
       Inr (s1\<lparr>ts_thread := (ts_thread s1)\<lparr>tt_tnl_ports := tnl, tt_send_ports := send\<rparr>\<rparr>)))"

text \<open>\<open>dp_netdev_add_port_tx_to_pmd\<close> and \<open>dp_netdev_del_port_tx_from_pmd\<close>.\<close>

definition new_tx_port :: "nat \<Rightarrow> tx_dev_port \<Rightarrow> tx_port" where
  "new_tx_port p port =
     \<lparr>tp_port = p, tp_qid = -1, tp_last_used = 0, tp_flush_time = 0, tp_output_pkts = [],
      tp_txq_pkts = (if po_mode port = TXQ_MODE_XPS_HASH then Some (replicate (po_n_txq port) []) else None),
      tp_output_pkts_rxqs = replicate NETDEV_MAX_BURST None\<rparr>"

definition dp_netdev_add_port_tx_to_pmd :: "nat \<Rightarrow> tx_state \<Rightarrow> tx_state c_result" where
  "dp_netdev_add_port_tx_to_pmd p s =
     bindr (arr_get (ts_ports s) p) (\<lambda>port.
     bindr (tx_port_lookup (ts_ports s) (tt_tx_ports (ts_thread s)) (po_no port)) (\<lambda>found.
       case found of
         Some i \<Rightarrow> Inr s
       | None \<Rightarrow> Inr (s\<lparr>ts_thread := (ts_thread s)\<lparr>
           tt_tx_ports := tt_tx_ports (ts_thread s) @ [new_tx_port p port], tt_need_reload := True\<rparr>\<rparr>)))"

definition dp_netdev_del_port_tx_from_pmd :: "nat \<Rightarrow> tx_thread \<Rightarrow> tx_thread" where
  "dp_netdev_del_port_tx_from_pmd i th =
     th\<lparr>tt_tx_ports := take i (tt_tx_ports th) @ drop (Suc i) (tt_tx_ports th), tt_need_reload := True\<rparr>"

text \<open>The transmission part of \<open>pmd_remove_stale_ports\<close>, with the ports that were kept so far.\<close>

fun remove_stale_from :: "tx_dev_port list \<Rightarrow> nat \<Rightarrow> nat \<Rightarrow> tx_thread \<Rightarrow> tx_thread c_result" where
  "remove_stale_from ports i 0 th = Inr th"
| "remove_stale_from ports i (Suc k) th =
     bindr (arr_get (tt_tx_ports th) i) (\<lambda>tx.
     bindr (arr_get ports (tp_port tx)) (\<lambda>port.
       if po_need_reconfigure port \<or> \<not> po_listed port
       then remove_stale_from ports i k (dp_netdev_del_port_tx_from_pmd i th)
       else remove_stale_from ports (Suc i) k th))"

definition pmd_remove_stale_ports :: "tx_dev_port list \<Rightarrow> tx_thread \<Rightarrow> tx_thread c_result" where
  "pmd_remove_stale_ports ports th = remove_stale_from ports 0 (length (tt_tx_ports th)) th"

text \<open>The bonds of a thread: an update keeps the counters of the buckets.\<close>

fun copy_member_stats :: "member_entry list \<Rightarrow> member_entry list \<Rightarrow> member_entry list" where
  "copy_member_stats (old # olds) (new # news) =
     new\<lparr>me_n_packets := me_n_packets old, me_n_bytes := me_n_bytes old\<rparr> # copy_member_stats olds news"
| "copy_member_stats _ news = news"

definition dp_netdev_add_bond_tx_to_pmd :: "tx_bond \<Rightarrow> bool \<Rightarrow> tx_thread \<Rightarrow> tx_thread" where
  "dp_netdev_add_bond_tx_to_pmd bond update th =
     (case tx_bond_lookup (tt_bonds th) (bo_id bond) of
        Some i \<Rightarrow>
          if \<not> update then th
          else th\<lparr>tt_bonds := (tt_bonds th)[i := bond\<lparr>bo_member_buckets :=
                 copy_member_stats (bo_member_buckets (tt_bonds th ! i)) (bo_member_buckets bond)\<rparr>]\<rparr>
      | None \<Rightarrow> th\<lparr>tt_bonds := tt_bonds th @ [bond]\<rparr>)"

definition dp_netdev_del_bond_tx_from_pmd :: "u32 \<Rightarrow> tx_thread \<Rightarrow> tx_thread" where
  "dp_netdev_del_bond_tx_from_pmd bond_id th =
     (case tx_bond_lookup (tt_bonds th) bond_id of
        Some i \<Rightarrow> th\<lparr>tt_bonds := take i (tt_bonds th) @ drop (Suc i) (tt_bonds th)\<rparr>
      | None \<Rightarrow> th)"

text \<open>
  A thread as \<open>dp_netdev_configure_pmd\<close> makes it, with the time and the identifier it starts
  with: it has no ports and no bonds.
\<close>

definition new_tx_thread :: "int \<Rightarrow> nat \<Rightarrow> tx_thread" where
  "new_tx_thread now qid =
     \<lparr>tt_now = now, tt_last_rxq = None, tt_static_tx_qid = qid, tt_n_output_batches = 0, tt_send_ports = [],
      tt_tnl_ports = [], tt_tx_ports = [], tt_bonds = [], tt_need_reload = False, tt_sent_pkts = 0, tt_sent_batches = 0\<rparr>"

end
