(* ===== verification/Dpif_Tx_Laws.thy ===== *)
theory Dpif_Tx_Laws
  imports Dpif_Tx
begin

text \<open>
  The laws of the transmission side: the well-formedness of a thread's cache of ports, the
  balance between the counters of the shared transmit queues and their users, the choice of the
  least used queue, and what a flush sends.
\<close>

named_theorems tx_shape \<comment> \<open>what an operation leaves of the ports\<close>

section \<open>Well-formed caches\<close>

text \<open>The ports without the counters of their queues, which are all that the threads change.\<close>

definition port_shape :: "tx_dev_port \<Rightarrow> tx_dev_port" where
  "port_shape port = port\<lparr>po_txq_used := replicate (length (po_txq_used port)) 0\<rparr>"

definition shape :: "tx_dev_port list \<Rightarrow> tx_dev_port list" where
  "shape ports = map port_shape ports"

definition tx_port_ok :: "tx_dev_port list \<Rightarrow> tx_port \<Rightarrow> bool" where
  "tx_port_ok ports tx \<longleftrightarrow>
     tp_port tx < length ports \<and>
     (let port = ports ! tp_port tx; n = po_n_txq port
      in 0 < n \<and> length (po_txq_used port) = n \<and>
         -1 \<le> tp_qid tx \<and> tp_qid tx < int n \<and> (po_mode port \<noteq> TXQ_MODE_XPS \<longrightarrow> tp_qid tx = -1) \<and>
         length (tp_output_pkts tx) \<le> NETDEV_MAX_BURST \<and> length (tp_output_pkts_rxqs tx) = NETDEV_MAX_BURST \<and>
         (po_mode port = TXQ_MODE_XPS_HASH \<longrightarrow> tp_txq_pkts tx = Some (replicate n [])))"

definition tx_thread_ok :: "tx_dev_port list \<Rightarrow> tx_thread \<Rightarrow> bool" where
  "tx_thread_ok ports th \<longleftrightarrow>
     (\<forall>tx\<in>set (tt_send_ports th). tx_port_ok ports tx) \<and>
     distinct (map tp_port (tt_send_ports th)) \<and>
     tt_n_output_batches th = int (length (filter (\<lambda>tx. tp_output_pkts tx \<noteq> []) (tt_send_ports th))) \<and>
     (\<forall>tx\<in>set (tt_send_ports th). po_mode (ports ! tp_port tx) = TXQ_MODE_STATIC \<longrightarrow>
        tt_static_tx_qid th < po_n_txq (ports ! tp_port tx))"

lemma shape_eqD:
  assumes "shape ports' = shape ports"
  shows "length ports' = length ports"
    and "p < length ports \<Longrightarrow> port_shape (ports' ! p) = port_shape (ports ! p)"
  using assms by (auto simp: shape_def dest: map_eq_imp_length_eq)
    (metis (no_types, lifting) assms length_map nth_map shape_def)

lemma port_shape_eqD:
  assumes "port_shape a = port_shape b"
  shows "po_mode a = po_mode b" and "po_n_txq a = po_n_txq b" and "po_no a = po_no b"
    and "length (po_txq_used a) = length (po_txq_used b)"
    and "po_need_reconfigure a = po_need_reconfigure b" and "po_listed a = po_listed b"
    and "po_requested_mode a = po_requested_mode b"
proof -
  have sel: "po_mode (port_shape x) = po_mode x" "po_n_txq (port_shape x) = po_n_txq x" "po_no (port_shape x) = po_no x"
    "po_need_reconfigure (port_shape x) = po_need_reconfigure x" "po_listed (port_shape x) = po_listed x"
    "po_requested_mode (port_shape x) = po_requested_mode x"
    "length (po_txq_used (port_shape x)) = length (po_txq_used x)" for x
    by (simp_all add: port_shape_def)
  show "po_mode a = po_mode b" "po_n_txq a = po_n_txq b" "po_no a = po_no b"
    "po_need_reconfigure a = po_need_reconfigure b" "po_listed a = po_listed b"
    "po_requested_mode a = po_requested_mode b" "length (po_txq_used a) = length (po_txq_used b)"
    using assms sel by metis+
qed

lemma port_shape_update [tx_shape]:
  "length used = length (po_txq_used port) \<Longrightarrow> port_shape (port\<lparr>po_txq_used := used\<rparr>) = port_shape port"
  by (simp add: port_shape_def)

lemma shape_update [tx_shape]:
  "port_shape port = port_shape (ports ! p) \<Longrightarrow> shape (ports[p := port]) = shape ports"
  by (cases "p < length ports") (simp_all add: shape_def map_list_update_same list_update_beyond)

lemma tx_port_ok_shape:
  assumes "shape ports' = shape ports" and "tx_port_ok ports tx"
  shows "tx_port_ok ports' tx"
  using assms(2) shape_eqD(1) [OF assms(1)] port_shape_eqD(1,2,4) [OF shape_eqD(2) [OF assms(1), of "tp_port tx"]]
  by (simp add: tx_port_ok_def Let_def)

lemma tx_port_okD:
  assumes "tx_port_ok ports tx"
  shows "tp_port tx < length ports" and "0 < po_n_txq (ports ! tp_port tx)"
    and "length (po_txq_used (ports ! tp_port tx)) = po_n_txq (ports ! tp_port tx)"
    and "-1 \<le> tp_qid tx" and "0 \<le> tp_qid tx \<Longrightarrow> nat (tp_qid tx) < po_n_txq (ports ! tp_port tx)"
    and "po_mode (ports ! tp_port tx) \<noteq> TXQ_MODE_XPS \<Longrightarrow> tp_qid tx = -1"
    and "length (tp_output_pkts tx) \<le> NETDEV_MAX_BURST" and "length (tp_output_pkts_rxqs tx) = NETDEV_MAX_BURST"
    and "po_mode (ports ! tp_port tx) = TXQ_MODE_XPS_HASH \<Longrightarrow>
           tp_txq_pkts tx = Some (replicate (po_n_txq (ports ! tp_port tx)) [])"
  using assms by (auto simp: tx_port_ok_def Let_def nat_less_iff)

section \<open>The balance of a queue\<close>

text \<open>
  The counter of a queue less the number of cached ports that use it.  Everything a thread does
  leaves it as it is, whatever the other threads have done in between.
\<close>

definition txq_users :: "nat \<Rightarrow> nat \<Rightarrow> tx_port list \<Rightarrow> nat" where
  "txq_users p q txs = length (filter (\<lambda>tx. tp_port tx = p \<and> tp_qid tx = int q) txs)"

definition txq_balance :: "tx_dev_port list \<Rightarrow> tx_port list \<Rightarrow> nat \<Rightarrow> nat \<Rightarrow> u32" where
  "txq_balance ports txs p q = po_txq_used (ports ! p) ! q - of_nat (txq_users p q txs)"

lemma txq_users_simps [simp]:
  "txq_users p q [] = 0"
  "txq_users p q (tx # txs) = (if tp_port tx = p \<and> tp_qid tx = int q then 1 else 0) + txq_users p q txs"
  "txq_users p q (xs @ ys) = txq_users p q xs + txq_users p q ys"
  by (simp_all add: txq_users_def)

lemma txq_users_update:
  "i < length txs \<Longrightarrow> txq_users p q (txs[i := tx]) + txq_users p q [txs ! i] = txq_users p q txs + txq_users p q [tx]"
proof (induction txs arbitrary: i)
  case (Cons t txs)
  then show ?case
    by (cases i) (simp, use Cons.IH in \<open>fastforce simp: algebra_simps\<close>)
qed simp

lemma txq_balance_Cons:
  "txq_balance ports (tx # txs) p q = txq_balance ports txs p q - of_nat (txq_users p q [tx])"
  and txq_balance_Cons':
  "txq_balance ports (tx # txs) p q = txq_balance ports [tx] p q - of_nat (txq_users p q txs)"
  by (simp_all add: txq_balance_def)

lemma txq_balance_update:
  assumes "i < length txs"
  shows "txq_balance ports (txs[i := tx]) p q =
    txq_balance ports txs p q + of_nat (txq_users p q [txs ! i]) - of_nat (txq_users p q [tx])"
proof -
  have "(of_nat (txq_users p q (txs[i := tx])) + of_nat (txq_users p q [txs ! i]) :: u32) =
      of_nat (txq_users p q txs) + of_nat (txq_users p q [tx])"
    using txq_users_update [OF assms, of p q tx] by (metis of_nat_add)
  then show ?thesis by (simp add: txq_balance_def algebra_simps del: txq_users_simps(2))
qed

section \<open>Giving back queues\<close>

text \<open>What a step on one cached port keeps: the ports but for counters, and the balance.\<close>

lemma revalidate_tx_law:
  assumes "tx_port_ok ports tx"
  shows "\<exists>tx' ports'. revalidate_tx now purge tx ports = Inr (tx', ports') \<and>
    shape ports' = shape ports \<and> tx_port_ok ports tx' \<and> tx' = tx\<lparr>tp_qid := tp_qid tx'\<rparr> \<and>
    txq_balance ports' [tx'] = txq_balance ports [tx] \<and>
    (purge \<longrightarrow> tp_qid tx' = -1) \<and> (\<not> purge \<and> now - tp_last_used tx < XPS_TIMEOUT \<longrightarrow> tx' = tx \<and> ports' = ports)"
proof -
  note ok = tx_port_okD [OF assms]
  let ?p = "ports ! tp_port tx"
  show ?thesis
  proof (cases "po_mode ?p = TXQ_MODE_XPS \<and> 0 \<le> tp_qid tx \<and> (purge \<or> XPS_TIMEOUT \<le> now - tp_last_used tx)")
    case True
    let ?q = "nat (tp_qid tx)"
    let ?ports = "ports[tp_port tx := ?p\<lparr>po_txq_used := (po_txq_used ?p)[?q := po_txq_used ?p ! ?q - 1]\<rparr>]"
    have q: "?q < length (po_txq_used ?p)" using ok(3,5) True by simp
    have "txq_balance ?ports [tx\<lparr>tp_qid := -1\<rparr>] p q = txq_balance ports [tx] p q" for p q
      using q ok(1) True by (auto simp: txq_balance_def nth_list_update)
    then have "txq_balance ?ports [tx\<lparr>tp_qid := -1\<rparr>] = txq_balance ports [tx]" by blast
    moreover have "revalidate_tx now purge tx ports = Inr (tx\<lparr>tp_qid := -1\<rparr>, ?ports)"
      using True ok(1) q by (simp add: revalidate_tx_def)
    moreover have "tx_port_ok ports (tx\<lparr>tp_qid := -1\<rparr>)"
      using assms by (simp add: tx_port_ok_def Let_def)
    moreover have "shape ?ports = shape ports" by (simp add: tx_shape)
    ultimately show ?thesis using True by auto
  next
    case False
    then have "revalidate_tx now purge tx ports = Inr (tx, ports)"
      using ok(1) by (auto simp: revalidate_tx_def)
    moreover have "purge \<longrightarrow> tp_qid tx = -1" using False ok(4,6) by fastforce
    ultimately show ?thesis using assms by simp
  qed
qed

lemma revalidate_txs_law:
  assumes "\<forall>tx\<in>set txs. tx_port_ok ports tx"
  shows "\<exists>txs' ports'. revalidate_txs now purge txs ports = Inr (txs', ports') \<and>
    shape ports' = shape ports \<and> (\<forall>tx\<in>set txs'. tx_port_ok ports tx) \<and>
    list_all2 (\<lambda>tx tx'. tx' = tx\<lparr>tp_qid := tp_qid tx'\<rparr> \<and> (purge \<longrightarrow> tp_qid tx' = -1) \<and>
      (\<not> purge \<and> now - tp_last_used tx < XPS_TIMEOUT \<longrightarrow> tx' = tx)) txs txs' \<and>
    txq_balance ports' txs' = txq_balance ports txs"
  using assms
proof (induction txs arbitrary: ports)
  case (Cons tx txs)
  obtain tx' ports1 where t: "revalidate_tx now purge tx ports = Inr (tx', ports1)"
      "shape ports1 = shape ports" "tx_port_ok ports tx'" "tx' = tx\<lparr>tp_qid := tp_qid tx'\<rparr>"
      "txq_balance ports1 [tx'] = txq_balance ports [tx]" "purge \<longrightarrow> tp_qid tx' = -1"
      "\<not> purge \<and> now - tp_last_used tx < XPS_TIMEOUT \<longrightarrow> tx' = tx"
    using revalidate_tx_law [of ports tx now purge] Cons.prems by auto
  have "\<forall>tx\<in>set txs. tx_port_ok ports1 tx" using Cons.prems tx_port_ok_shape [OF t(2)] by simp
  from Cons.IH [OF this] obtain txs' ports2 where r: "revalidate_txs now purge txs ports1 = Inr (txs', ports2)"
      "shape ports2 = shape ports1" "\<forall>tx\<in>set txs'. tx_port_ok ports1 tx"
      "list_all2 (\<lambda>tx tx'. tx' = tx\<lparr>tp_qid := tp_qid tx'\<rparr> \<and> (purge \<longrightarrow> tp_qid tx' = -1) \<and>
         (\<not> purge \<and> now - tp_last_used tx < XPS_TIMEOUT \<longrightarrow> tx' = tx)) txs txs'"
      "txq_balance ports2 txs' = txq_balance ports1 txs"
    by blast
  have "txq_balance ports2 (tx' # txs') p q = txq_balance ports (tx # txs) p q" for p q
    by (simp only: txq_balance_Cons [of ports2] txq_balance_Cons' [of ports] r(5) t(5) [symmetric])
       (simp add: txq_balance_def)
  then have b: "txq_balance ports2 (tx' # txs') = txq_balance ports (tx # txs)" by blast
  have ok: "\<forall>tx\<in>set (tx' # txs'). tx_port_ok ports tx" using r(3) t(3) tx_port_ok_shape [OF t(2) [symmetric]] by simp
  show ?case
  proof (intro exI conjI)
    show "revalidate_txs now purge (tx # txs) ports = Inr (tx' # txs', ports2)" using t(1) r(1) by simp
    show "shape ports2 = shape ports" using t(2) r(2) by simp
  qed (use b ok r(4) t(4,6,7) in \<open>simp_all\<close>)
qed simp

section \<open>The least used queue\<close>

lemma min_txq_from_least:
  assumes "i + k \<le> length used" and "0 < i + k"
    and "(i = 0 \<and> min_cnt = -1) \<or> (min_qid < i \<and> used ! min_qid = min_cnt \<and> (\<forall>j<i. min_cnt \<le> used ! j))"
  shows "\<exists>q<i + k. min_txq_from used i k min_cnt min_qid = Inr q \<and> (\<forall>j<i + k. used ! q \<le> used ! j)"
  using assms
proof (induction k arbitrary: i min_cnt min_qid)
  case (Suc k)
  have i: "i < length used" using Suc.prems(1) by simp
  show ?case
  proof (cases "used ! i < min_cnt \<or> min_cnt = -1")
    case True
    have "used ! i \<le> used ! j" if "j \<le> i" for j
    proof (cases "j = i")
      case False
      then have "min_cnt \<le> used ! j" using Suc.prems(3) that by auto
      moreover have "used ! i \<le> min_cnt" using True by (auto simp: word_order.extremum)
      ultimately show ?thesis by (rule order_trans [rotated])
    qed simp
    then have "\<exists>q<Suc i + k. min_txq_from used (Suc i) k (used ! i) i = Inr q \<and> (\<forall>j<Suc i + k. used ! q \<le> used ! j)"
      using Suc.prems(1) by (intro Suc.IH) (auto simp: less_Suc_eq_le)
    then show ?thesis using True i by simp
  next
    case False
    then have "min_cnt \<le> used ! i" "i \<noteq> 0" using Suc.prems(3) by auto
    then have "\<exists>q<Suc i + k. min_txq_from used (Suc i) k min_cnt min_qid = Inr q \<and> (\<forall>j<Suc i + k. used ! q \<le> used ! j)"
      using Suc.prems(1,3) False by (intro Suc.IH) (auto simp: less_Suc_eq)
    then show ?thesis using False i by simp
  qed
qed auto

section \<open>What every operation of a thread keeps\<close>

abbreviation sends_ports :: "tx_state \<Rightarrow> tx_port list" where
  "sends_ports s \<equiv> tt_send_ports (ts_thread s)"

definition tx_ok :: "tx_state \<Rightarrow> bool" where
  "tx_ok s \<longleftrightarrow> tx_thread_ok (ts_ports s) (ts_thread s)"

text \<open>The fields of a thread that the transmission of packets does not touch.\<close>

definition thread_frame :: "tx_thread \<Rightarrow> tx_thread" where
  "thread_frame th = th\<lparr>tt_send_ports := [], tt_n_output_batches := 0, tt_sent_pkts := 0, tt_sent_batches := 0,
     tt_bonds := map (\<lambda>b. b\<lparr>bo_member_buckets := map (\<lambda>m. m\<lparr>me_n_packets := 0, me_n_bytes := 0\<rparr>) (bo_member_buckets b)\<rparr>)
       (tt_bonds th)\<rparr>"

definition tx_kept :: "tx_state \<Rightarrow> tx_state \<Rightarrow> bool" where
  "tx_kept s s' \<longleftrightarrow>
     tx_ok s' \<and> shape (ts_ports s') = shape (ts_ports s) \<and>
     map tp_port (sends_ports s') = map tp_port (sends_ports s) \<and>
     txq_balance (ts_ports s') (sends_ports s') = txq_balance (ts_ports s) (sends_ports s) \<and>
     thread_frame (ts_thread s') = thread_frame (ts_thread s)"

lemma tx_keptD:
  assumes "tx_kept s s'"
  shows "tx_ok s'" and "shape (ts_ports s') = shape (ts_ports s)"
    and "map tp_port (sends_ports s') = map tp_port (sends_ports s)"
    and "length (sends_ports s') = length (sends_ports s)"
    and "txq_balance (ts_ports s') (sends_ports s') = txq_balance (ts_ports s) (sends_ports s)"
    and "thread_frame (ts_thread s') = thread_frame (ts_thread s)"
  using assms by (auto simp: tx_kept_def dest: map_eq_imp_length_eq)

lemma tx_kept_refl [simp]: "tx_ok s \<Longrightarrow> tx_kept s s"
  by (simp add: tx_kept_def)

lemma tx_kept_trans [trans]: "tx_kept s t \<Longrightarrow> tx_kept t u \<Longrightarrow> tx_kept s u"
  by (simp add: tx_kept_def)

lemma thread_frame_eqD:
  assumes "thread_frame th' = thread_frame th"
  shows "tt_now th' = tt_now th" and "tt_static_tx_qid th' = tt_static_tx_qid th"
    and "tt_last_rxq th' = tt_last_rxq th" and "tt_tx_ports th' = tt_tx_ports th"
proof -
  have sel: "tt_now (thread_frame x) = tt_now x" "tt_static_tx_qid (thread_frame x) = tt_static_tx_qid x"
    "tt_last_rxq (thread_frame x) = tt_last_rxq x" "tt_tx_ports (thread_frame x) = tt_tx_ports x" for x
    by (simp_all add: thread_frame_def)
  show "tt_now th' = tt_now th" "tt_static_tx_qid th' = tt_static_tx_qid th"
    "tt_last_rxq th' = tt_last_rxq th" "tt_tx_ports th' = tt_tx_ports th"
    using assms sel by metis+
qed

lemma tx_okD:
  assumes "tx_ok s" and "i < length (sends_ports s)"
  shows "tx_port_ok (ts_ports s) (sends_ports s ! i)"
    and "po_mode (ts_ports s ! tp_port (sends_ports s ! i)) = TXQ_MODE_STATIC \<Longrightarrow>
      tt_static_tx_qid (ts_thread s) < po_n_txq (ts_ports s ! tp_port (sends_ports s ! i))"
  using assms by (simp_all add: tx_ok_def tx_thread_ok_def)

lemma port_of_shape:
  assumes "shape (ts_ports s') = shape (ts_ports s)" and "p < length (ts_ports s)"
  shows "po_mode (ts_ports s' ! p) = po_mode (ts_ports s ! p)" and "po_n_txq (ts_ports s' ! p) = po_n_txq (ts_ports s ! p)"
    and "po_no (ts_ports s' ! p) = po_no (ts_ports s ! p)"
  using port_shape_eqD [OF shape_eqD(2) [OF assms]] by simp_all

text \<open>Replacing one cached port by another that is well formed and waits as much as before.\<close>

lemma count_by_map: "length (filter P xs) = length (filter id (map P xs))"
  by (induction xs) auto

lemma tx_thread_ok_update:
  assumes "tx_thread_ok ports th" and "i < length (tt_send_ports th)" and "tx_port_ok ports tx"
    and "tp_port tx = tp_port (tt_send_ports th ! i)"
    and "(tp_output_pkts tx = []) = (tp_output_pkts (tt_send_ports th ! i) = [])"
  shows "tx_thread_ok ports (th\<lparr>tt_send_ports := (tt_send_ports th)[i := tx]\<rparr>)"
proof -
  let ?P = "\<lambda>tx. tp_output_pkts tx \<noteq> []"
  have "map ?P ((tt_send_ports th)[i := tx]) = map ?P (tt_send_ports th)"
    using assms(2,5) by (simp add: map_list_update_same)
  then have "length (filter ?P ((tt_send_ports th)[i := tx])) = length (filter ?P (tt_send_ports th))"
    using count_by_map [of ?P] by metis
  moreover have "map tp_port ((tt_send_ports th)[i := tx]) = map tp_port (tt_send_ports th)"
    using assms(2,4) by (simp add: map_list_update_same)
  ultimately show ?thesis using assms
    by (auto simp: tx_thread_ok_def dest!: set_update_subset_insert [THEN subsetD])
qed

section \<open>The choice of a shared queue\<close>

text \<open>The counters as the choice sees them: a port gives its own queue back first.\<close>

definition released :: "u32 list \<Rightarrow> int \<Rightarrow> u32 list" where
  "released used qid = (if 0 \<le> qid then used[nat qid := used ! nat qid - 1] else used)"

lemma length_released [simp]: "length (released used qid) = length used"
  by (simp add: released_def)

text \<open>Taking the queue \<open>q\<close> for a cached port.\<close>

definition take_queue :: "nat \<Rightarrow> nat \<Rightarrow> tx_state \<Rightarrow> tx_state" where
  "take_queue i q s =
     (let tx = sends_ports s ! i; used = released (po_txq_used (ts_ports s ! tp_port tx)) (tp_qid tx)
      in put_used (tp_port tx) (used[q := used ! q + 1])
           (put_tx i (tx\<lparr>tp_last_used := tt_now (ts_thread s), tp_qid := int q\<rparr>) s))"

lemma take_queue_simps:
  "sends_ports (take_queue i q s) = (sends_ports s)[i := (sends_ports s ! i)\<lparr>tp_last_used := tt_now (ts_thread s), tp_qid := int q\<rparr>]"
  "ts_thread (take_queue i q s) = (ts_thread s)\<lparr>tt_send_ports :=
     (sends_ports s)[i := (sends_ports s ! i)\<lparr>tp_last_used := tt_now (ts_thread s), tp_qid := int q\<rparr>]\<rparr>"
  "ts_sends (take_queue i q s) = ts_sends s" "ts_freed (take_queue i q s) = ts_freed s"
  by (simp_all add: take_queue_def put_used_def put_tx_def Let_def)

lemma take_queue_used:
  assumes "tp_port (sends_ports s ! i) < length (ts_ports s)"
  shows "po_txq_used (ts_ports (take_queue i q s) ! p) =
    (let tx = sends_ports s ! i; used = released (po_txq_used (ts_ports s ! p)) (tp_qid tx)
     in if p = tp_port tx then used[q := used ! q + 1] else po_txq_used (ts_ports s ! p))"
  using assms by (simp add: take_queue_def put_used_def put_tx_def Let_def nth_list_update)

lemma take_queue_kept:
  assumes s: "tx_ok s" and i: "i < length (sends_ports s)" and tx: "tx = sends_ports s ! i"
    and xps: "po_mode (ts_ports s ! tp_port tx) = TXQ_MODE_XPS" and q: "q < po_n_txq (ts_ports s ! tp_port tx)"
  shows "tx_kept s (take_queue i q s)"
proof -
  note ok = tx_port_okD [OF tx_okD(1) [OF s i], folded tx]
  let ?s = "take_queue i q s"
  let ?tx = "tx\<lparr>tp_last_used := tt_now (ts_thread s), tp_qid := int q\<rparr>"
  have shape: "shape (ts_ports ?s) = shape (ts_ports s)"
    by (simp add: take_queue_def put_used_def put_tx_def Let_def tx_shape)
  have tx_ok: "tx_port_ok (ts_ports s) ?tx"
    using tx_okD(1) [OF s i] tx xps q by (simp add: tx_port_ok_def Let_def)
  then have "tx_port_ok (ts_ports ?s) ?tx" by (rule tx_port_ok_shape [OF shape])
  moreover have ok': "tx_thread_ok (ts_ports ?s) (ts_thread s)"
    using s shape tx_port_ok_shape [OF shape] port_of_shape [OF shape]
    by (simp add: tx_ok_def tx_thread_ok_def) (metis tx_port_okD(1))
  ultimately have "tx_ok ?s"
    unfolding tx_ok_def take_queue_simps(2) using i tx by (intro tx_thread_ok_update) simp_all
  moreover have "map tp_port (sends_ports ?s) = map tp_port (sends_ports s)"
    using i tx by (simp add: take_queue_simps map_list_update_same)
  moreover have "txq_balance (ts_ports ?s) (sends_ports ?s) p r = txq_balance (ts_ports s) (sends_ports s) p r" for p r
  proof -
    have u: "po_txq_used (ts_ports ?s ! p) ! r - of_nat (txq_users p r [?tx]) =
        po_txq_used (ts_ports s ! p) ! r - of_nat (txq_users p r [tx])"
      using take_queue_used [OF ok(1) [unfolded tx], of q p] ok(3,5) q tx
      by (auto simp: Let_def released_def nth_list_update)
    show ?thesis
      using u txq_balance_update [OF i, of "ts_ports ?s" ?tx p r] tx
      by (simp add: take_queue_simps txq_balance_def algebra_simps del: txq_users_simps(2))
  qed
  moreover have "thread_frame (ts_thread ?s) = thread_frame (ts_thread s)"
    by (simp add: take_queue_simps(2) thread_frame_def)
  ultimately show ?thesis using shape by (auto simp: tx_kept_def)
qed

text \<open>What waits on the cached ports, without the queues they use.\<close>

definition waits :: "tx_port list \<Rightarrow> tx_port list" where
  "waits txs = map (\<lambda>tx. tx\<lparr>tp_qid := -1, tp_last_used := 0\<rparr>) txs"

lemma waits_eqD:
  assumes "waits txs' = waits txs" and "i < length txs"
  shows "tp_port (txs' ! i) = tp_port (txs ! i)" and "tp_output_pkts (txs' ! i) = tp_output_pkts (txs ! i)"
    and "tp_txq_pkts (txs' ! i) = tp_txq_pkts (txs ! i)" and "tp_output_pkts_rxqs (txs' ! i) = tp_output_pkts_rxqs (txs ! i)"
    and "length txs' = length txs"
proof -
  show "length txs' = length txs" using assms(1) by (auto simp: waits_def dest: map_eq_imp_length_eq)
  then have "(txs' ! i)\<lparr>tp_qid := -1, tp_last_used := 0\<rparr> = (txs ! i)\<lparr>tp_qid := -1, tp_last_used := 0\<rparr>"
    using assms by (metis (no_types, lifting) nth_map waits_def)
  then show "tp_port (txs' ! i) = tp_port (txs ! i)" "tp_output_pkts (txs' ! i) = tp_output_pkts (txs ! i)"
    "tp_txq_pkts (txs' ! i) = tp_txq_pkts (txs ! i)" "tp_output_pkts_rxqs (txs' ! i) = tp_output_pkts_rxqs (txs ! i)"
    by (metis tx_port.select_convs tx_port.surjective tx_port.update_convs(2,3))+
qed

lemma waits_map:
  assumes "waits txs' = waits txs" and "\<And>tx. f (tx\<lparr>tp_qid := -1, tp_last_used := 0\<rparr>) = f tx"
  shows "map f txs' = map f txs"
proof -
  have "map f (waits txs) = map f txs" for txs using assms(2) by (simp add: waits_def)
  then show ?thesis using assms(1) by metis
qed

lemma waits_filter_length:
  assumes "waits txs' = waits txs" and "\<And>tx. f (tx\<lparr>tp_qid := -1, tp_last_used := 0\<rparr>) = f tx"
  shows "length (filter f txs') = length (filter f txs)"
proof -
  have "length (filter f txs) = length (filter id (map f txs))" for txs
    by (simp add: filter_map comp_def)
  then show ?thesis using waits_map [OF assms(1), of f] assms(2) by metis
qed

lemma revalidate_law:
  assumes s: "tx_ok s"
  shows "\<exists>txs ports. dpif_netdev_xps_revalidate_pmd purge s =
      Inr (s\<lparr>ts_thread := (ts_thread s)\<lparr>tt_send_ports := txs\<rparr>, ts_ports := ports\<rparr>) \<and>
    tx_kept s (s\<lparr>ts_thread := (ts_thread s)\<lparr>tt_send_ports := txs\<rparr>, ts_ports := ports\<rparr>) \<and>
    waits txs = waits (sends_ports s) \<and>
    (purge \<longrightarrow> (\<forall>tx\<in>set txs. tp_qid tx = -1)) \<and>
    (\<forall>i<length txs. \<not> purge \<and> tt_now (ts_thread s) - tp_last_used (sends_ports s ! i) < XPS_TIMEOUT \<longrightarrow>
       txs ! i = sends_ports s ! i)"
proof -
  have ok: "\<forall>tx\<in>set (sends_ports s). tx_port_ok (ts_ports s) tx"
    using s by (simp add: tx_ok_def tx_thread_ok_def)
  from revalidate_txs_law [OF ok, of "tt_now (ts_thread s)" purge] obtain txs ports where
    r: "revalidate_txs (tt_now (ts_thread s)) purge (sends_ports s) (ts_ports s) = Inr (txs, ports)"
      "shape ports = shape (ts_ports s)" "\<forall>tx\<in>set txs. tx_port_ok (ts_ports s) tx"
      "txq_balance ports txs = txq_balance (ts_ports s) (sends_ports s)"
    and l: "list_all2 (\<lambda>tx tx'. tx' = tx\<lparr>tp_qid := tp_qid tx'\<rparr> \<and> (purge \<longrightarrow> tp_qid tx' = -1) \<and>
      (\<not> purge \<and> tt_now (ts_thread s) - tp_last_used tx < XPS_TIMEOUT \<longrightarrow> tx' = tx)) (sends_ports s) txs"
    by blast
  let ?s = "s\<lparr>ts_thread := (ts_thread s)\<lparr>tt_send_ports := txs\<rparr>, ts_ports := ports\<rparr>"
  have w: "waits txs = waits (sends_ports s)"
    unfolding waits_def
  proof (rule nth_equalityI)
    show "length (map (\<lambda>tx. tx\<lparr>tp_qid := -1, tp_last_used := 0\<rparr>) txs) =
        length (map (\<lambda>tx. tx\<lparr>tp_qid := -1, tp_last_used := 0\<rparr>) (sends_ports s))"
      using list_all2_lengthD [OF l] by simp
  next
    fix j assume "j < length (map (\<lambda>tx. tx\<lparr>tp_qid := -1, tp_last_used := 0\<rparr>) txs)"
    then have j: "j < length txs" "j < length (sends_ports s)" using list_all2_lengthD [OF l] by simp_all
    have "txs ! j = (sends_ports s ! j)\<lparr>tp_qid := tp_qid (txs ! j)\<rparr>" using list_all2_nthD2 [OF l j(1)] by blast
    then have "(txs ! j)\<lparr>tp_qid := -1, tp_last_used := 0\<rparr> = (sends_ports s ! j)\<lparr>tp_qid := -1, tp_last_used := 0\<rparr>"
      by (metis tx_port.surjective tx_port.update_convs(2))
    then show "map (\<lambda>tx. tx\<lparr>tp_qid := -1, tp_last_used := 0\<rparr>) txs ! j =
        map (\<lambda>tx. tx\<lparr>tp_qid := -1, tp_last_used := 0\<rparr>) (sends_ports s) ! j" using j by simp
  qed
  have ports: "map tp_port txs = map tp_port (sends_ports s)" by (rule waits_map [OF w]) simp
  have "tx_thread_ok ports ((ts_thread s)\<lparr>tt_send_ports := txs\<rparr>)"
    unfolding tx_thread_ok_def
  proof (intro conjI)
    show "\<forall>tx\<in>set (tt_send_ports ((ts_thread s)\<lparr>tt_send_ports := txs\<rparr>)). tx_port_ok ports tx"
      using r(3) tx_port_ok_shape [OF r(2)] by simp
    show "tt_n_output_batches ((ts_thread s)\<lparr>tt_send_ports := txs\<rparr>) =
        int (length (filter (\<lambda>tx. tp_output_pkts tx \<noteq> []) (tt_send_ports ((ts_thread s)\<lparr>tt_send_ports := txs\<rparr>))))"
      using s waits_filter_length [OF w, of "\<lambda>tx. tp_output_pkts tx \<noteq> []"] by (simp add: tx_ok_def tx_thread_ok_def)
    have "\<forall>p\<in>set (map tp_port (sends_ports s)). po_mode (ts_ports s ! p) = TXQ_MODE_STATIC \<longrightarrow>
        tt_static_tx_qid (ts_thread s) < po_n_txq (ts_ports s ! p)"
      using s by (simp add: tx_ok_def tx_thread_ok_def)
    then have "\<forall>p\<in>set (map tp_port txs). po_mode (ports ! p) = TXQ_MODE_STATIC \<longrightarrow>
        tt_static_tx_qid (ts_thread s) < po_n_txq (ports ! p)"
      using ok port_of_shape [of ?s s] r(2) tx_port_okD(1) unfolding ports by fastforce
    then show "\<forall>tx\<in>set (tt_send_ports ((ts_thread s)\<lparr>tt_send_ports := txs\<rparr>)). po_mode (ports ! tp_port tx) = TXQ_MODE_STATIC \<longrightarrow>
        tt_static_tx_qid ((ts_thread s)\<lparr>tt_send_ports := txs\<rparr>) < po_n_txq (ports ! tp_port tx)"
      by simp
  qed (use s ports in \<open>simp add: tx_ok_def tx_thread_ok_def\<close>)
  then have "tx_kept s ?s" using r(2,4) ports by (simp add: tx_kept_def tx_ok_def thread_frame_def)
  moreover have "dpif_netdev_xps_revalidate_pmd purge s = Inr ?s"
    using r(1) by (simp add: dpif_netdev_xps_revalidate_pmd_def)
  moreover have "purge \<longrightarrow> (\<forall>tx\<in>set txs. tp_qid tx = -1)"
    using list_all2_nthD2 [OF l] by (auto simp: in_set_conv_nth)
  moreover have "\<forall>i<length txs. \<not> purge \<and> tt_now (ts_thread s) - tp_last_used (sends_ports s ! i) < XPS_TIMEOUT \<longrightarrow>
      txs ! i = sends_ports s ! i"
    using list_all2_nthD2 [OF l] by blast
  ultimately show ?thesis using w by blast
qed

lemma xps_get_tx_qid_law:
  assumes s: "tx_ok s" and i: "i < length (sends_ports s)" and tx: "tx = sends_ports s ! i"
    and xps: "po_mode (ts_ports s ! tp_port tx) = TXQ_MODE_XPS"
  shows "\<exists>q txs ports. dpif_netdev_xps_get_tx_qid i s =
      Inr (int q, s\<lparr>ts_thread := (ts_thread s)\<lparr>tt_send_ports := txs\<rparr>, ts_ports := ports\<rparr>) \<and>
    tx_kept s (s\<lparr>ts_thread := (ts_thread s)\<lparr>tt_send_ports := txs\<rparr>, ts_ports := ports\<rparr>) \<and>
    waits txs = waits (sends_ports s) \<and> q < po_n_txq (ts_ports s ! tp_port tx) \<and> tp_qid (txs ! i) = int q \<and>
    (if 0 \<le> tp_qid tx \<and> tt_now (ts_thread s) - tp_last_used tx < XPS_TIMEOUT
     then tp_qid tx = int q \<and> ports = ts_ports s
     else \<forall>j<po_n_txq (ts_ports s ! tp_port tx).
            released (po_txq_used (ts_ports s ! tp_port tx)) (tp_qid tx) ! q \<le>
            released (po_txq_used (ts_ports s ! tp_port tx)) (tp_qid tx) ! j)"
proof -
  note ok = tx_port_okD [OF tx_okD(1) [OF s i], folded tx]
  let ?now = "tt_now (ts_thread s)" and ?port = "ts_ports s ! tp_port tx"
  let ?n = "po_n_txq ?port" and ?used = "released (po_txq_used ?port) (tp_qid tx)"
  show ?thesis
  proof (cases "0 \<le> tp_qid tx \<and> ?now - tp_last_used tx < XPS_TIMEOUT")
    case True
    let ?txs = "(sends_ports s)[i := tx\<lparr>tp_last_used := ?now\<rparr>]"
    let ?s = "s\<lparr>ts_thread := (ts_thread s)\<lparr>tt_send_ports := ?txs\<rparr>, ts_ports := ts_ports s\<rparr>"
    have w: "waits ?txs = waits (sends_ports s)"
      using i tx by (simp add: waits_def map_list_update_same)
    have "tx_port_ok (ts_ports s) (tx\<lparr>tp_last_used := ?now\<rparr>)"
      using tx_okD(1) [OF s i] tx by (simp add: tx_port_ok_def Let_def)
    then have "tx_ok ?s" unfolding tx_ok_def
      using s i tx tx_thread_ok_update [of "ts_ports s" "ts_thread s" i "tx\<lparr>tp_last_used := ?now\<rparr>"] by (simp add: tx_ok_def)
    moreover have "map tp_port ?txs = map tp_port (sends_ports s)" by (rule waits_map [OF w]) simp
    moreover have "txq_balance (ts_ports s) ?txs p q = txq_balance (ts_ports s) (sends_ports s) p q" for p q
      using txq_balance_update [OF i, of "ts_ports s" "tx\<lparr>tp_last_used := ?now\<rparr>" p q] tx by simp
    then have "txq_balance (ts_ports s) ?txs = txq_balance (ts_ports s) (sends_ports s)" by blast
    ultimately have kept: "tx_kept s ?s" by (simp add: tx_kept_def thread_frame_def)
    have "dpif_netdev_xps_get_tx_qid i s = Inr (tp_qid tx, ?s)"
      using True i tx by (simp add: dpif_netdev_xps_get_tx_qid_def put_tx_def)
    moreover obtain q where "tp_qid tx = int q" "q < ?n" using True ok(5) by (metis nat_0_le)
    ultimately show ?thesis using True w kept i tx
      by (intro exI [of _ q] exI [of _ ?txs] exI [of _ "ts_ports s"]) simp
  next
    case False
    have len: "length ?used = ?n" using ok(3) by simp
    from min_txq_from_least [of 0 ?n ?used "-1" 0] ok(2) len obtain q where
      q: "q < ?n" "min_txq_from ?used 0 ?n (-1) 0 = Inr q" "\<forall>j<?n. ?used ! q \<le> ?used ! j"
      by auto
    let ?s1 = "take_queue i q s"
    have kept1: "tx_kept s ?s1" using take_queue_kept [OF s i tx xps q(1)] .
    have w1: "waits (sends_ports ?s1) = waits (sends_ports s)"
      using i by (simp add: waits_def take_queue_simps map_list_update_same)
    from revalidate_law [OF tx_keptD(1) [OF kept1], of False] obtain txs ports where
      r: "dpif_netdev_xps_revalidate_pmd False ?s1 = Inr (?s1\<lparr>ts_thread := (ts_thread ?s1)\<lparr>tt_send_ports := txs\<rparr>, ts_ports := ports\<rparr>)"
        "tx_kept ?s1 (?s1\<lparr>ts_thread := (ts_thread ?s1)\<lparr>tt_send_ports := txs\<rparr>, ts_ports := ports\<rparr>)"
        "waits txs = waits (sends_ports ?s1)"
        "\<forall>i<length txs. tt_now (ts_thread ?s1) - tp_last_used (sends_ports ?s1 ! i) < XPS_TIMEOUT \<longrightarrow> txs ! i = sends_ports ?s1 ! i"
      by auto
    let ?s = "s\<lparr>ts_thread := (ts_thread s)\<lparr>tt_send_ports := txs\<rparr>, ts_ports := ports\<rparr>"
    have e: "?s1\<lparr>ts_thread := (ts_thread ?s1)\<lparr>tt_send_ports := txs\<rparr>, ts_ports := ports\<rparr> = ?s"
      by (simp add: take_queue_def put_used_def put_tx_def Let_def)
    have "i < length txs" using waits_eqD(5) [OF r(3)] i by (simp add: take_queue_simps)
    then have "txs ! i = sends_ports ?s1 ! i" using r(4) i by (simp add: take_queue_simps XPS_TIMEOUT_def)
    then have qid: "tp_qid (txs ! i) = int q" using i by (simp add: take_queue_simps)
    have u: "(if 0 \<le> tp_qid tx then bindr (arr_get (po_txq_used ?port) (nat (tp_qid tx)))
        (\<lambda>n. Inr ((po_txq_used ?port)[nat (tp_qid tx) := n - 1])) else Inr (po_txq_used ?port)) = Inr ?used"
      using ok(3,5) by (simp add: released_def)
    moreover have "arr_get (sends_ports s) i = Inr tx" "arr_get (ts_ports s) (tp_port tx) = Inr ?port"
      "arr_get ?used q = Inr (?used ! q)"
      using i tx ok(1) q(1) len by simp_all
    moreover have "dpif_netdev_xps_revalidate_pmd False (put_used (tp_port tx) (?used[q := ?used ! q + 1])
        (put_tx i (tx\<lparr>tp_last_used := ?now, tp_qid := int q\<rparr>) s)) = Inr ?s"
      using r(1) [unfolded e] unfolding take_queue_def Let_def tx .
    ultimately have "dpif_netdev_xps_get_tx_qid i s = Inr (int q, ?s)"
      using q(2) unfolding dpif_netdev_xps_get_tx_qid_def Let_def by (simp only: bindr_Inr if_not_P [OF False] prod.case)
    then show ?thesis using tx_kept_trans [OF kept1 r(2) [unfolded e]] r(3) w1 q(1,3) qid
      unfolding if_not_P [OF False] by (intro exI [of _ q] exI [of _ txs] exI [of _ ports]) simp
  qed
qed

end
