(* ===== verification/Dpif_Tx_Flush.thy ===== *)
theory Dpif_Tx_Flush
  imports Dpif_Tx_Laws
begin

text \<open>
  Flushing the waiting packets of a thread: what is sent on which queue, that nothing is lost
  and that the packets of a flow keep their order.
\<close>

section \<open>The operations on batches\<close>

text \<open>
  What the code relies on of \<open>dp-packet.h\<close>: a batch takes up to \<open>NETDEV_MAX_BURST\<close> packets at its
  end, and cloning or truncating a batch keeps the number of its packets.
\<close>

definition tx_env_ok :: "tx_env \<Rightarrow> bool" where
  "tx_env_ok X \<longleftrightarrow>
     (\<forall>b pk. length b < NETDEV_MAX_BURST \<longrightarrow> te_batch_add X b pk = b @ [pk]) \<and>
     (\<forall>b. length (te_batch_clone X b) = length b) \<and>
     (\<forall>b. length (te_reset_cutlen X b) = length b) \<and>
     (\<forall>b. length (te_apply_cutlen X b) = length b)"

lemma tx_env_okD:
  assumes "tx_env_ok X"
  shows "length b < NETDEV_MAX_BURST \<Longrightarrow> te_batch_add X b pk = b @ [pk]"
    and "length (te_batch_clone X b) = length b" and "length (te_apply_cutlen X b) = length b"
    and "length (te_reset_cutlen X b) = length b"
  using assms by (simp_all add: tx_env_ok_def)

section \<open>Queues by hash\<close>

definition txq_of :: "tx_env \<Rightarrow> nat \<Rightarrow> tx_pkt \<Rightarrow> nat" where
  "txq_of X n pk = unat (tx_hash X pk) mod n"

lemma rebatch_spec:
  assumes X: "tx_env_ok X" and n: "0 < n" and "length bs = n"
    and "\<forall>q<n. length (bs ! q) + length pks \<le> NETDEV_MAX_BURST"
  shows "rebatch X n pks bs = Inr (map (\<lambda>q. bs ! q @ filter (\<lambda>pk. txq_of X n pk = q) pks) [0..<n])"
  using assms(3,4)
proof (induction pks arbitrary: bs)
  case Nil
  then show ?case using map_nth [of bs] by simp
next
  case (Cons pk pks)
  let ?q = "txq_of X n pk"
  have q: "?q < n" using n by (simp add: txq_of_def)
  have len: "length (bs ! ?q) < NETDEV_MAX_BURST" using Cons.prems(2) q by fastforce
  let ?bs = "bs[?q := bs ! ?q @ [pk]]"
  have "rebatch X n pks ?bs = Inr (map (\<lambda>q. ?bs ! q @ filter (\<lambda>pk. txq_of X n pk = q) pks) [0..<n])"
    using Cons.prems q by (intro Cons.IH) (auto simp: nth_list_update)
  also have "map (\<lambda>q. ?bs ! q @ filter (\<lambda>pk. txq_of X n pk = q) pks) [0..<n] =
      map (\<lambda>q. bs ! q @ filter (\<lambda>pk. txq_of X n pk = q) (pk # pks)) [0..<n]"
    using Cons.prems(1) q by (auto simp: nth_list_update)
  finally show ?case
    using n q Cons.prems(1) tx_env_okD(1) [OF X len] by (simp add: txq_of_def Let_def)
qed

lemma flush_txqs_spec:
  assumes "i + k = length bs"
  shows "flush_txqs p n i k bs sends =
    Inr (take i bs @ replicate k [],
         sends @ map (\<lambda>q. \<lparr>se_port = p, se_n_txq = n, se_qid = int q, se_pkts = bs ! q, se_concurrent = True\<rparr>)
                   (filter (\<lambda>q. bs ! q \<noteq> []) [i..<i + k]))"
  using assms
proof (induction k arbitrary: i bs sends)
  case (Suc k)
  have i: "i < length bs" using Suc.prems by simp
  have up: "[i..<i + Suc k] = i # [Suc i..<Suc i + k]" by (simp add: upt_rec)
  show ?case
  proof (cases "bs ! i = []")
    case True
    then have "filter (\<lambda>q. bs ! q \<noteq> []) [i..<i + Suc k] = filter (\<lambda>q. bs ! q \<noteq> []) [Suc i..<Suc i + k]"
      unfolding up by simp
    then show ?thesis using True i Suc.IH [of "Suc i" bs sends] Suc.prems
      by (simp add: take_Suc_conv_app_nth del: upt_Suc)
  next
    case False
    let ?bs = "bs[i := []]" and ?send = "\<lambda>bs q. \<lparr>se_port = p, se_n_txq = n, se_qid = int q, se_pkts = bs ! q, se_concurrent = True\<rparr>"
    let ?qs = "filter (\<lambda>q. bs ! q \<noteq> []) [Suc i..<Suc i + k]"
    have f: "filter (\<lambda>q. ?bs ! q \<noteq> []) [Suc i..<Suc i + k] = ?qs" by (rule filter_cong) auto
    have m: "map (?send ?bs) ?qs = map (?send bs) ?qs" by (rule map_cong) auto
    have t: "take (Suc i) ?bs = take i bs @ [[]]" using i by (simp add: take_Suc_conv_app_nth)
    have l: "Suc i + k = length ?bs" using Suc.prems by simp
    have "flush_txqs p n (Suc i) k ?bs (sends @ [?send bs i]) =
        Inr ((take i bs @ [[]]) @ replicate k [], (sends @ [?send bs i]) @ map (?send bs) ?qs)"
      by (simp only: Suc.IH [OF l] f m t)
    moreover have "filter (\<lambda>q. bs ! q \<noteq> []) [i..<i + Suc k] = i # ?qs" unfolding up using False by simp
    ultimately show ?thesis using False i by (simp del: upt_Suc)
  qed
qed simp

section \<open>What a flush of a port sends\<close>

text \<open>The calls of \<open>netdev_send\<close> for the packets \<open>pks\<close> that wait on the port at \<open>p\<close>.\<close>

definition sends_of :: "tx_env \<Rightarrow> nat \<Rightarrow> tx_dev_port \<Rightarrow> nat \<Rightarrow> tx_pkt list \<Rightarrow> tx_send list" where
  "sends_of X p port qid pks =
     (if po_mode port = TXQ_MODE_XPS_HASH then
        map (\<lambda>q. \<lparr>se_port = p, se_n_txq = po_n_txq port, se_qid = int q, se_pkts = filter (\<lambda>pk. txq_of X (po_n_txq port) pk = q) pks,
                   se_concurrent = True\<rparr>)
          (filter (\<lambda>q. \<exists>pk\<in>set pks. txq_of X (po_n_txq port) pk = q) [0..<po_n_txq port])
      else [\<lparr>se_port = p, se_n_txq = po_n_txq port, se_qid = int qid, se_pkts = pks, se_concurrent = (po_mode port = TXQ_MODE_XPS)\<rparr>])"

lemma sends_of_port: "se \<in> set (sends_of X p port qid pks) \<Longrightarrow> se_port se = p"
  by (auto simp: sends_of_def split: if_splits)

lemma sends_of_queue:
  "qid < po_n_txq port \<Longrightarrow> se \<in> set (sends_of X p port qid pks) \<Longrightarrow> 0 \<le> se_qid se \<and> se_qid se < int (se_n_txq se)"
proof (cases "po_mode port = TXQ_MODE_XPS_HASH")
  case True
  have "\<forall>se\<in>set (sends_of X p port qid pks). 0 \<le> se_qid se \<and> se_qid se < int (se_n_txq se)"
    unfolding sends_of_def if_P [OF True] set_map ball_simps by simp
  then show "se \<in> set (sends_of X p port qid pks) \<Longrightarrow> ?thesis" by blast
qed (simp_all add: sends_of_def)

text \<open>Of the packets of one hash, all go to one queue, in their order.\<close>

lemma sends_of_flow:
  assumes "0 < po_n_txq port"
  shows "filter (\<lambda>pk. tx_hash X pk = h) (concat (map se_pkts (sends_of X p port qid pks))) =
    filter (\<lambda>pk. tx_hash X pk = h) pks"
proof (cases "po_mode port = TXQ_MODE_XPS_HASH")
  case True
  let ?n = "po_n_txq port"
  let ?H = "filter (\<lambda>pk. tx_hash X pk = h)"
  have one: "filter (\<lambda>pk. txq_of X ?n pk = q \<and> tx_hash X pk = h) pks =
      (if q = unat h mod ?n then ?H pks else [])" for q
    by (auto simp: txq_of_def filter_empty_conv intro: filter_cong)
  have pick: "concat (map (\<lambda>q. if q = c then ys else []) qs) = (if c \<in> set qs then ys else [])"
    if "distinct qs" for c qs and ys :: "tx_pkt list"
    using that by (induction qs) auto
  let ?qs = "filter (\<lambda>q. \<exists>pk\<in>set pks. txq_of X ?n pk = q) [0..<?n]"
  have "?H (concat (map se_pkts (sends_of X p port qid pks))) =
      concat (map (\<lambda>q. filter (\<lambda>pk. txq_of X ?n pk = q \<and> tx_hash X pk = h) pks) ?qs)"
    using True by (simp add: sends_of_def filter_concat comp_def)
  also have "\<dots> = (if unat h mod ?n \<in> set ?qs then ?H pks else [])"
    unfolding one by (rule pick) simp
  also have "\<dots> = ?H pks"
    using assms by (auto simp: txq_of_def intro!: filter_False [symmetric])
  finally show ?thesis .
qed (simp add: sends_of_def)

section \<open>Flushing one port\<close>

lemma tx_ok_sends [simp]: "tx_ok (s\<lparr>ts_sends := sends\<rparr>) = tx_ok s"
  and tx_kept_sends [simp]: "tx_kept s (s'\<lparr>ts_sends := sends\<rparr>) = tx_kept s s'"
  and tx_ok_cycles [simp]: "tx_ok (s\<lparr>ts_rxq_cycles := cycles\<rparr>) = tx_ok s"
  and tx_kept_cycles [simp]: "tx_kept s (s'\<lparr>ts_rxq_cycles := cycles\<rparr>) = tx_kept s s'"
  by (simp_all add: tx_ok_def tx_kept_def)

lemma send_output_law:
  assumes X: "tx_env_ok X" and s: "tx_ok s" and i: "i < length (sends_ports s)" and tx: "tx = sends_ports s ! i"
  shows "\<exists>q txs ports. send_output X i s =
      Inr (s\<lparr>ts_thread := (ts_thread s)\<lparr>tt_send_ports := txs\<rparr>, ts_ports := ports,
             ts_sends := ts_sends s @ sends_of X (tp_port tx) (ts_ports s ! tp_port tx) q (tp_output_pkts tx)\<rparr>) \<and>
    tx_kept s (s\<lparr>ts_thread := (ts_thread s)\<lparr>tt_send_ports := txs\<rparr>, ts_ports := ports\<rparr>) \<and>
    waits txs = waits (sends_ports s) \<and> q < po_n_txq (ts_ports s ! tp_port tx)"
proof -
  note ok = tx_port_okD [OF tx_okD(1) [OF s i], folded tx]
  let ?p = "ts_ports s ! tp_port tx" and ?pks = "tp_output_pkts tx"
  have g: "arr_get (sends_ports s) i = Inr tx" "arr_get (ts_ports s) (tp_port tx) = Inr ?p"
    using i tx ok(1) by simp_all
  consider "po_mode ?p = TXQ_MODE_XPS_HASH" | "po_mode ?p = TXQ_MODE_XPS" | "po_mode ?p = TXQ_MODE_STATIC"
    by (cases "po_mode ?p") auto
  then show ?thesis
  proof cases
    case 1
    let ?n = "po_n_txq ?p"
    let ?bs = "map (\<lambda>q. filter (\<lambda>pk. txq_of X ?n pk = q) ?pks) [0..<?n]"
    have r: "rebatch X ?n ?pks (replicate ?n []) = Inr ?bs"
      using rebatch_spec [OF X ok(2), of "replicate ?n []" ?pks] ok(7) by simp
    have f: "flush_txqs (tp_port tx) ?n 0 ?n ?bs (ts_sends s) =
        Inr (replicate ?n [], ts_sends s @ sends_of X (tp_port tx) ?p 0 ?pks)"
    proof -
      have e: "filter (\<lambda>q. ?bs ! q \<noteq> []) [0..<0 + ?n] = filter (\<lambda>q. \<exists>pk\<in>set ?pks. txq_of X ?n pk = q) [0..<?n]"
        by (rule filter_cong) (auto simp: filter_empty_conv)
      have "sends_of X (tp_port tx) ?p 0 ?pks =
          map (\<lambda>q. \<lparr>se_port = tp_port tx, se_n_txq = ?n, se_qid = int q, se_pkts = ?bs ! q, se_concurrent = True\<rparr>)
            (filter (\<lambda>q. ?bs ! q \<noteq> []) [0..<0 + ?n])"
        unfolding e using 1 by (auto simp: sends_of_def intro!: map_cong)
      then show ?thesis by (subst flush_txqs_spec) simp_all
    qed
    have "tx\<lparr>tp_txq_pkts := Some (replicate ?n [])\<rparr> = tx" using ok(9) [OF 1] by simp
    then have "put_tx i (tx\<lparr>tp_txq_pkts := Some (replicate ?n [])\<rparr>) (s\<lparr>ts_sends := z\<rparr>) = s\<lparr>ts_sends := z\<rparr>" for z
      using i tx by (simp add: put_tx_def)
    then have "send_output X i s = Inr (s\<lparr>ts_sends := ts_sends s @ sends_of X (tp_port tx) ?p 0 ?pks\<rparr>)"
      using 1 r f ok(9) [OF 1] by (simp add: send_output_def g)
    then show ?thesis using s ok(2)
      by (intro exI [of _ 0] exI [of _ "sends_ports s"] exI [of _ "ts_ports s"]) simp
  next
    case 2
    from xps_get_tx_qid_law [OF s i tx 2] obtain q txs ports where
      x: "dpif_netdev_xps_get_tx_qid i s =
          Inr (int q, s\<lparr>ts_thread := (ts_thread s)\<lparr>tt_send_ports := txs\<rparr>, ts_ports := ports\<rparr>)"
        "tx_kept s (s\<lparr>ts_thread := (ts_thread s)\<lparr>tt_send_ports := txs\<rparr>, ts_ports := ports\<rparr>)"
        "waits txs = waits (sends_ports s)" "q < po_n_txq ?p"
      by blast
    then show ?thesis
      by (intro exI [of _ q] exI [of _ txs] exI [of _ ports]) (simp add: send_output_def g 2 sends_of_def)
  next
    case 3
    then have "tt_static_tx_qid (ts_thread s) < po_n_txq ?p" using tx_okD(2) [OF s i] tx by simp
    then show ?thesis using s 3
      by (intro exI [of _ "tt_static_tx_qid (ts_thread s)"] exI [of _ "sends_ports s"] exI [of _ "ts_ports s"])
         (simp add: send_output_def g sends_of_def)
  qed
qed

lemma share_cycles_total:
  "i + k \<le> length rxqs \<Longrightarrow> \<exists>cycles'. share_cycles rxqs i k c cycles = Inr cycles'"
  by (induction k arbitrary: i cycles) auto

lemma int_length_filter_update:
  "i < length xs \<Longrightarrow>
     int (length (filter P (xs[i := y]))) =
       int (length (filter P xs)) - (if P (xs ! i) then 1 else 0) + (if P y then 1 else 0)"
  using length_filter_update [of i xs P y] by (simp split: if_splits)

text \<open>What a flush leaves alone.\<close>

definition tx_side :: "tx_state \<Rightarrow> tx_pkt list \<times> nat \<times> nat \<times> tx_bond list" where
  "tx_side s = (ts_freed s, ts_drop_invalid_port s, ts_drop_invalid_bond s, tt_bonds (ts_thread s))"

abbreviation waiting :: "tx_state \<Rightarrow> tx_pkt list list" where
  "waiting s \<equiv> map tp_output_pkts (sends_ports s)"

lemma flush_port_law:
  assumes X: "tx_env_ok X" and s: "tx_ok s" and i: "i < length (sends_ports s)" and tx: "tx = sends_ports s ! i"
    and some: "tp_output_pkts tx \<noteq> []"
  shows "\<exists>q s'. dp_netdev_pmd_flush_output_on_port X i s = Inr (length (tp_output_pkts tx), s') \<and>
    tx_kept s s' \<and> tx_side s' = tx_side s \<and> waiting s' = (waiting s)[i := []] \<and>
    (\<forall>j<length (sends_ports s). j \<noteq> i \<longrightarrow> tp_flush_time (sends_ports s' ! j) = tp_flush_time (sends_ports s ! j)) \<and>
    q < po_n_txq (ts_ports s ! tp_port tx) \<and>
    ts_sends s' = ts_sends s @ sends_of X (tp_port tx) (ts_ports s ! tp_port tx) q (tp_output_pkts tx) \<and>
    tt_sent_pkts (ts_thread s') = tt_sent_pkts (ts_thread s) + length (tp_output_pkts tx)"
proof -
  note ok = tx_port_okD [OF tx_okD(1) [OF s i], folded tx]
  from send_output_law [OF X s i tx] obtain q txs ports where
    o: "send_output X i s =
        Inr (s\<lparr>ts_thread := (ts_thread s)\<lparr>tt_send_ports := txs\<rparr>, ts_ports := ports,
               ts_sends := ts_sends s @ sends_of X (tp_port tx) (ts_ports s ! tp_port tx) q (tp_output_pkts tx)\<rparr>)"
      "tx_kept s (s\<lparr>ts_thread := (ts_thread s)\<lparr>tt_send_ports := txs\<rparr>, ts_ports := ports\<rparr>)"
      "waits txs = waits (sends_ports s)" "q < po_n_txq (ts_ports s ! tp_port tx)"
    by blast
  let ?cnt = "length (tp_output_pkts tx)" and ?now = "tt_now (ts_thread s)"
  have g: "arr_get (sends_ports s) i = Inr tx" using i tx by simp
  have comm: "t\<lparr>ts_ports := x, ts_sends := y, ts_thread := z\<rparr> = t\<lparr>ts_thread := z, ts_ports := x, ts_sends := y\<rparr>"
    for t :: tx_state and x y z by simp
  have len: "length txs = length (sends_ports s)" using o(3) i by (rule waits_eqD(5))
  have i': "i < length txs" using i len by simp
  note w = waits_eqD [OF o(3) i]
  let ?tx = "(txs ! i)\<lparr>tp_output_pkts := [], tp_flush_time := ?now + uint (te_tx_flush_interval X)\<rparr>"
  let ?th1 = "(ts_thread s)\<lparr>tt_send_ports := txs\<rparr>"
  let ?th = "(ts_thread s)\<lparr>tt_send_ports := txs[i := ?tx], tt_n_output_batches := tt_n_output_batches (ts_thread s) - 1,
      tt_sent_pkts := tt_sent_pkts (ts_thread s) + ?cnt, tt_sent_batches := tt_sent_batches (ts_thread s) + 1\<rparr>"
  let ?s = "s\<lparr>ts_thread := ?th, ts_ports := ports,
      ts_sends := ts_sends s @ sends_of X (tp_port tx) (ts_ports s ! tp_port tx) q (tp_output_pkts tx)\<rparr>"
  have th1: "tx_thread_ok ports ?th1" using tx_keptD(1) [OF o(2)] by (simp add: tx_ok_def)
  have ports: "map tp_port (txs[i := ?tx]) = map tp_port txs"
    using i' by (simp add: map_list_update_same)
  have fl: "int (length (filter (\<lambda>tx. tp_output_pkts tx \<noteq> []) (txs[i := ?tx]))) =
      int (length (filter (\<lambda>tx. tp_output_pkts tx \<noteq> []) txs)) - 1"
    using int_length_filter_update [OF i', of "\<lambda>tx. tp_output_pkts tx \<noteq> []" ?tx] w(2) some tx by simp
  have pos: "0 < tt_n_output_batches (ts_thread s)"
  proof -
    have "filter (\<lambda>tx. tp_output_pkts tx \<noteq> []) (sends_ports s) \<noteq> []"
      using some tx i by (auto simp: filter_empty_conv)
    then show ?thesis using s by (simp add: tx_ok_def tx_thread_ok_def)
  qed
  have txi: "tx_port_ok ports (txs ! i)" using th1 i' by (simp add: tx_thread_ok_def)
  then have "tx_port_ok ports ?tx" by (simp add: tx_port_ok_def Let_def)
  then have "tx_thread_ok ports ?th"
    using th1 fl ports i' unfolding tx_thread_ok_def
    by (auto dest!: set_update_subset_insert [THEN subsetD])
  moreover have "txq_balance ports (txs[i := ?tx]) p r = txq_balance ports txs p r" for p r
    using txq_balance_update [OF i', of ports ?tx p r] by simp
  then have "txq_balance ports (txs[i := ?tx]) = txq_balance ports txs" by blast
  ultimately have kept: "tx_kept s ?s"
    using o(2) ports by (simp add: tx_kept_def tx_ok_def thread_frame_def)
  have nz: "(of_nat ?cnt :: u64) \<noteq> 0"
    using some ok(7) by (auto simp: NETDEV_MAX_BURST_def word_of_nat_eq_0_iff dest: dvd_imp_le)
  have rxqs: "0 + ?cnt \<le> length (tp_output_pkts_rxqs (txs ! i))" using ok(7,8) w(4) tx by simp
  obtain cycles where c: "share_cycles (tp_output_pkts_rxqs (txs ! i)) 0 ?cnt
      (te_cycle_timer_stop X ?s div of_nat ?cnt) (ts_rxq_cycles s) = Inr cycles"
    using share_cycles_total [OF rxqs] by blast
  have "dp_netdev_pmd_flush_output_on_port X i s = Inr (?cnt, ?s\<lparr>ts_rxq_cycles := cycles\<rparr>)"
    using o(1) i' some pos nz c by (simp add: g comm dp_netdev_pmd_flush_output_on_port_def put_tx_def Let_def)
  moreover have "waiting ?s = (waiting s)[i := []]"
    using waits_map [OF o(3), of tp_output_pkts] by (simp add: map_update)
  moreover have "map tp_flush_time txs = map tp_flush_time (sends_ports s)" by (rule waits_map [OF o(3)]) simp
  then have "\<forall>j<length (sends_ports s). j \<noteq> i \<longrightarrow> tp_flush_time (txs[i := ?tx] ! j) = tp_flush_time (sends_ports s ! j)"
    using len by (metis nth_list_update_neq nth_map)
  ultimately show ?thesis using kept o(4)
    by (intro exI [of _ q] exI [of _ "?s\<lparr>ts_rxq_cycles := cycles\<rparr>"]) (simp add: tx_side_def)
qed

end
