(* ===== verification/Dpif_Tx_Output.thy ===== *)
theory Dpif_Tx_Output
  imports Dpif_Tx_Flush
begin

text \<open>
  The packets of a port as a stream: those sent so far followed by those that wait.  Flushing
  leaves the stream of every flow as it is, and an output action appends to it.
\<close>

section \<open>Streams\<close>

definition sent_on :: "tx_state \<Rightarrow> nat \<Rightarrow> tx_pkt list" where
  "sent_on s p = concat (map se_pkts (filter (\<lambda>se. se_port se = p) (ts_sends s)))"

definition waiting_on :: "tx_state \<Rightarrow> nat \<Rightarrow> tx_pkt list" where
  "waiting_on s p = concat (map tp_output_pkts (filter (\<lambda>tx. tp_port tx = p) (sends_ports s)))"

text \<open>The packets of a port with the hash \<open>h\<close>, in the order in which they leave it.\<close>

definition flow_stream :: "tx_env \<Rightarrow> tx_state \<Rightarrow> nat \<Rightarrow> u32 \<Rightarrow> tx_pkt list" where
  "flow_stream X s p h = filter (\<lambda>pk. tx_hash X pk = h) (sent_on s p @ waiting_on s p)"

text \<open>Every call of \<open>netdev_send\<close> names a queue that the port has.\<close>

definition sends_valid :: "tx_state \<Rightarrow> bool" where
  "sends_valid s \<longleftrightarrow> (\<forall>se\<in>set (ts_sends s). 0 \<le> se_qid se \<and> se_qid se < int (se_n_txq se))"

lemma sends_valid_cong:
  "ts_sends s' = ts_sends s \<Longrightarrow> sends_valid s' = sends_valid s"
  by (simp add: sends_valid_def)

lemma sends_valid_frame [simp]:
  "sends_valid (s\<lparr>ts_thread := x1\<rparr>) = sends_valid s" "sends_valid (s\<lparr>ts_ports := x2\<rparr>) = sends_valid s"
  "sends_valid (s\<lparr>ts_freed := x3\<rparr>) = sends_valid s" "sends_valid (s\<lparr>ts_rxq_cycles := x4\<rparr>) = sends_valid s"
  "sends_valid (s\<lparr>ts_drop_invalid_port := x5\<rparr>) = sends_valid s"
  "sends_valid (s\<lparr>ts_drop_invalid_bond := x6\<rparr>) = sends_valid s"
  by (rule sends_valid_cong, simp)+

text \<open>The packets counted as sent and those that wait.\<close>

definition tx_total :: "tx_state \<Rightarrow> nat" where
  "tx_total s = tt_sent_pkts (ts_thread s) + length (concat (waiting s))"

lemma concat_at:
  assumes "distinct (map f xs)" and "i < length xs"
  shows "concat (map g (filter (\<lambda>x. f x = f (xs ! i)) xs)) = g (xs ! i)"
  using assms
proof (induction xs arbitrary: i)
  case (Cons x xs)
  show ?case
  proof (cases i)
    case 0
    then have "filter (\<lambda>y. f y = f x) xs = []" using Cons.prems(1) by (auto simp: filter_empty_conv image_iff)
    then show ?thesis using 0 by simp
  next
    case (Suc j)
    then have "f x \<noteq> f (xs ! j)" using Cons.prems by auto
    then show ?thesis using Suc Cons by simp
  qed
qed simp

lemma waiting_on_at:
  assumes "tx_ok s" and "i < length (sends_ports s)"
  shows "waiting_on s (tp_port (sends_ports s ! i)) = waiting s ! i"
  using concat_at [of tp_port "sends_ports s" i tp_output_pkts] assms
  by (simp add: waiting_on_def tx_ok_def tx_thread_ok_def)

lemma waiting_on_none:
  "p \<notin> set (map tp_port (sends_ports s)) \<Longrightarrow> waiting_on s p = []"
  by (auto simp: waiting_on_def filter_empty_conv)

text \<open>Changing what waits at one position changes one port.\<close>

lemma waiting_on_update:
  assumes s: "tx_ok s" and k: "tx_kept s s'" and i: "i < length (sends_ports s)"
    and w: "waiting s' = (waiting s)[i := pks]"
  shows "waiting_on s' p = (if p = tp_port (sends_ports s ! i) then pks else waiting_on s p)"
proof (cases "p \<in> set (map tp_port (sends_ports s))")
  case True
  then obtain j where j: "j < length (sends_ports s)" "p = tp_port (sends_ports s ! j)"
    by (metis in_set_conv_nth length_map nth_map)
  note k' = tx_keptD [OF k]
  have p': "tp_port (sends_ports s' ! j) = p" using k'(3,4) j by (metis nth_map)
  have "waiting_on s' p = waiting s' ! j"
    using waiting_on_at [OF k'(1), of j] j(1) k'(4) p' by simp
  also have "\<dots> = (if j = i then pks else waiting s ! j)"
    unfolding w using i j(1) by (simp add: nth_list_update)
  finally have e: "waiting_on s' p = (if j = i then pks else waiting s ! j)" .
  have "distinct (map tp_port (sends_ports s))" using s by (simp add: tx_ok_def tx_thread_ok_def)
  then have "j = i \<longleftrightarrow> p = tp_port (sends_ports s ! i)"
    using i j by (metis length_map nth_eq_iff_index_eq nth_map)
  then show ?thesis using e waiting_on_at [OF s j(1)] j(2) by simp
next
  case False
  moreover have "p \<notin> set (map tp_port (sends_ports s'))" using False tx_keptD(3) [OF k] by simp
  moreover have "p \<noteq> tp_port (sends_ports s ! i)" using False i by auto
  ultimately show ?thesis by (simp add: waiting_on_none)
qed

section \<open>What keeps the streams\<close>

definition tx_conserves :: "tx_env \<Rightarrow> tx_state \<Rightarrow> tx_state \<Rightarrow> bool" where
  "tx_conserves X s s' \<longleftrightarrow>
     tx_kept s s' \<and> tx_side s' = tx_side s \<and> (\<forall>p h. flow_stream X s' p h = flow_stream X s p h) \<and>
     (sends_valid s \<longrightarrow> sends_valid s') \<and> tx_total s' = tx_total s"

lemma tx_conservesD:
  assumes "tx_conserves X s s'"
  shows "tx_kept s s'" and "tx_ok s'" and "tx_side s' = tx_side s" and "flow_stream X s' p h = flow_stream X s p h"
    and "sends_valid s \<Longrightarrow> sends_valid s'" and "tx_total s' = tx_total s"
    and "length (sends_ports s') = length (sends_ports s)"
  using assms tx_keptD [of s s'] by (simp_all add: tx_conserves_def)

lemma tx_conserves_refl [simp]: "tx_ok s \<Longrightarrow> tx_conserves X s s"
  by (simp add: tx_conserves_def)

lemma tx_conserves_trans [trans]: "tx_conserves X s t \<Longrightarrow> tx_conserves X t u \<Longrightarrow> tx_conserves X s u"
  using tx_kept_trans by (auto simp: tx_conserves_def)

lemma length_concat_update:
  "i < length xss \<Longrightarrow> length (concat (xss[i := ys])) + length (xss ! i) = length (concat xss) + length ys"
proof (induction xss arbitrary: i)
  case (Cons xs xss)
  then show ?case by (cases i) (simp, use Cons.IH in \<open>fastforce\<close>)
qed simp

lemma flush_port_conserves:
  assumes X: "tx_env_ok X" and s: "tx_ok s" and i: "i < length (sends_ports s)"
    and some: "waiting s ! i \<noteq> []"
  shows "\<exists>s'. dp_netdev_pmd_flush_output_on_port X i s = Inr (length (waiting s ! i), s') \<and>
    tx_conserves X s s' \<and> waiting s' = (waiting s)[i := []] \<and>
    (\<forall>j<length (sends_ports s). j \<noteq> i \<longrightarrow> tp_flush_time (sends_ports s' ! j) = tp_flush_time (sends_ports s ! j))"
proof -
  let ?tx = "sends_ports s ! i"
  let ?p = "tp_port ?tx" and ?port = "ts_ports s ! tp_port (sends_ports s ! i)"
  have w: "waiting s ! i = tp_output_pkts ?tx" using i by simp
  from flush_port_law [OF X s i refl] some w obtain q s' where
    f: "dp_netdev_pmd_flush_output_on_port X i s = Inr (length (tp_output_pkts ?tx), s')"
      "tx_kept s s'" "tx_side s' = tx_side s" "waiting s' = (waiting s)[i := []]"
      "\<forall>j<length (sends_ports s). j \<noteq> i \<longrightarrow> tp_flush_time (sends_ports s' ! j) = tp_flush_time (sends_ports s ! j)"
      "q < po_n_txq ?port" "ts_sends s' = ts_sends s @ sends_of X ?p ?port q (tp_output_pkts ?tx)"
      "tt_sent_pkts (ts_thread s') = tt_sent_pkts (ts_thread s) + length (tp_output_pkts ?tx)"
    by auto
  let ?new = "sends_of X ?p ?port q (tp_output_pkts ?tx)"
  note ok = tx_port_okD [OF tx_okD(1) [OF s i]]
  have filt: "filter (\<lambda>se. se_port se = p) ?new = (if p = ?p then ?new else [])" for p
    using sends_of_port [of _ X ?p ?port q "tp_output_pkts ?tx"] by (auto simp: filter_empty_conv filter_id_conv)
  have "flow_stream X s' p h = flow_stream X s p h" for p h
    using waiting_on_update [OF s f(2) i f(4), of p] waiting_on_at [OF s i] w
      sends_of_flow [OF ok(2), of X h ?p q "tp_output_pkts ?tx"]
    by (simp add: flow_stream_def sent_on_def f(7) filt)
  moreover have "sends_valid s'" if "sends_valid s"
    using that sends_of_queue [OF f(6), of _ X ?p "tp_output_pkts ?tx"] unfolding f(7) sends_valid_def by auto
  moreover have "tx_total s' = tx_total s"
    using length_concat_update [of i "waiting s" "[]"] i w by (simp add: tx_total_def f(4,8))
  ultimately show ?thesis using f(1-5) w by (intro exI [of _ s']) (simp add: tx_conserves_def)
qed

section \<open>Flushing all ports\<close>

text \<open>Whether the port at position \<open>j\<close> is flushed.\<close>

definition flush_due :: "bool \<Rightarrow> tx_state \<Rightarrow> nat \<Rightarrow> bool" where
  "flush_due force s j \<longleftrightarrow> waiting s ! j \<noteq> [] \<and> (force \<or> tp_flush_time (sends_ports s ! j) \<le> tt_now (ts_thread s))"

lemma flush_ports_law:
  assumes "tx_env_ok X" and "tx_ok s" and "i + k \<le> length (sends_ports s)"
  shows "\<exists>n s'. flush_ports_from X force i k cnt s = Inr (n, s') \<and> tx_conserves X s s' \<and>
    n + length (concat (waiting s')) = cnt + length (concat (waiting s)) \<and>
    (\<forall>j<length (sends_ports s). waiting s' ! j = (if i \<le> j \<and> j < i + k \<and> flush_due force s j then [] else waiting s ! j))"
  using assms(2,3)
proof (induction k arbitrary: i cnt s)
  case (Suc k)
  have i: "i < length (sends_ports s)" using Suc.prems(2) by simp
  have w: "waiting s ! i = tp_output_pkts (sends_ports s ! i)" using i by simp
  show ?case
  proof (cases "flush_due force s i")
    case True
    then obtain s1 where f: "dp_netdev_pmd_flush_output_on_port X i s = Inr (length (waiting s ! i), s1)"
        "tx_conserves X s s1" "waiting s1 = (waiting s)[i := []]"
        "\<forall>j<length (sends_ports s). j \<noteq> i \<longrightarrow> tp_flush_time (sends_ports s1 ! j) = tp_flush_time (sends_ports s ! j)"
      using flush_port_conserves [OF assms(1) Suc.prems(1) i] by (auto simp: flush_due_def)
    note c = tx_conservesD [OF f(2)]
    have "Suc i + k \<le> length (sends_ports s1)" using Suc.prems(2) c(7) by simp
    from Suc.IH [OF c(2) this, of "cnt + length (waiting s ! i)"] obtain n s' where
      r: "flush_ports_from X force (Suc i) k (cnt + length (waiting s ! i)) s1 = Inr (n, s')" "tx_conserves X s1 s'"
        "n + length (concat (waiting s')) = cnt + length (waiting s ! i) + length (concat (waiting s1))"
        "\<forall>j<length (sends_ports s1). waiting s' ! j =
           (if Suc i \<le> j \<and> j < Suc i + k \<and> flush_due force s1 j then [] else waiting s1 ! j)"
      by blast
    have due: "flush_due force s1 j = flush_due force s j" if "j < length (sends_ports s)" "j \<noteq> i" for j
      using f(3,4) that thread_frame_eqD(1) [OF tx_keptD(6) [OF c(1)]] by (simp add: flush_due_def)
    have "flush_ports_from X force i (Suc k) cnt s = Inr (n, s')"
      using True f(1) r(1) i w by (simp add: flush_due_def)
    moreover have "n + length (concat (waiting s')) = cnt + length (concat (waiting s))"
      using r(3) length_concat_update [of i "waiting s" "[]"] i by (simp add: f(3))
    moreover have "waiting s' ! j = (if i \<le> j \<and> j < i + Suc k \<and> flush_due force s j then [] else waiting s ! j)"
      if "j < length (sends_ports s)" for j
      using r(4) c(7) that due [OF that] True by (cases "j = i") (auto simp: f(3))
    ultimately show ?thesis using tx_conserves_trans [OF f(2) r(2)] by blast
  next
    case False
    have "Suc i + k \<le> length (sends_ports s)" using Suc.prems(2) by simp
    from Suc.IH [OF Suc.prems(1) this, of cnt] obtain n s' where
      r: "flush_ports_from X force (Suc i) k cnt s = Inr (n, s')" "tx_conserves X s s'"
        "n + length (concat (waiting s')) = cnt + length (concat (waiting s))"
        "\<forall>j<length (sends_ports s). waiting s' ! j =
           (if Suc i \<le> j \<and> j < Suc i + k \<and> flush_due force s j then [] else waiting s ! j)"
      by blast
    have "flush_ports_from X force i (Suc k) cnt s = Inr (n, s')"
      using False r(1) i w by (auto simp: flush_due_def)
    moreover have "waiting s' ! j = (if i \<le> j \<and> j < i + Suc k \<and> flush_due force s j then [] else waiting s ! j)"
      if "j < length (sends_ports s)" for j
      using r(4) that False by (cases "j = i") auto
    ultimately show ?thesis using r(2,3) by blast
  qed
qed auto

lemma flush_output_packets_law:
  assumes X: "tx_env_ok X" and s: "tx_ok s"
  shows "\<exists>n s'. dp_netdev_pmd_flush_output_packets X force s = Inr (n, s') \<and> tx_conserves X s s' \<and>
    n + length (concat (waiting s')) = length (concat (waiting s)) \<and>
    (\<forall>j<length (sends_ports s). waiting s' ! j = (if flush_due force s j then [] else waiting s ! j))"
proof (cases "tt_n_output_batches (ts_thread s) = 0")
  case True
  then have "\<forall>tx\<in>set (sends_ports s). tp_output_pkts tx = []"
    using s by (simp add: tx_ok_def tx_thread_ok_def filter_empty_conv)
  then have "waiting s ! j = []" if "j < length (sends_ports s)" for j using that by simp
  then show ?thesis using True s by (auto simp: dp_netdev_pmd_flush_output_packets_def flush_due_def)
next
  case False
  then show ?thesis
    using flush_ports_law [OF X s, of 0 "length (sends_ports s)" force 0]
    by (simp add: dp_netdev_pmd_flush_output_packets_def)
qed

text \<open>A forced flush leaves nothing waiting.\<close>

lemma forced_flush_empties:
  assumes X: "tx_env_ok X" and s: "tx_ok s"
  shows "\<exists>n s'. dp_netdev_pmd_flush_output_packets X True s = Inr (n, s') \<and> tx_conserves X s s' \<and>
    n = length (concat (waiting s)) \<and> concat (waiting s') = []"
proof -
  from flush_output_packets_law [OF X s, of True] obtain n s' where
    f: "dp_netdev_pmd_flush_output_packets X True s = Inr (n, s')" "tx_conserves X s s'"
      "n + length (concat (waiting s')) = length (concat (waiting s))"
      "\<forall>j<length (sends_ports s). waiting s' ! j = (if flush_due True s j then [] else waiting s ! j)"
    by blast
  have "\<forall>j<length (waiting s'). waiting s' ! j = []"
    using f(4) tx_conservesD(7) [OF f(2)] by (auto simp: flush_due_def)
  then have "concat (waiting s') = []" by (metis concat_eq_Nil_conv in_set_conv_nth)
  moreover from this have "n = length (concat (waiting s))" using f(3) by (metis add_0_right list.size(3))
  ultimately show ?thesis using f(1,2) by blast
qed

section \<open>Adding packets to a port\<close>

lemma maybe_flush:
  assumes X: "tx_env_ok X" and s: "tx_ok s" and i: "i < length (sends_ports s)"
    and c: "c \<Longrightarrow> waiting s ! i \<noteq> []"
  shows "\<exists>s'. (if c then bindr (dp_netdev_pmd_flush_output_on_port X i s) (\<lambda>(n, s'). Inr s') else Inr s) = Inr s' \<and>
    tx_conserves X s s' \<and> waiting s' ! i = (if c then [] else waiting s ! i)"
proof (cases c)
  case True
  from flush_port_conserves [OF X s i c [OF True]] obtain s' where
    "dp_netdev_pmd_flush_output_on_port X i s = Inr (length (waiting s ! i), s')" "tx_conserves X s s'"
    "waiting s' = (waiting s)[i := []]"
    by blast
  then show ?thesis using True i by simp
qed (use s in simp)

lemma add_output_pkts_law:
  assumes X: "tx_env_ok X"
  shows "length (tp_output_pkts tx) + length pks \<le> NETDEV_MAX_BURST \<Longrightarrow>
    length (tp_output_pkts_rxqs tx) = NETDEV_MAX_BURST \<Longrightarrow>
    \<exists>rxqs. add_output_pkts X rxq pks tx =
        Inr (tx\<lparr>tp_output_pkts := tp_output_pkts tx @ pks, tp_output_pkts_rxqs := rxqs\<rparr>) \<and>
      length rxqs = NETDEV_MAX_BURST"
proof (induction pks arbitrary: tx)
  case Nil
  have "tx = tx\<lparr>tp_output_pkts := tp_output_pkts tx @ [], tp_output_pkts_rxqs := tp_output_pkts_rxqs tx\<rparr>" by simp
  then show ?case using Nil by (metis add_output_pkts.simps(1))
next
  case (Cons pk pks)
  let ?n = "length (tp_output_pkts tx)"
  let ?tx = "tx\<lparr>tp_output_pkts_rxqs := (tp_output_pkts_rxqs tx)[?n := rxq], tp_output_pkts := tp_output_pkts tx @ [pk]\<rparr>"
  have n: "?n < NETDEV_MAX_BURST" using Cons.prems by simp
  have "\<exists>rxqs. add_output_pkts X rxq pks ?tx =
        Inr (?tx\<lparr>tp_output_pkts := tp_output_pkts ?tx @ pks, tp_output_pkts_rxqs := rxqs\<rparr>) \<and>
      length rxqs = NETDEV_MAX_BURST"
    using Cons.prems by (intro Cons.IH) simp_all
  then show ?case using n Cons.prems tx_env_okD(1) [OF X n] by auto
qed

lemma enqueue_law:
  assumes X: "tx_env_ok X" and s: "tx_ok s" and i: "i < length (sends_ports s)" and pks: "pks \<noteq> []"
    and room: "length (waiting s ! i) + length pks \<le> NETDEV_MAX_BURST"
  shows "\<exists>tx s'. add_output_pkts X rxq pks (sends_ports s ! i) = Inr tx \<and>
    s' = put_tx i tx (if tp_output_pkts (sends_ports s ! i) = []
           then s\<lparr>ts_thread := (ts_thread s)\<lparr>tt_n_output_batches := tt_n_output_batches (ts_thread s) + 1\<rparr>\<rparr> else s) \<and>
    tx_kept s s' \<and> waiting s' = (waiting s)[i := waiting s ! i @ pks] \<and> ts_sends s' = ts_sends s \<and>
    tx_side s' = tx_side s \<and> tt_sent_pkts (ts_thread s') = tt_sent_pkts (ts_thread s)"
proof -
  let ?tx = "sends_ports s ! i"
  note ok = tx_port_okD [OF tx_okD(1) [OF s i]]
  from add_output_pkts_law [OF X, of ?tx pks rxq] room i ok(8) obtain rxqs where
    a: "add_output_pkts X rxq pks ?tx = Inr (?tx\<lparr>tp_output_pkts := tp_output_pkts ?tx @ pks, tp_output_pkts_rxqs := rxqs\<rparr>)"
      "length rxqs = NETDEV_MAX_BURST"
    by auto
  let ?tx' = "?tx\<lparr>tp_output_pkts := tp_output_pkts ?tx @ pks, tp_output_pkts_rxqs := rxqs\<rparr>"
  let ?b = "tt_n_output_batches (ts_thread s) + (if tp_output_pkts ?tx = [] then 1 else 0)"
  let ?th = "(ts_thread s)\<lparr>tt_send_ports := (sends_ports s)[i := ?tx'], tt_n_output_batches := ?b\<rparr>"
  let ?s = "s\<lparr>ts_thread := ?th\<rparr>"
  have ports: "map tp_port ((sends_ports s)[i := ?tx']) = map tp_port (sends_ports s)"
    using i by (simp add: map_list_update_same)
  have "tx_port_ok (ts_ports s) ?tx'"
    using tx_okD(1) [OF s i] a(2) room i by (simp add: tx_port_ok_def Let_def)
  moreover have "int (length (filter (\<lambda>tx. tp_output_pkts tx \<noteq> []) ((sends_ports s)[i := ?tx']))) = ?b"
    using int_length_filter_update [OF i, of "\<lambda>tx. tp_output_pkts tx \<noteq> []" ?tx'] pks s
    by (auto simp: tx_ok_def tx_thread_ok_def)
  ultimately have "tx_thread_ok (ts_ports s) ?th"
    using s ports i unfolding tx_thread_ok_def tx_ok_def
    by (auto dest!: set_update_subset_insert [THEN subsetD])
  moreover have "txq_balance (ts_ports s) ((sends_ports s)[i := ?tx']) p r = txq_balance (ts_ports s) (sends_ports s) p r" for p r
    using txq_balance_update [OF i, of "ts_ports s" ?tx' p r] by simp
  then have "txq_balance (ts_ports s) ((sends_ports s)[i := ?tx']) = txq_balance (ts_ports s) (sends_ports s)" by blast
  ultimately have "tx_kept s ?s" using ports by (simp add: tx_kept_def tx_ok_def thread_frame_def)
  moreover have "waiting ?s = (waiting s)[i := waiting s ! i @ pks]" using i by (simp add: map_update)
  moreover have "?s = put_tx i ?tx' (if tp_output_pkts ?tx = []
      then s\<lparr>ts_thread := (ts_thread s)\<lparr>tt_n_output_batches := tt_n_output_batches (ts_thread s) + 1\<rparr>\<rparr> else s)"
    by (simp add: put_tx_def)
  moreover have "ts_sends ?s = ts_sends s" "tx_side ?s = tx_side s" "tt_sent_pkts (ts_thread ?s) = tt_sent_pkts (ts_thread s)"
    by (simp_all add: tx_side_def)
  ultimately show ?thesis using a(1) by blast
qed

text \<open>The packets \<open>pks\<close> come last in the streams of their flows on the port at \<open>p\<close>.\<close>

definition tx_appends :: "tx_env \<Rightarrow> nat \<Rightarrow> tx_pkt list \<Rightarrow> tx_state \<Rightarrow> tx_state \<Rightarrow> bool" where
  "tx_appends X p pks s s' \<longleftrightarrow>
     tx_kept s s' \<and> tx_side s' = tx_side s \<and>
     (\<forall>q h. flow_stream X s' q h =
        flow_stream X s q h @ (if q = p then filter (\<lambda>pk. tx_hash X pk = h) pks else [])) \<and>
     (sends_valid s \<longrightarrow> sends_valid s') \<and> tx_total s' = tx_total s + length pks"

lemma tx_appendsD:
  assumes "tx_appends X p pks s s'"
  shows "tx_kept s s'" and "tx_ok s'" and "tx_side s' = tx_side s"
    and "flow_stream X s' q h = flow_stream X s q h @ (if q = p then filter (\<lambda>pk. tx_hash X pk = h) pks else [])"
    and "sends_valid s \<Longrightarrow> sends_valid s'" and "tx_total s' = tx_total s + length pks"
    and "length (sends_ports s') = length (sends_ports s)"
  using assms tx_keptD [of s s'] by (simp_all add: tx_appends_def)

lemma conserves_appends:
  "tx_conserves X s t \<Longrightarrow> tx_appends X p pks t u \<Longrightarrow> tx_appends X p pks s u"
  using tx_kept_trans by (auto simp: tx_conserves_def tx_appends_def)

lemma enqueue_appends:
  assumes s: "tx_ok s" and i: "i < length (sends_ports s)" and k: "tx_kept s s'"
    and w: "waiting s' = (waiting s)[i := waiting s ! i @ pks]" and sends: "ts_sends s' = ts_sends s"
    and side: "tx_side s' = tx_side s" and sent: "tt_sent_pkts (ts_thread s') = tt_sent_pkts (ts_thread s)"
  shows "tx_appends X (tp_port (sends_ports s ! i)) pks s s'"
proof -
  have "flow_stream X s' q h = flow_stream X s q h @
      (if q = tp_port (sends_ports s ! i) then filter (\<lambda>pk. tx_hash X pk = h) pks else [])" for q h
    using waiting_on_update [OF s k i w, of q] waiting_on_at [OF s i]
    by (simp add: flow_stream_def sent_on_def sends)
  moreover have "tx_total s' = tx_total s + length pks"
    using length_concat_update [of i "waiting s" "waiting s ! i @ pks"] i by (simp add: tx_total_def w sent)
  moreover have "sends_valid s \<longrightarrow> sends_valid s'"
    using sends_valid_cong [OF sends] by simp
  ultimately show ?thesis using k side by (simp add: tx_appends_def)
qed

lemma output_to_law:
  assumes X: "tx_env_ok X" and s: "tx_ok s" and i: "i < length (sends_ports s)"
    and pks: "pks \<noteq> []" "length pks \<le> NETDEV_MAX_BURST"
  shows "\<exists>s'. output_to X pks i s = Inr s' \<and> tx_appends X (tp_port (sends_ports s ! i)) pks s s'"
proof -
  let ?flush = "\<lambda>s. bindr (dp_netdev_pmd_flush_output_on_port X i s) (\<lambda>(n, s'). Inr s')"
  let ?tx = "sends_ports s ! i"
  define other where "other = (te_dpdk_netdev X \<and> tp_output_pkts ?tx \<noteq> [] \<and>
    tk_source (pks ! 0) \<noteq> tk_source (tp_output_pkts ?tx ! 0))"
  have o: "(if te_dpdk_netdev X \<and> tp_output_pkts ?tx \<noteq> []
      then bindr (arr_get pks 0) (\<lambda>pk. Inr (tk_source pk \<noteq> tk_source (tp_output_pkts ?tx ! 0))) else Inr False) = Inr other"
    using pks(1) by (simp add: other_def)
  have c1: "other \<Longrightarrow> waiting s ! i \<noteq> []" using i by (simp add: other_def)
  from maybe_flush [OF X s i c1] obtain s1 where
    f1: "(if other then ?flush s else Inr s) = Inr s1" "tx_conserves X s s1"
    by blast
  note k1 = tx_conservesD [OF f1(2)]
  have i1: "i < length (sends_ports s1)" using i k1(7) by simp
  let ?over = "NETDEV_MAX_BURST < length (tp_output_pkts (sends_ports s1 ! i)) + length pks"
  have c2: "?over \<Longrightarrow> waiting s1 ! i \<noteq> []" using i1 pks(2) by auto
  from maybe_flush [OF X k1(2) i1 c2] obtain s2 where
    f2: "(if ?over then ?flush s1 else Inr s1) = Inr s2" "tx_conserves X s1 s2"
      "waiting s2 ! i = (if ?over then [] else waiting s1 ! i)"
    by blast
  note k2 = tx_conservesD [OF f2(2)]
  have i2: "i < length (sends_ports s2)" using i1 k2(7) by simp
  have room: "length (waiting s2 ! i) + length pks \<le> NETDEV_MAX_BURST"
    using f2(3) i1 pks(2) by (auto split: if_splits)
  from enqueue_law [OF X k2(2) i2 pks(1) room, of "tt_last_rxq (ts_thread s2)"] obtain tx s' where
    e: "add_output_pkts X (tt_last_rxq (ts_thread s2)) pks (sends_ports s2 ! i) = Inr tx"
      "s' = put_tx i tx (if tp_output_pkts (sends_ports s2 ! i) = []
         then s2\<lparr>ts_thread := (ts_thread s2)\<lparr>tt_n_output_batches := tt_n_output_batches (ts_thread s2) + 1\<rparr>\<rparr> else s2)"
      "tx_kept s2 s'" "waiting s' = (waiting s2)[i := waiting s2 ! i @ pks]" "ts_sends s' = ts_sends s2"
      "tx_side s' = tx_side s2" "tt_sent_pkts (ts_thread s') = tt_sent_pkts (ts_thread s2)"
    by blast
  have "output_to X pks i s = Inr s'"
    using i i1 i2 o f1(1) f2(1) e(1)
    by (simp only: output_to_def arr_get_in bindr_Inr Let_def e(2))
  moreover have "tp_port (sends_ports s2 ! i) = tp_port ?tx"
    using tx_keptD(3) [OF tx_kept_trans [OF k1(1) k2(1)]] i i2 by (metis nth_map)
  then have "tx_appends X (tp_port ?tx) pks s2 s'"
    using enqueue_appends [OF k2(2) i2 e(3,4,5,6,7)] by simp
  ultimately show ?thesis using conserves_appends [OF tx_conserves_trans [OF f1(2) f2(2)]] by blast
qed

section \<open>The output action\<close>

lemma tx_port_lookup_from_law:
  assumes "\<forall>tx\<in>set txs. tp_port tx < length ports"
  shows "tx_port_lookup_from ports k txs no = Inr (find_index_from k (\<lambda>tx. po_no (ports ! tp_port tx) = no) txs)"
  using assms by (induction txs arbitrary: k) auto

lemma send_port_lookup_law:
  assumes "tx_ok s"
  shows "pmd_send_port_cache_lookup s no =
    Inr (find_index_from 0 (\<lambda>tx. po_no (ts_ports s ! tp_port tx) = no) (sends_ports s))"
proof -
  have "\<forall>tx\<in>set (sends_ports s). tp_port tx < length (ts_ports s)"
    using assms by (auto simp: tx_ok_def tx_thread_ok_def dest: tx_port_okD(1))
  then show ?thesis by (simp add: pmd_send_port_cache_lookup_def tx_port_lookup_def tx_port_lookup_from_law)
qed

text \<open>The packets that an output action puts on a port.\<close>

definition tx_out :: "tx_env \<Rightarrow> tx_pkt list \<Rightarrow> bool \<Rightarrow> tx_pkt list" where
  "tx_out X packets should_steal = te_apply_cutlen X (if should_steal then packets else te_batch_clone X packets)"

lemma length_tx_out: "tx_env_ok X \<Longrightarrow> length (tx_out X packets steal) = length packets"
  by (simp add: tx_out_def tx_env_okD)

lemma output_action_law:
  assumes X: "tx_env_ok X" and s: "tx_ok s" and pks: "packets \<noteq> []" "length packets \<le> NETDEV_MAX_BURST"
  shows "\<exists>known left s'. dp_execute_output_action X packets steal no s = Inr (known, left, s') \<and>
    (case find_index_from 0 (\<lambda>tx. po_no (ts_ports s ! tp_port tx) = no) (sends_ports s) of
       Some i \<Rightarrow> known \<and> left = (if steal then [] else te_reset_cutlen X packets) \<and> i < length (sends_ports s) \<and>
         tx_appends X (tp_port (sends_ports s ! i)) (tx_out X packets steal) s s'
     | None \<Rightarrow> \<not> known \<and> left = (if steal then [] else packets) \<and>
         s' = s\<lparr>ts_drop_invalid_port := ts_drop_invalid_port s + length packets,
                ts_freed := ts_freed s @ (if steal then packets else [])\<rparr>)"
proof (cases "find_index_from 0 (\<lambda>tx. po_no (ts_ports s ! tp_port tx) = no) (sends_ports s)")
  case None
  show ?thesis unfolding dp_execute_output_action_def send_port_lookup_law [OF s] None
    by (intro exI [of _ False]) (simp add: delete_batch_def)
next
  case (Some i)
  have i: "i < length (sends_ports s)" using find_index_from_SomeD [OF Some] by simp
  have out: "tx_out X packets steal \<noteq> []" "length (tx_out X packets steal) \<le> NETDEV_MAX_BURST"
    using length_tx_out [OF X, of packets steal] pks by auto
  from output_to_law [OF X s i out] obtain s' where
    "output_to X (tx_out X packets steal) i s = Inr s'" "tx_appends X (tp_port (sends_ports s ! i)) (tx_out X packets steal) s s'"
    by blast
  then show ?thesis using i unfolding dp_execute_output_action_def send_port_lookup_law [OF s] Some
    by (intro exI [of _ True]) (simp add: tx_out_def Let_def)
qed

end
