(* ===== verification/Dpif_Tx_Bond.thy ===== *)
theory Dpif_Tx_Bond
  imports Dpif_Tx_Output
begin

text \<open>
  Load balancing over the members of a bond: where each packet goes, and what is counted.
\<close>

section \<open>Members\<close>

definition send_pos :: "tx_state \<Rightarrow> u32 \<Rightarrow> nat option" where
  "send_pos s no = find_index_from 0 (\<lambda>tx. po_no (ts_ports s ! tp_port tx) = no) (sends_ports s)"

definition bond_bucket :: "tx_env \<Rightarrow> tx_pkt \<Rightarrow> nat" where
  "bond_bucket X pk = unat (tk_rss_hash pk AND te_bond_mask X)"

definition member_at :: "tx_state \<Rightarrow> nat \<Rightarrow> nat \<Rightarrow> member_entry" where
  "member_at s b k = bo_member_buckets (tt_bonds (ts_thread s) ! b) ! k"

text \<open>The port of the member that a packet is given to, where the thread knows it.\<close>

definition lb_target :: "tx_env \<Rightarrow> tx_state \<Rightarrow> nat \<Rightarrow> tx_pkt \<Rightarrow> nat option" where
  "lb_target X s b pk =
     map_option (\<lambda>i. tp_port (sends_ports s ! i)) (send_pos s (me_member_id (member_at s b (bond_bucket X pk))))"

definition bond_ok :: "tx_env \<Rightarrow> tx_state \<Rightarrow> nat \<Rightarrow> bool" where
  "bond_ok X s b \<longleftrightarrow> b < length (tt_bonds (ts_thread s)) \<and>
     unat (te_bond_mask X) < length (bo_member_buckets (tt_bonds (ts_thread s) ! b))"

lemma bond_bucket_in:
  "bond_ok X s b \<Longrightarrow> bond_bucket X pk < length (bo_member_buckets (tt_bonds (ts_thread s) ! b))"
  using word_and_le1 [of "tk_rss_hash pk" "te_bond_mask X"]
  by (simp add: bond_ok_def bond_bucket_def word_le_nat_alt and.commute)

lemma find_index_from_map:
  "find_index_from k P (map f xs) = find_index_from k (P \<circ> f) xs"
  by (induction xs arbitrary: k) auto

lemma send_pos_kept:
  assumes "tx_ok s" and "tx_kept s s'"
  shows "send_pos s' no = send_pos s no"
proof -
  note k = tx_keptD [OF assms(2)]
  have in_range: "\<forall>p\<in>set (map tp_port (sends_ports s)). p < length (ts_ports s)"
    using assms(1) by (auto simp: tx_ok_def tx_thread_ok_def dest: tx_port_okD(1))
  have "send_pos s no = find_index_from 0 (\<lambda>p. po_no (ts_ports s ! p) = no) (map tp_port (sends_ports s))" for s
    by (simp add: send_pos_def find_index_from_map comp_def)
  moreover have "find_index_from j (\<lambda>p. po_no (ts_ports s' ! p) = no) ps = find_index_from j (\<lambda>p. po_no (ts_ports s ! p) = no) ps"
    if "\<forall>p\<in>set ps. p < length (ts_ports s)" for j ps
    using that port_of_shape(3) [OF k(2)] by (induction ps arbitrary: j) auto
  ultimately show ?thesis using k(3) in_range by metis
qed

lemma thread_frame_bonds:
  assumes "thread_frame th' = thread_frame th" and "b < length (tt_bonds th)"
  shows "length (tt_bonds th') = length (tt_bonds th)"
    and "length (bo_member_buckets (tt_bonds th' ! b)) = length (bo_member_buckets (tt_bonds th ! b))"
    and "k < length (bo_member_buckets (tt_bonds th ! b)) \<Longrightarrow>
      me_member_id (bo_member_buckets (tt_bonds th' ! b) ! k) = me_member_id (bo_member_buckets (tt_bonds th ! b) ! k)"
proof -
  let ?z = "\<lambda>m. m\<lparr>me_n_packets := 0, me_n_bytes := 0\<rparr>"
  let ?f = "\<lambda>b. b\<lparr>bo_member_buckets := map ?z (bo_member_buckets b)\<rparr>"
  have e: "map ?f (tt_bonds th') = map ?f (tt_bonds th)"
    using arg_cong [OF assms(1), of tt_bonds] by (simp add: thread_frame_def)
  then show len: "length (tt_bonds th') = length (tt_bonds th)" by (rule map_eq_imp_length_eq)
  have m: "map ?z (bo_member_buckets (tt_bonds th' ! b)) = map ?z (bo_member_buckets (tt_bonds th ! b))"
    using arg_cong [OF e, of "\<lambda>xs. bo_member_buckets (xs ! b)"] len assms(2) by simp
  then show l2: "length (bo_member_buckets (tt_bonds th' ! b)) = length (bo_member_buckets (tt_bonds th ! b))"
    by (rule map_eq_imp_length_eq)
  show "me_member_id (bo_member_buckets (tt_bonds th' ! b) ! k) = me_member_id (bo_member_buckets (tt_bonds th ! b) ! k)"
    if "k < length (bo_member_buckets (tt_bonds th ! b))"
    using arg_cong [OF m, of "\<lambda>xs. me_member_id (xs ! k)"] that l2 by simp
qed

lemma lb_target_kept:
  assumes "tx_ok s" and "tx_kept s s'" and "bond_ok X s b"
  shows "lb_target X s' b pk = lb_target X s b pk" and "bond_ok X s' b"
proof -
  note k = tx_keptD [OF assms(2)]
  have b: "b < length (tt_bonds (ts_thread s))" using assms(3) by (simp add: bond_ok_def)
  note f = thread_frame_bonds [OF k(6) b]
  have me: "me_member_id (member_at s' b (bond_bucket X pk)) = me_member_id (member_at s b (bond_bucket X pk))"
    using f(3) bond_bucket_in [OF assms(3)] by (simp add: member_at_def)
  have tp: "tp_port (sends_ports s' ! i) = tp_port (sends_ports s ! i)" if "i < length (sends_ports s)" for i
    using k(3,4) that by (metis nth_map)
  have opt: "map_option (\<lambda>i. tp_port (sends_ports s' ! i)) (send_pos s no) =
      map_option (\<lambda>i. tp_port (sends_ports s ! i)) (send_pos s no)" for no
  proof (cases "send_pos s no")
    case (Some i)
    then have "i < length (sends_ports s)" using find_index_from_SomeD [of 0 _ "sends_ports s" i] by (simp add: send_pos_def)
    then show ?thesis using Some by (simp add: tp)
  qed simp
  show "lb_target X s' b pk = lb_target X s b pk"
    using send_pos_kept [OF assms(1,2)] opt me by (simp add: lb_target_def)
  show "bond_ok X s' b" using assms(3) f by (simp add: bond_ok_def)
qed

section \<open>Balancing the packets of a batch\<close>

text \<open>The packets that reach the port at \<open>p\<close>, each truncated as a batch of its own.\<close>

definition lb_out :: "tx_env \<Rightarrow> tx_state \<Rightarrow> nat \<Rightarrow> nat \<Rightarrow> tx_pkt list \<Rightarrow> tx_pkt list" where
  "lb_out X s b p pks = concat (map (\<lambda>pk. te_apply_cutlen X [pk]) (filter (\<lambda>pk. lb_target X s b pk = Some p) pks))"

text \<open>The packets that are counted for the bucket \<open>k\<close>.\<close>

definition lb_counted :: "tx_env \<Rightarrow> tx_state \<Rightarrow> nat \<Rightarrow> nat \<Rightarrow> tx_pkt list \<Rightarrow> tx_pkt list" where
  "lb_counted X s b k pks = filter (\<lambda>pk. bond_bucket X pk = k \<and> lb_target X s b pk \<noteq> None) pks"

definition lb_done :: "tx_env \<Rightarrow> nat \<Rightarrow> tx_pkt list \<Rightarrow> tx_state \<Rightarrow> tx_state \<Rightarrow> bool" where
  "lb_done X b pks s s' \<longleftrightarrow>
     tx_kept s s' \<and> (sends_valid s \<longrightarrow> sends_valid s') \<and>
     (\<forall>p h. flow_stream X s' p h = flow_stream X s p h @ filter (\<lambda>pk. tx_hash X pk = h) (lb_out X s b p pks)) \<and>
     ts_freed s' = ts_freed s @ filter (\<lambda>pk. lb_target X s b pk = None) pks \<and>
     (\<forall>k. me_n_packets (member_at s' b k) = me_n_packets (member_at s b k) + of_nat (length (lb_counted X s b k pks))) \<and>
     (\<forall>k. me_n_bytes (member_at s' b k) =
        me_n_bytes (member_at s b k) + sum_list (map (\<lambda>pk. ucast (tk_size pk)) (lb_counted X s b k pks)))"

lemma tx_frame_bonds [simp]:
  "tx_ok (s\<lparr>ts_freed := x, ts_drop_invalid_port := y\<rparr>) = tx_ok s"
  "tx_ok (s\<lparr>ts_drop_invalid_port := y, ts_freed := x\<rparr>) = tx_ok s"
  "tx_ok (s\<lparr>ts_drop_invalid_bond := y, ts_freed := x\<rparr>) = tx_ok s"
  by (simp_all add: tx_ok_def)

text \<open>One packet: it is put on the port of its member and counted, or freed.\<close>

lemma lb_step:
  fixes pk :: tx_pkt
  assumes X: "tx_env_ok X" and s: "tx_ok s" and b: "bond_ok X s b"
  defines "k \<equiv> bond_bucket X pk" and "m \<equiv> member_at s b (bond_bucket X pk)"
  shows "\<exists>sent left s1. dp_execute_output_action X [pk] True (me_member_id m) s = Inr (sent, left, s1) \<and>
    lb_done X b [pk] s (if sent then s1\<lparr>ts_thread := count_member (ts_thread s1) b k (tk_size pk)\<rparr> else s1)"
proof -
  have one: "length [pk] \<le> NETDEV_MAX_BURST" by (simp add: NETDEV_MAX_BURST_def)
  note bk = bond_bucket_in [OF b, of pk]
  have lb: "b < length (tt_bonds (ts_thread s))" using b by (simp add: bond_ok_def)
  from output_action_law [OF X s _ one, of True "me_member_id m"] obtain sent left s1 where
    o: "dp_execute_output_action X [pk] True (me_member_id m) s = Inr (sent, left, s1)"
    and c: "case send_pos s (me_member_id m) of
       Some i \<Rightarrow> sent \<and> tx_appends X (tp_port (sends_ports s ! i)) (tx_out X [pk] True) s s1
     | None \<Rightarrow> \<not> sent \<and> s1 = s\<lparr>ts_drop_invalid_port := ts_drop_invalid_port s + 1, ts_freed := ts_freed s @ [pk]\<rparr>"
    by (fastforce simp: send_pos_def split: option.splits)
  show ?thesis
  proof (cases "send_pos s (me_member_id m)")
    case None
    then have t: "lb_target X s b pk = None" by (simp add: lb_target_def m_def)
    have s1: "\<not> sent" "s1 = s\<lparr>ts_drop_invalid_port := ts_drop_invalid_port s + 1, ts_freed := ts_freed s @ [pk]\<rparr>"
      using c None by simp_all
    have "lb_done X b [pk] s s1"
      using s t unfolding s1(2)
      by (simp add: lb_done_def tx_kept_def lb_out_def lb_counted_def flow_stream_def sent_on_def waiting_on_def
          member_at_def)
    then show ?thesis using o s1(1) by (intro exI [of _ False]) simp
  next
    case (Some i)
    let ?p = "tp_port (sends_ports s ! i)"
    let ?s = "s1\<lparr>ts_thread := count_member (ts_thread s1) b k (tk_size pk)\<rparr>"
    have t: "lb_target X s b pk = Some ?p" using Some by (simp add: lb_target_def m_def)
    have a: "sent" "tx_appends X ?p (tx_out X [pk] True) s s1" using c Some by simp_all
    note ap = tx_appendsD [OF a(2)]
    have bonds: "tt_bonds (ts_thread s1) = tt_bonds (ts_thread s)" "ts_freed s1 = ts_freed s"
      using ap(3) by (simp_all add: tx_side_def)
    have frame: "thread_frame (count_member th b k n) = thread_frame th" for th n
      by (simp add: count_member_def thread_frame_def Let_def map_list_update_same)
    have sel: "tt_send_ports (count_member th b k n) = tt_send_ports th" "tt_static_tx_qid (count_member th b k n) = tt_static_tx_qid th"
      "tt_n_output_batches (count_member th b k n) = tt_n_output_batches th" for th n
      by (simp_all add: count_member_def Let_def)
    have "tx_ok ?s = tx_ok s1" by (simp add: tx_ok_def tx_thread_ok_def sel)
    then have "tx_kept s ?s" using ap(1) by (simp add: tx_kept_def frame sel)
    moreover have "flow_stream X ?s p h = flow_stream X s1 p h" for p h
      by (simp add: flow_stream_def sent_on_def waiting_on_def count_member_def Let_def)
    then have "flow_stream X ?s p h = flow_stream X s p h @ filter (\<lambda>pk. tx_hash X pk = h) (lb_out X s b p [pk])" for p h
      using ap(4) t by (simp add: lb_out_def tx_out_def)
    moreover have "sends_valid s \<longrightarrow> sends_valid ?s" using ap(5) by simp
    moreover have "member_at ?s b j = (if j = k then (member_at s b j)\<lparr>me_n_packets := me_n_packets (member_at s b j) + 1,
        me_n_bytes := me_n_bytes (member_at s b j) + ucast (tk_size pk)\<rparr> else member_at s b j)" for j
      using lb bk bonds(1) by (simp add: member_at_def count_member_def Let_def k_def)
    moreover have "lb_counted X s b j [pk] = (if j = k then [pk] else [])" for j
      using t by (simp add: lb_counted_def k_def)
    ultimately have "lb_done X b [pk] s ?s" using t bonds(2) by (simp add: lb_done_def)
    then show ?thesis using o a(1) by (intro exI [of _ True]) simp
  qed
qed

lemma lb_done_append:
  assumes s: "tx_ok s" and b: "bond_ok X s b" and t: "lb_done X b xs s t" and u: "lb_done X b ys t u"
  shows "lb_done X b (xs @ ys) s u"
proof -
  have k: "tx_kept s t" using t by (simp add: lb_done_def)
  have e: "lb_target X t b = lb_target X s b" using lb_target_kept(1) [OF s k b] by blast
  then have "lb_out X t b p ys = lb_out X s b p ys" "lb_counted X t b j ys = lb_counted X s b j ys" for p j
    by (simp_all add: lb_out_def lb_counted_def)
  then show ?thesis using t u tx_kept_trans [of s t u] e
    unfolding lb_done_def by (auto simp: lb_out_def lb_counted_def)
qed

lemma lb_output_packets_law:
  assumes "tx_env_ok X" and "tx_ok s" and "bond_ok X s b"
  shows "\<exists>s'. lb_output_packets X b pks s = Inr s' \<and> lb_done X b pks s s'"
  using assms(2,3)
proof (induction pks arbitrary: s)
  case Nil
  then show ?case by (simp add: lb_done_def lb_out_def lb_counted_def)
next
  case (Cons pk pks)
  let ?k = "bond_bucket X pk"
  have g: "arr_get (tt_bonds (ts_thread s)) b = Inr (tt_bonds (ts_thread s) ! b)"
    "arr_get (bo_member_buckets (tt_bonds (ts_thread s) ! b)) ?k = Inr (member_at s b ?k)"
    using bond_bucket_in [OF Cons.prems(2)] Cons.prems(2) by (simp_all add: bond_ok_def member_at_def)
  from lb_step [OF assms(1) Cons.prems, of pk] obtain sent left s1 where
    st: "dp_execute_output_action X [pk] True (me_member_id (member_at s b ?k)) s = Inr (sent, left, s1)"
      "lb_done X b [pk] s (if sent then s1\<lparr>ts_thread := count_member (ts_thread s1) b ?k (tk_size pk)\<rparr> else s1)"
    by blast
  define t where "t = (if sent then s1\<lparr>ts_thread := count_member (ts_thread s1) b ?k (tk_size pk)\<rparr> else s1)"
  have d: "lb_done X b [pk] s t" using st(2) by (simp add: t_def)
  then have k: "tx_kept s t" by (simp add: lb_done_def)
  from Cons.IH [OF tx_keptD(1) [OF k] lb_target_kept(2) [OF Cons.prems(1) k Cons.prems(2)]] obtain s' where
    r: "lb_output_packets X b pks t = Inr s'" "lb_done X b pks t s'"
    by blast
  have "lb_output_packets X b (pk # pks) s = lb_output_packets X b pks t"
    using g st(1) by (simp add: bond_bucket_def t_def)
  then have "lb_output_packets X b (pk # pks) s = Inr s'" using r(1) by simp
  then show ?case using lb_done_append [OF Cons.prems d r(2)] by auto
qed

section \<open>Bonds of the datapath\<close>

text \<open>\<open>dpif_netdev_bond_add\<close>: the bonds of the datapath, then those of every thread.\<close>

definition new_tx_bond :: "u32 \<Rightarrow> u32 list \<Rightarrow> tx_bond" where
  "new_tx_bond bond_id member_map =
     \<lparr>bo_id = bond_id,
      bo_member_buckets = map (\<lambda>m. \<lparr>me_member_id = m, me_n_packets = 0, me_n_bytes = 0\<rparr>) member_map\<rparr>"

definition dpif_netdev_bond_add ::
    "u32 \<Rightarrow> u32 list \<Rightarrow> tx_bond list \<times> tx_thread list \<Rightarrow> tx_bond list \<times> tx_thread list" where
  "dpif_netdev_bond_add bond_id member_map = (\<lambda>(bonds, threads).
     let new_tx = new_tx_bond bond_id member_map
     in ((case tx_bond_lookup bonds bond_id of Some i \<Rightarrow> bonds[i := new_tx] | None \<Rightarrow> bonds @ [new_tx]),
         map (dp_netdev_add_bond_tx_to_pmd new_tx True) threads))"

text \<open>\<open>dpif_netdev_bond_del\<close>: false for \<open>ENOENT\<close>.\<close>

definition dpif_netdev_bond_del ::
    "u32 \<Rightarrow> tx_bond list \<times> tx_thread list \<Rightarrow> bool \<times> tx_bond list \<times> tx_thread list" where
  "dpif_netdev_bond_del bond_id = (\<lambda>(bonds, threads).
     case tx_bond_lookup bonds bond_id of
       None \<Rightarrow> (False, bonds, threads)
     | Some i \<Rightarrow> (True, take i bonds @ drop (Suc i) bonds, map (dp_netdev_del_bond_tx_from_pmd bond_id) threads))"

text \<open>\<open>dpif_netdev_bond_stats_get\<close>: the bytes of each bucket over all threads, \<open>None\<close> for \<open>ENOENT\<close>.\<close>

fun add_bond_bytes :: "member_entry list \<Rightarrow> u64 list \<Rightarrow> u64 list" where
  "add_bond_bytes (m # ms) (n # ns) = (n + me_n_bytes m) # add_bond_bytes ms ns"
| "add_bond_bytes _ ns = ns"

fun sum_bond_bytes :: "u32 \<Rightarrow> tx_thread list \<Rightarrow> u64 list \<Rightarrow> u64 list" where
  "sum_bond_bytes bond_id [] n_bytes = n_bytes"
| "sum_bond_bytes bond_id (th # ths) n_bytes =
     sum_bond_bytes bond_id ths
       (case tx_bond_lookup (tt_bonds th) bond_id of
          None \<Rightarrow> n_bytes
        | Some i \<Rightarrow> add_bond_bytes (bo_member_buckets (tt_bonds th ! i)) n_bytes)"

definition dpif_netdev_bond_stats_get :: "u32 \<Rightarrow> tx_bond list \<times> tx_thread list \<Rightarrow> u64 list \<Rightarrow> u64 list option" where
  "dpif_netdev_bond_stats_get bond_id = (\<lambda>(bonds, threads) n_bytes.
     if tx_bond_lookup bonds bond_id = None then None else Some (sum_bond_bytes bond_id threads n_bytes))"

end
