(* ===== verification/Dpif_Tx_Load.thy ===== *)
theory Dpif_Tx_Load
  imports Dpif_Tx_Bond
begin

text \<open>
  Reloading the ports of a thread: what waits is sent, the shared queues are given back, and the
  caches become copies of the ports that the main thread has assigned.
\<close>

section \<open>Assigned ports\<close>

text \<open>An entry of \<open>tx_ports\<close>: nothing waits on it and it uses no shared queue.\<close>

definition template_ok :: "tx_dev_port list \<Rightarrow> nat \<Rightarrow> tx_port \<Rightarrow> bool" where
  "template_ok ports static_qid tx \<longleftrightarrow>
     tp_port tx < length ports \<and> tp_qid tx = -1 \<and> tp_output_pkts tx = [] \<and>
     length (tp_output_pkts_rxqs tx) = NETDEV_MAX_BURST \<and>
     (let port = ports ! tp_port tx; n = po_n_txq port
      in length (po_txq_used port) = n \<and>
         tp_txq_pkts tx = (if po_mode port = TXQ_MODE_XPS_HASH then Some (replicate n []) else None) \<and>
         (po_mode port = TXQ_MODE_STATIC \<and> 0 < n \<longrightarrow> static_qid < n))"

definition assigned_ok :: "tx_dev_port list \<Rightarrow> tx_thread \<Rightarrow> bool" where
  "assigned_ok ports th \<longleftrightarrow>
     (\<forall>tx\<in>set (tt_tx_ports th). template_ok ports (tt_static_tx_qid th) tx) \<and> distinct (map tp_port (tt_tx_ports th))"

lemma template_ok_shape:
  assumes "shape ports' = shape ports" and "template_ok ports q tx"
  shows "template_ok ports' q tx"
  using assms(2) shape_eqD(1) [OF assms(1)] port_shape_eqD(1,2,4) [OF shape_eqD(2) [OF assms(1), of "tp_port tx"]]
  by (simp add: template_ok_def Let_def)

lemma assigned_ok_kept:
  assumes "assigned_ok (ts_ports s) (ts_thread s)" and "tx_kept s s'"
  shows "assigned_ok (ts_ports s') (ts_thread s')"
  using assms(1) template_ok_shape [OF tx_keptD(2) [OF assms(2)]] thread_frame_eqD [OF tx_keptD(6) [OF assms(2)]]
  by (simp add: assigned_ok_def)

lemma copy_tx_template:
  "template_ok ports q tx \<Longrightarrow> copy_tx (po_n_txq (ports ! tp_port tx)) tx = Inr tx"
  by (auto simp: template_ok_def copy_tx_def Let_def split: if_splits)

lemma load_ports_law:
  assumes "\<forall>tx\<in>set txs. template_ok ports q tx"
  shows "load_ports ports txs tnl send =
    Inr (tnl @ filter (\<lambda>tx. po_tunnel (ports ! tp_port tx)) txs,
         send @ filter (\<lambda>tx. po_n_txq (ports ! tp_port tx) \<noteq> 0) txs)"
  using assms
proof (induction txs arbitrary: tnl send)
  case (Cons tx txs)
  have "tp_port tx < length ports" using Cons.prems by (simp add: template_ok_def)
  then show ?case using Cons copy_tx_template [of ports q tx] by simp
qed simp

section \<open>Reloading\<close>

lemma template_port_ok:
  "template_ok ports q tx \<Longrightarrow> po_n_txq (ports ! tp_port tx) \<noteq> 0 \<Longrightarrow> tx_port_ok ports tx"
  by (auto simp: template_ok_def tx_port_ok_def Let_def)

lemma no_queue_no_users:
  "\<forall>tx\<in>set txs. tp_qid tx = -1 \<Longrightarrow> txq_users p q txs = 0"
  by (simp add: txq_users_def filter_empty_conv)

text \<open>Giving up all cached ports: what waits is sent, the shared queues are given back.\<close>

lemma free_cached_ports_law:
  assumes X: "tx_env_ok X" and s: "tx_ok s" and a: "assigned_ok (ts_ports s) (ts_thread s)"
  shows "\<exists>s'. pmd_free_cached_ports X s = Inr s' \<and> tx_ok s' \<and> assigned_ok (ts_ports s') (ts_thread s') \<and>
    shape (ts_ports s') = shape (ts_ports s) \<and>
    txq_balance (ts_ports s') [] = txq_balance (ts_ports s) (sends_ports s) \<and>
    (\<forall>p h. filter (\<lambda>pk. tx_hash X pk = h) (sent_on s' p) = flow_stream X s p h) \<and>
    (sends_valid s \<longrightarrow> sends_valid s') \<and> tx_side s' = tx_side s \<and> sends_ports s' = [] \<and>
    tt_static_tx_qid (ts_thread s') = tt_static_tx_qid (ts_thread s) \<and>
    tt_tx_ports (ts_thread s') = tt_tx_ports (ts_thread s)"
proof -
  from forced_flush_empties [OF X s] obtain n s1 where
    f: "dp_netdev_pmd_flush_output_packets X True s = Inr (n, s1)" "tx_conserves X s s1" "concat (waiting s1) = []"
    by blast
  note c = tx_conservesD [OF f(2)]
  from revalidate_law [OF c(2), of True] obtain txs ports where
    r: "dpif_netdev_xps_revalidate_pmd True s1 =
        Inr (s1\<lparr>ts_thread := (ts_thread s1)\<lparr>tt_send_ports := txs\<rparr>, ts_ports := ports\<rparr>)"
      "tx_kept s1 (s1\<lparr>ts_thread := (ts_thread s1)\<lparr>tt_send_ports := txs\<rparr>, ts_ports := ports\<rparr>)"
      "\<forall>tx\<in>set txs. tp_qid tx = -1"
    by blast
  note k = tx_kept_trans [OF c(1) r(2)]
  let ?th = "(ts_thread s1)\<lparr>tt_tnl_ports := [], tt_send_ports := []\<rparr>"
  let ?s = "s1\<lparr>ts_thread := ?th, ts_ports := ports\<rparr>"
  have free: "pmd_free_cached_ports X s = Inr ?s" using f(1) r(1) by (simp add: pmd_free_cached_ports_def)
  have "assigned_ok ports ((ts_thread s1)\<lparr>tt_send_ports := txs\<rparr>)" using assigned_ok_kept [OF a k] by simp
  then have "assigned_ok ports ?th" by (simp add: assigned_ok_def)
  moreover have "tt_n_output_batches (ts_thread s1) = 0"
    using c(2) f(3) by (simp add: tx_ok_def tx_thread_ok_def filter_empty_conv)
  then have "tx_ok ?s" by (simp add: tx_ok_def tx_thread_ok_def)
  moreover have "shape ports = shape (ts_ports s)" using tx_keptD(2) [OF k] by simp
  moreover have "txq_balance ports [] = txq_balance ports txs"
    unfolding txq_balance_def using no_queue_no_users [OF r(3)] by (simp add: fun_eq_iff)
  then have "txq_balance ports [] = txq_balance (ts_ports s) (sends_ports s)" using tx_keptD(5) [OF k] by simp
  moreover have "filter (\<lambda>pk. tx_hash X pk = h) (sent_on ?s p) = flow_stream X s p h" for p h
  proof -
    have "waiting_on s1 p = []" using f(3) by (auto simp: waiting_on_def)
    then show ?thesis using c(4) [of p h] by (simp add: flow_stream_def sent_on_def)
  qed
  moreover have "sends_valid s \<longrightarrow> sends_valid ?s" using c(5) by simp
  moreover have "tx_side ?s = tx_side s" using c(3) by (simp add: tx_side_def)
  moreover have "tt_tx_ports (ts_thread s1) = tt_tx_ports (ts_thread s)" "tt_static_tx_qid (ts_thread s1) = tt_static_tx_qid (ts_thread s)"
    using thread_frame_eqD [OF tx_keptD(6) [OF c(1)]] by simp_all
  ultimately show ?thesis using free by (intro exI [of _ ?s]) simp
qed

lemma load_cached_ports_law:
  assumes X: "tx_env_ok X" and s: "tx_ok s" and a: "assigned_ok (ts_ports s) (ts_thread s)"
  shows "\<exists>s'. pmd_load_cached_ports X s = Inr s' \<and> tx_ok s' \<and> assigned_ok (ts_ports s') (ts_thread s') \<and>
    shape (ts_ports s') = shape (ts_ports s) \<and>
    txq_balance (ts_ports s') (sends_ports s') = txq_balance (ts_ports s) (sends_ports s) \<and>
    (\<forall>p h. filter (\<lambda>pk. tx_hash X pk = h) (sent_on s' p) = flow_stream X s p h) \<and> concat (waiting s') = [] \<and>
    (sends_valid s \<longrightarrow> sends_valid s') \<and> tx_side s' = tx_side s \<and>
    sends_ports s' = filter (\<lambda>tx. po_n_txq (ts_ports s ! tp_port tx) \<noteq> 0) (tt_tx_ports (ts_thread s)) \<and>
    tt_static_tx_qid (ts_thread s') = tt_static_tx_qid (ts_thread s) \<and>
    tt_tx_ports (ts_thread s') = tt_tx_ports (ts_thread s)"
proof -
  from free_cached_ports_law [OF X s a] obtain s1 where
    f: "pmd_free_cached_ports X s = Inr s1" "tx_ok s1" "assigned_ok (ts_ports s1) (ts_thread s1)"
      "shape (ts_ports s1) = shape (ts_ports s)" "txq_balance (ts_ports s1) [] = txq_balance (ts_ports s) (sends_ports s)"
      "\<forall>p h. filter (\<lambda>pk. tx_hash X pk = h) (sent_on s1 p) = flow_stream X s p h"
      "sends_valid s \<longrightarrow> sends_valid s1" "tx_side s1 = tx_side s" "sends_ports s1 = []"
      "tt_static_tx_qid (ts_thread s1) = tt_static_tx_qid (ts_thread s)"
      "tt_tx_ports (ts_thread s1) = tt_tx_ports (ts_thread s)"
    by blast
  let ?txs = "tt_tx_ports (ts_thread s)" and ?ports = "ts_ports s1"
  let ?tnl = "filter (\<lambda>tx. po_tunnel (?ports ! tp_port tx)) ?txs"
  let ?send = "filter (\<lambda>tx. po_n_txq (?ports ! tp_port tx) \<noteq> 0) ?txs"
  let ?th = "(ts_thread s1)\<lparr>tt_tnl_ports := ?tnl, tt_send_ports := ?send\<rparr>"
  let ?s = "s1\<lparr>ts_thread := ?th\<rparr>"
  have t: "\<forall>tx\<in>set ?txs. template_ok ?ports (tt_static_tx_qid (ts_thread s)) tx"
    using f(3,10,11) by (simp add: assigned_ok_def)
  have load: "pmd_load_cached_ports X s = Inr ?s"
    using f(1,11) load_ports_law [OF t, of "[]" "[]"] by (simp add: pmd_load_cached_ports_def)
  have qids: "\<forall>tx\<in>set ?send. tp_qid tx = -1" and empty: "\<forall>tx\<in>set ?send. tp_output_pkts tx = []"
    using t by (simp_all add: template_ok_def)
  have "txq_balance ?ports ?send = txq_balance ?ports []"
    unfolding txq_balance_def using no_queue_no_users [OF qids] by (simp add: fun_eq_iff)
  then have bal: "txq_balance ?ports ?send = txq_balance (ts_ports s) (sends_ports s)" using f(5) by simp
  have batches: "tt_n_output_batches (ts_thread s1) = 0" using f(2,9) by (simp add: tx_ok_def tx_thread_ok_def)
  have "tx_thread_ok ?ports ?th"
    unfolding tx_thread_ok_def
  proof (intro conjI)
    show "\<forall>tx\<in>set (tt_send_ports ?th). tx_port_ok ?ports tx" using t by (auto intro: template_port_ok)
    show "distinct (map tp_port (tt_send_ports ?th))"
      using f(3,11) by (simp add: assigned_ok_def distinct_map_filter)
    show "tt_n_output_batches ?th = int (length (filter (\<lambda>tx. tp_output_pkts tx \<noteq> []) (tt_send_ports ?th)))"
      using t batches by (auto simp: filter_empty_conv template_ok_def)
    show "\<forall>tx\<in>set (tt_send_ports ?th). po_mode (?ports ! tp_port tx) = TXQ_MODE_STATIC \<longrightarrow>
        tt_static_tx_qid ?th < po_n_txq (?ports ! tp_port tx)"
      using t f(10) by (simp add: template_ok_def Let_def)
  qed
  then have "tx_ok ?s" by (simp add: tx_ok_def)
  moreover have "assigned_ok ?ports ?th" using f(3) by (simp add: assigned_ok_def)
  moreover have "filter (\<lambda>pk. tx_hash X pk = h) (sent_on ?s p) = flow_stream X s p h" for p h
    using f(6) by (simp add: sent_on_def)
  moreover have "sends_valid s \<longrightarrow> sends_valid ?s" using f(7) by simp
  moreover have "?send = filter (\<lambda>tx. po_n_txq (ts_ports s ! tp_port tx) \<noteq> 0) ?txs"
    using t port_of_shape(2) [of s1 s] f(4) shape_eqD(1) [OF f(4)]
    by (intro filter_cong) (auto simp: template_ok_def)
  moreover have "concat (waiting ?s) = []" using empty by simp
  moreover have "tx_side ?s = tx_side s" using f(8) by (simp add: tx_side_def)
  ultimately show ?thesis using load f(4,10,11) bal by (intro exI [of _ ?s]) simp
qed

end
