(* ===== verification/Dpif_Tx_Threads.thy ===== *)
theory Dpif_Tx_Threads
  imports Dpif_Tx_Load
begin

text \<open>
  Several threads that transmit through the same ports: the counters of the shared queues count
  their users, in every order in which the threads act.
\<close>

section \<open>A counter that threads share\<close>

text \<open>
  Each thread accounts for a share of a counter.  A thread that acts changes the counter by what
  its share changes; so the counter and the sum of the shares move together.
\<close>

locale shared_counter =
  fixes counter :: "'s \<Rightarrow> 'k \<Rightarrow> 'c::ring_1"
    and share :: "'t \<Rightarrow> 'k \<Rightarrow> nat"
    and moves :: "'s \<Rightarrow> 't \<Rightarrow> 's \<Rightarrow> 't \<Rightarrow> bool"
  assumes moves_balance:
    "moves s t s' t' \<Longrightarrow> counter s' k - of_nat (share t' k) = counter s k - of_nat (share t k)"
begin

definition shares :: "'t list \<Rightarrow> 'k \<Rightarrow> nat" where
  "shares ts k = sum_list (map (\<lambda>t. share t k) ts)"

lemma shares_update:
  "i < length ts \<Longrightarrow> shares (ts[i := t]) k + share (ts ! i) k = shares ts k + share t k"
proof (induction ts arbitrary: i)
  case (Cons u ts)
  then show ?case by (cases i) (simp add: shares_def, use Cons.IH in \<open>fastforce simp: shares_def\<close>)
qed simp

lemma counter_follows_shares:
  assumes "moves s (ts ! i) s' t'" and "i < length ts"
  shows "counter s' k - of_nat (shares (ts[i := t']) k) = counter s k - of_nat (shares ts k)"
proof -
  have "(of_nat (shares (ts[i := t']) k) + of_nat (share (ts ! i) k) :: 'c) = of_nat (shares ts k) + of_nat (share t' k)"
    using shares_update [OF assms(2), of t' k] by (metis of_nat_add)
  then have "(of_nat (shares (ts[i := t']) k) :: 'c) = of_nat (shares ts k) + of_nat (share t' k) - of_nat (share (ts ! i) k)"
    by (simp add: eq_diff_eq)
  moreover have "counter s' k = counter s k - of_nat (share (ts ! i) k) + of_nat (share t' k)"
    using moves_balance [OF assms(1), of k] by (simp add: diff_eq_eq)
  ultimately show ?thesis by simp
qed

lemma counter_is_sum:
  assumes "moves s (ts ! i) s' t'" and "i < length ts" and "counter s k = of_nat (shares ts k)"
  shows "counter s' k = of_nat (shares (ts[i := t']) k)"
  using counter_follows_shares [OF assms(1,2), of k] assms(3) by simp

end

section \<open>What a thread does\<close>

datatype tx_op =
    Op_Output "tx_pkt list" bool u32
  | Op_Lb_Output "tx_pkt list" bool u32
  | Op_Flush bool
  | Op_Time int
  | Op_Rxq "nat option"
  | Op_Reload

fun run_tx_op :: "tx_env \<Rightarrow> tx_op \<Rightarrow> tx_state \<Rightarrow> tx_state c_result" where
  "run_tx_op X (Op_Output pks steal no) s = bindr (dp_execute_output_action X pks steal no s) (\<lambda>(_, _, s'). Inr s')"
| "run_tx_op X (Op_Lb_Output pks steal bond) s = bindr (dp_execute_lb_output_action X pks steal bond s) (\<lambda>(_, s'). Inr s')"
| "run_tx_op X (Op_Flush force) s = bindr (dp_netdev_pmd_flush_output_packets X force s) (\<lambda>(_, s'). Inr s')"
| "run_tx_op X (Op_Time now) s = Inr (s\<lparr>ts_thread := (ts_thread s)\<lparr>tt_now := now\<rparr>\<rparr>)"
| "run_tx_op X (Op_Rxq rxq) s = Inr (s\<lparr>ts_thread := (ts_thread s)\<lparr>tt_last_rxq := rxq\<rparr>\<rparr>)"
| "run_tx_op X Op_Reload s =
     bindr (pmd_load_cached_ports X s) (\<lambda>s'. Inr (s'\<lparr>ts_thread := (ts_thread s')\<lparr>tt_need_reload := False\<rparr>\<rparr>))"

fun tx_op_allowed :: "tx_op \<Rightarrow> bool" where
  "tx_op_allowed (Op_Output pks steal no) = (pks \<noteq> [] \<and> length pks \<le> NETDEV_MAX_BURST)"
| "tx_op_allowed op = True"

text \<open>A thread, with the ports, in a state from which it can act.\<close>

definition bonds_ok :: "tx_env \<Rightarrow> tx_thread \<Rightarrow> bool" where
  "bonds_ok X th \<longleftrightarrow> (\<forall>bond\<in>set (tt_bonds th). unat (te_bond_mask X) < length (bo_member_buckets bond))"

text \<open>The caches hold the assigned ports that have queues, unless a reload is asked for.\<close>

definition synced :: "tx_dev_port list \<Rightarrow> tx_thread \<Rightarrow> bool" where
  "synced ports th \<longleftrightarrow> tt_need_reload th \<or>
     set (map tp_port (tt_send_ports th)) = {p \<in> set (map tp_port (tt_tx_ports th)). po_n_txq (ports ! p) \<noteq> 0}"

text \<open>It depends only on the numbers of queues of the assigned ports.\<close>

lemma synced_cong:
  assumes "\<And>tx. tx \<in> set (tt_tx_ports th) \<Longrightarrow> po_n_txq (ports' ! tp_port tx) = po_n_txq (ports ! tp_port tx)"
  shows "synced ports' th = synced ports th"
proof -
  have "{p \<in> set (map tp_port (tt_tx_ports th)). po_n_txq (ports' ! p) \<noteq> 0} =
      {p \<in> set (map tp_port (tt_tx_ports th)). po_n_txq (ports ! p) \<noteq> 0}"
    using assms by auto
  then show ?thesis by (simp only: synced_def)
qed

definition tx_all_ok :: "tx_env \<Rightarrow> tx_dev_port list \<Rightarrow> tx_thread \<Rightarrow> bool" where
  "tx_all_ok X ports th \<longleftrightarrow> tx_thread_ok ports th \<and> assigned_ok ports th \<and> bonds_ok X th \<and> synced ports th"

lemma synced_kept:
  assumes "tx_kept s s'" and "assigned_ok (ts_ports s) (ts_thread s)" and "synced (ts_ports s) (ts_thread s)"
  shows "synced (ts_ports s') (ts_thread s')"
proof -
  have "tt_need_reload (thread_frame th) = tt_need_reload th" for th by (simp add: thread_frame_def)
  then have "tt_need_reload (ts_thread s') = tt_need_reload (ts_thread s)" using tx_keptD(6) [OF assms(1)] by metis
  then have "synced (ts_ports s) (ts_thread s')"
    using assms(3) tx_keptD(3) [OF assms(1)] thread_frame_eqD(4) [OF tx_keptD(6) [OF assms(1)]]
    unfolding synced_def by metis
  moreover have "po_n_txq (ts_ports s' ! tp_port tx) = po_n_txq (ts_ports s ! tp_port tx)" if "tx \<in> set (tt_tx_ports (ts_thread s'))" for tx
    using that assms(2) thread_frame_eqD(4) [OF tx_keptD(6) [OF assms(1)]] port_of_shape(2) [OF tx_keptD(2) [OF assms(1)]]
    by (simp add: assigned_ok_def template_ok_def)
  ultimately show ?thesis using synced_cong by blast
qed

lemma bonds_ok_bond:
  "bonds_ok X (ts_thread s) \<Longrightarrow> tx_bond_lookup (tt_bonds (ts_thread s)) bond = Some b \<Longrightarrow> bond_ok X s b"
  using find_index_from_SomeD [of 0 _ "tt_bonds (ts_thread s)" b]
  by (simp add: tx_bond_lookup_def bond_ok_def bonds_ok_def)

lemma bonds_ok_frame:
  assumes "thread_frame th' = thread_frame th" and "bonds_ok X th"
  shows "bonds_ok X th'"
proof -
  have "map (\<lambda>b. length (bo_member_buckets b)) (tt_bonds th') = map (\<lambda>b. length (bo_member_buckets b)) (tt_bonds th)"
  proof (rule nth_equalityI)
    have e: "length (tt_bonds th') = length (tt_bonds th)"
      using arg_cong [OF assms(1), of "\<lambda>th. length (tt_bonds th)"] by (simp add: thread_frame_def)
    then show "length (map (\<lambda>b. length (bo_member_buckets b)) (tt_bonds th')) =
        length (map (\<lambda>b. length (bo_member_buckets b)) (tt_bonds th))" by simp
    show "map (\<lambda>b. length (bo_member_buckets b)) (tt_bonds th') ! j = map (\<lambda>b. length (bo_member_buckets b)) (tt_bonds th) ! j"
      if "j < length (map (\<lambda>b. length (bo_member_buckets b)) (tt_bonds th'))" for j
      using thread_frame_bonds(2) [OF assms(1), of j] that e by simp
  qed
  then have "\<forall>n\<in>set (map (\<lambda>b. length (bo_member_buckets b)) (tt_bonds th')). unat (te_bond_mask X) < n"
    using assms(2) unfolding bonds_ok_def by simp
  then show ?thesis by (simp add: bonds_ok_def)
qed

text \<open>What an operation of a thread guarantees.\<close>

definition tx_op_done :: "tx_env \<Rightarrow> tx_state \<Rightarrow> tx_state \<Rightarrow> bool" where
  "tx_op_done X s s' \<longleftrightarrow>
     tx_all_ok X (ts_ports s') (ts_thread s') \<and> shape (ts_ports s') = shape (ts_ports s) \<and>
     txq_balance (ts_ports s') (sends_ports s') = txq_balance (ts_ports s) (sends_ports s) \<and>
     (sends_valid s \<longrightarrow> sends_valid s')"

lemma kept_op_done:
  assumes "tx_all_ok X (ts_ports s) (ts_thread s)" and "tx_kept s s'" and "sends_valid s \<Longrightarrow> sends_valid s'"
  shows "tx_op_done X s s'"
  using assms assigned_ok_kept [OF _ assms(2)] synced_kept [OF assms(2)] bonds_ok_frame [OF tx_keptD(6) [OF assms(2)]] tx_keptD [OF assms(2)]
  by (simp add: tx_op_done_def tx_all_ok_def tx_ok_def)

lemma lb_action_law:
  assumes X: "tx_env_ok X" and s: "tx_ok s" and b: "bonds_ok X (ts_thread s)"
  shows "\<exists>left s'. dp_execute_lb_output_action X packets steal bond s = Inr (left, s') \<and>
    (case tx_bond_lookup (tt_bonds (ts_thread s)) bond of
       Some b \<Rightarrow> left = (if steal then [] else te_reset_cutlen X packets) \<and> lb_done X b (tx_out X packets steal) s s'
     | None \<Rightarrow> left = (if steal then [] else packets) \<and>
         s' = s\<lparr>ts_drop_invalid_bond := ts_drop_invalid_bond s + length packets,
                ts_freed := ts_freed s @ (if steal then packets else [])\<rparr>)"
proof (cases "tx_bond_lookup (tt_bonds (ts_thread s)) bond")
  case (Some i)
  from lb_output_packets_law [OF X s bonds_ok_bond [OF b Some], of "tx_out X packets steal"] obtain s' where
    "lb_output_packets X i (tx_out X packets steal) s = Inr s'" "lb_done X i (tx_out X packets steal) s s'"
    by blast
  then show ?thesis unfolding dp_execute_lb_output_action_def Some
    by (simp add: tx_out_def Let_def)
qed (simp add: dp_execute_lb_output_action_def delete_batch_def)

lemma run_tx_op_law:
  assumes X: "tx_env_ok X" and s: "tx_all_ok X (ts_ports s) (ts_thread s)" and op: "tx_op_allowed op"
  shows "\<exists>s'. run_tx_op X op s = Inr s' \<and> tx_op_done X s s'"
proof -
  have ok: "tx_ok s" "assigned_ok (ts_ports s) (ts_thread s)" "bonds_ok X (ts_thread s)"
    using s by (simp_all add: tx_all_ok_def tx_ok_def)
  show ?thesis
  proof (cases op)
    case (Op_Output pks steal no)
    from output_action_law [OF X ok(1), of pks steal no] op Op_Output obtain known left s' where
      o: "dp_execute_output_action X pks steal no s = Inr (known, left, s')"
      and c: "case send_pos s no of
         Some i \<Rightarrow> tx_appends X (tp_port (sends_ports s ! i)) (tx_out X pks steal) s s'
       | None \<Rightarrow> s' = s\<lparr>ts_drop_invalid_port := ts_drop_invalid_port s + length pks,
                  ts_freed := ts_freed s @ (if steal then pks else [])\<rparr>"
      by (fastforce simp: send_pos_def split: option.splits)
    have "tx_op_done X s s'"
    proof (cases "send_pos s no")
      case None
      then show ?thesis using c s by (simp add: tx_op_done_def)
    next
      case (Some i)
      then show ?thesis using c tx_appendsD(1,5) by (intro kept_op_done [OF s]) auto
    qed
    then show ?thesis using o Op_Output by simp
  next
    case (Op_Lb_Output pks steal bond)
    from lb_action_law [OF X ok(1,3), of pks steal bond] obtain left s' where
      o: "dp_execute_lb_output_action X pks steal bond s = Inr (left, s')"
      and c: "case tx_bond_lookup (tt_bonds (ts_thread s)) bond of
         Some b \<Rightarrow> lb_done X b (tx_out X pks steal) s s'
       | None \<Rightarrow> s' = s\<lparr>ts_drop_invalid_bond := ts_drop_invalid_bond s + length pks,
                  ts_freed := ts_freed s @ (if steal then pks else [])\<rparr>"
      by (fastforce split: option.splits)
    have "tx_op_done X s s'"
    proof (cases "tx_bond_lookup (tt_bonds (ts_thread s)) bond")
      case None
      then show ?thesis using c s by (simp add: tx_op_done_def)
    next
      case (Some b)
      then show ?thesis using c by (intro kept_op_done [OF s]) (simp_all add: lb_done_def)
    qed
    then show ?thesis using o Op_Lb_Output by simp
  next
    case (Op_Flush force)
    from flush_output_packets_law [OF X ok(1), of force] obtain n s' where
      "dp_netdev_pmd_flush_output_packets X force s = Inr (n, s')" "tx_conserves X s s'"
      by blast
    then show ?thesis using Op_Flush kept_op_done [OF s] tx_conservesD(1,5) by fastforce
  next
    case (Op_Time now)
    then show ?thesis using s
      by (simp add: tx_op_done_def tx_all_ok_def tx_thread_ok_def assigned_ok_def bonds_ok_def synced_def)
  next
    case (Op_Rxq rxq)
    then show ?thesis using s
      by (simp add: tx_op_done_def tx_all_ok_def tx_thread_ok_def assigned_ok_def bonds_ok_def synced_def)
  next
    case Op_Reload
    from load_cached_ports_law [OF X ok(1,2)] obtain s' where
      l: "pmd_load_cached_ports X s = Inr s'" "tx_ok s'" "assigned_ok (ts_ports s') (ts_thread s')"
        "shape (ts_ports s') = shape (ts_ports s)"
        "txq_balance (ts_ports s') (sends_ports s') = txq_balance (ts_ports s) (sends_ports s)"
        "sends_valid s \<longrightarrow> sends_valid s'" "tx_side s' = tx_side s"
        "sends_ports s' = filter (\<lambda>tx. po_n_txq (ts_ports s ! tp_port tx) \<noteq> 0) (tt_tx_ports (ts_thread s))"
        "tt_tx_ports (ts_thread s') = tt_tx_ports (ts_thread s)"
      by blast
    have n: "po_n_txq (ts_ports s' ! tp_port tx) = po_n_txq (ts_ports s ! tp_port tx)" if "tx \<in> set (tt_tx_ports (ts_thread s))" for tx
      using that ok(2) port_of_shape(2) [OF l(4)] by (simp add: assigned_ok_def template_ok_def)
    have "set (map tp_port (sends_ports s')) =
        {p \<in> set (map tp_port (tt_tx_ports (ts_thread s'))). po_n_txq (ts_ports s' ! p) \<noteq> 0}"
      unfolding l(8,9) using n by auto
    moreover from l have "bonds_ok X (ts_thread s')" using ok(3) by (simp add: tx_side_def bonds_ok_def)
    ultimately show ?thesis using l(1-6) Op_Reload
      by (simp add: tx_op_done_def tx_all_ok_def tx_ok_def tx_thread_ok_def assigned_ok_def bonds_ok_def synced_def)
  qed
qed

end
