(* ===== verification/Dpif_Tx_System.thy ===== *)
theory Dpif_Tx_System
  imports Dpif_Tx_Threads
begin

text \<open>
  The threads of a datapath, its ports, and the main thread that assigns and reconfigures ports,
  as a step relation.
\<close>

section \<open>States and steps\<close>

text \<open>The threads, and what they share: the \<open>ts_thread\<close> of \<open>sx_state\<close> is that of the last to act.\<close>

record tx_sys =
  sx_threads :: "tx_thread list"
  sx_state :: tx_state

definition focus :: "nat \<Rightarrow> tx_sys \<Rightarrow> tx_state" where
  "focus t y = (sx_state y)\<lparr>ts_thread := sx_threads y ! t\<rparr>"

definition unfocus :: "nat \<Rightarrow> tx_state \<Rightarrow> tx_sys \<Rightarrow> tx_sys" where
  "unfocus t s y = \<lparr>sx_threads = (sx_threads y)[t := ts_thread s], sx_state = s\<rparr>"

abbreviation sx_ports :: "tx_sys \<Rightarrow> tx_dev_port list" where
  "sx_ports y \<equiv> ts_ports (sx_state y)"

text \<open>The port at \<open>p\<close> is in no cache and in no assignment.\<close>

definition port_unused :: "nat \<Rightarrow> tx_sys \<Rightarrow> bool" where
  "port_unused p y \<longleftrightarrow> (\<forall>th\<in>set (sx_threads y).
     p \<notin> set (map tp_port (tt_send_ports th)) \<and> p \<notin> set (map tp_port (tt_tx_ports th)))"

text \<open>A port whose configuration has just been applied: no queue has users.\<close>

definition fresh_port :: "tx_dev_port \<Rightarrow> bool" where
  "fresh_port port \<longleftrightarrow> po_txq_used port = replicate (po_n_txq port) 0"

text \<open>
  A thread goes (\<open>dp_netdev_del_pmd\<close>): it gives up its cached ports as it ends, then its ports and
  bonds are freed and it is taken out of the threads.
\<close>

definition dp_netdev_del_pmd :: "tx_env \<Rightarrow> nat \<Rightarrow> tx_sys \<Rightarrow> tx_sys c_result" where
  "dp_netdev_del_pmd X t y =
     bindr (pmd_free_cached_ports X (focus t y)) (\<lambda>s.
       Inr \<lparr>sx_threads = take t (sx_threads y) @ drop (Suc t) (sx_threads y), sx_state = s\<rparr>)"

text \<open>The queue \<open>q\<close> of its own exists on every port that a thread knows and that has one for each thread.\<close>

definition own_queue_fits :: "tx_dev_port list \<Rightarrow> nat \<Rightarrow> tx_thread \<Rightarrow> bool" where
  "own_queue_fits ports q th \<longleftrightarrow> (\<forall>tx\<in>set (tt_send_ports th) \<union> set (tt_tx_ports th).
     po_mode (ports ! tp_port tx) = TXQ_MODE_STATIC \<and> 0 < po_n_txq (ports ! tp_port tx) \<longrightarrow> q < po_n_txq (ports ! tp_port tx))"

text \<open>
  The steps: a thread acts; the main thread assigns a port to a thread (one whose queue of its own
  exists where it will be used), takes stale ports away, changes the bonds of a thread, or the
  flags of a port; it applies a new configuration to a port that no thread uses, or adds a port; a thread
  is started, goes, or takes another queue of its own.
\<close>

inductive tx_sys_step :: "tx_env \<Rightarrow> tx_sys \<Rightarrow> tx_sys \<Rightarrow> bool" for X where
  thread_acts:
    "t < length (sx_threads y) \<Longrightarrow> tx_op_allowed op \<Longrightarrow> run_tx_op X op (focus t y) = Inr s' \<Longrightarrow>
       tx_sys_step X y (unfocus t s' y)"
| assign_port:
    "t < length (sx_threads y) \<Longrightarrow> p < length (sx_ports y) \<Longrightarrow>
       (po_mode (sx_ports y ! p) = TXQ_MODE_STATIC \<and> 0 < po_n_txq (sx_ports y ! p) \<Longrightarrow>
          tt_static_tx_qid (sx_threads y ! t) < po_n_txq (sx_ports y ! p)) \<Longrightarrow>
       dp_netdev_add_port_tx_to_pmd p (focus t y) = Inr s' \<Longrightarrow>
       tx_sys_step X y (unfocus t s' y)"
| remove_stale:
    "t < length (sx_threads y) \<Longrightarrow> pmd_remove_stale_ports (sx_ports y) (sx_threads y ! t) = Inr th \<Longrightarrow>
       tx_sys_step X y (y\<lparr>sx_threads := (sx_threads y)[t := th]\<rparr>)"
| add_bond:
    "t < length (sx_threads y) \<Longrightarrow> unat (te_bond_mask X) < length (bo_member_buckets bond) \<Longrightarrow>
       tx_sys_step X y (y\<lparr>sx_threads := (sx_threads y)[t := dp_netdev_add_bond_tx_to_pmd bond update (sx_threads y ! t)]\<rparr>)"
| del_bond:
    "t < length (sx_threads y) \<Longrightarrow>
       tx_sys_step X y (y\<lparr>sx_threads := (sx_threads y)[t := dp_netdev_del_bond_tx_from_pmd bond_id (sx_threads y ! t)]\<rparr>)"
| flag_port:
    "p < length (sx_ports y) \<Longrightarrow>
       tx_sys_step X y (y\<lparr>sx_state := (sx_state y)\<lparr>ts_ports := (sx_ports y)[p := (sx_ports y ! p)\<lparr>
         po_need_reconfigure := need, po_listed := listed, po_requested_mode := req\<rparr>]\<rparr>\<rparr>)"
| reconfigure_port:
    "p < length (sx_ports y) \<Longrightarrow> port_unused p y \<Longrightarrow> fresh_port port \<Longrightarrow>
       tx_sys_step X y (y\<lparr>sx_state := (sx_state y)\<lparr>ts_ports := (sx_ports y)[p := port]\<rparr>\<rparr>)"
| new_port:
    "fresh_port port \<Longrightarrow>
       tx_sys_step X y (y\<lparr>sx_state := (sx_state y)\<lparr>ts_ports := sx_ports y @ [port]\<rparr>\<rparr>)"
| start_thread:
    "tx_sys_step X y (y\<lparr>sx_threads := sx_threads y @ [new_tx_thread now qid]\<rparr>)"
| end_thread:
    "t < length (sx_threads y) \<Longrightarrow> dp_netdev_del_pmd X t y = Inr y' \<Longrightarrow> tx_sys_step X y y'"
| new_own_queue:
    "t < length (sx_threads y) \<Longrightarrow> own_queue_fits (sx_ports y) qid (sx_threads y ! t) \<Longrightarrow>
       tx_sys_step X y (y\<lparr>sx_threads := (sx_threads y)[t := (sx_threads y ! t)\<lparr>tt_static_tx_qid := qid\<rparr>]\<rparr>)"

section \<open>The invariant\<close>

text \<open>The number of users of the queue \<open>q\<close> of the port at \<open>p\<close>, over all threads.\<close>

definition all_users :: "tx_sys \<Rightarrow> nat \<Rightarrow> nat \<Rightarrow> nat" where
  "all_users y p q = sum_list (map (\<lambda>th. txq_users p q (tt_send_ports th)) (sx_threads y))"

definition tx_sys_ok :: "tx_env \<Rightarrow> tx_sys \<Rightarrow> bool" where
  "tx_sys_ok X y \<longleftrightarrow>
     (\<forall>th\<in>set (sx_threads y). tx_all_ok X (sx_ports y) th) \<and>
     (\<forall>p<length (sx_ports y). length (po_txq_used (sx_ports y ! p)) = po_n_txq (sx_ports y ! p) \<and>
        (\<forall>q<po_n_txq (sx_ports y ! p). po_txq_used (sx_ports y ! p) ! q = of_nat (all_users y p q))) \<and>
     sends_valid (sx_state y)"

text \<open>The move of a thread, as the locale of shared counters sees it.\<close>

definition thread_moves :: "tx_env \<Rightarrow> tx_dev_port list \<Rightarrow> tx_thread \<Rightarrow> tx_dev_port list \<Rightarrow> tx_thread \<Rightarrow> bool" where
  "thread_moves X ports th ports' th' \<longleftrightarrow>
     (\<exists>op s s'. tx_env_ok X \<and> tx_op_allowed op \<and> tx_all_ok X ports th \<and> ts_ports s = ports \<and> ts_thread s = th \<and>
        run_tx_op X op s = Inr s' \<and> ts_ports s' = ports' \<and> ts_thread s' = th')"

interpretation xps: shared_counter
  "\<lambda>ports pq. po_txq_used (ports ! fst pq) ! snd pq"
  "\<lambda>th pq. txq_users (fst pq) (snd pq) (tt_send_ports th)" "thread_moves X" for X
proof
  fix ports ports' th th' and pq :: "nat \<times> nat"
  assume "thread_moves X ports th ports' th'"
  then obtain op s s' where m: "tx_env_ok X" "tx_op_allowed op" "tx_all_ok X (ts_ports s) (ts_thread s)"
    "ts_ports s = ports" "ts_thread s = th" "run_tx_op X op s = Inr s'" "ts_ports s' = ports'" "ts_thread s' = th'"
    by (auto simp: thread_moves_def)
  have "tx_op_done X s s'" using run_tx_op_law [OF m(1,3,2)] m(6) by simp
  then have "txq_balance ports' (tt_send_ports th') (fst pq) (snd pq) = txq_balance ports (tt_send_ports th) (fst pq) (snd pq)"
    using m by (simp add: tx_op_done_def)
  then show "po_txq_used (ports' ! fst pq) ! snd pq - of_nat (txq_users (fst pq) (snd pq) (tt_send_ports th')) =
      po_txq_used (ports ! fst pq) ! snd pq - of_nat (txq_users (fst pq) (snd pq) (tt_send_ports th))"
    by (simp add: txq_balance_def)
qed

lemma all_users_shares: "all_users y p q = xps.shares (sx_threads y) (p, q)"
  by (simp add: all_users_def xps.shares_def)

lemma all_users_other:
  assumes "\<And>th. th \<in> set (sx_threads y) \<Longrightarrow> txq_users p q (tt_send_ports th) = 0"
  shows "all_users y p q = 0"
  using assms by (simp add: all_users_def)

lemma tx_all_ok_shape:
  assumes "shape ports' = shape ports" and "tx_all_ok X ports th"
  shows "tx_all_ok X ports' th"
proof -
  have len: "length ports' = length ports" by (rule shape_eqD(1) [OF assms(1)])
  have st: "po_mode (ports' ! p) = po_mode (ports ! p) \<and> po_n_txq (ports' ! p) = po_n_txq (ports ! p)" if "p < length ports" for p
    using port_shape_eqD(1,2) [OF shape_eqD(2) [OF assms(1) that]] by simp
  show ?thesis
  proof -
    have "tp_port tx < length ports" if "tx \<in> set (tt_tx_ports th)" for tx
      using assms(2) that by (simp add: tx_all_ok_def assigned_ok_def template_ok_def)
    then have "synced ports' th = synced ports th" using st by (intro synced_cong) blast
    moreover have "tp_port tx < length ports" if "tx \<in> set (tt_send_ports th)" for tx
      using assms(2) that by (auto simp: tx_all_ok_def tx_thread_ok_def dest: tx_port_okD(1))
    ultimately show ?thesis using assms(2) tx_port_ok_shape [OF assms(1)] template_ok_shape [OF assms(1)] st
      by (simp add: tx_all_ok_def tx_thread_ok_def assigned_ok_def)
  qed
qed

text \<open>A thread depends only on the ports it knows.\<close>

lemma tx_all_ok_cong:
  assumes "tx_all_ok X ports th" and "length ports \<le> length ports'"
    and "\<And>p. p < length ports \<Longrightarrow> p \<in> set (map tp_port (tt_send_ports th)) \<union> set (map tp_port (tt_tx_ports th)) \<Longrightarrow>
      po_mode (ports' ! p) = po_mode (ports ! p) \<and> po_n_txq (ports' ! p) = po_n_txq (ports ! p) \<and>
      length (po_txq_used (ports' ! p)) = length (po_txq_used (ports ! p))"
  shows "tx_all_ok X ports' th"
proof -
  have s: "tx_port_ok ports tx" if "tx \<in> set (tt_send_ports th)" for tx
    using assms(1) that by (simp add: tx_all_ok_def tx_thread_ok_def)
  have a: "template_ok ports (tt_static_tx_qid th) tx" if "tx \<in> set (tt_tx_ports th)" for tx
    using assms(1) that by (simp add: tx_all_ok_def assigned_ok_def)
  have eq: "po_mode (ports' ! tp_port tx) = po_mode (ports ! tp_port tx) \<and> po_n_txq (ports' ! tp_port tx) = po_n_txq (ports ! tp_port tx) \<and>
      length (po_txq_used (ports' ! tp_port tx)) = length (po_txq_used (ports ! tp_port tx))"
    if "tx \<in> set (tt_send_ports th) \<union> set (tt_tx_ports th)" for tx
    using that assms(3) [of "tp_port tx"] s [of tx] a [of tx] by (auto simp: template_ok_def dest: tx_port_okD(1))
  have "tx_port_ok ports' tx" if "tx \<in> set (tt_send_ports th)" for tx
    using s [OF that] eq [of tx] that assms(2) by (auto simp: tx_port_ok_def Let_def)
  moreover have "template_ok ports' (tt_static_tx_qid th) tx" if "tx \<in> set (tt_tx_ports th)" for tx
    using a [OF that] eq [of tx] that assms(2) by (auto simp: template_ok_def Let_def)
  moreover have "synced ports' th = synced ports th" using eq by (intro synced_cong) simp
  ultimately show ?thesis using assms(1) eq
    by (simp add: tx_all_ok_def tx_thread_ok_def assigned_ok_def)
qed

section \<open>The steps of the main thread\<close>

lemma new_tx_port_template:
  assumes "p < length ports" and "length (po_txq_used (ports ! p)) = po_n_txq (ports ! p)"
    and "po_mode (ports ! p) = TXQ_MODE_STATIC \<and> 0 < po_n_txq (ports ! p) \<Longrightarrow> q < po_n_txq (ports ! p)"
  shows "template_ok ports q (new_tx_port p (ports ! p))"
  using assms by (simp add: template_ok_def new_tx_port_def)

text \<open>Assigning a port leaves the caches of the thread alone.\<close>

lemma add_port_law:
  assumes ok: "tx_all_ok X (ts_ports s) (ts_thread s)" and p: "p < length (ts_ports s)"
    and len: "length (po_txq_used (ts_ports s ! p)) = po_n_txq (ts_ports s ! p)"
    and q: "po_mode (ts_ports s ! p) = TXQ_MODE_STATIC \<and> 0 < po_n_txq (ts_ports s ! p) \<Longrightarrow>
      tt_static_tx_qid (ts_thread s) < po_n_txq (ts_ports s ! p)"
  shows "\<exists>txs b. dp_netdev_add_port_tx_to_pmd p s = Inr (s\<lparr>ts_thread := (ts_thread s)\<lparr>tt_tx_ports := txs, tt_need_reload := b\<rparr>\<rparr>) \<and>
    tx_all_ok X (ts_ports s) ((ts_thread s)\<lparr>tt_tx_ports := txs, tt_need_reload := b\<rparr>) \<and>
    (\<exists>tx\<in>set txs. po_no (ts_ports s ! tp_port tx) = po_no (ts_ports s ! p)) \<and>
    (txs = tt_tx_ports (ts_thread s) \<or> txs = tt_tx_ports (ts_thread s) @ [new_tx_port p (ts_ports s ! p)])"
proof -
  let ?port = "ts_ports s ! p" and ?txs = "tt_tx_ports (ts_thread s)"
  have t: "\<forall>tx\<in>set ?txs. tp_port tx < length (ts_ports s)"
    using ok by (simp add: tx_all_ok_def assigned_ok_def template_ok_def)
  have l: "tx_port_lookup (ts_ports s) ?txs (po_no ?port) =
      Inr (find_index_from 0 (\<lambda>tx. po_no (ts_ports s ! tp_port tx) = po_no ?port) ?txs)"
    using tx_port_lookup_from_law [OF t] by (simp add: tx_port_lookup_def)
  show ?thesis
  proof (cases "find_index_from 0 (\<lambda>tx. po_no (ts_ports s ! tp_port tx) = po_no ?port) ?txs")
    case None
    then have new: "\<forall>tx\<in>set ?txs. po_no (ts_ports s ! tp_port tx) \<noteq> po_no ?port" by simp
    let ?new = "?txs @ [new_tx_port p ?port]"
    have "template_ok (ts_ports s) (tt_static_tx_qid (ts_thread s)) (new_tx_port p ?port)"
      using new_tx_port_template [OF p len q] by blast
    moreover have "distinct (map tp_port ?new)"
      using ok new by (auto simp: tx_all_ok_def assigned_ok_def new_tx_port_def)
    ultimately have "tx_all_ok X (ts_ports s) ((ts_thread s)\<lparr>tt_tx_ports := ?new, tt_need_reload := True\<rparr>)"
      using ok by (auto simp: tx_all_ok_def assigned_ok_def tx_thread_ok_def bonds_ok_def synced_def)
    moreover have "dp_netdev_add_port_tx_to_pmd p s = Inr (s\<lparr>ts_thread := (ts_thread s)\<lparr>tt_tx_ports := ?new, tt_need_reload := True\<rparr>\<rparr>)"
      using p by (simp add: dp_netdev_add_port_tx_to_pmd_def l None)
    moreover have "\<exists>tx\<in>set ?new. po_no (ts_ports s ! tp_port tx) = po_no ?port" by (simp add: new_tx_port_def)
    ultimately show ?thesis by blast
  next
    case (Some i)
    have "\<exists>tx\<in>set ?txs. po_no (ts_ports s ! tp_port tx) = po_no ?port"
      using find_index_from_SomeD [OF Some] by auto
    then show ?thesis using p ok
      by (intro exI [of _ ?txs] exI [of _ "tt_need_reload (ts_thread s)"]) (simp add: dp_netdev_add_port_tx_to_pmd_def l Some)
  qed
qed

definition stale_port :: "tx_dev_port \<Rightarrow> bool" where
  "stale_port port \<longleftrightarrow> po_need_reconfigure port \<or> \<not> po_listed port"

lemma remove_stale_from_law:
  assumes "i + k = length (tt_tx_ports th)" and "\<forall>tx\<in>set (tt_tx_ports th). tp_port tx < length ports"
  shows "\<exists>b. remove_stale_from ports i k th = Inr (th\<lparr>tt_tx_ports :=
    take i (tt_tx_ports th) @ filter (\<lambda>tx. \<not> stale_port (ports ! tp_port tx)) (drop i (tt_tx_ports th)), tt_need_reload := b\<rparr>) \<and>
    (b \<longleftrightarrow> tt_need_reload th \<or> (\<exists>tx\<in>set (drop i (tt_tx_ports th)). stale_port (ports ! tp_port tx)))"
  using assms
proof (induction k arbitrary: i th)
  case 0
  then show ?case by (intro exI [of _ "tt_need_reload th"]) simp
next
  case (Suc k)
  let ?txs = "tt_tx_ports th"
  have i: "i < length ?txs" using Suc.prems(1) by simp
  have d: "drop i ?txs = ?txs ! i # drop (Suc i) ?txs" using i by (simp add: Cons_nth_drop_Suc)
  have p: "tp_port (?txs ! i) < length ports" using Suc.prems(2) i by simp
  show ?case
  proof (cases "stale_port (ports ! tp_port (?txs ! i))")
    case True
    let ?th = "dp_netdev_del_port_tx_from_pmd i th"
    have t: "tt_tx_ports ?th = take i ?txs @ drop (Suc i) ?txs" "tt_need_reload ?th"
      by (simp_all add: dp_netdev_del_port_tx_from_pmd_def)
    have "i + k = length (tt_tx_ports ?th)" using Suc.prems(1) by (simp add: t)
    moreover have "\<forall>tx\<in>set (tt_tx_ports ?th). tp_port tx < length ports"
      using Suc.prems(2) by (auto simp: t dest: in_set_takeD in_set_dropD)
    ultimately obtain b where r: "remove_stale_from ports i k ?th = Inr (?th\<lparr>tt_tx_ports :=
        take i (tt_tx_ports ?th) @ filter (\<lambda>tx. \<not> stale_port (ports ! tp_port tx)) (drop i (tt_tx_ports ?th)), tt_need_reload := b\<rparr>)"
      "b"
      using Suc.IH [of i ?th] t(2) by auto
    have "take i (tt_tx_ports ?th) = take i ?txs" "drop i (tt_tx_ports ?th) = drop (Suc i) ?txs"
      using i by (simp_all add: t)
    then have "remove_stale_from ports i (Suc k) th = Inr (th\<lparr>tt_tx_ports :=
        take i ?txs @ filter (\<lambda>tx. \<not> stale_port (ports ! tp_port tx)) (drop (Suc i) ?txs), tt_need_reload := b\<rparr>)"
      using r(1) True i p by (simp add: stale_port_def dp_netdev_del_port_tx_from_pmd_def)
    then show ?thesis using True r(2) by (intro exI [of _ b]) (simp add: d)
  next
    case False
    obtain b where r: "remove_stale_from ports (Suc i) k th = Inr (th\<lparr>tt_tx_ports :=
        take (Suc i) ?txs @ filter (\<lambda>tx. \<not> stale_port (ports ! tp_port tx)) (drop (Suc i) ?txs), tt_need_reload := b\<rparr>)"
      "b \<longleftrightarrow> tt_need_reload th \<or> (\<exists>tx\<in>set (drop (Suc i) ?txs). stale_port (ports ! tp_port tx))"
      using Suc.IH [of "Suc i" th] Suc.prems by auto
    have "remove_stale_from ports i (Suc k) th = remove_stale_from ports (Suc i) k th"
      using False i p by (simp add: stale_port_def)
    then show ?thesis using r False i by (intro exI [of _ b]) (simp add: d take_Suc_conv_app_nth)
  qed
qed

lemma remove_stale_law:
  assumes "tx_all_ok X ports th"
  shows "\<exists>b. pmd_remove_stale_ports ports th = Inr (th\<lparr>tt_tx_ports :=
      filter (\<lambda>tx. \<not> stale_port (ports ! tp_port tx)) (tt_tx_ports th), tt_need_reload := b\<rparr>) \<and>
    (b \<longleftrightarrow> tt_need_reload th \<or> (\<exists>tx\<in>set (tt_tx_ports th). stale_port (ports ! tp_port tx))) \<and>
    tx_all_ok X ports (th\<lparr>tt_tx_ports := filter (\<lambda>tx. \<not> stale_port (ports ! tp_port tx)) (tt_tx_ports th), tt_need_reload := b\<rparr>)"
proof -
  have "\<forall>tx\<in>set (tt_tx_ports th). tp_port tx < length ports"
    using assms by (simp add: tx_all_ok_def assigned_ok_def template_ok_def)
  from remove_stale_from_law [OF _ this, of 0 "length (tt_tx_ports th)"] obtain b where
    "remove_stale_from ports 0 (length (tt_tx_ports th)) th = Inr (th\<lparr>tt_tx_ports :=
       filter (\<lambda>tx. \<not> stale_port (ports ! tp_port tx)) (tt_tx_ports th), tt_need_reload := b\<rparr>)"
    "b \<longleftrightarrow> tt_need_reload th \<or> (\<exists>tx\<in>set (tt_tx_ports th). stale_port (ports ! tp_port tx))"
    by auto
  moreover have "tx_all_ok X ports (th\<lparr>tt_tx_ports := filter (\<lambda>tx. \<not> stale_port (ports ! tp_port tx)) (tt_tx_ports th), tt_need_reload := b\<rparr>)"
  proof -
    have "synced ports (th\<lparr>tt_tx_ports := filter (\<lambda>tx. \<not> stale_port (ports ! tp_port tx)) (tt_tx_ports th), tt_need_reload := b\<rparr>)"
    proof (cases b)
      case False
      then have "filter (\<lambda>tx. \<not> stale_port (ports ! tp_port tx)) (tt_tx_ports th) = tt_tx_ports th" "\<not> tt_need_reload th"
        using calculation(2) by (auto simp: filter_id_conv)
      then show ?thesis using assms by (simp add: tx_all_ok_def synced_def)
    qed (simp add: synced_def)
    then show ?thesis
      using assms by (simp add: tx_all_ok_def assigned_ok_def tx_thread_ok_def bonds_ok_def distinct_map_filter)
  qed
  ultimately show ?thesis by (auto simp: pmd_remove_stale_ports_def)
qed

lemma copy_member_stats_length [simp]: "length (copy_member_stats olds news) = length news"
  by (induction olds news rule: copy_member_stats.induct) auto

lemma bonds_ok_add:
  assumes "bonds_ok X th" and "unat (te_bond_mask X) < length (bo_member_buckets bond)"
  shows "bonds_ok X (dp_netdev_add_bond_tx_to_pmd bond update th)"
  using assms unfolding bonds_ok_def dp_netdev_add_bond_tx_to_pmd_def
  by (auto split: option.splits dest!: set_update_subset_insert [THEN subsetD])

lemma bonds_ok_del:
  assumes "bonds_ok X th"
  shows "bonds_ok X (dp_netdev_del_bond_tx_from_pmd bond th)"
  using assms unfolding bonds_ok_def dp_netdev_del_bond_tx_from_pmd_def
  by (auto split: option.splits dest: in_set_takeD in_set_dropD)

lemma bond_only:
  "tt_send_ports (dp_netdev_add_bond_tx_to_pmd bond update th) = tt_send_ports th"
  "tx_thread_ok ports (dp_netdev_add_bond_tx_to_pmd bond update th) = tx_thread_ok ports th"
  "assigned_ok ports (dp_netdev_add_bond_tx_to_pmd bond update th) = assigned_ok ports th"
  "tt_send_ports (dp_netdev_del_bond_tx_from_pmd b th) = tt_send_ports th"
  "tx_thread_ok ports (dp_netdev_del_bond_tx_from_pmd b th) = tx_thread_ok ports th"
  "assigned_ok ports (dp_netdev_del_bond_tx_from_pmd b th) = assigned_ok ports th"
  "synced ports (dp_netdev_add_bond_tx_to_pmd bond update th) = synced ports th"
  "synced ports (dp_netdev_del_bond_tx_from_pmd b th) = synced ports th"
  by (simp_all add: dp_netdev_add_bond_tx_to_pmd_def dp_netdev_del_bond_tx_from_pmd_def tx_thread_ok_def assigned_ok_def synced_def
      split: option.splits)

section \<open>Every step keeps the invariant\<close>

lemma tx_sys_okD:
  assumes "tx_sys_ok X y"
  shows "t < length (sx_threads y) \<Longrightarrow> tx_all_ok X (sx_ports y) (sx_threads y ! t)"
    and "p < length (sx_ports y) \<Longrightarrow> length (po_txq_used (sx_ports y ! p)) = po_n_txq (sx_ports y ! p)"
    and "p < length (sx_ports y) \<Longrightarrow> q < po_n_txq (sx_ports y ! p) \<Longrightarrow>
      po_txq_used (sx_ports y ! p) ! q = of_nat (all_users y p q)"
    and "sends_valid (sx_state y)"
  using assms by (simp_all add: tx_sys_ok_def)

lemma focus_simps [simp]:
  "ts_thread (focus t y) = sx_threads y ! t" "ts_ports (focus t y) = sx_ports y" "ts_sends (focus t y) = ts_sends (sx_state y)"
  "sx_threads (unfocus t s y) = (sx_threads y)[t := ts_thread s]" "sx_state (unfocus t s y) = s"
  "sends_valid (focus t y) = sends_valid (sx_state y)"
  by (simp_all add: focus_def unfocus_def)

lemma thread_acts_ok:
  assumes X: "tx_env_ok X" and y: "tx_sys_ok X y" and t: "t < length (sx_threads y)" and op: "tx_op_allowed op"
    and r: "run_tx_op X op (focus t y) = Inr s'"
  shows "tx_sys_ok X (unfocus t s' y)"
proof -
  have ok: "tx_all_ok X (ts_ports (focus t y)) (ts_thread (focus t y))" using tx_sys_okD(1) [OF y t] by simp
  have d: "tx_op_done X (focus t y) s'" using run_tx_op_law [OF X ok op] r by simp
  have shape: "shape (ts_ports s') = shape (sx_ports y)" using d by (simp add: tx_op_done_def)
  have moves: "thread_moves X (sx_ports y) (sx_threads y ! t) (ts_ports s') (ts_thread s')"
    using X op ok r unfolding thread_moves_def by (metis focus_simps(1,2))
  have len: "length (ts_ports s') = length (sx_ports y)" by (rule shape_eqD(1) [OF shape])
  have port: "length (po_txq_used (ts_ports s' ! p)) = po_n_txq (ts_ports s' ! p) \<and>
      (\<forall>q<po_n_txq (ts_ports s' ! p). po_txq_used (ts_ports s' ! p) ! q = of_nat (all_users (unfocus t s' y) p q))"
    if p: "p < length (sx_ports y)" for p
  proof -
    note st = port_shape_eqD(2,4) [OF shape_eqD(2) [OF shape p]]
    have "po_txq_used (ts_ports s' ! p) ! q = of_nat (all_users (unfocus t s' y) p q)" if "q < po_n_txq (sx_ports y ! p)" for q
      using xps.counter_is_sum [OF moves t, of "(p, q)"] tx_sys_okD(3) [OF y p that]
      by (simp add: all_users_shares)
    then show ?thesis using st tx_sys_okD(2) [OF y p] by simp
  qed
  have "tx_all_ok X (ts_ports s') th" if "th \<in> set ((sx_threads y)[t := ts_thread s'])" for th
    using set_update_subset_insert [THEN subsetD, OF that] d tx_all_ok_shape [OF shape] y
    by (auto simp: tx_op_done_def tx_sys_ok_def)
  then show ?thesis using port len d y by (simp add: tx_sys_ok_def tx_op_done_def)
qed

text \<open>A step that leaves the caches and the ports as they are.\<close>

lemma threads_only_ok:
  assumes y: "tx_sys_ok X y" and t: "t < length (sx_threads y)" and th: "tx_all_ok X (sx_ports y) th"
    and same: "tt_send_ports th = tt_send_ports (sx_threads y ! t)"
    and s: "ts_ports s = sx_ports y" "sends_valid s"
  shows "tx_sys_ok X \<lparr>sx_threads = (sx_threads y)[t := th], sx_state = s\<rparr>"
proof -
  have "map (\<lambda>th. txq_users p q (tt_send_ports th)) ((sx_threads y)[t := th]) =
      map (\<lambda>th. txq_users p q (tt_send_ports th)) (sx_threads y)" for p q
    using same by (simp add: map_list_update_same)
  then have "all_users \<lparr>sx_threads = (sx_threads y)[t := th], sx_state = s\<rparr> p q = all_users y p q" for p q
    unfolding all_users_def by simp
  moreover have "\<forall>u\<in>set ((sx_threads y)[t := th]). tx_all_ok X (sx_ports y) u"
    using y th by (auto simp: tx_sys_ok_def dest!: set_update_subset_insert [THEN subsetD])
  ultimately show ?thesis using y s by (simp add: tx_sys_ok_def)
qed

lemma sx_threads_eta: "y\<lparr>sx_threads := a\<rparr> = \<lparr>sx_threads = a, sx_state = sx_state y\<rparr>"
  by (cases y) simp

text \<open>A step that changes the ports.\<close>

lemma unused_no_users:
  assumes "port_unused p y"
  shows "all_users y p q = 0"
proof (rule all_users_other)
  fix th assume "th \<in> set (sx_threads y)"
  then have "p \<notin> set (map tp_port (tt_send_ports th))" using assms by (simp add: port_unused_def)
  then show "txq_users p q (tt_send_ports th) = 0" by (auto simp: txq_users_def filter_empty_conv)
qed

lemma reconfigure_port_ok:
  assumes y: "tx_sys_ok X y" and p: "p < length (sx_ports y)" and u: "port_unused p y" and f: "fresh_port port"
  shows "tx_sys_ok X (y\<lparr>sx_state := (sx_state y)\<lparr>ts_ports := (sx_ports y)[p := port]\<rparr>\<rparr>)"
proof -
  let ?y = "y\<lparr>sx_state := (sx_state y)\<lparr>ts_ports := (sx_ports y)[p := port]\<rparr>\<rparr>"
  have users: "all_users ?y = all_users y" by (simp add: all_users_def fun_eq_iff)
  have "tx_all_ok X ((sx_ports y)[p := port]) th" if "th \<in> set (sx_threads y)" for th
  proof (rule tx_all_ok_cong)
    show "tx_all_ok X (sx_ports y) th" using y that by (simp add: tx_sys_ok_def)
  qed (use u that p in \<open>auto simp: port_unused_def nth_list_update\<close>)
  moreover have "length (po_txq_used ((sx_ports y)[p := port] ! r)) = po_n_txq ((sx_ports y)[p := port] ! r) \<and>
      (\<forall>q<po_n_txq ((sx_ports y)[p := port] ! r). po_txq_used ((sx_ports y)[p := port] ! r) ! q = of_nat (all_users y r q))"
    if "r < length (sx_ports y)" for r
    using f unused_no_users [OF u] tx_sys_okD(2,3) [OF y that] that
    by (cases "r = p") (simp_all add: fresh_port_def)
  moreover have "sends_valid (sx_state ?y)"
    using tx_sys_okD(4) [OF y] by simp
  ultimately show ?thesis by (simp add: tx_sys_ok_def users)
qed

lemma new_port_ok:
  assumes y: "tx_sys_ok X y" and f: "fresh_port port"
  shows "tx_sys_ok X (y\<lparr>sx_state := (sx_state y)\<lparr>ts_ports := sx_ports y @ [port]\<rparr>\<rparr>)"
proof -
  let ?y = "y\<lparr>sx_state := (sx_state y)\<lparr>ts_ports := sx_ports y @ [port]\<rparr>\<rparr>"
  have users: "all_users ?y = all_users y" by (simp add: all_users_def fun_eq_iff)
  have "all_users y (length (sx_ports y)) q = 0" for q
  proof (rule all_users_other)
    fix th assume "th \<in> set (sx_threads y)"
    then have "\<forall>tx\<in>set (tt_send_ports th). tp_port tx < length (sx_ports y)"
      using y by (auto simp: tx_sys_ok_def tx_all_ok_def tx_thread_ok_def dest: tx_port_okD(1))
    then show "txq_users (length (sx_ports y)) q (tt_send_ports th) = 0" by (auto simp: txq_users_def filter_empty_conv)
  qed
  moreover have "tx_all_ok X (sx_ports y @ [port]) th" if "th \<in> set (sx_threads y)" for th
  proof (rule tx_all_ok_cong)
    show "tx_all_ok X (sx_ports y) th" using y that by (simp add: tx_sys_ok_def)
  qed (auto simp: nth_append)
  moreover have "sends_valid (sx_state ?y)" using tx_sys_okD(4) [OF y] by simp
  ultimately show ?thesis using f tx_sys_okD(2,3) [OF y]
    by (auto simp: tx_sys_ok_def users fresh_port_def nth_append less_Suc_eq)
qed

lemma flag_port_ok:
  assumes y: "tx_sys_ok X y" and p: "p < length (sx_ports y)"
  shows "tx_sys_ok X (y\<lparr>sx_state := (sx_state y)\<lparr>ts_ports := (sx_ports y)[p := (sx_ports y ! p)\<lparr>
    po_need_reconfigure := need, po_listed := listed, po_requested_mode := req\<rparr>]\<rparr>\<rparr>)"
proof -
  let ?port = "(sx_ports y ! p)\<lparr>po_need_reconfigure := need, po_listed := listed, po_requested_mode := req\<rparr>"
  let ?y = "y\<lparr>sx_state := (sx_state y)\<lparr>ts_ports := (sx_ports y)[p := ?port]\<rparr>\<rparr>"
  have users: "all_users ?y = all_users y" by (simp add: all_users_def fun_eq_iff)
  have "tx_all_ok X ((sx_ports y)[p := ?port]) th" if "th \<in> set (sx_threads y)" for th
  proof (rule tx_all_ok_cong)
    show "tx_all_ok X (sx_ports y) th" using y that by (simp add: tx_sys_ok_def)
  qed (use p in \<open>auto simp: nth_list_update\<close>)
  moreover have "sends_valid (sx_state ?y)" using tx_sys_okD(4) [OF y] by simp
  ultimately show ?thesis using tx_sys_okD(2,3) [OF y] p
    by (simp add: tx_sys_ok_def users nth_list_update)
qed

text \<open>Threads come and go.\<close>

lemma start_thread_ok:
  assumes y: "tx_sys_ok X y"
  shows "tx_sys_ok X (y\<lparr>sx_threads := sx_threads y @ [new_tx_thread now qid]\<rparr>)"
proof -
  let ?y = "y\<lparr>sx_threads := sx_threads y @ [new_tx_thread now qid]\<rparr>"
  have "all_users ?y p q = all_users y p q" for p q by (simp add: all_users_def new_tx_thread_def)
  moreover have "tx_all_ok X (sx_ports y) (new_tx_thread now qid)"
    by (simp add: tx_all_ok_def tx_thread_ok_def assigned_ok_def bonds_ok_def synced_def new_tx_thread_def)
  ultimately show ?thesis using y by (simp add: tx_sys_ok_def)
qed

lemma del_pmd_law:
  assumes X: "tx_env_ok X" and y: "tx_sys_ok X y" and t: "t < length (sx_threads y)"
  shows "\<exists>y'. dp_netdev_del_pmd X t y = Inr y' \<and> tx_sys_ok X y' \<and> shape (sx_ports y') = shape (sx_ports y) \<and>
    sx_threads y' = take t (sx_threads y) @ drop (Suc t) (sx_threads y) \<and>
    (\<forall>p h. filter (\<lambda>pk. tx_hash X pk = h) (sent_on (sx_state y') p) = flow_stream X (focus t y) p h)"
proof -
  have ok: "tx_ok (focus t y)" "assigned_ok (ts_ports (focus t y)) (ts_thread (focus t y))"
    using tx_sys_okD(1) [OF y t] by (simp_all add: tx_all_ok_def tx_ok_def)
  from free_cached_ports_law [OF X ok] obtain s where
    f: "pmd_free_cached_ports X (focus t y) = Inr s" "shape (ts_ports s) = shape (sx_ports y)"
      "txq_balance (ts_ports s) [] = txq_balance (sx_ports y) (tt_send_ports (sx_threads y ! t))"
      "\<forall>p h. filter (\<lambda>pk. tx_hash X pk = h) (sent_on s p) = flow_stream X (focus t y) p h"
      "sends_valid (sx_state y) \<longrightarrow> sends_valid s"
    by auto
  let ?ths = "take t (sx_threads y) @ drop (Suc t) (sx_threads y)"
  let ?y = "\<lparr>sx_threads = ?ths, sx_state = s\<rparr>"
  have split: "sx_threads y = take t (sx_threads y) @ sx_threads y ! t # drop (Suc t) (sx_threads y)"
    using t by (rule id_take_nth_drop)
  have users: "all_users y p q = all_users ?y p q + txq_users p q (tt_send_ports (sx_threads y ! t))" for p q
    unfolding all_users_def by (subst split) simp
  have port: "length (po_txq_used (ts_ports s ! p)) = po_n_txq (ts_ports s ! p) \<and>
      (\<forall>q<po_n_txq (ts_ports s ! p). po_txq_used (ts_ports s ! p) ! q = of_nat (all_users ?y p q))"
    if p: "p < length (sx_ports y)" for p
  proof -
    note st = port_shape_eqD(2,4) [OF shape_eqD(2) [OF f(2) p]]
    have "po_txq_used (ts_ports s ! p) ! q = of_nat (all_users ?y p q)" if "q < po_n_txq (sx_ports y ! p)" for q
      using fun_cong [OF fun_cong [OF f(3)], of p q] tx_sys_okD(3) [OF y p that] users [of p q]
      by (simp add: txq_balance_def)
    then show ?thesis using st tx_sys_okD(2) [OF y p] by simp
  qed
  have "set ?ths \<subseteq> set (sx_threads y)" by (auto dest: in_set_takeD in_set_dropD)
  then have "\<forall>th\<in>set ?ths. tx_all_ok X (ts_ports s) th"
    using y tx_all_ok_shape [OF f(2)] unfolding tx_sys_ok_def by blast
  then have "tx_sys_ok X ?y" using port f(5) shape_eqD(1) [OF f(2)] tx_sys_okD(4) [OF y] by (simp add: tx_sys_ok_def)
  then show ?thesis using f by (simp add: dp_netdev_del_pmd_def)
qed

lemma new_own_queue_ok:
  assumes y: "tx_sys_ok X y" and t: "t < length (sx_threads y)" and q: "own_queue_fits (sx_ports y) qid (sx_threads y ! t)"
  shows "tx_sys_ok X (y\<lparr>sx_threads := (sx_threads y)[t := (sx_threads y ! t)\<lparr>tt_static_tx_qid := qid\<rparr>]\<rparr>)"
proof -
  let ?th = "(sx_threads y ! t)\<lparr>tt_static_tx_qid := qid\<rparr>"
  note ok = tx_sys_okD(1) [OF y t]
  have "0 < po_n_txq (sx_ports y ! tp_port tx)" if "tx \<in> set (tt_send_ports (sx_threads y ! t))" for tx
    using ok that by (auto simp: tx_all_ok_def tx_thread_ok_def dest: tx_port_okD(2))
  then have "tx_thread_ok (sx_ports y) ?th" using ok q by (auto simp: tx_all_ok_def tx_thread_ok_def own_queue_fits_def)
  moreover have "assigned_ok (sx_ports y) ?th"
    using ok q by (auto simp: tx_all_ok_def assigned_ok_def template_ok_def own_queue_fits_def Let_def)
  ultimately have "tx_all_ok X (sx_ports y) ?th"
    using ok by (simp add: tx_all_ok_def bonds_ok_def synced_def)
  then have "tx_sys_ok X \<lparr>sx_threads = (sx_threads y)[t := ?th], sx_state = sx_state y\<rparr>"
    using y t tx_sys_okD(4) by (intro threads_only_ok) simp_all
  then show ?thesis by (simp add: sx_threads_eta)
qed

lemma tx_sys_step_ok:
  assumes X: "tx_env_ok X"
  shows "tx_sys_step X y y' \<Longrightarrow> tx_sys_ok X y \<Longrightarrow> tx_sys_ok X y'"
proof (induction rule: tx_sys_step.induct)
  case (thread_acts t y op s')
  then show ?case using thread_acts_ok [OF X] by blast
next
  case (assign_port t y p s')
  have ok: "tx_all_ok X (ts_ports (focus t y)) (ts_thread (focus t y))"
    using tx_sys_okD(1) [OF assign_port.prems assign_port.hyps(1)] by simp
  from add_port_law [OF ok, of p] assign_port tx_sys_okD(2) [OF assign_port.prems]
  obtain txs b where s': "s' = (focus t y)\<lparr>ts_thread := (sx_threads y ! t)\<lparr>tt_tx_ports := txs, tt_need_reload := b\<rparr>\<rparr>"
    "tx_all_ok X (sx_ports y) ((sx_threads y ! t)\<lparr>tt_tx_ports := txs, tt_need_reload := b\<rparr>)"
    by auto
  have "sends_valid s'" using tx_sys_okD(4) [OF assign_port.prems] by (simp add: s'(1))
  then show ?case unfolding unfocus_def
    using assign_port s' by (intro threads_only_ok) simp_all
next
  case (remove_stale t y th)
  have "tx_all_ok X (sx_ports y) th \<and> tt_send_ports th = tt_send_ports (sx_threads y ! t)"
    using remove_stale_law [OF tx_sys_okD(1) [OF remove_stale.prems remove_stale.hyps(1)]] remove_stale.hyps(2) by auto
  then have "tx_sys_ok X \<lparr>sx_threads = (sx_threads y)[t := th], sx_state = sx_state y\<rparr>"
    using remove_stale tx_sys_okD(4) by (intro threads_only_ok) simp_all
  then show ?case by (simp add: sx_threads_eta)
next
  case (add_bond t y bond update)
  let ?th = "dp_netdev_add_bond_tx_to_pmd bond update (sx_threads y ! t)"
  have "tx_all_ok X (sx_ports y) ?th"
    using tx_sys_okD(1) [OF add_bond.prems add_bond.hyps(1)] bonds_ok_add [OF _ add_bond.hyps(2)]
    by (simp add: tx_all_ok_def bond_only)
  then have "tx_sys_ok X \<lparr>sx_threads = (sx_threads y)[t := ?th], sx_state = sx_state y\<rparr>"
    using add_bond tx_sys_okD(4) by (intro threads_only_ok) (simp_all add: bond_only)
  then show ?case by (simp add: sx_threads_eta)
next
  case (del_bond t y bond_id)
  let ?th = "dp_netdev_del_bond_tx_from_pmd bond_id (sx_threads y ! t)"
  have "tx_all_ok X (sx_ports y) ?th"
    using tx_sys_okD(1) [OF del_bond.prems del_bond.hyps(1)] bonds_ok_del by (simp add: tx_all_ok_def bond_only)
  then have "tx_sys_ok X \<lparr>sx_threads = (sx_threads y)[t := ?th], sx_state = sx_state y\<rparr>"
    using del_bond tx_sys_okD(4) by (intro threads_only_ok) (simp_all add: bond_only)
  then show ?case by (simp add: sx_threads_eta)
next
  case (flag_port p y need listed req)
  then show ?case by (intro flag_port_ok)
next
  case (reconfigure_port p y port)
  then show ?case by (intro reconfigure_port_ok)
next
  case (new_port port y)
  then show ?case by (intro new_port_ok)
next
  case (start_thread y now qid)
  then show ?case by (intro start_thread_ok)
next
  case (end_thread t y y')
  then show ?case using del_pmd_law [OF X] by fastforce
next
  case (new_own_queue t y qid)
  then show ?case by (intro new_own_queue_ok)
qed

lemma tx_sys_run_ok:
  assumes "tx_env_ok X" and "(tx_sys_step X)\<^sup>*\<^sup>* y y'" and "tx_sys_ok X y"
  shows "tx_sys_ok X y'"
  using assms(2,3) by (induction rule: rtranclp_induct) (auto intro: tx_sys_step_ok [OF assms(1)])

text \<open>A cached port belongs to one queue, so a queue has at most as many users as there are threads.\<close>

lemma txq_users_le_one:
  "distinct (map tp_port txs) \<Longrightarrow> txq_users p q txs \<le> 1"
proof (induction txs)
  case (Cons tx txs)
  have "txq_users (tp_port tx) q txs = 0"
    using Cons.prems by (auto simp: txq_users_def filter_empty_conv image_iff)
  then show ?case using Cons by auto
qed simp

lemma all_users_le:
  assumes "tx_sys_ok X y"
  shows "all_users y p q \<le> length (sx_threads y)"
proof -
  have "\<forall>th\<in>set (sx_threads y). distinct (map tp_port (tt_send_ports th))"
    using assms by (simp add: tx_sys_ok_def tx_all_ok_def tx_thread_ok_def)
  then have "\<forall>th\<in>set (sx_threads y). txq_users p q (tt_send_ports th) \<le> 1"
    using txq_users_le_one by blast
  then have "sum_list (map (\<lambda>th. txq_users p q (tt_send_ports th)) (sx_threads y)) \<le> length (sx_threads y) * 1"
    using sum_list_mono [of "sx_threads y" "\<lambda>th. txq_users p q (tt_send_ports th)" "\<lambda>_. 1"]
    by (simp add: sum_list_triv)
  then show ?thesis by (simp add: all_users_def)
qed

end
