(* ===== verification/Dpif_Tx_Bonds.thy ===== *)
theory Dpif_Tx_Bonds
  imports Dpif_Tx_Bond
begin

text \<open>
  The bonds of the datapath and their copies in the threads: what an update and a removal do to
  the copies, and what the statistics of a bond add up.
\<close>

section \<open>Buckets\<close>

lemma copy_member_stats_ids [simp]: "map me_member_id (copy_member_stats olds news) = map me_member_id news"
  by (induction olds news rule: copy_member_stats.induct) simp_all

lemma copy_member_stats_counters:
  "length olds = length news \<Longrightarrow>
     map me_n_bytes (copy_member_stats olds news) = map me_n_bytes olds \<and>
     map me_n_packets (copy_member_stats olds news) = map me_n_packets olds"
  by (induction olds news rule: copy_member_stats.induct) simp_all

lemma add_bond_bytes_nth:
  "length ms = length ns \<Longrightarrow> k < length ns \<Longrightarrow>
     add_bond_bytes ms ns ! k = ns ! k + me_n_bytes (ms ! k)"
proof (induction ms ns arbitrary: k rule: add_bond_bytes.induct)
  case (1 m ms n ns)
  then show ?case by (cases k) simp_all
qed simp_all

lemma length_add_bond_bytes [simp]: "length (add_bond_bytes ms ns) = length ns"
  by (induction ms ns rule: add_bond_bytes.induct) simp_all

section \<open>The copy of a bond in a thread\<close>

text \<open>The buckets that a thread has for a bond, if it knows it.\<close>

definition bond_buckets :: "u32 \<Rightarrow> tx_thread \<Rightarrow> member_entry list option" where
  "bond_buckets bond_id th =
     map_option (\<lambda>i. bo_member_buckets (tt_bonds th ! i)) (tx_bond_lookup (tt_bonds th) bond_id)"

text \<open>The bytes that a thread has counted for a bucket.\<close>

definition bond_bytes :: "u32 \<Rightarrow> nat \<Rightarrow> tx_thread \<Rightarrow> u64" where
  "bond_bytes bond_id k th = (case bond_buckets bond_id th of None \<Rightarrow> 0 | Some ms \<Rightarrow> me_n_bytes (ms ! k))"

definition bonds_sized :: "u32 \<Rightarrow> nat \<Rightarrow> tx_thread list \<Rightarrow> bool" where
  "bonds_sized bond_id n threads \<longleftrightarrow>
     (\<forall>th\<in>set threads. case bond_buckets bond_id th of None \<Rightarrow> True | Some ms \<Rightarrow> length ms = n)"

definition bonds_distinct :: "tx_thread \<Rightarrow> bool" where
  "bonds_distinct th \<longleftrightarrow> distinct (map bo_id (tt_bonds th))"

lemma bond_lookup_SomeD:
  "tx_bond_lookup bonds b = Some i \<Longrightarrow> i < length bonds \<and> bo_id (bonds ! i) = b"
  using find_index_from_SomeD [of 0 "\<lambda>x. bo_id x = b" bonds i] by (simp add: tx_bond_lookup_def)

lemma bond_lookup_None: "tx_bond_lookup bonds b = None \<longleftrightarrow> (\<forall>x\<in>set bonds. bo_id x \<noteq> b)"
  by (simp add: tx_bond_lookup_def)

lemma bond_lookup_ids:
  "map bo_id bonds' = map bo_id bonds \<Longrightarrow> tx_bond_lookup bonds' b = tx_bond_lookup bonds b"
  unfolding tx_bond_lookup_def
proof (induction bonds arbitrary: bonds')
  case (Cons x xs)
  have "find_index_from k (\<lambda>c. bo_id c = b) ys = find_index_from k (\<lambda>c. c = b) (map bo_id ys)" for k ys
    by (simp add: find_index_from_map comp_def)
  then show ?case using Cons.prems by metis
qed simp

lemma find_index_from_append:
  "find_index_from k P xs = None \<Longrightarrow> P y \<Longrightarrow> find_index_from k P (xs @ [y]) = Some (k + length xs)"
  by (induction xs arbitrary: k) (auto split: if_splits)

lemma add_bond_updates:
  assumes "bonds_sized (bo_id bond) (length (bo_member_buckets bond)) [th]"
    and "\<forall>m\<in>set (bo_member_buckets bond). me_n_packets m = 0 \<and> me_n_bytes m = 0"
  shows "\<exists>ms. bond_buckets (bo_id bond) (dp_netdev_add_bond_tx_to_pmd bond True th) = Some ms \<and>
    map me_member_id ms = map me_member_id (bo_member_buckets bond) \<and>
    map me_n_bytes ms = (case bond_buckets (bo_id bond) th of
        Some olds \<Rightarrow> map me_n_bytes olds | None \<Rightarrow> replicate (length (bo_member_buckets bond)) 0)"
proof (cases "tx_bond_lookup (tt_bonds th) (bo_id bond)")
  case None
  then have e: "tt_bonds (dp_netdev_add_bond_tx_to_pmd bond True th) = tt_bonds th @ [bond]"
    by (simp add: dp_netdev_add_bond_tx_to_pmd_def)
  have "tx_bond_lookup (tt_bonds th @ [bond]) (bo_id bond) = Some (length (tt_bonds th))"
    using None find_index_from_append [of 0 "\<lambda>c. bo_id c = bo_id bond" "tt_bonds th" bond] by (simp only: tx_bond_lookup_def) simp
  then have "bond_buckets (bo_id bond) (dp_netdev_add_bond_tx_to_pmd bond True th) = Some (bo_member_buckets bond)"
    by (simp add: bond_buckets_def e)
  moreover have "map me_n_bytes (bo_member_buckets bond) = replicate (length (bo_member_buckets bond)) 0"
    using assms(2) by (simp add: map_replicate_const [symmetric])
  moreover have "bond_buckets (bo_id bond) th = None" using None by (simp add: bond_buckets_def)
  ultimately show ?thesis by simp
next
  case (Some i)
  note i = bond_lookup_SomeD [OF Some]
  let ?olds = "bo_member_buckets (tt_bonds th ! i)"
  let ?new = "bond\<lparr>bo_member_buckets := copy_member_stats ?olds (bo_member_buckets bond)\<rparr>"
  have "map bo_id ((tt_bonds th)[i := ?new]) = map bo_id (tt_bonds th)"
    using i by (simp add: map_update) (metis list_update_id length_map nth_map)
  then have "tx_bond_lookup ((tt_bonds th)[i := ?new]) (bo_id bond) = Some i" using Some bond_lookup_ids by metis
  moreover have "length ?olds = length (bo_member_buckets bond)"
    using assms(1) Some by (simp add: bonds_sized_def bond_buckets_def)
  ultimately show ?thesis using Some i copy_member_stats_counters
    by (simp add: bond_buckets_def dp_netdev_add_bond_tx_to_pmd_def)
qed

lemma del_bond_removes:
  assumes "bonds_distinct th"
  shows "bond_buckets bond_id (dp_netdev_del_bond_tx_from_pmd bond_id th) = None"
proof (cases "tx_bond_lookup (tt_bonds th) bond_id")
  case None
  then show ?thesis by (simp add: bond_buckets_def dp_netdev_del_bond_tx_from_pmd_def)
next
  case (Some i)
  note i = bond_lookup_SomeD [OF Some]
  have "distinct (map bo_id (take i (tt_bonds th)) @ bo_id (tt_bonds th ! i) # map bo_id (drop (Suc i) (tt_bonds th)))"
    using assms i id_take_nth_drop [of i "tt_bonds th"] unfolding bonds_distinct_def
    by (metis list.simps(9) map_append)
  then have "bond_id \<notin> bo_id ` set (take i (tt_bonds th) @ drop (Suc i) (tt_bonds th))"
    using i by auto
  then have "\<forall>x\<in>set (take i (tt_bonds th) @ drop (Suc i) (tt_bonds th)). bo_id x \<noteq> bond_id"
    by blast
  then have "tx_bond_lookup (take i (tt_bonds th) @ drop (Suc i) (tt_bonds th)) bond_id = None"
    unfolding bond_lookup_None .
  then show ?thesis using Some by (simp add: bond_buckets_def dp_netdev_del_bond_tx_from_pmd_def)
qed

section \<open>Statistics\<close>

lemma sum_bond_bytes_law:
  assumes "bonds_sized bond_id (length ns) threads"
  shows "length (sum_bond_bytes bond_id threads ns) = length ns \<and>
    (\<forall>k<length ns. sum_bond_bytes bond_id threads ns ! k = ns ! k + sum_list (map (bond_bytes bond_id k) threads))"
  using assms
proof (induction threads arbitrary: ns)
  case (Cons th threads)
  let ?ns = "case tx_bond_lookup (tt_bonds th) bond_id of None \<Rightarrow> ns
    | Some i \<Rightarrow> add_bond_bytes (bo_member_buckets (tt_bonds th ! i)) ns"
  have l: "length ?ns = length ns" by (simp split: option.splits)
  have "bonds_sized bond_id (length ?ns) threads" using Cons.prems unfolding l by (simp add: bonds_sized_def)
  note r = Cons.IH [OF this, unfolded l]
  have "?ns ! k = ns ! k + bond_bytes bond_id k th" if "k < length ns" for k
    using Cons.prems that by (auto simp: bond_bytes_def bond_buckets_def bonds_sized_def add_bond_bytes_nth split: option.splits)
  then show ?case using r by (simp add: add.assoc)
qed simp

end
