(* ===== verification/Dpif_Tx_Config.thy ===== *)
theory Dpif_Tx_Config
  imports Dpif_Tx_System Dpif_Tx_Bonds
begin

text \<open>
  What \<open>reconfigure_datapath\<close> does to the transmission side: it finds the ports whose
  configuration or mode has to change, takes them away from the threads, reloads these, applies
  the configuration, chooses the mode, and assigns the ports again.
\<close>

section \<open>Ports\<close>

definition ERR_EOPNOTSUPP :: int where "ERR_EOPNOTSUPP = 95"

text \<open>
  What the devices answer, by the position of the port: \<open>netdev_is_reconf_required\<close>,
  \<open>netdev_reconfigure\<close> (its error, and \<open>netdev_n_txq\<close> afterwards), the first error of
  \<open>netdev_rxq_open\<close> (0 where all queues open).
\<close>

record netdev_answers =
  na_reconf_required :: "nat \<Rightarrow> bool"
  na_reconfigure :: "nat \<Rightarrow> int \<times> nat"
  na_rxq_open :: "nat \<Rightarrow> int"

text \<open>Whether a port must not be used any longer as it is (second step of \<open>reconfigure_datapath\<close>).\<close>

definition port_mode_stale :: "nat \<Rightarrow> tx_dev_port \<Rightarrow> bool" where
  "port_mode_stale wanted_txqs port \<longleftrightarrow>
     ((po_mode port = TXQ_MODE_XPS) \<noteq> (po_n_txq port < wanted_txqs)) \<or>
     ((po_mode port = TXQ_MODE_XPS_HASH) \<noteq> (po_requested_mode port = TXQ_REQ_MODE_HASH \<and> 1 < po_n_txq port))"

definition mark_port :: "netdev_answers \<Rightarrow> nat \<Rightarrow> nat \<Rightarrow> tx_dev_port \<Rightarrow> tx_dev_port" where
  "mark_port N wanted_txqs p port =
     (if po_listed port \<and> (na_reconf_required N p \<or> port_mode_stale wanted_txqs port)
      then port\<lparr>po_need_reconfigure := True\<rparr> else port)"

definition choose_txq_mode :: "nat \<Rightarrow> tx_dev_port \<Rightarrow> txq_mode" where
  "choose_txq_mode wanted_txqs port =
     (if po_requested_mode port = TXQ_REQ_MODE_HASH \<and> 1 < po_n_txq port then TXQ_MODE_XPS_HASH
      else if po_n_txq port < wanted_txqs then TXQ_MODE_XPS
      else TXQ_MODE_STATIC)"

text \<open>The transmission part of \<open>port_reconfigure\<close>, with its error.\<close>

definition port_reconfigure :: "netdev_answers \<Rightarrow> nat \<Rightarrow> tx_dev_port \<Rightarrow> int \<times> tx_dev_port" where
  "port_reconfigure N p port =
     (let required = na_reconf_required N p \<or> po_need_reconfigure port;
          (err, n_txq) = (if required then na_reconfigure N p else (0, po_n_txq port))
      in if err \<noteq> 0 \<and> err \<noteq> ERR_EOPNOTSUPP then (err, port)
         else let port = port\<lparr>po_n_txq := n_txq, po_txq_used := replicate n_txq 0\<rparr>
              in if na_rxq_open N p \<noteq> 0 then (na_rxq_open N p, port)
                 else (0, port\<lparr>po_need_reconfigure := False\<rparr>))"

text \<open>The third step for one port: a port that cannot be reconfigured is removed.\<close>

definition reconfigure_one :: "netdev_answers \<Rightarrow> nat \<Rightarrow> nat \<Rightarrow> tx_dev_port \<Rightarrow> tx_dev_port" where
  "reconfigure_one N wanted_txqs p port =
     (if \<not> po_listed port \<or> \<not> po_need_reconfigure port then port
      else let (err, port) = port_reconfigure N p port
           in if err \<noteq> 0 then port\<lparr>po_listed := False\<rparr>
              else port\<lparr>po_mode := choose_txq_mode wanted_txqs port\<rparr>)"

section \<open>Threads\<close>

definition on_ports :: "(nat \<Rightarrow> tx_dev_port \<Rightarrow> tx_dev_port) \<Rightarrow> tx_sys \<Rightarrow> tx_sys" where
  "on_ports f y = y\<lparr>sx_state := (sx_state y)\<lparr>ts_ports :=
     map (\<lambda>p. f p (sx_ports y ! p)) [0..<length (sx_ports y)]\<rparr>\<rparr>"

text \<open>Stale ports are taken away from the threads in turn, from \<open>t\<close> on, with \<open>k\<close> to go.\<close>

fun remove_stale_threads :: "nat \<Rightarrow> nat \<Rightarrow> tx_sys \<Rightarrow> tx_sys c_result" where
  "remove_stale_threads t 0 y = Inr y"
| "remove_stale_threads t (Suc k) y =
     bindr (pmd_remove_stale_ports (sx_ports y) (sx_threads y ! t)) (\<lambda>th.
       remove_stale_threads (Suc t) k (y\<lparr>sx_threads := (sx_threads y)[t := th]\<rparr>))"

text \<open>\<open>reload_affected_pmds\<close>, which waits until every affected thread has reloaded.\<close>

fun reload_threads :: "tx_env \<Rightarrow> nat \<Rightarrow> nat \<Rightarrow> tx_sys \<Rightarrow> tx_sys c_result" where
  "reload_threads X t 0 y = Inr y"
| "reload_threads X t (Suc k) y =
     (if tt_need_reload (sx_threads y ! t)
      then bindr (run_tx_op X Op_Reload (focus t y)) (\<lambda>s. reload_threads X (Suc t) k (unfocus t s y))
      else reload_threads X (Suc t) k y)"

definition reload_affected_pmds :: "tx_env \<Rightarrow> tx_sys \<Rightarrow> tx_sys c_result" where
  "reload_affected_pmds X y = reload_threads X 0 (length (sx_threads y)) y"

text \<open>The listed ports are assigned to the thread \<open>t\<close>, from the one at \<open>p\<close> on, with \<open>k\<close> to go.\<close>

fun assign_ports :: "nat \<Rightarrow> nat \<Rightarrow> nat \<Rightarrow> tx_sys \<Rightarrow> tx_sys c_result" where
  "assign_ports t p 0 y = Inr y"
| "assign_ports t p (Suc k) y =
     (if po_listed (sx_ports y ! p)
      then bindr (dp_netdev_add_port_tx_to_pmd p (focus t y)) (\<lambda>s. assign_ports t (Suc p) k (unfocus t s y))
      else assign_ports t (Suc p) k y)"

text \<open>A thread that does not know a bond of the datapath gets a copy; the others are left as they are.\<close>

definition assign_bonds :: "tx_bond list \<Rightarrow> nat \<Rightarrow> tx_sys \<Rightarrow> tx_sys" where
  "assign_bonds bonds t y =
     y\<lparr>sx_threads := (sx_threads y)[t := fold (\<lambda>bond. dp_netdev_add_bond_tx_to_pmd bond False) bonds (sx_threads y ! t)]\<rparr>"

text \<open>\<open>busy t\<close>: the thread \<open>t\<close> has a queue to poll, or is the one for the ports without threads.\<close>

fun assign_threads :: "tx_bond list \<Rightarrow> (nat \<Rightarrow> bool) \<Rightarrow> nat \<Rightarrow> nat \<Rightarrow> tx_sys \<Rightarrow> tx_sys c_result" where
  "assign_threads bonds busy t 0 y = Inr y"
| "assign_threads bonds busy t (Suc k) y =
     bindr (if busy t
            then bindr (assign_ports t 0 (length (sx_ports y)) y) (\<lambda>y. Inr (assign_bonds bonds t y))
            else Inr y) (assign_threads bonds busy (Suc t) k)"

definition reconfigure_tx ::
    "tx_env \<Rightarrow> netdev_answers \<Rightarrow> tx_bond list \<Rightarrow> (nat \<Rightarrow> bool) \<Rightarrow> tx_sys \<Rightarrow> tx_sys c_result" where
  "reconfigure_tx X N bonds busy y =
     (let wanted_txqs = length (sx_threads y)
      in bindr (remove_stale_threads 0 (length (sx_threads y)) (on_ports (mark_port N wanted_txqs) y)) (\<lambda>y.
         bindr (reload_affected_pmds X y) (\<lambda>y.
         bindr (Inr (on_ports (reconfigure_one N wanted_txqs) y)) (\<lambda>y.
         bindr (assign_threads bonds busy 0 (length (sx_threads y)) y) (\<lambda>y.
           reload_affected_pmds X y)))))"

section \<open>Changing ports\<close>

lemma on_ports_simps [simp]:
  "sx_threads (on_ports f y) = sx_threads y" "length (sx_ports (on_ports f y)) = length (sx_ports y)"
  "p < length (sx_ports y) \<Longrightarrow> sx_ports (on_ports f y) ! p = f p (sx_ports y ! p)"
  by (simp_all add: on_ports_def)

lemma on_ports_ok:
  assumes y: "tx_sys_ok X y"
    and f: "\<And>p. p < length (sx_ports y) \<Longrightarrow>
      (let port = sx_ports y ! p; port' = f p port
       in po_mode port' = po_mode port \<and> po_n_txq port' = po_n_txq port \<and> po_txq_used port' = po_txq_used port \<or>
          port_unused p y \<and> (fresh_port port' \<or> po_n_txq port' = po_n_txq port \<and> po_txq_used port' = po_txq_used port))"
  shows "tx_sys_ok X (on_ports f y)"
proof -
  let ?y = "on_ports f y"
  have users: "all_users ?y = all_users y" by (simp add: all_users_def fun_eq_iff)
  have "tx_all_ok X (sx_ports ?y) th" if th: "th \<in> set (sx_threads y)" for th
  proof (rule tx_all_ok_cong)
    show "tx_all_ok X (sx_ports y) th" using y th by (simp add: tx_sys_ok_def)
    fix p assume p: "p < length (sx_ports y)" "p \<in> set (map tp_port (tt_send_ports th)) \<union> set (map tp_port (tt_tx_ports th))"
    then have "\<not> port_unused p y" using th by (auto simp: port_unused_def)
    then show "po_mode (sx_ports ?y ! p) = po_mode (sx_ports y ! p) \<and> po_n_txq (sx_ports ?y ! p) = po_n_txq (sx_ports y ! p) \<and>
        length (po_txq_used (sx_ports ?y ! p)) = length (po_txq_used (sx_ports y ! p))"
      using f [OF p(1)] p(1) by (simp add: Let_def)
  qed simp
  moreover have "length (po_txq_used (sx_ports ?y ! p)) = po_n_txq (sx_ports ?y ! p) \<and>
      (\<forall>q<po_n_txq (sx_ports ?y ! p). po_txq_used (sx_ports ?y ! p) ! q = of_nat (all_users y p q))"
    if p: "p < length (sx_ports y)" for p
  proof (cases "po_n_txq (f p (sx_ports y ! p)) = po_n_txq (sx_ports y ! p) \<and> po_txq_used (f p (sx_ports y ! p)) = po_txq_used (sx_ports y ! p)")
    case True
    then show ?thesis using tx_sys_okD(2,3) [OF y p] p by simp
  next
    case False
    then have "port_unused p y" "fresh_port (f p (sx_ports y ! p))" using f [OF p] by (auto simp: Let_def)
    then show ?thesis using unused_no_users p by (simp add: fresh_port_def)
  qed
  moreover have "sends_valid (sx_state ?y)" using tx_sys_okD(4) [OF y] by (simp add: on_ports_def)
  ultimately show ?thesis by (simp add: tx_sys_ok_def users)
qed

section \<open>The loops over the threads\<close>

lemma remove_stale_threads_law:
  assumes "tx_sys_ok X y" and "t + k = length (sx_threads y)"
  shows "\<exists>y'. remove_stale_threads t k y = Inr y' \<and> tx_sys_ok X y' \<and> sx_state y' = sx_state y \<and>
    length (sx_threads y') = length (sx_threads y) \<and>
    (\<forall>u<length (sx_threads y).
       tt_static_tx_qid (sx_threads y' ! u) = tt_static_tx_qid (sx_threads y ! u) \<and>
       (u < t \<longrightarrow> sx_threads y' ! u = sx_threads y ! u) \<and>
       (t \<le> u \<longrightarrow> (\<forall>tx\<in>set (tt_tx_ports (sx_threads y' ! u)). \<not> stale_port (sx_ports y ! tp_port tx))))"
  using assms
proof (induction k arbitrary: t y)
  case (Suc k)
  let ?th = "sx_threads y ! t"
  have t: "t < length (sx_threads y)" using Suc.prems(2) by simp
  from remove_stale_law [OF tx_sys_okD(1) [OF Suc.prems(1) t]] obtain b th where
    r: "th = ?th\<lparr>tt_tx_ports := filter (\<lambda>tx. \<not> stale_port (sx_ports y ! tp_port tx)) (tt_tx_ports ?th), tt_need_reload := b\<rparr>"
      "pmd_remove_stale_ports (sx_ports y) ?th = Inr th" "tx_all_ok X (sx_ports y) th"
    by blast
  let ?y = "y\<lparr>sx_threads := (sx_threads y)[t := th]\<rparr>"
  have "tx_sys_ok X \<lparr>sx_threads = (sx_threads y)[t := th], sx_state = sx_state y\<rparr>"
    using r tx_sys_okD(4) [OF Suc.prems(1)] by (intro threads_only_ok [OF Suc.prems(1) t]) simp_all
  then have "tx_sys_ok X ?y" by (simp add: sx_threads_eta)
  moreover have "Suc t + k = length (sx_threads ?y)" using Suc.prems(2) by simp
  ultimately obtain y' where i: "remove_stale_threads (Suc t) k ?y = Inr y'" "tx_sys_ok X y'" "sx_state y' = sx_state y"
      "length (sx_threads y') = length (sx_threads y)"
      "\<forall>u<length (sx_threads y).
         tt_static_tx_qid (sx_threads y' ! u) = tt_static_tx_qid ((sx_threads y)[t := th] ! u) \<and>
         (u < Suc t \<longrightarrow> sx_threads y' ! u = (sx_threads y)[t := th] ! u) \<and>
         (Suc t \<le> u \<longrightarrow> (\<forall>tx\<in>set (tt_tx_ports (sx_threads y' ! u)). \<not> stale_port (sx_ports y ! tp_port tx)))"
    using Suc.IH [of ?y "Suc t"] by auto
  have "tt_static_tx_qid (sx_threads y' ! u) = tt_static_tx_qid (sx_threads y ! u) \<and>
      (u < t \<longrightarrow> sx_threads y' ! u = sx_threads y ! u) \<and>
      (t \<le> u \<longrightarrow> (\<forall>tx\<in>set (tt_tx_ports (sx_threads y' ! u)). \<not> stale_port (sx_ports y ! tp_port tx)))"
    if u: "u < length (sx_threads y)" for u
    using i(5) [rule_format, OF u] u t r(1) by (cases "u = t") auto
  moreover have "remove_stale_threads t (Suc k) y = Inr y'" using r(2) i(1) by simp
  ultimately show ?case using i(2-4) by blast
qed auto

text \<open>What a reload leaves of a thread.\<close>

definition reloaded :: "tx_thread \<Rightarrow> tx_thread \<Rightarrow> bool" where
  "reloaded th th' \<longleftrightarrow> tt_tx_ports th' = tt_tx_ports th \<and> tt_static_tx_qid th' = tt_static_tx_qid th \<and>
     tt_bonds th' = tt_bonds th \<and> \<not> tt_need_reload th'"

lemma op_reload_law:
  assumes X: "tx_env_ok X" and y: "tx_sys_ok X y" and t: "t < length (sx_threads y)"
  shows "\<exists>s. run_tx_op X Op_Reload (focus t y) = Inr s \<and> tx_sys_ok X (unfocus t s y) \<and>
    shape (ts_ports s) = shape (sx_ports y) \<and> reloaded (sx_threads y ! t) (ts_thread s)"
proof -
  have ok: "tx_ok (focus t y)" "assigned_ok (ts_ports (focus t y)) (ts_thread (focus t y))"
    using tx_sys_okD(1) [OF y t] by (simp_all add: tx_ok_def tx_all_ok_def)
  from load_cached_ports_law [OF X ok] obtain s' where
    l: "pmd_load_cached_ports X (focus t y) = Inr s'" "shape (ts_ports s') = shape (sx_ports y)"
      "tt_static_tx_qid (ts_thread s') = tt_static_tx_qid (sx_threads y ! t)"
      "tt_tx_ports (ts_thread s') = tt_tx_ports (sx_threads y ! t)"
      "tt_bonds (ts_thread s') = tt_bonds (sx_threads y ! t)"
    by (auto simp: tx_side_def)
  let ?s = "s'\<lparr>ts_thread := (ts_thread s')\<lparr>tt_need_reload := False\<rparr>\<rparr>"
  have r: "run_tx_op X Op_Reload (focus t y) = Inr ?s" using l(1) by simp
  show ?thesis using thread_acts_ok [OF X y t _ r] r l(2-5) by (intro exI [of _ ?s]) (simp add: reloaded_def)
qed

text \<open>After a reload, every thread caches only ports that are assigned to it.\<close>

lemma reload_threads_law:
  assumes X: "tx_env_ok X" and "tx_sys_ok X y" and "t + k = length (sx_threads y)"
  shows "\<exists>y'. reload_threads X t k y = Inr y' \<and> tx_sys_ok X y' \<and> shape (sx_ports y') = shape (sx_ports y) \<and>
    length (sx_threads y') = length (sx_threads y) \<and>
    (\<forall>u<length (sx_threads y). if u < t then sx_threads y' ! u = sx_threads y ! u
       else reloaded (sx_threads y ! u) (sx_threads y' ! u))"
  using assms(2,3)
proof (induction k arbitrary: t y)
  case (Suc k)
  have t: "t < length (sx_threads y)" using Suc.prems(2) by simp
  have "\<exists>y1. reload_threads X t (Suc k) y = reload_threads X (Suc t) k y1 \<and> tx_sys_ok X y1 \<and>
      shape (sx_ports y1) = shape (sx_ports y) \<and> length (sx_threads y1) = length (sx_threads y) \<and>
      reloaded (sx_threads y ! t) (sx_threads y1 ! t) \<and> (\<forall>u. u \<noteq> t \<longrightarrow> sx_threads y1 ! u = sx_threads y ! u)"
  proof (cases "tt_need_reload (sx_threads y ! t)")
    case True
    from op_reload_law [OF X Suc.prems(1) t] obtain s where
      "run_tx_op X Op_Reload (focus t y) = Inr s" "tx_sys_ok X (unfocus t s y)" "shape (ts_ports s) = shape (sx_ports y)"
      "reloaded (sx_threads y ! t) (ts_thread s)"
      by blast
    then show ?thesis using True t by (intro exI [of _ "unfocus t s y"]) simp
  next
    case False
    then show ?thesis using Suc.prems(1) by (intro exI [of _ y]) (simp add: reloaded_def)
  qed
  then obtain y1 where r: "reload_threads X t (Suc k) y = reload_threads X (Suc t) k y1" "tx_sys_ok X y1"
    "shape (sx_ports y1) = shape (sx_ports y)" "length (sx_threads y1) = length (sx_threads y)"
    "reloaded (sx_threads y ! t) (sx_threads y1 ! t)" "\<forall>u. u \<noteq> t \<longrightarrow> sx_threads y1 ! u = sx_threads y ! u"
    by blast
  have "Suc t + k = length (sx_threads y1)" using Suc.prems(2) r(4) by simp
  from Suc.IH [OF r(2) this] obtain y' where
    i: "reload_threads X (Suc t) k y1 = Inr y'" "tx_sys_ok X y'" "shape (sx_ports y') = shape (sx_ports y1)"
      "length (sx_threads y') = length (sx_threads y1)"
      "\<forall>u<length (sx_threads y1). if u < Suc t then sx_threads y' ! u = sx_threads y1 ! u
         else reloaded (sx_threads y1 ! u) (sx_threads y' ! u)"
    by blast
  have "if u < t then sx_threads y' ! u = sx_threads y ! u else reloaded (sx_threads y ! u) (sx_threads y' ! u)"
    if u: "u < length (sx_threads y)" for u
    using i(5) [rule_format, of u] u r(4-6) by (cases "u = t") (auto split: if_splits)
  then show ?case using r(1,3,4) i(1-4) by (intro exI [of _ y']) simp
qed auto

section \<open>Assigning the ports\<close>

text \<open>A port that uses a queue per thread has one for the thread with the index \<open>q\<close>.\<close>

definition static_fits :: "tx_dev_port list \<Rightarrow> nat \<Rightarrow> bool" where
  "static_fits ports q \<longleftrightarrow> (\<forall>p<length ports. po_listed (ports ! p) \<and> po_mode (ports ! p) = TXQ_MODE_STATIC \<and>
     0 < po_n_txq (ports ! p) \<longrightarrow> q < po_n_txq (ports ! p))"

text \<open>What assigning ports to the thread \<open>t\<close> leaves.\<close>

definition assigned_to :: "nat \<Rightarrow> tx_sys \<Rightarrow> tx_sys \<Rightarrow> bool" where
  "assigned_to t y y' \<longleftrightarrow>
     sx_ports y' = sx_ports y \<and> length (sx_threads y') = length (sx_threads y) \<and>
     (\<forall>u. u \<noteq> t \<longrightarrow> sx_threads y' ! u = sx_threads y ! u) \<and>
     tt_static_tx_qid (sx_threads y' ! t) = tt_static_tx_qid (sx_threads y ! t) \<and>
     set (tt_tx_ports (sx_threads y ! t)) \<subseteq> set (tt_tx_ports (sx_threads y' ! t)) \<and>
     (\<forall>tx\<in>set (tt_tx_ports (sx_threads y' ! t)).
        tx \<in> set (tt_tx_ports (sx_threads y ! t)) \<or> po_listed (sx_ports y ! tp_port tx))"

lemma assigned_to_refl [simp]: "assigned_to t y y"
  by (simp add: assigned_to_def)

lemma assigned_to_trans: "assigned_to t x y \<Longrightarrow> assigned_to t y z \<Longrightarrow> assigned_to t x z"
  unfolding assigned_to_def by auto

text \<open>The port with the number of the one at \<open>p\<close> is assigned to the thread \<open>t\<close>.\<close>

definition has_port :: "tx_sys \<Rightarrow> nat \<Rightarrow> nat \<Rightarrow> bool" where
  "has_port y t p \<longleftrightarrow> (\<exists>tx\<in>set (tt_tx_ports (sx_threads y ! t)). po_no (sx_ports y ! tp_port tx) = po_no (sx_ports y ! p))"

lemma has_port_mono: "assigned_to t y y' \<Longrightarrow> has_port y t p \<Longrightarrow> has_port y' t p"
  unfolding has_port_def assigned_to_def by auto

lemma assign_one_law:
  assumes y: "tx_sys_ok X y" and t: "t < length (sx_threads y)" and p: "p < length (sx_ports y)"
    and l: "po_listed (sx_ports y ! p)" and fits: "static_fits (sx_ports y) (tt_static_tx_qid (sx_threads y ! t))"
  shows "\<exists>s. dp_netdev_add_port_tx_to_pmd p (focus t y) = Inr s \<and> tx_sys_ok X (unfocus t s y) \<and>
    assigned_to t y (unfocus t s y) \<and> has_port (unfocus t s y) t p"
proof -
  have ok: "tx_all_ok X (ts_ports (focus t y)) (ts_thread (focus t y))" using tx_sys_okD(1) [OF y t] by simp
  have q: "po_mode (sx_ports y ! p) = TXQ_MODE_STATIC \<and> 0 < po_n_txq (sx_ports y ! p) \<Longrightarrow>
      tt_static_tx_qid (sx_threads y ! t) < po_n_txq (sx_ports y ! p)"
    using fits p l by (simp add: static_fits_def)
  from add_port_law [OF ok, of p] p q tx_sys_okD(2) [OF y p] obtain txs b where
    a: "dp_netdev_add_port_tx_to_pmd p (focus t y) =
        Inr ((focus t y)\<lparr>ts_thread := (sx_threads y ! t)\<lparr>tt_tx_ports := txs, tt_need_reload := b\<rparr>\<rparr>)"
      "tx_all_ok X (sx_ports y) ((sx_threads y ! t)\<lparr>tt_tx_ports := txs, tt_need_reload := b\<rparr>)"
      "\<exists>tx\<in>set txs. po_no (sx_ports y ! tp_port tx) = po_no (sx_ports y ! p)"
      "txs = tt_tx_ports (sx_threads y ! t) \<or> txs = tt_tx_ports (sx_threads y ! t) @ [new_tx_port p (sx_ports y ! p)]"
    by auto
  let ?s = "(focus t y)\<lparr>ts_thread := (sx_threads y ! t)\<lparr>tt_tx_ports := txs, tt_need_reload := b\<rparr>\<rparr>"
  have "tx_sys_ok X (unfocus t ?s y)"
    unfolding unfocus_def using a(2) tx_sys_okD(4) [OF y] by (intro threads_only_ok [OF y t]) simp_all
  moreover have "assigned_to t y (unfocus t ?s y)"
    using a(4) t l by (auto simp: assigned_to_def new_tx_port_def)
  moreover have "has_port (unfocus t ?s y) t p" using a(3) t by (simp add: has_port_def)
  ultimately show ?thesis using a(1) by blast
qed

lemma assign_ports_law:
  assumes "tx_sys_ok X y" and "t < length (sx_threads y)" and "p + k = length (sx_ports y)"
    and "static_fits (sx_ports y) (tt_static_tx_qid (sx_threads y ! t))"
  shows "\<exists>y'. assign_ports t p k y = Inr y' \<and> tx_sys_ok X y' \<and> assigned_to t y y' \<and>
    (\<forall>r. p \<le> r \<and> r < p + k \<and> po_listed (sx_ports y ! r) \<longrightarrow> has_port y' t r)"
  using assms
proof (induction k arbitrary: p y)
  case (Suc k)
  have p: "p < length (sx_ports y)" using Suc.prems(3) by simp
  show ?case
  proof (cases "po_listed (sx_ports y ! p)")
    case True
    from assign_one_law [OF Suc.prems(1,2) p True Suc.prems(4)] obtain s where
      a: "dp_netdev_add_port_tx_to_pmd p (focus t y) = Inr s" "tx_sys_ok X (unfocus t s y)"
        "assigned_to t y (unfocus t s y)" "has_port (unfocus t s y) t p"
      by blast
    have e: "sx_ports (unfocus t s y) = sx_ports y" "tt_static_tx_qid (sx_threads (unfocus t s y) ! t) = tt_static_tx_qid (sx_threads y ! t)"
      using a(3) by (simp_all add: assigned_to_def)
    from Suc.IH [OF a(2), of "Suc p"] Suc.prems e obtain y' where
      i: "assign_ports t (Suc p) k (unfocus t s y) = Inr y'" "tx_sys_ok X y'" "assigned_to t (unfocus t s y) y'"
        "\<forall>r. Suc p \<le> r \<and> r < Suc p + k \<and> po_listed (sx_ports y ! r) \<longrightarrow> has_port y' t r"
      by auto
    have "has_port y' t r" if "p \<le> r" "r < p + Suc k" "po_listed (sx_ports y ! r)" for r
      using i(4) that has_port_mono [OF i(3) a(4)] by (cases "r = p") auto
    then show ?thesis using True a(1) i(1,2) assigned_to_trans [OF a(3) i(3)] by auto
  next
    case False
    from Suc.IH [OF Suc.prems(1,2), of "Suc p"] Suc.prems obtain y' where
      i: "assign_ports t (Suc p) k y = Inr y'" "tx_sys_ok X y'" "assigned_to t y y'"
        "\<forall>r. Suc p \<le> r \<and> r < Suc p + k \<and> po_listed (sx_ports y ! r) \<longrightarrow> has_port y' t r"
      by auto
    have "has_port y' t r" if "p \<le> r" "r < p + Suc k" "po_listed (sx_ports y ! r)" for r
      using i(4) that False by (cases "r = p") auto
    then show ?thesis using False i(1-3) by auto
  qed
qed auto

text \<open>The bonds of a thread after the assignment.\<close>

definition knows_bonds :: "tx_bond list \<Rightarrow> tx_thread \<Rightarrow> bool" where
  "knows_bonds bonds th \<longleftrightarrow> (\<forall>b\<in>set bonds. bond_buckets (bo_id b) th \<noteq> None)"

definition bonds_fit :: "tx_env \<Rightarrow> tx_bond list \<Rightarrow> bool" where
  "bonds_fit X bonds \<longleftrightarrow> (\<forall>b\<in>set bonds. unat (te_bond_mask X) < length (bo_member_buckets b))"

lemma add_missing_bond:
  fixes th :: tx_thread and b :: tx_bond
  defines "th' \<equiv> dp_netdev_add_bond_tx_to_pmd b False th"
  shows "tt_tx_ports th' = tt_tx_ports th" and "tt_static_tx_qid th' = tt_static_tx_qid th"
    and "bo_id ` set (tt_bonds th') = insert (bo_id b) (bo_id ` set (tt_bonds th))"
  using bond_lookup_SomeD [of "tt_bonds th" "bo_id b"]
  by (auto simp: th'_def dp_netdev_add_bond_tx_to_pmd_def split: option.splits) (metis imageI nth_mem)

lemma add_missing_bonds:
  fixes th :: tx_thread
  defines "th' bonds \<equiv> fold (\<lambda>b. dp_netdev_add_bond_tx_to_pmd b False) bonds th"
  shows "tt_send_ports (th' bonds) = tt_send_ports th \<and> tt_tx_ports (th' bonds) = tt_tx_ports th \<and>
    tt_static_tx_qid (th' bonds) = tt_static_tx_qid th \<and>
    bo_id ` set (tt_bonds (th' bonds)) = bo_id ` (set (tt_bonds th) \<union> set bonds) \<and>
    (tx_all_ok X ports th \<and> bonds_fit X bonds \<longrightarrow> tx_all_ok X ports (th' bonds))"
  unfolding th'_def
proof (induction bonds arbitrary: th)
  case (Cons b bonds)
  let ?th = "dp_netdev_add_bond_tx_to_pmd b False th"
  have "tx_all_ok X ports ?th" if "tx_all_ok X ports th" "bonds_fit X (b # bonds)"
    using that bonds_ok_add [of X th b False] by (simp add: tx_all_ok_def bond_only bonds_fit_def)
  then show ?case using Cons [of ?th] add_missing_bond [of b th] by (auto simp: bond_only bonds_fit_def)
qed simp

lemma knows_bonds_ids: "knows_bonds bonds th \<longleftrightarrow> bo_id ` set bonds \<subseteq> bo_id ` set (tt_bonds th)"
proof -
  have "bond_buckets i th \<noteq> None \<longleftrightarrow> i \<in> bo_id ` set (tt_bonds th)" for i
    using bond_lookup_None [of "tt_bonds th" i] by (auto simp: bond_buckets_def)
  then show ?thesis by (auto simp: knows_bonds_def)
qed

lemma assign_bonds_law:
  assumes y: "tx_sys_ok X y" and t: "t < length (sx_threads y)" and b: "bonds_fit X bonds"
  shows "tx_sys_ok X (assign_bonds bonds t y) \<and> assigned_to t y (assign_bonds bonds t y) \<and>
    tt_tx_ports (sx_threads (assign_bonds bonds t y) ! t) = tt_tx_ports (sx_threads y ! t) \<and>
    knows_bonds bonds (sx_threads (assign_bonds bonds t y) ! t)"
proof -
  let ?th = "fold (\<lambda>bond. dp_netdev_add_bond_tx_to_pmd bond False) bonds (sx_threads y ! t)"
  note a = add_missing_bonds [of bonds "sx_threads y ! t" X "sx_ports y"]
  have "tx_sys_ok X \<lparr>sx_threads = (sx_threads y)[t := ?th], sx_state = sx_state y\<rparr>"
    using a b tx_sys_okD(1) [OF y t] tx_sys_okD(4) [OF y] by (intro threads_only_ok [OF y t]) simp_all
  then have "tx_sys_ok X (assign_bonds bonds t y)" by (simp add: assign_bonds_def sx_threads_eta)
  moreover have "assigned_to t y (assign_bonds bonds t y)" using a t by (simp add: assigned_to_def assign_bonds_def)
  moreover have "knows_bonds bonds ?th" using a unfolding knows_bonds_ids by blast
  ultimately show ?thesis using a t by (simp add: assign_bonds_def)
qed

lemma assign_threads_law:
  assumes "tx_sys_ok X y" and "t + k = length (sx_threads y)"
    and "\<forall>u<length (sx_threads y). static_fits (sx_ports y) (tt_static_tx_qid (sx_threads y ! u))" and b: "bonds_fit X bonds"
  shows "\<exists>y'. assign_threads bonds busy t k y = Inr y' \<and> tx_sys_ok X y' \<and> sx_ports y' = sx_ports y \<and>
    length (sx_threads y') = length (sx_threads y) \<and>
    (\<forall>u<length (sx_threads y).
       (u < t \<longrightarrow> sx_threads y' ! u = sx_threads y ! u) \<and>
       (\<forall>tx\<in>set (tt_tx_ports (sx_threads y' ! u)).
          tx \<in> set (tt_tx_ports (sx_threads y ! u)) \<or> po_listed (sx_ports y ! tp_port tx)) \<and>
       (t \<le> u \<and> busy u \<longrightarrow> knows_bonds bonds (sx_threads y' ! u) \<and>
          (\<forall>p<length (sx_ports y). po_listed (sx_ports y ! p) \<longrightarrow> has_port y' u p)))"
  using assms(1-3)
proof (induction k arbitrary: t y)
  case (Suc k)
  have t: "t < length (sx_threads y)" using Suc.prems(2) by simp
  have "\<exists>y1. (if busy t then bindr (assign_ports t 0 (length (sx_ports y)) y) (\<lambda>y. Inr (assign_bonds bonds t y)) else Inr y) = Inr y1 \<and>
      tx_sys_ok X y1 \<and> assigned_to t y y1 \<and>
      (busy t \<longrightarrow> knows_bonds bonds (sx_threads y1 ! t) \<and>
         (\<forall>p<length (sx_ports y). po_listed (sx_ports y ! p) \<longrightarrow> has_port y1 t p))"
  proof (cases "busy t")
    case True
    from assign_ports_law [OF Suc.prems(1) t, of 0 "length (sx_ports y)"] Suc.prems(3) t obtain y0 where
      p: "assign_ports t 0 (length (sx_ports y)) y = Inr y0" "tx_sys_ok X y0" "assigned_to t y y0"
        "\<forall>p<length (sx_ports y). po_listed (sx_ports y ! p) \<longrightarrow> has_port y0 t p"
      by auto
    have t0: "t < length (sx_threads y0)" using p(3) t by (simp add: assigned_to_def)
    note l = assign_bonds_law [OF p(2) t0 b]
    then have "has_port (assign_bonds bonds t y0) t p" if "has_port y0 t p" for p using has_port_mono that by blast
    then show ?thesis using True p l assigned_to_trans [OF p(3)] by (intro exI [of _ "assign_bonds bonds t y0"]) simp
  qed (use Suc.prems(1) in simp)
  then obtain y1 where
    a: "(if busy t then bindr (assign_ports t 0 (length (sx_ports y)) y) (\<lambda>y. Inr (assign_bonds bonds t y)) else Inr y) = Inr y1"
      "tx_sys_ok X y1" "assigned_to t y y1"
      "busy t \<longrightarrow> knows_bonds bonds (sx_threads y1 ! t) \<and>
         (\<forall>p<length (sx_ports y). po_listed (sx_ports y ! p) \<longrightarrow> has_port y1 t p)"
    by blast
  have e: "sx_ports y1 = sx_ports y" "length (sx_threads y1) = length (sx_threads y)"
      "\<And>u. u \<noteq> t \<Longrightarrow> sx_threads y1 ! u = sx_threads y ! u"
      "tt_static_tx_qid (sx_threads y1 ! t) = tt_static_tx_qid (sx_threads y ! t)"
    using a(3) by (simp_all add: assigned_to_def)
  have fits: "\<forall>u<length (sx_threads y1). static_fits (sx_ports y1) (tt_static_tx_qid (sx_threads y1 ! u))"
    using Suc.prems(3) e by metis
  have "Suc t + k = length (sx_threads y1)" using Suc.prems(2) e(2) by simp
  from Suc.IH [OF a(2) this fits] obtain y' where
    i: "assign_threads bonds busy (Suc t) k y1 = Inr y'" "tx_sys_ok X y'" "sx_ports y' = sx_ports y1"
      "length (sx_threads y') = length (sx_threads y1)"
      "\<forall>u<length (sx_threads y1).
         (u < Suc t \<longrightarrow> sx_threads y' ! u = sx_threads y1 ! u) \<and>
         (\<forall>tx\<in>set (tt_tx_ports (sx_threads y' ! u)).
            tx \<in> set (tt_tx_ports (sx_threads y1 ! u)) \<or> po_listed (sx_ports y1 ! tp_port tx)) \<and>
         (Suc t \<le> u \<and> busy u \<longrightarrow> knows_bonds bonds (sx_threads y' ! u) \<and>
            (\<forall>p<length (sx_ports y1). po_listed (sx_ports y1 ! p) \<longrightarrow> has_port y' u p))"
    by blast
  have "assign_threads bonds busy t (Suc k) y = Inr y'" using a(1) i(1) by simp
  moreover have "(u < t \<longrightarrow> sx_threads y' ! u = sx_threads y ! u) \<and>
       (\<forall>tx\<in>set (tt_tx_ports (sx_threads y' ! u)).
          tx \<in> set (tt_tx_ports (sx_threads y ! u)) \<or> po_listed (sx_ports y ! tp_port tx)) \<and>
       (t \<le> u \<and> busy u \<longrightarrow> knows_bonds bonds (sx_threads y' ! u) \<and>
          (\<forall>p<length (sx_ports y). po_listed (sx_ports y ! p) \<longrightarrow> has_port y' u p))"
    if u: "u < length (sx_threads y)" for u
  proof (cases "u = t")
    case True
    have same: "sx_threads y' ! t = sx_threads y1 ! t" using i(5) t e(2) by simp
    then have "has_port y' t p = has_port y1 t p" for p by (simp add: has_port_def i(3))
    then show ?thesis using True same a(3,4) by (auto simp: assigned_to_def)
  next
    case False
    then show ?thesis using i(5) [unfolded e(1,2), THEN spec, THEN mp, OF u] e(3) [OF False] by auto
  qed
  ultimately show ?case using i(2,3,4) e(1,2) by (intro exI [of _ y']) simp
qed auto

section \<open>The whole reconfiguration\<close>

text \<open>Ports in the datapath have different numbers.\<close>

definition unique_numbers :: "tx_dev_port list \<Rightarrow> bool" where
  "unique_numbers ports \<longleftrightarrow> (\<forall>p<length ports. \<forall>q<length ports. po_listed (ports ! p) \<and> po_listed (ports ! q) \<and>
     po_no (ports ! p) = po_no (ports ! q) \<longrightarrow> p = q)"

lemma choose_unmarked:
  "\<not> port_mode_stale wanted port \<Longrightarrow> choose_txq_mode wanted port = po_mode port"
  by (cases "po_mode port") (auto simp: port_mode_stale_def choose_txq_mode_def)

lemma mark_port_simps [simp]:
  "po_mode (mark_port N w p port) = po_mode port" "po_n_txq (mark_port N w p port) = po_n_txq port"
  "po_txq_used (mark_port N w p port) = po_txq_used port" "po_no (mark_port N w p port) = po_no port"
  "po_listed (mark_port N w p port) = po_listed port" "po_requested_mode (mark_port N w p port) = po_requested_mode port"
  by (simp_all add: mark_port_def)

lemma mark_port_unmarked:
  "po_listed port \<Longrightarrow> \<not> po_need_reconfigure (mark_port N w p port) \<Longrightarrow> \<not> port_mode_stale w port"
  by (auto simp: mark_port_def split: if_splits)

text \<open>A port that is reconfigured is listed only with the mode chosen for it.\<close>

lemma reconfigure_one_law:
  "po_no (reconfigure_one N w p port) = po_no port"
  "po_listed (reconfigure_one N w p port) \<Longrightarrow> po_listed port"
  "\<not> po_listed port \<or> \<not> po_need_reconfigure port \<Longrightarrow> reconfigure_one N w p port = port"
  "po_listed (reconfigure_one N w p port) \<Longrightarrow> po_need_reconfigure port \<Longrightarrow>
     po_mode (reconfigure_one N w p port) = choose_txq_mode w (reconfigure_one N w p port)"
  "fresh_port (reconfigure_one N w p port) \<or>
     po_n_txq (reconfigure_one N w p port) = po_n_txq port \<and> po_txq_used (reconfigure_one N w p port) = po_txq_used port"
  by (auto simp: reconfigure_one_def port_reconfigure_def choose_txq_mode_def fresh_port_def Let_def split: prod.splits if_splits)

lemma cached_after_reload:
  assumes "tx_all_ok X ports th" and "\<not> tt_need_reload th"
  shows "p \<in> set (map tp_port (tt_send_ports th)) \<longleftrightarrow> p \<in> set (map tp_port (tt_tx_ports th)) \<and> po_n_txq (ports ! p) \<noteq> 0"
  using assms by (simp add: tx_all_ok_def synced_def)

text \<open>The first half: stale ports are taken away and reconfigured.\<close>

lemma reconfigure_ports_law:
  assumes X: "tx_env_ok X" and y: "tx_sys_ok X y"
  defines "w \<equiv> length (sx_threads y)"
  shows "\<exists>y2 y3. remove_stale_threads 0 w (on_ports (mark_port N w) y) = Inr y2 \<and> length (sx_threads y2) = w \<and>
    reload_affected_pmds X y2 = Inr y3 \<and> length (sx_threads y3) = w \<and>
    (let y4 = on_ports (reconfigure_one N w) y3 in
     tx_sys_ok X y4 \<and> length (sx_ports y4) = length (sx_ports y) \<and>
     (\<forall>u<w. tt_static_tx_qid (sx_threads y4 ! u) = tt_static_tx_qid (sx_threads y ! u) \<and>
        \<not> tt_need_reload (sx_threads y4 ! u) \<and>
        (\<forall>tx\<in>set (tt_tx_ports (sx_threads y4 ! u)). po_listed (sx_ports y4 ! tp_port tx))) \<and>
     (\<forall>p<length (sx_ports y). po_no (sx_ports y4 ! p) = po_no (sx_ports y ! p) \<and>
        (po_listed (sx_ports y4 ! p) \<longrightarrow> po_listed (sx_ports y ! p) \<and>
           po_mode (sx_ports y4 ! p) = choose_txq_mode w (sx_ports y4 ! p))))"
proof -
  let ?y1 = "on_ports (mark_port N w) y"
  have ok1: "tx_sys_ok X ?y1" by (rule on_ports_ok [OF y]) (simp add: Let_def)
  from remove_stale_threads_law [OF ok1, of 0 w] obtain y2 where
    r: "remove_stale_threads 0 w ?y1 = Inr y2" "tx_sys_ok X y2" "sx_state y2 = sx_state ?y1" "length (sx_threads y2) = w"
      "\<forall>u<w. tt_static_tx_qid (sx_threads y2 ! u) = tt_static_tx_qid (sx_threads y ! u) \<and>
         (\<forall>tx\<in>set (tt_tx_ports (sx_threads y2 ! u)). \<not> stale_port (sx_ports ?y1 ! tp_port tx))"
    by (auto simp: w_def)
  from reload_threads_law [OF X r(2), of 0 w] r(4) obtain y3 where
    l: "reload_affected_pmds X y2 = Inr y3" "tx_sys_ok X y3" "shape (sx_ports y3) = shape (sx_ports ?y1)" "length (sx_threads y3) = w"
      "\<forall>u<w. tt_tx_ports (sx_threads y3 ! u) = tt_tx_ports (sx_threads y2 ! u) \<and>
         tt_static_tx_qid (sx_threads y3 ! u) = tt_static_tx_qid (sx_threads y2 ! u) \<and> \<not> tt_need_reload (sx_threads y3 ! u)"
    by (auto simp: reload_affected_pmds_def reloaded_def r(3))
  have len: "length (sx_ports y3) = length (sx_ports y)" using shape_eqD(1) [OF l(3)] by simp
  have port3: "po_no (sx_ports y3 ! p) = po_no (sx_ports y ! p) \<and> po_listed (sx_ports y3 ! p) = po_listed (sx_ports y ! p) \<and>
      po_need_reconfigure (sx_ports y3 ! p) = po_need_reconfigure (mark_port N w p (sx_ports y ! p)) \<and>
      po_mode (sx_ports y3 ! p) = po_mode (sx_ports y ! p) \<and> po_n_txq (sx_ports y3 ! p) = po_n_txq (sx_ports y ! p) \<and>
      po_requested_mode (sx_ports y3 ! p) = po_requested_mode (sx_ports y ! p)" if "p < length (sx_ports y)" for p
    using port_shape_eqD [OF shape_eqD(2) [OF l(3)], of p] that by simp
  have fresh3: "\<not> stale_port (sx_ports y3 ! tp_port tx)" and in3: "tp_port tx < length (sx_ports y)"
    if "u < w" "tx \<in> set (tt_tx_ports (sx_threads y3 ! u))" for u tx
  proof -
    show lt: "tp_port tx < length (sx_ports y)"
      using tx_sys_okD(1) [OF l(2), of u] that l(4) len by (simp add: tx_all_ok_def assigned_ok_def template_ok_def)
    have "\<not> stale_port (sx_ports ?y1 ! tp_port tx)" using r(5) l(5) that by auto
    then show "\<not> stale_port (sx_ports y3 ! tp_port tx)" using port3 [OF lt] lt by (simp add: stale_port_def)
  qed
  have unused: "port_unused p y3" if "stale_port (sx_ports y3 ! p)" for p
    unfolding port_unused_def
  proof
    fix th assume "th \<in> set (sx_threads y3)"
    then obtain u where u: "u < w" "th = sx_threads y3 ! u" using l(4) by (metis in_set_conv_nth)
    then have "p \<notin> set (map tp_port (tt_tx_ports th))" using fresh3 that by auto
    then show "p \<notin> set (map tp_port (tt_send_ports th)) \<and> p \<notin> set (map tp_port (tt_tx_ports th))"
      using cached_after_reload [OF tx_sys_okD(1) [OF l(2)], of u p] u l(4,5) by auto
  qed
  let ?y4 = "on_ports (reconfigure_one N w) y3"
  have ok4: "tx_sys_ok X ?y4"
  proof (rule on_ports_ok [OF l(2)])
    fix p assume "p < length (sx_ports y3)"
    show "let port = sx_ports y3 ! p; port' = reconfigure_one N w p port
      in po_mode port' = po_mode port \<and> po_n_txq port' = po_n_txq port \<and> po_txq_used port' = po_txq_used port \<or>
         port_unused p y3 \<and> (fresh_port port' \<or> po_n_txq port' = po_n_txq port \<and> po_txq_used port' = po_txq_used port)"
    proof (cases "stale_port (sx_ports y3 ! p)")
      case True
      then show ?thesis using unused [OF True] reconfigure_one_law(5) [of N w p "sx_ports y3 ! p"] by (simp add: Let_def)
    next
      case False
      then show ?thesis using reconfigure_one_law(3) [of "sx_ports y3 ! p" N w p] by (simp add: stale_port_def)
    qed
  qed
  have templates: "po_listed (sx_ports ?y4 ! tp_port tx)" if "u < w" "tx \<in> set (tt_tx_ports (sx_threads y3 ! u))" for u tx
    using fresh3 [OF that] in3 [OF that] len reconfigure_one_law(3) [of "sx_ports y3 ! tp_port tx" N w "tp_port tx"]
    by (simp add: stale_port_def)
  have modes: "po_no (sx_ports ?y4 ! p) = po_no (sx_ports y ! p) \<and>
      (po_listed (sx_ports ?y4 ! p) \<longrightarrow> po_listed (sx_ports y ! p) \<and> po_mode (sx_ports ?y4 ! p) = choose_txq_mode w (sx_ports ?y4 ! p))"
    if p: "p < length (sx_ports y)" for p
  proof (cases "po_need_reconfigure (sx_ports y3 ! p)")
    case True
    then show ?thesis using p len port3 [OF p] reconfigure_one_law(1,2,4) [of N w p "sx_ports y3 ! p"] by simp
  next
    case False
    then have e: "sx_ports ?y4 ! p = sx_ports y3 ! p" using p len reconfigure_one_law(3) by simp
    have "po_listed (sx_ports y3 ! p) \<Longrightarrow> \<not> port_mode_stale w (sx_ports y3 ! p)"
      using False port3 [OF p] mark_port_unmarked [of "sx_ports y ! p" N w p] by (simp add: port_mode_stale_def)
    then show ?thesis unfolding e using port3 [OF p] choose_unmarked by metis
  qed
  show ?thesis using r(1,4,5) l(1,4,5) ok4 len templates modes
    by (intro exI [of _ y2] exI [of _ y3]) (simp add: Let_def)
qed

text \<open>The second half: the ports are assigned, and the threads take them over.\<close>

lemma static_fits_chosen:
  assumes "\<forall>p<length ports. po_listed (ports ! p) \<longrightarrow> po_mode (ports ! p) = choose_txq_mode w (ports ! p)" and "q < w"
  shows "static_fits ports q"
  unfolding static_fits_def
proof (intro allI impI)
  fix p assume p: "p < length ports"
    "po_listed (ports ! p) \<and> po_mode (ports ! p) = TXQ_MODE_STATIC \<and> 0 < po_n_txq (ports ! p)"
  then have "choose_txq_mode w (ports ! p) = TXQ_MODE_STATIC" using assms(1) by metis
  then show "q < po_n_txq (ports ! p)" using assms(2) by (simp add: choose_txq_mode_def split: if_splits)
qed

lemma assign_and_reload_law:
  assumes X: "tx_env_ok X" and y: "tx_sys_ok X y" and n: "unique_numbers (sx_ports y)"
    and fits: "\<forall>u<length (sx_threads y). static_fits (sx_ports y) (tt_static_tx_qid (sx_threads y ! u))"
    and listed: "\<forall>u<length (sx_threads y). \<forall>tx\<in>set (tt_tx_ports (sx_threads y ! u)). po_listed (sx_ports y ! tp_port tx)"
    and b: "bonds_fit X bonds"
  defines "w \<equiv> length (sx_threads y)"
  shows "\<exists>y5 y6. assign_threads bonds busy 0 w y = Inr y5 \<and> reload_affected_pmds X y5 = Inr y6 \<and>
    tx_sys_ok X y6 \<and> length (sx_threads y6) = w \<and> shape (sx_ports y6) = shape (sx_ports y) \<and>
    (\<forall>u<w. (\<forall>tx\<in>set (tt_send_ports (sx_threads y6 ! u)). po_listed (sx_ports y ! tp_port tx)) \<and>
       (busy u \<longrightarrow> knows_bonds bonds (sx_threads y6 ! u) \<and>
          (\<forall>p<length (sx_ports y). po_listed (sx_ports y ! p) \<and> 0 < po_n_txq (sx_ports y ! p) \<longrightarrow>
             p \<in> set (map tp_port (tt_send_ports (sx_threads y6 ! u))))))"
proof -
  from assign_threads_law [OF y _ fits b, of 0 w busy] obtain y5 where
    a: "assign_threads bonds busy 0 w y = Inr y5" "tx_sys_ok X y5" "sx_ports y5 = sx_ports y" "length (sx_threads y5) = w"
      "\<forall>u<w. (\<forall>tx\<in>set (tt_tx_ports (sx_threads y5 ! u)).
          tx \<in> set (tt_tx_ports (sx_threads y ! u)) \<or> po_listed (sx_ports y ! tp_port tx)) \<and>
         (busy u \<longrightarrow> knows_bonds bonds (sx_threads y5 ! u) \<and>
            (\<forall>p<length (sx_ports y). po_listed (sx_ports y ! p) \<longrightarrow> has_port y5 u p))"
    by (auto simp: w_def)
  from reload_threads_law [OF X a(2), of 0 w] a(4) obtain y6 where
    l: "reload_affected_pmds X y5 = Inr y6" "tx_sys_ok X y6" "shape (sx_ports y6) = shape (sx_ports y5)" "length (sx_threads y6) = w"
      "\<forall>u<w. tt_tx_ports (sx_threads y6 ! u) = tt_tx_ports (sx_threads y5 ! u) \<and> \<not> tt_need_reload (sx_threads y6 ! u) \<and>
         tt_bonds (sx_threads y6 ! u) = tt_bonds (sx_threads y5 ! u)"
    by (auto simp: reload_affected_pmds_def reloaded_def)
  have assigned: "tp_port tx < length (sx_ports y)" "po_listed (sx_ports y ! tp_port tx)"
    if "u < w" "tx \<in> set (tt_tx_ports (sx_threads y5 ! u))" for u tx
  proof -
    show "tp_port tx < length (sx_ports y)"
      using tx_sys_okD(1) [OF a(2), of u] that a(3,4) by (simp add: tx_all_ok_def assigned_ok_def template_ok_def)
    show "po_listed (sx_ports y ! tp_port tx)" 
      using a(5) [THEN spec, THEN mp, OF that(1)] listed [folded w_def, THEN spec, THEN mp, OF that(1)] that(2) by blast
  qed
  have cached: "p \<in> set (map tp_port (tt_send_ports (sx_threads y6 ! u))) \<longleftrightarrow>
      p \<in> set (map tp_port (tt_tx_ports (sx_threads y5 ! u))) \<and> po_n_txq (sx_ports y6 ! p) \<noteq> 0" if "u < w" for u p
    using cached_after_reload [OF tx_sys_okD(1) [OF l(2)], of u p] l(4,5) that by simp
  have "po_listed (sx_ports y ! tp_port tx)" if "u < w" "tx \<in> set (tt_send_ports (sx_threads y6 ! u))" for u tx
  proof -
    have "tp_port tx \<in> set (map tp_port (tt_tx_ports (sx_threads y5 ! u)))" using cached [OF that(1), of "tp_port tx"] that(2) by auto
    then show ?thesis using assigned(2) [OF that(1)] by auto
  qed
  moreover have "p \<in> set (map tp_port (tt_send_ports (sx_threads y6 ! u)))"
    if u: "u < w" "busy u" and p: "p < length (sx_ports y)" "po_listed (sx_ports y ! p)" "0 < po_n_txq (sx_ports y ! p)" for u p
  proof -
    have "has_port y5 u p" using a(5) u p by blast
    then obtain tx where tx: "tx \<in> set (tt_tx_ports (sx_threads y5 ! u))" "po_no (sx_ports y ! tp_port tx) = po_no (sx_ports y ! p)"
      by (auto simp: has_port_def a(3))
    then have "tp_port tx = p" using n assigned [OF u(1) tx(1)] p unfolding unique_numbers_def by blast
    moreover have "po_n_txq (sx_ports y6 ! p) \<noteq> 0"
      using port_shape_eqD(2) [OF shape_eqD(2) [OF l(3)], of p] a(3) p by simp
    ultimately show ?thesis using cached [OF u(1), of p] tx(1) by auto
  qed
  moreover have "knows_bonds bonds (sx_threads y6 ! u)" if "u < w" "busy u" for u
    using a(5) l(5) that by (simp add: knows_bonds_ids)
  ultimately show ?thesis using a(1) l(1-4) a(3) by (intro exI [of _ y5] exI [of _ y6]) simp
qed

lemma reconfigure_tx_law:
  assumes X: "tx_env_ok X" and y: "tx_sys_ok X y" and n: "unique_numbers (sx_ports y)"
    and q: "\<forall>u<length (sx_threads y). tt_static_tx_qid (sx_threads y ! u) < length (sx_threads y)" and b: "bonds_fit X bonds"
  shows "\<exists>y'. reconfigure_tx X N bonds busy y = Inr y' \<and> tx_sys_ok X y' \<and>
    length (sx_threads y') = length (sx_threads y) \<and> length (sx_ports y') = length (sx_ports y) \<and>
    (\<forall>p<length (sx_ports y'). po_listed (sx_ports y' ! p) \<longrightarrow>
       po_mode (sx_ports y' ! p) = choose_txq_mode (length (sx_threads y)) (sx_ports y' ! p)) \<and>
    (\<forall>u<length (sx_threads y').
       (\<forall>tx\<in>set (tt_send_ports (sx_threads y' ! u)). po_listed (sx_ports y' ! tp_port tx)) \<and>
       (busy u \<longrightarrow> knows_bonds bonds (sx_threads y' ! u) \<and>
          (\<forall>p<length (sx_ports y'). po_listed (sx_ports y' ! p) \<and> 0 < po_n_txq (sx_ports y' ! p) \<longrightarrow>
             p \<in> set (map tp_port (tt_send_ports (sx_threads y' ! u))))))"
proof -
  let ?w = "length (sx_threads y)"
  from reconfigure_ports_law [OF X y, of N] obtain y2 y3 where
    r: "remove_stale_threads 0 ?w (on_ports (mark_port N ?w) y) = Inr y2" "length (sx_threads y2) = ?w"
      "reload_affected_pmds X y2 = Inr y3" "length (sx_threads y3) = ?w"
    and c: "let y4 = on_ports (reconfigure_one N ?w) y3 in
     tx_sys_ok X y4 \<and> length (sx_ports y4) = length (sx_ports y) \<and>
     (\<forall>u<?w. tt_static_tx_qid (sx_threads y4 ! u) = tt_static_tx_qid (sx_threads y ! u) \<and>
        \<not> tt_need_reload (sx_threads y4 ! u) \<and>
        (\<forall>tx\<in>set (tt_tx_ports (sx_threads y4 ! u)). po_listed (sx_ports y4 ! tp_port tx))) \<and>
     (\<forall>p<length (sx_ports y). po_no (sx_ports y4 ! p) = po_no (sx_ports y ! p) \<and>
        (po_listed (sx_ports y4 ! p) \<longrightarrow> po_listed (sx_ports y ! p) \<and>
           po_mode (sx_ports y4 ! p) = choose_txq_mode ?w (sx_ports y4 ! p)))"
    by blast
  define y4 where "y4 = on_ports (reconfigure_one N ?w) y3"
  have c4: "tx_sys_ok X y4" "length (sx_ports y4) = length (sx_ports y)" "length (sx_threads y4) = ?w"
      "\<forall>u<?w. tt_static_tx_qid (sx_threads y4 ! u) = tt_static_tx_qid (sx_threads y ! u)"
      "\<forall>u<?w. \<forall>tx\<in>set (tt_tx_ports (sx_threads y4 ! u)). po_listed (sx_ports y4 ! tp_port tx)"
      "\<forall>p<length (sx_ports y4). po_no (sx_ports y4 ! p) = po_no (sx_ports y ! p) \<and>
         (po_listed (sx_ports y4 ! p) \<longrightarrow> po_listed (sx_ports y ! p))"
      "\<forall>p<length (sx_ports y4). po_listed (sx_ports y4 ! p) \<longrightarrow> po_mode (sx_ports y4 ! p) = choose_txq_mode ?w (sx_ports y4 ! p)"
  proof -
    have th: "sx_threads y4 = sx_threads y3" by (simp add: y4_def)
    note d = c [unfolded Let_def, folded y4_def]
    show "tx_sys_ok X y4" "length (sx_ports y4) = length (sx_ports y)" using d by blast+
    show "length (sx_threads y4) = ?w" using th r(4) by simp
    show "\<forall>u<?w. tt_static_tx_qid (sx_threads y4 ! u) = tt_static_tx_qid (sx_threads y ! u)"
      "\<forall>u<?w. \<forall>tx\<in>set (tt_tx_ports (sx_threads y4 ! u)). po_listed (sx_ports y4 ! tp_port tx)"
      using d by blast+
    show "\<forall>p<length (sx_ports y4). po_no (sx_ports y4 ! p) = po_no (sx_ports y ! p) \<and>
         (po_listed (sx_ports y4 ! p) \<longrightarrow> po_listed (sx_ports y ! p))"
      "\<forall>p<length (sx_ports y4). po_listed (sx_ports y4 ! p) \<longrightarrow> po_mode (sx_ports y4 ! p) = choose_txq_mode ?w (sx_ports y4 ! p)"
      using d by (metis (no_types, lifting))+
  qed
  have n4: "unique_numbers (sx_ports y4)" using n c4(2,6) unfolding unique_numbers_def by metis
  have fits: "\<forall>u<length (sx_threads y4). static_fits (sx_ports y4) (tt_static_tx_qid (sx_threads y4 ! u))"
    using q c4(3,4) static_fits_chosen [OF c4(7)] by simp
  have listed: "\<forall>u<length (sx_threads y4). \<forall>tx\<in>set (tt_tx_ports (sx_threads y4 ! u)). po_listed (sx_ports y4 ! tp_port tx)"
    using c4(3,5) by simp
  from assign_and_reload_law [OF X c4(1) n4 fits listed b, of busy] c4(3) obtain y5 y6 where
    a: "assign_threads bonds busy 0 ?w y4 = Inr y5" "reload_affected_pmds X y5 = Inr y6"
      "tx_sys_ok X y6" "length (sx_threads y6) = ?w" "shape (sx_ports y6) = shape (sx_ports y4)"
      "\<forall>u<?w. (\<forall>tx\<in>set (tt_send_ports (sx_threads y6 ! u)). po_listed (sx_ports y4 ! tp_port tx)) \<and>
         (busy u \<longrightarrow> knows_bonds bonds (sx_threads y6 ! u) \<and>
            (\<forall>p<length (sx_ports y4). po_listed (sx_ports y4 ! p) \<and> 0 < po_n_txq (sx_ports y4 ! p) \<longrightarrow>
               p \<in> set (map tp_port (tt_send_ports (sx_threads y6 ! u)))))"
    by auto
  have run: "reconfigure_tx X N bonds busy y = Inr y6"
    using r(1-4) a(1,2) c4(3) unfolding reconfigure_tx_def Let_def by (simp add: y4_def)
  have len: "length (sx_ports y6) = length (sx_ports y4)" by (rule shape_eqD(1) [OF a(5)])
  have port6: "po_listed (sx_ports y6 ! p) = po_listed (sx_ports y4 ! p) \<and> po_n_txq (sx_ports y6 ! p) = po_n_txq (sx_ports y4 ! p) \<and>
      po_mode (sx_ports y6 ! p) = po_mode (sx_ports y4 ! p) \<and> po_requested_mode (sx_ports y6 ! p) = po_requested_mode (sx_ports y4 ! p)"
    if "p < length (sx_ports y4)" for p
    using port_shape_eqD [OF shape_eqD(2) [OF a(5) that]] by simp
  have "tp_port tx < length (sx_ports y4)" if "u < ?w" "tx \<in> set (tt_send_ports (sx_threads y6 ! u))" for u tx
  proof -
    have "tx_port_ok (sx_ports y6) tx"
      using tx_sys_okD(1) [OF a(3), of u] that a(4) by (simp add: tx_all_ok_def tx_thread_ok_def)
    then show ?thesis using tx_port_okD(1) len by metis
  qed
  then have listed6: "\<forall>u<?w. \<forall>tx\<in>set (tt_send_ports (sx_threads y6 ! u)). po_listed (sx_ports y6 ! tp_port tx)"
    using a(6) port6 by blast
  have "choose_txq_mode ?w (sx_ports y6 ! p) = choose_txq_mode ?w (sx_ports y4 ! p)" if "p < length (sx_ports y4)" for p
    using port6 [OF that] by (simp add: choose_txq_mode_def)
  then have modes6: "\<forall>p<length (sx_ports y6). po_listed (sx_ports y6 ! p) \<longrightarrow> po_mode (sx_ports y6 ! p) = choose_txq_mode ?w (sx_ports y6 ! p)"
    using c4(7) port6 len by simp
  show ?thesis using run a(3,4,6) len c4(2) listed6 modes6 port6
    by (intro exI [of _ y6]) simp
qed

end
