(* ===== verification/Dpif_Tx_Qid.thy ===== *)
theory Dpif_Tx_Qid
  imports Repath_Prelude
begin

text \<open>
  The transmit queues of the threads themselves (\<open>static_tx_qid\<close>): which threads run
  (\<open>reconfigure_pmd_threads\<close>), how they take and give back identifiers
  (\<open>pmd_alloc_static_tx_qid\<close>, \<open>pmd_free_static_tx_qid\<close>), and why the identifiers stay below the
  number of threads in every order in which the threads do so.
\<close>

section \<open>Which threads run\<close>

text \<open>
  A thread is given by its NUMA node and core, and \<open>None\<close> is the one for the ports without
  threads (\<open>NON_PMD_CORE_ID\<close>); \<open>pmd_cores\<close> are the nodes and cores that are wanted.
\<close>

type_synonym pmd_key = "(int \<times> nat) option"

definition adjust_static_tx_qids :: "(int \<times> nat) list \<Rightarrow> pmd_key list \<Rightarrow> bool" where
  "adjust_static_tx_qids pmd_cores threads \<longleftrightarrow> length pmd_cores < length threads - 1"

definition unwanted_pmd :: "(int \<times> nat) list \<Rightarrow> pmd_key \<Rightarrow> bool" where
  "unwanted_pmd pmd_cores pmd = (case pmd of None \<Rightarrow> False | Some core \<Rightarrow> core \<notin> set pmd_cores)"

definition kept_pmds :: "(int \<times> nat) list \<Rightarrow> pmd_key list \<Rightarrow> pmd_key list" where
  "kept_pmds pmd_cores threads = filter (\<lambda>pmd. \<not> unwanted_pmd pmd_cores pmd) threads"

text \<open>A core that no kept thread runs on (\<open>dp_netdev_get_pmd\<close> looks for the core only).\<close>

definition started_pmds :: "(int \<times> nat) list \<Rightarrow> pmd_key list \<Rightarrow> pmd_key list" where
  "started_pmds pmd_cores threads =
     map Some (filter (\<lambda>core. \<forall>pmd\<in>set (kept_pmds pmd_cores threads).
       case pmd of None \<Rightarrow> True | Some c \<Rightarrow> snd c \<noteq> snd core) pmd_cores)"

definition reconfigure_pmd_threads :: "(int \<times> nat) list \<Rightarrow> pmd_key list \<Rightarrow> pmd_key list" where
  "reconfigure_pmd_threads pmd_cores threads = kept_pmds pmd_cores threads @ started_pmds pmd_cores threads"

section \<open>Identifiers\<close>

datatype qid_event = Qid_Alloc pmd_key | Qid_Free pmd_key

primrec qid_pmd :: "qid_event \<Rightarrow> pmd_key" where
  "qid_pmd (Qid_Alloc pmd) = pmd"
| "qid_pmd (Qid_Free pmd) = pmd"

text \<open>
  The pool (\<open>id_pool\<close>, of another file): taking an identifier, giving one back, and the
  identifiers in use.  It gives the lowest free identifier, and has \<open>ip_size\<close> of them.
\<close>

record 'p id_pool =
  ip_alloc :: "'p \<Rightarrow> (nat \<times> 'p) option"
  ip_free :: "nat \<Rightarrow> 'p \<Rightarrow> 'p"
  ip_used :: "'p \<Rightarrow> nat list"
  ip_size :: nat

definition id_pool_ok :: "'p id_pool \<Rightarrow> bool" where
  "id_pool_ok P \<longleftrightarrow>
     (\<forall>p. case ip_alloc P p of
         Some (i, p') \<Rightarrow> i \<notin> set (ip_used P p) \<and> (\<forall>j<i. j \<in> set (ip_used P p)) \<and> set (ip_used P p') = insert i (set (ip_used P p))
       | None \<Rightarrow> {..<ip_size P} \<subseteq> set (ip_used P p)) \<and>
     (\<forall>i p. set (ip_used P (ip_free P i p)) = set (ip_used P p) - {i})"

text \<open>The pool, and the identifier of each thread that holds one.\<close>

record 'p qid_state =
  qs_pool :: 'p
  qs_qid :: "pmd_key \<Rightarrow> nat option"

text \<open>\<open>None\<close>: the process aborts, as no identifier is left, or an identifier is freed that is not held.\<close>

definition pmd_alloc_static_tx_qid :: "'p id_pool \<Rightarrow> pmd_key \<Rightarrow> 'p qid_state \<Rightarrow> 'p qid_state option" where
  "pmd_alloc_static_tx_qid P pmd s =
     (case ip_alloc P (qs_pool s) of
        None \<Rightarrow> None
      | Some (i, p) \<Rightarrow> Some (s\<lparr>qs_pool := p, qs_qid := (qs_qid s)(pmd := Some i)\<rparr>))"

definition pmd_free_static_tx_qid :: "'p id_pool \<Rightarrow> pmd_key \<Rightarrow> 'p qid_state \<Rightarrow> 'p qid_state option" where
  "pmd_free_static_tx_qid P pmd s =
     (case qs_qid s pmd of
        None \<Rightarrow> None
      | Some i \<Rightarrow> Some (s\<lparr>qs_pool := ip_free P i (qs_pool s), qs_qid := (qs_qid s)(pmd := None)\<rparr>))"

fun run_qids :: "'p id_pool \<Rightarrow> qid_event list \<Rightarrow> 'p qid_state \<Rightarrow> 'p qid_state option" where
  "run_qids P [] s = Some s"
| "run_qids P (Qid_Alloc pmd # es) s = Option.bind (pmd_alloc_static_tx_qid P pmd s) (run_qids P es)"
| "run_qids P (Qid_Free pmd # es) s = Option.bind (pmd_free_static_tx_qid P pmd s) (run_qids P es)"

text \<open>
  What each thread does after \<open>reconfigure_pmd_threads\<close>: one that goes gives its identifier back,
  one that is started takes one, and one that stays (other than that for the ports without
  threads) gives it back and takes another where the number of threads shrinks.
\<close>

definition qid_program :: "(int \<times> nat) list \<Rightarrow> pmd_key list \<Rightarrow> pmd_key \<Rightarrow> qid_event list" where
  "qid_program pmd_cores threads pmd =
     (if pmd \<in> set threads then
        if unwanted_pmd pmd_cores pmd then [Qid_Free pmd]
        else if adjust_static_tx_qids pmd_cores threads \<and> pmd \<noteq> None then [Qid_Free pmd, Qid_Alloc pmd]
        else []
      else if pmd \<in> set (started_pmds pmd_cores threads) then [Qid_Alloc pmd] else [])"

section \<open>Identifiers stay small\<close>

definition qids_ok :: "'p id_pool \<Rightarrow> pmd_key set \<Rightarrow> 'p qid_state \<Rightarrow> bool" where
  "qids_ok P T s \<longleftrightarrow> dom (qs_qid s) \<subseteq> T \<and> inj_on (qs_qid s) (dom (qs_qid s)) \<and> set (ip_used P (qs_pool s)) = ran (qs_qid s)"

text \<open>A thread takes an identifier only when it has none, and gives one back only when it has one.\<close>

fun alternates :: "bool \<Rightarrow> qid_event list \<Rightarrow> bool" where
  "alternates held [] = True"
| "alternates held (Qid_Alloc pmd # es) = (\<not> held \<and> alternates True es)"
| "alternates held (Qid_Free pmd # es) = (held \<and> alternates False es)"

lemma ran_card:
  assumes "dom m \<subseteq> T" and "finite T"
  shows "finite (ran m)" and "card (ran m) \<le> card (dom m)"
proof -
  have fin: "finite (dom m)" using assms finite_subset by blast
  have e: "ran m = (\<lambda>x. the (m x)) ` dom m" by (force simp: ran_def dom_def)
  show "finite (ran m)" using fin e by simp
  show "card (ran m) \<le> card (dom m)" unfolding e using fin by (rule card_image_le)
qed

text \<open>The lowest free identifier is below the number of threads that may hold one.\<close>

lemma lowest_free:
  assumes "\<forall>j<i. j \<in> ran m" and "dom m \<subseteq> T - {pmd}" and "finite T" and "pmd \<in> T"
  shows "i < card T"
proof -
  have "{..<i} \<subseteq> ran m" using assms(1) by blast
  then have "i \<le> card (ran m)" using ran_card(1) [OF assms(2)] assms(3) card_mono [of "ran m" "{..<i}"] by simp
  also have "\<dots> \<le> card (dom m)" using ran_card(2) [OF assms(2)] assms(3) by simp
  also have "\<dots> \<le> card (T - {pmd})" using assms(2,3) by (intro card_mono) auto
  also have "\<dots> < card T" using assms(3,4) by (rule card_Diff1_less)
  finally show ?thesis .
qed

lemma alloc_law:
  assumes P: "id_pool_ok P" and s: "qids_ok P T s" and T: "finite T" "card T \<le> ip_size P" and c: "pmd \<in> T" "qs_qid s pmd = None"
  shows "\<exists>i p. pmd_alloc_static_tx_qid P pmd s = Some (s\<lparr>qs_pool := p, qs_qid := (qs_qid s)(pmd := Some i)\<rparr>) \<and> i < card T \<and>
    qids_ok P T (s\<lparr>qs_pool := p, qs_qid := (qs_qid s)(pmd := Some i)\<rparr>)"
proof -
  have d: "dom (qs_qid s) \<subseteq> T - {pmd}" using s c(2) by (auto simp: qids_ok_def)
  have used: "set (ip_used P (qs_pool s)) = ran (qs_qid s)" using s by (simp add: qids_ok_def)
  have a: "case ip_alloc P (qs_pool s) of
      Some (i, p') \<Rightarrow> i \<notin> ran (qs_qid s) \<and> (\<forall>j<i. j \<in> ran (qs_qid s)) \<and> set (ip_used P p') = insert i (ran (qs_qid s))
    | None \<Rightarrow> {..<ip_size P} \<subseteq> ran (qs_qid s)"
    using P unfolding id_pool_ok_def used [symmetric] by blast
  show ?thesis
  proof (cases "ip_alloc P (qs_pool s)")
    case None
    then have "\<forall>j<ip_size P. j \<in> ran (qs_qid s)" using a by auto
    then have "ip_size P < card T" using lowest_free [OF _ d T(1) c(1)] by blast
    then show ?thesis using T(2) by simp
  next
    case (Some ip)
    obtain i p where ip: "ip = (i, p)" by (cases ip)
    have i: "i \<notin> ran (qs_qid s)" "\<forall>j<i. j \<in> ran (qs_qid s)" "set (ip_used P p) = insert i (ran (qs_qid s))"
      using a Some ip by simp_all
    have "inj_on ((qs_qid s)(pmd := Some i)) (dom ((qs_qid s)(pmd := Some i)))"
      using s i(1) c(2) by (auto simp: qids_ok_def inj_on_def dom_def ran_def)
    moreover have "ran ((qs_qid s)(pmd := Some i)) = insert i (ran (qs_qid s))" using c(2) by (rule ran_map_upd)
    moreover have "dom ((qs_qid s)(pmd := Some i)) \<subseteq> T" using d c(1) by auto
    ultimately have "qids_ok P T (s\<lparr>qs_pool := p, qs_qid := (qs_qid s)(pmd := Some i)\<rparr>)"
      using i(3) by (simp add: qids_ok_def)
    then show ?thesis using Some ip lowest_free [OF i(2) d T(1) c(1)]
      by (intro exI [of _ i] exI [of _ p]) (simp add: pmd_alloc_static_tx_qid_def)
  qed
qed

lemma free_law:
  assumes P: "id_pool_ok P" and s: "qids_ok P T s" and c: "qs_qid s pmd = Some i"
  shows "\<exists>p. pmd_free_static_tx_qid P pmd s = Some (s\<lparr>qs_pool := p, qs_qid := (qs_qid s)(pmd := None)\<rparr>) \<and>
    qids_ok P T (s\<lparr>qs_pool := p, qs_qid := (qs_qid s)(pmd := None)\<rparr>)"
proof -
  let ?p = "ip_free P i (qs_pool s)"
  have "set (ip_used P ?p) = ran (qs_qid s) - {i}" using P s by (simp add: id_pool_ok_def qids_ok_def)
  also have "\<dots> = ran ((qs_qid s)(pmd := None))"
  proof -
    have inj: "inj_on (qs_qid s) (dom (qs_qid s))" using s by (simp add: qids_ok_def)
    have uniq: "x = pmd" if "qs_qid s x = Some i" for x
      by (rule inj_onD [OF inj]) (use c that in auto)
    show ?thesis
    proof (rule set_eqI)
      fix j
      have "(\<exists>x. qs_qid s x = Some j) \<and> j \<noteq> i \<longleftrightarrow> (\<exists>x. x \<noteq> pmd \<and> qs_qid s x = Some j)"
        using uniq c by (metis option.inject)
      then show "j \<in> ran (qs_qid s) - {i} \<longleftrightarrow> j \<in> ran ((qs_qid s)(pmd := None))" by (auto simp: ran_def)
    qed
  qed
  finally have "set (ip_used P ?p) = ran ((qs_qid s)(pmd := None))" .
  moreover have "inj_on ((qs_qid s)(pmd := None)) (dom ((qs_qid s)(pmd := None)))"
    using s by (auto simp: qids_ok_def inj_on_def)
  ultimately have "qids_ok P T (s\<lparr>qs_pool := ?p, qs_qid := (qs_qid s)(pmd := None)\<rparr>)"
    using s by (auto simp: qids_ok_def)
  then show ?thesis using c by (intro exI [of _ ?p]) (simp add: pmd_free_static_tx_qid_def)
qed

text \<open>Any interleaving of what the threads do, each taking and giving back in turn.\<close>

abbreviation of_pmd :: "pmd_key \<Rightarrow> qid_event list \<Rightarrow> qid_event list" where
  "of_pmd pmd es \<equiv> filter (\<lambda>e. qid_pmd e = pmd) es"

text \<open>What a thread holds after its part of the events, if it held \<open>i\<close> before.\<close>

definition holds_after :: "nat \<Rightarrow> nat option \<Rightarrow> qid_event list \<Rightarrow> nat option \<Rightarrow> bool" where
  "holds_after k i es j \<longleftrightarrow>
     (if es = [] then j = i else case last es of Qid_Alloc _ \<Rightarrow> (\<exists>q<k. j = Some q) | Qid_Free _ \<Rightarrow> j = None)"

lemma holds_after_step:
  assumes "holds_after k i' es j" and "case e of Qid_Alloc _ \<Rightarrow> (\<exists>q<k. i' = Some q) | Qid_Free _ \<Rightarrow> i' = None"
  shows "holds_after k i (e # es) j"
  using assms by (cases "es = []") (auto simp: holds_after_def split: qid_event.splits)

lemma run_qids_law:
  assumes P: "id_pool_ok P" and T: "finite T" "card T \<le> ip_size P"
  shows "qids_ok P T s \<Longrightarrow> \<forall>e\<in>set es. qid_pmd e \<in> T \<Longrightarrow>
    \<forall>pmd\<in>T. alternates (qs_qid s pmd \<noteq> None) (of_pmd pmd es) \<Longrightarrow>
    \<exists>s'. run_qids P es s = Some s' \<and> qids_ok P T s' \<and>
      (\<forall>pmd\<in>T. holds_after (card T) (qs_qid s pmd) (of_pmd pmd es) (qs_qid s' pmd))"
proof (induction es arbitrary: s)
  case Nil
  then show ?case by (simp add: holds_after_def)
next
  case (Cons e es)
  let ?c = "qid_pmd e"
  have c: "?c \<in> T" using Cons.prems(2) by simp
  have alt: "alternates (qs_qid s ?c \<noteq> None) (e # of_pmd ?c es)" using Cons.prems(3) c by auto
  obtain t where t: "run_qids P (e # es) s = run_qids P es t" "qids_ok P T t"
      "\<forall>pmd. pmd \<noteq> ?c \<longrightarrow> qs_qid t pmd = qs_qid s pmd"
      "case e of Qid_Alloc _ \<Rightarrow> (\<exists>q<card T. qs_qid t ?c = Some q) | Qid_Free _ \<Rightarrow> qs_qid t ?c = None"
      "alternates (qs_qid t ?c \<noteq> None) (of_pmd ?c es)"
  proof (cases e)
    case (Qid_Alloc pmd)
    then have n: "qs_qid s pmd = None" using alt by simp
    from alloc_law [OF P Cons.prems(1) T _ n] c Qid_Alloc obtain i p where
      "pmd_alloc_static_tx_qid P pmd s = Some (s\<lparr>qs_pool := p, qs_qid := (qs_qid s)(pmd := Some i)\<rparr>)" "i < card T"
      "qids_ok P T (s\<lparr>qs_pool := p, qs_qid := (qs_qid s)(pmd := Some i)\<rparr>)"
      by auto
    then show ?thesis using that [of "s\<lparr>qs_pool := p, qs_qid := (qs_qid s)(pmd := Some i)\<rparr>"] alt Qid_Alloc by simp
  next
    case (Qid_Free pmd)
    then obtain i where n: "qs_qid s pmd = Some i" using alt by auto
    from free_law [OF P Cons.prems(1) n] obtain p where
      "pmd_free_static_tx_qid P pmd s = Some (s\<lparr>qs_pool := p, qs_qid := (qs_qid s)(pmd := None)\<rparr>)"
      "qids_ok P T (s\<lparr>qs_pool := p, qs_qid := (qs_qid s)(pmd := None)\<rparr>)"
      by auto
    then show ?thesis using that [of "s\<lparr>qs_pool := p, qs_qid := (qs_qid s)(pmd := None)\<rparr>"] alt Qid_Free by simp
  qed
  have "\<forall>pmd\<in>T. alternates (qs_qid t pmd \<noteq> None) (of_pmd pmd es)"
  proof
    fix pmd assume "pmd \<in> T"
    then show "alternates (qs_qid t pmd \<noteq> None) (of_pmd pmd es)"
      using Cons.prems(3) t(3,5) by (cases "pmd = ?c") auto
  qed
  from Cons.IH [OF t(2) _ this] Cons.prems(2) obtain s' where
    r: "run_qids P es t = Some s'" "qids_ok P T s'"
      "\<forall>pmd\<in>T. holds_after (card T) (qs_qid t pmd) (of_pmd pmd es) (qs_qid s' pmd)"
    by auto
  have "holds_after (card T) (qs_qid s pmd) (of_pmd pmd (e # es)) (qs_qid s' pmd)" if "pmd \<in> T" for pmd
  proof (cases "pmd = ?c")
    case True
    have "holds_after (card T) (qs_qid s pmd) (e # of_pmd pmd es) (qs_qid s' pmd)"
      unfolding True by (rule holds_after_step [OF r(3) [rule_format, OF c] t(4)])
    then show ?thesis using True by simp
  next
    case False
    then show ?thesis using r(3) that t(3) by auto
  qed
  then show ?case using t(1) r(1,2) by auto
qed

section \<open>After a reconfiguration of the threads\<close>

definition threads_wf :: "pmd_key list \<Rightarrow> bool" where
  "threads_wf threads \<longleftrightarrow> distinct threads \<and> None \<in> set threads"

definition cores_wf :: "(int \<times> nat) list \<Rightarrow> bool" where
  "cores_wf pmd_cores \<longleftrightarrow> distinct (map snd pmd_cores)"

lemma final_threads:
  assumes "threads_wf threads" and "cores_wf pmd_cores"
  shows "set (reconfigure_pmd_threads pmd_cores threads) = insert None (Some ` set pmd_cores)"
    and "distinct (reconfigure_pmd_threads pmd_cores threads)"
    and "length (reconfigure_pmd_threads pmd_cores threads) = Suc (length pmd_cores)"
proof -
  have kept: "set (kept_pmds pmd_cores threads) = insert None {pmd \<in> set threads. \<exists>c\<in>set pmd_cores. pmd = Some c}"
    using assms(1) by (auto simp: kept_pmds_def threads_wf_def unwanted_pmd_def split: option.splits)
  have inj: "inj_on snd (set pmd_cores)" using assms(2) by (simp add: cores_wf_def distinct_map)
  have started: "Some c \<in> set (started_pmds pmd_cores threads) \<longleftrightarrow> c \<in> set pmd_cores \<and> Some c \<notin> set threads" for c
  proof
    assume "Some c \<in> set (started_pmds pmd_cores threads)"
    then have c: "c \<in> set pmd_cores" "\<forall>pmd\<in>set (kept_pmds pmd_cores threads). case pmd of None \<Rightarrow> True | Some d \<Rightarrow> snd d \<noteq> snd c"
      by (auto simp: started_pmds_def)
    have "Some c \<notin> set threads" using c kept by force
    then show "c \<in> set pmd_cores \<and> Some c \<notin> set threads" using c(1) by simp
  next
    assume c: "c \<in> set pmd_cores \<and> Some c \<notin> set threads"
    have "case pmd of None \<Rightarrow> True | Some d \<Rightarrow> snd d \<noteq> snd c" if "pmd \<in> set (kept_pmds pmd_cores threads)" for pmd
      using that c inj unfolding kept by (auto simp: inj_on_def split: option.splits)
    then show "Some c \<in> set (started_pmds pmd_cores threads)" using c by (auto simp: started_pmds_def)
  qed
  have none: "None \<notin> set (started_pmds pmd_cores threads)" by (auto simp: started_pmds_def)
  show s: "set (reconfigure_pmd_threads pmd_cores threads) = insert None (Some ` set pmd_cores)"
  proof (rule set_eqI)
    fix pmd show "pmd \<in> set (reconfigure_pmd_threads pmd_cores threads) \<longleftrightarrow> pmd \<in> insert None (Some ` set pmd_cores)"
      using kept started none by (cases pmd) (auto simp: reconfigure_pmd_threads_def)
  qed
  show d: "distinct (reconfigure_pmd_threads pmd_cores threads)"
  proof -
    have "distinct pmd_cores" using assms(2) by (simp add: cores_wf_def distinct_map)
    then have "distinct (started_pmds pmd_cores threads)" by (simp add: started_pmds_def distinct_map)
    moreover have "distinct (kept_pmds pmd_cores threads)" using assms(1) by (simp add: kept_pmds_def threads_wf_def)
    moreover have "pmd \<notin> set (started_pmds pmd_cores threads)" if "pmd \<in> set (kept_pmds pmd_cores threads)" for pmd
    proof (cases pmd)
      case (Some c)
      then have "Some c \<in> set threads" using that kept by auto
      then show ?thesis using started Some by simp
    qed (use none in simp)
    ultimately show ?thesis by (auto simp: reconfigure_pmd_threads_def)
  qed
  have "card (insert None (Some ` set pmd_cores)) = Suc (length pmd_cores)"
    using assms(2) by (subst card_insert_disjoint) (auto simp: card_image cores_wf_def distinct_map distinct_card)
  then show "length (reconfigure_pmd_threads pmd_cores threads) = Suc (length pmd_cores)"
    using distinct_card [OF d] s by simp
qed

lemma run_qids_append:
  "run_qids P (es @ fs) s = Option.bind (run_qids P es s) (run_qids P fs)"
proof (induction es arbitrary: s)
  case (Cons e es)
  then show ?case by (cases e) (auto split: bind_splits)
qed simp

text \<open>
  The threads that go have given their identifiers back when they are joined (\<open>es\<close>); what the
  others do (\<open>fs\<close>) interleaves as it may.
\<close>

definition leaving :: "(int \<times> nat) list \<Rightarrow> pmd_key list \<Rightarrow> pmd_key \<Rightarrow> bool" where
  "leaving pmd_cores threads pmd \<longleftrightarrow> pmd \<in> set threads \<and> unwanted_pmd pmd_cores pmd"

definition interleaving :: "(int \<times> nat) list \<Rightarrow> pmd_key list \<Rightarrow> qid_event list \<Rightarrow> qid_event list \<Rightarrow> bool" where
  "interleaving pmd_cores threads es fs \<longleftrightarrow>
     (\<forall>pmd\<in>qid_pmd ` (set es \<union> set fs) \<union> set threads \<union> set (started_pmds pmd_cores threads).
        if leaving pmd_cores threads pmd
        then of_pmd pmd es = qid_program pmd_cores threads pmd \<and> of_pmd pmd fs = []
        else of_pmd pmd es = [] \<and> of_pmd pmd fs = qid_program pmd_cores threads pmd)"

definition qids_before :: "'p id_pool \<Rightarrow> pmd_key list \<Rightarrow> 'p qid_state \<Rightarrow> bool" where
  "qids_before P threads s \<longleftrightarrow> qids_ok P (set threads) s \<and> qs_qid s None = Some 0 \<and>
     (\<forall>pmd\<in>set threads. \<exists>i<length threads. qs_qid s pmd = Some i)"

lemma interleavingD:
  assumes "interleaving pmd_cores threads es fs"
  shows "of_pmd pmd es = (if leaving pmd_cores threads pmd then qid_program pmd_cores threads pmd else [])"
    and "of_pmd pmd fs = (if leaving pmd_cores threads pmd then [] else qid_program pmd_cores threads pmd)"
proof -
  have "of_pmd pmd es = (if leaving pmd_cores threads pmd then qid_program pmd_cores threads pmd else []) \<and>
    of_pmd pmd fs = (if leaving pmd_cores threads pmd then [] else qid_program pmd_cores threads pmd)"
  proof (cases "pmd \<in> qid_pmd ` (set es \<union> set fs) \<union> set threads \<union> set (started_pmds pmd_cores threads)")
    case True
    then show ?thesis using assms unfolding interleaving_def by (auto split: if_splits)
  next
    case False
    then have "of_pmd pmd es = []" "of_pmd pmd fs = []" by (auto simp: filter_empty_conv)
    moreover have "qid_program pmd_cores threads pmd = []" "\<not> leaving pmd_cores threads pmd"
      using False by (simp_all add: qid_program_def leaving_def)
    ultimately show ?thesis by simp
  qed
  then show "of_pmd pmd es = (if leaving pmd_cores threads pmd then qid_program pmd_cores threads pmd else [])"
    "of_pmd pmd fs = (if leaving pmd_cores threads pmd then [] else qid_program pmd_cores threads pmd)"
    by blast+
qed

lemma static_qids_law:
  assumes P: "id_pool_ok P" and t: "threads_wf threads" and c: "cores_wf pmd_cores"
    and s: "qids_before P threads s" and i: "interleaving pmd_cores threads es fs"
    and size: "length threads \<le> ip_size P" "Suc (length pmd_cores) \<le> ip_size P"
  shows "\<exists>s'. run_qids P (es @ fs) s = Some s' \<and>
    (let final = reconfigure_pmd_threads pmd_cores threads
     in qids_ok P (set final) s' \<and> qs_qid s' None = Some 0 \<and>
        (\<forall>pmd\<in>set final. \<exists>i<length final. qs_qid s' pmd = Some i))"
proof -
  let ?final = "reconfigure_pmd_threads pmd_cores threads"
  note f = final_threads [OF t c]
  note i1 = interleavingD(1) [OF i] and i2 = interleavingD(2) [OF i]
  have cards: "card (set threads) = length threads" "card (set ?final) = length ?final"
    using t f(2) by (simp_all add: threads_wf_def distinct_card)
  have ok: "qids_ok P (set threads) s" and old: "\<forall>pmd\<in>set threads. \<exists>i<length threads. qs_qid s pmd = Some i"
    using s by (simp_all add: qids_before_def)
  have es: "\<forall>e\<in>set es. qid_pmd e \<in> set threads"
  proof
    fix e assume "e \<in> set es"
    then have "of_pmd (qid_pmd e) es \<noteq> []" by (auto simp: filter_empty_conv)
    then show "qid_pmd e \<in> set threads" unfolding i1 by (simp add: leaving_def split: if_splits)
  qed
  have alt1: "\<forall>pmd\<in>set threads. alternates (qs_qid s pmd \<noteq> None) (of_pmd pmd es)"
    unfolding i1 using old by (force simp: leaving_def qid_program_def)
  from run_qids_law [OF P _ _ ok es alt1] cards(1) size(1) obtain s1 where
    r1: "run_qids P es s = Some s1" "qids_ok P (set threads) s1"
      "\<forall>pmd\<in>set threads. holds_after (length threads) (qs_qid s pmd) (of_pmd pmd es) (qs_qid s1 pmd)"
    by auto
  have gone: "qs_qid s1 pmd = None" if "pmd \<notin> set ?final" for pmd
  proof (cases "pmd \<in> set threads")
    case True
    then have "leaving pmd_cores threads pmd"
      using that by (auto simp: leaving_def reconfigure_pmd_threads_def kept_pmds_def)
    then have "of_pmd pmd es = [Qid_Free pmd]" unfolding i1 by (simp add: leaving_def qid_program_def)
    then show ?thesis using r1(3) True by (force simp: holds_after_def)
  next
    case False
    then show ?thesis using r1(2) by (auto simp: qids_ok_def)
  qed
  then have "dom (qs_qid s1) \<subseteq> set ?final" by (metis domD option.distinct(1) subsetI)
  then have ok1: "qids_ok P (set ?final) s1" using r1(2) by (simp add: qids_ok_def)
  have kept: "\<not> leaving pmd_cores threads pmd" if "pmd \<in> set ?final" for pmd
    using that f(1) by (auto simp: leaving_def unwanted_pmd_def)
  have same: "qs_qid s1 pmd = qs_qid s pmd" if "pmd \<in> set ?final" "pmd \<in> set threads" for pmd
    using r1(3) that kept [OF that(1)] unfolding i1 by (auto simp: holds_after_def)
  have fresh: "qs_qid s1 pmd = None" if "pmd \<notin> set threads" for pmd
    using r1(2) that by (auto simp: qids_ok_def)
  have final: "pmd \<in> set ?final" if "of_pmd pmd fs \<noteq> []" for pmd
    using that unfolding i2 by (auto simp: leaving_def qid_program_def reconfigure_pmd_threads_def kept_pmds_def split: if_splits)
  have fs: "\<forall>e\<in>set fs. qid_pmd e \<in> set ?final"
  proof
    fix e assume "e \<in> set fs"
    then show "qid_pmd e \<in> set ?final" by (intro final) (auto simp: filter_empty_conv)
  qed
  have alt2: "\<forall>pmd\<in>set ?final. alternates (qs_qid s1 pmd \<noteq> None) (of_pmd pmd fs)"
  proof
    fix pmd assume pmd: "pmd \<in> set ?final"
    show "alternates (qs_qid s1 pmd \<noteq> None) (of_pmd pmd fs)"
      using kept [OF pmd] same [OF pmd] fresh old unfolding i2
      by (cases "pmd \<in> set threads") (force simp: leaving_def qid_program_def)+
  qed
  from run_qids_law [OF P _ _ ok1 fs alt2] cards(2) f(3) size(2) obtain s2 where
    r2: "run_qids P fs s1 = Some s2" "qids_ok P (set ?final) s2"
      "\<forall>pmd\<in>set ?final. holds_after (length ?final) (qs_qid s1 pmd) (of_pmd pmd fs) (qs_qid s2 pmd)"
    by auto
  have none: "qs_qid s2 None = Some 0"
  proof -
    have n: "None \<in> set ?final" "None \<in> set threads" using f(1) t by (simp_all add: threads_wf_def)
    have "of_pmd None fs = []" unfolding i2 using n(2) by (simp add: qid_program_def unwanted_pmd_def leaving_def)
    then show ?thesis using r2(3) n same [OF n] s by (force simp: holds_after_def qids_before_def)
  qed
  have "\<exists>i<length ?final. qs_qid s2 pmd = Some i" if pmd: "pmd \<in> set ?final" for pmd
  proof (cases "of_pmd pmd fs = []")
    case True
    then have e: "qs_qid s2 pmd = qs_qid s1 pmd" using r2(3) pmd by (auto simp: holds_after_def)
    have prog: "qid_program pmd_cores threads pmd = []" using True kept [OF pmd] unfolding i2 by simp
    have in_threads: "pmd \<in> set threads"
      using prog pmd by (auto simp: qid_program_def reconfigure_pmd_threads_def kept_pmds_def split: if_splits)
    show ?thesis
    proof (cases "pmd = None")
      case True
      then show ?thesis using none f(3) by simp
    next
      case False
      then have "\<not> adjust_static_tx_qids pmd_cores threads"
        using prog in_threads kept [OF pmd] by (auto simp: qid_program_def leaving_def split: if_splits)
      then have "length threads \<le> length ?final" using f(3) by (simp add: adjust_static_tx_qids_def)
      moreover obtain j where "j < length threads" "qs_qid s pmd = Some j" using old in_threads by blast
      ultimately show ?thesis using e same [OF pmd in_threads] by simp
    qed
  next
    case False
    then have p: "of_pmd pmd fs = qid_program pmd_cores threads pmd" "qid_program pmd_cores threads pmd \<noteq> []"
      using kept [OF pmd] unfolding i2 by auto
    then have "last (of_pmd pmd fs) = Qid_Alloc pmd"
      using kept [OF pmd] by (auto simp: qid_program_def leaving_def split: if_splits)
    then show ?thesis using r2(3) pmd False by (force simp: holds_after_def)
  qed
  then show ?thesis using r1(1) r2(1,2) none by (auto simp: run_qids_append Let_def)
qed

end
