(* ===== verification/Dpif_Tx_Properties.thy ===== *)
theory Dpif_Tx_Properties
  imports Dpif_Tx_Config Dpif_Tx_Qid
begin

text \<open>
  The properties of the transmission side of the datapath, each with a small system to which it
  applies: three ports (one with a single queue, one with a queue for each thread, one in hash
  mode) and two threads.
\<close>

section \<open>A small system\<close>

definition demo_tx_env :: tx_env where
  "demo_tx_env =
     \<lparr>te_flow_hash = tk_size, te_batch_add = (\<lambda>b pk. b @ [pk]), te_batch_clone = (\<lambda>b. b), te_reset_cutlen = (\<lambda>b. b),
      te_apply_cutlen = (\<lambda>b. b), te_cycle_timer_stop = (\<lambda>s. 900), te_bond_mask = 1, te_tx_flush_interval = 50,
      te_dpdk_netdev = True\<rparr>"

definition demo_tx_pkt :: "nat \<Rightarrow> u32 \<Rightarrow> tx_pkt" where
  "demo_tx_pkt i h = \<lparr>tk_id = i, tk_size = 64, tk_source = 0, tk_rss_valid = True, tk_rss_hash = h\<rparr>"

definition demo_tx_ports :: "tx_dev_port list" where
  "demo_tx_ports =
     [\<lparr>po_no = 1, po_mode = TXQ_MODE_XPS, po_need_reconfigure = False, po_n_txq = 1, po_tunnel = False, po_txq_used = [1],
       po_requested_mode = TXQ_REQ_MODE_THREAD, po_listed = True\<rparr>,
      \<lparr>po_no = 2, po_mode = TXQ_MODE_STATIC, po_need_reconfigure = False, po_n_txq = 2, po_tunnel = True, po_txq_used = [0, 0],
       po_requested_mode = TXQ_REQ_MODE_THREAD, po_listed = True\<rparr>,
      \<lparr>po_no = 3, po_mode = TXQ_MODE_XPS_HASH, po_need_reconfigure = False, po_n_txq = 2, po_tunnel = False, po_txq_used = [0, 0],
       po_requested_mode = TXQ_REQ_MODE_HASH, po_listed = True\<rparr>]"

definition demo_cached :: "nat \<Rightarrow> tx_port" where
  "demo_cached p = new_tx_port p (demo_tx_ports ! p)"

definition demo_tx_thread :: "nat \<Rightarrow> tx_port list \<Rightarrow> int \<Rightarrow> tx_thread" where
  "demo_tx_thread qid txs batches =
     \<lparr>tt_now = 100, tt_last_rxq = Some 4, tt_static_tx_qid = qid, tt_n_output_batches = batches, tt_send_ports = txs,
      tt_tnl_ports = [demo_cached 1], tt_tx_ports = map demo_cached [0, 1, 2],
      tt_bonds = [\<lparr>bo_id = 7, bo_member_buckets =
        [\<lparr>me_member_id = 2, me_n_packets = 5, me_n_bytes = 500\<rparr>, \<lparr>me_member_id = 9, me_n_packets = 0, me_n_bytes = 0\<rparr>]\<rparr>],
      tt_need_reload = False, tt_sent_pkts = 10, tt_sent_batches = 2\<rparr>"

text \<open>The first thread uses the only queue of the first port, and a packet waits on the last one.\<close>

definition demo_tx_threads :: "tx_thread list" where
  "demo_tx_threads =
     [demo_tx_thread 0 [(demo_cached 0)\<lparr>tp_qid := 0\<rparr>, demo_cached 1, (demo_cached 2)\<lparr>tp_output_pkts := [demo_tx_pkt 0 3]\<rparr>] 1,
      demo_tx_thread 1 (map demo_cached [0, 1, 2]) 0]"

definition demo_tx_state :: tx_state where
  "demo_tx_state =
     \<lparr>ts_thread = demo_tx_threads ! 0, ts_ports = demo_tx_ports, ts_sends = [], ts_freed = [],
      ts_rxq_cycles = (\<lambda>q. 0), ts_drop_invalid_port = 0, ts_drop_invalid_bond = 0\<rparr>"

definition demo_tx_sys :: tx_sys where
  "demo_tx_sys = \<lparr>sx_threads = demo_tx_threads, sx_state = demo_tx_state\<rparr>"

lemmas demo_tx_defs = demo_tx_ports_def demo_cached_def demo_tx_thread_def demo_tx_threads_def demo_tx_state_def
  demo_tx_sys_def demo_tx_pkt_def new_tx_port_def

lemma demo_tx_env_ok: "tx_env_ok demo_tx_env"
  by (simp add: tx_env_ok_def demo_tx_env_def)

lemma demo_tx_sys_ok: "tx_sys_ok demo_tx_env demo_tx_sys"
proof -
  have "tx_all_ok demo_tx_env demo_tx_ports th" if "th \<in> set demo_tx_threads" for th
    using that
    by (auto simp: tx_all_ok_def tx_thread_ok_def tx_port_ok_def assigned_ok_def template_ok_def bonds_ok_def synced_def
        demo_tx_defs demo_tx_env_def NETDEV_MAX_BURST_def)
  moreover have "\<forall>p<length demo_tx_ports. length (po_txq_used (demo_tx_ports ! p)) = po_n_txq (demo_tx_ports ! p) \<and>
      (\<forall>q<po_n_txq (demo_tx_ports ! p). po_txq_used (demo_tx_ports ! p) ! q = of_nat (all_users demo_tx_sys p q))"
    by (auto simp: demo_tx_defs all_users_def less_Suc_eq numeral_3_eq_3 numeral_2_eq_2)
  ultimately show ?thesis by (simp add: tx_sys_ok_def demo_tx_sys_def demo_tx_state_def sends_valid_def)
qed

lemma demo_tx_state_ok:
  "tx_all_ok demo_tx_env (ts_ports demo_tx_state) (ts_thread demo_tx_state)" "tx_ok demo_tx_state"
  "bonds_ok demo_tx_env (ts_thread demo_tx_state)" "assigned_ok (ts_ports demo_tx_state) (ts_thread demo_tx_state)"
proof -
  show a: "tx_all_ok demo_tx_env (ts_ports demo_tx_state) (ts_thread demo_tx_state)"
    using demo_tx_sys_ok by (simp add: tx_sys_ok_def demo_tx_sys_def demo_tx_state_def demo_tx_threads_def)
  then show "tx_ok demo_tx_state" "bonds_ok demo_tx_env (ts_thread demo_tx_state)"
    "assigned_ok (ts_ports demo_tx_state) (ts_thread demo_tx_state)"
    by (simp_all add: tx_all_ok_def tx_ok_def)
qed

section \<open>Output\<close>

text \<open>C7: Output of a batch of at most 32 packets to a port returns without a fault.  If the thread does
  not know the port, the packets are counted as dropped and freed where they may be taken.
  Otherwise the packets are appended, in their order, to the stream of the port (what
  was sent and what waits): for every hash of a packet the stream keeps its order, no other port
  changes, packets sent plus packets waiting grow by the size of the batch, and whatever had to
  be flushed went to a queue that the port has.\<close>

theorem output_keeps_the_order_of_flows:
  assumes "tx_env_ok X" and "tx_ok s" and "packets \<noteq> []" and "length packets \<le> NETDEV_MAX_BURST"
  shows "\<exists>known left s'. dp_execute_output_action X packets steal no s = Inr (known, left, s') \<and>
    (case send_pos s no of
       None \<Rightarrow> \<not> known \<and> left = (if steal then [] else packets) \<and>
         s' = s\<lparr>ts_drop_invalid_port := ts_drop_invalid_port s + length packets,
                ts_freed := ts_freed s @ (if steal then packets else [])\<rparr>
     | Some i \<Rightarrow> known \<and> left = (if steal then [] else te_reset_cutlen X packets) \<and>
         tx_ok s' \<and> (sends_valid s \<longrightarrow> sends_valid s') \<and> ts_freed s' = ts_freed s \<and>
         tx_total s' = tx_total s + length packets \<and>
         (\<forall>q h. flow_stream X s' q h = flow_stream X s q h @
            (if q = tp_port (sends_ports s ! i)
             then filter (\<lambda>pk. tx_hash X pk = h) (tx_out X packets steal) else [])))"
proof -
  from output_action_law [OF assms, of steal no] obtain known left s' where
    o: "dp_execute_output_action X packets steal no s = Inr (known, left, s')"
    and c: "case send_pos s no of
       Some i \<Rightarrow> known \<and> left = (if steal then [] else te_reset_cutlen X packets) \<and> i < length (sends_ports s) \<and>
         tx_appends X (tp_port (sends_ports s ! i)) (tx_out X packets steal) s s'
     | None \<Rightarrow> \<not> known \<and> left = (if steal then [] else packets) \<and>
         s' = s\<lparr>ts_drop_invalid_port := ts_drop_invalid_port s + length packets,
                ts_freed := ts_freed s @ (if steal then packets else [])\<rparr>"
    unfolding send_pos_def by blast
  show ?thesis
  proof (cases "send_pos s no")
    case (Some i)
    then have a: "tx_appends X (tp_port (sends_ports s ! i)) (tx_out X packets steal) s s'" using c by simp
    have "ts_freed s' = ts_freed s" using tx_appendsD(3) [OF a] by (simp add: tx_side_def)
    moreover have "known" "left = (if steal then [] else te_reset_cutlen X packets)" using c Some by simp_all
    moreover have "tx_total s' = tx_total s + length packets" using tx_appendsD(6) [OF a] length_tx_out [OF assms(1)] by simp
    ultimately show ?thesis unfolding Some option.case using o tx_appendsD(2,4,5) [OF a] by blast
  next
    case None
    then have "\<not> known" "left = (if steal then [] else packets)"
      "s' = s\<lparr>ts_drop_invalid_port := ts_drop_invalid_port s + length packets,
              ts_freed := ts_freed s @ (if steal then packets else [])\<rparr>"
      using c by simp_all
    then show ?thesis unfolding None option.case using o by blast
  qed
qed

theorem output_keeps_the_order_of_flows_witness:
  "\<exists>left s'. dp_execute_output_action demo_tx_env [demo_tx_pkt 1 3, demo_tx_pkt 2 4] True 3 demo_tx_state = Inr (True, left, s') \<and>
     flow_stream demo_tx_env s' 2 3 = [demo_tx_pkt 0 3, demo_tx_pkt 1 3]"
proof -
  have pos: "send_pos demo_tx_state 3 = Some 2" by (simp add: send_pos_def demo_tx_defs)
  have port: "tp_port (sends_ports demo_tx_state ! 2) = 2" by (simp add: demo_tx_defs)
  have "flow_stream demo_tx_env demo_tx_state 2 3 = [demo_tx_pkt 0 3]"
    by (simp add: flow_stream_def sent_on_def waiting_on_def demo_tx_defs tx_hash_def)
  moreover have "filter (\<lambda>pk. tx_hash demo_tx_env pk = 3) (tx_out demo_tx_env [demo_tx_pkt 1 3, demo_tx_pkt 2 4] True) = [demo_tx_pkt 1 3]"
    by (simp add: tx_out_def demo_tx_env_def demo_tx_pkt_def tx_hash_def)
  ultimately show ?thesis
    using output_keeps_the_order_of_flows [OF demo_tx_env_ok demo_tx_state_ok(2), of "[demo_tx_pkt 1 3, demo_tx_pkt 2 4]" True 3]
    by (auto simp: pos port NETDEV_MAX_BURST_def)
qed

text \<open>A flush of a thread returns without a fault and sends what it should: exactly the ports
  that have packets and are due (or all of them, when forced) are emptied, the result is the
  number of packets that left, the stream of every flow on every port stays as it is (so no packet
  is lost, repeated or overtaken within its flow), and every send names a queue that exists.\<close>

theorem flush_sends_what_is_due:
  assumes "tx_env_ok X" and "tx_ok s"
  shows "\<exists>n s'. dp_netdev_pmd_flush_output_packets X force s = Inr (n, s') \<and> tx_ok s' \<and>
    (\<forall>j<length (sends_ports s). waiting s' ! j = (if flush_due force s j then [] else waiting s ! j)) \<and>
    n + length (concat (waiting s')) = length (concat (waiting s)) \<and>
    tt_sent_pkts (ts_thread s') = tt_sent_pkts (ts_thread s) + n \<and>
    (\<forall>p h. flow_stream X s' p h = flow_stream X s p h) \<and> (sends_valid s \<longrightarrow> sends_valid s')"
proof -
  from flush_output_packets_law [OF assms, of force] obtain n s' where
    f: "dp_netdev_pmd_flush_output_packets X force s = Inr (n, s')" "tx_conserves X s s'"
      "n + length (concat (waiting s')) = length (concat (waiting s))"
      "\<forall>j<length (sends_ports s). waiting s' ! j = (if flush_due force s j then [] else waiting s ! j)"
    by blast
  note c = tx_conservesD [OF f(2)]
  have "tt_sent_pkts (ts_thread s') = tt_sent_pkts (ts_thread s) + n"
    using c(6) f(3) by (simp add: tx_total_def)
  then show ?thesis using f(1,3,4) c(2,4,5) by blast
qed

theorem flush_sends_what_is_due_witness:
  "\<exists>s'. dp_netdev_pmd_flush_output_packets demo_tx_env True demo_tx_state = Inr (1, s') \<and> concat (waiting s') = []"
proof -
  from flush_sends_what_is_due [OF demo_tx_env_ok demo_tx_state_ok(2), of True] obtain n s' where
    f: "dp_netdev_pmd_flush_output_packets demo_tx_env True demo_tx_state = Inr (n, s')"
      "\<forall>j<3. waiting s' ! j = (if flush_due True demo_tx_state j then [] else waiting demo_tx_state ! j)"
      "n + length (concat (waiting s')) = 1"
      "\<forall>p h. flow_stream demo_tx_env s' p h = flow_stream demo_tx_env demo_tx_state p h"
      "tx_ok s'"
    by (auto simp: demo_tx_defs)
  from f(1) forced_flush_empties [OF demo_tx_env_ok demo_tx_state_ok(2)] have e: "concat (waiting s') = []" by auto
  then have "n = 1" using f(3) by (metis add.right_neutral list.size(3))
  then show ?thesis using f(1) e by blast
qed

section \<open>Shared transmit queues\<close>

text \<open>A thread that sends on a port with fewer queues than threads keeps the queue it has as long
  as it used it less than half a second ago, and otherwise gives that queue back and takes one
  with the least number of users (its own old queue not counted); the queue exists, the thread
  remembers it, and nothing that waits is touched.\<close>

theorem shared_queue_is_least_used:
  assumes "tx_ok s" and "i < length (sends_ports s)"
    and "po_mode (ts_ports s ! tp_port (sends_ports s ! i)) = TXQ_MODE_XPS"
  shows "\<exists>q s'. dpif_netdev_xps_get_tx_qid i s = Inr (int q, s') \<and> tx_ok s' \<and>
    q < po_n_txq (ts_ports s ! tp_port (sends_ports s ! i)) \<and> tp_qid (sends_ports s' ! i) = int q \<and>
    waits (sends_ports s') = waits (sends_ports s) \<and>
    (let tx = sends_ports s ! i; used = released (po_txq_used (ts_ports s ! tp_port tx)) (tp_qid tx)
     in if 0 \<le> tp_qid tx \<and> tt_now (ts_thread s) - tp_last_used tx < XPS_TIMEOUT
        then tp_qid tx = int q \<and> ts_ports s' = ts_ports s
        else \<forall>j<po_n_txq (ts_ports s ! tp_port tx). used ! q \<le> used ! j)"
proof -
  from xps_get_tx_qid_law [OF assms(1,2) refl assms(3)] obtain q txs ports where
    x: "dpif_netdev_xps_get_tx_qid i s =
        Inr (int q, s\<lparr>ts_thread := (ts_thread s)\<lparr>tt_send_ports := txs\<rparr>, ts_ports := ports\<rparr>)"
      "tx_kept s (s\<lparr>ts_thread := (ts_thread s)\<lparr>tt_send_ports := txs\<rparr>, ts_ports := ports\<rparr>)"
      "waits txs = waits (sends_ports s)" "q < po_n_txq (ts_ports s ! tp_port (sends_ports s ! i))" "tp_qid (txs ! i) = int q"
      "if 0 \<le> tp_qid (sends_ports s ! i) \<and> tt_now (ts_thread s) - tp_last_used (sends_ports s ! i) < XPS_TIMEOUT
       then tp_qid (sends_ports s ! i) = int q \<and> ports = ts_ports s
       else \<forall>j<po_n_txq (ts_ports s ! tp_port (sends_ports s ! i)).
              released (po_txq_used (ts_ports s ! tp_port (sends_ports s ! i))) (tp_qid (sends_ports s ! i)) ! q \<le>
              released (po_txq_used (ts_ports s ! tp_port (sends_ports s ! i))) (tp_qid (sends_ports s ! i)) ! j"
    by blast
  show ?thesis unfolding Let_def
    by (intro exI conjI, rule x(1)) (use x(2-6) tx_keptD(1) [OF x(2)] in simp_all)
qed

theorem shared_queue_is_least_used_witness:
  "\<exists>q s'. dpif_netdev_xps_get_tx_qid 0 demo_tx_state = Inr (int q, s') \<and> q < 1"
proof -
  have "po_mode (ts_ports demo_tx_state ! tp_port (sends_ports demo_tx_state ! 0)) = TXQ_MODE_XPS"
    "0 < length (sends_ports demo_tx_state)" "po_n_txq (ts_ports demo_tx_state ! tp_port (sends_ports demo_tx_state ! 0)) = 1"
    by (simp_all add: demo_tx_defs)
  then show ?thesis using shared_queue_is_least_used [OF demo_tx_state_ok(2), of 0] by fastforce
qed

text \<open>C8: In every state that the threads and the main thread can reach, in any order of their steps
  (output, load balancing, flushes, reloads, assignment and removal of ports, reconfiguration of
  unused ports, changes of bonds, threads that start, go or take another queue of their own), the
  counter of each transmit queue is the number of threads
  that use the queue, the caches of every thread are well formed, and every send so far named a
  queue that the port had.\<close>

theorem queue_counters_count_users:
  assumes "tx_env_ok X" and "(tx_sys_step X)\<^sup>*\<^sup>* y y'" and "tx_sys_ok X y"
    and "length (sx_threads y') < 2 ^ 32"
  shows "tx_sys_ok X y' \<and>
    (\<forall>p<length (sx_ports y'). \<forall>q<po_n_txq (sx_ports y' ! p).
       unat (po_txq_used (sx_ports y' ! p) ! q) = all_users y' p q \<and> all_users y' p q \<le> length (sx_threads y')) \<and>
    (\<forall>se\<in>set (ts_sends (sx_state y')). 0 \<le> se_qid se \<and> se_qid se < int (se_n_txq se))"
proof -
  have ok: "tx_sys_ok X y'" by (rule tx_sys_run_ok [OF assms(1-3)])
  have "unat (po_txq_used (sx_ports y' ! p) ! q) = all_users y' p q"
    if "p < length (sx_ports y')" "q < po_n_txq (sx_ports y' ! p)" for p q
  proof -
    have "all_users y' p q < 2 ^ 32" using all_users_le [OF ok, of p q] assms(4) by simp
    then show ?thesis unfolding tx_sys_okD(3) [OF ok that] by (simp add: unat_of_nat take_bit_eq_mod)
  qed
  then show ?thesis using ok all_users_le [OF ok] tx_sys_okD(4) [OF ok] by (simp add: sends_valid_def)
qed

theorem queue_counters_count_users_witness:
  "\<exists>y'. (tx_sys_step demo_tx_env)\<^sup>*\<^sup>* demo_tx_sys y' \<and> tx_sys_ok demo_tx_env y' \<and> length (sx_threads y') = 2"
proof -
  have two: "length (sx_threads demo_tx_sys) = 2" by (simp add: demo_tx_defs)
  from run_tx_op_law [OF demo_tx_env_ok demo_tx_state_ok(1), of "Op_Flush True"] obtain s' where
    s': "run_tx_op demo_tx_env (Op_Flush True) demo_tx_state = Inr s'" by auto
  have "focus 0 demo_tx_sys = demo_tx_state" by (simp add: focus_def demo_tx_sys_def demo_tx_state_def)
  then have "tx_sys_step demo_tx_env demo_tx_sys (unfocus 0 s' demo_tx_sys)"
    using s' two by (intro tx_sys_step.thread_acts [of _ _ "Op_Flush True"]) auto
  then have r: "(tx_sys_step demo_tx_env)\<^sup>*\<^sup>* demo_tx_sys (unfocus 0 s' demo_tx_sys)" by (rule r_into_rtranclp)
  have n: "length (sx_threads (unfocus 0 s' demo_tx_sys)) = 2" using two by (simp add: unfocus_def)
  have "tx_sys_ok demo_tx_env (unfocus 0 s' demo_tx_sys)"
    using queue_counters_count_users [OF demo_tx_env_ok r demo_tx_sys_ok] n by simp
  then show ?thesis using r n by blast
qed

section \<open>Operations of a thread\<close>

text \<open>C12: Load balancing returns without a fault for a batch of any size.  Every packet goes to the
  member of the bucket of its hash: the packets whose member is the port at a position are
  appended to its stream in order, each of them is counted once in its bucket, with its
  size, and the packets whose member the thread does not know are freed and not counted.  For
  an unknown bond the batch is dropped and counted.\<close>

theorem load_balancing_follows_the_buckets:
  assumes "tx_env_ok X" and "tx_ok s" and "bonds_ok X (ts_thread s)"
  shows "\<exists>left s'. dp_execute_lb_output_action X packets steal bond s = Inr (left, s') \<and>
    (case tx_bond_lookup (tt_bonds (ts_thread s)) bond of
       None \<Rightarrow> left = (if steal then [] else packets) \<and>
         s' = s\<lparr>ts_drop_invalid_bond := ts_drop_invalid_bond s + length packets,
                ts_freed := ts_freed s @ (if steal then packets else [])\<rparr>
     | Some b \<Rightarrow> left = (if steal then [] else te_reset_cutlen X packets) \<and> tx_ok s' \<and>
         (let pks = tx_out X packets steal
          in (\<forall>p h. flow_stream X s' p h = flow_stream X s p h @ filter (\<lambda>pk. tx_hash X pk = h) (lb_out X s b p pks)) \<and>
             ts_freed s' = ts_freed s @ filter (\<lambda>pk. lb_target X s b pk = None) pks \<and>
             (\<forall>k. me_n_packets (member_at s' b k) = me_n_packets (member_at s b k) + of_nat (length (lb_counted X s b k pks))) \<and>
             (\<forall>k. me_n_bytes (member_at s' b k) =
                me_n_bytes (member_at s b k) + sum_list (map (\<lambda>pk. ucast (tk_size pk)) (lb_counted X s b k pks)))))"
proof -
  from lb_action_law [OF assms, of packets steal bond] obtain left s' where
    l: "dp_execute_lb_output_action X packets steal bond s = Inr (left, s')"
      "case tx_bond_lookup (tt_bonds (ts_thread s)) bond of
         Some b \<Rightarrow> left = (if steal then [] else te_reset_cutlen X packets) \<and> lb_done X b (tx_out X packets steal) s s'
       | None \<Rightarrow> left = (if steal then [] else packets) \<and>
           s' = s\<lparr>ts_drop_invalid_bond := ts_drop_invalid_bond s + length packets,
                  ts_freed := ts_freed s @ (if steal then packets else [])\<rparr>"
    by blast
  show ?thesis
  proof (intro exI conjI, rule l(1), cases "tx_bond_lookup (tt_bonds (ts_thread s)) bond")
    case (Some b)
    then have d: "lb_done X b (tx_out X packets steal) s s'" "left = (if steal then [] else te_reset_cutlen X packets)"
      using l(2) by simp_all
    have "tx_ok s'" using d(1) tx_keptD(1) by (auto simp: lb_done_def)
    then show "case tx_bond_lookup (tt_bonds (ts_thread s)) bond of
       None \<Rightarrow> left = (if steal then [] else packets) \<and>
         s' = s\<lparr>ts_drop_invalid_bond := ts_drop_invalid_bond s + length packets,
                ts_freed := ts_freed s @ (if steal then packets else [])\<rparr>
     | Some b \<Rightarrow> left = (if steal then [] else te_reset_cutlen X packets) \<and> tx_ok s' \<and>
         (let pks = tx_out X packets steal
          in (\<forall>p h. flow_stream X s' p h = flow_stream X s p h @ filter (\<lambda>pk. tx_hash X pk = h) (lb_out X s b p pks)) \<and>
             ts_freed s' = ts_freed s @ filter (\<lambda>pk. lb_target X s b pk = None) pks \<and>
             (\<forall>k. me_n_packets (member_at s' b k) = me_n_packets (member_at s b k) + of_nat (length (lb_counted X s b k pks))) \<and>
             (\<forall>k. me_n_bytes (member_at s' b k) =
                me_n_bytes (member_at s b k) + sum_list (map (\<lambda>pk. ucast (tk_size pk)) (lb_counted X s b k pks))))"
      unfolding Some option.case Let_def using d unfolding lb_done_def by blast
  qed (use l(2) in simp)
qed

theorem load_balancing_follows_the_buckets_witness:
  "\<exists>left s'. dp_execute_lb_output_action demo_tx_env [demo_tx_pkt 1 4, demo_tx_pkt 2 5] True 7 demo_tx_state = Inr (left, s') \<and>
     me_n_packets (member_at s' 0 0) = 6 \<and> me_n_bytes (member_at s' 0 0) = 564 \<and> ts_freed s' = [demo_tx_pkt 2 5]"
proof -
  have b: "tx_bond_lookup (tt_bonds (ts_thread demo_tx_state)) 7 = Some 0" by (simp add: tx_bond_lookup_def demo_tx_defs)
  have m: "me_n_packets (member_at demo_tx_state 0 0) = 5" "me_n_bytes (member_at demo_tx_state 0 0) = 500"
    by (simp_all add: member_at_def demo_tx_defs)
  have o: "tx_out demo_tx_env pks True = pks" for pks by (simp add: tx_out_def demo_tx_env_def)
  have bucket: "bond_bucket demo_tx_env (demo_tx_pkt i 4) = 0" "bond_bucket demo_tx_env (demo_tx_pkt i 5) = 1" for i
    by (simp_all add: bond_bucket_def demo_tx_env_def demo_tx_pkt_def)
  have t: "lb_target demo_tx_env demo_tx_state 0 (demo_tx_pkt i 4) = Some 1"
    "lb_target demo_tx_env demo_tx_state 0 (demo_tx_pkt i 5) = None" for i
    unfolding lb_target_def bucket by (simp_all add: member_at_def send_pos_def demo_tx_defs)
  have c: "lb_counted demo_tx_env demo_tx_state 0 0 [demo_tx_pkt 1 4, demo_tx_pkt 2 5] = [demo_tx_pkt 1 4]"
    by (simp add: lb_counted_def bucket t)
  have f: "tk_size (demo_tx_pkt i h) = 64" for i h by (simp add: demo_tx_pkt_def)
  have e: "ts_freed demo_tx_state = []" by (simp add: demo_tx_state_def)
  from load_balancing_follows_the_buckets [OF demo_tx_env_ok demo_tx_state_ok(2,3), of "[demo_tx_pkt 1 4, demo_tx_pkt 2 5]" True 7]
  obtain left s' where "dp_execute_lb_output_action demo_tx_env [demo_tx_pkt 1 4, demo_tx_pkt 2 5] True 7 demo_tx_state = Inr (left, s')"
    "me_n_packets (member_at s' 0 0) = 5 + 1" "me_n_bytes (member_at s' 0 0) = 500 + 64" "ts_freed s' = [] @ [demo_tx_pkt 2 5]"
    unfolding b option.case Let_def o using m c f t e by auto
  then show ?thesis by simp
qed

text \<open>C11: A thread that reloads its ports loses nothing: every packet that waited has been sent, after
  those sent before and in the order of its flow, on a queue that exists; the thread gives back
  every shared queue it used; and its caches become the assigned ports that have a transmit queue,
  with nothing waiting and no shared queue taken.\<close>

theorem reload_sends_what_waits:
  assumes "tx_env_ok X" and "tx_ok s" and "assigned_ok (ts_ports s) (ts_thread s)"
  shows "\<exists>s'. pmd_load_cached_ports X s = Inr s' \<and> tx_ok s' \<and>
    (\<forall>p h. filter (\<lambda>pk. tx_hash X pk = h) (sent_on s' p) = flow_stream X s p h) \<and> concat (waiting s') = [] \<and>
    (sends_valid s \<longrightarrow> sends_valid s') \<and>
    sends_ports s' = filter (\<lambda>tx. po_n_txq (ts_ports s ! tp_port tx) \<noteq> 0) (tt_tx_ports (ts_thread s)) \<and>
    (\<forall>tx\<in>set (sends_ports s'). tp_qid tx = -1) \<and>
    (\<forall>p q. po_txq_used (ts_ports s' ! p) ! q = po_txq_used (ts_ports s ! p) ! q - of_nat (txq_users p q (sends_ports s)))"
proof -
  from load_cached_ports_law [OF assms] obtain s' where
    l: "pmd_load_cached_ports X s = Inr s'" "tx_ok s'"
      "txq_balance (ts_ports s') (sends_ports s') = txq_balance (ts_ports s) (sends_ports s)"
      "\<forall>p h. filter (\<lambda>pk. tx_hash X pk = h) (sent_on s' p) = flow_stream X s p h" "concat (waiting s') = []"
      "sends_valid s \<longrightarrow> sends_valid s'"
      "sends_ports s' = filter (\<lambda>tx. po_n_txq (ts_ports s ! tp_port tx) \<noteq> 0) (tt_tx_ports (ts_thread s))"
    by blast
  have q: "\<forall>tx\<in>set (sends_ports s'). tp_qid tx = -1"
    unfolding l(7) using assms(3) by (simp add: assigned_ok_def template_ok_def)
  then have zero: "txq_users p q (sends_ports s') = 0" for p q by (simp add: txq_users_def filter_empty_conv)
  have "po_txq_used (ts_ports s' ! p) ! q = po_txq_used (ts_ports s ! p) ! q - of_nat (txq_users p q (sends_ports s))" for p q
    using fun_cong [OF fun_cong [OF l(3)], of p q] by (simp add: txq_balance_def zero)
  then show ?thesis using l(1,2,4-7) q by blast
qed

theorem reload_sends_what_waits_witness:
  "\<exists>s'. pmd_load_cached_ports demo_tx_env demo_tx_state = Inr s' \<and> concat (waiting s') = [] \<and>
     filter (\<lambda>pk. tx_hash demo_tx_env pk = 3) (sent_on s' 2) = [demo_tx_pkt 0 3] \<and> po_txq_used (ts_ports s' ! 0) ! 0 = 0"
proof -
  have "flow_stream demo_tx_env demo_tx_state 2 3 = [demo_tx_pkt 0 3]"
    by (simp add: flow_stream_def sent_on_def waiting_on_def demo_tx_defs tx_hash_def)
  moreover have "po_txq_used (ts_ports demo_tx_state ! 0) ! 0 - of_nat (txq_users 0 0 (sends_ports demo_tx_state)) = 0"
    by (simp add: demo_tx_defs)
  ultimately show ?thesis using reload_sends_what_waits [OF demo_tx_env_ok demo_tx_state_ok(2,4)] by auto
qed

text \<open>C13: Whatever a thread does (output, load balancing, a flush, a new time, another receive queue, a
  reload) returns without a fault from a well-formed state and leaves one: no null pointer, no
  index out of bounds, no failed assertion and no division by zero; the configuration of the ports
  stays, the counters of the shared queues change by what the thread took or gave back, and every
  send names a queue that exists.\<close>

theorem thread_operations_are_safe:
  assumes "tx_env_ok X" and "tx_all_ok X (ts_ports s) (ts_thread s)" and "tx_op_allowed op" and "sends_valid s"
  shows "\<exists>s'. run_tx_op X op s = Inr s' \<and> tx_all_ok X (ts_ports s') (ts_thread s') \<and>
    shape (ts_ports s') = shape (ts_ports s) \<and>
    (\<forall>p q. po_txq_used (ts_ports s' ! p) ! q - of_nat (txq_users p q (sends_ports s')) =
       po_txq_used (ts_ports s ! p) ! q - of_nat (txq_users p q (sends_ports s))) \<and>
    (\<forall>se\<in>set (ts_sends s'). 0 \<le> se_qid se \<and> se_qid se < int (se_n_txq se))"
proof -
  from run_tx_op_law [OF assms(1-3)] obtain s' where r: "run_tx_op X op s = Inr s'" "tx_op_done X s s'" by blast
  have d: "txq_balance (ts_ports s') (sends_ports s') = txq_balance (ts_ports s) (sends_ports s)"
    "tx_all_ok X (ts_ports s') (ts_thread s')" "shape (ts_ports s') = shape (ts_ports s)" "sends_valid s'"
    using r(2) assms(4) unfolding tx_op_done_def by blast+
  show ?thesis
  proof (intro exI conjI allI, rule r(1), rule d(2), rule d(3))
    show "po_txq_used (ts_ports s' ! p) ! q - of_nat (txq_users p q (sends_ports s')) =
        po_txq_used (ts_ports s ! p) ! q - of_nat (txq_users p q (sends_ports s))" for p q
      using fun_cong [OF fun_cong [OF d(1)], of p q] by (simp only: txq_balance_def)
    show "\<forall>se\<in>set (ts_sends s'). 0 \<le> se_qid se \<and> se_qid se < int (se_n_txq se)"
      using d(4) by (simp only: sends_valid_def)
  qed
qed

theorem thread_operations_are_safe_witness:
  "\<exists>s'. run_tx_op demo_tx_env (Op_Output [demo_tx_pkt 1 3] True 1) demo_tx_state = Inr s' \<and>
     tx_all_ok demo_tx_env (ts_ports s') (ts_thread s')"
proof -
  have "sends_valid demo_tx_state" by (simp add: sends_valid_def demo_tx_state_def)
  moreover have "tx_op_allowed (Op_Output [demo_tx_pkt 1 3] True 1)" by (simp add: NETDEV_MAX_BURST_def)
  ultimately show ?thesis using thread_operations_are_safe [OF demo_tx_env_ok demo_tx_state_ok(1)] by blast
qed

section \<open>Reconfiguration\<close>

text \<open>C9: Reconfiguring the transmission side returns without a fault, from any reachable state and for
  any answers of the devices, and keeps the invariant.  Afterwards every port that is left has the
  mode that its number of queues and the wish of the user call for, no thread sends on a port
  that was removed, and every thread with something to do can send on every port that has queues and
  knows every bond.\<close>

theorem reconfiguration_sets_up_every_thread:
  assumes "tx_env_ok X" and "tx_sys_ok X y" and "unique_numbers (sx_ports y)"
    and "\<forall>u<length (sx_threads y). tt_static_tx_qid (sx_threads y ! u) < length (sx_threads y)" and "bonds_fit X bonds"
  shows "\<exists>y'. reconfigure_tx X N bonds busy y = Inr y' \<and> tx_sys_ok X y' \<and>
    length (sx_threads y') = length (sx_threads y) \<and> length (sx_ports y') = length (sx_ports y) \<and>
    (\<forall>p<length (sx_ports y'). po_listed (sx_ports y' ! p) \<longrightarrow>
       po_mode (sx_ports y' ! p) = choose_txq_mode (length (sx_threads y)) (sx_ports y' ! p)) \<and>
    (\<forall>u<length (sx_threads y').
       (\<forall>tx\<in>set (tt_send_ports (sx_threads y' ! u)). po_listed (sx_ports y' ! tp_port tx)) \<and>
       (busy u \<longrightarrow> knows_bonds bonds (sx_threads y' ! u) \<and>
          (\<forall>p<length (sx_ports y'). po_listed (sx_ports y' ! p) \<and> 0 < po_n_txq (sx_ports y' ! p) \<longrightarrow>
             p \<in> set (map tp_port (tt_send_ports (sx_threads y' ! u))))))"
  by (rule reconfigure_tx_law [OF assms])

theorem reconfiguration_sets_up_every_thread_witness:
  "\<exists>y'. reconfigure_tx demo_tx_env \<lparr>na_reconf_required = (\<lambda>p. p = 1), na_reconfigure = (\<lambda>p. (0, 1)), na_rxq_open = (\<lambda>p. 0)\<rparr>
     [new_tx_bond 8 [1, 2]] (\<lambda>u. True) demo_tx_sys = Inr y' \<and> tx_sys_ok demo_tx_env y'"
proof -
  have "unique_numbers (sx_ports demo_tx_sys)"
    by (auto simp: unique_numbers_def demo_tx_defs less_Suc_eq numeral_3_eq_3)
  moreover have "\<forall>u<length (sx_threads demo_tx_sys). tt_static_tx_qid (sx_threads demo_tx_sys ! u) < length (sx_threads demo_tx_sys)"
    by (simp add: demo_tx_defs less_Suc_eq)
  moreover have "bonds_fit demo_tx_env [new_tx_bond 8 [1, 2]]"
    by (simp add: bonds_fit_def new_tx_bond_def demo_tx_env_def)
  ultimately show ?thesis using reconfiguration_sets_up_every_thread [OF demo_tx_env_ok demo_tx_sys_ok] by blast
qed

text \<open>A port whose reconfiguration has just succeeded is marked for another one at the next turn,
  although its device asks for none and the number of threads is the same, exactly when the user
  asked for hash mode and the port has more than one queue but fewer than threads.\<close>

theorem marked_again_iff_hash_with_few_queues:
  assumes "po_need_reconfigure port" and "port' = reconfigure_one N wanted_txqs p port" and "po_listed port'"
    and "\<not> na_reconf_required N' p"
  shows "po_need_reconfigure (mark_port N' wanted_txqs p port') \<longleftrightarrow>
    po_requested_mode port' = TXQ_REQ_MODE_HASH \<and> 1 < po_n_txq port' \<and> po_n_txq port' < wanted_txqs"
proof -
  have listed: "po_listed port"
  proof (rule ccontr)
    assume "\<not> po_listed port"
    then have "port' = port" using assms(2) by (simp add: reconfigure_one_def)
    then show False using assms(3) \<open>\<not> po_listed port\<close> by simp
  qed
  obtain err port1 where r: "port_reconfigure N p port = (err, port1)" by (cases "port_reconfigure N p port")
  then have ok: "err = 0" using assms(1-3) listed by (auto simp: reconfigure_one_def split: if_splits)
  then have e: "port' = port1\<lparr>po_mode := choose_txq_mode wanted_txqs port1\<rparr>"
    using assms(1,2) listed r by (simp add: reconfigure_one_def)
  have "\<not> po_need_reconfigure port1"
    using r ok by (auto simp: port_reconfigure_def Let_def ERR_EOPNOTSUPP_def split: if_splits prod.splits)
  then show ?thesis using e assms(3,4)
    by (auto simp: mark_port_def port_mode_stale_def choose_txq_mode_def)
qed

theorem marked_again_iff_hash_with_few_queues_witness:
  "po_need_reconfigure (mark_port \<lparr>na_reconf_required = (\<lambda>p. False), na_reconfigure = (\<lambda>p. (0, 2)), na_rxq_open = (\<lambda>p. 0)\<rparr> 3 2
     (reconfigure_one \<lparr>na_reconf_required = (\<lambda>p. False), na_reconfigure = (\<lambda>p. (0, 2)), na_rxq_open = (\<lambda>p. 0)\<rparr> 3 2
        ((demo_tx_ports ! 2)\<lparr>po_need_reconfigure := True\<rparr>)))"
  by (subst marked_again_iff_hash_with_few_queues [OF _ refl])
    (simp_all add: demo_tx_ports_def reconfigure_one_def port_reconfigure_def)

text \<open>C10: After the threads have been reconfigured, in whatever order those that stay, those that are
  started and those that go take and give back their identifiers (a thread that goes has done so
  before the others go on), no allocation fails, every thread that runs has an identifier below
  the number of threads, no two have the same one, and the thread for the ports without threads
  keeps the identifier 0.  So a thread's own transmit queue exists on every port that has as many
  queues as there are threads.\<close>

theorem static_queues_are_distinct_and_small:
  assumes "id_pool_ok P" and "threads_wf threads" and "cores_wf pmd_cores" and "qids_before P threads s"
    and "interleaving pmd_cores threads es fs"
    and "length threads \<le> ip_size P" and "Suc (length pmd_cores) \<le> ip_size P"
  shows "\<exists>s'. run_qids P (es @ fs) s = Some s' \<and>
    (let final = reconfigure_pmd_threads pmd_cores threads
     in dom (qs_qid s') = set final \<and> inj_on (qs_qid s') (set final) \<and> qs_qid s' None = Some 0 \<and>
        (\<forall>pmd\<in>set final. \<exists>i<length final. qs_qid s' pmd = Some i))"
proof -
  from static_qids_law [OF assms] obtain s' where
    r: "run_qids P (es @ fs) s = Some s'" "qids_ok P (set (reconfigure_pmd_threads pmd_cores threads)) s'" "qs_qid s' None = Some 0"
      "\<forall>pmd\<in>set (reconfigure_pmd_threads pmd_cores threads).
         \<exists>i<length (reconfigure_pmd_threads pmd_cores threads). qs_qid s' pmd = Some i"
    unfolding Let_def by blast
  have "dom (qs_qid s') = set (reconfigure_pmd_threads pmd_cores threads)"
    using r(2,4) by (auto simp: qids_ok_def)
  then show ?thesis using r by (simp add: qids_ok_def Let_def)
qed

text \<open>A pool that keeps the list of the identifiers in use.\<close>

definition demo_id_pool :: "nat list id_pool" where
  "demo_id_pool =
     \<lparr>ip_alloc = (\<lambda>used. map_option (\<lambda>i. (i, i # used)) (List.find (\<lambda>i. i \<notin> set used) [0..<4])),
      ip_free = (\<lambda>i used. filter (\<lambda>j. j \<noteq> i) used), ip_used = (\<lambda>used. used), ip_size = 4\<rparr>"

lemma demo_id_pool_ok: "id_pool_ok demo_id_pool"
  by (auto simp: id_pool_ok_def demo_id_pool_def find_None_iff find_Some_iff split: option.splits)

theorem static_queues_are_distinct_and_small_witness:
  "\<exists>s'. run_qids demo_id_pool [Qid_Free (Some (0, 1)), Qid_Free (Some (0, 2)), Qid_Alloc (Some (0, 2))]
      \<lparr>qs_pool = [0, 1, 2], qs_qid = [None \<mapsto> 0, Some (0, 1) \<mapsto> 1, Some (0, 2) \<mapsto> 2]\<rparr> = Some s' \<and>
     dom (qs_qid s') = {None, Some (0, 2)} \<and> (\<exists>i<2. qs_qid s' (Some (0, 2)) = Some i)"
proof -
  let ?threads = "[None, Some (0, 1), Some (0, 2)] :: pmd_key list"
  let ?cores = "[(0, 2)] :: (int \<times> nat) list"
  let ?s = "\<lparr>qs_pool = [0, 1, 2], qs_qid = [None \<mapsto> 0, Some (0, 1) \<mapsto> 1, Some (0, 2) \<mapsto> 2]\<rparr> :: nat list qid_state"
  have wf: "threads_wf ?threads" "cores_wf ?cores" by (simp_all add: threads_wf_def cores_wf_def)
  have before: "qids_before demo_id_pool ?threads ?s"
  proof -
    have "qs_qid ?s pmd = Some i \<longleftrightarrow> (pmd, i) \<in> {(None, 0), (Some (0, 1), 1), (Some (0, 2), 2)}" for pmd i by auto
    then have "ran (qs_qid ?s) = {0, 1, 2}" unfolding ran_def by auto
    moreover have "dom (qs_qid ?s) = set ?threads" by auto
    moreover have "inj_on (qs_qid ?s) (set ?threads)" by simp
    ultimately have "qids_ok demo_id_pool (set ?threads) ?s" by (simp add: qids_ok_def demo_id_pool_def)
    then show ?thesis by (simp add: qids_before_def)
  qed
  have run: "interleaving ?cores ?threads [Qid_Free (Some (0, 1))] [Qid_Free (Some (0, 2)), Qid_Alloc (Some (0, 2))]"
    by (simp add: interleaving_def leaving_def unwanted_pmd_def qid_program_def started_pmds_def kept_pmds_def adjust_static_tx_qids_def)
  have final: "reconfigure_pmd_threads ?cores ?threads = [None, Some (0, 2)]"
    by (simp add: reconfigure_pmd_threads_def started_pmds_def kept_pmds_def unwanted_pmd_def)
  have space: "length ?threads \<le> ip_size demo_id_pool" "Suc (length ?cores) \<le> ip_size demo_id_pool"
    by (simp_all add: demo_id_pool_def)
  from static_queues_are_distinct_and_small [OF demo_id_pool_ok wf before run space] obtain s' where
    "run_qids demo_id_pool ([Qid_Free (Some (0, 1))] @ [Qid_Free (Some (0, 2)), Qid_Alloc (Some (0, 2))]) ?s = Some s'"
    "dom (qs_qid s') = set [None, Some (0, 2)]"
    "\<forall>pmd\<in>set [None, Some (0, 2)]. \<exists>i<length [None, Some (0 :: int, 2 :: nat)]. qs_qid s' pmd = Some i"
    unfolding final Let_def by blast
  then show ?thesis by (intro exI [of _ s'] conjI) (simp_all only: append.simps list.set list.size ball_simps, simp_all add: numeral_2_eq_2)
qed

section \<open>Bonds\<close>

lemma updated_bond_law:
  assumes "bonds_sized bond_id (length member_map) threads" and "th \<in> set threads"
  shows "\<exists>ms. bond_buckets bond_id (dp_netdev_add_bond_tx_to_pmd (new_tx_bond bond_id member_map) True th) = Some ms \<and>
    map me_member_id ms = member_map \<and> (\<forall>k<length member_map. me_n_bytes (ms ! k) = bond_bytes bond_id k th)"
proof -
  let ?new = "new_tx_bond bond_id member_map"
  have n: "bo_id ?new = bond_id" "length (bo_member_buckets ?new) = length member_map"
    "map me_member_id (bo_member_buckets ?new) = member_map"
    by (simp_all add: new_tx_bond_def comp_def)
  have "bonds_sized (bo_id ?new) (length (bo_member_buckets ?new)) [th]"
    using assms unfolding n by (simp add: bonds_sized_def)
  moreover have "\<forall>m\<in>set (bo_member_buckets ?new). me_n_packets m = 0 \<and> me_n_bytes m = 0" by (auto simp: new_tx_bond_def)
  ultimately obtain ms where
    ms: "bond_buckets bond_id (dp_netdev_add_bond_tx_to_pmd ?new True th) = Some ms" "map me_member_id ms = member_map"
      "map me_n_bytes ms = (case bond_buckets bond_id th of
          Some olds \<Rightarrow> map me_n_bytes olds | None \<Rightarrow> replicate (length member_map) 0)"
    using add_bond_updates [of ?new th] unfolding n by blast
  have len: "length ms = length member_map" using ms(2) by (metis length_map)
  have "me_n_bytes (ms ! k) = bond_bytes bond_id k th" if k: "k < length member_map" for k
  proof -
    have e: "me_n_bytes (ms ! k) = map me_n_bytes ms ! k" using k len by simp
    show ?thesis
    proof (cases "bond_buckets bond_id th")
      case (Some olds)
      then have "length olds = length member_map" using assms by (force simp: bonds_sized_def)
      then show ?thesis unfolding e ms(3) using Some k by (simp add: bond_bytes_def)
    qed (use k in \<open>simp add: e ms(3) bond_bytes_def\<close>)
  qed
  then show ?thesis using ms(1,2) by blast
qed

text \<open>Adding or updating a bond gives every thread the new members of its buckets and keeps the
  bytes counted so far: the statistics of each bucket are the sum over the threads of what they
  had counted before.  Removing the bond takes it away from every thread.\<close>

theorem bond_update_keeps_statistics:
  assumes "bonds_sized bond_id (length member_map) threads" and "length n_bytes = length member_map"
    and "\<forall>th\<in>set threads. bonds_distinct th"
  shows "\<exists>bonds' threads'. dpif_netdev_bond_add bond_id member_map (bonds, threads) = (bonds', threads') \<and>
    (\<forall>th\<in>set threads'. \<exists>ms. bond_buckets bond_id th = Some ms \<and> map me_member_id ms = member_map) \<and>
    (\<exists>ns. dpif_netdev_bond_stats_get bond_id (bonds', threads') n_bytes = Some ns \<and> length ns = length member_map \<and>
       (\<forall>k<length member_map. ns ! k = n_bytes ! k + sum_list (map (bond_bytes bond_id k) threads))) \<and>
    (\<forall>bonds''. (\<exists>i. tx_bond_lookup bonds'' bond_id = Some i) \<longrightarrow>
       (\<forall>th\<in>set (snd (snd (dpif_netdev_bond_del bond_id (bonds'', threads)))). bond_buckets bond_id th = None))"
proof -
  let ?new = "new_tx_bond bond_id member_map"
  let ?threads = "map (dp_netdev_add_bond_tx_to_pmd ?new True) threads"
  obtain bonds' where add: "dpif_netdev_bond_add bond_id member_map (bonds, threads) = (bonds', ?threads)"
    and known: "tx_bond_lookup bonds' bond_id \<noteq> None"
  proof
    let ?bonds = "case tx_bond_lookup bonds bond_id of Some i \<Rightarrow> bonds[i := ?new] | None \<Rightarrow> bonds @ [?new]"
    show "dpif_netdev_bond_add bond_id member_map (bonds, threads) = (?bonds, ?threads)"
      by (simp add: dpif_netdev_bond_add_def Let_def)
    have "?new \<in> set ?bonds" using bond_lookup_SomeD by (auto split: option.splits intro: set_update_memI)
    moreover have "bo_id ?new = bond_id" by (simp add: new_tx_bond_def)
    ultimately show "tx_bond_lookup ?bonds bond_id \<noteq> None" unfolding bond_lookup_None by blast
  qed
  note u = updated_bond_law [OF assms(1)]
  have "\<forall>th\<in>set ?threads. \<exists>ms. bond_buckets bond_id th = Some ms \<and> map me_member_id ms = member_map" using u by fastforce
  moreover have "bonds_sized bond_id (length n_bytes) ?threads"
    using u assms(2) by (fastforce simp: bonds_sized_def dest: arg_cong [of _ _ length])
  note stats = sum_bond_bytes_law [OF this]
  have "map (bond_bytes bond_id k) ?threads = map (bond_bytes bond_id k) threads" if "k < length member_map" for k
    using u that by (force simp: bond_bytes_def)
  then have same: "sum_list (map (bond_bytes bond_id k) ?threads) = sum_list (map (bond_bytes bond_id k) threads)"
    if "k < length member_map" for k using that by metis
  have "\<forall>k<length member_map. sum_bond_bytes bond_id ?threads n_bytes ! k = n_bytes ! k + sum_list (map (bond_bytes bond_id k) threads)"
  proof (intro allI impI)
    fix k assume k: "k < length member_map"
    show "sum_bond_bytes bond_id ?threads n_bytes ! k = n_bytes ! k + sum_list (map (bond_bytes bond_id k) threads)"
      unfolding same [OF k, symmetric] using stats k assms(2) by metis
  qed
  moreover have "dpif_netdev_bond_stats_get bond_id (bonds', ?threads) n_bytes = Some (sum_bond_bytes bond_id ?threads n_bytes)"
    using known by (simp add: dpif_netdev_bond_stats_get_def)
  moreover have "length (sum_bond_bytes bond_id ?threads n_bytes) = length member_map" using stats assms(2) by metis
  moreover have "bond_buckets bond_id th = None"
    if "tx_bond_lookup bonds'' bond_id = Some i" "th \<in> set (snd (snd (dpif_netdev_bond_del bond_id (bonds'', threads))))" for bonds'' i th
    using that assms(3) by (auto simp: dpif_netdev_bond_del_def del_bond_removes)
  ultimately show ?thesis using add by blast
qed

theorem bond_update_keeps_statistics_witness:
  "\<exists>bonds' threads' ns. dpif_netdev_bond_add 7 [1, 2] ([new_tx_bond 7 [2, 9]], demo_tx_threads) = (bonds', threads') \<and>
     dpif_netdev_bond_stats_get 7 (bonds', threads') [0, 0] = Some ns \<and> ns ! 0 = 1000"
proof -
  have "bonds_sized 7 (length [1 :: u32, 2]) demo_tx_threads" "\<forall>th\<in>set demo_tx_threads. bonds_distinct th"
    by (simp_all add: bonds_sized_def bond_buckets_def tx_bond_lookup_def bonds_distinct_def demo_tx_threads_def demo_tx_thread_def)
  moreover have "sum_list (map (bond_bytes 7 0) demo_tx_threads) = 1000"
    by (simp add: bond_bytes_def bond_buckets_def tx_bond_lookup_def demo_tx_threads_def demo_tx_thread_def)
  ultimately show ?thesis
    using bond_update_keeps_statistics [of 7 "[1, 2]" demo_tx_threads "[0, 0]" "[new_tx_bond 7 [2, 9]]"] by fastforce
qed

end
