(* ===== verification/Dpif_Offload.thy ===== *)
theory Dpif_Offload
  imports Dpif_Flow
begin

text \<open>
  The threads that offload flows to hardware (\<open>dpif-netdev.c\<close>): the marks of megaflows, the maps
  between megaflows, marks and flows, the requests of the polling threads, and flushing a port.  A
  thread finds itself by \<open>netdev_offload_thread_id\<close>, here the argument \<open>tid\<close>; time stamps and the
  averages of the latency are left out.
\<close>

section \<open>State\<close>

definition MAX_FLOW_MARK :: u32 where "MAX_FLOW_MARK = 0xffffffff - 1"
definition INVALID_FLOW_MARK :: u32 where "INVALID_FLOW_MARK = 0"

text \<open>What these threads use of a flow (\<open>struct dp_netdev_flow\<close>).\<close>

record ol_flow =
  lo_mega_ufid :: ufid
  lo_in_port :: u32
  lo_pmd_id :: u32
  lo_mark :: u32
  lo_dead :: bool

record megaflow_to_mark_data =
  mm_hash :: u32
  mega_ufid :: ufid
  mm_mark :: u32

datatype ol_item = Item_Flow offload_item | Item_Flush nat

text \<open>Where a thread waits during a flush: at neither call of \<open>ovs_barrier_block\<close>, or at one of them.\<close>

datatype ol_wait = No_Wait | First_Wait | Second_Wait

text \<open>
  A thread (\<open>struct dp_offload_thread\<close>): its queue, the number of requests in it, its maps (a node
  of \<open>mark_to_flow\<close> is the hash it was entered with and the flow), and where it waits during a
  flush.
\<close>

record dp_offload_thread =
  lt_queue :: "ol_item list"
  lt_enqueued_item :: u64
  lt_megaflow_to_mark :: "megaflow_to_mark_data list"
  lt_mark_to_flow :: "(u32 \<times> nat) list"
  lt_wait :: ol_wait

text \<open>
  The calls of the offload API of a network device: a rule is put for a megaflow with its mark, the
  port that the packets came from and the actions (the match is that of the megaflow and is left
  out), or deleted, or a port is flushed.
\<close>

datatype hw_call = Hw_Put ufid u32 u32 "u8 list" | Hw_Del ufid | Hw_Flush nat

text \<open>
  The flows with their references, the threads (\<open>dp_offload_threads\<close>), the pool of marks once it
  has been made (\<open>flow_mark_pool\<close>), and the calls of the device so far.
\<close>

record 'p ol_state =
  os_flows :: "nat \<Rightarrow> ol_flow"
  os_refs :: "nat \<Rightarrow> nat"
  os_threads :: "dp_offload_thread list"
  os_pool :: "'p option"
  os_hw :: "(hw_call \<times> int) list"

text \<open>
  What other files provide: the reference counters (in the environment of the caches), the
  hashes, the pool of identifiers (\<open>id_fpool\<close>; \<open>le_used\<close> are those in use), the thread of a
  megaflow (\<open>netdev_offload_ufid_to_thread_id\<close>), whether a port is found (\<open>netdev_ports_get\<close>), and
  what the device answers (\<open>netdev_flow_put\<close>, \<open>netdev_flow_del\<close>), which may depend on its past;
  the configured number of threads (\<open>netdev_offload_thread_nb\<close>).
\<close>

record ('flow, 'p) ol_env =
  le_dfc :: "'flow dfc_env"
  le_hash_int :: "u32 \<Rightarrow> u32"
  le_flow_hash :: "ufid \<Rightarrow> u32"
  le_pool_create :: "nat \<Rightarrow> u32 \<Rightarrow> u32 \<Rightarrow> 'p"
  le_new_id :: "nat \<Rightarrow> 'p \<Rightarrow> (u32 \<times> 'p) option"
  le_free_id :: "nat \<Rightarrow> u32 \<Rightarrow> 'p \<Rightarrow> 'p"
  le_used :: "'p \<Rightarrow> u32 list"
  le_thread_of :: "ufid \<Rightarrow> nat"
  le_port :: "(hw_call \<times> int) list \<Rightarrow> u32 \<Rightarrow> bool"
  le_answer :: "(hw_call \<times> int) list \<Rightarrow> hw_call \<Rightarrow> int"
  le_thread_nb :: nat

definition put_thread :: "nat \<Rightarrow> dp_offload_thread \<Rightarrow> 'p ol_state \<Rightarrow> 'p ol_state" where
  "put_thread tid th s = s\<lparr>os_threads := (os_threads s)[tid := th]\<rparr>"

definition set_mark :: "nat \<Rightarrow> u32 \<Rightarrow> 'p ol_state \<Rightarrow> 'p ol_state" where
  "set_mark f mark s = s\<lparr>os_flows := (os_flows s)(f := (os_flows s f)\<lparr>lo_mark := mark\<rparr>)\<rparr>"

definition hw_do :: "('flow, 'p) ol_env \<Rightarrow> hw_call \<Rightarrow> 'p ol_state \<Rightarrow> int \<times> 'p ol_state" where
  "hw_do E call s = (let ret = le_answer E (os_hw s) call in (ret, s\<lparr>os_hw := os_hw s @ [(call, ret)]\<rparr>))"

section \<open>Marks\<close>

definition flow_mark_alloc :: "('flow, 'p) ol_env \<Rightarrow> nat \<Rightarrow> 'p ol_state \<Rightarrow> u32 \<times> 'p ol_state" where
  "flow_mark_alloc E tid s =
     (let pool = (case os_pool s of Some p \<Rightarrow> p | None \<Rightarrow> le_pool_create E (le_thread_nb E) 1 MAX_FLOW_MARK)
      in case le_new_id E tid pool of
           Some (mark, pool) \<Rightarrow> (mark, s\<lparr>os_pool := Some pool\<rparr>)
         | None \<Rightarrow> (INVALID_FLOW_MARK, s\<lparr>os_pool := Some pool\<rparr>))"

definition flow_mark_free :: "('flow, 'p) ol_env \<Rightarrow> nat \<Rightarrow> u32 \<Rightarrow> 'p ol_state \<Rightarrow> 'p ol_state c_result" where
  "flow_mark_free E tid mark s =
     (case os_pool s of
        None \<Rightarrow> Inl Null_Deref
      | Some pool \<Rightarrow> Inr (s\<lparr>os_pool := Some (le_free_id E tid mark pool)\<rparr>))"

section \<open>Megaflows and marks\<close>

definition megaflow_to_mark_associate ::
    "('flow, 'p) ol_env \<Rightarrow> nat \<Rightarrow> ufid \<Rightarrow> u32 \<Rightarrow> 'p ol_state \<Rightarrow> 'p ol_state c_result" where
  "megaflow_to_mark_associate E tid ufid mark s =
     bindr (arr_get (os_threads s) tid) (\<lambda>th.
       Inr (put_thread tid (th\<lparr>lt_megaflow_to_mark :=
         \<lparr>mm_hash = le_flow_hash E ufid, mega_ufid = ufid, mm_mark = mark\<rparr> # lt_megaflow_to_mark th\<rparr>) s))"

definition megaflow_data :: "('flow, 'p) ol_env \<Rightarrow> ufid \<Rightarrow> dp_offload_thread \<Rightarrow> megaflow_to_mark_data option" where
  "megaflow_data E ufid th =
     find (\<lambda>data. mm_hash data = le_flow_hash E ufid \<and> mega_ufid data = ufid) (lt_megaflow_to_mark th)"

definition megaflow_to_mark_disassociate ::
    "('flow, 'p) ol_env \<Rightarrow> nat \<Rightarrow> ufid \<Rightarrow> 'p ol_state \<Rightarrow> 'p ol_state c_result" where
  "megaflow_to_mark_disassociate E tid ufid s =
     bindr (arr_get (os_threads s) tid) (\<lambda>th.
       case megaflow_data E ufid th of
         None \<Rightarrow> Inr s
       | Some data \<Rightarrow> Inr (put_thread tid (th\<lparr>lt_megaflow_to_mark := remove1 data (lt_megaflow_to_mark th)\<rparr>) s))"

definition megaflow_to_mark_find :: "('flow, 'p) ol_env \<Rightarrow> nat \<Rightarrow> ufid \<Rightarrow> 'p ol_state \<Rightarrow> u32 c_result" where
  "megaflow_to_mark_find E tid ufid s =
     bindr (arr_get (os_threads s) tid) (\<lambda>th.
       case megaflow_data E ufid th of None \<Rightarrow> Inr INVALID_FLOW_MARK | Some data \<Rightarrow> Inr (mm_mark data))"

section \<open>Marks and flows\<close>

definition mark_to_flow_associate ::
    "('flow, 'p) ol_env \<Rightarrow> nat \<Rightarrow> u32 \<Rightarrow> nat \<Rightarrow> 'p ol_state \<Rightarrow> 'p ol_state c_result" where
  "mark_to_flow_associate E tid mark f s =
     bindr (arr_get (os_threads s) tid) (\<lambda>th.
       Inr (set_mark f mark (put_thread tid (th\<lparr>lt_mark_to_flow := (le_hash_int E mark, f) # lt_mark_to_flow th\<rparr>)
         (s\<lparr>os_refs := snd (dp_netdev_flow_ref (le_dfc E) (os_refs s) f)\<rparr>))))"

definition flow_mark_has_no_ref :: "('flow, 'p) ol_env \<Rightarrow> nat \<Rightarrow> u32 \<Rightarrow> 'p ol_state \<Rightarrow> bool c_result" where
  "flow_mark_has_no_ref E tid mark s =
     bindr (arr_get (os_threads s) tid) (\<lambda>th.
       Inr (\<not> (\<exists>(h, f)\<in>set (lt_mark_to_flow th). h = le_hash_int E mark \<and> lo_mark (os_flows s f) = mark)))"

text \<open>The end of \<open>mark_to_flow_disassociate\<close>, where no flow has the mark any more.\<close>

definition last_flow_gone ::
    "('flow, 'p) ol_env \<Rightarrow> nat \<Rightarrow> nat \<Rightarrow> u32 \<Rightarrow> 'p ol_state \<Rightarrow> (int \<times> 'p ol_state) c_result" where
  "last_flow_gone E tid f mark s =
     (let fl = os_flows s f;
          (ret, s) = (if le_port E (os_hw s) (lo_in_port fl) then hw_do E (Hw_Del (lo_mega_ufid fl)) s else (0, s))
      in bindr (flow_mark_free E tid mark s) (\<lambda>s.
         bindr (megaflow_to_mark_disassociate E tid (lo_mega_ufid fl) s) (\<lambda>s.
           Inr (ret, s))))"

definition mark_to_flow_disassociate ::
    "('flow, 'p) ol_env \<Rightarrow> nat \<Rightarrow> nat \<Rightarrow> 'p ol_state \<Rightarrow> (int \<times> 'p ol_state) c_result" where
  "mark_to_flow_disassociate E tid f s =
     (let mark = lo_mark (os_flows s f) in
      if mark = INVALID_FLOW_MARK then Inr (EINVAL, s)
      else
        bindr (arr_get (os_threads s) tid) (\<lambda>th.
        bindr (cmap_remove (lt_mark_to_flow th) f (le_hash_int E mark)) (\<lambda>nodes.
        let s = set_mark f INVALID_FLOW_MARK (put_thread tid (th\<lparr>lt_mark_to_flow := nodes\<rparr>) s)
        in bindr (flow_mark_has_no_ref E tid mark s) (\<lambda>no_ref.
           bindr (if no_ref then last_flow_gone E tid f mark s else Inr (0, s)) (\<lambda>(ret, s).
             Inr (ret, s\<lparr>os_refs := dp_netdev_flow_unref (le_dfc E) (os_refs s) f\<rparr>))))))"

text \<open>The flow of a thread that has the mark which a packet came with.\<close>

definition mark_to_flow_find :: "('flow, 'p) ol_env \<Rightarrow> u32 \<Rightarrow> u32 \<Rightarrow> 'p ol_state \<Rightarrow> nat option" where
  "mark_to_flow_find E core_id mark s =
     map_option snd (find (\<lambda>(h, f). h = le_hash_int E mark \<and> lo_mark (os_flows s f) = mark \<and>
         lo_pmd_id (os_flows s f) = core_id \<and> \<not> lo_dead (os_flows s f))
       (concat (map lt_mark_to_flow (os_threads s))))"

section \<open>Requests\<close>

text \<open>The threads are made when the first request is queued.\<close>

definition fresh_offload_thread :: dp_offload_thread where
  "fresh_offload_thread =
     \<lparr>lt_queue = [], lt_enqueued_item = 0, lt_megaflow_to_mark = [], lt_mark_to_flow = [], lt_wait = No_Wait\<rparr>"

definition dp_netdev_offload_init :: "('flow, 'p) ol_env \<Rightarrow> 'p ol_state \<Rightarrow> 'p ol_state" where
  "dp_netdev_offload_init E s =
     (if os_threads s = [] then s\<lparr>os_threads := replicate (le_thread_nb E) fresh_offload_thread\<rparr> else s)"

definition dp_netdev_append_offload ::
    "('flow, 'p) ol_env \<Rightarrow> ol_item \<Rightarrow> nat \<Rightarrow> 'p ol_state \<Rightarrow> 'p ol_state c_result" where
  "dp_netdev_append_offload E item tid s =
     (let s = dp_netdev_offload_init E s
      in bindr (arr_get (os_threads s) tid) (\<lambda>th.
           Inr (put_thread tid (th\<lparr>lt_queue := lt_queue th @ [item], lt_enqueued_item := lt_enqueued_item th + 1\<rparr>) s)))"

definition dp_netdev_offload_flow_enqueue ::
    "('flow, 'p) ol_env \<Rightarrow> offload_item \<Rightarrow> 'p ol_state \<Rightarrow> 'p ol_state c_result" where
  "dp_netdev_offload_flow_enqueue E item s =
     dp_netdev_append_offload E (Item_Flow item) (le_thread_of E (lo_mega_ufid (os_flows s (of_flow item)))) s"

text \<open>
  A request as a polling thread makes it (\<open>queue_netdev_flow_put\<close>, \<open>queue_netdev_flow_del\<close>), with
  the reference that \<open>dp_netdev_alloc_flow_offload\<close> takes.
\<close>

definition request_offload :: "('flow, 'p) ol_env \<Rightarrow> offload_item \<Rightarrow> 'p ol_state \<Rightarrow> 'p ol_state c_result" where
  "request_offload E item s =
     dp_netdev_offload_flow_enqueue E item
       (s\<lparr>os_refs := snd (dp_netdev_flow_ref (le_dfc E) (os_refs s) (of_flow item))\<rparr>)"

definition dp_netdev_free_offload :: "('flow, 'p) ol_env \<Rightarrow> ol_item \<Rightarrow> 'p ol_state \<Rightarrow> 'p ol_state" where
  "dp_netdev_free_offload E offload s =
     (case offload of
        Item_Flow item \<Rightarrow> s\<lparr>os_refs := dp_netdev_flow_unref (le_dfc E) (os_refs s) (of_flow item)\<rparr>
      | Item_Flush netdev \<Rightarrow> s)"

fun flush_enqueue_from :: "('flow, 'p) ol_env \<Rightarrow> nat \<Rightarrow> nat \<Rightarrow> nat \<Rightarrow> 'p ol_state \<Rightarrow> 'p ol_state c_result" where
  "flush_enqueue_from E netdev tid 0 s = Inr s"
| "flush_enqueue_from E netdev tid (Suc k) s =
     bindr (dp_netdev_append_offload E (Item_Flush netdev) tid s) (flush_enqueue_from E netdev (Suc tid) k)"

definition dp_netdev_offload_flush_enqueue ::
    "('flow, 'p) ol_env \<Rightarrow> nat \<Rightarrow> 'p ol_state \<Rightarrow> 'p ol_state c_result" where
  "dp_netdev_offload_flush_enqueue E netdev s = flush_enqueue_from E netdev 0 (le_thread_nb E) s"

section \<open>What an offload thread does\<close>

definition dp_netdev_flow_offload_del ::
    "('flow, 'p) ol_env \<Rightarrow> nat \<Rightarrow> offload_item \<Rightarrow> 'p ol_state \<Rightarrow> (int \<times> 'p ol_state) c_result" where
  "dp_netdev_flow_offload_del E tid item s = mark_to_flow_disassociate E tid (of_flow item) s"

text \<open>The label \<open>err_free\<close> of \<open>dp_netdev_flow_offload_put\<close>, and the part from the port on.\<close>

definition offload_err_free ::
    "('flow, 'p) ol_env \<Rightarrow> nat \<Rightarrow> bool \<Rightarrow> u32 \<Rightarrow> nat \<Rightarrow> 'p ol_state \<Rightarrow> (int \<times> 'p ol_state) c_result" where
  "offload_err_free E tid modification mark f s =
     (if \<not> modification then bindr (flow_mark_free E tid mark s) (\<lambda>s. Inr (-1, s))
      else bindr (mark_to_flow_disassociate E tid f s) (\<lambda>(_, s). Inr (-1, s)))"

definition offload_install ::
    "('flow, 'p) ol_env \<Rightarrow> nat \<Rightarrow> bool \<Rightarrow> u32 \<Rightarrow> offload_item \<Rightarrow> 'p ol_state \<Rightarrow> (int \<times> 'p ol_state) c_result" where
  "offload_install E tid modification mark offload s =
     (let f = of_flow offload; fl = os_flows s f
      in if \<not> le_port E (os_hw s) (lo_in_port fl) then offload_err_free E tid modification mark f s
         else let (ret, s) = hw_do E (Hw_Put (lo_mega_ufid fl) mark (of_orig_in_port offload) (of_actions offload)) s
              in if ret \<noteq> 0 then offload_err_free E tid modification mark f s
                 else if \<not> modification then
                   bindr (megaflow_to_mark_associate E tid (lo_mega_ufid fl) mark s) (\<lambda>s.
                   bindr (mark_to_flow_associate E tid mark f s) (\<lambda>s. Inr (0, s)))
                 else Inr (0, s))"

definition dp_netdev_flow_offload_put ::
    "('flow, 'p) ol_env \<Rightarrow> nat \<Rightarrow> offload_item \<Rightarrow> 'p ol_state \<Rightarrow> (int \<times> 'p ol_state) c_result" where
  "dp_netdev_flow_offload_put E tid offload s =
     (let f = of_flow offload; fl = os_flows s f;
          modification = (of_op offload = Offload_Mod \<and> lo_mark fl \<noteq> INVALID_FLOW_MARK)
      in if lo_dead fl then Inr (-1, s)
         else if modification then offload_install E tid True (lo_mark fl) offload s
         else
           bindr (megaflow_to_mark_find E tid (lo_mega_ufid fl) s) (\<lambda>mark.
             if mark \<noteq> INVALID_FLOW_MARK then
               (if lo_mark fl \<noteq> INVALID_FLOW_MARK then (if lo_mark fl = mark then Inr (0, s) else Inl Assert_Failed)
                else bindr (mark_to_flow_associate E tid mark f s) (\<lambda>s. Inr (0, s)))
             else
               let (mark, s) = flow_mark_alloc E tid s
               in if mark = INVALID_FLOW_MARK then Inr (-1, s) else offload_install E tid False mark offload s))"

definition dp_offload_flow ::
    "('flow, 'p) ol_env \<Rightarrow> nat \<Rightarrow> offload_item \<Rightarrow> 'p ol_state \<Rightarrow> (int \<times> 'p ol_state) c_result" where
  "dp_offload_flow E tid item s =
     (case of_op item of
        Offload_Add \<Rightarrow> dp_netdev_flow_offload_put E tid item s
      | Offload_Mod \<Rightarrow> dp_netdev_flow_offload_put E tid item s
      | Offload_Del \<Rightarrow> dp_netdev_flow_offload_del E tid item s)"

text \<open>A flush (\<open>netdev_flow_flush\<close>), after which the thread waits at the barrier.\<close>

definition dp_offload_flush :: "('flow, 'p) ol_env \<Rightarrow> nat \<Rightarrow> nat \<Rightarrow> 'p ol_state \<Rightarrow> 'p ol_state c_result" where
  "dp_offload_flush E tid netdev s =
     (let (ret, s) = hw_do E (Hw_Flush netdev) s
      in bindr (arr_get (os_threads s) tid) (\<lambda>th. Inr (put_thread tid (th\<lparr>lt_wait := First_Wait\<rparr>) s)))"

text \<open>One round of \<open>dp_netdev_flow_offload_main\<close>: a request is taken from the queue, done and freed.\<close>

definition offload_round :: "('flow, 'p) ol_env \<Rightarrow> nat \<Rightarrow> 'p ol_state \<Rightarrow> 'p ol_state c_result" where
  "offload_round E tid s =
     bindr (arr_get (os_threads s) tid) (\<lambda>th.
       case lt_queue th of
         [] \<Rightarrow> Inr s
       | offload # queue \<Rightarrow>
           let s = put_thread tid (th\<lparr>lt_queue := queue, lt_enqueued_item := lt_enqueued_item th - 1\<rparr>) s
           in bindr (case offload of
                       Item_Flow item \<Rightarrow> bindr (dp_offload_flow E tid item s) (\<lambda>(_, s). Inr s)
                     | Item_Flush netdev \<Rightarrow> dp_offload_flush E tid netdev s) (\<lambda>s.
                Inr (dp_netdev_free_offload E offload s)))"

end
