(* ===== verification/Dpif_Offload_Laws.thy ===== *)
theory Dpif_Offload_Laws
  imports Dpif_Offload
begin

text \<open>
  What keeps the marks consistent: the maps of the offload threads are determined by the marks of
  the flows, a mark stands for one megaflow, and the pool knows exactly the marks in use.
\<close>

section \<open>The environment\<close>

definition ol_env_ok :: "('flow, 'p) ol_env \<Rightarrow> bool" where
  "ol_env_ok E \<longleftrightarrow> dfc_env_ok (le_dfc E) \<and> (\<forall>u. le_thread_of E u < le_thread_nb E) \<and>
     (\<forall>n b k. le_used E (le_pool_create E n b k) = []) \<and>
     (\<forall>t p. case le_new_id E t p of None \<Rightarrow> True
        | Some (m, p') \<Rightarrow> m \<noteq> 0 \<and> m \<notin> set (le_used E p) \<and> set (le_used E p') = insert m (set (le_used E p))) \<and>
     (\<forall>t m p. set (le_used E (le_free_id E t m p)) = set (le_used E p) - {m})"

lemma ol_env_okD:
  assumes "ol_env_ok E"
  shows "snd (dp_netdev_flow_ref (le_dfc E) refs f) = (if refs f = 0 then refs else refs(f := refs f + 1))"
    and "dp_netdev_flow_unref (le_dfc E) refs f = refs(f := refs f - 1)"
    and "le_thread_of E u < le_thread_nb E" and "le_used E (le_pool_create E n b k) = []"
    and "le_new_id E t p = Some (m, p') \<Longrightarrow> m \<noteq> 0 \<and> m \<notin> set (le_used E p) \<and> set (le_used E p') = insert m (set (le_used E p))"
    and "set (le_used E (le_free_id E t m p)) = set (le_used E p) - {m}"
proof -
  have V: "dfc_env_ok (le_dfc E)" using assms by (simp add: ol_env_ok_def)
  show "snd (dp_netdev_flow_ref (le_dfc E) refs f) = (if refs f = 0 then refs else refs(f := refs f + 1))"
    "dp_netdev_flow_unref (le_dfc E) refs f = refs(f := refs f - 1)"
    using dfc_env_okD(4,5) [OF V] by (simp_all add: dp_netdev_flow_ref_def dp_netdev_flow_unref_def)
  show "le_new_id E t p = Some (m, p') \<Longrightarrow> m \<noteq> 0 \<and> m \<notin> set (le_used E p) \<and> set (le_used E p') = insert m (set (le_used E p))"
    using assms unfolding ol_env_ok_def by (auto split: option.splits prod.splits)
qed (use assms in \<open>unfold ol_env_ok_def, blast+\<close>)

section \<open>The invariant of the marks\<close>

abbreviation mark_of :: "'p ol_state \<Rightarrow> nat \<Rightarrow> u32" where
  "mark_of s f \<equiv> lo_mark (os_flows s f)"

abbreviation mega_of :: "'p ol_state \<Rightarrow> nat \<Rightarrow> ufid" where
  "mega_of s f \<equiv> lo_mega_ufid (os_flows s f)"

abbreviation marked :: "'p ol_state \<Rightarrow> nat \<Rightarrow> bool" where
  "marked s f \<equiv> mark_of s f \<noteq> INVALID_FLOW_MARK"

text \<open>The thread that handles the requests of a flow.\<close>

definition home :: "('flow, 'p) ol_env \<Rightarrow> 'p ol_state \<Rightarrow> nat \<Rightarrow> nat" where
  "home E s f = le_thread_of E (mega_of s f)"

definition mega_entry :: "('flow, 'p) ol_env \<Rightarrow> ufid \<Rightarrow> u32 \<Rightarrow> megaflow_to_mark_data" where
  "mega_entry E u m = \<lparr>mm_hash = le_flow_hash E u, mega_ufid = u, mm_mark = m\<rparr>"

lemma mega_entry_simps [simp]:
  "mm_hash (mega_entry E u m) = le_flow_hash E u" "mega_ufid (mega_entry E u m) = u" "mm_mark (mega_entry E u m) = m"
  "mega_entry E u m = mega_entry E v n \<longleftrightarrow> u = v \<and> m = n"
  by (auto simp: mega_entry_def)

definition maps_ok :: "('flow, 'p) ol_env \<Rightarrow> 'p ol_state \<Rightarrow> nat \<Rightarrow> bool" where
  "maps_ok E s t \<longleftrightarrow>
     (let th = os_threads s ! t
      in distinct (map mega_ufid (lt_megaflow_to_mark th)) \<and> distinct (lt_mark_to_flow th) \<and>
         set (lt_mark_to_flow th) = {(le_hash_int E (mark_of s f), f) | f. marked s f \<and> home E s f = t} \<and>
         set (lt_megaflow_to_mark th) = {mega_entry E (mega_of s f) (mark_of s f) | f. marked s f \<and> home E s f = t})"

definition pool_ok :: "('flow, 'p) ol_env \<Rightarrow> 'p ol_state \<Rightarrow> bool" where
  "pool_ok E s \<longleftrightarrow> (case os_pool s of None \<Rightarrow> \<forall>f. \<not> marked s f
     | Some p \<Rightarrow> set (le_used E p) = {mark_of s f | f. marked s f})"

definition marks_ok :: "('flow, 'p) ol_env \<Rightarrow> 'p ol_state \<Rightarrow> bool" where
  "marks_ok E s \<longleftrightarrow>
     (\<forall>t<length (os_threads s). maps_ok E s t) \<and> (\<forall>f. marked s f \<longrightarrow> home E s f < length (os_threads s)) \<and>
     (\<forall>f g. marked s f \<and> mark_of s f = mark_of s g \<longrightarrow> mega_of s f = mega_of s g) \<and> pool_ok E s"

lemma maps_okD:
  assumes "maps_ok E s t"
  shows "distinct (map mega_ufid (lt_megaflow_to_mark (os_threads s ! t)))" and "distinct (lt_mark_to_flow (os_threads s ! t))"
    and "(h, f) \<in> set (lt_mark_to_flow (os_threads s ! t)) \<longleftrightarrow> h = le_hash_int E (mark_of s f) \<and> marked s f \<and> home E s f = t"
    and "data \<in> set (lt_megaflow_to_mark (os_threads s ! t)) \<longleftrightarrow>
      (\<exists>f. data = mega_entry E (mega_of s f) (mark_of s f) \<and> marked s f \<and> home E s f = t)"
  using assms unfolding maps_ok_def Let_def by blast+

lemma marks_okD:
  assumes "marks_ok E s"
  shows "t < length (os_threads s) \<Longrightarrow> maps_ok E s t" and "marked s f \<Longrightarrow> home E s f < length (os_threads s)"
    and "marked s f \<Longrightarrow> mark_of s f = mark_of s g \<Longrightarrow> mega_of s f = mega_of s g" and "pool_ok E s"
  using assms unfolding marks_ok_def by blast+

text \<open>A megaflow has one mark.\<close>

lemma one_mark:
  assumes s: "marks_ok E s" and f: "marked s f" "marked s g" "mega_of s f = mega_of s g"
  shows "mark_of s f = mark_of s g"
proof -
  let ?t = "home E s f"
  have t: "home E s g = ?t" using f(3) by (simp add: home_def)
  note m = maps_okD [OF marks_okD(1) [OF s marks_okD(2) [OF s f(1)]]]
  have "mega_entry E (mega_of s f) (mark_of s f) \<in> set (lt_megaflow_to_mark (os_threads s ! ?t))"
    "mega_entry E (mega_of s g) (mark_of s g) \<in> set (lt_megaflow_to_mark (os_threads s ! ?t))"
    unfolding m(4) using f t by blast+
  then have "mega_entry E (mega_of s f) (mark_of s f) = mega_entry E (mega_of s g) (mark_of s g)"
    using m(1) f(3) by (metis (no_types, lifting) distinct_map inj_onD mega_entry_simps(2))
  then show ?thesis by simp
qed

section \<open>Lookups\<close>

lemma megaflow_data_law:
  assumes "maps_ok E s t"
  shows "megaflow_data E u (os_threads s ! t) = None \<longleftrightarrow> \<not> (\<exists>f. marked s f \<and> home E s f = t \<and> mega_of s f = u)"
    and "megaflow_data E u (os_threads s ! t) = Some data \<Longrightarrow>
      data \<in> set (lt_megaflow_to_mark (os_threads s ! t)) \<and> (\<exists>f. marked s f \<and> home E s f = t \<and> mega_of s f = u \<and> data = mega_entry E u (mark_of s f))"
proof -
  note m = maps_okD(4) [OF assms]
  show "megaflow_data E u (os_threads s ! t) = None \<longleftrightarrow> \<not> (\<exists>f. marked s f \<and> home E s f = t \<and> mega_of s f = u)"
    unfolding megaflow_data_def find_None_iff using m by (metis mega_entry_simps(1,2))
  assume "megaflow_data E u (os_threads s ! t) = Some data"
  then have d: "data \<in> set (lt_megaflow_to_mark (os_threads s ! t))" "mega_ufid data = u"
    unfolding megaflow_data_def find_Some_iff by auto
  then obtain f where "data = mega_entry E (mega_of s f) (mark_of s f)" "marked s f" "home E s f = t" using m by blast
  then show "data \<in> set (lt_megaflow_to_mark (os_threads s ! t)) \<and> (\<exists>f. marked s f \<and> home E s f = t \<and> mega_of s f = u \<and> data = mega_entry E u (mark_of s f))"
    using d by auto
qed

lemma find_law:
  assumes s: "marks_ok E s" and t: "le_thread_of E u < length (os_threads s)"
  shows "\<exists>m. megaflow_to_mark_find E (le_thread_of E u) u s = Inr m \<and>
    (if m = INVALID_FLOW_MARK then \<not> (\<exists>f. marked s f \<and> mega_of s f = u) else \<exists>f. mark_of s f = m \<and> mega_of s f = u)"
proof -
  note d = megaflow_data_law [OF marks_okD(1) [OF s t], of u]
  show ?thesis
  proof (cases "megaflow_data E u (os_threads s ! le_thread_of E u)")
    case None
    then have "\<not> (\<exists>f. marked s f \<and> mega_of s f = u)" using d(1) by (auto simp: home_def)
    then show ?thesis using t None by (simp add: megaflow_to_mark_find_def)
  next
    case (Some data)
    then show ?thesis using t d(2) [OF Some] by (auto simp: megaflow_to_mark_find_def)
  qed
qed

lemma no_ref_law:
  assumes s: "marks_ok E s" and t: "t < length (os_threads s)" and m: "m \<noteq> INVALID_FLOW_MARK"
  shows "flow_mark_has_no_ref E t m s = Inr (\<not> (\<exists>f. mark_of s f = m \<and> home E s f = t))"
  using maps_okD(3) [OF marks_okD(1) [OF s t]] t m
  by (auto simp: flow_mark_has_no_ref_def)

text \<open>What is found for a packet with a mark: a live flow of the thread with this mark, if there is one.\<close>

lemma mark_to_flow_find_law:
  assumes s: "marks_ok E s" and m: "m \<noteq> INVALID_FLOW_MARK"
  shows "case mark_to_flow_find E core m s of
      Some f \<Rightarrow> mark_of s f = m \<and> lo_pmd_id (os_flows s f) = core \<and> \<not> lo_dead (os_flows s f)
    | None \<Rightarrow> \<not> (\<exists>f. mark_of s f = m \<and> lo_pmd_id (os_flows s f) = core \<and> \<not> lo_dead (os_flows s f))"
proof -
  let ?P = "\<lambda>(h, f). h = le_hash_int E m \<and> mark_of s f = m \<and> lo_pmd_id (os_flows s f) = core \<and> \<not> lo_dead (os_flows s f)"
  let ?nodes = "concat (map lt_mark_to_flow (os_threads s))"
  show ?thesis
  proof (cases "find ?P ?nodes")
    case None
    have "False" if f: "mark_of s f = m" "lo_pmd_id (os_flows s f) = core" "\<not> lo_dead (os_flows s f)" for f
    proof -
      have mf: "marked s f" using f(1) m by simp
      then have "(le_hash_int E m, f) \<in> set (lt_mark_to_flow (os_threads s ! home E s f))"
        using maps_okD(3) [OF marks_okD(1) [OF s marks_okD(2) [OF s mf]]] f(1) by simp
      then have "(le_hash_int E m, f) \<in> set ?nodes" using marks_okD(2) [OF s mf] by auto
      then show False using None f unfolding find_None_iff by auto
    qed
    then show ?thesis using None by (auto simp: mark_to_flow_find_def)
  next
    case (Some hf)
    then obtain i where "?P (?nodes ! i)" "hf = ?nodes ! i" unfolding find_Some_iff by metis
    then have "?P hf" by simp
    then show ?thesis using Some by (auto simp: mark_to_flow_find_def)
  qed
qed

section \<open>Changing the mark of one flow\<close>

text \<open>
  All changes have this shape: the flow \<open>f\<close> gets the mark \<open>m\<close>, its thread the maps \<open>nodes\<close> and
  \<open>entries\<close>, and the pool changes.
\<close>

definition remarked :: "('flow, 'p) ol_env \<Rightarrow> nat \<Rightarrow> u32 \<Rightarrow> (u32 \<times> nat) list \<Rightarrow> megaflow_to_mark_data list \<Rightarrow>
    'p ol_state \<Rightarrow> 'p ol_state \<Rightarrow> bool" where
  "remarked E f m nodes entries s s' \<longleftrightarrow>
     os_flows s' = (os_flows s)(f := (os_flows s f)\<lparr>lo_mark := m\<rparr>) \<and>
     length (os_threads s') = length (os_threads s) \<and> home E s f < length (os_threads s) \<and>
     (\<forall>t. t \<noteq> home E s f \<longrightarrow> os_threads s' ! t = os_threads s ! t) \<and>
     lt_mark_to_flow (os_threads s' ! home E s f) = nodes \<and> lt_megaflow_to_mark (os_threads s' ! home E s f) = entries"

lemma remarked_simps:
  assumes "remarked E f m nodes entries s s'"
  shows "mega_of s' g = mega_of s g" and "home E s' g = home E s g" and "mark_of s' g = (if g = f then m else mark_of s g)"
  using assms by (auto simp: remarked_def home_def)

lemma remarked_ok:
  assumes s: "marks_ok E s" and r: "remarked E f m nodes entries s s'"
    and n: "distinct nodes" "\<And>h g. (h, g) \<in> set nodes \<longleftrightarrow> h = le_hash_int E (mark_of s' g) \<and> marked s' g \<and> home E s g = home E s f"
    and e: "distinct (map mega_ufid entries)" "\<And>data. data \<in> set entries \<longleftrightarrow>
      (\<exists>g. data = mega_entry E (mega_of s g) (mark_of s' g) \<and> marked s' g \<and> home E s g = home E s f)"
    and u: "\<And>g. m \<noteq> INVALID_FLOW_MARK \<Longrightarrow> mark_of s g = m \<Longrightarrow> mega_of s g = mega_of s f"
    and p: "pool_ok E s'"
  shows "marks_ok E s'"
proof -
  note simps = remarked_simps [OF r]
  have len: "length (os_threads s') = length (os_threads s)" and hf: "home E s f < length (os_threads s)"
    using r by (simp_all add: remarked_def)
  have "maps_ok E s' t" if t: "t < length (os_threads s)" for t
  proof (cases "t = home E s f")
    case True
    have th: "lt_mark_to_flow (os_threads s' ! t) = nodes" "lt_megaflow_to_mark (os_threads s' ! t) = entries"
      using r True by (simp_all add: remarked_def)
    have "set nodes = {(le_hash_int E (mark_of s' g), g) | g. marked s' g \<and> home E s' g = t}"
      using n(2) unfolding simps(2) True by (auto simp del: fun_upd_apply)
    moreover have "set entries = {mega_entry E (mega_of s' g) (mark_of s' g) | g. marked s' g \<and> home E s' g = t}"
      using e(2) unfolding simps(1,2) True by blast
    ultimately show ?thesis unfolding maps_ok_def Let_def th using n(1) e(1) by blast
  next
    case False
    have th: "os_threads s' ! t = os_threads s ! t" using r False by (simp add: remarked_def)
    have same: "mark_of s' g = mark_of s g \<and> mega_of s' g = mega_of s g" if "home E s g = t" for g
      using that simps(1,3) False by auto
    have "{(le_hash_int E (mark_of s' g), g) | g. marked s' g \<and> home E s' g = t} =
        {(le_hash_int E (mark_of s g), g) | g. marked s g \<and> home E s g = t}"
      by (rule Collect_cong) (use same simps(2) in \<open>metis (no_types)\<close>)
    moreover have "{mega_entry E (mega_of s' g) (mark_of s' g) | g. marked s' g \<and> home E s' g = t} =
        {mega_entry E (mega_of s g) (mark_of s g) | g. marked s g \<and> home E s g = t}"
      by (rule Collect_cong) (use same simps(2) in \<open>metis (no_types)\<close>)
    ultimately show ?thesis using marks_okD(1) [OF s t] unfolding maps_ok_def Let_def th by simp
  qed
  moreover have "home E s' g < length (os_threads s')" if "marked s' g" for g
  proof (cases "g = f")
    case True
    then show ?thesis using hf simps(2) len by simp
  next
    case False
    then show ?thesis using that marks_okD(2) [OF s] simps(2,3) len by simp
  qed
  moreover have "mega_of s' g = mega_of s' h" if gh: "marked s' g" "mark_of s' g = mark_of s' h" for g h
  proof -
    have "mega_of s x = mega_of s f" if "mark_of s' x = m" "m \<noteq> INVALID_FLOW_MARK" for x
      using that u [of x] simps(3) by (cases "x = f") auto
    moreover have "mega_of s g = mega_of s h" if "g \<noteq> f" "h \<noteq> f"
      using that gh marks_okD(3) [OF s, of g h] simps(3) by simp
    ultimately have "mega_of s g = mega_of s h" using gh simps(3) by metis
    then show ?thesis using simps(1) by simp
  qed
  ultimately show ?thesis using p unfolding marks_ok_def len by blast
qed

end
