(* ===== verification/Dpif_Offload_Ops.thy ===== *)
theory Dpif_Offload_Ops
  imports Dpif_Offload_Laws
begin

text \<open>
  What the requests do: each one changes the mark of at most one flow, with the reference that goes
  with it, keeps the marks consistent and never fails an assertion.
\<close>

section \<open>A change of the mark of one flow\<close>

definition lt_frame :: "dp_offload_thread \<Rightarrow> ol_item list \<times> u64 \<times> ol_wait" where
  "lt_frame th = (lt_queue th, lt_enqueued_item th, lt_wait th)"

definition mark_step :: "nat \<Rightarrow> 'p ol_state \<Rightarrow> 'p ol_state \<Rightarrow> bool" where
  "mark_step f s s' \<longleftrightarrow> os_flows s' = (os_flows s)(f := (os_flows s f)\<lparr>lo_mark := mark_of s' f\<rparr>) \<and>
     map lt_frame (os_threads s') = map lt_frame (os_threads s) \<and>
     (\<forall>g. os_refs s' g + of_bool (marked s g) = os_refs s g + of_bool (marked s' g))"

lemma mark_stepD:
  assumes "mark_step f s s'"
  shows "mega_of s' g = mega_of s g" and "g \<noteq> f \<Longrightarrow> os_flows s' g = os_flows s g" and "home E s' g = home E s g"
    and "lo_dead (os_flows s' g) = lo_dead (os_flows s g)" and "length (os_threads s') = length (os_threads s)"
    and "t < length (os_threads s) \<Longrightarrow> lt_queue (os_threads s' ! t) = lt_queue (os_threads s ! t)"
    and "t < length (os_threads s) \<Longrightarrow> lt_enqueued_item (os_threads s' ! t) = lt_enqueued_item (os_threads s ! t)"
    and "t < length (os_threads s) \<Longrightarrow> lt_wait (os_threads s' ! t) = lt_wait (os_threads s ! t)"
    and "os_refs s' g + of_bool (marked s g) = os_refs s g + of_bool (marked s' g)"
proof -
  have f: "os_flows s' = (os_flows s)(f := (os_flows s f)\<lparr>lo_mark := mark_of s' f\<rparr>)"
    and th: "map lt_frame (os_threads s') = map lt_frame (os_threads s)" using assms by (simp_all only: mark_step_def)
  have fg: "os_flows s' g = (if g = f then (os_flows s f)\<lparr>lo_mark := mark_of s' f\<rparr> else os_flows s g)"
    using fun_cong [OF f, of g] by (simp only: fun_upd_apply)
  show m: "mega_of s' g = mega_of s g" "lo_dead (os_flows s' g) = lo_dead (os_flows s g)"
    unfolding fg by (cases "g = f"; simp)+
  show "g \<noteq> f \<Longrightarrow> os_flows s' g = os_flows s g" using fg by (simp only: if_False)
  show "home E s' g = home E s g" using m(1) by (simp only: home_def)
  show len: "length (os_threads s') = length (os_threads s)" using arg_cong [OF th, of length] by simp
  show "t < length (os_threads s) \<Longrightarrow> lt_queue (os_threads s' ! t) = lt_queue (os_threads s ! t)"
    "t < length (os_threads s) \<Longrightarrow> lt_enqueued_item (os_threads s' ! t) = lt_enqueued_item (os_threads s ! t)"
    "t < length (os_threads s) \<Longrightarrow> lt_wait (os_threads s' ! t) = lt_wait (os_threads s ! t)"
    using arg_cong [OF th, of "\<lambda>xs. xs ! t"] len by (simp_all add: lt_frame_def)
  show "os_refs s' g + of_bool (marked s g) = os_refs s g + of_bool (marked s' g)" using assms unfolding mark_step_def by blast
qed

lemma mark_step_refl: "mark_step f s s" by (simp add: mark_step_def)

text \<open>A state with the same flows, threads and references is as good a start.\<close>

lemma mark_step_start:
  assumes "mark_step f s1 s'" "os_flows s1 = os_flows s" "os_threads s1 = os_threads s" "os_refs s1 = os_refs s"
  shows "mark_step f s s'"
  using assms(1) unfolding mark_step_def assms(2-4) .

lemma marks_ok_cong:
  assumes "marks_ok E s" "os_flows s1 = os_flows s" "os_threads s1 = os_threads s" "os_pool s1 = os_pool s"
  shows "marks_ok E s1"
  using assms(1) unfolding marks_ok_def maps_ok_def pool_ok_def home_def assms(2-4) .

lemma frame_update:
  assumes "t < length ths" "lt_frame th = lt_frame (ths ! t)"
  shows "map lt_frame (ths[t := th]) = map lt_frame ths"
  using assms by (simp add: map_update list_update_same_conv)

section \<open>A flow gets a mark\<close>

lemma associate_result:
  assumes E: "ol_env_ok E" and t: "t < length (os_threads s)" and r: "0 < os_refs s f"
  shows "mark_to_flow_associate E t m f s = Inr (s\<lparr>
    os_flows := (os_flows s)(f := (os_flows s f)\<lparr>lo_mark := m\<rparr>), os_refs := (os_refs s)(f := os_refs s f + 1),
    os_threads := (os_threads s)[t := (os_threads s ! t)\<lparr>lt_mark_to_flow := (le_hash_int E m, f) # lt_mark_to_flow (os_threads s ! t)\<rparr>]\<rparr>)"
  using t r by (simp add: mark_to_flow_associate_def ol_env_okD(1) [OF E] set_mark_def put_thread_def)

lemma associate_step:
  assumes E: "ol_env_ok E" and t: "t < length (os_threads s)" and r: "0 < os_refs s f" and f: "\<not> marked s f"
    and m: "m \<noteq> INVALID_FLOW_MARK" and s': "mark_to_flow_associate E t m f s = Inr s'"
  shows "mark_step f s s'" and "mark_of s' f = m" and "os_hw s' = os_hw s" and "os_pool s' = os_pool s"
  using s' t f m unfolding associate_result [OF E t r] sum.inject(2)
  by (auto simp: mark_step_def frame_update lt_frame_def split: if_splits)

text \<open>To a mark that its megaflow has already.\<close>

lemma associate_known:
  assumes E: "ol_env_ok E" and s: "marks_ok E s" and r: "0 < os_refs s f" and f: "\<not> marked s f"
    and g: "marked s g" "mega_of s g = mega_of s f"
  shows "\<exists>s'. mark_to_flow_associate E (home E s f) (mark_of s g) f s = Inr s' \<and> marks_ok E s' \<and> mark_step f s s' \<and>
    mark_of s' f = mark_of s g \<and> os_hw s' = os_hw s"
proof -
  let ?t = "home E s f" and ?m = "mark_of s g"
  let ?th = "os_threads s ! ?t"
  have hg: "home E s g = ?t" using g(2) by (simp add: home_def)
  have t: "?t < length (os_threads s)" using marks_okD(2) [OF s g(1)] hg by simp
  obtain s' where s': "mark_to_flow_associate E ?t ?m f s = Inr s'" unfolding associate_result [OF E t r] by blast
  note st = associate_step [OF E t r f g(1) s']
  have fg: "f \<noteq> g" using f g(1) by blast
  have rm: "remarked E f ?m ((le_hash_int E ?m, f) # lt_mark_to_flow ?th) (lt_megaflow_to_mark ?th) s s'"
    using s' t unfolding associate_result [OF E t r] sum.inject(2) by (auto simp: remarked_def)
  note simps = remarked_simps [OF rm]
  note maps = maps_okD [OF marks_okD(1) [OF s t]]
  have mk: "mark_of s' x = (if x = f then ?m else mark_of s x)" for x by (rule simps(3))
  have "marks_ok E s'"
  proof (rule remarked_ok [OF s rm])
    show "distinct ((le_hash_int E ?m, f) # lt_mark_to_flow ?th)" using maps(2,3) f by simp
    show "(h, x) \<in> set ((le_hash_int E ?m, f) # lt_mark_to_flow ?th) \<longleftrightarrow>
        h = le_hash_int E (mark_of s' x) \<and> marked s' x \<and> home E s x = ?t" for h x
      unfolding mk using maps(3) f g(1) by (cases "x = f") auto
    show "distinct (map mega_ufid (lt_megaflow_to_mark ?th))" by (rule maps(1))
    show "data \<in> set (lt_megaflow_to_mark ?th) \<longleftrightarrow>
        (\<exists>x. data = mega_entry E (mega_of s x) (mark_of s' x) \<and> marked s' x \<and> home E s x = ?t)" for data
    proof
      assume "data \<in> set (lt_megaflow_to_mark ?th)"
      then obtain x where x: "data = mega_entry E (mega_of s x) (mark_of s x)" "marked s x" "home E s x = ?t" using maps(4) by blast
      then have "mark_of s' x = mark_of s x" using f mk by auto
      then show "\<exists>x. data = mega_entry E (mega_of s x) (mark_of s' x) \<and> marked s' x \<and> home E s x = ?t" using x by metis
    next
      assume "\<exists>x. data = mega_entry E (mega_of s x) (mark_of s' x) \<and> marked s' x \<and> home E s x = ?t"
      then obtain x where x: "data = mega_entry E (mega_of s x) (mark_of s' x)" "marked s' x" "home E s x = ?t" by blast
      show "data \<in> set (lt_megaflow_to_mark ?th)"
      proof (cases "x = f")
        case True
        then have "data = mega_entry E (mega_of s g) (mark_of s g)" using x(1) mk g(2) by simp
        then show ?thesis unfolding maps(4) using g(1) hg by blast
      next
        case False
        then show ?thesis unfolding maps(4) using x mk by metis
      qed
    qed
    show "mega_of s x = mega_of s f" if "mark_of s x = ?m" for x using marks_okD(3) [OF s g(1), of x] that g(2) by simp
    have "{mark_of s' x | x. marked s' x} = {mark_of s x | x. marked s x}"
      unfolding mk using f g(1) fg by auto
    then show "pool_ok E s'"
      using marks_okD(4) [OF s] g(1) unfolding pool_ok_def st(4) by (auto split: option.splits)
  qed
  then show ?thesis using s' st by blast
qed

text \<open>To a new mark: the pool has it in use, and no flow of the megaflow has a mark.\<close>

lemma associate_fresh:
  assumes E: "ol_env_ok E" and s: "marks_ok E s" and r: "0 < os_refs s f" and t: "home E s f < length (os_threads s)"
    and u: "\<And>g. marked s g \<Longrightarrow> mega_of s g \<noteq> mega_of s f"
    and m: "m \<noteq> INVALID_FLOW_MARK" "\<And>g. mark_of s g \<noteq> m"
    and s1: "os_flows s1 = os_flows s" "os_threads s1 = os_threads s" "os_refs s1 = os_refs s"
    and p: "os_pool s1 = Some p" "set (le_used E p) = insert m {mark_of s g | g. marked s g}"
  shows "\<exists>s'. bindr (megaflow_to_mark_associate E (home E s f) (mega_of s f) m s1) (mark_to_flow_associate E (home E s f) m f) = Inr s' \<and>
    marks_ok E s' \<and> mark_step f s s' \<and> mark_of s' f = m \<and> os_hw s' = os_hw s1"
proof -
  let ?t = "home E s f"
  let ?th = "os_threads s ! ?t"
  have f: "\<not> marked s f" using u by blast
  define s2 where "s2 = put_thread ?t (?th\<lparr>lt_megaflow_to_mark := mega_entry E (mega_of s f) m # lt_megaflow_to_mark ?th\<rparr>) s1"
  have a: "megaflow_to_mark_associate E ?t (mega_of s f) m s1 = Inr s2"
    using t by (simp add: megaflow_to_mark_associate_def s1 s2_def mega_entry_def)
  have s2: "os_flows s2 = os_flows s" "os_refs s2 = os_refs s" "os_pool s2 = Some p" "os_hw s2 = os_hw s1"
    "os_threads s2 = (os_threads s)[?t := ?th\<lparr>lt_megaflow_to_mark := mega_entry E (mega_of s f) m # lt_megaflow_to_mark ?th\<rparr>]"
    by (simp_all add: s2_def put_thread_def s1 p(1))
  have t2: "?t < length (os_threads s2)" and r2: "0 < os_refs s2 f" and f2: "\<not> marked s2 f" using t r f by (simp_all add: s2)
  obtain s' where s': "mark_to_flow_associate E ?t m f s2 = Inr s'" unfolding associate_result [OF E t2 r2] by blast
  note st = associate_step [OF E t2 r2 f2 m(1) s']
  have step: "mark_step f s s'"
    using st(1) frame_update [OF t, of "?th\<lparr>lt_megaflow_to_mark := mega_entry E (mega_of s f) m # lt_megaflow_to_mark ?th\<rparr>"]
    unfolding mark_step_def s2 by (simp add: lt_frame_def)
  have rm: "remarked E f m ((le_hash_int E m, f) # lt_mark_to_flow ?th) (mega_entry E (mega_of s f) m # lt_megaflow_to_mark ?th) s s'"
    using s' t unfolding associate_result [OF E t2 r2] sum.inject(2) by (auto simp: remarked_def s2)
  have mk: "mark_of s' x = (if x = f then m else mark_of s x)" for x by (rule remarked_simps(3) [OF rm])
  note maps = maps_okD [OF marks_okD(1) [OF s t]]
  have "marks_ok E s'"
  proof (rule remarked_ok [OF s rm])
    show "distinct ((le_hash_int E m, f) # lt_mark_to_flow ?th)" using maps(2,3) f by simp
    show "(h, x) \<in> set ((le_hash_int E m, f) # lt_mark_to_flow ?th) \<longleftrightarrow>
        h = le_hash_int E (mark_of s' x) \<and> marked s' x \<and> home E s x = ?t" for h x
      unfolding mk using maps(3) f m(1) by (cases "x = f") auto
    have "mega_of s f \<notin> set (map mega_ufid (lt_megaflow_to_mark ?th))"
    proof
      assume "mega_of s f \<in> set (map mega_ufid (lt_megaflow_to_mark ?th))"
      then obtain data where d: "data \<in> set (lt_megaflow_to_mark ?th)" "mega_ufid data = mega_of s f" by auto
      then obtain x where "data = mega_entry E (mega_of s x) (mark_of s x)" "marked s x" unfolding maps(4) by blast
      then show False using d(2) u [of x] by simp
    qed
    then show "distinct (map mega_ufid (mega_entry E (mega_of s f) m # lt_megaflow_to_mark ?th))" using maps(1) by simp
    show "data \<in> set (mega_entry E (mega_of s f) m # lt_megaflow_to_mark ?th) \<longleftrightarrow>
        (\<exists>x. data = mega_entry E (mega_of s x) (mark_of s' x) \<and> marked s' x \<and> home E s x = ?t)" (is "_ \<longleftrightarrow> (\<exists>x. ?Q x)") for data
    proof -
      have "?Q f \<longleftrightarrow> data = mega_entry E (mega_of s f) m" using mk m(1) by simp
      moreover have "?Q x \<longleftrightarrow> data = mega_entry E (mega_of s x) (mark_of s x) \<and> marked s x \<and> home E s x = ?t" if "x \<noteq> f" for x
        using mk that by simp
      ultimately have "(\<exists>x. ?Q x) \<longleftrightarrow> data = mega_entry E (mega_of s f) m \<or> data \<in> set (lt_megaflow_to_mark ?th)"
        unfolding maps(4) using f by metis
      then show ?thesis by (simp only: list.set insert_iff)
    qed
    show "mega_of s x = mega_of s f" if "mark_of s x = m" for x using m(2) that by blast
    have "{mark_of s' x | x. marked s' x} = insert m {mark_of s x | x. marked s x}"
      unfolding mk using f m(1) by auto
    then show "pool_ok E s'" unfolding pool_ok_def st(4) s2(3) using p(2) by simp
  qed
  then show ?thesis using a s' step st(2,3) s2(4) by auto
qed

section \<open>A flow loses its mark\<close>

text \<open>Another flow has the same mark.\<close>

abbreviation shared :: "'p ol_state \<Rightarrow> nat \<Rightarrow> bool" where
  "shared s f \<equiv> \<exists>g. g \<noteq> f \<and> mark_of s g = mark_of s f"

lemma nodes_without:
  assumes "maps_ok E s t"
  shows "distinct (remove1 (le_hash_int E (mark_of s f), f) (lt_mark_to_flow (os_threads s ! t)))"
    and "(h, x) \<in> set (remove1 (le_hash_int E (mark_of s f), f) (lt_mark_to_flow (os_threads s ! t))) \<longleftrightarrow>
      h = le_hash_int E (mark_of s x) \<and> marked s x \<and> home E s x = t \<and> x \<noteq> f"
  using maps_okD(2,3) [OF assms] by auto

text \<open>The mark is still that of other flows: only this flow leaves the maps.\<close>

lemma lost_shared:
  assumes s: "marks_ok E s" and f: "marked s f" and g: "shared s f"
    and rm: "remarked E f INVALID_FLOW_MARK (remove1 (le_hash_int E (mark_of s f), f) (lt_mark_to_flow (os_threads s ! home E s f)))
      (lt_megaflow_to_mark (os_threads s ! home E s f)) s s'"
    and p: "os_pool s' = os_pool s"
  shows "marks_ok E s'"
proof -
  let ?t = "home E s f"
  obtain g where g: "g \<noteq> f" "mark_of s g = mark_of s f" using g by blast
  have u: "mega_of s g = mega_of s f" using marks_okD(3) [OF s f, of g] g(2) by simp
  have hg: "home E s g = ?t" using u by (simp add: home_def)
  note maps = maps_okD [OF marks_okD(1) [OF s marks_okD(2) [OF s f]]]
  note nodes = nodes_without [where f = f, OF marks_okD(1) [OF s marks_okD(2) [OF s f]]]
  have mk: "mark_of s' x = (if x = f then INVALID_FLOW_MARK else mark_of s x)" for x by (rule remarked_simps(3) [OF rm])
  show ?thesis
  proof (rule remarked_ok [OF s rm nodes(1)])
    show "(h, x) \<in> set (remove1 (le_hash_int E (mark_of s f), f) (lt_mark_to_flow (os_threads s ! ?t))) \<longleftrightarrow>
        h = le_hash_int E (mark_of s' x) \<and> marked s' x \<and> home E s x = ?t" for h x
      unfolding nodes(2) mk by auto
    show "distinct (map mega_ufid (lt_megaflow_to_mark (os_threads s ! ?t)))" by (rule maps(1))
    show "data \<in> set (lt_megaflow_to_mark (os_threads s ! ?t)) \<longleftrightarrow>
        (\<exists>x. data = mega_entry E (mega_of s x) (mark_of s' x) \<and> marked s' x \<and> home E s x = ?t)" for data
    proof -
      have same: "mega_entry E (mega_of s g) (mark_of s g) = mega_entry E (mega_of s f) (mark_of s f)" using g(2) u by simp
      have "(\<exists>x. data = mega_entry E (mega_of s x) (mark_of s' x) \<and> marked s' x \<and> home E s x = ?t) \<longleftrightarrow>
          (\<exists>x. x \<noteq> f \<and> data = mega_entry E (mega_of s x) (mark_of s x) \<and> marked s x \<and> home E s x = ?t)"
        by (rule ex_cong1) (simp add: mk)
      then show ?thesis unfolding maps(4) using same f g hg by metis
    qed
    have "{mark_of s' x | x. marked s' x} = {mark_of s x | x. marked s x}" unfolding mk using g by metis
    then show "pool_ok E s'" using marks_okD(4) [OF s] f unfolding pool_ok_def p by (auto split: option.splits)
  qed simp
qed

text \<open>It was the last one: the megaflow leaves the maps too, and the mark goes back to the pool.\<close>

lemma lost_last:
  assumes s: "marks_ok E s" and f: "marked s f" and g: "\<not> shared s f"
    and rm: "remarked E f INVALID_FLOW_MARK (remove1 (le_hash_int E (mark_of s f), f) (lt_mark_to_flow (os_threads s ! home E s f)))
      (remove1 (mega_entry E (mega_of s f) (mark_of s f)) (lt_megaflow_to_mark (os_threads s ! home E s f))) s s'"
    and p: "os_pool s' = Some p" "set (le_used E p) = {mark_of s x | x. marked s x} - {mark_of s f}"
  shows "marks_ok E s'"
proof -
  let ?t = "home E s f"
  note maps = maps_okD [OF marks_okD(1) [OF s marks_okD(2) [OF s f]]]
  note nodes = nodes_without [where f = f, OF marks_okD(1) [OF s marks_okD(2) [OF s f]]]
  have mk: "mark_of s' x = (if x = f then INVALID_FLOW_MARK else mark_of s x)" for x by (rule remarked_simps(3) [OF rm])
  have other: "mega_of s x \<noteq> mega_of s f" if "marked s x" "x \<noteq> f" for x
    using one_mark [OF s f that(1)] g that by metis
  show ?thesis
  proof (rule remarked_ok [OF s rm nodes(1)])
    show "(h, x) \<in> set (remove1 (le_hash_int E (mark_of s f), f) (lt_mark_to_flow (os_threads s ! ?t))) \<longleftrightarrow>
        h = le_hash_int E (mark_of s' x) \<and> marked s' x \<and> home E s x = ?t" for h x
      unfolding nodes(2) mk by auto
    have d: "distinct (lt_megaflow_to_mark (os_threads s ! ?t))" using maps(1) by (simp only: distinct_map)
    show "distinct (map mega_ufid (remove1 (mega_entry E (mega_of s f) (mark_of s f)) (lt_megaflow_to_mark (os_threads s ! ?t))))"
      by (metis d distinct_map inj_on_subset maps(1) notin_set_remove1 distinct_remove1 subsetI)
    show "data \<in> set (remove1 (mega_entry E (mega_of s f) (mark_of s f)) (lt_megaflow_to_mark (os_threads s ! ?t))) \<longleftrightarrow>
        (\<exists>x. data = mega_entry E (mega_of s x) (mark_of s' x) \<and> marked s' x \<and> home E s x = ?t)" for data
    proof -
      have "(\<exists>x. data = mega_entry E (mega_of s x) (mark_of s' x) \<and> marked s' x \<and> home E s x = ?t) \<longleftrightarrow>
          (\<exists>x. x \<noteq> f \<and> data = mega_entry E (mega_of s x) (mark_of s x) \<and> marked s x \<and> home E s x = ?t)"
        by (rule ex_cong1) (simp add: mk)
      also have "\<dots> \<longleftrightarrow> data \<noteq> mega_entry E (mega_of s f) (mark_of s f) \<and> data \<in> set (lt_megaflow_to_mark (os_threads s ! ?t))"
        unfolding maps(4) using other mega_entry_simps(4) by metis
      finally show ?thesis using set_remove1_eq [OF d] by auto
    qed
    have "{mark_of s' x | x. marked s' x} = {mark_of s x | x. marked s x} - {mark_of s f}" unfolding mk using g f by auto
    then show "pool_ok E s'" unfolding pool_ok_def p(1) using p(2) by simp
  qed simp
qed

text \<open>The state after the flow has left \<open>mark_to_flow\<close>, where the other flows with the mark are looked for.\<close>

definition taken_out :: "('flow, 'p) ol_env \<Rightarrow> nat \<Rightarrow> 'p ol_state \<Rightarrow> 'p ol_state" where
  "taken_out E f s = set_mark f INVALID_FLOW_MARK (put_thread (home E s f) ((os_threads s ! home E s f)\<lparr>lt_mark_to_flow :=
     remove1 (le_hash_int E (mark_of s f), f) (lt_mark_to_flow (os_threads s ! home E s f))\<rparr>) s)"

lemma taken_out_simps:
  "os_flows (taken_out E f s) = (os_flows s)(f := (os_flows s f)\<lparr>lo_mark := INVALID_FLOW_MARK\<rparr>)"
  "os_refs (taken_out E f s) = os_refs s" "os_pool (taken_out E f s) = os_pool s" "os_hw (taken_out E f s) = os_hw s"
  "os_threads (taken_out E f s) = (os_threads s)[home E s f := (os_threads s ! home E s f)\<lparr>lt_mark_to_flow :=
     remove1 (le_hash_int E (mark_of s f), f) (lt_mark_to_flow (os_threads s ! home E s f))\<rparr>]"
  by (simp_all add: taken_out_def set_mark_def put_thread_def)

lemma taken_out_mark: "mark_of (taken_out E f s) x = (if x = f then INVALID_FLOW_MARK else mark_of s x)"
  by (simp add: taken_out_simps)

lemma taken_out_no_ref:
  assumes s: "marks_ok E s" and f: "marked s f"
  shows "flow_mark_has_no_ref E (home E s f) (mark_of s f) (taken_out E f s) = Inr (\<not> shared s f)"
proof -
  let ?t = "home E s f" and ?m = "mark_of s f" and ?s1 = "taken_out E f s"
  let ?nodes = "remove1 (le_hash_int E ?m, f) (lt_mark_to_flow (os_threads s ! ?t))"
  have t: "?t < length (os_threads s)" by (rule marks_okD(2) [OF s f])
  note nodes = nodes_without [where f = f, OF marks_okD(1) [OF s t]]
  have same: "home E s x = ?t" if "mark_of s x = ?m" for x using marks_okD(3) [OF s f, of x] that by (simp add: home_def)
  have "(\<exists>(h, x)\<in>set ?nodes. h = le_hash_int E ?m \<and> mark_of ?s1 x = ?m) \<longleftrightarrow> shared s f"
    (is "?L \<longleftrightarrow> _")
  proof
    assume ?L
    then obtain x where x: "(le_hash_int E ?m, x) \<in> set ?nodes" "mark_of ?s1 x = ?m" by blast
    have "x \<noteq> f" using x(1) unfolding nodes(2) by (elim conjE)
    moreover have "mark_of s x = ?m" using x(2) calculation unfolding taken_out_mark by (simp only: if_False)
    ultimately show "shared s f" by (intro exI [of _ x] conjI)
  next
    assume "shared s f"
    then obtain x where x: "x \<noteq> f" "mark_of s x = ?m" by blast
    have "(le_hash_int E ?m, x) \<in> set ?nodes" unfolding nodes(2) using f x same [OF x(2)] by simp
    moreover have "mark_of ?s1 x = ?m" unfolding taken_out_mark using x by simp
    ultimately show ?L by blast
  qed
  then show ?thesis unfolding flow_mark_has_no_ref_def taken_out_simps(5) using t by (simp del: not_ex bex_simps)
qed

lemma megaflow_data_marked:
  assumes s: "marks_ok E s" and f: "marked s f"
  shows "megaflow_data E (mega_of s f) (os_threads s ! home E s f) = Some (mega_entry E (mega_of s f) (mark_of s f))"
proof -
  note ok = marks_okD(1) [OF s marks_okD(2) [OF s f]]
  have "megaflow_data E (mega_of s f) (os_threads s ! home E s f) \<noteq> None" using megaflow_data_law(1) [OF ok] f by blast
  then obtain data where d: "megaflow_data E (mega_of s f) (os_threads s ! home E s f) = Some data" by blast
  then obtain x where x: "marked s x" "mega_of s x = mega_of s f" "data = mega_entry E (mega_of s f) (mark_of s x)"
    using megaflow_data_law(2) [OF ok d] by blast
  then show ?thesis using d one_mark [OF s x(1) f x(2)] by simp
qed

text \<open>What the device is told when the last flow with a mark loses it.\<close>

definition del_call :: "('flow, 'p) ol_env \<Rightarrow> nat \<Rightarrow> 'p ol_state \<Rightarrow> (hw_call \<times> int) list" where
  "del_call E f s = (if le_port E (os_hw s) (lo_in_port (os_flows s f))
     then [(Hw_Del (mega_of s f), le_answer E (os_hw s) (Hw_Del (mega_of s f)))] else [])"

lemma last_flow_gone_law:
  assumes s: "marks_ok E s" and f: "marked s f" and p: "os_pool s = Some p"
  shows "\<exists>ret. last_flow_gone E (home E s f) f (mark_of s f) (taken_out E f s) = Inr (ret, (taken_out E f s)\<lparr>
    os_hw := os_hw s @ del_call E f s, os_pool := Some (le_free_id E (home E s f) (mark_of s f) p),
    os_threads := (os_threads s)[home E s f := (os_threads s ! home E s f)\<lparr>
      lt_mark_to_flow := remove1 (le_hash_int E (mark_of s f), f) (lt_mark_to_flow (os_threads s ! home E s f)),
      lt_megaflow_to_mark := remove1 (mega_entry E (mega_of s f) (mark_of s f)) (lt_megaflow_to_mark (os_threads s ! home E s f))\<rparr>]\<rparr>)"
proof -
  let ?s1 = "taken_out E f s" and ?port = "le_port E (os_hw s) (lo_in_port (os_flows s f))"
  obtain ret s2 where port: "(if ?port then hw_do E (Hw_Del (mega_of s f)) ?s1 else (0, ?s1)) = (ret, s2)"
    by (cases "if ?port then hw_do E (Hw_Del (mega_of s f)) ?s1 else (0, ?s1)")
  then have s2: "s2 = ?s1\<lparr>os_hw := os_hw s @ del_call E f s\<rparr>"
    using taken_out_simps(4) [of E f s] by (cases ?port) (auto simp: hw_do_def Let_def del_call_def intro!: ol_state.equality)
  have fl: "lo_mega_ufid (os_flows ?s1 f) = mega_of s f" "lo_in_port (os_flows ?s1 f) = lo_in_port (os_flows s f)"
    by (simp_all add: taken_out_simps)
  have "megaflow_data E (mega_of s f) ((os_threads s ! home E s f)\<lparr>lt_mark_to_flow := nodes\<rparr>) =
      Some (mega_entry E (mega_of s f) (mark_of s f))" for nodes
    using megaflow_data_marked [OF s f] by (simp add: megaflow_data_def)
  then show ?thesis unfolding last_flow_gone_def Let_def fl taken_out_simps(4) port
    using marks_okD(2) [OF s f]
    by (simp add: flow_mark_free_def megaflow_to_mark_disassociate_def put_thread_def s2 taken_out_simps p)
qed

lemma disassociate_law:
  assumes E: "ol_env_ok E" and s: "marks_ok E s" and f: "marked s f" and r: "0 < os_refs s f"
  shows "\<exists>ret s'. mark_to_flow_disassociate E (home E s f) f s = Inr (ret, s') \<and> marks_ok E s' \<and> mark_step f s s' \<and> \<not> marked s' f \<and>
    os_hw s' = os_hw s @ (if shared s f then [] else del_call E f s)"
proof -
  let ?t = "home E s f" and ?m = "mark_of s f" and ?s1 = "taken_out E f s"
  let ?th = "os_threads s ! ?t" and ?refs = "(os_refs s)(f := os_refs s f - 1)"
  let ?nodes = "remove1 (le_hash_int E ?m, f) (lt_mark_to_flow ?th)"
  have t: "?t < length (os_threads s)" by (rule marks_okD(2) [OF s f])
  have cm: "cmap_remove (lt_mark_to_flow ?th) f (le_hash_int E ?m) = Inr ?nodes"
    using maps_okD(3) [OF marks_okD(1) [OF s t]] f by (simp add: cmap_remove_def)
  have dis: "mark_to_flow_disassociate E ?t f s = bindr (if \<not> shared s f then last_flow_gone E ?t f ?m ?s1 else Inr (0, ?s1))
      (\<lambda>(ret, s'). Inr (ret, s'\<lparr>os_refs := dp_netdev_flow_unref (le_dfc E) (os_refs s') f\<rparr>))"
    unfolding mark_to_flow_disassociate_def Let_def if_not_P [OF f] using t taken_out_no_ref [OF s f]
    by (simp add: cm taken_out_def [symmetric] del: not_ex)
  have unref: "dp_netdev_flow_unref (le_dfc E) (os_refs s) f = ?refs" by (rule ol_env_okD(2) [OF E])
  have refs: "?refs g + of_bool (marked s g) = os_refs s g + of_bool (marked ?s1 g)" for g
    unfolding taken_out_mark using r f by auto
  show ?thesis
  proof (cases "shared s f")
    case True
    let ?s' = "?s1\<lparr>os_refs := ?refs\<rparr>"
    have "remarked E f INVALID_FLOW_MARK ?nodes (lt_megaflow_to_mark ?th) s ?s'" using t by (simp add: remarked_def taken_out_simps)
    then have "marks_ok E ?s'" by (rule lost_shared [OF s f True]) (simp add: taken_out_simps)
    moreover have "mark_step f s ?s'"
      using refs t unfolding mark_step_def by (simp add: taken_out_simps frame_update lt_frame_def)
    moreover have "mark_to_flow_disassociate E ?t f s = Inr (0, ?s')" unfolding dis using True by (simp add: taken_out_simps(2) unref)
    ultimately show ?thesis
      using True by (intro exI [of _ 0] exI [of _ ?s']) (simp add: taken_out_simps)
  next
    case False
    obtain p where pool: "os_pool s = Some p" "set (le_used E p) = {mark_of s x | x. marked s x}"
      using marks_okD(4) [OF s] f unfolding pool_ok_def by (cases "os_pool s") auto
    let ?p = "le_free_id E ?t ?m p" and ?entries = "remove1 (mega_entry E (mega_of s f) ?m) (lt_megaflow_to_mark ?th)"
    let ?th2 = "?th\<lparr>lt_mark_to_flow := ?nodes, lt_megaflow_to_mark := ?entries\<rparr>"
    let ?s2 = "?s1\<lparr>os_hw := os_hw s @ del_call E f s, os_pool := Some ?p, os_threads := (os_threads s)[?t := ?th2]\<rparr>"
    let ?s' = "?s2\<lparr>os_refs := ?refs\<rparr>"
    obtain ret where "last_flow_gone E ?t f ?m ?s1 = Inr (ret, ?s2)" using last_flow_gone_law [OF s f pool(1)] by blast
    then have res: "mark_to_flow_disassociate E ?t f s = Inr (ret, ?s')" unfolding dis using False by (simp add: taken_out_simps(2) unref)
    have "remarked E f INVALID_FLOW_MARK ?nodes ?entries s ?s'" using t by (simp add: remarked_def taken_out_simps(1))
    moreover have "os_pool ?s' = Some ?p" by simp
    moreover have "set (le_used E ?p) = {mark_of s x | x. marked s x} - {?m}" using ol_env_okD(6) [OF E] pool(2) by simp
    ultimately have "marks_ok E ?s'" by (rule lost_last [OF s f False])
    moreover have "mark_step f s ?s'"
      using refs t unfolding mark_step_def by (simp add: taken_out_simps(1) frame_update lt_frame_def)
    ultimately show ?thesis using res False by (intro exI [of _ ret] exI [of _ ?s']) (simp add: taken_out_simps(1) del: not_ex)
  qed
qed

end
