(* ===== verification/Dpif_Offload_Put.thy ===== *)
theory Dpif_Offload_Put
  imports Dpif_Offload_Ops
begin

text \<open>What a request to offload a flow, or to change its actions, does on every path.\<close>

section \<open>The allocation of marks\<close>

lemma marks_ok_pool:
  assumes "marks_ok E s" "os_flows s1 = os_flows s" "os_threads s1 = os_threads s"
    and "os_pool s1 = Some p" "set (le_used E p) = {mark_of s f | f. marked s f}"
  shows "marks_ok E s1"
proof -
  have "pool_ok E s1" using assms(5) unfolding pool_ok_def assms(4) option.case assms(2) .
  then show ?thesis using assms(1) unfolding marks_ok_def maps_ok_def home_def assms(2,3) by blast
qed

lemma mark_alloc_law:
  assumes E: "ol_env_ok E" and s: "marks_ok E s" and a: "flow_mark_alloc E t s = (m, s1)"
  shows "os_flows s1 = os_flows s" "os_threads s1 = os_threads s" "os_refs s1 = os_refs s" "os_hw s1 = os_hw s"
    and "if m = INVALID_FLOW_MARK then marks_ok E s1 else (\<forall>g. mark_of s g \<noteq> m) \<and>
      (\<exists>p. os_pool s1 = Some p \<and> set (le_used E p) = insert m {mark_of s g | g. marked s g})"
proof -
  define p where "p = (case os_pool s of Some p \<Rightarrow> p | None \<Rightarrow> le_pool_create E (le_thread_nb E) 1 MAX_FLOW_MARK)"
  have used: "set (le_used E p) = {mark_of s g | g. marked s g}"
    using marks_okD(4) [OF s] ol_env_okD(4) [OF E] unfolding pool_ok_def p_def by (cases "os_pool s") simp_all
  have frame: "os_flows s1 = os_flows s \<and> os_threads s1 = os_threads s \<and> os_refs s1 = os_refs s \<and> os_hw s1 = os_hw s"
    using a unfolding flow_mark_alloc_def Let_def p_def [symmetric] by (auto split: option.splits)
  then show f: "os_flows s1 = os_flows s" "os_threads s1 = os_threads s" "os_refs s1 = os_refs s" "os_hw s1 = os_hw s" by blast+
  show "if m = INVALID_FLOW_MARK then marks_ok E s1 else (\<forall>g. mark_of s g \<noteq> m) \<and>
      (\<exists>p. os_pool s1 = Some p \<and> set (le_used E p) = insert m {mark_of s g | g. marked s g})"
  proof (cases "le_new_id E t p")
    case None
    then have "m = INVALID_FLOW_MARK" "os_pool s1 = Some p"
      using a unfolding flow_mark_alloc_def Let_def p_def [symmetric] by auto
    then show ?thesis using marks_ok_pool [OF s f(1,2)] used by simp
  next
    case (Some mp)
    then obtain q where q: "le_new_id E t p = Some (m, q)" "os_pool s1 = Some q"
      using a unfolding flow_mark_alloc_def Let_def p_def [symmetric] by (cases mp) auto
    note n = ol_env_okD(5) [OF E q(1)]
    have "\<forall>g. mark_of s g \<noteq> m"
    proof (intro allI notI)
      fix g
      assume "mark_of s g = m"
      then have "m \<in> {mark_of s g | g. marked s g}" using n by (auto simp: INVALID_FLOW_MARK_def)
      then show False using n used by simp
    qed
    then show ?thesis using n q(2) used by (auto simp: INVALID_FLOW_MARK_def)
  qed
qed

section \<open>The result of a request\<close>

text \<open>A device that finds every port and answers every call with success.\<close>

definition hw_good :: "('flow, 'p) ol_env \<Rightarrow> bool" where
  "hw_good E \<longleftrightarrow> (\<forall>hist port. le_port E hist port) \<and> (\<forall>hist call. le_answer E hist call = 0)"

text \<open>
  The flow has a mark, which is that of its megaflow or was given to the device just now; or it has
  none, which is a failure of the device unless there were no marks left.
\<close>

definition put_outcome :: "('flow, 'p) ol_env \<Rightarrow> offload_item \<Rightarrow> 'p ol_state \<Rightarrow> int \<Rightarrow> 'p ol_state \<Rightarrow> bool" where
  "put_outcome E item s ret s' \<longleftrightarrow>
     (if ret = 0 then marked s' (of_flow item) \<and> (marked s (of_flow item) \<longrightarrow> mark_of s' (of_flow item) = mark_of s (of_flow item)) \<and>
        (os_hw s' = os_hw s \<and>
           (\<exists>g. marked s g \<and> mega_of s g = mega_of s (of_flow item) \<and> mark_of s' (of_flow item) = mark_of s g) \<or>
         os_hw s' = os_hw s @ [(Hw_Put (mega_of s (of_flow item)) (mark_of s' (of_flow item)) (of_orig_in_port item) (of_actions item), 0)])
      else ret = -1 \<and> \<not> marked s' (of_flow item) \<and> (hw_good E \<longrightarrow> os_hw s' = os_hw s \<and> \<not> marked s (of_flow item)))"

lemma hw_do_fields:
  "hw_do E call s = (ret, s1) \<longleftrightarrow> ret = le_answer E (os_hw s) call \<and> s1 = s\<lparr>os_hw := os_hw s @ [(call, ret)]\<rparr>"
  by (auto simp: hw_do_def Let_def)

text \<open>The actions of an offloaded flow are changed.\<close>

lemma install_mod:
  assumes E: "ol_env_ok E" and s: "marks_ok E s" and f: "f = of_flow item" "marked s f" and r: "0 < os_refs s f"
  shows "\<exists>ret s'. offload_install E (home E s f) True (mark_of s f) item s = Inr (ret, s') \<and>
    marks_ok E s' \<and> mark_step f s s' \<and> put_outcome E item s ret s'"
proof -
  let ?call = "Hw_Put (mega_of s f) (mark_of s f) (of_orig_in_port item) (of_actions item)"
  let ?ans = "le_answer E (os_hw s) ?call"
  let ?s1 = "s\<lparr>os_hw := os_hw s @ [(?call, ?ans)]\<rparr>"
  have fail: "\<exists>ret s'. offload_err_free E (home E s f) True (mark_of s f) f s1 = Inr (ret, s') \<and>
      marks_ok E s' \<and> mark_step f s s' \<and> put_outcome E item s ret s'"
    if s1: "os_flows s1 = os_flows s" "os_threads s1 = os_threads s" "os_pool s1 = os_pool s" "os_refs s1 = os_refs s"
      and g: "\<not> hw_good E" for s1
  proof -
    have "marked s1 f" "0 < os_refs s1 f" using f(2) r by (simp_all add: s1)
    from disassociate_law [OF E marks_ok_cong [OF s s1(1-3)] this] obtain ret s' where
      d: "mark_to_flow_disassociate E (home E s f) f s1 = Inr (ret, s')" "marks_ok E s'" "mark_step f s1 s'" "\<not> marked s' f"
      by (auto simp: home_def s1(1))
    have "put_outcome E item s (-1) s'" using d(4) f(1) g by (simp add: put_outcome_def)
    then show ?thesis using d mark_step_start [OF d(3) s1(1,2,4)] by (intro exI [of _ "-1"] exI [of _ s']) (simp add: offload_err_free_def)
  qed
  show ?thesis
  proof (cases "le_port E (os_hw s) (lo_in_port (os_flows s f)) \<and> ?ans = 0")
    case True
    then have "offload_install E (home E s f) True (mark_of s f) item s = Inr (0, ?s1)"
      by (simp add: offload_install_def Let_def f(1) [symmetric] hw_do_def)
    moreover have "marks_ok E ?s1" by (rule marks_ok_cong [OF s]) simp_all
    moreover have "mark_step f s ?s1" by (simp add: mark_step_def)
    moreover have "put_outcome E item s 0 ?s1" using True f by (simp add: put_outcome_def)
    ultimately show ?thesis by blast
  next
    case False
    then have g: "\<not> hw_good E" by (auto simp: hw_good_def)
    have "offload_install E (home E s f) True (mark_of s f) item s =
        offload_err_free E (home E s f) True (mark_of s f) f (if le_port E (os_hw s) (lo_in_port (os_flows s f)) then ?s1 else s)"
      using False by (simp add: offload_install_def Let_def f(1) [symmetric] hw_do_def)
    then show ?thesis using fail [of "if le_port E (os_hw s) (lo_in_port (os_flows s f)) then ?s1 else s"] g by simp
  qed
qed

text \<open>A megaflow is offloaded for the first time.\<close>

lemma install_new:
  assumes E: "ol_env_ok E" and s: "marks_ok E s" and f: "f = of_flow item" and r: "0 < os_refs s f"
    and t: "home E s f < length (os_threads s)" and u: "\<And>g. marked s g \<Longrightarrow> mega_of s g \<noteq> mega_of s f"
    and a: "flow_mark_alloc E (home E s f) s = (m, s1)" and m: "m \<noteq> INVALID_FLOW_MARK"
  shows "\<exists>ret s'. offload_install E (home E s f) False m item s1 = Inr (ret, s') \<and>
    marks_ok E s' \<and> mark_step f s s' \<and> put_outcome E item s ret s'"
proof -
  note al = mark_alloc_law [OF E s a]
  from al(5) m obtain p where fresh: "\<And>g. mark_of s g \<noteq> m"
    and p: "os_pool s1 = Some p" "set (le_used E p) = insert m {mark_of s g | g. marked s g}" by auto
  have nf: "\<not> marked s f" using u by blast
  let ?call = "Hw_Put (mega_of s f) m (of_orig_in_port item) (of_actions item)"
  let ?ans = "le_answer E (os_hw s) ?call"
  let ?s2 = "s1\<lparr>os_hw := os_hw s @ [(?call, ?ans)]\<rparr>"
  have inst: "offload_install E (home E s f) False m item s1 =
      (if \<not> le_port E (os_hw s) (lo_in_port (os_flows s f)) then offload_err_free E (home E s f) False m f s1
       else if ?ans \<noteq> 0 then offload_err_free E (home E s f) False m f ?s2
       else bindr (megaflow_to_mark_associate E (home E s f) (mega_of s f) m ?s2) (\<lambda>s3.
         bindr (mark_to_flow_associate E (home E s f) m f s3) (\<lambda>s4. Inr (0, s4))))"
    by (simp add: offload_install_def Let_def f [symmetric] hw_do_def al home_def)
  show ?thesis
  proof (cases "le_port E (os_hw s) (lo_in_port (os_flows s f)) \<and> ?ans = 0")
    case True
    from associate_fresh [OF E s r t u m fresh, of ?s2 p] obtain s' where
      d: "bindr (megaflow_to_mark_associate E (home E s f) (mega_of s f) m ?s2) (mark_to_flow_associate E (home E s f) m f) = Inr s'"
        "marks_ok E s'" "mark_step f s s'" "mark_of s' f = m" "os_hw s' = os_hw ?s2" using al p by auto
    then obtain s3 where "megaflow_to_mark_associate E (home E s f) (mega_of s f) m ?s2 = Inr s3"
      "mark_to_flow_associate E (home E s f) m f s3 = Inr s'" by (auto simp: bindr_eq_Inr_iff)
    then have "offload_install E (home E s f) False m item s1 = Inr (0, s')" unfolding inst using True by simp
    moreover have "put_outcome E item s 0 s'" using d(4,5) m nf True f by (simp add: put_outcome_def)
    ultimately show ?thesis using d(2,3) by blast
  next
    case False
    then have g: "\<not> hw_good E" by (auto simp: hw_good_def)
    let ?s3 = "if le_port E (os_hw s) (lo_in_port (os_flows s f)) then ?s2 else s1"
    let ?p = "le_free_id E (home E s f) m p"
    have err: "offload_install E (home E s f) False m item s1 = Inr (-1, ?s3\<lparr>os_pool := Some ?p\<rparr>)"
      unfolding inst using False p(1) by (simp add: offload_err_free_def flow_mark_free_def)
    have fl: "os_flows ?s3 = os_flows s" "os_threads ?s3 = os_threads s" "os_refs ?s3 = os_refs s" using al by simp_all
    have "m \<notin> {mark_of s g | g. marked s g}" using fresh by blast
    then have "set (le_used E ?p) = {mark_of s g | g. marked s g}" using ol_env_okD(6) [OF E] p(2) by simp
    then have "marks_ok E (?s3\<lparr>os_pool := Some ?p\<rparr>)" by (intro marks_ok_pool [OF s]) (simp_all add: fl)
    moreover have "mark_step f s (?s3\<lparr>os_pool := Some ?p\<rparr>)" by (simp add: mark_step_def fl)
    moreover have "put_outcome E item s (-1) (?s3\<lparr>os_pool := Some ?p\<rparr>)" using nf g f al(1) by (simp add: put_outcome_def)
    ultimately show ?thesis using err by blast
  qed
qed

section \<open>The requests\<close>

lemma put_law:
  assumes E: "ol_env_ok E" and s: "marks_ok E s" and f: "f = of_flow item" and r: "0 < os_refs s f"
    and t: "home E s f < length (os_threads s)" and live: "\<not> lo_dead (os_flows s f)"
  shows "\<exists>ret s'. dp_netdev_flow_offload_put E (home E s f) item s = Inr (ret, s') \<and>
    marks_ok E s' \<and> mark_step f s s' \<and> put_outcome E item s ret s'"
proof (cases "of_op item = Offload_Mod \<and> marked s f")
  case True
  then have "dp_netdev_flow_offload_put E (home E s f) item s = offload_install E (home E s f) True (mark_of s f) item s"
    using live by (simp add: dp_netdev_flow_offload_put_def Let_def f [symmetric])
  then show ?thesis using install_mod [OF E s f _ r] True by simp
next
  case False
  have t': "le_thread_of E (mega_of s f) < length (os_threads s)" using t by (simp add: home_def)
  obtain m where m: "megaflow_to_mark_find E (home E s f) (mega_of s f) s = Inr m"
    "if m = INVALID_FLOW_MARK then \<not> (\<exists>g. marked s g \<and> mega_of s g = mega_of s f) else \<exists>g. mark_of s g = m \<and> mega_of s g = mega_of s f"
    using find_law [OF s t'] by (auto simp: home_def)
  have put: "dp_netdev_flow_offload_put E (home E s f) item s =
      (if m \<noteq> INVALID_FLOW_MARK then
         (if marked s f then (if mark_of s f = m then Inr (0, s) else Inl Assert_Failed)
          else bindr (mark_to_flow_associate E (home E s f) m f s) (\<lambda>s. Inr (0, s)))
       else let (mark, s1) = flow_mark_alloc E (home E s f) s
            in if mark = INVALID_FLOW_MARK then Inr (-1, s1) else offload_install E (home E s f) False mark item s1)"
    unfolding dp_netdev_flow_offload_put_def Let_def f [symmetric] if_not_P [OF live] if_not_P [OF False] m(1) by simp
  show ?thesis
  proof (cases "m = INVALID_FLOW_MARK")
    case True
    then have u: "\<And>g. marked s g \<Longrightarrow> mega_of s g \<noteq> mega_of s f" using m(2) by auto
    obtain mark s1 where a: "flow_mark_alloc E (home E s f) s = (mark, s1)" by fastforce
    note al = mark_alloc_law [OF E s a]
    show ?thesis
    proof (cases "mark = INVALID_FLOW_MARK")
      case True
      then have "dp_netdev_flow_offload_put E (home E s f) item s = Inr (-1, s1)" unfolding put \<open>m = _\<close> a by simp
      moreover have "mark_step f s s1" by (simp add: mark_step_def al)
      moreover have "put_outcome E item s (-1) s1" using u f by (auto simp: put_outcome_def al)
      ultimately show ?thesis using al(5) True by auto
    next
      case False
      then show ?thesis unfolding put \<open>m = _\<close> a using install_new [OF E s f r t u a False] by simp
    qed
  next
    case False
    then obtain g where g: "mark_of s g = m" "marked s g" "mega_of s g = mega_of s f" using m(2) by auto
    show ?thesis
    proof (cases "marked s f")
      case True
      then have "mark_of s f = m" using one_mark [OF s True g(2)] g by simp
      then have "dp_netdev_flow_offload_put E (home E s f) item s = Inr (0, s)" unfolding put using False True by simp
      moreover have "put_outcome E item s 0 s" using True f by (auto simp: put_outcome_def)
      ultimately show ?thesis using s mark_step_refl by blast
    next
      case nf: False
      obtain s' where s': "mark_to_flow_associate E (home E s f) m f s = Inr s'" "marks_ok E s'" "mark_step f s s'"
        "mark_of s' f = m" "os_hw s' = os_hw s" using associate_known [OF E s r _ g(2,3)] nf g(1) by auto
      then have "dp_netdev_flow_offload_put E (home E s f) item s = Inr (0, s')" unfolding put using False nf by simp
      moreover have "put_outcome E item s 0 s'" using s'(4,5) nf f False g by (simp add: put_outcome_def) (metis g)
      ultimately show ?thesis using s'(2,3) by blast
    qed
  qed
qed

text \<open>A flow has lost its mark, and the device its rule when the mark was of no other flow.\<close>

definition del_outcome :: "('flow, 'p) ol_env \<Rightarrow> nat \<Rightarrow> 'p ol_state \<Rightarrow> 'p ol_state \<Rightarrow> bool" where
  "del_outcome E f s s' \<longleftrightarrow> \<not> marked s' f \<and>
     os_hw s' = os_hw s @ (if \<not> marked s f \<or> shared s f then [] else del_call E f s)"

lemma del_law:
  assumes E: "ol_env_ok E" and s: "marks_ok E s" and f: "f = of_flow item" and r: "0 < os_refs s f"
  shows "\<exists>ret s'. dp_netdev_flow_offload_del E (home E s f) item s = Inr (ret, s') \<and>
    marks_ok E s' \<and> mark_step f s s' \<and> del_outcome E f s s'"
proof (cases "marked s f")
  case True
  then show ?thesis
    using disassociate_law [OF E s True r] unfolding dp_netdev_flow_offload_del_def f [symmetric] del_outcome_def by simp
next
  case False
  then have "dp_netdev_flow_offload_del E (home E s f) item s = Inr (EINVAL, s)"
    by (simp add: dp_netdev_flow_offload_del_def f [symmetric] mark_to_flow_disassociate_def)
  then show ?thesis using s mark_step_refl False by (auto simp: del_outcome_def)
qed

text \<open>A request, of whatever kind.\<close>

definition flow_outcome :: "('flow, 'p) ol_env \<Rightarrow> offload_item \<Rightarrow> 'p ol_state \<Rightarrow> int \<Rightarrow> 'p ol_state \<Rightarrow> bool" where
  "flow_outcome E item s ret s' \<longleftrightarrow>
     (if of_op item = Offload_Del then del_outcome E (of_flow item) s s'
      else if lo_dead (os_flows s (of_flow item)) then ret = -1 \<and> os_flows s' = os_flows s \<and> os_hw s' = os_hw s
      else put_outcome E item s ret s')"

lemma flow_outcome_cong:
  assumes "flow_outcome E item s ret s'" "os_flows r = os_flows s" "os_hw r = os_hw s" "os_flows r' = os_flows s'" "os_hw r' = os_hw s'"
  shows "flow_outcome E item r ret r'"
  using assms(1) unfolding flow_outcome_def put_outcome_def del_outcome_def del_call_def assms(2-5) .

lemma offload_flow_law:
  assumes E: "ol_env_ok E" and s: "marks_ok E s" and f: "f = of_flow item" and r: "0 < os_refs s f"
    and t: "home E s f < length (os_threads s)"
  shows "\<exists>ret s'. dp_offload_flow E (home E s f) item s = Inr (ret, s') \<and>
    marks_ok E s' \<and> mark_step f s s' \<and> flow_outcome E item s ret s'"
proof -
  have "\<exists>ret s'. dp_netdev_flow_offload_put E (home E s f) item s = Inr (ret, s') \<and> marks_ok E s' \<and> mark_step f s s' \<and>
      (if lo_dead (os_flows s (of_flow item)) then ret = -1 \<and> os_flows s' = os_flows s \<and> os_hw s' = os_hw s
        else put_outcome E item s ret s')"
  proof (cases "lo_dead (os_flows s f)")
    case True
    then have "dp_netdev_flow_offload_put E (home E s f) item s = Inr (-1, s)"
      by (simp add: dp_netdev_flow_offload_put_def Let_def f [symmetric])
    then show ?thesis using s mark_step_refl True f by auto
  next
    case False
    then show ?thesis using put_law [OF E s f r t False] f by simp
  qed
  then show ?thesis using del_law [OF E s f r]
    by (cases "of_op item") (simp_all add: dp_offload_flow_def flow_outcome_def f)
qed

end
