(* ===== verification/Dpif_Offload_System.thy ===== *)
theory Dpif_Offload_System
  imports Dpif_Offload_Put
begin

text \<open>
  The polling threads that make requests, the offload threads, and the main thread that flushes a
  port, as a step relation with its invariant.
\<close>

section \<open>States and steps\<close>

text \<open>
  Where \<open>dp_netdev_offload_flush\<close> of the network device is: at the first barrier, where it has given
  up the write lock of the ports; taking the lock back; at the second barrier; and returned, the
  deletion of the port going on under the lock.
\<close>

datatype flush_stage = Not_Flushing | At_First nat | Takes_Lock nat | At_Second nat | Deletes_Port nat

text \<open>
  Beside the state of the offload threads: the references that other threads hold, and the flows whose
  removal has been requested.
\<close>

record 'p ol_sys =
  oy_state :: "'p ol_state"
  oy_held :: "nat \<Rightarrow> nat"
  oy_gone :: "nat set"
  oy_flush :: flush_stage

abbreviation oy_threads :: "'p ol_sys \<Rightarrow> dp_offload_thread list" where
  "oy_threads y \<equiv> os_threads (oy_state y)"

text \<open>The main thread holds the write lock of the ports.\<close>

fun port_lock_held :: "flush_stage \<Rightarrow> bool" where
  "port_lock_held (At_Second netdev) = True"
| "port_lock_held (Deletes_Port netdev) = True"
| "port_lock_held stage = False"

definition all_wait :: "ol_wait \<Rightarrow> 'p ol_state \<Rightarrow> bool" where
  "all_wait w s \<longleftrightarrow> (\<forall>th\<in>set (os_threads s). lt_wait th = w)"

definition set_wait :: "ol_wait \<Rightarrow> 'p ol_state \<Rightarrow> 'p ol_state" where
  "set_wait w s = s\<lparr>os_threads := map (lt_wait_update (\<lambda>_. w)) (os_threads s)\<rparr>"

definition new_flow_at :: "nat \<Rightarrow> ol_flow \<Rightarrow> 'p ol_state \<Rightarrow> 'p ol_state" where
  "new_flow_at f fl s = s\<lparr>os_flows := (os_flows s)(f := fl\<lparr>lo_mark := INVALID_FLOW_MARK, lo_dead := False\<rparr>),
     os_refs := (os_refs s)(f := 1)\<rparr>"

definition set_dead :: "nat \<Rightarrow> 'p ol_state \<Rightarrow> 'p ol_state" where
  "set_dead f s = s\<lparr>os_flows := (os_flows s)(f := (os_flows s f)\<lparr>lo_dead := True\<rparr>)\<rparr>"

text \<open>
  A flow is made where none is; a thread takes and drops references, asks for a flow that it has to be
  offloaded, or to be taken away, after which the flow is dead and not asked for again; an offload
  thread that waits at no barrier does a request, with the lock of the ports if it calls the device;
  and the main thread flushes a port, one at a time (\<open>flush_mutex\<close>).  The offload API is enabled.
\<close>

inductive ol_step :: "('flow, 'p) ol_env \<Rightarrow> 'p ol_sys \<Rightarrow> 'p ol_sys \<Rightarrow> bool" for E where
  new_flow:
    "os_refs (oy_state y) f = 0 \<Longrightarrow>
       ol_step E y (y\<lparr>oy_state := new_flow_at f fl (oy_state y), oy_held := (oy_held y)(f := 1), oy_gone := oy_gone y - {f}\<rparr>)"
| take_ref:
    "0 < os_refs (oy_state y) f \<Longrightarrow>
       ol_step E y (y\<lparr>oy_state := (oy_state y)\<lparr>os_refs := (os_refs (oy_state y))(f := os_refs (oy_state y) f + 1)\<rparr>,
         oy_held := (oy_held y)(f := oy_held y f + 1)\<rparr>)"
| drop_ref:
    "0 < oy_held y f \<Longrightarrow>
       ol_step E y (y\<lparr>oy_state := (oy_state y)\<lparr>os_refs := dp_netdev_flow_unref (le_dfc E) (os_refs (oy_state y)) f\<rparr>,
         oy_held := (oy_held y)(f := oy_held y f - 1)\<rparr>)"
| ask_put:
    "0 < oy_held y (of_flow item) \<Longrightarrow> of_op item \<noteq> Offload_Del \<Longrightarrow> of_flow item \<notin> oy_gone y \<Longrightarrow>
       request_offload E item (oy_state y) = Inr s' \<Longrightarrow>
       ol_step E y (y\<lparr>oy_state := s'\<rparr>)"
| ask_del:
    "0 < oy_held y (of_flow item) \<Longrightarrow> of_op item = Offload_Del \<Longrightarrow> of_flow item \<notin> oy_gone y \<Longrightarrow>
       request_offload E item (oy_state y) = Inr s' \<Longrightarrow>
       ol_step E y (y\<lparr>oy_state := s', oy_gone := insert (of_flow item) (oy_gone y)\<rparr>)"
| mark_dead:
    "0 < oy_held y f \<Longrightarrow> f \<in> oy_gone y \<Longrightarrow>
       ol_step E y (y\<lparr>oy_state := set_dead f (oy_state y)\<rparr>)"
| thread_round:
    "t < length (oy_threads y) \<Longrightarrow> lt_wait (oy_threads y ! t) = No_Wait \<Longrightarrow> lt_queue (oy_threads y ! t) \<noteq> [] \<Longrightarrow>
       offload_round E t (oy_state y) = Inr s' \<Longrightarrow>
       (port_lock_held (oy_flush y) \<Longrightarrow> os_hw s' = os_hw (oy_state y)) \<Longrightarrow>
       ol_step E y (y\<lparr>oy_state := s'\<rparr>)"
| flush_port:
    "oy_flush y = Not_Flushing \<Longrightarrow> dp_netdev_offload_flush_enqueue E netdev (oy_state y) = Inr s' \<Longrightarrow>
       ol_step E y (y\<lparr>oy_state := s', oy_flush := At_First netdev\<rparr>)"
| first_barrier:
    "oy_flush y = At_First netdev \<Longrightarrow> all_wait First_Wait (oy_state y) \<Longrightarrow>
       ol_step E y (y\<lparr>oy_state := set_wait Second_Wait (oy_state y), oy_flush := Takes_Lock netdev\<rparr>)"
| lock_taken:
    "oy_flush y = Takes_Lock netdev \<Longrightarrow> ol_step E y (y\<lparr>oy_flush := At_Second netdev\<rparr>)"
| second_barrier:
    "oy_flush y = At_Second netdev \<Longrightarrow> all_wait Second_Wait (oy_state y) \<Longrightarrow>
       ol_step E y (y\<lparr>oy_state := set_wait No_Wait (oy_state y), oy_flush := Deletes_Port netdev\<rparr>)"
| port_deleted:
    "oy_flush y = Deletes_Port netdev \<Longrightarrow> ol_step E y (y\<lparr>oy_flush := Not_Flushing\<rparr>)"

inductive_cases ol_stepE: "ol_step E y y'"

text \<open>At the start there are no flows and no offload threads.\<close>

definition ol_start :: "(nat \<Rightarrow> ol_flow) \<Rightarrow> 'p ol_sys" where
  "ol_start fl = \<lparr>oy_state = \<lparr>os_flows = \<lambda>f. (fl f)\<lparr>lo_mark := INVALID_FLOW_MARK, lo_dead := False\<rparr>,
     os_refs = \<lambda>_. 0, os_threads = [], os_pool = None, os_hw = []\<rparr>, oy_held = \<lambda>_. 0, oy_gone = {}, oy_flush = Not_Flushing\<rparr>"

inductive ol_reachable :: "('flow, 'p) ol_env \<Rightarrow> 'p ol_sys \<Rightarrow> bool" for E where
  reach_start: "ol_reachable E (ol_start fl)"
| reach_step: "ol_reachable E y \<Longrightarrow> ol_step E y y' \<Longrightarrow> ol_reachable E y'"

section \<open>The queues\<close>

text \<open>The requests about a flow in a queue, and the flushes in it.\<close>

fun items_of :: "nat \<Rightarrow> ol_item list \<Rightarrow> offload_item list" where
  "items_of f [] = []"
| "items_of f (Item_Flow item # queue) = (if of_flow item = f then item # items_of f queue else items_of f queue)"
| "items_of f (Item_Flush netdev # queue) = items_of f queue"

fun flushes_of :: "ol_item list \<Rightarrow> nat list" where
  "flushes_of [] = []"
| "flushes_of (Item_Flow item # queue) = flushes_of queue"
| "flushes_of (Item_Flush netdev # queue) = netdev # flushes_of queue"

lemma items_of_append: "items_of f (queue @ queue') = items_of f queue @ items_of f queue'"
  by (induction f queue rule: items_of.induct) auto

lemma flushes_of_append: "flushes_of (queue @ queue') = flushes_of queue @ flushes_of queue'"
  by (induction queue rule: flushes_of.induct) auto

lemma items_of_Nil_iff: "items_of f queue = [] \<longleftrightarrow> (\<forall>item. Item_Flow item \<in> set queue \<longrightarrow> of_flow item \<noteq> f)"
  by (induction f queue rule: items_of.induct) auto

abbreviation queue_of :: "'p ol_state \<Rightarrow> nat \<Rightarrow> ol_item list" where
  "queue_of s t \<equiv> lt_queue (os_threads s ! t)"

text \<open>The requests about a flow that wait.\<close>

definition pending :: "('flow, 'p) ol_env \<Rightarrow> 'p ol_state \<Rightarrow> nat \<Rightarrow> offload_item list" where
  "pending E s f = (if home E s f < length (os_threads s) then items_of f (queue_of s (home E s f)) else [])"

section \<open>The invariant\<close>

text \<open>Every request waits in the queue of the thread of its flow, and the counter of a queue is its length.\<close>

definition queues_ok :: "('flow, 'p) ol_env \<Rightarrow> 'p ol_state \<Rightarrow> bool" where
  "queues_ok E s \<longleftrightarrow> (os_threads s = [] \<or> length (os_threads s) = le_thread_nb E) \<and>
     (\<forall>t<length (os_threads s). lt_enqueued_item (os_threads s ! t) = of_nat (length (queue_of s t)) \<and>
        (\<forall>item. Item_Flow item \<in> set (queue_of s t) \<longrightarrow> home E s (of_flow item) = t))"

text \<open>The references of a flow: those held, that of its mark, and one for each request.\<close>

definition refs_exact :: "('flow, 'p) ol_env \<Rightarrow> 'p ol_sys \<Rightarrow> bool" where
  "refs_exact E y \<longleftrightarrow> (\<forall>f. os_refs (oy_state y) f =
     oy_held y f + of_bool (marked (oy_state y) f) + length (pending E (oy_state y) f))"

text \<open>A flow whose removal was requested: the request is the last one that waits, or has been done.\<close>

definition gone_ok :: "('flow, 'p) ol_env \<Rightarrow> 'p ol_sys \<Rightarrow> bool" where
  "gone_ok E y \<longleftrightarrow> (\<forall>f. lo_dead (os_flows (oy_state y) f) \<longrightarrow> f \<in> oy_gone y) \<and>
     (\<forall>f\<in>oy_gone y. (pending E (oy_state y) f = [] \<longrightarrow> \<not> marked (oy_state y) f) \<and>
        (pending E (oy_state y) f \<noteq> [] \<longrightarrow> of_op (List.last (pending E (oy_state y) f)) = Offload_Del))"

text \<open>Where the threads are during a flush.\<close>

definition thread_flush_ok :: "flush_stage \<Rightarrow> dp_offload_thread \<Rightarrow> bool" where
  "thread_flush_ok stage th \<longleftrightarrow>
     (case stage of
        At_First netdev \<Rightarrow> (lt_wait th = No_Wait \<and> flushes_of (lt_queue th) = [netdev]) \<or>
          (lt_wait th = First_Wait \<and> flushes_of (lt_queue th) = [])
      | Takes_Lock netdev \<Rightarrow> lt_wait th = Second_Wait \<and> flushes_of (lt_queue th) = []
      | At_Second netdev \<Rightarrow> lt_wait th = Second_Wait \<and> flushes_of (lt_queue th) = []
      | _ \<Rightarrow> lt_wait th = No_Wait \<and> flushes_of (lt_queue th) = [])"

definition ol_ok :: "('flow, 'p) ol_env \<Rightarrow> 'p ol_sys \<Rightarrow> bool" where
  "ol_ok E y \<longleftrightarrow> marks_ok E (oy_state y) \<and> queues_ok E (oy_state y) \<and> refs_exact E y \<and> gone_ok E y \<and>
     (\<forall>th\<in>set (oy_threads y). thread_flush_ok (oy_flush y) th) \<and> (oy_threads y = [] \<longrightarrow> oy_flush y = Not_Flushing)"

lemma ol_okD:
  assumes "ol_ok E y"
  shows "marks_ok E (oy_state y)" and "queues_ok E (oy_state y)" and "refs_exact E y" and "gone_ok E y"
    and "th \<in> set (oy_threads y) \<Longrightarrow> thread_flush_ok (oy_flush y) th" and "oy_threads y = [] \<Longrightarrow> oy_flush y = Not_Flushing"
  using assms by (simp_all add: ol_ok_def)

lemma queues_okD:
  assumes "queues_ok E s" "t < length (os_threads s)"
  shows "length (os_threads s) = le_thread_nb E" and "lt_enqueued_item (os_threads s ! t) = of_nat (length (queue_of s t))"
    and "Item_Flow item \<in> set (queue_of s t) \<Longrightarrow> home E s (of_flow item) = t"
  using assms by (auto simp: queues_ok_def)

lemma gone_okD:
  assumes "gone_ok E y"
  shows "lo_dead (os_flows (oy_state y) f) \<Longrightarrow> f \<in> oy_gone y"
    and "f \<in> oy_gone y \<Longrightarrow> pending E (oy_state y) f = [] \<Longrightarrow> \<not> marked (oy_state y) f"
    and "f \<in> oy_gone y \<Longrightarrow> pending E (oy_state y) f \<noteq> [] \<Longrightarrow> of_op (List.last (pending E (oy_state y) f)) = Offload_Del"
  using assms by (auto simp: gone_ok_def)

lemma refs_exactD:
  assumes "refs_exact E y"
  shows "os_refs (oy_state y) f = oy_held y f + of_bool (marked (oy_state y) f) + length (pending E (oy_state y) f)"
  using assms by (simp add: refs_exact_def)

section \<open>Threads whose maps are the same\<close>

definition lt_maps :: "dp_offload_thread \<Rightarrow> megaflow_to_mark_data list \<times> (u32 \<times> nat) list" where
  "lt_maps th = (lt_megaflow_to_mark th, lt_mark_to_flow th)"

lemma marks_ok_maps:
  assumes s: "marks_ok E s" and f: "os_flows s' = os_flows s" "os_pool s' = os_pool s"
    and m: "map lt_maps (os_threads s') = map lt_maps (os_threads s)"
  shows "marks_ok E s'"
proof -
  have len: "length (os_threads s') = length (os_threads s)" using arg_cong [OF m, of length] by simp
  have "lt_maps (os_threads s' ! t) = lt_maps (os_threads s ! t)" if "t < length (os_threads s)" for t
    using arg_cong [OF m, of "\<lambda>xs. xs ! t"] len that by simp
  then have "lt_mark_to_flow (os_threads s' ! t) = lt_mark_to_flow (os_threads s ! t)"
    "lt_megaflow_to_mark (os_threads s' ! t) = lt_megaflow_to_mark (os_threads s ! t)" if "t < length (os_threads s)" for t
    using that by (simp_all add: lt_maps_def)
  then have "maps_ok E s' t" if "t < length (os_threads s)" for t
    using marks_okD(1) [OF s that] that unfolding maps_ok_def Let_def home_def f by simp
  then show ?thesis using s unfolding marks_ok_def len pool_ok_def home_def f by blast
qed

lemma init_law:
  assumes s: "marks_ok E s" "queues_ok E s"
  shows "marks_ok E (dp_netdev_offload_init E s)" and "queues_ok E (dp_netdev_offload_init E s)"
    and "length (os_threads (dp_netdev_offload_init E s)) = le_thread_nb E"
    and "os_flows (dp_netdev_offload_init E s) = os_flows s" "os_refs (dp_netdev_offload_init E s) = os_refs s"
      "os_pool (dp_netdev_offload_init E s) = os_pool s" "os_hw (dp_netdev_offload_init E s) = os_hw s"
    and "pending E (dp_netdev_offload_init E s) f = pending E s f"
    and "th \<in> set (os_threads (dp_netdev_offload_init E s)) \<Longrightarrow> th \<in> set (os_threads s) \<or> os_threads s = [] \<and> th = fresh_offload_thread"
proof -
  show "length (os_threads (dp_netdev_offload_init E s)) = le_thread_nb E"
    using s(2) by (auto simp: dp_netdev_offload_init_def queues_ok_def)
  show "th \<in> set (os_threads (dp_netdev_offload_init E s)) \<Longrightarrow> th \<in> set (os_threads s) \<or> os_threads s = [] \<and> th = fresh_offload_thread"
    by (auto simp: dp_netdev_offload_init_def split: if_splits)
  show fl: "os_flows (dp_netdev_offload_init E s) = os_flows s" "os_refs (dp_netdev_offload_init E s) = os_refs s"
      "os_pool (dp_netdev_offload_init E s) = os_pool s" "os_hw (dp_netdev_offload_init E s) = os_hw s"
    by (simp_all add: dp_netdev_offload_init_def)
  show "pending E (dp_netdev_offload_init E s) f = pending E s f"
    by (auto simp: pending_def home_def fl dp_netdev_offload_init_def fresh_offload_thread_def)
  show "queues_ok E (dp_netdev_offload_init E s)"
    using s(2) by (auto simp: queues_ok_def dp_netdev_offload_init_def fresh_offload_thread_def)
  show "marks_ok E (dp_netdev_offload_init E s)"
  proof (cases "os_threads s = []")
    case True
    then have none: "\<not> marked s g" for g using marks_okD(2) [OF s(1), of g] by auto
    have "maps_ok E (dp_netdev_offload_init E s) t" if "t < le_thread_nb E" for t
      using none that True by (simp add: maps_ok_def dp_netdev_offload_init_def fresh_offload_thread_def)
    moreover have "pool_ok E (dp_netdev_offload_init E s)" using marks_okD(4) [OF s(1)] unfolding pool_ok_def fl .
    moreover have "length (os_threads (dp_netdev_offload_init E s)) = le_thread_nb E"
      using True by (simp add: dp_netdev_offload_init_def)
    ultimately show ?thesis using none unfolding marks_ok_def fl by auto
  next
    case False
    then show ?thesis using s(1) by (simp add: dp_netdev_offload_init_def)
  qed
qed

end
