(* ===== verification/Dpif_Offload_Steps.thy ===== *)
theory Dpif_Offload_Steps
  imports Dpif_Offload_System
begin

text \<open>Every step of the offload threads and of those that use them keeps the invariant and never faults.\<close>

section \<open>Requests\<close>

lemma append_law:
  assumes E: "ol_env_ok E" and s: "marks_ok E s" "queues_ok E s" and t: "t < le_thread_nb E"
    and home: "case item of Item_Flow it \<Rightarrow> home E s (of_flow it) = t | Item_Flush netdev \<Rightarrow> True"
  shows "\<exists>s'. dp_netdev_append_offload E item t s = Inr s' \<and> marks_ok E s' \<and> queues_ok E s' \<and>
    os_flows s' = os_flows s \<and> os_refs s' = os_refs s \<and> os_hw s' = os_hw s \<and> length (os_threads s') = le_thread_nb E \<and>
    (\<forall>u<le_thread_nb E. lt_wait (os_threads s' ! u) = lt_wait (os_threads (dp_netdev_offload_init E s) ! u) \<and>
       queue_of s' u = queue_of (dp_netdev_offload_init E s) u @ (if u = t then [item] else []))"
proof -
  let ?s = "dp_netdev_offload_init E s"
  note i = init_law [OF s]
  let ?th = "os_threads ?s ! t"
  let ?th' = "?th\<lparr>lt_queue := lt_queue ?th @ [item], lt_enqueued_item := lt_enqueued_item ?th + 1\<rparr>"
  let ?s' = "put_thread t ?th' ?s"
  have t': "t < length (os_threads ?s)" using t i(3) by simp
  have res: "dp_netdev_append_offload E item t s = Inr ?s'"
    unfolding dp_netdev_append_offload_def Let_def using t' by simp
  have th: "os_threads ?s' = (os_threads ?s)[t := ?th']" "os_flows ?s' = os_flows s" "os_refs ?s' = os_refs s"
    "os_hw ?s' = os_hw s" "os_pool ?s' = os_pool s" by (simp_all add: put_thread_def i)
  have "map lt_maps (os_threads ?s') = map lt_maps (os_threads ?s)"
    unfolding th using t' by (simp add: map_update list_update_same_conv lt_maps_def)
  then have "marks_ok E ?s'" by (intro marks_ok_maps [OF i(1)]) (simp_all add: th i)
  moreover have "queues_ok E ?s'"
  proof -
    have hs: "home E ?s' g = home E s g" "home E ?s g = home E s g" for g by (simp_all add: home_def th(2) i(4))
    have "lt_enqueued_item (os_threads ?s' ! u) = of_nat (length (queue_of ?s' u)) \<and>
        (\<forall>it. Item_Flow it \<in> set (queue_of ?s' u) \<longrightarrow> home E s (of_flow it) = u)" if u: "u < le_thread_nb E" for u
    proof -
      have u': "u < length (os_threads ?s)" using u i(3) by simp
      note old = queues_okD(2,3) [OF i(2) u']
      have tu: "os_threads ?s' ! u = (if u = t then ?th' else os_threads ?s ! u)" unfolding th(1) using u' by (simp add: nth_list_update)
      show ?thesis using old(1) old(2) [unfolded hs] home unfolding tu by (cases "u = t") (auto split: ol_item.splits)
    qed
    then show ?thesis using i(3) unfolding queues_ok_def hs th(1) by simp
  qed
  ultimately show ?thesis using res th t' i(3) by (intro exI [of _ ?s']) (simp add: nth_list_update)
qed

lemma request_law:
  assumes E: "ol_env_ok E" and s: "marks_ok E s" "queues_ok E s" and r: "0 < os_refs s (of_flow item)"
  shows "\<exists>s'. request_offload E item s = Inr s' \<and> marks_ok E s' \<and> queues_ok E s' \<and> os_flows s' = os_flows s \<and> os_hw s' = os_hw s \<and>
    os_refs s' = (os_refs s)(of_flow item := os_refs s (of_flow item) + 1) \<and> os_threads s' \<noteq> [] \<and>
    (\<forall>g. pending E s' g = pending E s g @ (if g = of_flow item then [item] else [])) \<and>
    (\<forall>th'\<in>set (os_threads s'). \<exists>th. (th \<in> set (os_threads s) \<or> os_threads s = [] \<and> th = fresh_offload_thread) \<and>
       lt_wait th' = lt_wait th \<and> flushes_of (lt_queue th') = flushes_of (lt_queue th)) \<and>
    (os_threads s \<noteq> [] \<longrightarrow> length (os_threads s') = length (os_threads s) \<and>
       (\<forall>u<length (os_threads s). lt_wait (os_threads s' ! u) = lt_wait (os_threads s ! u) \<and>
          (\<exists>items. queue_of s' u = queue_of s u @ map Item_Flow items)))"
proof -
  let ?f = "of_flow item"
  define s0 where "s0 = s\<lparr>os_refs := (os_refs s)(?f := os_refs s ?f + 1)\<rparr>"
  have s0: "os_flows s0 = os_flows s" "os_threads s0 = os_threads s" "os_pool s0 = os_pool s" "os_hw s0 = os_hw s"
    "os_refs s0 = (os_refs s)(?f := os_refs s ?f + 1)" by (simp_all add: s0_def)
  let ?t = "home E s ?f"
  have t: "?t < le_thread_nb E" by (simp add: home_def ol_env_okD(3) [OF E])
  have s1: "marks_ok E s0" "queues_ok E s0" using s by (auto intro: marks_ok_cong simp: queues_ok_def home_def s0)
  have h: "home E s0 g = home E s g" for g by (simp add: home_def s0)
  have "case Item_Flow item of Item_Flow it \<Rightarrow> home E s0 (of_flow it) = ?t | Item_Flush netdev \<Rightarrow> True" by (simp add: h)
  from append_law [OF E s1 t this] obtain s' where
    a: "dp_netdev_append_offload E (Item_Flow item) ?t s0 = Inr s'" "marks_ok E s'" "queues_ok E s'" "os_flows s' = os_flows s"
      "os_refs s' = os_refs s0" "os_hw s' = os_hw s" "length (os_threads s') = le_thread_nb E"
    and q: "\<And>u. u < le_thread_nb E \<Longrightarrow> lt_wait (os_threads s' ! u) = lt_wait (os_threads (dp_netdev_offload_init E s0) ! u) \<and>
       queue_of s' u = queue_of (dp_netdev_offload_init E s0) u @ (if u = ?t then [Item_Flow item] else [])" by (auto simp: s0)
  note i = init_law [OF s1]
  have "request_offload E item s = Inr s'"
    using a(1) r by (simp add: request_offload_def dp_netdev_offload_flow_enqueue_def ol_env_okD(1) [OF E] home_def s0_def)
  moreover have "pending E s' g = pending E s g @ (if g = ?f then [item] else [])" for g
  proof -
    have hg: "home E s' g = home E s g" by (simp add: home_def a(4))
    have g: "home E s g < le_thread_nb E" by (simp add: home_def ol_env_okD(3) [OF E])
    have "pending E s g = pending E s0 g" by (simp add: pending_def home_def s0)
    also have "\<dots> = pending E (dp_netdev_offload_init E s0) g" by (rule i(8) [symmetric])
    also have "\<dots> = items_of g (queue_of (dp_netdev_offload_init E s0) (home E s g))"
      using g i(3) by (simp add: pending_def home_def i(4) s0)
    finally show ?thesis using q [OF g] g by (auto simp: pending_def hg a(7) items_of_append)
  qed
  moreover have "\<exists>th. (th \<in> set (os_threads s) \<or> os_threads s = [] \<and> th = fresh_offload_thread) \<and>
       lt_wait th' = lt_wait th \<and> flushes_of (lt_queue th') = flushes_of (lt_queue th)" if th': "th' \<in> set (os_threads s')" for th'
  proof -
    obtain u where u: "u < le_thread_nb E" "th' = os_threads s' ! u" using th' unfolding in_set_conv_nth a(7) by blast
    have "os_threads (dp_netdev_offload_init E s0) ! u \<in> set (os_threads (dp_netdev_offload_init E s0))" using u(1) i(3) by simp
    from i(9) [OF this] have "os_threads (dp_netdev_offload_init E s0) ! u \<in> set (os_threads s) \<or>
        os_threads s = [] \<and> os_threads (dp_netdev_offload_init E s0) ! u = fresh_offload_thread" by (simp add: s0)
    then show ?thesis using q [OF u(1)] u(2) by (intro exI [of _ "os_threads (dp_netdev_offload_init E s0) ! u"]) (simp add: flushes_of_append)
  qed
  moreover have "length (os_threads s') = length (os_threads s) \<and>
       (\<forall>u<length (os_threads s). lt_wait (os_threads s' ! u) = lt_wait (os_threads s ! u) \<and>
          (\<exists>items. queue_of s' u = queue_of s u @ map Item_Flow items))" if ne: "os_threads s \<noteq> []"
  proof -
    have i0: "dp_netdev_offload_init E s0 = s0" using ne by (simp add: dp_netdev_offload_init_def s0)
    then have len: "length (os_threads s) = le_thread_nb E" using i(3) by (simp add: s0)
    have "lt_wait (os_threads s' ! u) = lt_wait (os_threads s ! u) \<and>
        queue_of s' u = queue_of s u @ map Item_Flow (if u = ?t then [item] else [])" if "u < length (os_threads s)" for u
      using q [of u] that unfolding len i0 s0(2) by simp
    then show ?thesis using a(7) len by metis
  qed
  moreover have "os_threads s' \<noteq> []" using a(7) t by auto
  ultimately show ?thesis using a s0(5) by auto
qed

section \<open>A flush\<close>

lemma flush_from_law:
  assumes "ol_env_ok E" "marks_ok E s" "queues_ok E s" "length (os_threads s) = le_thread_nb E" "t + k = le_thread_nb E"
  shows "\<exists>s'. flush_enqueue_from E netdev t k s = Inr s' \<and> marks_ok E s' \<and> queues_ok E s' \<and>
    os_flows s' = os_flows s \<and> os_refs s' = os_refs s \<and> os_hw s' = os_hw s \<and> length (os_threads s') = le_thread_nb E \<and>
    (\<forall>u<le_thread_nb E. lt_wait (os_threads s' ! u) = lt_wait (os_threads s ! u) \<and>
       queue_of s' u = queue_of s u @ (if t \<le> u then [Item_Flush netdev] else []))"
  using assms
proof (induction k arbitrary: t s)
  case 0
  then show ?case by auto
next
  case (Suc k)
  have t: "t < le_thread_nb E" using Suc.prems(5) by simp
  have i: "dp_netdev_offload_init E s = s" using Suc.prems(4) t by (auto simp: dp_netdev_offload_init_def)
  from append_law [OF Suc.prems(1-3) t, of "Item_Flush netdev"] obtain s1 where
    a: "dp_netdev_append_offload E (Item_Flush netdev) t s = Inr s1" "marks_ok E s1" "queues_ok E s1"
      "os_flows s1 = os_flows s" "os_refs s1 = os_refs s" "os_hw s1 = os_hw s" "length (os_threads s1) = le_thread_nb E"
    and q: "\<And>u. u < le_thread_nb E \<Longrightarrow> lt_wait (os_threads s1 ! u) = lt_wait (os_threads s ! u) \<and>
       queue_of s1 u = queue_of s u @ (if u = t then [Item_Flush netdev] else [])" by (auto simp: i)
  have "Suc t + k = le_thread_nb E" using Suc.prems(5) by simp
  from Suc.IH [OF Suc.prems(1) a(2,3,7) this] obtain s' where
    b: "flush_enqueue_from E netdev (Suc t) k s1 = Inr s'" "marks_ok E s'" "queues_ok E s'"
      "os_flows s' = os_flows s1" "os_refs s' = os_refs s1" "os_hw s' = os_hw s1" "length (os_threads s') = le_thread_nb E"
    and q': "\<And>u. u < le_thread_nb E \<Longrightarrow> lt_wait (os_threads s' ! u) = lt_wait (os_threads s1 ! u) \<and>
       queue_of s' u = queue_of s1 u @ (if Suc t \<le> u then [Item_Flush netdev] else [])" by blast
  have "lt_wait (os_threads s' ! u) = lt_wait (os_threads s ! u) \<and>
       queue_of s' u = queue_of s u @ (if t \<le> u then [Item_Flush netdev] else [])" if "u < le_thread_nb E" for u
    using q [OF that] q' [OF that] by auto
  then show ?case using a b by auto
qed

lemma flush_enqueue_law:
  assumes E: "ol_env_ok E" and s: "marks_ok E s" "queues_ok E s"
  shows "\<exists>s'. dp_netdev_offload_flush_enqueue E netdev s = Inr s' \<and> marks_ok E s' \<and> queues_ok E s' \<and>
    os_flows s' = os_flows s \<and> os_refs s' = os_refs s \<and> os_hw s' = os_hw s \<and> os_threads s' \<noteq> [] \<and> (\<forall>f. pending E s' f = pending E s f) \<and>
    (\<forall>th'\<in>set (os_threads s'). \<exists>th. (th \<in> set (os_threads s) \<or> os_threads s = [] \<and> th = fresh_offload_thread) \<and>
       lt_wait th' = lt_wait th \<and> flushes_of (lt_queue th') = flushes_of (lt_queue th) @ [netdev])"
proof -
  let ?s = "dp_netdev_offload_init E s"
  note i = init_law [OF s]
  have nb: "0 < le_thread_nb E" using ol_env_okD(3) [OF E] by (metis gr_implies_not_zero neq0_conv)
  then obtain k where k: "le_thread_nb E = Suc k" by (cases "le_thread_nb E") auto
  have "dp_netdev_offload_init E ?s = ?s" using nb by (simp add: dp_netdev_offload_init_def)
  then have "dp_netdev_append_offload E item t ?s = dp_netdev_append_offload E item t s" for item t
    by (simp add: dp_netdev_append_offload_def Let_def)
  then have "dp_netdev_offload_flush_enqueue E netdev s = dp_netdev_offload_flush_enqueue E netdev ?s"
    by (simp add: dp_netdev_offload_flush_enqueue_def k)
  moreover from flush_from_law [OF E i(1,2,3), of 0 "le_thread_nb E" netdev] obtain s' where
    a: "dp_netdev_offload_flush_enqueue E netdev ?s = Inr s'" "marks_ok E s'" "queues_ok E s'"
      "os_flows s' = os_flows s" "os_refs s' = os_refs s" "os_hw s' = os_hw s" "length (os_threads s') = le_thread_nb E"
    and q: "\<And>u. u < le_thread_nb E \<Longrightarrow> lt_wait (os_threads s' ! u) = lt_wait (os_threads ?s ! u) \<and>
       queue_of s' u = queue_of ?s u @ [Item_Flush netdev]" by (auto simp: dp_netdev_offload_flush_enqueue_def i)
  moreover have "pending E s' f = pending E s f" for f
  proof -
    have f: "home E s f < le_thread_nb E" by (simp add: home_def ol_env_okD(3) [OF E])
    have "pending E s f = pending E ?s f" by (rule i(8) [symmetric])
    also have "\<dots> = items_of f (queue_of ?s (home E s f))" using f i(3) by (simp add: pending_def home_def i(4))
    finally have "pending E s f = items_of f (queue_of ?s (home E s f))" .
    then show ?thesis using q [OF f] f a(7) by (simp add: pending_def home_def a(4) items_of_append)
  qed
  moreover have "\<exists>th. (th \<in> set (os_threads s) \<or> os_threads s = [] \<and> th = fresh_offload_thread) \<and>
       lt_wait th' = lt_wait th \<and> flushes_of (lt_queue th') = flushes_of (lt_queue th) @ [netdev]" if th': "th' \<in> set (os_threads s')" for th'
  proof -
    obtain u where u: "u < le_thread_nb E" "th' = os_threads s' ! u" using th' unfolding in_set_conv_nth a(7) by blast
    have "os_threads ?s ! u \<in> set (os_threads ?s)" using u(1) i(3) by simp
    from i(9) [OF this] show ?thesis
      using q [OF u(1)] u(2) by (intro exI [of _ "os_threads ?s ! u"]) (simp add: flushes_of_append)
  qed
  moreover have "os_threads s' \<noteq> []" using a(7) nb by auto
  ultimately show ?thesis by auto
qed

section \<open>A round of an offload thread\<close>

definition popped :: "nat \<Rightarrow> ol_item list \<Rightarrow> 'p ol_state \<Rightarrow> 'p ol_state" where
  "popped t queue s = put_thread t ((os_threads s ! t)\<lparr>lt_queue := queue,
     lt_enqueued_item := lt_enqueued_item (os_threads s ! t) - 1\<rparr>) s"

lemma pop_law:
  assumes s: "marks_ok E s" "queues_ok E s" and t: "t < length (os_threads s)" and q: "queue_of s t = item # queue"
  shows "marks_ok E (popped t queue s)" and "queues_ok E (popped t queue s)"
    and "os_flows (popped t queue s) = os_flows s" "os_refs (popped t queue s) = os_refs s" "os_hw (popped t queue s) = os_hw s"
      "length (os_threads (popped t queue s)) = length (os_threads s)"
    and "u < length (os_threads s) \<Longrightarrow> lt_wait (os_threads (popped t queue s) ! u) = lt_wait (os_threads s ! u)"
    and "u < length (os_threads s) \<Longrightarrow> queue_of (popped t queue s) u = (if u = t then queue else queue_of s u)"
proof -
  let ?th = "(os_threads s ! t)\<lparr>lt_queue := queue, lt_enqueued_item := lt_enqueued_item (os_threads s ! t) - 1\<rparr>"
  have th: "os_threads (popped t queue s) = (os_threads s)[t := ?th]" by (simp add: popped_def put_thread_def)
  show f: "os_flows (popped t queue s) = os_flows s" "os_refs (popped t queue s) = os_refs s" "os_hw (popped t queue s) = os_hw s"
    "length (os_threads (popped t queue s)) = length (os_threads s)" by (simp_all add: popped_def put_thread_def)
  show "u < length (os_threads s) \<Longrightarrow> lt_wait (os_threads (popped t queue s) ! u) = lt_wait (os_threads s ! u)"
    "u < length (os_threads s) \<Longrightarrow> queue_of (popped t queue s) u = (if u = t then queue else queue_of s u)"
    unfolding th using t by (cases "u = t"; simp)+
  show "marks_ok E (popped t queue s)"
    using t by (intro marks_ok_maps [OF s(1)]) (simp_all add: f th map_update list_update_same_conv lt_maps_def popped_def put_thread_def)
  have "lt_enqueued_item (os_threads (popped t queue s) ! u) = of_nat (length (queue_of (popped t queue s) u)) \<and>
      (\<forall>it. Item_Flow it \<in> set (queue_of (popped t queue s) u) \<longrightarrow> home E s (of_flow it) = u)" if "u < length (os_threads s)" for u
    using queues_okD(2,3) [OF s(2) that] q that unfolding th by (cases "u = t") (auto simp: nth_list_update)
  then show "queues_ok E (popped t queue s)" using s(2) unfolding queues_ok_def home_def f(1,4) by (auto simp: th)
qed

lemma queues_ok_cong:
  assumes s: "queues_ok E s" and h: "\<And>g. home E s' g = home E s g" and len: "length (os_threads s') = length (os_threads s)"
    and q: "\<And>u. u < length (os_threads s) \<Longrightarrow>
      lt_enqueued_item (os_threads s' ! u) = lt_enqueued_item (os_threads s ! u) \<and> queue_of s' u = queue_of s u"
  shows "queues_ok E s'"
proof -
  have "os_threads s' = [] \<longleftrightarrow> os_threads s = []" using len by (metis length_0_conv)
  then show ?thesis using s q unfolding queues_ok_def h len by simp
qed

lemma pending_pop:
  assumes "home E s' g = home E s g" "length (os_threads s') = length (os_threads s)" "t < length (os_threads s)"
    and q: "\<And>u. u < length (os_threads s) \<Longrightarrow> queue_of s' u = (if u = t then queue else queue_of s u)" "queue_of s t = item # queue"
    and s: "queues_ok E s"
  shows "pending E s g = (case item of Item_Flow it \<Rightarrow> if of_flow it = g then [it] else [] | Item_Flush netdev \<Rightarrow> []) @ pending E s' g"
proof (cases "home E s g = t")
  case True
  then show ?thesis using assms(1-3) q by (auto simp: pending_def split: ol_item.splits)
next
  case False
  have "of_flow it \<noteq> g" if "item = Item_Flow it" for it
    using queues_okD(3) [OF s assms(3), of it] q(2) that False by auto
  then show ?thesis using False assms(1-3) q by (auto simp: pending_def split: ol_item.splits)
qed

lemma round_flow_law:
  assumes E: "ol_env_ok E" and s: "marks_ok E s" "queues_ok E s" and t: "t < length (os_threads s)"
    and q: "queue_of s t = Item_Flow item # queue" and f: "f = of_flow item" and r: "of_bool (marked s f) + 1 \<le> os_refs s f"
  shows "\<exists>ret s'. offload_round E t s = Inr s' \<and> marks_ok E s' \<and> queues_ok E s' \<and> flow_outcome E item s ret s' \<and>
    (\<forall>g. mega_of s' g = mega_of s g \<and> lo_dead (os_flows s' g) = lo_dead (os_flows s g) \<and> (g \<noteq> f \<longrightarrow> os_flows s' g = os_flows s g) \<and>
       os_refs s' g + of_bool (marked s g) + of_bool (g = f) = os_refs s g + of_bool (marked s' g)) \<and>
    length (os_threads s') = length (os_threads s) \<and>
    (\<forall>u<length (os_threads s). lt_wait (os_threads s' ! u) = lt_wait (os_threads s ! u) \<and>
       queue_of s' u = (if u = t then queue else queue_of s u))"
proof -
  let ?s = "popped t queue s"
  note p = pop_law [OF s t q]
  have ht: "home E ?s f = t" using queues_okD(3) [OF s(2) t, of item] q f by (simp add: home_def p(3))
  have "0 < os_refs ?s f" "home E ?s f < length (os_threads ?s)" using r t ht by (simp_all add: p(4,6))
  from offload_flow_law [OF E p(1) f this] obtain ret s1 where
    o: "dp_offload_flow E t item ?s = Inr (ret, s1)" "marks_ok E s1" "mark_step f ?s s1" "flow_outcome E item ?s ret s1"
    unfolding ht by blast
  note st = mark_stepD [OF o(3), unfolded p(3-6)]
  define s' where "s' = s1\<lparr>os_refs := (os_refs s1)(f := os_refs s1 f - 1)\<rparr>"
  have s': "os_flows s' = os_flows s1" "os_threads s' = os_threads s1" "os_pool s' = os_pool s1" "os_hw s' = os_hw s1"
    "os_refs s' = (os_refs s1)(f := os_refs s1 f - 1)" by (simp_all add: s'_def)
  have "offload_round E t s = Inr s'"
    using t q o(1) by (simp add: offload_round_def Let_def popped_def [symmetric] dp_netdev_free_offload_def ol_env_okD(2) [OF E] f [symmetric] s'_def)
  moreover have "marks_ok E s'" by (rule marks_ok_cong [OF o(2)]) (rule s')+
  moreover have w: "lt_wait (os_threads s' ! u) = lt_wait (os_threads s ! u) \<and> queue_of s' u = (if u = t then queue else queue_of s u)"
    if "u < length (os_threads s)" for u using st(6,8) [of u] p(7,8) [of u] that by (simp add: s')
  moreover have "queues_ok E s'"
  proof -
    have h: "home E s' g = home E ?s g" for g using st(3) [where g = g] by (simp add: home_def s' p(3))
    have "lt_enqueued_item (os_threads s' ! u) = lt_enqueued_item (os_threads ?s ! u) \<and> queue_of s' u = queue_of ?s u"
      if "u < length (os_threads s)" for u using st(6,7) [of u] that by (simp add: s')
    then show ?thesis using st(5) by (intro queues_ok_cong [OF p(2) h]) (simp_all add: s' p(6))
  qed
  moreover have "flow_outcome E item s ret s'" by (rule flow_outcome_cong [OF o(4)]) (simp_all add: p(3,5) s')
  moreover have "mega_of s' g = mega_of s g \<and> lo_dead (os_flows s' g) = lo_dead (os_flows s g) \<and> (g \<noteq> f \<longrightarrow> os_flows s' g = os_flows s g) \<and>
       os_refs s' g + of_bool (marked s g) + of_bool (g = f) = os_refs s g + of_bool (marked s' g)" for g
  proof -
    have "os_refs s1 f \<noteq> 0" using st(9) [of f] r by auto
    then have "os_refs s' g + of_bool (marked s g) + of_bool (g = f) = os_refs s g + of_bool (marked s' g)"
      using st(9) [of g] by (cases "g = f") (simp_all add: s')
    then show ?thesis using st(1,2,4) by (simp add: s')
  qed
  moreover have "length (os_threads s') = length (os_threads s)" using st(5) by (simp add: s')
  ultimately show ?thesis by blast
qed

lemma round_flush_law:
  assumes s: "marks_ok E s" "queues_ok E s" and t: "t < length (os_threads s)" and q: "queue_of s t = Item_Flush netdev # queue"
  shows "\<exists>s'. offload_round E t s = Inr s' \<and> marks_ok E s' \<and> queues_ok E s' \<and> os_flows s' = os_flows s \<and> os_refs s' = os_refs s \<and>
    os_hw s' = os_hw s @ [(Hw_Flush netdev, le_answer E (os_hw s) (Hw_Flush netdev))] \<and> length (os_threads s') = length (os_threads s) \<and>
    (\<forall>u<length (os_threads s). lt_wait (os_threads s' ! u) = (if u = t then First_Wait else lt_wait (os_threads s ! u)) \<and>
       queue_of s' u = (if u = t then queue else queue_of s u))"
proof -
  let ?s = "popped t queue s"
  note p = pop_law [OF s t q]
  let ?s' = "put_thread t ((os_threads ?s ! t)\<lparr>lt_wait := First_Wait\<rparr>) (?s\<lparr>os_hw := os_hw s @ [(Hw_Flush netdev, le_answer E (os_hw s) (Hw_Flush netdev))]\<rparr>)"
  have t': "t < length (os_threads ?s)" using t p(6) by simp
  have "offload_round E t s = Inr ?s'"
    using t t' q by (simp add: offload_round_def Let_def popped_def [symmetric] dp_offload_flush_def hw_do_def p(5) dp_netdev_free_offload_def)
  moreover have th: "os_threads ?s' = (os_threads ?s)[t := (os_threads ?s ! t)\<lparr>lt_wait := First_Wait\<rparr>]" "os_flows ?s' = os_flows s"
    "os_refs ?s' = os_refs s" "os_pool ?s' = os_pool ?s" by (simp_all add: put_thread_def p(3,4))
  moreover have "marks_ok E ?s'"
    using t' by (intro marks_ok_maps [OF p(1)]) (simp_all add: th p(3) map_update list_update_same_conv lt_maps_def)
  moreover have "queues_ok E ?s'"
  proof -
    have h: "home E ?s' g = home E ?s g" for g by (simp add: home_def th(2) p(3))
    have "lt_enqueued_item (os_threads ?s' ! u) = lt_enqueued_item (os_threads ?s ! u) \<and> queue_of ?s' u = queue_of ?s u"
      if "u < length (os_threads s)" for u using that t' unfolding th(1) by (cases "u = t") simp_all
    then show ?thesis by (intro queues_ok_cong [OF p(2) h]) (simp_all add: th(1) p(6))
  qed
  moreover have "lt_wait (os_threads ?s' ! u) = (if u = t then First_Wait else lt_wait (os_threads s ! u)) \<and>
       queue_of ?s' u = (if u = t then queue else queue_of s u)" if "u < length (os_threads s)" for u
    using p(7,8) [OF that] t' unfolding th(1) by (cases "u = t") simp_all
  moreover have "os_hw ?s' = os_hw s @ [(Hw_Flush netdev, le_answer E (os_hw s) (Hw_Flush netdev))]" by (simp add: put_thread_def)
  moreover have "length (os_threads ?s') = length (os_threads s)" using p(6) by (simp add: th(1))
  ultimately show ?thesis by blast
qed

end
