(* ===== verification/Dpif_Offload_Inv.thy ===== *)
theory Dpif_Offload_Inv
  imports Dpif_Offload_Steps
begin

text \<open>The invariant of the offload threads holds in every reachable state.\<close>

section \<open>Steps that leave the marks alone\<close>

lemma marks_ok_flows:
  assumes s: "marks_ok E s" and t: "os_threads s' = os_threads s" "os_pool s' = os_pool s"
    and m: "\<And>g. mark_of s' g = mark_of s g" "\<And>g. marked s g \<Longrightarrow> mega_of s' g = mega_of s g"
  shows "marks_ok E s'"
proof -
  have h: "home E s' g = home E s g" if "marked s g" for g using m(2) [OF that] by (simp add: home_def)
  have "{(le_hash_int E (mark_of s' g), g) | g. marked s' g \<and> home E s' g = t} =
      {(le_hash_int E (mark_of s g), g) | g. marked s g \<and> home E s g = t}"
    "{mega_entry E (mega_of s' g) (mark_of s' g) | g. marked s' g \<and> home E s' g = t} =
      {mega_entry E (mega_of s g) (mark_of s g) | g. marked s g \<and> home E s g = t}" for t
    unfolding m(1) using h m(2) by (intro Collect_cong; metis)+
  then have "maps_ok E s' t \<longleftrightarrow> maps_ok E s t" for t unfolding maps_ok_def t(1) by (simp only:)
  moreover have "pool_ok E s'" using marks_okD(4) [OF s] unfolding pool_ok_def t(2) m(1) .
  moreover have "home E s' g < length (os_threads s)" if "marked s g" for g using marks_okD(2) [OF s that] h [OF that] by simp
  moreover have "mega_of s' g = mega_of s' x" if "marked s g" "mark_of s g = mark_of s x" for g x
    using marks_okD(3) [OF s that] m(2) that by metis
  ultimately show ?thesis using marks_okD(1) [OF s] unfolding marks_ok_def t(1) m(1) by blast
qed

lemma refs_zeroD:
  assumes "ol_ok E y" "os_refs (oy_state y) f = 0"
  shows "oy_held y f = 0" and "\<not> marked (oy_state y) f" and "pending E (oy_state y) f = []"
  using refs_exactD [OF ol_okD(3) [OF assms(1)], of f] assms(2) by auto

text \<open>A flow without requests is in no queue.\<close>

lemma pending_empty:
  assumes "queues_ok E s" "pending E s f = []" "t < length (os_threads s)"
  shows "items_of f (queue_of s t) = []"
proof (cases "home E s f = t")
  case True
  then show ?thesis using assms(2,3) by (simp add: pending_def)
next
  case False
  then show ?thesis using queues_okD(3) [OF assms(1,3)] unfolding items_of_Nil_iff by blast
qed

lemma new_flow_ok:
  assumes y: "ol_ok E y" and f: "os_refs (oy_state y) f = 0"
  shows "ol_ok E (y\<lparr>oy_state := new_flow_at f fl (oy_state y), oy_held := (oy_held y)(f := 1), oy_gone := oy_gone y - {f}\<rparr>)"
    (is "ol_ok E ?y")
proof -
  let ?s = "oy_state y" and ?s' = "new_flow_at f fl (oy_state y)"
  note z = refs_zeroD [OF y f]
  note Q = ol_okD(2) [OF y]
  have th: "os_threads ?s' = os_threads ?s" "os_pool ?s' = os_pool ?s" by (simp_all add: new_flow_at_def)
  have fl: "g \<noteq> f \<Longrightarrow> os_flows ?s' g = os_flows ?s g" "mark_of ?s' f = INVALID_FLOW_MARK" "\<not> lo_dead (os_flows ?s' f)" for g
    by (simp_all add: new_flow_at_def)
  have mk: "mark_of ?s' g = mark_of ?s g" for g using fl(1) [of g] fl(2) z(2) by (cases "g = f") simp_all
  have none: "items_of f (queue_of ?s t) = []" if "t < length (os_threads ?s)" for t by (rule pending_empty [OF Q z(3) that])
  have pend: "pending E ?s' g = pending E ?s g" for g
  proof (cases "g = f")
    case True
    then show ?thesis using none z(3) by (simp add: pending_def th)
  next
    case False
    then show ?thesis by (simp add: pending_def home_def th fl(1))
  qed
  have "marks_ok E ?s'" by (rule marks_ok_flows [OF ol_okD(1) [OF y] th mk]) (use fl(1) z(2) in metis)
  moreover have "queues_ok E ?s'"
  proof -
    have "home E ?s' (of_flow item) = t" if "t < length (os_threads ?s)" "Item_Flow item \<in> set (queue_of ?s t)" for t item
      using none [OF that(1)] that(2) queues_okD(3) [OF Q that] fl(1) [of "of_flow item"] unfolding items_of_Nil_iff home_def by auto
    then show ?thesis using Q unfolding queues_ok_def th by blast
  qed
  moreover have "refs_exact E ?y"
    using refs_exactD [OF ol_okD(3) [OF y]] z mk pend by (simp add: refs_exact_def new_flow_at_def)
  moreover have "lo_dead (os_flows ?s' g) \<Longrightarrow> g \<noteq> f \<and> lo_dead (os_flows ?s g)" for g
    using fl(1) [of g] fl(3) by (cases "g = f") simp_all
  then have "gone_ok E ?y"
    using gone_okD [OF ol_okD(4) [OF y]] mk pend unfolding gone_ok_def by auto
  ultimately show ?thesis using ol_okD(5,6) [OF y] by (simp add: ol_ok_def th)
qed

lemma refs_change_ok:
  assumes y: "ol_ok E y" and r: "\<And>g. os_refs (oy_state y) g + held g = refs g + oy_held y g"
  shows "ol_ok E (y\<lparr>oy_state := (oy_state y)\<lparr>os_refs := refs\<rparr>, oy_held := held\<rparr>)" (is "ol_ok E ?y")
proof -
  have p: "pending E (oy_state ?y) g = pending E (oy_state y) g" for g by (simp add: pending_def home_def)
  have "marks_ok E (oy_state ?y)" by (rule marks_ok_flows [OF ol_okD(1) [OF y]]) simp_all
  moreover have "queues_ok E (oy_state ?y)" using ol_okD(2) [OF y] by (simp add: queues_ok_def home_def)
  moreover have "refs g = held g + of_bool (marked (oy_state y) g) + length (pending E (oy_state y) g)" for g
    using r [of g] refs_exactD [OF ol_okD(3) [OF y], of g] by linarith
  then have "refs_exact E ?y" unfolding refs_exact_def p by simp
  moreover have "gone_ok E ?y" using ol_okD(4) [OF y] unfolding gone_ok_def p by simp
  ultimately show ?thesis using ol_okD(5,6) [OF y] by (simp add: ol_ok_def)
qed

lemma mark_dead_ok:
  assumes y: "ol_ok E y" and f: "f \<in> oy_gone y"
  shows "ol_ok E (y\<lparr>oy_state := set_dead f (oy_state y)\<rparr>)" (is "ol_ok E ?y")
proof -
  have mk: "mark_of (set_dead f (oy_state y)) g = mark_of (oy_state y) g" "mega_of (set_dead f (oy_state y)) g = mega_of (oy_state y) g"
    "lo_dead (os_flows (set_dead f (oy_state y)) g) \<longleftrightarrow> g = f \<or> lo_dead (os_flows (oy_state y) g)" for g
    by (auto simp: set_dead_def)
  have th: "os_threads (set_dead f (oy_state y)) = os_threads (oy_state y)" "os_pool (set_dead f (oy_state y)) = os_pool (oy_state y)"
    "os_refs (set_dead f (oy_state y)) = os_refs (oy_state y)" by (simp_all add: set_dead_def)
  have p: "pending E (set_dead f (oy_state y)) g = pending E (oy_state y) g" for g by (simp add: pending_def home_def th mk)
  have "marks_ok E (set_dead f (oy_state y))" by (rule marks_ok_flows [OF ol_okD(1) [OF y]]) (simp_all only: th mk)
  moreover have "queues_ok E (set_dead f (oy_state y))" using ol_okD(2) [OF y] by (simp add: queues_ok_def home_def th mk)
  moreover have "refs_exact E ?y" using ol_okD(3) [OF y] by (simp add: refs_exact_def p th mk)
  moreover have "gone_ok E ?y" using ol_okD(4) [OF y] f by (auto simp: gone_ok_def p mk)
  ultimately show ?thesis using ol_okD(5,6) [OF y] by (simp add: ol_ok_def th)
qed

section \<open>Requests\<close>

lemma thread_flush_fresh: "thread_flush_ok Not_Flushing fresh_offload_thread"
  by (simp add: thread_flush_ok_def fresh_offload_thread_def)

text \<open>Threads that wait and have flushes as before, or are new.\<close>

lemma thread_flush_ok_like:
  assumes y: "ol_ok E y" and th: "th \<in> set (oy_threads y) \<or> oy_threads y = [] \<and> th = fresh_offload_thread"
  shows "thread_flush_ok (oy_flush y) th"
  using th ol_okD(5,6) [OF y] thread_flush_fresh by auto

lemma thread_flush_ok_cong:
  assumes "thread_flush_ok stage th" "lt_wait th' = lt_wait th" "flushes_of (lt_queue th') = flushes_of (lt_queue th)"
  shows "thread_flush_ok stage th'"
  using assms(1) unfolding thread_flush_ok_def assms(2,3) .

lemma ask_ok:
  assumes E: "ol_env_ok E" and y: "ol_ok E y" and held: "0 < oy_held y (of_flow item)" and f: "of_flow item \<notin> oy_gone y"
    and gone: "gone = (if of_op item = Offload_Del then insert (of_flow item) (oy_gone y) else oy_gone y)"
  shows "\<exists>s'. request_offload E item (oy_state y) = Inr s' \<and> ol_ok E (y\<lparr>oy_state := s', oy_gone := gone\<rparr>)"
proof -
  have "0 < os_refs (oy_state y) (of_flow item)" using held refs_exactD [OF ol_okD(3) [OF y]] by simp
  from request_law [OF E ol_okD(1,2) [OF y] this] obtain s' where
    s': "request_offload E item (oy_state y) = Inr s'" "marks_ok E s'" "queues_ok E s'" "os_flows s' = os_flows (oy_state y)"
      "os_refs s' = (os_refs (oy_state y))(of_flow item := os_refs (oy_state y) (of_flow item) + 1)" "os_threads s' \<noteq> []"
    and pend: "\<And>g. pending E s' g = pending E (oy_state y) g @ (if g = of_flow item then [item] else [])"
    and th: "\<And>th'. th' \<in> set (os_threads s') \<Longrightarrow> \<exists>th. (th \<in> set (oy_threads y) \<or> oy_threads y = [] \<and> th = fresh_offload_thread) \<and>
       lt_wait th' = lt_wait th \<and> flushes_of (lt_queue th') = flushes_of (lt_queue th)" by blast
  let ?y = "y\<lparr>oy_state := s', oy_gone := gone\<rparr>"
  have "refs_exact E ?y"
    using refs_exactD [OF ol_okD(3) [OF y]] unfolding refs_exact_def by (simp add: s'(4,5) pend)
  moreover have "gone_ok E ?y"
    using gone_okD [OF ol_okD(4) [OF y]] f unfolding gone_ok_def gone by (auto simp: s'(4) pend)
  moreover have "thread_flush_ok (oy_flush y) th'" if "th' \<in> set (os_threads s')" for th'
    using th [OF that] thread_flush_ok_like [OF y] thread_flush_ok_cong by metis
  ultimately show ?thesis using s'(1-3,6) by (auto simp: ol_ok_def)
qed

section \<open>A round\<close>

lemma flow_outcome_del:
  assumes "flow_outcome E item s ret s'" "of_op item = Offload_Del"
  shows "\<not> marked s' (of_flow item)"
  using assms by (simp add: flow_outcome_def del_outcome_def)

text \<open>What a round does: it takes the first request of the thread and does it.\<close>

definition round_done :: "('flow, 'p) ol_env \<Rightarrow> nat \<Rightarrow> 'p ol_state \<Rightarrow> 'p ol_state \<Rightarrow> bool" where
  "round_done E t s s' \<longleftrightarrow> length (os_threads s') = length (os_threads s) \<and>
     (\<forall>u<length (os_threads s). queue_of s' u = (if u = t then tl (queue_of s u) else queue_of s u)) \<and>
     (case hd (queue_of s t) of
        Item_Flow item \<Rightarrow>
          (\<forall>u<length (os_threads s). lt_wait (os_threads s' ! u) = lt_wait (os_threads s ! u)) \<and>
          (\<forall>g. mega_of s' g = mega_of s g) \<and> (\<forall>g. g \<noteq> of_flow item \<longrightarrow> os_flows s' g = os_flows s g) \<and>
          (\<exists>ret. flow_outcome E item s ret s')
      | Item_Flush netdev \<Rightarrow>
          (\<forall>u<length (os_threads s). lt_wait (os_threads s' ! u) = (if u = t then First_Wait else lt_wait (os_threads s ! u))) \<and>
          os_flows s' = os_flows s \<and> os_hw s' = os_hw s @ [(Hw_Flush netdev, le_answer E (os_hw s) (Hw_Flush netdev))])"

lemma in_threads:
  assumes "length ths' = length ths" "\<And>u. u < length ths \<Longrightarrow> P (ths' ! u)" "th' \<in> set ths'"
  shows "P th'"
  using assms by (metis in_set_conv_nth)

lemma round_flow_ok:
  assumes E: "ol_env_ok E" and y: "ol_ok E y" and t: "t < length (oy_threads y)"
    and q: "queue_of (oy_state y) t = Item_Flow item # queue"
  shows "\<exists>s'. offload_round E t (oy_state y) = Inr s' \<and> ol_ok E (y\<lparr>oy_state := s'\<rparr>) \<and> round_done E t (oy_state y) s'"
proof -
  let ?s = "oy_state y"
  have fl: "thread_flush_ok (oy_flush y) (oy_threads y ! u)" if "u < length (oy_threads y)" for u
    using ol_okD(5) [OF y] that by simp
  have ne: "oy_threads y \<noteq> []" using t by auto
  let ?f = "of_flow item"
  have "home E ?s ?f = t" using queues_okD(3) [OF ol_okD(2) [OF y] t] q by simp
  then have p: "pending E ?s ?f \<noteq> []" using t q by (simp add: pending_def)
  then have "of_bool (marked ?s ?f) + 1 \<le> os_refs ?s ?f"
    using refs_exactD [OF ol_okD(3) [OF y], of ?f] by (cases "pending E ?s ?f") auto
  from round_flow_law [OF E ol_okD(1,2) [OF y] t q refl this] obtain ret s' where
    s': "offload_round E t ?s = Inr s'" "marks_ok E s'" "queues_ok E s'" "flow_outcome E item ?s ret s'"
      "length (os_threads s') = length (oy_threads y)"
    and g: "\<And>g. mega_of s' g = mega_of ?s g" "\<And>g. lo_dead (os_flows s' g) = lo_dead (os_flows ?s g)"
      "\<And>g. g \<noteq> ?f \<Longrightarrow> os_flows s' g = os_flows ?s g"
      "\<And>g. os_refs s' g + of_bool (marked ?s g) + of_bool (g = ?f) = os_refs ?s g + of_bool (marked s' g)"
    and u: "\<And>u. u < length (oy_threads y) \<Longrightarrow> lt_wait (os_threads s' ! u) = lt_wait (oy_threads y ! u)"
      "\<And>u. u < length (oy_threads y) \<Longrightarrow> queue_of s' u = (if u = t then queue else queue_of ?s u)" by blast
  have pop: "pending E ?s x = (if ?f = x then [item] else []) @ pending E s' x" for x
    using pending_pop [where E = E and g = x, OF _ s'(5) t u(2) q ol_okD(2) [OF y]] g(1) by (simp add: home_def)
  have "refs_exact E (y\<lparr>oy_state := s'\<rparr>)"
  proof -
    have "os_refs s' x = oy_held y x + of_bool (marked s' x) + length (pending E s' x)" for x
      using g(4) [of x] refs_exactD [OF ol_okD(3) [OF y], of x] unfolding pop [of x] by (cases "x = ?f") auto
    then show ?thesis by (simp add: refs_exact_def)
  qed
  moreover have "gone_ok E (y\<lparr>oy_state := s'\<rparr>)"
  proof -
    note go = gone_okD [OF ol_okD(4) [OF y]]
    have "\<not> marked s' x" if x: "x \<in> oy_gone y" "pending E s' x = []" for x
    proof (cases "x = ?f")
      case True
      then have "of_op item = Offload_Del" using go(3) [OF x(1)] pop [of x] x(2) by simp
      then show ?thesis using flow_outcome_del [OF s'(4)] True by simp
    next
      case False
      then show ?thesis using go(2) [OF x(1)] pop [of x] x(2) g(3) by simp
    qed
    moreover have "of_op (List.last (pending E s' x)) = Offload_Del" if "x \<in> oy_gone y" "pending E s' x \<noteq> []" for x
      using go(3) [OF that(1)] pop [of x] that(2) by (cases "x = ?f") auto
    ultimately show ?thesis using go(1) g(2) by (simp add: gone_ok_def)
  qed
  moreover have "thread_flush_ok (oy_flush y) th'" if "th' \<in> set (os_threads s')" for th'
  proof (rule in_threads [OF s'(5) _ that])
    show "thread_flush_ok (oy_flush y) (os_threads s' ! v)" if v: "v < length (oy_threads y)" for v
      using q by (intro thread_flush_ok_cong [OF fl [OF v] u(1) [OF v]]) (simp add: u(2) [OF v])
  qed
  moreover have "round_done E t ?s s'" using s'(4,5) g(1,3) u q by (auto simp: round_done_def)
  ultimately show ?thesis using s'(1-3,5) ne by (intro exI [of _ s']) (auto simp: ol_ok_def)
qed

lemma round_flush_ok:
  assumes E: "ol_env_ok E" and y: "ol_ok E y" and t: "t < length (oy_threads y)"
    and q: "queue_of (oy_state y) t = Item_Flush netdev # queue"
  shows "\<exists>s'. offload_round E t (oy_state y) = Inr s' \<and> ol_ok E (y\<lparr>oy_state := s'\<rparr>) \<and> round_done E t (oy_state y) s'"
proof -
  let ?s = "oy_state y"
  have fl: "thread_flush_ok (oy_flush y) (oy_threads y ! u)" if "u < length (oy_threads y)" for u
    using ol_okD(5) [OF y] that by simp
  have ne: "oy_threads y \<noteq> []" using t by auto
  have "\<exists>n. oy_flush y = At_First n \<and> flushes_of (queue_of ?s t) = [n]"
    using fl [OF t] q by (auto simp: thread_flush_ok_def split: flush_stage.splits)
  then have stage: "oy_flush y = At_First netdev" and no: "flushes_of queue = []" using q by auto
  from round_flush_law [OF ol_okD(1,2) [OF y] t q] obtain s' where
    s': "offload_round E t ?s = Inr s'" "marks_ok E s'" "queues_ok E s'" "os_flows s' = os_flows ?s" "os_refs s' = os_refs ?s"
      "length (os_threads s') = length (oy_threads y)" "os_hw s' = os_hw ?s @ [(Hw_Flush netdev, le_answer E (os_hw ?s) (Hw_Flush netdev))]"
    and u: "\<And>u. u < length (oy_threads y) \<Longrightarrow> lt_wait (os_threads s' ! u) = (if u = t then First_Wait else lt_wait (oy_threads y ! u))"
      "\<And>u. u < length (oy_threads y) \<Longrightarrow> queue_of s' u = (if u = t then queue else queue_of ?s u)" by blast
  have pop: "pending E s' x = pending E ?s x" for x
    using pending_pop [where E = E and g = x, OF _ s'(6) t u(2) q ol_okD(2) [OF y]] s'(4) by (simp add: home_def)
  have "refs_exact E (y\<lparr>oy_state := s'\<rparr>)" using ol_okD(3) [OF y] by (simp add: refs_exact_def pop s'(4,5))
  moreover have "gone_ok E (y\<lparr>oy_state := s'\<rparr>)" using ol_okD(4) [OF y] by (simp add: gone_ok_def pop s'(4))
  moreover have "thread_flush_ok (oy_flush y) th'" if "th' \<in> set (os_threads s')" for th'
  proof (rule in_threads [OF s'(6) _ that])
    show "thread_flush_ok (oy_flush y) (os_threads s' ! v)" if v: "v < length (oy_threads y)" for v
      using fl [OF v] u(1,2) [OF v] no stage by (cases "v = t") (auto simp: thread_flush_ok_def)
  qed
  moreover have "round_done E t ?s s'" using s'(4,6,7) u q by (auto simp: round_done_def)
  ultimately show ?thesis using s'(1-3,6) ne by (intro exI [of _ s']) (auto simp: ol_ok_def)
qed

lemma round_ok:
  assumes E: "ol_env_ok E" and y: "ol_ok E y" and t: "t < length (oy_threads y)" and q: "lt_queue (oy_threads y ! t) \<noteq> []"
  shows "\<exists>s'. offload_round E t (oy_state y) = Inr s' \<and> ol_ok E (y\<lparr>oy_state := s'\<rparr>) \<and> round_done E t (oy_state y) s'"
proof -
  obtain i queue where i: "queue_of (oy_state y) t = i # queue" using q by (cases "queue_of (oy_state y) t") auto
  then show ?thesis using round_flow_ok [OF E y t] round_flush_ok [OF E y t] by (cases i) auto
qed

section \<open>A flush\<close>

lemma flush_port_ok:
  assumes E: "ol_env_ok E" and y: "ol_ok E y" and st: "oy_flush y = Not_Flushing"
  shows "\<exists>s'. dp_netdev_offload_flush_enqueue E netdev (oy_state y) = Inr s' \<and> ol_ok E (y\<lparr>oy_state := s', oy_flush := At_First netdev\<rparr>)"
proof -
  from flush_enqueue_law [where netdev = netdev, OF E ol_okD(1,2) [OF y]] obtain s' where
    s': "dp_netdev_offload_flush_enqueue E netdev (oy_state y) = Inr s'" "marks_ok E s'" "queues_ok E s'"
      "os_flows s' = os_flows (oy_state y)" "os_refs s' = os_refs (oy_state y)" "os_threads s' \<noteq> []"
    and pend: "\<And>f. pending E s' f = pending E (oy_state y) f"
    and th: "\<And>th'. th' \<in> set (os_threads s') \<Longrightarrow> \<exists>th. (th \<in> set (oy_threads y) \<or> oy_threads y = [] \<and> th = fresh_offload_thread) \<and>
       lt_wait th' = lt_wait th \<and> flushes_of (lt_queue th') = flushes_of (lt_queue th) @ [netdev]" by blast
  let ?y = "y\<lparr>oy_state := s', oy_flush := At_First netdev\<rparr>"
  have "refs_exact E ?y" using ol_okD(3) [OF y] by (simp add: refs_exact_def pend s'(4,5))
  moreover have "gone_ok E ?y" using ol_okD(4) [OF y] by (simp add: gone_ok_def pend s'(4))
  moreover have "thread_flush_ok (At_First netdev) th'" if in': "th' \<in> set (os_threads s')" for th'
  proof -
    obtain th where x: "th \<in> set (oy_threads y) \<or> oy_threads y = [] \<and> th = fresh_offload_thread"
      "lt_wait th' = lt_wait th" "flushes_of (lt_queue th') = flushes_of (lt_queue th) @ [netdev]" using th [OF in'] by blast
    show ?thesis using thread_flush_ok_like [OF y x(1)] x(2,3) unfolding st by (simp add: thread_flush_ok_def)
  qed
  ultimately show ?thesis using s'(1-3,6) by (intro exI [of _ s']) (simp add: ol_ok_def)
qed

text \<open>The threads pass a barrier.\<close>

lemma barrier_ok:
  assumes y: "ol_ok E y" and st: "oy_threads y \<noteq> []" "\<And>th. th \<in> set (oy_threads y) \<Longrightarrow> thread_flush_ok stage (th\<lparr>lt_wait := w\<rparr>)"
  shows "ol_ok E (y\<lparr>oy_state := set_wait w (oy_state y), oy_flush := stage\<rparr>)" (is "ol_ok E ?y")
proof -
  let ?s = "oy_state y" and ?s' = "set_wait w (oy_state y)"
  have f: "os_flows ?s' = os_flows ?s" "os_refs ?s' = os_refs ?s" "os_pool ?s' = os_pool ?s"
    "os_threads ?s' = map (lt_wait_update (\<lambda>_. w)) (os_threads ?s)" by (simp_all add: set_wait_def)
  have h: "home E ?s' g = home E ?s g" for g by (simp add: home_def f)
  have p: "pending E ?s' g = pending E ?s g" for g by (simp add: pending_def h f)
  have "map lt_maps (os_threads ?s') = map lt_maps (os_threads ?s)" by (simp add: f lt_maps_def)
  then have "marks_ok E ?s'" by (intro marks_ok_maps [OF ol_okD(1) [OF y]]) (simp_all add: f)
  moreover have "queues_ok E ?s'" by (rule queues_ok_cong [OF ol_okD(2) [OF y] h]) (simp_all add: f)
  moreover have "refs_exact E ?y" using ol_okD(3) [OF y] by (simp add: refs_exact_def p f)
  moreover have "gone_ok E ?y" using ol_okD(4) [OF y] by (simp add: gone_ok_def p f)
  ultimately show ?thesis using st by (simp add: ol_ok_def f)
qed

lemma stage_ok:
  assumes y: "ol_ok E y" and st: "oy_threads y \<noteq> []" "\<And>th. thread_flush_ok (oy_flush y) th \<Longrightarrow> thread_flush_ok stage th"
  shows "ol_ok E (y\<lparr>oy_flush := stage\<rparr>)"
  using y st by (auto simp: ol_ok_def refs_exact_def gone_ok_def)

section \<open>Every reachable state\<close>

theorem ol_step_ok:
  assumes E: "ol_env_ok E" and y: "ol_ok E y" and st: "ol_step E y y'"
  shows "ol_ok E y'"
  using st
proof (cases rule: ol_step.cases)
  case (new_flow f fl)
  then show ?thesis using new_flow_ok [OF y] by simp
next
  case (take_ref f)
  then show ?thesis using refs_change_ok [OF y] by simp
next
  case (drop_ref f)
  have "0 < os_refs (oy_state y) f" using drop_ref(2) refs_exactD [OF ol_okD(3) [OF y], of f] by simp
  then show ?thesis unfolding drop_ref(1) ol_env_okD(2) [OF E] using drop_ref(2) by (intro refs_change_ok [OF y]) simp
next
  case (ask_put item s')
  then show ?thesis using ask_ok [OF E y ask_put(2) ask_put(4) refl] by simp
next
  case (ask_del item s')
  then show ?thesis using ask_ok [OF E y ask_del(2) ask_del(4) refl] by simp
next
  case (mark_dead f)
  then show ?thesis using mark_dead_ok [OF y] by simp
next
  case (thread_round t s')
  then show ?thesis using round_ok [OF E y thread_round(2,4)] by simp
next
  case (flush_port netdev s')
  then show ?thesis using flush_port_ok [OF E y flush_port(2), of netdev] by simp
next
  case (first_barrier netdev)
  have "oy_threads y \<noteq> []" using ol_okD(6) [OF y] first_barrier(2) by auto
  then show ?thesis unfolding first_barrier(1) using ol_okD(5) [OF y] first_barrier(2,3)
    by (intro barrier_ok [OF y]) (fastforce simp: thread_flush_ok_def all_wait_def)+
next
  case (lock_taken netdev)
  have "oy_threads y \<noteq> []" using ol_okD(6) [OF y] lock_taken(2) by auto
  then show ?thesis unfolding lock_taken(1) by (rule stage_ok [OF y]) (simp add: thread_flush_ok_def lock_taken(2))
next
  case (second_barrier netdev)
  have "oy_threads y \<noteq> []" using ol_okD(6) [OF y] second_barrier(2) by auto
  then show ?thesis unfolding second_barrier(1) using ol_okD(5) [OF y] second_barrier(2)
    by (intro barrier_ok [OF y]) (fastforce simp: thread_flush_ok_def)+
next
  case (port_deleted netdev)
  have "oy_threads y \<noteq> []" using ol_okD(6) [OF y] port_deleted(2) by auto
  then show ?thesis unfolding port_deleted(1) by (rule stage_ok [OF y]) (simp add: thread_flush_ok_def port_deleted(2))
qed

lemma ol_start_ok: "ol_ok E (ol_start fl)"
  by (simp add: ol_ok_def ol_start_def marks_ok_def pool_ok_def queues_ok_def refs_exact_def gone_ok_def pending_def)

theorem ol_reachable_ok:
  assumes "ol_env_ok E" and "ol_reachable E y"
  shows "ol_ok E y"
  using assms(2) by induction (auto intro: ol_start_ok ol_step_ok [OF assms(1)])

end
