(* ===== verification/Dpif_Offload_Flush.thy ===== *)
theory Dpif_Offload_Flush
  imports Dpif_Offload_Inv
begin

text \<open>
  A flush of a port ends: each round of an offload thread brings it closer to the flush in its queue,
  no other step sets it back, and when all threads have done it the main thread goes on.
\<close>

section \<open>What is left to do\<close>

definition is_request :: "ol_item \<Rightarrow> bool" where
  "is_request item = (case item of Item_Flow _ \<Rightarrow> True | Item_Flush _ \<Rightarrow> False)"

text \<open>The rounds that a thread needs until it has done the flush.\<close>

definition thread_work :: "dp_offload_thread \<Rightarrow> nat" where
  "thread_work th = (if lt_wait th = No_Wait then Suc (length (takeWhile is_request (lt_queue th))) else 0)"

definition flush_work :: "'p ol_sys \<Rightarrow> nat" where
  "flush_work y = sum_list (map thread_work (oy_threads y))"

lemma flush_in_queue: "flushes_of queue \<noteq> [] \<longleftrightarrow> (\<exists>item\<in>set queue. \<not> is_request item)"
  by (induction queue rule: flushes_of.induct) (auto simp: is_request_def)

lemma thread_work_append:
  assumes th: "lt_wait th = No_Wait \<Longrightarrow> flushes_of (lt_queue th) \<noteq> []"
    and th': "lt_wait th' = lt_wait th" "lt_queue th' = lt_queue th @ items"
  shows "thread_work th' = thread_work th"
proof (cases "lt_wait th = No_Wait")
  case True
  then obtain item where "item \<in> set (lt_queue th)" "\<not> is_request item" using th unfolding flush_in_queue by blast
  then show ?thesis using th' by (simp add: thread_work_def takeWhile_append1)
qed (simp add: thread_work_def th')

lemma work_same:
  assumes "length (oy_threads y') = length (oy_threads y)"
    and "\<And>u. u < length (oy_threads y) \<Longrightarrow> thread_work (oy_threads y' ! u) = thread_work (oy_threads y ! u)"
  shows "flush_work y' = flush_work y"
proof -
  have "map thread_work (oy_threads y') = map thread_work (oy_threads y)" by (rule nth_equalityI) (use assms in simp_all)
  then show ?thesis by (simp add: flush_work_def)
qed

lemma work_less:
  assumes t: "t < length (oy_threads y)" and len: "length (oy_threads y') = length (oy_threads y)"
    and same: "\<And>u. u < length (oy_threads y) \<Longrightarrow> u \<noteq> t \<Longrightarrow> thread_work (oy_threads y' ! u) = thread_work (oy_threads y ! u)"
    and less: "Suc (thread_work (oy_threads y' ! t)) = thread_work (oy_threads y ! t)"
  shows "Suc (flush_work y') = flush_work y"
proof -
  have "map thread_work (oy_threads y') = (map thread_work (oy_threads y))[t := thread_work (oy_threads y' ! t)]"
    by (rule nth_equalityI) (use assms in \<open>simp_all add: nth_list_update\<close>)
  then have "flush_work y' = flush_work y + thread_work (oy_threads y' ! t) - thread_work (oy_threads y ! t)"
    using t by (simp add: flush_work_def sum_list_update)
  moreover have "thread_work (oy_threads y ! t) \<le> flush_work y"
    unfolding flush_work_def using t by (intro member_le_sum_list) auto
  ultimately show ?thesis using less by simp
qed

section \<open>The steps during a flush\<close>

lemma at_firstD:
  assumes y: "ol_ok E y" and st: "oy_flush y = At_First netdev" and u: "u < length (oy_threads y)"
  shows "lt_wait (oy_threads y ! u) = No_Wait \<and> flushes_of (queue_of (oy_state y) u) = [netdev] \<or>
    lt_wait (oy_threads y ! u) = First_Wait \<and> flushes_of (queue_of (oy_state y) u) = []"
  using ol_okD(5) [OF y, of "oy_threads y ! u"] u st by (simp add: thread_flush_ok_def)

lemma round_work:
  assumes y: "ol_ok E y" and st: "oy_flush y = At_First netdev"
    and t: "t < length (oy_threads y)" "lt_wait (oy_threads y ! t) = No_Wait" "lt_queue (oy_threads y ! t) \<noteq> []"
    and r: "round_done E t (oy_state y) s'" and y': "oy_state y' = s'"
  shows "Suc (flush_work y') = flush_work y"
proof (rule work_less [OF t(1)])
  have len: "length (os_threads s') = length (oy_threads y)"
    and q: "\<And>u. u < length (oy_threads y) \<Longrightarrow> queue_of s' u = (if u = t then tl (queue_of (oy_state y) u) else queue_of (oy_state y) u)"
    using r by (simp_all add: round_done_def)
  show "length (oy_threads y') = length (oy_threads y)" using len y' by simp
  obtain i queue where i: "queue_of (oy_state y) t = i # queue" using t(3) by (cases "queue_of (oy_state y) t") auto
  have w: "lt_wait (os_threads s' ! u) = (if u = t \<and> \<not> is_request i then First_Wait else lt_wait (oy_threads y ! u))"
    if "u < length (oy_threads y)" for u
    using r that i by (cases i) (simp_all add: round_done_def is_request_def)
  show "thread_work (oy_threads y' ! u) = thread_work (oy_threads y ! u)" if "u < length (oy_threads y)" "u \<noteq> t" for u
    using q [OF that(1)] w [OF that(1)] that(2) by (simp add: thread_work_def y')
  show "Suc (thread_work (oy_threads y' ! t)) = thread_work (oy_threads y ! t)"
    using q [OF t(1)] w [OF t(1)] t(2) i by (cases "is_request i") (simp_all add: thread_work_def y')
qed

lemma ask_work:
  assumes E: "ol_env_ok E" and y: "ol_ok E y" and st: "oy_flush y = At_First netdev" and held: "0 < oy_held y (of_flow item)"
    and s': "request_offload E item (oy_state y) = Inr s'" and y': "oy_state y' = s'"
  shows "flush_work y' = flush_work y"
proof -
  have "0 < os_refs (oy_state y) (of_flow item)" using held refs_exactD [OF ol_okD(3) [OF y]] by simp
  moreover have "oy_threads y \<noteq> []" using ol_okD(6) [OF y] st by auto
  ultimately have len: "length (os_threads s') = length (oy_threads y)"
    and q: "\<And>u. u < length (oy_threads y) \<Longrightarrow> lt_wait (os_threads s' ! u) = lt_wait (oy_threads y ! u) \<and>
          (\<exists>items. queue_of s' u = queue_of (oy_state y) u @ map Item_Flow items)"
    using request_law [OF E ol_okD(1,2) [OF y], of item] s' by auto
  show ?thesis
  proof (rule work_same)
    show "length (oy_threads y') = length (oy_threads y)" using len y' by simp
    show "thread_work (oy_threads y' ! u) = thread_work (oy_threads y ! u)" if u: "u < length (oy_threads y)" for u
    proof -
      obtain items where "queue_of s' u = queue_of (oy_state y) u @ map Item_Flow items" using q [OF u] by blast
      then show ?thesis using q [OF u] at_firstD [OF y st u] unfolding y' by (intro thread_work_append) auto
    qed
  qed
qed

text \<open>No step sets the flush back.\<close>

lemma flush_step:
  assumes E: "ol_env_ok E" and y: "ol_ok E y" and st: "oy_flush y = At_First netdev" and s: "ol_step E y y'"
  shows "oy_flush y' = At_First netdev \<and> flush_work y' \<le> flush_work y \<or> oy_flush y' = Takes_Lock netdev \<and> flush_work y = 0"
  using s
proof (cases rule: ol_step.cases)
  case (ask_put item s')
  then show ?thesis using ask_work [OF E y st ask_put(2) ask_put(5), of y'] st by simp
next
  case (ask_del item s')
  then show ?thesis using ask_work [OF E y st ask_del(2) ask_del(5), of y'] st by simp
next
  case (thread_round t s')
  from round_ok [OF E y thread_round(2,4)] have "round_done E t (oy_state y) s'" using thread_round(5) by auto
  from round_work [OF y st thread_round(2-4) this, of y'] show ?thesis using st thread_round(1) by simp
next
  case (first_barrier n)
  have "flush_work y = 0" using first_barrier(3) by (simp add: flush_work_def all_wait_def thread_work_def)
  then show ?thesis using first_barrier(1,2) st by simp
qed (use st in \<open>simp_all add: flush_work_def new_flow_at_def set_dead_def\<close>)

text \<open>There is always a step that goes on.\<close>

lemma flush_progress:
  assumes E: "ol_env_ok E" and y: "ol_ok E y" and st: "oy_flush y = At_First netdev"
  shows "if flush_work y = 0 then all_wait First_Wait (oy_state y)
    else \<exists>y'. ol_step E y y' \<and> oy_flush y' = At_First netdev \<and> Suc (flush_work y') = flush_work y"
proof (cases "flush_work y = 0")
  case True
  have "lt_wait (oy_threads y ! u) = First_Wait" if "u < length (oy_threads y)" for u
  proof -
    have "thread_work (oy_threads y ! u) = 0" using True that by (simp add: flush_work_def)
    then show ?thesis using at_firstD [OF y st that] by (auto simp: thread_work_def split: if_splits)
  qed
  then show ?thesis using True by (auto simp: all_wait_def in_set_conv_nth)
next
  case False
  then obtain th where th: "th \<in> set (oy_threads y)" "thread_work th \<noteq> 0" unfolding flush_work_def by auto
  then obtain t where t: "t < length (oy_threads y)" "oy_threads y ! t = th" by (auto simp: in_set_conv_nth)
  have w: "lt_wait (oy_threads y ! t) = No_Wait" using th(2) t(2) by (simp add: thread_work_def split: if_splits)
  then have q: "lt_queue (oy_threads y ! t) \<noteq> []" using at_firstD [OF y st t(1)] by auto
  from round_ok [OF E y t(1) q] obtain s' where
    s': "offload_round E t (oy_state y) = Inr s'" "round_done E t (oy_state y) s'" by blast
  have "ol_step E y (y\<lparr>oy_state := s'\<rparr>)" using t(1) w q s'(1) st by (intro ol_step.thread_round) simp_all
  moreover have "Suc (flush_work (y\<lparr>oy_state := s'\<rparr>)) = flush_work y" by (rule round_work [OF y st t(1) w q s'(2)]) simp
  ultimately show ?thesis using False st by (simp del: not_ex) (metis ol_sys.select_convs(4) ol_sys.update_convs(1) ol_sys.surjective)
qed

lemma flush_ends:
  assumes E: "ol_env_ok E" and y: "ol_ok E y" and st: "oy_flush y = At_First netdev"
  shows "\<exists>y'. (ol_step E)\<^sup>*\<^sup>* y y' \<and> oy_flush y' = Deletes_Port netdev"
  using y st
proof (induction "flush_work y" arbitrary: y)
  case 0
  then have "all_wait First_Wait (oy_state y)" using flush_progress [OF E 0(2,3)] by simp
  then have a: "ol_step E y (y\<lparr>oy_state := set_wait Second_Wait (oy_state y), oy_flush := Takes_Lock netdev\<rparr>)" (is "ol_step E y ?y1")
    using 0(3) by (intro ol_step.first_barrier)
  have b: "ol_step E ?y1 (?y1\<lparr>oy_flush := At_Second netdev\<rparr>)" (is "ol_step E ?y1 ?y2") by (rule ol_step.lock_taken) simp
  have "all_wait Second_Wait (oy_state ?y2)" by (simp add: all_wait_def set_wait_def)
  then have c: "ol_step E ?y2 (?y2\<lparr>oy_state := set_wait No_Wait (oy_state ?y2), oy_flush := Deletes_Port netdev\<rparr>)" (is "ol_step E ?y2 ?y3")
    by (intro ol_step.second_barrier) simp_all
  have "(ol_step E)\<^sup>*\<^sup>* y ?y3" using a b c by (meson converse_rtranclp_into_rtranclp rtranclp.rtrancl_refl)
  then show ?case by (intro exI [of _ ?y3]) simp
next
  case (Suc n)
  then obtain y1 where y1: "ol_step E y y1" "oy_flush y1 = At_First netdev" "Suc (flush_work y1) = flush_work y"
    using flush_progress [OF E Suc(3,4)] by auto
  then have "n = flush_work y1" using Suc(2) by simp
  from Suc(1) [OF this ol_step_ok [OF E Suc(3) y1(1)] y1(2)] show ?case
    using y1(1) by (meson converse_rtranclp_into_rtranclp)
qed

text \<open>From the first barrier until the port has been deleted no thread calls the device.\<close>

lemma no_call:
  assumes E: "ol_env_ok E" and y: "ol_ok E y" and st: "oy_flush y \<in> {Takes_Lock netdev, At_Second netdev, Deletes_Port netdev}"
    and s: "ol_step E y y'"
  shows "os_hw (oy_state y') = os_hw (oy_state y)"
  using s
proof (cases rule: ol_step.cases)
  case (ask_put item s')
  have "0 < os_refs (oy_state y) (of_flow item)" using ask_put(2) refs_exactD [OF ol_okD(3) [OF y]] by simp
  then show ?thesis using request_law [OF E ol_okD(1,2) [OF y], of item] ask_put(1,5) by auto
next
  case (ask_del item s')
  have "0 < os_refs (oy_state y) (of_flow item)" using ask_del(2) refs_exactD [OF ol_okD(3) [OF y]] by simp
  then show ?thesis using request_law [OF E ol_okD(1,2) [OF y], of item] ask_del(1,5) by auto
next
  case (thread_round t s')
  have "thread_flush_ok (oy_flush y) (oy_threads y ! t)" using ol_okD(5) [OF y] thread_round(2) by simp
  then have "port_lock_held (oy_flush y)" using st thread_round(3) by (auto simp: thread_flush_ok_def)
  then show ?thesis using thread_round(1,6) by simp
next
  case (flush_port n s')
  then show ?thesis using st by simp
qed (simp_all add: new_flow_at_def set_dead_def set_wait_def)

end
