(* ===== verification/Dpif_Offload_Rules.thy ===== *)
theory Dpif_Offload_Rules
  imports Dpif_Offload_Flush
begin

text \<open>
  The rules of the device refine the marks: as long as a device answers every call with success and is
  not flushed, its rules are those of the megaflows with a mark.
\<close>

section \<open>The rules of a device\<close>

text \<open>What a successful call does to the rules, and a failed one leaves.\<close>

definition hw_rule :: "hw_call \<times> int \<Rightarrow> (ufid \<rightharpoonup> u32) \<Rightarrow> (ufid \<rightharpoonup> u32)" where
  "hw_rule c rules =
     (case c of (call, ret) \<Rightarrow>
        if ret \<noteq> 0 then rules
        else case call of Hw_Put u mark port actions \<Rightarrow> rules(u \<mapsto> mark) | Hw_Del u \<Rightarrow> rules(u := None) | Hw_Flush netdev \<Rightarrow> rules)"

definition hw_rules :: "(hw_call \<times> int) list \<Rightarrow> (ufid \<rightharpoonup> u32)" where
  "hw_rules hist = fold hw_rule hist Map.empty"

lemma hw_rules_simps:
  "hw_rules [] = Map.empty" "hw_rules (hist @ [c]) = hw_rule c (hw_rules hist)"
  by (simp_all add: hw_rules_def)

definition never_flushed :: "(hw_call \<times> int) list \<Rightarrow> bool" where
  "never_flushed hist \<longleftrightarrow> (\<forall>c\<in>set hist. case fst c of Hw_Flush netdev \<Rightarrow> False | _ \<Rightarrow> True)"

lemma never_flushed_append: "never_flushed (hist @ calls) \<longleftrightarrow> never_flushed hist \<and> never_flushed calls"
  by (auto simp: never_flushed_def)

text \<open>The megaflows that are offloaded, with their marks.\<close>

definition offloaded :: "'p ol_state \<Rightarrow> ufid \<Rightarrow> u32 \<Rightarrow> bool" where
  "offloaded s u mark \<longleftrightarrow> (\<exists>f. marked s f \<and> mega_of s f = u \<and> mark_of s f = mark)"

definition rules_match :: "'p ol_state \<Rightarrow> bool" where
  "rules_match s \<longleftrightarrow> (\<forall>u mark. hw_rules (os_hw s) u = Some mark \<longleftrightarrow> offloaded s u mark)"

lemma rules_match_same:
  assumes "rules_match s" "os_hw s' = os_hw s" "\<And>u mark. offloaded s' u mark \<longleftrightarrow> offloaded s u mark"
  shows "rules_match s'"
  using assms by (simp add: rules_match_def)

lemma offloaded_same:
  assumes "\<And>g. mark_of s' g = mark_of s g" "\<And>g. marked s g \<Longrightarrow> mega_of s' g = mega_of s g"
  shows "offloaded s' u mark \<longleftrightarrow> offloaded s u mark"
  using assms unfolding offloaded_def by metis

section \<open>What a request does to them\<close>

text \<open>The marks of the other flows stay.\<close>

definition others_same :: "nat \<Rightarrow> 'p ol_state \<Rightarrow> 'p ol_state \<Rightarrow> bool" where
  "others_same f s s' \<longleftrightarrow> (\<forall>g. mega_of s' g = mega_of s g) \<and> (\<forall>g. g \<noteq> f \<longrightarrow> mark_of s' g = mark_of s g)"

lemma others_sameD:
  assumes "others_same f s s'"
  shows "mega_of s' g = mega_of s g" and "g \<noteq> f \<Longrightarrow> mark_of s' g = mark_of s g"
  using assms by (simp_all add: others_same_def)

lemma del_rules:
  assumes good: "hw_good E" and s: "marks_ok E s" "rules_match s" and o: "others_same f s s'" and d: "del_outcome E f s s'"
  shows "rules_match s'"
proof -
  have nf: "\<not> marked s' f" and hw: "os_hw s' = os_hw s @ (if \<not> marked s f \<or> shared s f then [] else [(Hw_Del (mega_of s f), 0)])"
    using d good by (simp_all add: del_outcome_def del_call_def hw_good_def)
  show ?thesis
  proof (cases "marked s f \<and> \<not> shared s f")
    case False
    have same: "offloaded s' u mark \<longleftrightarrow> offloaded s u mark" for u mark
    proof (cases "marked s f")
      case True
      then obtain g where g: "g \<noteq> f" "mark_of s g = mark_of s f" using False by blast
      have "mega_of s g = mega_of s f" using marks_okD(3) [OF s(1) True, of g] g(2) by simp
      then show ?thesis unfolding offloaded_def using others_sameD [OF o] g nf by metis
    next
      case False
      then show ?thesis unfolding offloaded_def using others_sameD [OF o] nf by metis
    qed
    have "os_hw s' = os_hw s" using hw False by (simp only: de_Morgan_conj not_not if_True append_Nil2)
    then show ?thesis by (rule rules_match_same [OF s(2) _ same])
  next
    case True
    have other: "mega_of s g \<noteq> mega_of s f" if "marked s g" "g \<noteq> f" for g
      using one_mark [OF s(1) that(1) conjunct1 [OF True]] True that by metis
    have "offloaded s' u mark \<longleftrightarrow> u \<noteq> mega_of s f \<and> offloaded s u mark" for u mark
      unfolding offloaded_def using others_sameD [OF o] nf other by metis
    moreover have "hw_rules (os_hw s') = (hw_rules (os_hw s))(mega_of s f := None)"
      using hw True by (simp add: hw_rules_simps hw_rule_def)
    ultimately show ?thesis using s(2) by (auto simp: rules_match_def)
  qed
qed

lemma put_rules:
  assumes good: "hw_good E" and s: "rules_match s" and s': "marks_ok E s'" and f: "f = of_flow item"
    and o: "others_same f s s'" and p: "put_outcome E item s ret s'"
  shows "rules_match s'"
proof (cases "ret = 0")
  case False
  then have "os_hw s' = os_hw s" "mark_of s' f = mark_of s f" using p good f by (auto simp: put_outcome_def)
  moreover have "mark_of s' g = mark_of s g" for g using others_sameD(2) [OF o, of g] calculation(2) by (cases "g = f") simp_all
  ultimately show ?thesis
    using rules_match_same [OF s] offloaded_same [of s' s] others_sameD(1) [OF o] by blast
next
  case True
  then have m: "marked s' f" "marked s f \<longrightarrow> mark_of s' f = mark_of s f"
    and c: "(os_hw s' = os_hw s \<and> (\<exists>g. marked s g \<and> mega_of s g = mega_of s f \<and> mark_of s' f = mark_of s g)) \<or>
      os_hw s' = os_hw s @ [(Hw_Put (mega_of s f) (mark_of s' f) (of_orig_in_port item) (of_actions item), 0)]"
    using p f by (simp_all add: put_outcome_def)
  have plus: "offloaded s' u mark \<longleftrightarrow> offloaded s u mark \<or> u = mega_of s f \<and> mark = mark_of s' f" for u mark
    unfolding offloaded_def using others_sameD [OF o] m by metis
  from c show ?thesis
  proof (elim disjE conjE exE)
    fix g
    assume hw: "os_hw s' = os_hw s" and g: "marked s g" "mega_of s g = mega_of s f" "mark_of s' f = mark_of s g"
    then have "offloaded s (mega_of s f) (mark_of s' f)" unfolding offloaded_def by metis
    then show ?thesis using rules_match_same [OF s hw] plus by blast
  next
    assume hw: "os_hw s' = os_hw s @ [(Hw_Put (mega_of s f) (mark_of s' f) (of_orig_in_port item) (of_actions item), 0)]"
    have one: "mark = mark_of s' f" if "offloaded s' (mega_of s f) mark" for mark
      using that one_mark [OF s' _ m(1)] others_sameD(1) [OF o] unfolding offloaded_def by metis
    have "hw_rules (os_hw s') = (hw_rules (os_hw s))(mega_of s f \<mapsto> mark_of s' f)" using hw by (simp add: hw_rules_simps hw_rule_def)
    then have new: "hw_rules (os_hw s') u = (if u = mega_of s f then Some (mark_of s' f) else hw_rules (os_hw s) u)" for u
      by (simp only: fun_upd_apply)
    have "hw_rules (os_hw s') u = Some mark \<longleftrightarrow> offloaded s' u mark" for u mark
    proof (cases "u = mega_of s f")
      case True
      then show ?thesis unfolding new using one plus by auto
    next
      case False
      then show ?thesis using s unfolding new plus rules_match_def by (simp only: if_False simp_thms)
    qed
    then show ?thesis unfolding rules_match_def by (intro allI)
  qed
qed

lemma flow_rules:
  assumes good: "hw_good E" and s: "marks_ok E s" "rules_match s" and s': "marks_ok E s'" and f: "f = of_flow item"
    and o: "others_same f s s'" and p: "flow_outcome E item s ret s'"
  shows "rules_match s'"
proof (cases "of_op item = Offload_Del")
  case True
  then show ?thesis using del_rules [OF good s o] p f by (simp add: flow_outcome_def)
next
  case False
  show ?thesis
  proof (cases "lo_dead (os_flows s f)")
    case True
    then have "os_hw s' = os_hw s" "os_flows s' = os_flows s" using p False f by (simp_all add: flow_outcome_def)
    then show ?thesis by (intro rules_match_same [OF s(2)]) (simp_all add: offloaded_def)
  next
    case live: False
    then show ?thesis using put_rules [OF good s(2) s' f o] p False f by (simp add: flow_outcome_def)
  qed
qed

section \<open>Every reachable state\<close>

lemma ask_same:
  assumes E: "ol_env_ok E" and y: "ol_ok E y" and held: "0 < oy_held y (of_flow item)" and s': "request_offload E item (oy_state y) = Inr s'"
  shows "os_hw s' = os_hw (oy_state y)" and "os_flows s' = os_flows (oy_state y)"
proof -
  have "0 < os_refs (oy_state y) (of_flow item)" using held refs_exactD [OF ol_okD(3) [OF y]] by simp
  then show "os_hw s' = os_hw (oy_state y)" "os_flows s' = os_flows (oy_state y)"
    using request_law [OF E ol_okD(1,2) [OF y], of item] s' by auto
qed

lemma flow_calls:
  assumes "flow_outcome E item s ret s'" "never_flushed (os_hw s')" "hw_good E"
  shows "never_flushed (os_hw s)"
  using assms(1)
proof (cases "of_op item = Offload_Del")
  case True
  then obtain calls where "os_hw s' = os_hw s @ calls" using assms(1) by (simp add: flow_outcome_def del_outcome_def)
  then show ?thesis using assms(2) by (simp add: never_flushed_append)
next
  case False
  have "\<exists>calls. os_hw s' = os_hw s @ calls"
  proof (cases "lo_dead (os_flows s (of_flow item))")
    case True
    then show ?thesis using assms(1) False by (simp add: flow_outcome_def)
  next
    case live: False
    then have "put_outcome E item s ret s'" using assms(1) False by (simp add: flow_outcome_def)
    then show ?thesis using assms(3) unfolding put_outcome_def by (cases "ret = 0") auto
  qed
  then show ?thesis using assms(2) by (auto simp: never_flushed_append)
qed

lemma round_calls:
  assumes good: "hw_good E" and r: "round_done E t s s'" and nf: "never_flushed (os_hw s')"
  shows "never_flushed (os_hw s)"
proof (cases "hd (queue_of s t)")
  case (Item_Flow item)
  then obtain ret where "flow_outcome E item s ret s'" using r by (auto simp: round_done_def)
  then show ?thesis using flow_calls nf good by blast
next
  case (Item_Flush netdev)
  then show ?thesis using r nf by (simp add: round_done_def never_flushed_append)
qed

lemma round_rules:
  assumes good: "hw_good E" and y: "ol_ok E y" and y': "marks_ok E s'" and r: "round_done E t (oy_state y) s'"
    and nf: "never_flushed (os_hw s')" and m: "rules_match (oy_state y)"
  shows "rules_match s'"
proof (cases "hd (queue_of (oy_state y) t)")
  case (Item_Flow item)
  then obtain ret where "flow_outcome E item (oy_state y) ret s'" "others_same (of_flow item) (oy_state y) s'"
    using r by (auto simp: round_done_def others_same_def)
  then show ?thesis using flow_rules [OF good ol_okD(1) [OF y] m y' refl] by blast
next
  case (Item_Flush netdev)
  then show ?thesis using r nf by (simp add: round_done_def never_flushed_append) (simp add: never_flushed_def)
qed

text \<open>A step that calls no device and leaves the megaflows with marks alone.\<close>

lemma quiet_rules:
  assumes m: "never_flushed (os_hw s) \<Longrightarrow> rules_match s" and nf: "never_flushed (os_hw s')" and hw: "os_hw s' = os_hw s"
    and f: "\<And>g. mark_of s' g = mark_of s g" "\<And>g. marked s g \<Longrightarrow> mega_of s' g = mega_of s g"
  shows "rules_match s'"
proof (rule rules_match_same [OF _ hw])
  show "rules_match s" using m nf unfolding hw .
  show "offloaded s' u mark \<longleftrightarrow> offloaded s u mark" for u mark by (rule offloaded_same [OF f])
qed

lemma step_rules:
  assumes E: "ol_env_ok E" and good: "hw_good E" and y: "ol_ok E y" and s: "ol_step E y y'"
    and m: "never_flushed (os_hw (oy_state y)) \<Longrightarrow> rules_match (oy_state y)" and nf: "never_flushed (os_hw (oy_state y'))"
  shows "rules_match (oy_state y')"
  using s
proof (cases rule: ol_step.cases)
  case (new_flow f fl)
  have un: "\<not> marked (oy_state y) f" by (rule refs_zeroD(2) [OF y new_flow(2)])
  show ?thesis by (rule quiet_rules [OF m nf]) (use un in \<open>auto simp: new_flow(1) new_flow_at_def\<close>)
next
  case (ask_put item s')
  show ?thesis by (rule quiet_rules [OF m nf]) (simp_all add: ask_put(1) ask_same [OF E y ask_put(2,5)])
next
  case (ask_del item s')
  show ?thesis by (rule quiet_rules [OF m nf]) (simp_all add: ask_del(1) ask_same [OF E y ask_del(2,5)])
next
  case (thread_round t s')
  from round_ok [OF E y thread_round(2,4)] have r: "round_done E t (oy_state y) s'" "ol_ok E (y\<lparr>oy_state := s'\<rparr>)"
    using thread_round(5) by auto
  have s': "marks_ok E s'" using ol_okD(1) [OF r(2)] by simp
  have nf': "never_flushed (os_hw s')" using nf thread_round(1) by simp
  show ?thesis using round_rules [OF good y s' r(1) nf' m [OF round_calls [OF good r(1) nf']]] thread_round(1) by simp
next
  case (flush_port netdev s')
  have "os_hw s' = os_hw (oy_state y)" "os_flows s' = os_flows (oy_state y)"
    using flush_enqueue_law [where netdev = netdev, OF E ol_okD(1,2) [OF y]] flush_port(3) by auto
  then show ?thesis by (intro quiet_rules [OF m nf]) (simp_all add: flush_port(1))
next
  case (take_ref f)
  show ?thesis by (rule quiet_rules [OF m nf]) (simp_all add: take_ref(1))
next
  case (drop_ref f)
  show ?thesis by (rule quiet_rules [OF m nf]) (simp_all add: drop_ref(1))
next
  case (mark_dead f)
  show ?thesis by (rule quiet_rules [OF m nf]) (simp_all add: mark_dead(1) set_dead_def)
next
  case (first_barrier n)
  show ?thesis by (rule quiet_rules [OF m nf]) (simp_all add: first_barrier(1) set_wait_def)
next
  case (lock_taken n)
  show ?thesis by (rule quiet_rules [OF m nf]) (simp_all add: lock_taken(1))
next
  case (second_barrier n)
  show ?thesis by (rule quiet_rules [OF m nf]) (simp_all add: second_barrier(1) set_wait_def)
next
  case (port_deleted n)
  show ?thesis by (rule quiet_rules [OF m nf]) (simp_all add: port_deleted(1))
qed

lemma reachable_rules:
  assumes E: "ol_env_ok E" and good: "hw_good E" and y: "ol_reachable E y"
  shows "never_flushed (os_hw (oy_state y)) \<Longrightarrow> rules_match (oy_state y)"
  using y
proof induction
  case (reach_start fl)
  then show ?case by (simp add: rules_match_def offloaded_def ol_start_def hw_rules_simps)
next
  case (reach_step y y')
  show ?case
    by (rule step_rules [OF E good ol_reachable_ok [OF E reach_step.hyps(1)] reach_step.hyps(2) reach_step.IH reach_step.prems])
qed

end
