(* ===== verification/Dpif_Offload_Properties.thy ===== *)
theory Dpif_Offload_Properties
  imports Dpif_Offload_Rules Dpif_Cache_Properties
begin

text \<open>What holds of the offload threads in every reachable state, with runs that show it can happen.\<close>

section \<open>Queues and maps of all threads\<close>

lemma concat_one_index:
  assumes "h < length xs" "\<And>u. u < length xs \<Longrightarrow> u \<noteq> h \<Longrightarrow> g (xs ! u) = []"
  shows "concat (map g xs) = g (xs ! h)"
proof -
  have "g x = []" if "x \<in> set (take h xs) \<union> set (drop (Suc h) xs)" for x
    using that assms by (auto simp: in_set_conv_nth)
  then have "concat (map g (take h xs)) = []" "concat (map g (drop (Suc h) xs)) = []" by auto
  moreover have "map g xs = map g (take h xs) @ g (xs ! h) # map g (drop (Suc h) xs)"
    using arg_cong [OF id_take_nth_drop [OF assms(1)], of "map g"] by simp
  ultimately show ?thesis by (metis append.simps(1) append_Nil2 concat.simps(2) concat_append)
qed

lemma pending_all:
  assumes "ol_env_ok E" and s: "queues_ok E s"
  shows "pending E s f = concat (map (\<lambda>th. items_of f (lt_queue th)) (os_threads s))"
proof (cases "os_threads s = []")
  case True
  then show ?thesis by (simp add: pending_def)
next
  case False
  then have h: "home E s f < length (os_threads s)" using s ol_env_okD(3) [OF assms(1)] by (auto simp: queues_ok_def home_def)
  have "items_of f (queue_of s u) = []" if "u < length (os_threads s)" "u \<noteq> home E s f" for u
    using queues_okD(3) [OF s that(1)] that(2) unfolding items_of_Nil_iff by blast
  from concat_one_index [OF h, of "\<lambda>th. items_of f (lt_queue th)", OF this] show ?thesis using h by (simp add: pending_def)
qed

lemma in_no_map:
  assumes "marks_ok E s" "\<not> marked s f" "th \<in> set (os_threads s)"
  shows "f \<notin> snd ` set (lt_mark_to_flow th)"
proof
  assume "f \<in> snd ` set (lt_mark_to_flow th)"
  moreover obtain t where "t < length (os_threads s)" "th = os_threads s ! t" using assms(3) by (auto simp: in_set_conv_nth)
  ultimately show False using maps_okD(3) [OF marks_okD(1) [OF assms(1)]] assms(2) by fastforce
qed

lemma references_law:
  assumes E: "ol_env_ok E" and y: "ol_ok E y"
  shows "os_refs (oy_state y) f = oy_held y f + of_bool (marked (oy_state y) f) +
      length (concat (map (\<lambda>th. items_of f (lt_queue th)) (oy_threads y)))"
    and "os_refs (oy_state y) f = 0 \<Longrightarrow> th \<in> set (oy_threads y) \<Longrightarrow> items_of f (lt_queue th) = [] \<and> f \<notin> snd ` set (lt_mark_to_flow th)"
proof -
  show r: "os_refs (oy_state y) f = oy_held y f + of_bool (marked (oy_state y) f) +
      length (concat (map (\<lambda>th. items_of f (lt_queue th)) (oy_threads y)))"
    using refs_exactD [OF ol_okD(3) [OF y], of f] unfolding pending_all [OF E ol_okD(2) [OF y]] .
  assume z: "os_refs (oy_state y) f = 0" and th: "th \<in> set (oy_threads y)"
  have "concat (map (\<lambda>th. items_of f (lt_queue th)) (oy_threads y)) = []" using r z by simp
  then have "items_of f (lt_queue th) = []" using th by simp
  then show "items_of f (lt_queue th) = [] \<and> f \<notin> snd ` set (lt_mark_to_flow th)"
    using in_no_map [OF ol_okD(1) [OF y] refs_zeroD(2) [OF y z] th] by blast
qed

lemma removed_law:
  assumes E: "ol_env_ok E" and y: "ol_ok E y" and d: "lo_dead (os_flows (oy_state y) f)"
    and q: "\<And>th. th \<in> set (oy_threads y) \<Longrightarrow> items_of f (lt_queue th) = []"
  shows "\<not> marked (oy_state y) f" and "os_refs (oy_state y) f = oy_held y f"
    and "th \<in> set (oy_threads y) \<Longrightarrow> f \<notin> snd ` set (lt_mark_to_flow th)"
proof -
  have p: "pending E (oy_state y) f = []" using q unfolding pending_all [OF E ol_okD(2) [OF y]] by simp
  show m: "\<not> marked (oy_state y) f" using gone_okD(1,2) [OF ol_okD(4) [OF y]] d p by blast
  show "os_refs (oy_state y) f = oy_held y f" using refs_exactD [OF ol_okD(3) [OF y], of f] p m by simp
  show "th \<in> set (oy_threads y) \<Longrightarrow> f \<notin> snd ` set (lt_mark_to_flow th)" by (rule in_no_map [OF ol_okD(1) [OF y] m])
qed

lemma mark_law:
  assumes y: "ol_ok E y" and m: "mark \<noteq> INVALID_FLOW_MARK"
  shows "case mark_to_flow_find E core mark (oy_state y) of
      Some f \<Rightarrow> mark_of (oy_state y) f = mark \<and> lo_pmd_id (os_flows (oy_state y) f) = core \<and>
        \<not> lo_dead (os_flows (oy_state y) f) \<and> 0 < os_refs (oy_state y) f
    | None \<Rightarrow> \<not> (\<exists>f. mark_of (oy_state y) f = mark \<and> lo_pmd_id (os_flows (oy_state y) f) = core \<and> \<not> lo_dead (os_flows (oy_state y) f))"
    and "mark_of (oy_state y) f = mark \<Longrightarrow> mark_of (oy_state y) g = mark \<longleftrightarrow> marked (oy_state y) g \<and> mega_of (oy_state y) g = mega_of (oy_state y) f"
proof -
  note s = ol_okD(1) [OF y]
  have "0 < os_refs (oy_state y) f" if "mark_of (oy_state y) f = mark" for f
    using that m refs_exactD [OF ol_okD(3) [OF y], of f] by simp
  then show "case mark_to_flow_find E core mark (oy_state y) of
      Some f \<Rightarrow> mark_of (oy_state y) f = mark \<and> lo_pmd_id (os_flows (oy_state y) f) = core \<and>
        \<not> lo_dead (os_flows (oy_state y) f) \<and> 0 < os_refs (oy_state y) f
    | None \<Rightarrow> \<not> (\<exists>f. mark_of (oy_state y) f = mark \<and> lo_pmd_id (os_flows (oy_state y) f) = core \<and> \<not> lo_dead (os_flows (oy_state y) f))"
    using mark_to_flow_find_law [OF s m, of core] by (cases "mark_to_flow_find E core mark (oy_state y)") auto
  assume f: "mark_of (oy_state y) f = mark"
  show "mark_of (oy_state y) g = mark \<longleftrightarrow> marked (oy_state y) g \<and> mega_of (oy_state y) g = mega_of (oy_state y) f"
    using marks_okD(3) [OF s, of f g] one_mark [OF s, of g f] f m by metis
qed

section \<open>A run\<close>

text \<open>Two offload threads, three marks, and a device that does what it is asked.\<close>

definition demo_ol_env :: "(u64 list, u32 list) ol_env" where
  "demo_ol_env =
     \<lparr>le_dfc = demo_dfc_env, le_hash_int = (\<lambda>m. m), le_flow_hash = (\<lambda>(a, b, c, d). a), le_pool_create = (\<lambda>_ _ _. []),
      le_new_id = (\<lambda>_ used. map_option (\<lambda>m. (m, m # used)) (find (\<lambda>m. m \<notin> set used) [1, 2, 3])),
      le_free_id = (\<lambda>_ m used. removeAll m used), le_used = (\<lambda>used. used),
      le_thread_of = (\<lambda>(a, b, c, d). if a = 0 then 0 else 1), le_port = (\<lambda>_ _. True), le_answer = (\<lambda>_ _. 0), le_thread_nb = 2\<rparr>"

lemma demo_hw_good: "hw_good demo_ol_env"
  by (simp add: hw_good_def demo_ol_env_def)

lemma demo_new_id:
  assumes "map_option (\<lambda>m. (m, m # used)) (find (\<lambda>m. m \<notin> set used) [1, 2, 3]) = Some (m, used')"
  shows "(m :: u32) \<noteq> 0 \<and> m \<notin> set used \<and> set used' = insert m (set used)"
  using assms by (auto split: if_splits)

lemma demo_ol_env_ok: "ol_env_ok demo_ol_env"
  unfolding ol_env_ok_def
proof (intro conjI allI)
  show "dfc_env_ok (le_dfc demo_ol_env)" by (simp add: demo_ol_env_def demo_dfc_env_ok)
  show "le_thread_of demo_ol_env u < le_thread_nb demo_ol_env" for u by (cases u) (simp add: demo_ol_env_def)
  show "le_used demo_ol_env (le_pool_create demo_ol_env n b k) = []" for n b k by (simp add: demo_ol_env_def)
  show "case le_new_id demo_ol_env t p of None \<Rightarrow> True
      | Some (m, p') \<Rightarrow> m \<noteq> 0 \<and> m \<notin> set (le_used demo_ol_env p) \<and> set (le_used demo_ol_env p') = insert m (set (le_used demo_ol_env p))" for t p
  proof (cases "le_new_id demo_ol_env t p")
    case (Some mp)
    then have "map_option (\<lambda>m. (m, m # p)) (find (\<lambda>m. m \<notin> set p) [1, 2, 3]) = Some (fst mp, snd mp)" by (simp add: demo_ol_env_def)
    from demo_new_id [OF this] show ?thesis unfolding Some option.case by (simp add: demo_ol_env_def split_beta)
  qed simp
  show "set (le_used demo_ol_env (le_free_id demo_ol_env t m p)) = set (le_used demo_ol_env p) - {m}" for t m p
    by (simp add: demo_ol_env_def)
qed

definition demo_ol_flow :: ol_flow where
  "demo_ol_flow = \<lparr>lo_mega_ufid = (7, 0, 0, 0), lo_in_port = 1, lo_pmd_id = 5, lo_mark = 0, lo_dead = False\<rparr>"

definition demo_request :: "offload_op \<Rightarrow> offload_item" where
  "demo_request op = \<lparr>of_flow = 4, of_op = op, of_actions = [], of_orig_in_port = 1, of_timestamp = 0\<rparr>"

text \<open>The flow 4 is made and asked for; a thread offloads it; it is removed, and a thread takes it away.\<close>

definition demo_y1 :: "u32 list ol_sys" where
  "demo_y1 = (ol_start (\<lambda>_. demo_ol_flow))\<lparr>oy_state := new_flow_at 4 demo_ol_flow (oy_state (ol_start (\<lambda>_. demo_ol_flow))),
     oy_held := (\<lambda>_. 0)(4 := 1), oy_gone := {} - {4}\<rparr>"

definition demo_y2 :: "u32 list ol_sys" where
  "demo_y2 = demo_y1\<lparr>oy_state := sum.projr (request_offload demo_ol_env (demo_request Offload_Add) (oy_state demo_y1))\<rparr>"

definition demo_y3 :: "u32 list ol_sys" where
  "demo_y3 = demo_y2\<lparr>oy_state := sum.projr (offload_round demo_ol_env 1 (oy_state demo_y2))\<rparr>"

definition demo_y4 :: "u32 list ol_sys" where
  "demo_y4 = demo_y3\<lparr>oy_state := sum.projr (request_offload demo_ol_env (demo_request Offload_Del) (oy_state demo_y3)), oy_gone := {4}\<rparr>"

definition demo_y5 :: "u32 list ol_sys" where
  "demo_y5 = demo_y4\<lparr>oy_state := set_dead 4 (oy_state demo_y4)\<rparr>"

definition demo_y6 :: "u32 list ol_sys" where
  "demo_y6 = demo_y5\<lparr>oy_state := sum.projr (offload_round demo_ol_env 1 (oy_state demo_y5))\<rparr>"

lemma demo_reach1: "ol_reachable demo_ol_env demo_y1"
proof -
  let ?y = "ol_start (\<lambda>_. demo_ol_flow) :: u32 list ol_sys"
  have "ol_step demo_ol_env ?y (?y\<lparr>oy_state := new_flow_at 4 demo_ol_flow (oy_state ?y), oy_held := (oy_held ?y)(4 := 1), oy_gone := oy_gone ?y - {4}\<rparr>)"
    by (rule ol_step.new_flow) (simp add: ol_start_def)
  then have "ol_step demo_ol_env ?y demo_y1" by (simp add: demo_y1_def ol_start_def)
  then show ?thesis by (rule reach_step [OF reach_start])
qed

lemma demo_ok1: "ol_ok demo_ol_env demo_y1" by (rule ol_reachable_ok [OF demo_ol_env_ok demo_reach1])

lemmas demo_defs = demo_ol_flow_def demo_request_def new_flow_at_def ol_start_def set_dead_def INVALID_FLOW_MARK_def

lemma demo_y1_sel:
  "oy_held demo_y1 = (\<lambda>_. 0)(4 := 1)" "oy_gone demo_y1 = {}" "oy_flush demo_y1 = Not_Flushing"
  "oy_state demo_y1 = \<lparr>os_flows = \<lambda>f. demo_ol_flow, os_refs = (\<lambda>_. 0)(4 := 1), os_threads = [], os_pool = None, os_hw = []\<rparr>"
  by (auto simp: demo_y1_def demo_defs fun_eq_iff)

lemma two_threads: "replicate 2 x = [x, x]" by (simp add: numeral_2_eq_2)

lemma demo_y2_state:
  "request_offload demo_ol_env (demo_request Offload_Add) (oy_state demo_y1) =
    Inr \<lparr>os_flows = \<lambda>f. demo_ol_flow, os_refs = (\<lambda>_. 0)(4 := 2),
      os_threads = [fresh_offload_thread, fresh_offload_thread\<lparr>lt_queue := [Item_Flow (demo_request Offload_Add)], lt_enqueued_item := 1\<rparr>],
      os_pool = None, os_hw = []\<rparr>"
  unfolding demo_y1_sel
  by (simp add: request_offload_def dp_netdev_offload_flow_enqueue_def dp_netdev_append_offload_def dp_netdev_offload_init_def
    put_thread_def fresh_offload_thread_def demo_defs demo_ol_env_def dp_netdev_flow_ref_def Let_def fun_eq_iff two_threads)

lemma demo_y2_sel:
  "oy_held demo_y2 = (\<lambda>_. 0)(4 := 1)" "oy_gone demo_y2 = {}" "oy_flush demo_y2 = Not_Flushing"
  "oy_state demo_y2 = \<lparr>os_flows = \<lambda>f. demo_ol_flow, os_refs = (\<lambda>_. 0)(4 := 2),
      os_threads = [fresh_offload_thread, fresh_offload_thread\<lparr>lt_queue := [Item_Flow (demo_request Offload_Add)], lt_enqueued_item := 1\<rparr>],
      os_pool = None, os_hw = []\<rparr>"
  using demo_y2_state by (simp_all add: demo_y2_def demo_y1_sel)

lemma demo_y3_state:
  "offload_round demo_ol_env 1 (oy_state demo_y2) =
    Inr \<lparr>os_flows = (\<lambda>f. demo_ol_flow)(4 := demo_ol_flow\<lparr>lo_mark := 1\<rparr>), os_refs = (\<lambda>_. 0)(4 := 2),
      os_threads = [fresh_offload_thread, fresh_offload_thread\<lparr>
        lt_megaflow_to_mark := [\<lparr>mm_hash = 7, mega_ufid = (7, 0, 0, 0), mm_mark = 1\<rparr>], lt_mark_to_flow := [(1, 4)]\<rparr>],
      os_pool = Some [1], os_hw = [(Hw_Put (7, 0, 0, 0) 1 1 [], 0)]\<rparr>"
  unfolding demo_y2_sel
  by (simp add: offload_round_def dp_offload_flow_def dp_netdev_flow_offload_put_def megaflow_to_mark_find_def megaflow_data_def
    flow_mark_alloc_def offload_install_def hw_do_def megaflow_to_mark_associate_def mark_to_flow_associate_def set_mark_def
    put_thread_def fresh_offload_thread_def demo_defs demo_ol_env_def dp_netdev_flow_ref_def dp_netdev_flow_unref_def
    dp_netdev_free_offload_def Let_def fun_eq_iff)

lemma demo_y3_sel:
  "oy_held demo_y3 = (\<lambda>_. 0)(4 := 1)" "oy_gone demo_y3 = {}" "oy_flush demo_y3 = Not_Flushing"
  "oy_state demo_y3 = \<lparr>os_flows = (\<lambda>f. demo_ol_flow)(4 := demo_ol_flow\<lparr>lo_mark := 1\<rparr>), os_refs = (\<lambda>_. 0)(4 := 2),
      os_threads = [fresh_offload_thread, fresh_offload_thread\<lparr>
        lt_megaflow_to_mark := [\<lparr>mm_hash = 7, mega_ufid = (7, 0, 0, 0), mm_mark = 1\<rparr>], lt_mark_to_flow := [(1, 4)]\<rparr>],
      os_pool = Some [1], os_hw = [(Hw_Put (7, 0, 0, 0) 1 1 [], 0)]\<rparr>"
  using demo_y3_state by (simp_all add: demo_y3_def demo_y2_sel)

lemma demo_y4_state:
  "request_offload demo_ol_env (demo_request Offload_Del) (oy_state demo_y3) =
    Inr ((oy_state demo_y3)\<lparr>os_refs := (\<lambda>_. 0)(4 := 3),
      os_threads := [fresh_offload_thread, (oy_threads demo_y3 ! 1)\<lparr>lt_queue := [Item_Flow (demo_request Offload_Del)], lt_enqueued_item := 1\<rparr>]\<rparr>)"
  unfolding demo_y3_sel
  by (simp add: request_offload_def dp_netdev_offload_flow_enqueue_def dp_netdev_append_offload_def dp_netdev_offload_init_def
    put_thread_def fresh_offload_thread_def demo_defs demo_ol_env_def dp_netdev_flow_ref_def Let_def fun_eq_iff)

lemma demo_y5_sel:
  "oy_held demo_y5 = (\<lambda>_. 0)(4 := 1)" "oy_gone demo_y5 = {4}" "oy_flush demo_y5 = Not_Flushing"
  "oy_state demo_y5 = (oy_state demo_y3)\<lparr>os_flows := (\<lambda>f. demo_ol_flow)(4 := demo_ol_flow\<lparr>lo_mark := 1, lo_dead := True\<rparr>),
      os_refs := (\<lambda>_. 0)(4 := 3),
      os_threads := [fresh_offload_thread, (oy_threads demo_y3 ! 1)\<lparr>lt_queue := [Item_Flow (demo_request Offload_Del)], lt_enqueued_item := 1\<rparr>]\<rparr>"
  using demo_y4_state by (simp_all add: demo_y5_def demo_y4_def demo_y3_sel set_dead_def fun_eq_iff)

lemma demo_y6_state:
  "offload_round demo_ol_env 1 (oy_state demo_y5) =
    Inr \<lparr>os_flows = (\<lambda>f. demo_ol_flow)(4 := demo_ol_flow\<lparr>lo_dead := True\<rparr>), os_refs = (\<lambda>_. 0)(4 := 1),
      os_threads = [fresh_offload_thread, fresh_offload_thread], os_pool = Some [],
      os_hw = [(Hw_Put (7, 0, 0, 0) 1 1 [], 0), (Hw_Del (7, 0, 0, 0), 0)]\<rparr>"
  unfolding demo_y5_sel demo_y3_sel
  by (simp add: offload_round_def dp_offload_flow_def dp_netdev_flow_offload_del_def mark_to_flow_disassociate_def last_flow_gone_def
    cmap_remove_def flow_mark_has_no_ref_def hw_do_def flow_mark_free_def megaflow_to_mark_disassociate_def megaflow_data_def set_mark_def
    put_thread_def fresh_offload_thread_def demo_defs demo_ol_env_def dp_netdev_flow_unref_def
    dp_netdev_free_offload_def Let_def fun_eq_iff)

lemma demo_y6_sel:
  "oy_held demo_y6 = (\<lambda>_. 0)(4 := 1)" "oy_gone demo_y6 = {4}" "oy_flush demo_y6 = Not_Flushing"
  "oy_state demo_y6 = \<lparr>os_flows = (\<lambda>f. demo_ol_flow)(4 := demo_ol_flow\<lparr>lo_dead := True\<rparr>), os_refs = (\<lambda>_. 0)(4 := 1),
      os_threads = [fresh_offload_thread, fresh_offload_thread], os_pool = Some [],
      os_hw = [(Hw_Put (7, 0, 0, 0) 1 1 [], 0), (Hw_Del (7, 0, 0, 0), 0)]\<rparr>"
  using demo_y6_state by (simp_all add: demo_y6_def demo_y5_sel)

lemma demo_reach2: "ol_reachable demo_ol_env demo_y2"
proof -
  have "ol_step demo_ol_env demo_y1 (demo_y1\<lparr>oy_state := oy_state demo_y2\<rparr>)"
    using demo_y2_state by (intro ol_step.ask_put [of demo_y1 "demo_request Offload_Add"]) (simp_all add: demo_y1_sel demo_y2_sel demo_request_def)
  then show ?thesis using reach_step [OF demo_reach1] by (simp add: demo_y2_def)
qed

lemma demo_reach3: "ol_reachable demo_ol_env demo_y3"
proof -
  have "ol_step demo_ol_env demo_y2 (demo_y2\<lparr>oy_state := oy_state demo_y3\<rparr>)"
    using demo_y3_state by (intro ol_step.thread_round [of 1]) (simp_all add: demo_y2_sel demo_y3_sel fresh_offload_thread_def)
  then show ?thesis using reach_step [OF demo_reach2] by (simp add: demo_y3_def)
qed

lemma demo_reach6: "ol_reachable demo_ol_env demo_y6"
proof -
  have "ol_step demo_ol_env demo_y3 (demo_y3\<lparr>oy_state := sum.projr (request_offload demo_ol_env (demo_request Offload_Del) (oy_state demo_y3)),
      oy_gone := insert (of_flow (demo_request Offload_Del)) (oy_gone demo_y3)\<rparr>)"
    using demo_y4_state by (intro ol_step.ask_del) (simp_all add: demo_y3_sel demo_request_def)
  then have "ol_reachable demo_ol_env demo_y4"
    using reach_step [OF demo_reach3] by (simp add: demo_y4_def demo_y3_sel(2) demo_request_def)
  moreover have "ol_step demo_ol_env demo_y4 (demo_y4\<lparr>oy_state := set_dead 4 (oy_state demo_y4)\<rparr>)"
    by (rule ol_step.mark_dead) (simp_all add: demo_y4_def demo_y3_sel(1))
  ultimately have "ol_reachable demo_ol_env demo_y5" unfolding demo_y5_def by (rule reach_step)
  moreover have "ol_step demo_ol_env demo_y5 (demo_y5\<lparr>oy_state := oy_state demo_y6\<rparr>)"
    using demo_y6_state by (intro ol_step.thread_round [of 1]) (simp_all add: demo_y3_sel demo_y5_sel demo_y6_sel fresh_offload_thread_def)
  ultimately show ?thesis using reach_step by (metis demo_y6_def demo_y6_sel(4) demo_y6_state sum.sel(2))
qed

text \<open>The main thread flushes the port 9.\<close>

definition demo_y7 :: "u32 list ol_sys" where
  "demo_y7 = demo_y3\<lparr>oy_state := sum.projr (dp_netdev_offload_flush_enqueue demo_ol_env 9 (oy_state demo_y3)), oy_flush := At_First 9\<rparr>"

lemma demo_reach7: "ol_reachable demo_ol_env demo_y7"
proof -
  obtain s' where "dp_netdev_offload_flush_enqueue demo_ol_env 9 (oy_state demo_y3) = Inr s'"
    using flush_port_ok [OF demo_ol_env_ok ol_reachable_ok [OF demo_ol_env_ok demo_reach3] demo_y3_sel(3)] by blast
  then have "ol_step demo_ol_env demo_y3 demo_y7"
    using ol_step.flush_port [OF demo_y3_sel(3)] by (simp add: demo_y7_def)
  then show ?thesis by (rule reach_step [OF demo_reach3])
qed

lemma demo_y7_flush: "oy_flush demo_y7 = At_First 9" by (simp add: demo_y7_def)

section \<open>Properties\<close>

text \<open>C20: In every reachable state of the threads no request fails an assertion, uses a thread that is not
  there or a pool that has not been made: each offload thread can do its next request, whatever the
  device answers and whichever ports are found, a thread that holds a flow can ask for it to be
  offloaded or taken away, and the main thread can ask all offload threads to flush a port.
\<close>

theorem offload_never_faults:
  assumes "ol_env_ok E" and "ol_reachable E y"
  shows "(\<forall>t<length (oy_threads y). \<exists>s'. offload_round E t (oy_state y) = Inr s') \<and>
    (\<forall>item. 0 < oy_held y (of_flow item) \<longrightarrow> (\<exists>s'. request_offload E item (oy_state y) = Inr s')) \<and>
    (\<forall>netdev. \<exists>s'. dp_netdev_offload_flush_enqueue E netdev (oy_state y) = Inr s')"
proof (intro conjI allI impI)
  note ok = ol_reachable_ok [OF assms]
  show "\<exists>s'. offload_round E t (oy_state y) = Inr s'" if "t < length (oy_threads y)" for t
    using round_ok [OF assms(1) ok that] that by (cases "lt_queue (oy_threads y ! t) = []") (auto simp: offload_round_def)
  show "\<exists>s'. request_offload E item (oy_state y) = Inr s'" if "0 < oy_held y (of_flow item)" for item
    using request_law [OF assms(1) ol_okD(1,2) [OF ok], of item] that refs_exactD [OF ol_okD(3) [OF ok], of "of_flow item"] by auto
  show "\<exists>s'. dp_netdev_offload_flush_enqueue E netdev (oy_state y) = Inr s'" for netdev
    using flush_enqueue_law [OF assms(1) ol_okD(1,2) [OF ok]] by blast
qed

theorem offload_never_faults_witness:
  "(\<exists>s'. offload_round demo_ol_env 1 (oy_state demo_y2) = Inr s') \<and>
   (\<exists>s'. request_offload demo_ol_env (demo_request Offload_Mod) (oy_state demo_y2) = Inr s')"
  using offload_never_faults [OF demo_ol_env_ok demo_reach2] by (simp add: demo_y2_sel demo_request_def)

text \<open>C14: The references of a flow are counted exactly: at any time a flow has one for each holder outside
  the offload threads, one when it has a mark, and one for each request about it that waits in
  any queue.  So a flow whose last reference is gone, and which is freed, is in no queue and in no map
  of any offload thread.
\<close>

theorem offload_references_are_exact:
  assumes "ol_env_ok E" and "ol_reachable E y"
  shows "os_refs (oy_state y) f = oy_held y f + of_bool (lo_mark (os_flows (oy_state y) f) \<noteq> INVALID_FLOW_MARK) +
      length (concat (map (\<lambda>th. items_of f (lt_queue th)) (oy_threads y))) \<and>
    (os_refs (oy_state y) f = 0 \<longrightarrow>
      (\<forall>th\<in>set (oy_threads y). items_of f (lt_queue th) = [] \<and> f \<notin> snd ` set (lt_mark_to_flow th)))"
  using references_law [OF assms(1) ol_reachable_ok [OF assms]] by blast

theorem offload_references_are_exact_witness:
  "os_refs (oy_state demo_y3) 4 = oy_held demo_y3 4 + 1 \<and> os_refs (oy_state demo_y3) 4 = 2 \<and>
   8 \<notin> snd ` set (lt_mark_to_flow (oy_threads demo_y3 ! 1))"
  using offload_references_are_exact [OF demo_ol_env_ok demo_reach3, of 4] offload_references_are_exact [OF demo_ol_env_ok demo_reach3, of 8]
  by (simp add: demo_y3_sel INVALID_FLOW_MARK_def fresh_offload_thread_def)

text \<open>C17: A mark stands for one megaflow and a megaflow has at most one mark, over the flows of all threads.
  The lookup for a packet that the device has marked finds a flow with this mark that belongs to the
  polling thread, is not dead and has a reference, and it finds one whenever there is one.
\<close>

theorem mark_identifies_megaflow:
  assumes "ol_env_ok E" and "ol_reachable E y" and "mark \<noteq> INVALID_FLOW_MARK"
  shows "(case mark_to_flow_find E core mark (oy_state y) of
      Some f \<Rightarrow> lo_mark (os_flows (oy_state y) f) = mark \<and> lo_pmd_id (os_flows (oy_state y) f) = core \<and>
        \<not> lo_dead (os_flows (oy_state y) f) \<and> 0 < os_refs (oy_state y) f
    | None \<Rightarrow> \<not> (\<exists>f. lo_mark (os_flows (oy_state y) f) = mark \<and> lo_pmd_id (os_flows (oy_state y) f) = core \<and>
        \<not> lo_dead (os_flows (oy_state y) f))) \<and>
    (\<forall>f g. lo_mark (os_flows (oy_state y) f) = mark \<longrightarrow>
      (lo_mark (os_flows (oy_state y) g) = mark \<longleftrightarrow>
         lo_mark (os_flows (oy_state y) g) \<noteq> INVALID_FLOW_MARK \<and>
         lo_mega_ufid (os_flows (oy_state y) g) = lo_mega_ufid (os_flows (oy_state y) f)))"
  using mark_law [OF ol_reachable_ok [OF assms(1,2)] assms(3)] by blast

theorem mark_identifies_megaflow_witness:
  "mark_to_flow_find demo_ol_env 5 1 (oy_state demo_y3) \<noteq> None \<and> mark_to_flow_find demo_ol_env 6 1 (oy_state demo_y3) = None"
proof -
  have m: "(1 :: u32) \<noteq> INVALID_FLOW_MARK" by (simp add: INVALID_FLOW_MARK_def)
  have "lo_mark (os_flows (oy_state demo_y3) 4) = 1" "lo_pmd_id (os_flows (oy_state demo_y3) 4) = 5"
    "\<not> lo_dead (os_flows (oy_state demo_y3) 4)" by (simp_all add: demo_y3_sel demo_ol_flow_def)
  then have "mark_to_flow_find demo_ol_env 5 1 (oy_state demo_y3) \<noteq> None"
    using mark_identifies_megaflow [OF demo_ol_env_ok demo_reach3 m, of 5]
    by (cases "mark_to_flow_find demo_ol_env 5 1 (oy_state demo_y3)") auto
  moreover have "lo_pmd_id (os_flows (oy_state demo_y3) f) \<noteq> 6" for f by (simp add: demo_y3_sel demo_ol_flow_def)
  then have "mark_to_flow_find demo_ol_env 6 1 (oy_state demo_y3) = None"
    using mark_identifies_megaflow [OF demo_ol_env_ok demo_reach3 m, of 6]
    by (cases "mark_to_flow_find demo_ol_env 6 1 (oy_state demo_y3)") auto
  ultimately show ?thesis by blast
qed

text \<open>C15: A flow that has been removed loses its mark: once no request about it waits, a dead flow has no mark
  and is in no map of an offload thread, whichever requests about it were made before its removal and
  however the offload threads and the removal interleaved. Its only references are those held
  outside the offload threads, so it is freed with the last of them.
\<close>

theorem removed_flow_loses_its_mark:
  assumes "ol_env_ok E" and "ol_reachable E y" and "lo_dead (os_flows (oy_state y) f)"
    and "\<forall>th\<in>set (oy_threads y). items_of f (lt_queue th) = []"
  shows "lo_mark (os_flows (oy_state y) f) = INVALID_FLOW_MARK \<and>
    (\<forall>th\<in>set (oy_threads y). f \<notin> snd ` set (lt_mark_to_flow th)) \<and> os_refs (oy_state y) f = oy_held y f"
  using removed_law [OF assms(1) ol_reachable_ok [OF assms(1,2)] assms(3)] assms(4) by blast

theorem removed_flow_loses_its_mark_witness:
  "lo_dead (os_flows (oy_state demo_y6) 4) \<and> os_refs (oy_state demo_y6) 4 = oy_held demo_y6 4"
proof -
  have d: "lo_dead (os_flows (oy_state demo_y6) 4)" "\<forall>th\<in>set (oy_threads demo_y6). items_of 4 (lt_queue th) = []"
    by (simp_all add: demo_y6_sel fresh_offload_thread_def)
  show ?thesis using removed_flow_loses_its_mark [OF demo_ol_env_ok demo_reach6 d] d(1) by blast
qed

text \<open>C18: A flush of a port ends. From every reachable state in which the main thread waits for the flush there
  are steps to where it has returned; no step of any thread, further requests of polling threads
  included, puts the flush off: the number of requests that the offload threads have to do until then
  never grows, each round of an offload thread makes it smaller, and when it is 0 the threads pass the barrier.
\<close>

theorem flush_completes:
  assumes "ol_env_ok E" and "ol_reachable E y" and "oy_flush y = At_First netdev"
  shows "(\<exists>y'. (ol_step E)\<^sup>*\<^sup>* y y' \<and> oy_flush y' = Deletes_Port netdev) \<and>
    (\<forall>y'. ol_step E y y' \<longrightarrow>
       (oy_flush y' = At_First netdev \<and> flush_work y' \<le> flush_work y) \<or> (oy_flush y' = Takes_Lock netdev \<and> flush_work y = 0)) \<and>
    (\<forall>t<length (oy_threads y). \<forall>s'. lt_wait (oy_threads y ! t) = No_Wait \<and> lt_queue (oy_threads y ! t) \<noteq> [] \<and>
       offload_round E t (oy_state y) = Inr s' \<longrightarrow> Suc (flush_work (y\<lparr>oy_state := s'\<rparr>)) = flush_work y)"
proof -
  note ok = ol_reachable_ok [OF assms(1,2)]
  have "Suc (flush_work (y\<lparr>oy_state := s'\<rparr>)) = flush_work y"
    if t: "t < length (oy_threads y)" "lt_wait (oy_threads y ! t) = No_Wait" "lt_queue (oy_threads y ! t) \<noteq> []"
      and r: "offload_round E t (oy_state y) = Inr s'" for t s'
  proof -
    have "round_done E t (oy_state y) s'" using round_ok [OF assms(1) ok t(1,3)] r by auto
    then show ?thesis by (intro round_work [OF ok assms(3) t]) simp_all
  qed
  then show ?thesis using flush_ends [OF assms(1) ok assms(3)] flush_step [OF assms(1) ok assms(3)] by blast
qed

theorem flush_completes_witness:
  "\<exists>y'. (ol_step demo_ol_env)\<^sup>*\<^sup>* demo_y7 y' \<and> oy_flush y' = Deletes_Port 9"
  using flush_completes [OF demo_ol_env_ok demo_reach7 demo_y7_flush] by blast

text \<open>C19: From the moment the threads have passed the first barrier of a flush until the port has been deleted
  no thread calls the device: whatever step is taken, the calls made so far stay the same, so that no
  flow is offloaded to a port after it has been flushed.
\<close>

theorem no_device_call_while_port_is_deleted:
  assumes "ol_env_ok E" and "ol_reachable E y"
    and "oy_flush y = Takes_Lock netdev \<or> oy_flush y = At_Second netdev \<or> oy_flush y = Deletes_Port netdev" and "ol_step E y y'"
  shows "os_hw (oy_state y') = os_hw (oy_state y)"
  by (rule no_call [OF assms(1) ol_reachable_ok [OF assms(1,2)] _ assms(4)]) (use assms(3) in blast)

theorem no_device_call_while_port_is_deleted_witness:
  "\<exists>y y'. ol_reachable demo_ol_env y \<and> oy_flush y = Deletes_Port 9 \<and> ol_step demo_ol_env y y' \<and>
    os_hw (oy_state y') = os_hw (oy_state y)"
proof -
  have reach: "ol_reachable demo_ol_env y'" if "(ol_step demo_ol_env)\<^sup>*\<^sup>* demo_y7 y'" for y'
    using that by induction (auto intro: demo_reach7 reach_step)
  obtain y where y: "(ol_step demo_ol_env)\<^sup>*\<^sup>* demo_y7 y" "oy_flush y = Deletes_Port 9"
    using flush_ends [OF demo_ol_env_ok ol_reachable_ok [OF demo_ol_env_ok demo_reach7] demo_y7_flush] by blast
  have "ol_step demo_ol_env y (y\<lparr>oy_flush := Not_Flushing\<rparr>)" by (rule ol_step.port_deleted [OF y(2)])
  then show ?thesis
    using no_device_call_while_port_is_deleted [OF demo_ol_env_ok reach [OF y(1)]] reach [OF y(1)] y(2) by blast
qed



end
