(* ===== verification/Spec2Isabelle.thy ===== *)
theory Spec2Isabelle
  imports Hopa_Properties Vswitchd_Properties Dpdk_Qos_Properties Dpdk_Tx_Properties Dpdk_Rx_Properties
    Dpif_Meter_Reach Dpif_Hopa_Properties Dpif_Sched_Rebalance Dpif_Dpcls_Properties Dpif_Cache_Properties
    Dpif_Fast_Properties Dpif_Tx_Properties Dpif_Offload_Properties
begin

text \<open>
  Repath measures the delay of several paths between two hosts and moves traffic to the best
  one.  The repository holds a stand-alone control plane on DPDK (\<open>src/repath_cp\<close>), a version
  of it built into Open vSwitch 2.17.2 for each of two hosts (\<open>openvswitch-2.17.2-cq-dpu\<close> and
  \<open>-yy-dpu\<close>, which differ in addresses and in which of them sends), and in the same files the
  parts of Open vSwitch it runs in: the DPDK ports (\<open>netdev-dpdk.c\<close>), the userspace datapath
  (\<open>dpif-netdev.c\<close>) and the daemon (\<open>ovs-vswitchd.c\<close>).  Where the two copies agree the model
  is of the first.

  \<^bold>\<open>How the parts interact.\<close>  A sender encodes one probe for each path with a time stamp; the
  path is in the UDP port or in the header.  The datapath of the other host finds control
  packets in the batches it recirculates and puts their headers on a ring; the progress thread
  takes them off, computes a delay, keeps a table of delays and the path with the least one,
  and answers packets that ask for a path.  Packets that the control plane sends are merged
  into the batch received on one port.  All other packets are classified by the datapath, are
  metered, and leave through ports with quality of service.  Queues of ports are assigned to
  polling threads.

  \<^bold>\<open>Basis.\<close>  \<open>Repath_Prelude\<close>: machine integers as words, C functions as results with a fault
  (\<open>c_result\<close>: null pointer, bounds, division by zero, failed assertion, undefined shift and
  conversion, end of the process), arrays, big-endian storage, layout of structs.
  \<open>C_Strings\<close> (printing and reading numbers), \<open>C_Double\<close> (the floating point the monitor uses,
  with its rounding), \<open>Net_Headers\<close> (Ethernet, IPv4 and UDP headers and their checksum),
  \<open>Ovs_Tables\<close> (the interface of a hash table as the locale \<open>node_table\<close>).

  \<^bold>\<open>Stand-alone control plane\<close> (\<open>hopa_cp.c\<close>, \<open>hopa_cp.h\<close>).  \<open>Hopa_Packet\<close> has the headers and
  encoders, \<open>Hopa_Monitor\<close> the table of delays, the search of the least delay and the check
  that asks for a new path, \<open>Hopa_Control\<close> start-up, dispatch of received packets, rounds of
  probes and the transmit loop.  Proved: a round of probes
  selects the fastest path whatever the offset of the clocks; the best path stays a first
  minimum of the table; which packets are processed without a fault; encoder and decoder agree;
  when the monitor asks for a new path and when it divides by zero; the transmit loop ends
  and sends everything once, in order.

  \<^bold>\<open>Control plane in Open vSwitch.\<close>  \<open>Vswitchd_Hopa\<close> models the additions to \<open>ovs-vswitchd.c\<close>
  (initialisation from the main loop, sender and progress threads, encoders, both hosts'
  addresses), \<open>Dpif_Hopa\<close> the part of \<open>dp_netdev_recirculate\<close> that takes control packets out
  of a batch, on bytes, and \<open>Dpdk_Rx\<close> the merge of outgoing control packets into what port
  \<open>pf1hpf\<close> receives.  Proved: the way of a round of probes from one host's encoders through the
  other's datapath to its table selects the fastest path; exactly the control packets of a
  batch are taken; the threads start once; when the merge faults and what it does otherwise.

  \<^bold>\<open>DPDK ports\<close> (\<open>netdev-dpdk.c\<close>).  \<open>Dpdk_Packet\<close> has the packet loop all filters share, with
  its equality to a filter on lists; \<open>Dpdk_Qos\<close> the policers and the operations on types and
  queues, \<open>Dpdk_Qos_Laws\<close> the interface \<open>dpdk_qos_ops\<close> as locales with both implementations as
  interpretations; \<open>Dpdk_Tx\<close> and \<open>Dpdk_Rx\<close> transmission and reception with all counters.
  Proved: every packet is sent, kept or released exactly once and counted; the operations on
  queues refine a map; what setting a type does on every branch.

  \<^bold>\<open>Meters\<close> (\<open>dpif-netdev.c\<close>).  \<open>Dpif_Meter\<close> (state and operations), \<open>Dpif_Meter_Laws\<close> (what a
  batch does, without loops), \<open>Dpif_Meter_Reach\<close> (reachable meters as an inductive relation and
  their invariant).  Proved: the rate limit over any sequence of batches, the verdict on each
  packet, refilling, and the truncation that keeps a slow band from refilling.

  \<^bold>\<open>Scheduling of receive queues\<close> (\<open>dpif-netdev.c\<close>).  \<open>Dpif_Sched\<close> has the lists of nodes and
  threads, the three algorithms, pinning, the variance and the decision to rebalance;
  \<open>Dpif_Sched_Laws\<close>, \<open>_Assign\<close>, \<open>_Pin\<close>, \<open>_Result\<close>, \<open>_Place\<close> and \<open>_Balance\<close> prove, over the
  interface of a way of selecting a thread (locales \<open>pmd_selection\<close> and
  \<open>balanced_selection\<close>, interpreted by the three algorithms), which thread each queue gets, that
  every queue gets one, and how even the distribution is; \<open>_Rebalance\<close> treats the dry run.

  \<^bold>\<open>Flow classifier\<close> (\<open>dpif-netdev.c\<close>).  \<open>Dpif_Key\<close> models sparse keys, masks and the match of a
  rule, \<open>Dpif_Dpcls\<close> subtables, rules, the batched lookup, sorting and reprobing,
  \<open>Dpif_Dpcls_Laws\<close>, \<open>_Inv\<close> and \<open>_Rules\<close> the lookup in terms of matching rules, the invariant,
  and each operation as an operation on a set of rules (locales \<open>rule_classifier\<close> and
  \<open>rule_set\<close>); \<open>Dpif_Dpcls_Properties\<close> interprets them on the model.

  \<^bold>\<open>Caches and flow table\<close> (\<open>dpif-netdev.c\<close>).  \<open>Dpif_Cache\<close> models the exact match cache, whose
  entries hold references to flows, and the signature match cache, with laws in
  \<open>Dpif_Cache_Laws\<close> and properties in \<open>Dpif_Cache_Properties\<close>.  \<open>Dpif_Flow\<close> models the flows of
  a thread: the flow table, the simple match table with the marks of its keys, the requests to
  the offload threads, and adding, changing, finding and removing a flow; \<open>Dpif_Flow_Laws\<close> has
  the invariant of a thread (tables, classifiers, counts and references agree), \<open>Dpif_Flow_Ops\<close>
  that every operation keeps it, \<open>Dpif_Flow_Properties\<close> the threads reachable from an empty one
  (\<open>flow_step\<close>).

  \<^bold>\<open>Fast path\<close> (\<open>dpif-netdev.c\<close>).  \<open>Dpif_Batch\<close> and \<open>Dpif_Fast\<close> model how a batch of packets goes
  through the caches (\<open>dfc_processing\<close>, \<open>smc_lookup_batch\<close>), the classifier and upcalls
  (\<open>fast_path_processing\<close>), and is grouped by flow and executed (\<open>dp_netdev_input__\<close>, here
  \<open>dp_netdev_input_packets\<close>).  \<open>flow->batch\<close>, a pointer into an array of the caller, is an index;
  \<open>fx_trylock\<close> holds when the lock of the upcalls is not available; the statistics of the cycles
  of upcalls are left out.  \<open>Dpif_Batch_Laws\<close> relates queueing to a grouping of the packets and
  the flow map to the places of the packets, \<open>Dpif_Fast_Laws\<close> has the loop over the caches,
  \<open>Dpif_Fast_Loops\<close> the rest over the interface of what is called (locale \<open>fast_path\<close>), which
  \<open>Dpif_Fast_Env\<close> interprets on the model's caches, classifiers and flow table.  Proved: every
  batch of at most 32 packets is processed, no packet is lost, doubled or overtaken by one of
  its flow, and a packet the control plane has accepted has a rule afterwards.

  \<^bold>\<open>Transmission of the datapath\<close> (\<open>dpif-netdev.c\<close>).  \<open>Dpif_Tx\<close> models what a polling thread does
  with packets that leave: its cached ports, the packets that wait on a port, flushing (a queue
  of its own, a shared queue chosen by the number of users, or one queue per hash), output and
  load balancing over the members of a bond, loading and freeing the cached ports; \<open>Dpif_Tx_Bond\<close>
  the bonds of the datapath, \<open>Dpif_Tx_Config\<close> what \<open>reconfigure_datapath\<close> does to ports, threads
  and bonds, \<open>Dpif_Tx_Qid\<close> how threads take and give back their own queues.  A pointer to a port
  is its position in the list of all ports; a port that was deleted stays in the list with
  \<open>po_listed\<close> false.  \<open>netdev_send\<close> is a log (\<open>ts_sends\<close>) that holds, with each batch, how many
  queues the port had.  An operation of a thread is atomic: the counters of the shared queues are
  under a mutex in the code, and the ports of a thread change only while it reloads.
  \<open>Dpif_Tx_Laws\<close>, \<open>_Flush\<close>, \<open>_Output\<close>, \<open>_Bond\<close>, \<open>_Load\<close> prove each operation against the stream
  of a flow on a port (what was sent, then what waits: \<open>flow_stream\<close>); \<open>_Bonds\<close> the copies of a
  bond; \<open>Dpif_Tx_Threads\<close> states a counter that threads share as the locale \<open>shared_counter\<close>, and
  \<open>Dpif_Tx_System\<close> the threads and the main thread as a step relation (\<open>tx_sys_step\<close>), with the
  locale interpreted on its steps.  Proved (\<open>Dpif_Tx_Properties\<close>): no operation faults, no flow
  is reordered and no packet lost by output, flush, load balancing or reload; the counters are the
  numbers of users in every reachable state; after a reconfiguration every port has its mode and
  every busy thread every port and bond; the threads' own queues are distinct and exist, in every
  order in which the threads take them.

  \<^bold>\<open>Hardware offload threads\<close> (\<open>dpif-netdev.c\<close>).  Polling threads ask for flows to be offloaded to
  the network device or taken away; offload threads do the requests, each those of its own
  megaflows.  \<open>Dpif_Offload\<close> models the marks (\<open>flow_mark_alloc\<close>, \<open>flow_mark_free\<close>), the maps
  \<open>megaflow_to_mark\<close> and \<open>mark_to_flow\<close> of each thread, the queues, the requests
  (\<open>dp_netdev_flow_offload_put\<close> with its label \<open>err_free\<close>, \<open>dp_netdev_flow_offload_del\<close>) and one
  turn of \<open>dp_netdev_flow_offload_main\<close> (\<open>offload_round\<close>).  The calls of the device are a log
  (\<open>os_hw\<close>) whose answers, like the ports that are found, may depend on what came before.
  \<open>Dpif_Offload_System\<close> puts these threads, those that hold, request and remove flows, and the
  main thread in \<open>dp_netdev_offload_flush\<close> together as a step relation (\<open>ol_step\<close>): a request is one
  step, which takes the lock of the ports when it calls the device; the two calls of
  \<open>ovs_barrier_block\<close> are steps of all threads.  \<open>Dpif_Offload_Laws\<close>, \<open>_Ops\<close> and \<open>_Put\<close> prove that
  every request keeps the marks consistent (\<open>marks_ok\<close>: the maps and the pool are determined by
  the marks of the flows), \<open>_Steps\<close> and \<open>_Inv\<close> that every step keeps the invariant \<open>ol_ok\<close>, \<open>_Flush\<close>
  that a flush ends (\<open>flush_work\<close>) and \<open>_Rules\<close> that the rules of the device refine the marks.
  Proved (\<open>Dpif_Offload_Properties\<close>): no request fails an assertion; references are exact, so
  that a freed flow is in no queue and no map; a mark stands for one megaflow and is found; a
  removed flow loses its mark in every interleaving; a flush completes, and no device is called
  from its first barrier until the port has been deleted.

  \<^bold>\<open>Bounds and fuel.\<close>  Loops over lists are structural.  The transmit loops of the ports may not
  end for a device that accepts nothing, so they are partial functions, with proofs that they
  return for every device that never accepts more than it is offered.  Two loops count down: the
  search of \<open>sched_pmd_next_noniso_rr\<close> has the bound of the code itself, which is proved to
  reach every thread, and the forwarding loop of \<open>main\<close> (\<open>tx_drain\<close>) has fuel, proved enough
  when the port accepts a packet at least every so many calls.  Counters and times keep their C
  width; where the width matters a theorem says so, otherwise a hypothesis bounds the operands.

  \<^bold>\<open>Parameters.\<close>  Code that is not in the repository is a parameter: DPDK's meters, rings and
  burst functions, hash functions, the flow and miniflow library, the lookup functions of
  subtables, priority vectors, the allocator, and the order in which hash maps are
  enumerated.  What the code relies on is stated as a law of these parameters, with a concrete
  instance in which the law is proved, and every theorem that assumes a law has a witness on
  that instance.

  \<^bold>\<open>Not modelled.\<close>  Logging, locks, RCU and memory order (each operation is atomic);
  the options and start-up of the daemon; in \<open>dpif-netdev.c\<close> the parsing of Netlink attributes,
  adding and deleting ports, the recovery of offloaded packets, the statistics of offload
  threads, actions other than output, load balancing and meters, connection tracking and the
  commands of \<open>unixctl\<close>; in \<open>netdev-dpdk.c\<close> memory pools, configuration, statistics of the
  hardware and flow offload, which are sequences of calls into DPDK.  \<open>src/backup\<close> is an earlier
  copy of the control plane and is not built.
\<close>

end
